(* ===== verification/Prelude.thy ===== *)
theory Prelude
  imports Main "HOL-Library.Word" "HOL-Library.Monad_Syntax"
begin

text \<open>
  Shared material of the development: machine types, the partial (option-valued) memory
  operations in which every kernel routine is written, and the theory of doubly linked
  lists threaded through a memory.  A value \<open>None\<close> of a routine stands for undefined
  behaviour of the C code: a dereference of the null pointer or of an address that holds no
  object, or an array index out of range.  A theorem that a routine returns \<open>Some\<close> is
  therefore a memory-safety theorem.
\<close>

unbundle bit_operations_syntax

named_theorems dl_simps \<open>rewrite rules for doubly linked segments\<close>
named_theorems os_frame \<open>which parts of the kernel state an operation leaves alone\<close>

type_synonym ptr = nat

abbreviation (input) NULL :: ptr where "NULL \<equiv> 0"

subsection \<open>Counters\<close>

lemma unat_dec: "unat (w :: 'a::len word) = Suc n \<Longrightarrow> unat (w - 1) = n"
  by (metis Suc_inject diff_Suc_1 nat.distinct(1) unat_0 unat_minus_one)

lemma unat_inc: "unat (w :: 'a::len word) = n \<Longrightarrow> Suc n < 2 ^ LENGTH('a) \<Longrightarrow> unat (w + 1) = Suc n"
  by (simp add: unat_word_ariths)

lemma unat_eq_numD:
  "unat (w :: 'a::len word) = Suc 0 \<Longrightarrow> w = 1"
  "unat (w :: 'a::len word) = 0 \<Longrightarrow> w = 0"
  by (simp_all add: word_eq_iff_unsigned [where 'a = nat])

subsection \<open>Partial memories\<close>

text \<open>A memory maps the address of an object to the object; \<open>mod_at\<close> is the C statement
  \<open>p->field = v\<close>, undefined when \<open>p\<close> does not address an object.\<close>

definition mod_at :: "'k \<Rightarrow> ('n \<Rightarrow> 'n) \<Rightarrow> ('k \<rightharpoonup> 'n) \<Rightarrow> ('k \<rightharpoonup> 'n) option" where
  "mod_at p f h = (case h p of None \<Rightarrow> None | Some n \<Rightarrow> Some (h(p \<mapsto> f n)))"

lemma mod_at_Some [simp]: "h p = Some n \<Longrightarrow> mod_at p f h = Some (h(p \<mapsto> f n))"
  by (simp add: mod_at_def)

lemma mod_at_eq_Some: "mod_at p f h = Some h' \<longleftrightarrow> (\<exists>n. h p = Some n \<and> h' = h(p \<mapsto> f n))"
  by (auto simp: mod_at_def split: option.splits)

text \<open>The value of a pointer field of the object at an address (null where there is none).\<close>

definition fld :: "('n \<Rightarrow> 'v::zero) \<Rightarrow> ('k \<rightharpoonup> 'n) \<Rightarrow> 'k \<Rightarrow> 'v" where
  "fld g h p = (case h p of None \<Rightarrow> 0 | Some n \<Rightarrow> g n)"

lemma fld_Some: "h p = Some n \<Longrightarrow> fld g h p = g n"
  by (simp add: fld_def)

lemma fld_upd [simp]: "fld g (h(p \<mapsto> n)) = (fld g h)(p := g n)"
  by (auto simp: fld_def)

lemma fld_upd_same: "h p = Some n \<Longrightarrow> (fld g h)(p := g n) = fld g h"
  by (auto simp: fld_def)

lemma fld_upd_same' [simp]: "h p = Some n \<Longrightarrow> g m = g n \<Longrightarrow> (fld g h)(p := g m) = fld g h"
  by (auto simp: fld_def)

subsection \<open>Doubly linked segments\<close>

text \<open>\<open>hd0 e xs\<close> is the first address of \<open>xs\<close>, or \<open>e\<close> for the empty list; \<open>last0 b xs\<close>
  the last one, or \<open>b\<close>.\<close>

definition hd0 :: "'a \<Rightarrow> 'a list \<Rightarrow> 'a" where
  "hd0 e xs = (case xs of [] \<Rightarrow> e | x # _ \<Rightarrow> x)"

definition last0 :: "'a \<Rightarrow> 'a list \<Rightarrow> 'a" where
  "last0 b xs = (if xs = [] then b else last xs)"

lemma hd0_simps [simp]: "hd0 e [] = e" "hd0 e (x # xs) = x"
  by (simp_all add: hd0_def)

lemma last0_simps [simp]: "last0 b [] = b" "last0 b (x # xs) = last0 x xs"
  "last0 b (xs @ [x]) = x"
  by (simp_all add: last0_def)

lemma hd0_append [simp]: "hd0 e (xs @ ys) = hd0 (hd0 e ys) xs"
  by (cases xs) simp_all

lemma last0_append [simp]: "last0 b (xs @ ys) = last0 (last0 b xs) ys"
  by (induction xs arbitrary: b) simp_all

lemma hd0_nonempty: "xs \<noteq> [] \<Longrightarrow> hd0 e xs = hd xs"
  by (cases xs) simp_all

lemma last0_nonempty: "xs \<noteq> [] \<Longrightarrow> last0 b xs = last xs"
  by (simp add: last0_def)

lemma hd0_in: "xs \<noteq> [] \<Longrightarrow> hd0 e xs \<in> set xs"
  by (cases xs) simp_all

lemma last0_in: "xs \<noteq> [] \<Longrightarrow> last0 b xs \<in> set xs"
  by (simp add: last0_def)

text \<open>\<open>dl nx pv b xs e\<close>: the nodes \<open>xs\<close> are linked forwards by \<open>nx\<close> and backwards by
  \<open>pv\<close>; the first one points back to \<open>b\<close> and the last one on to \<open>e\<close>.\<close>

primrec dl :: "('a \<Rightarrow> 'a) \<Rightarrow> ('a \<Rightarrow> 'a) \<Rightarrow> 'a \<Rightarrow> 'a list \<Rightarrow> 'a \<Rightarrow> bool" where
  "dl nx pv b [] e = True"
| "dl nx pv b (x # xs) e = (pv x = b \<and> nx x = hd0 e xs \<and> dl nx pv x xs e)"

lemma dl_append [dl_simps]:
  "dl nx pv b (xs @ ys) e \<longleftrightarrow> dl nx pv b xs (hd0 e ys) \<and> dl nx pv (last0 b xs) ys e"
  by (induction xs arbitrary: b) auto

lemma dl_upd_nx [simp]: "x \<notin> set xs \<Longrightarrow> dl (nx(x := v)) pv b xs e = dl nx pv b xs e"
  by (induction xs arbitrary: b) auto

lemma dl_upd_pv [simp]: "x \<notin> set xs \<Longrightarrow> dl nx (pv(x := v)) b xs e = dl nx pv b xs e"
  by (induction xs arbitrary: b) auto

lemma dl_cong:
  "(\<And>x. x \<in> set xs \<Longrightarrow> nx x = nx' x) \<Longrightarrow> (\<And>x. x \<in> set xs \<Longrightarrow> pv x = pv' x) \<Longrightarrow>
   dl nx pv b xs e = dl nx' pv' b xs e"
  by (induction xs arbitrary: b) auto

lemma dl_set_last:
  "dl nx pv b xs e \<Longrightarrow> distinct xs \<Longrightarrow> xs \<noteq> [] \<Longrightarrow> dl (nx(last0 b xs := e')) pv b xs e'"
proof (induction xs arbitrary: b)
  case Nil
  then show ?case by simp
next
  case (Cons x xs)
  show ?case
  proof (cases "xs = []")
    case True
    with Cons.prems show ?thesis by simp
  next
    case False
    from Cons.prems have "dl nx pv x xs e" "distinct xs" by simp_all
    from Cons.IH [OF this False] have "dl (nx(last0 x xs := e')) pv x xs e'" .
    moreover have "last0 x xs \<noteq> x" using False Cons.prems(2) last0_in [of xs x] by auto
    ultimately show ?thesis using Cons.prems False by (simp add: hd0_nonempty fun_upd_def)
  qed
qed

lemma dl_set_first:
  "dl nx pv b xs e \<Longrightarrow> distinct xs \<Longrightarrow> xs \<noteq> [] \<Longrightarrow> dl nx (pv(hd0 e xs := b')) b' xs e"
  by (cases xs) auto

text \<open>Links that are not read may be overwritten: the frame rule for several updates at once.\<close>

lemma dl_last: "dl nx pv b xs e \<Longrightarrow> xs \<noteq> [] \<Longrightarrow> nx (last0 b xs) = e"
  by (induction xs arbitrary: b) (auto split: if_splits, metis hd0_simps(1) last0_simps(1))

lemma dl_first: "dl nx pv b xs e \<Longrightarrow> xs \<noteq> [] \<Longrightarrow> pv (hd0 e xs) = b"
  by (cases xs) auto

text \<open>The neighbours of a node.\<close>

lemma dl_split:
  "dl nx pv b (xs @ x # ys) e \<longleftrightarrow>
     dl nx pv b xs x \<and> pv x = last0 b xs \<and> nx x = hd0 e ys \<and> dl nx pv x ys e"
  by (auto simp: dl_simps)

subsubsection \<open>Link surgery\<close>

lemma dl_insert:
  assumes "dl nx pv b xs (hd0 e ys)" "dl nx pv (last0 b xs) ys e"
    and "distinct (xs @ ys)" "x \<notin> set (xs @ ys)"
    and nx': "nx' = (if xs = [] then nx else nx(last0 b xs := x))(x := hd0 e ys)"
    and pv': "pv' = (if ys = [] then pv else pv(hd0 e ys := x))(x := last0 b xs)"
  shows "dl nx' pv' b (xs @ x # ys) e"
proof -
  have "dl nx' pv' b xs x"
  proof (cases "xs = []")
    case False
    have "dl (nx(last0 b xs := x)) pv b xs x" using assms False by (intro dl_set_last) auto
    then have "dl (nx(last0 b xs := x)) (if ys = [] then pv else pv(hd0 e ys := x)) b xs x"
      using assms(3) hd0_in [of ys e] by (cases "ys = []") (auto intro: dl_upd_pv [THEN iffD2])
    with False assms(4) show ?thesis by (simp add: nx' pv')
  qed simp
  moreover have "dl nx' pv' x ys e"
  proof (cases "ys = []")
    case False
    have "dl nx (pv(hd0 e ys := x)) x ys e" using assms False by (intro dl_set_first) auto
    then have "dl (if xs = [] then nx else nx(last0 b xs := x)) (pv(hd0 e ys := x)) x ys e"
      using assms(3) last0_in [of xs b] by (cases "xs = []") (auto intro: dl_upd_nx [THEN iffD2])
    with False assms(4) show ?thesis by (simp add: nx' pv')
  qed simp
  ultimately show ?thesis by (simp add: dl_split nx' pv')
qed

lemma dl_remove:
  assumes "dl nx pv b (xs @ x # ys) e" "distinct (xs @ x # ys)"
    and nx': "nx' = (if xs = [] then nx else nx(last0 b xs := hd0 e ys))"
    and pv': "pv' = (if ys = [] then pv else pv(hd0 e ys := last0 b xs))"
  shows "dl nx' pv' b (xs @ ys) e"
proof -
  from assms(1) have d: "dl nx pv b xs x" "dl nx pv x ys e" by (auto simp: dl_split)
  have "dl nx' pv' b xs (hd0 e ys)"
  proof (cases "xs = []")
    case False
    have "dl (nx(last0 b xs := hd0 e ys)) pv b xs (hd0 e ys)"
      using d assms(2) False by (intro dl_set_last) auto
    moreover have "ys \<noteq> [] \<Longrightarrow> hd0 e ys \<notin> set xs" using assms(2) hd0_in [of ys e] by auto
    ultimately show ?thesis using False by (auto simp: nx' pv')
  qed simp
  moreover have "dl nx' pv' (last0 b xs) ys e"
  proof (cases "ys = []")
    case False
    have "dl nx (pv(hd0 e ys := last0 b xs)) (last0 b xs) ys e"
      using d assms(2) False by (intro dl_set_first) auto
    moreover have "xs \<noteq> [] \<Longrightarrow> last0 b xs \<notin> set ys" using assms(2) last0_in [of xs b] by auto
    ultimately show ?thesis using False by (auto simp: nx' pv')
  qed simp
  ultimately show ?thesis by (simp add: dl_simps)
qed

subsubsection \<open>Lists in a memory\<close>

text \<open>\<open>linked nx pv h a b xs\<close>: the memory \<open>h\<close> holds a doubly linked list of the nodes \<open>xs\<close>
  with head pointer \<open>a\<close> and tail pointer \<open>b\<close>; \<open>nx\<close> and \<open>pv\<close> are the link fields.\<close>

definition linked :: "('n \<Rightarrow> ptr) \<Rightarrow> ('n \<Rightarrow> ptr) \<Rightarrow> (ptr \<rightharpoonup> 'n) \<Rightarrow> ptr \<Rightarrow> ptr \<Rightarrow> ptr list \<Rightarrow> bool" where
  "linked nx pv h a b xs \<longleftrightarrow>
     distinct xs \<and> NULL \<notin> set xs \<and> set xs \<subseteq> dom h \<and> a = hd0 NULL xs \<and> b = last0 NULL xs \<and>
     dl (fld nx h) (fld pv h) NULL xs NULL"

lemma linked_empty [simp]: "linked nx pv h a b [] \<longleftrightarrow> a = NULL \<and> b = NULL"
  by (auto simp: linked_def)

lemma linkedD:
  assumes "linked nx pv h a b xs"
  shows "distinct xs" "NULL \<notin> set xs" "set xs \<subseteq> dom h" "a = hd0 NULL xs" "b = last0 NULL xs"
    "dl (fld nx h) (fld pv h) NULL xs NULL"
  using assms by (auto simp: linked_def)

lemma linked_head_null: "linked nx pv h a b xs \<Longrightarrow> a = NULL \<longleftrightarrow> xs = []"
  by (cases xs) (auto simp: linked_def)

lemma linked_ends:
  assumes "linked nx pv h a b xs" "xs \<noteq> []"
  obtains m n where "h a = Some m" "pv m = NULL" "a \<in> set xs" "h b = Some n" "nx n = NULL" "b \<in> set xs"
proof -
  note d = linkedD [OF assms(1)]
  have "a \<in> set xs" "b \<in> set xs" using d assms(2) hd0_in last0_in by auto
  moreover then obtain m n where mn: "h a = Some m" "h b = Some n" using d(3) by blast
  moreover have "pv m = NULL" "nx n = NULL"
    using dl_first [OF d(6) assms(2)] dl_last [OF d(6) assms(2)] mn d(4,5) by (simp_all add: fld_Some)
  ultimately show ?thesis using that by blast
qed

lemma linked_node:
  assumes "linked nx pv h a b (xs @ x # ys)"
  obtains n where "h x = Some n" "nx n = hd0 NULL ys" "pv n = last0 NULL xs"
    "x \<noteq> NULL" "x \<notin> set xs" "x \<notin> set ys"
proof -
  note d = linkedD [OF assms]
  then obtain n where "h x = Some n" by auto
  with d that show ?thesis by (auto simp: dl_split fld_Some)
qed

text \<open>Memories that agree on the link fields of the nodes hold the same lists.\<close>

lemma linked_cong:
  assumes "\<And>x. x \<in> set xs \<Longrightarrow> map_option nx (h' x) = map_option nx (h x)"
    and "\<And>x. x \<in> set xs \<Longrightarrow> map_option pv (h' x) = map_option pv (h x)"
  shows "linked nx pv h' a b xs = linked nx pv h a b xs"
proof -
  have "fld nx h' x = fld nx h x" "fld pv h' x = fld pv h x" "h' x = None \<longleftrightarrow> h x = None" if "x \<in> set xs" for x
    using assms(1,2) [OF that] by (auto simp: fld_def map_option_case split: option.splits)
  then show ?thesis unfolding linked_def
    using dl_cong [of xs "fld nx h'" "fld nx h" "fld pv h'" "fld pv h"] by (auto simp: domIff subset_iff)
qed

lemma linked_upd_other [simp]:
  "x \<notin> set xs \<Longrightarrow> linked nx pv (h(x \<mapsto> n)) a b xs = linked nx pv h a b xs"
  by (rule linked_cong) auto

lemma linked_insert:
  assumes "linked nx pv h a b (xs @ ys)" "x \<notin> set (xs @ ys)" "x \<noteq> NULL" "insert x (dom h) \<subseteq> dom h'"
    and nx: "\<And>y. y \<in> set (xs @ x # ys) \<Longrightarrow> fld nx h' y =
       (if y = x then hd0 NULL ys else if xs \<noteq> [] \<and> y = last0 NULL xs then x else fld nx h y)"
    and pv: "\<And>y. y \<in> set (xs @ x # ys) \<Longrightarrow> fld pv h' y =
       (if y = x then last0 NULL xs else if ys \<noteq> [] \<and> y = hd0 NULL ys then x else fld pv h y)"
    and "a' = hd0 x xs" "b' = last0 x ys"
  shows "linked nx pv h' a' b' (xs @ x # ys)"
proof -
  note d = linkedD [OF assms(1)]
  from d(6) have "dl (fld nx h) (fld pv h) NULL xs (hd0 NULL ys)"
    "dl (fld nx h) (fld pv h) (last0 NULL xs) ys NULL" by (simp_all add: dl_simps)
  note dl_insert [OF this d(1) assms(2) refl refl]
  then have "dl (fld nx h') (fld pv h') NULL (xs @ x # ys) NULL"
    by (rule dl_cong [THEN iffD2, rotated -1]) (use nx pv in auto)
  moreover have "set (xs @ x # ys) \<subseteq> dom h'"
    using order_trans [OF d(3), of "dom h'"] assms(4) by (simp add: insert_absorb)
  ultimately show ?thesis using d assms(2,3,7,8) by (simp add: linked_def)
qed

lemma linked_remove:
  assumes "linked nx pv h a b (xs @ x # ys)" "dom h \<subseteq> dom h'"
    and nx: "\<And>y. y \<in> set (xs @ ys) \<Longrightarrow> fld nx h' y = (if xs \<noteq> [] \<and> y = last0 NULL xs then hd0 NULL ys else fld nx h y)"
    and pv: "\<And>y. y \<in> set (xs @ ys) \<Longrightarrow> fld pv h' y = (if ys \<noteq> [] \<and> y = hd0 NULL ys then last0 NULL xs else fld pv h y)"
    and "a' = hd0 (hd0 NULL ys) xs" "b' = last0 (last0 NULL xs) ys"
  shows "linked nx pv h' a' b' (xs @ ys)"
proof -
  note d = linkedD [OF assms(1)]
  have "dl (if xs = [] then fld nx h else (fld nx h)(last0 NULL xs := hd0 NULL ys))
     (if ys = [] then fld pv h else (fld pv h)(hd0 NULL ys := last0 NULL xs)) NULL (xs @ ys) NULL"
    by (rule dl_remove [OF d(6,1)]) simp_all
  then have "dl (fld nx h') (fld pv h') NULL (xs @ ys) NULL"
    by (rule dl_cong [THEN iffD2, rotated -1]) (use nx pv in auto)
  moreover have "set (xs @ ys) \<subseteq> dom h'" using order_trans [OF d(3) assms(2)] by simp
  ultimately show ?thesis using d assms(5,6) by (simp add: linked_def)
qed

lemma mem_nz: "NULL \<notin> set xs \<Longrightarrow> y \<in> set xs \<Longrightarrow> 0 < y"
  by (metis gr0I)

lemma linked_rotate:
  assumes "linked nx pv h a b (x # y # zs)" "dom h \<subseteq> dom h'"
    and nx: "\<And>w. w \<in> set (x # y # zs) \<Longrightarrow> fld nx h' w =
       (if w = x then NULL else if w = last0 y zs then x else fld nx h w)"
    and pv: "\<And>w. w \<in> set (x # y # zs) \<Longrightarrow> fld pv h' w =
       (if w = x then last0 y zs else if w = y then NULL else fld pv h w)"
  shows "linked nx pv h' y x ((y # zs) @ [x])"
proof -
  note d = linkedD [OF assms(1)]
  from d(6) have "dl (fld nx h) (fld pv h) x (y # zs) NULL" by simp
  then have "dl ((fld nx h)(last0 x (y # zs) := x)) (fld pv h) x (y # zs) x"
    by (rule dl_set_last) (use d(1) in simp_all)
  then have "dl ((fld nx h)(last0 x (y # zs) := x)) ((fld pv h)(hd0 x (y # zs) := NULL)) NULL (y # zs) x"
    by (rule dl_set_first) (use d(1) in simp_all)
  then have "dl (fld nx h') (fld pv h') NULL (y # zs) x"
    by (rule dl_cong [THEN iffD2, rotated -1]) (use nx pv d(1) in auto)
  moreover have "dl (fld nx h') (fld pv h') (last0 NULL (y # zs)) [x] NULL" using nx [of x] pv [of x] by simp
  ultimately have "dl (fld nx h') (fld pv h') NULL ((y # zs) @ [x]) NULL" by (simp only: dl_append hd0_simps)
  moreover have "set (x # y # zs) \<subseteq> dom h'" using d(3) assms(2) by (rule order_trans)
  ultimately show ?thesis using d(1,2) by (simp add: linked_def)
qed

subsection \<open>Loops over an index range\<close>

text \<open>\<open>for (i = a; i < b; i++) body(i)\<close> over the indices \<open>[a..<b]\<close>.\<close>

primrec for_each :: "'i list \<Rightarrow> ('i \<Rightarrow> 's \<Rightarrow> 's option) \<Rightarrow> 's \<Rightarrow> 's option" where
  "for_each [] f s = Some s"
| "for_each (i # is) f s = f i s \<bind> for_each is f"

lemma for_each_append: "for_each (is @ js) f s = for_each is f s \<bind> for_each js f"
  by (induction "is" arbitrary: s) (auto simp: bind_assoc split: Option.bind_split)

subsection \<open>Singly linked chains\<close>

text \<open>A path through \<open>xs\<close> from \<open>a\<close> to \<open>b\<close>.\<close>

primrec path :: "('a \<Rightarrow> 'a) \<Rightarrow> 'a \<Rightarrow> 'a list \<Rightarrow> 'a \<Rightarrow> bool" where
  "path nx a [] b = (a = b)"
| "path nx a (x # xs) b = (a = x \<and> path nx (nx x) xs b)"

lemma path_append: "path nx a (xs @ ys) b \<longleftrightarrow> (\<exists>c. path nx a xs c \<and> path nx c ys b)"
  by (induction xs arbitrary: a) auto

lemma path_cong: "(\<And>x. x \<in> set xs \<Longrightarrow> nx x = nx' x) \<Longrightarrow> path nx a xs b = path nx' a xs b"
  by (induction xs arbitrary: a) auto

lemma path_upd [simp]: "x \<notin> set xs \<Longrightarrow> path (nx(x := v)) a xs b = path nx a xs b"
  by (induction xs arbitrary: a) auto

lemma path_snoc_upd: "path nx a (xs @ [x]) b \<Longrightarrow> x \<notin> set xs \<Longrightarrow> path (nx(x := c)) a (xs @ [x]) c"
  by (auto simp: path_append)

end
