(* ===== verification/OS_Types.thy ===== *)
theory OS_Types
  imports Prelude
begin

text \<open>
  The data of the kernel: \<^verbatim>\<open>src/ucosTest/Source/os.h\<close> and \<^verbatim>\<open>os_type.h\<close> under the
  configuration of \<^verbatim>\<open>app/os_cfg.h\<close>.  Every C structure is a record whose fields carry the
  C names behind a prefix that names the structure (\<open>TCB_\<close> for \<^verbatim>\<open>OS_TCB\<close>, and so on).
  Objects live in one partial memory per structure type, indexed by address; address 0 is
  the null pointer.  The global variables of the kernel are the remaining fields of the
  state record \<open>os\<close>.
\<close>

subsection \<open>Integer types (os_type.h)\<close>

type_synonym OS_CPU_USAGE = "16 word"
type_synonym OS_CTR = "32 word"
type_synonym OS_CTX_SW_CTR = "32 word"
type_synonym OS_CYCLES = "32 word"
type_synonym OS_FLAGS = "32 word"
type_synonym OS_IDLE_CTR = "32 word"
type_synonym OS_MEM_QTY = "16 word"
type_synonym OS_MEM_SIZE = "16 word"
type_synonym OS_MSG_QTY = "16 word"
type_synonym OS_MSG_SIZE = "16 word"
type_synonym OS_NESTING_CTR = "8 word"
type_synonym OS_OBJ_QTY = "16 word"
type_synonym OS_OBJ_TYPE = "32 word"
type_synonym OS_OPT = "16 word"
type_synonym OS_PRIO = "8 word"
type_synonym OS_RATE_HZ = "32 word"
type_synonym OS_REG = "32 word"
type_synonym OS_REG_ID = "8 word"
type_synonym OS_SEM_CTR = "32 word"
type_synonym OS_STATE = "8 word"
type_synonym OS_STATUS = "8 word"
type_synonym OS_TICK = "32 word"
type_synonym CPU_DATA = "32 word"
type_synonym CPU_ADDR = "32 word"
type_synonym CPU_STK_SIZE = "32 word"
type_synonym CPU_TS = "32 word"

subsection \<open>Configuration (app/os_cfg.h, app/os_cfg_app.h)\<close>

abbreviation (input) OS_CFG_PRIO_MAX :: nat where "OS_CFG_PRIO_MAX \<equiv> 32"
abbreviation (input) OSCfg_TickWheelSize :: "32 word" where "OSCfg_TickWheelSize \<equiv> 17"
abbreviation (input) OSCfg_TickRate_Hz :: OS_RATE_HZ where "OSCfg_TickRate_Hz \<equiv> 1000"
abbreviation (input) OSCfg_TmrWheelSize :: "32 word" where "OSCfg_TmrWheelSize \<equiv> 17"
abbreviation (input) OSCfg_TmrTaskRate_Hz :: OS_RATE_HZ where "OSCfg_TmrTaskRate_Hz \<equiv> 10"
abbreviation (input) OSCfg_StkSizeMin :: CPU_STK_SIZE where "OSCfg_StkSizeMin \<equiv> 64"
abbreviation (input) OS_CFG_TASK_REG_TBL_SIZE :: OS_REG_ID where "OS_CFG_TASK_REG_TBL_SIZE \<equiv> 1"
abbreviation (input) OSCfg_MsgPoolSize :: OS_MSG_QTY where "OSCfg_MsgPoolSize \<equiv> 100"

subsection \<open>Constants (os.h)\<close>

abbreviation (input) OS_STATE_OS_STOPPED :: OS_STATE where "OS_STATE_OS_STOPPED \<equiv> 0"
abbreviation (input) OS_STATE_OS_RUNNING :: OS_STATE where "OS_STATE_OS_RUNNING \<equiv> 1"

abbreviation (input) OS_TASK_STATE_BIT_DLY :: OS_STATE where "OS_TASK_STATE_BIT_DLY \<equiv> 1"
abbreviation (input) OS_TASK_STATE_BIT_PEND :: OS_STATE where "OS_TASK_STATE_BIT_PEND \<equiv> 2"
abbreviation (input) OS_TASK_STATE_BIT_SUSPENDED :: OS_STATE where "OS_TASK_STATE_BIT_SUSPENDED \<equiv> 4"
abbreviation (input) OS_TASK_STATE_RDY :: OS_STATE where "OS_TASK_STATE_RDY \<equiv> 0"
abbreviation (input) OS_TASK_STATE_DLY :: OS_STATE where "OS_TASK_STATE_DLY \<equiv> 1"
abbreviation (input) OS_TASK_STATE_PEND :: OS_STATE where "OS_TASK_STATE_PEND \<equiv> 2"
abbreviation (input) OS_TASK_STATE_PEND_TIMEOUT :: OS_STATE where "OS_TASK_STATE_PEND_TIMEOUT \<equiv> 3"
abbreviation (input) OS_TASK_STATE_SUSPENDED :: OS_STATE where "OS_TASK_STATE_SUSPENDED \<equiv> 4"
abbreviation (input) OS_TASK_STATE_DLY_SUSPENDED :: OS_STATE where "OS_TASK_STATE_DLY_SUSPENDED \<equiv> 5"
abbreviation (input) OS_TASK_STATE_PEND_SUSPENDED :: OS_STATE where "OS_TASK_STATE_PEND_SUSPENDED \<equiv> 6"
abbreviation (input) OS_TASK_STATE_PEND_TIMEOUT_SUSPENDED :: OS_STATE
  where "OS_TASK_STATE_PEND_TIMEOUT_SUSPENDED \<equiv> 7"
abbreviation (input) OS_TASK_STATE_DEL :: OS_STATE where "OS_TASK_STATE_DEL \<equiv> 255"

abbreviation (input) OS_TASK_PEND_ON_NOTHING :: OS_STATE where "OS_TASK_PEND_ON_NOTHING \<equiv> 0"
abbreviation (input) OS_TASK_PEND_ON_FLAG :: OS_STATE where "OS_TASK_PEND_ON_FLAG \<equiv> 1"
abbreviation (input) OS_TASK_PEND_ON_TASK_Q :: OS_STATE where "OS_TASK_PEND_ON_TASK_Q \<equiv> 2"
abbreviation (input) OS_TASK_PEND_ON_MULTI :: OS_STATE where "OS_TASK_PEND_ON_MULTI \<equiv> 3"
abbreviation (input) OS_TASK_PEND_ON_MUTEX :: OS_STATE where "OS_TASK_PEND_ON_MUTEX \<equiv> 4"
abbreviation (input) OS_TASK_PEND_ON_Q :: OS_STATE where "OS_TASK_PEND_ON_Q \<equiv> 5"
abbreviation (input) OS_TASK_PEND_ON_SEM :: OS_STATE where "OS_TASK_PEND_ON_SEM \<equiv> 6"
abbreviation (input) OS_TASK_PEND_ON_TASK_SEM :: OS_STATE where "OS_TASK_PEND_ON_TASK_SEM \<equiv> 7"

abbreviation (input) OS_STATUS_PEND_OK :: OS_STATUS where "OS_STATUS_PEND_OK \<equiv> 0"
abbreviation (input) OS_STATUS_PEND_ABORT :: OS_STATUS where "OS_STATUS_PEND_ABORT \<equiv> 1"
abbreviation (input) OS_STATUS_PEND_DEL :: OS_STATUS where "OS_STATUS_PEND_DEL \<equiv> 2"
abbreviation (input) OS_STATUS_PEND_TIMEOUT :: OS_STATUS where "OS_STATUS_PEND_TIMEOUT \<equiv> 3"

definition CPU_TYPE_CREATE :: "char \<Rightarrow> char \<Rightarrow> char \<Rightarrow> char \<Rightarrow> 32 word" where
  "CPU_TYPE_CREATE c1 c2 c3 c4 =
     of_char c1 OR push_bit 8 (of_char c2) OR push_bit 16 (of_char c3) OR push_bit 24 (of_char c4)"

definition OS_OBJ_TYPE_NONE :: OS_OBJ_TYPE where
  "OS_OBJ_TYPE_NONE = CPU_TYPE_CREATE (CHR ''N'') (CHR ''O'') (CHR ''N'') (CHR ''E'')"
definition OS_OBJ_TYPE_FLAG :: OS_OBJ_TYPE where
  "OS_OBJ_TYPE_FLAG = CPU_TYPE_CREATE (CHR ''F'') (CHR ''L'') (CHR ''A'') (CHR ''G'')"
definition OS_OBJ_TYPE_MEM :: OS_OBJ_TYPE where
  "OS_OBJ_TYPE_MEM = CPU_TYPE_CREATE (CHR ''M'') (CHR ''E'') (CHR ''M'') (CHR '' '')"
definition OS_OBJ_TYPE_MUTEX :: OS_OBJ_TYPE where
  "OS_OBJ_TYPE_MUTEX = CPU_TYPE_CREATE (CHR ''M'') (CHR ''U'') (CHR ''T'') (CHR ''X'')"
definition OS_OBJ_TYPE_Q :: OS_OBJ_TYPE where
  "OS_OBJ_TYPE_Q = CPU_TYPE_CREATE (CHR ''Q'') (CHR ''U'') (CHR ''E'') (CHR ''U'')"
definition OS_OBJ_TYPE_SEM :: OS_OBJ_TYPE where
  "OS_OBJ_TYPE_SEM = CPU_TYPE_CREATE (CHR ''S'') (CHR ''E'') (CHR ''M'') (CHR ''A'')"
definition OS_OBJ_TYPE_TMR :: OS_OBJ_TYPE where
  "OS_OBJ_TYPE_TMR = CPU_TYPE_CREATE (CHR ''T'') (CHR ''M'') (CHR ''R'') (CHR '' '')"

abbreviation (input) OS_OPT_DEL_NO_PEND :: OS_OPT where "OS_OPT_DEL_NO_PEND \<equiv> 0"
abbreviation (input) OS_OPT_DEL_ALWAYS :: OS_OPT where "OS_OPT_DEL_ALWAYS \<equiv> 1"
abbreviation (input) OS_OPT_PEND_BLOCKING :: OS_OPT where "OS_OPT_PEND_BLOCKING \<equiv> 0"
abbreviation (input) OS_OPT_PEND_NON_BLOCKING :: OS_OPT where "OS_OPT_PEND_NON_BLOCKING \<equiv> 0x8000"
abbreviation (input) OS_OPT_PEND_ABORT_1 :: OS_OPT where "OS_OPT_PEND_ABORT_1 \<equiv> 0"
abbreviation (input) OS_OPT_PEND_ABORT_ALL :: OS_OPT where "OS_OPT_PEND_ABORT_ALL \<equiv> 0x0100"
abbreviation (input) OS_OPT_POST_NONE :: OS_OPT where "OS_OPT_POST_NONE \<equiv> 0"
abbreviation (input) OS_OPT_POST_FIFO :: OS_OPT where "OS_OPT_POST_FIFO \<equiv> 0"
abbreviation (input) OS_OPT_POST_LIFO :: OS_OPT where "OS_OPT_POST_LIFO \<equiv> 0x0010"
abbreviation (input) OS_OPT_POST_1 :: OS_OPT where "OS_OPT_POST_1 \<equiv> 0"
abbreviation (input) OS_OPT_POST_ALL :: OS_OPT where "OS_OPT_POST_ALL \<equiv> 0x0200"
abbreviation (input) OS_OPT_POST_NO_SCHED :: OS_OPT where "OS_OPT_POST_NO_SCHED \<equiv> 0x8000"
abbreviation (input) OS_OPT_PEND_FLAG_MASK :: OS_OPT where "OS_OPT_PEND_FLAG_MASK \<equiv> 0x000F"
abbreviation (input) OS_OPT_PEND_FLAG_CLR_ALL :: OS_OPT where "OS_OPT_PEND_FLAG_CLR_ALL \<equiv> 0x0001"
abbreviation (input) OS_OPT_PEND_FLAG_CLR_ANY :: OS_OPT where "OS_OPT_PEND_FLAG_CLR_ANY \<equiv> 0x0002"
abbreviation (input) OS_OPT_PEND_FLAG_SET_ALL :: OS_OPT where "OS_OPT_PEND_FLAG_SET_ALL \<equiv> 0x0004"
abbreviation (input) OS_OPT_PEND_FLAG_SET_ANY :: OS_OPT where "OS_OPT_PEND_FLAG_SET_ANY \<equiv> 0x0008"
abbreviation (input) OS_OPT_PEND_FLAG_CONSUME :: OS_OPT where "OS_OPT_PEND_FLAG_CONSUME \<equiv> 0x0100"
abbreviation (input) OS_OPT_POST_FLAG_SET :: OS_OPT where "OS_OPT_POST_FLAG_SET \<equiv> 0"
abbreviation (input) OS_OPT_POST_FLAG_CLR :: OS_OPT where "OS_OPT_POST_FLAG_CLR \<equiv> 1"
abbreviation (input) OS_OPT_TMR_NONE :: OS_OPT where "OS_OPT_TMR_NONE \<equiv> 0"
abbreviation (input) OS_OPT_TMR_ONE_SHOT :: OS_OPT where "OS_OPT_TMR_ONE_SHOT \<equiv> 1"
abbreviation (input) OS_OPT_TMR_PERIODIC :: OS_OPT where "OS_OPT_TMR_PERIODIC \<equiv> 2"
abbreviation (input) OS_OPT_TMR_CALLBACK :: OS_OPT where "OS_OPT_TMR_CALLBACK \<equiv> 3"
abbreviation (input) OS_OPT_TMR_CALLBACK_ARG :: OS_OPT where "OS_OPT_TMR_CALLBACK_ARG \<equiv> 4"
abbreviation (input) OS_TMR_STATE_UNUSED :: OS_STATE where "OS_TMR_STATE_UNUSED \<equiv> 0"
abbreviation (input) OS_TMR_STATE_STOPPED :: OS_STATE where "OS_TMR_STATE_STOPPED \<equiv> 1"
abbreviation (input) OS_TMR_STATE_RUNNING :: OS_STATE where "OS_TMR_STATE_RUNNING \<equiv> 2"
abbreviation (input) OS_TMR_STATE_COMPLETED :: OS_STATE where "OS_TMR_STATE_COMPLETED \<equiv> 3"
abbreviation (input) OS_PRIO_INIT :: OS_PRIO where "OS_PRIO_INIT \<equiv> 32"
abbreviation (input) OS_TICK_TH_INIT :: OS_TICK where "OS_TICK_TH_INIT \<equiv> 0x80000000"
abbreviation (input) OS_OPT_TIME_DLY :: OS_OPT where "OS_OPT_TIME_DLY \<equiv> 0"
abbreviation (input) OS_OPT_TIME_TIMEOUT :: OS_OPT where "OS_OPT_TIME_TIMEOUT \<equiv> 2"
abbreviation (input) OS_OPT_TIME_MATCH :: OS_OPT where "OS_OPT_TIME_MATCH \<equiv> 4"
abbreviation (input) OS_OPT_TIME_PERIODIC :: OS_OPT where "OS_OPT_TIME_PERIODIC \<equiv> 8"
abbreviation (input) OS_OPT_TIME_HMSM_NON_STRICT :: OS_OPT where "OS_OPT_TIME_HMSM_NON_STRICT \<equiv> 16"
abbreviation (input) OS_OPT_TIME_MASK :: OS_OPT where "OS_OPT_TIME_MASK \<equiv> 14"
abbreviation (input) OS_OPT_TIME_OPTS_MASK :: OS_OPT where "OS_OPT_TIME_OPTS_MASK \<equiv> 30"
abbreviation (input) OS_TICK_TH_RDY :: OS_TICK where "OS_TICK_TH_RDY \<equiv> 0xFFFF0000"

text \<open>The error codes that the kernel routines report through \<open>p_err\<close>; the numbers of the C
  enumeration play no role.\<close>

datatype (plugins only: size) OS_ERR =
    OS_ERR_NONE | OS_ERR_CREATE_ISR | OS_ERR_DEL_ISR | OS_ERR_FLUSH_ISR |
     OS_ERR_FATAL_RETURN | OS_ERR_FLAG_PEND_OPT
  | OS_ERR_LOCK_NESTING_OVF | OS_ERR_MEM_CREATE_ISR | OS_ERR_MEM_FULL | OS_ERR_MEM_INVALID_BLKS
  | OS_ERR_MEM_INVALID_P_ADDR | OS_ERR_MEM_INVALID_P_BLK | OS_ERR_MEM_INVALID_P_MEM
  | OS_ERR_MEM_INVALID_SIZE | OS_ERR_MEM_NO_FREE_BLKS | OS_ERR_MSG_POOL_EMPTY
  | OS_ERR_MSG_POOL_NULL_PTR | OS_ERR_MUTEX_NESTING | OS_ERR_MUTEX_NOT_OWNER | OS_ERR_MUTEX_OWNER
  | OS_ERR_NO_MORE_ID_AVAIL | OS_ERR_OBJ_DEL | OS_ERR_OBJ_PTR_NULL | OS_ERR_OBJ_TYPE
  | OS_ERR_OPT_INVALID | OS_ERR_OS_NOT_RUNNING | OS_ERR_OS_RUNNING | OS_ERR_PEND_ABORT
  | OS_ERR_PEND_ABORT_ISR | OS_ERR_PEND_ABORT_NONE | OS_ERR_PEND_ABORT_SELF | OS_ERR_PEND_ISR
  | OS_ERR_PEND_WOULD_BLOCK | OS_ERR_POST_ISR | OS_ERR_PRIO_INVALID | OS_ERR_PTR_INVALID | OS_ERR_Q_EMPTY
  | OS_ERR_Q_MAX | OS_ERR_Q_SIZE | OS_ERR_REG_ID_INVALID | OS_ERR_ROUND_ROBIN_1
  | OS_ERR_ROUND_ROBIN_DISABLED | OS_ERR_SCHED_LOCKED | OS_ERR_SCHED_LOCK_ISR
  | OS_ERR_SCHED_NOT_LOCKED | OS_ERR_SCHED_UNLOCK_ISR | OS_ERR_SEM_OVF | OS_ERR_SET_ISR
  | OS_ERR_STATE_INVALID | OS_ERR_STATUS_INVALID | OS_ERR_STK_INVALID | OS_ERR_STK_SIZE_INVALID | OS_ERR_STK_LIMIT_INVALID
  | OS_ERR_TASK_CHANGE_PRIO_ISR | OS_ERR_TASK_CREATE_ISR | OS_ERR_TASK_DEL_IDLE
  | OS_ERR_TASK_DEL_INVALID | OS_ERR_TASK_DEL_ISR | OS_ERR_TASK_INVALID | OS_ERR_TASK_NOT_EXIST | OS_ERR_TASK_OPT
  | OS_ERR_TASK_NOT_SUSPENDED | OS_ERR_TASK_RESUME_ISR | OS_ERR_TASK_RESUME_SELF
  | OS_ERR_TASK_STK_CHK_ISR | OS_ERR_TASK_SUSPENDED | OS_ERR_TASK_SUSPEND_IDLE
  | OS_ERR_TASK_SUSPEND_ISR | OS_ERR_TASK_NOT_DLY | OS_ERR_TIME_DLY_RESUME_ISR | OS_ERR_TASK_WAITING | OS_ERR_TCB_INVALID | OS_ERR_TIMEOUT
  | OS_ERR_TIME_DLY_ISR | OS_ERR_TIME_INVALID_HOURS | OS_ERR_TIME_INVALID_MILLISECONDS
  | OS_ERR_TIME_INVALID_MINUTES | OS_ERR_TIME_INVALID_SECONDS | OS_ERR_TIME_ZERO_DLY
  | OS_ERR_TICK_PRIO_INVALID | OS_ERR_TICK_STK_INVALID | OS_ERR_TICK_STK_SIZE_INVALID
  | OS_ERR_STAT_PRIO_INVALID | OS_ERR_STAT_STK_INVALID | OS_ERR_STAT_STK_SIZE_INVALID
  | OS_ERR_INT_Q | OS_ERR_INT_Q_FULL | OS_ERR_INT_Q_SIZE | OS_ERR_INT_Q_STK_INVALID | OS_ERR_INT_Q_STK_SIZE_INVALID
  | OS_ERR_TMR_INACTIVE | OS_ERR_TMR_INVALID | OS_ERR_TMR_INVALID_DLY | OS_ERR_TMR_INVALID_PERIOD
  | OS_ERR_TMR_INVALID_STATE | OS_ERR_TMR_ISR | OS_ERR_TMR_NO_CALLBACK | OS_ERR_TMR_STOPPED
  | OS_ERR_TMR_PRIO_INVALID | OS_ERR_TMR_STK_INVALID | OS_ERR_TMR_STK_SIZE_INVALID
  | OS_ERR_YIELD_ISR

subsection \<open>Structures (os.h)\<close>

record OS_RDY_LIST =
  RL_HeadPtr :: ptr
  RL_TailPtr :: ptr
  RL_NbrEntries :: OS_OBJ_QTY

record OS_PEND_DATA =
  PD_PrevPtr :: ptr
  PD_NextPtr :: ptr
  PD_TCBPtr :: ptr
  PD_PendObjPtr :: ptr
  PD_RdyObjPtr :: ptr
  PD_RdyMsgPtr :: ptr
  PD_RdyMsgSize :: OS_MSG_SIZE
  PD_RdyTS :: CPU_TS

record OS_PEND_LIST =
  PL_HeadPtr :: ptr
  PL_TailPtr :: ptr
  PL_NbrEntries :: OS_OBJ_QTY

text \<open>\<^verbatim>\<open>OS_PEND_OBJ\<close> is the common initial part of \<^verbatim>\<open>OS_SEM\<close>, \<^verbatim>\<open>OS_Q\<close>, \<^verbatim>\<open>OS_MUTEX\<close> and
  \<^verbatim>\<open>OS_FLAG_GRP\<close>, to whose addresses the code casts freely.  The model keeps the common part
  of every such object in one memory and the remaining fields in a memory of their own at
  the same address.\<close>

record OS_PEND_OBJ =
  OBJ_Type :: OS_OBJ_TYPE
  OBJ_NamePtr :: string
  OBJ_PendList :: OS_PEND_LIST
  OBJ_DbgPrevPtr :: ptr
  OBJ_DbgNextPtr :: ptr
  OBJ_DbgNamePtr :: string

record OS_SEM =
  SEM_Ctr :: OS_SEM_CTR
  SEM_TS :: CPU_TS

record OS_MSG =
  MSG_NextPtr :: ptr
  MSG_MsgPtr :: ptr
  MSG_MsgSize :: OS_MSG_SIZE
  MSG_MsgTS :: CPU_TS

record OS_MSG_POOL =
  POOL_NextPtr :: ptr
  POOL_NbrFree :: OS_MSG_QTY
  POOL_NbrUsed :: OS_MSG_QTY
  POOL_NbrUsedMax :: OS_MSG_QTY

record OS_MSG_Q =
  MQ_InPtr :: ptr
  MQ_OutPtr :: ptr
  MQ_NbrEntriesSize :: OS_MSG_QTY
  MQ_NbrEntries :: OS_MSG_QTY
  MQ_NbrEntriesMax :: OS_MSG_QTY

record OS_MEM =
  MEM_Type :: OS_OBJ_TYPE
  MEM_AddrPtr :: CPU_ADDR
  MEM_NamePtr :: string
  MEM_FreeListPtr :: CPU_ADDR
  MEM_BlkSize :: OS_MEM_SIZE
  MEM_NbrMax :: OS_MEM_QTY
  MEM_NbrFree :: OS_MEM_QTY
  MEM_DbgPrevPtr :: ptr
  MEM_DbgNextPtr :: ptr

record OS_MUTEX =
  MTX_OwnerTCBPtr :: ptr
  MTX_OwnerOriginalPrio :: OS_PRIO
  MTX_OwnerNestingCtr :: OS_NESTING_CTR
  MTX_TS :: CPU_TS

record OS_TCB =
  TCB_StkPtr :: ptr
  TCB_ExtPtr :: ptr
  TCB_StkLimitPtr :: ptr
  TCB_NextPtr :: ptr
  TCB_PrevPtr :: ptr
  TCB_TickNextPtr :: ptr
  TCB_TickPrevPtr :: ptr
  TCB_TickSpokePtr :: "nat option"
  TCB_NamePtr :: string
  TCB_StkBasePtr :: ptr
  TCB_TaskEntryAddr :: ptr
  TCB_TaskEntryArg :: ptr
  TCB_PendDataTblPtr :: ptr
  TCB_PendOn :: OS_STATE
  TCB_PendStatus :: OS_STATUS
  TCB_TaskState :: OS_STATE
  TCB_Prio :: OS_PRIO
  TCB_StkSize :: CPU_STK_SIZE
  TCB_Opt :: OS_OPT
  TCB_PendDataTblEntries :: OS_OBJ_QTY
  TCB_TS :: CPU_TS
  TCB_SemCtr :: OS_SEM_CTR
  TCB_TickCtrPrev :: OS_TICK
  TCB_TickCtrMatch :: OS_TICK
  TCB_TickRemain :: OS_TICK
  TCB_TimeQuanta :: OS_TICK
  TCB_TimeQuantaCtr :: OS_TICK
  TCB_MsgPtr :: ptr
  TCB_MsgSize :: OS_MSG_SIZE
  TCB_MsgQ :: OS_MSG_Q
  TCB_MsgQPendTime :: CPU_TS
  TCB_MsgQPendTimeMax :: CPU_TS
  TCB_RegTbl :: "OS_REG list"
  TCB_FlagsPend :: OS_FLAGS
  TCB_FlagsRdy :: OS_FLAGS
  TCB_FlagsOpt :: OS_OPT
  TCB_SuspendCtr :: OS_NESTING_CTR
  TCB_CPUUsage :: OS_CPU_USAGE
  TCB_CPUUsageMax :: OS_CPU_USAGE
  TCB_CtxSwCtr :: OS_CTX_SW_CTR
  TCB_CyclesDelta :: CPU_TS
  TCB_CyclesStart :: CPU_TS
  TCB_CyclesTotal :: OS_CYCLES
  TCB_CyclesTotalPrev :: OS_CYCLES
  TCB_SemPendTime :: CPU_TS
  TCB_SemPendTimeMax :: CPU_TS
  TCB_StkUsed :: CPU_STK_SIZE
  TCB_StkFree :: CPU_STK_SIZE
  TCB_SchedLockTimeMax :: CPU_TS
  TCB_DbgPrevPtr :: ptr
  TCB_DbgNextPtr :: ptr
  TCB_DbgNamePtr :: string

record OS_FLAG_GRP =
  FLG_Flags :: OS_FLAGS
  FLG_TS :: CPU_TS

text \<open>A timer; the callback is a function pointer, kept as an address.\<close>

record OS_TMR =
  TMR_Type :: OS_OBJ_TYPE
  TMR_NamePtr :: string
  TMR_CallbackPtr :: ptr
  TMR_CallbackPtrArg :: ptr
  TMR_NextPtr :: ptr
  TMR_PrevPtr :: ptr
  TMR_Match :: OS_TICK
  TMR_Remain :: OS_TICK
  TMR_Dly :: OS_TICK
  TMR_Period :: OS_TICK
  TMR_Opt :: OS_OPT
  TMR_State :: OS_STATE
  TMR_DbgPrevPtr :: ptr
  TMR_DbgNextPtr :: ptr

record OS_TMR_SPOKE =
  TSPK_FirstPtr :: ptr
  TSPK_NbrEntries :: OS_OBJ_QTY
  TSPK_NbrEntriesMax :: OS_OBJ_QTY

record OS_TICK_SPOKE =
  SPK_FirstPtr :: ptr
  SPK_NbrEntries :: OS_OBJ_QTY
  SPK_NbrEntriesMax :: OS_OBJ_QTY


subsection \<open>The kernel state (the global variables of os.h)\<close>

text \<open>\<open>TmrRd\<close> is the environment: the sequence of values that successive readings of the
  free-running timer behind \<^verbatim>\<open>OS_TS_GET()\<close> return; \<open>TmrRdIx\<close> counts the readings done.\<close>

record os =
  tcbs :: "ptr \<rightharpoonup> OS_TCB"
  pds :: "ptr \<rightharpoonup> OS_PEND_DATA"
  objs :: "ptr \<rightharpoonup> OS_PEND_OBJ"
  sems :: "ptr \<rightharpoonup> OS_SEM"
  qs :: "ptr \<rightharpoonup> OS_MSG_Q"
  mutexes :: "ptr \<rightharpoonup> OS_MUTEX"
  msgs :: "ptr \<rightharpoonup> OS_MSG"
  mems :: "ptr \<rightharpoonup> OS_MEM"
  flags :: "ptr \<rightharpoonup> OS_FLAG_GRP"
  tmrs :: "ptr \<rightharpoonup> OS_TMR"
  ram :: "CPU_ADDR \<rightharpoonup> CPU_ADDR"
  OSPrioTbl :: "CPU_DATA list"
  OSRdyList :: "nat \<rightharpoonup> OS_RDY_LIST"
  OSCfg_TickWheel :: "nat \<rightharpoonup> OS_TICK_SPOKE"
  OSCfg_TmrWheel :: "nat \<rightharpoonup> OS_TMR_SPOKE"
  OSMsgPool :: OS_MSG_POOL
  OSIntNestingCtr :: OS_NESTING_CTR
  OSRunning :: OS_STATE
  OSSchedLockNestingCtr :: OS_NESTING_CTR
  OSSchedLockTimeBegin :: CPU_TS
  OSSchedLockTimeMax :: CPU_TS
  OSSchedLockTimeMaxCur :: CPU_TS
  OSSchedRoundRobinEn :: bool
  OSSchedRoundRobinDfltTimeQuanta :: OS_TICK
  OSPrioCur :: OS_PRIO
  OSPrioHighRdy :: OS_PRIO
  OSTCBCurPtr :: ptr
  OSTCBHighRdyPtr :: ptr
  OSIdleTaskTCB :: ptr
  OSTickTaskTCB :: ptr
  OSTmrTaskTCB :: ptr
  OSTaskCtxSwCtr :: OS_CTX_SW_CTR
  OSTickCtr :: OS_TICK
  OSTickTaskTimeMax :: CPU_TS
  OSTmrUpdateCnt :: OS_CTR
  OSTmrUpdateCtr :: OS_CTR
  OSSemDbgListPtr :: ptr
  OSSemQty :: OS_OBJ_QTY
  OSQDbgListPtr :: ptr
  OSQQty :: OS_OBJ_QTY
  OSMutexDbgListPtr :: ptr
  OSMutexQty :: OS_OBJ_QTY
  OSMemDbgListPtr :: ptr
  OSMemQty :: OS_OBJ_QTY
  OSFlagDbgListPtr :: ptr
  OSFlagQty :: OS_OBJ_QTY
  OSTmrDbgListPtr :: ptr
  OSTmrQty :: OS_OBJ_QTY
  OSTmrTickCtr :: OS_TICK
  OSTmrTaskTimeMax :: CPU_TS
  OSTaskDbgListPtr :: ptr
  OSTaskQty :: OS_OBJ_QTY
  OSTaskRegNextAvailID :: OS_REG_ID
  OSStatResetFlag :: bool
  TmrRd :: "nat \<Rightarrow> CPU_TS"
  TmrRdIx :: nat

text \<open>\<^verbatim>\<open>OS_TS_GET()\<close> (\<^verbatim>\<open>PORTS/os_cpu.h\<close>): read the timer once.\<close>

definition OS_TS_GET :: "os \<Rightarrow> CPU_TS \<times> os" where
  "OS_TS_GET s = (TmrRd s (TmrRdIx s), s\<lparr>TmrRdIx := Suc (TmrRdIx s)\<rparr>)"

text \<open>The C statements \<open>p->field = v\<close> for each kind of object.\<close>

definition tcb_mod :: "ptr \<Rightarrow> (OS_TCB \<Rightarrow> OS_TCB) \<Rightarrow> os \<Rightarrow> os option" where
  "tcb_mod p f s = map_option (\<lambda>h. s\<lparr>tcbs := h\<rparr>) (mod_at p f (tcbs s))"

definition pd_mod :: "ptr \<Rightarrow> (OS_PEND_DATA \<Rightarrow> OS_PEND_DATA) \<Rightarrow> os \<Rightarrow> os option" where
  "pd_mod p f s = map_option (\<lambda>h. s\<lparr>pds := h\<rparr>) (mod_at p f (pds s))"

definition obj_mod :: "ptr \<Rightarrow> (OS_PEND_OBJ \<Rightarrow> OS_PEND_OBJ) \<Rightarrow> os \<Rightarrow> os option" where
  "obj_mod p f s = map_option (\<lambda>h. s\<lparr>objs := h\<rparr>) (mod_at p f (objs s))"

definition rdy_mod :: "nat \<Rightarrow> (OS_RDY_LIST \<Rightarrow> OS_RDY_LIST) \<Rightarrow> os \<Rightarrow> os option" where
  "rdy_mod p f s = map_option (\<lambda>h. s\<lparr>OSRdyList := h\<rparr>) (mod_at p f (OSRdyList s))"

definition spk_mod :: "nat \<Rightarrow> (OS_TICK_SPOKE \<Rightarrow> OS_TICK_SPOKE) \<Rightarrow> os \<Rightarrow> os option" where
  "spk_mod p f s = map_option (\<lambda>h. s\<lparr>OSCfg_TickWheel := h\<rparr>) (mod_at p f (OSCfg_TickWheel s))"

definition msg_mod :: "ptr \<Rightarrow> (OS_MSG \<Rightarrow> OS_MSG) \<Rightarrow> os \<Rightarrow> os option" where
  "msg_mod p f s = map_option (\<lambda>h. s\<lparr>msgs := h\<rparr>) (mod_at p f (msgs s))"

lemma tcb_mod_Some [simp]: "tcbs s p = Some n \<Longrightarrow> tcb_mod p f s = Some (s\<lparr>tcbs := (tcbs s)(p \<mapsto> f n)\<rparr>)"
  by (simp add: tcb_mod_def)

lemma pd_mod_Some [simp]: "pds s p = Some n \<Longrightarrow> pd_mod p f s = Some (s\<lparr>pds := (pds s)(p \<mapsto> f n)\<rparr>)"
  by (simp add: pd_mod_def)

lemma obj_mod_Some [simp]: "objs s p = Some n \<Longrightarrow> obj_mod p f s = Some (s\<lparr>objs := (objs s)(p \<mapsto> f n)\<rparr>)"
  by (simp add: obj_mod_def)

lemma rdy_mod_Some [simp]:
  "OSRdyList s p = Some n \<Longrightarrow> rdy_mod p f s = Some (s\<lparr>OSRdyList := (OSRdyList s)(p \<mapsto> f n)\<rparr>)"
  by (simp add: rdy_mod_def)

lemma spk_mod_Some [simp]:
  "OSCfg_TickWheel s p = Some n \<Longrightarrow>
   spk_mod p f s = Some (s\<lparr>OSCfg_TickWheel := (OSCfg_TickWheel s)(p \<mapsto> f n)\<rparr>)"
  by (simp add: spk_mod_def)

lemma msg_mod_Some [simp]: "msgs s p = Some n \<Longrightarrow> msg_mod p f s = Some (s\<lparr>msgs := (msgs s)(p \<mapsto> f n)\<rparr>)"
  by (simp add: msg_mod_def)

end
