(* ===== verification/CPU_Lib.thy ===== *)
theory CPU_Lib
  imports OS_Types
begin

text \<open>
  \<^verbatim>\<open>src/ucosTest/uC-CPU/cpu_core.c\<close>: the bit-scan routines of the CPU module.
  \<^verbatim>\<open>CPU_CFG_LEAD_ZEROS_ASM_PRESENT\<close> is not defined (\<^verbatim>\<open>app/cpu_cfg.h\<close>), so the
  table-driven C versions are the ones the kernel runs on.
  The specification \<open>nlz\<close> says what a number of leading zeros is; every routine is shown
  to compute it for all values of its width, and the trailing-zero routines to compute the
  largest power of two that divides the value.
\<close>

definition CPU_CntLeadZerosTbl :: "nat list" where
  "CPU_CntLeadZerosTbl =
     [8, 7, 6, 6, 5, 5, 5, 5, 4, 4, 4, 4, 4, 4, 4, 4,
      3, 3, 3, 3, 3, 3, 3, 3, 3, 3, 3, 3, 3, 3, 3, 3,
      2, 2, 2, 2, 2, 2, 2, 2, 2, 2, 2, 2, 2, 2, 2, 2,
      2, 2, 2, 2, 2, 2, 2, 2, 2, 2, 2, 2, 2, 2, 2, 2,
      1, 1, 1, 1, 1, 1, 1, 1, 1, 1, 1, 1, 1, 1, 1, 1,
      1, 1, 1, 1, 1, 1, 1, 1, 1, 1, 1, 1, 1, 1, 1, 1,
      1, 1, 1, 1, 1, 1, 1, 1, 1, 1, 1, 1, 1, 1, 1, 1,
      1, 1, 1, 1, 1, 1, 1, 1, 1, 1, 1, 1, 1, 1, 1, 1,
      0, 0, 0, 0, 0, 0, 0, 0, 0, 0, 0, 0, 0, 0, 0, 0,
      0, 0, 0, 0, 0, 0, 0, 0, 0, 0, 0, 0, 0, 0, 0, 0,
      0, 0, 0, 0, 0, 0, 0, 0, 0, 0, 0, 0, 0, 0, 0, 0,
      0, 0, 0, 0, 0, 0, 0, 0, 0, 0, 0, 0, 0, 0, 0, 0,
      0, 0, 0, 0, 0, 0, 0, 0, 0, 0, 0, 0, 0, 0, 0, 0,
      0, 0, 0, 0, 0, 0, 0, 0, 0, 0, 0, 0, 0, 0, 0, 0,
      0, 0, 0, 0, 0, 0, 0, 0, 0, 0, 0, 0, 0, 0, 0, 0,
      0, 0, 0, 0, 0, 0, 0, 0, 0, 0, 0, 0, 0, 0, 0, 0]"

definition CPU_CntLeadZeros08 :: "8 word \<Rightarrow> CPU_DATA" where
  "CPU_CntLeadZeros08 val = (let ix = unat val in of_nat (CPU_CntLeadZerosTbl ! ix))"

definition CPU_CntLeadZeros16 :: "16 word \<Rightarrow> CPU_DATA" where
  "CPU_CntLeadZeros16 val =
     (if val > 0x00FF
      then let ix = unat (drop_bit 8 val) in of_nat (CPU_CntLeadZerosTbl ! ix)
      else let ix = unat val in of_nat (CPU_CntLeadZerosTbl ! ix) + 8)"

definition CPU_CntLeadZeros32 :: "32 word \<Rightarrow> CPU_DATA" where
  "CPU_CntLeadZeros32 val =
     (if val > 0x0000FFFF
      then if val > 0x00FFFFFF
           then let ix = unat (drop_bit 24 val) in of_nat (CPU_CntLeadZerosTbl ! ix)
           else let ix = unat (drop_bit 16 val) in of_nat (CPU_CntLeadZerosTbl ! ix) + 8
      else if val > 0x000000FF
           then let ix = unat (drop_bit 8 val) in of_nat (CPU_CntLeadZerosTbl ! ix) + 16
           else let ix = unat (drop_bit 0 val) in of_nat (CPU_CntLeadZerosTbl ! ix) + 24)"

definition CPU_CntLeadZeros64 :: "64 word \<Rightarrow> CPU_DATA" where
  "CPU_CntLeadZeros64 val =
     (if val > 0x00000000FFFFFFFF
      then if val > 0x0000FFFFFFFFFFFF
           then if val > 0x00FFFFFFFFFFFFFF
                then let ix = unat (drop_bit 56 val) in of_nat (CPU_CntLeadZerosTbl ! ix)
                else let ix = unat (drop_bit 48 val) in of_nat (CPU_CntLeadZerosTbl ! ix) + 8
           else if val > 0x000000FFFFFFFFFF
                then let ix = unat (drop_bit 40 val) in of_nat (CPU_CntLeadZerosTbl ! ix) + 16
                else let ix = unat (drop_bit 32 val) in of_nat (CPU_CntLeadZerosTbl ! ix) + 24
      else if val > 0x000000000000FFFF
           then if val > 0x0000000000FFFFFF
                then let ix = unat (drop_bit 24 val) in of_nat (CPU_CntLeadZerosTbl ! ix) + 32
                else let ix = unat (drop_bit 16 val) in of_nat (CPU_CntLeadZerosTbl ! ix) + 40
           else if val > 0x00000000000000FF
                then let ix = unat (drop_bit 8 val) in of_nat (CPU_CntLeadZerosTbl ! ix) + 48
                else let ix = unat val in of_nat (CPU_CntLeadZerosTbl ! ix) + 56)"

text \<open>\<^verbatim>\<open>CPU_CFG_DATA_SIZE\<close> is 32 bits.\<close>

definition CPU_CntLeadZeros :: "CPU_DATA \<Rightarrow> CPU_DATA" where
  "CPU_CntLeadZeros val = CPU_CntLeadZeros32 val"

definition CPU_CntTrailZeros :: "CPU_DATA \<Rightarrow> CPU_DATA" where
  "CPU_CntTrailZeros val =
     (if val = 0 then 32
      else let val_bit_mask = val AND (NOT val + 1);
               nbr_lead_zeros = CPU_CntLeadZeros val_bit_mask
           in 31 - nbr_lead_zeros)"

definition CPU_CntTrailZeros08 :: "8 word \<Rightarrow> CPU_DATA" where
  "CPU_CntTrailZeros08 val =
     (if val = 0 then 8
      else let val_bit_mask = val AND (NOT val + 1);
               nbr_lead_zeros = CPU_CntLeadZeros08 val_bit_mask
           in 7 - nbr_lead_zeros)"

definition CPU_CntTrailZeros16 :: "16 word \<Rightarrow> CPU_DATA" where
  "CPU_CntTrailZeros16 val =
     (if val = 0 then 16
      else let val_bit_mask = val AND (NOT val + 1);
               nbr_lead_zeros = CPU_CntLeadZeros16 val_bit_mask
           in 15 - nbr_lead_zeros)"

definition CPU_CntTrailZeros32 :: "32 word \<Rightarrow> CPU_DATA" where
  "CPU_CntTrailZeros32 val =
     (if val = 0 then 32
      else let val_bit_mask = val AND (NOT val + 1);
               nbr_lead_zeros = CPU_CntLeadZeros32 val_bit_mask
           in 31 - nbr_lead_zeros)"

definition CPU_CntTrailZeros64 :: "64 word \<Rightarrow> CPU_DATA" where
  "CPU_CntTrailZeros64 val =
     (if val = 0 then 64
      else let val_bit_mask = val AND (NOT val + 1);
               nbr_lead_zeros = CPU_CntLeadZeros64 val_bit_mask
           in 63 - nbr_lead_zeros)"

subsection \<open>Leading zeros\<close>

definition nlz :: "nat \<Rightarrow> nat \<Rightarrow> nat \<Rightarrow> bool" where
  "nlz w v n \<longleftrightarrow> (if v = 0 then n = w else n < w \<and> 2 ^ (w - 1 - n) \<le> v \<and> v < 2 ^ (w - n))"

lemma tbl_length [simp]: "length CPU_CntLeadZerosTbl = 256"
  by (simp add: CPU_CntLeadZerosTbl_def)

lemma tbl_all: "list_all (\<lambda>i. nlz 8 i (CPU_CntLeadZerosTbl ! i)) [0..<256]"
  unfolding nlz_def CPU_CntLeadZerosTbl_def by code_simp

lemma tbl_nlz: "i < 256 \<Longrightarrow> nlz 8 i (CPU_CntLeadZerosTbl ! i)"
  using tbl_all by (simp add: list_all_iff)

lemma nlz_shift:
  assumes "nlz 8 (v div 2 ^ k) t" "v div 2 ^ k \<noteq> 0" "w = k + 8 + m"
  shows "nlz w v (t + m)"
proof -
  from assms have t: "t < 8" "2 ^ (7 - t) \<le> v div 2 ^ k" "v div 2 ^ k < 2 ^ (8 - t)"
    by (auto simp: nlz_def)
  have v: "v \<noteq> 0" using assms(2) by (metis div_0)
  have lo: "2 ^ ((7 - t) + k) \<le> v" using t(2) by (simp add: less_eq_div_iff_mult_less_eq power_add)
  have hi: "v < 2 ^ ((8 - t) + k)" using t(3) by (simp add: div_less_iff_less_mult power_add)
  have e: "w - 1 - (t + m) = (7 - t) + k" "w - (t + m) = (8 - t) + k" using t(1) assms(3) by auto
  show ?thesis using lo hi v t(1) assms(3) unfolding nlz_def e by simp
qed

text \<open>One branch of the table-driven routines: the byte that holds the leading one sits at
  bit \<open>k\<close>, and \<open>m\<close> bits lie above it.\<close>

lemma tbl_branch:
  fixes val :: "'w::len word" and c :: "32 word"
  assumes "unat val < 2 ^ (k + 8)" "2 ^ k \<le> unat val \<or> k = 0" "w = k + 8 + unat c" "w < 2 ^ 32"
  shows "nlz w (unat val) (unat (of_nat (CPU_CntLeadZerosTbl ! unat (drop_bit k val)) + c))"
proof -
  let ?b = "unat val div 2 ^ k"
  have b: "?b < 256" using assms(1) by (simp add: power_add div_less_iff_less_mult mult.commute)
  have eq: "unat (drop_bit k val) = ?b" by (simp add: unat_drop_bit_eq flip: drop_bit_eq_div)
  let ?t = "CPU_CntLeadZerosTbl ! ?b"
  have n: "nlz 8 ?b ?t" using b by (rule tbl_nlz)
  then have t: "?t \<le> 8" by (auto simp: nlz_def split: if_splits)
  have "?t + unat c < 2 ^ 32" using t assms(3,4) by linarith
  then have u: "unat (of_nat ?t + c) = ?t + unat c" by (simp add: unat_word_ariths unat_of_nat)
  have "nlz w (unat val) (?t + unat c)"
  proof (cases "?b = 0")
    case True
    then have z: "k = 0" using assms(2) by (auto simp: div_eq_0_iff)
    with True n assms(3) show ?thesis by (simp add: nlz_def)
  next
    case False
    from nlz_shift [OF n False assms(3)] show ?thesis .
  qed
  then show ?thesis using u by (simp add: eq)
qed

lemmas tbl_branch_top = tbl_branch [where c = 0, unfolded add_0_right unat_0]
lemmas tbl_branch_low = tbl_branch [where k = 0, unfolded drop_bit_0 id_apply]
lemmas tbl_branches = tbl_branch_top [where k = 0, unfolded drop_bit_0 id_apply] tbl_branch_top tbl_branch_low tbl_branch

lemma CPU_CntLeadZeros08_nlz: "nlz 8 (unat val) (unat (CPU_CntLeadZeros08 val))"
  unfolding CPU_CntLeadZeros08_def Let_def
  by (rule tbl_branches) (use unsigned_less [of val] in simp_all)

lemma CPU_CntLeadZeros16_nlz: "nlz 16 (unat val) (unat (CPU_CntLeadZeros16 val))"
  unfolding CPU_CntLeadZeros16_def Let_def
  by (simp only: split: if_split, intro conjI impI; rule tbl_branches)
    (use unsigned_less [of val] in \<open>simp_all add: word_less_nat_alt\<close>)

lemma CPU_CntLeadZeros32_nlz: "nlz 32 (unat val) (unat (CPU_CntLeadZeros32 val))"
  unfolding CPU_CntLeadZeros32_def Let_def
  by (simp only: split: if_split, intro conjI impI; rule tbl_branches)
    (use unsigned_less [of val] in \<open>simp_all add: word_less_nat_alt\<close>)

text \<open>The guards of the 64-bit routine compare with \<open>2 ^ k - 1\<close>.\<close>

lemma guard64:
  fixes val :: "64 word"
  shows "0xFFFFFFFF < val \<longleftrightarrow> 2 ^ 32 \<le> unat val" "0xFFFFFFFFFFFF < val \<longleftrightarrow> 2 ^ 48 \<le> unat val"
    "0xFFFFFFFFFFFFFF < val \<longleftrightarrow> 2 ^ 56 \<le> unat val" "0xFFFFFFFFFF < val \<longleftrightarrow> 2 ^ 40 \<le> unat val"
    "0xFFFF < val \<longleftrightarrow> 2 ^ 16 \<le> unat val" "0xFFFFFF < val \<longleftrightarrow> 2 ^ 24 \<le> unat val"
    "0xFF < val \<longleftrightarrow> 2 ^ 8 \<le> unat val"
  by (simp_all add: word_less_nat_alt Suc_le_eq [symmetric])

lemma CPU_CntLeadZeros64_nlz: "nlz 64 (unat val) (unat (CPU_CntLeadZeros64 val))"
proof -
  have b: "unat val < 2 ^ 64" using unsigned_less [of val] by simp
  show ?thesis
    unfolding CPU_CntLeadZeros64_def Let_def guard64
    by (simp only: split: if_split, intro conjI impI; rule tbl_branches)
      (simp_all add: b [simplified])
qed

subsection \<open>Trailing zeros\<close>

text \<open>The mask \<open>val AND (NOT val + 1)\<close> isolates the lowest set bit of \<open>val\<close>.\<close>

lemma lowest_bit_int:
  fixes m :: int
  shows "2 ^ k * (2 * m + 1) AND - (2 ^ k * (2 * m + 1)) = 2 ^ k"
proof -
  have "- (2 ^ k * (2 * m + 1)) = push_bit k (- (2 * m + 1))"
    by (simp add: push_bit_eq_mult algebra_simps)
  moreover have "2 ^ k * (2 * m + 1) = push_bit k (2 * m + 1)"
    by (simp add: push_bit_eq_mult algebra_simps)
  moreover have "(2 * m + 1) AND - (2 * m + 1) = 1"
  proof (rule bit_eqI)
    fix n
    have neg: "- (2 * m + 1) = 2 * NOT m + 1" by (simp add: not_int_def)
    show "bit ((2 * m + 1) AND - (2 * m + 1)) n = bit (1::int) n"
      unfolding neg bit_and_iff
      by (cases n) (simp_all add: bit_0 bit_Suc bit_not_iff)
  qed
  ultimately show ?thesis by (simp flip: push_bit_and add: push_bit_of_1)
qed

lemma odd_decomp: "v \<noteq> 0 \<Longrightarrow> \<exists>k m. (v::nat) = 2 ^ k * (2 * m + 1)"
proof (induction v rule: less_induct)
  case (less v)
  show ?case
  proof (cases "even v")
    case True
    then obtain u where u: "v = 2 * u" by blast
    with less obtain k m where "u = 2 ^ k * (2 * m + 1)" by fastforce
    with u have "v = 2 ^ Suc k * (2 * m + 1)" by simp
    then show ?thesis by blast
  next
    case False
    then obtain m where "v = 2 ^ 0 * (2 * m + 1)" by (auto elim: oddE)
    then show ?thesis by blast
  qed
qed

lemma lowest_bit_word:
  fixes val :: "'w::len word"
  assumes "unat val = 2 ^ k * (2 * m + 1)"
  shows "unat (val AND (NOT val + 1)) = 2 ^ k"
proof -
  let ?z = "2 ^ k * (2 * int m + 1)"
  have "val = of_nat (unat val)" by simp
  also have "\<dots> = of_int ?z" unfolding assms by (simp add: algebra_simps)
  finally have v: "val = of_int ?z" .
  have "NOT val + 1 = - val" by (simp add: not_eq_complement)
  then have "val AND (NOT val + 1) = of_int (?z AND - ?z)"
    unfolding v by (simp only: of_int_and_eq of_int_minus)
  also have "\<dots> = 2 ^ k" by (simp only: lowest_bit_int) simp
  finally have e: "val AND (NOT val + 1) = 2 ^ k" .
  have "2 ^ k \<le> unat val" using assms by simp
  also have "\<dots> < 2 ^ LENGTH('w)" by (rule unsigned_less)
  finally have "k < LENGTH('w)" by simp
  then have "(2 ^ k :: nat) < 2 ^ LENGTH('w)" by simp
  moreover have "(2 :: 'w word) ^ k = of_nat (2 ^ k)" by simp
  ultimately show ?thesis unfolding e by (simp only: unat_of_nat mod_less)
qed

lemma nlz_power: "nlz w (2 ^ k) n \<Longrightarrow> k < w \<and> n = w - 1 - k"
proof -
  assume a: "nlz w (2 ^ k) n"
  then have n: "n < w" "2 ^ (w - 1 - n) \<le> (2 ^ k :: nat)" "(2 ^ k :: nat) < 2 ^ (w - n)"
    by (simp_all add: nlz_def)
  then have "w - 1 - n \<le> k" "k < w - n" by simp_all
  with n(1) show ?thesis by auto
qed

definition ntz :: "nat \<Rightarrow> nat \<Rightarrow> nat \<Rightarrow> bool" where
  "ntz w v n \<longleftrightarrow> (if v = 0 then n = w else 2 ^ n dvd v \<and> \<not> 2 ^ Suc n dvd v)"

lemma ntz_0 [simp]: "ntz w 0 n \<longleftrightarrow> n = w"
  by (simp add: ntz_def)

text \<open>All five trailing-zero routines follow one scheme, over the leading-zero routine \<open>clz\<close>
  of their width.\<close>

lemma trail_from_lead:
  fixes val :: "'w::len word" and clz :: "'w word \<Rightarrow> 32 word" and top :: "32 word"
  assumes clz: "\<And>x. nlz w (unat x) (unat (clz x))" and top: "unat top = w - 1" and val: "val \<noteq> 0"
  shows "ntz w (unat val) (unat (top - clz (val AND (NOT val + 1))))"
proof -
  have nz: "unat val \<noteq> 0" using val by (simp add: unat_eq_0)
  then obtain k m where km: "unat val = 2 ^ k * (2 * m + 1)" using odd_decomp by blast
  let ?n = "clz (val AND (NOT val + 1))"
  have "nlz w (2 ^ k) (unat ?n)" using clz lowest_bit_word [OF km] by metis
  then have n: "k < w" "unat ?n = w - 1 - k" using nlz_power by blast+
  have "?n \<le> top" unfolding word_le_nat_alt n(2) top by simp
  then have "unat (top - ?n) = k" using n top by (simp add: unat_sub)
  moreover have "\<not> 2 ^ k * 2 dvd 2 ^ k * (2 * m + 1)"
    by (subst dvd_times_left_cancel_iff) simp_all
  ultimately show ?thesis unfolding ntz_def using nz km by (simp add: mult.commute [of 2])
qed

lemma CPU_CntTrailZeros08_ntz: "ntz 8 (unat val) (unat (CPU_CntTrailZeros08 val))"
  using trail_from_lead [OF CPU_CntLeadZeros08_nlz, of 7 val]
  by (cases "val = 0") (simp_all add: CPU_CntTrailZeros08_def)

lemma CPU_CntTrailZeros16_ntz: "ntz 16 (unat val) (unat (CPU_CntTrailZeros16 val))"
  using trail_from_lead [OF CPU_CntLeadZeros16_nlz, of 15 val]
  by (cases "val = 0") (simp_all add: CPU_CntTrailZeros16_def)

lemma CPU_CntTrailZeros32_ntz: "ntz 32 (unat val) (unat (CPU_CntTrailZeros32 val))"
  using trail_from_lead [OF CPU_CntLeadZeros32_nlz, of 31 val]
  by (cases "val = 0") (simp_all add: CPU_CntTrailZeros32_def)

lemma CPU_CntTrailZeros64_ntz: "ntz 64 (unat val) (unat (CPU_CntTrailZeros64 val))"
  using trail_from_lead [OF CPU_CntLeadZeros64_nlz, of 63 val]
  by (cases "val = 0") (simp_all add: CPU_CntTrailZeros64_def)

lemma CPU_CntLeadZeros_nlz: "nlz 32 (unat val) (unat (CPU_CntLeadZeros val))"
  unfolding CPU_CntLeadZeros_def by (rule CPU_CntLeadZeros32_nlz)

lemma CPU_CntTrailZeros_ntz: "ntz 32 (unat val) (unat (CPU_CntTrailZeros val))"
  using trail_from_lead [OF CPU_CntLeadZeros_nlz, of 31 val]
  by (cases "val = 0") (simp_all add: CPU_CntTrailZeros_def)

end
