(* ===== verification/OS_Prio.thy ===== *)
theory OS_Prio
  imports CPU_Lib
begin

text \<open>
  \<^verbatim>\<open>src/ucosTest/Source/os_prio.c\<close>: the bitmap \<^verbatim>\<open>OSPrioTbl\<close> of the ready priorities.
  Priority \<open>p\<close> is bit \<open>31 - p mod 32\<close> of entry \<open>p div 32\<close>, so that the leading-zero count
  of the first non-zero entry finds the most urgent priority.  The model keeps the table
  length open (\<^verbatim>\<open>OS_PRIO_TBL_SIZE\<close> is 1 for \<^verbatim>\<open>OS_CFG_PRIO_MAX = 32\<close>); reading beyond the
  end of the table is undefined (\<open>None\<close>).  The abstraction is the set \<open>prio_set\<close> of
  priorities whose bit is set.
\<close>

abbreviation (input) OS_PRIO_TBL_SIZE :: nat where
  "OS_PRIO_TBL_SIZE \<equiv> (OS_CFG_PRIO_MAX - 1) div 32 + 1"

definition OS_PrioInit :: "os \<Rightarrow> os" where
  "OS_PrioInit s = s\<lparr>OSPrioTbl := replicate OS_PRIO_TBL_SIZE 0\<rparr>"

text \<open>The loop \<open>while (*p_tbl == 0) prio += 32, p_tbl++\<close>; running off the table is undefined.\<close>

fun prio_scan :: "CPU_DATA list \<Rightarrow> OS_PRIO \<Rightarrow> OS_PRIO option" where
  "prio_scan [] prio = None"
| "prio_scan (w # ws) prio =
     (if w = 0 then prio_scan ws (prio + 32)
      else Some (prio + ucast (CPU_CntLeadZeros w)))"

definition OS_PrioGetHighest :: "os \<Rightarrow> OS_PRIO option" where
  "OS_PrioGetHighest s = prio_scan (OSPrioTbl s) 0"

definition prio_bit :: "OS_PRIO \<Rightarrow> CPU_DATA" where
  "prio_bit prio = (let bit_nbr = ucast prio AND (31 :: CPU_DATA) in push_bit (unat (31 - bit_nbr)) 1)"

definition OS_PrioInsert :: "OS_PRIO \<Rightarrow> os \<Rightarrow> os option" where
  "OS_PrioInsert prio s =
     (let ix = unat (prio div 32)
      in if ix < length (OSPrioTbl s)
         then Some (s\<lparr>OSPrioTbl := (OSPrioTbl s)[ix := OSPrioTbl s ! ix OR prio_bit prio]\<rparr>)
         else None)"

definition OS_PrioRemove :: "OS_PRIO \<Rightarrow> os \<Rightarrow> os option" where
  "OS_PrioRemove prio s =
     (let ix = unat (prio div 32)
      in if ix < length (OSPrioTbl s)
         then Some (s\<lparr>OSPrioTbl := (OSPrioTbl s)[ix := OSPrioTbl s ! ix AND NOT (prio_bit prio)]\<rparr>)
         else None)"

subsection \<open>The bitmap as a set of priorities\<close>

definition tbl_has :: "CPU_DATA list \<Rightarrow> nat \<Rightarrow> bool" where
  "tbl_has tbl p \<longleftrightarrow> p div 32 < length tbl \<and> bit (tbl ! (p div 32)) (31 - p mod 32)"

definition prio_set :: "os \<Rightarrow> nat set" where
  "prio_set s = {p. tbl_has (OSPrioTbl s) p}"

lemma unat_ucast_8_32 [simp]: "unat (ucast (x :: 8 word) :: 32 word) = unat x"
proof -
  have "unat x < 2 ^ 32" by (rule less_le_trans [OF unsigned_less]) simp
  then show ?thesis by (simp only: unsigned_ucast_eq) (simp add: take_bit_nat_eq_self)
qed

lemma and_31: "unat (ucast (prio :: 8 word) AND (31 :: 32 word)) = unat prio mod 32"
proof -
  have "ucast prio AND (31 :: 32 word) = take_bit 5 (ucast prio)"
    by (simp only: take_bit_eq_mask) (simp add: mask_eq_exp_minus_1)
  then have "unat (ucast prio AND (31 :: 32 word)) = take_bit 5 (unat prio)"
    by (simp only: unsigned_take_bit_eq unat_ucast_8_32)
  then show ?thesis by (simp add: take_bit_eq_mod)
qed

lemma prio_bit_iff: "bit (prio_bit prio) n \<longleftrightarrow> n = 31 - unat prio mod 32"
proof -
  let ?b = "ucast prio AND (31 :: CPU_DATA)"
  have "unat (31 - ?b) = 31 - unat prio mod 32"
    by (subst unat_sub) (simp_all add: word_le_nat_alt and_31)
  then show ?thesis by (auto simp: prio_bit_def Let_def bit_exp_iff)
qed

lemma OS_PrioInit_set: "prio_set (OS_PrioInit s) = {}"
  by (auto simp: prio_set_def OS_PrioInit_def tbl_has_def)

lemma tbl_has_upd:
  "i < length tbl \<Longrightarrow>
   tbl_has (tbl[i := w]) p \<longleftrightarrow> (if p div 32 = i then bit w (31 - p mod 32) else tbl_has tbl p)"
  by (auto simp: tbl_has_def)

lemma tbl_has_at: "p div 32 = i \<Longrightarrow> i < length tbl \<Longrightarrow> bit (tbl ! i) (31 - p mod 32) \<longleftrightarrow> tbl_has tbl p"
  by (auto simp: tbl_has_def)

lemma same_prio: "p div 32 = q div 32 \<Longrightarrow> 31 - p mod 32 = 31 - q mod 32 \<longleftrightarrow> p = (q::nat)"
proof -
  assume d: "p div 32 = q div 32"
  have "p mod 32 < 32" "q mod 32 < 32" by simp_all
  then have "31 - p mod 32 = 31 - q mod 32 \<longleftrightarrow> p mod 32 = q mod 32" by linarith
  then show ?thesis using d by (metis div_mult_mod_eq)
qed

lemma ix_prio: "unat (prio div 32 :: OS_PRIO) = unat prio div 32"
  by (simp add: unat_div)

lemma OS_PrioInsert_ok:
  assumes "unat prio div 32 < length (OSPrioTbl s)"
  obtains tbl where "OS_PrioInsert prio s = Some (s\<lparr>OSPrioTbl := tbl\<rparr>)" "length tbl = length (OSPrioTbl s)"
    "\<And>p. tbl_has tbl p \<longleftrightarrow> p = unat prio \<or> tbl_has (OSPrioTbl s) p"
proof -
  let ?i = "unat prio div 32"
  let ?t = "(OSPrioTbl s)[?i := OSPrioTbl s ! ?i OR prio_bit prio]"
  have "tbl_has ?t p \<longleftrightarrow> p = unat prio \<or> tbl_has (OSPrioTbl s) p" for p
    by (cases "p div 32 = ?i")
      (simp_all only: tbl_has_upd [OF assms] bit_or_iff prio_bit_iff tbl_has_at assms same_prio simp_thms if_True
        if_False, auto)
  moreover have "OS_PrioInsert prio s = Some (s\<lparr>OSPrioTbl := ?t\<rparr>)"
    using assms by (simp only: OS_PrioInsert_def Let_def ix_prio if_True)
  ultimately show ?thesis using that [of ?t] by simp
qed

lemma OS_PrioRemove_ok:
  assumes "unat prio div 32 < length (OSPrioTbl s)"
  obtains tbl where "OS_PrioRemove prio s = Some (s\<lparr>OSPrioTbl := tbl\<rparr>)" "length tbl = length (OSPrioTbl s)"
    "\<And>p. tbl_has tbl p \<longleftrightarrow> p \<noteq> unat prio \<and> tbl_has (OSPrioTbl s) p"
proof -
  let ?i = "unat prio div 32"
  let ?t = "(OSPrioTbl s)[?i := OSPrioTbl s ! ?i AND NOT (prio_bit prio)]"
  have pos: "possible_bit TYPE(CPU_DATA) (31 - p mod 32)" for p by (simp add: possible_bit_word)
  have "tbl_has ?t p \<longleftrightarrow> p \<noteq> unat prio \<and> tbl_has (OSPrioTbl s) p" for p
    by (cases "p div 32 = ?i")
      (simp_all only: tbl_has_upd [OF assms] bit_and_iff bit_not_iff pos prio_bit_iff tbl_has_at assms same_prio
        simp_thms if_True if_False, auto)
  moreover have "OS_PrioRemove prio s = Some (s\<lparr>OSPrioTbl := ?t\<rparr>)"
    using assms by (simp only: OS_PrioRemove_def Let_def ix_prio if_True)
  ultimately show ?thesis using that [of ?t] by simp
qed

text \<open>The leading-zero count finds the smallest priority of a table entry.\<close>

lemma nlz_bit:
  assumes "nlz 32 (unat (w :: 32 word)) n" "w \<noteq> 0"
  shows "n < 32" "bit w (31 - n)" "\<And>k. k < n \<Longrightarrow> \<not> bit w (31 - k)"
proof -
  have "unat w \<noteq> 0" using assms(2) by (simp add: unat_eq_0)
  with assms(1) have n: "n < 32" "2 ^ (31 - n) \<le> unat w" "unat w < 2 ^ (32 - n)" by (simp_all add: nlz_def)
  have e: "32 - n = Suc (31 - n)" using n(1) by simp
  have q: "unat w div 2 ^ (31 - n) = 1"
    using n(2,3) unfolding e by (simp add: div_nat_eqI)
  show "n < 32" by (rule n)
  have bw: "bit w k \<longleftrightarrow> bit (unat w) k" for k by (simp add: bit_unsigned_iff bit_imp_le_length)
  show "bit w (31 - n)" unfolding bw by (simp add: bit_iff_odd q)
  fix k assume "k < n"
  then have "unat w < 2 ^ (31 - k)" using n by (auto intro: less_le_trans power_increasing)
  then have "unat w div 2 ^ (31 - k) = 0" by simp
  then show "\<not> bit w (31 - k)" unfolding bw by (simp add: bit_iff_odd)
qed

lemma tbl_has_Cons:
  "tbl_has (w # ws) p \<longleftrightarrow> (if p < 32 then bit w (31 - p) else tbl_has ws (p - 32))"
proof (cases "p < 32")
  case True
  then show ?thesis by (simp add: tbl_has_def)
next
  case False
  then have "p div 32 = Suc ((p - 32) div 32)" "(p - 32) mod 32 = p mod 32"
    by (simp_all add: le_div_geq le_mod_geq)
  with False show ?thesis by (simp add: tbl_has_def)
qed

lemma prio_scan_ok:
  assumes "unat base + 32 * length tbl \<le> 256" "tbl_has tbl p"
  shows "\<exists>q. tbl_has tbl q \<and> (\<forall>r. tbl_has tbl r \<longrightarrow> q \<le> r) \<and>
             prio_scan tbl base = Some (of_nat (unat base + q)) \<and> unat base + q < 256"
  using assms
proof (induction tbl arbitrary: base p)
  case Nil
  then show ?case by (simp add: tbl_has_def)
next
  case (Cons w ws)
  show ?case
  proof (cases "w = 0")
    case True
    with Cons.prems(2) have p: "\<not> p < 32" "tbl_has ws (p - 32)" by (auto simp: tbl_has_Cons split: if_splits)
    then have "0 < length ws" by (auto simp: tbl_has_def)
    then have "1 \<le> length ws" by linarith
    then have "unat base + 32 < 256" using Cons.prems(1) by simp
    then have b: "unat (base + 32) = unat base + 32" by (simp add: unat_word_ariths)
    from Cons.IH [of "base + 32", OF _ p(2)] Cons.prems(1) b
    obtain q where q: "tbl_has ws q" "\<forall>r. tbl_has ws r \<longrightarrow> q \<le> r"
      "prio_scan ws (base + 32) = Some (of_nat (unat base + 32 + q))" "unat base + 32 + q < 256" by auto
    have "\<forall>r. tbl_has (w # ws) r \<longrightarrow> 32 + q \<le> r"
      using q(2) True by (fastforce simp: tbl_has_Cons split: if_splits)
    with q True show ?thesis by (intro exI [of _ "32 + q"]) (simp add: tbl_has_Cons add.assoc)
  next
    case False
    let ?n = "unat (CPU_CntLeadZeros w)"
    note n = nlz_bit [OF CPU_CntLeadZeros_nlz False]
    have "unat base + ?n < 256" using n(1) Cons.prems(1) by simp
    moreover have "base + ucast (CPU_CntLeadZeros w) = of_nat (unat base + ?n)" by simp
    moreover have "\<forall>r. tbl_has (w # ws) r \<longrightarrow> ?n \<le> r"
      using n(1,3) by (fastforce simp: tbl_has_Cons not_less split: if_splits)
    ultimately show ?thesis using n(1,2) False by (intro exI [of _ ?n]) (simp add: tbl_has_Cons)
  qed
qed

lemma OS_PrioGetHighest_Min:
  assumes "32 * length (OSPrioTbl s) \<le> 256" "p \<in> prio_set s"
  shows "OS_PrioGetHighest s = Some (of_nat (LEAST q. q \<in> prio_set s))"
    and "(LEAST q. q \<in> prio_set s) < 256"
proof -
  have "tbl_has (OSPrioTbl s) p" using assms(2) by (simp add: prio_set_def)
  from prio_scan_ok [of 0, OF _ this] assms(1)
  obtain q where q: "tbl_has (OSPrioTbl s) q" "\<forall>r. tbl_has (OSPrioTbl s) r \<longrightarrow> q \<le> r"
    "prio_scan (OSPrioTbl s) 0 = Some (of_nat q)" "q < 256" by auto
  from q(1,2) have "(LEAST q. q \<in> prio_set s) = q"
    unfolding prio_set_def by (intro Least_equality) auto
  with q show "OS_PrioGetHighest s = Some (of_nat (LEAST q. q \<in> prio_set s))"
    and "(LEAST q. q \<in> prio_set s) < 256"
    by (simp_all add: OS_PrioGetHighest_def)
qed

end
