(* ===== verification/OS_RdyList.thy ===== *)
theory OS_RdyList
  imports OS_Prio
begin

text \<open>
  \<^verbatim>\<open>src/ucosTest/Source/os_core.c\<close>, the ready list: one doubly linked list of task control
  blocks per priority (\<^verbatim>\<open>OSRdyList\<close>), threaded through \<^verbatim>\<open>NextPtr\<close>/\<^verbatim>\<open>PrevPtr\<close> of the TCBs, and
  the priority bitmap of \<^verbatim>\<open>os_prio.c\<close> that says which of the lists are not empty.
  The routines are pointer programs; the abstraction relation \<open>rdy_rel s R\<close> gives each
  priority \<open>p\<close> the sequence \<open>R p\<close> of its ready tasks, and every routine is shown to
  implement the corresponding list operation on \<open>R\<close>.
\<close>

definition OS_RdyListInit :: "os \<Rightarrow> os option" where
  "OS_RdyListInit s =
     for_each [0..<OS_CFG_PRIO_MAX]
       (\<lambda>i. rdy_mod i (\<lambda>l. l\<lparr>RL_NbrEntries := 0, RL_HeadPtr := NULL, RL_TailPtr := NULL\<rparr>)) s"

definition OS_RdyListInsertHead :: "ptr \<Rightarrow> os \<Rightarrow> os option" where
  "OS_RdyListInsertHead p_tcb s = do {
     tcb \<leftarrow> tcbs s p_tcb;
     let prio = unat (TCB_Prio tcb);
     p_rdy_list \<leftarrow> OSRdyList s prio;
     if RL_NbrEntries p_rdy_list = 0 then do {
       s \<leftarrow> rdy_mod prio (\<lambda>l. l\<lparr>RL_NbrEntries := 1\<rparr>) s;
       s \<leftarrow> tcb_mod p_tcb (\<lambda>t. t\<lparr>TCB_NextPtr := NULL, TCB_PrevPtr := NULL\<rparr>) s;
       rdy_mod prio (\<lambda>l. l\<lparr>RL_HeadPtr := p_tcb, RL_TailPtr := p_tcb\<rparr>) s
     } else do {
       s \<leftarrow> rdy_mod prio (\<lambda>l. l\<lparr>RL_NbrEntries := RL_NbrEntries l + 1\<rparr>) s;
       s \<leftarrow> tcb_mod p_tcb (\<lambda>t. t\<lparr>TCB_NextPtr := RL_HeadPtr p_rdy_list, TCB_PrevPtr := NULL\<rparr>) s;
       let p_tcb2 = RL_HeadPtr p_rdy_list;
       s \<leftarrow> tcb_mod p_tcb2 (\<lambda>t. t\<lparr>TCB_PrevPtr := p_tcb\<rparr>) s;
       rdy_mod prio (\<lambda>l. l\<lparr>RL_HeadPtr := p_tcb\<rparr>) s
     }
   }"

definition OS_RdyListInsertTail :: "ptr \<Rightarrow> os \<Rightarrow> os option" where
  "OS_RdyListInsertTail p_tcb s = do {
     tcb \<leftarrow> tcbs s p_tcb;
     let prio = unat (TCB_Prio tcb);
     p_rdy_list \<leftarrow> OSRdyList s prio;
     if RL_NbrEntries p_rdy_list = 0 then do {
       s \<leftarrow> rdy_mod prio (\<lambda>l. l\<lparr>RL_NbrEntries := 1\<rparr>) s;
       s \<leftarrow> tcb_mod p_tcb (\<lambda>t. t\<lparr>TCB_NextPtr := NULL, TCB_PrevPtr := NULL\<rparr>) s;
       rdy_mod prio (\<lambda>l. l\<lparr>RL_HeadPtr := p_tcb, RL_TailPtr := p_tcb\<rparr>) s
     } else do {
       s \<leftarrow> rdy_mod prio (\<lambda>l. l\<lparr>RL_NbrEntries := RL_NbrEntries l + 1\<rparr>) s;
       s \<leftarrow> tcb_mod p_tcb (\<lambda>t. t\<lparr>TCB_NextPtr := NULL\<rparr>) s;
       let p_tcb2 = RL_TailPtr p_rdy_list;
       s \<leftarrow> tcb_mod p_tcb (\<lambda>t. t\<lparr>TCB_PrevPtr := p_tcb2\<rparr>) s;
       s \<leftarrow> tcb_mod p_tcb2 (\<lambda>t. t\<lparr>TCB_NextPtr := p_tcb\<rparr>) s;
       rdy_mod prio (\<lambda>l. l\<lparr>RL_TailPtr := p_tcb\<rparr>) s
     }
   }"

definition OS_RdyListInsert :: "ptr \<Rightarrow> os \<Rightarrow> os option" where
  "OS_RdyListInsert p_tcb s = do {
     tcb \<leftarrow> tcbs s p_tcb;
     s \<leftarrow> OS_PrioInsert (TCB_Prio tcb) s;
     if TCB_Prio tcb = OSPrioCur s
     then OS_RdyListInsertTail p_tcb s
     else OS_RdyListInsertHead p_tcb s
   }"

text \<open>The argument is the address \<open>&OSRdyList[ix]\<close>, given by its index.\<close>

definition OS_RdyListMoveHeadToTail :: "nat \<Rightarrow> os \<Rightarrow> os option" where
  "OS_RdyListMoveHeadToTail ix s = do {
     p_rdy_list \<leftarrow> OSRdyList s ix;
     if RL_NbrEntries p_rdy_list = 0 \<or> RL_NbrEntries p_rdy_list = 1 then Some s
     else if RL_NbrEntries p_rdy_list = 2 then do {
       let p_tcb1 = RL_HeadPtr p_rdy_list;
       let p_tcb2 = RL_TailPtr p_rdy_list;
       s \<leftarrow> tcb_mod p_tcb1 (\<lambda>t. t\<lparr>TCB_PrevPtr := p_tcb2, TCB_NextPtr := NULL\<rparr>) s;
       s \<leftarrow> tcb_mod p_tcb2 (\<lambda>t. t\<lparr>TCB_PrevPtr := NULL, TCB_NextPtr := p_tcb1\<rparr>) s;
       rdy_mod ix (\<lambda>l. l\<lparr>RL_HeadPtr := p_tcb2, RL_TailPtr := p_tcb1\<rparr>) s
     } else do {
       let p_tcb1 = RL_HeadPtr p_rdy_list;
       let p_tcb2 = RL_TailPtr p_rdy_list;
       tcb1 \<leftarrow> tcbs s p_tcb1;
       let p_tcb3 = TCB_NextPtr tcb1;
       s \<leftarrow> tcb_mod p_tcb3 (\<lambda>t. t\<lparr>TCB_PrevPtr := NULL\<rparr>) s;
       s \<leftarrow> tcb_mod p_tcb1 (\<lambda>t. t\<lparr>TCB_NextPtr := NULL, TCB_PrevPtr := p_tcb2\<rparr>) s;
       s \<leftarrow> tcb_mod p_tcb2 (\<lambda>t. t\<lparr>TCB_NextPtr := p_tcb1\<rparr>) s;
       rdy_mod ix (\<lambda>l. l\<lparr>RL_HeadPtr := p_tcb3, RL_TailPtr := p_tcb1\<rparr>) s
     }
   }"

definition OS_RdyListRemove :: "ptr \<Rightarrow> os \<Rightarrow> os option" where
  "OS_RdyListRemove p_tcb s = do {
     tcb \<leftarrow> tcbs s p_tcb;
     let prio = unat (TCB_Prio tcb);
     let p_tcb1 = TCB_PrevPtr tcb;
     let p_tcb2 = TCB_NextPtr tcb;
     s \<leftarrow> (if p_tcb1 = NULL then
             if p_tcb2 = NULL then do {
               s \<leftarrow> rdy_mod prio (\<lambda>l. l\<lparr>RL_NbrEntries := 0, RL_HeadPtr := NULL, RL_TailPtr := NULL\<rparr>) s;
               OS_PrioRemove (TCB_Prio tcb) s
             } else do {
               s \<leftarrow> rdy_mod prio (\<lambda>l. l\<lparr>RL_NbrEntries := RL_NbrEntries l - 1\<rparr>) s;
               s \<leftarrow> tcb_mod p_tcb2 (\<lambda>t. t\<lparr>TCB_PrevPtr := NULL\<rparr>) s;
               rdy_mod prio (\<lambda>l. l\<lparr>RL_HeadPtr := p_tcb2\<rparr>) s
             }
           else do {
             s \<leftarrow> rdy_mod prio (\<lambda>l. l\<lparr>RL_NbrEntries := RL_NbrEntries l - 1\<rparr>) s;
             s \<leftarrow> tcb_mod p_tcb1 (\<lambda>t. t\<lparr>TCB_NextPtr := p_tcb2\<rparr>) s;
             if p_tcb2 = NULL
             then rdy_mod prio (\<lambda>l. l\<lparr>RL_TailPtr := p_tcb1\<rparr>) s
             else tcb_mod p_tcb2 (\<lambda>t. t\<lparr>TCB_PrevPtr := p_tcb1\<rparr>) s
           });
     tcb_mod p_tcb (\<lambda>t. t\<lparr>TCB_PrevPtr := NULL, TCB_NextPtr := NULL\<rparr>) s
   }"

subsection \<open>The abstraction: a sequence of tasks per priority\<close>

definition rdy_ok :: "os \<Rightarrow> nat \<Rightarrow> ptr list \<Rightarrow> bool" where
  "rdy_ok s p xs \<longleftrightarrow>
     (\<exists>l. OSRdyList s p = Some l \<and> unat (RL_NbrEntries l) = length xs \<and>
          linked TCB_NextPtr TCB_PrevPtr (tcbs s) (RL_HeadPtr l) (RL_TailPtr l) xs) \<and>
     (\<forall>x \<in> set xs. \<exists>t. tcbs s x = Some t \<and> unat (TCB_Prio t) = p)"

definition rdy_links :: "os \<Rightarrow> (nat \<Rightarrow> ptr list) \<Rightarrow> bool" where
  "rdy_links s R \<longleftrightarrow> (\<forall>p < OS_CFG_PRIO_MAX. rdy_ok s p (R p)) \<and> (\<forall>p \<ge> OS_CFG_PRIO_MAX. R p = [])"

definition rdy_map :: "os \<Rightarrow> (nat \<Rightarrow> ptr list) \<Rightarrow> bool" where
  "rdy_map s R \<longleftrightarrow> length (OSPrioTbl s) = OS_PRIO_TBL_SIZE \<and> prio_set s = {p. R p \<noteq> []}"

definition rdy_rel :: "os \<Rightarrow> (nat \<Rightarrow> ptr list) \<Rightarrow> bool" where
  "rdy_rel s R \<longleftrightarrow> rdy_links s R \<and> rdy_map s R"

text \<open>What the ready-list routines leave alone: every TCB field but the two links, and every
  global but the ready lists and the bitmap.\<close>

definition tcb_core :: "OS_TCB \<Rightarrow> OS_TCB" where
  "tcb_core t = t\<lparr>TCB_NextPtr := NULL, TCB_PrevPtr := NULL\<rparr>"

definition os_less_rdy :: "os \<Rightarrow> os" where
  "os_less_rdy s = s\<lparr>tcbs := Map.empty, OSRdyList := Map.empty, OSPrioTbl := []\<rparr>"

definition rdy_frame :: "os \<Rightarrow> os \<Rightarrow> bool" where
  "rdy_frame s s' \<longleftrightarrow> os_less_rdy s' = os_less_rdy s \<and>
     (\<forall>x. map_option tcb_core (tcbs s' x) = map_option tcb_core (tcbs s x))"

lemma tcb_core_sel:
  "TCB_Prio (tcb_core t) = TCB_Prio t" "TCB_TaskState (tcb_core t) = TCB_TaskState t"
  "TCB_PendOn (tcb_core t) = TCB_PendOn t" "TCB_PendStatus (tcb_core t) = TCB_PendStatus t"
  "TCB_PendDataTblPtr (tcb_core t) = TCB_PendDataTblPtr t"
  "TCB_PendDataTblEntries (tcb_core t) = TCB_PendDataTblEntries t"
  "TCB_TickNextPtr (tcb_core t) = TCB_TickNextPtr t" "TCB_TickPrevPtr (tcb_core t) = TCB_TickPrevPtr t"
  "TCB_TickSpokePtr (tcb_core t) = TCB_TickSpokePtr t" "TCB_TickCtrMatch (tcb_core t) = TCB_TickCtrMatch t"
  by (simp_all add: tcb_core_def)

lemma tcb_core_eqD:
  assumes "tcb_core t' = tcb_core t"
  shows "TCB_Prio t' = TCB_Prio t" "TCB_TaskState t' = TCB_TaskState t"
    "TCB_PendOn t' = TCB_PendOn t" "TCB_PendStatus t' = TCB_PendStatus t"
    "TCB_PendDataTblPtr t' = TCB_PendDataTblPtr t" "TCB_PendDataTblEntries t' = TCB_PendDataTblEntries t"
    "TCB_TickNextPtr t' = TCB_TickNextPtr t" "TCB_TickPrevPtr t' = TCB_TickPrevPtr t"
    "TCB_TickSpokePtr t' = TCB_TickSpokePtr t" "TCB_TickCtrMatch t' = TCB_TickCtrMatch t"
  using assms by (metis tcb_core_sel)+

lemma rdy_frame_refl [simp]: "rdy_frame s s"
  by (simp add: rdy_frame_def)

lemma rdy_frame_trans: "rdy_frame s s' \<Longrightarrow> rdy_frame s' s'' \<Longrightarrow> rdy_frame s s''"
  by (simp add: rdy_frame_def)

lemma rdy_frame_tcb:
  assumes "rdy_frame s s'" "tcbs s x = Some t"
  obtains t' where "tcbs s' x = Some t'" "tcb_core t' = tcb_core t"
proof -
  have "map_option tcb_core (tcbs s' x) = Some (tcb_core t)" using assms by (simp add: rdy_frame_def)
  with that show ?thesis by auto
qed

lemma rdy_links_upd:
  assumes R: "rdy_links s R" and p: "p < OS_CFG_PRIO_MAX"
    and l: "OSRdyList s' = (OSRdyList s)(p \<mapsto> l')" "unat (RL_NbrEntries l') = length xs"
    and lk: "linked TCB_NextPtr TCB_PrevPtr (tcbs s') (RL_HeadPtr l') (RL_TailPtr l') xs"
    and core: "\<And>y. map_option tcb_core (tcbs s' y) = map_option tcb_core (tcbs s y)"
    and chg: "\<And>y. y \<notin> D \<Longrightarrow> tcbs s' y = tcbs s y"
    and D: "\<And>y. y \<in> D \<union> set xs \<Longrightarrow> \<exists>t. tcbs s y = Some t \<and> unat (TCB_Prio t) = p"
  shows "rdy_links s' (R(p := xs))"
proof -
  have prio: "\<exists>t. tcbs s' y = Some t \<and> unat (TCB_Prio t) = q"
    if "\<exists>t. tcbs s y = Some t \<and> unat (TCB_Prio t) = q" for y q
  proof -
    from that obtain t where t: "tcbs s y = Some t" "unat (TCB_Prio t) = q" by blast
    with core [of y] obtain t' where t': "tcbs s' y = Some t'" "tcb_core t' = tcb_core t" by auto
    with t show ?thesis using tcb_core_eqD(1) [OF t'(2)] by simp
  qed
  have "rdy_ok s' q (R q)" if q: "q \<noteq> p" "q < OS_CFG_PRIO_MAX" for q
  proof -
    from R q have ok: "rdy_ok s q (R q)" by (simp add: rdy_links_def)
    have "tcbs s' y = tcbs s y" if "y \<in> set (R q)" for y
      using that ok D [of y] chg [of y] q(1) by (fastforce simp: rdy_ok_def)
    then have "linked TCB_NextPtr TCB_PrevPtr (tcbs s') a b (R q) = linked TCB_NextPtr TCB_PrevPtr (tcbs s) a b (R q)"
      for a b by (intro linked_cong) simp_all
    with ok prio l(1) q(1) show ?thesis by (auto simp: rdy_ok_def)
  qed
  moreover have "rdy_ok s' p xs" using l lk D prio by (auto simp: rdy_ok_def)
  ultimately show ?thesis using R p by (auto simp: rdy_links_def)
qed

lemmas rdy_links_upd_explicit =
  rdy_links_upd [where s' = "s\<lparr>tcbs := h, OSRdyList := (OSRdyList s)(p \<mapsto> l)\<rparr>" and s = s and p = p and l' = l for s h p l,
    simplified]

lemma rdy_links_PrioTbl [simp]: "rdy_links (s\<lparr>OSPrioTbl := b\<rparr>) R = rdy_links s R"
  by (simp add: rdy_links_def rdy_ok_def)

lemma rdy_links_obtain:
  assumes "rdy_links s R" "p < OS_CFG_PRIO_MAX"
  obtains l where "OSRdyList s p = Some l" "unat (RL_NbrEntries l) = length (R p)"
    "linked TCB_NextPtr TCB_PrevPtr (tcbs s) (RL_HeadPtr l) (RL_TailPtr l) (R p)"
    "\<forall>y \<in> set (R p). \<exists>t. tcbs s y = Some t \<and> unat (TCB_Prio t) = p"
  using assms unfolding rdy_links_def rdy_ok_def by blast

lemma OS_RdyListInsertHead_ok:
  assumes R: "rdy_links s R" and t: "tcbs s x = Some t" "unat (TCB_Prio t) = p" "p < OS_CFG_PRIO_MAX"
    and x: "x \<noteq> NULL" "x \<notin> set (R p)" and len: "length (R p) < 65535"
  shows "\<exists>s'. OS_RdyListInsertHead x s = Some s' \<and> rdy_links s' (R(p := x # R p)) \<and> rdy_frame s s' \<and>
     OSPrioTbl s' = OSPrioTbl s"
proof -
  from R t(3) obtain l where l: "OSRdyList s p = Some l" "unat (RL_NbrEntries l) = length (R p)"
    and lk: "linked TCB_NextPtr TCB_PrevPtr (tcbs s) (RL_HeadPtr l) (RL_TailPtr l) (R p)"
    and pr: "\<forall>y \<in> set (R p). \<exists>t. tcbs s y = Some t \<and> unat (TCB_Prio t) = p"
    by (rule rdy_links_obtain)
  show ?thesis
  proof (cases "R p = []")
    case True
    then have "RL_NbrEntries l = 0" using l(2) by (simp add: unat_eq_0)
    let ?s = "s\<lparr>tcbs := (tcbs s)(x \<mapsto> t\<lparr>TCB_NextPtr := 0, TCB_PrevPtr := 0\<rparr>),
       OSRdyList := (OSRdyList s)(p \<mapsto> l\<lparr>RL_NbrEntries := 1, RL_HeadPtr := x, RL_TailPtr := x\<rparr>)\<rparr>"
    have "OS_RdyListInsertHead x s = Some ?s" using \<open>RL_NbrEntries l = 0\<close> l t
      by (simp add: OS_RdyListInsertHead_def)
    moreover have "rdy_links ?s (R(p := [x]))"
      by (rule rdy_links_upd_explicit [OF R t(3), where D = "{x}"])
       (use x t in \<open>auto simp: linked_def tcb_core_def fld_def\<close>)
    moreover have "rdy_frame s ?s" using t
      by (auto simp: rdy_frame_def os_less_rdy_def tcb_core_def)
    ultimately show ?thesis using True by simp
  next
    case False
    then have nz: "RL_NbrEntries l \<noteq> 0" using l(2) by auto
    from lk False obtain m where m: "tcbs s (RL_HeadPtr l) = Some m" "TCB_PrevPtr m = 0"
     "RL_HeadPtr l \<in> set (R p)"
      by (rule linked_ends)
    with x have ne: "RL_HeadPtr l \<noteq> x" by auto
    let ?h = "(tcbs s)(x \<mapsto> t\<lparr>TCB_NextPtr := RL_HeadPtr l, TCB_PrevPtr := NULL\<rparr>, RL_HeadPtr l \<mapsto> m\<lparr>TCB_PrevPtr := x\<rparr>)"
    let ?s = "s\<lparr>tcbs := ?h, OSRdyList := (OSRdyList s)(p \<mapsto> l\<lparr>RL_NbrEntries := RL_NbrEntries l + 1, RL_HeadPtr := x\<rparr>)\<rparr>"
    have "OS_RdyListInsertHead x s = Some ?s" using nz l t m ne
      by (simp add: OS_RdyListInsertHead_def)
    moreover have "linked TCB_NextPtr TCB_PrevPtr ?h x (RL_TailPtr l) (x # R p)"
      by (rule linked_insert [of _ _ _ _ _ "[]", simplified, OF lk])
        (use x ne m False t linkedD(4,5) [OF lk] in \<open>auto simp: fld_Some last0_nonempty\<close>)
    then have "rdy_links ?s (R(p := x # R p))"
      by (intro rdy_links_upd_explicit [OF R t(3), where D = "insert x (set (R p))"])
        (use x t pr m l len ne in \<open>auto simp: tcb_core_def unat_word_ariths\<close>)
    moreover have "rdy_frame s ?s" using t m ne
      by (auto simp: rdy_frame_def os_less_rdy_def tcb_core_def)
    ultimately show ?thesis by simp
  qed
qed

lemma OS_RdyListInsertTail_ok:
  assumes R: "rdy_links s R" and t: "tcbs s x = Some t" "unat (TCB_Prio t) = p" "p < OS_CFG_PRIO_MAX"
    and x: "x \<noteq> NULL" "x \<notin> set (R p)" and len: "length (R p) < 65535"
  shows "\<exists>s'. OS_RdyListInsertTail x s = Some s' \<and> rdy_links s' (R(p := R p @ [x])) \<and> rdy_frame s s' \<and>
     OSPrioTbl s' = OSPrioTbl s"
proof -
  from R t(3) obtain l where l: "OSRdyList s p = Some l" "unat (RL_NbrEntries l) = length (R p)"
    and lk: "linked TCB_NextPtr TCB_PrevPtr (tcbs s) (RL_HeadPtr l) (RL_TailPtr l) (R p)"
    and pr: "\<forall>y \<in> set (R p). \<exists>t. tcbs s y = Some t \<and> unat (TCB_Prio t) = p"
    by (rule rdy_links_obtain)
  show ?thesis
  proof (cases "R p = []")
    case True
    then have "RL_NbrEntries l = 0" using l(2) by (simp add: unat_eq_0)
    then have "OS_RdyListInsertTail x s = OS_RdyListInsertHead x s" using l t
      by (simp add: OS_RdyListInsertTail_def OS_RdyListInsertHead_def)
    with OS_RdyListInsertHead_ok [OF assms] True show ?thesis by simp
  next
    case False
    then have nz: "RL_NbrEntries l \<noteq> 0" using l(2) by auto
    from lk False obtain n where n: "tcbs s (RL_TailPtr l) = Some n" "TCB_NextPtr n = NULL"
      "RL_TailPtr l \<in> set (R p)"
      by (rule linked_ends)
    with x have ne: "RL_TailPtr l \<noteq> x" by auto
    let ?h = "(tcbs s)(x \<mapsto> t\<lparr>TCB_NextPtr := NULL, TCB_PrevPtr := RL_TailPtr l\<rparr>, RL_TailPtr l \<mapsto> n\<lparr>TCB_NextPtr := x\<rparr>)"
    let ?s = "s\<lparr>tcbs := ?h, OSRdyList := (OSRdyList s)(p \<mapsto> l\<lparr>RL_NbrEntries := RL_NbrEntries l + 1, RL_TailPtr := x\<rparr>)\<rparr>"
    have "OS_RdyListInsertTail x s = Some ?s" using nz l t n ne
      by (simp add: OS_RdyListInsertTail_def Let_def)
    moreover have "linked TCB_NextPtr TCB_PrevPtr ?h (RL_HeadPtr l) x (R p @ [x])"
      by (rule linked_insert [of _ _ _ _ _ _ "[]", simplified, OF lk])
        (use x ne n False t linkedD(4,5) [OF lk] in \<open>auto simp: fld_Some hd0_nonempty\<close>)
    then have "rdy_links ?s (R(p := R p @ [x]))"
      by (intro rdy_links_upd_explicit [OF R t(3), where D = "insert x (set (R p))"])
        (use x t pr n l len ne in \<open>auto simp: tcb_core_def unat_word_ariths\<close>)
    moreover have "rdy_frame s ?s" using t n ne
      by (auto simp: rdy_frame_def os_less_rdy_def tcb_core_def)
    ultimately show ?thesis by simp
  qed
qed

text \<open>Inserting with the bitmap, at the head or at the tail.\<close>

lemma prio_rdy_insert_ok:
  assumes R: "rdy_rel s R" and t: "tcbs s x = Some t" "unat (TCB_Prio t) < OS_CFG_PRIO_MAX"
    and x: "x \<noteq> NULL" "x \<notin> set (R (unat (TCB_Prio t)))" and len: "length (R (unat (TCB_Prio t))) < 65535"
  shows "\<exists>s1 s'. OS_PrioInsert (TCB_Prio t) s = Some s1 \<and> tcbs s1 = tcbs s \<and> OSPrioCur s1 = OSPrioCur s \<and>
    (if front then OS_RdyListInsertHead x s1 else OS_RdyListInsertTail x s1) = Some s' \<and>
    rdy_rel s' (R(unat (TCB_Prio t) := if front then x # R (unat (TCB_Prio t)) else R (unat (TCB_Prio t)) @ [x])) \<and> rdy_frame s s'"
proof -
  let ?p = "unat (TCB_Prio t)" let ?R = "R(?p := if front then x # R ?p else R ?p @ [x])"
  from R have m: "rdy_links s R" "length (OSPrioTbl s) = OS_PRIO_TBL_SIZE" "prio_set s = {p. R p \<noteq> []}"
    by (simp_all add: rdy_rel_def rdy_map_def)
  have "?p div 32 < length (OSPrioTbl s)" using t(2) m(2) by simp
  then obtain tbl where tbl: "OS_PrioInsert (TCB_Prio t) s = Some (s\<lparr>OSPrioTbl := tbl\<rparr>)"
    "length tbl = length (OSPrioTbl s)" "\<And>p. tbl_has tbl p \<longleftrightarrow> p = ?p \<or> tbl_has (OSPrioTbl s) p"
    by (rule OS_PrioInsert_ok) blast
  let ?s = "s\<lparr>OSPrioTbl := tbl\<rparr>"
  have l: "rdy_links ?s R" using m by simp
  have pt: "tcbs ?s x = Some t" using t by simp
  obtain s' where s': "(if front then OS_RdyListInsertHead x ?s else OS_RdyListInsertTail x ?s) = Some s'" "rdy_links s' ?R" "rdy_frame ?s s'" "OSPrioTbl s' = tbl"
    using OS_RdyListInsertTail_ok [OF l pt refl t(2) x len] OS_RdyListInsertHead_ok [OF l pt refl t(2) x len] by (cases front) auto
  have "rdy_map s' ?R"
    using m(2,3) tbl(2,3) s'(4) by (auto simp: rdy_map_def prio_set_def)
  moreover have "rdy_frame s s'" using s'(3) by (auto simp: rdy_frame_def os_less_rdy_def)
  ultimately show ?thesis using s' tbl(1) by (auto simp: rdy_rel_def)
qed

text \<open>\<^verbatim>\<open>OS_RdyListInsert\<close>: at the tail when the priority is the current one, at the head otherwise.\<close>

definition rdy_insert :: "OS_PRIO \<Rightarrow> OS_PRIO \<Rightarrow> ptr \<Rightarrow> (nat \<Rightarrow> ptr list) \<Rightarrow> nat \<Rightarrow> ptr list" where
  "rdy_insert cur prio x R = R(unat prio := if prio = cur then R (unat prio) @ [x] else x # R (unat prio))"

lemma OS_RdyListInsert_ok:
  assumes R: "rdy_rel s R" and t: "tcbs s x = Some t" "unat (TCB_Prio t) < OS_CFG_PRIO_MAX"
    and x: "x \<noteq> NULL" "x \<notin> set (R (unat (TCB_Prio t)))" and len: "length (R (unat (TCB_Prio t))) < 65535"
  shows "\<exists>s'. OS_RdyListInsert x s = Some s' \<and> rdy_rel s' (rdy_insert (OSPrioCur s) (TCB_Prio t) x R) \<and> rdy_frame s s'"
proof -
  from prio_rdy_insert_ok [OF assms, of "TCB_Prio t \<noteq> OSPrioCur s"] obtain s1 s' where
    "OS_PrioInsert (TCB_Prio t) s = Some s1" "OSPrioCur s1 = OSPrioCur s"
    "(if TCB_Prio t \<noteq> OSPrioCur s then OS_RdyListInsertHead x s1 else OS_RdyListInsertTail x s1) = Some s'"
    "rdy_rel s' (rdy_insert (OSPrioCur s) (TCB_Prio t) x R)" "rdy_frame s s'"
    unfolding rdy_insert_def by (auto simp: if_not_P split: if_splits)
  then show ?thesis using t(1) by (auto simp: OS_RdyListInsert_def split: if_splits)
qed

text \<open>Removal of the task \<open>x\<close> from \<open>R p = xs @ x # ys\<close>, by the four shapes of the list that
  \<^verbatim>\<open>OS_RdyListRemove\<close> distinguishes.\<close>

lemma rdy_split_facts:
  assumes R: "rdy_links s R" and sp: "R p = xs @ x # ys" and p: "p < OS_CFG_PRIO_MAX"
  obtains l t where "OSRdyList s p = Some l" "unat (RL_NbrEntries l) = length (R p)"
    "linked TCB_NextPtr TCB_PrevPtr (tcbs s) (RL_HeadPtr l) (RL_TailPtr l) (xs @ x # ys)"
    "\<forall>y \<in> set (R p). \<exists>t. tcbs s y = Some t \<and> unat (TCB_Prio t) = p"
    "tcbs s x = Some t" "TCB_NextPtr t = hd0 NULL ys" "TCB_PrevPtr t = last0 NULL xs" "unat (TCB_Prio t) = p"
proof -
  from R p obtain l where l: "OSRdyList s p = Some l" "unat (RL_NbrEntries l) = length (R p)"
    and lk: "linked TCB_NextPtr TCB_PrevPtr (tcbs s) (RL_HeadPtr l) (RL_TailPtr l) (xs @ x # ys)"
    and pr: "\<forall>y \<in> set (R p). \<exists>t. tcbs s y = Some t \<and> unat (TCB_Prio t) = p"
    unfolding sp [symmetric] by (rule rdy_links_obtain)
  from lk obtain t where t: "tcbs s x = Some t" "TCB_NextPtr t = hd0 NULL ys" "TCB_PrevPtr t = last0 NULL xs"
    by (rule linked_node)
  with pr sp have "unat (TCB_Prio t) = p" by auto
  with that l lk pr t show ?thesis by blast
qed

lemma rdy_remove_single:
  assumes R: "rdy_links s R" and sp: "R p = [] @ x # []" and p: "p < OS_CFG_PRIO_MAX"
    and tbl: "length (OSPrioTbl s) = OS_PRIO_TBL_SIZE"
  obtains s' where "OS_RdyListRemove x s = Some s'" "rdy_links s' (R(p := []))" "rdy_frame s s'"
    "length (OSPrioTbl s') = length (OSPrioTbl s)"
    "\<And>q. tbl_has (OSPrioTbl s') q \<longleftrightarrow> q \<noteq> p \<and> tbl_has (OSPrioTbl s) q"
proof -
  from rdy_split_facts [OF R sp p] obtain l t where l: "OSRdyList s p = Some l"
    and t: "tcbs s x = Some t" "TCB_NextPtr t = NULL" "TCB_PrevPtr t = NULL" "unat (TCB_Prio t) = p"
    by (metis hd0_simps(1) last0_simps(1))
  let ?l = "l\<lparr>RL_NbrEntries := 0, RL_HeadPtr := NULL, RL_TailPtr := NULL\<rparr>"
  let ?s1 = "s\<lparr>OSRdyList := (OSRdyList s)(p \<mapsto> ?l)\<rparr>"
  have "unat (TCB_Prio t) div 32 < length (OSPrioTbl ?s1)" using p t tbl by simp
  then obtain b where b: "OS_PrioRemove (TCB_Prio t) ?s1 = Some (?s1\<lparr>OSPrioTbl := b\<rparr>)"
    "length b = length (OSPrioTbl ?s1)" "\<And>q. tbl_has b q \<longleftrightarrow> q \<noteq> unat (TCB_Prio t) \<and> tbl_has (OSPrioTbl ?s1) q"
    by (rule OS_PrioRemove_ok) blast
  let ?h = "(tcbs s)(x \<mapsto> t\<lparr>TCB_PrevPtr := NULL, TCB_NextPtr := NULL\<rparr>)"
  let ?s = "s\<lparr>tcbs := ?h, OSRdyList := (OSRdyList s)(p \<mapsto> ?l)\<rparr>"
  have 1: "OS_RdyListRemove x s = Some (?s\<lparr>OSPrioTbl := b\<rparr>)"
    using l t b(1) by (simp add: OS_RdyListRemove_def Let_def)
  have 2: "rdy_links (?s\<lparr>OSPrioTbl := b\<rparr>) (R(p := []))" unfolding rdy_links_PrioTbl
    by (rule rdy_links_upd_explicit [OF R p, where D = "{x}"]) (use t in \<open>auto simp: tcb_core_def\<close>)
  have 3: "rdy_frame s (?s\<lparr>OSPrioTbl := b\<rparr>)" using t by (auto simp: rdy_frame_def os_less_rdy_def tcb_core_def)
  show ?thesis by (rule that [OF 1 2 3]) (use b t in auto)
qed

lemma rdy_remove_first:
  assumes R: "rdy_links s R" and sp: "R p = [] @ x # ys" and p: "p < OS_CFG_PRIO_MAX" and c: "ys \<noteq> []"
  obtains s' where "OS_RdyListRemove x s = Some s'" "rdy_links s' (R(p := ys))" "rdy_frame s s'"
    "OSPrioTbl s' = OSPrioTbl s"
proof -
  from rdy_split_facts [OF R sp p] obtain l t where
    l: "OSRdyList s p = Some l" "unat (RL_NbrEntries l) = length (R p)"
    and lk: "linked TCB_NextPtr TCB_PrevPtr (tcbs s) (RL_HeadPtr l) (RL_TailPtr l) ([] @ x # ys)"
    and pr: "\<forall>y \<in> set (R p). \<exists>t. tcbs s y = Some t \<and> unat (TCB_Prio t) = p"
    and t: "tcbs s x = Some t" "TCB_NextPtr t = hd0 NULL ys" "TCB_PrevPtr t = last0 NULL []" "unat (TCB_Prio t) = p"
    by blast
  note d = linkedD [OF lk]
  have y: "hd0 NULL ys \<in> set ys" using c by (rule hd0_in)
  then obtain m where m: "tcbs s (hd0 NULL ys) = Some m" using d(3) by auto
  have ne: "hd0 NULL ys \<noteq> x" "hd0 NULL ys \<noteq> NULL" using y d(1) mem_nz [OF d(2)] by auto
  let ?h = "(tcbs s)(hd0 NULL ys \<mapsto> m\<lparr>TCB_PrevPtr := NULL\<rparr>, x \<mapsto> t\<lparr>TCB_PrevPtr := NULL, TCB_NextPtr := NULL\<rparr>)"
  let ?s = "s\<lparr>tcbs := ?h, OSRdyList := (OSRdyList s)(p \<mapsto> l\<lparr>RL_NbrEntries := RL_NbrEntries l - 1, RL_HeadPtr := hd0 NULL ys\<rparr>)\<rparr>"
  have 1: "OS_RdyListRemove x s = Some ?s" using l t m ne by (simp add: OS_RdyListRemove_def Let_def)
  have "linked TCB_NextPtr TCB_PrevPtr ?h (hd0 NULL ys) (RL_TailPtr l) ([] @ ys)"
    by (rule linked_remove [OF lk]) (use c d m ne t in \<open>auto simp: fld_Some last0_nonempty\<close>)
  then have 2: "rdy_links ?s (R(p := ys))"
    by (intro rdy_links_upd_explicit [OF R p, where D = "set (R p)"])
      (use t pr m l ne sp y in \<open>auto simp: tcb_core_def unat_dec\<close>)
  have 3: "rdy_frame s ?s" using t m ne by (auto simp: rdy_frame_def os_less_rdy_def tcb_core_def)
  show ?thesis by (rule that [OF 1 2 3]) simp
qed

lemma rdy_remove_last:
  assumes R: "rdy_links s R" and sp: "R p = xs @ x # []" and p: "p < OS_CFG_PRIO_MAX" and c: "xs \<noteq> []"
  obtains s' where "OS_RdyListRemove x s = Some s'" "rdy_links s' (R(p := xs))" "rdy_frame s s'"
    "OSPrioTbl s' = OSPrioTbl s"
proof -
  from rdy_split_facts [OF R sp p] obtain l t where
    l: "OSRdyList s p = Some l" "unat (RL_NbrEntries l) = length (R p)"
    and lk: "linked TCB_NextPtr TCB_PrevPtr (tcbs s) (RL_HeadPtr l) (RL_TailPtr l) (xs @ x # [])"
    and pr: "\<forall>y \<in> set (R p). \<exists>t. tcbs s y = Some t \<and> unat (TCB_Prio t) = p"
    and t: "tcbs s x = Some t" "TCB_NextPtr t = hd0 NULL []" "TCB_PrevPtr t = last0 NULL xs" "unat (TCB_Prio t) = p"
    by blast
  note d = linkedD [OF lk]
  have y: "last0 NULL xs \<in> set xs" using c by (rule last0_in)
  then obtain m where m: "tcbs s (last0 NULL xs) = Some m" using d(3) by auto
  have ne: "last0 NULL xs \<noteq> x" "last0 NULL xs \<noteq> NULL" using y d(1) mem_nz [OF d(2)] by auto
  let ?h = "(tcbs s)(last0 NULL xs \<mapsto> m\<lparr>TCB_NextPtr := NULL\<rparr>, x \<mapsto> t\<lparr>TCB_PrevPtr := NULL, TCB_NextPtr := NULL\<rparr>)"
  let ?s = "s\<lparr>tcbs := ?h, OSRdyList := (OSRdyList s)(p \<mapsto> l\<lparr>RL_NbrEntries := RL_NbrEntries l - 1, RL_TailPtr := last0 NULL xs\<rparr>)\<rparr>"
  have 1: "OS_RdyListRemove x s = Some ?s" using l t m ne by (simp add: OS_RdyListRemove_def Let_def)
  have "linked TCB_NextPtr TCB_PrevPtr ?h (RL_HeadPtr l) (last0 NULL xs) (xs @ [])"
    by (rule linked_remove [OF lk]) (use c d m ne t in \<open>auto simp: fld_Some hd0_nonempty\<close>)
  then have 2: "rdy_links ?s (R(p := xs))"
    by (intro rdy_links_upd_explicit [OF R p, where D = "set (R p)"])
      (use t pr m l ne sp y in \<open>auto simp: tcb_core_def unat_dec\<close>)
  have 3: "rdy_frame s ?s" using t m ne by (auto simp: rdy_frame_def os_less_rdy_def tcb_core_def)
  show ?thesis by (rule that [OF 1 2 3]) simp
qed

lemma rdy_remove_inner:
  assumes R: "rdy_links s R" and sp: "R p = xs @ x # ys" and p: "p < OS_CFG_PRIO_MAX" and c: "xs \<noteq> []" "ys \<noteq> []"
  obtains s' where "OS_RdyListRemove x s = Some s'" "rdy_links s' (R(p := xs @ ys))" "rdy_frame s s'"
    "OSPrioTbl s' = OSPrioTbl s"
proof -
  from rdy_split_facts [OF R sp p] obtain l t where
    l: "OSRdyList s p = Some l" "unat (RL_NbrEntries l) = length (R p)"
    and lk: "linked TCB_NextPtr TCB_PrevPtr (tcbs s) (RL_HeadPtr l) (RL_TailPtr l) (xs @ x # ys)"
    and pr: "\<forall>y \<in> set (R p). \<exists>t. tcbs s y = Some t \<and> unat (TCB_Prio t) = p"
    and t: "tcbs s x = Some t" "TCB_NextPtr t = hd0 NULL ys" "TCB_PrevPtr t = last0 NULL xs" "unat (TCB_Prio t) = p"
    by blast
  note d = linkedD [OF lk]
  have y: "last0 NULL xs \<in> set xs" "hd0 NULL ys \<in> set ys" using c by (simp_all add: last0_in hd0_in)
  then obtain m n where m: "tcbs s (last0 NULL xs) = Some m" "tcbs s (hd0 NULL ys) = Some n"
    using d(3) by (metis (no_types, lifting) Un_iff domD list.set_intros(2) set_append subsetD)
  have ne: "last0 NULL xs \<noteq> x" "last0 NULL xs \<noteq> NULL" "hd0 NULL ys \<noteq> x" "hd0 NULL ys \<noteq> NULL"
    "last0 NULL xs \<noteq> hd0 NULL ys" "hd0 NULL ys \<notin> set xs" "last0 NULL xs \<notin> set ys"
    using y d(1) mem_nz [OF d(2)] by auto
  let ?h = "(tcbs s)(last0 NULL xs \<mapsto> m\<lparr>TCB_NextPtr := hd0 NULL ys\<rparr>, hd0 NULL ys \<mapsto> n\<lparr>TCB_PrevPtr := last0 NULL xs\<rparr>,
     x \<mapsto> t\<lparr>TCB_PrevPtr := NULL, TCB_NextPtr := NULL\<rparr>)"
  let ?s = "s\<lparr>tcbs := ?h, OSRdyList := (OSRdyList s)(p \<mapsto> l\<lparr>RL_NbrEntries := RL_NbrEntries l - 1\<rparr>)\<rparr>"
  have 1: "OS_RdyListRemove x s = Some ?s" using l t m ne by (simp add: OS_RdyListRemove_def Let_def)
  have "linked TCB_NextPtr TCB_PrevPtr ?h (RL_HeadPtr l) (RL_TailPtr l) (xs @ ys)"
    by (rule linked_remove [OF lk])
      (use c d m ne t in \<open>auto simp: fld_Some hd0_nonempty last0_nonempty\<close>)
  then have 2: "rdy_links ?s (R(p := xs @ ys))"
    by (intro rdy_links_upd_explicit [OF R p, where D = "set (R p)"])
      (use t pr m l ne sp y in \<open>auto simp: tcb_core_def unat_dec\<close>)
  have 3: "rdy_frame s ?s" using t m ne by (auto simp: rdy_frame_def os_less_rdy_def tcb_core_def)
  show ?thesis by (rule that [OF 1 2 3]) simp
qed

lemma OS_RdyListRemove_ok:
  assumes R: "rdy_rel s R" and x: "x \<in> set (R p)"
  shows "\<exists>s'. OS_RdyListRemove x s = Some s' \<and> rdy_rel s' (R(p := remove1 x (R p))) \<and> rdy_frame s s'"
proof -
  from R have m: "rdy_links s R" "length (OSPrioTbl s) = OS_PRIO_TBL_SIZE" "prio_set s = {p. R p \<noteq> []}"
    by (simp_all add: rdy_rel_def rdy_map_def)
  have p: "p < OS_CFG_PRIO_MAX" using m(1) x unfolding rdy_links_def by (metis empty_iff list.set(1) not_less)
  from x obtain xs ys where sp: "R p = xs @ x # ys" "x \<notin> set xs" by (meson split_list_first)
  then have r: "remove1 x (R p) = xs @ ys" by (simp add: remove1_append)
  have "\<exists>s'. OS_RdyListRemove x s = Some s' \<and> rdy_links s' (R(p := xs @ ys)) \<and> rdy_frame s s' \<and>
    length (OSPrioTbl s') = length (OSPrioTbl s) \<and>
    (\<forall>q. tbl_has (OSPrioTbl s') q \<longleftrightarrow> (xs @ ys = [] \<longrightarrow> q \<noteq> p) \<and> tbl_has (OSPrioTbl s) q)"
  proof -
    consider (single) "xs = []" "ys = []" | (first) "xs = []" "ys \<noteq> []" | (last) "xs \<noteq> []" "ys = []"
      | (inner) "xs \<noteq> []" "ys \<noteq> []" by blast
    then show ?thesis
    proof cases
      case single
      then have "R p = [] @ x # []" using sp by simp
      with single show ?thesis by (elim rdy_remove_single [OF m(1) _ p m(2)]) simp
    next
      case first
      then have "R p = [] @ x # ys" using sp by simp
      then show ?thesis using first(2) by (elim rdy_remove_first [OF m(1) _ p]) (use first in simp_all)
    next
      case last
      then have "R p = xs @ x # []" using sp by simp
      then show ?thesis using last(1) by (elim rdy_remove_last [OF m(1) _ p]) (use last in simp_all)
    next
      case inner
      then show ?thesis by (elim rdy_remove_inner [OF m(1) sp(1) p]) (use inner in simp_all)
    qed
  qed
  then obtain s' where s': "OS_RdyListRemove x s = Some s'" "rdy_links s' (R(p := xs @ ys))" "rdy_frame s s'"
    "length (OSPrioTbl s') = length (OSPrioTbl s)"
    "\<forall>q. tbl_has (OSPrioTbl s') q \<longleftrightarrow> (xs @ ys = [] \<longrightarrow> q \<noteq> p) \<and> tbl_has (OSPrioTbl s) q" by blast
  have "tbl_has (OSPrioTbl s') q \<longleftrightarrow> (R(p := xs @ ys)) q \<noteq> []" for q
  proof -
    have "tbl_has (OSPrioTbl s) q \<longleftrightarrow> R q \<noteq> []" using m(3) unfolding prio_set_def by blast
    then show ?thesis using s'(5) sp(1) by (cases "q = p") simp_all
  qed
  then have "rdy_map s' (R(p := xs @ ys))" using m(2) s'(4) by (simp add: rdy_map_def prio_set_def)
  with s' r show ?thesis by (simp add: rdy_rel_def)
qed

text \<open>Round robin: the first task of a list goes to its end.\<close>

lemma OS_RdyListMoveHeadToTail_ok:
  assumes R: "rdy_links s R" and p: "p < OS_CFG_PRIO_MAX"
  shows "\<exists>s'. OS_RdyListMoveHeadToTail p s = Some s' \<and> rdy_links s' (R(p := rotate1 (R p))) \<and> rdy_frame s s' \<and>
    OSPrioTbl s' = OSPrioTbl s"
proof -
  from R p obtain l where l: "OSRdyList s p = Some l" "unat (RL_NbrEntries l) = length (R p)"
    and lk: "linked TCB_NextPtr TCB_PrevPtr (tcbs s) (RL_HeadPtr l) (RL_TailPtr l) (R p)"
    and pr: "\<forall>y \<in> set (R p). \<exists>t. tcbs s y = Some t \<and> unat (TCB_Prio t) = p"
    by (rule rdy_links_obtain)
  show ?thesis
  proof (cases "\<exists>x y zs. R p = x # y # zs")
    case False
    then have "length (R p) \<le> 1" "rotate1 (R p) = R p"
      by (cases "R p"; cases "tl (R p)"; simp)+
    then show ?thesis using R l by (auto simp: OS_RdyListMoveHeadToTail_def le_Suc_eq dest: unat_eq_numD)
  next
    case True
    then obtain x y zs where e: "R p = x # y # zs" by blast
    note lk' = lk [unfolded e]
    note d = linkedD [OF lk']
    let ?z = "last0 y zs"
    from d(3) obtain t u where tu: "tcbs s x = Some t" "tcbs s y = Some u" by auto
    have z: "?z \<in> set (y # zs)" by (simp add: last0_def)
    then obtain v where v: "tcbs s ?z = Some v" using d(3) by (metis domD list.set_intros(2) subsetD)
    have hd: "RL_HeadPtr l = x" "RL_TailPtr l = ?z" "TCB_NextPtr t = y" "x \<noteq> y" "x \<noteq> ?z"
      using d(1,4-6) tu z by (auto simp: fld_Some)
    have nz: "RL_NbrEntries l \<noteq> 0" "RL_NbrEntries l \<noteq> 1" using l(2) e by auto
    show ?thesis
    proof (cases "zs = []")
      case True
      then have two: "RL_NbrEntries l = 2" using l(2) e by (simp add: word_eq_iff_unsigned [where 'a = nat])
      let ?h = "(tcbs s)(x \<mapsto> t\<lparr>TCB_PrevPtr := y, TCB_NextPtr := NULL\<rparr>, y \<mapsto> u\<lparr>TCB_PrevPtr := NULL, TCB_NextPtr := x\<rparr>)"
      let ?s = "s\<lparr>tcbs := ?h, OSRdyList := (OSRdyList s)(p \<mapsto> l\<lparr>RL_HeadPtr := y, RL_TailPtr := x\<rparr>)\<rparr>"
      have 1: "OS_RdyListMoveHeadToTail p s = Some ?s"
        using l two hd tu True by (simp add: OS_RdyListMoveHeadToTail_def Let_def)
      have "linked TCB_NextPtr TCB_PrevPtr ?h y x ((y # zs) @ [x])"
        by (rule linked_rotate [OF lk']) (use True hd tu in \<open>auto simp: fld_Some\<close>)
      then have 2: "rdy_links ?s (R(p := [y, x]))"
        by (intro rdy_links_upd_explicit [OF R p, where D = "{x, y}"])
          (use tu pr l e True in \<open>auto simp: tcb_core_def\<close>)
      have 3: "rdy_frame s ?s" using tu hd by (auto simp: rdy_frame_def os_less_rdy_def tcb_core_def)
      from 1 2 3 show ?thesis using e True by simp
    next
      case False
      then have yz: "y \<noteq> ?z" "last0 0 (y # zs) = ?z" using d(1) last0_in [OF False, of y] by auto
      have three: "RL_NbrEntries l \<noteq> 2" using l(2) e False by auto
      let ?h = "(tcbs s)(y \<mapsto> u\<lparr>TCB_PrevPtr := NULL\<rparr>, x \<mapsto> t\<lparr>TCB_NextPtr := NULL, TCB_PrevPtr := ?z\<rparr>,
         ?z \<mapsto> v\<lparr>TCB_NextPtr := x\<rparr>)"
      let ?s = "s\<lparr>tcbs := ?h, OSRdyList := (OSRdyList s)(p \<mapsto> l\<lparr>RL_HeadPtr := y, RL_TailPtr := x\<rparr>)\<rparr>"
      have 1: "OS_RdyListMoveHeadToTail p s = Some ?s"
        using l nz three hd tu v yz by (simp add: OS_RdyListMoveHeadToTail_def Let_def)
      have "linked TCB_NextPtr TCB_PrevPtr ?h y x ((y # zs) @ [x])"
        by (rule linked_rotate [OF lk']) (use hd tu v yz in \<open>auto simp: fld_Some\<close>)
      then have 2: "rdy_links ?s (R(p := (y # zs) @ [x]))"
        by (intro rdy_links_upd_explicit [OF R p, where D = "set (R p)"])
          (use tu v z pr l e False in \<open>auto simp: tcb_core_def\<close>)
      have 3: "rdy_frame s ?s" using tu v hd by (auto simp: rdy_frame_def os_less_rdy_def tcb_core_def)
      from 1 2 3 show ?thesis using e by simp
    qed
  qed
qed

text \<open>\<^verbatim>\<open>OS_PrioInit\<close> and \<^verbatim>\<open>OS_RdyListInit\<close> establish the empty ready list.\<close>

lemma for_each_rdy_mod:
  assumes "\<forall>i < n. OSRdyList s i \<noteq> None"
  shows "for_each [0..<n] (\<lambda>i. rdy_mod i f) s =
    Some (s\<lparr>OSRdyList := \<lambda>i. if i < n then map_option f (OSRdyList s i) else OSRdyList s i\<rparr>)"
  using assms
proof (induction n)
  case (Suc n)
  then obtain l where "OSRdyList s n = Some l" by blast
  moreover have "for_each [0..<n] (\<lambda>i. rdy_mod i f) s =
    Some (s\<lparr>OSRdyList := \<lambda>i. if i < n then map_option f (OSRdyList s i) else OSRdyList s i\<rparr>)"
    using Suc by simp
  ultimately show ?case by (auto simp: for_each_append fun_upd_def fun_eq_iff less_Suc_eq)
qed simp

lemma OS_RdyListInit_ok:
  assumes "\<forall>i < OS_CFG_PRIO_MAX. OSRdyList s i \<noteq> None"
  shows "\<exists>s'. OS_RdyListInit (OS_PrioInit s) = Some s' \<and> rdy_rel s' (\<lambda>_. []) \<and> rdy_frame s s'"
proof -
  let ?f = "\<lambda>l. l\<lparr>RL_NbrEntries := 0, RL_HeadPtr := NULL, RL_TailPtr := NULL\<rparr>"
  let ?s = "OS_PrioInit s"
  let ?s' = "?s\<lparr>OSRdyList := \<lambda>i. if i < OS_CFG_PRIO_MAX then map_option ?f (OSRdyList s i) else OSRdyList s i\<rparr>"
  have "OSRdyList ?s = OSRdyList s" by (simp add: OS_PrioInit_def)
  then have 1: "OS_RdyListInit ?s = Some ?s'"
    unfolding OS_RdyListInit_def using for_each_rdy_mod [of OS_CFG_PRIO_MAX ?s ?f] assms by (simp cong: if_cong)
  have "prio_set ?s' = prio_set ?s" by (simp add: prio_set_def)
  then have "rdy_rel ?s' (\<lambda>_. [])"
    using assms OS_PrioInit_set [of s] by (auto simp: rdy_rel_def rdy_links_def rdy_map_def rdy_ok_def OS_PrioInit_def)
  moreover have "rdy_frame s ?s'" by (simp add: rdy_frame_def os_less_rdy_def OS_PrioInit_def)
  ultimately show ?thesis using 1 by blast
qed

end
