(* ===== verification/OS_PendList.thy ===== *)
theory OS_PendList
  imports OS_RdyList
begin

text \<open>
  \<^verbatim>\<open>src/ucosTest/Source/os_core.c\<close>, the pend lists: every kernel object that tasks can wait on
  carries a doubly linked list of \<^verbatim>\<open>OS_PEND_DATA\<close> entries in order of priority, the tasks of
  equal priority in the order in which they started to wait.  A list is named by the address
  of its object (\<open>&p_obj->PendList\<close>).  The abstraction \<open>pend_rel s P\<close> gives each object \<open>ob\<close>
  the sequence \<open>P ob\<close> of its entries.
\<close>

definition pl_mod :: "ptr \<Rightarrow> (OS_PEND_LIST \<Rightarrow> OS_PEND_LIST) \<Rightarrow> os \<Rightarrow> os option" where
  "pl_mod p f = obj_mod p (\<lambda>b. b\<lparr>OBJ_PendList := f (OBJ_PendList b)\<rparr>)"

lemma pl_mod_Some [simp]:
  "objs s p = Some b \<Longrightarrow>
   pl_mod p f s = Some (s\<lparr>objs := (objs s)(p \<mapsto> b\<lparr>OBJ_PendList := f (OBJ_PendList b)\<rparr>)\<rparr>)"
  by (simp add: pl_mod_def)

definition OS_PendListInit :: "ptr \<Rightarrow> os \<Rightarrow> os option" where
  "OS_PendListInit p_obj =
     pl_mod p_obj (\<lambda>l. l\<lparr>PL_HeadPtr := NULL, PL_TailPtr := NULL, PL_NbrEntries := 0\<rparr>)"

definition OS_PendListInsertHead :: "ptr \<Rightarrow> ptr \<Rightarrow> os \<Rightarrow> os option" where
  "OS_PendListInsertHead p_obj p_pend_data s = do {
     s \<leftarrow> pl_mod p_obj (\<lambda>l. l\<lparr>PL_NbrEntries := PL_NbrEntries l + 1\<rparr>) s;
     ob \<leftarrow> objs s p_obj;
     let l = OBJ_PendList ob;
     let p_pend_data_next = PL_HeadPtr l;
     s \<leftarrow> pd_mod p_pend_data (\<lambda>d. d\<lparr>PD_NextPtr := PL_HeadPtr l, PD_PrevPtr := NULL\<rparr>) s;
     s \<leftarrow> (if p_pend_data_next \<noteq> NULL
           then pd_mod p_pend_data_next (\<lambda>d. d\<lparr>PD_PrevPtr := p_pend_data\<rparr>) s else Some s);
     s \<leftarrow> pl_mod p_obj (\<lambda>l. l\<lparr>PL_HeadPtr := p_pend_data\<rparr>) s;
     if PL_NbrEntries l = 1 then pl_mod p_obj (\<lambda>l. l\<lparr>PL_TailPtr := p_pend_data\<rparr>) s else Some s
   }"

text \<open>The search loop of \<^verbatim>\<open>OS_PendListInsertPrio\<close>: the first entry of lower urgency than
  \<open>prio\<close>.  On a cyclic list the C loop runs forever, and the function is \<open>None\<close>.\<close>

partial_function (option) pend_scan ::
  "OS_PRIO \<Rightarrow> (ptr \<rightharpoonup> OS_PEND_DATA) \<Rightarrow> (ptr \<rightharpoonup> OS_TCB) \<Rightarrow> ptr \<Rightarrow> ptr option" where
  "pend_scan prio pd_mem tcb_mem p_pend_data_next =
     (if p_pend_data_next = NULL then Some NULL
      else do {
        d \<leftarrow> pd_mem p_pend_data_next;
        p_tcb_next \<leftarrow> tcb_mem (PD_TCBPtr d);
        if prio < TCB_Prio p_tcb_next then Some p_pend_data_next
        else pend_scan prio pd_mem tcb_mem (PD_NextPtr d)
      })"

definition OS_PendListInsertPrio :: "ptr \<Rightarrow> ptr \<Rightarrow> os \<Rightarrow> os option" where
  "OS_PendListInsertPrio p_obj p_pend_data s = do {
     d \<leftarrow> pds s p_pend_data;
     p_tcb \<leftarrow> tcbs s (PD_TCBPtr d);
     let prio = TCB_Prio p_tcb;
     ob \<leftarrow> objs s p_obj;
     if PL_NbrEntries (OBJ_PendList ob) = 0 then do {
       s \<leftarrow> pl_mod p_obj (\<lambda>l. l\<lparr>PL_NbrEntries := 1\<rparr>) s;
       s \<leftarrow> pd_mod p_pend_data (\<lambda>d. d\<lparr>PD_NextPtr := NULL, PD_PrevPtr := NULL\<rparr>) s;
       pl_mod p_obj (\<lambda>l. l\<lparr>PL_HeadPtr := p_pend_data, PL_TailPtr := p_pend_data\<rparr>) s
     } else do {
       s \<leftarrow> pl_mod p_obj (\<lambda>l. l\<lparr>PL_NbrEntries := PL_NbrEntries l + 1\<rparr>) s;
       p_pend_data_next \<leftarrow> pend_scan prio (pds s) (tcbs s) (PL_HeadPtr (OBJ_PendList ob));
       if p_pend_data_next = NULL then do {
         s \<leftarrow> pd_mod p_pend_data (\<lambda>d. d\<lparr>PD_NextPtr := NULL\<rparr>) s;
         let p_pend_data_prev = PL_TailPtr (OBJ_PendList ob);
         s \<leftarrow> pd_mod p_pend_data (\<lambda>d. d\<lparr>PD_PrevPtr := p_pend_data_prev\<rparr>) s;
         s \<leftarrow> pd_mod p_pend_data_prev (\<lambda>d. d\<lparr>PD_NextPtr := p_pend_data\<rparr>) s;
         pl_mod p_obj (\<lambda>l. l\<lparr>PL_TailPtr := p_pend_data\<rparr>) s
       } else do {
         next \<leftarrow> pds s p_pend_data_next;
         if PD_PrevPtr next = NULL then do {
           s \<leftarrow> pd_mod p_pend_data_next (\<lambda>d. d\<lparr>PD_PrevPtr := p_pend_data\<rparr>) s;
           s \<leftarrow> pd_mod p_pend_data (\<lambda>d. d\<lparr>PD_PrevPtr := NULL, PD_NextPtr := p_pend_data_next\<rparr>) s;
           pl_mod p_obj (\<lambda>l. l\<lparr>PL_HeadPtr := p_pend_data\<rparr>) s
         } else do {
           let p_pend_data_prev = PD_PrevPtr next;
           s \<leftarrow> pd_mod p_pend_data (\<lambda>d. d\<lparr>PD_PrevPtr := p_pend_data_prev, PD_NextPtr := p_pend_data_next\<rparr>) s;
           s \<leftarrow> pd_mod p_pend_data_prev (\<lambda>d. d\<lparr>PD_NextPtr := p_pend_data\<rparr>) s;
           pd_mod p_pend_data_next (\<lambda>d. d\<lparr>PD_PrevPtr := p_pend_data\<rparr>) s
         }
       }
     }
   }"

definition OS_PendListRemove1 :: "ptr \<Rightarrow> ptr \<Rightarrow> os \<Rightarrow> os option" where
  "OS_PendListRemove1 p_obj p_pend_data s = do {
     ob \<leftarrow> objs s p_obj;
     d \<leftarrow> pds s p_pend_data;
     s \<leftarrow> (if PL_NbrEntries (OBJ_PendList ob) = 1 then
             pl_mod p_obj (\<lambda>l. l\<lparr>PL_HeadPtr := NULL, PL_TailPtr := NULL\<rparr>) s
           else if PD_PrevPtr d = NULL then do {
             let p_next = PD_NextPtr d;
             s \<leftarrow> pd_mod p_next (\<lambda>d. d\<lparr>PD_PrevPtr := NULL\<rparr>) s;
             pl_mod p_obj (\<lambda>l. l\<lparr>PL_HeadPtr := p_next\<rparr>) s
           } else if PD_NextPtr d = NULL then do {
             let p_prev = PD_PrevPtr d;
             s \<leftarrow> pd_mod p_prev (\<lambda>d. d\<lparr>PD_NextPtr := NULL\<rparr>) s;
             pl_mod p_obj (\<lambda>l. l\<lparr>PL_TailPtr := p_prev\<rparr>) s
           } else do {
             let p_prev = PD_PrevPtr d;
             let p_next = PD_NextPtr d;
             s \<leftarrow> pd_mod p_prev (\<lambda>d. d\<lparr>PD_NextPtr := p_next\<rparr>) s;
             pd_mod p_next (\<lambda>d. d\<lparr>PD_PrevPtr := p_prev\<rparr>) s
           });
     s \<leftarrow> pl_mod p_obj (\<lambda>l. l\<lparr>PL_NbrEntries := PL_NbrEntries l - 1\<rparr>) s;
     pd_mod p_pend_data (\<lambda>d. d\<lparr>PD_NextPtr := NULL, PD_PrevPtr := NULL\<rparr>) s
   }"

text \<open>The loops over a task's table of pend data: \<open>n\<close> entries from address \<open>p\<close> on.\<close>

primrec pend_remove_loop :: "nat \<Rightarrow> ptr \<Rightarrow> os \<Rightarrow> os option" where
  "pend_remove_loop 0 p_pend_data s = Some s"
| "pend_remove_loop (Suc n) p_pend_data s = do {
     d \<leftarrow> pds s p_pend_data;
     s \<leftarrow> OS_PendListRemove1 (PD_PendObjPtr d) p_pend_data s;
     pend_remove_loop n (p_pend_data + 1) s
   }"

definition OS_PendListRemove :: "ptr \<Rightarrow> os \<Rightarrow> os option" where
  "OS_PendListRemove p_tcb s = do {
     tcb \<leftarrow> tcbs s p_tcb;
     s \<leftarrow> pend_remove_loop (unat (TCB_PendDataTblEntries tcb)) (TCB_PendDataTblPtr tcb) s;
     tcb_mod p_tcb (\<lambda>t. t\<lparr>TCB_PendDataTblEntries := 0, TCB_PendDataTblPtr := NULL\<rparr>) s
   }"

primrec pend_change_loop :: "nat \<Rightarrow> ptr \<Rightarrow> os \<Rightarrow> os option" where
  "pend_change_loop 0 p_pend_data s = Some s"
| "pend_change_loop (Suc n) p_pend_data s = do {
     d \<leftarrow> pds s p_pend_data;
     let p_obj = PD_PendObjPtr d;
     ob \<leftarrow> objs s p_obj;
     s \<leftarrow> (if 1 < PL_NbrEntries (OBJ_PendList ob) then do {
             s \<leftarrow> OS_PendListRemove1 p_obj p_pend_data s;
             OS_PendListInsertPrio p_obj p_pend_data s
           } else Some s);
     pend_change_loop n (p_pend_data + 1) s
   }"

definition OS_PendListChangePrio :: "ptr \<Rightarrow> OS_PRIO \<Rightarrow> os \<Rightarrow> os option" where
  "OS_PendListChangePrio p_tcb prio_new s = do {
     s \<leftarrow> tcb_mod p_tcb (\<lambda>t. t\<lparr>TCB_Prio := prio_new\<rparr>) s;
     tcb \<leftarrow> tcbs s p_tcb;
     pend_change_loop (unat (TCB_PendDataTblEntries tcb)) (TCB_PendDataTblPtr tcb) s
   }"

primrec pend_data_init_loop :: "nat \<Rightarrow> ptr \<Rightarrow> ptr \<Rightarrow> os \<Rightarrow> os option" where
  "pend_data_init_loop 0 p_tcb p s = Some s"
| "pend_data_init_loop (Suc n) p_tcb p s = do {
     s \<leftarrow> pd_mod p (\<lambda>d. d\<lparr>PD_NextPtr := NULL, PD_PrevPtr := NULL, PD_RdyObjPtr := NULL, PD_RdyMsgPtr := NULL,
            PD_RdyMsgSize := 0, PD_RdyTS := 0, PD_TCBPtr := p_tcb\<rparr>) s;
     pend_data_init_loop n p_tcb (p + 1) s
   }"

definition OS_PendDataInit :: "ptr \<Rightarrow> ptr \<Rightarrow> OS_OBJ_QTY \<Rightarrow> os \<Rightarrow> os option" where
  "OS_PendDataInit p_tcb p_pend_data_tbl tbl_size s = do {
     s \<leftarrow> tcb_mod p_tcb (\<lambda>t. t\<lparr>TCB_PendDataTblEntries := tbl_size, TCB_PendDataTblPtr := p_pend_data_tbl\<rparr>) s;
     pend_data_init_loop (unat tbl_size) p_tcb p_pend_data_tbl s
   }"

definition OS_PendDbgNameAdd :: "ptr \<Rightarrow> ptr \<Rightarrow> os \<Rightarrow> os option" where
  "OS_PendDbgNameAdd p_obj p_tcb s =
     (if p_obj \<noteq> NULL then do {
        ob \<leftarrow> objs s p_obj;
        s \<leftarrow> tcb_mod p_tcb (\<lambda>t. t\<lparr>TCB_DbgNamePtr := OBJ_NamePtr ob\<rparr>) s;
        d \<leftarrow> pds s (PL_HeadPtr (OBJ_PendList ob));
        tcb1 \<leftarrow> tcbs s (PD_TCBPtr d);
        obj_mod p_obj (\<lambda>b. b\<lparr>OBJ_DbgNamePtr := TCB_NamePtr tcb1\<rparr>) s
      } else do {
        tcb \<leftarrow> tcbs s p_tcb;
        tcb_mod p_tcb (\<lambda>t. t\<lparr>TCB_DbgNamePtr :=
          (if TCB_PendOn tcb = OS_TASK_PEND_ON_TASK_Q then ''Task Q''
           else if TCB_PendOn tcb = OS_TASK_PEND_ON_TASK_SEM then ''Task Sem''
           else '' '')\<rparr>) s
      })"

definition OS_PendDbgNameRemove :: "ptr \<Rightarrow> ptr \<Rightarrow> os \<Rightarrow> os option" where
  "OS_PendDbgNameRemove p_obj p_tcb s = do {
     s \<leftarrow> tcb_mod p_tcb (\<lambda>t. t\<lparr>TCB_DbgNamePtr := '' ''\<rparr>) s;
     ob \<leftarrow> objs s p_obj;
     let p_pend_data = PL_HeadPtr (OBJ_PendList ob);
     if p_pend_data \<noteq> NULL then do {
       d \<leftarrow> pds s p_pend_data;
       tcb1 \<leftarrow> tcbs s (PD_TCBPtr d);
       obj_mod p_obj (\<lambda>b. b\<lparr>OBJ_DbgNamePtr := TCB_NamePtr tcb1\<rparr>) s
     } else obj_mod p_obj (\<lambda>b. b\<lparr>OBJ_DbgNamePtr := '' ''\<rparr>) s
   }"

subsection \<open>The abstraction: a sequence of entries per object\<close>

definition pd_prio :: "os \<Rightarrow> ptr \<Rightarrow> OS_PRIO" where
  "pd_prio s p = (case pds s p of None \<Rightarrow> 0 | Some d \<Rightarrow> fld TCB_Prio (tcbs s) (PD_TCBPtr d))"

definition pend_ok :: "os \<Rightarrow> ptr \<Rightarrow> ptr list \<Rightarrow> bool" where
  "pend_ok s ob xs \<longleftrightarrow>
     (\<exists>b. objs s ob = Some b \<and> unat (PL_NbrEntries (OBJ_PendList b)) = length xs \<and>
          linked PD_NextPtr PD_PrevPtr (pds s) (PL_HeadPtr (OBJ_PendList b)) (PL_TailPtr (OBJ_PendList b)) xs) \<and>
     (\<forall>x \<in> set xs. \<exists>d. pds s x = Some d \<and> PD_PendObjPtr d = ob \<and> PD_TCBPtr d \<in> dom (tcbs s))"

definition pend_links :: "os \<Rightarrow> (ptr \<Rightarrow> ptr list) \<Rightarrow> bool" where
  "pend_links s P \<longleftrightarrow> (\<forall>ob. if objs s ob = None then P ob = [] else pend_ok s ob (P ob))"

definition pend_sorted :: "os \<Rightarrow> (ptr \<Rightarrow> ptr list) \<Rightarrow> bool" where
  "pend_sorted s P \<longleftrightarrow> (\<forall>ob. sorted (map (pd_prio s) (P ob)))"

definition pend_rel :: "os \<Rightarrow> (ptr \<Rightarrow> ptr list) \<Rightarrow> bool" where
  "pend_rel s P \<longleftrightarrow> pend_links s P \<and> pend_sorted s P"

text \<open>What the list routines leave alone: all of an entry but its links, all of an object
  but its pend list, and everything else.\<close>

definition pd_core :: "OS_PEND_DATA \<Rightarrow> OS_PEND_DATA" where
  "pd_core d = d\<lparr>PD_NextPtr := NULL, PD_PrevPtr := NULL\<rparr>"

definition obj_core :: "OS_PEND_OBJ \<Rightarrow> OS_PEND_OBJ" where
  "obj_core b = b\<lparr>OBJ_PendList := \<lparr>PL_HeadPtr = NULL, PL_TailPtr = NULL, PL_NbrEntries = 0\<rparr>\<rparr>"

definition os_less_pend :: "os \<Rightarrow> os" where
  "os_less_pend s = s\<lparr>pds := Map.empty, objs := Map.empty\<rparr>"

definition pend_frame :: "os \<Rightarrow> os \<Rightarrow> bool" where
  "pend_frame s s' \<longleftrightarrow> os_less_pend s' = os_less_pend s \<and>
     (\<forall>x. map_option pd_core (pds s' x) = map_option pd_core (pds s x)) \<and>
     (\<forall>x. map_option obj_core (objs s' x) = map_option obj_core (objs s x))"

lemma pend_frame_refl [simp]: "pend_frame s s"
  by (simp add: pend_frame_def)

lemma pend_frame_trans: "pend_frame s s' \<Longrightarrow> pend_frame s' s'' \<Longrightarrow> pend_frame s s''"
  by (simp add: pend_frame_def)

lemma pd_core_sel:
  "PD_TCBPtr (pd_core d) = PD_TCBPtr d" "PD_PendObjPtr (pd_core d) = PD_PendObjPtr d"
  "PD_RdyObjPtr (pd_core d) = PD_RdyObjPtr d"
  by (simp_all add: pd_core_def)

lemma pd_core_eqD:
  "pd_core d' = pd_core d \<Longrightarrow> PD_TCBPtr d' = PD_TCBPtr d"
  "pd_core d' = pd_core d \<Longrightarrow> PD_PendObjPtr d' = PD_PendObjPtr d"
  by (metis pd_core_sel(1), metis pd_core_sel(2))

lemma pend_frame_tcbs: "pend_frame s s' \<Longrightarrow> tcbs s' = tcbs s"
  by (auto simp: pend_frame_def os_less_pend_def dest: arg_cong [of _ _ tcbs])

lemma map_option_Some_iff: "map_option f x = Some y \<longleftrightarrow> (\<exists>z. x = Some z \<and> f z = y)"
  by (cases x) auto

lemma pend_frame_pd:
  assumes "pend_frame s s'" "pds s x = Some d"
  obtains d' where "pds s' x = Some d'" "pd_core d' = pd_core d"
proof -
  from assms have "map_option pd_core (pds s' x) = Some (pd_core d)" by (simp add: pend_frame_def)
  with that show ?thesis by (auto simp: map_option_Some_iff)
qed

lemma pd_prio_core:
  assumes "\<And>x. map_option pd_core (pds s' x) = map_option pd_core (pds s x)" "tcbs s' = tcbs s"
  shows "pd_prio s' = pd_prio s"
proof
  fix x
  show "pd_prio s' x = pd_prio s x"
    using assms(1) [of x] assms(2)
    by (cases "pds s x"; cases "pds s' x") (auto simp: pd_prio_def dest: pd_core_eqD(1))
qed

lemma pend_frame_prio: "pend_frame s s' \<Longrightarrow> pd_prio s' = pd_prio s"
  by (rule pd_prio_core, simp add: pend_frame_def, erule pend_frame_tcbs)

lemma pend_links_obtain:
  assumes "pend_links s P" "objs s ob = Some b"
  shows "unat (PL_NbrEntries (OBJ_PendList b)) = length (P ob)"
    "linked PD_NextPtr PD_PrevPtr (pds s) (PL_HeadPtr (OBJ_PendList b)) (PL_TailPtr (OBJ_PendList b)) (P ob)"
    "\<And>x. x \<in> set (P ob) \<Longrightarrow> \<exists>d. pds s x = Some d \<and> PD_PendObjPtr d = ob \<and> PD_TCBPtr d \<in> dom (tcbs s)"
  using assms unfolding pend_links_def pend_ok_def by (metis option.discI option.inject)+

lemma pend_links_upd:
  assumes P: "pend_links s P" and s': "s' = s\<lparr>pds := h, objs := (objs s)(ob \<mapsto> b)\<rparr>"
    and b: "objs s ob = Some b0" "unat (PL_NbrEntries (OBJ_PendList b)) = length xs"
    and lk: "linked PD_NextPtr PD_PrevPtr h (PL_HeadPtr (OBJ_PendList b)) (PL_TailPtr (OBJ_PendList b)) xs"
    and core: "\<And>y. map_option pd_core (h y) = map_option pd_core (pds s y)"
    and chg: "\<And>y. y \<notin> D \<Longrightarrow> h y = pds s y"
    and D: "\<And>y. y \<in> D \<union> set xs \<Longrightarrow> \<exists>d. pds s y = Some d \<and> PD_PendObjPtr d = ob \<and> PD_TCBPtr d \<in> dom (tcbs s)"
  shows "pend_links s' (P(ob := xs))"
proof -
  have mem: "\<exists>d. h y = Some d \<and> PD_PendObjPtr d = q \<and> PD_TCBPtr d \<in> dom (tcbs s)"
    if "\<exists>d. pds s y = Some d \<and> PD_PendObjPtr d = q \<and> PD_TCBPtr d \<in> dom (tcbs s)" for y q
  proof -
    from that obtain d where d: "pds s y = Some d" "PD_PendObjPtr d = q" "PD_TCBPtr d \<in> dom (tcbs s)" by blast
    with core [of y] obtain d' where d': "h y = Some d'" "pd_core d' = pd_core d" by (auto simp: map_option_Some_iff)
    with d show ?thesis using pd_core_eqD [OF d'(2)] by simp
  qed
  have "if objs s' q = None then (P(ob := xs)) q = [] else pend_ok s' q ((P(ob := xs)) q)" for q
  proof (cases "q = ob")
    case True
    with s' b lk D mem show ?thesis by (auto simp: pend_ok_def)
  next
    case False
    show ?thesis
    proof (cases "objs s q")
      case None
      with False P s' show ?thesis by (auto simp: pend_links_def split: if_splits)
    next
      case (Some c)
      note q = pend_links_obtain [OF P Some]
      have "h y = pds s y" if "y \<in> set (P q)" for y
      proof (rule chg)
        from q(3) [OF that] False D [of y] show "y \<notin> D" by fastforce
      qed
      then have "linked PD_NextPtr PD_PrevPtr h a e (P q) = linked PD_NextPtr PD_PrevPtr (pds s) a e (P q)"
        for a e by (intro linked_cong) simp_all
      with q mem False Some s' show ?thesis by (auto simp: pend_ok_def)
    qed
  qed
  then show ?thesis unfolding pend_links_def by blast
qed

lemma pend_frame_upd:
  assumes "s' = s\<lparr>pds := h, objs := (objs s)(ob \<mapsto> b)\<rparr>" "objs s ob = Some b0" "obj_core b = obj_core b0"
    and "\<And>y. map_option pd_core (h y) = map_option pd_core (pds s y)"
  shows "pend_frame s s'"
  using assms by (auto simp: pend_frame_def os_less_pend_def)

subsection \<open>Insertion by priority\<close>

lemma pend_scan_ok:
  assumes "dl (fld PD_NextPtr (pds s)) pv b ys NULL" "NULL \<notin> set ys"
    and "\<And>y. y \<in> set ys \<Longrightarrow> \<exists>d. pds s y = Some d \<and> PD_TCBPtr d \<in> dom (tcbs s)"
  shows "pend_scan prio (pds s) (tcbs s) (hd0 NULL ys) = Some (hd0 NULL (dropWhile (\<lambda>y. pd_prio s y \<le> prio) ys))"
  using assms
proof (induction ys arbitrary: b)
  case Nil
  then show ?case by (subst pend_scan.simps) simp
next
  case (Cons y ys)
  from Cons.prems(3) [of y] obtain d t where y: "pds s y = Some d" "tcbs s (PD_TCBPtr d) = Some t" by auto
  then have pr: "pd_prio s y = TCB_Prio t" by (simp add: pd_prio_def fld_Some)
  from Cons.prems(1) y have nx: "PD_NextPtr d = hd0 NULL ys" by (simp add: fld_Some)
  have "pend_scan prio (pds s) (tcbs s) (hd0 NULL ys) = Some (hd0 NULL (dropWhile (\<lambda>y. pd_prio s y \<le> prio) ys))"
    by (rule Cons.IH [of y]) (use Cons.prems in auto)
  with Cons.prems(2) y pr nx show ?case
    by (subst pend_scan.simps) (auto dest: leD leI)
qed

text \<open>The abstract operation: behind every entry that is at least as urgent.\<close>

definition prio_insert :: "('a \<Rightarrow> 'b::linorder) \<Rightarrow> 'a \<Rightarrow> 'a list \<Rightarrow> 'a list" where
  "prio_insert f x xs = takeWhile (\<lambda>y. f y \<le> f x) xs @ x # dropWhile (\<lambda>y. f y \<le> f x) xs"

lemma set_prio_insert [simp]: "set (prio_insert f x xs) = insert x (set xs)"
  unfolding prio_insert_def by (metis Un_insert_right list.simps(15) set_append takeWhile_dropWhile_id)

lemma length_prio_insert [simp]: "length (prio_insert f x xs) = Suc (length xs)"
  unfolding prio_insert_def by (metis add_Suc_right length_Cons length_append takeWhile_dropWhile_id)

lemma sorted_prio_insert: "sorted (map f xs) \<Longrightarrow> sorted (map f (prio_insert f x xs))"
proof (induction xs)
  case (Cons y ys)
  then show ?case by (fastforce simp: prio_insert_def dest: set_takeWhileD set_dropWhileD)
qed (simp add: prio_insert_def)

text \<open>The common end of the insertion and removal proofs: the new state from the new links.\<close>

lemma pend_step:
  assumes P: "pend_links s P" and b: "objs s ob = Some b" "obj_core b' = obj_core b"
    and n: "unat (PL_NbrEntries (OBJ_PendList b')) = length xs"
    and lk: "linked PD_NextPtr PD_PrevPtr h (PL_HeadPtr (OBJ_PendList b')) (PL_TailPtr (OBJ_PendList b')) xs"
    and x: "pds s x = Some d" "PD_PendObjPtr d = ob" "PD_TCBPtr d \<in> dom (tcbs s)" "set xs \<subseteq> insert x (set (P ob))"
    and h: "\<And>y. map_option pd_core (h y) = map_option pd_core (pds s y)"
      "\<And>y. y \<notin> insert x (set (P ob)) \<Longrightarrow> h y = pds s y"
    and s': "s' = s\<lparr>pds := h, objs := (objs s)(ob \<mapsto> b')\<rparr>"
  shows "pend_links s' (P(ob := xs)) \<and> pend_frame s s'"
proof
  note oo = pend_links_obtain [OF P b(1)]
  have "\<exists>d. pds s y = Some d \<and> PD_PendObjPtr d = ob \<and> PD_TCBPtr d \<in> dom (tcbs s)"
    if "y \<in> insert x (set (P ob)) \<union> set xs" for y
    using that x oo(3) [of y] by blast
  then show "pend_links s' (P(ob := xs))"
    by (intro pend_links_upd [OF P s' b(1) n lk h])
  show "pend_frame s s'"
    by (rule pend_frame_upd [OF s' b h(1)])
qed

lemma pend_insert_empty:
  assumes P: "pend_links s P" and b: "objs s ob = Some b" and e: "P ob = []"
    and x: "pds s x = Some d" "PD_PendObjPtr d = ob" "tcbs s (PD_TCBPtr d) = Some t" "x \<noteq> NULL"
  shows "\<exists>s'. OS_PendListInsertPrio ob x s = Some s' \<and> pend_links s' (P(ob := [x])) \<and> pend_frame s s'"
proof -
  note oo = pend_links_obtain [OF P b]
  let ?h = "(pds s)(x \<mapsto> d\<lparr>PD_NextPtr := NULL, PD_PrevPtr := NULL\<rparr>)"
  let ?b = "b\<lparr>OBJ_PendList := (OBJ_PendList b)\<lparr>PL_NbrEntries := 1, PL_HeadPtr := x, PL_TailPtr := x\<rparr>\<rparr>"
  let ?s = "s\<lparr>pds := ?h, objs := (objs s)(ob \<mapsto> ?b)\<rparr>"
  have "PL_NbrEntries (OBJ_PendList b) = 0" using oo(1) e by (simp add: unat_eq_0)
  then have 1: "OS_PendListInsertPrio ob x s = Some ?s"
    using b x by (simp add: OS_PendListInsertPrio_def)
  have lk: "linked PD_NextPtr PD_PrevPtr ?h x x [x]" using x by (auto simp: linked_def)
  have "pend_links ?s (P(ob := [x])) \<and> pend_frame s ?s"
    by (rule pend_step [OF P b, where x = x]) (use lk x in \<open>auto simp: obj_core_def pd_core_def\<close>)
  with 1 show ?thesis by blast
qed

lemma pend_insert_last:
  assumes P: "pend_links s P" and b: "objs s ob = Some b" and e: "P ob \<noteq> []" "length (P ob) < 65535"
    and sc: "pend_scan (TCB_Prio t) (pds s) (tcbs s) (PL_HeadPtr (OBJ_PendList b)) = Some NULL"
    and x: "pds s x = Some d" "PD_PendObjPtr d = ob" "tcbs s (PD_TCBPtr d) = Some t" "x \<noteq> NULL" "x \<notin> set (P ob)"
  shows "\<exists>s'. OS_PendListInsertPrio ob x s = Some s' \<and> pend_links s' (P(ob := P ob @ [x])) \<and> pend_frame s s'"
proof -
  note oo = pend_links_obtain [OF P b]
  let ?l = "OBJ_PendList b" let ?e = "PL_TailPtr ?l"
  from linked_ends [OF oo(2) e(1)] obtain m where m: "pds s ?e = Some m" "PD_NextPtr m = NULL" "?e \<in> set (P ob)" by blast
  then have ne: "?e \<noteq> x" using x by auto
  let ?h = "(pds s)(x \<mapsto> d\<lparr>PD_NextPtr := NULL, PD_PrevPtr := ?e\<rparr>, ?e \<mapsto> m\<lparr>PD_NextPtr := x\<rparr>)"
  let ?b = "b\<lparr>OBJ_PendList := ?l\<lparr>PL_NbrEntries := PL_NbrEntries ?l + 1, PL_TailPtr := x\<rparr>\<rparr>"
  let ?s = "s\<lparr>pds := ?h, objs := (objs s)(ob \<mapsto> ?b)\<rparr>"
  have nz: "PL_NbrEntries ?l \<noteq> 0" using oo(1) e by auto
  have 1: "OS_PendListInsertPrio ob x s = Some ?s"
    using b x m ne nz sc by (simp add: OS_PendListInsertPrio_def Let_def)
  have lk: "linked PD_NextPtr PD_PrevPtr ?h (PL_HeadPtr ?l) x (P ob @ [x])"
    by (rule linked_insert [of _ _ _ _ _ _ "[]", simplified, OF oo(2)])
      (use x ne m e linkedD(4,5) [OF oo(2)] in \<open>auto simp: fld_Some hd0_nonempty\<close>)
  have "pend_links ?s (P(ob := P ob @ [x])) \<and> pend_frame s ?s"
    by (rule pend_step [OF P b, where x = x])
      (use lk x m e oo(1) in \<open>auto simp: obj_core_def pd_core_def intro!: unat_inc\<close>)
  with 1 show ?thesis by blast
qed

lemma pend_insert_first:
  assumes P: "pend_links s P" and b: "objs s ob = Some b" and e: "P ob \<noteq> []" "length (P ob) < 65535"
    and sc: "pend_scan (TCB_Prio t) (pds s) (tcbs s) (PL_HeadPtr (OBJ_PendList b)) = Some (hd0 NULL (P ob))"
    and x: "pds s x = Some d" "PD_PendObjPtr d = ob" "tcbs s (PD_TCBPtr d) = Some t" "x \<noteq> NULL" "x \<notin> set (P ob)"
  shows "\<exists>s'. OS_PendListInsertPrio ob x s = Some s' \<and> pend_links s' (P(ob := x # P ob)) \<and> pend_frame s s'"
proof -
  note oo = pend_links_obtain [OF P b]
  let ?l = "OBJ_PendList b" let ?e = "hd0 NULL (P ob)"
  from linked_ends [OF oo(2) e(1)] linkedD(4) [OF oo(2)]
  obtain m where m: "pds s ?e = Some m" "PD_PrevPtr m = NULL" "?e \<in> set (P ob)" by metis
  then have ne: "?e \<noteq> x" "0 < ?e" using x mem_nz [OF linkedD(2) [OF oo(2)]] by auto
  let ?h = "(pds s)(?e \<mapsto> m\<lparr>PD_PrevPtr := x\<rparr>, x \<mapsto> d\<lparr>PD_PrevPtr := NULL, PD_NextPtr := ?e\<rparr>)"
  let ?b = "b\<lparr>OBJ_PendList := ?l\<lparr>PL_NbrEntries := PL_NbrEntries ?l + 1, PL_HeadPtr := x\<rparr>\<rparr>"
  let ?s = "s\<lparr>pds := ?h, objs := (objs s)(ob \<mapsto> ?b)\<rparr>"
  have nz: "PL_NbrEntries ?l \<noteq> 0" using oo(1) e by auto
  have 1: "OS_PendListInsertPrio ob x s = Some ?s"
    using b x m ne nz sc by (simp add: OS_PendListInsertPrio_def Let_def)
  have lk: "linked PD_NextPtr PD_PrevPtr ?h x (PL_TailPtr ?l) (x # P ob)"
    by (rule linked_insert [of _ _ _ _ _ "[]", simplified, OF oo(2)])
      (use x ne m e linkedD(4,5) [OF oo(2)] in \<open>auto simp: fld_Some last0_nonempty\<close>)
  have "pend_links ?s (P(ob := x # P ob)) \<and> pend_frame s ?s"
    by (rule pend_step [OF P b, where x = x])
      (use lk x m e oo(1) in \<open>auto simp: obj_core_def pd_core_def intro!: unat_inc\<close>)
  with 1 show ?thesis by blast
qed

lemma pend_insert_inner:
  assumes P: "pend_links s P" and b: "objs s ob = Some b" and sp: "P ob = xs @ ys" "xs \<noteq> []" "ys \<noteq> []"
    and len: "length (P ob) < 65535"
    and sc: "pend_scan (TCB_Prio t) (pds s) (tcbs s) (PL_HeadPtr (OBJ_PendList b)) = Some (hd0 NULL ys)"
    and x: "pds s x = Some d" "PD_PendObjPtr d = ob" "tcbs s (PD_TCBPtr d) = Some t" "x \<noteq> NULL" "x \<notin> set (P ob)"
  shows "\<exists>s'. OS_PendListInsertPrio ob x s = Some s' \<and> pend_links s' (P(ob := xs @ x # ys)) \<and> pend_frame s s'"
proof -
  note oo = pend_links_obtain [OF P b]
  note lk0 = oo(2) [unfolded sp]
  note D = linkedD [OF lk0]
  let ?l = "OBJ_PendList b" let ?e = "hd0 NULL ys" let ?p = "last0 NULL xs"
  have inn: "?e \<in> set ys" "?p \<in> set xs" using sp by (simp_all add: hd0_in last0_in)
  then obtain m n where m: "pds s ?e = Some m" "pds s ?p = Some n" 
    using D(3) by (metis (no_types, lifting) Un_iff domD set_append subsetD)
  have pv: "PD_PrevPtr m = ?p" using D(6) m sp dl_first by (fastforce simp: dl_append fld_Some)
  have ne: "?e \<noteq> x" "0 < ?e" "?p \<noteq> x" "0 < ?p" "?e \<noteq> ?p" "?e \<notin> set xs" "?p \<notin> set ys"
    using x(5) sp inn D(1) mem_nz [OF D(2)] by auto
  let ?h = "(pds s)(x \<mapsto> d\<lparr>PD_PrevPtr := ?p, PD_NextPtr := ?e\<rparr>, ?p \<mapsto> n\<lparr>PD_NextPtr := x\<rparr>, ?e \<mapsto> m\<lparr>PD_PrevPtr := x\<rparr>)"
  let ?b = "b\<lparr>OBJ_PendList := ?l\<lparr>PL_NbrEntries := PL_NbrEntries ?l + 1\<rparr>\<rparr>"
  let ?s = "s\<lparr>pds := ?h, objs := (objs s)(ob \<mapsto> ?b)\<rparr>"
  have nz: "PL_NbrEntries ?l \<noteq> 0" using oo(1) sp by auto
  have 1: "OS_PendListInsertPrio ob x s = Some ?s"
    using b x m pv ne nz sc by (simp add: OS_PendListInsertPrio_def Let_def)
  have lk: "linked PD_NextPtr PD_PrevPtr ?h (PL_HeadPtr ?l) (PL_TailPtr ?l) (xs @ x # ys)"
    by (rule linked_insert [OF lk0])
      (use x ne m sp D(4,5) in \<open>auto simp: fld_Some last0_nonempty hd0_nonempty\<close>)
  have "pend_links ?s (P(ob := xs @ x # ys)) \<and> pend_frame s ?s"
    by (rule pend_step [OF P b, where x = x])
      (use lk x m inn sp oo(1) len in \<open>auto simp: obj_core_def pd_core_def intro!: unat_inc\<close>)
  with 1 show ?thesis by blast
qed

lemma OS_PendListInsertPrio_links:
  assumes P: "pend_links s P" and b: "objs s ob = Some b" and len: "length (P ob) < 65535"
    and x: "pds s x = Some d" "PD_PendObjPtr d = ob" "tcbs s (PD_TCBPtr d) = Some t" "x \<noteq> NULL" "x \<notin> set (P ob)"
  shows "\<exists>s'. OS_PendListInsertPrio ob x s = Some s' \<and>
    pend_links s' (P(ob := prio_insert (pd_prio s) x (P ob))) \<and> pend_frame s s'"
proof -
  note oo = pend_links_obtain [OF P b]
  note D = linkedD [OF oo(2)]
  let ?xs = "takeWhile (\<lambda>y. pd_prio s y \<le> TCB_Prio t) (P ob)"
  let ?ys = "dropWhile (\<lambda>y. pd_prio s y \<le> TCB_Prio t) (P ob)"
  have prx: "pd_prio s x = TCB_Prio t" using x by (simp add: pd_prio_def fld_Some)
  have ins: "prio_insert (pd_prio s) x (P ob) = ?xs @ x # ?ys" by (simp add: prio_insert_def prx)
  have "pend_scan (TCB_Prio t) (pds s) (tcbs s) (hd0 NULL (P ob)) = Some (hd0 NULL ?ys)"
    by (rule pend_scan_ok [OF D(6,2)]) (use oo(3) in blast)
  then have sc: "pend_scan (TCB_Prio t) (pds s) (tcbs s) (PL_HeadPtr (OBJ_PendList b)) = Some (hd0 NULL ?ys)"
    using D(4) by simp
  consider "P ob = []" | "P ob \<noteq> []" "?ys = []" "?xs = P ob" | "P ob \<noteq> []" "?xs = []" "?ys = P ob" | "?xs \<noteq> []" "?ys \<noteq> []"
    by (metis append_Nil append_Nil2 takeWhile_dropWhile_id)
  then show ?thesis
  proof cases
    case 1
    then have "prio_insert (pd_prio s) x (P ob) = [x]" by (simp add: prio_insert_def)
    then show ?thesis using pend_insert_empty [OF P b 1 x(1-4)] by simp
  next
    case 2
    from pend_insert_last [OF P b 2(1) len _ x] sc show ?thesis unfolding ins 2(2,3) by simp
  next
    case 3
    from pend_insert_first [OF P b 3(1) len _ x] sc show ?thesis unfolding ins 3(2,3) by simp
  next
    case 4
    have "P ob = ?xs @ ?ys" by simp
    from pend_insert_inner [OF P b this 4 len sc x] show ?thesis unfolding ins .
  qed
qed

lemma OS_PendListInsertPrio_ok:
  assumes P: "pend_rel s P" and b: "objs s ob = Some b" and len: "length (P ob) < 65535"
    and x: "pds s x = Some d" "PD_PendObjPtr d = ob" "PD_TCBPtr d \<in> dom (tcbs s)" "x \<noteq> NULL" "x \<notin> set (P ob)"
  shows "\<exists>s'. OS_PendListInsertPrio ob x s = Some s' \<and>
    pend_rel s' (P(ob := prio_insert (pd_prio s) x (P ob))) \<and> pend_frame s s'"
proof -
  from x obtain t where t: "tcbs s (PD_TCBPtr d) = Some t" by blast
  from P have "pend_links s P" by (simp add: pend_rel_def)
  from OS_PendListInsertPrio_links [OF this b len x(1,2) t x(4,5)] obtain s' where s': "OS_PendListInsertPrio ob x s = Some s'"
    "pend_links s' (P(ob := prio_insert (pd_prio s) x (P ob)))" "pend_frame s s'" by blast
  have "pd_prio s' = pd_prio s" using s'(3) by (rule pend_frame_prio)
  with P s' show ?thesis by (auto simp: pend_rel_def pend_sorted_def intro: sorted_prio_insert)
qed

subsection \<open>Removal\<close>

lemma pend_split_facts:
  assumes P: "pend_links s P" and b: "objs s ob = Some b" and e: "P ob = xs @ x # ys"
  obtains d where "pds s x = Some d" "PD_PendObjPtr d = ob" "PD_TCBPtr d \<in> dom (tcbs s)"
    "PD_PrevPtr d = last0 NULL xs" "PD_NextPtr d = hd0 NULL ys"
proof -
  note oo = pend_links_obtain [OF P b]
  from linked_node [OF oo(2) [unfolded e]] obtain d where d: "pds s x = Some d" "PD_NextPtr d = hd0 NULL ys"
    "PD_PrevPtr d = last0 NULL xs" by blast
  moreover from oo(3) [of x] e d(1) have "PD_PendObjPtr d = ob" "PD_TCBPtr d \<in> dom (tcbs s)" by auto
  ultimately show ?thesis using that by blast
qed

lemma pend_remove_single:
  assumes P: "pend_links s P" and b: "objs s ob = Some b" and e: "P ob = [x]"
  shows "\<exists>s'. OS_PendListRemove1 ob x s = Some s' \<and> pend_links s' (P(ob := [])) \<and> pend_frame s s'"
proof -
  note oo = pend_links_obtain [OF P b]
  from oo(3) [of x] e obtain d where d: "pds s x = Some d" "PD_PendObjPtr d = ob" "PD_TCBPtr d \<in> dom (tcbs s)" by auto
  let ?l = "OBJ_PendList b"
  have one: "PL_NbrEntries ?l = 1" using oo(1) e by (simp add: unat_eq_numD)
  let ?h = "(pds s)(x \<mapsto> d\<lparr>PD_NextPtr := NULL, PD_PrevPtr := NULL\<rparr>)"
  let ?b = "b\<lparr>OBJ_PendList := ?l\<lparr>PL_HeadPtr := NULL, PL_TailPtr := NULL, PL_NbrEntries := PL_NbrEntries ?l - 1\<rparr>\<rparr>"
  let ?s = "s\<lparr>pds := ?h, objs := (objs s)(ob \<mapsto> ?b)\<rparr>"
  have 1: "OS_PendListRemove1 ob x s = Some ?s" using b d one by (simp add: OS_PendListRemove1_def)
  have "pend_links ?s (P(ob := [])) \<and> pend_frame s ?s"
    by (rule pend_step [OF P b, where x = x]) (use one d in \<open>auto simp: obj_core_def pd_core_def\<close>)
  with 1 show ?thesis by blast
qed

lemma pend_remove_first:
  assumes P: "pend_links s P" and b: "objs s ob = Some b" and e: "P ob = [] @ x # ys" "ys \<noteq> []"
  shows "\<exists>s'. OS_PendListRemove1 ob x s = Some s' \<and> pend_links s' (P(ob := ys)) \<and> pend_frame s s'"
proof -
  note oo = pend_links_obtain [OF P b]
  note lk0 = oo(2) [unfolded e(1)]
  note D = linkedD [OF lk0]
  from pend_split_facts [OF P b e(1)] obtain d where d: "pds s x = Some d" "PD_PendObjPtr d = ob" "PD_TCBPtr d \<in> dom (tcbs s)"
    "PD_PrevPtr d = NULL" "PD_NextPtr d = hd0 NULL ys" by (metis hd0_simps(1) last0_simps(1))
  let ?l = "OBJ_PendList b" let ?e = "hd0 NULL ys"
  have inn: "?e \<in> set ys" using e by (simp add: hd0_in)
  then obtain m where m: "pds s ?e = Some m" using D(3) by auto
  have ne: "?e \<noteq> x" "0 < ?e" using inn D(1) mem_nz [OF D(2)] by auto
  have one: "PL_NbrEntries ?l \<noteq> 1" using oo(1) e by (cases ys) auto
  let ?h = "(pds s)(?e \<mapsto> m\<lparr>PD_PrevPtr := NULL\<rparr>, x \<mapsto> d\<lparr>PD_NextPtr := NULL, PD_PrevPtr := NULL\<rparr>)"
  let ?b = "b\<lparr>OBJ_PendList := ?l\<lparr>PL_HeadPtr := ?e, PL_NbrEntries := PL_NbrEntries ?l - 1\<rparr>\<rparr>"
  let ?s = "s\<lparr>pds := ?h, objs := (objs s)(ob \<mapsto> ?b)\<rparr>"
  have 1: "OS_PendListRemove1 ob x s = Some ?s" using b d one m ne by (simp add: OS_PendListRemove1_def Let_def)
  have lk: "linked PD_NextPtr PD_PrevPtr ?h ?e (PL_TailPtr ?l) ([] @ ys)"
    by (rule linked_remove [OF lk0]) (use e d m ne D in \<open>auto simp: fld_Some last0_nonempty\<close>)
  have "pend_links ?s (P(ob := ys)) \<and> pend_frame s ?s"
    by (rule pend_step [OF P b, where x = x])
      (use lk d m inn e oo(1) in \<open>auto simp: obj_core_def pd_core_def unat_dec\<close>)
  with 1 show ?thesis by blast
qed

lemma pend_remove_last:
  assumes P: "pend_links s P" and b: "objs s ob = Some b" and e: "P ob = xs @ x # []" "xs \<noteq> []"
  shows "\<exists>s'. OS_PendListRemove1 ob x s = Some s' \<and> pend_links s' (P(ob := xs)) \<and> pend_frame s s'"
proof -
  note oo = pend_links_obtain [OF P b]
  note lk0 = oo(2) [unfolded e(1)]
  note D = linkedD [OF lk0]
  from pend_split_facts [OF P b e(1)] obtain d where d: "pds s x = Some d" "PD_PendObjPtr d = ob" "PD_TCBPtr d \<in> dom (tcbs s)"
    "PD_PrevPtr d = last0 NULL xs" "PD_NextPtr d = NULL" by (metis hd0_simps(1) last0_simps(1))
  let ?l = "OBJ_PendList b" let ?e = "last0 NULL xs"
  have inn: "?e \<in> set xs" using e by (simp add: last0_in)
  then obtain m where m: "pds s ?e = Some m" using D(3) by auto
  have ne: "?e \<noteq> x" "0 < ?e" using inn D(1) mem_nz [OF D(2)] by auto
  have one: "PL_NbrEntries ?l \<noteq> 1" using oo(1) e by (cases xs) auto
  let ?h = "(pds s)(?e \<mapsto> m\<lparr>PD_NextPtr := NULL\<rparr>, x \<mapsto> d\<lparr>PD_NextPtr := NULL, PD_PrevPtr := NULL\<rparr>)"
  let ?b = "b\<lparr>OBJ_PendList := ?l\<lparr>PL_TailPtr := ?e, PL_NbrEntries := PL_NbrEntries ?l - 1\<rparr>\<rparr>"
  let ?s = "s\<lparr>pds := ?h, objs := (objs s)(ob \<mapsto> ?b)\<rparr>"
  have 1: "OS_PendListRemove1 ob x s = Some ?s" using b d one m ne by (simp add: OS_PendListRemove1_def Let_def)
  have lk: "linked PD_NextPtr PD_PrevPtr ?h (PL_HeadPtr ?l) ?e (xs @ [])"
    by (rule linked_remove [OF lk0]) (use e d m ne D in \<open>auto simp: fld_Some hd0_nonempty\<close>)
  have "pend_links ?s (P(ob := xs)) \<and> pend_frame s ?s"
    by (rule pend_step [OF P b, where x = x])
      (use lk d m inn e oo(1) in \<open>auto simp: obj_core_def pd_core_def unat_dec\<close>)
  with 1 show ?thesis by blast
qed

lemma pend_remove_inner:
  assumes P: "pend_links s P" and b: "objs s ob = Some b" and e: "P ob = xs @ x # ys" "xs \<noteq> []" "ys \<noteq> []"
  shows "\<exists>s'. OS_PendListRemove1 ob x s = Some s' \<and> pend_links s' (P(ob := xs @ ys)) \<and> pend_frame s s'"
proof -
  note oo = pend_links_obtain [OF P b]
  note lk0 = oo(2) [unfolded e(1)]
  note D = linkedD [OF lk0]
  from pend_split_facts [OF P b e(1)] obtain d where d: "pds s x = Some d" "PD_PendObjPtr d = ob" "PD_TCBPtr d \<in> dom (tcbs s)"
    "PD_PrevPtr d = last0 NULL xs" "PD_NextPtr d = hd0 NULL ys" by (metis hd0_simps(1) last0_simps(1))
  let ?l = "OBJ_PendList b" let ?e = "hd0 NULL ys" let ?p = "last0 NULL xs"
  have inn: "?e \<in> set ys" "?p \<in> set xs" using e by (simp_all add: last0_in hd0_in)
  then obtain m n where m: "pds s ?e = Some m" "pds s ?p = Some n"
    using D(3) by (metis (no_types, lifting) Un_iff domD list.set_intros(2) set_append subsetD)
  have ne: "?e \<noteq> x" "0 < ?e" "?p \<noteq> x" "0 < ?p" "?p \<noteq> ?e" "?e \<notin> set xs" "?p \<notin> set ys"
    using inn D(1) mem_nz [OF D(2)] by auto
  have one: "PL_NbrEntries ?l \<noteq> 1" using oo(1) e by (cases xs) auto
  let ?h = "(pds s)(?p \<mapsto> n\<lparr>PD_NextPtr := ?e\<rparr>, ?e \<mapsto> m\<lparr>PD_PrevPtr := ?p\<rparr>, x \<mapsto> d\<lparr>PD_NextPtr := NULL, PD_PrevPtr := NULL\<rparr>)"
  let ?b = "b\<lparr>OBJ_PendList := ?l\<lparr>PL_NbrEntries := PL_NbrEntries ?l - 1\<rparr>\<rparr>"
  let ?s = "s\<lparr>pds := ?h, objs := (objs s)(ob \<mapsto> ?b)\<rparr>"
  have 1: "OS_PendListRemove1 ob x s = Some ?s" using b d one m ne by (simp add: OS_PendListRemove1_def Let_def)
  have lk: "linked PD_NextPtr PD_PrevPtr ?h (PL_HeadPtr ?l) (PL_TailPtr ?l) (xs @ ys)"
    by (rule linked_remove [OF lk0]) (use e d m ne D in \<open>auto simp: fld_Some hd0_nonempty last0_nonempty\<close>)
  have "pend_links ?s (P(ob := xs @ ys)) \<and> pend_frame s ?s"
    by (rule pend_step [OF P b, where x = x])
      (use lk d m inn e oo(1) in \<open>auto simp: obj_core_def pd_core_def unat_dec\<close>)
  with 1 show ?thesis by blast
qed

lemma OS_PendListRemove1_links:
  assumes L: "pend_links s P" and x: "x \<in> set (P ob)"
  shows "\<exists>s'. OS_PendListRemove1 ob x s = Some s' \<and> pend_links s' (P(ob := remove1 x (P ob))) \<and> pend_frame s s'"
proof -
  from L have "objs s ob \<noteq> None" using x unfolding pend_links_def by (metis empty_iff list.set(1))
  then obtain b where b: "objs s ob = Some b" by blast
  from x obtain xs ys where sp: "P ob = xs @ x # ys" "x \<notin> set xs" by (meson split_list_first)
  then have r: "remove1 x (P ob) = xs @ ys" by (simp add: remove1_append)
  consider "xs = []" "ys = []" | "xs = []" "ys \<noteq> []" | "xs \<noteq> []" "ys = []" | "xs \<noteq> []" "ys \<noteq> []" by blast
  then have "\<exists>s'. OS_PendListRemove1 ob x s = Some s' \<and> pend_links s' (P(ob := xs @ ys)) \<and> pend_frame s s'"
  proof cases
    case 1 with pend_remove_single [OF L b] sp show ?thesis by simp
  next
    case 2 with pend_remove_first [OF L b, of x ys] sp show ?thesis by simp
  next
    case 3 with pend_remove_last [OF L b, of xs x] sp show ?thesis by simp
  next
    case 4 with pend_remove_inner [OF L b sp(1)] show ?thesis by simp
  qed
  then show ?thesis unfolding r .
qed

lemma OS_PendListRemove1_ok:
  assumes P: "pend_rel s P" and x: "x \<in> set (P ob)"
  shows "\<exists>s'. OS_PendListRemove1 ob x s = Some s' \<and> pend_rel s' (P(ob := remove1 x (P ob))) \<and> pend_frame s s'"
proof -
  from P have L: "pend_links s P" by (simp add: pend_rel_def)
  from OS_PendListRemove1_links [OF L x] obtain s' where
    s': "OS_PendListRemove1 ob x s = Some s'" "pend_links s' (P(ob := remove1 x (P ob)))" "pend_frame s s'" by blast
  have "pd_prio s' = pd_prio s" using s'(3) by (rule pend_frame_prio)
  moreover from x obtain xs ys where sp: "P ob = xs @ x # ys" "x \<notin> set xs" by (meson split_list_first)
  then have r: "remove1 x (P ob) = xs @ ys" by (simp add: remove1_append)
  have "sorted (map (pd_prio s) (P ob))" using P by (simp add: pend_rel_def pend_sorted_def)
  then have "sorted (map (pd_prio s) (xs @ ys))" unfolding sp(1) by (simp add: sorted_append)
  ultimately show ?thesis using P s' r by (auto simp: pend_rel_def pend_sorted_def)
qed

subsection \<open>Views: what the relation depends on\<close>

definition pd_view :: "OS_PEND_DATA \<Rightarrow> ptr \<times> ptr \<times> ptr \<times> ptr" where
  "pd_view d = (PD_NextPtr d, PD_PrevPtr d, PD_TCBPtr d, PD_PendObjPtr d)"

lemma pend_rel_cong:
  assumes o: "\<And>x. map_option OBJ_PendList (objs s' x) = map_option OBJ_PendList (objs s x)"
    and d: "\<And>x. map_option pd_view (pds s' x) = map_option pd_view (pds s x)"
    and t: "\<And>x. map_option TCB_Prio (tcbs s' x) = map_option TCB_Prio (tcbs s x)"
  shows "pend_rel s' P = pend_rel s P"
proof -
  have dv: "map_option PD_NextPtr (pds s' x) = map_option PD_NextPtr (pds s x)"
    "map_option PD_PrevPtr (pds s' x) = map_option PD_PrevPtr (pds s x)"
    "map_option PD_TCBPtr (pds s' x) = map_option PD_TCBPtr (pds s x)"
    "map_option PD_PendObjPtr (pds s' x) = map_option PD_PendObjPtr (pds s x)" for x
    using d [of x] by (cases "pds s x"; cases "pds s' x"; simp add: pd_view_def)+
  have lk: "linked PD_NextPtr PD_PrevPtr (pds s') a b xs = linked PD_NextPtr PD_PrevPtr (pds s) a b xs" for a b xs
    by (rule linked_cong) (simp_all add: dv)
  have td: "dom (tcbs s') = dom (tcbs s)" using t by (metis (no_types, lifting) domIff option.map_disc_iff set_eqI)
  have mem: "(\<exists>d. pds s' x = Some d \<and> PD_PendObjPtr d = ob \<and> PD_TCBPtr d \<in> T) \<longleftrightarrow>
    (\<exists>d. pds s x = Some d \<and> PD_PendObjPtr d = ob \<and> PD_TCBPtr d \<in> T)" for x ob T
    using dv(3,4) [of x] by (cases "pds s x"; cases "pds s' x"; simp)
  have ob: "(\<exists>b. objs s' q = Some b \<and> Q (OBJ_PendList b)) \<longleftrightarrow> (\<exists>b. objs s q = Some b \<and> Q (OBJ_PendList b))"
    "objs s' q = None \<longleftrightarrow> objs s q = None" for q Q
    using o [of q] by (cases "objs s q"; cases "objs s' q"; simp)+
  have tp: "fld TCB_Prio (tcbs s') x = fld TCB_Prio (tcbs s) x" for x
    using t [of x] by (cases "tcbs s x"; cases "tcbs s' x"; simp add: fld_def)
  have "pd_prio s' x = pd_prio s x" for x
    using dv(3) [of x] tp by (cases "pds s x"; cases "pds s' x"; simp add: pd_prio_def)
  then have "pd_prio s' = pd_prio s" by blast
  moreover have "pend_ok s' q xs = pend_ok s q xs" for q xs
    unfolding pend_ok_def lk td mem using ob(1) [of q "\<lambda>l. unat (PL_NbrEntries l) = length xs \<and>
      linked PD_NextPtr PD_PrevPtr (pds s) (PL_HeadPtr l) (PL_TailPtr l) xs"] by simp
  ultimately show ?thesis by (simp add: pend_rel_def pend_links_def pend_sorted_def ob(2))
qed

lemma pend_rel_disjoint:
  assumes "pend_rel s P" "x \<in> set (P a)"
  shows "distinct (P a)" "x \<in> set (P b) \<longleftrightarrow> b = a" "\<exists>d. pds s x = Some d \<and> PD_PendObjPtr d = a"
proof -
  have obtain_ok: "pend_ok s q (P q)" if "x \<in> set (P q)" for q
    using assms(1) that unfolding pend_rel_def pend_links_def by (metis empty_iff list.set(1))
  show "distinct (P a)" using obtain_ok [OF assms(2)] by (auto simp: pend_ok_def dest: linkedD(1))
  show "x \<in> set (P b) \<longleftrightarrow> b = a" using obtain_ok [OF assms(2)] obtain_ok [of b] assms(2)
    by (fastforce simp: pend_ok_def)
  show "\<exists>d. pds s x = Some d \<and> PD_PendObjPtr d = a" using obtain_ok [OF assms(2)] assms(2)
    by (fastforce simp: pend_ok_def)
qed

lemma pend_rel_remove1:
  assumes "pend_rel s P" "x \<in> set (P a)"
  shows "P(a := remove1 x (P a)) = (\<lambda>o'. filter (\<lambda>y. y \<noteq> x) (P o'))"
proof
  fix q
  note d = pend_rel_disjoint [OF assms]
  show "(P(a := remove1 x (P a))) q = filter (\<lambda>y. y \<noteq> x) (P q)"
    using d(1) d(2) [of q] by (auto simp: distinct_remove1_removeAll removeAll_filter_not_eq neq_commute
      intro!: filter_True [symmetric] filter_cong)
qed

lemma pend_remove_loop_ok:
  assumes "pend_rel s P" "\<And>i. i < n \<Longrightarrow> \<exists>ob. p + i \<in> set (P ob)"
  shows "\<exists>s'. pend_remove_loop n p s = Some s' \<and>
    pend_rel s' (\<lambda>ob. filter (\<lambda>y. y \<notin> {p..<p + n}) (P ob)) \<and> pend_frame s s'"
  using assms
proof (induction n arbitrary: p s P)
  case 0
  then show ?case by simp
next
  case (Suc n)
  from Suc.prems(2) [of 0] obtain ob where x: "p \<in> set (P ob)" by auto
  note d = pend_rel_disjoint [OF Suc.prems(1) x]
  from d(3) obtain e where e: "pds s p = Some e" "PD_PendObjPtr e = ob" by blast
  from OS_PendListRemove1_ok [OF Suc.prems(1) x] obtain s1 where
    s1: "OS_PendListRemove1 ob p s = Some s1" "pend_rel s1 (\<lambda>q. filter (\<lambda>y. y \<noteq> p) (P q))" "pend_frame s s1"
    unfolding pend_rel_remove1 [OF Suc.prems(1) x] by blast
  have "\<exists>q. p + 1 + i \<in> set (filter (\<lambda>y. y \<noteq> p) (P q))" if "i < n" for i
    using Suc.prems(2) [of "Suc i"] that by auto
  from Suc.IH [OF s1(2) this] obtain s2 where s2: "pend_remove_loop n (p + 1) s1 = Some s2"
    "pend_rel s2 (\<lambda>q. filter (\<lambda>y. y \<notin> {p + 1..<p + 1 + n}) (filter (\<lambda>y. y \<noteq> p) (P q)))" "pend_frame s1 s2"
    by blast
  have "(\<lambda>q. filter (\<lambda>y. y \<notin> {p + 1..<p + 1 + n}) (filter (\<lambda>y. y \<noteq> p) (P q))) =
    (\<lambda>q. filter (\<lambda>y. y \<notin> {p..<p + Suc n}) (P q))"
    by (rule ext, subst filter_filter, rule filter_cong) auto
  with s1 s2 e show ?case using pend_frame_trans by fastforce
qed

text \<open>Every entry of the task's table leaves its list.\<close>

definition pend_tbl :: "OS_TCB \<Rightarrow> ptr set" where
  "pend_tbl t = {TCB_PendDataTblPtr t..<TCB_PendDataTblPtr t + unat (TCB_PendDataTblEntries t)}"

lemma OS_PendListRemove_ok:
  assumes P: "pend_rel s P" and t: "tcbs s x = Some t" and e: "\<And>d. d \<in> pend_tbl t \<Longrightarrow> \<exists>ob. d \<in> set (P ob)"
  shows "\<exists>s1. OS_PendListRemove x s =
      Some (s1\<lparr>tcbs := (tcbs s)(x \<mapsto> t\<lparr>TCB_PendDataTblEntries := 0, TCB_PendDataTblPtr := NULL\<rparr>)\<rparr>) \<and>
    pend_rel s1 (\<lambda>ob. filter (\<lambda>d. d \<notin> pend_tbl t) (P ob)) \<and> pend_frame s s1"
proof -
  have "\<exists>ob. TCB_PendDataTblPtr t + i \<in> set (P ob)" if "i < unat (TCB_PendDataTblEntries t)" for i
    using e that by (simp add: pend_tbl_def)
  from pend_remove_loop_ok [OF P this] obtain s1 where
    s1: "pend_remove_loop (unat (TCB_PendDataTblEntries t)) (TCB_PendDataTblPtr t) s = Some s1"
    "pend_rel s1 (\<lambda>ob. filter (\<lambda>d. d \<notin> pend_tbl t) (P ob))" "pend_frame s s1"
    unfolding pend_tbl_def by blast
  with t pend_frame_tcbs [OF s1(3)] show ?thesis by (auto simp: OS_PendListRemove_def)
qed

subsection \<open>Moving a task to a new priority\<close>

lemma filter_takeWhile: "(\<And>y. y \<in> set ys \<Longrightarrow> \<not> Q y \<Longrightarrow> A y) \<Longrightarrow> filter Q (takeWhile A ys) = takeWhile A (filter Q ys)"
  by (induction ys) auto

lemma filter_dropWhile: "(\<And>y. y \<in> set ys \<Longrightarrow> \<not> Q y \<Longrightarrow> A y) \<Longrightarrow> filter Q (dropWhile A ys) = dropWhile A (filter Q ys)"
  by (induction ys) auto

lemma filter_prio_insert:
  assumes "\<And>y. y \<in> set ys \<Longrightarrow> \<not> Q y \<Longrightarrow> f y \<le> f x" "Q x"
  shows "filter Q (prio_insert f x ys) = prio_insert f x (filter Q ys)"
  using assms by (simp add: prio_insert_def filter_takeWhile filter_dropWhile)

lemma filter_prio_insert_out: "\<not> Q x \<Longrightarrow> filter Q (prio_insert f x ys) = filter Q ys"
  by (simp add: prio_insert_def) (metis filter_append takeWhile_dropWhile_id)

lemma pd_prio_owner:
  "pds s d = Some e \<Longrightarrow> PD_TCBPtr e = x \<Longrightarrow> tcbs s x = Some t \<Longrightarrow> pd_prio s d = TCB_Prio t"
  by (simp add: pd_prio_def fld_Some)

text \<open>On entry of the loop the entries of the table that are still to be visited may be out of order;
  each iteration puts one of them in its place, also when the task waits on one object twice.\<close>

lemma pend_change_loop_ok:
  assumes "pend_links s P" "x \<in> dom (tcbs s)"
    and "\<And>d. d \<in> {p..<p + n} \<Longrightarrow> \<exists>e. pds s d = Some e \<and> PD_TCBPtr e = x \<and> d \<in> set (P (PD_PendObjPtr e))"
    and "\<And>ob. sorted (map (pd_prio s) (filter (\<lambda>d. d \<notin> {p..<p + n}) (P ob)))"
  shows "\<exists>s' P'. pend_change_loop n p s = Some s' \<and> pend_rel s' P' \<and> pend_frame s s' \<and>
    (\<forall>ob. set (P' ob) = set (P ob) \<and> filter (\<lambda>d. d \<notin> {p..<p + n}) (P' ob) = filter (\<lambda>d. d \<notin> {p..<p + n}) (P ob))"
  using assms
proof (induction n arbitrary: p s P)
  case 0
  then show ?case by (intro exI [of _ s] exI [of _ P]) (simp add: pend_rel_def pend_sorted_def)
next
  case (Suc n)
  let ?J = "{p + 1..<p + 1 + n}"
  have J: "{p..<p + Suc n} = insert p ?J" by auto
  from Suc.prems(3) [of p] obtain e where e: "pds s p = Some e" "PD_TCBPtr e = x" "p \<in> set (P (PD_PendObjPtr e))" by auto
  let ?ob = "PD_PendObjPtr e"
  have "objs s ?ob \<noteq> None" using Suc.prems(1) e(3) unfolding pend_links_def by (metis empty_iff list.set(1))
  then obtain b where b: "objs s ?ob = Some b" by blast
  note oo = pend_links_obtain [OF Suc.prems(1) b]
  have only: "p \<notin> set (P q)" if "q \<noteq> ?ob" for q
  proof
    assume p: "p \<in> set (P q)"
    then have "objs s q \<noteq> None" using Suc.prems(1) unfolding pend_links_def by (metis empty_iff list.set(1))
    then obtain c where "objs s q = Some c" by blast
    from pend_links_obtain(3) [OF Suc.prems(1) this p] e(1) that show False by auto
  qed
  have rest: "filter (\<lambda>d. d \<notin> ?J) (P q) = filter (\<lambda>d. d \<notin> {p..<p + Suc n}) (P q)" if "q \<noteq> ?ob" for q
    unfolding J using only [OF that] by (intro filter_cong) auto
  have "\<exists>s1 P1. (if 1 < PL_NbrEntries (OBJ_PendList b) then OS_PendListRemove1 ?ob p s \<bind> OS_PendListInsertPrio ?ob p else Some s) = Some s1 \<and>
    pend_links s1 P1 \<and> pend_frame s s1 \<and> (\<forall>ob. sorted (map (pd_prio s) (filter (\<lambda>d. d \<notin> ?J) (P1 ob)))) \<and>
    (\<forall>ob. set (P1 ob) = set (P ob) \<and> filter (\<lambda>d. d \<notin> {p..<p + Suc n}) (P1 ob) = filter (\<lambda>d. d \<notin> {p..<p + Suc n}) (P ob))"
  proof (cases "1 < PL_NbrEntries (OBJ_PendList b)")
    case False
    then have "length (P ?ob) \<le> 1" using oo(1) by (simp add: word_less_nat_alt)
    with e(3) have P1: "P ?ob = [p]" by (cases "P ?ob"; cases "tl (P ?ob)") auto
    have "sorted (map (pd_prio s) (filter (\<lambda>d. d \<notin> ?J) (P q)))" for q
      using rest [of q] Suc.prems(4) [of q] P1 by (cases "q = ?ob") auto
    with False Suc.prems(1) show ?thesis by (intro exI [of _ s] exI [of _ P]) simp
  next
    case True
    let ?ys = "remove1 p (P ?ob)"
    from OS_PendListRemove1_links [OF Suc.prems(1) e(3)] obtain s1 where s1: "OS_PendListRemove1 ?ob p s = Some s1"
      "pend_links s1 (P(?ob := ?ys))" "pend_frame s s1" by blast
    have "map_option obj_core (objs s1 ?ob) = map_option obj_core (objs s ?ob)" using s1(3) by (simp add: pend_frame_def)
    then obtain b1 where b1: "objs s1 ?ob = Some b1" using b by (auto simp: map_option_Some_iff)
    obtain e1 where e1: "pds s1 p = Some e1" "pd_core e1 = pd_core e" by (rule pend_frame_pd [OF s1(3) e(1)])
    have tc: "tcbs s1 = tcbs s" and pp: "pd_prio s1 = pd_prio s" using pend_frame_tcbs [OF s1(3)] pend_frame_prio [OF s1(3)] by simp_all
    from Suc.prems(2) obtain t where t: "tcbs s x = Some t" by blast
    have dys: "distinct (P ?ob)" "p \<noteq> NULL" using linkedD(1,2) [OF oo(2)] e(3) by (blast, metis)
    have len: "length ?ys < 65535" using oo(1) e(3) unsigned_less [where 'a = nat, of "PL_NbrEntries (OBJ_PendList b)"] by (simp add: length_remove1)
    have "PD_PendObjPtr e1 = ?ob" "tcbs s1 (PD_TCBPtr e1) = Some t" using pd_core_eqD [OF e1(2)] e(2) t tc by simp_all
    from OS_PendListInsertPrio_links [OF s1(2) b1 _ e1(1) this] len dys obtain s2 where
      s2: "OS_PendListInsertPrio ?ob p s1 = Some s2" "pend_links s2 (P(?ob := prio_insert (pd_prio s) p ?ys))" "pend_frame s1 s2"
      unfolding pp by auto
    let ?P = "P(?ob := prio_insert (pd_prio s) p ?ys)"
    have le: "pd_prio s y \<le> pd_prio s p" if "y \<in> ?J" for y
    proof -
      from Suc.prems(3) [of y] that obtain g where "pds s y = Some g" "PD_TCBPtr g = x" by auto
      then show ?thesis using pd_prio_owner e(1,2) t by (metis order_refl)
    qed
    have ys: "filter (\<lambda>d. d \<notin> {p..<p + Suc n}) (P ?ob) = filter (\<lambda>d. d \<notin> ?J) ?ys"
      unfolding J distinct_remove1_removeAll [OF dys(1)] removeAll_filter_not_eq filter_filter by (rule filter_cong) auto
    have f2: "filter (\<lambda>d. d \<notin> ?J) (prio_insert (pd_prio s) p ?ys) = prio_insert (pd_prio s) p (filter (\<lambda>d. d \<notin> ?J) ?ys)"
      by (rule filter_prio_insert) (use le in auto)
    have "sorted (map (pd_prio s) (filter (\<lambda>d. d \<notin> ?J) (?P q)))" for q
      using rest [of q] Suc.prems(4) [of q] ys f2 by (cases "q = ?ob") (auto intro: sorted_prio_insert)
    moreover have "set (?P q) = set (P q)" for q using e(3) dys(1) by auto
    moreover have "filter (\<lambda>d. d \<notin> {p..<p + Suc n}) (prio_insert (pd_prio s) p ?ys) = filter (\<lambda>d. d \<notin> {p..<p + Suc n}) (P ?ob)"
    proof -
      have "filter (\<lambda>d. d \<notin> {p..<p + Suc n}) ?ys = filter (\<lambda>d. d \<notin> {p..<p + Suc n}) (P ?ob)"
        unfolding ys J distinct_remove1_removeAll [OF dys(1)] removeAll_filter_not_eq filter_filter by (rule filter_cong) auto
      then show ?thesis by (subst filter_prio_insert_out) simp_all
    qed
    then have "filter (\<lambda>d. d \<notin> {p..<p + Suc n}) (?P q) = filter (\<lambda>d. d \<notin> {p..<p + Suc n}) (P q)" for q by simp
    ultimately show ?thesis using True s1(1) s2 pend_frame_trans [OF s1(3) s2(3)] by (intro exI [of _ s2] exI [of _ ?P]) auto
  qed
  then obtain s1 P1 where s1: "(if 1 < PL_NbrEntries (OBJ_PendList b) then OS_PendListRemove1 ?ob p s \<bind> OS_PendListInsertPrio ?ob p else Some s) = Some s1"
    "pend_links s1 P1" "pend_frame s s1" "\<forall>ob. sorted (map (pd_prio s) (filter (\<lambda>d. d \<notin> ?J) (P1 ob)))"
    "\<forall>ob. set (P1 ob) = set (P ob)" "\<forall>ob. filter (\<lambda>d. d \<notin> {p..<p + Suc n}) (P1 ob) = filter (\<lambda>d. d \<notin> {p..<p + Suc n}) (P ob)" by blast
  have e': "\<exists>e. pds s1 d = Some e \<and> PD_TCBPtr e = x \<and> d \<in> set (P1 (PD_PendObjPtr e))" if d: "d \<in> ?J" for d
  proof -
    from Suc.prems(3) [of d] d obtain g where g: "pds s d = Some g" "PD_TCBPtr g = x" "d \<in> set (P (PD_PendObjPtr g))" by auto
    obtain g1 where g1: "pds s1 d = Some g1" "pd_core g1 = pd_core g" by (rule pend_frame_pd [OF s1(3) g(1)])
    with g s1(5) show ?thesis using pd_core_eqD [OF g1(2)] by auto
  qed
  have x1: "x \<in> dom (tcbs s1)" using Suc.prems(2) pend_frame_tcbs [OF s1(3)] by simp
  have srt: "\<And>ob. sorted (map (pd_prio s1) (filter (\<lambda>d. d \<notin> ?J) (P1 ob)))" using s1(4) unfolding pend_frame_prio [OF s1(3)] by blast
  from Suc.IH [OF s1(2) x1 e' srt] obtain s' P' where s': "pend_change_loop n (p + 1) s1 = Some s'" "pend_rel s' P'" "pend_frame s1 s'"
    "\<forall>ob. set (P' ob) = set (P1 ob)" "\<forall>ob. filter (\<lambda>d. d \<notin> ?J) (P' ob) = filter (\<lambda>d. d \<notin> ?J) (P1 ob)" by blast
  have "pend_change_loop (Suc n) p s = Some s'" using e(1) b s1(1) s'(1) by (auto split: if_splits bind_splits)
  moreover have "filter (\<lambda>d. d \<notin> {p..<p + Suc n}) (P' q) = filter (\<lambda>d. d \<notin> {p..<p + Suc n}) (P q)" for q
  proof -
    have split: "filter (\<lambda>d. d \<notin> {p..<p + Suc n}) zs = filter (\<lambda>d. d \<noteq> p) (filter (\<lambda>d. d \<notin> ?J) zs)" for zs
      unfolding J filter_filter by (rule filter_cong) auto
    show ?thesis using s'(5) s1(6) by (metis split)
  qed
  moreover have "set (P' q) = set (P q)" for q using s'(4) s1(5) by simp
  ultimately show ?case using s'(2) pend_frame_trans [OF s1(3) s'(3)] by blast
qed

text \<open>\<^verbatim>\<open>OS_PendListChangePrio\<close> keeps every list ordered, and the other entries in their order.\<close>

lemma OS_PendListChangePrio_ok:
  assumes P: "pend_rel s P" and t: "tcbs s x = Some t"
    and e: "\<And>d. d \<in> pend_tbl t \<Longrightarrow> \<exists>e. pds s d = Some e \<and> PD_TCBPtr e = x \<and> d \<in> set (P (PD_PendObjPtr e))"
    and own: "\<And>ob d e. d \<in> set (P ob) \<Longrightarrow> pds s d = Some e \<Longrightarrow> PD_TCBPtr e = x \<Longrightarrow> d \<in> pend_tbl t"
  shows "\<exists>s' P'. OS_PendListChangePrio x prio s = Some s' \<and> pend_rel s' P' \<and>
    pend_frame (s\<lparr>tcbs := (tcbs s)(x \<mapsto> t\<lparr>TCB_Prio := prio\<rparr>)\<rparr>) s' \<and>
    (\<forall>ob. set (P' ob) = set (P ob) \<and> filter (\<lambda>d. d \<notin> pend_tbl t) (P' ob) = filter (\<lambda>d. d \<notin> pend_tbl t) (P ob))"
proof -
  let ?s = "s\<lparr>tcbs := (tcbs s)(x \<mapsto> t\<lparr>TCB_Prio := prio\<rparr>)\<rparr>"
  let ?p = "TCB_PendDataTblPtr t" let ?n = "unat (TCB_PendDataTblEntries t)"
  from P have L: "pend_links s P" and S: "pend_sorted s P" by (simp_all add: pend_rel_def)
  have "dom (tcbs ?s) = dom (tcbs s)" using t by auto
  then have "pend_ok ?s ob xs = pend_ok s ob xs" for ob xs by (simp add: pend_ok_def)
  then have L': "pend_links ?s P" using L by (simp add: pend_links_def)
  have same: "pd_prio ?s d = pd_prio s d" if d: "d \<in> set (P ob)" "d \<notin> pend_tbl t" for d ob
    using own [OF d(1)] d(2) by (auto simp: pd_prio_def fld_def split: option.split)
  have srt: "sorted (map (pd_prio ?s) (filter (\<lambda>d. d \<notin> {?p..<?p + ?n}) (P ob)))" for ob
  proof -
    have "map (pd_prio ?s) (filter (\<lambda>d. d \<notin> pend_tbl t) (P ob)) = map (pd_prio s) (filter (\<lambda>d. d \<notin> pend_tbl t) (P ob))"
      by (rule map_cong [OF refl]) (use same in auto)
    moreover have "sorted (map (pd_prio s) (filter (\<lambda>d. d \<notin> pend_tbl t) (P ob)))"
      using S unfolding pend_sorted_def by (metis sorted_filter)
    ultimately show ?thesis by (simp only: pend_tbl_def)
  qed
  have e': "\<exists>e. pds ?s d = Some e \<and> PD_TCBPtr e = x \<and> d \<in> set (P (PD_PendObjPtr e))" if "d \<in> {?p..<?p + ?n}" for d
    using e [of d] that by (simp add: pend_tbl_def)
  have "x \<in> dom (tcbs ?s)" by simp
  from pend_change_loop_ok [OF L' this e' srt] obtain s' P' where
    s': "pend_change_loop ?n ?p ?s = Some s'" "pend_rel s' P'" "pend_frame ?s s'"
    "\<forall>ob. set (P' ob) = set (P ob) \<and> filter (\<lambda>d. d \<notin> {?p..<?p + ?n}) (P' ob) = filter (\<lambda>d. d \<notin> {?p..<?p + ?n}) (P ob)" by blast
  have "OS_PendListChangePrio x prio s = Some s'" using t s'(1) by (simp add: OS_PendListChangePrio_def)
  with s'(2-4) show ?thesis by (auto simp: pend_tbl_def)
qed

end
