(* ===== verification/OS_Tick.thy ===== *)
theory OS_Tick
  imports OS_PendList
begin

text \<open>
  \<^verbatim>\<open>src/ucosTest/Source/os_tick.c\<close>, the tick wheel: a task that waits for a point in time is in
  the list of spoke \<open>TickCtrMatch mod OSCfg_TickWheelSize\<close>, threaded through \<^verbatim>\<open>TickNextPtr\<close> and
  \<^verbatim>\<open>TickPrevPtr\<close> and ordered by the remaining time.  The field \<^verbatim>\<open>TickSpokePtr\<close> is the address of
  a spoke, here its index.  The abstraction \<open>tick_rel s W\<close> gives each spoke the sequence of
  its tasks.
\<close>

definition OS_TickListInit :: "os \<Rightarrow> os option" where
  "OS_TickListInit s =
     for_each [0..<unat OSCfg_TickWheelSize]
       (\<lambda>i. spk_mod i (\<lambda>k. k\<lparr>SPK_FirstPtr := NULL, SPK_NbrEntries := 0, SPK_NbrEntriesMax := 0\<rparr>)) s"

definition OS_TickListResetPeak :: "os \<Rightarrow> os option" where
  "OS_TickListResetPeak s =
     for_each [0..<unat OSCfg_TickWheelSize] (\<lambda>i. spk_mod i (\<lambda>k. k\<lparr>SPK_NbrEntriesMax := 0\<rparr>)) s"

text \<open>The first part of \<^verbatim>\<open>OS_TickListInsert\<close>: the match value and the remaining time, or a
  delay of zero (\<open>None\<close> in the second component stands for the early return with
  \<^verbatim>\<open>OS_ERR_TIME_ZERO_DLY\<close>).\<close>

definition tick_set :: "ptr \<Rightarrow> OS_TICK \<Rightarrow> OS_OPT \<Rightarrow> os \<Rightarrow> (OS_ERR \<times> os) option" where
  "tick_set p_tcb time opt s =
     (if opt = OS_OPT_TIME_MATCH then
        let tick_delta = time - OSTickCtr s - 1 in
        if tick_delta > OS_TICK_TH_RDY then do {
          s \<leftarrow> tcb_mod p_tcb (\<lambda>t. t\<lparr>TCB_TickCtrMatch := 0, TCB_TickRemain := 0, TCB_TickSpokePtr := None\<rparr>) s;
          Some (OS_ERR_TIME_ZERO_DLY, s)
        } else do {
          s \<leftarrow> tcb_mod p_tcb (\<lambda>t. t\<lparr>TCB_TickCtrMatch := time, TCB_TickRemain := tick_delta + 1\<rparr>) s;
          Some (OS_ERR_NONE, s)
        }
      else if time > 0 then
        if opt = OS_OPT_TIME_PERIODIC then do {
          tcb \<leftarrow> tcbs s p_tcb;
          let tick_next = TCB_TickCtrPrev tcb + time;
          let tick_delta = tick_next - OSTickCtr s - 1;
          let match = (if tick_delta < time then tick_next else OSTickCtr s + time);
          s \<leftarrow> tcb_mod p_tcb (\<lambda>t. t\<lparr>TCB_TickCtrMatch := match, TCB_TickRemain := match - OSTickCtr s,
                 TCB_TickCtrPrev := match\<rparr>) s;
          Some (OS_ERR_NONE, s)
        } else do {
          s \<leftarrow> tcb_mod p_tcb (\<lambda>t. t\<lparr>TCB_TickCtrMatch := OSTickCtr s + time, TCB_TickRemain := time\<rparr>) s;
          Some (OS_ERR_NONE, s)
        }
      else do {
        s \<leftarrow> tcb_mod p_tcb (\<lambda>t. t\<lparr>TCB_TickCtrMatch := 0, TCB_TickRemain := 0, TCB_TickSpokePtr := None\<rparr>) s;
        Some (OS_ERR_TIME_ZERO_DLY, s)
      })"

text \<open>The search loop: it refreshes \<^verbatim>\<open>TickRemain\<close> of every task it passes and ends (the C code
  sets \<open>p_tcb1\<close> to null) once the new task is linked in.\<close>

partial_function (option) tick_insert_loop :: "ptr \<Rightarrow> nat \<Rightarrow> ptr \<Rightarrow> os \<Rightarrow> os option" where
  "tick_insert_loop p_tcb spoke p_tcb1 s =
     (if p_tcb1 = NULL then Some s
      else do {
        tcb1 \<leftarrow> tcbs s p_tcb1;
        s \<leftarrow> tcb_mod p_tcb1 (\<lambda>t. t\<lparr>TCB_TickRemain := TCB_TickCtrMatch tcb1 - OSTickCtr s\<rparr>) s;
        tcb \<leftarrow> tcbs s p_tcb;
        tcb1 \<leftarrow> tcbs s p_tcb1;
        if TCB_TickRemain tcb > TCB_TickRemain tcb1 then
          if TCB_TickNextPtr tcb1 \<noteq> NULL then tick_insert_loop p_tcb spoke (TCB_TickNextPtr tcb1) s
          else do {
            s \<leftarrow> tcb_mod p_tcb (\<lambda>t. t\<lparr>TCB_TickNextPtr := NULL, TCB_TickPrevPtr := p_tcb1\<rparr>) s;
            tcb_mod p_tcb1 (\<lambda>t. t\<lparr>TCB_TickNextPtr := p_tcb\<rparr>) s
          }
        else if TCB_TickPrevPtr tcb1 = NULL then do {
          s \<leftarrow> tcb_mod p_tcb (\<lambda>t. t\<lparr>TCB_TickPrevPtr := NULL, TCB_TickNextPtr := p_tcb1\<rparr>) s;
          s \<leftarrow> tcb_mod p_tcb1 (\<lambda>t. t\<lparr>TCB_TickPrevPtr := p_tcb\<rparr>) s;
          spk_mod spoke (\<lambda>k. k\<lparr>SPK_FirstPtr := p_tcb\<rparr>) s
        } else do {
          let p_tcb0 = TCB_TickPrevPtr tcb1;
          s \<leftarrow> tcb_mod p_tcb (\<lambda>t. t\<lparr>TCB_TickPrevPtr := p_tcb0, TCB_TickNextPtr := p_tcb1\<rparr>) s;
          s \<leftarrow> tcb_mod p_tcb0 (\<lambda>t. t\<lparr>TCB_TickNextPtr := p_tcb\<rparr>) s;
          tcb_mod p_tcb1 (\<lambda>t. t\<lparr>TCB_TickPrevPtr := p_tcb\<rparr>) s
        }
      })"

text \<open>Linking the task into the list of its spoke.\<close>

definition tick_link :: "ptr \<Rightarrow> nat \<Rightarrow> OS_TICK_SPOKE \<Rightarrow> os \<Rightarrow> os option" where
  "tick_link p_tcb spoke p_spoke s =
     (if SPK_NbrEntries p_spoke = 0 then do {
        s \<leftarrow> tcb_mod p_tcb (\<lambda>t. t\<lparr>TCB_TickNextPtr := NULL, TCB_TickPrevPtr := NULL\<rparr>) s;
        spk_mod spoke (\<lambda>k. k\<lparr>SPK_FirstPtr := p_tcb, SPK_NbrEntries := 1\<rparr>) s
      } else do {
        s \<leftarrow> tick_insert_loop p_tcb spoke (SPK_FirstPtr p_spoke) s;
        spk_mod spoke (\<lambda>k. k\<lparr>SPK_NbrEntries := SPK_NbrEntries k + 1\<rparr>) s
      })"

definition OS_TickListInsert :: "ptr \<Rightarrow> OS_TICK \<Rightarrow> OS_OPT \<Rightarrow> os \<Rightarrow> (OS_ERR \<times> os) option" where
  "OS_TickListInsert p_tcb time opt s = do {
     (err, s) \<leftarrow> tick_set p_tcb time opt s;
     if err \<noteq> OS_ERR_NONE then Some (err, s)
     else do {
       tcb \<leftarrow> tcbs s p_tcb;
       let spoke = unat (TCB_TickCtrMatch tcb mod OSCfg_TickWheelSize);
       p_spoke \<leftarrow> OSCfg_TickWheel s spoke;
       s \<leftarrow> tick_link p_tcb spoke p_spoke s;
       s \<leftarrow> spk_mod spoke (\<lambda>k. if SPK_NbrEntriesMax k < SPK_NbrEntries k
               then k\<lparr>SPK_NbrEntriesMax := SPK_NbrEntries k\<rparr> else k) s;
       s \<leftarrow> tcb_mod p_tcb (\<lambda>t. t\<lparr>TCB_TickSpokePtr := Some spoke\<rparr>) s;
       Some (OS_ERR_NONE, s)
     }
   }"

definition OS_TickListRemove :: "ptr \<Rightarrow> os \<Rightarrow> os option" where
  "OS_TickListRemove p_tcb s = do {
     tcb \<leftarrow> tcbs s p_tcb;
     case TCB_TickSpokePtr tcb of
       None \<Rightarrow> Some s
     | Some spoke \<Rightarrow> do {
         s \<leftarrow> tcb_mod p_tcb (\<lambda>t. t\<lparr>TCB_TickRemain := 0\<rparr>) s;
         p_spoke \<leftarrow> OSCfg_TickWheel s spoke;
         s \<leftarrow> (if SPK_FirstPtr p_spoke = p_tcb then do {
                 let p_tcb1 = TCB_TickNextPtr tcb;
                 s \<leftarrow> spk_mod spoke (\<lambda>k. k\<lparr>SPK_FirstPtr := p_tcb1\<rparr>) s;
                 if p_tcb1 \<noteq> NULL then tcb_mod p_tcb1 (\<lambda>t. t\<lparr>TCB_TickPrevPtr := NULL\<rparr>) s else Some s
               } else do {
                 let p_tcb1 = TCB_TickPrevPtr tcb;
                 let p_tcb2 = TCB_TickNextPtr tcb;
                 s \<leftarrow> tcb_mod p_tcb1 (\<lambda>t. t\<lparr>TCB_TickNextPtr := p_tcb2\<rparr>) s;
                 if p_tcb2 \<noteq> NULL then tcb_mod p_tcb2 (\<lambda>t. t\<lparr>TCB_TickPrevPtr := p_tcb1\<rparr>) s else Some s
               });
         s \<leftarrow> tcb_mod p_tcb (\<lambda>t. t\<lparr>TCB_TickNextPtr := NULL, TCB_TickPrevPtr := NULL,
                TCB_TickSpokePtr := None, TCB_TickCtrMatch := 0\<rparr>) s;
         spk_mod spoke (\<lambda>k. k\<lparr>SPK_NbrEntries := SPK_NbrEntries k - 1\<rparr>) s
       }
   }"

subsection \<open>The abstraction: a sequence of tasks per spoke\<close>

definition tick_remain :: "os \<Rightarrow> ptr \<Rightarrow> OS_TICK" where
  "tick_remain s x = fld TCB_TickCtrMatch (tcbs s) x - OSTickCtr s"

definition on_spoke :: "os \<Rightarrow> nat \<Rightarrow> ptr \<Rightarrow> bool" where
  "on_spoke s i x \<longleftrightarrow> (\<exists>t. tcbs s x = Some t \<and> TCB_TickSpokePtr t = Some i)"

definition tick_ok :: "os \<Rightarrow> nat \<Rightarrow> ptr list \<Rightarrow> bool" where
  "tick_ok s i xs \<longleftrightarrow>
     (\<exists>k. OSCfg_TickWheel s i = Some k \<and> unat (SPK_NbrEntries k) = length xs \<and>
          linked TCB_TickNextPtr TCB_TickPrevPtr (tcbs s) (SPK_FirstPtr k) (last0 NULL xs) xs)"

definition tick_links :: "os \<Rightarrow> (nat \<Rightarrow> ptr list) \<Rightarrow> bool" where
  "tick_links s W \<longleftrightarrow>
     (\<forall>i < unat OSCfg_TickWheelSize. tick_ok s i (W i)) \<and>
     (\<forall>i \<ge> unat OSCfg_TickWheelSize. W i = []) \<and>
     (\<forall>i x. x \<in> set (W i) \<longleftrightarrow> on_spoke s i x)"

definition tick_order :: "os \<Rightarrow> (nat \<Rightarrow> ptr list) \<Rightarrow> bool" where
  "tick_order s W \<longleftrightarrow> (\<forall>i. sorted (map (tick_remain s) (W i)) \<and>
     (\<forall>x \<in> set (W i). tick_remain s x \<noteq> 0 \<and> unat (fld TCB_TickCtrMatch (tcbs s) x mod OSCfg_TickWheelSize) = i))"

definition tick_rel :: "os \<Rightarrow> (nat \<Rightarrow> ptr list) \<Rightarrow> bool" where
  "tick_rel s W \<longleftrightarrow> tick_links s W \<and> tick_order s W"

text \<open>What the routines leave alone.\<close>

definition tick_core :: "OS_TCB \<Rightarrow> OS_TCB" where
  "tick_core t = t\<lparr>TCB_TickNextPtr := NULL, TCB_TickPrevPtr := NULL, TCB_TickRemain := 0,
     TCB_TickSpokePtr := None, TCB_TickCtrMatch := 0, TCB_TickCtrPrev := 0\<rparr>"

definition link_core :: "OS_TCB \<Rightarrow> OS_TCB" where
  "link_core t = t\<lparr>TCB_TickNextPtr := NULL, TCB_TickPrevPtr := NULL, TCB_TickRemain := 0\<rparr>"

definition os_less_tick :: "os \<Rightarrow> os" where
  "os_less_tick s = s\<lparr>tcbs := Map.empty, OSCfg_TickWheel := Map.empty\<rparr>"

definition tick_frame :: "os \<Rightarrow> os \<Rightarrow> bool" where
  "tick_frame s s' \<longleftrightarrow> os_less_tick s' = os_less_tick s \<and>
     (\<forall>x. map_option tick_core (tcbs s' x) = map_option tick_core (tcbs s x))"

lemma link_core_sel:
  "TCB_TickCtrMatch (link_core t) = TCB_TickCtrMatch t" "TCB_TickSpokePtr (link_core t) = TCB_TickSpokePtr t"
  "tick_core (link_core t) = tick_core t"
  by (simp_all add: link_core_def tick_core_def)

lemma link_core_eqD:
  assumes "link_core t' = link_core t"
  shows "TCB_TickCtrMatch t' = TCB_TickCtrMatch t" "TCB_TickSpokePtr t' = TCB_TickSpokePtr t"
    "tick_core t' = tick_core t"
  using assms by (metis link_core_sel)+

subsection \<open>Insertion\<close>

text \<open>The abstract operation: in front of the first task that waits at least as long.\<close>

definition time_insert :: "('a \<Rightarrow> 'b::linorder) \<Rightarrow> 'a \<Rightarrow> 'a list \<Rightarrow> 'a list" where
  "time_insert f x xs = takeWhile (\<lambda>y. f y < f x) xs @ x # dropWhile (\<lambda>y. f y < f x) xs"

lemma set_time_insert [simp]: "set (time_insert f x xs) = insert x (set xs)"
  unfolding time_insert_def by (metis Un_insert_right list.simps(15) set_append takeWhile_dropWhile_id)

lemma length_time_insert [simp]: "length (time_insert f x xs) = Suc (length xs)"
  unfolding time_insert_def by (metis add_Suc_right length_Cons length_append takeWhile_dropWhile_id)

lemma sorted_time_insert: "sorted (map f xs) \<Longrightarrow> sorted (map f (time_insert f x xs))"
proof (induction xs)
  case (Cons y ys)
  then show ?case by (fastforce simp: time_insert_def dest: set_takeWhileD set_dropWhileD)
qed (simp add: time_insert_def)

text \<open>One iteration at the task \<open>y\<close>, by the way it leaves the loop body.\<close>

lemma tick_insert_step:
  assumes u: "tcbs s y = Some u" "y \<noteq> NULL" and t: "tcbs s x = Some t" "y \<noteq> x"
    and s1: "s1 = s\<lparr>tcbs := (tcbs s)(y \<mapsto> u\<lparr>TCB_TickRemain := tick_remain s y\<rparr>)\<rparr>"
  shows "tick_remain s y < TCB_TickRemain t \<Longrightarrow> TCB_TickNextPtr u \<noteq> NULL \<Longrightarrow>
      tick_insert_loop x i y s = tick_insert_loop x i (TCB_TickNextPtr u) s1"
    and "tick_remain s y < TCB_TickRemain t \<Longrightarrow> TCB_TickNextPtr u = NULL \<Longrightarrow>
      tick_insert_loop x i y s = Some (s1\<lparr>tcbs := (tcbs s1)(x \<mapsto> t\<lparr>TCB_TickNextPtr := NULL, TCB_TickPrevPtr := y\<rparr>,
        y \<mapsto> u\<lparr>TCB_TickRemain := tick_remain s y, TCB_TickNextPtr := x\<rparr>)\<rparr>)"
    and "\<not> tick_remain s y < TCB_TickRemain t \<Longrightarrow> TCB_TickPrevPtr u = NULL \<Longrightarrow> OSCfg_TickWheel s i = Some k \<Longrightarrow>
      tick_insert_loop x i y s = Some (s1\<lparr>tcbs := (tcbs s1)(x \<mapsto> t\<lparr>TCB_TickPrevPtr := NULL, TCB_TickNextPtr := y\<rparr>,
        y \<mapsto> u\<lparr>TCB_TickRemain := tick_remain s y, TCB_TickPrevPtr := x\<rparr>),
        OSCfg_TickWheel := (OSCfg_TickWheel s)(i \<mapsto> k\<lparr>SPK_FirstPtr := x\<rparr>)\<rparr>)"
    and "\<not> tick_remain s y < TCB_TickRemain t \<Longrightarrow> TCB_TickPrevPtr u = w \<Longrightarrow> w \<noteq> NULL \<Longrightarrow> w \<noteq> x \<Longrightarrow> w \<noteq> y \<Longrightarrow>
      tcbs s w = Some v \<Longrightarrow>
      tick_insert_loop x i y s = Some (s1\<lparr>tcbs := (tcbs s1)(x \<mapsto> t\<lparr>TCB_TickPrevPtr := w, TCB_TickNextPtr := y\<rparr>,
        w \<mapsto> v\<lparr>TCB_TickNextPtr := x\<rparr>, y \<mapsto> u\<lparr>TCB_TickRemain := tick_remain s y, TCB_TickPrevPtr := x\<rparr>)\<rparr>)"
proof -
  have rem: "TCB_TickCtrMatch u - OSTickCtr s = tick_remain s y" using u by (simp add: tick_remain_def fld_Some)
  show "tick_remain s y < TCB_TickRemain t \<Longrightarrow> TCB_TickNextPtr u \<noteq> NULL \<Longrightarrow>
      tick_insert_loop x i y s = tick_insert_loop x i (TCB_TickNextPtr u) s1"
    using u t rem unfolding s1 by (subst tick_insert_loop.simps) simp
  show "tick_remain s y < TCB_TickRemain t \<Longrightarrow> TCB_TickNextPtr u = NULL \<Longrightarrow>
      tick_insert_loop x i y s = Some (s1\<lparr>tcbs := (tcbs s1)(x \<mapsto> t\<lparr>TCB_TickNextPtr := NULL, TCB_TickPrevPtr := y\<rparr>,
        y \<mapsto> u\<lparr>TCB_TickRemain := tick_remain s y, TCB_TickNextPtr := x\<rparr>)\<rparr>)"
    using u t rem unfolding s1 by (subst tick_insert_loop.simps) simp
  show "\<not> tick_remain s y < TCB_TickRemain t \<Longrightarrow> TCB_TickPrevPtr u = NULL \<Longrightarrow> OSCfg_TickWheel s i = Some k \<Longrightarrow>
      tick_insert_loop x i y s = Some (s1\<lparr>tcbs := (tcbs s1)(x \<mapsto> t\<lparr>TCB_TickPrevPtr := NULL, TCB_TickNextPtr := y\<rparr>,
        y \<mapsto> u\<lparr>TCB_TickRemain := tick_remain s y, TCB_TickPrevPtr := x\<rparr>),
        OSCfg_TickWheel := (OSCfg_TickWheel s)(i \<mapsto> k\<lparr>SPK_FirstPtr := x\<rparr>)\<rparr>)"
    using u t rem unfolding s1 by (subst tick_insert_loop.simps) simp
  show "\<not> tick_remain s y < TCB_TickRemain t \<Longrightarrow> TCB_TickPrevPtr u = w \<Longrightarrow> w \<noteq> NULL \<Longrightarrow> w \<noteq> x \<Longrightarrow> w \<noteq> y \<Longrightarrow>
      tcbs s w = Some v \<Longrightarrow>
      tick_insert_loop x i y s = Some (s1\<lparr>tcbs := (tcbs s1)(x \<mapsto> t\<lparr>TCB_TickPrevPtr := w, TCB_TickNextPtr := y\<rparr>,
        w \<mapsto> v\<lparr>TCB_TickNextPtr := x\<rparr>, y \<mapsto> u\<lparr>TCB_TickRemain := tick_remain s y, TCB_TickPrevPtr := x\<rparr>)\<rparr>)"
    using u t rem unfolding s1 by (subst tick_insert_loop.simps) (simp only: Let_def, simp)
qed

lemma tick_insert_before:
  assumes lk: "linked TCB_TickNextPtr TCB_TickPrevPtr (tcbs s) (SPK_FirstPtr k) b (xs @ y # ys)"
    and k: "OSCfg_TickWheel s i = Some k" and t: "tcbs s x = Some t" "x \<notin> set (xs @ y # ys)" "x \<noteq> NULL"
    and c: "\<not> tick_remain s y < TCB_TickRemain t"
  shows "\<exists>h. tick_insert_loop x i y s =
      Some (s\<lparr>tcbs := h, OSCfg_TickWheel := (OSCfg_TickWheel s)(i \<mapsto> k\<lparr>SPK_FirstPtr := hd0 x xs\<rparr>)\<rparr>) \<and>
    linked TCB_TickNextPtr TCB_TickPrevPtr h (hd0 x xs) (last0 x (y # ys)) (xs @ x # y # ys) \<and>
    (\<forall>z. map_option link_core (h z) = map_option link_core (tcbs s z)) \<and>
    (\<forall>z. z \<notin> insert x (set (xs @ y # ys)) \<longrightarrow> h z = tcbs s z)"
proof -
  note D = linkedD [OF lk]
  from linked_node [OF lk] obtain u where u: "tcbs s y = Some u" "TCB_TickNextPtr u = hd0 NULL ys"
    "TCB_TickPrevPtr u = last0 NULL xs" "y \<noteq> NULL" by blast
  have yx: "y \<noteq> x" using t by auto
  note st = tick_insert_step [OF u(1,4) t(1) yx refl, where i = i]
  show ?thesis
  proof (cases "xs = []")
    case True
    let ?h = "(tcbs s)(x \<mapsto> t\<lparr>TCB_TickPrevPtr := NULL, TCB_TickNextPtr := y\<rparr>,
        y \<mapsto> u\<lparr>TCB_TickRemain := tick_remain s y, TCB_TickPrevPtr := x\<rparr>)"
    have "linked TCB_TickNextPtr TCB_TickPrevPtr ?h (hd0 x xs) (last0 x (y # ys)) (xs @ x # y # ys)"
      by (rule linked_insert [OF lk]) (use True t u yx in \<open>auto simp: fld_Some\<close>)
    moreover have "tick_insert_loop x i y s =
      Some (s\<lparr>tcbs := ?h, OSCfg_TickWheel := (OSCfg_TickWheel s)(i \<mapsto> k\<lparr>SPK_FirstPtr := x\<rparr>)\<rparr>)"
      using st(3) [OF c _ k] u True yx by (simp add: fun_upd_twist)
    ultimately show ?thesis using True t u by (intro exI [of _ ?h]) (auto simp: link_core_def)
  next
    case False
    let ?w = "last0 NULL xs"
    have w: "?w \<in> set xs" using False by (rule last0_in)
    then obtain v where v: "tcbs s ?w = Some v" using D(3) by auto
    have ne: "?w \<noteq> x" "?w \<noteq> y" "0 < ?w" using w D(1) t mem_nz [OF D(2)] by auto
    let ?h = "(tcbs s)(x \<mapsto> t\<lparr>TCB_TickPrevPtr := ?w, TCB_TickNextPtr := y\<rparr>,
        ?w \<mapsto> v\<lparr>TCB_TickNextPtr := x\<rparr>, y \<mapsto> u\<lparr>TCB_TickRemain := tick_remain s y, TCB_TickPrevPtr := x\<rparr>)"
    have "linked TCB_TickNextPtr TCB_TickPrevPtr ?h (hd0 x xs) (last0 x (y # ys)) (xs @ x # y # ys)"
      by (rule linked_insert [OF lk]) (use False t u v yx ne in \<open>auto simp: fld_Some\<close>)
    moreover have "tick_insert_loop x i y s =
      Some (s\<lparr>tcbs := ?h, OSCfg_TickWheel := (OSCfg_TickWheel s)(i \<mapsto> k\<lparr>SPK_FirstPtr := hd0 x xs\<rparr>)\<rparr>)"
    proof -
      have "SPK_FirstPtr k = hd0 x xs" using D(4) False by (simp add: hd0_nonempty)
      then have "(OSCfg_TickWheel s)(i \<mapsto> k\<lparr>SPK_FirstPtr := hd0 x xs\<rparr>) = OSCfg_TickWheel s"
        using k by (intro fun_upd_idem) simp
      then show ?thesis using st(4) [OF c u(3) _ ne(1,2) v] ne(3) yx by (simp add: fun_upd_twist)
    qed
    ultimately show ?thesis using t u v w by (intro exI [of _ ?h]) (auto simp: link_core_def)
  qed
qed

lemma tick_insert_end:
  assumes lk: "linked TCB_TickNextPtr TCB_TickPrevPtr (tcbs s) (SPK_FirstPtr k) b (xs @ [y])"
    and k: "OSCfg_TickWheel s i = Some k" and t: "tcbs s x = Some t" "x \<notin> set (xs @ [y])" "x \<noteq> NULL"
    and c: "tick_remain s y < TCB_TickRemain t"
  shows "\<exists>h. tick_insert_loop x i y s =
      Some (s\<lparr>tcbs := h, OSCfg_TickWheel := (OSCfg_TickWheel s)(i \<mapsto> k\<lparr>SPK_FirstPtr := hd0 x (xs @ [y])\<rparr>)\<rparr>) \<and>
    linked TCB_TickNextPtr TCB_TickPrevPtr h (hd0 x (xs @ [y])) x ((xs @ [y]) @ [x]) \<and>
    (\<forall>z. map_option link_core (h z) = map_option link_core (tcbs s z)) \<and>
    (\<forall>z. z \<notin> insert x (set (xs @ [y])) \<longrightarrow> h z = tcbs s z)"
proof -
  note D = linkedD [OF lk]
  from linked_node [OF lk] obtain u where u: "tcbs s y = Some u" "TCB_TickNextPtr u = NULL" "y \<noteq> NULL" by auto
  have yx: "y \<noteq> x" using t by auto
  note st = tick_insert_step [OF u(1,3) t(1) yx refl, where i = i]
  let ?h = "(tcbs s)(x \<mapsto> t\<lparr>TCB_TickNextPtr := NULL, TCB_TickPrevPtr := y\<rparr>,
        y \<mapsto> u\<lparr>TCB_TickRemain := tick_remain s y, TCB_TickNextPtr := x\<rparr>)"
  have "linked TCB_TickNextPtr TCB_TickPrevPtr ?h (hd0 x (xs @ [y])) x ((xs @ [y]) @ x # [])"
    by (rule linked_insert [where a = "SPK_FirstPtr k" and b = b]) (use lk t u yx in \<open>auto simp: fld_Some\<close>)
  moreover have "tick_insert_loop x i y s =
    Some (s\<lparr>tcbs := ?h, OSCfg_TickWheel := (OSCfg_TickWheel s)(i \<mapsto> k\<lparr>SPK_FirstPtr := hd0 x (xs @ [y])\<rparr>)\<rparr>)"
    using st(2) [OF c u(2)] u yx D(4) k by (simp add: fun_upd_twist fun_upd_idem)
  ultimately show ?thesis using t u by (intro exI [of _ ?h]) (auto simp: link_core_def)
qed

lemma tick_insert_loop_ok:
  assumes "linked TCB_TickNextPtr TCB_TickPrevPtr (tcbs s) (SPK_FirstPtr k) b (xs @ ys)"
    and "OSCfg_TickWheel s i = Some k" "ys \<noteq> []" "tcbs s x = Some t" "x \<notin> set (xs @ ys)" "x \<noteq> NULL"
    and "us = takeWhile (\<lambda>y. tick_remain s y < TCB_TickRemain t) ys" "vs = dropWhile (\<lambda>y. tick_remain s y < TCB_TickRemain t) ys"
  shows "\<exists>h. tick_insert_loop x i (hd0 NULL ys) s =
      Some (s\<lparr>tcbs := h, OSCfg_TickWheel := (OSCfg_TickWheel s)(i \<mapsto> k\<lparr>SPK_FirstPtr := hd0 x (xs @ us)\<rparr>)\<rparr>) \<and>
    linked TCB_TickNextPtr TCB_TickPrevPtr h (hd0 x (xs @ us)) (last0 x vs) ((xs @ us) @ x # vs) \<and>
    (\<forall>y. map_option link_core (h y) = map_option link_core (tcbs s y)) \<and>
    (\<forall>y. y \<notin> insert x (set (xs @ ys)) \<longrightarrow> h y = tcbs s y)"
  using assms
proof (induction ys arbitrary: xs s us vs)
  case Nil
  then show ?case by simp
next
  case (Cons y ys)
  show ?case
  proof (cases "tick_remain s y < TCB_TickRemain t \<and> ys \<noteq> []")
    case False
    show ?thesis
    proof (cases "tick_remain s y < TCB_TickRemain t")
      case True
      with False Cons.prems(7,8) have "ys = []" "us = [y]" "vs = []" by auto
      with tick_insert_end [of s k b xs y i x t] Cons.prems True show ?thesis by (simp add: fun_upd_def)
    next
      case c: False
      then have "us = []" "vs = y # ys" using Cons.prems(7,8) by auto
      with tick_insert_before [of s k b xs y ys i x t] Cons.prems c show ?thesis by (simp add: fun_upd_def)
    qed
  next
    case True
    from linked_node [OF Cons.prems(1)] obtain u where u: "tcbs s y = Some u" "TCB_TickNextPtr u = hd0 NULL ys"
      "y \<noteq> NULL" by blast
    let ?s = "s\<lparr>tcbs := (tcbs s)(y \<mapsto> u\<lparr>TCB_TickRemain := tick_remain s y\<rparr>)\<rparr>"
    have yx: "y \<noteq> x" using Cons.prems(5) by auto
    have "hd0 NULL ys \<in> set (xs @ y # ys)" using True hd0_in [of ys] by auto
    then have "hd0 NULL ys \<noteq> NULL" using mem_nz [OF linkedD(2) [OF Cons.prems(1)]] by auto
    then have 1: "tick_insert_loop x i y s = tick_insert_loop x i (hd0 NULL ys) ?s"
      using tick_insert_step(1) [OF u(1,3) Cons.prems(4) yx refl] True u by simp
    have rem: "tick_remain ?s = tick_remain s" using u by (auto simp: tick_remain_def fun_eq_iff fld_def)
    have "linked TCB_TickNextPtr TCB_TickPrevPtr (tcbs ?s) (SPK_FirstPtr k) b ((xs @ [y]) @ ys)"
      using Cons.prems(1) u by (subst linked_cong) auto
    from Cons.IH [OF this _ _ _ _ Cons.prems(6) refl refl] Cons.prems(2-5) True yx
    obtain h where h: "tick_insert_loop x i (hd0 NULL ys) ?s =
        Some (?s\<lparr>tcbs := h, OSCfg_TickWheel := (OSCfg_TickWheel s)(i \<mapsto> k\<lparr>SPK_FirstPtr := hd0 x (xs @ us)\<rparr>)\<rparr>)"
      "linked TCB_TickNextPtr TCB_TickPrevPtr h (hd0 x (xs @ us)) (last0 x vs) ((xs @ us) @ x # vs)"
      "\<forall>z. map_option link_core (h z) = map_option link_core (tcbs ?s z)"
      "\<forall>z. z \<notin> insert x (set ((xs @ [y]) @ ys)) \<longrightarrow> h z = tcbs ?s z"
      unfolding rem Cons.prems(7,8) by (auto simp: fun_upd_def)
    have "map_option link_core (tcbs ?s z) = map_option link_core (tcbs s z)" for z
      using u by (auto simp: link_core_def)
    with h 1 show ?thesis by (intro exI [of _ h]) (auto simp: fun_upd_def)
  qed
qed

subsection \<open>The relation under updates\<close>

lemma tick_links_disjoint:
  "tick_links s W \<Longrightarrow> y \<in> set (W i) \<Longrightarrow> y \<in> set (W j) \<Longrightarrow> i = j"
  by (auto simp: tick_links_def on_spoke_def)

lemma tick_links_obtain:
  assumes "tick_links s W" "i < unat OSCfg_TickWheelSize"
  obtains k where "OSCfg_TickWheel s i = Some k" "unat (SPK_NbrEntries k) = length (W i)"
    "linked TCB_TickNextPtr TCB_TickPrevPtr (tcbs s) (SPK_FirstPtr k) (last0 NULL (W i)) (W i)"
  using assms unfolding tick_links_def tick_ok_def by blast

lemma tick_links_upd:
  assumes W: "tick_links s W" and i: "i < unat OSCfg_TickWheelSize"
    and s': "s' = s\<lparr>tcbs := h, OSCfg_TickWheel := (OSCfg_TickWheel s)(i \<mapsto> k)\<rparr>"
    and k: "unat (SPK_NbrEntries k) = length xs"
      "linked TCB_TickNextPtr TCB_TickPrevPtr h (SPK_FirstPtr k) (last0 NULL xs) xs"
    and chg: "\<And>y. y \<notin> insert x (set (W i)) \<Longrightarrow> h y = tcbs s y"
    and x: "\<And>j. j \<noteq> i \<Longrightarrow> x \<notin> set (W j)"
    and sp: "\<And>j y. on_spoke s' j y \<longleftrightarrow> y \<in> set ((W(i := xs)) j)"
  shows "tick_links s' (W(i := xs))"
proof -
  have "tick_ok s' j (W j)" if j: "j < unat OSCfg_TickWheelSize" "j \<noteq> i" for j
  proof -
    from W j(1) obtain k' where k': "OSCfg_TickWheel s j = Some k'" "unat (SPK_NbrEntries k') = length (W j)"
      "linked TCB_TickNextPtr TCB_TickPrevPtr (tcbs s) (SPK_FirstPtr k') (last0 NULL (W j)) (W j)"
      by (rule tick_links_obtain)
    have "h y = tcbs s y" if "y \<in> set (W j)" for y
    proof (rule chg)
      show "y \<notin> insert x (set (W i))" using that x [OF j(2)] tick_links_disjoint [OF W that] j(2) by (metis insertE)
    qed
    then have "linked TCB_TickNextPtr TCB_TickPrevPtr h a b (W j) = linked TCB_TickNextPtr TCB_TickPrevPtr (tcbs s) a b (W j)"
      for a b by (intro linked_cong) simp_all
    with k' s' j(2) show ?thesis by (simp add: tick_ok_def)
  qed
  moreover have "tick_ok s' i xs" using k s' by (simp add: tick_ok_def)
  ultimately have "\<forall>j < unat OSCfg_TickWheelSize. tick_ok s' j ((W(i := xs)) j)" by simp
  moreover have "\<forall>j \<ge> unat OSCfg_TickWheelSize. (W(i := xs)) j = []" using W i by (simp add: tick_links_def)
  ultimately show ?thesis using sp unfolding tick_links_def by blast
qed

text \<open>The relation depends on the tick fields and the counter only.\<close>

definition tick_view :: "OS_TCB \<Rightarrow> ptr \<times> ptr \<times> nat option \<times> OS_TICK" where
  "tick_view t = (TCB_TickNextPtr t, TCB_TickPrevPtr t, TCB_TickSpokePtr t, TCB_TickCtrMatch t)"

lemma tick_rel_cong:
  assumes t: "\<And>x. map_option tick_view (tcbs s' x) = map_option tick_view (tcbs s x)"
    and w: "OSCfg_TickWheel s' = OSCfg_TickWheel s" "OSTickCtr s' = OSTickCtr s"
  shows "tick_rel s' W = tick_rel s W"
proof -
  have v: "map_option TCB_TickNextPtr (tcbs s' x) = map_option TCB_TickNextPtr (tcbs s x)"
    "map_option TCB_TickPrevPtr (tcbs s' x) = map_option TCB_TickPrevPtr (tcbs s x)"
    "map_option TCB_TickSpokePtr (tcbs s' x) = map_option TCB_TickSpokePtr (tcbs s x)"
    "map_option TCB_TickCtrMatch (tcbs s' x) = map_option TCB_TickCtrMatch (tcbs s x)" for x
    using t [of x] by (cases "tcbs s x"; cases "tcbs s' x"; simp add: tick_view_def)+
  have lk: "linked TCB_TickNextPtr TCB_TickPrevPtr (tcbs s') a b xs = linked TCB_TickNextPtr TCB_TickPrevPtr (tcbs s) a b xs"
    for a b xs by (rule linked_cong) (simp_all add: v)
  have sp: "on_spoke s' i x = on_spoke s i x" for i x
    using v(3) [of x] by (cases "tcbs s x"; cases "tcbs s' x"; simp add: on_spoke_def)
  have m: "fld TCB_TickCtrMatch (tcbs s') x = fld TCB_TickCtrMatch (tcbs s) x" for x
    using v(4) [of x] by (cases "tcbs s x"; cases "tcbs s' x"; simp add: fld_def)
  then have "tick_remain s' = tick_remain s" by (simp add: tick_remain_def w fun_eq_iff)
  then show ?thesis by (simp add: tick_rel_def tick_links_def tick_order_def tick_ok_def lk sp m w)
qed

text \<open>The match value that \<^verbatim>\<open>OS_TickListInsert\<close> computes, and when it refuses a delay of zero.\<close>

definition tick_match :: "OS_TCB \<Rightarrow> OS_TICK \<Rightarrow> OS_OPT \<Rightarrow> OS_TICK \<Rightarrow> OS_TICK option" where
  "tick_match t time opt now =
     (if opt = OS_OPT_TIME_MATCH then if time - now - 1 > OS_TICK_TH_RDY then None else Some time
      else if time = 0 then None
      else if opt = OS_OPT_TIME_PERIODIC \<and> TCB_TickCtrPrev t + time - now - 1 < time then Some (TCB_TickCtrPrev t + time)
      else Some (now + time))"

lemma minus1_wrap: "(w :: 'a::len word) \<noteq> 0 \<Longrightarrow> unat (w - 1) = unat w - 1"
  by (rule unat_minus_one)

lemma tick_match_neq:
  assumes "tick_match t time opt now = Some m"
  shows "m - now \<noteq> 0"
proof
  assume e: "m - now = 0"
  have "(0::32 word) - 1 > OS_TICK_TH_RDY" by simp
  moreover have "\<not> (0::32 word) - 1 < time" by (simp add: word_order.extremum_strict not_less)
  ultimately show False using assms e
    by (auto simp: tick_match_def split: if_splits)
qed

definition tick_start :: "OS_OPT \<Rightarrow> OS_TICK \<Rightarrow> OS_TICK \<Rightarrow> OS_TCB \<Rightarrow> OS_TCB" where
  "tick_start opt m now t = t\<lparr>TCB_TickCtrMatch := m, TCB_TickRemain := m - now,
     TCB_TickCtrPrev := (if opt = OS_OPT_TIME_PERIODIC then m else TCB_TickCtrPrev t)\<rparr>"

lemma tick_set_ok:
  assumes "tcbs s x = Some t"
  shows "tick_match t time opt (OSTickCtr s) = None \<Longrightarrow> tick_set x time opt s =
      Some (OS_ERR_TIME_ZERO_DLY, s\<lparr>tcbs := (tcbs s)(x \<mapsto> t\<lparr>TCB_TickCtrMatch := 0, TCB_TickRemain := 0, TCB_TickSpokePtr := None\<rparr>)\<rparr>)"
    and "tick_match t time opt (OSTickCtr s) = Some m \<Longrightarrow> tick_set x time opt s =
      Some (OS_ERR_NONE, s\<lparr>tcbs := (tcbs s)(x \<mapsto> tick_start opt m (OSTickCtr s) t)\<rparr>)"
  using assms by (auto simp: tick_match_def tick_set_def tick_start_def Let_def word_neq_0_conv split: if_splits)

lemma tick_start_sel:
  "TCB_TickNextPtr (tick_start opt m now t) = TCB_TickNextPtr t"
  "TCB_TickPrevPtr (tick_start opt m now t) = TCB_TickPrevPtr t"
  "TCB_TickSpokePtr (tick_start opt m now t) = TCB_TickSpokePtr t"
  "TCB_TickCtrMatch (tick_start opt m now t) = m" "TCB_TickRemain (tick_start opt m now t) = m - now"
  "tick_core (tick_start opt m now t) = tick_core t"
  by (simp_all add: tick_start_def tick_core_def)

lemma mod_wheel: "unat ((m :: 32 word) mod OSCfg_TickWheelSize) < unat (OSCfg_TickWheelSize :: 32 word)"
  by (simp add: unat_mod)

lemma tick_link_ok:
  assumes k: "OSCfg_TickWheel s i = Some k" "unat (SPK_NbrEntries k) = length ys" "length ys < 65535"
    and lk: "linked TCB_TickNextPtr TCB_TickPrevPtr (tcbs s) (SPK_FirstPtr k) b ys"
    and t: "tcbs s x = Some t" "TCB_TickRemain t = tick_remain s x" "x \<notin> set ys" "x \<noteq> NULL"
  shows "\<exists>h k'. tick_link x i k s = Some (s\<lparr>tcbs := h, OSCfg_TickWheel := (OSCfg_TickWheel s)(i \<mapsto> k')\<rparr>) \<and>
    unat (SPK_NbrEntries k') = Suc (length ys) \<and>
    linked TCB_TickNextPtr TCB_TickPrevPtr h (SPK_FirstPtr k') (last0 NULL (time_insert (tick_remain s) x ys)) (time_insert (tick_remain s) x ys) \<and>
    (\<forall>y. map_option link_core (h y) = map_option link_core (tcbs s y)) \<and>
    (\<forall>y. y \<notin> insert x (set ys) \<longrightarrow> h y = tcbs s y)"
proof (cases "ys = []")
  case True
  then have "SPK_NbrEntries k = 0" using k(2) by (simp add: unat_eq_0)
  let ?h = "(tcbs s)(x \<mapsto> t\<lparr>TCB_TickNextPtr := NULL, TCB_TickPrevPtr := NULL\<rparr>)"
  let ?k = "k\<lparr>SPK_FirstPtr := x, SPK_NbrEntries := 1\<rparr>"
  have "tick_link x i k s = Some (s\<lparr>tcbs := ?h, OSCfg_TickWheel := (OSCfg_TickWheel s)(i \<mapsto> ?k)\<rparr>)"
    using \<open>SPK_NbrEntries k = 0\<close> k t by (simp add: tick_link_def)
  with True t show ?thesis
    by (intro exI [of _ ?h] exI [of _ ?k]) (auto simp: time_insert_def linked_def link_core_def)
next
  case False
  then have nz: "SPK_NbrEntries k \<noteq> 0" using k(2) by auto
  have lk': "linked TCB_TickNextPtr TCB_TickPrevPtr (tcbs s) (SPK_FirstPtr k) b ([] @ ys)" using lk by simp
  have hd: "SPK_FirstPtr k = hd0 NULL ys" using linkedD(4) [OF lk] .
  from tick_insert_loop_ok [OF lk' k(1) False t(1) _ t(4) refl refl] t(3)
  obtain h where h: "tick_insert_loop x i (hd0 NULL ys) s = Some (s\<lparr>tcbs := h, OSCfg_TickWheel := (OSCfg_TickWheel s)
      (i \<mapsto> k\<lparr>SPK_FirstPtr := hd0 x (takeWhile (\<lambda>y. tick_remain s y < TCB_TickRemain t) ys)\<rparr>)\<rparr>)"
    "linked TCB_TickNextPtr TCB_TickPrevPtr h (hd0 x (takeWhile (\<lambda>y. tick_remain s y < TCB_TickRemain t) ys))
      (last0 x (dropWhile (\<lambda>y. tick_remain s y < TCB_TickRemain t) ys)) (time_insert (tick_remain s) x ys)"
    "\<forall>y. map_option link_core (h y) = map_option link_core (tcbs s y)"
    "\<forall>y. y \<notin> insert x (set ys) \<longrightarrow> h y = tcbs s y"
    by (auto simp: time_insert_def t(2) fun_upd_def)
  note E = linkedD(4,5) [OF h(2)]
  let ?k = "k\<lparr>SPK_FirstPtr := hd0 x (takeWhile (\<lambda>y. tick_remain s y < TCB_TickRemain t) ys), SPK_NbrEntries := SPK_NbrEntries k + 1\<rparr>"
  have "tick_link x i k s = Some (s\<lparr>tcbs := h, OSCfg_TickWheel := (OSCfg_TickWheel s)(i \<mapsto> ?k)\<rparr>)"
    using nz h(1) hd by (simp add: tick_link_def)
  moreover have "unat (SPK_NbrEntries ?k) = Suc (length ys)" using k by (simp add: unat_inc)
  ultimately show ?thesis using h(2-4) E by (intro exI [of _ h] exI [of _ ?k]) simp
qed

text \<open>Of the other tasks, insertion and removal change links and the stale \<^verbatim>\<open>TickRemain\<close> only.\<close>

definition match_frame :: "ptr \<Rightarrow> os \<Rightarrow> os \<Rightarrow> bool" where
  "match_frame x s s' \<longleftrightarrow> (\<forall>y. y \<noteq> x \<longrightarrow> map_option link_core (tcbs s' y) = map_option link_core (tcbs s y))"

lemma match_frame_fld:
  assumes "match_frame x s s'" "y \<noteq> x"
  shows "fld TCB_TickCtrMatch (tcbs s') y = fld TCB_TickCtrMatch (tcbs s) y" "on_spoke s' i y = on_spoke s i y"
  using assms(1) [unfolded match_frame_def, rule_format, OF assms(2)]
  by (cases "tcbs s y"; cases "tcbs s' y"; auto simp: fld_def on_spoke_def dest: link_core_eqD)+

lemma tick_order_insert:
  assumes W: "tick_order s W" and i: "unat (fld TCB_TickCtrMatch (tcbs s') x mod OSCfg_TickWheelSize) = i"
    and m: "match_frame x s s'" and x: "\<And>j. x \<notin> set (W j)" "tick_remain s' x \<noteq> 0" and c: "OSTickCtr s' = OSTickCtr s"
  shows "tick_order s' (W(i := time_insert (tick_remain s') x (W i)))"
proof -
  have eq: "fld TCB_TickCtrMatch (tcbs s') y = fld TCB_TickCtrMatch (tcbs s) y" if "y \<in> set (W j)" for y j
    using match_frame_fld(1) [OF m] that x(1) by metis
  then have rem: "tick_remain s' y = tick_remain s y" if "y \<in> set (W j)" for y j
    using that by (simp add: tick_remain_def c)
  then have "map (tick_remain s') (W j) = map (tick_remain s) (W j)" for j by simp
  then have "sorted (map (tick_remain s') (W j))" for j using W unfolding tick_order_def by metis
  then have "sorted (map (tick_remain s') ((W(i := time_insert (tick_remain s') x (W i))) j))" for j
    by (simp add: sorted_time_insert)
  then show ?thesis using W i x(2) eq rem unfolding tick_order_def by auto
qed

lemma OS_TickListInsert_ok:
  assumes W: "tick_rel s W" and t: "tcbs s x = Some t" "TCB_TickSpokePtr t = None" "x \<noteq> NULL"
    and m: "tick_match t time opt (OSTickCtr s) = Some m"
    and i: "i = unat (m mod OSCfg_TickWheelSize)" "length (W i) < 65535"
  shows "\<exists>s'. OS_TickListInsert x time opt s = Some (OS_ERR_NONE, s') \<and>
    tick_rel s' (W(i := time_insert (tick_remain s') x (W i))) \<and> tick_frame s s' \<and> match_frame x s s' \<and>
    fld TCB_TickCtrMatch (tcbs s') x = m"
proof -
  from W have L: "tick_links s W" and O: "tick_order s W" by (simp_all add: tick_rel_def)
  have xW: "x \<notin> set (W j)" for j using L t unfolding tick_links_def on_spoke_def by auto
  have i17: "i < unat (OSCfg_TickWheelSize :: 32 word)" unfolding i(1) by (rule mod_wheel)
  from L i17 obtain k where k: "OSCfg_TickWheel s i = Some k" "unat (SPK_NbrEntries k) = length (W i)"
    "linked TCB_TickNextPtr TCB_TickPrevPtr (tcbs s) (SPK_FirstPtr k) (last0 NULL (W i)) (W i)"
    by (rule tick_links_obtain)
  let ?t = "tick_start opt m (OSTickCtr s) t" let ?s = "s\<lparr>tcbs := (tcbs s)(x \<mapsto> ?t)\<rparr>"
  have lk: "linked TCB_TickNextPtr TCB_TickPrevPtr (tcbs ?s) (SPK_FirstPtr k) (last0 NULL (W i)) (W i)"
    using k(3) xW by simp
  have "TCB_TickRemain ?t = tick_remain ?s x" by (simp add: tick_remain_def tick_start_sel)
  from tick_link_ok [of ?s i k "W i", OF _ k(2) i(2) lk _ this xW t(3)] k(1)
  obtain h k' where h: "tick_link x i k ?s = Some (?s\<lparr>tcbs := h, OSCfg_TickWheel := (OSCfg_TickWheel s)(i \<mapsto> k')\<rparr>)"
    "unat (SPK_NbrEntries k') = Suc (length (W i))"
    "linked TCB_TickNextPtr TCB_TickPrevPtr h (SPK_FirstPtr k') (last0 NULL (time_insert (tick_remain ?s) x (W i))) (time_insert (tick_remain ?s) x (W i))"
    "\<forall>y. map_option link_core (h y) = map_option link_core (tcbs ?s y)"
    "\<forall>y. y \<notin> insert x (set (W i)) \<longrightarrow> h y = tcbs ?s y" by (auto simp: fun_upd_def)
  from h(4) [rule_format, of x] obtain u where u: "h x = Some u" "link_core u = link_core ?t"
    by (auto simp: map_option_Some_iff)
  note u2 = link_core_eqD [OF u(2), unfolded tick_start_sel]
  let ?k = "if SPK_NbrEntriesMax k' < SPK_NbrEntries k' then k'\<lparr>SPK_NbrEntriesMax := SPK_NbrEntries k'\<rparr> else k'"
  let ?h = "h(x \<mapsto> u\<lparr>TCB_TickSpokePtr := Some i\<rparr>)"
  let ?s' = "s\<lparr>tcbs := ?h, OSCfg_TickWheel := (OSCfg_TickWheel s)(i \<mapsto> ?k)\<rparr>"
  have 1: "OS_TickListInsert x time opt s = Some (OS_ERR_NONE, ?s')"
    using tick_set_ok(2) [OF t(1) m] h(1) k(1) u(1)
    by (simp add: OS_TickListInsert_def tick_start_sel i(1) [symmetric])
  have core: "map_option link_core (?h y) = map_option link_core (tcbs s y)" if "y \<noteq> x" for y
    using h(4) that by simp
  have mf: "match_frame x s ?s'" using core by (simp add: match_frame_def)
  have fx: "fld TCB_TickCtrMatch (tcbs ?s') x = m" using u2 by (simp add: fld_def)
  have rem: "tick_remain ?s' = tick_remain ?s"
    using match_frame_fld(1) [OF mf] fx by (auto simp: tick_remain_def fun_eq_iff tick_start_sel)
  have "tick_links ?s' (W(i := time_insert (tick_remain ?s') x (W i)))"
  proof (rule tick_links_upd [OF L i17 refl, where x = x])
    show "unat (SPK_NbrEntries ?k) = length (time_insert (tick_remain ?s') x (W i))" using h(2) by simp
    have "linked TCB_TickNextPtr TCB_TickPrevPtr ?h a b xs = linked TCB_TickNextPtr TCB_TickPrevPtr h a b xs" for a b xs
      using u(1) by (intro linked_cong) auto
    then show "linked TCB_TickNextPtr TCB_TickPrevPtr ?h (SPK_FirstPtr ?k)
      (last0 NULL (time_insert (tick_remain ?s') x (W i))) (time_insert (tick_remain ?s') x (W i))"
      using h(3) unfolding rem by simp
    show "?h y = tcbs s y" if "y \<notin> insert x (set (W i))" for y using h(5) that by simp
    show "on_spoke ?s' j y \<longleftrightarrow> y \<in> set ((W(i := time_insert (tick_remain ?s') x (W i))) j)" for j y
      using match_frame_fld(2) [OF mf, of y j] L xW by (cases "y = x") (auto simp: tick_links_def on_spoke_def)
  qed (rule xW)
  moreover have "tick_order ?s' (W(i := time_insert (tick_remain ?s') x (W i)))"
    by (rule tick_order_insert [OF O _ mf xW]) (use fx i tick_match_neq [OF m] in \<open>auto simp: tick_remain_def\<close>)
  moreover have "tick_frame s ?s'"
  proof -
    have "map_option tick_core (?h y) = map_option tick_core (tcbs s y)" for y
      using core [of y] u2(3) t(1) by (cases "y = x"; cases "tcbs s y"; cases "h y")
       (auto simp: tick_core_def dest: link_core_eqD(3))
    then show ?thesis by (simp add: tick_frame_def os_less_tick_def)
  qed
  ultimately show ?thesis using 1 mf fx by (auto simp: tick_rel_def)
qed

subsection \<open>Removal\<close>

definition tick_stop :: "OS_TCB \<Rightarrow> OS_TCB" where
  "tick_stop t = t\<lparr>TCB_TickRemain := 0, TCB_TickNextPtr := NULL, TCB_TickPrevPtr := NULL, TCB_TickSpokePtr := None, TCB_TickCtrMatch := 0\<rparr>"

lemma tick_stop_sel [simp]:
  "TCB_TickSpokePtr (tick_stop t) = None" "TCB_TickCtrMatch (tick_stop t) = 0" "tick_core (tick_stop t) = tick_core t"
  by (simp_all add: tick_stop_def tick_core_def)

lemma tick_unlink_first:
  assumes k: "OSCfg_TickWheel s i = Some k"
    and lk: "linked TCB_TickNextPtr TCB_TickPrevPtr (tcbs s) (SPK_FirstPtr k) b ([] @ x # ys)"
    and t: "tcbs s x = Some t" "TCB_TickSpokePtr t = Some i"
  shows "\<exists>h. OS_TickListRemove x s = Some (s\<lparr>tcbs := h(x \<mapsto> tick_stop t),
      OSCfg_TickWheel := (OSCfg_TickWheel s)(i \<mapsto> k\<lparr>SPK_FirstPtr := hd0 NULL ys, SPK_NbrEntries := SPK_NbrEntries k - 1\<rparr>)\<rparr>) \<and>
    linked TCB_TickNextPtr TCB_TickPrevPtr (h(x \<mapsto> tick_stop t)) (hd0 NULL ys) (last0 NULL ys) ([] @ ys) \<and>
    (\<forall>y. map_option link_core (h y) = map_option link_core (tcbs s y)) \<and> (\<forall>y. y \<notin> set (x # ys) \<longrightarrow> h y = tcbs s y)"
proof -
  note D = linkedD [OF lk]
  from linked_node [OF lk] t have nx: "TCB_TickNextPtr t = hd0 NULL ys" by auto
  have hd: "SPK_FirstPtr k = x" using D(4) by simp
  show ?thesis
  proof (cases "ys = []")
    case True
    have 1: "OS_TickListRemove x s = Some (s\<lparr>tcbs := (tcbs s)(x \<mapsto> tick_stop t),
      OSCfg_TickWheel := (OSCfg_TickWheel s)(i \<mapsto> k\<lparr>SPK_FirstPtr := NULL, SPK_NbrEntries := SPK_NbrEntries k - 1\<rparr>)\<rparr>)"
      using k t nx hd True by (simp add: OS_TickListRemove_def tick_stop_def)
    with True show ?thesis by (intro exI [of _ "tcbs s"]) simp
  next
    case False
    let ?n = "hd0 NULL ys"
    have n: "?n \<in> set ys" using False by (rule hd0_in)
    then obtain v where v: "tcbs s ?n = Some v" using D(3) by auto
    have ne: "?n \<noteq> x" "0 < ?n" using n D(1) mem_nz [OF D(2)] by auto
    let ?h = "(tcbs s)(?n \<mapsto> v\<lparr>TCB_TickPrevPtr := NULL\<rparr>)"
    have 1: "OS_TickListRemove x s = Some (s\<lparr>tcbs := ?h(x \<mapsto> tick_stop t),
      OSCfg_TickWheel := (OSCfg_TickWheel s)(i \<mapsto> k\<lparr>SPK_FirstPtr := ?n, SPK_NbrEntries := SPK_NbrEntries k - 1\<rparr>)\<rparr>)"
      using k t nx hd v ne by (simp add: OS_TickListRemove_def tick_stop_def Let_def fun_upd_twist)
    have 2: "linked TCB_TickNextPtr TCB_TickPrevPtr (?h(x \<mapsto> tick_stop t)) ?n (last0 NULL ys) ([] @ ys)"
      by (rule linked_remove [OF lk]) (use False t v ne D(1) in \<open>auto simp: fld_Some\<close>)
    from 1 2 show ?thesis using v n by (intro exI [of _ ?h]) (auto simp: link_core_def)
  qed
qed

lemma tick_unlink_inner:
  assumes k: "OSCfg_TickWheel s i = Some k" and xs: "xs \<noteq> []"
    and lk: "linked TCB_TickNextPtr TCB_TickPrevPtr (tcbs s) (SPK_FirstPtr k) b (xs @ x # ys)"
    and t: "tcbs s x = Some t" "TCB_TickSpokePtr t = Some i"
  shows "\<exists>h. OS_TickListRemove x s = Some (s\<lparr>tcbs := h(x \<mapsto> tick_stop t),
      OSCfg_TickWheel := (OSCfg_TickWheel s)(i \<mapsto> k\<lparr>SPK_NbrEntries := SPK_NbrEntries k - 1\<rparr>)\<rparr>) \<and>
    linked TCB_TickNextPtr TCB_TickPrevPtr (h(x \<mapsto> tick_stop t)) (SPK_FirstPtr k) (last0 NULL (xs @ ys)) (xs @ ys) \<and>
    (\<forall>y. map_option link_core (h y) = map_option link_core (tcbs s y)) \<and> (\<forall>y. y \<notin> set (xs @ x # ys) \<longrightarrow> h y = tcbs s y)"
proof -
  note D = linkedD [OF lk]
  from linked_node [OF lk] t have nx: "TCB_TickNextPtr t = hd0 NULL ys" "TCB_TickPrevPtr t = last0 NULL xs" by auto
  have hd: "SPK_FirstPtr k \<noteq> x" using D(1,4) xs by (cases xs) auto
  let ?p = "last0 NULL xs" let ?n = "hd0 NULL ys"
  have p: "?p \<in> set xs" using xs by (rule last0_in)
  then obtain u where u: "tcbs s ?p = Some u" using D(3) by auto
  have ne: "?p \<noteq> x" "0 < ?p" using p D(1) mem_nz [OF D(2)] by auto
  have nin: "x \<notin> set xs" "x \<notin> set ys" using D(1) by auto
  show ?thesis
  proof (cases "ys = []")
    case True
    let ?h = "(tcbs s)(?p \<mapsto> u\<lparr>TCB_TickNextPtr := NULL\<rparr>)"
    have 1: "OS_TickListRemove x s = Some (s\<lparr>tcbs := ?h(x \<mapsto> tick_stop t),
      OSCfg_TickWheel := (OSCfg_TickWheel s)(i \<mapsto> k\<lparr>SPK_NbrEntries := SPK_NbrEntries k - 1\<rparr>)\<rparr>)"
      using k t nx hd u ne True by (simp add: OS_TickListRemove_def tick_stop_def Let_def fun_upd_twist)
    have 2: "linked TCB_TickNextPtr TCB_TickPrevPtr (?h(x \<mapsto> tick_stop t)) (SPK_FirstPtr k) (last0 NULL (xs @ ys)) (xs @ ys)"
      by (rule linked_remove [OF lk]) (use xs True t u ne D(1,4) in \<open>auto simp: fld_Some hd0_nonempty\<close>)
    from 1 2 show ?thesis using u p by (intro exI [of _ ?h]) (auto simp: link_core_def)
  next
    case False
    have n: "?n \<in> set ys" using False by (rule hd0_in)
    then obtain v where v: "tcbs s ?n = Some v" using D(3) by auto
    have nn: "?n \<noteq> x" "0 < ?n" "?p \<noteq> ?n" using n p D(1) mem_nz [OF D(2)] by auto
    let ?h = "(tcbs s)(?p \<mapsto> u\<lparr>TCB_TickNextPtr := ?n\<rparr>, ?n \<mapsto> v\<lparr>TCB_TickPrevPtr := ?p\<rparr>)"
    have 1: "OS_TickListRemove x s = Some (s\<lparr>tcbs := ?h(x \<mapsto> tick_stop t),
      OSCfg_TickWheel := (OSCfg_TickWheel s)(i \<mapsto> k\<lparr>SPK_NbrEntries := SPK_NbrEntries k - 1\<rparr>)\<rparr>)"
      using k t nx hd u v ne nn by (simp add: OS_TickListRemove_def tick_stop_def Let_def fun_upd_twist)
    have 2: "linked TCB_TickNextPtr TCB_TickPrevPtr (?h(x \<mapsto> tick_stop t)) (SPK_FirstPtr k) (last0 NULL (xs @ ys)) (xs @ ys)"
      by (rule linked_remove [OF lk]) (use xs False t u v ne nn D(4) nin in \<open>auto simp: fld_Some hd0_nonempty\<close>)
    from 1 2 show ?thesis using u v p n by (intro exI [of _ ?h]) (auto simp: link_core_def)
  qed
qed

lemma tick_unlink:
  assumes k: "OSCfg_TickWheel s i = Some k"
    and lk: "linked TCB_TickNextPtr TCB_TickPrevPtr (tcbs s) (SPK_FirstPtr k) b (xs @ x # ys)"
    and t: "tcbs s x = Some t" "TCB_TickSpokePtr t = Some i"
  obtains h k' where "OS_TickListRemove x s = Some (s\<lparr>tcbs := h(x \<mapsto> tick_stop t), OSCfg_TickWheel := (OSCfg_TickWheel s)(i \<mapsto> k')\<rparr>)"
    "linked TCB_TickNextPtr TCB_TickPrevPtr (h(x \<mapsto> tick_stop t)) (SPK_FirstPtr k') (last0 NULL (xs @ ys)) (xs @ ys)"
    "SPK_NbrEntries k' = SPK_NbrEntries k - 1"
    "\<forall>y. map_option link_core (h y) = map_option link_core (tcbs s y)" "\<forall>y. y \<notin> set (xs @ x # ys) \<longrightarrow> h y = tcbs s y"
proof (cases "xs = []")
  case True
  then have "linked TCB_TickNextPtr TCB_TickPrevPtr (tcbs s) (SPK_FirstPtr k) b ([] @ x # ys)" using lk by simp
  from tick_unlink_first [OF k this t] True show ?thesis by (auto intro!: that)
next
  case False
  from tick_unlink_inner [OF k False lk t] show ?thesis by (auto intro!: that)
qed

lemma tick_order_cong:
  assumes "tick_order s W" "OSTickCtr s' = OSTickCtr s"
    and "\<And>i y. y \<in> set (W' i) \<Longrightarrow> fld TCB_TickCtrMatch (tcbs s') y = fld TCB_TickCtrMatch (tcbs s) y"
    and "\<And>i. \<exists>Q. W' i = filter Q (W i)"
  shows "tick_order s' W'"
proof -
  have rem: "tick_remain s' y = tick_remain s y" if "y \<in> set (W' i)" for i y
    using assms(3) [OF that] assms(2) by (simp add: tick_remain_def)
  have "sorted (map (tick_remain s') (W' i)) \<and> (\<forall>x \<in> set (W' i). tick_remain s' x \<noteq> 0 \<and>
    unat (fld TCB_TickCtrMatch (tcbs s') x mod OSCfg_TickWheelSize) = i)" for i
  proof -
    obtain Q where Q: "W' i = filter Q (W i)" using assms(4) by blast
    have "map (tick_remain s') (W' i) = map (tick_remain s) (W' i)" using rem by simp
    moreover have "sorted (map (tick_remain s) (W' i))"
      using assms(1) unfolding Q tick_order_def by (simp add: sorted_filter)
    ultimately have "sorted (map (tick_remain s') (W' i))" by metis
    moreover have "\<forall>x \<in> set (W' i). tick_remain s x \<noteq> 0 \<and> unat (fld TCB_TickCtrMatch (tcbs s) x mod OSCfg_TickWheelSize) = i"
      using assms(1) unfolding Q tick_order_def set_filter by blast
    ultimately show ?thesis using rem assms(3) by metis
  qed
  then show ?thesis unfolding tick_order_def by blast
qed

lemma filter_neq: "x \<notin> set xs \<Longrightarrow> filter (\<lambda>y. y \<noteq> x) xs = xs"
  by (induction xs) auto

lemma OS_TickListRemove_ok:
  assumes W: "tick_rel s W" and t: "tcbs s x = Some t"
  shows "\<exists>s' t'. OS_TickListRemove x s = Some s' \<and> tick_rel s' (\<lambda>i. filter (\<lambda>y. y \<noteq> x) (W i)) \<and> tick_frame s s' \<and>
    match_frame x s s' \<and> tcbs s' x = Some t' \<and> TCB_TickSpokePtr t' = None"
proof (cases "TCB_TickSpokePtr t")
  case None
  then have "x \<notin> set (W i)" for i using W t by (auto simp: tick_rel_def tick_links_def on_spoke_def)
  then have "filter (\<lambda>y. y \<noteq> x) (W i) = W i" for i by (metis (mono_tags, lifting) filter_True)
  with None W t show ?thesis
    by (auto simp: OS_TickListRemove_def tick_frame_def match_frame_def)
next
  case (Some i)
  from W have L: "tick_links s W" and O: "tick_order s W" by (simp_all add: tick_rel_def)
  from L t Some have x: "x \<in> set (W i)" and xj: "\<And>j. j \<noteq> i \<Longrightarrow> x \<notin> set (W j)" by (auto simp: tick_links_def on_spoke_def)
  then have i: "i < unat (OSCfg_TickWheelSize :: 32 word)" using L unfolding tick_links_def
    by (metis empty_iff list.set(1) not_less)
  from L i obtain k where k: "OSCfg_TickWheel s i = Some k" "unat (SPK_NbrEntries k) = length (W i)"
    "linked TCB_TickNextPtr TCB_TickPrevPtr (tcbs s) (SPK_FirstPtr k) (last0 NULL (W i)) (W i)"
    by (rule tick_links_obtain)
  from x obtain xs ys where sp: "W i = xs @ x # ys" by (meson split_list)
  have nin: "x \<notin> set xs" "x \<notin> set ys" using linkedD(1) [OF k(3)] sp by auto
  obtain h k' where h: "OS_TickListRemove x s = Some (s\<lparr>tcbs := h(x \<mapsto> tick_stop t), OSCfg_TickWheel := (OSCfg_TickWheel s)(i \<mapsto> k')\<rparr>)"
    "linked TCB_TickNextPtr TCB_TickPrevPtr (h(x \<mapsto> tick_stop t)) (SPK_FirstPtr k') (last0 NULL (xs @ ys)) (xs @ ys)"
    "SPK_NbrEntries k' = SPK_NbrEntries k - 1"
    "\<forall>y. map_option link_core (h y) = map_option link_core (tcbs s y)" "\<forall>y. y \<notin> set (xs @ x # ys) \<longrightarrow> h y = tcbs s y"
    by (rule tick_unlink [OF k(1) k(3) [unfolded sp] t Some])
  let ?h = "h(x \<mapsto> tick_stop t)"
  let ?s = "s\<lparr>tcbs := ?h, OSCfg_TickWheel := (OSCfg_TickWheel s)(i \<mapsto> k')\<rparr>"
  have W': "(\<lambda>i. filter (\<lambda>y. y \<noteq> x) (W i)) = W(i := xs @ ys)"
  proof
    fix j show "filter (\<lambda>y. y \<noteq> x) (W j) = (W(i := xs @ ys)) j"
      using sp nin xj [of j] filter_neq [of x xs] filter_neq [of x ys] filter_neq [of x "W j"] by auto
  qed
  have mf: "match_frame x s ?s" using h(4) by (simp add: match_frame_def)
  have "tick_links ?s (W(i := xs @ ys))"
  proof (rule tick_links_upd [OF L i refl, where x = x])
    show "unat (SPK_NbrEntries k') = length (xs @ ys)" using h(3) k(2) sp by (simp add: unat_dec)
    show "?h y = tcbs s y" if "y \<notin> insert x (set (W i))" for y using h(5) that sp by simp
    show "on_spoke ?s j y \<longleftrightarrow> y \<in> set ((W(i := xs @ ys)) j)" for j y
    proof (cases "y = x")
      case True
      then show ?thesis using nin xj [of j] by (auto simp: on_spoke_def)
    next
      case False
      have "y \<in> set (W j) \<longleftrightarrow> on_spoke s j y" using L by (simp add: tick_links_def)
      then show ?thesis using match_frame_fld(2) [OF mf False, of j] sp False by auto
    qed
  qed (use h(2) xj in simp_all)
  moreover have "tick_order ?s (W(i := xs @ ys))" unfolding W' [symmetric]
    by (rule tick_order_cong [OF O]) (use match_frame_fld(1) [OF mf] in auto)
  moreover have "tick_frame s ?s"
  proof -
    have "map_option tick_core (?h y) = map_option tick_core (tcbs s y)" for y
      using h(4) [rule_format, of y] t by (cases "y = x"; cases "tcbs s y"; cases "h y") (auto dest: link_core_eqD(3))
    then show ?thesis by (simp add: tick_frame_def os_less_tick_def)
  qed
  ultimately show ?thesis using h(1) mf unfolding W' by (auto simp: tick_rel_def)
qed

end
