(* ===== verification/OS_Core.thy ===== *)
theory OS_Core
  imports OS_Tick
begin

text \<open>
  \<^verbatim>\<open>src/ucosTest/Source/os_core.c\<close>, blocking and readying of tasks and the scheduler, with the
  part of \<^verbatim>\<open>src/ucosTest/PORTS/os_cpu_c.c\<close> that a context switch executes on the kernel's
  variables.  The kernel runs every routine here with interrupts disabled, so each is one
  atomic transformation of the state.
\<close>

subsection \<open>Blocking and readying a task\<close>

definition task_block_tick :: "ptr \<Rightarrow> OS_TICK \<Rightarrow> os \<Rightarrow> os option" where
  "task_block_tick p_tcb timeout s =
     (if timeout > 0 then do {
        (err, s) \<leftarrow> OS_TickListInsert p_tcb timeout OS_OPT_TIME_TIMEOUT s;
        if err = OS_ERR_NONE
        then tcb_mod p_tcb (\<lambda>t. t\<lparr>TCB_TaskState := OS_TASK_STATE_PEND_TIMEOUT\<rparr>) s
        else tcb_mod p_tcb (\<lambda>t. t\<lparr>TCB_TaskState := OS_TASK_STATE_PEND\<rparr>) s
      } else tcb_mod p_tcb (\<lambda>t. t\<lparr>TCB_TaskState := OS_TASK_STATE_PEND\<rparr>) s)"

definition OS_TaskBlock :: "ptr \<Rightarrow> OS_TICK \<Rightarrow> os \<Rightarrow> os option" where
  "OS_TaskBlock p_tcb timeout s = do {
     s \<leftarrow> task_block_tick p_tcb timeout s;
     OS_RdyListRemove p_tcb s
   }"

definition OS_TaskRdy :: "ptr \<Rightarrow> os \<Rightarrow> os option" where
  "OS_TaskRdy p_tcb s = do {
     s \<leftarrow> OS_TickListRemove p_tcb s;
     tcb \<leftarrow> tcbs s p_tcb;
     if TCB_TaskState tcb AND OS_TASK_STATE_BIT_SUSPENDED = 0 then OS_RdyListInsert p_tcb s else Some s
   }"

definition OS_Pend :: "ptr \<Rightarrow> ptr \<Rightarrow> OS_STATE \<Rightarrow> OS_TICK \<Rightarrow> os \<Rightarrow> os option" where
  "OS_Pend p_pend_data p_obj pending_on timeout s = do {
     let cur = OSTCBCurPtr s;
     s \<leftarrow> tcb_mod cur (\<lambda>t. t\<lparr>TCB_PendOn := pending_on, TCB_PendStatus := OS_STATUS_PEND_OK\<rparr>) s;
     s \<leftarrow> OS_TaskBlock cur timeout s;
     s \<leftarrow> (if p_obj \<noteq> NULL then do {
             s \<leftarrow> pd_mod p_pend_data (\<lambda>d. d\<lparr>PD_PendObjPtr := p_obj\<rparr>) s;
             s \<leftarrow> OS_PendDataInit cur p_pend_data 1 s;
             OS_PendListInsertPrio p_obj p_pend_data s
           } else tcb_mod cur (\<lambda>t. t\<lparr>TCB_PendDataTblEntries := 0, TCB_PendDataTblPtr := NULL\<rparr>) s);
     OS_PendDbgNameAdd p_obj cur s
   }"

text \<open>\<^verbatim>\<open>OS_PendAbort1\<close>, \<^verbatim>\<open>OS_PendObjDel1\<close> and \<^verbatim>\<open>OS_Post1\<close> walk the same table of pend data and
  change the first entry that waits on the object.\<close>

primrec pend_find_loop :: "(OS_PEND_DATA \<Rightarrow> OS_PEND_DATA) \<Rightarrow> nat \<Rightarrow> ptr \<Rightarrow> ptr \<Rightarrow> os \<Rightarrow> os option" where
  "pend_find_loop f 0 p_obj p_pend_data s = Some s"
| "pend_find_loop f (Suc n) p_obj p_pend_data s = do {
     d \<leftarrow> pds s p_pend_data;
     if p_obj = PD_PendObjPtr d then pd_mod p_pend_data f s
     else pend_find_loop f n p_obj (p_pend_data + 1) s
   }"

definition OS_PendAbort1 :: "ptr \<Rightarrow> ptr \<Rightarrow> CPU_TS \<Rightarrow> os \<Rightarrow> os option" where
  "OS_PendAbort1 p_obj p_tcb ts s = do {
     tcb \<leftarrow> tcbs s p_tcb;
     pend_find_loop (\<lambda>d. d\<lparr>PD_RdyObjPtr := p_obj, PD_RdyTS := ts\<rparr>)
       (unat (TCB_PendDataTblEntries tcb)) p_obj (TCB_PendDataTblPtr tcb) s
   }"

definition OS_PendObjDel1 :: "ptr \<Rightarrow> ptr \<Rightarrow> CPU_TS \<Rightarrow> os \<Rightarrow> os option" where
  "OS_PendObjDel1 p_obj p_tcb ts s = do {
     tcb \<leftarrow> tcbs s p_tcb;
     pend_find_loop (\<lambda>d. d\<lparr>PD_RdyObjPtr := p_obj, PD_RdyTS := ts\<rparr>)
       (unat (TCB_PendDataTblEntries tcb)) p_obj (TCB_PendDataTblPtr tcb) s
   }"

definition OS_Post1 :: "ptr \<Rightarrow> ptr \<Rightarrow> ptr \<Rightarrow> OS_MSG_SIZE \<Rightarrow> CPU_TS \<Rightarrow> os \<Rightarrow> os option" where
  "OS_Post1 p_obj p_tcb p_void msg_size ts s = do {
     tcb \<leftarrow> tcbs s p_tcb;
     pend_find_loop (\<lambda>d. d\<lparr>PD_RdyObjPtr := p_obj, PD_RdyMsgPtr := p_void, PD_RdyMsgSize := msg_size, PD_RdyTS := ts\<rparr>)
       (unat (TCB_PendDataTblEntries tcb)) p_obj (TCB_PendDataTblPtr tcb) s
   }"

definition OS_PendAbort :: "ptr \<Rightarrow> ptr \<Rightarrow> CPU_TS \<Rightarrow> os \<Rightarrow> os option" where
  "OS_PendAbort p_obj p_tcb ts s = do {
     tcb \<leftarrow> tcbs s p_tcb;
     if TCB_TaskState tcb = OS_TASK_STATE_PEND \<or> TCB_TaskState tcb = OS_TASK_STATE_PEND_TIMEOUT then do {
       s \<leftarrow> (if TCB_PendOn tcb = OS_TASK_PEND_ON_MULTI then OS_PendAbort1 p_obj p_tcb ts s else Some s);
       s \<leftarrow> tcb_mod p_tcb (\<lambda>t. t\<lparr>TCB_MsgPtr := NULL, TCB_MsgSize := 0, TCB_TS := ts\<rparr>) s;
       s \<leftarrow> (if p_obj \<noteq> NULL then OS_PendListRemove p_tcb s else Some s);
       s \<leftarrow> OS_TaskRdy p_tcb s;
       tcb_mod p_tcb (\<lambda>t. t\<lparr>TCB_TaskState := OS_TASK_STATE_RDY, TCB_PendStatus := OS_STATUS_PEND_ABORT,
         TCB_PendOn := OS_TASK_PEND_ON_NOTHING\<rparr>) s
     } else if TCB_TaskState tcb = OS_TASK_STATE_PEND_SUSPENDED \<or>
         TCB_TaskState tcb = OS_TASK_STATE_PEND_TIMEOUT_SUSPENDED then do {
       s \<leftarrow> (if TCB_PendOn tcb = OS_TASK_PEND_ON_MULTI then OS_PendAbort1 p_obj p_tcb ts s else Some s);
       s \<leftarrow> tcb_mod p_tcb (\<lambda>t. t\<lparr>TCB_MsgPtr := NULL, TCB_MsgSize := 0, TCB_TS := ts\<rparr>) s;
       s \<leftarrow> (if p_obj \<noteq> NULL then OS_PendListRemove p_tcb s else Some s);
       s \<leftarrow> OS_TickListRemove p_tcb s;
       tcb_mod p_tcb (\<lambda>t. t\<lparr>TCB_TaskState := OS_TASK_STATE_SUSPENDED, TCB_PendStatus := OS_STATUS_PEND_ABORT,
         TCB_PendOn := OS_TASK_PEND_ON_NOTHING\<rparr>) s
     } else Some s
   }"

definition OS_PendObjDel :: "ptr \<Rightarrow> ptr \<Rightarrow> CPU_TS \<Rightarrow> os \<Rightarrow> os option" where
  "OS_PendObjDel p_obj p_tcb ts s = do {
     tcb \<leftarrow> tcbs s p_tcb;
     if TCB_TaskState tcb = OS_TASK_STATE_PEND \<or> TCB_TaskState tcb = OS_TASK_STATE_PEND_TIMEOUT then do {
       s \<leftarrow> (if TCB_PendOn tcb = OS_TASK_PEND_ON_MULTI then OS_PendObjDel1 p_obj p_tcb ts s else Some s);
       s \<leftarrow> tcb_mod p_tcb (\<lambda>t. t\<lparr>TCB_MsgPtr := NULL, TCB_MsgSize := 0, TCB_TS := ts\<rparr>) s;
       s \<leftarrow> OS_PendListRemove p_tcb s;
       s \<leftarrow> OS_TaskRdy p_tcb s;
       tcb_mod p_tcb (\<lambda>t. t\<lparr>TCB_TaskState := OS_TASK_STATE_RDY, TCB_PendStatus := OS_STATUS_PEND_DEL,
         TCB_PendOn := OS_TASK_PEND_ON_NOTHING\<rparr>) s
     } else if TCB_TaskState tcb = OS_TASK_STATE_PEND_SUSPENDED \<or>
         TCB_TaskState tcb = OS_TASK_STATE_PEND_TIMEOUT_SUSPENDED then do {
       s \<leftarrow> (if TCB_PendOn tcb = OS_TASK_PEND_ON_MULTI then OS_PendObjDel1 p_obj p_tcb ts s else Some s);
       s \<leftarrow> tcb_mod p_tcb (\<lambda>t. t\<lparr>TCB_MsgPtr := NULL, TCB_MsgSize := 0, TCB_TS := ts\<rparr>) s;
       s \<leftarrow> OS_TickListRemove p_tcb s;
       s \<leftarrow> OS_PendListRemove p_tcb s;
       tcb_mod p_tcb (\<lambda>t. t\<lparr>TCB_TaskState := OS_TASK_STATE_SUSPENDED, TCB_PendStatus := OS_STATUS_PEND_DEL,
         TCB_PendOn := OS_TASK_PEND_ON_NOTHING\<rparr>) s
     } else Some s
   }"

definition OS_Post :: "ptr \<Rightarrow> ptr \<Rightarrow> ptr \<Rightarrow> OS_MSG_SIZE \<Rightarrow> CPU_TS \<Rightarrow> os \<Rightarrow> os option" where
  "OS_Post p_obj p_tcb p_void msg_size ts s = do {
     tcb \<leftarrow> tcbs s p_tcb;
     if TCB_TaskState tcb = OS_TASK_STATE_PEND \<or> TCB_TaskState tcb = OS_TASK_STATE_PEND_TIMEOUT then do {
       s \<leftarrow> (if TCB_PendOn tcb = OS_TASK_PEND_ON_MULTI then OS_Post1 p_obj p_tcb p_void msg_size ts s
             else tcb_mod p_tcb (\<lambda>t. t\<lparr>TCB_MsgPtr := p_void, TCB_MsgSize := msg_size, TCB_TS := ts\<rparr>) s);
       s \<leftarrow> (if p_obj \<noteq> NULL then do {
               s \<leftarrow> OS_PendListRemove p_tcb s;
               OS_PendDbgNameRemove p_obj p_tcb s
             } else Some s);
       s \<leftarrow> OS_TaskRdy p_tcb s;
       tcb_mod p_tcb (\<lambda>t. t\<lparr>TCB_TaskState := OS_TASK_STATE_RDY, TCB_PendStatus := OS_STATUS_PEND_OK,
         TCB_PendOn := OS_TASK_PEND_ON_NOTHING\<rparr>) s
     } else if TCB_TaskState tcb = OS_TASK_STATE_PEND_SUSPENDED \<or>
         TCB_TaskState tcb = OS_TASK_STATE_PEND_TIMEOUT_SUSPENDED then do {
       s \<leftarrow> (if TCB_PendOn tcb = OS_TASK_PEND_ON_MULTI then OS_Post1 p_obj p_tcb p_void msg_size ts s
             else tcb_mod p_tcb (\<lambda>t. t\<lparr>TCB_MsgPtr := p_void, TCB_MsgSize := msg_size, TCB_TS := ts\<rparr>) s);
       s \<leftarrow> OS_TickListRemove p_tcb s;
       s \<leftarrow> (if p_obj \<noteq> NULL then do {
               s \<leftarrow> OS_PendListRemove p_tcb s;
               OS_PendDbgNameRemove p_obj p_tcb s
             } else Some s);
       tcb_mod p_tcb (\<lambda>t. t\<lparr>TCB_TaskState := OS_TASK_STATE_SUSPENDED, TCB_PendStatus := OS_STATUS_PEND_OK,
         TCB_PendOn := OS_TASK_PEND_ON_NOTHING\<rparr>) s
     } else Some s
   }"

subsection \<open>The three structures together\<close>

definition rdy_view :: "OS_TCB \<Rightarrow> ptr \<times> ptr \<times> OS_PRIO" where
  "rdy_view t = (TCB_NextPtr t, TCB_PrevPtr t, TCB_Prio t)"

lemma rdy_rel_cong:
  assumes t: "\<And>x. map_option rdy_view (tcbs s' x) = map_option rdy_view (tcbs s x)"
    and w: "OSRdyList s' = OSRdyList s" "OSPrioTbl s' = OSPrioTbl s"
  shows "rdy_rel s' R = rdy_rel s R"
proof -
  have v: "map_option TCB_NextPtr (tcbs s' x) = map_option TCB_NextPtr (tcbs s x)"
    "map_option TCB_PrevPtr (tcbs s' x) = map_option TCB_PrevPtr (tcbs s x)"
    "map_option TCB_Prio (tcbs s' x) = map_option TCB_Prio (tcbs s x)" for x
    using t [of x] by (cases "tcbs s x"; cases "tcbs s' x"; simp add: rdy_view_def)+
  have lk: "linked TCB_NextPtr TCB_PrevPtr (tcbs s') a b xs = linked TCB_NextPtr TCB_PrevPtr (tcbs s) a b xs"
    for a b xs by (rule linked_cong) (simp_all add: v)
  have pr: "(\<exists>t. tcbs s' x = Some t \<and> unat (TCB_Prio t) = p) \<longleftrightarrow> (\<exists>t. tcbs s x = Some t \<and> unat (TCB_Prio t) = p)" for x p
    using v(3) [of x] by (cases "tcbs s x"; cases "tcbs s' x"; simp)
  show ?thesis by (simp only: rdy_rel_def rdy_links_def rdy_ok_def rdy_map_def prio_set_def lk pr w)
qed

definition krel :: "os \<Rightarrow> (nat \<Rightarrow> ptr list) \<Rightarrow> (ptr \<Rightarrow> ptr list) \<Rightarrow> (nat \<Rightarrow> ptr list) \<Rightarrow> bool" where
  "krel s R P W \<longleftrightarrow> rdy_rel s R \<and> pend_rel s P \<and> tick_rel s W"

text \<open>Each routine of one structure leaves the other two alone.\<close>

lemma map_option_eq_via:
  assumes "map_option f a = map_option f b" "\<And>x y. f x = f y \<Longrightarrow> g x = g y"
  shows "map_option g a = map_option g b"
  using assms(1) by (cases a; cases b) (auto intro: assms(2))

lemma os_less_rdyD:
  assumes "os_less_rdy s' = os_less_rdy s"
  shows "pds s' = pds s" "objs s' = objs s" "OSCfg_TickWheel s' = OSCfg_TickWheel s" "OSTickCtr s' = OSTickCtr s" "OSPrioCur s' = OSPrioCur s"
proof -
  show "pds s' = pds s" using arg_cong [OF assms, of pds] by (simp add: os_less_rdy_def)
  show "objs s' = objs s" using arg_cong [OF assms, of objs] by (simp add: os_less_rdy_def)
  show "OSCfg_TickWheel s' = OSCfg_TickWheel s" using arg_cong [OF assms, of OSCfg_TickWheel] by (simp add: os_less_rdy_def)
  show "OSTickCtr s' = OSTickCtr s" using arg_cong [OF assms, of OSTickCtr] by (simp add: os_less_rdy_def)
  show "OSPrioCur s' = OSPrioCur s" using arg_cong [OF assms, of OSPrioCur] by (simp add: os_less_rdy_def)
qed

lemma os_less_tickD:
  assumes "os_less_tick s' = os_less_tick s"
  shows "pds s' = pds s" "objs s' = objs s" "OSRdyList s' = OSRdyList s" "OSPrioTbl s' = OSPrioTbl s" "OSTickCtr s' = OSTickCtr s" "OSPrioCur s' = OSPrioCur s"
proof -
  show "pds s' = pds s" using arg_cong [OF assms, of pds] by (simp add: os_less_tick_def)
  show "objs s' = objs s" using arg_cong [OF assms, of objs] by (simp add: os_less_tick_def)
  show "OSRdyList s' = OSRdyList s" using arg_cong [OF assms, of OSRdyList] by (simp add: os_less_tick_def)
  show "OSPrioTbl s' = OSPrioTbl s" using arg_cong [OF assms, of OSPrioTbl] by (simp add: os_less_tick_def)
  show "OSTickCtr s' = OSTickCtr s" using arg_cong [OF assms, of OSTickCtr] by (simp add: os_less_tick_def)
  show "OSPrioCur s' = OSPrioCur s" using arg_cong [OF assms, of OSPrioCur] by (simp add: os_less_tick_def)
qed

lemma os_less_pendD:
  assumes "os_less_pend s' = os_less_pend s"
  shows "tcbs s' = tcbs s" "OSRdyList s' = OSRdyList s" "OSPrioTbl s' = OSPrioTbl s" "OSCfg_TickWheel s' = OSCfg_TickWheel s" "OSTickCtr s' = OSTickCtr s" "OSPrioCur s' = OSPrioCur s"
proof -
  show "tcbs s' = tcbs s" using arg_cong [OF assms, of tcbs] by (simp add: os_less_pend_def)
  show "OSRdyList s' = OSRdyList s" using arg_cong [OF assms, of OSRdyList] by (simp add: os_less_pend_def)
  show "OSPrioTbl s' = OSPrioTbl s" using arg_cong [OF assms, of OSPrioTbl] by (simp add: os_less_pend_def)
  show "OSCfg_TickWheel s' = OSCfg_TickWheel s" using arg_cong [OF assms, of OSCfg_TickWheel] by (simp add: os_less_pend_def)
  show "OSTickCtr s' = OSTickCtr s" using arg_cong [OF assms, of OSTickCtr] by (simp add: os_less_pend_def)
  show "OSPrioCur s' = OSPrioCur s" using arg_cong [OF assms, of OSPrioCur] by (simp add: os_less_pend_def)
qed

lemma tcb_core_views: "tcb_core t' = tcb_core t \<Longrightarrow> tick_view t' = tick_view t" "tcb_core t' = tcb_core t \<Longrightarrow> TCB_Prio t' = TCB_Prio t"
proof -
  assume e: "tcb_core t' = tcb_core t"
  show "tick_view t' = tick_view t" "TCB_Prio t' = TCB_Prio t"
    using tcb_core_eqD [OF e] by (simp_all add: tick_view_def)
qed

lemma tick_core_sel:
  "rdy_view (tick_core t) = rdy_view t" "TCB_Prio (tick_core t) = TCB_Prio t"
  by (simp_all add: tick_core_def rdy_view_def)

lemma tick_core_views: "tick_core t' = tick_core t \<Longrightarrow> rdy_view t' = rdy_view t" "tick_core t' = tick_core t \<Longrightarrow> TCB_Prio t' = TCB_Prio t"
  by (metis tick_core_sel(1), metis tick_core_sel(2))

lemma rdy_frame_others:
  assumes "rdy_frame s s'"
  shows "pend_rel s' P = pend_rel s P" "tick_rel s' W = tick_rel s W"
proof -
  from assms have c: "\<And>x. map_option tcb_core (tcbs s' x) = map_option tcb_core (tcbs s x)"
    and l: "os_less_rdy s' = os_less_rdy s" by (simp_all add: rdy_frame_def)
  show "pend_rel s' P = pend_rel s P"
    by (rule pend_rel_cong) (simp_all add: os_less_rdyD [OF l] map_option_eq_via [OF c tcb_core_views(2)])
  show "tick_rel s' W = tick_rel s W"
    by (rule tick_rel_cong) (simp_all add: os_less_rdyD [OF l] map_option_eq_via [OF c tcb_core_views(1)])
qed

lemma tick_frame_others:
  assumes "tick_frame s s'"
  shows "pend_rel s' P = pend_rel s P" "rdy_rel s' R = rdy_rel s R"
proof -
  from assms have c: "\<And>x. map_option tick_core (tcbs s' x) = map_option tick_core (tcbs s x)"
    and l: "os_less_tick s' = os_less_tick s" by (simp_all add: tick_frame_def)
  show "pend_rel s' P = pend_rel s P"
    by (rule pend_rel_cong) (simp_all add: os_less_tickD [OF l] map_option_eq_via [OF c tick_core_views(2)])
  show "rdy_rel s' R = rdy_rel s R"
    by (rule rdy_rel_cong) (simp_all add: os_less_tickD [OF l] map_option_eq_via [OF c tick_core_views(1)])
qed

lemma pend_frame_others:
  assumes "pend_frame s s'"
  shows "tick_rel s' W = tick_rel s W" "rdy_rel s' R = rdy_rel s R"
proof -
  from assms have l: "os_less_pend s' = os_less_pend s" by (simp add: pend_frame_def)
  show "tick_rel s' W = tick_rel s W" by (rule tick_rel_cong) (simp_all add: os_less_pendD [OF l])
  show "rdy_rel s' R = rdy_rel s R" by (rule rdy_rel_cong) (simp_all add: os_less_pendD [OF l])
qed

lemma krel_cong:
  assumes "\<And>x. map_option rdy_view (tcbs s' x) = map_option rdy_view (tcbs s x)"
    "\<And>x. map_option tick_view (tcbs s' x) = map_option tick_view (tcbs s x)"
    "\<And>x. map_option pd_view (pds s' x) = map_option pd_view (pds s x)"
    "\<And>x. map_option OBJ_PendList (objs s' x) = map_option OBJ_PendList (objs s x)"
    "OSRdyList s' = OSRdyList s" "OSPrioTbl s' = OSPrioTbl s" "OSCfg_TickWheel s' = OSCfg_TickWheel s" "OSTickCtr s' = OSTickCtr s"
  shows "krel s' R P W = krel s R P W"
proof -
  have "map_option TCB_Prio (tcbs s' x) = map_option TCB_Prio (tcbs s x)" for x
    by (rule map_option_eq_via [OF assms(1)]) (simp add: rdy_view_def)
  then show ?thesis using assms rdy_rel_cong [of s' s R] pend_rel_cong [of s' s P] tick_rel_cong [of s' s W]
    by (simp add: krel_def)
qed

lemma krel_tcb_upd:
  assumes "tcbs s x = Some t" "rdy_view t' = rdy_view t" "tick_view t' = tick_view t"
  shows "krel (s\<lparr>tcbs := (tcbs s)(x \<mapsto> t')\<rparr>) R P W = krel s R P W"
  by (rule krel_cong) (use assms in auto)

subsection \<open>Frames across the three structures\<close>

text \<open>\<open>tcb_other\<close> forgets the list links of a TCB, \<open>tcb_base\<close> all its tick fields as well;
  \<open>kframe X D s s'\<close> says that the step from \<open>s\<close> to \<open>s'\<close> changes the tasks in \<open>X\<close> and the pend
  data in \<open>D\<close> and otherwise nothing but list links, list heads and debug names.\<close>

definition tcb_other :: "OS_TCB \<Rightarrow> OS_TCB" where
  "tcb_other t = link_core (tcb_core t)"

definition tcb_base :: "OS_TCB \<Rightarrow> OS_TCB" where
  "tcb_base t = tick_core (tcb_core t)"

definition obj_other :: "OS_PEND_OBJ \<Rightarrow> OS_PEND_OBJ" where
  "obj_other b = (obj_core b)\<lparr>OBJ_DbgNamePtr := []\<rparr>"

definition os_less_k :: "os \<Rightarrow> os" where
  "os_less_k s = s\<lparr>tcbs := Map.empty, pds := Map.empty, objs := Map.empty, OSRdyList := Map.empty, OSPrioTbl := [],
     OSCfg_TickWheel := Map.empty\<rparr>"

definition kframe :: "ptr set \<Rightarrow> ptr set \<Rightarrow> os \<Rightarrow> os \<Rightarrow> bool" where
  "kframe X D s s' \<longleftrightarrow> os_less_k s' = os_less_k s \<and> dom (tcbs s') = dom (tcbs s) \<and> dom (pds s') = dom (pds s) \<and>
     (\<forall>y. y \<notin> X \<longrightarrow> map_option tcb_other (tcbs s' y) = map_option tcb_other (tcbs s y)) \<and>
     (\<forall>d. d \<notin> D \<longrightarrow> map_option pd_core (pds s' d) = map_option pd_core (pds s d)) \<and>
     (\<forall>b. map_option obj_other (objs s' b) = map_option obj_other (objs s b))"

lemma kframe_refl [simp]: "kframe X D s s"
  by (simp add: kframe_def)

lemma kframe_trans: "kframe X D s s' \<Longrightarrow> kframe X D s' s'' \<Longrightarrow> kframe X D s s''"
  by (simp add: kframe_def)

lemma kframe_mono: "kframe X D s s' \<Longrightarrow> X \<subseteq> X' \<Longrightarrow> D \<subseteq> D' \<Longrightarrow> kframe X' D' s s'"
  unfolding kframe_def by blast

lemma map_option_dom: "(\<And>x. map_option f (h' x) = map_option f (h x)) \<Longrightarrow> dom h' = dom h"
  by (metis (no_types, lifting) domIff option.map_disc_iff set_eqI)

lemma os_less_k_via:
  "os_less_rdy s' = os_less_rdy s \<Longrightarrow> os_less_k s' = os_less_k s"
  "os_less_tick s' = os_less_tick s \<Longrightarrow> os_less_k s' = os_less_k s"
  "os_less_pend s' = os_less_pend s \<Longrightarrow> os_less_k s' = os_less_k s"
proof -
  have "os_less_k s = os_less_k (os_less_rdy s)" "os_less_k s = os_less_k (os_less_tick s)"
    "os_less_k s = os_less_k (os_less_pend s)" for s
    by (simp_all add: os_less_k_def os_less_rdy_def os_less_tick_def os_less_pend_def)
  then show "os_less_rdy s' = os_less_rdy s \<Longrightarrow> os_less_k s' = os_less_k s"
    "os_less_tick s' = os_less_tick s \<Longrightarrow> os_less_k s' = os_less_k s"
    "os_less_pend s' = os_less_pend s \<Longrightarrow> os_less_k s' = os_less_k s" by metis+
qed

lemma tcb_core_other: "tcb_core t' = tcb_core t \<Longrightarrow> tcb_other t' = tcb_other t"
  "tcb_core t' = tcb_core t \<Longrightarrow> tcb_base t' = tcb_base t"
  by (simp_all add: tcb_other_def tcb_base_def)

lemma core_commute: "tick_core (tcb_core t) = tcb_core (tick_core t)" "link_core (tcb_core t) = tcb_core (link_core t)"
  by (simp_all add: tick_core_def tcb_core_def link_core_def)

lemma rdy_frame_kframe: "rdy_frame s s' \<Longrightarrow> kframe X D s s'"
proof -
  assume "rdy_frame s s'"
  then have c: "\<And>x. map_option tcb_core (tcbs s' x) = map_option tcb_core (tcbs s x)"
    and l: "os_less_rdy s' = os_less_rdy s" by (simp_all add: rdy_frame_def)
  show ?thesis by (simp add: kframe_def os_less_k_via(1) [OF l] os_less_rdyD [OF l]
    map_option_dom [OF c] map_option_eq_via [OF c tcb_core_other(1)])
qed

lemma tick_frame_kframe: "tick_frame s s' \<Longrightarrow> match_frame x s s' \<Longrightarrow> x \<in> X \<Longrightarrow> kframe X D s s'"
proof -
  assume "tick_frame s s'" and m: "match_frame x s s'" and x: "x \<in> X"
  then have c: "\<And>x. map_option tick_core (tcbs s' x) = map_option tick_core (tcbs s x)"
    and l: "os_less_tick s' = os_less_tick s" by (simp_all add: tick_frame_def)
  have "map_option tcb_other (tcbs s' y) = map_option tcb_other (tcbs s y)" if "y \<noteq> x" for y
    by (rule map_option_eq_via [of link_core]) (use m that in \<open>auto simp: match_frame_def tcb_other_def core_commute\<close>)
  then have "\<forall>y. y \<notin> X \<longrightarrow> map_option tcb_other (tcbs s' y) = map_option tcb_other (tcbs s y)" using x by metis
  then show ?thesis by (simp add: kframe_def os_less_k_via(2) [OF l] os_less_tickD [OF l] map_option_dom [OF c])
qed

lemma pend_frame_kframe: "pend_frame s s' \<Longrightarrow> kframe X D s s'"
proof -
  assume "pend_frame s s'"
  then have l: "os_less_pend s' = os_less_pend s" and d: "\<And>x. map_option pd_core (pds s' x) = map_option pd_core (pds s x)"
    and o: "\<And>x. map_option obj_core (objs s' x) = map_option obj_core (objs s x)" by (simp_all add: pend_frame_def)
  have "map_option obj_other (objs s' x) = map_option obj_other (objs s x)" for x
    by (rule map_option_eq_via [OF o]) (simp add: obj_other_def)
  then show ?thesis by (simp add: kframe_def os_less_k_via(3) [OF l] os_less_pendD [OF l] map_option_dom [OF d] d)
qed

lemma kframe_tcb_upd: "tcbs s x = Some t \<Longrightarrow> x \<in> X \<Longrightarrow> kframe X D s (s\<lparr>tcbs := (tcbs s)(x \<mapsto> t')\<rparr>)"
  by (auto simp: kframe_def os_less_k_def)

lemma tcb_base_frames:
  "rdy_frame s s' \<Longrightarrow> map_option tcb_base (tcbs s' x) = map_option tcb_base (tcbs s x)"
  "tick_frame s s' \<Longrightarrow> map_option tcb_base (tcbs s' x) = map_option tcb_base (tcbs s x)"
  by (rule map_option_eq_via [of tcb_core], simp_all add: rdy_frame_def tcb_base_def)
    (rule map_option_eq_via [of tick_core], simp_all add: tick_frame_def core_commute tcb_base_def)

lemma tcb_base_sel:
  "TCB_Prio (tcb_base t) = TCB_Prio t" "TCB_TaskState (tcb_base t) = TCB_TaskState t"
  "TCB_PendDataTblPtr (tcb_base t) = TCB_PendDataTblPtr t" "TCB_PendDataTblEntries (tcb_base t) = TCB_PendDataTblEntries t"
  "TCB_PendOn (tcb_base t) = TCB_PendOn t" "TCB_PendStatus (tcb_base t) = TCB_PendStatus t"
  by (simp_all add: tcb_base_def tick_core_def tcb_core_def)

lemma tcb_base_eqD:
  assumes "tcb_base t' = tcb_base t"
  shows "TCB_Prio t' = TCB_Prio t" "TCB_TaskState t' = TCB_TaskState t"
    "TCB_PendDataTblPtr t' = TCB_PendDataTblPtr t" "TCB_PendDataTblEntries t' = TCB_PendDataTblEntries t"
    "TCB_PendOn t' = TCB_PendOn t" "TCB_PendStatus t' = TCB_PendStatus t"
  using assms by (metis tcb_base_sel)+

lemma os_less_kD:
  assumes "os_less_k s' = os_less_k s"
  shows "sems s' = sems s" "qs s' = qs s" "mutexes s' = mutexes s" "msgs s' = msgs s" "mems s' = mems s" "ram s' = ram s" "OSMsgPool s' = OSMsgPool s" "OSIntNestingCtr s' = OSIntNestingCtr s" "OSRunning s' = OSRunning s" "OSSchedLockNestingCtr s' = OSSchedLockNestingCtr s" "OSPrioCur s' = OSPrioCur s" "OSTCBCurPtr s' = OSTCBCurPtr s" "OSTickCtr s' = OSTickCtr s" "OSIdleTaskTCB s' = OSIdleTaskTCB s" "OSTickTaskTCB s' = OSTickTaskTCB s" "TmrRd s' = TmrRd s" "TmrRdIx s' = TmrRdIx s"
proof -
  show "sems s' = sems s" using arg_cong [OF assms, of sems] by (simp add: os_less_k_def)
  show "qs s' = qs s" using arg_cong [OF assms, of qs] by (simp add: os_less_k_def)
  show "mutexes s' = mutexes s" using arg_cong [OF assms, of mutexes] by (simp add: os_less_k_def)
  show "msgs s' = msgs s" using arg_cong [OF assms, of msgs] by (simp add: os_less_k_def)
  show "mems s' = mems s" using arg_cong [OF assms, of mems] by (simp add: os_less_k_def)
  show "ram s' = ram s" using arg_cong [OF assms, of ram] by (simp add: os_less_k_def)
  show "OSMsgPool s' = OSMsgPool s" using arg_cong [OF assms, of OSMsgPool] by (simp add: os_less_k_def)
  show "OSIntNestingCtr s' = OSIntNestingCtr s" using arg_cong [OF assms, of OSIntNestingCtr] by (simp add: os_less_k_def)
  show "OSRunning s' = OSRunning s" using arg_cong [OF assms, of OSRunning] by (simp add: os_less_k_def)
  show "OSSchedLockNestingCtr s' = OSSchedLockNestingCtr s" using arg_cong [OF assms, of OSSchedLockNestingCtr] by (simp add: os_less_k_def)
  show "OSPrioCur s' = OSPrioCur s" using arg_cong [OF assms, of OSPrioCur] by (simp add: os_less_k_def)
  show "OSTCBCurPtr s' = OSTCBCurPtr s" using arg_cong [OF assms, of OSTCBCurPtr] by (simp add: os_less_k_def)
  show "OSTickCtr s' = OSTickCtr s" using arg_cong [OF assms, of OSTickCtr] by (simp add: os_less_k_def)
  show "OSIdleTaskTCB s' = OSIdleTaskTCB s" using arg_cong [OF assms, of OSIdleTaskTCB] by (simp add: os_less_k_def)
  show "OSTickTaskTCB s' = OSTickTaskTCB s" using arg_cong [OF assms, of OSTickTaskTCB] by (simp add: os_less_k_def)
  show "TmrRd s' = TmrRd s" using arg_cong [OF assms, of TmrRd] by (simp add: os_less_k_def)
  show "TmrRdIx s' = TmrRdIx s" using arg_cong [OF assms, of TmrRdIx] by (simp add: os_less_k_def)
qed

lemma kframe_globals:
  assumes "kframe X D s s'"
  shows "sems s' = sems s" "qs s' = qs s" "mutexes s' = mutexes s" "msgs s' = msgs s" "mems s' = mems s" "ram s' = ram s" "OSMsgPool s' = OSMsgPool s" "OSIntNestingCtr s' = OSIntNestingCtr s" "OSRunning s' = OSRunning s" "OSSchedLockNestingCtr s' = OSSchedLockNestingCtr s" "OSPrioCur s' = OSPrioCur s" "OSTCBCurPtr s' = OSTCBCurPtr s" "OSTickCtr s' = OSTickCtr s" "OSIdleTaskTCB s' = OSIdleTaskTCB s" "OSTickTaskTCB s' = OSTickTaskTCB s" "TmrRd s' = TmrRd s" "TmrRdIx s' = TmrRdIx s"
  using assms unfolding kframe_def by (blast dest: os_less_kD)+

subsection \<open>Readying and blocking\<close>

lemma OS_TaskRdy_ok:
  assumes K: "krel s R P W" and t: "tcbs s x = Some t" "unat (TCB_Prio t) < OS_CFG_PRIO_MAX" "x \<noteq> NULL"
    and n: "TCB_TaskState t AND OS_TASK_STATE_BIT_SUSPENDED = 0"
    and x: "x \<notin> set (R (unat (TCB_Prio t)))" "length (R (unat (TCB_Prio t))) < 65535"
  shows "\<exists>s' t'. OS_TaskRdy x s = Some s' \<and>
    krel s' (rdy_insert (OSPrioCur s) (TCB_Prio t) x R) P (\<lambda>i. filter (\<lambda>y. y \<noteq> x) (W i)) \<and>
    kframe {x} {} s s' \<and> tcbs s' x = Some t' \<and> tcb_base t' = tcb_base t \<and> TCB_TickSpokePtr t' = None"
proof -
  from K have rel: "rdy_rel s R" "pend_rel s P" "tick_rel s W" by (simp_all add: krel_def)
  from OS_TickListRemove_ok [OF rel(3) t(1)] obtain s1 t1 where
    s1: "OS_TickListRemove x s = Some s1" "tick_rel s1 (\<lambda>i. filter (\<lambda>y. y \<noteq> x) (W i))" "tick_frame s s1"
      "match_frame x s s1" "tcbs s1 x = Some t1" "TCB_TickSpokePtr t1 = None" by blast
  have b1: "tcb_base t1 = tcb_base t" using tcb_base_frames(2) [OF s1(3), of x] s1(5) t(1) by simp
  note e1 = tcb_base_eqD [OF b1]
  have R1: "rdy_rel s1 R" "pend_rel s1 P" using rel tick_frame_others [OF s1(3)] by simp_all
  have cur: "OSPrioCur s1 = OSPrioCur s" using s1(3) os_less_tickD(6) unfolding tick_frame_def by blast
  from OS_RdyListInsert_ok [OF R1(1) s1(5) _ t(3)] t(2) x obtain s2 where
    s2: "OS_RdyListInsert x s1 = Some s2" "rdy_rel s2 (rdy_insert (OSPrioCur s) (TCB_Prio t) x R)" "rdy_frame s1 s2"
    unfolding e1(1) cur by blast
  obtain t2 where t2: "tcbs s2 x = Some t2" "tcb_core t2 = tcb_core t1" by (rule rdy_frame_tcb [OF s2(3) s1(5)])
  have "OS_TaskRdy x s = Some s2" using s1(1,5) s2(1) n e1(2) by (simp add: OS_TaskRdy_def)
  moreover have "krel s2 (rdy_insert (OSPrioCur s) (TCB_Prio t) x R) P (\<lambda>i. filter (\<lambda>y. y \<noteq> x) (W i))"
    using s2(2) R1(2) s1(2) rdy_frame_others [OF s2(3)] by (simp add: krel_def)
  moreover have "kframe {x} {} s s2"
    using tick_frame_kframe [OF s1(3,4)] rdy_frame_kframe [OF s2(3)] by (metis insertI1 kframe_trans)
  ultimately show ?thesis using t2 b1 tcb_core_other(2) [OF t2(2)] tcb_core_eqD(9) [OF t2(2)] s1(6) by auto
qed

text \<open>The tick wheel after a task started to wait for \<open>timeout\<close> ticks.\<close>

definition tick_block :: "os \<Rightarrow> ptr \<Rightarrow> OS_TICK \<Rightarrow> os \<Rightarrow> (nat \<Rightarrow> ptr list) \<Rightarrow> nat \<Rightarrow> ptr list" where
  "tick_block s x timeout s' W =
     (if timeout = 0 then W
      else let i = unat ((OSTickCtr s + timeout) mod OSCfg_TickWheelSize) in W(i := time_insert (tick_remain s') x (W i)))"

lemma tick_remain_cong:
  "(\<And>x. map_option tick_view (tcbs s' x) = map_option tick_view (tcbs s x)) \<Longrightarrow> OSTickCtr s' = OSTickCtr s \<Longrightarrow>
   tick_remain s' = tick_remain s"
proof
  fix x assume a: "\<And>x. map_option tick_view (tcbs s' x) = map_option tick_view (tcbs s x)" "OSTickCtr s' = OSTickCtr s"
  have "map_option TCB_TickCtrMatch (tcbs s' x) = map_option TCB_TickCtrMatch (tcbs s x)"
    by (rule map_option_eq_via [OF a(1)]) (simp add: tick_view_def)
  then have "fld TCB_TickCtrMatch (tcbs s') x = fld TCB_TickCtrMatch (tcbs s) x"
    by (cases "tcbs s x"; cases "tcbs s' x"; simp add: fld_def)
  with a(2) show "tick_remain s' x = tick_remain s x" by (simp add: tick_remain_def)
qed

lemma tick_stage:
  assumes K: "krel s R P W" and t: "tcbs s x = Some t" "TCB_TickSpokePtr t = None" "x \<noteq> NULL" and len: "\<And>i. length (W i) < 65535"
  shows "\<exists>s1 t1. task_block_tick x timeout s = Some s1 \<and>
    krel s1 R P (tick_block s x timeout s1 W) \<and> kframe {x} {} s s1 \<and> tcbs s1 x = Some t1 \<and>
    tcb_base t1 = tcb_base (t\<lparr>TCB_TaskState := if timeout = 0 then OS_TASK_STATE_PEND else OS_TASK_STATE_PEND_TIMEOUT\<rparr>) \<and>
    (TCB_TickSpokePtr t1 = None \<longleftrightarrow> timeout = 0) \<and> (timeout \<noteq> 0 \<longrightarrow> TCB_TickCtrMatch t1 = OSTickCtr s + timeout)"
proof (cases "timeout = 0")
  case True
  let ?t = "t\<lparr>TCB_TaskState := OS_TASK_STATE_PEND\<rparr>" let ?s = "s\<lparr>tcbs := (tcbs s)(x \<mapsto> ?t)\<rparr>"
  have "krel ?s R P W" using K krel_tcb_upd [OF t(1), of ?t] by (simp add: rdy_view_def tick_view_def)
  moreover have "kframe {x} {} s ?s" using t(1) by (simp add: kframe_tcb_upd)
  ultimately show ?thesis using True t by (simp add: tick_block_def task_block_tick_def)
next
  case False
  then have pos: "timeout > 0" by (simp add: word_neq_0_conv)
  from K have W: "tick_rel s W" by (simp add: krel_def)
  have m: "tick_match t timeout OS_OPT_TIME_TIMEOUT (OSTickCtr s) = Some (OSTickCtr s + timeout)"
    using False by (simp add: tick_match_def)
  let ?i = "unat ((OSTickCtr s + timeout) mod OSCfg_TickWheelSize)"
  from OS_TickListInsert_ok [OF W t m refl len] obtain s1 where
    s1: "OS_TickListInsert x timeout OS_OPT_TIME_TIMEOUT s = Some (OS_ERR_NONE, s1)"
      "tick_rel s1 (W(?i := time_insert (tick_remain s1) x (W ?i)))" "tick_frame s s1" "match_frame x s s1"
      "fld TCB_TickCtrMatch (tcbs s1) x = OSTickCtr s + timeout" by blast
  have "map_option tcb_base (tcbs s1 x) = Some (tcb_base t)" using tcb_base_frames(2) [OF s1(3), of x] t by simp
  then obtain t1 where t1: "tcbs s1 x = Some t1" "tcb_base t1 = tcb_base t" by (auto simp: map_option_Some_iff)
  have "x \<in> set ((W(?i := time_insert (tick_remain s1) x (W ?i))) ?i)" by simp
  then have "on_spoke s1 ?i x" using s1(2) unfolding tick_rel_def tick_links_def by blast
  then have sp: "TCB_TickSpokePtr t1 \<noteq> None" using t1(1) by (simp add: on_spoke_def)
  let ?t = "t1\<lparr>TCB_TaskState := OS_TASK_STATE_PEND_TIMEOUT\<rparr>" let ?s = "s1\<lparr>tcbs := (tcbs s1)(x \<mapsto> ?t)\<rparr>"
  have rem: "tick_remain ?s = tick_remain s1" by (rule tick_remain_cong) (use t1 in \<open>auto simp: tick_view_def\<close>)
  have "krel s1 R P (W(?i := time_insert (tick_remain s1) x (W ?i)))"
    using K s1(2) tick_frame_others [OF s1(3)] by (simp add: krel_def)
  then have "krel ?s R P (tick_block s x timeout ?s W)"
    using krel_tcb_upd [OF t1(1), of ?t] False by (simp add: rdy_view_def tick_view_def tick_block_def Let_def rem)
  moreover have "kframe {x} {} s1 ?s" using t1(1) by (simp add: kframe_tcb_upd)
  then have "kframe {x} {} s ?s" using tick_frame_kframe [OF s1(3,4)] kframe_trans by blast
  moreover have "tcb_base ?t = tcb_base (t\<lparr>TCB_TaskState := OS_TASK_STATE_PEND_TIMEOUT\<rparr>)"
  proof -
    have "tcb_base (u\<lparr>TCB_TaskState := v\<rparr>) = (tcb_base u)\<lparr>TCB_TaskState := v\<rparr>" for u v
      by (simp add: tcb_base_def tcb_core_def tick_core_def)
    then show ?thesis by (simp add: t1(2))
  qed
  ultimately show ?thesis using pos False s1(1,5) t1(1) sp
    by (intro exI [of _ ?s] exI [of _ ?t]) (simp add: fld_Some task_block_tick_def)
qed

lemma OS_TaskBlock_ok:
  assumes K: "krel s R P W" and t: "tcbs s x = Some t" "TCB_TickSpokePtr t = None" "x \<noteq> NULL" and len: "\<And>i. length (W i) < 65535"
    and x: "x \<in> set (R p)" "unat (TCB_Prio t) = p"
  shows "\<exists>s1 t1. OS_TaskBlock x timeout s = Some s1 \<and>
    krel s1 (R(p := remove1 x (R p))) P (tick_block s x timeout s1 W) \<and> kframe {x} {} s s1 \<and> tcbs s1 x = Some t1 \<and>
    tcb_base t1 = tcb_base (t\<lparr>TCB_TaskState := if timeout = 0 then OS_TASK_STATE_PEND else OS_TASK_STATE_PEND_TIMEOUT\<rparr>) \<and>
    (TCB_TickSpokePtr t1 = None \<longleftrightarrow> timeout = 0) \<and> (timeout \<noteq> 0 \<longrightarrow> TCB_TickCtrMatch t1 = OSTickCtr s + timeout)"
proof -
  from tick_stage [OF K t len, of timeout] obtain s0 t0 where s0: "task_block_tick x timeout s = Some s0"
    "krel s0 R P (tick_block s x timeout s0 W)" "kframe {x} {} s s0" "tcbs s0 x = Some t0"
    "tcb_base t0 = tcb_base (t\<lparr>TCB_TaskState := if timeout = 0 then OS_TASK_STATE_PEND else OS_TASK_STATE_PEND_TIMEOUT\<rparr>)"
    "TCB_TickSpokePtr t0 = None \<longleftrightarrow> timeout = 0" "timeout \<noteq> 0 \<longrightarrow> TCB_TickCtrMatch t0 = OSTickCtr s + timeout" by metis
  from s0(2) have rel: "rdy_rel s0 R" "pend_rel s0 P" "tick_rel s0 (tick_block s x timeout s0 W)" by (simp_all add: krel_def)
  from OS_RdyListRemove_ok [OF rel(1) x(1)] obtain s1 where s1: "OS_RdyListRemove x s0 = Some s1"
    "rdy_rel s1 (R(p := remove1 x (R p)))" "rdy_frame s0 s1" by blast
  obtain t1 where t1: "tcbs s1 x = Some t1" "tcb_core t1 = tcb_core t0" by (rule rdy_frame_tcb [OF s1(3) s0(4)])
  have "tick_remain s1 = tick_remain s0"
  proof (rule tick_remain_cong)
    show "map_option tick_view (tcbs s1 y) = map_option tick_view (tcbs s0 y)" for y
      by (rule map_option_eq_via [OF _ tcb_core_views(1)]) (use s1(3) in \<open>simp_all add: rdy_frame_def\<close>)
    show "OSTickCtr s1 = OSTickCtr s0" using s1(3) os_less_rdyD(4) unfolding rdy_frame_def by blast
  qed
  then have tb: "tick_block s x timeout s1 W = tick_block s x timeout s0 W" by (simp add: tick_block_def)
  have "OS_TaskBlock x timeout s = Some s1" by (simp only: OS_TaskBlock_def s0(1) Option.bind.simps s1(1))
  moreover have "krel s1 (R(p := remove1 x (R p))) P (tick_block s x timeout s1 W)"
    using s1(2) rel(2,3) rdy_frame_others [OF s1(3)] by (simp add: krel_def tb)
  moreover have "kframe {x} {} s s1" using s0(3) rdy_frame_kframe [OF s1(3)] by (rule kframe_trans)
  ultimately show ?thesis using t1 s0(5-7) tcb_core_other(2) [OF t1(2)] tcb_core_eqD(9,10) [OF t1(2)] by auto
qed

end
