(* ===== verification/OS_Inv.thy ===== *)
theory OS_Inv
  imports OS_Core
begin

text \<open>
  The kernel invariant: the three structures agree with the state of every task.  A task is in
  the ready list exactly when its state is \<^verbatim>\<open>OS_TASK_STATE_RDY\<close>, on the tick wheel exactly when
  its state carries the delay bit, and the entries of its table of pend data are in the lists
  of the objects it waits on exactly while its state carries the pend bit.
\<close>

definition st_pend :: "OS_STATE \<Rightarrow> bool" where
  "st_pend st \<longleftrightarrow> st \<in> {OS_TASK_STATE_PEND, OS_TASK_STATE_PEND_TIMEOUT, OS_TASK_STATE_PEND_SUSPENDED, OS_TASK_STATE_PEND_TIMEOUT_SUSPENDED}"

definition st_tick :: "OS_STATE \<Rightarrow> bool" where
  "st_tick st \<longleftrightarrow> st \<in> {OS_TASK_STATE_DLY, OS_TASK_STATE_PEND_TIMEOUT, OS_TASK_STATE_DLY_SUSPENDED, OS_TASK_STATE_PEND_TIMEOUT_SUSPENDED}"

definition pend_tbl_ok :: "os \<Rightarrow> (ptr \<Rightarrow> ptr list) \<Rightarrow> ptr \<Rightarrow> OS_TCB \<Rightarrow> bool" where
  "pend_tbl_ok s P x t \<longleftrightarrow> (\<forall>d \<in> pend_tbl t. \<exists>e. pds s d = Some e \<and> PD_TCBPtr e = x \<and> d \<in> set (P (PD_PendObjPtr e)))"

definition task_ok :: "os \<Rightarrow> (nat \<Rightarrow> ptr list) \<Rightarrow> (ptr \<Rightarrow> ptr list) \<Rightarrow> ptr \<Rightarrow> OS_TCB \<Rightarrow> bool" where
  "task_ok s R P x t \<longleftrightarrow> x \<noteq> NULL \<and> (TCB_TaskState t = OS_TASK_STATE_DEL \<or> unat (TCB_Prio t) < OS_CFG_PRIO_MAX) \<and>
     (x \<in> set (R (unat (TCB_Prio t))) \<longleftrightarrow> TCB_TaskState t = OS_TASK_STATE_RDY) \<and>
     (TCB_TickSpokePtr t \<noteq> None \<longleftrightarrow> st_tick (TCB_TaskState t)) \<and>
     (if st_pend (TCB_TaskState t) then pend_tbl_ok s P x t else pend_tbl t = {})"

definition pend_owned :: "os \<Rightarrow> (ptr \<Rightarrow> ptr list) \<Rightarrow> bool" where
  "pend_owned s P \<longleftrightarrow> (\<forall>ob. \<forall>d \<in> set (P ob). \<exists>e t. pds s d = Some e \<and> tcbs s (PD_TCBPtr e) = Some t \<and> d \<in> pend_tbl t)"

definition mem_bound :: "os \<Rightarrow> bool" where
  "mem_bound s \<longleftrightarrow> finite (dom (tcbs s)) \<and> card (dom (tcbs s)) \<le> 65535 \<and> finite (dom (pds s)) \<and> card (dom (pds s)) \<le> 65535"

definition kinv :: "os \<Rightarrow> (nat \<Rightarrow> ptr list) \<Rightarrow> (ptr \<Rightarrow> ptr list) \<Rightarrow> (nat \<Rightarrow> ptr list) \<Rightarrow> bool" where
  "kinv s R P W \<longleftrightarrow> krel s R P W \<and> (\<forall>x t. tcbs s x = Some t \<longrightarrow> task_ok s R P x t) \<and> pend_owned s P \<and> mem_bound s"

lemma kinvD:
  assumes "kinv s R P W"
  shows "krel s R P W" "rdy_rel s R" "pend_rel s P" "tick_rel s W" "pend_owned s P" "mem_bound s"
    "\<And>x t. tcbs s x = Some t \<Longrightarrow> task_ok s R P x t"
  using assms by (simp_all add: kinv_def krel_def)

lemma distinct_subset_length:
  "distinct xs \<Longrightarrow> set xs \<subseteq> A \<Longrightarrow> x \<in> A \<Longrightarrow> x \<notin> set xs \<Longrightarrow> finite A \<Longrightarrow> card A \<le> n \<Longrightarrow> length xs < n"
proof -
  assume a: "distinct xs" "set xs \<subseteq> A" "x \<in> A" "x \<notin> set xs" "finite A" "card A \<le> n"
  then have "card (set xs) < card A" by (intro psubset_card_mono) auto
  with a show "length xs < n" by (simp add: distinct_card)
qed

lemma rdy_rel_list:
  assumes "rdy_rel s R"
  shows "distinct (R p)" "set (R p) \<subseteq> dom (tcbs s)"
    "y \<in> set (R p) \<Longrightarrow> \<exists>t. tcbs s y = Some t \<and> unat (TCB_Prio t) = p \<and> p < OS_CFG_PRIO_MAX"
proof -
  have "rdy_ok s p (R p) \<or> R p = []" using assms unfolding rdy_rel_def rdy_links_def by (metis not_less)
  then show "distinct (R p)" "set (R p) \<subseteq> dom (tcbs s)" by (auto simp: rdy_ok_def dest: linkedD(1))
  assume "y \<in> set (R p)"
  then have "R p \<noteq> []" by auto
  then have "p < OS_CFG_PRIO_MAX" using assms unfolding rdy_rel_def rdy_links_def by (metis not_less)
  then have "rdy_ok s p (R p)" using assms by (simp add: rdy_rel_def rdy_links_def)
  with \<open>y \<in> set (R p)\<close> \<open>p < OS_CFG_PRIO_MAX\<close> show "\<exists>t. tcbs s y = Some t \<and> unat (TCB_Prio t) = p \<and> p < OS_CFG_PRIO_MAX"
    by (auto simp: rdy_ok_def)
qed

lemma tick_rel_list:
  assumes "tick_rel s W"
  shows "distinct (W i)" "set (W i) \<subseteq> dom (tcbs s)"
proof -
  have "tick_ok s i (W i) \<or> W i = []" using assms unfolding tick_rel_def tick_links_def by (metis not_less)
  then show "distinct (W i)" "set (W i) \<subseteq> dom (tcbs s)" by (auto simp: tick_ok_def dest: linkedD(1,3))
qed

lemma pend_rel_list:
  assumes "pend_rel s P"
  shows "distinct (P ob)" "set (P ob) \<subseteq> dom (pds s)" "NULL \<notin> set (P ob)"
proof -
  have "pend_ok s ob (P ob) \<or> P ob = []" using assms unfolding pend_rel_def pend_links_def by metis
  then show "distinct (P ob)" "set (P ob) \<subseteq> dom (pds s)" "NULL \<notin> set (P ob)"
    by (auto simp: pend_ok_def dest: linkedD(1,2))
qed

lemma kinv_room:
  assumes K: "kinv s R P W"
  shows "x \<in> dom (tcbs s) \<Longrightarrow> x \<notin> set (R p) \<Longrightarrow> length (R p) < 65535"
    and "x \<in> dom (tcbs s) \<Longrightarrow> x \<notin> set (W i) \<Longrightarrow> length (W i) < 65535"
    and "d \<in> dom (pds s) \<Longrightarrow> d \<notin> set (P ob) \<Longrightarrow> length (P ob) < 65535"
proof -
  note k = kinvD [OF K]
  from k(6) have m: "finite (dom (tcbs s))" "card (dom (tcbs s)) \<le> 65535" "finite (dom (pds s))" "card (dom (pds s)) \<le> 65535"
    by (simp_all add: mem_bound_def)
  show "x \<in> dom (tcbs s) \<Longrightarrow> x \<notin> set (R p) \<Longrightarrow> length (R p) < 65535"
    using distinct_subset_length [OF rdy_rel_list(1,2) [OF k(2)]] m by blast
  show "x \<in> dom (tcbs s) \<Longrightarrow> x \<notin> set (W i) \<Longrightarrow> length (W i) < 65535"
    using distinct_subset_length [OF tick_rel_list(1,2) [OF k(4)]] m by blast
  show "d \<in> dom (pds s) \<Longrightarrow> d \<notin> set (P ob) \<Longrightarrow> length (P ob) < 65535"
    using distinct_subset_length [OF pend_rel_list(1,2) [OF k(3)]] m by blast
qed

subsection \<open>Re-establishing the invariant after one task changed\<close>

lemma tcb_other_sel:
  "TCB_Prio (tcb_other t) = TCB_Prio t" "TCB_TaskState (tcb_other t) = TCB_TaskState t"
  "TCB_PendDataTblPtr (tcb_other t) = TCB_PendDataTblPtr t" "TCB_PendDataTblEntries (tcb_other t) = TCB_PendDataTblEntries t"
  "TCB_TickSpokePtr (tcb_other t) = TCB_TickSpokePtr t"
  by (simp_all add: tcb_other_def tcb_core_def link_core_def)

lemma tcb_other_eqD:
  assumes "tcb_other t' = tcb_other t"
  shows "TCB_Prio t' = TCB_Prio t" "TCB_TaskState t' = TCB_TaskState t" "pend_tbl t' = pend_tbl t"
    "TCB_TickSpokePtr t' = TCB_TickSpokePtr t"
  using assms unfolding pend_tbl_def by (metis tcb_other_sel)+

lemma kframe_tcb:
  assumes "kframe X D s s'" "y \<notin> X"
  shows "tcbs s y = Some t \<Longrightarrow> \<exists>t'. tcbs s' y = Some t' \<and> tcb_other t' = tcb_other t"
    and "tcbs s' y = Some t' \<Longrightarrow> \<exists>t. tcbs s y = Some t \<and> tcb_other t' = tcb_other t"
proof -
  have e: "map_option tcb_other (tcbs s' y) = map_option tcb_other (tcbs s y)" using assms by (simp add: kframe_def)
  show "tcbs s y = Some t \<Longrightarrow> \<exists>t'. tcbs s' y = Some t' \<and> tcb_other t' = tcb_other t" using e by (auto simp: map_option_Some_iff)
  show "tcbs s' y = Some t' \<Longrightarrow> \<exists>t. tcbs s y = Some t \<and> tcb_other t' = tcb_other t"
    using e by (cases "tcbs s y") auto
qed

lemma kframe_pd:
  assumes "kframe X D s s'" "d \<notin> D" "pds s d = Some e"
  obtains e' where "pds s' d = Some e'" "PD_TCBPtr e' = PD_TCBPtr e" "PD_PendObjPtr e' = PD_PendObjPtr e"
proof -
  have "map_option pd_core (pds s' d) = map_option pd_core (pds s d)" using assms by (simp add: kframe_def)
  then obtain e' where "pds s' d = Some e'" "pd_core e' = pd_core e" using assms(3) by (auto simp: map_option_Some_iff)
  with that pd_core_eqD show ?thesis by blast
qed

lemma pend_tbl_disjoint:
  assumes "kinv s R P W" "tcbs s x = Some t" "tcbs s y = Some u" "x \<noteq> y"
  shows "pend_tbl t \<inter> pend_tbl u = {}"
proof -
  have "\<exists>e. pds s d = Some e \<and> PD_TCBPtr e = z" if "tcbs s z = Some v" "d \<in> pend_tbl v" for d z v
    using kinvD(7) [OF assms(1) that(1)] that(2) by (auto simp: task_ok_def pend_tbl_ok_def split: if_splits)
  from this [OF assms(2)] this [OF assms(3)] assms(4) show ?thesis by (metis disjoint_iff option.inject)
qed

text \<open>What a routine has to show when it changed one task \<open>x\<close> and the pend data \<open>D\<close>, which include
  all that \<open>x\<close> had and none of another task.\<close>

lemma kinv_task:
  assumes K: "kinv s R P W" and t: "tcbs s x = Some t" "pend_tbl t \<subseteq> D"
    and K': "krel s' R' P' W'" and F: "kframe {x} D s s'"
    and D: "\<And>y u. tcbs s y = Some u \<Longrightarrow> y \<noteq> x \<Longrightarrow> pend_tbl u \<inter> D = {}"
    and P': "\<And>ob d. d \<notin> D \<Longrightarrow> d \<in> set (P' ob) \<longleftrightarrow> d \<in> set (P ob)"
    and R': "\<And>y p. y \<noteq> x \<Longrightarrow> y \<in> set (R' p) \<longleftrightarrow> y \<in> set (R p)"
    and own: "\<And>ob d. d \<in> D \<Longrightarrow> d \<in> set (P' ob) \<Longrightarrow> d \<in> pend_tbl t' \<and> (\<exists>e. pds s' d = Some e \<and> PD_TCBPtr e = x)"
    and t': "tcbs s' x = Some t'" "task_ok s' R' P' x t'"
  shows "kinv s' R' P' W'"
proof -
  note k = kinvD [OF K]
  have other: "task_ok s' R' P' y u'" if "tcbs s' y = Some u'" "y \<noteq> x" for y u'
  proof -
    from kframe_tcb(2) [OF F _ that(1)] that(2) obtain u where u: "tcbs s y = Some u" "tcb_other u' = tcb_other u" by auto
    note e = tcb_other_eqD [OF u(2)]
    have "pend_tbl_ok s' P' y u'" if o: "pend_tbl_ok s P y u" unfolding pend_tbl_ok_def e(3)
    proof
      fix d assume d: "d \<in> pend_tbl u"
      then have nd: "d \<notin> D" using D [OF u(1) \<open>y \<noteq> x\<close>] by blast
      from o d obtain g where g: "pds s d = Some g" "PD_TCBPtr g = y" "d \<in> set (P (PD_PendObjPtr g))"
        by (auto simp: pend_tbl_ok_def)
      obtain g' where "pds s' d = Some g'" "PD_TCBPtr g' = PD_TCBPtr g" "PD_PendObjPtr g' = PD_PendObjPtr g"
        by (rule kframe_pd [OF F nd g(1)])
      with g show "\<exists>g. pds s' d = Some g \<and> PD_TCBPtr g = y \<and> d \<in> set (P' (PD_PendObjPtr g))" by (simp add: P' [OF nd])
    qed
    with k(7) [OF u(1)] R' [OF that(2)] show ?thesis by (auto simp: task_ok_def e split: if_splits)
  qed
  with t' have "\<forall>y u. tcbs s' y = Some u \<longrightarrow> task_ok s' R' P' y u" by (metis option.inject)
  moreover have "pend_owned s' P'" unfolding pend_owned_def
  proof (intro allI ballI)
    fix ob d assume d: "d \<in> set (P' ob)"
    show "\<exists>e t. pds s' d = Some e \<and> tcbs s' (PD_TCBPtr e) = Some t \<and> d \<in> pend_tbl t"
    proof (cases "d \<in> D")
      case True
      with own [OF True d] t'(1) show ?thesis by auto
    next
      case False
      with d P' have "d \<in> set (P ob)" by blast
      with k(5) obtain g u where g: "pds s d = Some g" "tcbs s (PD_TCBPtr g) = Some u" "d \<in> pend_tbl u"
        unfolding pend_owned_def by blast
      obtain g' where g': "pds s' d = Some g'" "PD_TCBPtr g' = PD_TCBPtr g" by (rule kframe_pd [OF F False g(1)])
      have "PD_TCBPtr g \<noteq> x" using g t False by auto
      with kframe_tcb(1) [OF F _ g(2)] obtain u' where u': "tcbs s' (PD_TCBPtr g) = Some u'" "tcb_other u' = tcb_other u" by auto
      have "d \<in> pend_tbl u'" using g(3) tcb_other_eqD(3) [OF u'(2)] by simp
      with g' u'(1) show ?thesis by metis
    qed
  qed
  moreover have "mem_bound s'" using k(6) F by (simp add: mem_bound_def kframe_def)
  ultimately show ?thesis using K' by (simp add: kinv_def)
qed

text \<open>One task \<open>x\<close> stopped waiting: its entries left their lists, and its state no longer carries
  the pend bit.\<close>

lemma kinv_wake:
  assumes K: "kinv s R P W" and t: "tcbs s x = Some t" "TCB_TaskState t \<noteq> OS_TASK_STATE_DEL"
    and K': "krel s' R' P' W'" and P': "P' = (\<lambda>ob. filter (\<lambda>d. d \<notin> pend_tbl t) (P ob))"
    and F: "kframe {x} (pend_tbl t) s s'"
    and R': "\<And>y p. y \<noteq> x \<Longrightarrow> y \<in> set (R' p) \<longleftrightarrow> y \<in> set (R p)"
    and t': "tcbs s' x = Some t'" "TCB_Prio t' = TCB_Prio t" "pend_tbl t' = {}" "\<not> st_pend (TCB_TaskState t')"
      "TCB_TickSpokePtr t' \<noteq> None \<longleftrightarrow> st_tick (TCB_TaskState t')"
      "x \<in> set (R' (unat (TCB_Prio t))) \<longleftrightarrow> TCB_TaskState t' = OS_TASK_STATE_RDY"
  shows "kinv s' R' P' W'"
proof -
  have "task_ok s' R' P' x t'" using kinvD(7) [OF K t(1)] t(2) t' by (simp add: task_ok_def)
  from kinv_task [OF K t(1) subset_refl K' F _ _ R' _ t'(1) this] pend_tbl_disjoint [OF K _ t(1)]
  show ?thesis by (auto simp: P')
qed

subsection \<open>The stages of waking a task\<close>

text \<open>\<open>staged s R P W x t s0 t0\<close>: on the way from \<open>s\<close>, the structures of \<open>s0\<close> are \<open>R\<close>, \<open>P\<close> and \<open>W\<close>,
  only the task \<open>x\<close> and its pend data have changed, and its priority and state have not.\<close>

definition staged :: "os \<Rightarrow> (nat \<Rightarrow> ptr list) \<Rightarrow> (ptr \<Rightarrow> ptr list) \<Rightarrow> (nat \<Rightarrow> ptr list) \<Rightarrow> ptr \<Rightarrow> OS_TCB \<Rightarrow> os \<Rightarrow> OS_TCB \<Rightarrow> bool" where
  "staged s R P W x t s0 t0 \<longleftrightarrow> krel s0 R P W \<and> kframe {x} (pend_tbl t) s s0 \<and> tcbs s0 x = Some t0 \<and>
     TCB_Prio t0 = TCB_Prio t \<and> TCB_TaskState t0 = TCB_TaskState t"

lemma stagedD:
  assumes "staged s R P W x t s0 t0"
  shows "krel s0 R P W" "rdy_rel s0 R" "pend_rel s0 P" "tick_rel s0 W" "kframe {x} (pend_tbl t) s s0" "tcbs s0 x = Some t0"
    "TCB_Prio t0 = TCB_Prio t" "TCB_TaskState t0 = TCB_TaskState t"
  using assms by (simp_all add: staged_def krel_def)

lemma staged_start: "kinv s R P W \<Longrightarrow> tcbs s x = Some t \<Longrightarrow> staged s R P W x t s t"
  by (simp add: staged_def kinv_def)

lemma staged_tcb:
  assumes S: "staged s R P W x t s0 t0"
    and f: "rdy_view (f t0) = rdy_view t0" "tick_view (f t0) = tick_view t0" "TCB_TaskState (f t0) = TCB_TaskState t0"
  shows "tcb_mod x f s0 = Some (s0\<lparr>tcbs := (tcbs s0)(x \<mapsto> f t0)\<rparr>)"
    and "staged s R P W x t (s0\<lparr>tcbs := (tcbs s0)(x \<mapsto> f t0)\<rparr>) (f t0)"
proof -
  note d = stagedD [OF S]
  show "tcb_mod x f s0 = Some (s0\<lparr>tcbs := (tcbs s0)(x \<mapsto> f t0)\<rparr>)" using d(6) by simp
  have "kframe {x} (pend_tbl t) s0 (s0\<lparr>tcbs := (tcbs s0)(x \<mapsto> f t0)\<rparr>)" using d(6) by (simp add: kframe_tcb_upd)
  with d(5) have "kframe {x} (pend_tbl t) s (s0\<lparr>tcbs := (tcbs s0)(x \<mapsto> f t0)\<rparr>)" by (rule kframe_trans)
  moreover have "TCB_Prio (f t0) = TCB_Prio t" using f(1) d(7) by (simp add: rdy_view_def)
  ultimately show "staged s R P W x t (s0\<lparr>tcbs := (tcbs s0)(x \<mapsto> f t0)\<rparr>) (f t0)"
    using d(1,6,8) f krel_tcb_upd [OF d(6) f(1,2)] by (simp add: staged_def)
qed

lemma pend_find_loop_ok:
  assumes "\<And>i. i < n \<Longrightarrow> p + i \<in> dom (pds s)" "\<And>d. pd_view (f d) = pd_view d"
  shows "\<exists>h. pend_find_loop f n ob p s = Some (s\<lparr>pds := h\<rparr>) \<and> dom h = dom (pds s) \<and>
    (\<forall>d. map_option pd_view (h d) = map_option pd_view (pds s d)) \<and> (\<forall>d. d \<notin> {p..<p + n} \<longrightarrow> h d = pds s d)"
  using assms(1)
proof (induction n arbitrary: p)
  case 0
  then show ?case by (intro exI [of _ "pds s"]) simp
next
  case (Suc n)
  from Suc.prems [of 0] obtain e where e: "pds s p = Some e" by auto
  show ?case
  proof (cases "ob = PD_PendObjPtr e")
    case True
    have "dom ((pds s)(p \<mapsto> f e)) = dom (pds s)" using e by auto
    with True e show ?thesis by (intro exI [of _ "(pds s)(p \<mapsto> f e)"]) (simp add: assms(2) fun_upd_def)
  next
    case False
    have "\<And>i. i < n \<Longrightarrow> p + 1 + i \<in> dom (pds s)" using Suc.prems [of "Suc _"] by auto
    from Suc.IH [OF this] obtain h where "pend_find_loop f n ob (p + 1) s = Some (s\<lparr>pds := h\<rparr>)" "dom h = dom (pds s)"
      "\<forall>d. map_option pd_view (h d) = map_option pd_view (pds s d)" "\<forall>d. d \<notin> {p + 1..<p + 1 + n} \<longrightarrow> h d = pds s d" by blast
    with False e show ?thesis by (intro exI [of _ h]) auto
  qed
qed

lemma staged_find:
  assumes K: "kinv s R P W" "tcbs s x = Some t" "st_pend (TCB_TaskState t)"
    and S: "staged s R P W x t s0 t0" "pend_tbl t0 = pend_tbl t" and f: "\<And>d. pd_view (f d) = pd_view d"
  shows "\<exists>s1. pend_find_loop f (unat (TCB_PendDataTblEntries t0)) ob (TCB_PendDataTblPtr t0) s0 = Some s1 \<and>
    staged s R P W x t s1 t0"
proof -
  note d = stagedD [OF S(1)]
  have "pend_tbl t \<subseteq> dom (pds s)" using kinvD(7) [OF K(1,2)] K(3) by (auto simp: task_ok_def pend_tbl_ok_def)
  then have "pend_tbl t0 \<subseteq> dom (pds s0)" using d(5) S(2) by (simp add: kframe_def)
  then have "TCB_PendDataTblPtr t0 + i \<in> dom (pds s0)" if "i < unat (TCB_PendDataTblEntries t0)" for i
    by (rule subsetD) (use that in \<open>simp add: pend_tbl_def\<close>)
  from pend_find_loop_ok [of "unat (TCB_PendDataTblEntries t0)" "TCB_PendDataTblPtr t0" s0 f ob, OF this f] obtain h where
    h: "pend_find_loop f (unat (TCB_PendDataTblEntries t0)) ob (TCB_PendDataTblPtr t0) s0 = Some (s0\<lparr>pds := h\<rparr>)"
      "dom h = dom (pds s0)" "\<forall>d. map_option pd_view (h d) = map_option pd_view (pds s0 d)"
      "\<forall>d. d \<notin> pend_tbl t0 \<longrightarrow> h d = pds s0 d" unfolding pend_tbl_def by blast
  have "krel (s0\<lparr>pds := h\<rparr>) R P W = krel s0 R P W" by (rule krel_cong) (use h(3) in simp_all)
  moreover have "kframe {x} (pend_tbl t) s0 (s0\<lparr>pds := h\<rparr>)" using h(2,4) S(2) by (simp add: kframe_def os_less_k_def)
  ultimately have "staged s R P W x t (s0\<lparr>pds := h\<rparr>) t0"
    using d kframe_trans by (auto simp: staged_def)
  with h(1) show ?thesis by blast
qed

lemma staged_unlink:
  assumes K: "kinv s R P W" "tcbs s x = Some t" and S: "staged s R P W' x t s0 t0" "pend_tbl t0 = pend_tbl t"
  shows "\<exists>s1. OS_PendListRemove x s0 = Some s1 \<and>
    staged s R (\<lambda>ob. filter (\<lambda>d. d \<notin> pend_tbl t) (P ob)) W' x t s1
      (t0\<lparr>TCB_PendDataTblEntries := 0, TCB_PendDataTblPtr := NULL\<rparr>)"
proof -
  note d = stagedD [OF S(1)]
  let ?t = "t0\<lparr>TCB_PendDataTblEntries := 0, TCB_PendDataTblPtr := NULL\<rparr>"
  have "\<And>y. y \<in> pend_tbl t0 \<Longrightarrow> \<exists>ob. y \<in> set (P ob)"
    using kinvD(7) [OF K] S(2) by (auto simp: task_ok_def pend_tbl_ok_def split: if_splits)
  from OS_PendListRemove_ok [OF d(3,6) this] obtain s1 where
    s1: "OS_PendListRemove x s0 = Some (s1\<lparr>tcbs := (tcbs s0)(x \<mapsto> ?t)\<rparr>)"
      "pend_rel s1 (\<lambda>ob. filter (\<lambda>d. d \<notin> pend_tbl t) (P ob))" "pend_frame s0 s1" unfolding S(2) by blast
  have tc: "tcbs s1 = tcbs s0" by (rule pend_frame_tcbs [OF s1(3)])
  have "krel s1 R (\<lambda>ob. filter (\<lambda>d. d \<notin> pend_tbl t) (P ob)) W'"
    using s1(2) d(2,4) pend_frame_others [OF s1(3)] by (simp add: krel_def)
  moreover have "kframe {x} (pend_tbl t) s s1" using d(5) pend_frame_kframe [OF s1(3)] by (rule kframe_trans)
  ultimately have "staged s R (\<lambda>ob. filter (\<lambda>d. d \<notin> pend_tbl t) (P ob)) W' x t s1 t0"
    using d(6-8) tc by (simp add: staged_def)
  from staged_tcb(2) [OF this, of "\<lambda>t. t\<lparr>TCB_PendDataTblEntries := 0, TCB_PendDataTblPtr := NULL\<rparr>"] s1(1) tc
  show ?thesis by (simp add: rdy_view_def tick_view_def)
qed

lemma staged_obj:
  assumes S: "staged s R P W x t s0 t0" and b: "objs s0 ob = Some b"
  shows "staged s R P W x t (s0\<lparr>objs := (objs s0)(ob \<mapsto> b\<lparr>OBJ_DbgNamePtr := n\<rparr>)\<rparr>) t0"
proof -
  note d = stagedD [OF S]
  let ?s = "s0\<lparr>objs := (objs s0)(ob \<mapsto> b\<lparr>OBJ_DbgNamePtr := n\<rparr>)\<rparr>"
  have "krel ?s R P W = krel s0 R P W" by (rule krel_cong) (use b in auto)
  moreover have "kframe {x} (pend_tbl t) s0 ?s" using b by (auto simp: kframe_def os_less_k_def obj_other_def obj_core_def)
  with d(5) have "kframe {x} (pend_tbl t) s ?s" by (rule kframe_trans)
  ultimately show ?thesis using d by (simp add: staged_def)
qed

lemma pend_head:
  assumes P: "pend_rel s P" and b: "objs s ob = Some b" and h: "PL_HeadPtr (OBJ_PendList b) \<noteq> NULL"
  obtains e t where "P ob \<noteq> []" "PL_HeadPtr (OBJ_PendList b) = hd (P ob)" "pds s (hd (P ob)) = Some e"
    "PD_PendObjPtr e = ob" "tcbs s (PD_TCBPtr e) = Some t"
proof -
  from P have "pend_links s P" by (simp add: pend_rel_def)
  note l = pend_links_obtain [OF this b]
  from linkedD(4) [OF l(2)] h have hd: "PL_HeadPtr (OBJ_PendList b) = hd (P ob)" "P ob \<noteq> []" by (cases "P ob"; simp)+
  then have "hd (P ob) \<in> set (P ob)" by simp
  from l(3) [OF this] hd that show ?thesis by blast
qed

lemma staged_dbg:
  assumes S: "staged s R P W x t s0 t0" and ob: "ob \<in> dom (objs s)"
  shows "\<exists>s1. OS_PendDbgNameRemove ob x s0 = Some s1 \<and> staged s R P W x t s1 (t0\<lparr>TCB_DbgNamePtr := '' ''\<rparr>)"
proof -
  let ?t = "t0\<lparr>TCB_DbgNamePtr := '' ''\<rparr>" let ?s = "s0\<lparr>tcbs := (tcbs s0)(x \<mapsto> ?t)\<rparr>"
  have S1: "staged s R P W x t ?s ?t" "tcb_mod x (\<lambda>t. t\<lparr>TCB_DbgNamePtr := '' ''\<rparr>) s0 = Some ?s"
    using staged_tcb [OF S, of "\<lambda>t. t\<lparr>TCB_DbgNamePtr := '' ''\<rparr>"] by (simp_all add: rdy_view_def tick_view_def)
  note d = stagedD [OF S1(1)]
  have "map_option obj_other (objs ?s ob) = map_option obj_other (objs s ob)" using d(5) unfolding kframe_def by blast
  with ob obtain b where b: "objs ?s ob = Some b" by (auto simp: map_option_Some_iff)
  show ?thesis
  proof (cases "PL_HeadPtr (OBJ_PendList b) = NULL")
    case True
    then show ?thesis using S1(2) b staged_obj [OF S1(1) b] by (simp add: OS_PendDbgNameRemove_def)
  next
    case False
    from pend_head [OF d(3) b False] obtain e u where "PL_HeadPtr (OBJ_PendList b) = hd (P ob)" "pds ?s (hd (P ob)) = Some e"
      "tcbs ?s (PD_TCBPtr e) = Some u" by metis
    then show ?thesis using S1(2) b False staged_obj [OF S1(1) b] by (simp add: OS_PendDbgNameRemove_def Let_def)
  qed
qed

lemma staged_rdy:
  assumes K: "kinv s R P W" "tcbs s x = Some t" "TCB_TaskState t \<noteq> OS_TASK_STATE_RDY" "TCB_TaskState t AND OS_TASK_STATE_BIT_SUSPENDED = 0"
    and S: "staged s R P' W x t s0 t0"
  shows "\<exists>s1 t1. OS_TaskRdy x s0 = Some s1 \<and>
    staged s (rdy_insert (OSPrioCur s) (TCB_Prio t) x R) P' (\<lambda>i. filter (\<lambda>y. y \<noteq> x) (W i)) x t s1 t1 \<and>
    tcb_base t1 = tcb_base t0 \<and> TCB_TickSpokePtr t1 = None"
proof -
  note d = stagedD [OF S]
  have "TCB_TaskState t \<noteq> OS_TASK_STATE_DEL" using K(4) by auto
  then have ok: "x \<noteq> NULL" "unat (TCB_Prio t) < OS_CFG_PRIO_MAX" "x \<notin> set (R (unat (TCB_Prio t)))"
    using kinvD(7) [OF K(1,2)] K(3) by (simp_all add: task_ok_def)
  have "OSPrioCur s0 = OSPrioCur s" using d(5) by (rule kframe_globals)
  moreover have "length (R (unat (TCB_Prio t))) < 65535" using kinv_room(1) [OF K(1) _ ok(3)] K(2) by auto
  ultimately obtain s1 t1 where s1: "OS_TaskRdy x s0 = Some s1"
    "krel s1 (rdy_insert (OSPrioCur s) (TCB_Prio t) x R) P' (\<lambda>i. filter (\<lambda>y. y \<noteq> x) (W i))"
    "kframe {x} {} s0 s1" "tcbs s1 x = Some t1" "tcb_base t1 = tcb_base t0" "TCB_TickSpokePtr t1 = None"
    using OS_TaskRdy_ok [OF d(1,6)] ok K(4) d(7,8) by auto
  have "kframe {x} (pend_tbl t) s s1" using d(5) kframe_mono [OF s1(3)] kframe_trans by blast
  with s1 d tcb_base_eqD [OF s1(5)] show ?thesis by (auto simp: staged_def)
qed

lemma staged_untick:
  assumes S: "staged s R P W x t s0 t0"
  shows "\<exists>s1 t1. OS_TickListRemove x s0 = Some s1 \<and> staged s R P (\<lambda>i. filter (\<lambda>y. y \<noteq> x) (W i)) x t s1 t1 \<and>
    tcb_base t1 = tcb_base t0 \<and> TCB_TickSpokePtr t1 = None"
proof -
  note d = stagedD [OF S]
  from OS_TickListRemove_ok [OF d(4,6)] obtain s1 t1 where s1: "OS_TickListRemove x s0 = Some s1"
    "tick_rel s1 (\<lambda>i. filter (\<lambda>y. y \<noteq> x) (W i))" "tick_frame s0 s1" "match_frame x s0 s1" "tcbs s1 x = Some t1"
    "TCB_TickSpokePtr t1 = None" by blast
  have b: "tcb_base t1 = tcb_base t0" using tcb_base_frames(2) [OF s1(3), of x] s1(5) d(6) by simp
  have "kframe {x} (pend_tbl t) s s1" using d(5) tick_frame_kframe [OF s1(3,4)] kframe_trans by blast
  with s1 d b tcb_base_eqD [OF b] tick_frame_others [OF s1(3)] show ?thesis by (auto simp: staged_def krel_def)
qed

lemma wake_finish:
  assumes K: "kinv s R P W" "tcbs s x = Some t" "TCB_TaskState t \<noteq> OS_TASK_STATE_DEL"
    and S: "staged s R' P' W' x t s2 t2" "P' = (\<lambda>ob. filter (\<lambda>d. d \<notin> pend_tbl t) (P ob))"
      "pend_tbl t2 = {}" "TCB_TickSpokePtr t2 = None"
    and R': "\<And>y p. y \<noteq> x \<Longrightarrow> y \<in> set (R' p) \<longleftrightarrow> y \<in> set (R p)"
      "x \<in> set (R' (unat (TCB_Prio t))) \<longleftrightarrow> TCB_TaskState (g t2) = OS_TASK_STATE_RDY"
    and g: "rdy_view (g t2) = rdy_view t2" "tick_view (g t2) = tick_view t2" "pend_tbl (g t2) = pend_tbl t2"
      "TCB_TaskState (g t2) \<in> {OS_TASK_STATE_RDY, OS_TASK_STATE_SUSPENDED}"
  shows "\<exists>s3. tcb_mod x g s2 = Some s3 \<and> kinv s3 R' P' W' \<and> kframe {x} (pend_tbl t) s s3 \<and> tcbs s3 x = Some (g t2)"
proof -
  note d = stagedD [OF S(1)]
  let ?s = "s2\<lparr>tcbs := (tcbs s2)(x \<mapsto> g t2)\<rparr>"
  have "krel ?s R' P' W'" using d(1) krel_tcb_upd [OF d(6) g(1,2)] by simp
  moreover have F: "kframe {x} (pend_tbl t) s ?s"
    using d(5) kframe_tcb_upd [OF d(6), of "{x}" "pend_tbl t" "g t2"] kframe_trans by blast
  moreover have "TCB_Prio (g t2) = TCB_Prio t" "TCB_TickSpokePtr (g t2) = None"
    using g(1,2) d(7) S(4) by (simp_all add: rdy_view_def tick_view_def)
  ultimately have "kinv ?s R' P' W'"
    using K S(2,3) R' g(3,4) by (intro kinv_wake [OF K, of ?s R' P' W' "g t2"]) (auto simp: st_pend_def st_tick_def)
  then show ?thesis using F d(6) by simp
qed

lemma tcb_base_key:
  "tcb_base t' = tcb_base t \<Longrightarrow> pend_tbl t' = pend_tbl t"
  unfolding pend_tbl_def by (metis tcb_base_eqD(3,4))

lemma pend_tbl_reset [simp]: "pend_tbl (t\<lparr>TCB_PendDataTblEntries := 0, TCB_PendDataTblPtr := p\<rparr>) = {}"
  by (simp add: pend_tbl_def)

lemma rdy_insert_mem:
  "y \<noteq> x \<Longrightarrow> y \<in> set (rdy_insert c p x R q) \<longleftrightarrow> y \<in> set (R q)" "x \<in> set (rdy_insert c p x R (unat p))"
  by (auto simp: rdy_insert_def)

lemma st_pend_cases:
  "st \<in> {OS_TASK_STATE_PEND, OS_TASK_STATE_PEND_TIMEOUT} \<Longrightarrow>
     st_pend st \<and> st \<noteq> OS_TASK_STATE_RDY \<and> st AND OS_TASK_STATE_BIT_SUSPENDED = (0 :: OS_STATE)"
  by (auto simp: st_pend_def)

definition tcb_msg :: "OS_TCB \<Rightarrow> ptr \<times> OS_MSG_SIZE \<times> CPU_TS" where
  "tcb_msg t = (TCB_MsgPtr t, TCB_MsgSize t, TCB_TS t)"

lemma tcb_base_msg: "tcb_base t' = tcb_base t \<Longrightarrow> tcb_msg t' = tcb_msg t"
proof -
  have "tcb_msg (tcb_base t) = tcb_msg t" for t by (simp add: tcb_msg_def tcb_base_def tcb_core_def tick_core_def)
  then show "tcb_base t' = tcb_base t \<Longrightarrow> tcb_msg t' = tcb_msg t" by metis
qed

lemma stage_unlink_opt:
  assumes K: "kinv s R P W" "tcbs s x = Some t" and S: "staged s R P W' x t s1 t1" "pend_tbl t1 = pend_tbl t"
    and ob: "p_obj = NULL \<Longrightarrow> pend_tbl t = {}"
  obtains s2 t2 where "(if p_obj \<noteq> NULL then OS_PendListRemove x s1 else Some s1) = Some s2"
    "staged s R (\<lambda>ob. filter (\<lambda>d. d \<notin> pend_tbl t) (P ob)) W' x t s2 t2" "pend_tbl t2 = {}" "tcb_msg t2 = tcb_msg t1"
    "TCB_TickSpokePtr t2 = TCB_TickSpokePtr t1"
proof (cases "p_obj = NULL")
  case True
  with ob S that [of s1 t1] show ?thesis by simp
next
  case False
  from staged_unlink [OF K S] False that show ?thesis by (auto simp: tcb_msg_def)
qed

lemma stage_unlink_dbg:
  assumes K: "kinv s R P W" "tcbs s x = Some t" and S: "staged s R P W' x t s1 t1" "pend_tbl t1 = pend_tbl t"
    and ob: "if p_obj = NULL then pend_tbl t = {} else p_obj \<in> dom (objs s)"
  obtains s2 t2 where "(if p_obj \<noteq> NULL then OS_PendListRemove x s1 \<bind> OS_PendDbgNameRemove p_obj x else Some s1) = Some s2"
    "staged s R (\<lambda>ob. filter (\<lambda>d. d \<notin> pend_tbl t) (P ob)) W' x t s2 t2" "pend_tbl t2 = {}" "tcb_msg t2 = tcb_msg t1"
    "TCB_TickSpokePtr t2 = TCB_TickSpokePtr t1"
proof (cases "p_obj = NULL")
  case True
  with ob S that [of s1 t1] show ?thesis by simp
next
  case False
  let ?t = "t1\<lparr>TCB_PendDataTblEntries := 0, TCB_PendDataTblPtr := NULL\<rparr>"
  from staged_unlink [OF K S] obtain s2 where s2: "OS_PendListRemove x s1 = Some s2"
    "staged s R (\<lambda>ob. filter (\<lambda>d. d \<notin> pend_tbl t) (P ob)) W' x t s2 ?t" by blast
  have "p_obj \<in> dom (objs s)" using ob False by simp
  from staged_dbg [OF s2(2) this] obtain s3 where "OS_PendDbgNameRemove p_obj x s2 = Some s3"
    "staged s R (\<lambda>ob. filter (\<lambda>d. d \<notin> pend_tbl t) (P ob)) W' x t s3 (?t\<lparr>TCB_DbgNamePtr := '' ''\<rparr>)" by blast
  with that [of s3 "?t\<lparr>TCB_DbgNamePtr := '' ''\<rparr>"] s2(1) False show ?thesis by (simp add: tcb_msg_def pend_tbl_def)
qed

subsection \<open>\<^verbatim>\<open>OS_PendAbort\<close>, \<^verbatim>\<open>OS_PendObjDel\<close> and \<^verbatim>\<open>OS_Post\<close>\<close>

lemma stage_post:
  assumes K: "kinv s R P W" "tcbs s x = Some t" "st_pend (TCB_TaskState t)"
  obtains s1 t1 where "(if TCB_PendOn t = OS_TASK_PEND_ON_MULTI then OS_Post1 p_obj x p_void msg_size ts s
      else tcb_mod x (\<lambda>t. t\<lparr>TCB_MsgPtr := p_void, TCB_MsgSize := msg_size, TCB_TS := ts\<rparr>) s) = Some s1"
    "staged s R P W x t s1 t1" "pend_tbl t1 = pend_tbl t" "TCB_TickSpokePtr t1 = TCB_TickSpokePtr t"
    "TCB_PendOn t \<noteq> OS_TASK_PEND_ON_MULTI \<longrightarrow> tcb_msg t1 = (p_void, msg_size, ts)"
proof (cases "TCB_PendOn t = OS_TASK_PEND_ON_MULTI")
  case True
  from staged_find [OF K staged_start [OF K(1,2)] refl,
      of "\<lambda>d. d\<lparr>PD_RdyObjPtr := p_obj, PD_RdyMsgPtr := p_void, PD_RdyMsgSize := msg_size, PD_RdyTS := ts\<rparr>" p_obj]
  obtain s1 where "OS_Post1 p_obj x p_void msg_size ts s = Some s1" "staged s R P W x t s1 t"
    using K(2) by (auto simp: OS_Post1_def pd_view_def)
  with True that show ?thesis by auto
next
  case False
  let ?f = "\<lambda>t. t\<lparr>TCB_MsgPtr := p_void, TCB_MsgSize := msg_size, TCB_TS := ts\<rparr>"
  from staged_tcb [OF staged_start [OF K(1,2)], of ?f] False that [OF _ _ _ _ _] show ?thesis
    by (auto simp: rdy_view_def tick_view_def tcb_msg_def pend_tbl_def)
qed

text \<open>What waking a task means: \<open>t\<close> is the task before and \<open>t'\<close> after.  A task that is also
  suspended stays off the ready list.\<close>

definition wake_rdy :: "os \<Rightarrow> ptr \<Rightarrow> OS_TCB \<Rightarrow> (nat \<Rightarrow> ptr list) \<Rightarrow> nat \<Rightarrow> ptr list" where
  "wake_rdy s x t R = (if TCB_TaskState t AND OS_TASK_STATE_BIT_SUSPENDED = 0
     then rdy_insert (OSPrioCur s) (TCB_Prio t) x R else R)"

definition woken :: "os \<Rightarrow> (nat \<Rightarrow> ptr list) \<Rightarrow> (ptr \<Rightarrow> ptr list) \<Rightarrow> (nat \<Rightarrow> ptr list) \<Rightarrow> ptr \<Rightarrow> OS_TCB \<Rightarrow> os \<Rightarrow> OS_TCB \<Rightarrow> bool" where
  "woken s R P W x t s' t' \<longleftrightarrow>
     kinv s' (wake_rdy s x t R) (\<lambda>ob. filter (\<lambda>d. d \<notin> pend_tbl t) (P ob)) (\<lambda>i. filter (\<lambda>y. y \<noteq> x) (W i)) \<and>
     kframe {x} (pend_tbl t) s s' \<and> tcbs s' x = Some t' \<and> TCB_Prio t' = TCB_Prio t \<and>
     TCB_TaskState t' = TCB_TaskState t AND OS_TASK_STATE_BIT_SUSPENDED \<and> TCB_PendOn t' = OS_TASK_PEND_ON_NOTHING"

lemma st_pend_split:
  "st_pend st \<Longrightarrow> st \<in> {OS_TASK_STATE_PEND, OS_TASK_STATE_PEND_TIMEOUT} \<and> st AND OS_TASK_STATE_BIT_SUSPENDED = (0 :: OS_STATE) \<or>
     st \<in> {OS_TASK_STATE_PEND_SUSPENDED, OS_TASK_STATE_PEND_TIMEOUT_SUSPENDED} \<and>
     st \<notin> {OS_TASK_STATE_PEND, OS_TASK_STATE_PEND_TIMEOUT} \<and> st AND OS_TASK_STATE_BIT_SUSPENDED = (4 :: OS_STATE)"
  by (auto simp: st_pend_def)

text \<open>The two ends of a wake-up: through the ready list, or, for a suspended task, off the tick
  wheel only.\<close>

lemma wake_end_rdy:
  assumes K: "kinv s R P W" "tcbs s x = Some t" and st: "TCB_TaskState t \<in> {OS_TASK_STATE_PEND, OS_TASK_STATE_PEND_TIMEOUT}"
    and S: "staged s R (\<lambda>ob. filter (\<lambda>d. d \<notin> pend_tbl t) (P ob)) W x t s2 t2" "pend_tbl t2 = {}"
  obtains s3 s4 t3 where "OS_TaskRdy x s2 = Some s3"
    "tcb_mod x (\<lambda>t. t\<lparr>TCB_TaskState := OS_TASK_STATE_RDY, TCB_PendStatus := ps, TCB_PendOn := OS_TASK_PEND_ON_NOTHING\<rparr>) s3 = Some s4"
    "woken s R P W x t s4 t3" "tcb_msg t3 = tcb_msg t2" "TCB_PendStatus t3 = ps"
proof -
  note st' = st_pend_cases [OF st]
  have nd: "TCB_TaskState t \<noteq> OS_TASK_STATE_DEL" using st by auto
  let ?P = "\<lambda>ob. filter (\<lambda>d. d \<notin> pend_tbl t) (P ob)"
  let ?g = "\<lambda>t. t\<lparr>TCB_TaskState := OS_TASK_STATE_RDY, TCB_PendStatus := ps, TCB_PendOn := OS_TASK_PEND_ON_NOTHING\<rparr>"
  from staged_rdy [OF K _ _ S(1)] st' obtain s3 t3 where 3: "OS_TaskRdy x s2 = Some s3"
    "staged s (rdy_insert (OSPrioCur s) (TCB_Prio t) x R) ?P (\<lambda>i. filter (\<lambda>y. y \<noteq> x) (W i)) x t s3 t3"
    "tcb_base t3 = tcb_base t2" "TCB_TickSpokePtr t3 = None" by blast
  have "pend_tbl t3 = {}" using tcb_base_key [OF 3(3)] S(2) by simp
  from wake_finish [OF K nd 3(2) refl this 3(4), where g = ?g] obtain s4 where 4: "tcb_mod x ?g s3 = Some s4"
    "kinv s4 (rdy_insert (OSPrioCur s) (TCB_Prio t) x R) ?P (\<lambda>i. filter (\<lambda>y. y \<noteq> x) (W i))" "kframe {x} (pend_tbl t) s s4"
    "tcbs s4 x = Some (?g t3)"
    by (auto simp: rdy_insert_mem rdy_view_def tick_view_def pend_tbl_def)
  have "woken s R P W x t s4 (?g t3)" using 4 st' stagedD(7) [OF 3(2)] by (simp add: woken_def wake_rdy_def)
  with that [OF 3(1) 4(1)] tcb_base_msg [OF 3(3)] show ?thesis by (simp add: tcb_msg_def)
qed

lemma wake_end_susp:
  assumes K: "kinv s R P W" "tcbs s x = Some t"
    and st: "st_pend (TCB_TaskState t)" "TCB_TaskState t AND OS_TASK_STATE_BIT_SUSPENDED = 4"
    and S: "staged s R (\<lambda>ob. filter (\<lambda>d. d \<notin> pend_tbl t) (P ob)) (\<lambda>i. filter (\<lambda>y. y \<noteq> x) (W i)) x t s3 t3"
      "pend_tbl t3 = {}" "TCB_TickSpokePtr t3 = None"
  obtains s4 t4 where
    "tcb_mod x (\<lambda>t. t\<lparr>TCB_TaskState := OS_TASK_STATE_SUSPENDED, TCB_PendStatus := ps, TCB_PendOn := OS_TASK_PEND_ON_NOTHING\<rparr>) s3 = Some s4"
    "woken s R P W x t s4 t4" "tcb_msg t4 = tcb_msg t3" "TCB_PendStatus t4 = ps"
proof -
  let ?P = "\<lambda>ob. filter (\<lambda>d. d \<notin> pend_tbl t) (P ob)"
  let ?g = "\<lambda>t. t\<lparr>TCB_TaskState := OS_TASK_STATE_SUSPENDED, TCB_PendStatus := ps, TCB_PendOn := OS_TASK_PEND_ON_NOTHING\<rparr>"
  have nd: "TCB_TaskState t \<noteq> OS_TASK_STATE_DEL" using st(1) by (auto simp: st_pend_def)
  have "x \<notin> set (R (unat (TCB_Prio t)))" using kinvD(7) [OF K] st by (auto simp: task_ok_def)
  with wake_finish [OF K nd S(1) refl S(2,3), where g = ?g] obtain s4 where 4: "tcb_mod x ?g s3 = Some s4"
    "kinv s4 R ?P (\<lambda>i. filter (\<lambda>y. y \<noteq> x) (W i))" "kframe {x} (pend_tbl t) s s4" "tcbs s4 x = Some (?g t3)"
    by (auto simp: rdy_view_def tick_view_def pend_tbl_def)
  have "woken s R P W x t s4 (?g t3)" using 4 st stagedD(7) [OF S(1)] by (simp add: woken_def wake_rdy_def)
  with that [OF 4(1)] show ?thesis by (simp add: tcb_msg_def)
qed

lemma OS_Post_ok:
  assumes K: "kinv s R P W" "tcbs s x = Some t" and st: "st_pend (TCB_TaskState t)"
    and ob: "if p_obj = NULL then pend_tbl t = {} else p_obj \<in> dom (objs s)"
  shows "\<exists>s' t'. OS_Post p_obj x p_void msg_size ts s = Some s' \<and> woken s R P W x t s' t' \<and>
    TCB_PendStatus t' = OS_STATUS_PEND_OK \<and>
    (TCB_PendOn t \<noteq> OS_TASK_PEND_ON_MULTI \<longrightarrow> tcb_msg t' = (p_void, msg_size, ts))"
proof -
  obtain s1 t1 where 1: "(if TCB_PendOn t = OS_TASK_PEND_ON_MULTI then OS_Post1 p_obj x p_void msg_size ts s
      else tcb_mod x (\<lambda>t. t\<lparr>TCB_MsgPtr := p_void, TCB_MsgSize := msg_size, TCB_TS := ts\<rparr>) s) = Some s1"
    "staged s R P W x t s1 t1" "pend_tbl t1 = pend_tbl t" "TCB_TickSpokePtr t1 = TCB_TickSpokePtr t"
    "TCB_PendOn t \<noteq> OS_TASK_PEND_ON_MULTI \<longrightarrow> tcb_msg t1 = (p_void, msg_size, ts)"
    by (rule stage_post [OF K st])
  from st_pend_split [OF st] show ?thesis
  proof
    assume a: "TCB_TaskState t \<in> {OS_TASK_STATE_PEND, OS_TASK_STATE_PEND_TIMEOUT} \<and> TCB_TaskState t AND OS_TASK_STATE_BIT_SUSPENDED = 0"
    obtain s2 t2 where 2: "(if p_obj \<noteq> NULL then OS_PendListRemove x s1 \<bind> OS_PendDbgNameRemove p_obj x else Some s1) = Some s2"
      "staged s R (\<lambda>ob. filter (\<lambda>d. d \<notin> pend_tbl t) (P ob)) W x t s2 t2" "pend_tbl t2 = {}" "tcb_msg t2 = tcb_msg t1"
      by (rule stage_unlink_dbg [OF K 1(2,3) ob])
    from a have a': "TCB_TaskState t \<in> {OS_TASK_STATE_PEND, OS_TASK_STATE_PEND_TIMEOUT}" ..
    obtain s3 s4 t3 where 3: "OS_TaskRdy x s2 = Some s3"
      "tcb_mod x (\<lambda>t. t\<lparr>TCB_TaskState := OS_TASK_STATE_RDY, TCB_PendStatus := OS_STATUS_PEND_OK, TCB_PendOn := OS_TASK_PEND_ON_NOTHING\<rparr>) s3 = Some s4"
      "woken s R P W x t s4 t3" "tcb_msg t3 = tcb_msg t2" "TCB_PendStatus t3 = OS_STATUS_PEND_OK"
      by (rule wake_end_rdy [OF K a' 2(2,3)])
    have "OS_Post p_obj x p_void msg_size ts s = Some s4"
      using a by (simp only: OS_Post_def K(2) Option.bind.simps insert_iff empty_iff simp_thms if_True 1(1) 2(1) 3(1,2))
    with 3 2(4) 1(5) show ?thesis by auto
  next
    assume a: "TCB_TaskState t \<in> {OS_TASK_STATE_PEND_SUSPENDED, OS_TASK_STATE_PEND_TIMEOUT_SUSPENDED} \<and>
      TCB_TaskState t \<notin> {OS_TASK_STATE_PEND, OS_TASK_STATE_PEND_TIMEOUT} \<and> TCB_TaskState t AND OS_TASK_STATE_BIT_SUSPENDED = 4"
    from staged_untick [OF 1(2)] obtain s2 t2 where 2: "OS_TickListRemove x s1 = Some s2"
      "staged s R P (\<lambda>i. filter (\<lambda>y. y \<noteq> x) (W i)) x t s2 t2" "tcb_base t2 = tcb_base t1" "TCB_TickSpokePtr t2 = None" by blast
    have "pend_tbl t2 = pend_tbl t" using tcb_base_key [OF 2(3)] 1(3) by simp
    then obtain s3 t3 where 3: "(if p_obj \<noteq> NULL then OS_PendListRemove x s2 \<bind> OS_PendDbgNameRemove p_obj x else Some s2) = Some s3"
      "staged s R (\<lambda>ob. filter (\<lambda>d. d \<notin> pend_tbl t) (P ob)) (\<lambda>i. filter (\<lambda>y. y \<noteq> x) (W i)) x t s3 t3" "pend_tbl t3 = {}"
      "tcb_msg t3 = tcb_msg t2" "TCB_TickSpokePtr t3 = TCB_TickSpokePtr t2"
      by (rule stage_unlink_dbg [OF K 2(2) _ ob])
    obtain s4 t4 where 4:
      "tcb_mod x (\<lambda>t. t\<lparr>TCB_TaskState := OS_TASK_STATE_SUSPENDED, TCB_PendStatus := OS_STATUS_PEND_OK, TCB_PendOn := OS_TASK_PEND_ON_NOTHING\<rparr>) s3 = Some s4"
      "woken s R P W x t s4 t4" "tcb_msg t4 = tcb_msg t3" "TCB_PendStatus t4 = OS_STATUS_PEND_OK"
      by (rule wake_end_susp [OF K st _ 3(2,3)]) (use a 3(5) 2(4) in simp_all)
    have "OS_Post p_obj x p_void msg_size ts s = Some s4"
      using a by (simp only: OS_Post_def K(2) Option.bind.simps insert_iff empty_iff simp_thms if_True if_False 1(1) 2(1) 3(1) 4(1))
    with 4 3(4) 1(5) tcb_base_msg [OF 2(3)] show ?thesis by auto
  qed
qed

text \<open>\<^verbatim>\<open>OS_PendAbort\<close> and \<^verbatim>\<open>OS_PendObjDel\<close> begin alike.\<close>

lemma stage_abort:
  assumes K: "kinv s R P W" "tcbs s x = Some t" "st_pend (TCB_TaskState t)"
  obtains s1 s2 t2 where
    "(if TCB_PendOn t = OS_TASK_PEND_ON_MULTI then OS_PendAbort1 p_obj x ts s else Some s) = Some s1"
    "(if TCB_PendOn t = OS_TASK_PEND_ON_MULTI then OS_PendObjDel1 p_obj x ts s else Some s) = Some s1"
    "tcb_mod x (\<lambda>t. t\<lparr>TCB_MsgPtr := NULL, TCB_MsgSize := 0, TCB_TS := ts\<rparr>) s1 = Some s2"
    "staged s R P W x t s2 t2" "pend_tbl t2 = pend_tbl t" "tcb_msg t2 = (NULL, 0, ts)"
proof -
  let ?f = "\<lambda>d. d\<lparr>PD_RdyObjPtr := p_obj, PD_RdyTS := ts\<rparr>"
  let ?g = "\<lambda>t. t\<lparr>TCB_MsgPtr := NULL, TCB_MsgSize := 0, TCB_TS := ts\<rparr>"
  obtain s0 where "pend_find_loop ?f (unat (TCB_PendDataTblEntries t)) p_obj (TCB_PendDataTblPtr t) s = Some s0"
    "staged s R P W x t s0 t"
    using staged_find [OF K staged_start [OF K(1,2)] refl, of ?f p_obj] by (auto simp: pd_view_def)
  then have "\<exists>s1. (if TCB_PendOn t = OS_TASK_PEND_ON_MULTI then OS_PendAbort1 p_obj x ts s else Some s) = Some s1 \<and>
    (if TCB_PendOn t = OS_TASK_PEND_ON_MULTI then OS_PendObjDel1 p_obj x ts s else Some s) = Some s1 \<and> staged s R P W x t s1 t"
    using K(2) staged_start [OF K(1,2)] by (auto simp: OS_PendAbort1_def OS_PendObjDel1_def)
  then obtain s1 where 1: "(if TCB_PendOn t = OS_TASK_PEND_ON_MULTI then OS_PendAbort1 p_obj x ts s else Some s) = Some s1"
    "(if TCB_PendOn t = OS_TASK_PEND_ON_MULTI then OS_PendObjDel1 p_obj x ts s else Some s) = Some s1" "staged s R P W x t s1 t"
    by blast
  from staged_tcb [OF 1(3), of ?g] that [OF 1(1,2), of _ "?g t"] show ?thesis
    by (simp add: rdy_view_def tick_view_def tcb_msg_def pend_tbl_def)
qed

lemma OS_PendAbort_ok:
  assumes K: "kinv s R P W" "tcbs s x = Some t" and st: "st_pend (TCB_TaskState t)" and ob: "p_obj = NULL \<Longrightarrow> pend_tbl t = {}"
  shows "\<exists>s' t'. OS_PendAbort p_obj x ts s = Some s' \<and> woken s R P W x t s' t' \<and>
    TCB_PendStatus t' = OS_STATUS_PEND_ABORT \<and> tcb_msg t' = (NULL, 0, ts)"
proof -
  obtain s0 s1 t1 where 1:
    "(if TCB_PendOn t = OS_TASK_PEND_ON_MULTI then OS_PendAbort1 p_obj x ts s else Some s) = Some s0"
    "tcb_mod x (\<lambda>t. t\<lparr>TCB_MsgPtr := NULL, TCB_MsgSize := 0, TCB_TS := ts\<rparr>) s0 = Some s1"
    "staged s R P W x t s1 t1" "pend_tbl t1 = pend_tbl t" "tcb_msg t1 = (NULL, 0, ts)"
    by (rule stage_abort [OF K st])
  obtain s2 t2 where 2: "(if p_obj \<noteq> NULL then OS_PendListRemove x s1 else Some s1) = Some s2"
    "staged s R (\<lambda>ob. filter (\<lambda>d. d \<notin> pend_tbl t) (P ob)) W x t s2 t2" "pend_tbl t2 = {}" "tcb_msg t2 = tcb_msg t1"
    by (rule stage_unlink_opt [OF K 1(3,4) ob])
  from st_pend_split [OF st] show ?thesis
  proof
    assume a: "TCB_TaskState t \<in> {OS_TASK_STATE_PEND, OS_TASK_STATE_PEND_TIMEOUT} \<and> TCB_TaskState t AND OS_TASK_STATE_BIT_SUSPENDED = 0"
    then have a': "TCB_TaskState t \<in> {OS_TASK_STATE_PEND, OS_TASK_STATE_PEND_TIMEOUT}" ..
    obtain s3 s4 t3 where 3: "OS_TaskRdy x s2 = Some s3"
      "tcb_mod x (\<lambda>t. t\<lparr>TCB_TaskState := OS_TASK_STATE_RDY, TCB_PendStatus := OS_STATUS_PEND_ABORT, TCB_PendOn := OS_TASK_PEND_ON_NOTHING\<rparr>) s3 = Some s4"
      "woken s R P W x t s4 t3" "tcb_msg t3 = tcb_msg t2" "TCB_PendStatus t3 = OS_STATUS_PEND_ABORT"
      by (rule wake_end_rdy [OF K a' 2(2,3)])
    have "OS_PendAbort p_obj x ts s = Some s4"
      using a by (simp only: OS_PendAbort_def K(2) Option.bind.simps insert_iff empty_iff simp_thms if_True 1(1,2) 2(1) 3(1,2))
    with 3 2(4) 1(5) show ?thesis by auto
  next
    assume a: "TCB_TaskState t \<in> {OS_TASK_STATE_PEND_SUSPENDED, OS_TASK_STATE_PEND_TIMEOUT_SUSPENDED} \<and>
      TCB_TaskState t \<notin> {OS_TASK_STATE_PEND, OS_TASK_STATE_PEND_TIMEOUT} \<and> TCB_TaskState t AND OS_TASK_STATE_BIT_SUSPENDED = 4"
    from staged_untick [OF 2(2)] obtain s3 t3 where 3: "OS_TickListRemove x s2 = Some s3"
      "staged s R (\<lambda>ob. filter (\<lambda>d. d \<notin> pend_tbl t) (P ob)) (\<lambda>i. filter (\<lambda>y. y \<noteq> x) (W i)) x t s3 t3"
      "tcb_base t3 = tcb_base t2" "TCB_TickSpokePtr t3 = None" by blast
    obtain s4 t4 where 4:
      "tcb_mod x (\<lambda>t. t\<lparr>TCB_TaskState := OS_TASK_STATE_SUSPENDED, TCB_PendStatus := OS_STATUS_PEND_ABORT, TCB_PendOn := OS_TASK_PEND_ON_NOTHING\<rparr>) s3 = Some s4"
      "woken s R P W x t s4 t4" "tcb_msg t4 = tcb_msg t3" "TCB_PendStatus t4 = OS_STATUS_PEND_ABORT"
      by (rule wake_end_susp [OF K st _ 3(2)]) (use a 3(4) tcb_base_key [OF 3(3)] 2(3) in simp_all)
    have "OS_PendAbort p_obj x ts s = Some s4"
      using a by (simp only: OS_PendAbort_def K(2) Option.bind.simps insert_iff empty_iff simp_thms if_True if_False 1(1,2) 2(1) 3(1) 4(1))
    with 4 2(4) 1(5) tcb_base_msg [OF 3(3)] show ?thesis by auto
  qed
qed

lemma OS_PendObjDel_ok:
  assumes K: "kinv s R P W" "tcbs s x = Some t" and st: "st_pend (TCB_TaskState t)"
  shows "\<exists>s' t'. OS_PendObjDel p_obj x ts s = Some s' \<and> woken s R P W x t s' t' \<and>
    TCB_PendStatus t' = OS_STATUS_PEND_DEL \<and> tcb_msg t' = (NULL, 0, ts)"
proof -
  obtain s0 s1 t1 where 1:
    "(if TCB_PendOn t = OS_TASK_PEND_ON_MULTI then OS_PendObjDel1 p_obj x ts s else Some s) = Some s0"
    "tcb_mod x (\<lambda>t. t\<lparr>TCB_MsgPtr := NULL, TCB_MsgSize := 0, TCB_TS := ts\<rparr>) s0 = Some s1"
    "staged s R P W x t s1 t1" "pend_tbl t1 = pend_tbl t" "tcb_msg t1 = (NULL, 0, ts)"
    by (rule stage_abort [OF K st])
  from st_pend_split [OF st] show ?thesis
  proof
    assume a: "TCB_TaskState t \<in> {OS_TASK_STATE_PEND, OS_TASK_STATE_PEND_TIMEOUT} \<and> TCB_TaskState t AND OS_TASK_STATE_BIT_SUSPENDED = 0"
    then have a': "TCB_TaskState t \<in> {OS_TASK_STATE_PEND, OS_TASK_STATE_PEND_TIMEOUT}" ..
    from staged_unlink [OF K 1(3,4)] obtain s2 where 2: "OS_PendListRemove x s1 = Some s2"
      "staged s R (\<lambda>ob. filter (\<lambda>d. d \<notin> pend_tbl t) (P ob)) W x t s2 (t1\<lparr>TCB_PendDataTblEntries := 0, TCB_PendDataTblPtr := NULL\<rparr>)"
      by blast
    obtain s3 s4 t3 where 3: "OS_TaskRdy x s2 = Some s3"
      "tcb_mod x (\<lambda>t. t\<lparr>TCB_TaskState := OS_TASK_STATE_RDY, TCB_PendStatus := OS_STATUS_PEND_DEL, TCB_PendOn := OS_TASK_PEND_ON_NOTHING\<rparr>) s3 = Some s4"
      "woken s R P W x t s4 t3" "tcb_msg t3 = tcb_msg (t1\<lparr>TCB_PendDataTblEntries := 0, TCB_PendDataTblPtr := NULL\<rparr>)"
      "TCB_PendStatus t3 = OS_STATUS_PEND_DEL"
      by (rule wake_end_rdy [OF K a' 2(2)]) simp
    have "OS_PendObjDel p_obj x ts s = Some s4"
      using a by (simp only: OS_PendObjDel_def K(2) Option.bind.simps insert_iff empty_iff simp_thms if_True 1(1,2) 2(1) 3(1,2))
    with 3 1(5) show ?thesis by (auto simp: tcb_msg_def)
  next
    assume a: "TCB_TaskState t \<in> {OS_TASK_STATE_PEND_SUSPENDED, OS_TASK_STATE_PEND_TIMEOUT_SUSPENDED} \<and>
      TCB_TaskState t \<notin> {OS_TASK_STATE_PEND, OS_TASK_STATE_PEND_TIMEOUT} \<and> TCB_TaskState t AND OS_TASK_STATE_BIT_SUSPENDED = 4"
    from staged_untick [OF 1(3)] obtain s2 t2 where 2: "OS_TickListRemove x s1 = Some s2"
      "staged s R P (\<lambda>i. filter (\<lambda>y. y \<noteq> x) (W i)) x t s2 t2" "tcb_base t2 = tcb_base t1" "TCB_TickSpokePtr t2 = None" by blast
    have "pend_tbl t2 = pend_tbl t" using tcb_base_key [OF 2(3)] 1(4) by simp
    from staged_unlink [OF K 2(2) this] obtain s3 where 3: "OS_PendListRemove x s2 = Some s3"
      "staged s R (\<lambda>ob. filter (\<lambda>d. d \<notin> pend_tbl t) (P ob)) (\<lambda>i. filter (\<lambda>y. y \<noteq> x) (W i)) x t s3
        (t2\<lparr>TCB_PendDataTblEntries := 0, TCB_PendDataTblPtr := NULL\<rparr>)" by blast
    obtain s4 t4 where 4:
      "tcb_mod x (\<lambda>t. t\<lparr>TCB_TaskState := OS_TASK_STATE_SUSPENDED, TCB_PendStatus := OS_STATUS_PEND_DEL, TCB_PendOn := OS_TASK_PEND_ON_NOTHING\<rparr>) s3 = Some s4"
      "woken s R P W x t s4 t4" "tcb_msg t4 = tcb_msg (t2\<lparr>TCB_PendDataTblEntries := 0, TCB_PendDataTblPtr := NULL\<rparr>)"
      "TCB_PendStatus t4 = OS_STATUS_PEND_DEL"
      by (rule wake_end_susp [OF K st _ 3(2)]) (use a 2(4) in simp_all)
    have "OS_PendObjDel p_obj x ts s = Some s4"
      using a by (simp only: OS_PendObjDel_def K(2) Option.bind.simps insert_iff empty_iff simp_thms if_True if_False 1(1,2) 2(1) 3(1) 4(1))
    with 4 1(5) tcb_base_msg [OF 2(3)] show ?thesis by (auto simp: tcb_msg_def)
  qed
qed

subsection \<open>\<^verbatim>\<open>OS_Pend\<close>\<close>

text \<open>The running task \<open>x\<close> began to wait with the pend data \<open>D\<close>, the entry \<open>d\<close> on the object \<open>q d\<close>.\<close>

lemma kinv_block:
  assumes K: "kinv s R P W" and t: "tcbs s x = Some t" "TCB_TaskState t = OS_TASK_STATE_RDY"
    and K': "krel s' (R(unat (TCB_Prio t) := remove1 x (R (unat (TCB_Prio t))))) P' W'"
    and F: "kframe {x} D s s'" and fresh: "\<And>d ob. d \<in> D \<Longrightarrow> d \<notin> set (P ob)"
    and P': "\<And>ob d. d \<in> set (P' ob) \<longleftrightarrow> d \<in> set (P ob) \<or> d \<in> D \<and> ob = q d"
    and D: "\<And>d. d \<in> D \<Longrightarrow> \<exists>e. pds s' d = Some e \<and> PD_TCBPtr e = x \<and> PD_PendObjPtr e = q d"
    and t': "tcbs s' x = Some t'" "TCB_Prio t' = TCB_Prio t" "pend_tbl t' = D" "st_pend (TCB_TaskState t')"
      "TCB_TickSpokePtr t' \<noteq> None \<longleftrightarrow> st_tick (TCB_TaskState t')"
  shows "kinv s' (R(unat (TCB_Prio t) := remove1 x (R (unat (TCB_Prio t))))) P' W'"
proof -
  note k = kinvD [OF K]
  let ?R = "R(unat (TCB_Prio t) := remove1 x (R (unat (TCB_Prio t))))"
  have tbl: "pend_tbl u \<inter> D = {}" if "tcbs s y = Some u" for y u
    using k(7) [OF that] fresh by (fastforce simp: task_ok_def pend_tbl_ok_def split: if_splits)
  have "x \<notin> set (?R (unat (TCB_Prio t)))" using rdy_rel_list(1) [OF k(2)] by simp
  moreover have "pend_tbl_ok s' P' x t'" unfolding pend_tbl_ok_def t'(3)
  proof
    fix d assume d: "d \<in> D"
    from D [OF d] obtain e where "pds s' d = Some e" "PD_TCBPtr e = x" "PD_PendObjPtr e = q d" by blast
    with d P' show "\<exists>e. pds s' d = Some e \<and> PD_TCBPtr e = x \<and> d \<in> set (P' (PD_PendObjPtr e))" by auto
  qed
  moreover have "TCB_TaskState t' \<noteq> OS_TASK_STATE_RDY" using t'(4) by (auto simp: st_pend_def)
  ultimately have ok: "task_ok s' ?R P' x t'" using k(7) [OF t(1)] t t' by (simp add: task_ok_def)
  have e: "pend_tbl t \<subseteq> D" using k(7) [OF t(1)] t(2) by (simp add: task_ok_def st_pend_def)
  have own: "d \<in> pend_tbl t' \<and> (\<exists>e. pds s' d = Some e \<and> PD_TCBPtr e = x)" if "d \<in> D" for d using D [OF that] t'(3) that by auto
  show ?thesis by (rule kinv_task [OF K t(1) e K' F tbl _ _ own t'(1) ok]) (simp_all add: P')
qed

lemma pend_rel_pd_other:
  assumes "pend_rel s P" "\<And>ob. d \<notin> set (P ob)" "pds s d = Some e0"
  shows "pend_rel (s\<lparr>pds := (pds s)(d \<mapsto> e)\<rparr>) P"
proof -
  let ?s = "s\<lparr>pds := (pds s)(d \<mapsto> e)\<rparr>"
  have ne: "x \<noteq> d" if "x \<in> set (P ob)" for x ob using assms(2) that by metis
  have "pend_ok ?s ob (P ob) = pend_ok s ob (P ob)" for ob
  proof -
    have "linked PD_NextPtr PD_PrevPtr ((pds s)(d \<mapsto> e)) a b (P ob) = linked PD_NextPtr PD_PrevPtr (pds s) a b (P ob)" for a b
      using assms(2) by simp
    moreover have "(\<forall>x \<in> set (P ob). \<exists>g. ((pds s)(d \<mapsto> e)) x = Some g \<and> PD_PendObjPtr g = ob \<and> PD_TCBPtr g \<in> dom (tcbs s)) \<longleftrightarrow>
      (\<forall>x \<in> set (P ob). \<exists>g. pds s x = Some g \<and> PD_PendObjPtr g = ob \<and> PD_TCBPtr g \<in> dom (tcbs s))"
      by (rule ball_cong [OF refl]) (simp add: ne)
    ultimately show ?thesis unfolding pend_ok_def by simp
  qed
  moreover have "map (pd_prio ?s) (P ob) = map (pd_prio s) (P ob)" for ob
    by (rule map_cong [OF refl]) (simp add: pd_prio_def ne split: option.split)
  then have "pend_sorted ?s P = pend_sorted s P" unfolding pend_sorted_def by metis
  ultimately show ?thesis using assms(1) unfolding pend_rel_def pend_links_def by simp
qed

text \<open>The list part of \<^verbatim>\<open>OS_Pend\<close>: the pend data \<open>d\<close> of the task \<open>x\<close> goes into the list of \<open>p_obj\<close>.\<close>

lemma pend_stage:
  assumes K: "krel s R P W" and t: "tcbs s x = Some t" and ob: "objs s p_obj = Some b" "p_obj \<noteq> NULL"
    and d: "pds s d = Some e" "d \<noteq> NULL" "\<And>ob. d \<notin> set (P ob)" "length (P p_obj) < 65535"
  obtains s1 s2 s3 s4 t4 e4 where "pd_mod d (\<lambda>d. d\<lparr>PD_PendObjPtr := p_obj\<rparr>) s = Some s1" "OS_PendDataInit x d 1 s1 = Some s2"
    "OS_PendListInsertPrio p_obj d s2 = Some s3" "OS_PendDbgNameAdd p_obj x s3 = Some s4"
    "krel s4 R (P(p_obj := prio_insert (pd_prio s4) d (P p_obj))) W" "kframe {x} {d} s s4" "tcbs s4 x = Some t4"
    "\<exists>n. t4 = t\<lparr>TCB_PendDataTblEntries := 1, TCB_PendDataTblPtr := d, TCB_DbgNamePtr := n\<rparr>"
    "pds s4 d = Some e4" "PD_TCBPtr e4 = x" "PD_PendObjPtr e4 = p_obj" "tick_remain s4 = tick_remain s"
proof -
  let ?t = "t\<lparr>TCB_PendDataTblEntries := 1, TCB_PendDataTblPtr := d\<rparr>"
  let ?e1 = "e\<lparr>PD_PendObjPtr := p_obj\<rparr>"
  let ?e = "?e1\<lparr>PD_NextPtr := NULL, PD_PrevPtr := NULL, PD_RdyObjPtr := NULL, PD_RdyMsgPtr := NULL,
            PD_RdyMsgSize := 0, PD_RdyTS := 0, PD_TCBPtr := x\<rparr>"
  let ?s1 = "s\<lparr>pds := (pds s)(d \<mapsto> ?e1)\<rparr>"
  let ?s2 = "s\<lparr>pds := (pds s)(d \<mapsto> ?e), tcbs := (tcbs s)(x \<mapsto> ?t)\<rparr>"
  from K have rel: "rdy_rel s R" "pend_rel s P" "tick_rel s W" by (simp_all add: krel_def)
  have 1: "pd_mod d (\<lambda>d. d\<lparr>PD_PendObjPtr := p_obj\<rparr>) s = Some ?s1" using d(1) by simp
  have 2: "OS_PendDataInit x d 1 ?s1 = Some ?s2" using t by (simp add: OS_PendDataInit_def)
  have "pend_rel (s\<lparr>pds := (pds s)(d \<mapsto> ?e)\<rparr>) P" by (rule pend_rel_pd_other [OF rel(2) d(3,1)])
  moreover have "rdy_rel (s\<lparr>pds := (pds s)(d \<mapsto> ?e)\<rparr>) R = rdy_rel s R" by (rule rdy_rel_cong) simp_all
  moreover have "tick_rel (s\<lparr>pds := (pds s)(d \<mapsto> ?e)\<rparr>) W = tick_rel s W" by (rule tick_rel_cong) simp_all
  ultimately have "krel (s\<lparr>pds := (pds s)(d \<mapsto> ?e)\<rparr>) R P W" using rel by (simp add: krel_def)
  then have K2: "krel ?s2 R P W"
    using krel_tcb_upd [of "s\<lparr>pds := (pds s)(d \<mapsto> ?e)\<rparr>" x t ?t R P W] t by (simp add: rdy_view_def tick_view_def)
  then have rel2: "rdy_rel ?s2 R" "pend_rel ?s2 P" "tick_rel ?s2 W" by (simp_all add: krel_def)
  have F2: "kframe {x} {d} s ?s2" using t d(1) by (auto simp: kframe_def os_less_k_def)
  from OS_PendListInsertPrio_ok [OF rel2(2), of p_obj b d ?e] ob d obtain s3 where
    3: "OS_PendListInsertPrio p_obj d ?s2 = Some s3" "pend_rel s3 (P(p_obj := prio_insert (pd_prio ?s2) d (P p_obj)))" "pend_frame ?s2 s3"
    by auto
  let ?P = "P(p_obj := prio_insert (pd_prio ?s2) d (P p_obj))"
  have t3: "tcbs s3 x = Some ?t" using pend_frame_tcbs [OF 3(3)] by simp
  have K3: "krel s3 R ?P W" using 3(2) rel2 pend_frame_others [OF 3(3)] by (simp add: krel_def)
  obtain e3 where e3: "pds s3 d = Some e3" "pd_core e3 = pd_core ?e" by (rule pend_frame_pd [OF 3(3), of d ?e]) simp_all
  have "map_option obj_core (objs s3 p_obj) = map_option obj_core (objs ?s2 p_obj)" using 3(3) by (simp add: pend_frame_def)
  then obtain b3 where b3: "objs s3 p_obj = Some b3" using ob by (auto simp: map_option_Some_iff)
  have "pend_links s3 ?P" using 3(2) by (simp add: pend_rel_def)
  from pend_links_obtain(2) [OF this b3] have "PL_HeadPtr (OBJ_PendList b3) \<noteq> NULL"
    using linked_head_null by (fastforce simp: prio_insert_def)
  from pend_head [OF 3(2) b3 this] obtain g u where g: "pds s3 (PL_HeadPtr (OBJ_PendList b3)) = Some g"
    "tcbs s3 (PD_TCBPtr g) = Some u" by metis
  let ?n = "OBJ_NamePtr b3" let ?t4 = "?t\<lparr>TCB_DbgNamePtr := ?n\<rparr>"
  let ?s4 = "s3\<lparr>tcbs := (tcbs s3)(x \<mapsto> ?t4)\<rparr>"
  obtain u' where u': "tcbs ?s4 (PD_TCBPtr g) = Some u'" using g(2) by (cases "PD_TCBPtr g = x") simp_all
  let ?s5 = "?s4\<lparr>objs := (objs s3)(p_obj \<mapsto> b3\<lparr>OBJ_DbgNamePtr := TCB_NamePtr u'\<rparr>)\<rparr>"
  have 4: "OS_PendDbgNameAdd p_obj x s3 = Some ?s5" using ob(2) b3 t3 g u' by (simp add: OS_PendDbgNameAdd_def)
  have "krel ?s4 R ?P W" using K3 krel_tcb_upd [OF t3, of ?t4] by (simp add: rdy_view_def tick_view_def)
  moreover have "krel ?s5 R ?P W = krel ?s4 R ?P W" by (rule krel_cong) (use b3 in auto)
  moreover have "pd_prio ?s5 = pd_prio s3"
    using t3 by (auto simp: pd_prio_def fun_eq_iff fld_def split: option.split)
  then have "pd_prio ?s5 = pd_prio ?s2" using pend_frame_prio [OF 3(3)] by simp
  ultimately have K5: "krel ?s5 R (P(p_obj := prio_insert (pd_prio ?s5) d (P p_obj))) W" by simp
  have "kframe {x} {d} s3 ?s5" using t3 b3 by (auto simp: kframe_def os_less_k_def obj_other_def obj_core_def)
  then have F: "kframe {x} {d} s ?s5" using F2 pend_frame_kframe [OF 3(3)] kframe_trans by blast
  have rem: "tick_remain ?s5 = tick_remain s"
  proof (rule tick_remain_cong [OF _ kframe_globals(13) [OF F]])
    fix y show "map_option tick_view (tcbs ?s5 y) = map_option tick_view (tcbs s y)"
      using t pend_frame_tcbs [OF 3(3)] by (simp add: tick_view_def)
  qed
  have e: "PD_TCBPtr e3 = x" "PD_PendObjPtr e3 = p_obj" using pd_core_eqD [OF e3(2)] by simp_all
  have "tcbs ?s5 x = Some ?t4" "pds ?s5 d = Some e3" using e3(1) by simp_all
  with e rem show ?thesis by (intro that [OF 1 2 3(1) 4 K5 F]) (assumption | rule exI refl)+
qed

lemma block_stage_gen:
  assumes K: "kinv s R P W" and t: "tcbs s x = Some t" "TCB_TaskState t = OS_TASK_STATE_RDY" and f: "rdy_view (f t) = rdy_view t" "tick_view (f t) = tick_view t"
  obtains s0 s1 t1 where "tcb_mod x f s = Some s0" "OS_TaskBlock x timeout s0 = Some s1"
    "krel s1 (R(unat (TCB_Prio t) := remove1 x (R (unat (TCB_Prio t))))) P (tick_block s x timeout s1 W)" "kframe {x} {} s s1"
    "tcbs s1 x = Some t1" "tcb_base t1 = tcb_base ((f t)\<lparr>TCB_TaskState := if timeout = 0 then OS_TASK_STATE_PEND else OS_TASK_STATE_PEND_TIMEOUT\<rparr>)"
    "TCB_TickSpokePtr t1 = None \<longleftrightarrow> timeout = 0" "timeout \<noteq> 0 \<longrightarrow> TCB_TickCtrMatch t1 = OSTickCtr s + timeout"
proof -
  note k = kinvD [OF K]
  have ok: "x \<noteq> NULL" "x \<in> set (R (unat (TCB_Prio t)))" "TCB_TickSpokePtr t = None"
    using k(7) [OF t(1)] t(2) by (auto simp: task_ok_def st_tick_def)
  have nW: "x \<notin> set (W i)" for i
    using k(4) t(1) ok(3) unfolding tick_rel_def tick_links_def on_spoke_def by auto
  let ?s = "s\<lparr>tcbs := (tcbs s)(x \<mapsto> f t)\<rparr>"
  have K0: "krel ?s R P W" using k(1) krel_tcb_upd [OF t(1), of "f t"] f by simp
  have F0: "kframe {x} {} s ?s" using t(1) by (simp add: kframe_tcb_upd)
  have len: "\<And>i. length (W i) < 65535" using kinv_room(2) [OF K _ nW] t(1) by blast
  have tb: "tick_block ?s = tick_block s" by (simp add: tick_block_def fun_eq_iff)
  have ft: "TCB_TickSpokePtr (f t) = None" "TCB_Prio (f t) = TCB_Prio t" using ok(3) f by (simp_all add: tick_view_def rdy_view_def)
  from OS_TaskBlock_ok [OF K0 _ ft(1) ok(1) len, where timeout = timeout and p = "unat (TCB_Prio t)"] ok(2) ft
  obtain s1 t1 where s1: "OS_TaskBlock x timeout ?s = Some s1"
    "krel s1 (R(unat (TCB_Prio t) := remove1 x (R (unat (TCB_Prio t))))) P (tick_block s x timeout s1 W)" "kframe {x} {} ?s s1"
    "tcbs s1 x = Some t1" "tcb_base t1 = tcb_base ((f t)\<lparr>TCB_TaskState := if timeout = 0 then OS_TASK_STATE_PEND else OS_TASK_STATE_PEND_TIMEOUT\<rparr>)"
    "TCB_TickSpokePtr t1 = None \<longleftrightarrow> timeout = 0" "timeout \<noteq> 0 \<longrightarrow> TCB_TickCtrMatch t1 = OSTickCtr s + timeout"
    unfolding tb by auto
  show ?thesis by (rule that [OF _ s1(1,2) _ s1(4-7)]) (use t(1) kframe_trans [OF F0 s1(3)] in simp_all)
qed

lemma block_stage:
  assumes K: "kinv s R P W" and t: "tcbs s x = Some t" "TCB_TaskState t = OS_TASK_STATE_RDY"
  obtains s0 s1 t1 where
    "tcb_mod x (\<lambda>t. t\<lparr>TCB_PendOn := pending_on, TCB_PendStatus := OS_STATUS_PEND_OK\<rparr>) s = Some s0"
    "OS_TaskBlock x timeout s0 = Some s1"
    "krel s1 (R(unat (TCB_Prio t) := remove1 x (R (unat (TCB_Prio t))))) P (tick_block s x timeout s1 W)" "kframe {x} {} s s1"
    "tcbs s1 x = Some t1" "tcb_base t1 = tcb_base (t\<lparr>TCB_PendOn := pending_on, TCB_PendStatus := OS_STATUS_PEND_OK,
      TCB_TaskState := if timeout = 0 then OS_TASK_STATE_PEND else OS_TASK_STATE_PEND_TIMEOUT\<rparr>)"
    "TCB_TickSpokePtr t1 = None \<longleftrightarrow> timeout = 0" "timeout \<noteq> 0 \<longrightarrow> TCB_TickCtrMatch t1 = OSTickCtr s + timeout"
  by (rule block_stage_gen [OF K t, of "\<lambda>t. t\<lparr>TCB_PendOn := pending_on, TCB_PendStatus := OS_STATUS_PEND_OK\<rparr>" timeout])
    (simp_all add: rdy_view_def tick_view_def)

definition pend_block :: "os \<Rightarrow> ptr \<Rightarrow> ptr \<Rightarrow> (ptr \<Rightarrow> ptr list) \<Rightarrow> ptr \<Rightarrow> ptr list" where
  "pend_block s' p_obj d P = (if p_obj = NULL then P else P(p_obj := prio_insert (pd_prio s') d (P p_obj)))"

lemma tick_block_cong: "tick_remain s' = tick_remain s'' \<Longrightarrow> tick_block s x timeout s' W = tick_block s x timeout s'' W"
  by (simp add: tick_block_def)

definition blocked :: "os \<Rightarrow> (nat \<Rightarrow> ptr list) \<Rightarrow> (ptr \<Rightarrow> ptr list) \<Rightarrow> (nat \<Rightarrow> ptr list) \<Rightarrow> ptr \<Rightarrow> ptr \<Rightarrow> ptr \<Rightarrow> OS_STATE \<Rightarrow> OS_TICK \<Rightarrow> os \<Rightarrow> bool" where
  "blocked s R P W x d p_obj pending_on timeout s' \<longleftrightarrow> (\<exists>t t'. tcbs s x = Some t \<and>
    kinv s' (R(unat (TCB_Prio t) := remove1 x (R (unat (TCB_Prio t))))) (pend_block s' p_obj d P) (tick_block s x timeout s' W) \<and>
    kframe {x} (if p_obj = NULL then {} else {d}) s s' \<and> tcbs s' x = Some t' \<and> TCB_Prio t' = TCB_Prio t \<and>
    TCB_TaskState t' = (if timeout = 0 then OS_TASK_STATE_PEND else OS_TASK_STATE_PEND_TIMEOUT) \<and>
    TCB_PendOn t' = pending_on \<and> TCB_PendStatus t' = OS_STATUS_PEND_OK \<and>
    TCB_FlagsOpt t' = TCB_FlagsOpt t \<and> TCB_FlagsPend t' = TCB_FlagsPend t \<and>
    (timeout \<noteq> 0 \<longrightarrow> TCB_TickCtrMatch t' = OSTickCtr s + timeout))"

lemma OS_Pend_ok:
  assumes K: "kinv s R P W" and x: "OSTCBCurPtr s = x" and t: "tcbs s x = Some t" "TCB_TaskState t = OS_TASK_STATE_RDY"
    and ob: "p_obj \<noteq> NULL \<Longrightarrow> p_obj \<in> dom (objs s)" "p_obj \<noteq> NULL \<Longrightarrow> d \<in> dom (pds s) \<and> d \<noteq> NULL \<and> (\<forall>ob. d \<notin> set (P ob))"
  shows "\<exists>s'. OS_Pend d p_obj pending_on timeout s = Some s' \<and> blocked s R P W x d p_obj pending_on timeout s'"
proof -
  let ?R = "R(unat (TCB_Prio t) := remove1 x (R (unat (TCB_Prio t))))"
  obtain s0 s1 t1 where 1:
    "tcb_mod x (\<lambda>t. t\<lparr>TCB_PendOn := pending_on, TCB_PendStatus := OS_STATUS_PEND_OK\<rparr>) s = Some s0"
    "OS_TaskBlock x timeout s0 = Some s1"
    "krel s1 ?R P (tick_block s x timeout s1 W)" "kframe {x} {} s s1"
    "tcbs s1 x = Some t1" "tcb_base t1 = tcb_base (t\<lparr>TCB_PendOn := pending_on, TCB_PendStatus := OS_STATUS_PEND_OK,
      TCB_TaskState := if timeout = 0 then OS_TASK_STATE_PEND else OS_TASK_STATE_PEND_TIMEOUT\<rparr>)"
    "TCB_TickSpokePtr t1 = None \<longleftrightarrow> timeout = 0" "timeout \<noteq> 0 \<longrightarrow> TCB_TickCtrMatch t1 = OSTickCtr s + timeout"
    by (rule block_stage [OF K t])
  have b: "TCB_Prio t1 = TCB_Prio t" "TCB_TaskState t1 = (if timeout = 0 then OS_TASK_STATE_PEND else OS_TASK_STATE_PEND_TIMEOUT)"
    "TCB_PendOn t1 = pending_on" "TCB_PendStatus t1 = OS_STATUS_PEND_OK"
    using tcb_base_eqD [OF 1(6)] by simp_all
  have bs: "TCB_FlagsOpt (tcb_base u) = TCB_FlagsOpt u" "TCB_FlagsPend (tcb_base u) = TCB_FlagsPend u" for u
    by (simp_all add: tcb_base_def tcb_core_def tick_core_def)
  have bf: "TCB_FlagsOpt t1 = TCB_FlagsOpt t" "TCB_FlagsPend t1 = TCB_FlagsPend t"
    using arg_cong [OF 1(6), of TCB_FlagsOpt] arg_cong [OF 1(6), of TCB_FlagsPend] by (simp_all add: bs)
  show ?thesis
  proof (cases "p_obj = NULL")
    case True
    let ?n = "if TCB_PendOn t1 = OS_TASK_PEND_ON_TASK_Q then ''Task Q''
           else if TCB_PendOn t1 = OS_TASK_PEND_ON_TASK_SEM then ''Task Sem'' else '' ''"
    let ?t = "t1\<lparr>TCB_PendDataTblEntries := 0, TCB_PendDataTblPtr := NULL, TCB_DbgNamePtr := ?n\<rparr>"
    let ?s = "s1\<lparr>tcbs := (tcbs s1)(x \<mapsto> ?t)\<rparr>"
    have eq: "OS_Pend d p_obj pending_on timeout s = Some ?s"
      using 1(1,2,5) True x by (simp add: OS_Pend_def OS_PendDbgNameAdd_def)
    have rem: "tick_remain ?s = tick_remain s1" by (rule tick_remain_cong) (use 1(5) in \<open>auto simp: tick_view_def\<close>)
    have "krel ?s ?R P (tick_block s x timeout ?s W)"
      using 1(3) krel_tcb_upd [OF 1(5), of ?t] by (simp add: rdy_view_def tick_view_def tick_block_cong [OF rem])
    moreover have F: "kframe {x} {} s ?s" using 1(4) kframe_tcb_upd [OF 1(5), of "{x}" "{}" ?t] kframe_trans by blast
    ultimately have "kinv ?s ?R P (tick_block s x timeout ?s W)"
      by (intro kinv_block [OF K t, where t' = ?t and D = "{}"])
       (use b 1(7) in \<open>auto simp: pend_tbl_def st_pend_def st_tick_def\<close>)
    then have "blocked s R P W x d p_obj pending_on timeout ?s"
      using True t(1) F b bf 1(8) by (simp add: blocked_def pend_block_def)
    with eq show ?thesis by blast
  next
    case False
    note ob' = ob(1) [OF False] ob(2) [OF False]
    have "map_option obj_other (objs s1 p_obj) = map_option obj_other (objs s p_obj)" using 1(4) unfolding kframe_def by blast
    with ob'(1) obtain b0 where b0: "objs s1 p_obj = Some b0" by (auto simp: map_option_Some_iff)
    have "d \<in> dom (pds s1)" using ob'(2) 1(4) by (simp add: kframe_def)
    then obtain e where e: "pds s1 d = Some e" by blast
    have len: "length (P p_obj) < 65535" using kinv_room(3) [OF K] ob'(2) by blast
    have nP: "\<And>ob. d \<notin> set (P ob)" and nz: "d \<noteq> NULL" using ob'(2) by blast+
    obtain s2 s3 s4 s5 t5 e5 where 2: "pd_mod d (\<lambda>d. d\<lparr>PD_PendObjPtr := p_obj\<rparr>) s1 = Some s2" "OS_PendDataInit x d 1 s2 = Some s3"
      "OS_PendListInsertPrio p_obj d s3 = Some s4" "OS_PendDbgNameAdd p_obj x s4 = Some s5"
      "krel s5 ?R (P(p_obj := prio_insert (pd_prio s5) d (P p_obj))) (tick_block s x timeout s1 W)" "kframe {x} {d} s1 s5"
      "tcbs s5 x = Some t5" "\<exists>n. t5 = t1\<lparr>TCB_PendDataTblEntries := 1, TCB_PendDataTblPtr := d, TCB_DbgNamePtr := n\<rparr>"
      "pds s5 d = Some e5" "PD_TCBPtr e5 = x" "PD_PendObjPtr e5 = p_obj" "tick_remain s5 = tick_remain s1"
      by (rule pend_stage [OF 1(3,5) b0 False e nz nP len])
    from 2(8) have t5: "TCB_Prio t5 = TCB_Prio t" "TCB_TaskState t5 = TCB_TaskState t1" "TCB_PendOn t5 = pending_on"
      "TCB_PendStatus t5 = OS_STATUS_PEND_OK" "pend_tbl t5 = {d}" "TCB_TickSpokePtr t5 = TCB_TickSpokePtr t1"
      "TCB_TickCtrMatch t5 = TCB_TickCtrMatch t1" "TCB_FlagsOpt t5 = TCB_FlagsOpt t" "TCB_FlagsPend t5 = TCB_FlagsPend t"
      using b bf by (auto simp: pend_tbl_def)
    have F: "kframe {x} {d} s s5" using kframe_mono [OF 1(4)] 2(6) kframe_trans by blast
    have "kinv s5 ?R (P(p_obj := prio_insert (pd_prio s5) d (P p_obj))) (tick_block s x timeout s5 W)"
      using 2(5) unfolding tick_block_cong [OF 2(12)]
      by (intro kinv_block [OF K t _ F, where t' = t5 and q = "\<lambda>_. p_obj"])
       (use nP 2(7,9-11) t5 b(2) 1(7) in \<open>auto simp: st_pend_def st_tick_def split: if_splits\<close>)
    then have "blocked s R P W x d p_obj pending_on timeout s5"
      using False t(1) F 2(7) t5 b(2) 1(8) by (simp add: blocked_def pend_block_def)
    moreover have "OS_Pend d p_obj pending_on timeout s = Some s5"
      using 1(1,2) 2(1-4) False x by (simp add: OS_Pend_def)
    ultimately show ?thesis by blast
  qed
qed

subsection \<open>What the invariant does not depend on\<close>

definition tcb_key :: "OS_TCB \<Rightarrow> (ptr \<times> ptr \<times> OS_PRIO) \<times> (ptr \<times> ptr \<times> nat option \<times> OS_TICK) \<times> OS_STATE \<times> ptr \<times> OS_OBJ_QTY" where
  "tcb_key t = (rdy_view t, tick_view t, TCB_TaskState t, TCB_PendDataTblPtr t, TCB_PendDataTblEntries t)"

lemma kinv_cong:
  assumes t: "\<And>x. map_option tcb_key (tcbs s' x) = map_option tcb_key (tcbs s x)"
    and w: "pds s' = pds s" "objs s' = objs s" "OSRdyList s' = OSRdyList s" "OSPrioTbl s' = OSPrioTbl s"
      "OSCfg_TickWheel s' = OSCfg_TickWheel s" "OSTickCtr s' = OSTickCtr s"
  shows "kinv s' R P W = kinv s R P W"
proof -
  have v: "map_option rdy_view (tcbs s' x) = map_option rdy_view (tcbs s x)"
    "map_option tick_view (tcbs s' x) = map_option tick_view (tcbs s x)" for x
    by (rule map_option_eq_via [OF t], simp add: tcb_key_def)+
  have K: "krel s' R P W = krel s R P W" by (rule krel_cong) (simp_all add: v w)
  have dm: "dom (tcbs s') = dom (tcbs s)" by (rule map_option_dom [OF t])
  have ok: "task_ok s' R P x t' = task_ok s R P x t" if "tcb_key t' = tcb_key t" for x t' t
    using that by (simp add: task_ok_def pend_tbl_ok_def pend_tbl_def tcb_key_def rdy_view_def tick_view_def w)
  have tbl: "pend_tbl t' = pend_tbl t" if "tcb_key t' = tcb_key t" for t' t
    using that by (simp add: pend_tbl_def tcb_key_def)
  have ex: "(\<exists>t'. tcbs s' x = Some t' \<and> d \<in> pend_tbl t') \<longleftrightarrow> (\<exists>t. tcbs s x = Some t \<and> d \<in> pend_tbl t)"
    "(\<forall>t'. tcbs s' x = Some t' \<longrightarrow> task_ok s' R P x t') \<longleftrightarrow> (\<forall>t. tcbs s x = Some t \<longrightarrow> task_ok s R P x t)" for x d
  proof -
    have "(tcbs s x = None \<and> tcbs s' x = None) \<or> (\<exists>t t'. tcbs s x = Some t \<and> tcbs s' x = Some t' \<and> tcb_key t' = tcb_key t)"
      using t [of x] by (cases "tcbs s x"; cases "tcbs s' x") auto
    then show "(\<exists>t'. tcbs s' x = Some t' \<and> d \<in> pend_tbl t') \<longleftrightarrow> (\<exists>t. tcbs s x = Some t \<and> d \<in> pend_tbl t)"
      "(\<forall>t'. tcbs s' x = Some t' \<longrightarrow> task_ok s' R P x t') \<longleftrightarrow> (\<forall>t. tcbs s x = Some t \<longrightarrow> task_ok s R P x t)"
      by (metis option.distinct(1) option.inject tbl, metis option.distinct(1) option.inject ok)
  qed
  have "pend_owned s' P = pend_owned s P"
    unfolding pend_owned_def w by (simp only: ex_simps(1,2) ex(1) conj_assoc)
  moreover have "mem_bound s' = mem_bound s" by (simp add: mem_bound_def dm w)
  ultimately show ?thesis unfolding kinv_def using K ex(2) by simp
qed

lemma kinv_tcb_upd:
  assumes "tcbs s x = Some t" "tcb_key t' = tcb_key t"
  shows "kinv (s\<lparr>tcbs := (tcbs s)(x \<mapsto> t')\<rparr>) R P W = kinv s R P W"
  by (rule kinv_cong) (use assms in auto)

end
