(* ===== verification/OS_Sched.thy ===== *)
theory OS_Sched
  imports OS_Inv
begin

text \<open>
  \<^verbatim>\<open>src/ucosTest/Source/os_core.c\<close>, the scheduler, and the context switch of
  \<^verbatim>\<open>src/ucosTest/PORTS/os_cpu_c.c\<close>.  Of the switch, the model has what it does to the kernel's
  variables (\<^verbatim>\<open>OSTaskSwHook\<close>, \<^verbatim>\<open>OSTCBCurPtr\<close>, \<^verbatim>\<open>OSPrioCur\<close>); the hand-over between the threads of
  the host is the host's.
\<close>

definition OSTaskSwHook :: "os \<Rightarrow> os option" where
  "OSTaskSwHook s = do {
     let (ts, s) = OS_TS_GET s;
     let cur = OSTCBCurPtr s;
     s \<leftarrow> (if cur \<noteq> OSTCBHighRdyPtr s
           then tcb_mod cur (\<lambda>t. t\<lparr>TCB_CyclesDelta := ts - TCB_CyclesStart t,
                  TCB_CyclesTotal := TCB_CyclesTotal t + (ts - TCB_CyclesStart t)\<rparr>) s
           else Some s);
     s \<leftarrow> tcb_mod (OSTCBHighRdyPtr s) (\<lambda>t. t\<lparr>TCB_CyclesStart := ts\<rparr>) s;
     s \<leftarrow> tcb_mod cur (\<lambda>t. if TCB_SchedLockTimeMax t < OSSchedLockTimeMaxCur s
            then t\<lparr>TCB_SchedLockTimeMax := OSSchedLockTimeMaxCur s\<rparr> else t) s;
     Some (s\<lparr>OSSchedLockTimeMaxCur := 0\<rparr>)
   }"

definition OSCtxSw :: "os \<Rightarrow> os option" where
  "OSCtxSw s = do {
     s \<leftarrow> OSTaskSwHook s;
     Some (s\<lparr>OSTCBCurPtr := OSTCBHighRdyPtr s, OSPrioCur := OSPrioHighRdy s\<rparr>)
   }"

definition OSIntCtxSw :: "os \<Rightarrow> os option" where
  "OSIntCtxSw s = do {
     s \<leftarrow> OSTaskSwHook s;
     Some (s\<lparr>OSTCBCurPtr := OSTCBHighRdyPtr s, OSPrioCur := OSPrioHighRdy s\<rparr>)
   }"

definition OSIntEnter :: "os \<Rightarrow> os" where
  "OSIntEnter s =
     (if OSRunning s \<noteq> OS_STATE_OS_RUNNING then s
      else if OSIntNestingCtr s \<ge> 250 then s
      else s\<lparr>OSIntNestingCtr := OSIntNestingCtr s + 1\<rparr>)"

definition OSIntExit :: "os \<Rightarrow> os option" where
  "OSIntExit s =
     (if OSRunning s \<noteq> OS_STATE_OS_RUNNING then Some s
      else if OSIntNestingCtr s = 0 then Some s
      else do {
        let s = s\<lparr>OSIntNestingCtr := OSIntNestingCtr s - 1\<rparr>;
        if OSIntNestingCtr s > 0 then Some s
        else if OSSchedLockNestingCtr s > 0 then Some s
        else do {
          prio \<leftarrow> OS_PrioGetHighest s;
          let s = s\<lparr>OSPrioHighRdy := prio\<rparr>;
          rl \<leftarrow> OSRdyList s (unat prio);
          let s = s\<lparr>OSTCBHighRdyPtr := RL_HeadPtr rl\<rparr>;
          if OSTCBHighRdyPtr s = OSTCBCurPtr s then Some s
          else do {
            s \<leftarrow> tcb_mod (OSTCBHighRdyPtr s) (\<lambda>t. t\<lparr>TCB_CtxSwCtr := TCB_CtxSwCtr t + 1\<rparr>) s;
            OSIntCtxSw (s\<lparr>OSTaskCtxSwCtr := OSTaskCtxSwCtr s + 1\<rparr>)
          }
        }
      })"

definition OSSched :: "os \<Rightarrow> os option" where
  "OSSched s =
     (if OSIntNestingCtr s > 0 then Some s
      else if OSSchedLockNestingCtr s > 0 then Some s
      else do {
        prio \<leftarrow> OS_PrioGetHighest s;
        let s = s\<lparr>OSPrioHighRdy := prio\<rparr>;
        rl \<leftarrow> OSRdyList s (unat prio);
        let s = s\<lparr>OSTCBHighRdyPtr := RL_HeadPtr rl\<rparr>;
        if OSTCBHighRdyPtr s = OSTCBCurPtr s then Some s
        else do {
          s \<leftarrow> tcb_mod (OSTCBHighRdyPtr s) (\<lambda>t. t\<lparr>TCB_CtxSwCtr := TCB_CtxSwCtr t + 1\<rparr>) s;
          OSCtxSw (s\<lparr>OSTaskCtxSwCtr := OSTaskCtxSwCtr s + 1\<rparr>)
        }
      })"

definition OS_SchedLockTimeMeasStart :: "os \<Rightarrow> os" where
  "OS_SchedLockTimeMeasStart s =
     (if OSSchedLockNestingCtr s = 1 then let (ts, s) = OS_TS_GET s in s\<lparr>OSSchedLockTimeBegin := ts\<rparr> else s)"

definition OS_SchedLockTimeMeasStop :: "os \<Rightarrow> os" where
  "OS_SchedLockTimeMeasStop s =
     (if OSSchedLockNestingCtr s = 0 then
        let (ts, s) = OS_TS_GET s;
            delta = ts - OSSchedLockTimeBegin s;
            s = (if OSSchedLockTimeMax s < delta then s\<lparr>OSSchedLockTimeMax := delta\<rparr> else s)
        in if OSSchedLockTimeMaxCur s < delta then s\<lparr>OSSchedLockTimeMaxCur := delta\<rparr> else s
      else s)"

definition OSSchedLock :: "os \<Rightarrow> OS_ERR \<times> os" where
  "OSSchedLock s =
     (if OSIntNestingCtr s > 0 then (OS_ERR_SCHED_LOCK_ISR, s)
      else if OSRunning s \<noteq> OS_STATE_OS_RUNNING then (OS_ERR_OS_NOT_RUNNING, s)
      else if OSSchedLockNestingCtr s \<ge> 250 then (OS_ERR_LOCK_NESTING_OVF, s)
      else (OS_ERR_NONE, OS_SchedLockTimeMeasStart (s\<lparr>OSSchedLockNestingCtr := OSSchedLockNestingCtr s + 1\<rparr>)))"

definition OSSchedUnlock :: "os \<Rightarrow> (OS_ERR \<times> os) option" where
  "OSSchedUnlock s =
     (if OSIntNestingCtr s > 0 then Some (OS_ERR_SCHED_UNLOCK_ISR, s)
      else if OSRunning s \<noteq> OS_STATE_OS_RUNNING then Some (OS_ERR_OS_NOT_RUNNING, s)
      else if OSSchedLockNestingCtr s = 0 then Some (OS_ERR_SCHED_NOT_LOCKED, s)
      else do {
        let s = s\<lparr>OSSchedLockNestingCtr := OSSchedLockNestingCtr s - 1\<rparr>;
        if OSSchedLockNestingCtr s > 0 then Some (OS_ERR_SCHED_LOCKED, s)
        else do {
          s \<leftarrow> OSSched (OS_SchedLockTimeMeasStop s);
          Some (OS_ERR_NONE, s)
        }
      })"

definition OSSchedRoundRobinCfg :: "bool \<Rightarrow> OS_TICK \<Rightarrow> os \<Rightarrow> OS_ERR \<times> os" where
  "OSSchedRoundRobinCfg en dflt_time_quanta s =
     (OS_ERR_NONE, s\<lparr>OSSchedRoundRobinEn := en,
        OSSchedRoundRobinDfltTimeQuanta := (if dflt_time_quanta > 0 then dflt_time_quanta else OSCfg_TickRate_Hz div 10)\<rparr>)"

text \<open>The tail that \<^verbatim>\<open>OSSchedRoundRobinYield\<close> and \<^verbatim>\<open>OS_SchedRoundRobin\<close> share: give the new head its
  time quanta.\<close>

definition rr_quanta :: "nat \<Rightarrow> os \<Rightarrow> os option" where
  "rr_quanta ix s = do {
     rl \<leftarrow> OSRdyList s ix;
     let p_tcb = RL_HeadPtr rl;
     tcb \<leftarrow> tcbs s p_tcb;
     if TCB_TimeQuanta tcb = 0
     then tcb_mod p_tcb (\<lambda>t. t\<lparr>TCB_TimeQuantaCtr := OSSchedRoundRobinDfltTimeQuanta s\<rparr>) s
     else tcb_mod p_tcb (\<lambda>t. t\<lparr>TCB_TimeQuantaCtr := TCB_TimeQuanta t\<rparr>) s
   }"

definition OSSchedRoundRobinYield :: "os \<Rightarrow> (OS_ERR \<times> os) option" where
  "OSSchedRoundRobinYield s =
     (if OSIntNestingCtr s > 0 then Some (OS_ERR_YIELD_ISR, s)
      else if OSSchedLockNestingCtr s > 0 then Some (OS_ERR_SCHED_LOCKED, s)
      else if \<not> OSSchedRoundRobinEn s then Some (OS_ERR_ROUND_ROBIN_DISABLED, s)
      else do {
        let ix = unat (OSPrioCur s);
        rl \<leftarrow> OSRdyList s ix;
        if RL_NbrEntries rl < 2 then Some (OS_ERR_ROUND_ROBIN_1, s)
        else do {
          s \<leftarrow> OS_RdyListMoveHeadToTail ix s;
          s \<leftarrow> rr_quanta ix s;
          s \<leftarrow> OSSched s;
          Some (OS_ERR_NONE, s)
        }
      })"

text \<open>The argument is the address \<open>&OSRdyList[ix]\<close>, given by its index.\<close>

definition OS_SchedRoundRobin :: "nat \<Rightarrow> os \<Rightarrow> os option" where
  "OS_SchedRoundRobin ix s =
     (if \<not> OSSchedRoundRobinEn s then Some s
      else do {
        rl \<leftarrow> OSRdyList s ix;
        let p_tcb = RL_HeadPtr rl;
        if p_tcb = NULL then Some s
        else if p_tcb = OSIdleTaskTCB s then Some s
        else do {
          s \<leftarrow> tcb_mod p_tcb (\<lambda>t. if TCB_TimeQuantaCtr t > 0 then t\<lparr>TCB_TimeQuantaCtr := TCB_TimeQuantaCtr t - 1\<rparr> else t) s;
          tcb \<leftarrow> tcbs s p_tcb;
          if TCB_TimeQuantaCtr tcb > 0 then Some s
          else if RL_NbrEntries rl < 2 then Some s
          else if OSSchedLockNestingCtr s > 0 then Some s
          else do {
            s \<leftarrow> OS_RdyListMoveHeadToTail ix s;
            rr_quanta ix s
          }
        }
      })"

text \<open>\<^verbatim>\<open>OSStart\<close> up to the call of \<^verbatim>\<open>OSStartHighRdy\<close>, of which the switch hook is modelled; the
  host then runs the tasks, and the call returns only when the host shuts the kernel down.\<close>

definition OSStart :: "os \<Rightarrow> (OS_ERR \<times> os) option" where
  "OSStart s =
     (if OSRunning s = OS_STATE_OS_STOPPED then do {
        prio \<leftarrow> OS_PrioGetHighest s;
        rl \<leftarrow> OSRdyList s (unat prio);
        s \<leftarrow> OSTaskSwHook (s\<lparr>OSPrioHighRdy := prio, OSPrioCur := prio, OSTCBHighRdyPtr := RL_HeadPtr rl,
               OSTCBCurPtr := RL_HeadPtr rl, OSRunning := OS_STATE_OS_RUNNING\<rparr>);
        Some (OS_ERR_FATAL_RETURN, s)
      } else Some (OS_ERR_OS_RUNNING, s))"

subsection \<open>What the scheduler needs of the ready list\<close>

text \<open>The most urgent priority that has a ready task, and the task that must run: the first
  one of that priority.\<close>

definition top_prio :: "(nat \<Rightarrow> 'a list) \<Rightarrow> nat" where
  "top_prio R = (LEAST p. R p \<noteq> [])"

definition top_task :: "(nat \<Rightarrow> 'a list) \<Rightarrow> 'a" where
  "top_task R = hd (R (top_prio R))"

locale ready_queue =
  fixes rel :: "'s \<Rightarrow> (nat \<Rightarrow> 'a list) \<Rightarrow> bool"
    and highest :: "'s \<Rightarrow> OS_PRIO option"
    and first :: "'s \<Rightarrow> nat \<Rightarrow> 'a option"
  assumes highest_top: "rel s R \<Longrightarrow> R p \<noteq> [] \<Longrightarrow> highest s = Some (of_nat (top_prio R)) \<and> top_prio R < 256"
    and first_hd: "rel s R \<Longrightarrow> R p \<noteq> [] \<Longrightarrow> first s p = Some (hd (R p))"
begin

lemma top_nonempty: "R p \<noteq> [] \<Longrightarrow> R (top_prio R) \<noteq> []"
  unfolding top_prio_def by (rule LeastI)

lemma pick:
  assumes "rel s R" "R p \<noteq> []"
  shows "\<exists>prio. highest s = Some prio \<and> unat prio = top_prio R \<and> first s (unat prio) = Some (top_task R)"
proof -
  have h: "highest s = Some (of_nat (top_prio R))" "top_prio R < 256" using highest_top [OF assms] by auto
  then have "unat (of_nat (top_prio R) :: OS_PRIO) = top_prio R" by (simp add: unat_of_nat take_bit_nat_eq_self)
  with h first_hd [OF assms(1) top_nonempty [where R = R and p = p, OF assms(2)]] show ?thesis by (simp add: top_task_def)
qed

lemma top_task_most_urgent:
  assumes "x \<in> set (R p)"
  shows "top_task R \<in> set (R (top_prio R))" "top_prio R \<le> p"
proof -
  from assms have ne: "R p \<noteq> []" by auto
  from top_nonempty [where R = R and p = p, OF ne] show "top_task R \<in> set (R (top_prio R))" by (simp add: top_task_def)
  show "top_prio R \<le> p" unfolding top_prio_def by (rule Least_le) (rule ne)
qed

end

definition rdy_first :: "os \<Rightarrow> nat \<Rightarrow> ptr option" where
  "rdy_first s p = map_option RL_HeadPtr (OSRdyList s p)"

lemma rdy_rel_highest:
  assumes "rdy_rel s R" "R p \<noteq> []"
  shows "OS_PrioGetHighest s = Some (of_nat (top_prio R)) \<and> top_prio R < 256"
proof -
  have e: "prio_set s = {p. R p \<noteq> []}" and l: "length (OSPrioTbl s) = OS_PRIO_TBL_SIZE"
    using assms(1) by (auto simp: rdy_rel_def rdy_map_def)
  then have "p \<in> prio_set s" "32 * length (OSPrioTbl s) \<le> 256" using assms(2) by simp_all
  from OS_PrioGetHighest_Min [OF this(2,1)] show ?thesis by (simp add: e top_prio_def)
qed

lemma rdy_rel_first:
  assumes "rdy_rel s R" "R p \<noteq> []"
  shows "rdy_first s p = Some (hd (R p))"
proof -
  have L: "rdy_links s R" using assms(1) by (simp add: rdy_rel_def)
  then have "p < OS_CFG_PRIO_MAX" using assms(2) unfolding rdy_links_def by (metis not_less)
  from rdy_links_obtain [OF L this] obtain l where "OSRdyList s p = Some l"
    "linked TCB_NextPtr TCB_PrevPtr (tcbs s) (RL_HeadPtr l) (RL_TailPtr l) (R p)" by metis
  then show ?thesis using assms(2) linkedD(4) by (fastforce simp: rdy_first_def hd0_nonempty)
qed

interpretation rq: ready_queue rdy_rel OS_PrioGetHighest rdy_first
  by unfold_locales (rule rdy_rel_highest, assumption+, rule rdy_rel_first)

subsection \<open>The context switch\<close>

lemma tcb_key_bookkeeping [simp]:
  "tcb_key (t\<lparr>TCB_CyclesDelta := a, TCB_CyclesTotal := b\<rparr>) = tcb_key t" "tcb_key (t\<lparr>TCB_CyclesStart := a\<rparr>) = tcb_key t"
  "tcb_key (t\<lparr>TCB_SchedLockTimeMax := a\<rparr>) = tcb_key t" "tcb_key (t\<lparr>TCB_CtxSwCtr := a\<rparr>) = tcb_key t"
  "tcb_key (t\<lparr>TCB_TimeQuantaCtr := c\<rparr>) = tcb_key t"
  by (simp_all add: tcb_key_def rdy_view_def tick_view_def)

text \<open>What a switch leaves alone: everything but statistics.\<close>

definition tcb_stat :: "OS_TCB \<Rightarrow> OS_TCB" where
  "tcb_stat t = t\<lparr>TCB_CyclesDelta := 0, TCB_CyclesTotal := 0, TCB_CyclesStart := 0, TCB_SchedLockTimeMax := 0, TCB_CtxSwCtr := 0\<rparr>"

definition os_less_sw :: "os \<Rightarrow> os" where
  "os_less_sw s = s\<lparr>tcbs := Map.empty, OSTCBCurPtr := NULL, OSTCBHighRdyPtr := NULL, OSPrioCur := 0, OSPrioHighRdy := 0,
     OSTaskCtxSwCtr := 0, OSSchedLockTimeMaxCur := 0, TmrRdIx := 0\<rparr>"

definition sw_frame :: "os \<Rightarrow> os \<Rightarrow> bool" where
  "sw_frame s s' \<longleftrightarrow> os_less_sw s' = os_less_sw s \<and> (\<forall>x. map_option tcb_stat (tcbs s' x) = map_option tcb_stat (tcbs s x))"

lemma sw_frame_refl [simp]: "sw_frame s s"
  by (simp add: sw_frame_def)

lemma sw_frame_trans: "sw_frame s s' \<Longrightarrow> sw_frame s' s'' \<Longrightarrow> sw_frame s s''"
  by (simp add: sw_frame_def)

lemma tcb_stat_key: "tcb_stat t' = tcb_stat t \<Longrightarrow> tcb_key t' = tcb_key t"
proof -
  have "tcb_key (tcb_stat t) = tcb_key t" for t by (simp add: tcb_stat_def tcb_key_def rdy_view_def tick_view_def)
  then show "tcb_stat t' = tcb_stat t \<Longrightarrow> tcb_key t' = tcb_key t" by metis
qed

lemma sw_frame_globals:
  assumes "sw_frame s s'"
  shows "pds s' = pds s" "objs s' = objs s" "sems s' = sems s" "qs s' = qs s" "msgs s' = msgs s" "OSRdyList s' = OSRdyList s" "OSPrioTbl s' = OSPrioTbl s" "OSCfg_TickWheel s' = OSCfg_TickWheel s" "OSTickCtr s' = OSTickCtr s" "OSIntNestingCtr s' = OSIntNestingCtr s" "OSSchedLockNestingCtr s' = OSSchedLockNestingCtr s" "OSRunning s' = OSRunning s" "OSMsgPool s' = OSMsgPool s"
proof -
  have e: "os_less_sw s' = os_less_sw s" using assms by (simp add: sw_frame_def)
  show "pds s' = pds s" using arg_cong [OF e, of pds] by (simp add: os_less_sw_def)
  show "objs s' = objs s" using arg_cong [OF e, of objs] by (simp add: os_less_sw_def)
  show "sems s' = sems s" using arg_cong [OF e, of sems] by (simp add: os_less_sw_def)
  show "qs s' = qs s" using arg_cong [OF e, of qs] by (simp add: os_less_sw_def)
  show "msgs s' = msgs s" using arg_cong [OF e, of msgs] by (simp add: os_less_sw_def)
  show "OSRdyList s' = OSRdyList s" using arg_cong [OF e, of OSRdyList] by (simp add: os_less_sw_def)
  show "OSPrioTbl s' = OSPrioTbl s" using arg_cong [OF e, of OSPrioTbl] by (simp add: os_less_sw_def)
  show "OSCfg_TickWheel s' = OSCfg_TickWheel s" using arg_cong [OF e, of OSCfg_TickWheel] by (simp add: os_less_sw_def)
  show "OSTickCtr s' = OSTickCtr s" using arg_cong [OF e, of OSTickCtr] by (simp add: os_less_sw_def)
  show "OSIntNestingCtr s' = OSIntNestingCtr s" using arg_cong [OF e, of OSIntNestingCtr] by (simp add: os_less_sw_def)
  show "OSSchedLockNestingCtr s' = OSSchedLockNestingCtr s" using arg_cong [OF e, of OSSchedLockNestingCtr] by (simp add: os_less_sw_def)
  show "OSRunning s' = OSRunning s" using arg_cong [OF e, of OSRunning] by (simp add: os_less_sw_def)
  show "OSMsgPool s' = OSMsgPool s" using arg_cong [OF e, of OSMsgPool] by (simp add: os_less_sw_def)
qed

lemma sw_frame_kinv: "sw_frame s s' \<Longrightarrow> kinv s' R P W = kinv s R P W"
proof -
  assume f: "sw_frame s s'"
  then have t: "\<And>x. map_option tcb_stat (tcbs s' x) = map_option tcb_stat (tcbs s x)" by (simp add: sw_frame_def)
  show ?thesis
    by (rule kinv_cong) (simp_all add: map_option_eq_via [OF t tcb_stat_key] sw_frame_globals [OF f])
qed

lemma OSTaskSwHook_ok:
  assumes "OSTCBCurPtr s \<in> dom (tcbs s)" "OSTCBHighRdyPtr s \<in> dom (tcbs s)"
  shows "\<exists>s'. OSTaskSwHook s = Some s' \<and> sw_frame s s' \<and> OSTCBHighRdyPtr s' = OSTCBHighRdyPtr s \<and> OSPrioHighRdy s' = OSPrioHighRdy s \<and>
    OSTCBCurPtr s' = OSTCBCurPtr s \<and> OSPrioCur s' = OSPrioCur s"
proof -
  from assms obtain t u where t: "tcbs s (OSTCBCurPtr s) = Some t" "tcbs s (OSTCBHighRdyPtr s) = Some u" by blast
  show ?thesis
  proof (cases "OSTCBCurPtr s = OSTCBHighRdyPtr s")
    case True
    with t show ?thesis by (auto simp: OSTaskSwHook_def OS_TS_GET_def sw_frame_def os_less_sw_def tcb_stat_def Let_def)
  next
    case False
    with t show ?thesis by (auto simp: OSTaskSwHook_def OS_TS_GET_def sw_frame_def os_less_sw_def tcb_stat_def Let_def)
  qed
qed

text \<open>The common body of \<^verbatim>\<open>OSSched\<close> and \<^verbatim>\<open>OSIntExit\<close> once switching is allowed.\<close>

definition sched_switch :: "os \<Rightarrow> os option" where
  "sched_switch s = do {
     prio \<leftarrow> OS_PrioGetHighest s;
     let s = s\<lparr>OSPrioHighRdy := prio\<rparr>;
     rl \<leftarrow> OSRdyList s (unat prio);
     let s = s\<lparr>OSTCBHighRdyPtr := RL_HeadPtr rl\<rparr>;
     if OSTCBHighRdyPtr s = OSTCBCurPtr s then Some s
     else do {
       s \<leftarrow> tcb_mod (OSTCBHighRdyPtr s) (\<lambda>t. t\<lparr>TCB_CtxSwCtr := TCB_CtxSwCtr t + 1\<rparr>) s;
       OSCtxSw (s\<lparr>OSTaskCtxSwCtr := OSTaskCtxSwCtr s + 1\<rparr>)
     }
   }"

lemma OSSched_switch: "OSIntNestingCtr s = 0 \<Longrightarrow> OSSchedLockNestingCtr s = 0 \<Longrightarrow> OSSched s = sched_switch s"
  by (simp add: OSSched_def sched_switch_def)

lemma OSIntCtxSw_eq: "OSIntCtxSw = OSCtxSw"
  by (simp add: fun_eq_iff OSCtxSw_def OSIntCtxSw_def)

lemma OSIntExit_switch:
  "OSRunning s = OS_STATE_OS_RUNNING \<Longrightarrow> OSIntNestingCtr s = 1 \<Longrightarrow> OSSchedLockNestingCtr s = 0 \<Longrightarrow>
   OSIntExit s = sched_switch (s\<lparr>OSIntNestingCtr := 0\<rparr>)"
  unfolding OSIntExit_def OSIntCtxSw_eq by (simp add: sched_switch_def Let_def)

text \<open>The current task and the current priority belong together.\<close>

definition cur_ok :: "os \<Rightarrow> bool" where
  "cur_ok s \<longleftrightarrow> (\<exists>t. tcbs s (OSTCBCurPtr s) = Some t \<and> TCB_Prio t = OSPrioCur s)"

lemma sw_frame_tcb:
  assumes "sw_frame s s'" "tcbs s x = Some t"
  obtains t' where "tcbs s' x = Some t'" "tcb_stat t' = tcb_stat t"
proof -
  have "map_option tcb_stat (tcbs s' x) = Some (tcb_stat t)" using assms by (simp add: sw_frame_def)
  with that show ?thesis by (auto simp: map_option_Some_iff)
qed

lemma sched_switch_gen:
  assumes K: "kinv s R P W" and d: "OSTCBCurPtr s \<in> dom (tcbs s)" and c: "top_task R = OSTCBCurPtr s \<Longrightarrow> cur_ok s" and ne: "R p \<noteq> []"
  shows "\<exists>s'. sched_switch s = Some s' \<and> kinv s' R P W \<and> sw_frame s s' \<and> cur_ok s' \<and>
    OSTCBCurPtr s' = top_task R \<and> unat (OSPrioCur s') = top_prio R"
proof -
  note k = kinvD [OF K]
  from rq.pick [OF k(2) ne] obtain prio rl where pr: "OS_PrioGetHighest s = Some prio" "unat prio = top_prio R"
    "OSRdyList s (unat prio) = Some rl" "RL_HeadPtr rl = top_task R" by (auto simp: rdy_first_def)
  have "top_task R \<in> set (R (top_prio R))"
    using rq.top_task_most_urgent(1) [where R = R and p = p and x = "hd (R p)"] ne by simp
  from rdy_rel_list(3) [OF k(2) this] obtain t where t: "tcbs s (top_task R) = Some t" "unat (TCB_Prio t) = top_prio R" by blast
  then have tp: "TCB_Prio t = prio" using pr(2) by (simp add: word_eq_iff_unsigned [where 'a = nat])
  let ?s1 = "s\<lparr>OSPrioHighRdy := prio, OSTCBHighRdyPtr := top_task R\<rparr>"
  show ?thesis
  proof (cases "top_task R = OSTCBCurPtr s")
    case True
    have 1: "sched_switch s = Some ?s1" using pr True by (simp add: sched_switch_def)
    have F: "sw_frame s ?s1" by (simp add: sw_frame_def os_less_sw_def)
    have "OSPrioCur s = prio" using c [OF True] t True tp by (auto simp: cur_ok_def)
    with 1 F K c [OF True] sw_frame_kinv [OF F] True pr(2) show ?thesis by (simp add: cur_ok_def)
  next
    case False
    let ?s2 = "?s1\<lparr>tcbs := (tcbs s)(top_task R \<mapsto> t\<lparr>TCB_CtxSwCtr := TCB_CtxSwCtr t + 1\<rparr>), OSTaskCtxSwCtr := OSTaskCtxSwCtr s + 1\<rparr>"
    have F2: "sw_frame s ?s2" using t by (auto simp: sw_frame_def os_less_sw_def tcb_stat_def)
    have "OSTCBCurPtr ?s2 \<in> dom (tcbs ?s2)" "OSTCBHighRdyPtr ?s2 \<in> dom (tcbs ?s2)" using d by auto
    from OSTaskSwHook_ok [OF this] obtain s3 where s3: "OSTaskSwHook ?s2 = Some s3" "sw_frame ?s2 s3"
      "OSTCBHighRdyPtr s3 = top_task R" "OSPrioHighRdy s3 = prio" by auto
    let ?s4 = "s3\<lparr>OSTCBCurPtr := top_task R, OSPrioCur := prio\<rparr>"
    have 1: "sched_switch s = Some ?s4" using pr t False s3 by (simp add: sched_switch_def OSCtxSw_def)
    have "sw_frame s3 ?s4" by (simp add: sw_frame_def os_less_sw_def)
    with F2 s3(2) have F: "sw_frame s ?s4" using sw_frame_trans by blast
    obtain t' where t': "tcbs ?s4 (top_task R) = Some t'" "tcb_stat t' = tcb_stat t" by (rule sw_frame_tcb [OF F t(1)])
    have "TCB_Prio t' = prio" using tcb_stat_key [OF t'(2)] tp by (simp add: tcb_key_def rdy_view_def)
    then have "cur_ok ?s4" using t' by (simp add: cur_ok_def)
    with 1 F K sw_frame_kinv [OF F] pr(2) show ?thesis by simp
  qed
qed

lemma sched_switch_ok:
  assumes "kinv s R P W" "cur_ok s" "R p \<noteq> []"
  shows "\<exists>s'. sched_switch s = Some s' \<and> kinv s' R P W \<and> sw_frame s s' \<and> cur_ok s' \<and>
    OSTCBCurPtr s' = top_task R \<and> unat (OSPrioCur s') = top_prio R"
  using sched_switch_gen [OF assms(1) _ _ assms(3)] assms(2) by (auto simp: cur_ok_def)

text \<open>\<^verbatim>\<open>OSSched\<close> at task level with the scheduler unlocked leaves the most urgent ready task
  running, and is without effect otherwise.\<close>

definition sched_done :: "os \<Rightarrow> (nat \<Rightarrow> ptr list) \<Rightarrow> os \<Rightarrow> bool" where
  "sched_done s R s' \<longleftrightarrow>
     (if OSIntNestingCtr s > 0 \<or> OSSchedLockNestingCtr s > 0 then s' = s
      else OSTCBCurPtr s' = top_task R \<and> unat (OSPrioCur s') = top_prio R)"

lemma OSSched_ok:
  assumes "kinv s R P W" "cur_ok s" "R p \<noteq> []"
  shows "\<exists>s'. OSSched s = Some s' \<and> kinv s' R P W \<and> sw_frame s s' \<and> cur_ok s' \<and> sched_done s R s'"
proof (cases "OSIntNestingCtr s > 0 \<or> OSSchedLockNestingCtr s > 0")
  case True
  then have "OSSched s = Some s" by (auto simp: OSSched_def)
  with True assms show ?thesis by (simp add: sched_done_def)
next
  case False
  then have "OSSched s = sched_switch s" by (intro OSSched_switch) (auto simp: word_gt_0)
  with False sched_switch_ok [OF assms] show ?thesis by (simp add: sched_done_def)
qed

lemma kinv_globals [simp]:
  "kinv (s\<lparr>OSIntNestingCtr := a\<rparr>) R P W = kinv s R P W"
  "kinv (s\<lparr>OSSchedLockNestingCtr := b\<rparr>) R P W = kinv s R P W"
  "kinv (s\<lparr>sems := c\<rparr>) R P W = kinv s R P W"
  "kinv (s\<lparr>qs := d\<rparr>) R P W = kinv s R P W"
  "kinv (s\<lparr>msgs := e\<rparr>) R P W = kinv s R P W"
  "kinv (s\<lparr>OSMsgPool := f\<rparr>) R P W = kinv s R P W"
  "kinv (s\<lparr>mutexes := g\<rparr>) R P W = kinv s R P W"
  "kinv (s\<lparr>flags := h\<rparr>) R P W = kinv s R P W"
  "kinv (s\<lparr>TmrRdIx := i\<rparr>) R P W = kinv s R P W"
  by (rule kinv_cong; simp)+

lemma cur_ok_globals [simp]:
  "cur_ok (s\<lparr>OSIntNestingCtr := a\<rparr>) = cur_ok s" "cur_ok (s\<lparr>OSSchedLockNestingCtr := b\<rparr>) = cur_ok s"
  "cur_ok (s\<lparr>sems := c\<rparr>) = cur_ok s" "cur_ok (s\<lparr>qs := d\<rparr>) = cur_ok s" "cur_ok (s\<lparr>msgs := e\<rparr>) = cur_ok s"
  "cur_ok (s\<lparr>OSMsgPool := f\<rparr>) = cur_ok s" "cur_ok (s\<lparr>mutexes := g\<rparr>) = cur_ok s" "cur_ok (s\<lparr>flags := h\<rparr>) = cur_ok s"
  "cur_ok (s\<lparr>TmrRdIx := i\<rparr>) = cur_ok s"
  by (simp_all add: cur_ok_def)

lemma kinv_meas [simp]:
  "kinv (OS_SchedLockTimeMeasStart s) R P W = kinv s R P W" "kinv (OS_SchedLockTimeMeasStop s) R P W = kinv s R P W"
  by (rule kinv_cong; simp add: OS_SchedLockTimeMeasStart_def OS_SchedLockTimeMeasStop_def OS_TS_GET_def Let_def)+

lemma cur_ok_meas [simp]:
  "cur_ok (OS_SchedLockTimeMeasStart s) = cur_ok s" "cur_ok (OS_SchedLockTimeMeasStop s) = cur_ok s"
  by (simp_all add: cur_ok_def OS_SchedLockTimeMeasStart_def OS_SchedLockTimeMeasStop_def OS_TS_GET_def Let_def)

subsection \<open>Round robin\<close>

lemma kinv_rdy_perm:
  assumes K: "kinv s R P W" and R': "rdy_rel s' R'" "rdy_frame s s'" "\<And>p. set (R' p) = set (R p)"
  shows "kinv s' R' P W"
proof -
  note k = kinvD [OF K]
  have F: "kframe {} {} s s'" by (rule rdy_frame_kframe [OF R'(2)])
  have pd: "pds s' = pds s" using R'(2) os_less_rdyD(1) unfolding rdy_frame_def by blast
  have ok: "task_ok s' R' P x t'" if "tcbs s' x = Some t'" for x t'
  proof -
    from kframe_tcb(2) [OF F _ that] obtain t where t: "tcbs s x = Some t" "tcb_other t' = tcb_other t" by auto
    have "pend_tbl_ok s' P x t' = pend_tbl_ok s P x t" by (simp add: pend_tbl_ok_def tcb_other_eqD [OF t(2)] pd)
    with k(7) [OF t(1)] show ?thesis using R'(3) by (simp add: task_ok_def tcb_other_eqD [OF t(2)])
  qed
  have "pend_owned s' P" unfolding pend_owned_def
  proof (intro allI ballI)
    fix ob d assume "d \<in> set (P ob)"
    with k(5) obtain e t where e: "pds s d = Some e" "tcbs s (PD_TCBPtr e) = Some t" "d \<in> pend_tbl t"
      unfolding pend_owned_def by blast
    from kframe_tcb(1) [OF F _ e(2)] obtain t' where "tcbs s' (PD_TCBPtr e) = Some t'" "tcb_other t' = tcb_other t" by auto
    with e show "\<exists>e t. pds s' d = Some e \<and> tcbs s' (PD_TCBPtr e) = Some t \<and> d \<in> pend_tbl t"
      using tcb_other_eqD(3) pd by metis
  qed
  moreover have "krel s' R' P W" using k(3,4) R'(1) rdy_frame_others [OF R'(2)] by (simp add: krel_def)
  moreover have "mem_bound s'" using k(6) F by (simp add: mem_bound_def kframe_def)
  ultimately show ?thesis using ok by (simp add: kinv_def)
qed

definition rr_rotate :: "nat \<Rightarrow> (nat \<Rightarrow> 'a list) \<Rightarrow> nat \<Rightarrow> 'a list" where
  "rr_rotate p R = R(p := rotate1 (R p))"

text \<open>Round robin changes nothing of a task but its links and its time quanta counter.\<close>

definition rr_core :: "OS_TCB \<Rightarrow> OS_TCB" where
  "rr_core t = (tcb_core t)\<lparr>TCB_TimeQuantaCtr := 0\<rparr>"

lemma rr_step_ok:
  assumes K: "kinv s R P W" and p: "p < OS_CFG_PRIO_MAX" and ne: "R p \<noteq> []"
  shows "\<exists>s1 s2. OS_RdyListMoveHeadToTail p s = Some s1 \<and> rr_quanta p s1 = Some s2 \<and> kinv s2 (rr_rotate p R) P W \<and>
    os_less_rdy s2 = os_less_rdy s \<and> OSTCBCurPtr s2 = OSTCBCurPtr s \<and>
    (\<forall>x. map_option rr_core (tcbs s2 x) = map_option rr_core (tcbs s x))"
proof -
  note k = kinvD [OF K]
  have L: "rdy_links s R" "rdy_map s R" using k(2) by (simp_all add: rdy_rel_def)
  from OS_RdyListMoveHeadToTail_ok [OF L(1) p] obtain s1 where s1: "OS_RdyListMoveHeadToTail p s = Some s1"
    "rdy_links s1 (rr_rotate p R)" "rdy_frame s s1" "OSPrioTbl s1 = OSPrioTbl s" unfolding rr_rotate_def by blast
  have "rdy_map s1 (rr_rotate p R)" using L(2) s1(4) by (auto simp: rdy_map_def prio_set_def rr_rotate_def)
  then have R1: "rdy_rel s1 (rr_rotate p R)" using s1(2) by (simp add: rdy_rel_def)
  have K1: "kinv s1 (rr_rotate p R) P W" by (rule kinv_rdy_perm [OF K R1 s1(3)]) (simp add: rr_rotate_def)
  have ne1: "rr_rotate p R p \<noteq> []" using ne by (simp add: rr_rotate_def)
  from rdy_rel_first [OF R1 ne1] obtain rl where rl: "OSRdyList s1 p = Some rl" "RL_HeadPtr rl = hd (rr_rotate p R p)"
    by (auto simp: rdy_first_def)
  have "hd (rr_rotate p R p) \<in> set (rr_rotate p R p)" using ne1 by simp
  from rdy_rel_list(3) [OF R1 this] obtain t where t: "tcbs s1 (hd (rr_rotate p R p)) = Some t" by blast
  let ?t = "t\<lparr>TCB_TimeQuantaCtr := if TCB_TimeQuanta t = 0 then OSSchedRoundRobinDfltTimeQuanta s1 else TCB_TimeQuanta t\<rparr>"
  let ?s = "s1\<lparr>tcbs := (tcbs s1)(hd (rr_rotate p R p) \<mapsto> ?t)\<rparr>"
  have 1: "rr_quanta p s1 = Some ?s" using rl t by (simp add: rr_quanta_def Let_def)
  have "kinv ?s (rr_rotate p R) P W" using K1 kinv_tcb_upd [OF t, of ?t] by simp
  moreover have e: "os_less_rdy s1 = os_less_rdy s" using s1(3) by (simp add: rdy_frame_def)
  then have "os_less_rdy ?s = os_less_rdy s" by (simp add: os_less_rdy_def)
  moreover have "OSTCBCurPtr ?s = OSTCBCurPtr s" using arg_cong [OF e, of OSTCBCurPtr] by (simp add: os_less_rdy_def)
  moreover have "map_option rr_core (tcbs ?s x) = map_option rr_core (tcbs s x)" for x
  proof -
    have "rr_core u = rr_core v" if "tcb_core u = tcb_core v" for u v
      using that by (simp add: rr_core_def)
    moreover have "map_option tcb_core (tcbs s1 x) = map_option tcb_core (tcbs s x)" using s1(3) by (simp add: rdy_frame_def)
    ultimately have "map_option rr_core (tcbs s1 x) = map_option rr_core (tcbs s x)" using map_option_eq_via by blast
    moreover have "map_option rr_core (tcbs ?s x) = map_option rr_core (tcbs s1 x)" using t by (simp add: rr_core_def tcb_core_def)
    ultimately show ?thesis by simp
  qed
  ultimately show ?thesis using s1(1) 1 by blast
qed

lemma OS_SchedRoundRobin_rotates:
  assumes K: "kinv s R P W" and p: "p < OS_CFG_PRIO_MAX" and en: "OSSchedRoundRobinEn s" "OSSchedLockNestingCtr s = 0"
    and h: "2 \<le> length (R p)" "hd (R p) \<noteq> OSIdleTaskTCB s" "tcbs s (hd (R p)) = Some t" "TCB_TimeQuantaCtr t \<le> 1"
  shows "\<exists>s'. OS_SchedRoundRobin p s = Some s' \<and> kinv s' (rr_rotate p R) P W"
proof -
  note k = kinvD [OF K]
  have ne: "R p \<noteq> []" using h(1) by auto
  from rdy_links_obtain [OF _ p, of s R] k(2) obtain rl where rl: "OSRdyList s p = Some rl" "unat (RL_NbrEntries rl) = length (R p)"
    by (auto simp: rdy_rel_def)
  from rdy_rel_first [OF k(2) ne] rl(1) have hd: "RL_HeadPtr rl = hd (R p)" by (simp add: rdy_first_def)
  have nz: "hd (R p) \<noteq> NULL" using k(7) [OF h(3)] by (simp add: task_ok_def)
  have nb: "\<not> RL_NbrEntries rl < 2" using rl(2) h(1) by (simp add: word_less_nat_alt)
  let ?t = "if TCB_TimeQuantaCtr t > 0 then t\<lparr>TCB_TimeQuantaCtr := TCB_TimeQuantaCtr t - 1\<rparr> else t"
  let ?s = "s\<lparr>tcbs := (tcbs s)(hd (R p) \<mapsto> ?t)\<rparr>"
  have q: "TCB_TimeQuantaCtr ?t = 0"
  proof (cases "TCB_TimeQuantaCtr t = 0")
    case False
    then have "unat (TCB_TimeQuantaCtr t) \<noteq> 0" by (simp add: unat_eq_0)
    moreover have "unat (TCB_TimeQuantaCtr t) \<le> 1" using h(4) by (simp add: word_le_nat_alt)
    ultimately have "unat (TCB_TimeQuantaCtr t) = Suc 0" by linarith
    then have "TCB_TimeQuantaCtr t = 1" by (rule unat_eq_numD(1))
    then show ?thesis by simp
  qed simp
  have "kinv ?s R P W" using K kinv_tcb_upd [OF h(3), of ?t] by (simp add: if_distrib cong: if_cong)
  from rr_step_ok [OF this p ne] obtain s1 s2 where s2: "OS_RdyListMoveHeadToTail p ?s = Some s1" "rr_quanta p s1 = Some s2"
    "kinv s2 (rr_rotate p R) P W" by blast
  have "tcbs ?s (hd (R p)) = Some ?t" "OSSchedLockNestingCtr ?s = 0" using en(2) by simp_all
  then have "OS_SchedRoundRobin p s = Some s2"
    using en rl(1) hd nz h(2,3) nb q s2(1,2) by (simp add: OS_SchedRoundRobin_def Let_def del: fun_upd_apply)
  with s2(3) show ?thesis by blast
qed

end
