(* ===== verification/OS_Example.thy ===== *)
theory OS_Example
  imports OS_Sched
begin

text \<open>
  A concrete state of the kernel on which the hypotheses of the properties hold: tasks 1 and 2
  are ready at priority 5 and task 1 runs, task 4 is the idle task at priority 31, task 3
  (priority 3) waits with a time-out on the semaphore at address 20 through the pend data at
  address 10, and task 5 (priority 4) waits without time-out on the queue at address 23 through
  the pend data at address 12.  The pend data at the addresses 11, 13 and 14 are free.  The semaphore at 21 has
  the count 2, the queue at 22 holds one message (node 32 of the pool 30 to 32), the mutex at 24
  is free, and the event flag group at 25 has its lowest bit set; no task waits on them.
\<close>

definition mq0 :: OS_MSG_Q where
  "mq0 = \<lparr>MQ_InPtr = NULL, MQ_OutPtr = NULL, MQ_NbrEntriesSize = 0, MQ_NbrEntries = 0, MQ_NbrEntriesMax = 0\<rparr>"

definition msg0 :: OS_MSG where
  "msg0 = \<lparr>MSG_NextPtr = NULL, MSG_MsgPtr = NULL, MSG_MsgSize = 0, MSG_MsgTS = 0\<rparr>"

definition tcb0 :: OS_TCB where
  "tcb0 = \<lparr>TCB_StkPtr = NULL, TCB_ExtPtr = NULL, TCB_StkLimitPtr = NULL, TCB_NextPtr = NULL, TCB_PrevPtr = NULL,
     TCB_TickNextPtr = NULL, TCB_TickPrevPtr = NULL, TCB_TickSpokePtr = None, TCB_NamePtr = [], TCB_StkBasePtr = NULL,
     TCB_TaskEntryAddr = NULL, TCB_TaskEntryArg = NULL, TCB_PendDataTblPtr = NULL, TCB_PendOn = 0, TCB_PendStatus = 0,
     TCB_TaskState = 0, TCB_Prio = 0, TCB_StkSize = 0, TCB_Opt = 0, TCB_PendDataTblEntries = 0, TCB_TS = 0,
     TCB_SemCtr = 0, TCB_TickCtrPrev = 0, TCB_TickCtrMatch = 0, TCB_TickRemain = 0, TCB_TimeQuanta = 0,
     TCB_TimeQuantaCtr = 0, TCB_MsgPtr = NULL, TCB_MsgSize = 0, TCB_MsgQ = mq0, TCB_MsgQPendTime = 0,
     TCB_MsgQPendTimeMax = 0, TCB_RegTbl = [0], TCB_FlagsPend = 0, TCB_FlagsRdy = 0, TCB_FlagsOpt = 0,
     TCB_SuspendCtr = 0, TCB_CPUUsage = 0, TCB_CPUUsageMax = 0, TCB_CtxSwCtr = 0, TCB_CyclesDelta = 0,
     TCB_CyclesStart = 0, TCB_CyclesTotal = 0, TCB_CyclesTotalPrev = 0, TCB_SemPendTime = 0, TCB_SemPendTimeMax = 0,
     TCB_StkUsed = 0, TCB_StkFree = 0, TCB_SchedLockTimeMax = 0, TCB_DbgPrevPtr = NULL, TCB_DbgNextPtr = NULL,
     TCB_DbgNamePtr = []\<rparr>"

definition pd0 :: OS_PEND_DATA where
  "pd0 = \<lparr>PD_PrevPtr = NULL, PD_NextPtr = NULL, PD_TCBPtr = NULL, PD_PendObjPtr = NULL, PD_RdyObjPtr = NULL,
     PD_RdyMsgPtr = NULL, PD_RdyMsgSize = 0, PD_RdyTS = 0\<rparr>"

definition obj0 :: OS_PEND_OBJ where
  "obj0 = \<lparr>OBJ_Type = OS_OBJ_TYPE_SEM, OBJ_NamePtr = ''s'',
     OBJ_PendList = \<lparr>PL_HeadPtr = NULL, PL_TailPtr = NULL, PL_NbrEntries = 0\<rparr>,
     OBJ_DbgPrevPtr = NULL, OBJ_DbgNextPtr = NULL, OBJ_DbgNamePtr = []\<rparr>"

definition rl0 :: OS_RDY_LIST where
  "rl0 = \<lparr>RL_HeadPtr = NULL, RL_TailPtr = NULL, RL_NbrEntries = 0\<rparr>"

definition spk0 :: OS_TICK_SPOKE where
  "spk0 = \<lparr>SPK_FirstPtr = NULL, SPK_NbrEntries = 0, SPK_NbrEntriesMax = 0\<rparr>"

text \<open>The all-zero state of the global variables before any initialisation.\<close>

definition os0 :: os where
  "os0 = \<lparr>tcbs = Map.empty, pds = Map.empty, objs = Map.empty, sems = Map.empty, qs = Map.empty, mutexes = Map.empty,
     msgs = Map.empty, mems = Map.empty, flags = Map.empty, tmrs = Map.empty, ram = Map.empty, OSPrioTbl = [0],
     OSRdyList = (\<lambda>i. if i < 32 then Some rl0 else None),
     OSCfg_TickWheel = (\<lambda>i. if i < 17 then Some spk0 else None), OSCfg_TmrWheel = Map.empty,
     OSMsgPool = \<lparr>POOL_NextPtr = NULL, POOL_NbrFree = 0, POOL_NbrUsed = 0, POOL_NbrUsedMax = 0\<rparr>,
     OSIntNestingCtr = 0, OSRunning = 0, OSSchedLockNestingCtr = 0, OSSchedLockTimeBegin = 0, OSSchedLockTimeMax = 0,
     OSSchedLockTimeMaxCur = 0, OSSchedRoundRobinEn = False, OSSchedRoundRobinDfltTimeQuanta = 0, OSPrioCur = 0,
     OSPrioHighRdy = 0, OSTCBCurPtr = NULL, OSTCBHighRdyPtr = NULL, OSIdleTaskTCB = NULL, OSTickTaskTCB = NULL,
     OSTmrTaskTCB = NULL, OSTaskCtxSwCtr = 0, OSTickCtr = 0, OSTickTaskTimeMax = 0, OSTmrUpdateCnt = 0,
     OSTmrUpdateCtr = 0, OSSemDbgListPtr = NULL, OSSemQty = 0, OSQDbgListPtr = NULL, OSQQty = 0,
     OSMutexDbgListPtr = NULL, OSMutexQty = 0, OSMemDbgListPtr = NULL, OSMemQty = 0, OSFlagDbgListPtr = NULL,
     OSFlagQty = 0, OSTmrDbgListPtr = NULL, OSTmrQty = 0, OSTmrTickCtr = 0, OSTmrTaskTimeMax = 0, OSTaskDbgListPtr = NULL, OSTaskQty = 0,
     OSTaskRegNextAvailID = 0, OSStatResetFlag = False, TmrRd = (\<lambda>n. of_nat n), TmrRdIx = 0\<rparr>"

definition demo_tcb :: "ptr \<Rightarrow> OS_TCB option" where
  "demo_tcb = [1 \<mapsto> tcb0\<lparr>TCB_Prio := 5, TCB_NextPtr := 2, TCB_TimeQuantaCtr := 1\<rparr>,
     2 \<mapsto> tcb0\<lparr>TCB_Prio := 5, TCB_PrevPtr := 1\<rparr>,
     3 \<mapsto> tcb0\<lparr>TCB_Prio := 3, TCB_TaskState := 3, TCB_PendOn := 6, TCB_PendDataTblPtr := 10, TCB_PendDataTblEntries := 1,
          TCB_TickCtrMatch := 4, TCB_TickRemain := 4, TCB_TickSpokePtr := Some 4\<rparr>,
     4 \<mapsto> tcb0\<lparr>TCB_Prio := 31\<rparr>,
     5 \<mapsto> tcb0\<lparr>TCB_Prio := 4, TCB_TaskState := 2, TCB_PendOn := 5, TCB_PendDataTblPtr := 12, TCB_PendDataTblEntries := 1\<rparr>]"

definition demo :: os where
  "demo = os0\<lparr>tcbs := demo_tcb,
     pds := [10 \<mapsto> pd0\<lparr>PD_TCBPtr := 3, PD_PendObjPtr := 20\<rparr>, 11 \<mapsto> pd0, 12 \<mapsto> pd0\<lparr>PD_TCBPtr := 5, PD_PendObjPtr := 23\<rparr>,
       13 \<mapsto> pd0, 14 \<mapsto> pd0],
     objs := [20 \<mapsto> obj0\<lparr>OBJ_PendList := \<lparr>PL_HeadPtr = 10, PL_TailPtr = 10, PL_NbrEntries = 1\<rparr>\<rparr>, 21 \<mapsto> obj0,
       22 \<mapsto> obj0\<lparr>OBJ_Type := OS_OBJ_TYPE_Q\<rparr>,
       23 \<mapsto> obj0\<lparr>OBJ_Type := OS_OBJ_TYPE_Q, OBJ_PendList := \<lparr>PL_HeadPtr = 12, PL_TailPtr = 12, PL_NbrEntries = 1\<rparr>\<rparr>,
       24 \<mapsto> obj0\<lparr>OBJ_Type := OS_OBJ_TYPE_MUTEX\<rparr>, 25 \<mapsto> obj0\<lparr>OBJ_Type := OS_OBJ_TYPE_FLAG\<rparr>],
     sems := [20 \<mapsto> \<lparr>SEM_Ctr = 0, SEM_TS = 0\<rparr>, 21 \<mapsto> \<lparr>SEM_Ctr = 2, SEM_TS = 0\<rparr>],
     qs := [22 \<mapsto> mq0\<lparr>MQ_InPtr := 32, MQ_OutPtr := 32, MQ_NbrEntriesSize := 2, MQ_NbrEntries := 1, MQ_NbrEntriesMax := 1\<rparr>,
       23 \<mapsto> mq0\<lparr>MQ_NbrEntriesSize := 2\<rparr>],
     msgs := [30 \<mapsto> msg0\<lparr>MSG_NextPtr := 31\<rparr>, 31 \<mapsto> msg0, 32 \<mapsto> msg0\<lparr>MSG_MsgPtr := 77, MSG_MsgSize := 4, MSG_MsgTS := 9\<rparr>],
     OSMsgPool := \<lparr>POOL_NextPtr = 30, POOL_NbrFree = 2, POOL_NbrUsed = 1, POOL_NbrUsedMax = 1\<rparr>,
     mutexes := [24 \<mapsto> \<lparr>MTX_OwnerTCBPtr = NULL, MTX_OwnerOriginalPrio = 32, MTX_OwnerNestingCtr = 0, MTX_TS = 0\<rparr>],
     flags := [25 \<mapsto> \<lparr>FLG_Flags = 1, FLG_TS = 0\<rparr>],
     OSPrioTbl := [0x04000001],
     OSRdyList := (OSRdyList os0)(5 \<mapsto> \<lparr>RL_HeadPtr = 1, RL_TailPtr = 2, RL_NbrEntries = 2\<rparr>,
                      31 \<mapsto> \<lparr>RL_HeadPtr = 4, RL_TailPtr = 4, RL_NbrEntries = 1\<rparr>),
     OSCfg_TickWheel := (OSCfg_TickWheel os0)(4 \<mapsto> \<lparr>SPK_FirstPtr = 3, SPK_NbrEntries = 1, SPK_NbrEntriesMax = 1\<rparr>),
     OSRunning := OS_STATE_OS_RUNNING, OSSchedRoundRobinEn := True, OSSchedRoundRobinDfltTimeQuanta := 100,
     OSPrioCur := 5, OSPrioHighRdy := 5, OSTCBCurPtr := 1, OSTCBHighRdyPtr := 1, OSIdleTaskTCB := 4\<rparr>"

definition demo_R :: "nat \<Rightarrow> ptr list" where "demo_R = (\<lambda>_. [])(5 := [1, 2], 31 := [4])"
definition demo_P :: "ptr \<Rightarrow> ptr list" where "demo_P = (\<lambda>_. [])(20 := [10], 23 := [12])"
definition demo_W :: "nat \<Rightarrow> ptr list" where "demo_W = (\<lambda>_. [])(4 := [3])"

lemmas example_defs = demo_def demo_tcb_def os0_def tcb0_def pd0_def obj0_def rl0_def spk0_def

lemma demo_tcbs: "tcbs demo x = Some t \<Longrightarrow> x \<in> {1, 2, 3, 4, 5}"
  by (simp add: demo_def demo_tcb_def split: if_splits)

lemma demo_rdy_links: "rdy_links demo demo_R"
proof -
  have "rdy_ok demo p (demo_R p)" if "p < 32" for p
    using that by (auto simp: rdy_ok_def demo_R_def example_defs linked_def fld_def)
  then show ?thesis by (auto simp: rdy_links_def demo_R_def)
qed

lemma demo_tbl: "tbl_has [0x04000001] p \<longleftrightarrow> p = 5 \<or> p = 31"
proof -
  have "\<forall>p < 32. bit (0x04000001 :: 32 word) (31 - p) \<longleftrightarrow> p = 5 \<or> p = 31"
    by (simp add: All_less_Suc numeral_eq_Suc) 
  then show ?thesis by (auto simp: tbl_has_def)
qed

lemma demo_rdy: "rdy_rel demo demo_R"
  using demo_rdy_links by (auto simp: rdy_rel_def rdy_map_def prio_set_def demo_def demo_R_def demo_tbl)

lemma demo_pend: "pend_rel demo demo_P"
  by (auto simp: pend_rel_def pend_links_def pend_ok_def pend_sorted_def demo_P_def example_defs linked_def fld_def)

lemma demo_tick: "tick_rel demo demo_W"
  by (auto simp: tick_rel_def tick_links_def tick_ok_def tick_order_def on_spoke_def tick_remain_def demo_W_def example_defs linked_def fld_def)

lemma demo_kinv: "kinv demo demo_R demo_P demo_W"
proof -
  have "task_ok demo demo_R demo_P x t" if "tcbs demo x = Some t" for x t
    using that by (auto simp: task_ok_def demo_R_def demo_P_def example_defs st_tick_def st_pend_def pend_tbl_def pend_tbl_ok_def split: if_splits)
  moreover have "pend_owned demo demo_P" by (simp add: pend_owned_def demo_P_def example_defs pend_tbl_def)
  moreover have "mem_bound demo" by (simp add: mem_bound_def example_defs)
  ultimately show ?thesis using demo_rdy demo_pend demo_tick by (simp add: kinv_def krel_def)
qed

end
