(* ===== verification/Kernel_Props.thy ===== *)
theory Kernel_Props
  imports OS_Example "HOL-Library.Log_Nat"
begin

text \<open>
  The properties of the kernel's core: the ready list, the pend lists, the tick wheel, the
  routines that block and wake tasks, and the scheduler, each with a witness on the state
  \<open>demo\<close> of \<open>OS_Example\<close>.
\<close>

subsection \<open>Counting zeros and the priority bitmap\<close>

lemma nlz_floorlog: "nlz w v n \<Longrightarrow> n = w - floorlog 2 v"
proof (cases "v = 0")
  case False
  assume "nlz w v n"
  with False have n: "n < w" "2 ^ (w - 1 - n) \<le> v" "v < 2 ^ (w - n)" by (simp_all add: nlz_def)
  have "floorlog 2 v \<le> w - n" using n(3) by (intro floorlog_leI) simp_all
  moreover have "w - n \<le> floorlog 2 v" using n(2) by (intro floorlog_geI) (simp_all add: diff_commute)
  ultimately show "n = w - floorlog 2 v" using n(1) by simp
qed (simp add: nlz_def floorlog_def)

text \<open>C35. The table-driven counts of leading zeros agree with the bit length of the
  value, for each of the four data widths and for every value, zero included.\<close>

theorem CPU_CntLeadZeros_spec:
  "unat (CPU_CntLeadZeros08 v8) = 8 - floorlog 2 (unat v8) \<and>
   unat (CPU_CntLeadZeros16 v16) = 16 - floorlog 2 (unat v16) \<and>
   unat (CPU_CntLeadZeros32 v32) = 32 - floorlog 2 (unat v32) \<and>
   unat (CPU_CntLeadZeros64 v64) = 64 - floorlog 2 (unat v64)"
  by (intro conjI nlz_floorlog CPU_CntLeadZeros08_nlz CPU_CntLeadZeros16_nlz CPU_CntLeadZeros32_nlz CPU_CntLeadZeros64_nlz)

text \<open>The count of the trailing zeros of a 64-bit value, obtained by isolating
  the lowest set bit with two's complement arithmetic and counting leading zeros, is the exponent
  of the largest power of two that divides the value, and 64 for zero.\<close>

theorem CPU_CntTrailZeros64_spec:
  "if val = 0 then unat (CPU_CntTrailZeros64 val) = 64
   else 2 ^ unat (CPU_CntTrailZeros64 val) dvd unat val \<and> \<not> 2 ^ Suc (unat (CPU_CntTrailZeros64 val)) dvd unat val"
  using CPU_CntTrailZeros64_ntz [of val] by (simp add: ntz_def unat_eq_0)

text \<open>C34. Whenever some priority is marked in the bitmap, the scan returns the
  numerically least, that is the most urgent, marked priority.\<close>

theorem OS_PrioGetHighest_least:
  assumes "length (OSPrioTbl s) = OS_PRIO_TBL_SIZE" "p \<in> prio_set s"
  shows "\<exists>prio. OS_PrioGetHighest s = Some prio \<and> unat prio \<in> prio_set s \<and> (\<forall>q \<in> prio_set s. unat prio \<le> q)"
proof -
  let ?q = "LEAST q. q \<in> prio_set s"
  have len: "32 * length (OSPrioTbl s) \<le> 256" using assms(1) by simp
  note h = OS_PrioGetHighest_Min [OF len assms(2)]
  then have u: "unat (of_nat ?q :: OS_PRIO) = ?q" by (simp add: unat_of_nat take_bit_nat_eq_self)
  have "?q \<in> prio_set s" "\<forall>q \<in> prio_set s. ?q \<le> q" using assms(2) by (auto intro: LeastI Least_le)
  with h u show ?thesis by auto
qed

theorem OS_PrioGetHighest_least_witness:
  "\<exists>prio. OS_PrioGetHighest demo = Some prio \<and> unat prio \<in> prio_set demo \<and> (\<forall>q \<in> prio_set demo. unat prio \<le> q)"
  by (rule OS_PrioGetHighest_least [where p = 5]) (simp_all add: demo_def prio_set_def demo_tbl)

subsection \<open>The ready list\<close>

text \<open>C30. Making a task ready adds it to the list of its priority, at the tail when
  that is the current priority and at the head otherwise, marks the priority in the bitmap, and
  changes nothing else.\<close>

theorem OS_RdyListInsert_refines:
  assumes "rdy_rel s R" "tcbs s x = Some t" "unat (TCB_Prio t) < OS_CFG_PRIO_MAX"
    and "x \<noteq> NULL" "x \<notin> set (R (unat (TCB_Prio t)))" "length (R (unat (TCB_Prio t))) < 65535"
  shows "\<exists>s'. OS_RdyListInsert x s = Some s' \<and> rdy_frame s s' \<and> rdy_rel s'
    (R(unat (TCB_Prio t) := if TCB_Prio t = OSPrioCur s then R (unat (TCB_Prio t)) @ [x] else x # R (unat (TCB_Prio t))))"
  using OS_RdyListInsert_ok [OF assms] unfolding rdy_insert_def by blast

theorem OS_RdyListInsert_refines_witness:
  "\<exists>s'. OS_RdyListInsert 3 demo = Some s' \<and> rdy_frame demo s' \<and> rdy_rel s' (demo_R(3 := [3]))"
  using OS_RdyListInsert_refines [OF demo_rdy, of 3] by (simp add: demo_R_def example_defs)

text \<open>Removing a ready task takes exactly that task out of its list and clears
  the priority's bit when the list became empty.\<close>

theorem OS_RdyListRemove_refines:
  assumes "rdy_rel s R" "x \<in> set (R p)"
  shows "\<exists>s'. OS_RdyListRemove x s = Some s' \<and> rdy_rel s' (R(p := remove1 x (R p))) \<and> rdy_frame s s'"
  by (rule OS_RdyListRemove_ok [OF assms])

theorem OS_RdyListRemove_refines_witness:
  "\<exists>s'. OS_RdyListRemove 1 demo = Some s' \<and> rdy_rel s' (demo_R(5 := [2])) \<and> rdy_frame demo s'"
  using OS_RdyListRemove_refines [OF demo_rdy, of 1 5] by (simp add: demo_R_def)

text \<open>Moving the head of a ready list to its tail rotates the list by one and
  leaves the other lists and the bitmap alone, whatever the length of the list.\<close>

theorem OS_RdyListMoveHeadToTail_refines:
  assumes "rdy_links s R" "p < OS_CFG_PRIO_MAX"
  shows "\<exists>s'. OS_RdyListMoveHeadToTail p s = Some s' \<and> rdy_links s' (R(p := rotate1 (R p))) \<and> rdy_frame s s' \<and>
    OSPrioTbl s' = OSPrioTbl s"
  by (rule OS_RdyListMoveHeadToTail_ok [OF assms])

theorem OS_RdyListMoveHeadToTail_refines_witness:
  "\<exists>s'. OS_RdyListMoveHeadToTail 5 demo = Some s' \<and> rdy_links s' (demo_R(5 := [2, 1])) \<and> rdy_frame demo s' \<and>
    OSPrioTbl s' = OSPrioTbl demo"
  using OS_RdyListMoveHeadToTail_refines [OF demo_rdy_links, of 5] by (simp add: demo_R_def)

subsection \<open>The pend lists\<close>

text \<open>C31. A waiting entry goes into its object's list in the order of the
  priorities, behind the entries of equal priority, and the lists stay ordered.\<close>

theorem OS_PendListInsertPrio_refines:
  assumes "pend_rel s P" "objs s ob = Some b" "length (P ob) < 65535"
    and "pds s x = Some d" "PD_PendObjPtr d = ob" "PD_TCBPtr d \<in> dom (tcbs s)" "x \<noteq> NULL" "x \<notin> set (P ob)"
  shows "\<exists>s'. OS_PendListInsertPrio ob x s = Some s' \<and>
    pend_rel s' (P(ob := takeWhile (\<lambda>y. pd_prio s y \<le> pd_prio s x) (P ob) @ x #
                         dropWhile (\<lambda>y. pd_prio s y \<le> pd_prio s x) (P ob))) \<and> pend_frame s s'"
  using OS_PendListInsertPrio_ok [OF assms] unfolding prio_insert_def by blast

text \<open>A second entry, of task 1, about to wait on the semaphore at 20.\<close>

definition demo_pd :: os where
  "demo_pd = demo\<lparr>pds := (pds demo)(11 \<mapsto> pd0\<lparr>PD_TCBPtr := 1, PD_PendObjPtr := 20\<rparr>)\<rparr>"

lemma demo_pd_pend: "pend_rel demo_pd demo_P"
  by (auto simp: demo_pd_def pend_rel_def pend_links_def pend_ok_def pend_sorted_def demo_P_def example_defs linked_def fld_def)

theorem OS_PendListInsertPrio_refines_witness:
  "\<exists>s'. OS_PendListInsertPrio 20 11 demo_pd = Some s' \<and> pend_rel s' (demo_P(20 := [10, 11])) \<and> pend_frame demo_pd s'"
proof -
  have "pd_prio demo_pd 10 = 3" "pd_prio demo_pd 11 = 5" "demo_P 20 = [10]"
    by (simp_all add: demo_pd_def demo_P_def example_defs pd_prio_def fld_def)
  moreover have "objs demo_pd 20 \<noteq> None" "pds demo_pd 11 = Some (pd0\<lparr>PD_TCBPtr := 1, PD_PendObjPtr := 20\<rparr>)" "1 \<in> dom (tcbs demo_pd)"
    by (simp_all add: demo_pd_def demo_def demo_tcb_def)
  ultimately show ?thesis
    using OS_PendListInsertPrio_refines [OF demo_pd_pend, of 20 _ 11] by fastforce
qed

text \<open>A task that stops waiting leaves the list of every object it waited
  on, however many entries its table has, and its table is reset; no other entry moves.\<close>

theorem OS_PendListRemove_refines:
  assumes "pend_rel s P" "tcbs s x = Some t" "\<And>d. d \<in> pend_tbl t \<Longrightarrow> \<exists>ob. d \<in> set (P ob)"
  shows "\<exists>s1. OS_PendListRemove x s =
      Some (s1\<lparr>tcbs := (tcbs s)(x \<mapsto> t\<lparr>TCB_PendDataTblEntries := 0, TCB_PendDataTblPtr := NULL\<rparr>)\<rparr>) \<and>
    pend_rel s1 (\<lambda>ob. filter (\<lambda>d. d \<notin> pend_tbl t) (P ob)) \<and> pend_frame s s1"
  by (rule OS_PendListRemove_ok [OF assms])

definition demo_t3 :: OS_TCB where
  "demo_t3 = tcb0\<lparr>TCB_Prio := 3, TCB_TaskState := 3, TCB_PendOn := 6, TCB_PendDataTblPtr := 10,
     TCB_PendDataTblEntries := 1, TCB_TickCtrMatch := 4, TCB_TickRemain := 4, TCB_TickSpokePtr := Some 4\<rparr>"

lemma demo_tcb3: "tcbs demo 3 = Some demo_t3"
  by (simp add: demo_def demo_tcb_def demo_t3_def)

lemma demo_t3_tbl: "pend_tbl demo_t3 = {10}"
  by (auto simp: pend_tbl_def demo_t3_def)

lemma demo_P_filter: "(\<lambda>ob. filter (\<lambda>d. d \<notin> {10}) (demo_P ob)) = demo_P(20 := [])"
  by (auto simp: demo_P_def)

theorem OS_PendListRemove_refines_witness:
  "\<exists>s1. OS_PendListRemove 3 demo =
      Some (s1\<lparr>tcbs := (tcbs demo)(3 \<mapsto> demo_t3\<lparr>TCB_PendDataTblEntries := 0, TCB_PendDataTblPtr := NULL\<rparr>)\<rparr>) \<and>
    pend_rel s1 (demo_P(20 := [])) \<and> pend_frame demo s1"
proof -
  have "\<exists>ob. d \<in> set (demo_P ob)" if "d \<in> pend_tbl demo_t3" for d
    using that by (intro exI [of _ 20]) (simp add: demo_t3_tbl demo_P_def)
  from OS_PendListRemove_refines [OF demo_pend demo_tcb3 this] show ?thesis
    unfolding demo_t3_tbl demo_P_filter by simp
qed

subsection \<open>The tick wheel\<close>

text \<open>C32. A task that starts to wait for a time enters the spoke of its match
  value, in the order of the remaining times computed with wrap-around; the match value is the
  requested one in match mode, the next multiple of the period in periodic mode as long as that
  lies ahead, and the current tick plus the delay otherwise.\<close>

theorem OS_TickListInsert_refines:
  assumes "tick_rel s W" "tcbs s x = Some t" "TCB_TickSpokePtr t = None" "x \<noteq> NULL"
    and "tick_match t time opt (OSTickCtr s) = Some m" "i = unat (m mod OSCfg_TickWheelSize)" "length (W i) < 65535"
  shows "\<exists>s'. OS_TickListInsert x time opt s = Some (OS_ERR_NONE, s') \<and>
    tick_rel s' (W(i := time_insert (tick_remain s') x (W i))) \<and> tick_frame s s' \<and>
    fld TCB_TickCtrMatch (tcbs s') x = m"
  using OS_TickListInsert_ok [OF assms] by blast

theorem OS_TickListInsert_refines_witness:
  "\<exists>s'. OS_TickListInsert 1 21 OS_OPT_TIME_DLY demo = Some (OS_ERR_NONE, s') \<and>
    tick_rel s' (demo_W(4 := time_insert (tick_remain s') 1 [3])) \<and> tick_frame demo s' \<and>
    fld TCB_TickCtrMatch (tcbs s') 1 = 21"
proof -
  let ?t = "tcb0\<lparr>TCB_Prio := 5, TCB_NextPtr := 2, TCB_TimeQuantaCtr := 1\<rparr>"
  have t: "tcbs demo 1 = Some ?t" "TCB_TickSpokePtr ?t = None" "1 \<noteq> NULL"
    by (simp_all add: demo_def demo_tcb_def tcb0_def)
  have m: "tick_match ?t 21 OS_OPT_TIME_DLY (OSTickCtr demo) = Some 21" "4 = unat ((21 :: OS_TICK) mod OSCfg_TickWheelSize)"
    "length (demo_W 4) < 65535" by (simp_all add: tick_match_def demo_def os0_def demo_W_def)
  have "demo_W 4 = [3]" by (simp add: demo_W_def)
  with OS_TickListInsert_refines [OF demo_tick t m] show ?thesis by simp
qed

text \<open>A task whose time ran out or was cancelled leaves the wheel; a task that
  is not on it is left alone.  In both cases it is on no spoke afterwards.\<close>

theorem OS_TickListRemove_refines:
  assumes "tick_rel s W" "tcbs s x = Some t"
  shows "\<exists>s' t'. OS_TickListRemove x s = Some s' \<and> tick_rel s' (\<lambda>i. filter (\<lambda>y. y \<noteq> x) (W i)) \<and> tick_frame s s' \<and>
    tcbs s' x = Some t' \<and> TCB_TickSpokePtr t' = None"
  using OS_TickListRemove_ok [OF assms] by blast

theorem OS_TickListRemove_refines_witness:
  "\<exists>s' t'. OS_TickListRemove 3 demo = Some s' \<and> tick_rel s' (\<lambda>i. filter (\<lambda>y. y \<noteq> 3) (demo_W i)) \<and> tick_frame demo s' \<and>
    tcbs s' 3 = Some t' \<and> TCB_TickSpokePtr t' = None"
  by (rule OS_TickListRemove_refines [OF demo_tick demo_tcb3])

subsection \<open>Blocking and waking\<close>

text \<open>C7. Blocking the running task on an object keeps the kernel invariant: the task leaves
  the ready list, its entry enters the object's list by priority, it enters the tick wheel exactly
  when a time-out was given, and nothing else changes.\<close>

theorem OS_Pend_invariant:
  assumes "kinv s R P W" "OSTCBCurPtr s = x" "tcbs s x = Some t" "TCB_TaskState t = OS_TASK_STATE_RDY"
    and "p_obj \<in> dom (objs s)" "p_obj \<noteq> NULL" "d \<in> dom (pds s)" "d \<noteq> NULL" "\<And>ob. d \<notin> set (P ob)"
  shows "\<exists>s' t'. OS_Pend d p_obj pending_on timeout s = Some s' \<and>
    kinv s' (R(unat (TCB_Prio t) := remove1 x (R (unat (TCB_Prio t)))))
      (P(p_obj := prio_insert (pd_prio s') d (P p_obj))) (tick_block s x timeout s' W) \<and>
    kframe {x} {d} s s' \<and> tcbs s' x = Some t' \<and> TCB_PendOn t' = pending_on \<and>
    TCB_TaskState t' = (if timeout = 0 then OS_TASK_STATE_PEND else OS_TASK_STATE_PEND_TIMEOUT)"
  using OS_Pend_ok [OF assms(1-4), of p_obj d pending_on timeout] assms(3,5-9)
  unfolding blocked_def pend_block_def by fastforce

theorem OS_Pend_invariant_witness:
  "\<exists>s' t'. OS_Pend 11 20 OS_TASK_PEND_ON_SEM 100 demo = Some s' \<and>
    kinv s' (demo_R(5 := [2])) (demo_P(20 := prio_insert (pd_prio s') 11 [10])) (tick_block demo 1 100 s' demo_W) \<and>
    kframe {1} {11} demo s' \<and> tcbs s' 1 = Some t' \<and> TCB_PendOn t' = OS_TASK_PEND_ON_SEM \<and>
    TCB_TaskState t' = OS_TASK_STATE_PEND_TIMEOUT"
proof -
  let ?t = "tcb0\<lparr>TCB_Prio := 5, TCB_NextPtr := 2, TCB_TimeQuantaCtr := 1\<rparr>"
  have t: "OSTCBCurPtr demo = 1" "tcbs demo 1 = Some ?t" "TCB_TaskState ?t = OS_TASK_STATE_RDY"
    by (simp_all add: demo_def demo_tcb_def tcb0_def)
  have o: "20 \<in> dom (objs demo)" "20 \<noteq> NULL" "11 \<in> dom (pds demo)" "11 \<noteq> NULL" "11 \<notin> set (demo_P ob)" for ob
    by (simp_all add: demo_def demo_P_def)
  have "demo_R 5 = [1, 2]" "demo_P 20 = [10]" by (simp_all add: demo_R_def demo_P_def)
  with OS_Pend_invariant [OF demo_kinv t o, of OS_TASK_PEND_ON_SEM 100] show ?thesis by simp
qed


lemma demo_t3_sel: "TCB_TaskState demo_t3 = 3" "TCB_PendOn demo_t3 = 6" "TCB_Prio demo_t3 = 3"
  by (simp_all add: demo_t3_def tcb0_def)

lemma demo_wake: "wake_rdy demo 3 demo_t3 demo_R = demo_R(3 := [3])"
  by (simp add: wake_rdy_def rdy_insert_def demo_t3_sel demo_R_def)

lemma demo_W_filter: "(\<lambda>i. filter (\<lambda>y. y \<noteq> 3) (demo_W i)) = (\<lambda>_. [])"
  by (auto simp: demo_W_def)

lemma demo_st3: "st_pend (TCB_TaskState demo_t3)" by (simp add: st_pend_def demo_t3_sel)


text \<open>Aborting the wait of a task wakes it in the same way, with the status that
  makes the pending call report the abort, and with no message.\<close>

theorem OS_PendAbort_invariant:
  assumes "kinv s R P W" "tcbs s x = Some t" "st_pend (TCB_TaskState t)" "p_obj = NULL \<Longrightarrow> pend_tbl t = {}"
  shows "\<exists>s' t'. OS_PendAbort p_obj x ts s = Some s' \<and>
    kinv s' (wake_rdy s x t R) (\<lambda>ob. filter (\<lambda>d. d \<notin> pend_tbl t) (P ob)) (\<lambda>i. filter (\<lambda>y. y \<noteq> x) (W i)) \<and>
    kframe {x} (pend_tbl t) s s' \<and> tcbs s' x = Some t' \<and> TCB_PendStatus t' = OS_STATUS_PEND_ABORT \<and>
    TCB_TaskState t' = TCB_TaskState t AND OS_TASK_STATE_BIT_SUSPENDED \<and> TCB_MsgPtr t' = NULL \<and> TCB_MsgSize t' = 0"
  using OS_PendAbort_ok [where p_obj = p_obj and ts = ts, OF assms] unfolding woken_def tcb_msg_def by fastforce

theorem OS_PendAbort_invariant_witness:
  "\<exists>s' t'. OS_PendAbort 20 3 5 demo = Some s' \<and> kinv s' (demo_R(3 := [3])) (demo_P(20 := [])) (\<lambda>_. []) \<and>
    kframe {3} {10} demo s' \<and> tcbs s' 3 = Some t' \<and> TCB_PendStatus t' = OS_STATUS_PEND_ABORT \<and>
    TCB_TaskState t' = OS_TASK_STATE_RDY \<and> TCB_MsgPtr t' = NULL \<and> TCB_MsgSize t' = 0"
proof -
  from OS_PendAbort_invariant [where p_obj = 20 and ts = 5, OF demo_kinv demo_tcb3 demo_st3]
  show ?thesis unfolding demo_t3_tbl demo_P_filter demo_W_filter demo_wake by (simp add: demo_t3_sel)
qed

text \<open>Deleting the object a task waits on wakes the task with the status that
  makes the pending call report the deletion.\<close>

theorem OS_PendObjDel_invariant:
  assumes "kinv s R P W" "tcbs s x = Some t" "st_pend (TCB_TaskState t)"
  shows "\<exists>s' t'. OS_PendObjDel p_obj x ts s = Some s' \<and>
    kinv s' (wake_rdy s x t R) (\<lambda>ob. filter (\<lambda>d. d \<notin> pend_tbl t) (P ob)) (\<lambda>i. filter (\<lambda>y. y \<noteq> x) (W i)) \<and>
    kframe {x} (pend_tbl t) s s' \<and> tcbs s' x = Some t' \<and> TCB_PendStatus t' = OS_STATUS_PEND_DEL \<and>
    TCB_TaskState t' = TCB_TaskState t AND OS_TASK_STATE_BIT_SUSPENDED"
  using OS_PendObjDel_ok [OF assms, of p_obj ts] unfolding woken_def tcb_msg_def by fastforce

theorem OS_PendObjDel_invariant_witness:
  "\<exists>s' t'. OS_PendObjDel 20 3 5 demo = Some s' \<and> kinv s' (demo_R(3 := [3])) (demo_P(20 := [])) (\<lambda>_. []) \<and>
    kframe {3} {10} demo s' \<and> tcbs s' 3 = Some t' \<and> TCB_PendStatus t' = OS_STATUS_PEND_DEL \<and>
    TCB_TaskState t' = OS_TASK_STATE_RDY"
  using OS_PendObjDel_invariant [OF demo_kinv demo_tcb3 demo_st3, of 20 5]
  unfolding demo_t3_tbl demo_P_filter demo_W_filter demo_wake by (simp add: demo_t3_sel)

subsection \<open>The scheduler\<close>

lemma demo_cur: "cur_ok demo" by (simp add: cur_ok_def demo_def demo_tcb_def tcb0_def)

lemma top_least: "R p \<noteq> [] \<Longrightarrow> top_prio R = p \<Longrightarrow> q < p \<Longrightarrow> R q = []"
  unfolding top_prio_def using not_less_Least by blast

text \<open>C1. At task level and with the scheduler unlocked, the scheduler leaves running the
  first task of the most urgent priority that has a ready task, and keeps the kernel invariant;
  no ready task is more urgent than the one that runs.\<close>

theorem OSSched_runs_most_urgent:
  assumes "kinv s R P W" "cur_ok s" "x \<in> set (R p)" "OSIntNestingCtr s = 0" "OSSchedLockNestingCtr s = 0"
  shows "\<exists>s' q. OSSched s = Some s' \<and> kinv s' R P W \<and> cur_ok s' \<and> R q \<noteq> [] \<and>
    OSTCBCurPtr s' = hd (R q) \<and> unat (OSPrioCur s') = q \<and> q \<le> p"
proof -
  have "R p \<noteq> []" using assms(3) by auto
  from OSSched_ok [OF assms(1,2) this] obtain s' where s': "OSSched s = Some s'" "kinv s' R P W" "cur_ok s'" "sched_done s R s'"
    by blast
  note m = rq.top_task_most_urgent [of x R p, OF assms(3)]
  have "R (top_prio R) \<noteq> []" using m(1) by auto
  with s' m(2) assms(4,5) show ?thesis by (auto simp: sched_done_def top_task_def)
qed

theorem OSSched_runs_most_urgent_witness:
  "\<exists>s' q. OSSched demo = Some s' \<and> kinv s' demo_R demo_P demo_W \<and> cur_ok s' \<and> demo_R q \<noteq> [] \<and>
    OSTCBCurPtr s' = hd (demo_R q) \<and> unat (OSPrioCur s') = q \<and> q \<le> 5"
  by (rule OSSched_runs_most_urgent [OF demo_kinv demo_cur, of 2 5]) (simp_all add: demo_R_def demo_def os0_def)

text \<open>C33. Leaving the outermost interrupt with the scheduler unlocked switches to the
  most urgent ready task; leaving a nested interrupt only undoes the matching entry.\<close>

theorem OSIntExit_preempts:
  assumes "kinv s R P W" "cur_ok s" "R p \<noteq> []" "OSRunning s = OS_STATE_OS_RUNNING" "OSSchedLockNestingCtr s = 0"
    and "OSIntNestingCtr s < 250"
  shows "\<exists>s'. OSIntExit (OSIntEnter s) = Some s' \<and> kinv s' R P W \<and> cur_ok s' \<and> OSIntNestingCtr s' = OSIntNestingCtr s \<and>
    (if OSIntNestingCtr s = 0 then OSTCBCurPtr s' = top_task R \<and> unat (OSPrioCur s') = top_prio R else s' = s)"
proof (cases "OSIntNestingCtr s = 0")
  case True
  have "OSIntExit (OSIntEnter s) = sched_switch (s\<lparr>OSIntNestingCtr := 0\<rparr>)"
    using OSIntExit_switch [of "OSIntEnter s"] assms(4,5) True by (simp add: OSIntEnter_def)
  also have "s\<lparr>OSIntNestingCtr := 0\<rparr> = s" using True by (cases s) simp
  finally have "OSIntExit (OSIntEnter s) = sched_switch s" .
  with sched_switch_ok [OF assms(1-3)] True show ?thesis by (metis sw_frame_globals(10))
next
  case False
  have "unat (OSIntNestingCtr s) < 250" using assms(6) by (simp add: word_less_nat_alt)
  then have "unat (OSIntNestingCtr s + 1) = Suc (unat (OSIntNestingCtr s))" by (intro unat_inc) simp_all
  then have "OSIntNestingCtr s + 1 \<noteq> 0" by (metis nat.distinct(1) unat_0)
  moreover have "OSIntEnter s = s\<lparr>OSIntNestingCtr := OSIntNestingCtr s + 1\<rparr>" using assms(4,6) by (simp add: OSIntEnter_def not_le)
  ultimately show ?thesis using False assms by (simp add: OSIntExit_def word_gt_0)
qed

theorem OSIntExit_preempts_witness:
  "\<exists>s'. OSIntExit (OSIntEnter demo) = Some s' \<and> kinv s' demo_R demo_P demo_W \<and> OSTCBCurPtr s' = top_task demo_R"
  using OSIntExit_preempts [OF demo_kinv demo_cur, of 5] by (fastforce simp: demo_R_def demo_def os0_def)

text \<open>Locking the scheduler at task level and unlocking it again brings the
  nesting counter back, for every nesting depth below 250; the inner unlocks only report that the
  scheduler is still locked, and the outermost one runs the most urgent ready task.\<close>

theorem OSSchedLock_Unlock:
  assumes "kinv s R P W" "cur_ok s" "R p \<noteq> []" "OSRunning s = OS_STATE_OS_RUNNING" "OSIntNestingCtr s = 0"
    and "OSSchedLockNestingCtr s < 250"
  shows "\<exists>s1 s2 e. OSSchedLock s = (OS_ERR_NONE, s1) \<and> OSSched s1 = Some s1 \<and> OSSchedUnlock s1 = Some (e, s2) \<and>
    kinv s2 R P W \<and> OSSchedLockNestingCtr s2 = OSSchedLockNestingCtr s \<and>
    (if OSSchedLockNestingCtr s = 0 then e = OS_ERR_NONE \<and> OSTCBCurPtr s2 = top_task R
     else e = OS_ERR_SCHED_LOCKED \<and> s2 = s)"
proof -
  have "unat (OSSchedLockNestingCtr s) < 250" using assms(6) by (simp add: word_less_nat_alt)
  then have "unat (OSSchedLockNestingCtr s + 1) = Suc (unat (OSSchedLockNestingCtr s))" by (intro unat_inc) simp_all
  then have nz: "OSSchedLockNestingCtr s + 1 \<noteq> 0" by (metis nat.distinct(1) unat_0)
  let ?c = "s\<lparr>OSSchedLockNestingCtr := OSSchedLockNestingCtr s + 1\<rparr>"
  have lock: "OSSchedLock s = (OS_ERR_NONE, OS_SchedLockTimeMeasStart ?c)"
    using assms(4-6) by (simp add: OSSchedLock_def not_le)
  show ?thesis
  proof (cases "OSSchedLockNestingCtr s = 0")
    case True
    let ?s1 = "OS_SchedLockTimeMeasStart ?c"
    let ?u = "OS_SchedLockTimeMeasStop (?s1\<lparr>OSSchedLockNestingCtr := OSSchedLockNestingCtr ?s1 - 1\<rparr>)"
    have g: "OSSchedLockNestingCtr ?s1 = 1" "OSIntNestingCtr ?s1 = 0" "OSRunning ?s1 = OS_STATE_OS_RUNNING"
      using True assms(4,5) by (simp_all add: OS_SchedLockTimeMeasStart_def OS_TS_GET_def)
    have gu: "OSSchedLockNestingCtr ?u = 0" "OSIntNestingCtr ?u = 0"
      using True assms(5) by (simp_all add: OS_SchedLockTimeMeasStart_def OS_SchedLockTimeMeasStop_def OS_TS_GET_def Let_def)
    have k: "kinv ?u R P W = kinv s R P W" "cur_ok ?u = cur_ok s"
      by simp_all
    from OSSched_ok [of ?u R P W p] k assms(1-3) obtain s2 where s2: "OSSched ?u = Some s2" "kinv s2 R P W" "sw_frame ?u s2" "sched_done ?u R s2"
      by auto
    have "OSSchedUnlock ?s1 = Some (OS_ERR_NONE, s2)" using g gu(1) s2(1) by (simp add: OSSchedUnlock_def)
    moreover have "OSSched ?s1 = Some ?s1" using g by (simp add: OSSched_def)
    moreover have "OSSchedLockNestingCtr s2 = 0" using sw_frame_globals(11) [OF s2(3)] gu(1) by simp
    ultimately show ?thesis using lock s2(2,4) gu True by (auto simp: sched_done_def)
  next
    case False
    then have "OSSchedLockNestingCtr s + 1 \<noteq> 1" by simp
    then have "OS_SchedLockTimeMeasStart ?c = ?c" by (simp add: OS_SchedLockTimeMeasStart_def)
    with lock False nz assms show ?thesis by (simp add: OSSchedUnlock_def OSSched_def word_gt_0)
  qed
qed

theorem OSSchedLock_Unlock_witness:
  "\<exists>s1 s2 e. OSSchedLock demo = (OS_ERR_NONE, s1) \<and> OSSched s1 = Some s1 \<and> OSSchedUnlock s1 = Some (e, s2) \<and>
    kinv s2 demo_R demo_P demo_W \<and> e = OS_ERR_NONE \<and> OSTCBCurPtr s2 = top_task demo_R"
  using OSSchedLock_Unlock [OF demo_kinv demo_cur, of 5] by (fastforce simp: demo_R_def demo_def os0_def)

text \<open>When the time slice of the first task of a priority runs out and another
  task of that priority is ready, the tick rotates the ready list of the priority and keeps the
  kernel invariant.\<close>

theorem OS_SchedRoundRobin_rotation:
  assumes "kinv s R P W" "p < OS_CFG_PRIO_MAX" "OSSchedRoundRobinEn s" "OSSchedLockNestingCtr s = 0"
    and "2 \<le> length (R p)" "hd (R p) \<noteq> OSIdleTaskTCB s" "tcbs s (hd (R p)) = Some t" "TCB_TimeQuantaCtr t \<le> 1"
  shows "\<exists>s'. OS_SchedRoundRobin p s = Some s' \<and> kinv s' (R(p := rotate1 (R p))) P W"
  using OS_SchedRoundRobin_rotates [OF assms] unfolding rr_rotate_def by blast

theorem OS_SchedRoundRobin_rotation_witness:
  "\<exists>s'. OS_SchedRoundRobin 5 demo = Some s' \<and> kinv s' (demo_R(5 := [2, 1])) demo_P demo_W"
proof -
  have "demo_R 5 = [1, 2]" by (simp add: demo_R_def)
  then show ?thesis using OS_SchedRoundRobin_rotation [OF demo_kinv, of 5 "tcb0\<lparr>TCB_Prio := 5, TCB_NextPtr := 2, TCB_TimeQuantaCtr := 1\<rparr>"]
    by (simp add: demo_def demo_tcb_def os0_def)
qed

end
