(* ===== verification/OS_Obj.thy ===== *)
theory OS_Obj
  imports OS_Sched
begin

text \<open>
  What the kernel objects have in common: the outcome of a call that may block, the doubly
  linked debug list of the objects of a kind, and the loops with which semaphores, queues,
  mutexes and event flags wake the tasks of their pend list.
\<close>

text \<open>A call that may block either returns its result or leaves the calling task waiting; the
  part after the context switch is then a definition of its own, whose name ends in \<open>_resume\<close>.\<close>

datatype 'r call = Done 'r | Blocked

text \<open>What a pending call reports once the task runs again: the error of its pend status, and the
  time stamp it writes through \<open>p_ts\<close> where that is not null (\<open>p_ts\<close> is a truth value here, and the
  written time stamp a result).\<close>

definition pend_err :: "OS_STATUS \<Rightarrow> OS_ERR" where
  "pend_err st =
     (if st = OS_STATUS_PEND_OK then OS_ERR_NONE
      else if st = OS_STATUS_PEND_ABORT then OS_ERR_PEND_ABORT
      else if st = OS_STATUS_PEND_TIMEOUT then OS_ERR_TIMEOUT
      else if st = OS_STATUS_PEND_DEL then OS_ERR_OBJ_DEL
      else OS_ERR_STATUS_INVALID)"

definition ts_out :: "bool \<Rightarrow> CPU_TS \<Rightarrow> CPU_TS option" where
  "ts_out p_ts v = (if p_ts then Some v else None)"

definition pend_ts :: "OS_TCB \<Rightarrow> CPU_TS" where
  "pend_ts tcb = (if TCB_PendStatus tcb \<in> {OS_STATUS_PEND_OK, OS_STATUS_PEND_ABORT, OS_STATUS_PEND_DEL} then TCB_TS tcb else 0)"

subsection \<open>Debug lists\<close>

text \<open>\<^verbatim>\<open>OS_SemDbgListAdd\<close>, \<^verbatim>\<open>OS_QDbgListAdd\<close>, \<^verbatim>\<open>OS_MutexDbgListAdd\<close> and \<^verbatim>\<open>OS_FlagDbgListAdd\<close> are the same
  code over different list heads; so are the routines that remove.\<close>

definition dbg_list_add :: "(os \<Rightarrow> ptr) \<Rightarrow> (ptr \<Rightarrow> os \<Rightarrow> os) \<Rightarrow> ptr \<Rightarrow> os \<Rightarrow> os option" where
  "dbg_list_add hdr set_hdr p s = do {
     s \<leftarrow> obj_mod p (\<lambda>b. b\<lparr>OBJ_DbgNamePtr := '' '', OBJ_DbgPrevPtr := NULL\<rparr>) s;
     s \<leftarrow> (if hdr s = NULL then obj_mod p (\<lambda>b. b\<lparr>OBJ_DbgNextPtr := NULL\<rparr>) s
           else do {
             s \<leftarrow> obj_mod p (\<lambda>b. b\<lparr>OBJ_DbgNextPtr := hdr s\<rparr>) s;
             obj_mod (hdr s) (\<lambda>b. b\<lparr>OBJ_DbgPrevPtr := p\<rparr>) s
           });
     Some (set_hdr p s)
   }"

definition dbg_list_remove :: "(ptr \<Rightarrow> os \<Rightarrow> os) \<Rightarrow> ptr \<Rightarrow> os \<Rightarrow> os option" where
  "dbg_list_remove set_hdr p s = do {
     ob \<leftarrow> objs s p;
     let p_prev = OBJ_DbgPrevPtr ob;
     let p_next = OBJ_DbgNextPtr ob;
     if p_prev = NULL then do {
       let s = set_hdr p_next s;
       s \<leftarrow> (if p_next \<noteq> NULL then obj_mod p_next (\<lambda>b. b\<lparr>OBJ_DbgPrevPtr := NULL\<rparr>) s else Some s);
       obj_mod p (\<lambda>b. b\<lparr>OBJ_DbgNextPtr := NULL\<rparr>) s
     } else if p_next = NULL then do {
       s \<leftarrow> obj_mod p_prev (\<lambda>b. b\<lparr>OBJ_DbgNextPtr := NULL\<rparr>) s;
       obj_mod p (\<lambda>b. b\<lparr>OBJ_DbgPrevPtr := NULL\<rparr>) s
     } else do {
       s \<leftarrow> obj_mod p_prev (\<lambda>b. b\<lparr>OBJ_DbgNextPtr := p_next\<rparr>) s;
       s \<leftarrow> obj_mod p_next (\<lambda>b. b\<lparr>OBJ_DbgPrevPtr := p_prev\<rparr>) s;
       obj_mod p (\<lambda>b. b\<lparr>OBJ_DbgNextPtr := NULL, OBJ_DbgPrevPtr := NULL\<rparr>) s
     }
   }"

text \<open>What the debug lists do not touch of an object.\<close>

definition obj_less_dbg :: "OS_PEND_OBJ \<Rightarrow> OS_PEND_OBJ" where
  "obj_less_dbg b = b\<lparr>OBJ_DbgNextPtr := NULL, OBJ_DbgPrevPtr := NULL, OBJ_DbgNamePtr := []\<rparr>"

definition same_objs :: "(ptr \<rightharpoonup> OS_PEND_OBJ) \<Rightarrow> (ptr \<rightharpoonup> OS_PEND_OBJ) \<Rightarrow> bool" where
  "same_objs h h' \<longleftrightarrow> (\<forall>x. map_option obj_less_dbg (h' x) = map_option obj_less_dbg (h x))"

lemma same_objsD:
  assumes "same_objs h h'" "h x = Some b"
  obtains b' where "h' x = Some b'" "OBJ_Type b' = OBJ_Type b" "OBJ_PendList b' = OBJ_PendList b" "OBJ_NamePtr b' = OBJ_NamePtr b"
proof -
  have "map_option obj_less_dbg (h' x) = Some (obj_less_dbg b)" using assms by (simp add: same_objs_def)
  then obtain b' where b': "h' x = Some b'" "obj_less_dbg b' = obj_less_dbg b" by (auto simp: map_option_Some_iff)
  have "OBJ_Type (obj_less_dbg c) = OBJ_Type c" "OBJ_PendList (obj_less_dbg c) = OBJ_PendList c" "OBJ_NamePtr (obj_less_dbg c) = OBJ_NamePtr c" for c
    by (simp_all add: obj_less_dbg_def)
  with b' that show ?thesis by metis
qed

lemma same_objs_pend: "same_objs h h' \<Longrightarrow> map_option OBJ_PendList (h' x) = map_option OBJ_PendList (h x)"
proof -
  assume a: "same_objs h h'"
  show ?thesis
  proof (cases "h x")
    case None
    then show ?thesis using a unfolding same_objs_def by (metis map_option_is_None)
  next
    case (Some b)
    with same_objsD [OF a Some] show ?thesis by (metis option.map(2))
  qed
qed

text \<open>The interface of a debug list: a head variable beside the memory of the objects.\<close>

locale dbg_list =
  fixes hdr :: "os \<Rightarrow> ptr" and set_hdr :: "ptr \<Rightarrow> os \<Rightarrow> os"
  assumes hdr_set [simp]: "hdr (set_hdr p s) = p"
    and hdr_objs [simp]: "hdr (s\<lparr>objs := h\<rparr>) = hdr s"
    and objs_set [simp]: "objs (set_hdr p s) = objs s"
    and set_same: "set_hdr (hdr s) s = s"
begin

definition dbg_rel :: "os \<Rightarrow> ptr list \<Rightarrow> bool" where
  "dbg_rel s xs \<longleftrightarrow> linked OBJ_DbgNextPtr OBJ_DbgPrevPtr (objs s) (hdr s) (last0 NULL xs) xs"

lemma add_ok:
  assumes "dbg_rel s xs" "objs s p = Some b" "p \<noteq> NULL" "p \<notin> set xs"
  shows "\<exists>h. dbg_list_add hdr set_hdr p s = Some (set_hdr p (s\<lparr>objs := h\<rparr>)) \<and> dbg_rel (set_hdr p (s\<lparr>objs := h\<rparr>)) (p # xs) \<and>
    same_objs (objs s) h"
proof -
  have L: "linked OBJ_DbgNextPtr OBJ_DbgPrevPtr (objs s) (hdr s) (last0 NULL xs) ([] @ xs)"
    using assms(1) by (simp add: dbg_rel_def)
  show ?thesis
  proof (cases xs)
    case Nil
    then have "hdr s = NULL" using L by simp
    with assms(2,3) Nil show ?thesis by (auto simp: dbg_list_add_def dbg_rel_def linked_def fld_def same_objs_def obj_less_dbg_def)
  next
    case (Cons y ys)
    obtain c where c: "objs s y = Some c" using linkedD(3) [OF L] Cons by auto
    have y: "hdr s = y" using linkedD(4) [OF L] Cons by simp
    have n: "y \<noteq> p" "y \<noteq> NULL" using assms(4) Cons linkedD(2) [OF L] by auto
    let ?h = "(objs s)(p \<mapsto> b\<lparr>OBJ_DbgNamePtr := '' '', OBJ_DbgPrevPtr := NULL, OBJ_DbgNextPtr := y\<rparr>, y \<mapsto> c\<lparr>OBJ_DbgPrevPtr := p\<rparr>)"
    have "linked OBJ_DbgNextPtr OBJ_DbgPrevPtr ?h p (last0 p xs) ([] @ p # xs)"
      by (rule linked_insert [OF L]) (use assms n c Cons in \<open>auto simp: fld_def\<close>)
    moreover have "same_objs (objs s) ?h" using assms(2) c n by (auto simp: same_objs_def obj_less_dbg_def)
    ultimately show ?thesis using assms(2) y n c Cons by (intro exI [of _ ?h]) (simp add: dbg_list_add_def dbg_rel_def)
  qed
qed

lemma remove_ok:
  assumes "dbg_rel s (xs @ p # ys)"
  shows "\<exists>q h. dbg_list_remove set_hdr p s = Some ((set_hdr q s)\<lparr>objs := h\<rparr>) \<and> dbg_rel ((set_hdr q s)\<lparr>objs := h\<rparr>) (xs @ ys) \<and>
    same_objs (objs s) h"
proof -
  have L: "linked OBJ_DbgNextPtr OBJ_DbgPrevPtr (objs s) (hdr s) (last0 NULL (xs @ p # ys)) (xs @ p # ys)"
    using assms by (simp add: dbg_rel_def)
  note d = linkedD [OF L]
  from linked_node [OF L] obtain b where b: "objs s p = Some b" "OBJ_DbgNextPtr b = hd0 NULL ys" "OBJ_DbgPrevPtr b = last0 NULL xs"
    "p \<notin> set xs" "p \<notin> set ys" by metis
  have at: "\<exists>c. objs s y = Some c" if "y \<in> set (xs @ ys)" for y using d(3) that by auto
  have nz: "0 < y" if "y \<in> set (xs @ ys)" for y using d(2) that by (metis Un_iff gr0I set_append list.set_intros(2))
  have R: "linked OBJ_DbgNextPtr OBJ_DbgPrevPtr h' (hd0 (hd0 NULL ys) xs) (last0 NULL (xs @ ys)) (xs @ ys)"
    if "dom (objs s) \<subseteq> dom h'"
      "\<And>y. y \<in> set (xs @ ys) \<Longrightarrow> fld OBJ_DbgNextPtr h' y = (if xs \<noteq> [] \<and> y = last0 NULL xs then hd0 NULL ys else fld OBJ_DbgNextPtr (objs s) y)"
      "\<And>y. y \<in> set (xs @ ys) \<Longrightarrow> fld OBJ_DbgPrevPtr h' y = (if ys \<noteq> [] \<and> y = hd0 NULL ys then last0 NULL xs else fld OBJ_DbgPrevPtr (objs s) y)" for h' :: "ptr \<rightharpoonup> OS_PEND_OBJ"
    by (rule linked_remove [OF L that]) simp_all
  have hx: "hdr s = hd0 p xs" using d(4) by simp
  then have ss: "set_hdr (hd0 p xs) s = s" using set_same by metis
  consider (a) "xs = []" "ys = []" | (b) "xs = []" "ys \<noteq> []" | (c) "xs \<noteq> []" "ys = []" | (d) "xs \<noteq> []" "ys \<noteq> []" by blast
  then show ?thesis
  proof cases
    case a
    then show ?thesis using b
      by (intro exI [of _ NULL] exI [of _ "(objs s)(p \<mapsto> b\<lparr>OBJ_DbgNextPtr := NULL\<rparr>)"])
        (auto simp: Let_def dbg_list_remove_def dbg_rel_def same_objs_def obj_less_dbg_def)
  next
    case b
    let ?y = "hd0 NULL ys"
    have y: "?y \<in> set ys" "0 < ?y" "?y \<noteq> p" using b hd0_in nz \<open>p \<notin> set ys\<close> by (metis, metis Un_iff set_append, metis)
    from at [of ?y] y obtain c where c: "objs s ?y = Some c" by auto
    let ?h = "(objs s)(?y \<mapsto> c\<lparr>OBJ_DbgPrevPtr := NULL\<rparr>, p \<mapsto> b\<lparr>OBJ_DbgNextPtr := NULL\<rparr>)"
    have "linked OBJ_DbgNextPtr OBJ_DbgPrevPtr ?h (hd0 ?y xs) (last0 NULL (xs @ ys)) (xs @ ys)"
      by (rule R) (use b y c \<open>p \<notin> set ys\<close> \<open>objs s p = Some b\<close> in \<open>auto simp: fld_def\<close>)
    then show ?thesis using \<open>objs s p = Some b\<close> \<open>OBJ_DbgNextPtr b = _\<close> \<open>OBJ_DbgPrevPtr b = _\<close> b y c
      by (intro exI [of _ ?y] exI [of _ ?h]) (auto simp: Let_def dbg_list_remove_def dbg_rel_def same_objs_def obj_less_dbg_def)
  next
    case c
    let ?x = "last0 NULL xs"
    have x: "?x \<in> set xs" "0 < ?x" "?x \<noteq> p" using c last0_in nz \<open>p \<notin> set xs\<close> by (metis, metis Un_iff set_append, metis)
    from at [of ?x] x obtain e where e: "objs s ?x = Some e" by auto
    let ?h = "(objs s)(?x \<mapsto> e\<lparr>OBJ_DbgNextPtr := NULL\<rparr>, p \<mapsto> b\<lparr>OBJ_DbgPrevPtr := NULL\<rparr>)"
    have "linked OBJ_DbgNextPtr OBJ_DbgPrevPtr ?h (hd0 (hd0 NULL ys) xs) (last0 NULL (xs @ ys)) (xs @ ys)"
      by (rule R) (use c x e \<open>p \<notin> set xs\<close> \<open>objs s p = Some b\<close> in \<open>auto simp: fld_def\<close>)
    then show ?thesis using \<open>objs s p = Some b\<close> \<open>OBJ_DbgNextPtr b = _\<close> \<open>OBJ_DbgPrevPtr b = _\<close> c x e hx ss
      by (intro exI [of _ "hdr s"] exI [of _ ?h])
        (auto simp: Let_def dbg_list_remove_def dbg_rel_def hd0_nonempty same_objs_def obj_less_dbg_def)
  next
    case d
    let ?x = "last0 NULL xs" let ?y = "hd0 NULL ys"
    have x: "?x \<in> set xs" "0 < ?x" "?x \<noteq> p" using d last0_in nz \<open>p \<notin> set xs\<close> by (metis, metis Un_iff set_append, metis)
    have y: "?y \<in> set ys" "0 < ?y" "?y \<noteq> p" using d hd0_in nz \<open>p \<notin> set ys\<close> by (metis, metis Un_iff set_append, metis)
    have xy: "?x \<noteq> ?y" using x(1) y(1) linkedD(1) [OF L] by auto
    from at [of ?x] x obtain e where e: "objs s ?x = Some e" by auto
    from at [of ?y] y obtain c where c: "objs s ?y = Some c" by auto
    let ?h = "(objs s)(?x \<mapsto> e\<lparr>OBJ_DbgNextPtr := ?y\<rparr>, ?y \<mapsto> c\<lparr>OBJ_DbgPrevPtr := ?x\<rparr>, p \<mapsto> b\<lparr>OBJ_DbgNextPtr := NULL, OBJ_DbgPrevPtr := NULL\<rparr>)"
    have "linked OBJ_DbgNextPtr OBJ_DbgPrevPtr ?h (hd0 ?y xs) (last0 NULL (xs @ ys)) (xs @ ys)"
      by (rule R) (use d x y xy c e \<open>p \<notin> set xs\<close> \<open>p \<notin> set ys\<close> \<open>objs s p = Some b\<close> in \<open>auto simp: fld_def\<close>)
    then show ?thesis using \<open>objs s p = Some b\<close> \<open>OBJ_DbgNextPtr b = _\<close> \<open>OBJ_DbgPrevPtr b = _\<close> d x y xy c e hx ss
      by (intro exI [of _ "hdr s"] exI [of _ ?h])
        (auto simp: Let_def dbg_list_remove_def dbg_rel_def hd0_nonempty same_objs_def obj_less_dbg_def)
  qed
qed

end

subsection \<open>Wake-up loops\<close>

text \<open>The loop of \<^verbatim>\<open>OS_SemPost\<close> and \<^verbatim>\<open>OS_QPost\<close>: post to \<open>cnt\<close> entries from \<open>p_pend_data\<close> on, reading
  the link before the entry leaves the list.\<close>

primrec post_loop :: "nat \<Rightarrow> ptr \<Rightarrow> ptr \<Rightarrow> OS_MSG_SIZE \<Rightarrow> CPU_TS \<Rightarrow> ptr \<Rightarrow> os \<Rightarrow> os option" where
  "post_loop 0 p_obj p_void msg_size ts p_pend_data s = Some s"
| "post_loop (Suc cnt) p_obj p_void msg_size ts p_pend_data s = do {
     d \<leftarrow> pds s p_pend_data;
     s \<leftarrow> OS_Post p_obj (PD_TCBPtr d) p_void msg_size ts s;
     post_loop cnt p_obj p_void msg_size ts (PD_NextPtr d) s
   }"

text \<open>The loop of \<^verbatim>\<open>OSSemPendAbort\<close>, \<^verbatim>\<open>OSQPendAbort\<close>, \<^verbatim>\<open>OSMutexPendAbort\<close> and \<^verbatim>\<open>OSFlagPendAbort\<close>: abort
  the wait of the first task while there is one, once only unless \<open>all\<close>.\<close>

partial_function (option) abort_loop :: "ptr \<Rightarrow> bool \<Rightarrow> CPU_TS \<Rightarrow> OS_OBJ_QTY \<Rightarrow> os \<Rightarrow> (OS_OBJ_QTY \<times> os) option" where
  "abort_loop p_obj all ts nbr_tasks s = do {
     ob \<leftarrow> objs s p_obj;
     if PL_NbrEntries (OBJ_PendList ob) > 0 then do {
       d \<leftarrow> pds s (PL_HeadPtr (OBJ_PendList ob));
       s \<leftarrow> OS_PendAbort p_obj (PD_TCBPtr d) ts s;
       if all then abort_loop p_obj all ts (nbr_tasks + 1) s else Some (nbr_tasks + 1, s)
     } else Some (nbr_tasks, s)
   }"

text \<open>The loop of \<^verbatim>\<open>OSSemDel\<close>, \<^verbatim>\<open>OSQDel\<close>, \<^verbatim>\<open>OSMutexDel\<close> and \<^verbatim>\<open>OSFlagDel\<close> over all waiting tasks.\<close>

primrec del_loop :: "nat \<Rightarrow> ptr \<Rightarrow> CPU_TS \<Rightarrow> os \<Rightarrow> os option" where
  "del_loop 0 p_obj ts s = Some s"
| "del_loop (Suc cnt) p_obj ts s = do {
     ob \<leftarrow> objs s p_obj;
     d \<leftarrow> pds s (PL_HeadPtr (OBJ_PendList ob));
     s \<leftarrow> OS_PendObjDel p_obj (PD_TCBPtr d) ts s;
     del_loop cnt p_obj ts s
   }"

subsection \<open>One wake-up\<close>

definition waiter :: "os \<Rightarrow> ptr \<Rightarrow> ptr" where
  "waiter s d = fld PD_TCBPtr (pds s) d"

text \<open>The control block of a task that was woken with a status and a message.\<close>

definition woken_tcb :: "OS_STATUS \<Rightarrow> ptr \<times> OS_MSG_SIZE \<times> CPU_TS \<Rightarrow> OS_TCB \<Rightarrow> OS_TCB \<Rightarrow> bool" where
  "woken_tcb st msg t t' \<longleftrightarrow> TCB_Prio t' = TCB_Prio t \<and> TCB_PendStatus t' = st \<and> TCB_PendOn t' = OS_TASK_PEND_ON_NOTHING \<and>
     TCB_TaskState t' = TCB_TaskState t AND OS_TASK_STATE_BIT_SUSPENDED \<and>
     (TCB_PendOn t \<noteq> OS_TASK_PEND_ON_MULTI \<longrightarrow> tcb_msg t' = msg)"

lemma tcb_other_more:
  assumes "tcb_other t' = tcb_other t"
  shows "TCB_PendOn t' = TCB_PendOn t" "TCB_PendStatus t' = TCB_PendStatus t" "tcb_msg t' = tcb_msg t"
proof -
  have "TCB_PendOn (tcb_other t) = TCB_PendOn t" "TCB_PendStatus (tcb_other t) = TCB_PendStatus t" "tcb_msg (tcb_other t) = tcb_msg t" for t
    by (simp_all add: tcb_other_def tcb_core_def link_core_def tcb_msg_def)
  with assms show "TCB_PendOn t' = TCB_PendOn t" "TCB_PendStatus t' = TCB_PendStatus t" "tcb_msg t' = tcb_msg t" by metis+
qed

lemma woken_tcb_cong:
  assumes "tcb_other t' = tcb_other t" "tcb_other u' = tcb_other u"
  shows "woken_tcb st msg t' u' = woken_tcb st msg t u"
  by (simp add: woken_tcb_def tcb_other_eqD [OF assms(1)] tcb_other_eqD [OF assms(2)] tcb_other_more [OF assms(1)] tcb_other_more [OF assms(2)])

lemma pend_nth:
  assumes "kinv s R P W" "P ob = es @ d # ds"
  obtains b e t where "objs s ob = Some b" "PL_HeadPtr (OBJ_PendList b) = hd (P ob)" "unat (PL_NbrEntries (OBJ_PendList b)) = length (P ob)"
    "pds s d = Some e" "PD_NextPtr e = hd0 NULL ds" "waiter s d = PD_TCBPtr e" "tcbs s (PD_TCBPtr e) = Some t"
    "d \<in> pend_tbl t" "st_pend (TCB_TaskState t)"
proof -
  note k = kinvD [OF assms(1)]
  have d: "d \<in> set (P ob)" using assms(2) by simp
  have "pend_ok s ob (P ob)" using k(3) d unfolding pend_rel_def pend_links_def by (metis empty_iff list.set(1))
  then obtain b where b: "objs s ob = Some b" "unat (PL_NbrEntries (OBJ_PendList b)) = length (P ob)"
    "linked PD_NextPtr PD_PrevPtr (pds s) (PL_HeadPtr (OBJ_PendList b)) (PL_TailPtr (OBJ_PendList b)) (es @ d # ds)"
    using assms(2) by (auto simp: pend_ok_def)
  from linked_node [OF b(3)] obtain e where e: "pds s d = Some e" "PD_NextPtr e = hd0 NULL ds" by metis
  have hd: "PL_HeadPtr (OBJ_PendList b) = hd (P ob)" using linkedD(4) [OF b(3)] assms(2) by (cases es) simp_all
  from k(5) d e(1) obtain t where t: "tcbs s (PD_TCBPtr e) = Some t" "d \<in> pend_tbl t" unfolding pend_owned_def by fastforce
  have "st_pend (TCB_TaskState t)" using k(7) [OF t(1)] t(2) by (auto simp: task_ok_def split: if_splits)
  with that b(1,2) e hd t show ?thesis by (simp add: waiter_def fld_Some)
qed

lemma pend_first:
  assumes "kinv s R P W" "P ob = d # ds"
  obtains b e t where "objs s ob = Some b" "PL_HeadPtr (OBJ_PendList b) = d" "unat (PL_NbrEntries (OBJ_PendList b)) = Suc (length ds)"
    "pds s d = Some e" "PD_NextPtr e = hd0 NULL ds" "waiter s d = PD_TCBPtr e" "tcbs s (PD_TCBPtr e) = Some t"
    "d \<in> pend_tbl t" "st_pend (TCB_TaskState t)"
  by (rule pend_nth [OF assms(1), of ob "[]" d ds]) (use assms(2) that in simp_all)

text \<open>When every task is on the list once, the wake-up of a task takes just its entry off the list.\<close>

lemma pend_others:
  assumes K: "kinv s R P W" and P: "P ob = es @ d # ds" and once: "distinct (map (waiter s) (P ob))" and t: "tcbs s (waiter s d) = Some t"
  shows "set (es @ ds) \<inter> pend_tbl t = {}" and "filter (\<lambda>d. d \<notin> pend_tbl t) (P ob) = es @ ds"
proof -
  obtain e t' where b: "pds s d = Some e" "waiter s d = PD_TCBPtr e" "tcbs s (PD_TCBPtr e) = Some t'" "d \<in> pend_tbl t'" "st_pend (TCB_TaskState t')"
    by (rule pend_nth [OF K P])
  then have d: "d \<in> pend_tbl t" "st_pend (TCB_TaskState t)" using t by simp_all
  have "d' \<notin> pend_tbl t" if d': "d' \<in> set (es @ ds)" for d'
  proof
    assume i: "d' \<in> pend_tbl t"
    from kinvD(7) [OF K t] d(2) i obtain e' where "pds s d' = Some e'" "PD_TCBPtr e' = waiter s d" by (auto simp: task_ok_def pend_tbl_ok_def)
    then have "waiter s d' = waiter s d" by (simp add: waiter_def fld_Some)
    then have "waiter s d \<in> set (map (waiter s) (es @ ds))" using d' by (metis image_eqI list.set_map)
    with once P show False by auto
  qed
  then show "set (es @ ds) \<inter> pend_tbl t = {}" by blast
  then have "filter (\<lambda>d. d \<notin> pend_tbl t) (es @ ds) = es @ ds" by (subst filter_id_conv) blast
  with d(1) P show "filter (\<lambda>d. d \<notin> pend_tbl t) (P ob) = es @ ds" by simp
qed

lemma waiter_kframe: "kframe X D s s' \<Longrightarrow> d \<notin> D \<Longrightarrow> pds s d = Some e \<Longrightarrow> waiter s' d = waiter s d"
  using kframe_pd [of X D s s' d e] by (metis waiter_def fld_Some)

lemma pend_entry: "kinv s R P W \<Longrightarrow> d \<in> set (P ob) \<Longrightarrow> \<exists>e. pds s d = Some e"
  using pend_rel_disjoint(3) [OF kinvD(3)] by blast

text \<open>The contract of a wake-up: what \<^verbatim>\<open>OS_Post\<close>, \<^verbatim>\<open>OS_PendAbort\<close> and \<^verbatim>\<open>OS_PendObjDel\<close> have in common.\<close>

locale wake_op =
  fixes wake :: "ptr \<Rightarrow> ptr \<Rightarrow> os \<Rightarrow> os option"
    and st :: OS_STATUS
    and msg :: "ptr \<times> OS_MSG_SIZE \<times> CPU_TS"
  assumes wake_ok: "kinv s R P W \<Longrightarrow> tcbs s x = Some t \<Longrightarrow> st_pend (TCB_TaskState t) \<Longrightarrow> ob \<in> dom (objs s) \<Longrightarrow> ob \<noteq> NULL \<Longrightarrow>
    \<exists>s' t'. wake ob x s = Some s' \<and> woken s R P W x t s' t' \<and> woken_tcb st msg t t'"
begin

lemma wake_first:
  assumes K: "kinv s R P W" and P: "P ob = d # ds" and once: "distinct (map (waiter s) (d # ds))" and ob: "ob \<noteq> NULL"
  obtains s' t t' R' P' W' where "wake ob (waiter s d) s = Some s'" "kinv s' R' P' W'" "P' ob = ds"
    "kframe {waiter s d} (pend_tbl t) s s'" "set ds \<inter> pend_tbl t = {}" "tcbs s (waiter s d) = Some t"
    "tcbs s' (waiter s d) = Some t'" "woken_tcb st msg t t'" "map (waiter s') ds = map (waiter s) ds"
    "\<forall>o'. set (P' o') \<subseteq> set (P o')"
proof -
  obtain b e t where b: "objs s ob = Some b" "pds s d = Some e" "waiter s d = PD_TCBPtr e" "tcbs s (PD_TCBPtr e) = Some t"
    "d \<in> pend_tbl t" "st_pend (TCB_TaskState t)" by (rule pend_first [OF K P])
  let ?x = "PD_TCBPtr e" let ?P = "\<lambda>ob. filter (\<lambda>d. d \<notin> pend_tbl t) (P ob)"
  from wake_ok [OF K b(4,6) _ ob] b(1) obtain s' t' where s': "wake ob ?x s = Some s'" "woken s R P W ?x t s' t'" "woken_tcb st msg t t'"
    by blast
  have t: "tcbs s (waiter s d) = Some t" using b(3,4) by simp
  note o = pend_others [OF K, of ob "[]" d ds, simplified, OF P _ t]
  have out: "set ds \<inter> pend_tbl t = {}" "filter (\<lambda>d. d \<notin> pend_tbl t) (P ob) = ds" using o once P by simp_all
  have F: "kframe {?x} (pend_tbl t) s s'" using s'(2) by (simp add: woken_def)
  have "waiter s' d' = waiter s d'" if d': "d' \<in> set ds" for d'
  proof -
    have "d' \<in> set (P ob)" using P d' by simp
    from pend_entry [OF K this] obtain e' where "pds s d' = Some e'" by blast
    with waiter_kframe [OF F] out(1) d' show ?thesis by blast
  qed
  with F out show ?thesis using that [of s' _ ?P _ t t'] s' b(3,4) by (auto simp: woken_def)
qed

end

interpretation post: wake_op "\<lambda>p_obj x. OS_Post p_obj x p_void msg_size ts" OS_STATUS_PEND_OK "(p_void, msg_size, ts)"
  for p_void msg_size ts
proof unfold_locales
  fix s R P W x t ob
  assume a: "kinv s R P W" "tcbs s x = Some t" "st_pend (TCB_TaskState t)" "ob \<in> dom (objs s)" "ob \<noteq> NULL"
  then have "if ob = NULL then pend_tbl t = {} else ob \<in> dom (objs s)" by simp
  from OS_Post_ok [OF a(1-3) this, of p_void msg_size ts]
  show "\<exists>s' t'. OS_Post ob x p_void msg_size ts s = Some s' \<and> woken s R P W x t s' t' \<and> woken_tcb OS_STATUS_PEND_OK (p_void, msg_size, ts) t t'"
    unfolding woken_tcb_def woken_def by blast
qed

interpretation abort: wake_op "\<lambda>p_obj x. OS_PendAbort p_obj x ts" OS_STATUS_PEND_ABORT "(NULL, 0, ts)" for ts
proof unfold_locales
  fix s R P W x t ob
  assume a: "kinv s R P W" "tcbs s x = Some t" "st_pend (TCB_TaskState t)" "ob \<noteq> NULL"
  from OS_PendAbort_ok [OF a(1-3), of ob ts] a(4)
  show "\<exists>s' t'. OS_PendAbort ob x ts s = Some s' \<and> woken s R P W x t s' t' \<and> woken_tcb OS_STATUS_PEND_ABORT (NULL, 0, ts) t t'"
    unfolding woken_tcb_def woken_def by auto
qed

interpretation objdel: wake_op "\<lambda>p_obj x. OS_PendObjDel p_obj x ts" OS_STATUS_PEND_DEL "(NULL, 0, ts)" for ts
proof unfold_locales
  fix s R P W x t ob
  assume a: "kinv s R P W" "tcbs s x = Some t" "st_pend (TCB_TaskState t)"
  from OS_PendObjDel_ok [OF a, of ob ts]
  show "\<exists>s' t'. OS_PendObjDel ob x ts s = Some s' \<and> woken s R P W x t s' t' \<and> woken_tcb OS_STATUS_PEND_DEL (NULL, 0, ts) t t'"
    unfolding woken_tcb_def woken_def by auto
qed

subsection \<open>All wake-ups\<close>

text \<open>The tasks that wait through the entries \<open>ds\<close> are woken, and no other task changes.\<close>

definition woken_all :: "OS_STATUS \<Rightarrow> ptr \<times> OS_MSG_SIZE \<times> CPU_TS \<Rightarrow> os \<Rightarrow> ptr list \<Rightarrow> os \<Rightarrow> bool" where
  "woken_all st msg s ds s' \<longleftrightarrow> (\<exists>D. kframe (waiter s ` set ds) D s s') \<and>
     (\<forall>d \<in> set ds. \<exists>t t'. tcbs s (waiter s d) = Some t \<and> tcbs s' (waiter s d) = Some t' \<and> woken_tcb st msg t t')"

lemma woken_all_Nil: "woken_all st msg s [] s"
  by (auto simp: woken_all_def)

lemma woken_all_Cons:
  assumes F: "kframe {waiter s d} D s s1" and t: "tcbs s (waiter s d) = Some t" "tcbs s1 (waiter s d) = Some t1" "woken_tcb st msg t t1"
    and w: "map (waiter s1) ds = map (waiter s) ds" and d: "distinct (map (waiter s) (d # ds))"
    and A: "woken_all st msg s1 ds s'"
  shows "woken_all st msg s (d # ds) s'"
proof -
  have img: "waiter s1 ` set ds = waiter s ` set ds" using w by (metis list.set_map)
  from A obtain E where E: "kframe (waiter s ` set ds) E s1 s'" unfolding woken_all_def img by blast
  have nin: "waiter s d \<notin> waiter s ` set ds" using d by simp
  have "kframe (waiter s ` set (d # ds)) (D \<union> E) s s'"
    by (rule kframe_trans [OF kframe_mono [OF F] kframe_mono [OF E]]) auto
  moreover have "\<exists>u u'. tcbs s (waiter s y) = Some u \<and> tcbs s' (waiter s y) = Some u' \<and> woken_tcb st msg u u'" if y: "y \<in> set (d # ds)" for y
  proof (cases "y = d")
    case True
    from kframe_tcb(1) [OF E nin t(2)] obtain u' where u': "tcbs s' (waiter s d) = Some u'" "tcb_other u' = tcb_other t1" by blast
    then have "woken_tcb st msg t u'" using woken_tcb_cong [OF refl u'(2)] t(3) by simp
    with u'(1) t(1) True show ?thesis by blast
  next
    case False
    then have yd: "y \<in> set ds" using y by simp
    have yw: "waiter s1 y = waiter s y" using w yd by (simp add: map_eq_conv)
    from A yd obtain u u' where u: "tcbs s1 (waiter s y) = Some u" "tcbs s' (waiter s y) = Some u'" "woken_tcb st msg u u'"
      unfolding woken_all_def yw [symmetric] by blast
    have "waiter s y \<notin> {waiter s d}" using nin yd by (metis imageI singletonD)
    from kframe_tcb(2) [OF F this u(1)] obtain u0 where u0: "tcbs s (waiter s y) = Some u0" "tcb_other u = tcb_other u0" by blast
    have "woken_tcb st msg u0 u'" using woken_tcb_cong [OF u0(2) refl] u(3) by simp
    with u0(1) u(2) show ?thesis by blast
  qed
  ultimately show ?thesis unfolding woken_all_def by blast
qed

lemma post_loop_ok:
  assumes "kinv s R P W" "P ob = ds @ es" "distinct (map (waiter s) (ds @ es))" "ob \<noteq> NULL"
  shows "\<exists>s' R' P' W'. post_loop (length ds) ob p_void msg_size ts (hd0 NULL (ds @ es)) s = Some s' \<and> kinv s' R' P' W' \<and>
    P' ob = es \<and> woken_all OS_STATUS_PEND_OK (p_void, msg_size, ts) s ds s' \<and> (\<forall>o'. set (P' o') \<subseteq> set (P o'))"
  using assms(1-3)
proof (induction ds arbitrary: s R P W)
  case Nil
  then show ?case using woken_all_Nil by fastforce
next
  case (Cons d ds)
  have P: "P ob = d # (ds @ es)" and dd: "distinct (map (waiter s) (d # (ds @ es)))" using Cons.prems(2,3) by simp_all
  obtain e where e: "pds s d = Some e" "PD_NextPtr e = hd0 NULL (ds @ es)" "waiter s d = PD_TCBPtr e"
    by (rule pend_first [OF Cons.prems(1) P])
  obtain s1 t t1 R1 P1 W1 where 1: "OS_Post ob (waiter s d) p_void msg_size ts s = Some s1" "kinv s1 R1 P1 W1" "P1 ob = ds @ es"
    "kframe {waiter s d} (pend_tbl t) s s1" "tcbs s (waiter s d) = Some t"
    "tcbs s1 (waiter s d) = Some t1" "woken_tcb OS_STATUS_PEND_OK (p_void, msg_size, ts) t t1" "map (waiter s1) (ds @ es) = map (waiter s) (ds @ es)"
    "\<forall>o'. set (P1 o') \<subseteq> set (P o')"
    by (rule post.wake_first [OF Cons.prems(1) P dd assms(4), of p_void msg_size ts])
  have "distinct (map (waiter s1) (ds @ es))" unfolding 1(8) using dd by simp
  from Cons.IH [OF 1(2,3) this] obtain s' R' P' W' where s': "post_loop (length ds) ob p_void msg_size ts (hd0 NULL (ds @ es)) s1 = Some s'"
    "kinv s' R' P' W'" "P' ob = es" "woken_all OS_STATUS_PEND_OK (p_void, msg_size, ts) s1 ds s'"
    "\<forall>o'. set (P' o') \<subseteq> set (P1 o')" by blast
  have "woken_all OS_STATUS_PEND_OK (p_void, msg_size, ts) s (d # ds) s'"
    by (rule woken_all_Cons [OF 1(4-7) _ _ s'(4)]) (use 1(8) dd in simp_all)
  moreover have "post_loop (length (d # ds)) ob p_void msg_size ts (hd0 NULL ((d # ds) @ es)) s = Some s'"
    using e 1(1) s'(1) by simp
  moreover have "\<forall>o'. set (P' o') \<subseteq> set (P o')" using s'(5) 1(9) by (metis order_trans)
  ultimately show ?case using s'(2,3) by blast
qed

lemma abort_loop_ok:
  assumes "kinv s R P W" "P ob = ds" "distinct (map (waiter s) ds)" "ob \<noteq> NULL" "ob \<in> dom (objs s)"
  shows "\<exists>s' R' P' W'. abort_loop ob all ts n s = Some (n + of_nat (length (if all then ds else take 1 ds)), s') \<and> kinv s' R' P' W' \<and>
    P' ob = (if all then [] else drop 1 ds) \<and> woken_all OS_STATUS_PEND_ABORT (NULL, 0, ts) s (if all then ds else take 1 ds) s' \<and>
    (\<forall>o'. set (P' o') \<subseteq> set (P o'))"
  using assms(1-3,5)
proof (induction ds arbitrary: s R P W n)
  case Nil
  from Nil.prems(4) obtain b where b: "objs s ob = Some b" by blast
  have "unat (PL_NbrEntries (OBJ_PendList b)) = 0"
    using pend_links_obtain(1) [OF _ b, of P] kinvD(3) [OF Nil.prems(1)] Nil.prems(2) by (simp add: pend_rel_def)
  then have "PL_NbrEntries (OBJ_PendList b) = 0" by (rule unat_eq_numD(2))
  with b have "abort_loop ob all ts n s = Some (n, s)" by (subst abort_loop.simps) simp
  with Nil.prems(1,2) woken_all_Nil show ?case by (intro exI [of _ s] exI [of _ R] exI [of _ P] exI [of _ W]) simp
next
  case (Cons d ds)
  obtain b e where b: "objs s ob = Some b" "PL_HeadPtr (OBJ_PendList b) = d" "unat (PL_NbrEntries (OBJ_PendList b)) = Suc (length ds)"
    "pds s d = Some e" "waiter s d = PD_TCBPtr e" by (rule pend_first [OF Cons.prems(1,2)])
  obtain s1 t t1 R1 P1 W1 where 1: "OS_PendAbort ob (waiter s d) ts s = Some s1" "kinv s1 R1 P1 W1" "P1 ob = ds"
    "kframe {waiter s d} (pend_tbl t) s s1" "tcbs s (waiter s d) = Some t"
    "tcbs s1 (waiter s d) = Some t1" "woken_tcb OS_STATUS_PEND_ABORT (NULL, 0, ts) t t1" "map (waiter s1) ds = map (waiter s) ds"
    "\<forall>o'. set (P1 o') \<subseteq> set (P o')"
    by (rule abort.wake_first [OF Cons.prems(1-3) assms(4), of ts])
  have nz: "PL_NbrEntries (OBJ_PendList b) > 0" using b(3) by (simp add: word_less_nat_alt)
  have u: "abort_loop ob all ts n s = (if all then abort_loop ob all ts (n + 1) s1 else Some (n + 1, s1))"
    using b nz 1(1) by (subst abort_loop.simps) simp
  have c: "woken_all OS_STATUS_PEND_ABORT (NULL, 0, ts) s (d # xs) s'" if "woken_all OS_STATUS_PEND_ABORT (NULL, 0, ts) s1 xs s'" "xs = ds \<or> xs = []" for xs s'
    by (rule woken_all_Cons [OF 1(4-7) _ _ that(1)]) (use that(2) 1(8) Cons.prems(3) in auto)
  show ?case
  proof (cases all)
    case False
    with u 1(2,3,9) c [OF woken_all_Nil] show ?thesis by (intro exI [of _ s1] exI [of _ R1] exI [of _ P1] exI [of _ W1]) simp
  next
    case True
    have "map_option obj_other (objs s1 ob) = map_option obj_other (objs s ob)" using 1(4) by (simp add: kframe_def)
    then have d1: "distinct (map (waiter s1) ds)" "ob \<in> dom (objs s1)" unfolding 1(8) using Cons.prems(3) b(1) by auto
    from Cons.IH [OF 1(2,3) d1, of "n + 1"] True obtain s' R' P' W' where
      s': "abort_loop ob all ts (n + 1) s1 = Some (n + 1 + of_nat (length ds), s')" "kinv s' R' P' W'" "P' ob = []"
      "woken_all OS_STATUS_PEND_ABORT (NULL, 0, ts) s1 ds s'" "\<forall>o'. set (P' o') \<subseteq> set (P1 o')" by auto
    have "\<forall>o'. set (P' o') \<subseteq> set (P o')" using s'(5) 1(9) by (metis order_trans)
    with True u s'(1-3) c [OF s'(4)] show ?thesis
      by (intro exI [of _ s'] exI [of _ R'] exI [of _ P'] exI [of _ W']) (simp add: algebra_simps)
  qed
qed

lemma del_loop_ok:
  assumes "kinv s R P W" "P ob = ds" "distinct (map (waiter s) ds)" "ob \<noteq> NULL"
  shows "\<exists>s' R' P' W'. del_loop (length ds) ob ts s = Some s' \<and> kinv s' R' P' W' \<and>
    P' ob = [] \<and> woken_all OS_STATUS_PEND_DEL (NULL, 0, ts) s ds s' \<and> (\<forall>o'. set (P' o') \<subseteq> set (P o'))"
  using assms(1-3)
proof (induction ds arbitrary: s R P W)
  case Nil
  then show ?case using woken_all_Nil by fastforce
next
  case (Cons d ds)
  obtain b e where b: "objs s ob = Some b" "PL_HeadPtr (OBJ_PendList b) = d" "pds s d = Some e" "waiter s d = PD_TCBPtr e"
    by (rule pend_first [OF Cons.prems(1,2)])
  obtain s1 t t1 R1 P1 W1 where 1: "OS_PendObjDel ob (waiter s d) ts s = Some s1" "kinv s1 R1 P1 W1" "P1 ob = ds"
    "kframe {waiter s d} (pend_tbl t) s s1" "tcbs s (waiter s d) = Some t"
    "tcbs s1 (waiter s d) = Some t1" "woken_tcb OS_STATUS_PEND_DEL (NULL, 0, ts) t t1" "map (waiter s1) ds = map (waiter s) ds"
    "\<forall>o'. set (P1 o') \<subseteq> set (P o')"
    by (rule objdel.wake_first [OF Cons.prems(1-3) assms(4), of ts])
  have "distinct (map (waiter s1) ds)" unfolding 1(8) using Cons.prems(3) by simp
  from Cons.IH [OF 1(2,3) this] obtain s' R' P' W' where s': "del_loop (length ds) ob ts s1 = Some s'" "kinv s' R' P' W'" "P' ob = []"
    "woken_all OS_STATUS_PEND_DEL (NULL, 0, ts) s1 ds s'" "\<forall>o'. set (P' o') \<subseteq> set (P1 o')" by blast
  have "\<forall>o'. set (P' o') \<subseteq> set (P o')" using s'(5) 1(9) by (metis order_trans)
  moreover have "woken_all OS_STATUS_PEND_DEL (NULL, 0, ts) s (d # ds) s'"
    by (rule woken_all_Cons [OF 1(4-7) 1(8) Cons.prems(3) s'(4)])
  moreover have "del_loop (length (d # ds)) ob ts s = Some s'" using b 1(1) s'(1) by simp
  ultimately show ?case using s'(2,3) by blast
qed

subsection \<open>The running task\<close>

text \<open>Between two kernel calls the running task is ready and its priority is the current one.\<close>

definition cur_rdy :: "os \<Rightarrow> bool" where
  "cur_rdy s \<longleftrightarrow> (\<exists>t. tcbs s (OSTCBCurPtr s) = Some t \<and> TCB_Prio t = OSPrioCur s \<and> TCB_TaskState t = OS_TASK_STATE_RDY)"

definition sys :: "os \<Rightarrow> (nat \<Rightarrow> ptr list) \<Rightarrow> (ptr \<Rightarrow> ptr list) \<Rightarrow> (nat \<Rightarrow> ptr list) \<Rightarrow> bool" where
  "sys s R P W \<longleftrightarrow> kinv s R P W \<and> cur_rdy s"

lemma cur_rdy_ok: "cur_rdy s \<Longrightarrow> cur_ok s"
  by (auto simp: cur_rdy_def cur_ok_def)

lemma cur_rdy_in:
  assumes "kinv s R P W" "cur_rdy s"
  shows "OSTCBCurPtr s \<in> set (R (unat (OSPrioCur s)))"
proof -
  from assms(2) obtain t where t: "tcbs s (OSTCBCurPtr s) = Some t" "TCB_Prio t = OSPrioCur s" "TCB_TaskState t = OS_TASK_STATE_RDY"
    by (auto simp: cur_rdy_def)
  with kinvD(7) [OF assms(1) t(1)] show ?thesis by (simp add: task_ok_def)
qed

lemma rdy_task_state:
  assumes "kinv s R P W" "x \<in> set (R p)"
  obtains t where "tcbs s x = Some t" "unat (TCB_Prio t) = p" "TCB_TaskState t = OS_TASK_STATE_RDY"
proof -
  from rdy_rel_list(3) [OF kinvD(2) [OF assms(1)] assms(2)] obtain t where t: "tcbs s x = Some t" "unat (TCB_Prio t) = p" by blast
  with kinvD(7) [OF assms(1) t(1)] assms(2) that show ?thesis by (auto simp: task_ok_def)
qed

lemma sw_frame_state:
  assumes "sw_frame s s'"
  shows "map_option TCB_TaskState (tcbs s' x) = map_option TCB_TaskState (tcbs s x)"
proof -
  have "map_option tcb_stat (tcbs s' x) = map_option tcb_stat (tcbs s x)" using assms by (simp add: sw_frame_def)
  moreover have "TCB_TaskState t' = TCB_TaskState t" if "tcb_stat t' = tcb_stat t" for t' t
    using tcb_stat_key [OF that] by (simp add: tcb_key_def)
  ultimately show ?thesis using map_option_eq_via by blast
qed

lemma OSSched_sys:
  assumes "kinv s R P W" "cur_ok s" "R p \<noteq> []" "OSIntNestingCtr s > 0 \<or> OSSchedLockNestingCtr s > 0 \<Longrightarrow> cur_rdy s"
  shows "\<exists>s'. OSSched s = Some s' \<and> sys s' R P W \<and> sw_frame s s' \<and> sched_done s R s'"
proof -
  obtain s' where s': "OSSched s = Some s'" "kinv s' R P W" "sw_frame s s'" "cur_ok s'" "sched_done s R s'"
    using OSSched_ok [OF assms(1-3)] by blast
  have "cur_rdy s'"
  proof (cases "OSIntNestingCtr s > 0 \<or> OSSchedLockNestingCtr s > 0")
    case True
    have "s' = s" using s'(5) True unfolding sched_done_def by argo
    then show ?thesis using assms(4) [OF True] by simp
  next
    case False
    have ne: "R (top_prio R) \<noteq> []" by (rule rq.top_nonempty [where R = R and p = p, OF assms(3)])
    have "OSTCBCurPtr s' = top_task R" using s'(5) False unfolding sched_done_def by argo
    then have "OSTCBCurPtr s' \<in> set (R (top_prio R))" using ne by (simp add: top_task_def)
    then obtain t where "tcbs s' (OSTCBCurPtr s') = Some t" "TCB_TaskState t = OS_TASK_STATE_RDY" by (rule rdy_task_state [OF s'(2)])
    with s'(4) show ?thesis by (auto simp: cur_rdy_def cur_ok_def)
  qed
  then have "sys s' R P W" using s'(2) by (simp add: sys_def)
  with s'(1,3,5) show ?thesis by blast
qed

lemma sched_if_ok:
  assumes "sys s R P W"
  shows "\<exists>s'. (if b then OSSched s else Some s) = Some s' \<and> sys s' R P W \<and> sw_frame s s' \<and> (b \<longrightarrow> sched_done s R s')"
proof (cases b)
  case True
  have s: "kinv s R P W" "cur_rdy s" using assms by (simp_all add: sys_def)
  from cur_rdy_in [OF s] have "R (unat (OSPrioCur s)) \<noteq> []" by auto
  from OSSched_sys [OF s(1) cur_rdy_ok [OF s(2)] this s(2)] True show ?thesis by auto
qed (use assms in auto)

text \<open>A task whose state is not one of a timed wait is on no spoke of the wheel.\<close>

lemma kinv_off_wheel:
  assumes "kinv s R P W" "tcbs s x = Some t" "\<not> st_tick (TCB_TaskState t)"
  shows "(\<lambda>i. filter (\<lambda>y. y \<noteq> x) (W i)) = W"
proof -
  have "TCB_TickSpokePtr t = None" using kinvD(7) [OF assms(1,2)] assms(3) by (simp add: task_ok_def)
  moreover have "tick_links s W" using kinvD(4) [OF assms(1)] by (simp add: tick_rel_def)
  ultimately have "x \<notin> set (W i)" for i using assms(2) unfolding tick_links_def on_spoke_def by auto
  then show ?thesis by (auto simp: fun_eq_iff filter_id_conv)
qed

text \<open>The wake-ups do not touch the running task.\<close>

lemma waiter_not_cur:
  assumes K: "kinv s R P W" and c: "cur_rdy s" and d: "d \<in> set (P ob)"
  shows "waiter s d \<noteq> OSTCBCurPtr s"
proof
  assume w: "waiter s d = OSTCBCurPtr s"
  from c obtain t where t: "tcbs s (OSTCBCurPtr s) = Some t" "TCB_TaskState t = OS_TASK_STATE_RDY" by (auto simp: cur_rdy_def)
  from kinvD(5) [OF K] d obtain e u where u: "pds s d = Some e" "tcbs s (PD_TCBPtr e) = Some u" "d \<in> pend_tbl u"
    unfolding pend_owned_def by blast
  then have "u = t" using w t by (simp add: waiter_def fld_Some)
  with kinvD(7) [OF K t(1)] t(2) u(3) show False by (auto simp: task_ok_def st_pend_def)
qed

lemma kframe_cur:
  assumes "cur_rdy s" "kframe X D s s'" "OSTCBCurPtr s \<notin> X"
  shows "cur_rdy s'"
proof -
  from assms(1) obtain t where t: "tcbs s (OSTCBCurPtr s) = Some t" "TCB_Prio t = OSPrioCur s" "TCB_TaskState t = OS_TASK_STATE_RDY"
    by (auto simp: cur_rdy_def)
  obtain t' where t': "tcbs s' (OSTCBCurPtr s) = Some t'" "tcb_other t' = tcb_other t" using kframe_tcb(1) [OF assms(2,3) t(1)] by blast
  have "TCB_Prio t' = OSPrioCur s'" "TCB_TaskState t' = OS_TASK_STATE_RDY" "OSTCBCurPtr s' = OSTCBCurPtr s"
    using tcb_other_eqD(1,2) [OF t'(2)] kframe_globals(11,12) [OF assms(2)] t(2,3) by simp_all
  with t'(1) show ?thesis by (simp add: cur_rdy_def)
qed

lemma woken_all_cur:
  assumes K: "kinv s R P W" and c: "cur_rdy s" and A: "woken_all st msg s ds s'" and ds: "set ds \<subseteq> set (P ob)"
  shows "cur_rdy s'"
proof -
  from A obtain D where D: "kframe (waiter s ` set ds) D s s'" by (auto simp: woken_all_def)
  have "OSTCBCurPtr s \<notin> waiter s ` set ds" using waiter_not_cur [OF K c] ds by fastforce
  from kframe_cur [OF c D this] show ?thesis .
qed

text \<open>Blocking the running task hands the processor to another ready task.\<close>

text \<open>After the running task has left the ready list the scheduler switches to another one.\<close>

lemma block_sched:
  assumes S: "sys s R P W" and n: "OSIntNestingCtr s = 0" "OSSchedLockNestingCtr s = 0" and o: "y \<in> set (R q)" "y \<noteq> OSTCBCurPtr s"
    and t: "tcbs s (OSTCBCurPtr s) = Some t"
    and s1: "kinv s1 (R(unat (TCB_Prio t) := remove1 (OSTCBCurPtr s) (R (unat (TCB_Prio t))))) P1 W1" "kframe {OSTCBCurPtr s} D s s1"
      "tcbs s1 (OSTCBCurPtr s) = Some t'" "TCB_Prio t' = TCB_Prio t"
  shows "\<exists>s2 R'. OSSched s1 = Some s2 \<and> sw_frame s1 s2 \<and> sys s2 R' P1 W1 \<and> (\<forall>p. R' p = remove1 (OSTCBCurPtr s) (R p)) \<and>
    OSTCBCurPtr s2 = top_task R' \<and> OSTCBCurPtr s2 \<noteq> OSTCBCurPtr s"
proof -
  let ?x = "OSTCBCurPtr s"
  have K: "kinv s R P W" and c: "cur_rdy s" using S by (simp_all add: sys_def)
  from c t have tp: "TCB_Prio t = OSPrioCur s" by (auto simp: cur_rdy_def)
  let ?R = "R(unat (TCB_Prio t) := remove1 ?x (R (unat (TCB_Prio t))))"
  note g = kframe_globals [OF s1(2)]
  have R: "?R p = remove1 ?x (R p)" for p
  proof -
    have "?x \<notin> set (R p)" if "p \<noteq> unat (TCB_Prio t)" using rdy_rel_list(3) [OF kinvD(2) [OF K], of ?x p] that t by auto
    then show ?thesis by (simp add: remove1_idem)
  qed
  have nx: "?x \<notin> set (?R p)" for p unfolding R using rdy_rel_list(1) [OF kinvD(2) [OF K], of p] by simp
  have "y \<in> set (?R q)" unfolding R using o by simp
  then have ne: "?R q \<noteq> []" by auto
  have "cur_ok s1" using s1(3,4) g(11,12) tp by (simp add: cur_ok_def)
  moreover have "OSIntNestingCtr s1 > 0 \<or> OSSchedLockNestingCtr s1 > 0 \<Longrightarrow> cur_rdy s1" using n g(8,10) by simp
  ultimately obtain s2 where s2: "OSSched s1 = Some s2" "sys s2 ?R P1 W1" "sw_frame s1 s2" "sched_done s1 ?R s2" using OSSched_sys [OF s1(1) _ ne] by blast
  have "OSTCBCurPtr s2 = top_task ?R" using s2(4) n g(8,10) by (simp add: sched_done_def)
  moreover have "top_task ?R \<noteq> ?x"
    using rq.top_nonempty [where R = ?R and p = q, OF ne] nx unfolding top_task_def by (metis hd_in_set)
  ultimately show ?thesis using s2(1-3) R by (intro exI [of _ s2] exI [of _ ?R]) simp
qed

lemma pend_sched_ok:
  assumes S: "sys s R P W" and n: "OSIntNestingCtr s = 0" "OSSchedLockNestingCtr s = 0"
    and o: "y \<in> set (R q)" "y \<noteq> OSTCBCurPtr s"
    and ob: "p_obj \<noteq> NULL \<Longrightarrow> p_obj \<in> dom (objs s)" "p_obj \<noteq> NULL \<Longrightarrow> d \<in> dom (pds s) \<and> d \<noteq> NULL \<and> (\<forall>ob. d \<notin> set (P ob))"
  shows "\<exists>s1 s2 R'. OS_Pend d p_obj pending_on timeout s = Some s1 \<and> OSSched s1 = Some s2 \<and>
    blocked s R P W (OSTCBCurPtr s) d p_obj pending_on timeout s1 \<and> sw_frame s1 s2 \<and> sys s2 R' (pend_block s1 p_obj d P)
      (tick_block s (OSTCBCurPtr s) timeout s1 W) \<and> (\<forall>p. R' p = remove1 (OSTCBCurPtr s) (R p)) \<and>
    OSTCBCurPtr s2 = top_task R' \<and> OSTCBCurPtr s2 \<noteq> OSTCBCurPtr s"
proof -
  let ?x = "OSTCBCurPtr s"
  have K: "kinv s R P W" and c: "cur_rdy s" using S by (simp_all add: sys_def)
  from c obtain t where t: "tcbs s ?x = Some t" "TCB_TaskState t = OS_TASK_STATE_RDY" by (auto simp: cur_rdy_def)
  from OS_Pend_ok [OF K refl t ob] obtain s1 where s1: "OS_Pend d p_obj pending_on timeout s = Some s1"
    and B: "blocked s R P W ?x d p_obj pending_on timeout s1" by blast
  from B t(1) obtain t' where b: "kinv s1 (R(unat (TCB_Prio t) := remove1 ?x (R (unat (TCB_Prio t))))) (pend_block s1 p_obj d P) (tick_block s ?x timeout s1 W)"
    "kframe {?x} (if p_obj = NULL then {} else {d}) s s1" "tcbs s1 ?x = Some t'" "TCB_Prio t' = TCB_Prio t"
    unfolding blocked_def by auto
  from block_sched [OF S n o t(1) b] s1 B show ?thesis by blast
qed

lemma blocked_waiter:
  assumes K: "kinv s R P W" and B: "blocked s R P W x d p_obj pending_on timeout s'" and ob: "p_obj \<noteq> NULL" "\<And>ob. d \<notin> set (P ob)"
  shows "waiter s' d = x"
proof (rule ccontr)
  assume n: "waiter s' d \<noteq> x"
  from B ob(1) obtain R' W' where b: "kinv s' R' (pend_block s' p_obj d P) W'" "kframe {x} {d} s s'" unfolding blocked_def by auto
  have "d \<in> set (pend_block s' p_obj d P p_obj)" using ob(1) by (simp add: pend_block_def)
  with kinvD(5) [OF b(1)] obtain e t where t: "pds s' d = Some e" "tcbs s' (PD_TCBPtr e) = Some t" "d \<in> pend_tbl t"
    unfolding pend_owned_def by blast
  then have "PD_TCBPtr e \<notin> {x}" using n by (simp add: waiter_def fld_Some)
  from kframe_tcb(2) [OF b(2) this t(2)] obtain u where u: "tcbs s (PD_TCBPtr e) = Some u" "tcb_other t = tcb_other u" by blast
  have "d \<in> pend_tbl u" using t(3) tcb_other_eqD(3) [OF u(2)] by simp
  with kinvD(7) [OF K u(1)] ob(2) show False by (auto simp: task_ok_def pend_tbl_ok_def split: if_splits)
qed

subsection \<open>Updates outside the pend lists\<close>

lemma kinv_objs:
  assumes "\<And>x. map_option OBJ_PendList (h x) = map_option OBJ_PendList (objs s x)"
  shows "kinv (s\<lparr>objs := h\<rparr>) R P W = kinv s R P W"
proof -
  have "krel (s\<lparr>objs := h\<rparr>) R P W = krel s R P W" by (rule krel_cong) (simp_all add: assms)
  then show ?thesis by (simp add: kinv_def task_ok_def pend_tbl_ok_def pend_owned_def mem_bound_def)
qed

lemma pend_empty_list:
  assumes "kinv s R P W" "objs s p = Some b" "P p = []"
  shows "OBJ_PendList b = \<lparr>PL_HeadPtr = NULL, PL_TailPtr = NULL, PL_NbrEntries = 0\<rparr>"
proof -
  have "pend_links s P" using kinvD(3) [OF assms(1)] by (simp add: pend_rel_def)
  note l = pend_links_obtain [OF this assms(2)]
  have "PL_NbrEntries (OBJ_PendList b) = 0" using l(1) assms(3) by (intro unat_eq_numD(2)) simp
  with l(2) assms(3) show ?thesis by (cases "OBJ_PendList b") simp
qed

lemma pend_empty_iff:
  assumes "kinv s R P W" "objs s p = Some b"
  shows "PL_NbrEntries (OBJ_PendList b) = 0 \<longleftrightarrow> P p = []"
    and "unat (PL_NbrEntries (OBJ_PendList b)) = length (P p)" "PL_HeadPtr (OBJ_PendList b) = hd0 NULL (P p)"
proof -
  have "pend_links s P" using kinvD(3) [OF assms(1)] by (simp add: pend_rel_def)
  note l = pend_links_obtain [OF this assms(2)]
  show "unat (PL_NbrEntries (OBJ_PendList b)) = length (P p)" by (rule l(1))
  then show "PL_NbrEntries (OBJ_PendList b) = 0 \<longleftrightarrow> P p = []" by (metis length_0_conv unat_0 unat_eq_numD(2))
  show "PL_HeadPtr (OBJ_PendList b) = hd0 NULL (P p)" by (rule linkedD(4) [OF l(2)])
qed

lemma post_count:
  assumes K: "kinv s R P W" and b: "objs s p = Some b" and P: "P p \<noteq> []"
  shows "unat (if c then PL_NbrEntries (OBJ_PendList b) else 1) = (if c then length (P p) else 1)"
  using pend_empty_iff(2) [OF K b] by simp

lemma cur_rdy_globals [simp]:
  "cur_rdy (s\<lparr>sems := c\<rparr>) = cur_rdy s" "cur_rdy (s\<lparr>qs := d\<rparr>) = cur_rdy s" "cur_rdy (s\<lparr>msgs := e\<rparr>) = cur_rdy s"
  "cur_rdy (s\<lparr>OSMsgPool := f\<rparr>) = cur_rdy s" "cur_rdy (s\<lparr>mutexes := g\<rparr>) = cur_rdy s" "cur_rdy (s\<lparr>flags := h\<rparr>) = cur_rdy s"
  "cur_rdy (s\<lparr>TmrRdIx := i\<rparr>) = cur_rdy s" "cur_rdy (s\<lparr>objs := j\<rparr>) = cur_rdy s"
  by (simp_all add: cur_rdy_def)

lemma sys_globals [simp]:
  "sys (s\<lparr>sems := c\<rparr>) R P W = sys s R P W" "sys (s\<lparr>qs := d\<rparr>) R P W = sys s R P W" "sys (s\<lparr>msgs := e\<rparr>) R P W = sys s R P W"
  "sys (s\<lparr>OSMsgPool := f\<rparr>) R P W = sys s R P W" "sys (s\<lparr>mutexes := g\<rparr>) R P W = sys s R P W" "sys (s\<lparr>flags := h\<rparr>) R P W = sys s R P W"
  "sys (s\<lparr>TmrRdIx := i\<rparr>) R P W = sys s R P W"
  by (simp_all add: sys_def)

lemma waiter_globals [simp]: "waiter (s\<lparr>TmrRdIx := i\<rparr>) = waiter s" "waiter (s\<lparr>sems := c\<rparr>) = waiter s" "waiter (s\<lparr>objs := j\<rparr>) = waiter s"
  by (simp_all add: waiter_def fun_eq_iff)

text \<open>Posting to the first \<open>n\<close> waiting tasks, then scheduling where asked to.\<close>

lemma post_sched_ok:
  assumes S: "sys s R P W" and ob: "objs s p = Some b" "p \<noteq> NULL" and once: "distinct (map (waiter s) (P p))" and n: "n \<le> length (P p)"
  shows "\<exists>s1 s' R' P' W'. post_loop n p p_void msg_size ts (PL_HeadPtr (OBJ_PendList b)) s = Some s1 \<and>
    (if sched then OSSched s1 else Some s1) = Some s' \<and> sys s' R' P' W' \<and> P' p = drop n (P p) \<and> (\<forall>o'. set (P' o') \<subseteq> set (P o')) \<and>
    woken_all OS_STATUS_PEND_OK (p_void, msg_size, ts) s (take n (P p)) s1 \<and> sw_frame s1 s' \<and> (sched \<longrightarrow> sched_done s1 R' s')"
proof -
  have K: "kinv s R P W" and c: "cur_rdy s" using S by (simp_all add: sys_def)
  let ?ds = "take n (P p)" let ?es = "drop n (P p)"
  have "P p = ?ds @ ?es" "distinct (map (waiter s) (?ds @ ?es))" "length ?ds = n" using once n by simp_all
  with post_loop_ok [OF K this(1,2) ob(2), of p_void msg_size ts] pend_empty_iff(3) [OF K ob(1)]
  obtain s1 R' P' W' where s1: "post_loop n p p_void msg_size ts (PL_HeadPtr (OBJ_PendList b)) s = Some s1" "kinv s1 R' P' W'"
    "P' p = ?es" "woken_all OS_STATUS_PEND_OK (p_void, msg_size, ts) s ?ds s1" "\<forall>o'. set (P' o') \<subseteq> set (P o')" by auto
  have "cur_rdy s1" by (rule woken_all_cur [OF K c s1(4)]) (rule set_take_subset)
  then have "sys s1 R' P' W'" using s1(2) by (simp add: sys_def)
  from sched_if_ok [OF this, of sched] s1 show ?thesis by blast
qed

lemma abort_sched_ok:
  fixes all :: bool
  assumes S: "sys s R P W" and ob: "p \<in> dom (objs s)" "p \<noteq> NULL" and once: "distinct (map (waiter s) (P p))"
  defines "n \<equiv> (if all then length (P p) else min 1 (length (P p)))"
  shows "\<exists>s1 s' R' P' W'. abort_loop p all ts 0 s = Some (of_nat n, s1) \<and>
    (if sched then OSSched s1 else Some s1) = Some s' \<and> sys s' R' P' W' \<and> P' p = drop n (P p) \<and> (\<forall>o'. set (P' o') \<subseteq> set (P o')) \<and>
    woken_all OS_STATUS_PEND_ABORT (NULL, 0, ts) s (take n (P p)) s1 \<and> sw_frame s1 s' \<and> (sched \<longrightarrow> sched_done s1 R' s')"
proof -
  have K: "kinv s R P W" and c: "cur_rdy s" using S by (simp_all add: sys_def)
  have t: "(if all then P p else take 1 (P p)) = take n (P p)" "(if all then [] else drop 1 (P p)) = drop n (P p)"
    by (auto simp: n_def min_def Suc_le_eq)
  have len: "length (take n (P p)) = n" by (auto simp: n_def)
  from abort_loop_ok [OF K refl once ob(2,1), of all ts 0] obtain s1 R' P' W' where
    s1: "abort_loop p all ts 0 s = Some (of_nat n, s1)" "kinv s1 R' P' W'" "P' p = drop n (P p)"
    "woken_all OS_STATUS_PEND_ABORT (NULL, 0, ts) s (take n (P p)) s1" "\<forall>o'. set (P' o') \<subseteq> set (P o')" unfolding t len by auto
  have "cur_rdy s1" by (rule woken_all_cur [OF K c s1(4)]) (rule set_take_subset)
  then have "sys s1 R' P' W'" using s1(2) by (simp add: sys_def)
  from sched_if_ok [OF this, of sched] s1 show ?thesis by blast
qed

lemma woken_all_globals:
  assumes "woken_all st msg s ds s'"
  shows "sems s' = sems s" "qs s' = qs s" "mutexes s' = mutexes s" "msgs s' = msgs s" "OSMsgPool s' = OSMsgPool s"
    "OSIntNestingCtr s' = OSIntNestingCtr s" "OSSchedLockNestingCtr s' = OSSchedLockNestingCtr s" "OSTCBCurPtr s' = OSTCBCurPtr s"
proof -
  from assms obtain D where "kframe (waiter s ` set ds) D s s'" unfolding woken_all_def by blast
  note g = kframe_globals [OF this]
  show "sems s' = sems s" "qs s' = qs s" "mutexes s' = mutexes s" "msgs s' = msgs s" "OSMsgPool s' = OSMsgPool s"
    "OSIntNestingCtr s' = OSIntNestingCtr s" "OSSchedLockNestingCtr s' = OSSchedLockNestingCtr s" "OSTCBCurPtr s' = OSTCBCurPtr s"
    by (rule g)+
qed

end
