(* ===== verification/OS_Sem.thy ===== *)
theory OS_Sem
  imports OS_Obj
begin

text \<open>
  \<^verbatim>\<open>src/ucosTest/Source/os_sem.c\<close>: counting semaphores.  The common part of a semaphore (type,
  name, pend list, debug links) is in \<open>objs\<close>, its counter and time stamp in \<open>sems\<close>, both at
  the address \<open>p_sem\<close>.  The address of the local variable \<open>pend_data\<close> of a pending call is an
  argument of the model.  \<^verbatim>\<open>OSSemDel\<close> and what only it calls are compiled out by
  \<^verbatim>\<open>OS_CFG_SEM_DEL_EN = 0\<close> and modelled as they are written.
\<close>

definition sem_mod :: "ptr \<Rightarrow> (OS_SEM \<Rightarrow> OS_SEM) \<Rightarrow> os \<Rightarrow> os option" where
  "sem_mod p f s = map_option (\<lambda>h. s\<lparr>sems := h\<rparr>) (mod_at p f (sems s))"

lemma sem_mod_Some [simp]: "sems s p = Some n \<Longrightarrow> sem_mod p f s = Some (s\<lparr>sems := (sems s)(p \<mapsto> f n)\<rparr>)"
  by (simp add: sem_mod_def)

definition OS_SemDbgListAdd :: "ptr \<Rightarrow> os \<Rightarrow> os option" where
  "OS_SemDbgListAdd = dbg_list_add OSSemDbgListPtr (\<lambda>p s. s\<lparr>OSSemDbgListPtr := p\<rparr>)"

definition OS_SemDbgListRemove :: "ptr \<Rightarrow> os \<Rightarrow> os option" where
  "OS_SemDbgListRemove = dbg_list_remove (\<lambda>p s. s\<lparr>OSSemDbgListPtr := p\<rparr>)"

interpretation semdbg: dbg_list OSSemDbgListPtr "\<lambda>p s. s\<lparr>OSSemDbgListPtr := p\<rparr>"
  by unfold_locales simp_all

definition OS_SemInit :: "os \<Rightarrow> OS_ERR \<times> os" where
  "OS_SemInit s = (OS_ERR_NONE, s\<lparr>OSSemDbgListPtr := NULL, OSSemQty := 0\<rparr>)"

definition OSSemCreate :: "ptr \<Rightarrow> string \<Rightarrow> OS_SEM_CTR \<Rightarrow> os \<Rightarrow> (OS_ERR \<times> os) option" where
  "OSSemCreate p_sem p_name cnt s =
     (if OSIntNestingCtr s > 0 then Some (OS_ERR_CREATE_ISR, s)
      else if p_sem = NULL then Some (OS_ERR_OBJ_PTR_NULL, s)
      else do {
        s \<leftarrow> obj_mod p_sem (\<lambda>b. b\<lparr>OBJ_Type := OS_OBJ_TYPE_SEM\<rparr>) s;
        s \<leftarrow> sem_mod p_sem (\<lambda>m. m\<lparr>SEM_Ctr := cnt, SEM_TS := 0\<rparr>) s;
        s \<leftarrow> obj_mod p_sem (\<lambda>b. b\<lparr>OBJ_NamePtr := p_name\<rparr>) s;
        s \<leftarrow> OS_PendListInit p_sem s;
        s \<leftarrow> OS_SemDbgListAdd p_sem s;
        Some (OS_ERR_NONE, s\<lparr>OSSemQty := OSSemQty s + 1\<rparr>)
      })"

definition OS_SemClr :: "ptr \<Rightarrow> os \<Rightarrow> os option" where
  "OS_SemClr p_sem s = do {
     s \<leftarrow> obj_mod p_sem (\<lambda>b. b\<lparr>OBJ_Type := OS_OBJ_TYPE_NONE\<rparr>) s;
     s \<leftarrow> sem_mod p_sem (\<lambda>m. m\<lparr>SEM_Ctr := 0, SEM_TS := 0\<rparr>) s;
     s \<leftarrow> obj_mod p_sem (\<lambda>b. b\<lparr>OBJ_NamePtr := ''?SEM''\<rparr>) s;
     OS_PendListInit p_sem s
   }"

definition OSSemDel :: "ptr \<Rightarrow> OS_OPT \<Rightarrow> os \<Rightarrow> (OS_OBJ_QTY \<times> OS_ERR \<times> os) option" where
  "OSSemDel p_sem opt s =
     (if OSIntNestingCtr s > 0 then Some (0, OS_ERR_DEL_ISR, s)
      else if p_sem = NULL then Some (0, OS_ERR_OBJ_PTR_NULL, s)
      else if opt \<notin> {OS_OPT_DEL_NO_PEND, OS_OPT_DEL_ALWAYS} then Some (0, OS_ERR_OPT_INVALID, s)
      else do {
        ob \<leftarrow> objs s p_sem;
        if OBJ_Type ob \<noteq> OS_OBJ_TYPE_SEM then Some (0, OS_ERR_OBJ_TYPE, s)
        else do {
          let nbr_tasks = PL_NbrEntries (OBJ_PendList ob);
          if opt = OS_OPT_DEL_NO_PEND then
            if nbr_tasks = 0 then do {
              s \<leftarrow> OS_SemDbgListRemove p_sem s;
              s \<leftarrow> OS_SemClr p_sem (s\<lparr>OSSemQty := OSSemQty s - 1\<rparr>);
              Some (nbr_tasks, OS_ERR_NONE, s)
            } else Some (nbr_tasks, OS_ERR_TASK_WAITING, s)
          else do {
            let (ts, s) = OS_TS_GET s;
            s \<leftarrow> del_loop (unat nbr_tasks) p_sem ts s;
            s \<leftarrow> OS_SemDbgListRemove p_sem s;
            s \<leftarrow> OS_SemClr p_sem (s\<lparr>OSSemQty := OSSemQty s - 1\<rparr>);
            s \<leftarrow> OSSched s;
            Some (nbr_tasks, OS_ERR_NONE, s)
          }
        }
      })"

definition OSSemPend :: "ptr \<Rightarrow> ptr \<Rightarrow> OS_TICK \<Rightarrow> OS_OPT \<Rightarrow> bool \<Rightarrow> os \<Rightarrow>
    ((OS_SEM_CTR \<times> CPU_TS option \<times> OS_ERR) call \<times> os) option" where
  "OSSemPend pend_data p_sem timeout opt p_ts s =
     (if OSIntNestingCtr s > 0 then Some (Done (0, None, OS_ERR_PEND_ISR), s)
      else if p_sem = NULL then Some (Done (0, None, OS_ERR_OBJ_PTR_NULL), s)
      else if opt \<notin> {OS_OPT_PEND_BLOCKING, OS_OPT_PEND_NON_BLOCKING} then Some (Done (0, None, OS_ERR_OPT_INVALID), s)
      else do {
        ob \<leftarrow> objs s p_sem;
        if OBJ_Type ob \<noteq> OS_OBJ_TYPE_SEM then Some (Done (0, None, OS_ERR_OBJ_TYPE), s)
        else do {
          sem \<leftarrow> sems s p_sem;
          if SEM_Ctr sem > 0 then do {
            s \<leftarrow> sem_mod p_sem (\<lambda>m. m\<lparr>SEM_Ctr := SEM_Ctr m - 1\<rparr>) s;
            Some (Done (SEM_Ctr sem - 1, ts_out p_ts (SEM_TS sem), OS_ERR_NONE), s)
          } else if opt AND OS_OPT_PEND_NON_BLOCKING \<noteq> 0
            then Some (Done (SEM_Ctr sem, ts_out p_ts 0, OS_ERR_PEND_WOULD_BLOCK), s)
          else if OSSchedLockNestingCtr s > 0 then Some (Done (0, ts_out p_ts 0, OS_ERR_SCHED_LOCKED), s)
          else do {
            s \<leftarrow> OS_Pend pend_data p_sem OS_TASK_PEND_ON_SEM timeout s;
            s \<leftarrow> OSSched s;
            Some (Blocked, s)
          }
        }
      })"

definition OSSemPend_resume :: "ptr \<Rightarrow> bool \<Rightarrow> os \<Rightarrow> (OS_SEM_CTR \<times> CPU_TS option \<times> OS_ERR) option" where
  "OSSemPend_resume p_sem p_ts s = do {
     tcb \<leftarrow> tcbs s (OSTCBCurPtr s);
     if pend_err (TCB_PendStatus tcb) = OS_ERR_STATUS_INVALID then Some (0, ts_out p_ts 0, OS_ERR_STATUS_INVALID)
     else do {
       sem \<leftarrow> sems s p_sem;
       Some (SEM_Ctr sem, ts_out p_ts (pend_ts tcb), pend_err (TCB_PendStatus tcb))
     }
   }"

definition OSSemPendAbort :: "ptr \<Rightarrow> OS_OPT \<Rightarrow> os \<Rightarrow> (OS_OBJ_QTY \<times> OS_ERR \<times> os) option" where
  "OSSemPendAbort p_sem opt s =
     (if OSIntNestingCtr s > 0 then Some (0, OS_ERR_PEND_ABORT_ISR, s)
      else if p_sem = NULL then Some (0, OS_ERR_OBJ_PTR_NULL, s)
      else if opt \<notin> {OS_OPT_PEND_ABORT_1, OS_OPT_PEND_ABORT_ALL, OS_OPT_PEND_ABORT_1 OR OS_OPT_POST_NO_SCHED,
                     OS_OPT_PEND_ABORT_ALL OR OS_OPT_POST_NO_SCHED} then Some (0, OS_ERR_OPT_INVALID, s)
      else do {
        ob \<leftarrow> objs s p_sem;
        if OBJ_Type ob \<noteq> OS_OBJ_TYPE_SEM then Some (0, OS_ERR_OBJ_TYPE, s)
        else if PL_NbrEntries (OBJ_PendList ob) = 0 then Some (0, OS_ERR_PEND_ABORT_NONE, s)
        else do {
          let (ts, s) = OS_TS_GET s;
          (nbr_tasks, s) \<leftarrow> abort_loop p_sem (opt = OS_OPT_PEND_ABORT_ALL) ts 0 s;
          s \<leftarrow> (if opt AND OS_OPT_POST_NO_SCHED = 0 then OSSched s else Some s);
          Some (nbr_tasks, OS_ERR_NONE, s)
        }
      })"

definition OS_SemPost :: "ptr \<Rightarrow> OS_OPT \<Rightarrow> CPU_TS \<Rightarrow> os \<Rightarrow> (OS_SEM_CTR \<times> OS_ERR \<times> os) option" where
  "OS_SemPost p_sem opt ts s = do {
     ob \<leftarrow> objs s p_sem;
     sem \<leftarrow> sems s p_sem;
     if PL_NbrEntries (OBJ_PendList ob) = 0 then
       if SEM_Ctr sem = - 1 then Some (0, OS_ERR_SEM_OVF, s)
       else do {
         s \<leftarrow> sem_mod p_sem (\<lambda>m. m\<lparr>SEM_Ctr := SEM_Ctr m + 1, SEM_TS := ts\<rparr>) s;
         Some (SEM_Ctr sem + 1, OS_ERR_NONE, s)
       }
     else do {
       let cnt = (if opt AND OS_OPT_POST_ALL \<noteq> 0 then PL_NbrEntries (OBJ_PendList ob) else 1);
       s \<leftarrow> post_loop (unat cnt) p_sem NULL 0 ts (PL_HeadPtr (OBJ_PendList ob)) s;
       sem \<leftarrow> sems s p_sem;
       s \<leftarrow> (if opt AND OS_OPT_POST_NO_SCHED = 0 then OSSched s else Some s);
       Some (SEM_Ctr sem, OS_ERR_NONE, s)
     }
   }"

definition OSSemPost :: "ptr \<Rightarrow> OS_OPT \<Rightarrow> os \<Rightarrow> (OS_SEM_CTR \<times> OS_ERR \<times> os) option" where
  "OSSemPost p_sem opt s =
     (if p_sem = NULL then Some (0, OS_ERR_OBJ_PTR_NULL, s)
      else if opt \<notin> {OS_OPT_POST_1, OS_OPT_POST_ALL, OS_OPT_POST_1 OR OS_OPT_POST_NO_SCHED, OS_OPT_POST_ALL OR OS_OPT_POST_NO_SCHED}
        then Some (0, OS_ERR_OPT_INVALID, s)
      else do {
        ob \<leftarrow> objs s p_sem;
        if OBJ_Type ob \<noteq> OS_OBJ_TYPE_SEM then Some (0, OS_ERR_OBJ_TYPE, s)
        else let (ts, s) = OS_TS_GET s in OS_SemPost p_sem opt ts s
      })"

definition OSSemSet :: "ptr \<Rightarrow> OS_SEM_CTR \<Rightarrow> os \<Rightarrow> (OS_ERR \<times> os) option" where
  "OSSemSet p_sem cnt s =
     (if OSIntNestingCtr s > 0 then Some (OS_ERR_SET_ISR, s)
      else if p_sem = NULL then Some (OS_ERR_OBJ_PTR_NULL, s)
      else do {
        ob \<leftarrow> objs s p_sem;
        if OBJ_Type ob \<noteq> OS_OBJ_TYPE_SEM then Some (OS_ERR_OBJ_TYPE, s)
        else do {
          sem \<leftarrow> sems s p_sem;
          if SEM_Ctr sem > 0 \<or> PL_NbrEntries (OBJ_PendList ob) = 0 then do {
            s \<leftarrow> sem_mod p_sem (\<lambda>m. m\<lparr>SEM_Ctr := cnt\<rparr>) s;
            Some (OS_ERR_NONE, s)
          } else Some (OS_ERR_TASK_WAITING, s)
        }
      })"

subsection \<open>The semaphore invariant\<close>

text \<open>No task waits on a semaphore whose counter is positive.\<close>

definition sem_inv :: "os \<Rightarrow> (ptr \<Rightarrow> ptr list) \<Rightarrow> bool" where
  "sem_inv s P \<longleftrightarrow> (\<forall>p m. sems s p = Some m \<longrightarrow> SEM_Ctr m > 0 \<longrightarrow> P p = [])"

lemma sem_inv_shrink: "sem_inv s P \<Longrightarrow> (\<forall>q. set (P' q) \<subseteq> set (P q)) \<Longrightarrow> sems s' = sems s \<Longrightarrow> sem_inv s' P'"
  unfolding sem_inv_def by (metis list.set(1) set_empty subset_empty)

lemma sem_inv_upd: "sem_inv s P \<Longrightarrow> (SEM_Ctr m' > 0 \<Longrightarrow> P p = []) \<Longrightarrow> sem_inv (s\<lparr>sems := (sems s)(p \<mapsto> m')\<rparr>) P"
  by (auto simp: sem_inv_def)

lemma sem_inv_globals [simp]: "sem_inv (s\<lparr>TmrRdIx := i\<rparr>) P = sem_inv s P"
  by (simp add: sem_inv_def)

text \<open>A semaphore ready for use at an address.\<close>

definition sem_at :: "os \<Rightarrow> ptr \<Rightarrow> OS_SEM \<Rightarrow> bool" where
  "sem_at s p m \<longleftrightarrow> p \<noteq> NULL \<and> sems s p = Some m \<and> (\<exists>b. objs s p = Some b \<and> OBJ_Type b = OS_OBJ_TYPE_SEM)"

definition post_opts :: "OS_OPT set" where
  "post_opts = {OS_OPT_POST_1, OS_OPT_POST_ALL, OS_OPT_POST_1 OR OS_OPT_POST_NO_SCHED, OS_OPT_POST_ALL OR OS_OPT_POST_NO_SCHED}"

lemma OSSemPost_free:
  assumes S: "sys s R P W" and m: "sem_at s p m" and P: "P p = []" and opt: "opt \<in> post_opts"
  shows "OSSemPost p opt s = Some (if SEM_Ctr m = - 1 then (0, OS_ERR_SEM_OVF, snd (OS_TS_GET s))
    else (SEM_Ctr m + 1, OS_ERR_NONE, (snd (OS_TS_GET s))\<lparr>sems := (sems s)(p \<mapsto> m\<lparr>SEM_Ctr := SEM_Ctr m + 1, SEM_TS := fst (OS_TS_GET s)\<rparr>)\<rparr>))"
proof -
  from m obtain b where b: "p \<noteq> NULL" "sems s p = Some m" "objs s p = Some b" "OBJ_Type b = OS_OBJ_TYPE_SEM" by (auto simp: sem_at_def)
  have "PL_NbrEntries (OBJ_PendList b) = 0" using pend_empty_iff(1) [OF _ b(3)] S P by (auto simp: sys_def)
  with b opt show ?thesis by (simp add: OSSemPost_def OS_SemPost_def OS_TS_GET_def post_opts_def)
qed

lemma OSSemPost_wakes:
  assumes S: "sys s R P W" and m: "sem_at s p m" and P: "P p \<noteq> []" and once: "distinct (map (waiter s) (P p))" and opt: "opt \<in> post_opts"
  defines "n \<equiv> (if opt AND OS_OPT_POST_ALL \<noteq> 0 then length (P p) else 1)"
  shows "\<exists>s1 s' R' P' W'. OSSemPost p opt s = Some (SEM_Ctr m, OS_ERR_NONE, s') \<and> sys s' R' P' W' \<and> P' p = drop n (P p) \<and>
    (\<forall>q. set (P' q) \<subseteq> set (P q)) \<and> sems s' = sems s \<and> sw_frame s1 s' \<and>
    woken_all OS_STATUS_PEND_OK (NULL, 0, fst (OS_TS_GET s)) (snd (OS_TS_GET s)) (take n (P p)) s1 \<and>
    (opt AND OS_OPT_POST_NO_SCHED = 0 \<longrightarrow> sched_done s1 R' s')"
proof -
  from m obtain b where b: "p \<noteq> NULL" "sems s p = Some m" "objs s p = Some b" "OBJ_Type b = OS_OBJ_TYPE_SEM" by (auto simp: sem_at_def)
  let ?s0 = "snd (OS_TS_GET s)" and ?ts = "fst (OS_TS_GET s)"
  have g: "sys ?s0 R P W" "objs ?s0 p = Some b" "waiter ?s0 = waiter s" "sems ?s0 = sems s" using S b(3) by (simp_all add: OS_TS_GET_def)
  have n: "n \<le> length (P p)" using P by (cases "P p") (auto simp: n_def)
  from post_sched_ok [OF g(1,2) b(1) _ n, of NULL 0 ?ts "opt AND OS_OPT_POST_NO_SCHED = 0"] once g(3)
  obtain s1 s' R' P' W' where s1: "post_loop n p NULL 0 ?ts (PL_HeadPtr (OBJ_PendList b)) ?s0 = Some s1"
    "(if opt AND OS_OPT_POST_NO_SCHED = 0 then OSSched s1 else Some s1) = Some s'" "sys s' R' P' W'" "P' p = drop n (P p)"
    "\<forall>q. set (P' q) \<subseteq> set (P q)" "woken_all OS_STATUS_PEND_OK (NULL, 0, ?ts) ?s0 (take n (P p)) s1" "sw_frame s1 s'"
    "opt AND OS_OPT_POST_NO_SCHED = 0 \<longrightarrow> sched_done s1 R' s'" by auto
  have K: "kinv s R P W" using S by (simp add: sys_def)
  have ne: "PL_NbrEntries (OBJ_PendList b) \<noteq> 0" using pend_empty_iff(1) [OF K b(3)] P by simp
  have c: "unat (if opt AND OS_OPT_POST_ALL \<noteq> 0 then PL_NbrEntries (OBJ_PendList b) else 1) = n"
    unfolding n_def by (rule post_count [OF K b(3) P])
  have sm: "sems s1 = sems s" "sems s' = sems s" using woken_all_globals(1) [OF s1(6)] sw_frame_globals(3) [OF s1(7)] g(4) by simp_all
  have "OS_SemPost p opt ?ts ?s0 = Some (SEM_Ctr m, OS_ERR_NONE, s')"
    unfolding OS_SemPost_def Let_def using g(2,4) b(2) ne s1(1,2) sm(1) by (simp add: c)
  then have "OSSemPost p opt s = Some (SEM_Ctr m, OS_ERR_NONE, s')"
    using b opt by (simp add: OSSemPost_def post_opts_def case_prod_unfold)
  with s1 sm show ?thesis by blast
qed

lemma OSSemPend_takes:
  assumes "sem_at s p m" "SEM_Ctr m > 0" "OSIntNestingCtr s = 0" "opt \<in> {OS_OPT_PEND_BLOCKING, OS_OPT_PEND_NON_BLOCKING}"
  shows "OSSemPend d p timeout opt p_ts s = Some (Done (SEM_Ctr m - 1, ts_out p_ts (SEM_TS m), OS_ERR_NONE),
    s\<lparr>sems := (sems s)(p \<mapsto> m\<lparr>SEM_Ctr := SEM_Ctr m - 1\<rparr>)\<rparr>)"
  using assms by (auto simp: OSSemPend_def sem_at_def)

lemma OSSemPend_blocks:
  assumes S: "sys s R P W" and m: "sem_at s p m" "SEM_Ctr m = 0" and n: "OSIntNestingCtr s = 0" "OSSchedLockNestingCtr s = 0"
    and o: "y \<in> set (R q)" "y \<noteq> OSTCBCurPtr s" and d: "d \<in> dom (pds s)" "d \<noteq> NULL" "\<And>ob. d \<notin> set (P ob)"
  shows "\<exists>s1 s' R'. OSSemPend d p timeout OS_OPT_PEND_BLOCKING p_ts s = Some (Blocked, s') \<and>
    blocked s R P W (OSTCBCurPtr s) d p OS_TASK_PEND_ON_SEM timeout s1 \<and> sw_frame s1 s' \<and> sems s' = sems s \<and>
    sys s' R' (P(p := prio_insert (pd_prio s1) d (P p))) (tick_block s (OSTCBCurPtr s) timeout s1 W) \<and>
    (\<forall>p. R' p = remove1 (OSTCBCurPtr s) (R p)) \<and> OSTCBCurPtr s' = top_task R' \<and> OSTCBCurPtr s' \<noteq> OSTCBCurPtr s"
proof -
  from m(1) obtain b where b: "p \<noteq> NULL" "sems s p = Some m" "objs s p = Some b" "OBJ_Type b = OS_OBJ_TYPE_SEM" by (auto simp: sem_at_def)
  from pend_sched_ok [OF S n o, of p d OS_TASK_PEND_ON_SEM timeout] b(1,3) d obtain s1 s2 R' where
    s1: "OS_Pend d p OS_TASK_PEND_ON_SEM timeout s = Some s1" "OSSched s1 = Some s2"
    "blocked s R P W (OSTCBCurPtr s) d p OS_TASK_PEND_ON_SEM timeout s1" "sw_frame s1 s2"
    "sys s2 R' (pend_block s1 p d P) (tick_block s (OSTCBCurPtr s) timeout s1 W)" "\<forall>p. R' p = remove1 (OSTCBCurPtr s) (R p)"
    "OSTCBCurPtr s2 = top_task R'" "OSTCBCurPtr s2 \<noteq> OSTCBCurPtr s" by blast
  from s1(3) have "sems s1 = sems s" unfolding blocked_def using kframe_globals(1) by blast
  then have "sems s2 = sems s" using sw_frame_globals(3) [OF s1(4)] by simp
  moreover have "OSSemPend d p timeout OS_OPT_PEND_BLOCKING p_ts s = Some (Blocked, s2)"
    using b m(2) n s1(1,2) by (simp add: OSSemPend_def)
  ultimately show ?thesis using s1 b(1) unfolding pend_block_def by auto
qed

lemma OSSemPendAbort_ok:
  assumes S: "sys s R P W" and m: "sem_at s p m" and n0: "OSIntNestingCtr s = 0" and once: "distinct (map (waiter s) (P p))" and P: "P p \<noteq> []"
    and opt: "opt \<in> {OS_OPT_PEND_ABORT_1, OS_OPT_PEND_ABORT_ALL, OS_OPT_PEND_ABORT_1 OR OS_OPT_POST_NO_SCHED, OS_OPT_PEND_ABORT_ALL OR OS_OPT_POST_NO_SCHED}"
  defines "n \<equiv> (if opt = OS_OPT_PEND_ABORT_ALL then length (P p) else 1)"
  shows "\<exists>s1 s' R' P' W'. OSSemPendAbort p opt s = Some (of_nat n, OS_ERR_NONE, s') \<and> sys s' R' P' W' \<and> P' p = drop n (P p) \<and>
    (\<forall>q. set (P' q) \<subseteq> set (P q)) \<and> sems s' = sems s \<and> sw_frame s1 s' \<and>
    woken_all OS_STATUS_PEND_ABORT (NULL, 0, fst (OS_TS_GET s)) (snd (OS_TS_GET s)) (take n (P p)) s1"
proof -
  from m obtain b where b: "p \<noteq> NULL" "sems s p = Some m" "objs s p = Some b" "OBJ_Type b = OS_OBJ_TYPE_SEM" by (auto simp: sem_at_def)
  let ?s0 = "snd (OS_TS_GET s)" and ?ts = "fst (OS_TS_GET s)"
  have g: "sys ?s0 R P W" "p \<in> dom (objs ?s0)" "waiter ?s0 = waiter s" "sems ?s0 = sems s" using S b(3) by (auto simp: OS_TS_GET_def)
  have n: "(if opt = OS_OPT_PEND_ABORT_ALL then length (P p) else min 1 (length (P p))) = n" using P by (cases "P p") (auto simp: n_def)
  from abort_sched_ok [OF g(1,2) b(1), of "opt = OS_OPT_PEND_ABORT_ALL" ?ts "opt AND OS_OPT_POST_NO_SCHED = 0"] once g(3)
  obtain s1 s' R' P' W' where s1: "abort_loop p (opt = OS_OPT_PEND_ABORT_ALL) ?ts 0 ?s0 = Some (of_nat n, s1)"
    "(if opt AND OS_OPT_POST_NO_SCHED = 0 then OSSched s1 else Some s1) = Some s'" "sys s' R' P' W'" "P' p = drop n (P p)"
    "\<forall>q. set (P' q) \<subseteq> set (P q)" "woken_all OS_STATUS_PEND_ABORT (NULL, 0, ?ts) ?s0 (take n (P p)) s1" "sw_frame s1 s'"
    unfolding n by auto
  have "PL_NbrEntries (OBJ_PendList b) \<noteq> 0" using pend_empty_iff(1) [OF _ b(3)] S P by (auto simp: sys_def)
  then have "OSSemPendAbort p opt s = Some (of_nat n, OS_ERR_NONE, s')"
    unfolding OSSemPendAbort_def using b opt n0 s1(1,2) by (cases "opt AND OS_OPT_POST_NO_SCHED = 0") (simp_all add: case_prod_unfold)
  moreover have "sems s' = sems s" using woken_all_globals(1) [OF s1(6)] sw_frame_globals(3) [OF s1(7)] g(4) by simp
  ultimately show ?thesis using s1 by blast
qed

subsection \<open>Creation and deletion\<close>

lemma OSSemCreate_ok:
  assumes S: "sys s R P W" and n: "OSIntNestingCtr s = 0" and p: "p \<noteq> NULL" "objs s p = Some b" "sems s p = Some m" and P: "P p = []"
    and D: "semdbg.dbg_rel s xs" "p \<notin> set xs"
  shows "\<exists>s'. OSSemCreate p name cnt s = Some (OS_ERR_NONE, s') \<and> sys s' R P W \<and> sem_at s' p \<lparr>SEM_Ctr = cnt, SEM_TS = 0\<rparr> \<and>
    semdbg.dbg_rel s' (p # xs) \<and> OSSemQty s' = OSSemQty s + 1"
proof -
  have K: "kinv s R P W" using S by (simp add: sys_def)
  note e = pend_empty_list [OF K p(2) P]
  let ?b = "b\<lparr>OBJ_Type := OS_OBJ_TYPE_SEM, OBJ_NamePtr := name, OBJ_PendList := \<lparr>PL_HeadPtr = NULL, PL_TailPtr = NULL, PL_NbrEntries = 0\<rparr>\<rparr>"
  let ?s = "s\<lparr>sems := (sems s)(p \<mapsto> \<lparr>SEM_Ctr = cnt, SEM_TS = 0\<rparr>), objs := (objs s)(p \<mapsto> ?b)\<rparr>"
  have "semdbg.dbg_rel ?s xs" using D p(2) unfolding semdbg.dbg_rel_def by simp
  from semdbg.add_ok [OF this _ p(1) D(2), of ?b] obtain h where
    h: "OS_SemDbgListAdd p ?s = Some (?s\<lparr>objs := h, OSSemDbgListPtr := p\<rparr>)"
    "semdbg.dbg_rel (?s\<lparr>objs := h, OSSemDbgListPtr := p\<rparr>) (p # xs)" "same_objs (objs ?s) h" unfolding OS_SemDbgListAdd_def by auto
  let ?s' = "?s\<lparr>objs := h, OSSemDbgListPtr := p, OSSemQty := OSSemQty s + 1\<rparr>"
  have m: "m\<lparr>SEM_Ctr := cnt, SEM_TS := 0\<rparr> = \<lparr>SEM_Ctr = cnt, SEM_TS = 0\<rparr>" by (cases m) simp
  have l: "OBJ_PendList b\<lparr>PL_HeadPtr := NULL, PL_TailPtr := NULL, PL_NbrEntries := 0\<rparr> = \<lparr>PL_HeadPtr = NULL, PL_TailPtr = NULL, PL_NbrEntries = 0\<rparr>"
    by (cases "OBJ_PendList b") simp
  have "OSSemCreate p name cnt s = OS_SemDbgListAdd p (s\<lparr>sems := (sems s)(p \<mapsto> m\<lparr>SEM_Ctr := cnt, SEM_TS := 0\<rparr>), objs := (objs s)(p \<mapsto>
      b\<lparr>OBJ_Type := OS_OBJ_TYPE_SEM, OBJ_NamePtr := name, OBJ_PendList := OBJ_PendList b\<lparr>PL_HeadPtr := NULL, PL_TailPtr := NULL, PL_NbrEntries := 0\<rparr>\<rparr>)\<rparr>)
      \<bind> (\<lambda>s. Some (OS_ERR_NONE, s\<lparr>OSSemQty := OSSemQty s + 1\<rparr>))"
    using n p by (simp add: OSSemCreate_def OS_PendListInit_def)
  then have "OSSemCreate p name cnt s = Some (OS_ERR_NONE, ?s')" unfolding m l h(1) by simp
  moreover have "map_option OBJ_PendList (h x) = map_option OBJ_PendList (objs s x)" for x
    using same_objs_pend [OF h(3), of x] p(2) e by simp
  then have "kinv (s\<lparr>objs := h\<rparr>) R P W" using kinv_objs K by blast
  then have "kinv ?s' R P W" using kinv_cong [of ?s' "s\<lparr>objs := h\<rparr>" R P W] by simp
  moreover have "cur_rdy ?s'" using S by (simp add: sys_def cur_rdy_def)
  moreover have "sem_at ?s' p \<lparr>SEM_Ctr = cnt, SEM_TS = 0\<rparr>"
  proof -
    have "objs ?s p = Some ?b" by simp
    from same_objsD [OF h(3) this] obtain b' where "h p = Some b'" "OBJ_Type b' = OS_OBJ_TYPE_SEM" by auto
    then show ?thesis using p(1) by (simp add: sem_at_def)
  qed
  moreover have "semdbg.dbg_rel ?s' (p # xs)" using h(2) by (simp add: semdbg.dbg_rel_def)
  ultimately show ?thesis by (intro exI [of _ ?s']) (simp add: sys_def)
qed

lemma OSSemSet_ok:
  assumes S: "sys s R P W" and m: "sem_at s p m" and n: "OSIntNestingCtr s = 0" and I: "sem_inv s P"
  shows "OSSemSet p cnt s = Some (if P p = [] then (OS_ERR_NONE, s\<lparr>sems := (sems s)(p \<mapsto> m\<lparr>SEM_Ctr := cnt\<rparr>)\<rparr>) else (OS_ERR_TASK_WAITING, s))"
proof -
  from m obtain b where b: "p \<noteq> NULL" "sems s p = Some m" "objs s p = Some b" "OBJ_Type b = OS_OBJ_TYPE_SEM" by (auto simp: sem_at_def)
  have "PL_NbrEntries (OBJ_PendList b) = 0 \<longleftrightarrow> P p = []" using pend_empty_iff(1) [OF _ b(3)] S by (auto simp: sys_def)
  moreover have "SEM_Ctr m > 0 \<Longrightarrow> P p = []" using I b(2) by (simp add: sem_inv_def)
  ultimately show ?thesis using b n by (simp add: OSSemSet_def)
qed

end
