(* ===== verification/OS_Msg.thy ===== *)
theory OS_Msg
  imports OS_Types
begin

text \<open>
  \<^verbatim>\<open>src/ucosTest/Source/os_msg.c\<close>: the pool of message nodes and the message queues made of
  them.  A queue header \<^verbatim>\<open>OS_MSG_Q\<close> is a member of a queue object or of a task control block;
  the routines take its value and return the changed value, which the caller stores back.

  The code never clears the link of a message put into an empty queue: it still leads into the
  pool.  The number of entries alone says where a queue ends, and so does the abstraction, a
  sequence of nodes of that length.
\<close>

subsection \<open>The pool\<close>

primrec msg_pool_loop :: "nat \<Rightarrow> ptr \<Rightarrow> os \<Rightarrow> os option" where
  "msg_pool_loop 0 p_msg1 s = Some s"
| "msg_pool_loop (Suc n) p_msg1 s = do {
     s \<leftarrow> msg_mod p_msg1 (\<lambda>m. m\<lparr>MSG_NextPtr := p_msg1 + 1, MSG_MsgPtr := NULL, MSG_MsgSize := 0, MSG_MsgTS := 0\<rparr>) s;
     msg_pool_loop n (p_msg1 + 1) s
   }"

definition OS_MsgPoolCreate :: "ptr \<Rightarrow> OS_MSG_QTY \<Rightarrow> os \<Rightarrow> os option" where
  "OS_MsgPoolCreate p_msg sz s = do {
     let loops = unat (sz - 1);
     s \<leftarrow> msg_pool_loop loops p_msg s;
     msg_mod (p_msg + loops) (\<lambda>m. m\<lparr>MSG_NextPtr := NULL, MSG_MsgPtr := NULL, MSG_MsgSize := 0, MSG_MsgTS := 0\<rparr>) s
   }"

text \<open>The base address and the size of the pool (\<^verbatim>\<open>OSCfg_MsgPoolBasePtr\<close>, \<^verbatim>\<open>OSCfg_MsgPoolSize\<close>) are
  arguments.\<close>

definition OS_MsgPoolInit :: "ptr \<Rightarrow> OS_MSG_QTY \<Rightarrow> os \<Rightarrow> (OS_ERR \<times> os) option" where
  "OS_MsgPoolInit base sz s =
     (if base = NULL then Some (OS_ERR_MSG_POOL_NULL_PTR, s)
      else if sz = 0 then Some (OS_ERR_MSG_POOL_EMPTY, s)
      else do {
        s \<leftarrow> OS_MsgPoolCreate base sz s;
        Some (OS_ERR_NONE, s\<lparr>OSMsgPool := \<lparr>POOL_NextPtr = base, POOL_NbrFree = sz, POOL_NbrUsed = 0, POOL_NbrUsedMax = 0\<rparr>\<rparr>)
      })"

subsection \<open>Queues\<close>

definition OS_MsgQInit :: "OS_MSG_QTY \<Rightarrow> OS_MSG_Q" where
  "OS_MsgQInit sz = \<lparr>MQ_InPtr = NULL, MQ_OutPtr = NULL, MQ_NbrEntriesSize = sz, MQ_NbrEntries = 0, MQ_NbrEntriesMax = 0\<rparr>"

definition OS_MsgQFreeAll :: "OS_MSG_Q \<Rightarrow> os \<Rightarrow> (OS_MSG_QTY \<times> OS_MSG_Q \<times> os) option" where
  "OS_MsgQFreeAll q s =
     (let qty = MQ_NbrEntries q
      in if MQ_NbrEntries q > 0 then do {
           s \<leftarrow> msg_mod (MQ_InPtr q) (\<lambda>m. m\<lparr>MSG_NextPtr := POOL_NextPtr (OSMsgPool s)\<rparr>) s;
           let pool = OSMsgPool s;
           let s = s\<lparr>OSMsgPool := pool\<lparr>POOL_NextPtr := MQ_OutPtr q, POOL_NbrUsed := POOL_NbrUsed pool - MQ_NbrEntries q,
                       POOL_NbrFree := POOL_NbrFree pool + MQ_NbrEntries q\<rparr>\<rparr>;
           Some (qty, q\<lparr>MQ_NbrEntries := 0, MQ_NbrEntriesMax := 0, MQ_InPtr := NULL, MQ_OutPtr := NULL\<rparr>, s)
         } else Some (qty, q, s))"

text \<open>The result: the message pointer, its size, its time stamp (written through \<open>p_ts\<close> where that
  is not null), the error, the queue and the state.\<close>

definition OS_MsgQGet :: "OS_MSG_Q \<Rightarrow> os \<Rightarrow> (ptr \<times> OS_MSG_SIZE \<times> CPU_TS \<times> OS_ERR \<times> OS_MSG_Q \<times> os) option" where
  "OS_MsgQGet q s =
     (if MQ_NbrEntries q = 0 then Some (NULL, 0, 0, OS_ERR_Q_EMPTY, q, s)
      else do {
        let p_msg = MQ_OutPtr q;
        m \<leftarrow> msgs s p_msg;
        let q = q\<lparr>MQ_OutPtr := MSG_NextPtr m\<rparr>;
        let q = (if MQ_OutPtr q = NULL then q\<lparr>MQ_InPtr := NULL, MQ_NbrEntries := 0\<rparr>
                 else q\<lparr>MQ_NbrEntries := MQ_NbrEntries q - 1\<rparr>);
        let pool = OSMsgPool s;
        s \<leftarrow> msg_mod p_msg (\<lambda>m. m\<lparr>MSG_NextPtr := POOL_NextPtr pool\<rparr>) s;
        let s = s\<lparr>OSMsgPool := pool\<lparr>POOL_NextPtr := p_msg, POOL_NbrFree := POOL_NbrFree pool + 1, POOL_NbrUsed := POOL_NbrUsed pool - 1\<rparr>\<rparr>;
        Some (MSG_MsgPtr m, MSG_MsgSize m, MSG_MsgTS m, OS_ERR_NONE, q, s)
      })"

definition OS_MsgQPut :: "OS_MSG_Q \<Rightarrow> ptr \<Rightarrow> OS_MSG_SIZE \<Rightarrow> OS_OPT \<Rightarrow> CPU_TS \<Rightarrow> os \<Rightarrow> (OS_ERR \<times> OS_MSG_Q \<times> os) option" where
  "OS_MsgQPut q p_void msg_size opt ts s =
     (if MQ_NbrEntries q \<ge> MQ_NbrEntriesSize q then Some (OS_ERR_Q_MAX, q, s)
      else if POOL_NbrFree (OSMsgPool s) = 0 then Some (OS_ERR_MSG_POOL_EMPTY, q, s)
      else do {
        let pool = OSMsgPool s;
        let p_msg = POOL_NextPtr pool;
        m \<leftarrow> msgs s p_msg;
        let pool = pool\<lparr>POOL_NextPtr := MSG_NextPtr m, POOL_NbrFree := POOL_NbrFree pool - 1, POOL_NbrUsed := POOL_NbrUsed pool + 1\<rparr>;
        let pool = (if POOL_NbrUsedMax pool < POOL_NbrUsed pool then pool\<lparr>POOL_NbrUsedMax := POOL_NbrUsed pool\<rparr> else pool);
        let s = s\<lparr>OSMsgPool := pool\<rparr>;
        (q, s) \<leftarrow> (if MQ_NbrEntries q = 0 then Some (q\<lparr>MQ_InPtr := p_msg, MQ_OutPtr := p_msg, MQ_NbrEntries := 1\<rparr>, s)
                  else do {
                    (q, s) \<leftarrow> (if opt AND OS_OPT_POST_LIFO = OS_OPT_POST_FIFO then do {
                                s \<leftarrow> msg_mod (MQ_InPtr q) (\<lambda>m. m\<lparr>MSG_NextPtr := p_msg\<rparr>) s;
                                s \<leftarrow> msg_mod p_msg (\<lambda>m. m\<lparr>MSG_NextPtr := NULL\<rparr>) s;
                                Some (q\<lparr>MQ_InPtr := p_msg\<rparr>, s)
                              } else do {
                                s \<leftarrow> msg_mod p_msg (\<lambda>m. m\<lparr>MSG_NextPtr := MQ_OutPtr q\<rparr>) s;
                                Some (q\<lparr>MQ_OutPtr := p_msg\<rparr>, s)
                              });
                    Some (q\<lparr>MQ_NbrEntries := MQ_NbrEntries q + 1\<rparr>, s)
                  });
        let q = (if MQ_NbrEntriesMax q < MQ_NbrEntries q then q\<lparr>MQ_NbrEntriesMax := MQ_NbrEntries q\<rparr> else q);
        s \<leftarrow> msg_mod p_msg (\<lambda>m. m\<lparr>MSG_MsgPtr := p_void, MSG_MsgSize := msg_size, MSG_MsgTS := ts\<rparr>) s;
        Some (OS_ERR_NONE, q, s)
      })"

subsection \<open>The abstraction: sequences of nodes\<close>

text \<open>The pool holds the free nodes \<open>F\<close>, out of \<open>N\<close> nodes in all.\<close>

definition pool_ok :: "os \<Rightarrow> nat \<Rightarrow> ptr list \<Rightarrow> bool" where
  "pool_ok s N F \<longleftrightarrow> unat (POOL_NbrFree (OSMsgPool s)) = length F \<and> unat (POOL_NbrUsed (OSMsgPool s)) + length F = N \<and> N < 65536 \<and>
     (\<exists>e. path (fld MSG_NextPtr (msgs s)) (POOL_NextPtr (OSMsgPool s)) F e)"

definition msgq_ok :: "os \<Rightarrow> OS_MSG_Q \<Rightarrow> ptr list \<Rightarrow> bool" where
  "msgq_ok s q xs \<longleftrightarrow> unat (MQ_NbrEntries q) = length xs \<and> MQ_NbrEntries q \<le> MQ_NbrEntriesSize q \<and>
     (xs \<noteq> [] \<longrightarrow> MQ_InPtr q = last xs \<and> (\<exists>e. path (fld MSG_NextPtr (msgs s)) (MQ_OutPtr q) xs e))"

text \<open>Free nodes and the nodes of a queue are different objects of the memory; the queue uses
  nodes of the pool.\<close>

definition mq_rel :: "os \<Rightarrow> nat \<Rightarrow> ptr list \<Rightarrow> OS_MSG_Q \<Rightarrow> ptr list \<Rightarrow> bool" where
  "mq_rel s N F q xs \<longleftrightarrow> distinct (F @ xs) \<and> NULL \<notin> set (F @ xs) \<and> set (F @ xs) \<subseteq> dom (msgs s) \<and> pool_ok s N F \<and> msgq_ok s q xs \<and> length (F @ xs) \<le> N"

definition msg_val :: "os \<Rightarrow> ptr \<Rightarrow> ptr \<times> OS_MSG_SIZE \<times> CPU_TS" where
  "msg_val s x = (case msgs s x of None \<Rightarrow> (NULL, 0, 0) | Some m \<Rightarrow> (MSG_MsgPtr m, MSG_MsgSize m, MSG_MsgTS m))"

text \<open>What a queue operation leaves alone: every message node outside \<open>X\<close>, and everything that is
  not a message node or the pool header.\<close>

definition msg_frame :: "ptr set \<Rightarrow> os \<Rightarrow> os \<Rightarrow> bool" where
  "msg_frame X s s' \<longleftrightarrow> s'\<lparr>msgs := msgs s, OSMsgPool := OSMsgPool s\<rparr> = s \<and> dom (msgs s') = dom (msgs s) \<and>
     (\<forall>x. x \<notin> X \<longrightarrow> msgs s' x = msgs s x)"

lemma msg_frameD:
  assumes "msg_frame X s s'"
  shows "qs s' = qs s" "objs s' = objs s" "tcbs s' = tcbs s" "OSSchedLockNestingCtr s' = OSSchedLockNestingCtr s"
    "OSIntNestingCtr s' = OSIntNestingCtr s" "OSTCBCurPtr s' = OSTCBCurPtr s"
proof -
  have e: "s'\<lparr>msgs := msgs s, OSMsgPool := OSMsgPool s\<rparr> = s" using assms by (simp add: msg_frame_def)
  show "qs s' = qs s" "objs s' = objs s" "tcbs s' = tcbs s" "OSSchedLockNestingCtr s' = OSSchedLockNestingCtr s"
    "OSIntNestingCtr s' = OSIntNestingCtr s" "OSTCBCurPtr s' = OSTCBCurPtr s"
    using arg_cong [OF e, of qs] arg_cong [OF e, of objs] arg_cong [OF e, of tcbs] arg_cong [OF e, of OSSchedLockNestingCtr]
      arg_cong [OF e, of OSIntNestingCtr] arg_cong [OF e, of OSTCBCurPtr] by simp_all
qed

lemma OS_MsgQGet_ok:
  assumes R: "mq_rel s N F q (x # xs)"
  shows "\<exists>q' s'. OS_MsgQGet q s = Some (fst (msg_val s x), fst (snd (msg_val s x)), snd (snd (msg_val s x)), OS_ERR_NONE, q', s') \<and>
    mq_rel s' N (x # F) q' xs \<and> msg_frame {x} s s' \<and> (\<forall>y. msg_val s' y = msg_val s y) \<and> MQ_NbrEntriesSize q' = MQ_NbrEntriesSize q"
proof -
  have d: "distinct (F @ x # xs)" "NULL \<notin> set (F @ x # xs)" "pool_ok s N F" "msgq_ok s q (x # xs)" "length (F @ x # xs) \<le> N"
    using R by (simp_all add: mq_rel_def)
  obtain m where m: "msgs s x = Some m" using R by (auto simp: mq_rel_def)
  obtain e where e: "path (fld MSG_NextPtr (msgs s)) (MSG_NextPtr m) xs e" "MQ_OutPtr q = x" "MQ_InPtr q = last (x # xs)"
    "unat (MQ_NbrEntries q) = Suc (length xs)" "MQ_NbrEntries q \<le> MQ_NbrEntriesSize q"
    using d(4) m by (auto simp: msgq_ok_def fld_Some)
  obtain f where f: "path (fld MSG_NextPtr (msgs s)) (POOL_NextPtr (OSMsgPool s)) F f" "unat (POOL_NbrFree (OSMsgPool s)) = length F"
    "unat (POOL_NbrUsed (OSMsgPool s)) + length F = N" "N < 65536" using d(3) by (auto simp: pool_ok_def)
  have nz: "MQ_NbrEntries q \<noteq> 0" using e(4) by auto
  define q' where "q' = (if MSG_NextPtr m = NULL then q\<lparr>MQ_OutPtr := NULL, MQ_InPtr := NULL, MQ_NbrEntries := 0\<rparr>
    else q\<lparr>MQ_OutPtr := MSG_NextPtr m, MQ_NbrEntries := MQ_NbrEntries q - 1\<rparr>)"
  define s' where "s' = s\<lparr>msgs := (msgs s)(x \<mapsto> m\<lparr>MSG_NextPtr := POOL_NextPtr (OSMsgPool s)\<rparr>),
    OSMsgPool := (OSMsgPool s)\<lparr>POOL_NextPtr := x, POOL_NbrFree := POOL_NbrFree (OSMsgPool s) + 1, POOL_NbrUsed := POOL_NbrUsed (OSMsgPool s) - 1\<rparr>\<rparr>"
  have run: "OS_MsgQGet q s = Some (MSG_MsgPtr m, MSG_MsgSize m, MSG_MsgTS m, OS_ERR_NONE, q', s')"
    using nz m e(2) by (simp add: OS_MsgQGet_def q'_def s'_def Let_def)
  have dec: "unat (MQ_NbrEntries q - 1) = length xs" by (rule unat_dec [OF e(4)])
  have xs0: "xs = []" if "MSG_NextPtr m = NULL" using that e(1) d(2) by (cases xs) auto
  have "msgq_ok s' q' xs"
  proof (cases "MSG_NextPtr m = NULL")
    case True
    then show ?thesis using xs0 by (simp add: msgq_ok_def q'_def)
  next
    case False
    have "MQ_NbrEntries q - 1 \<le> MQ_NbrEntriesSize q" using dec e(4,5) by (simp add: word_le_nat_alt)
    moreover have "path (fld MSG_NextPtr (msgs s')) (MSG_NextPtr m) xs e" using e(1) d(1) by (simp add: s'_def)
    ultimately show ?thesis using False dec e(3) by (auto simp: msgq_ok_def q'_def)
  qed
  moreover have "pool_ok s' N (x # F)"
  proof -
    have "Suc (length F) < 2 ^ LENGTH(16)" using d(5) f(4) by simp
    then have "unat (POOL_NbrFree (OSMsgPool s) + 1) = Suc (length F)" by (rule unat_inc [OF f(2)])
    moreover have "unat (POOL_NbrUsed (OSMsgPool s)) = Suc (N - Suc (length F))" using f(3) d(5) by simp
    then have "unat (POOL_NbrUsed (OSMsgPool s) - 1) = N - Suc (length F)" by (rule unat_dec)
    moreover have "path (fld MSG_NextPtr (msgs s')) x (x # F) f" using f(1) d(1) by (simp add: s'_def)
    ultimately show ?thesis using d(5) f(4) by (auto simp: pool_ok_def s'_def)
  qed
  ultimately have "mq_rel s' N (x # F) q' xs" using R m by (auto simp: mq_rel_def s'_def)
  moreover have "msg_frame {x} s s'" using m by (auto simp: msg_frame_def s'_def)
  moreover have "msg_val s' y = msg_val s y" for y using m by (simp add: msg_val_def s'_def)
  ultimately show ?thesis using run m by (auto simp: msg_val_def q'_def)
qed

text \<open>Putting a message: the first free node goes to the end of the queue, or to its front for
  a LIFO post.\<close>

definition fifo :: "OS_OPT \<Rightarrow> bool" where
  "fifo opt \<longleftrightarrow> opt AND OS_OPT_POST_LIFO = OS_OPT_POST_FIFO"

definition put_nodes :: "OS_OPT \<Rightarrow> 'a \<Rightarrow> 'a list \<Rightarrow> 'a list" where
  "put_nodes opt x xs = (if fifo opt then xs @ [x] else x # xs)"

lemma set_put_nodes [simp]: "set (put_nodes opt x xs) = insert x (set xs)"
  by (simp add: put_nodes_def)

lemma length_put_nodes [simp]: "length (put_nodes opt x xs) = Suc (length xs)"
  by (simp add: put_nodes_def)

text \<open>The three ways the links change; the message fields of the node are set in each of them.\<close>

lemma msgq_link:
  assumes q: "msgq_ok s q xs" and lt: "\<not> MQ_NbrEntries q \<ge> MQ_NbrEntriesSize q" and dx: "distinct xs" "x \<notin> set xs"
    and m: "msgs s x = Some m" and len: "length xs < 65535"
    and h: "h x \<noteq> None" "xs = [] \<or> fld MSG_NextPtr h = (if fifo opt then (fld MSG_NextPtr (msgs s))(last xs := x, x := NULL) else (fld MSG_NextPtr (msgs s))(x := MQ_OutPtr q))"
    and q': "MQ_NbrEntries q' = MQ_NbrEntries q + 1" "MQ_NbrEntriesSize q' = MQ_NbrEntriesSize q"
      "MQ_InPtr q' = (if xs = [] \<or> fifo opt then x else MQ_InPtr q)" "MQ_OutPtr q' = (if xs = [] \<or> \<not> fifo opt then x else MQ_OutPtr q)"
  shows "msgq_ok (s\<lparr>msgs := h, OSMsgPool := pl\<rparr>) q' (put_nodes opt x xs)"
proof -
  have n: "unat (MQ_NbrEntries q) = length xs" using q by (simp add: msgq_ok_def)
  have "Suc (length xs) < 2 ^ LENGTH(16)" using len by simp
  then have n': "unat (MQ_NbrEntries q + 1) = Suc (length xs)" by (rule unat_inc [OF n])
  have "unat (MQ_NbrEntries q) < unat (MQ_NbrEntriesSize q)" using lt by (simp add: not_le word_less_nat_alt)
  then have "MQ_NbrEntries q + 1 \<le> MQ_NbrEntriesSize q" using n n' by (simp add: word_le_nat_alt)
  moreover have "MQ_InPtr q' = last (put_nodes opt x xs)" using q'(3) q by (auto simp: put_nodes_def msgq_ok_def)
  moreover have "\<exists>e. path (fld MSG_NextPtr h) (MQ_OutPtr q') (put_nodes opt x xs) e"
  proof (cases "xs = []")
    case True
    then show ?thesis using q'(4) by (auto simp: put_nodes_def)
  next
    case False
    then obtain ys y where ys: "xs = ys @ [y]" by (metis rev_exhaust)
    obtain e where e: "path (fld MSG_NextPtr (msgs s)) (MQ_OutPtr q) xs e" using q False by (auto simp: msgq_ok_def)
    have y: "y \<notin> set ys" "x \<noteq> y" "x \<notin> set ys" using dx ys by auto
    show ?thesis
    proof (cases "fifo opt")
      case True
      have "path ((fld MSG_NextPtr (msgs s))(y := x)) (MQ_OutPtr q) (ys @ [y]) x" using e y(1) unfolding ys by (rule path_snoc_upd)
      then have "path ((fld MSG_NextPtr (msgs s))(y := x, x := NULL)) (MQ_OutPtr q) (ys @ [y]) x" using y by simp
      then show ?thesis using h(2) True False q'(4) ys by (auto simp: put_nodes_def path_append)
    next
      case False
      then show ?thesis using h(2) \<open>xs \<noteq> []\<close> q'(4) e dx by (auto simp: put_nodes_def)
    qed
  qed
  ultimately show ?thesis using n' q'(1,2) by (simp add: msgq_ok_def put_nodes_def)
qed

lemma OS_MsgQPut_ok:
  assumes R: "mq_rel s N (x # F) q xs" and lt: "\<not> MQ_NbrEntries q \<ge> MQ_NbrEntriesSize q"
  shows "\<exists>q' s'. OS_MsgQPut q p_void msg_size opt ts s = Some (OS_ERR_NONE, q', s') \<and> mq_rel s' N F q' (put_nodes opt x xs) \<and>
    msg_frame (insert x (set xs)) s s' \<and> msg_val s' x = (p_void, msg_size, ts) \<and> (\<forall>y. y \<noteq> x \<longrightarrow> msg_val s' y = msg_val s y) \<and>
    MQ_NbrEntriesSize q' = MQ_NbrEntriesSize q"
proof -
  have d: "distinct (x # F @ xs)" "NULL \<notin> set (x # F @ xs)" "pool_ok s N (x # F)" "msgq_ok s q xs" "length (x # F @ xs) \<le> N"
    using R by (simp_all add: mq_rel_def)
  obtain m where m: "msgs s x = Some m" using R by (auto simp: mq_rel_def)
  let ?pl = "OSMsgPool s"
  obtain f where f: "POOL_NextPtr ?pl = x" "path (fld MSG_NextPtr (msgs s)) (MSG_NextPtr m) F f" "unat (POOL_NbrFree ?pl) = Suc (length F)"
    "unat (POOL_NbrUsed ?pl) + Suc (length F) = N" "N < 65536" using d(3) m by (auto simp: pool_ok_def fld_Some)
  have nf: "POOL_NbrFree ?pl \<noteq> 0" using f(3) by auto
  have len: "length xs < 65535" using d(5) f(5) by simp
  have ne: "MQ_NbrEntries q = 0 \<longleftrightarrow> xs = []" using d(4) by (metis msgq_ok_def length_0_conv unat_0 unat_eq_numD(2))
  have free: "unat (POOL_NbrFree ?pl - 1) = length F" by (rule unat_dec [OF f(3)])
  have "Suc (unat (POOL_NbrUsed ?pl)) < 2 ^ LENGTH(16)" using f(4,5) by simp
  then have used: "unat (POOL_NbrUsed ?pl + 1) = Suc (unat (POOL_NbrUsed ?pl))" by (intro unat_inc) simp_all
  define pl where "pl = ?pl\<lparr>POOL_NextPtr := MSG_NextPtr m, POOL_NbrFree := POOL_NbrFree ?pl - 1, POOL_NbrUsed := POOL_NbrUsed ?pl + 1,
    POOL_NbrUsedMax := (if POOL_NbrUsedMax ?pl < POOL_NbrUsed ?pl + 1 then POOL_NbrUsed ?pl + 1 else POOL_NbrUsedMax ?pl)\<rparr>"
  have pl: "POOL_NextPtr pl = MSG_NextPtr m" "POOL_NbrFree pl = POOL_NbrFree ?pl - 1" "POOL_NbrUsed pl = POOL_NbrUsed ?pl + 1" by (simp_all add: pl_def)
  define lnk where "lnk = (if xs = [] then msgs s else if fifo opt then (msgs s)(last xs \<mapsto> (the (msgs s (last xs)))\<lparr>MSG_NextPtr := x\<rparr>, x \<mapsto> m\<lparr>MSG_NextPtr := NULL\<rparr>)
    else (msgs s)(x \<mapsto> m\<lparr>MSG_NextPtr := MQ_OutPtr q\<rparr>))"
  define h where "h = lnk(x \<mapsto> (the (lnk x))\<lparr>MSG_MsgPtr := p_void, MSG_MsgSize := msg_size, MSG_MsgTS := ts\<rparr>)"
  define q1 where "q1 = (if xs = [] then q\<lparr>MQ_InPtr := x, MQ_OutPtr := x, MQ_NbrEntries := 1\<rparr>
    else if fifo opt then q\<lparr>MQ_InPtr := x, MQ_NbrEntries := MQ_NbrEntries q + 1\<rparr> else q\<lparr>MQ_OutPtr := x, MQ_NbrEntries := MQ_NbrEntries q + 1\<rparr>)"
  define q' where "q' = (if MQ_NbrEntriesMax q1 < MQ_NbrEntries q1 then q1\<lparr>MQ_NbrEntriesMax := MQ_NbrEntries q1\<rparr> else q1)"
  have last: "\<exists>l. msgs s (last xs) = Some l" "last xs \<in> set xs" "last xs \<noteq> x" if "xs \<noteq> []"
  proof -
    show "last xs \<in> set xs" using that by simp
    then show "last xs \<noteq> x" "\<exists>l. msgs s (last xs) = Some l" using d(1) R by (auto simp: mq_rel_def)
  qed
  have InPtr: "MQ_InPtr q = last xs" if "xs \<noteq> []" using d(4) that by (simp add: msgq_ok_def)
  have run: "OS_MsgQPut q p_void msg_size opt ts s = Some (OS_ERR_NONE, q', s\<lparr>msgs := h, OSMsgPool := pl\<rparr>)"
  proof (cases "xs = []")
    case True
    with lt nf m f(1) ne show ?thesis by (simp add: OS_MsgQPut_def Let_def q'_def q1_def h_def lnk_def pl_def)
  next
    case False
    from last(1) [OF False] obtain l where l: "msgs s (last xs) = Some l" by blast
    from False lt nf m f(1) ne l last(3) [OF False] InPtr [OF False] show ?thesis
      by (cases "fifo opt") (simp_all add: OS_MsgQPut_def Let_def q'_def q1_def h_def lnk_def pl_def fifo_def)
  qed
  let ?s = "s\<lparr>msgs := h, OSMsgPool := pl\<rparr>"
  have lx: "\<exists>k. lnk x = Some k" using m by (auto simp: lnk_def)
  have nxh: "fld MSG_NextPtr h = fld MSG_NextPtr lnk" using lx by (auto simp: h_def)
  have nx: "xs = [] \<or> fld MSG_NextPtr h = (if fifo opt then (fld MSG_NextPtr (msgs s))(last xs := x, x := NULL) else (fld MSG_NextPtr (msgs s))(x := MQ_OutPtr q))"
    unfolding nxh by (simp add: lnk_def)
  have "msgq_ok ?s q' (put_nodes opt x xs)"
    by (rule msgq_link [OF d(4) lt _ _ m len _ nx]) (use d(1) ne in \<open>auto simp: h_def q'_def q1_def\<close>)
  moreover have "pool_ok ?s N F"
  proof -
    have "path (fld MSG_NextPtr h) (MSG_NextPtr m) F f"
    proof (cases "xs = []")
      case True
      then show ?thesis using f(2) nxh by (simp add: lnk_def)
    next
      case False
      then have "last xs \<notin> set F" "x \<notin> set F" using last(2) d(1) by auto
      then show ?thesis using f(2) nx False by auto
    qed
    then show ?thesis using f(4,5) free used by (auto simp: pool_ok_def pl)
  qed
  moreover have dm: "dom h = dom (msgs s)" using m last(1) by (auto simp: h_def lnk_def)
  ultimately have "mq_rel ?s N F q' (put_nodes opt x xs)" using R by (auto simp: mq_rel_def put_nodes_def)
  moreover have "msg_frame (insert x (set xs)) s ?s" using dm last(2) by (auto simp: msg_frame_def h_def lnk_def)
  moreover have "msg_val ?s x = (p_void, msg_size, ts)" by (simp add: msg_val_def h_def)
  moreover have "msg_val ?s y = msg_val s y" if "y \<noteq> x" for y using that last(1) by (auto simp: msg_val_def h_def lnk_def)
  moreover have "MQ_NbrEntriesSize q' = MQ_NbrEntriesSize q" by (simp add: q'_def q1_def)
  ultimately show ?thesis using run by blast
qed

lemma OS_MsgQFreeAll_ok:
  assumes R: "mq_rel s N F q xs"
  shows "\<exists>q' s'. OS_MsgQFreeAll q s = Some (of_nat (length xs), q', s') \<and> mq_rel s' N (xs @ F) q' [] \<and> msg_frame (set xs) s s'"
proof (cases "xs = []")
  case True
  then have "unat (MQ_NbrEntries q) = 0" using R by (simp add: mq_rel_def msgq_ok_def)
  then have "MQ_NbrEntries q = 0" by (rule unat_eq_numD(2))
  then show ?thesis using R True by (simp add: OS_MsgQFreeAll_def msg_frame_def)
next
  case False
  then obtain ys y where ys: "xs = ys @ [y]" by (metis rev_exhaust)
  have d: "distinct (F @ xs)" "pool_ok s N F" "msgq_ok s q xs" "length (F @ xs) \<le> N" using R by (simp_all add: mq_rel_def)
  let ?pl = "OSMsgPool s"
  obtain f where f: "path (fld MSG_NextPtr (msgs s)) (POOL_NextPtr ?pl) F f" "unat (POOL_NbrFree ?pl) = length F"
    "unat (POOL_NbrUsed ?pl) + length F = N" "N < 65536" using d(2) by (auto simp: pool_ok_def)
  obtain e where e: "path (fld MSG_NextPtr (msgs s)) (MQ_OutPtr q) (ys @ [y]) e" "MQ_InPtr q = y" "unat (MQ_NbrEntries q) = length xs"
    using d(3) False ys by (auto simp: msgq_ok_def)
  obtain m where m: "msgs s y = Some m" using R ys by (auto simp: mq_rel_def)
  define s' where "s' = s\<lparr>msgs := (msgs s)(y \<mapsto> m\<lparr>MSG_NextPtr := POOL_NextPtr ?pl\<rparr>), OSMsgPool := ?pl\<lparr>POOL_NextPtr := MQ_OutPtr q,
    POOL_NbrUsed := POOL_NbrUsed ?pl - MQ_NbrEntries q, POOL_NbrFree := POOL_NbrFree ?pl + MQ_NbrEntries q\<rparr>\<rparr>"
  define q' where "q' = q\<lparr>MQ_NbrEntries := 0, MQ_NbrEntriesMax := 0, MQ_InPtr := NULL, MQ_OutPtr := NULL\<rparr>"
  have "MQ_NbrEntries q > 0" using e(3) False by (simp add: word_less_nat_alt)
  then have run: "OS_MsgQFreeAll q s = Some (MQ_NbrEntries q, q', s')" using m e(2) by (simp add: OS_MsgQFreeAll_def s'_def q'_def Let_def)
  have "path (fld MSG_NextPtr (msgs s')) (MQ_OutPtr q) (ys @ [y]) (POOL_NextPtr ?pl)"
    unfolding s'_def using path_snoc_upd [OF e(1)] d(1) ys by simp
  moreover have "path (fld MSG_NextPtr (msgs s')) (POOL_NextPtr ?pl) F f" using f(1) d(1) ys by (simp add: s'_def)
  ultimately have "path (fld MSG_NextPtr (msgs s')) (MQ_OutPtr q) (xs @ F) f" unfolding ys path_append by blast
  moreover have "unat (POOL_NbrFree ?pl + MQ_NbrEntries q) = length (xs @ F)"
    using f(2,4) e(3) d(4) by (subst unat_word_ariths) (simp add: take_bit_nat_eq_self)
  moreover have "unat (POOL_NbrUsed ?pl - MQ_NbrEntries q) = unat (POOL_NbrUsed ?pl) - length xs"
    using f(3) e(3) d(4) by (subst unat_sub) (simp_all add: word_le_nat_alt)
  ultimately have "pool_ok s' N (xs @ F)" using f(3,4) d(4) by (auto simp: pool_ok_def s'_def)
  then have "mq_rel s' N (xs @ F) q' []" using R m by (auto simp: mq_rel_def msgq_ok_def s'_def q'_def)
  moreover have "msg_frame (set xs) s s'" using m ys by (auto simp: msg_frame_def s'_def)
  moreover have "of_nat (unat (MQ_NbrEntries q)) = MQ_NbrEntries q" by simp
  then have "MQ_NbrEntries q = of_nat (length xs)" using e(3) by simp
  ultimately show ?thesis using run by auto
qed

lemma msg_pool_loop_ok:
  assumes "{p..<p + n} \<subseteq> dom (msgs s)"
  shows "\<exists>s'. msg_pool_loop n p s = Some s' \<and> path (fld MSG_NextPtr (msgs s')) p [p..<p + n] (p + n) \<and> msg_frame {p..<p + n} s s'"
  using assms
proof (induction n arbitrary: p s)
  case 0
  then show ?case by (simp add: msg_frame_def)
next
  case (Suc n)
  have "p \<in> dom (msgs s)" by (rule subsetD [OF Suc.prems]) simp
  then obtain m where m: "msgs s p = Some m" by blast
  let ?s = "s\<lparr>msgs := (msgs s)(p \<mapsto> m\<lparr>MSG_NextPtr := p + 1, MSG_MsgPtr := NULL, MSG_MsgSize := 0, MSG_MsgTS := 0\<rparr>)\<rparr>"
  have "{p + 1..<p + 1 + n} \<subseteq> dom (msgs ?s)" using order_trans [OF _ Suc.prems, of "{p + 1..<p + 1 + n}"] by auto
  from Suc.IH [OF this] obtain s' where s': "msg_pool_loop n (p + 1) ?s = Some s'"
    "path (fld MSG_NextPtr (msgs s')) (p + 1) [p + 1..<p + 1 + n] (p + 1 + n)" "msg_frame {p + 1..<p + 1 + n} ?s s'" by blast
  have "msgs s' p = msgs ?s p" using s'(3) by (simp add: msg_frame_def)
  then have "fld MSG_NextPtr (msgs s') p = p + 1" by (simp add: fld_def)
  moreover have "[p..<p + Suc n] = p # [p + 1..<p + 1 + n]" by (simp add: upt_conv_Cons)
  ultimately have "path (fld MSG_NextPtr (msgs s')) p [p..<p + Suc n] (p + Suc n)" using s'(2) by simp
  moreover have "msg_frame {p..<p + Suc n} s s'"
  proof -
    have "s'\<lparr>msgs := msgs s, OSMsgPool := OSMsgPool s\<rparr> = s'\<lparr>msgs := msgs ?s, OSMsgPool := OSMsgPool ?s\<rparr>\<lparr>msgs := msgs s\<rparr>" by simp
    also have "\<dots> = s" using s'(3) by (simp add: msg_frame_def)
    finally show ?thesis using s'(3) m by (auto simp: msg_frame_def)
  qed
  ultimately show ?case using s'(1) m by auto
qed

lemma OS_MsgPoolInit_ok:
  assumes b: "base \<noteq> NULL" "sz \<noteq> 0" "{base..<base + unat sz} \<subseteq> dom (msgs s)"
  shows "\<exists>s'. OS_MsgPoolInit base sz s = Some (OS_ERR_NONE, s') \<and> mq_rel s' (unat sz) [base..<base + unat sz] (OS_MsgQInit n) [] \<and>
    msg_frame {base..<base + unat sz} s s'"
proof -
  have n: "unat (sz - 1) = unat sz - 1" "unat sz > 0" using b(2) by (simp_all add: unat_minus_one unat_gt_0)
  let ?n = "unat sz - 1"
  have "{base..<base + ?n} \<subseteq> dom (msgs s)" by (rule order_trans [OF _ b(3)]) simp
  from msg_pool_loop_ok [OF this] obtain s1 where s1: "msg_pool_loop ?n base s = Some s1"
    "path (fld MSG_NextPtr (msgs s1)) base [base..<base + ?n] (base + ?n)" "msg_frame {base..<base + ?n} s s1" by blast
  have dm: "dom (msgs s1) = dom (msgs s)" using s1(3) by (simp add: msg_frame_def)
  have "base + ?n \<in> dom (msgs s1)" using b(3) n(2) unfolding dm by (intro subsetD [OF b(3)]) simp
  then obtain m where m: "msgs s1 (base + ?n) = Some m" by blast
  let ?s = "s1\<lparr>msgs := (msgs s1)(base + ?n \<mapsto> m\<lparr>MSG_NextPtr := NULL, MSG_MsgPtr := NULL, MSG_MsgSize := 0, MSG_MsgTS := 0\<rparr>),
    OSMsgPool := \<lparr>POOL_NextPtr = base, POOL_NbrFree = sz, POOL_NbrUsed = 0, POOL_NbrUsedMax = 0\<rparr>\<rparr>"
  have run: "OS_MsgPoolInit base sz s = Some (OS_ERR_NONE, ?s)" using b n s1(1) m by (simp add: OS_MsgPoolInit_def OS_MsgPoolCreate_def Let_def)
  have u: "[base..<base + unat sz] = [base..<base + ?n] @ [base + ?n]" using n(2) by (metis Suc_diff_1 add_Suc_right le_add1 upt_Suc_append)
  have "path ((fld MSG_NextPtr (msgs s1))(base + ?n := NULL)) base ([base..<base + ?n] @ [base + ?n]) NULL"
    using s1(2) by (auto simp: path_append)
  then have "pool_ok ?s (unat sz) [base..<base + unat sz]" unfolding u using n unsigned_less [of sz] by (auto simp: pool_ok_def)
  then have "mq_rel ?s (unat sz) [base..<base + unat sz] (OS_MsgQInit n) []"
    using b(1,3) dm m by (auto simp: mq_rel_def msgq_ok_def OS_MsgQInit_def)
  moreover have "msg_frame {base..<base + unat sz} s ?s" using s1(3) n(2) m by (auto simp: msg_frame_def)
  ultimately show ?thesis using run by blast
qed

subsection \<open>The interface\<close>

text \<open>What the clients of the message queues rely on: a bounded queue of message values.\<close>

definition mq_vals :: "os \<Rightarrow> ptr list \<Rightarrow> (ptr \<times> OS_MSG_SIZE \<times> CPU_TS) list" where
  "mq_vals s xs = map (msg_val s) xs"

lemma mq_vals_put:
  assumes "msg_val s' x = v" "\<forall>y. y \<noteq> x \<longrightarrow> msg_val s' y = msg_val s y" "x \<notin> set xs"
  shows "mq_vals s' (put_nodes opt x xs) = put_nodes opt v (mq_vals s xs)"
proof -
  have "map (msg_val s') xs = map (msg_val s) xs" using assms(2,3) by (intro map_cong refl) auto
  with assms(1) show ?thesis by (simp add: mq_vals_def put_nodes_def)
qed


subsection \<open>The queue as a bounded FIFO\<close>

text \<open>A bounded FIFO: \<open>rep\<close> relates a state to the messages it holds and to a number of messages
  that can surely still be put.\<close>

locale bounded_fifo =
  fixes rep :: "'s \<Rightarrow> 'm list \<Rightarrow> nat \<Rightarrow> bool"
    and put :: "'m \<Rightarrow> 's \<Rightarrow> 's option"
    and get :: "'s \<Rightarrow> ('m \<times> 's) option"
  assumes put_ok: "rep s ms (Suc k) \<Longrightarrow> \<exists>s'. put m s = Some s' \<and> rep s' (ms @ [m]) k"
    and get_ok: "rep s (m # ms) k \<Longrightarrow> \<exists>s'. get s = Some (m, s') \<and> rep s' ms (Suc k)"
begin

primrec puts :: "'m list \<Rightarrow> 's \<Rightarrow> 's option" where
  "puts [] s = Some s"
| "puts (m # ms) s = put m s \<bind> puts ms"

primrec gets :: "nat \<Rightarrow> 's \<Rightarrow> ('m list \<times> 's) option" where
  "gets 0 s = Some ([], s)"
| "gets (Suc n) s = do { (m, s) \<leftarrow> get s; (ms, s) \<leftarrow> gets n s; Some (m # ms, s) }"

lemma puts_ok: "rep s xs (length ms + k) \<Longrightarrow> \<exists>s'. puts ms s = Some s' \<and> rep s' (xs @ ms) k"
proof (induction ms arbitrary: s xs)
  case (Cons m ms)
  then have "rep s xs (Suc (length ms + k))" by simp
  from put_ok [OF this] obtain s1 where s1: "put m s = Some s1" "rep s1 (xs @ [m]) (length ms + k)" by blast
  with Cons.IH [OF s1(2)] show ?case by auto
qed simp

lemma gets_ok: "rep s (ms @ xs) k \<Longrightarrow> \<exists>s'. gets (length ms) s = Some (ms, s') \<and> rep s' xs (length ms + k)"
proof (induction ms arbitrary: s k)
  case (Cons m ms)
  then have "rep s (m # ms @ xs) k" by simp
  from get_ok [OF this] obtain s1 where s1: "get s = Some (m, s1)" "rep s1 (ms @ xs) (Suc k)" by blast
  with Cons.IH [OF s1(2)] show ?case by auto
qed simp

theorem puts_gets:
  assumes "rep s xs (length ms + k)"
  shows "\<exists>s1 s2. puts ms s = Some s1 \<and> gets (length (xs @ ms)) s1 = Some (xs @ ms, s2) \<and> rep s2 [] (length (xs @ ms) + k)"
proof -
  from puts_ok [OF assms] obtain s1 where s1: "puts ms s = Some s1" "rep s1 (xs @ ms) k" by blast
  from gets_ok [of s1 "xs @ ms" "[]" k] s1(2) obtain s2 where "gets (length (xs @ ms)) s1 = Some (xs @ ms, s2)" "rep s2 [] (length (xs @ ms) + k)" by auto
  with s1(1) show ?thesis by blast
qed

end

text \<open>The kernel's queue header and message memory as such a FIFO: a put or get that reports an
  error is no step.\<close>

definition mq_rep :: "OS_MSG_Q \<times> os \<Rightarrow> (ptr \<times> OS_MSG_SIZE \<times> CPU_TS) list \<Rightarrow> nat \<Rightarrow> bool" where
  "mq_rep c ms k \<longleftrightarrow> (\<exists>N F xs. mq_rel (snd c) N F (fst c) xs \<and> mq_vals (snd c) xs = ms \<and> k \<le> length F \<and>
     length xs + k \<le> unat (MQ_NbrEntriesSize (fst c)))"

definition mq_put :: "ptr \<times> OS_MSG_SIZE \<times> CPU_TS \<Rightarrow> OS_MSG_Q \<times> os \<Rightarrow> (OS_MSG_Q \<times> os) option" where
  "mq_put m c = (case OS_MsgQPut (fst c) (fst m) (fst (snd m)) OS_OPT_POST_FIFO (snd (snd m)) (snd c) of
     Some (OS_ERR_NONE, q, s) \<Rightarrow> Some (q, s) | _ \<Rightarrow> None)"

definition mq_get :: "OS_MSG_Q \<times> os \<Rightarrow> ((ptr \<times> OS_MSG_SIZE \<times> CPU_TS) \<times> OS_MSG_Q \<times> os) option" where
  "mq_get c = (case OS_MsgQGet (fst c) (snd c) of
     Some (p, z, ts, OS_ERR_NONE, q, s) \<Rightarrow> Some ((p, z, ts), q, s) | _ \<Rightarrow> None)"

interpretation mq: bounded_fifo mq_rep mq_put mq_get
proof unfold_locales
  fix c ms k m
  assume "mq_rep c ms (Suc k)"
  then obtain N F xs where r: "mq_rel (snd c) N F (fst c) xs" "mq_vals (snd c) xs = ms" "Suc k \<le> length F"
    "length xs + Suc k \<le> unat (MQ_NbrEntriesSize (fst c))" by (auto simp: mq_rep_def)
  then obtain x F' where F: "F = x # F'" by (cases F) auto
  have x: "x \<notin> set xs" using r(1) F by (auto simp: mq_rel_def)
  have "unat (MQ_NbrEntries (fst c)) = length xs" using r(1) by (simp add: mq_rel_def msgq_ok_def)
  then have lt: "\<not> MQ_NbrEntries (fst c) \<ge> MQ_NbrEntriesSize (fst c)" using r(4) by (simp add: word_le_nat_alt)
  from OS_MsgQPut_ok [OF r(1) [unfolded F] lt, of "fst m" "fst (snd m)" OS_OPT_POST_FIFO "snd (snd m)"] obtain q' s' where
    s': "OS_MsgQPut (fst c) (fst m) (fst (snd m)) OS_OPT_POST_FIFO (snd (snd m)) (snd c) = Some (OS_ERR_NONE, q', s')"
    "mq_rel s' N F' q' (put_nodes OS_OPT_POST_FIFO x xs)" "msg_val s' x = m" "\<forall>y. y \<noteq> x \<longrightarrow> msg_val s' y = msg_val (snd c) y"
    "MQ_NbrEntriesSize q' = MQ_NbrEntriesSize (fst c)" by auto
  have "mq_vals s' (put_nodes OS_OPT_POST_FIFO x xs) = put_nodes OS_OPT_POST_FIFO m ms"
    unfolding r(2) [symmetric] by (rule mq_vals_put [OF s'(3,4) x])
  then have "mq_rep (q', s') (ms @ [m]) k" using s'(2,5) r(3,4) F
    unfolding mq_rep_def put_nodes_def fifo_def by (intro exI [of _ N] exI [of _ F'] exI [of _ "xs @ [x]"]) simp
  moreover have "mq_put m c = Some (q', s')" using s'(1) by (simp add: mq_put_def)
  ultimately show "\<exists>c'. mq_put m c = Some c' \<and> mq_rep c' (ms @ [m]) k" by blast
next
  fix c ms k m
  assume "mq_rep c (m # ms) k"
  then obtain N F ys where ys: "mq_rel (snd c) N F (fst c) ys" "mq_vals (snd c) ys = m # ms" "k \<le> length F"
    "length ys + k \<le> unat (MQ_NbrEntriesSize (fst c))" unfolding mq_rep_def by blast
  then obtain x xs where "ys = x # xs" by (cases ys) (auto simp: mq_vals_def)
  note r = ys [unfolded this]
  have m: "m = msg_val (snd c) x" "ms = mq_vals (snd c) xs" using r(2) by (simp_all add: mq_vals_def)
  from OS_MsgQGet_ok [OF r(1)] obtain q' s' where
    s': "OS_MsgQGet (fst c) (snd c) = Some (fst m, fst (snd m), snd (snd m), OS_ERR_NONE, q', s')" "mq_rel s' N (x # F) q' xs"
    "\<forall>y. msg_val s' y = msg_val (snd c) y" "MQ_NbrEntriesSize q' = MQ_NbrEntriesSize (fst c)" unfolding m by blast
  have "mq_vals s' xs = ms" using s'(3) m(2) by (simp add: mq_vals_def)
  then have "mq_rep (q', s') ms (Suc k)" using s'(2,4) r(3,4)
    unfolding mq_rep_def by (intro exI [of _ N] exI [of _ "x # F"] exI [of _ xs]) simp
  moreover have "mq_get c = Some (m, q', s')" using s'(1) by (simp add: mq_get_def)
  ultimately show "\<exists>c'. mq_get c = Some (m, c') \<and> mq_rep c' ms (Suc k)" by blast
qed

end
