(* ===== verification/OS_Q.thy ===== *)
theory OS_Q
  imports OS_Obj OS_Msg
begin

text \<open>
  \<^verbatim>\<open>src/ucosTest/Source/os_q.c\<close>: message queues.  The common part of a queue is in \<open>objs\<close>, its
  message queue header \<^verbatim>\<open>MsgQ\<close> in \<open>qs\<close>, both at the address \<open>p_q\<close>.  \<open>p_msg_size\<close> and \<open>p_ts\<close> are
  truth values (whether the pointer is not null) and what is written through them are results.
  \<^verbatim>\<open>OSQDel\<close> and \<^verbatim>\<open>OSQFlush\<close> are modelled as they are written.
\<close>

definition q_set :: "ptr \<Rightarrow> OS_MSG_Q \<Rightarrow> os \<Rightarrow> os" where
  "q_set p q s = s\<lparr>qs := (qs s)(p \<mapsto> q)\<rparr>"

definition OS_QDbgListAdd :: "ptr \<Rightarrow> os \<Rightarrow> os option" where
  "OS_QDbgListAdd = dbg_list_add OSQDbgListPtr (\<lambda>p s. s\<lparr>OSQDbgListPtr := p\<rparr>)"

definition OS_QDbgListRemove :: "ptr \<Rightarrow> os \<Rightarrow> os option" where
  "OS_QDbgListRemove = dbg_list_remove (\<lambda>p s. s\<lparr>OSQDbgListPtr := p\<rparr>)"

interpretation qdbg: dbg_list OSQDbgListPtr "\<lambda>p s. s\<lparr>OSQDbgListPtr := p\<rparr>"
  by unfold_locales simp_all

definition OS_QInit :: "os \<Rightarrow> OS_ERR \<times> os" where
  "OS_QInit s = (OS_ERR_NONE, s\<lparr>OSQDbgListPtr := NULL, OSQQty := 0\<rparr>)"

definition OSQCreate :: "ptr \<Rightarrow> string \<Rightarrow> OS_MSG_QTY \<Rightarrow> os \<Rightarrow> (OS_ERR \<times> os) option" where
  "OSQCreate p_q p_name max_qty s =
     (if OSIntNestingCtr s > 0 then Some (OS_ERR_CREATE_ISR, s)
      else if p_q = NULL then Some (OS_ERR_OBJ_PTR_NULL, s)
      else if max_qty = 0 then Some (OS_ERR_Q_SIZE, s)
      else do {
        s \<leftarrow> obj_mod p_q (\<lambda>b. b\<lparr>OBJ_Type := OS_OBJ_TYPE_Q, OBJ_NamePtr := p_name\<rparr>) s;
        q \<leftarrow> qs s p_q;
        let s = q_set p_q (OS_MsgQInit max_qty) s;
        s \<leftarrow> OS_PendListInit p_q s;
        s \<leftarrow> OS_QDbgListAdd p_q s;
        Some (OS_ERR_NONE, s\<lparr>OSQQty := OSQQty s + 1\<rparr>)
      })"

definition OS_QClr :: "ptr \<Rightarrow> os \<Rightarrow> os option" where
  "OS_QClr p_q s = do {
     q \<leftarrow> qs s p_q;
     (_, q, s) \<leftarrow> OS_MsgQFreeAll q s;
     s \<leftarrow> obj_mod p_q (\<lambda>b. b\<lparr>OBJ_Type := OS_OBJ_TYPE_NONE, OBJ_NamePtr := ''?Q''\<rparr>) s;
     let s = q_set p_q (OS_MsgQInit 0) s;
     OS_PendListInit p_q s
   }"

definition OSQDel :: "ptr \<Rightarrow> OS_OPT \<Rightarrow> os \<Rightarrow> (OS_OBJ_QTY \<times> OS_ERR \<times> os) option" where
  "OSQDel p_q opt s =
     (if OSIntNestingCtr s > 0 then Some (0, OS_ERR_DEL_ISR, s)
      else if p_q = NULL then Some (0, OS_ERR_OBJ_PTR_NULL, s)
      else if opt \<notin> {OS_OPT_DEL_NO_PEND, OS_OPT_DEL_ALWAYS} then Some (0, OS_ERR_OPT_INVALID, s)
      else do {
        ob \<leftarrow> objs s p_q;
        if OBJ_Type ob \<noteq> OS_OBJ_TYPE_Q then Some (0, OS_ERR_OBJ_TYPE, s)
        else do {
          let nbr_tasks = PL_NbrEntries (OBJ_PendList ob);
          if opt = OS_OPT_DEL_NO_PEND then
            if nbr_tasks = 0 then do {
              s \<leftarrow> OS_QDbgListRemove p_q s;
              s \<leftarrow> OS_QClr p_q (s\<lparr>OSQQty := OSQQty s - 1\<rparr>);
              Some (nbr_tasks, OS_ERR_NONE, s)
            } else Some (nbr_tasks, OS_ERR_TASK_WAITING, s)
          else do {
            let (ts, s) = OS_TS_GET s;
            s \<leftarrow> del_loop (unat nbr_tasks) p_q ts s;
            s \<leftarrow> OS_QDbgListRemove p_q s;
            s \<leftarrow> OS_QClr p_q (s\<lparr>OSQQty := OSQQty s - 1\<rparr>);
            s \<leftarrow> OSSched s;
            Some (nbr_tasks, OS_ERR_NONE, s)
          }
        }
      })"

definition OSQFlush :: "ptr \<Rightarrow> os \<Rightarrow> (OS_MSG_QTY \<times> OS_ERR \<times> os) option" where
  "OSQFlush p_q s =
     (if OSIntNestingCtr s > 0 then Some (0, OS_ERR_FLUSH_ISR, s)
      else if p_q = NULL then Some (0, OS_ERR_OBJ_PTR_NULL, s)
      else do {
        ob \<leftarrow> objs s p_q;
        if OBJ_Type ob \<noteq> OS_OBJ_TYPE_Q then Some (0, OS_ERR_OBJ_TYPE, s)
        else do {
          q \<leftarrow> qs s p_q;
          (entries, q, s) \<leftarrow> OS_MsgQFreeAll q s;
          Some (entries, OS_ERR_NONE, q_set p_q q s)
        }
      })"

text \<open>The result of a pending call: the message, its size and its time stamp as far as they are
  written, and the error.\<close>

type_synonym q_result = "ptr \<times> OS_MSG_SIZE option \<times> CPU_TS option \<times> OS_ERR"

definition OSQPend :: "ptr \<Rightarrow> ptr \<Rightarrow> OS_TICK \<Rightarrow> OS_OPT \<Rightarrow> bool \<Rightarrow> bool \<Rightarrow> os \<Rightarrow> (q_result call \<times> os) option" where
  "OSQPend pend_data p_q timeout opt p_msg_size p_ts s =
     (if OSIntNestingCtr s > 0 then Some (Done (NULL, None, None, OS_ERR_PEND_ISR), s)
      else if p_q = NULL then Some (Done (NULL, None, None, OS_ERR_OBJ_PTR_NULL), s)
      else if \<not> p_msg_size then Some (Done (NULL, None, None, OS_ERR_PTR_INVALID), s)
      else if opt \<notin> {OS_OPT_PEND_BLOCKING, OS_OPT_PEND_NON_BLOCKING} then Some (Done (NULL, None, None, OS_ERR_OPT_INVALID), s)
      else do {
        ob \<leftarrow> objs s p_q;
        if OBJ_Type ob \<noteq> OS_OBJ_TYPE_Q then Some (Done (NULL, None, None, OS_ERR_OBJ_TYPE), s)
        else do {
          q \<leftarrow> qs s p_q;
          (p_void, msg_size, ts, err, q, s) \<leftarrow> OS_MsgQGet q s;
          let s = q_set p_q q s;
          if err = OS_ERR_NONE then Some (Done (p_void, Some msg_size, ts_out p_ts ts, OS_ERR_NONE), s)
          else if opt AND OS_OPT_PEND_NON_BLOCKING \<noteq> 0
            then Some (Done (NULL, Some msg_size, ts_out p_ts ts, OS_ERR_PEND_WOULD_BLOCK), s)
          else if OSSchedLockNestingCtr s > 0 then Some (Done (NULL, Some msg_size, ts_out p_ts ts, OS_ERR_SCHED_LOCKED), s)
          else do {
            s \<leftarrow> OS_Pend pend_data p_q OS_TASK_PEND_ON_Q timeout s;
            s \<leftarrow> OSSched s;
            Some (Blocked, s)
          }
        }
      })"

definition OSQPend_resume :: "bool \<Rightarrow> os \<Rightarrow> q_result option" where
  "OSQPend_resume p_ts s = do {
     tcb \<leftarrow> tcbs s (OSTCBCurPtr s);
     let err = pend_err (TCB_PendStatus tcb);
     Some (if err = OS_ERR_NONE then TCB_MsgPtr tcb else NULL, Some (if err = OS_ERR_NONE then TCB_MsgSize tcb else 0),
           ts_out p_ts (pend_ts tcb), err)
   }"

definition OSQPendAbort :: "ptr \<Rightarrow> OS_OPT \<Rightarrow> os \<Rightarrow> (OS_OBJ_QTY \<times> OS_ERR \<times> os) option" where
  "OSQPendAbort p_q opt s =
     (if OSIntNestingCtr s > 0 then Some (0, OS_ERR_PEND_ABORT_ISR, s)
      else if p_q = NULL then Some (0, OS_ERR_OBJ_PTR_NULL, s)
      else if opt \<notin> {OS_OPT_PEND_ABORT_1, OS_OPT_PEND_ABORT_ALL, OS_OPT_PEND_ABORT_1 OR OS_OPT_POST_NO_SCHED,
                     OS_OPT_PEND_ABORT_ALL OR OS_OPT_POST_NO_SCHED} then Some (0, OS_ERR_OPT_INVALID, s)
      else do {
        ob \<leftarrow> objs s p_q;
        if OBJ_Type ob \<noteq> OS_OBJ_TYPE_Q then Some (0, OS_ERR_OBJ_TYPE, s)
        else if PL_NbrEntries (OBJ_PendList ob) = 0 then Some (0, OS_ERR_PEND_ABORT_NONE, s)
        else do {
          let (ts, s) = OS_TS_GET s;
          (nbr_tasks, s) \<leftarrow> abort_loop p_q (opt = OS_OPT_PEND_ABORT_ALL) ts 0 s;
          s \<leftarrow> (if opt AND OS_OPT_POST_NO_SCHED = 0 then OSSched s else Some s);
          Some (nbr_tasks, OS_ERR_NONE, s)
        }
      })"

definition OS_QPost :: "ptr \<Rightarrow> ptr \<Rightarrow> OS_MSG_SIZE \<Rightarrow> OS_OPT \<Rightarrow> CPU_TS \<Rightarrow> os \<Rightarrow> (OS_ERR \<times> os) option" where
  "OS_QPost p_q p_void msg_size opt ts s = do {
     ob \<leftarrow> objs s p_q;
     if PL_NbrEntries (OBJ_PendList ob) = 0 then do {
       let post_type = (if opt AND OS_OPT_POST_LIFO = 0 then OS_OPT_POST_FIFO else OS_OPT_POST_LIFO);
       q \<leftarrow> qs s p_q;
       (err, q, s) \<leftarrow> OS_MsgQPut q p_void msg_size post_type ts s;
       Some (err, q_set p_q q s)
     } else do {
       let cnt = (if opt AND OS_OPT_POST_ALL \<noteq> 0 then PL_NbrEntries (OBJ_PendList ob) else 1);
       s \<leftarrow> post_loop (unat cnt) p_q p_void msg_size ts (PL_HeadPtr (OBJ_PendList ob)) s;
       s \<leftarrow> (if opt AND OS_OPT_POST_NO_SCHED = 0 then OSSched s else Some s);
       Some (OS_ERR_NONE, s)
     }
   }"

definition q_post_opts :: "OS_OPT set" where
  "q_post_opts = {OS_OPT_POST_FIFO, OS_OPT_POST_LIFO, OS_OPT_POST_FIFO OR OS_OPT_POST_ALL, OS_OPT_POST_LIFO OR OS_OPT_POST_ALL,
     OS_OPT_POST_FIFO OR OS_OPT_POST_NO_SCHED, OS_OPT_POST_LIFO OR OS_OPT_POST_NO_SCHED,
     OS_OPT_POST_FIFO OR OS_OPT_POST_ALL OR OS_OPT_POST_NO_SCHED, OS_OPT_POST_LIFO OR OS_OPT_POST_ALL OR OS_OPT_POST_NO_SCHED}"

definition OSQPost :: "ptr \<Rightarrow> ptr \<Rightarrow> OS_MSG_SIZE \<Rightarrow> OS_OPT \<Rightarrow> os \<Rightarrow> (OS_ERR \<times> os) option" where
  "OSQPost p_q p_void msg_size opt s =
     (if p_q = NULL then Some (OS_ERR_OBJ_PTR_NULL, s)
      else if opt \<notin> q_post_opts then Some (OS_ERR_OPT_INVALID, s)
      else do {
        ob \<leftarrow> objs s p_q;
        if OBJ_Type ob \<noteq> OS_OBJ_TYPE_Q then Some (OS_ERR_OBJ_TYPE, s)
        else let (ts, s) = OS_TS_GET s in OS_QPost p_q p_void msg_size opt ts s
      })"

subsection \<open>The invariant of the message queues\<close>

text \<open>The nodes of the pool are the set \<open>B\<close>; \<open>F\<close> are the free ones and \<open>X p\<close> those of the queue at \<open>p\<close>,
  in the order in which their messages will be received.\<close>

definition q_inv :: "os \<Rightarrow> ptr set \<Rightarrow> ptr list \<Rightarrow> (ptr \<Rightarrow> ptr list) \<Rightarrow> bool" where
  "q_inv s B F X \<longleftrightarrow> finite B \<and> NULL \<notin> B \<and> B \<subseteq> dom (msgs s) \<and> distinct F \<and> set F \<subseteq> B \<and> pool_ok s (card B) F \<and>
     (\<forall>p q. qs s p = Some q \<longrightarrow> msgq_ok s q (X p) \<and> distinct (X p) \<and> set (X p) \<subseteq> B \<and> set (X p) \<inter> set F = {}) \<and>
     (\<forall>p p'. p \<noteq> p' \<longrightarrow> p \<in> dom (qs s) \<longrightarrow> p' \<in> dom (qs s) \<longrightarrow> set (X p) \<inter> set (X p') = {})"

text \<open>A task waits on a queue only while the queue is empty.\<close>

definition q_wait :: "(ptr \<Rightarrow> ptr list) \<Rightarrow> (ptr \<Rightarrow> ptr list) \<Rightarrow> os \<Rightarrow> bool" where
  "q_wait X P s \<longleftrightarrow> (\<forall>p \<in> dom (qs s). P p = [] \<or> X p = [])"

definition q_at :: "os \<Rightarrow> ptr \<Rightarrow> OS_MSG_Q \<Rightarrow> bool" where
  "q_at s p q \<longleftrightarrow> p \<noteq> NULL \<and> qs s p = Some q \<and> (\<exists>b. objs s p = Some b \<and> OBJ_Type b = OS_OBJ_TYPE_Q)"

lemma q_inv_cong:
  "qs s' = qs s \<Longrightarrow> msgs s' = msgs s \<Longrightarrow> OSMsgPool s' = OSMsgPool s \<Longrightarrow> q_inv s' B F X = q_inv s B F X"
  by (simp add: q_inv_def pool_ok_def msgq_ok_def)

lemma q_inv_rel:
  assumes I: "q_inv s B F X" and q: "qs s p = Some q"
  shows "mq_rel s (card B) F q (X p)"
proof -
  have i: "finite B" "NULL \<notin> B" "B \<subseteq> dom (msgs s)" "distinct F" "set F \<subseteq> B" "pool_ok s (card B) F"
    "msgq_ok s q (X p)" "distinct (X p)" "set (X p) \<subseteq> B" "set (X p) \<inter> set F = {}" using I q by (simp_all add: q_inv_def)
  have d: "distinct (F @ X p)" using i(4,8,10) by auto
  have "length (F @ X p) = card (set (F @ X p))" using distinct_card [OF d] by simp
  also have "\<dots> \<le> card B" using i(1,5,9) by (intro card_mono) auto
  finally show ?thesis using i d by (auto simp: mq_rel_def)
qed

text \<open>An operation on one queue that only moves nodes between that queue and the free list keeps
  the invariant of all queues.\<close>

lemma q_inv_step:
  assumes I: "q_inv s B F X" and q: "qs s p = Some q" and F: "msg_frame Y s s'" and Y: "Y \<subseteq> set F \<union> set (X p)"
    and R: "mq_rel s' (card B) F' q' xs'" and n: "set (F' @ xs') = set (F @ X p)"
  shows "q_inv (q_set p q' s') B F' (X(p := xs'))"
proof -
  have fr: "dom (msgs s') = dom (msgs s)" "\<forall>x. x \<notin> Y \<longrightarrow> msgs s' x = msgs s x" using F by (simp_all add: msg_frame_def)
  note qs' = msg_frameD(1) [OF F]
  have un: "set F' \<union> set xs' = set F \<union> set (X p)" using n by simp
  have R': "distinct F'" "distinct xs'" "set F' \<inter> set xs' = {}" "pool_ok s' (card B) F'" "msgq_ok s' q' xs'" using R by (auto simp: mq_rel_def)
  have i: "finite B" "NULL \<notin> B" "B \<subseteq> dom (msgs s)" "set F \<union> set (X p) \<subseteq> B" using I q by (auto simp: q_inv_def)
  have other: "msgq_ok (q_set p q' s') c (X r) \<and> distinct (X r) \<and> set (X r) \<subseteq> B \<and> set (X r) \<inter> set F' = {} \<and> set (X r) \<inter> set xs' = {}"
    if r: "r \<noteq> p" "qs s r = Some c" for r c
  proof -
    have o: "msgq_ok s c (X r)" "distinct (X r)" "set (X r) \<subseteq> B" "set (X r) \<inter> set F = {}" using I r by (simp_all add: q_inv_def)
    have "set (X r) \<inter> set (X p) = {}" using I r q unfolding q_inv_def by (metis domI)
    then have dj: "set (X r) \<inter> (set F \<union> set (X p)) = {}" using o(4) by auto
    have "msgs s' x = msgs s x" if "x \<in> set (X r)" for x using that dj fr(2) Y by blast
    then have "path (fld MSG_NextPtr (msgs s')) a (X r) e = path (fld MSG_NextPtr (msgs s)) a (X r) e" for a e
      by (intro path_cong) (simp add: fld_def)
    then have "msgq_ok (q_set p q' s') c (X r)" using o(1) by (simp add: msgq_ok_def q_set_def)
    moreover have "set (X r) \<inter> set F' = {}" "set (X r) \<inter> set xs' = {}" using dj unfolding un [symmetric] by auto
    ultimately show ?thesis using o by blast
  qed
  have dom: "qs (q_set p q' s') r = (if r = p then Some q' else qs s r)" for r by (simp add: q_set_def qs')
  have ms: "msgs (q_set p q' s') = msgs s'" "OSMsgPool (q_set p q' s') = OSMsgPool s'" by (simp_all add: q_set_def)
  have po: "pool_ok (q_set p q' s') (card B) F'" "msgq_ok (q_set p q' s') q' xs'" using R'(4,5) by (simp_all add: pool_ok_def msgq_ok_def ms)
  have "set F' \<subseteq> B" "set xs' \<subseteq> B" using un i(4) by auto
  moreover have "set ((X(p := xs')) r) \<inter> set ((X(p := xs')) r') = {}" if "r \<noteq> r'" "r \<in> dom (qs (q_set p q' s'))" "r' \<in> dom (qs (q_set p q' s'))" for r r'
  proof -
    note d = that
    consider "r = p" "r' \<noteq> p" | "r' = p" "r \<noteq> p" | "r \<noteq> p" "r' \<noteq> p" using d(1) by blast
    then show ?thesis
    proof cases
      case 1
      with d(3) dom obtain c where "qs s r' = Some c" by auto
      with other [OF 1(2) this] 1 show ?thesis by auto
    next
      case 2
      with d(2) dom obtain c where "qs s r = Some c" by auto
      with other [OF 2(2) this] 2 show ?thesis by auto
    next
      case 3
      with d dom have "r \<in> dom (qs s)" "r' \<in> dom (qs s)" by (auto split: if_splits)
      with I d(1) 3 show ?thesis by (simp add: q_inv_def)
    qed
  qed
  moreover have "msgq_ok (q_set p q' s') c ((X(p := xs')) r) \<and> distinct ((X(p := xs')) r) \<and> set ((X(p := xs')) r) \<subseteq> B \<and> set ((X(p := xs')) r) \<inter> set F' = {}"
    if "qs (q_set p q' s') r = Some c" for r c
    using that other [of r c] R'(2,3) po(2) \<open>set xs' \<subseteq> B\<close> by (cases "r = p") (auto simp: dom)
  ultimately show ?thesis using i(1-3) fr(1) R'(1) po(1) unfolding q_inv_def ms by simp
qed


lemma sys_msg_frame:
  assumes "msg_frame Y s s'" "sys s R P W"
  shows "sys (q_set p q s') R P W"
proof -
  have "sys (s'\<lparr>msgs := msgs s, OSMsgPool := OSMsgPool s\<rparr>) R P W" using assms by (simp add: msg_frame_def)
  then show ?thesis by (simp add: q_set_def)
qed

lemma q_inv_ts [simp]: "q_inv (snd (OS_TS_GET s)) B F X = q_inv s B F X"
  by (rule q_inv_cong) (simp_all add: OS_TS_GET_def)

lemma sys_ts [simp]: "sys (snd (OS_TS_GET s)) R P W = sys s R P W"
  by (simp add: OS_TS_GET_def)

lemma ts_get_sel [simp]:
  "qs (snd (OS_TS_GET s)) = qs s" "objs (snd (OS_TS_GET s)) = objs s" "msgs (snd (OS_TS_GET s)) = msgs s" "OSMsgPool (snd (OS_TS_GET s)) = OSMsgPool s"
  "waiter (snd (OS_TS_GET s)) = waiter s" "msg_val (snd (OS_TS_GET s)) = msg_val s" "sems (snd (OS_TS_GET s)) = sems s"
  by (simp_all add: OS_TS_GET_def fun_eq_iff msg_val_def)

text \<open>Posting where no task waits: a full queue and an empty pool are errors that change nothing,
  otherwise the message is queued at the end or, for a LIFO post, at the front.\<close>

lemma OSQPost_queue:
  assumes S: "sys s R P W" and q: "q_at s p q" and P: "P p = []" and opt: "opt \<in> q_post_opts"
  shows "OSQPost p p_void msg_size opt s = OS_MsgQPut q p_void msg_size (if opt AND OS_OPT_POST_LIFO = 0 then OS_OPT_POST_FIFO else OS_OPT_POST_LIFO)
    (fst (OS_TS_GET s)) (snd (OS_TS_GET s)) \<bind> (\<lambda>(err, q, s). Some (err, q_set p q s))"
proof -
  from q obtain b where b: "p \<noteq> NULL" "qs s p = Some q" "objs s p = Some b" "OBJ_Type b = OS_OBJ_TYPE_Q" by (auto simp: q_at_def)
  have "PL_NbrEntries (OBJ_PendList b) = 0" using pend_empty_iff(1) [OF _ b(3)] S P by (auto simp: sys_def)
  with b opt show ?thesis by (simp add: OSQPost_def OS_QPost_def case_prod_unfold Let_def)
qed

lemma OSQPost_full:
  assumes S: "sys s R P W" and q: "q_at s p q" and P: "P p = []" and opt: "opt \<in> q_post_opts" and I: "q_inv s B F X"
    and full: "length (X p) = unat (MQ_NbrEntriesSize q)"
  shows "OSQPost p p_void msg_size opt s = Some (OS_ERR_Q_MAX, snd (OS_TS_GET s))"
proof -
  have q': "qs s p = Some q" using q by (simp add: q_at_def)
  have "unat (MQ_NbrEntries q) = length (X p)" using I q' by (simp add: q_inv_def msgq_ok_def)
  then have "MQ_NbrEntries q \<ge> MQ_NbrEntriesSize q" using full by (simp add: word_le_nat_alt)
  moreover have "q_set p q (snd (OS_TS_GET s)) = snd (OS_TS_GET s)" using q' by (simp add: q_set_def fun_upd_idem OS_TS_GET_def)
  ultimately show ?thesis unfolding OSQPost_queue [OF S q P opt] by (simp add: OS_MsgQPut_def)
qed

lemma OSQPost_pool_empty:
  assumes S: "sys s R P W" and q: "q_at s p q" and P: "P p = []" and opt: "opt \<in> q_post_opts" and I: "q_inv s B [] X"
    and room: "length (X p) < unat (MQ_NbrEntriesSize q)"
  shows "OSQPost p p_void msg_size opt s = Some (OS_ERR_MSG_POOL_EMPTY, snd (OS_TS_GET s))"
proof -
  have q': "qs s p = Some q" using q by (simp add: q_at_def)
  have "unat (MQ_NbrEntries q) = length (X p)" "unat (POOL_NbrFree (OSMsgPool s)) = 0" using I q' by (simp_all add: q_inv_def msgq_ok_def pool_ok_def)
  then have "\<not> MQ_NbrEntries q \<ge> MQ_NbrEntriesSize q" "POOL_NbrFree (OSMsgPool s) = 0" using room by (simp_all add: word_le_nat_alt unat_eq_numD)
  moreover have "q_set p q (snd (OS_TS_GET s)) = snd (OS_TS_GET s)" using q' by (simp add: q_set_def fun_upd_idem OS_TS_GET_def)
  ultimately show ?thesis unfolding OSQPost_queue [OF S q P opt] by (simp add: OS_MsgQPut_def)
qed

lemma OSQPost_puts:
  assumes S: "sys s R P W" and q: "q_at s p q" and P: "P p = []" and opt: "opt \<in> q_post_opts" and I: "q_inv s B (x # F) X"
    and room: "length (X p) < unat (MQ_NbrEntriesSize q)"
  shows "\<exists>s'. OSQPost p p_void msg_size opt s = Some (OS_ERR_NONE, s') \<and> sys s' R P W \<and>
    q_inv s' B F (X(p := put_nodes opt x (X p))) \<and>
    mq_vals s' (put_nodes opt x (X p)) = put_nodes opt (p_void, msg_size, fst (OS_TS_GET s)) (mq_vals s (X p)) \<and>
    (\<forall>y. y \<noteq> x \<longrightarrow> msg_val s' y = msg_val s y)"
proof -
  let ?s = "snd (OS_TS_GET s)" and ?ts = "fst (OS_TS_GET s)" and ?pt = "if opt AND OS_OPT_POST_LIFO = 0 then OS_OPT_POST_FIFO else OS_OPT_POST_LIFO"
  have q': "qs ?s p = Some q" using q by (simp add: q_at_def)
  have I': "q_inv ?s B (x # F) X" using I by simp
  have len: "unat (MQ_NbrEntries q) = length (X p)" using I q by (simp add: q_inv_def msgq_ok_def q_at_def)
  have lt: "\<not> MQ_NbrEntries q \<ge> MQ_NbrEntriesSize q" using room len by (simp add: word_le_nat_alt)
  have pn: "put_nodes ?pt = put_nodes opt" by (simp add: put_nodes_def fifo_def fun_eq_iff)
  have xX: "x \<notin> set (X p)" using I q by (auto simp: q_inv_def q_at_def)
  from OS_MsgQPut_ok [OF q_inv_rel [OF I' q'] lt, of p_void msg_size ?pt ?ts] obtain q1 s1 where
    s1: "OS_MsgQPut q p_void msg_size ?pt ?ts ?s = Some (OS_ERR_NONE, q1, s1)" "mq_rel s1 (card B) F q1 (put_nodes opt x (X p))"
    "msg_frame (insert x (set (X p))) ?s s1" "msg_val s1 x = (p_void, msg_size, ?ts)" "\<forall>y. y \<noteq> x \<longrightarrow> msg_val s1 y = msg_val ?s y"
    unfolding pn by blast
  have "OSQPost p p_void msg_size opt s = Some (OS_ERR_NONE, q_set p q1 s1)" unfolding OSQPost_queue [OF S q P opt] s1(1) by simp
  moreover have "sys (q_set p q1 s1) R P W" by (rule sys_msg_frame [OF s1(3)]) (use S in simp)
  moreover have "q_inv (q_set p q1 s1) B F (X(p := put_nodes opt x (X p)))"
    by (rule q_inv_step [OF I' q' s1(3) _ s1(2)]) auto
  moreover have "msg_val (q_set p q1 s1) = msg_val s1" by (simp add: fun_eq_iff msg_val_def q_set_def)
  moreover have "mq_vals s1 (put_nodes opt x (X p)) = put_nodes opt (p_void, msg_size, ?ts) (mq_vals s (X p))"
    by (rule mq_vals_put [OF s1(4) _ xX]) (use s1(5) in simp)
  ultimately show ?thesis using s1(5) by (intro exI [of _ "q_set p q1 s1"]) (simp add: mq_vals_def)
qed

lemma OSQPost_wakes:
  assumes S: "sys s R P W" and q: "q_at s p q" and P: "P p \<noteq> []" and once: "distinct (map (waiter s) (P p))" and opt: "opt \<in> q_post_opts"
  defines "n \<equiv> (if opt AND OS_OPT_POST_ALL \<noteq> 0 then length (P p) else 1)"
  shows "\<exists>s1 s' R' P' W'. OSQPost p p_void msg_size opt s = Some (OS_ERR_NONE, s') \<and> sys s' R' P' W' \<and> P' p = drop n (P p) \<and>
    (\<forall>q. set (P' q) \<subseteq> set (P q)) \<and> qs s' = qs s \<and> sw_frame s1 s' \<and>
    woken_all OS_STATUS_PEND_OK (p_void, msg_size, fst (OS_TS_GET s)) (snd (OS_TS_GET s)) (take n (P p)) s1 \<and>
    (opt AND OS_OPT_POST_NO_SCHED = 0 \<longrightarrow> sched_done s1 R' s')"
proof -
  from q obtain b where b: "p \<noteq> NULL" "qs s p = Some q" "objs s p = Some b" "OBJ_Type b = OS_OBJ_TYPE_Q" by (auto simp: q_at_def)
  let ?s0 = "snd (OS_TS_GET s)" and ?ts = "fst (OS_TS_GET s)"
  have g: "sys ?s0 R P W" "objs ?s0 p = Some b" using S b(3) by simp_all
  have n: "n \<le> length (P p)" using P by (cases "P p") (auto simp: n_def)
  from post_sched_ok [OF g(1,2) b(1) _ n, of p_void msg_size ?ts "opt AND OS_OPT_POST_NO_SCHED = 0"] once
  obtain s1 s' R' P' W' where s1: "post_loop n p p_void msg_size ?ts (PL_HeadPtr (OBJ_PendList b)) ?s0 = Some s1"
    "(if opt AND OS_OPT_POST_NO_SCHED = 0 then OSSched s1 else Some s1) = Some s'" "sys s' R' P' W'" "P' p = drop n (P p)"
    "\<forall>q. set (P' q) \<subseteq> set (P q)" "woken_all OS_STATUS_PEND_OK (p_void, msg_size, ?ts) ?s0 (take n (P p)) s1" "sw_frame s1 s'"
    "opt AND OS_OPT_POST_NO_SCHED = 0 \<longrightarrow> sched_done s1 R' s'" by auto
  have K: "kinv s R P W" using S by (simp add: sys_def)
  have ne: "PL_NbrEntries (OBJ_PendList b) \<noteq> 0" using pend_empty_iff(1) [OF K b(3)] P by simp
  have c: "unat (if opt AND OS_OPT_POST_ALL \<noteq> 0 then PL_NbrEntries (OBJ_PendList b) else 1) = n"
    unfolding n_def by (rule post_count [OF K b(3) P])
  have "OS_QPost p p_void msg_size opt ?ts ?s0 = Some (OS_ERR_NONE, s')"
    unfolding OS_QPost_def Let_def using g(2) ne s1(1,2) by (simp add: c)
  then have "OSQPost p p_void msg_size opt s = Some (OS_ERR_NONE, s')" using b opt by (simp add: OSQPost_def case_prod_unfold)
  moreover have "qs s' = qs s" using woken_all_globals(2) [OF s1(6)] sw_frame_globals(4) [OF s1(7)] by simp
  ultimately show ?thesis using s1 by blast
qed


subsection \<open>Receiving\<close>

lemma OSQPend_gets:
  assumes S: "sys s R P W" and q: "q_at s p q" and I: "q_inv s B F X" and X: "X p = x # xs" and n: "OSIntNestingCtr s = 0"
    and opt: "opt \<in> {OS_OPT_PEND_BLOCKING, OS_OPT_PEND_NON_BLOCKING}"
  shows "\<exists>s' m z ts. msg_val s x = (m, z, ts) \<and> OSQPend d p timeout opt True p_ts s = Some (Done (m, Some z, ts_out p_ts ts, OS_ERR_NONE), s') \<and>
    sys s' R P W \<and> q_inv s' B (x # F) (X(p := xs)) \<and> (\<forall>y. msg_val s' y = msg_val s y)"
proof -
  from q obtain b where b: "p \<noteq> NULL" "qs s p = Some q" "objs s p = Some b" "OBJ_Type b = OS_OBJ_TYPE_Q" by (auto simp: q_at_def)
  obtain m z ts where v: "msg_val s x = (m, z, ts)" by (metis prod.exhaust)
  from OS_MsgQGet_ok [of s "card B" F q x xs] q_inv_rel [OF I b(2)] X v obtain q1 s1 where
    s1: "OS_MsgQGet q s = Some (m, z, ts, OS_ERR_NONE, q1, s1)" "mq_rel s1 (card B) (x # F) q1 xs" "msg_frame {x} s s1" "\<forall>y. msg_val s1 y = msg_val s y"
    by auto
  have "OSQPend d p timeout opt True p_ts s = Some (Done (m, Some z, ts_out p_ts ts, OS_ERR_NONE), q_set p q1 s1)"
    using b n opt s1(1) by (auto simp: OSQPend_def)
  moreover have "sys (q_set p q1 s1) R P W" by (rule sys_msg_frame [OF s1(3) S])
  moreover have "q_inv (q_set p q1 s1) B (x # F) (X(p := xs))" by (rule q_inv_step [OF I b(2) s1(3) _ s1(2)]) (use X in auto)
  moreover have "msg_val (q_set p q1 s1) = msg_val s1" by (simp add: fun_eq_iff msg_val_def q_set_def)
  ultimately show ?thesis using v s1(4) by auto
qed

lemma OSQPend_empty:
  assumes q: "q_at s p q" and I: "q_inv s B F X" and X: "X p = []"
  shows "OS_MsgQGet q s = Some (NULL, 0, 0, OS_ERR_Q_EMPTY, q, s)" "q_set p q s = s"
proof -
  have q': "qs s p = Some q" using q by (simp add: q_at_def)
  have "unat (MQ_NbrEntries q) = 0" using I X q' by (simp add: q_inv_def msgq_ok_def)
  then have "MQ_NbrEntries q = 0" by (rule unat_eq_numD(2))
  then show "OS_MsgQGet q s = Some (NULL, 0, 0, OS_ERR_Q_EMPTY, q, s)" by (simp add: OS_MsgQGet_def)
  show "q_set p q s = s" using q' by (simp add: q_set_def fun_upd_idem)
qed

lemma OSQPend_would_block:
  assumes q: "q_at s p q" and I: "q_inv s B F X" and X: "X p = []" and n: "OSIntNestingCtr s = 0"
  shows "OSQPend d p timeout OS_OPT_PEND_NON_BLOCKING True p_ts s = Some (Done (NULL, Some 0, ts_out p_ts 0, OS_ERR_PEND_WOULD_BLOCK), s)"
  using q n OSQPend_empty [OF q I X] by (auto simp: OSQPend_def q_at_def)

lemma OSQPend_blocks:
  assumes S: "sys s R P W" and q: "q_at s p q" and I: "q_inv s B F X" and X: "X p = []" and n: "OSIntNestingCtr s = 0" "OSSchedLockNestingCtr s = 0"
    and o: "y \<in> set (R r)" "y \<noteq> OSTCBCurPtr s" and d: "d \<in> dom (pds s)" "d \<noteq> NULL" "\<And>ob. d \<notin> set (P ob)"
  shows "\<exists>s1 s' R'. OSQPend d p timeout OS_OPT_PEND_BLOCKING True p_ts s = Some (Blocked, s') \<and>
    blocked s R P W (OSTCBCurPtr s) d p OS_TASK_PEND_ON_Q timeout s1 \<and> sw_frame s1 s' \<and> q_inv s' B F X \<and>
    sys s' R' (P(p := prio_insert (pd_prio s1) d (P p))) (tick_block s (OSTCBCurPtr s) timeout s1 W) \<and>
    (\<forall>p. R' p = remove1 (OSTCBCurPtr s) (R p)) \<and> OSTCBCurPtr s' = top_task R' \<and> OSTCBCurPtr s' \<noteq> OSTCBCurPtr s"
proof -
  from q obtain b where b: "p \<noteq> NULL" "qs s p = Some q" "objs s p = Some b" "OBJ_Type b = OS_OBJ_TYPE_Q" by (auto simp: q_at_def)
  from pend_sched_ok [OF S n o, of p d OS_TASK_PEND_ON_Q timeout] b(1,3) d obtain s1 s2 R' where
    s1: "OS_Pend d p OS_TASK_PEND_ON_Q timeout s = Some s1" "OSSched s1 = Some s2"
    "blocked s R P W (OSTCBCurPtr s) d p OS_TASK_PEND_ON_Q timeout s1" "sw_frame s1 s2"
    "sys s2 R' (pend_block s1 p d P) (tick_block s (OSTCBCurPtr s) timeout s1 W)" "\<forall>p. R' p = remove1 (OSTCBCurPtr s) (R p)"
    "OSTCBCurPtr s2 = top_task R'" "OSTCBCurPtr s2 \<noteq> OSTCBCurPtr s" by blast
  from s1(3) obtain A D where "kframe A D s s1" unfolding blocked_def by blast
  note g = kframe_globals [OF this]
  have "qs s2 = qs s" "msgs s2 = msgs s" "OSMsgPool s2 = OSMsgPool s"
    using g(2,4,7) sw_frame_globals(4,5,13) [OF s1(4)] by simp_all
  then have "q_inv s2 B F X" using I q_inv_cong by blast
  moreover have "OSQPend d p timeout OS_OPT_PEND_BLOCKING True p_ts s = Some (Blocked, s2)"
    using b n s1(1,2) OSQPend_empty [OF q I X] by (simp add: OSQPend_def)
  ultimately show ?thesis using s1 b(1) unfolding pend_block_def by auto
qed

lemma OSQPendAbort_ok:
  assumes S: "sys s R P W" and q: "q_at s p q" and n0: "OSIntNestingCtr s = 0" and once: "distinct (map (waiter s) (P p))" and P: "P p \<noteq> []"
    and opt: "opt \<in> {OS_OPT_PEND_ABORT_1, OS_OPT_PEND_ABORT_ALL, OS_OPT_PEND_ABORT_1 OR OS_OPT_POST_NO_SCHED, OS_OPT_PEND_ABORT_ALL OR OS_OPT_POST_NO_SCHED}"
  defines "n \<equiv> (if opt = OS_OPT_PEND_ABORT_ALL then length (P p) else 1)"
  shows "\<exists>s1 s' R' P' W'. OSQPendAbort p opt s = Some (of_nat n, OS_ERR_NONE, s') \<and> sys s' R' P' W' \<and> P' p = drop n (P p) \<and>
    (\<forall>q. set (P' q) \<subseteq> set (P q)) \<and> sw_frame s1 s' \<and>
    woken_all OS_STATUS_PEND_ABORT (NULL, 0, fst (OS_TS_GET s)) (snd (OS_TS_GET s)) (take n (P p)) s1"
proof -
  from q obtain b where b: "p \<noteq> NULL" "objs s p = Some b" "OBJ_Type b = OS_OBJ_TYPE_Q" by (auto simp: q_at_def)
  let ?s0 = "snd (OS_TS_GET s)" and ?ts = "fst (OS_TS_GET s)"
  have g: "sys ?s0 R P W" "p \<in> dom (objs ?s0)" using S b(2) by auto
  have n: "(if opt = OS_OPT_PEND_ABORT_ALL then length (P p) else min 1 (length (P p))) = n" using P by (cases "P p") (auto simp: n_def)
  from abort_sched_ok [OF g b(1), of "opt = OS_OPT_PEND_ABORT_ALL" ?ts "opt AND OS_OPT_POST_NO_SCHED = 0"] once
  obtain s1 s' R' P' W' where s1: "abort_loop p (opt = OS_OPT_PEND_ABORT_ALL) ?ts 0 ?s0 = Some (of_nat n, s1)"
    "(if opt AND OS_OPT_POST_NO_SCHED = 0 then OSSched s1 else Some s1) = Some s'" "sys s' R' P' W'" "P' p = drop n (P p)"
    "\<forall>q. set (P' q) \<subseteq> set (P q)" "woken_all OS_STATUS_PEND_ABORT (NULL, 0, ?ts) ?s0 (take n (P p)) s1" "sw_frame s1 s'"
    unfolding n by auto
  have "PL_NbrEntries (OBJ_PendList b) \<noteq> 0" using pend_empty_iff(1) [OF _ b(2)] S P by (auto simp: sys_def)
  then have "OSQPendAbort p opt s = Some (of_nat n, OS_ERR_NONE, s')"
    unfolding OSQPendAbort_def using b opt n0 s1(1,2) by (cases "opt AND OS_OPT_POST_NO_SCHED = 0") (simp_all add: case_prod_unfold)
  then show ?thesis using s1 by blast
qed

lemma OSQFlush_ok:
  assumes S: "sys s R P W" and q: "q_at s p q" and I: "q_inv s B F X" and n: "OSIntNestingCtr s = 0"
  shows "\<exists>s'. OSQFlush p s = Some (of_nat (length (X p)), OS_ERR_NONE, s') \<and> sys s' R P W \<and> q_inv s' B (X p @ F) (X(p := []))"
proof -
  from q obtain b where b: "p \<noteq> NULL" "qs s p = Some q" "objs s p = Some b" "OBJ_Type b = OS_OBJ_TYPE_Q" by (auto simp: q_at_def)
  from OS_MsgQFreeAll_ok [OF q_inv_rel [OF I b(2)]] obtain q1 s1 where
    s1: "OS_MsgQFreeAll q s = Some (of_nat (length (X p)), q1, s1)" "mq_rel s1 (card B) (X p @ F) q1 []" "msg_frame (set (X p)) s s1" by blast
  have "OSQFlush p s = Some (of_nat (length (X p)), OS_ERR_NONE, q_set p q1 s1)" using b n s1(1) by (simp add: OSQFlush_def)
  moreover have "sys (q_set p q1 s1) R P W" by (rule sys_msg_frame [OF s1(3) S])
  moreover have "q_inv (q_set p q1 s1) B (X p @ F) (X(p := []))" by (rule q_inv_step [OF I b(2) s1(3) _ s1(2)]) auto
  ultimately show ?thesis by blast
qed

end
