(* ===== verification/Object_Props.thy ===== *)
theory Object_Props
  imports OS_Sem OS_Q OS_Example
begin

text \<open>
  The properties of the kernel objects built on the core: semaphores, message queues and the
  message pool, each with a witness on the state \<open>demo\<close> of \<open>OS_Example\<close>.
\<close>

subsection \<open>The example state\<close>

lemma demo_cur_rdy: "cur_rdy demo" by (simp add: cur_rdy_def demo_def demo_tcb_def tcb0_def)

lemma demo_sys: "sys demo demo_R demo_P demo_W"
  using demo_kinv demo_cur_rdy by (simp add: sys_def)

lemma demo_P_sel [simp]: "demo_P 20 = [10]" "demo_P 21 = []" "demo_P 22 = []" "demo_P 23 = [12]" "demo_P 24 = []" "demo_P 25 = []"
  by (simp_all add: demo_P_def)

lemma demo_sem: "sem_at demo 20 \<lparr>SEM_Ctr = 0, SEM_TS = 0\<rparr>" "sem_at demo 21 \<lparr>SEM_Ctr = 2, SEM_TS = 0\<rparr>"
  by (simp_all add: sem_at_def demo_def obj0_def)

lemma demo_sem_inv: "sem_inv demo demo_P"
  by (auto simp: sem_inv_def demo_def demo_P_def split: if_splits)

lemma demo_ctrs [simp]: "OSIntNestingCtr demo = 0" "OSSchedLockNestingCtr demo = 0" "OSTCBCurPtr demo = 1"
  by (simp_all add: demo_def os0_def)

lemma demo_free_pd: "11 \<in> dom (pds demo)" "11 \<notin> set (demo_P ob)" "2 \<in> set (demo_R 5)"
  by (simp_all add: demo_def demo_P_def demo_R_def)

text \<open>The tasks whose waits ended carry the status and the message of the wake-up.\<close>

definition woke :: "OS_STATUS \<Rightarrow> ptr \<times> OS_MSG_SIZE \<times> CPU_TS \<Rightarrow> os \<Rightarrow> ptr list \<Rightarrow> os \<Rightarrow> bool" where
  "woke st msg s ds s' \<longleftrightarrow>
     (\<forall>d \<in> set ds. \<exists>t t'. tcbs s (waiter s d) = Some t \<and> tcbs s' (waiter s d) = Some t' \<and> woken_tcb st msg t t')"

lemma tcb_stat_woken: "tcb_stat u = tcb_stat t' \<Longrightarrow> woken_tcb st msg t u = woken_tcb st msg t t'"
proof -
  have "woken_tcb st msg t (tcb_stat u) = woken_tcb st msg t u" for u by (simp add: woken_tcb_def tcb_stat_def tcb_msg_def)
  then show "tcb_stat u = tcb_stat t' \<Longrightarrow> woken_tcb st msg t u = woken_tcb st msg t t'" by metis
qed

lemma woken_all_woke:
  assumes "woken_all st msg (snd (OS_TS_GET s)) ds s1" "sw_frame s1 s'"
  shows "woke st msg s ds s'"
proof -
  have e: "tcbs (snd (OS_TS_GET s)) = tcbs s" by (simp add: OS_TS_GET_def)
  have "\<exists>t t'. tcbs s (waiter s d) = Some t \<and> tcbs s' (waiter s d) = Some t' \<and> woken_tcb st msg t t'" if d: "d \<in> set ds" for d
  proof -
    from assms(1) d obtain t t1 where t: "tcbs s (waiter s d) = Some t" "tcbs s1 (waiter s d) = Some t1" "woken_tcb st msg t t1"
      unfolding woken_all_def ts_get_sel e by blast
    have "map_option tcb_stat (tcbs s' (waiter s d)) = Some (tcb_stat t1)" using assms(2) t(2) by (simp add: sw_frame_def)
    then obtain t' where "tcbs s' (waiter s d) = Some t'" "tcb_stat t' = tcb_stat t1" by (auto simp: map_option_Some_iff)
    with t tcb_stat_woken show ?thesis by blast
  qed
  then show ?thesis by (simp add: woke_def)
qed

subsection \<open>Semaphores\<close>

lemma unat_inc_max:
  fixes w :: "32 word"
  assumes "w \<noteq> - 1"
  shows "unat (w + 1) = Suc (unat w)"
proof -
  have "unat w \<noteq> unat (- 1 :: 32 word)" using assms by (simp add: word_unat_eq_iff)
  then have "Suc (unat w) < 2 ^ LENGTH(32)" unfolding unsigned_minus_1_eq_mask mask_eq_exp_minus_1 using unsigned_less [of w, where 'a = nat] by simp
  then show ?thesis by (rule unat_inc [OF refl])
qed

text \<open>C8. Posting a semaphore on which no task waits increments its counter, or reports
  the overflow and leaves the counter alone when the counter is at its maximum; posting a
  semaphore on which tasks wait leaves the counter alone and wakes the most urgent task, or all of
  them when asked to, with status OK.  The kernel invariant and the semaphore invariant (no task
  waits on a semaphore with a positive counter) are kept.\<close>

theorem OSSemPost_spec:
  assumes "sys s R P W" "sem_at s p m" "sem_inv s P" "distinct (map (waiter s) (P p))" "opt \<in> post_opts"
  shows "\<exists>r err s' R' P' W'. OSSemPost p opt s = Some (r, err, s') \<and> sys s' R' P' W' \<and> sem_inv s' P' \<and>
    (if P p = [] then
       if SEM_Ctr m = - 1 then err = OS_ERR_SEM_OVF \<and> sems s' = sems s
       else err = OS_ERR_NONE \<and> unat r = Suc (unat (SEM_Ctr m)) \<and> map_option SEM_Ctr (sems s' p) = Some r
     else let n = (if opt AND OS_OPT_POST_ALL \<noteq> 0 then length (P p) else 1) in
       err = OS_ERR_NONE \<and> r = SEM_Ctr m \<and> sems s' = sems s \<and> P' p = drop n (P p) \<and>
       woke OS_STATUS_PEND_OK (NULL, 0, fst (OS_TS_GET s)) s (take n (P p)) s')"
proof (cases "P p = []")
  case True
  let ?s = "snd (OS_TS_GET s)" let ?m = "m\<lparr>SEM_Ctr := SEM_Ctr m + 1, SEM_TS := fst (OS_TS_GET s)\<rparr>"
  note f = OSSemPost_free [OF assms(1,2) True assms(5)]
  have i: "sem_inv ?s P" "sem_inv (?s\<lparr>sems := (sems s)(p \<mapsto> ?m)\<rparr>) P"
    using assms(3) sem_inv_upd [of ?s P ?m p] True by (simp_all add: OS_TS_GET_def)
  have "unat (SEM_Ctr m + 1) = Suc (unat (SEM_Ctr m))" if "SEM_Ctr m \<noteq> - 1" by (rule unat_inc_max [OF that])
  then show ?thesis using f i assms(1) True
    by (cases "SEM_Ctr m = - 1")
      (intro exI [of _ 0] exI [of _ OS_ERR_SEM_OVF] exI [of _ ?s] exI [of _ R] exI [of _ P] exI [of _ W], simp,
       intro exI [of _ "SEM_Ctr m + 1"] exI [of _ OS_ERR_NONE] exI [of _ "?s\<lparr>sems := (sems s)(p \<mapsto> ?m)\<rparr>"] exI [of _ R] exI [of _ P] exI [of _ W], simp)
next
  case False
  from OSSemPost_wakes [OF assms(1,2) False assms(4,5)] obtain s1 s' R' P' W' where
    w: "OSSemPost p opt s = Some (SEM_Ctr m, OS_ERR_NONE, s')" "sys s' R' P' W'"
      "P' p = drop (if opt AND OS_OPT_POST_ALL \<noteq> 0 then length (P p) else 1) (P p)"
      "\<forall>q. set (P' q) \<subseteq> set (P q)" "sems s' = sems s" "sw_frame s1 s'"
      "woken_all OS_STATUS_PEND_OK (NULL, 0, fst (OS_TS_GET s)) (snd (OS_TS_GET s)) (take (if opt AND OS_OPT_POST_ALL \<noteq> 0 then length (P p) else 1) (P p)) s1"
    by blast
  have "sem_inv s' P'" by (rule sem_inv_shrink [OF assms(3) w(4,5)])
  with w(1,2,3,5) woken_all_woke [OF w(7,6)] False show ?thesis unfolding Let_def
    by (intro exI [of _ "SEM_Ctr m"] exI [of _ OS_ERR_NONE] exI [of _ s'] exI [of _ R'] exI [of _ P'] exI [of _ W']) simp
qed

theorem OSSemPost_spec_witness:
  "\<exists>r err s' R' P' W'. OSSemPost 20 OS_OPT_POST_1 demo = Some (r, err, s') \<and> sys s' R' P' W' \<and> sem_inv s' P' \<and>
    err = OS_ERR_NONE \<and> r = 0 \<and> P' 20 = [] \<and> woke OS_STATUS_PEND_OK (NULL, 0, fst (OS_TS_GET demo)) demo [10] s'"
  using OSSemPost_spec [OF demo_sys demo_sem(1) demo_sem_inv, of OS_OPT_POST_1] by (simp add: post_opts_def Let_def) blast

text \<open>C9. A pending call takes one unit of a positive counter without blocking.  On a
  counter of zero the non-blocking call reports that it would block and changes nothing, and the
  blocking call, made with the scheduler unlocked, puts the running task on the semaphore's pend
  list in the order of the priorities and hands the processor to the most urgent ready task.\<close>

theorem OSSemPend_spec:
  assumes "sys s R P W" "sem_at s p m" "sem_inv s P" "OSIntNestingCtr s = 0" "OSSchedLockNestingCtr s = 0"
    and "y \<in> set (R q)" "y \<noteq> OSTCBCurPtr s" "d \<in> dom (pds s)" "d \<noteq> NULL" "\<And>ob. d \<notin> set (P ob)"
    and "opt \<in> {OS_OPT_PEND_BLOCKING, OS_OPT_PEND_NON_BLOCKING}"
  shows "if SEM_Ctr m > 0 then \<exists>s'. OSSemPend d p timeout opt p_ts s = Some (Done (SEM_Ctr m - 1, ts_out p_ts (SEM_TS m), OS_ERR_NONE), s') \<and>
      sys s' R P W \<and> sem_inv s' P \<and> sem_at s' p (m\<lparr>SEM_Ctr := SEM_Ctr m - 1\<rparr>)
    else if opt = OS_OPT_PEND_NON_BLOCKING then OSSemPend d p timeout opt p_ts s = Some (Done (0, ts_out p_ts 0, OS_ERR_PEND_WOULD_BLOCK), s)
    else \<exists>s1 s' R' W'. OSSemPend d p timeout opt p_ts s = Some (Blocked, s') \<and> sys s' R' (P(p := prio_insert (pd_prio s1) d (P p))) W' \<and>
      sem_inv s' (P(p := prio_insert (pd_prio s1) d (P p))) \<and> (\<forall>p. R' p = remove1 (OSTCBCurPtr s) (R p)) \<and>
      OSTCBCurPtr s' = top_task R' \<and> OSTCBCurPtr s' \<noteq> OSTCBCurPtr s"
proof -
  consider (t) "SEM_Ctr m > 0" | (n) "SEM_Ctr m = 0" "opt = OS_OPT_PEND_NON_BLOCKING" | (b) "SEM_Ctr m = 0" "opt = OS_OPT_PEND_BLOCKING"
    using assms(11) by (metis insertE singletonD word_gt_0)
  then show ?thesis
  proof cases
    case t
    let ?m = "m\<lparr>SEM_Ctr := SEM_Ctr m - 1\<rparr>" let ?s = "s\<lparr>sems := (sems s)(p \<mapsto> ?m)\<rparr>"
    have "P p = []" using assms(2,3) t by (simp add: sem_at_def sem_inv_def)
    then have "sem_inv ?s P" by (intro sem_inv_upd [OF assms(3)])
    moreover have "sem_at ?s p ?m" using assms(2) by (simp add: sem_at_def)
    ultimately show ?thesis using OSSemPend_takes [OF assms(2) t assms(4,11)] assms(1) t by (intro if_bool_eq_conj [THEN iffD2] conjI impI exI [of _ ?s]) auto
  next
    case n
    with assms(2,4) show ?thesis by (auto simp: OSSemPend_def sem_at_def)
  next
    case b
    from OSSemPend_blocks [OF assms(1,2) b(1) assms(4-9), of timeout p_ts] assms(10) obtain s1 s' R' where
      s': "OSSemPend d p timeout opt p_ts s = Some (Blocked, s')" "sems s' = sems s"
      "sys s' R' (P(p := prio_insert (pd_prio s1) d (P p))) (tick_block s (OSTCBCurPtr s) timeout s1 W)"
      "\<forall>p. R' p = remove1 (OSTCBCurPtr s) (R p)" "OSTCBCurPtr s' = top_task R'" "OSTCBCurPtr s' \<noteq> OSTCBCurPtr s"
      unfolding b(2) by blast
    have "sem_inv s' (P(p := prio_insert (pd_prio s1) d (P p)))" using assms(2,3) b(1) s'(2) by (auto simp: sem_inv_def sem_at_def)
    with s' b show ?thesis by auto
  qed
qed

theorem OSSemPend_spec_witness:
  "(\<exists>s'. OSSemPend 11 21 0 0 True demo = Some (Done (1, Some 0, OS_ERR_NONE), s') \<and> sys s' demo_R demo_P demo_W) \<and>
   (\<exists>s' R' P' W'. OSSemPend 11 20 7 0 True demo = Some (Blocked, s') \<and> sys s' R' P' W' \<and> OSTCBCurPtr s' = top_task R')"
proof
  note w = OSSemPend_spec [OF demo_sys _ demo_sem_inv demo_ctrs(1,2) demo_free_pd(3) _ demo_free_pd(1) _ demo_free_pd(2), of _ _ OS_OPT_PEND_BLOCKING _ True]
  show "\<exists>s'. OSSemPend 11 21 0 0 True demo = Some (Done (1, Some 0, OS_ERR_NONE), s') \<and> sys s' demo_R demo_P demo_W"
    using w [OF demo_sem(2), of 0] by (auto simp: ts_out_def)
  show "\<exists>s' R' P' W'. OSSemPend 11 20 7 0 True demo = Some (Blocked, s') \<and> sys s' R' P' W' \<and> OSTCBCurPtr s' = top_task R'"
    using w [OF demo_sem(1), of 7] by auto
qed

text \<open>A unit posted to a semaphore without waiting tasks can be taken again by
  the next pending call, which returns the counter to its value and reports the time of the post.\<close>

theorem OSSemPost_Pend:
  assumes "sys s R P W" "sem_at s p m" "P p = []" "SEM_Ctr m \<noteq> - 1" "opt \<in> post_opts" "OSIntNestingCtr s = 0"
    and "opt' \<in> {OS_OPT_PEND_BLOCKING, OS_OPT_PEND_NON_BLOCKING}"
  shows "\<exists>s1 s2. OSSemPost p opt s = Some (SEM_Ctr m + 1, OS_ERR_NONE, s1) \<and>
    OSSemPend d p timeout opt' True s1 = Some (Done (SEM_Ctr m, Some (fst (OS_TS_GET s)), OS_ERR_NONE), s2) \<and>
    sys s2 R P W \<and> map_option SEM_Ctr \<circ> sems s2 = map_option SEM_Ctr \<circ> sems s"
proof -
  let ?m = "m\<lparr>SEM_Ctr := SEM_Ctr m + 1, SEM_TS := fst (OS_TS_GET s)\<rparr>" let ?s1 = "(snd (OS_TS_GET s))\<lparr>sems := (sems s)(p \<mapsto> ?m)\<rparr>"
  have post: "OSSemPost p opt s = Some (SEM_Ctr m + 1, OS_ERR_NONE, ?s1)" using OSSemPost_free [OF assms(1,2,3,5)] assms(4) by simp
  have "sem_at ?s1 p ?m" "OSIntNestingCtr ?s1 = 0" using assms(2,6) by (simp_all add: sem_at_def OS_TS_GET_def)
  moreover have "SEM_Ctr ?m > 0" using assms(4) by (simp add: word_gt_0) (metis add.commute add_eq_0_iff)
  ultimately have "OSSemPend d p timeout opt' True ?s1 = Some (Done (SEM_Ctr m, Some (fst (OS_TS_GET s)), OS_ERR_NONE),
      ?s1\<lparr>sems := (sems ?s1)(p \<mapsto> ?m\<lparr>SEM_Ctr := SEM_Ctr ?m - 1\<rparr>)\<rparr>)"
    using OSSemPend_takes [of ?s1 p ?m opt' d timeout True] assms(7) by (simp add: ts_out_def)
  then show ?thesis using post assms(1,2) by (auto simp: fun_eq_iff sem_at_def)
qed

theorem OSSemPost_Pend_witness:
  "\<exists>s1 s2. OSSemPost 21 OS_OPT_POST_1 demo = Some (3, OS_ERR_NONE, s1) \<and>
    OSSemPend 11 21 0 OS_OPT_PEND_BLOCKING True s1 = Some (Done (2, Some (fst (OS_TS_GET demo)), OS_ERR_NONE), s2) \<and>
    sys s2 demo_R demo_P demo_W"
  using OSSemPost_Pend [OF demo_sys demo_sem(2), of OS_OPT_POST_1 OS_OPT_PEND_BLOCKING 11 0] by (fastforce simp: post_opts_def)

text \<open>C36. With the options \<^verbatim>\<open>OS_OPT_PEND_ABORT_ALL | OS_OPT_POST_NO_SCHED\<close>, which the
  comment above the routine describes as aborting all waiting tasks without calling the
  scheduler, only the first waiting task is woken: the loop compares the whole option word with
  \<^verbatim>\<open>OS_OPT_PEND_ABORT_ALL\<close>.  With \<^verbatim>\<open>OS_OPT_PEND_ABORT_ALL\<close> alone all of them are woken.\<close>

theorem OSSemPendAbort_all:
  assumes "sys s R P W" "sem_at s p m" "OSIntNestingCtr s = 0" "distinct (map (waiter s) (P p))" "P p \<noteq> []"
  shows "(\<exists>s' R' P' W'. OSSemPendAbort p OS_OPT_PEND_ABORT_ALL s = Some (of_nat (length (P p)), OS_ERR_NONE, s') \<and> sys s' R' P' W' \<and> P' p = [] \<and>
      woke OS_STATUS_PEND_ABORT (NULL, 0, fst (OS_TS_GET s)) s (P p) s') \<and>
    (\<exists>s' R' P' W'. OSSemPendAbort p (OS_OPT_PEND_ABORT_ALL OR OS_OPT_POST_NO_SCHED) s = Some (1, OS_ERR_NONE, s') \<and> sys s' R' P' W' \<and>
      P' p = tl (P p) \<and> woke OS_STATUS_PEND_ABORT (NULL, 0, fst (OS_TS_GET s)) s [hd (P p)] s')"
proof -
  from OSSemPendAbort_ok [OF assms, of OS_OPT_PEND_ABORT_ALL] obtain s1 s' R' P' W' where
    "OSSemPendAbort p OS_OPT_PEND_ABORT_ALL s = Some (of_nat (length (P p)), OS_ERR_NONE, s')" "sys s' R' P' W'" "P' p = []"
    "sw_frame s1 s'" "woken_all OS_STATUS_PEND_ABORT (NULL, 0, fst (OS_TS_GET s)) (snd (OS_TS_GET s)) (P p) s1" by auto
  then have 1: "\<exists>s' R' P' W'. OSSemPendAbort p OS_OPT_PEND_ABORT_ALL s = Some (of_nat (length (P p)), OS_ERR_NONE, s') \<and> sys s' R' P' W' \<and> P' p = [] \<and>
      woke OS_STATUS_PEND_ABORT (NULL, 0, fst (OS_TS_GET s)) s (P p) s'" using woken_all_woke by blast
  have "take 1 (P p) = [hd (P p)]" "drop 1 (P p) = tl (P p)" using assms(5) by (cases "P p"; simp)+
  with OSSemPendAbort_ok [OF assms, of "OS_OPT_PEND_ABORT_ALL OR OS_OPT_POST_NO_SCHED"] obtain s1 s' R' P' W' where
    "OSSemPendAbort p (OS_OPT_PEND_ABORT_ALL OR OS_OPT_POST_NO_SCHED) s = Some (1, OS_ERR_NONE, s')" "sys s' R' P' W'" "P' p = tl (P p)"
    "sw_frame s1 s'" "woken_all OS_STATUS_PEND_ABORT (NULL, 0, fst (OS_TS_GET s)) (snd (OS_TS_GET s)) [hd (P p)] s1" by auto
  then have "\<exists>s' R' P' W'. OSSemPendAbort p (OS_OPT_PEND_ABORT_ALL OR OS_OPT_POST_NO_SCHED) s = Some (1, OS_ERR_NONE, s') \<and> sys s' R' P' W' \<and>
      P' p = tl (P p) \<and> woke OS_STATUS_PEND_ABORT (NULL, 0, fst (OS_TS_GET s)) s [hd (P p)] s'" using woken_all_woke by blast
  with 1 show ?thesis by blast
qed

theorem OSSemPendAbort_all_witness:
  "\<exists>s' R' P' W'. OSSemPendAbort 20 (OS_OPT_PEND_ABORT_ALL OR OS_OPT_POST_NO_SCHED) demo = Some (1, OS_ERR_NONE, s') \<and> sys s' R' P' W' \<and> P' 20 = []"
  using OSSemPendAbort_all [OF demo_sys demo_sem(1)] by fastforce


subsection \<open>Message queues\<close>

definition demo_X :: "ptr \<Rightarrow> ptr list" where "demo_X = (\<lambda>_. [])(22 := [32])"

lemma demo_q: "q_at demo 22 (mq0\<lparr>MQ_InPtr := 32, MQ_OutPtr := 32, MQ_NbrEntriesSize := 2, MQ_NbrEntries := 1, MQ_NbrEntriesMax := 1\<rparr>)"
  "q_at demo 23 (mq0\<lparr>MQ_NbrEntriesSize := 2\<rparr>)"
  by (simp_all add: q_at_def demo_def obj0_def)

lemma demo_q_inv: "q_inv demo {30, 31, 32} [30, 31] demo_X"
proof -
  have "msgq_ok demo q (demo_X p)" if "qs demo p = Some q" for p q
    using that by (auto simp: demo_def demo_X_def mq0_def msgq_ok_def split: if_splits)
  moreover have "pool_ok demo (card {30, 31, 32 :: ptr}) [30, 31]" by (simp add: pool_ok_def demo_def msg0_def fld_def)
  ultimately show ?thesis by (auto simp: q_inv_def demo_X_def demo_def)
qed



text \<open>C11. Receiving from a queue that holds messages returns the first of them with its size
  and time stamp, takes it off the queue and returns its node to the pool; on an empty queue the
  non-blocking call reports that it would block and changes nothing, and the blocking call puts
  the running task on the pend list of the queue and runs the most urgent ready task.\<close>

theorem OSQPend_spec:
  assumes "sys s R P W" "q_at s p q" "q_inv s B F X" "OSIntNestingCtr s = 0" "OSSchedLockNestingCtr s = 0"
    and "y \<in> set (R r)" "y \<noteq> OSTCBCurPtr s" "d \<in> dom (pds s)" "d \<noteq> NULL" "\<And>ob. d \<notin> set (P ob)"
    and "opt \<in> {OS_OPT_PEND_BLOCKING, OS_OPT_PEND_NON_BLOCKING}"
  shows "case X p of
      x # xs \<Rightarrow> \<exists>s' m z ts. OSQPend d p timeout opt True True s = Some (Done (m, Some z, Some ts, OS_ERR_NONE), s') \<and>
        mq_vals s (X p) = (m, z, ts) # mq_vals s' xs \<and> sys s' R P W \<and> q_inv s' B (x # F) (X(p := xs))
    | [] \<Rightarrow> if opt = OS_OPT_PEND_NON_BLOCKING
        then OSQPend d p timeout opt True True s = Some (Done (NULL, Some 0, Some 0, OS_ERR_PEND_WOULD_BLOCK), s)
        else \<exists>s1 s' R' W'. OSQPend d p timeout opt True True s = Some (Blocked, s') \<and> q_inv s' B F X \<and>
          sys s' R' (P(p := prio_insert (pd_prio s1) d (P p))) W' \<and>
          (\<forall>p. R' p = remove1 (OSTCBCurPtr s) (R p)) \<and> OSTCBCurPtr s' = top_task R' \<and> OSTCBCurPtr s' \<noteq> OSTCBCurPtr s"
proof (cases "X p")
  case Nil
  show ?thesis
  proof (cases "opt = OS_OPT_PEND_NON_BLOCKING")
    case True
    then show ?thesis using OSQPend_would_block [OF assms(2,3) Nil assms(4), of d timeout True] Nil by (simp add: ts_out_def)
  next
    case False
    then have "opt = OS_OPT_PEND_BLOCKING" using assms(11) by simp
    then show ?thesis using OSQPend_blocks [OF assms(1-3) Nil assms(4-9), of timeout True] assms(10) Nil by auto
  qed
next
  case (Cons x xs)
  from OSQPend_gets [OF assms(1-3) Cons assms(4,11), of d timeout True] obtain s' m z ts where
    s': "msg_val s x = (m, z, ts)" "OSQPend d p timeout opt True True s = Some (Done (m, Some z, Some ts, OS_ERR_NONE), s')" "sys s' R P W"
    "q_inv s' B (x # F) (X(p := xs))" "\<forall>y. msg_val s' y = msg_val s y" by (auto simp: ts_out_def)
  then have "mq_vals s (X p) = (m, z, ts) # mq_vals s' xs" by (simp add: mq_vals_def Cons)
  with s' Cons show ?thesis by auto
qed

theorem OSQPend_spec_witness:
  "(\<exists>s'. OSQPend 11 22 0 OS_OPT_PEND_BLOCKING True True demo = Some (Done (77, Some 4, Some 9, OS_ERR_NONE), s') \<and>
     q_inv s' {30, 31, 32} [32, 30, 31] (\<lambda>_. [])) \<and>
   (\<exists>s' R' P' W'. OSQPend 11 23 0 OS_OPT_PEND_BLOCKING True True demo = Some (Blocked, s') \<and> sys s' R' P' W' \<and> OSTCBCurPtr s' = top_task R')"
proof
  have X: "demo_X 22 = [32]" "demo_X 23 = []" "demo_X(22 := []) = (\<lambda>_. [])" by (simp_all add: demo_X_def fun_eq_iff)
  have v: "mq_vals demo [32] = [(77, 4, 9)]" by (simp add: mq_vals_def msg_val_def demo_def)
  note w = OSQPend_spec [OF demo_sys _ demo_q_inv demo_ctrs(1,2) demo_free_pd(3) _ demo_free_pd(1) _ demo_free_pd(2), of _ _ OS_OPT_PEND_BLOCKING]
  show "\<exists>s'. OSQPend 11 22 0 OS_OPT_PEND_BLOCKING True True demo = Some (Done (77, Some 4, Some 9, OS_ERR_NONE), s') \<and>
     q_inv s' {30, 31, 32} [32, 30, 31] (\<lambda>_. [])" using w [OF demo_q(1), of 0] by (auto simp: X v)
  show "\<exists>s' R' P' W'. OSQPend 11 23 0 OS_OPT_PEND_BLOCKING True True demo = Some (Blocked, s') \<and> sys s' R' P' W' \<and> OSTCBCurPtr s' = top_task R'"
    using w [OF demo_q(2), of 0] by (auto simp: X)
qed

text \<open>C29. The message queue is a bounded FIFO: from a state that holds the messages \<open>xs\<close> and
  has room for \<open>ms\<close>, putting \<open>ms\<close> one after the other and then getting as many messages as the queue
  holds returns \<open>xs\<close> and \<open>ms\<close> in this order, none lost, repeated or changed, and leaves the queue
  empty with all the room given back.\<close>

theorem OS_MsgQ_fifo:
  assumes "mq_rep c xs (length ms + k)"
  shows "\<exists>c1 c2. mq.puts ms c = Some c1 \<and> mq.gets (length (xs @ ms)) c1 = Some (xs @ ms, c2) \<and> mq_rep c2 [] (length (xs @ ms) + k)"
  by (rule mq.puts_gets [OF assms])

lemma demo_mq_rep: "mq_rep (mq0\<lparr>MQ_InPtr := 32, MQ_OutPtr := 32, MQ_NbrEntriesSize := 2, MQ_NbrEntries := 1, MQ_NbrEntriesMax := 1\<rparr>, demo) [(77, 4, 9)] 1"
proof -
  let ?q = "mq0\<lparr>MQ_InPtr := 32, MQ_OutPtr := 32, MQ_NbrEntriesSize := 2, MQ_NbrEntries := 1, MQ_NbrEntriesMax := 1\<rparr>"
  have "qs demo 22 = Some ?q" by (simp add: demo_def)
  from q_inv_rel [OF demo_q_inv this] have "mq_rel demo (card {30, 31, 32 :: ptr}) [30, 31] ?q [32]" by (simp add: demo_X_def)
  moreover have "mq_vals demo [32] = [(77, 4, 9)]" by (simp add: mq_vals_def msg_val_def demo_def)
  ultimately show ?thesis unfolding mq_rep_def
    by (intro exI [of _ "card {30, 31, 32 :: ptr}"] exI [of _ "[30, 31]"] exI [of _ "[32]"]) simp
qed

theorem OS_MsgQ_fifo_witness:
  "\<exists>c1 c2. mq.puts [(8, 2, 1)] (mq0\<lparr>MQ_InPtr := 32, MQ_OutPtr := 32, MQ_NbrEntriesSize := 2, MQ_NbrEntries := 1, MQ_NbrEntriesMax := 1\<rparr>, demo) = Some c1 \<and>
    mq.gets 2 c1 = Some ([(77, 4, 9), (8, 2, 1)], c2)"
proof -
  let ?c = "(mq0\<lparr>MQ_InPtr := 32, MQ_OutPtr := 32, MQ_NbrEntriesSize := 2, MQ_NbrEntries := 1, MQ_NbrEntriesMax := 1\<rparr>, demo)"
  have "mq_rep ?c [(77, 4, 9)] (length [(8 :: ptr, 2 :: OS_MSG_SIZE, 1 :: CPU_TS)] + 0)" using demo_mq_rep by simp
  from OS_MsgQ_fifo [OF this] obtain c1 c2 where
    "mq.puts [(8, 2, 1)] ?c = Some c1" "mq.gets (length ([(77, 4, 9)] @ [(8 :: ptr, 2 :: OS_MSG_SIZE, 1 :: CPU_TS)])) c1 = Some ([(77, 4, 9)] @ [(8, 2, 1)], c2)"
    by blast
  moreover have "length ([(77, 4, 9)] @ [(8 :: ptr, 2 :: OS_MSG_SIZE, 1 :: CPU_TS)]) = 2" by simp
  ultimately show ?thesis by (metis append_Cons append_Nil)
qed

text \<open>Flushing a queue discards exactly its messages and returns all its nodes to the
  pool; the other queues and the kernel invariant are untouched.\<close>

theorem OSQFlush_spec:
  assumes "sys s R P W" "q_at s p q" "q_inv s B F X" "OSIntNestingCtr s = 0"
  shows "\<exists>s'. OSQFlush p s = Some (of_nat (length (X p)), OS_ERR_NONE, s') \<and> sys s' R P W \<and> q_inv s' B (X p @ F) (X(p := []))"
  by (rule OSQFlush_ok [OF assms])

theorem OSQFlush_spec_witness:
  "\<exists>s'. OSQFlush 22 demo = Some (1, OS_ERR_NONE, s') \<and> sys s' demo_R demo_P demo_W \<and> q_inv s' {30, 31, 32} [32, 30, 31] (demo_X(22 := []))"
  using OSQFlush_spec [OF demo_sys demo_q(1) demo_q_inv] by (simp add: demo_X_def)

text \<open>Initialising the message pool over an array of message nodes makes all of them
  free, each of them once, in the order of the array, so that any queue can be filled from it.\<close>

theorem OS_MsgPoolInit_spec:
  assumes "base \<noteq> NULL" "sz \<noteq> 0" "{base..<base + unat sz} \<subseteq> dom (msgs s)"
  shows "\<exists>s'. OS_MsgPoolInit base sz s = Some (OS_ERR_NONE, s') \<and> mq_rep (OS_MsgQInit sz, s') [] (unat sz)"
proof -
  from OS_MsgPoolInit_ok [OF assms, of sz] obtain s' where
    s': "OS_MsgPoolInit base sz s = Some (OS_ERR_NONE, s')" "mq_rel s' (unat sz) [base..<base + unat sz] (OS_MsgQInit sz) []" by blast
  have "mq_rep (OS_MsgQInit sz, s') [] (unat sz)" unfolding mq_rep_def using s'(2)
    by (intro exI [of _ "unat sz"] exI [of _ "[base..<base + unat sz]"] exI [of _ "[]"]) (simp add: mq_vals_def OS_MsgQInit_def)
  with s'(1) show ?thesis by blast
qed

theorem OS_MsgPoolInit_spec_witness:
  "\<exists>s'. OS_MsgPoolInit 30 3 demo = Some (OS_ERR_NONE, s') \<and> mq_rep (OS_MsgQInit 3, s') [] 3"
  using OS_MsgPoolInit_spec [of 30 3 demo] by (fastforce simp: demo_def)

end
