(* ===== verification/OS_Time.thy ===== *)
theory OS_Time
  imports OS_Obj
begin

text \<open>
  The passing of time: \<^verbatim>\<open>OS_TickListUpdate\<close> of \<^verbatim>\<open>src/ucosTest/Source/os_tick.c\<close>, which ends the waits
  whose time has come, and the services of \<^verbatim>\<open>src/ucosTest/Source/os_time.c\<close>.
\<close>

subsection \<open>The tick\<close>

text \<open>The body of the loop for one task of the spoke: whether the loop is done, and the new state.\<close>

definition tick_expire :: "ptr \<Rightarrow> os \<Rightarrow> (bool \<times> os) option" where
  "tick_expire p_tcb s = do {
     tcb \<leftarrow> tcbs s p_tcb;
     let st = TCB_TaskState tcb;
     if st \<in> {OS_TASK_STATE_DLY, OS_TASK_STATE_PEND_TIMEOUT, OS_TASK_STATE_DLY_SUSPENDED, OS_TASK_STATE_PEND_TIMEOUT_SUSPENDED} then do {
       s \<leftarrow> tcb_mod p_tcb (\<lambda>t. t\<lparr>TCB_TickRemain := TCB_TickCtrMatch t - OSTickCtr s\<rparr>) s;
       if OSTickCtr s = TCB_TickCtrMatch tcb then do {
         s \<leftarrow> (if st = OS_TASK_STATE_DLY then do {
                 s \<leftarrow> tcb_mod p_tcb (\<lambda>t. t\<lparr>TCB_TaskState := OS_TASK_STATE_RDY\<rparr>) s;
                 OS_TaskRdy p_tcb s
               } else if st = OS_TASK_STATE_DLY_SUSPENDED then do {
                 s \<leftarrow> tcb_mod p_tcb (\<lambda>t. t\<lparr>TCB_TaskState := OS_TASK_STATE_SUSPENDED\<rparr>) s;
                 OS_TickListRemove p_tcb s
               } else do {
                 s \<leftarrow> tcb_mod p_tcb (\<lambda>t. t\<lparr>TCB_MsgPtr := NULL, TCB_MsgSize := 0\<rparr>) s;
                 let (ts, s) = OS_TS_GET s;
                 s \<leftarrow> tcb_mod p_tcb (\<lambda>t. t\<lparr>TCB_TS := ts\<rparr>) s;
                 s \<leftarrow> OS_PendListRemove p_tcb s;
                 s \<leftarrow> (if st = OS_TASK_STATE_PEND_TIMEOUT then OS_TaskRdy p_tcb s else OS_TickListRemove p_tcb s);
                 tcb_mod p_tcb (\<lambda>t. t\<lparr>TCB_TaskState := (if st = OS_TASK_STATE_PEND_TIMEOUT then OS_TASK_STATE_RDY else OS_TASK_STATE_SUSPENDED),
                   TCB_PendStatus := OS_STATUS_PEND_TIMEOUT, TCB_PendOn := OS_TASK_PEND_ON_NOTHING\<rparr>) s
               });
         Some (False, s)
       } else Some (True, s)
     } else Some (False, s)
   }"

partial_function (option) tick_update_loop :: "ptr \<Rightarrow> os \<Rightarrow> os option" where
  "tick_update_loop p_tcb s =
     (if p_tcb \<noteq> NULL then do {
        tcb \<leftarrow> tcbs s p_tcb;
        (fin, s) \<leftarrow> tick_expire p_tcb s;
        if fin then Some s else tick_update_loop (TCB_TickNextPtr tcb) s
      } else Some s)"

definition OS_TickListUpdate :: "os \<Rightarrow> os option" where
  "OS_TickListUpdate s = do {
     let (ts_start, s) = OS_TS_GET s;
     let s = s\<lparr>OSTickCtr := OSTickCtr s + 1\<rparr>;
     p_spoke \<leftarrow> OSCfg_TickWheel s (unat (OSTickCtr s mod OSCfg_TickWheelSize));
     s \<leftarrow> tick_update_loop (SPK_FirstPtr p_spoke) s;
     let (ts, s) = OS_TS_GET s;
     let ts_end = ts - ts_start;
     Some (if OSTickTaskTimeMax s < ts_end then s\<lparr>OSTickTaskTimeMax := ts_end\<rparr> else s)
   }"

subsection \<open>The list routines do not read the tick counter\<close>

lemma upd_tk:
  "s\<lparr>OSTickCtr := c, tcbs := a1\<rparr> = s\<lparr>tcbs := a1, OSTickCtr := c\<rparr>" "s\<lparr>OSTickCtr := c, OSCfg_TickWheel := a2\<rparr> = s\<lparr>OSCfg_TickWheel := a2, OSTickCtr := c\<rparr>"
  "s\<lparr>OSTickCtr := c, OSRdyList := a3\<rparr> = s\<lparr>OSRdyList := a3, OSTickCtr := c\<rparr>" "s\<lparr>OSTickCtr := c, pds := a4\<rparr> = s\<lparr>pds := a4, OSTickCtr := c\<rparr>"
  "s\<lparr>OSTickCtr := c, objs := a5\<rparr> = s\<lparr>objs := a5, OSTickCtr := c\<rparr>" "s\<lparr>OSTickCtr := c, OSPrioTbl := a6\<rparr> = s\<lparr>OSPrioTbl := a6, OSTickCtr := c\<rparr>"
  "s\<lparr>OSTickCtr := c, TmrRdIx := a7\<rparr> = s\<lparr>TmrRdIx := a7, OSTickCtr := c\<rparr>"
  by simp_all

lemma mod_tk [simp]:
  "tcb_mod p f (s\<lparr>OSTickCtr := c\<rparr>) = map_option (\<lambda>s. s\<lparr>OSTickCtr := c\<rparr>) (tcb_mod p f s)"
  "spk_mod i g (s\<lparr>OSTickCtr := c\<rparr>) = map_option (\<lambda>s. s\<lparr>OSTickCtr := c\<rparr>) (spk_mod i g s)"
  "rdy_mod i h (s\<lparr>OSTickCtr := c\<rparr>) = map_option (\<lambda>s. s\<lparr>OSTickCtr := c\<rparr>) (rdy_mod i h s)"
  "pd_mod p k (s\<lparr>OSTickCtr := c\<rparr>) = map_option (\<lambda>s. s\<lparr>OSTickCtr := c\<rparr>) (pd_mod p k s)"
  "obj_mod p l (s\<lparr>OSTickCtr := c\<rparr>) = map_option (\<lambda>s. s\<lparr>OSTickCtr := c\<rparr>) (obj_mod p l s)"
  by (simp_all add: tcb_mod_def spk_mod_def rdy_mod_def pd_mod_def obj_mod_def option.map_comp o_def upd_tk)

lemma bind_if: "Option.bind (if c then a else b) k = (if c then Option.bind a k else Option.bind b k)"
  by simp

lemmas tk_rules = bind_if bind_map_option map_option_bind o_def if_distrib [of "map_option f" for f] Let_def

lemma OS_TickListRemove_tk [simp]:
  "OS_TickListRemove x (s\<lparr>OSTickCtr := c\<rparr>) = map_option (\<lambda>s. s\<lparr>OSTickCtr := c\<rparr>) (OS_TickListRemove x s)"
  by (simp add: OS_TickListRemove_def tk_rules option.case_distrib [of "map_option f" for f] cong: if_cong option.case_cong)

lemma OS_PendListRemove1_tk [simp]:
  "OS_PendListRemove1 p d (s\<lparr>OSTickCtr := c\<rparr>) = map_option (\<lambda>s. s\<lparr>OSTickCtr := c\<rparr>) (OS_PendListRemove1 p d s)"
  by (simp add: OS_PendListRemove1_def pl_mod_def tk_rules cong: if_cong)

lemma pend_remove_loop_tk [simp]:
  "pend_remove_loop n d (s\<lparr>OSTickCtr := c\<rparr>) = map_option (\<lambda>s. s\<lparr>OSTickCtr := c\<rparr>) (pend_remove_loop n d s)"
  by (induction n arbitrary: d s) (simp_all add: tk_rules)

lemma OS_PendListRemove_tk [simp]:
  "OS_PendListRemove x (s\<lparr>OSTickCtr := c\<rparr>) = map_option (\<lambda>s. s\<lparr>OSTickCtr := c\<rparr>) (OS_PendListRemove x s)"
  by (simp add: OS_PendListRemove_def tk_rules)

lemma OS_RdyListInsert_tk [simp]:
  "OS_RdyListInsert x (s\<lparr>OSTickCtr := c\<rparr>) = map_option (\<lambda>s. s\<lparr>OSTickCtr := c\<rparr>) (OS_RdyListInsert x s)"
  by (simp add: OS_RdyListInsert_def OS_RdyListInsertTail_def OS_RdyListInsertHead_def OS_PrioInsert_def tk_rules upd_tk cong: if_cong)

lemma OS_TaskRdy_tk [simp]:
  "OS_TaskRdy x (s\<lparr>OSTickCtr := c\<rparr>) = map_option (\<lambda>s. s\<lparr>OSTickCtr := c\<rparr>) (OS_TaskRdy x s)"
  by (simp add: OS_TaskRdy_def tk_rules cong: if_cong)


subsection \<open>The end of one wait\<close>

definition expired :: "os \<Rightarrow> (nat \<Rightarrow> ptr list) \<Rightarrow> (ptr \<Rightarrow> ptr list) \<Rightarrow> (nat \<Rightarrow> ptr list) \<Rightarrow> ptr \<Rightarrow> OS_TCB \<Rightarrow> os \<Rightarrow> OS_TCB \<Rightarrow> bool" where
  "expired v R P W x t v' t' \<longleftrightarrow>
     kinv v' (wake_rdy v x t R) (\<lambda>ob. filter (\<lambda>d. d \<notin> pend_tbl t) (P ob)) (\<lambda>i. filter (\<lambda>y. y \<noteq> x) (W i)) \<and>
     (\<exists>i. kframe {x} (pend_tbl t) (v\<lparr>TmrRdIx := i\<rparr>) v') \<and> tcbs v' x = Some t' \<and> TCB_Prio t' = TCB_Prio t \<and>
     TCB_TaskState t' = TCB_TaskState t AND OS_TASK_STATE_BIT_SUSPENDED \<and>
     (st_pend (TCB_TaskState t) \<longrightarrow> TCB_PendStatus t' = OS_STATUS_PEND_TIMEOUT \<and> TCB_PendOn t' = OS_TASK_PEND_ON_NOTHING \<and>
        TCB_MsgPtr t' = NULL \<and> TCB_MsgSize t' = 0)"

lemma st_tick_split:
  assumes "st_tick st"
  obtains "st = OS_TASK_STATE_DLY" | "st = OS_TASK_STATE_DLY_SUSPENDED" | "st = OS_TASK_STATE_PEND_TIMEOUT" | "st = OS_TASK_STATE_PEND_TIMEOUT_SUSPENDED"
  using assms unfolding st_tick_def by blast

text \<open>A task that only waits for a time leaves the wheel: it becomes ready, or stays suspended.\<close>

lemma undelay_rdy:
  assumes K: "kinv v R P W" and t: "tcbs v x = Some t" "TCB_TaskState t = OS_TASK_STATE_DLY"
    and u: "rdy_view u = rdy_view t" "tick_view u = tick_view t" "pend_tbl u = pend_tbl t" "TCB_TaskState u = OS_TASK_STATE_RDY"
  shows "\<exists>v' t'. OS_TaskRdy x (v\<lparr>tcbs := (tcbs v)(x \<mapsto> u)\<rparr>) = Some v' \<and> expired v R P W x t v' t' \<and> kframe {x} {} v v'"
proof -
  let ?v = "v\<lparr>tcbs := (tcbs v)(x \<mapsto> u)\<rparr>" let ?R = "rdy_insert (OSPrioCur v) (TCB_Prio t) x R"
  have ok: "x \<noteq> NULL" "unat (TCB_Prio t) < OS_CFG_PRIO_MAX" "x \<notin> set (R (unat (TCB_Prio t)))" "pend_tbl t = {}"
    using kinvD(7) [OF K t(1)] t(2) by (auto simp: task_ok_def st_pend_def)
  have pu: "TCB_Prio u = TCB_Prio t" using u(1) by (simp add: rdy_view_def)
  have len: "length (R (unat (TCB_Prio t))) < 65535" using kinv_room(1) [OF K _ ok(3)] t(1) by auto
  have kr: "krel ?v R P W" using kinvD(1) [OF K] krel_tcb_upd [OF t(1) u(1,2)] by simp
  from OS_TaskRdy_ok [OF kr, of x u] ok len u(4) pu obtain v' t' where
    v': "OS_TaskRdy x ?v = Some v'" "krel v' ?R P (\<lambda>i. filter (\<lambda>y. y \<noteq> x) (W i))" "kframe {x} {} ?v v'" "tcbs v' x = Some t'"
      "tcb_base t' = tcb_base u" "TCB_TickSpokePtr t' = None" by auto
  have F: "kframe {x} {} v v'" using kframe_trans [OF kframe_tcb_upd [OF t(1), of "{x}" "{}" u] v'(3)] by simp
  have e: "TCB_Prio t' = TCB_Prio t" "TCB_TaskState t' = OS_TASK_STATE_RDY" "pend_tbl t' = {}"
    using tcb_base_eqD [OF v'(5)] tcb_base_key [OF v'(5)] ok(4) u pu by simp_all
  have P: "(\<lambda>ob. filter (\<lambda>d. d \<notin> pend_tbl t) (P ob)) = P" using ok(4) by simp
  have "kinv v' ?R P (\<lambda>i. filter (\<lambda>y. y \<noteq> x) (W i))"
    by (rule kinv_wake [OF K t(1) _ v'(2)]) (use t(2) P F v' e ok(4) in \<open>auto simp: rdy_insert_mem st_pend_def st_tick_def\<close>)
  moreover have "kframe {x} (pend_tbl t) (v\<lparr>TmrRdIx := TmrRdIx v\<rparr>) v'" using F ok(4) by simp
  then have "\<exists>i. kframe {x} (pend_tbl t) (v\<lparr>TmrRdIx := i\<rparr>) v'" by blast
  ultimately have "expired v R P W x t v' t'" using v'(4) e t(2) unfolding expired_def wake_rdy_def P by (auto simp: st_pend_def)
  with v'(1) F show ?thesis by blast
qed

lemma undelay_susp:
  assumes K: "kinv v R P W" and t: "tcbs v x = Some t" "TCB_TaskState t = OS_TASK_STATE_DLY_SUSPENDED"
    and u: "rdy_view u = rdy_view t" "tick_view u = tick_view t" "pend_tbl u = pend_tbl t" "TCB_TaskState u = OS_TASK_STATE_SUSPENDED"
  shows "\<exists>v' t'. OS_TickListRemove x (v\<lparr>tcbs := (tcbs v)(x \<mapsto> u)\<rparr>) = Some v' \<and> expired v R P W x t v' t' \<and> kframe {x} {} v v'"
proof -
  let ?v = "v\<lparr>tcbs := (tcbs v)(x \<mapsto> u)\<rparr>"
  have ok: "x \<notin> set (R (unat (TCB_Prio t)))" "pend_tbl t = {}" using kinvD(7) [OF K t(1)] t(2) by (auto simp: task_ok_def st_pend_def)
  have kr: "krel ?v R P W" using kinvD(1) [OF K] krel_tcb_upd [OF t(1) u(1,2)] by simp
  then have "tick_rel ?v W" by (simp add: krel_def)
  from OS_TickListRemove_ok [OF this, of x u] obtain v' t' where
    v': "OS_TickListRemove x ?v = Some v'" "tick_rel v' (\<lambda>i. filter (\<lambda>y. y \<noteq> x) (W i))" "tick_frame ?v v'" "match_frame x ?v v'" "tcbs v' x = Some t'"
      "TCB_TickSpokePtr t' = None" by auto
  have b: "tcb_base t' = tcb_base u" using tcb_base_frames(2) [OF v'(3), of x] v'(5) by simp
  have F: "kframe {x} {} v v'" using kframe_trans [OF kframe_tcb_upd [OF t(1), of "{x}" "{}" u] tick_frame_kframe [OF v'(3,4)]] by simp
  have kr': "krel v' R P (\<lambda>i. filter (\<lambda>y. y \<noteq> x) (W i))" using kr v'(2) tick_frame_others [OF v'(3)] by (simp add: krel_def)
  have e: "TCB_Prio t' = TCB_Prio t" "TCB_TaskState t' = OS_TASK_STATE_SUSPENDED" "pend_tbl t' = {}"
    using tcb_base_eqD [OF b] tcb_base_key [OF b] ok(2) u by (simp_all add: rdy_view_def)
  have P: "(\<lambda>ob. filter (\<lambda>d. d \<notin> pend_tbl t) (P ob)) = P" using ok(2) by simp
  have "kinv v' R P (\<lambda>i. filter (\<lambda>y. y \<noteq> x) (W i))"
    by (rule kinv_wake [OF K t(1) _ kr']) (use t(2) P F v' e ok in \<open>auto simp: st_pend_def st_tick_def\<close>)
  moreover have "kframe {x} (pend_tbl t) (v\<lparr>TmrRdIx := TmrRdIx v\<rparr>) v'" using F ok(2) by simp
  then have "\<exists>i. kframe {x} (pend_tbl t) (v\<lparr>TmrRdIx := i\<rparr>) v'" by blast
  ultimately have "expired v R P W x t v' t'" using v'(5) e t(2) unfolding expired_def wake_rdy_def P by (auto simp: st_pend_def)
  with v'(1) F show ?thesis by blast
qed

lemma expire_dly:
  assumes K: "kinv v R P W" and t: "tcbs v x = Some t" "TCB_TaskState t = OS_TASK_STATE_DLY" and m: "TCB_TickCtrMatch t = c"
  shows "\<exists>v' t'. tick_expire x (v\<lparr>OSTickCtr := c\<rparr>) = Some (False, v'\<lparr>OSTickCtr := c\<rparr>) \<and> expired v R P W x t v' t'"
proof -
  from undelay_rdy [OF K t, of "t\<lparr>TCB_TickRemain := 0, TCB_TaskState := OS_TASK_STATE_RDY\<rparr>"] obtain v' t' where
    "OS_TaskRdy x (v\<lparr>tcbs := (tcbs v)(x \<mapsto> t\<lparr>TCB_TickRemain := 0, TCB_TaskState := OS_TASK_STATE_RDY\<rparr>)\<rparr>) = Some v'" "expired v R P W x t v' t'"
    by (auto simp: rdy_view_def tick_view_def pend_tbl_def)
  moreover from this(1) have "tick_expire x (v\<lparr>OSTickCtr := c\<rparr>) = Some (False, v'\<lparr>OSTickCtr := c\<rparr>)" using t m by (simp add: tick_expire_def tk_rules)
  ultimately show ?thesis by blast
qed

lemma expire_dly_susp:
  assumes K: "kinv v R P W" and t: "tcbs v x = Some t" "TCB_TaskState t = OS_TASK_STATE_DLY_SUSPENDED" and m: "TCB_TickCtrMatch t = c"
  shows "\<exists>v' t'. tick_expire x (v\<lparr>OSTickCtr := c\<rparr>) = Some (False, v'\<lparr>OSTickCtr := c\<rparr>) \<and> expired v R P W x t v' t'"
proof -
  from undelay_susp [OF K t, of "t\<lparr>TCB_TickRemain := 0, TCB_TaskState := OS_TASK_STATE_SUSPENDED\<rparr>"] obtain v' t' where
    "OS_TickListRemove x (v\<lparr>tcbs := (tcbs v)(x \<mapsto> t\<lparr>TCB_TickRemain := 0, TCB_TaskState := OS_TASK_STATE_SUSPENDED\<rparr>)\<rparr>) = Some v'" "expired v R P W x t v' t'"
    by (auto simp: rdy_view_def tick_view_def pend_tbl_def)
  moreover from this(1) have "tick_expire x (v\<lparr>OSTickCtr := c\<rparr>) = Some (False, v'\<lparr>OSTickCtr := c\<rparr>)" using t m by (simp add: tick_expire_def tk_rules)
  ultimately show ?thesis by blast
qed

lemma woken_expired:
  assumes "woken (v\<lparr>TmrRdIx := i\<rparr>) R P W x t v' t'" "TCB_PendStatus t' = OS_STATUS_PEND_TIMEOUT" "tcb_msg t' = (NULL, 0, ts)"
  shows "expired v R P W x t v' t'"
  using assms by (auto simp: woken_def expired_def wake_rdy_def tcb_msg_def)

lemma expire_pend:
  assumes K: "kinv v R P W" and t: "tcbs v x = Some t" "TCB_TaskState t \<in> {OS_TASK_STATE_PEND_TIMEOUT, OS_TASK_STATE_PEND_TIMEOUT_SUSPENDED}"
    and m: "TCB_TickCtrMatch t = c"
  shows "\<exists>v' t'. tick_expire x (v\<lparr>OSTickCtr := c\<rparr>) = Some (False, v'\<lparr>OSTickCtr := c\<rparr>) \<and> expired v R P W x t v' t'"
proof -
  let ?ts = "TmrRd v (TmrRdIx v)" let ?b = "v\<lparr>TmrRdIx := Suc (TmrRdIx v)\<rparr>"
  let ?f = "\<lambda>t. t\<lparr>TCB_TickRemain := 0, TCB_MsgPtr := NULL, TCB_MsgSize := 0, TCB_TS := ?ts\<rparr>"
  let ?u = "?b\<lparr>tcbs := (tcbs ?b)(x \<mapsto> ?f t)\<rparr>"
  have B: "kinv ?b R P W" "tcbs ?b x = Some t" using K t(1) by simp_all
  have S: "staged ?b R P W x t ?u (?f t)"
    using staged_tcb(2) [OF staged_start [OF B], of ?f] by (simp add: rdy_view_def tick_view_def)
  have tb: "pend_tbl (?f t) = pend_tbl t" by (simp add: pend_tbl_def)
  let ?t = "(?f t)\<lparr>TCB_PendDataTblEntries := 0, TCB_PendDataTblPtr := NULL\<rparr>"
  from staged_unlink [OF B S tb] obtain s2 where s2: "OS_PendListRemove x ?u = Some s2"
    "staged ?b R (\<lambda>ob. filter (\<lambda>d. d \<notin> pend_tbl t) (P ob)) W x t s2 ?t" by blast
  have z: "pend_tbl ?t = {}" "tcb_msg ?t = (NULL, 0, ?ts)" by (simp_all add: tcb_msg_def)
  show ?thesis
  proof (cases "TCB_TaskState t = OS_TASK_STATE_PEND_TIMEOUT")
    case True
    then have "TCB_TaskState t \<in> {OS_TASK_STATE_PEND, OS_TASK_STATE_PEND_TIMEOUT}" by simp
    then obtain s3 s4 t4 where s3: "OS_TaskRdy x s2 = Some s3"
      "tcb_mod x (\<lambda>t. t\<lparr>TCB_TaskState := OS_TASK_STATE_RDY, TCB_PendStatus := OS_STATUS_PEND_TIMEOUT, TCB_PendOn := OS_TASK_PEND_ON_NOTHING\<rparr>) s3 = Some s4"
      "woken ?b R P W x t s4 t4" "tcb_msg t4 = tcb_msg ?t" "TCB_PendStatus t4 = OS_STATUS_PEND_TIMEOUT"
      using wake_end_rdy [OF B _ s2(2) z(1)] by blast
    have "tick_expire x (v\<lparr>OSTickCtr := c\<rparr>) = Some (False, s4\<lparr>OSTickCtr := c\<rparr>)"
      using t(1) True m s2(1) s3(1,2) by (simp add: tick_expire_def tk_rules OS_TS_GET_def upd_tk)
    then show ?thesis using woken_expired [OF s3(3,5)] s3(4) z(2) by auto
  next
    case False
    then have st: "TCB_TaskState t = OS_TASK_STATE_PEND_TIMEOUT_SUSPENDED" using t(2) by simp
    from staged_untick [OF s2(2)] obtain s3 t3 where s3: "OS_TickListRemove x s2 = Some s3"
      "staged ?b R (\<lambda>ob. filter (\<lambda>d. d \<notin> pend_tbl t) (P ob)) (\<lambda>i. filter (\<lambda>y. y \<noteq> x) (W i)) x t s3 t3" "tcb_base t3 = tcb_base ?t" "TCB_TickSpokePtr t3 = None" by blast
    obtain s4 t4 where s4:
      "tcb_mod x (\<lambda>t. t\<lparr>TCB_TaskState := OS_TASK_STATE_SUSPENDED, TCB_PendStatus := OS_STATUS_PEND_TIMEOUT, TCB_PendOn := OS_TASK_PEND_ON_NOTHING\<rparr>) s3 = Some s4"
      "woken ?b R P W x t s4 t4" "tcb_msg t4 = tcb_msg t3" "TCB_PendStatus t4 = OS_STATUS_PEND_TIMEOUT"
      by (rule wake_end_susp [OF B _ _ s3(2)]) (use st s3(4) tcb_base_key [OF s3(3)] z(1) in \<open>simp_all add: st_pend_def\<close>)
    have "tick_expire x (v\<lparr>OSTickCtr := c\<rparr>) = Some (False, s4\<lparr>OSTickCtr := c\<rparr>)"
      using t(1) st m s2(1) s3(1) s4(1) by (simp add: tick_expire_def tk_rules OS_TS_GET_def upd_tk)
    then show ?thesis using woken_expired [OF s4(2,4)] s4(3) tcb_base_msg [OF s3(3)] z(2) by auto
  qed
qed

lemma tick_expire_due:
  assumes "kinv v R P W" "tcbs v x = Some t" "st_tick (TCB_TaskState t)" "TCB_TickCtrMatch t = c"
  shows "\<exists>v' t'. tick_expire x (v\<lparr>OSTickCtr := c\<rparr>) = Some (False, v'\<lparr>OSTickCtr := c\<rparr>) \<and> expired v R P W x t v' t'"
  by (rule st_tick_split [OF assms(3)])
    (use expire_dly [OF assms(1,2)] expire_dly_susp [OF assms(1,2)] expire_pend [OF assms(1,2)] assms(4) in auto)

lemma tick_expire_later:
  assumes "tcbs v x = Some t" "st_tick (TCB_TaskState t)" "TCB_TickCtrMatch t \<noteq> c"
  shows "tick_expire x (v\<lparr>OSTickCtr := c\<rparr>) =
    Some (True, (v\<lparr>tcbs := (tcbs v)(x \<mapsto> t\<lparr>TCB_TickRemain := TCB_TickCtrMatch t - c\<rparr>)\<rparr>)\<lparr>OSTickCtr := c\<rparr>)"
  using assms unfolding st_tick_def by (auto simp: tick_expire_def tk_rules)


subsection \<open>The loop over a spoke\<close>

definition timed_out :: "OS_TCB \<Rightarrow> OS_TCB \<Rightarrow> bool" where
  "timed_out t t' \<longleftrightarrow> TCB_Prio t' = TCB_Prio t \<and> TCB_TaskState t' = TCB_TaskState t AND OS_TASK_STATE_BIT_SUSPENDED \<and>
     (st_pend (TCB_TaskState t) \<longrightarrow> TCB_PendStatus t' = OS_STATUS_PEND_TIMEOUT \<and> TCB_PendOn t' = OS_TASK_PEND_ON_NOTHING \<and>
        TCB_MsgPtr t' = NULL \<and> TCB_MsgSize t' = 0)"

lemma timed_out_cong:
  assumes "tcb_other t' = tcb_other t" "tcb_other u' = tcb_other u"
  shows "timed_out t' u' = timed_out t u"
proof -
  have "TCB_MsgPtr u' = TCB_MsgPtr u" "TCB_MsgSize u' = TCB_MsgSize u" using tcb_other_more(3) [OF assms(2)] by (simp_all add: tcb_msg_def)
  then show ?thesis by (simp add: timed_out_def tcb_other_eqD [OF assms(1)] tcb_other_eqD [OF assms(2)] tcb_other_more(1,2) [OF assms(2)])
qed

definition due :: "os \<Rightarrow> OS_TICK \<Rightarrow> ptr \<Rightarrow> bool" where
  "due v c x \<longleftrightarrow> fld TCB_TickCtrMatch (tcbs v) x = c"

lemma tcb_other_match: "tcb_other t' = tcb_other t \<Longrightarrow> TCB_TickCtrMatch t' = TCB_TickCtrMatch t"
proof -
  have "TCB_TickCtrMatch (tcb_other t) = TCB_TickCtrMatch t" for t by (simp add: tcb_other_def tcb_core_def link_core_def)
  then show "tcb_other t' = tcb_other t \<Longrightarrow> TCB_TickCtrMatch t' = TCB_TickCtrMatch t" by metis
qed

lemma kframe_due:
  assumes "kframe X D s s'" "x \<notin> X"
  shows "due s' c x = due s c x"
proof -
  have "map_option tcb_other (tcbs s' x) = map_option tcb_other (tcbs s x)" using assms by (simp add: kframe_def)
  then have "map_option TCB_TickCtrMatch (tcbs s' x) = map_option TCB_TickCtrMatch (tcbs s x)" by (rule map_option_eq_via) (rule tcb_other_match)
  then show ?thesis by (cases "tcbs s x"; cases "tcbs s' x") (simp_all add: due_def fld_def)
qed

lemma kframe_rdix:
  assumes "kframe X D (s\<lparr>TmrRdIx := a\<rparr>) s'"
  shows "kframe X D (s\<lparr>TmrRdIx := n\<rparr>) (s'\<lparr>TmrRdIx := n\<rparr>)"
proof -
  have e: "os_less_k (u\<lparr>TmrRdIx := n\<rparr>) = (os_less_k u)\<lparr>TmrRdIx := n\<rparr>" for u n by (simp add: os_less_k_def)
  have "os_less_k s' = os_less_k (s\<lparr>TmrRdIx := a\<rparr>)" using assms by (simp add: kframe_def)
  then have "(os_less_k s')\<lparr>TmrRdIx := n\<rparr> = (os_less_k (s\<lparr>TmrRdIx := a\<rparr>))\<lparr>TmrRdIx := n\<rparr>" by (rule arg_cong)
  then have "os_less_k (s'\<lparr>TmrRdIx := n\<rparr>) = os_less_k (s\<lparr>TmrRdIx := n\<rparr>)" unfolding e by simp
  with assms show ?thesis unfolding kframe_def by simp
qed

text \<open>The tasks that are due are at the front of their spoke.\<close>

lemma spoke_first:
  assumes K: "kinv v R P W" and W: "W i = x # xs"
  obtains t where "tcbs v x = Some t" "st_tick (TCB_TaskState t)" "TCB_TickNextPtr t = hd0 NULL xs" "x \<noteq> NULL" "x \<notin> set xs"
proof -
  have T: "tick_links v W" using kinvD(4) [OF K] by (simp add: tick_rel_def)
  have "i < unat OSCfg_TickWheelSize" using T W unfolding tick_links_def by (metis list.distinct(1) not_le)
  then have "tick_ok v i (x # xs)" using T W unfolding tick_links_def by metis
  then obtain k :: OS_TICK_SPOKE where "linked TCB_TickNextPtr TCB_TickPrevPtr (tcbs v) (SPK_FirstPtr k) (last0 NULL (x # xs)) ([] @ x # xs)"
    unfolding tick_ok_def append_Nil by blast
  from linked_node [OF this] obtain t where t: "tcbs v x = Some t" "TCB_TickNextPtr t = hd0 NULL xs" "x \<noteq> NULL" "x \<notin> set xs" by blast
  have "on_spoke v i x" using T W unfolding tick_links_def by (metis list.set_intros(1))
  then have "TCB_TickSpokePtr t \<noteq> None" using t(1) by (simp add: on_spoke_def)
  with kinvD(7) [OF K t(1)] t that show ?thesis by (simp add: task_ok_def)
qed

lemma spoke_order:
  assumes K: "kinv v R P W" and W: "W i = x # xs" and n: "\<not> due v (OSTickCtr v + 1) x" and y: "y \<in> set (W i)"
  shows "\<not> due v (OSTickCtr v + 1) y"
proof
  assume d: "due v (OSTickCtr v + 1) y"
  have T: "sorted (map (tick_remain v) (x # xs))" "tick_remain v x \<noteq> 0" using kinvD(4) [OF K] W unfolding tick_rel_def tick_order_def by (metis, metis list.set_intros(1))
  have "tick_remain v y = 1" using d by (simp add: due_def tick_remain_def)
  moreover have "tick_remain v x \<le> tick_remain v y" using T(1) y W by auto
  ultimately have "tick_remain v x \<le> 1" by simp
  then have "tick_remain v x = 1" using T(2) by (metis le_less word_less_1)
  then have "due v (OSTickCtr v + 1) x" by (simp add: due_def tick_remain_def diff_eq_eq add.commute)
  with n show False ..
qed

lemma tick_update_loop_ok:
  assumes "kinv v R P W" "W i = xs" "c = OSTickCtr v + 1"
  shows "\<exists>v' R' P' D n. tick_update_loop (hd0 NULL xs) (v\<lparr>OSTickCtr := c\<rparr>) = Some (v'\<lparr>OSTickCtr := c\<rparr>) \<and>
    kinv v' R' P' (\<lambda>j. filter (\<lambda>y. y \<notin> set (filter (due v c) xs)) (W j)) \<and> kframe (set (filter (due v c) xs)) D (v\<lparr>TmrRdIx := n\<rparr>) v' \<and>
    (\<forall>x \<in> set (filter (due v c) xs). \<exists>t t'. tcbs v x = Some t \<and> tcbs v' x = Some t' \<and> timed_out t t') \<and> (\<forall>ob. set (P' ob) \<subseteq> set (P ob))"
  using assms
proof (induction xs arbitrary: v R P W)
  case Nil
  have "kframe {} {} (v\<lparr>TmrRdIx := TmrRdIx v\<rparr>) v" by simp
  moreover have "tick_update_loop NULL (v\<lparr>OSTickCtr := c\<rparr>) = Some (v\<lparr>OSTickCtr := c\<rparr>)" by (subst tick_update_loop.simps) simp
  ultimately show ?case using Nil.prems(1) by (intro exI [of _ v] exI [of _ R] exI [of _ P] exI [of _ "{}"] exI [of _ "TmrRdIx v"]) simp
next
  case (Cons x xs)
  obtain t where t: "tcbs v x = Some t" "st_tick (TCB_TaskState t)" "TCB_TickNextPtr t = hd0 NULL xs" "x \<noteq> NULL" "x \<notin> set xs"
    by (rule spoke_first [OF Cons.prems(1,2)])
  have unf: "tick_update_loop (hd0 NULL (x # xs)) (v\<lparr>OSTickCtr := c\<rparr>) = tick_expire x (v\<lparr>OSTickCtr := c\<rparr>) \<bind>
      (\<lambda>(fin, s). if fin then Some s else tick_update_loop (hd0 NULL xs) s)"
    using t(1,4) by (subst tick_update_loop.simps) (simp add: t(3) cong: if_cong)
  show ?case
  proof (cases "due v c x")
    case True
    then have m: "TCB_TickCtrMatch t = c" using t(1) by (simp add: due_def fld_Some)
    from tick_expire_due [OF Cons.prems(1) t(1,2) m] obtain v1 t1 where
      v1: "tick_expire x (v\<lparr>OSTickCtr := c\<rparr>) = Some (False, v1\<lparr>OSTickCtr := c\<rparr>)" "expired v R P W x t v1 t1" by blast
    from v1(2) obtain n1 where e: "kinv v1 (wake_rdy v x t R) (\<lambda>ob. filter (\<lambda>d. d \<notin> pend_tbl t) (P ob)) (\<lambda>i. filter (\<lambda>y. y \<noteq> x) (W i))"
      "kframe {x} (pend_tbl t) (v\<lparr>TmrRdIx := n1\<rparr>) v1" "tcbs v1 x = Some t1" "timed_out t t1" by (auto simp: expired_def timed_out_def)
    have W1: "filter (\<lambda>y. y \<noteq> x) (W i) = xs" using Cons.prems(2) t(5) by (simp add: filter_id_conv) metis
    have c1: "c = OSTickCtr v1 + 1" using Cons.prems(3) kframe_globals(13) [OF e(2)] by simp
    have "due v1 c y = due v c y" if "y \<in> set xs" for y
    proof -
      have "y \<notin> {x}" using that t(5) by auto
      from kframe_due [OF e(2) this, of c] show ?thesis by (simp add: due_def)
    qed
    then have du: "filter (due v1 c) xs = filter (due v c) xs" by (intro filter_cong) simp_all
    let ?ys = "filter (due v c) xs"
    from Cons.IH [OF e(1) W1 c1] obtain v' R' P' D n where v': "tick_update_loop (hd0 NULL xs) (v1\<lparr>OSTickCtr := c\<rparr>) = Some (v'\<lparr>OSTickCtr := c\<rparr>)"
      "kinv v' R' P' (\<lambda>j. filter (\<lambda>y. y \<notin> set ?ys) (filter (\<lambda>y. y \<noteq> x) (W j)))" "kframe (set ?ys) D (v1\<lparr>TmrRdIx := n\<rparr>) v'"
      "\<forall>x \<in> set ?ys. \<exists>t t'. tcbs v1 x = Some t \<and> tcbs v' x = Some t' \<and> timed_out t t'" "\<forall>ob. set (P' ob) \<subseteq> set (filter (\<lambda>d. d \<notin> pend_tbl t) (P ob))"
      unfolding du by blast
    have ys: "filter (due v c) (x # xs) = x # ?ys" using True by simp
    have "(\<lambda>j. filter (\<lambda>y. y \<notin> set ?ys) (filter (\<lambda>y. y \<noteq> x) (W j))) = (\<lambda>j. filter (\<lambda>y. y \<notin> set (x # ?ys)) (W j))"
      by (simp add: conj_commute)
    then have 1: "kinv v' R' P' (\<lambda>j. filter (\<lambda>y. y \<notin> set (x # ?ys)) (W j))" using v'(2) by simp
    have "kframe {x} (pend_tbl t) (v\<lparr>TmrRdIx := n\<rparr>) (v1\<lparr>TmrRdIx := n\<rparr>)" by (rule kframe_rdix [OF e(2)])
    from kframe_trans [OF kframe_mono [OF this, of "set (x # ?ys)" "pend_tbl t \<union> D"] kframe_mono [OF v'(3), of "set (x # ?ys)" "pend_tbl t \<union> D"]]
    have 2: "kframe (set (x # ?ys)) (pend_tbl t \<union> D) (v\<lparr>TmrRdIx := n\<rparr>) v'" by auto
    have 3: "\<exists>t t'. tcbs v y = Some t \<and> tcbs v' y = Some t' \<and> timed_out t t'" if "y \<in> set (x # ?ys)" for y
    proof (cases "y = x")
      case True
      have "x \<notin> set ?ys" using t(5) by simp
      moreover have "tcbs (v1\<lparr>TmrRdIx := n\<rparr>) x = Some t1" using e(3) by simp
      ultimately obtain t' where "tcbs v' x = Some t'" "tcb_other t' = tcb_other t1" using kframe_tcb(1) [OF v'(3)] by blast
      then show ?thesis using True t(1) e(4) timed_out_cong [OF refl] by blast
    next
      case False
      then have "y \<in> set ?ys" using that by simp
      with v'(4) obtain u u' where u: "tcbs v1 y = Some u" "tcbs v' y = Some u'" "timed_out u u'" by blast
      from kframe_tcb(2) [OF e(2) _ u(1)] False obtain u0 where "tcbs v y = Some u0" "tcb_other u = tcb_other u0" by auto
      then show ?thesis using u(2,3) timed_out_cong [OF _ refl] by blast
    qed
    have 4: "\<forall>ob. set (P' ob) \<subseteq> set (P ob)" using v'(5) by (meson filter_is_subset order_trans)
    have 5: "tick_update_loop (hd0 NULL (x # xs)) (v\<lparr>OSTickCtr := c\<rparr>) = Some (v'\<lparr>OSTickCtr := c\<rparr>)" unfolding unf v1(1) using v'(1) by simp
    show ?thesis unfolding ys by (intro exI conjI) (rule 5, rule 1, rule 2, use 3 in blast, rule 4)
  next
    case False
    have no: "filter (due v c) (x # xs) = []"
      using spoke_order [OF Cons.prems(1,2)] False unfolding Cons.prems(2,3) by (auto simp: filter_empty_conv)
    let ?v = "v\<lparr>tcbs := (tcbs v)(x \<mapsto> t\<lparr>TCB_TickRemain := TCB_TickCtrMatch t - c\<rparr>)\<rparr>"
    have "TCB_TickCtrMatch t \<noteq> c" using False t(1) by (simp add: due_def fld_Some)
    then have 1: "tick_update_loop (hd0 NULL (x # xs)) (v\<lparr>OSTickCtr := c\<rparr>) = Some (?v\<lparr>OSTickCtr := c\<rparr>)"
      unfolding unf tick_expire_later [OF t(1,2)] by (simp add: tick_expire_later [OF t(1,2)])
    have "kinv ?v R P W = kinv v R P W" by (rule kinv_cong) (use t(1) in \<open>auto simp: tcb_key_def rdy_view_def tick_view_def\<close>)
    then have 2: "kinv ?v R P (\<lambda>j. filter (\<lambda>y. y \<notin> set []) (W j))" using Cons.prems(1) by simp
    have "tcb_other (t\<lparr>TCB_TickRemain := TCB_TickCtrMatch t - c\<rparr>) = tcb_other t" by (simp add: tcb_other_def tcb_core_def link_core_def)
    then have "kframe {} {} (v\<lparr>TmrRdIx := TmrRdIx v\<rparr>) ?v" using t(1) by (auto simp: kframe_def os_less_k_def)
    then show ?thesis unfolding no using 1 2
      by (intro exI [of _ ?v] exI [of _ R] exI [of _ P] exI [of _ "{}"] exI [of _ "TmrRdIx v"]) simp
  qed
qed


subsection \<open>\<^verbatim>\<open>OS_TickListUpdate\<close>\<close>

lemma kinv_advance:
  assumes K: "kinv v R P W" and n: "\<And>j x. x \<in> set (W j) \<Longrightarrow> \<not> due v (OSTickCtr v + 1) x"
  shows "kinv (v\<lparr>OSTickCtr := OSTickCtr v + 1\<rparr>) R P W"
proof -
  let ?v = "v\<lparr>OSTickCtr := OSTickCtr v + 1\<rparr>"
  have k: "rdy_rel v R" "pend_rel v P" "tick_links v W" "tick_order v W" using kinvD(2-4) [OF K] by (simp_all add: tick_rel_def)
  have r: "tick_remain ?v x = tick_remain v x - 1" for x by (simp add: tick_remain_def)
  have nz: "tick_remain v x \<noteq> 0" "tick_remain v x \<noteq> 1" if "x \<in> set (W j)" for x j
    using k(4) n [OF that] that unfolding tick_order_def due_def tick_remain_def by (blast, auto simp: diff_eq_eq add.commute)
  have mono: "a - 1 \<le> b - 1" if "a \<noteq> 0" "a \<le> b" for a b :: OS_TICK
  proof -
    have "b \<noteq> 0" using that by auto
    then show ?thesis using that by (simp add: word_le_nat_alt minus1_wrap)
  qed
  have "sorted (map (tick_remain ?v) (W j))" for j
  proof -
    have s: "sorted (map (tick_remain v) (W j))" using k(4) by (simp add: tick_order_def)
    have "sorted (map (\<lambda>a. a - 1) (map (tick_remain v) (W j)))"
      by (rule sorted_map_mono [OF s]) (use nz(1) mono in \<open>auto simp: mono_on_def\<close>)
    moreover have "tick_remain ?v = (\<lambda>a. a - 1) \<circ> tick_remain v" using r by (simp add: fun_eq_iff)
    ultimately show ?thesis by (simp only: map_map)
  qed
  moreover have "tick_remain ?v x \<noteq> 0" if "x \<in> set (W j)" for x j using nz(2) [OF that] unfolding r by simp
  ultimately have "tick_order ?v W" using k(4) by (simp add: tick_order_def)
  moreover have "tick_links ?v W" using k(3) by (simp add: tick_links_def tick_ok_def on_spoke_def)
  ultimately have "tick_rel ?v W" by (simp add: tick_rel_def)
  moreover have "rdy_rel ?v R = rdy_rel v R" by (rule rdy_rel_cong) simp_all
  moreover have "pend_rel ?v P = pend_rel v P" by (rule pend_rel_cong) simp_all
  ultimately have "krel ?v R P W" using k by (simp add: krel_def)
  moreover have "task_ok ?v R P x t = task_ok v R P x t" for x t by (simp add: task_ok_def pend_tbl_ok_def)
  moreover have "pend_owned ?v P = pend_owned v P" "mem_bound ?v = mem_bound v" by (simp_all add: pend_owned_def mem_bound_def)
  ultimately show ?thesis using K by (simp add: kinv_def)
qed

text \<open>A tick ends exactly the waits whose time has come, on the whole wheel.\<close>

lemma OS_TickListUpdate_full:
  assumes K: "kinv s R P W"
  defines "c \<equiv> OSTickCtr s + 1"
  defines "E \<equiv> {x. \<exists>i. x \<in> set (W i) \<and> due s c x}"
  shows "\<exists>s' R' P'. OS_TickListUpdate s = Some s' \<and> kinv s' R' P' (\<lambda>j. filter (\<lambda>y. y \<notin> E) (W j)) \<and> OSTickCtr s' = c \<and>
    (\<forall>x \<in> E. \<exists>t t'. tcbs s x = Some t \<and> tcbs s' x = Some t' \<and> timed_out t t') \<and>
    (\<forall>x. x \<notin> E \<longrightarrow> map_option tcb_other (tcbs s' x) = map_option tcb_other (tcbs s x)) \<and> (\<forall>ob. set (P' ob) \<subseteq> set (P ob)) \<and>
    OSTCBCurPtr s' = OSTCBCurPtr s \<and> OSPrioCur s' = OSPrioCur s \<and>
    (\<exists>D n v j k. kframe E D (s\<lparr>TmrRdIx := n\<rparr>) v \<and> s' = v\<lparr>OSTickCtr := c, TmrRdIx := j, OSTickTaskTimeMax := k\<rparr>)"
proof -
  let ?v = "snd (OS_TS_GET s)" let ?i = "unat (c mod OSCfg_TickWheelSize)"
  have V: "kinv ?v R P W" "c = OSTickCtr ?v + 1" "tcbs ?v = tcbs s" using K by (simp_all add: OS_TS_GET_def c_def)
  have T: "tick_links s W" "tick_order s W" using kinvD(4) [OF K] by (simp_all add: tick_rel_def)
  have i: "?i < unat OSCfg_TickWheelSize" by (simp add: unat_mod)
  then have "tick_ok s ?i (W ?i)" using T(1) by (simp add: tick_links_def)
  then obtain k where k: "OSCfg_TickWheel s ?i = Some k" "SPK_FirstPtr k = hd0 NULL (W ?i)" unfolding tick_ok_def using linkedD(4) by blast
  have E: "set (filter (due ?v c) (W ?i)) = E"
  proof -
    have "j = ?i" if "x \<in> set (W j)" "due s c x" for x j
    proof -
      have "unat (fld TCB_TickCtrMatch (tcbs s) x mod OSCfg_TickWheelSize) = j" using T(2) that(1) unfolding tick_order_def by blast
      then show ?thesis using that(2) by (simp add: due_def)
    qed
    then show ?thesis by (auto simp: E_def due_def V(3))
  qed
  from tick_update_loop_ok [OF V(1) refl V(2), of ?i] obtain v' R' P' D n where
    v': "tick_update_loop (hd0 NULL (W ?i)) (?v\<lparr>OSTickCtr := c\<rparr>) = Some (v'\<lparr>OSTickCtr := c\<rparr>)" "kinv v' R' P' (\<lambda>j. filter (\<lambda>y. y \<notin> E) (W j))"
      "kframe E D (?v\<lparr>TmrRdIx := n\<rparr>) v'" "\<forall>x \<in> E. \<exists>t t'. tcbs ?v x = Some t \<and> tcbs v' x = Some t' \<and> timed_out t t'" "\<forall>ob. set (P' ob) \<subseteq> set (P ob)"
    unfolding E by blast
  note g = kframe_globals [OF v'(3)]
  have tc: "OSTickCtr v' + 1 = c" using g(13) by (simp add: OS_TS_GET_def c_def)
  have fr: "map_option tcb_other (tcbs v' x) = map_option tcb_other (tcbs s x)" if "x \<notin> E" for x using v'(3) that V(3) by (simp add: kframe_def)
  have "\<not> due v' (OSTickCtr v' + 1) x" if x: "x \<in> set (filter (\<lambda>y. y \<notin> E) (W j))" for x j
  proof -
    have "due v' c x = due (?v\<lparr>TmrRdIx := n\<rparr>) c x" by (rule kframe_due [OF v'(3)]) (use x in simp)
    also have "\<dots> = due s c x" by (simp add: due_def OS_TS_GET_def)
    finally show ?thesis unfolding tc using x by (auto simp: E_def)
  qed
  then have kv: "kinv (v'\<lparr>OSTickCtr := c\<rparr>) R' P' (\<lambda>j. filter (\<lambda>y. y \<notin> E) (W j))"
    using kinv_advance [OF v'(2)] unfolding tc by blast
  define u where "u = snd (OS_TS_GET (v'\<lparr>OSTickCtr := c\<rparr>))"
  define d where "d = fst (OS_TS_GET (v'\<lparr>OSTickCtr := c\<rparr>)) - fst (OS_TS_GET s)"
  define s' where "s' = (if OSTickTaskTimeMax u < d then u\<lparr>OSTickTaskTimeMax := d\<rparr> else u)"
  have run: "OS_TickListUpdate s = Some s'"
    using k v'(1) unfolding OS_TickListUpdate_def s'_def u_def d_def by (simp add: OS_TS_GET_def c_def Let_def)
  have e: "tcbs s' = tcbs v'" "OSTickCtr s' = c" "OSTCBCurPtr s' = OSTCBCurPtr v'" "OSPrioCur s' = OSPrioCur v'" by (simp_all add: s'_def u_def OS_TS_GET_def)
  have "kinv s' R' P' (\<lambda>j. filter (\<lambda>y. y \<notin> E) (W j)) = kinv (v'\<lparr>OSTickCtr := c\<rparr>) R' P' (\<lambda>j. filter (\<lambda>y. y \<notin> E) (W j))"
    by (rule kinv_cong) (simp_all add: s'_def u_def OS_TS_GET_def)
  moreover have "OSTCBCurPtr v' = OSTCBCurPtr s" "OSPrioCur v' = OSPrioCur s" using g(11,12) by (simp_all add: OS_TS_GET_def)
  moreover have "kframe E D (s\<lparr>TmrRdIx := n\<rparr>) v'" using v'(3) by (simp add: OS_TS_GET_def)
  moreover have "\<exists>j k. s' = v'\<lparr>OSTickCtr := c, TmrRdIx := j, OSTickTaskTimeMax := k\<rparr>"
  proof (intro exI)
    show "s' = v'\<lparr>OSTickCtr := c, TmrRdIx := TmrRdIx s', OSTickTaskTimeMax := OSTickTaskTimeMax s'\<rparr>" by (simp add: s'_def u_def OS_TS_GET_def)
  qed
  ultimately show ?thesis using run kv e v'(4,5) fr V(3) by (intro exI [of _ s'] exI [of _ R'] exI [of _ P'] conjI) (simp_all, blast)
qed

lemma OS_TickListUpdate_ok:
  assumes K: "kinv s R P W"
  defines "c \<equiv> OSTickCtr s + 1"
  defines "E \<equiv> {x. \<exists>i. x \<in> set (W i) \<and> due s c x}"
  shows "\<exists>s' R' P'. OS_TickListUpdate s = Some s' \<and> kinv s' R' P' (\<lambda>j. filter (\<lambda>y. y \<notin> E) (W j)) \<and> OSTickCtr s' = c \<and>
    (\<forall>x \<in> E. \<exists>t t'. tcbs s x = Some t \<and> tcbs s' x = Some t' \<and> timed_out t t') \<and>
    (\<forall>x. x \<notin> E \<longrightarrow> map_option tcb_other (tcbs s' x) = map_option tcb_other (tcbs s x)) \<and> (\<forall>ob. set (P' ob) \<subseteq> set (P ob)) \<and>
    OSTCBCurPtr s' = OSTCBCurPtr s \<and> OSPrioCur s' = OSPrioCur s"
  using OS_TickListUpdate_full [OF K] unfolding c_def E_def by blast


subsection \<open>Delaying the running task\<close>

text \<open>What \<^verbatim>\<open>OSTimeDly\<close> and \<^verbatim>\<open>OSTimeDlyHMSM\<close> have in common.  After the context switch both report
  \<^verbatim>\<open>OS_ERR_NONE\<close>.\<close>

definition time_dly :: "OS_TICK \<Rightarrow> OS_OPT \<Rightarrow> os \<Rightarrow> (OS_ERR call \<times> os) option" where
  "time_dly ticks opt s = do {
     let cur = OSTCBCurPtr s;
     s \<leftarrow> tcb_mod cur (\<lambda>t. t\<lparr>TCB_TaskState := OS_TASK_STATE_DLY\<rparr>) s;
     (err, s) \<leftarrow> OS_TickListInsert cur ticks opt s;
     if err \<noteq> OS_ERR_NONE then Some (Done err, s)
     else do {
       s \<leftarrow> OS_RdyListRemove cur s;
       s \<leftarrow> OSSched s;
       Some (Blocked, s)
     }
   }"

definition OSTimeDly :: "OS_TICK \<Rightarrow> OS_OPT \<Rightarrow> os \<Rightarrow> (OS_ERR call \<times> os) option" where
  "OSTimeDly dly opt s =
     (if OSIntNestingCtr s > 0 then Some (Done OS_ERR_TIME_DLY_ISR, s)
      else if OSSchedLockNestingCtr s > 0 then Some (Done OS_ERR_SCHED_LOCKED, s)
      else if opt \<in> {OS_OPT_TIME_DLY, OS_OPT_TIME_TIMEOUT, OS_OPT_TIME_PERIODIC} then
        if dly = 0 then Some (Done OS_ERR_TIME_ZERO_DLY, s) else time_dly dly opt s
      else if opt = OS_OPT_TIME_MATCH then time_dly dly opt s
      else Some (Done OS_ERR_OPT_INVALID, s))"

text \<open>The delay in ticks, computed in 32 bits.\<close>

definition hmsm_ticks :: "16 word \<Rightarrow> 16 word \<Rightarrow> 16 word \<Rightarrow> 32 word \<Rightarrow> OS_TICK" where
  "hmsm_ticks hours minutes seconds milli =
     (ucast hours * 3600 + ucast minutes * 60 + ucast seconds) * OSCfg_TickRate_Hz +
     (OSCfg_TickRate_Hz * (milli + 500 div OSCfg_TickRate_Hz)) div 1000"

definition OSTimeDlyHMSM :: "16 word \<Rightarrow> 16 word \<Rightarrow> 16 word \<Rightarrow> 32 word \<Rightarrow> OS_OPT \<Rightarrow> os \<Rightarrow> (OS_ERR call \<times> os) option" where
  "OSTimeDlyHMSM hours minutes seconds milli opt s =
     (if OSIntNestingCtr s > 0 then Some (Done OS_ERR_TIME_DLY_ISR, s)
      else if OSSchedLockNestingCtr s > 0 then Some (Done OS_ERR_SCHED_LOCKED, s)
      else let opt_time = opt AND OS_OPT_TIME_MASK in
        if opt_time \<in> {OS_OPT_TIME_DLY, OS_OPT_TIME_TIMEOUT, OS_OPT_TIME_PERIODIC} \<and> milli = 0 \<and> seconds = 0 \<and> minutes = 0 \<and> hours = 0
          then Some (Done OS_ERR_TIME_ZERO_DLY, s)
        else if opt_time \<notin> {OS_OPT_TIME_DLY, OS_OPT_TIME_TIMEOUT, OS_OPT_TIME_PERIODIC, OS_OPT_TIME_MATCH} then Some (Done OS_ERR_OPT_INVALID, s)
        else if opt AND NOT OS_OPT_TIME_OPTS_MASK \<noteq> 0 then Some (Done OS_ERR_OPT_INVALID, s)
        else if opt AND OS_OPT_TIME_HMSM_NON_STRICT = 0 \<and> milli > 999 then Some (Done OS_ERR_TIME_INVALID_MILLISECONDS, s)
        else if opt AND OS_OPT_TIME_HMSM_NON_STRICT = 0 \<and> seconds > 59 then Some (Done OS_ERR_TIME_INVALID_SECONDS, s)
        else if minutes > (if opt AND OS_OPT_TIME_HMSM_NON_STRICT = 0 then 59 else 9999) then Some (Done OS_ERR_TIME_INVALID_MINUTES, s)
        else if hours > (if opt AND OS_OPT_TIME_HMSM_NON_STRICT = 0 then 99 else 999) then Some (Done OS_ERR_TIME_INVALID_HOURS, s)
        else let ticks = hmsm_ticks hours minutes seconds milli in
          if ticks > 0 then time_dly ticks opt_time s else Some (Done OS_ERR_TIME_ZERO_DLY, s))"

definition OSTimeDlyResume :: "ptr \<Rightarrow> os \<Rightarrow> (OS_ERR \<times> os) option" where
  "OSTimeDlyResume p_tcb s =
     (if OSIntNestingCtr s > 0 then Some (OS_ERR_TIME_DLY_RESUME_ISR, s)
      else if p_tcb = NULL then Some (OS_ERR_TASK_NOT_DLY, s)
      else if p_tcb = OSTCBCurPtr s then Some (OS_ERR_TASK_NOT_DLY, s)
      else do {
        tcb \<leftarrow> tcbs s p_tcb;
        (err, s) \<leftarrow>
          (if TCB_TaskState tcb = OS_TASK_STATE_DLY then do {
             s \<leftarrow> tcb_mod p_tcb (\<lambda>t. t\<lparr>TCB_TaskState := OS_TASK_STATE_RDY\<rparr>) s;
             s \<leftarrow> OS_TickListRemove p_tcb s;
             s \<leftarrow> OS_RdyListInsert p_tcb s;
             Some (OS_ERR_NONE, s)
           } else if TCB_TaskState tcb = OS_TASK_STATE_DLY_SUSPENDED then do {
             s \<leftarrow> tcb_mod p_tcb (\<lambda>t. t\<lparr>TCB_TaskState := OS_TASK_STATE_SUSPENDED\<rparr>) s;
             s \<leftarrow> OS_TickListRemove p_tcb s;
             Some (OS_ERR_TASK_SUSPENDED, s)
           } else if TCB_TaskState tcb \<in> {OS_TASK_STATE_RDY, OS_TASK_STATE_PEND, OS_TASK_STATE_PEND_TIMEOUT, OS_TASK_STATE_SUSPENDED,
                OS_TASK_STATE_PEND_SUSPENDED, OS_TASK_STATE_PEND_TIMEOUT_SUSPENDED} then Some (OS_ERR_TASK_NOT_DLY, s)
           else Some (OS_ERR_STATE_INVALID, s));
        s \<leftarrow> OSSched s;
        Some (err, s)
      })"

definition OSTimeGet :: "os \<Rightarrow> OS_TICK \<times> OS_ERR" where
  "OSTimeGet s = (OSTickCtr s, OS_ERR_NONE)"

definition OSTimeSet :: "OS_TICK \<Rightarrow> os \<Rightarrow> OS_ERR \<times> os" where
  "OSTimeSet ticks s = (OS_ERR_NONE, s\<lparr>OSTickCtr := ticks\<rparr>)"

lemma tick_match_state [simp]: "tick_match (t\<lparr>TCB_TaskState := v\<rparr>) time opt now = tick_match t time opt now"
  by (simp add: tick_match_def)

text \<open>A delay that lies ahead blocks the running task.\<close>

lemma time_dly_ok:
  assumes S: "sys s R P W" and n: "OSIntNestingCtr s = 0" "OSSchedLockNestingCtr s = 0"
    and o: "y \<in> set (R q)" "y \<noteq> OSTCBCurPtr s"
    and t: "tcbs s (OSTCBCurPtr s) = Some t" and m: "tick_match t ticks opt (OSTickCtr s) = Some m"
  defines "i \<equiv> unat (m mod OSCfg_TickWheelSize)"
  shows "\<exists>s1 s2 R' t'. time_dly ticks opt s = Some (Blocked, s2) \<and>
    sys s2 R' P (W(i := time_insert (tick_remain s1) (OSTCBCurPtr s) (W i))) \<and> (\<forall>p. R' p = remove1 (OSTCBCurPtr s) (R p)) \<and>
    OSTCBCurPtr s2 = top_task R' \<and> OSTCBCurPtr s2 \<noteq> OSTCBCurPtr s \<and> tcbs s2 (OSTCBCurPtr s) = Some t' \<and>
    TCB_TaskState t' = OS_TASK_STATE_DLY \<and> TCB_TickCtrMatch t' = m \<and> (\<exists>r. kframe {OSTCBCurPtr s} {} s r \<and> sw_frame r s2)"
proof -
  let ?x = "OSTCBCurPtr s"
  have K: "kinv s R P W" and c: "cur_rdy s" using S by (simp_all add: sys_def)
  have st: "TCB_TaskState t = OS_TASK_STATE_RDY" "TCB_Prio t = OSPrioCur s" using c t by (auto simp: cur_rdy_def)
  have ok: "?x \<noteq> NULL" "?x \<in> set (R (unat (TCB_Prio t)))" "TCB_TickSpokePtr t = None" "pend_tbl t = {}"
    using kinvD(7) [OF K t] st by (auto simp: task_ok_def st_tick_def st_pend_def)
  let ?t = "t\<lparr>TCB_TaskState := OS_TASK_STATE_DLY\<rparr>" let ?s = "s\<lparr>tcbs := (tcbs s)(?x \<mapsto> ?t)\<rparr>"
  let ?R = "R(unat (TCB_Prio t) := remove1 ?x (R (unat (TCB_Prio t))))"
  have kr: "krel ?s R P W" using kinvD(1) [OF K] krel_tcb_upd [OF t, of ?t] by (simp add: rdy_view_def tick_view_def)
  then have T: "tick_rel ?s W" by (simp add: krel_def)
  have m': "tick_match ?t ticks opt (OSTickCtr ?s) = Some m" using m by simp
  have nW: "?x \<notin> set (W j)" for j using kinvD(4) [OF K] t ok(3) unfolding tick_rel_def tick_links_def on_spoke_def by auto
  have len: "length (W i) < 65535" using kinv_room(2) [OF K _ nW] t by auto
  from OS_TickListInsert_ok [OF T _ _ ok(1) m' _ len] ok(3) i_def obtain s1 where
    s1: "OS_TickListInsert ?x ticks opt ?s = Some (OS_ERR_NONE, s1)" "tick_rel s1 (W(i := time_insert (tick_remain s1) ?x (W i)))" "tick_frame ?s s1"
      "match_frame ?x ?s s1" "fld TCB_TickCtrMatch (tcbs s1) ?x = m" by auto
  have "map_option tcb_base (tcbs s1 ?x) = Some (tcb_base ?t)" using tcb_base_frames(2) [OF s1(3), of ?x] by simp
  then obtain t1 where t1: "tcbs s1 ?x = Some t1" "tcb_base t1 = tcb_base ?t" by (auto simp: map_option_Some_iff)
  let ?W = "W(i := time_insert (tick_remain s1) ?x (W i))"
  have "?x \<in> set (?W i)" by simp
  then have "on_spoke s1 i ?x" using s1(2) unfolding tick_rel_def tick_links_def by blast
  then have sp: "TCB_TickSpokePtr t1 \<noteq> None" using t1(1) by (simp add: on_spoke_def)
  have kr1: "rdy_rel s1 R" "pend_rel s1 P" using kr tick_frame_others [OF s1(3)] by (simp_all add: krel_def)
  from OS_RdyListRemove_ok [OF kr1(1) ok(2)] obtain s2 where s2: "OS_RdyListRemove ?x s1 = Some s2" "rdy_rel s2 ?R" "rdy_frame s1 s2" by blast
  obtain t2 where t2: "tcbs s2 ?x = Some t2" "tcb_core t2 = tcb_core t1" by (rule rdy_frame_tcb [OF s2(3) t1(1)])
  have kr2: "krel s2 ?R P ?W" using s2(2) kr1(2) s1(2) rdy_frame_others [OF s2(3)] by (simp add: krel_def)
  have F: "kframe {?x} {} s s2"
    using kframe_trans [OF kframe_tcb_upd [OF t, of "{?x}" "{}" ?t] kframe_trans [OF tick_frame_kframe [OF s1(3,4)] rdy_frame_kframe [OF s2(3)]]] by simp
  have b: "tcb_base t2 = tcb_base ?t" using tcb_core_other(2) [OF t2(2)] t1(2) by simp
  have e: "TCB_Prio t2 = TCB_Prio t" "TCB_TaskState t2 = OS_TASK_STATE_DLY" "pend_tbl t2 = {}" "TCB_TickSpokePtr t2 \<noteq> None" "TCB_TickCtrMatch t2 = m"
    using tcb_base_eqD [OF b] tcb_base_key [OF b] ok(4) tcb_core_eqD(9,10) [OF t2(2)] sp s1(5) t1(1) by (simp_all add: pend_tbl_def fld_Some)
  have P: "P = (\<lambda>ob. filter (\<lambda>d. d \<notin> pend_tbl t) (P ob))" using ok(4) by simp
  have dR: "distinct (R p)" for p by (rule rdy_rel_list(1) [OF kinvD(2) [OF K]])
  have k2: "kinv s2 ?R P ?W"
    by (rule kinv_wake [OF K t _ kr2 P, where t' = t2]) (use st(1) F ok(4) t2(1) e dR in \<open>auto simp: st_pend_def st_tick_def\<close>)
  from block_sched [OF S n o t k2 F t2(1) e(1)] obtain s3 R' where s3: "OSSched s2 = Some s3" "sw_frame s2 s3" "sys s3 R' P ?W" "\<forall>p. R' p = remove1 ?x (R p)"
    "OSTCBCurPtr s3 = top_task R'" "OSTCBCurPtr s3 \<noteq> ?x" by blast
  have "map_option tcb_stat (tcbs s3 ?x) = Some (tcb_stat t2)" using s3(2) t2(1) by (simp add: sw_frame_def)
  then obtain t3 where t3: "tcbs s3 ?x = Some t3" "tcb_stat t3 = tcb_stat t2" by (auto simp: map_option_Some_iff)
  have "TCB_TaskState t3 = OS_TASK_STATE_DLY" "TCB_TickCtrMatch t3 = m" using tcb_stat_key [OF t3(2)] e(2,5) by (simp_all add: tcb_key_def tick_view_def)
  moreover have "time_dly ticks opt s = Some (Blocked, s3)" using t s1(1) s2(1) s3(1) by (simp add: time_dly_def Let_def)
  ultimately show ?thesis using s3(2-6) F t3(1) by (intro exI [of _ s1] exI [of _ s3] exI [of _ R'] exI [of _ t3]) auto
qed

text \<open>A delay that lies in the past is refused, but only after the task state was changed.\<close>

lemma time_dly_past:
  assumes t: "tcbs s (OSTCBCurPtr s) = Some t" and m: "tick_match t ticks opt (OSTickCtr s) = None"
  shows "time_dly ticks opt s = Some (Done OS_ERR_TIME_ZERO_DLY, s\<lparr>tcbs := (tcbs s)(OSTCBCurPtr s \<mapsto>
    t\<lparr>TCB_TaskState := OS_TASK_STATE_DLY, TCB_TickCtrMatch := 0, TCB_TickRemain := 0, TCB_TickSpokePtr := None\<rparr>)\<rparr>)"
proof -
  let ?t = "t\<lparr>TCB_TaskState := OS_TASK_STATE_DLY\<rparr>" let ?s = "s\<lparr>tcbs := (tcbs s)(OSTCBCurPtr s \<mapsto> ?t)\<rparr>"
  have "tick_match ?t ticks opt (OSTickCtr ?s) = None" using m by simp
  from tick_set_ok(1) [of ?s "OSTCBCurPtr s" ?t, OF _ this] show ?thesis using t by (simp add: time_dly_def Let_def OS_TickListInsert_def)
qed

text \<open>The conversion of hours, minutes, seconds and milliseconds is exact as long as the
  milliseconds times the tick rate fit in 32 bits.\<close>

lemma hmsm_ticks_exact:
  assumes "unat hours \<le> 999" "unat minutes \<le> 9999" "unat milli \<le> 4294967"
  shows "unat (hmsm_ticks hours minutes seconds milli) = ((unat hours * 60 + unat minutes) * 60 + unat seconds) * 1000 + unat milli"
proof -
  let ?d = "(unat hours * 3600 + unat minutes * 60 + unat seconds) * 1000"
  have s: "unat seconds < 65536" using unsigned_less [of seconds, where 'a = nat] by simp
  have "hmsm_ticks hours minutes seconds milli = of_nat ?d + (1000 * milli) div 1000"
    by (simp add: hmsm_ticks_def)
  moreover have "unat (1000 * milli) = 1000 * unat milli" using assms(3) by (simp add: unat_word_ariths)
  then have "unat ((1000 * milli) div 1000) = unat milli" by (simp add: unat_div)
  then have "(1000 * milli) div 1000 = of_nat (unat milli)" by (simp add: word_unat_eq_iff)
  ultimately have e: "hmsm_ticks hours minutes seconds milli = of_nat (?d + unat milli)" by simp
  have "?d + unat milli < 2 ^ LENGTH(32)" using assms s by simp
  then have "unat (hmsm_ticks hours minutes seconds milli) = ?d + unat milli" unfolding e unat_of_nat by (rule mod_less)
  then show ?thesis by simp
qed


subsection \<open>Ending a delay early\<close>

lemma kframe_cur_rdy:
  assumes "kframe {x} D s s'" "x \<noteq> OSTCBCurPtr s" "cur_rdy s"
  shows "cur_rdy s'"
proof -
  from assms(3) obtain t where t: "tcbs s (OSTCBCurPtr s) = Some t" "TCB_Prio t = OSPrioCur s" "TCB_TaskState t = OS_TASK_STATE_RDY" by (auto simp: cur_rdy_def)
  from kframe_tcb(1) [OF assms(1) _ t(1)] assms(2) obtain t' where t': "tcbs s' (OSTCBCurPtr s) = Some t'" "tcb_other t' = tcb_other t" by auto
  then show ?thesis using tcb_other_eqD(1,2) [OF t'(2)] kframe_globals(11,12) [OF assms(1)] t by (simp add: cur_rdy_def)
qed

lemma OSTimeDlyResume_ok:
  assumes S: "sys s R P W" and n: "OSIntNestingCtr s = 0" and x: "x \<noteq> OSTCBCurPtr s"
    and t: "tcbs s x = Some t" "TCB_TaskState t \<in> {OS_TASK_STATE_DLY, OS_TASK_STATE_DLY_SUSPENDED}"
  shows "\<exists>s1 s' R' t'. OSTimeDlyResume x s = Some (if TCB_TaskState t = OS_TASK_STATE_DLY then OS_ERR_NONE else OS_ERR_TASK_SUSPENDED, s') \<and>
    sys s' R' P (\<lambda>i. filter (\<lambda>y. y \<noteq> x) (W i)) \<and> R' = wake_rdy s x t R \<and> sw_frame s1 s' \<and> sched_done s1 R' s' \<and>
    tcbs s1 x = Some t' \<and> TCB_TaskState t' = TCB_TaskState t AND OS_TASK_STATE_BIT_SUSPENDED"
proof -
  have K: "kinv s R P W" and c: "cur_rdy s" using S by (simp_all add: sys_def)
  have x0: "x \<noteq> NULL" using kinvD(7) [OF K t(1)] by (simp add: task_ok_def)
  have tb: "pend_tbl t = {}" using kinvD(7) [OF K t(1)] t(2) by (auto simp: task_ok_def st_pend_def)
  let ?err = "if TCB_TaskState t = OS_TASK_STATE_DLY then OS_ERR_NONE else OS_ERR_TASK_SUSPENDED"
  have "\<exists>s1 t1. OSTimeDlyResume x s = OSSched s1 \<bind> (\<lambda>s. Some (?err, s)) \<and> expired s R P W x t s1 t1 \<and> kframe {x} {} s s1"
  proof (cases "TCB_TaskState t = OS_TASK_STATE_DLY")
    case True
    let ?u = "t\<lparr>TCB_TaskState := OS_TASK_STATE_RDY\<rparr>" let ?s = "s\<lparr>tcbs := (tcbs s)(x \<mapsto> ?u)\<rparr>"
    from undelay_rdy [OF K t(1) True, of ?u] obtain s1 t1 where s1: "OS_TaskRdy x ?s = Some s1" "expired s R P W x t s1 t1" "kframe {x} {} s s1"
      by (auto simp: rdy_view_def tick_view_def pend_tbl_def)
    have "krel ?s R P W" using krel_tcb_upd [OF t(1), of ?u R P W] kinvD(1) [OF K] by (simp add: rdy_view_def tick_view_def)
    then have "tick_rel ?s W" by (simp add: krel_def)
    from OS_TickListRemove_ok [OF this, of x ?u] obtain s0 t0 where s0: "OS_TickListRemove x ?s = Some s0" "tick_frame ?s s0" "tcbs s0 x = Some t0" by auto
    have b: "tcb_base t0 = tcb_base ?u" using tcb_base_frames(2) [OF s0(2), of x] s0(3) by simp
    have "OS_RdyListInsert x s0 = Some s1" using s1(1) s0(1,3) tcb_base_eqD [OF b] by (simp add: OS_TaskRdy_def)
    then have "OSTimeDlyResume x s = OSSched s1 \<bind> (\<lambda>s. Some (?err, s))" using n x0 x t(1) True s0(1) by (simp add: OSTimeDlyResume_def)
    with s1 show ?thesis by blast
  next
    case False
    then have st: "TCB_TaskState t = OS_TASK_STATE_DLY_SUSPENDED" using t(2) by simp
    from undelay_susp [OF K t(1) st, of "t\<lparr>TCB_TaskState := OS_TASK_STATE_SUSPENDED\<rparr>"] obtain s1 t1 where
      s1: "OS_TickListRemove x (s\<lparr>tcbs := (tcbs s)(x \<mapsto> t\<lparr>TCB_TaskState := OS_TASK_STATE_SUSPENDED\<rparr>)\<rparr>) = Some s1" "expired s R P W x t s1 t1" "kframe {x} {} s s1"
      by (auto simp: rdy_view_def tick_view_def pend_tbl_def)
    then have "OSTimeDlyResume x s = OSSched s1 \<bind> (\<lambda>s. Some (?err, s))" using n x0 x t(1) st by (simp add: OSTimeDlyResume_def)
    with s1 show ?thesis by blast
  qed
  then obtain s1 t1 where s1: "OSTimeDlyResume x s = OSSched s1 \<bind> (\<lambda>s. Some (?err, s))" "expired s R P W x t s1 t1" "kframe {x} {} s s1" by blast
  have P: "(\<lambda>ob. filter (\<lambda>d. d \<notin> pend_tbl t) (P ob)) = P" using tb by simp
  have e: "kinv s1 (wake_rdy s x t R) P (\<lambda>i. filter (\<lambda>y. y \<noteq> x) (W i))" "tcbs s1 x = Some t1" "TCB_TaskState t1 = TCB_TaskState t AND OS_TASK_STATE_BIT_SUSPENDED"
    using s1(2) unfolding expired_def P by auto
  have "sys s1 (wake_rdy s x t R) P (\<lambda>i. filter (\<lambda>y. y \<noteq> x) (W i))" using e(1) kframe_cur_rdy [OF s1(3) x c] by (simp add: sys_def)
  from sched_if_ok [OF this, of True] obtain s' where s': "OSSched s1 = Some s'" "sys s' (wake_rdy s x t R) P (\<lambda>i. filter (\<lambda>y. y \<noteq> x) (W i))"
    "sw_frame s1 s'" "sched_done s1 (wake_rdy s x t R) s'" by auto
  with s1(1) e(2,3) show ?thesis by (intro exI [of _ s1] exI [of _ s'] exI [of _ "wake_rdy s x t R"] exI [of _ t1]) simp
qed

end
