(* ===== verification/OS_Mem.thy ===== *)
theory OS_Mem
  imports OS_Types
begin

text \<open>
  \<^verbatim>\<open>src/ucosTest/Source/os_mem.c\<close>: partitions of fixed-size blocks.  Control blocks are in \<open>mems\<close>; the
  free blocks of a partition are chained through their first word, which \<open>ram\<close> holds, so block
  addresses are 32-bit words and the address arithmetic wraps as the code's does.
\<close>

definition mem_mod :: "ptr \<Rightarrow> (OS_MEM \<Rightarrow> OS_MEM) \<Rightarrow> os \<Rightarrow> os option" where
  "mem_mod p f s = map_option (\<lambda>h. s\<lparr>mems := h\<rparr>) (mod_at p f (mems s))"

lemma mem_mod_Some [simp]: "mems s p = Some n \<Longrightarrow> mem_mod p f s = Some (s\<lparr>mems := (mems s)(p \<mapsto> f n)\<rparr>)"
  by (simp add: mem_mod_def)

text \<open>The assignment \<^verbatim>\<open>*(void **)a = v\<close>.\<close>

definition ram_set :: "CPU_ADDR \<Rightarrow> CPU_ADDR \<Rightarrow> os \<Rightarrow> os option" where
  "ram_set a v s = (if a \<in> dom (ram s) then Some (s\<lparr>ram := (ram s)(a \<mapsto> v)\<rparr>) else None)"

abbreviation (input) sizeof_ptr :: nat where "sizeof_ptr \<equiv> 4"

definition OS_MemDbgListAdd :: "ptr \<Rightarrow> os \<Rightarrow> os option" where
  "OS_MemDbgListAdd p_mem s = do {
     s \<leftarrow> mem_mod p_mem (\<lambda>m. m\<lparr>MEM_DbgPrevPtr := NULL\<rparr>) s;
     s \<leftarrow> (if OSMemDbgListPtr s = NULL then mem_mod p_mem (\<lambda>m. m\<lparr>MEM_DbgNextPtr := NULL\<rparr>) s
           else do {
             s \<leftarrow> mem_mod p_mem (\<lambda>m. m\<lparr>MEM_DbgNextPtr := OSMemDbgListPtr s\<rparr>) s;
             mem_mod (OSMemDbgListPtr s) (\<lambda>m. m\<lparr>MEM_DbgPrevPtr := p_mem\<rparr>) s
           });
     Some (s\<lparr>OSMemDbgListPtr := p_mem\<rparr>)
   }"

definition OS_MemInit :: "os \<Rightarrow> OS_ERR \<times> os" where
  "OS_MemInit s = (OS_ERR_NONE, s\<lparr>OSMemDbgListPtr := NULL, OSMemQty := 0\<rparr>)"

text \<open>The loop that chains the blocks; \<open>p_link\<close> and \<open>p_blk\<close> both point to the last block reached.\<close>

primrec mem_link_loop :: "nat \<Rightarrow> CPU_ADDR \<Rightarrow> CPU_ADDR \<Rightarrow> os \<Rightarrow> (CPU_ADDR \<times> os) option" where
  "mem_link_loop 0 blk_size p_link s = Some (p_link, s)"
| "mem_link_loop (Suc n) blk_size p_link s = do {
     let p_blk = p_link + blk_size;
     s \<leftarrow> ram_set p_link p_blk s;
     mem_link_loop n blk_size p_blk s
   }"

definition OSMemCreate :: "ptr \<Rightarrow> string \<Rightarrow> CPU_ADDR \<Rightarrow> OS_MEM_QTY \<Rightarrow> OS_MEM_SIZE \<Rightarrow> os \<Rightarrow> (OS_ERR \<times> os) option" where
  "OSMemCreate p_mem p_name p_addr n_blks blk_size s =
     (if OSIntNestingCtr s > 0 then Some (OS_ERR_MEM_CREATE_ISR, s)
      else if p_addr = 0 then Some (OS_ERR_MEM_INVALID_P_ADDR, s)
      else if n_blks < 2 then Some (OS_ERR_MEM_INVALID_BLKS, s)
      else if unat blk_size < sizeof_ptr then Some (OS_ERR_MEM_INVALID_SIZE, s)
      else let align_msk = of_nat sizeof_ptr - 1 :: CPU_DATA in
        if p_addr AND align_msk \<noteq> 0 then Some (OS_ERR_MEM_INVALID_P_ADDR, s)
        else if ucast blk_size AND align_msk \<noteq> 0 then Some (OS_ERR_MEM_INVALID_SIZE, s)
        else do {
          (p_link, s) \<leftarrow> mem_link_loop (unat (n_blks - 1)) (ucast blk_size) p_addr s;
          s \<leftarrow> ram_set p_link 0 s;
          s \<leftarrow> mem_mod p_mem (\<lambda>m. m\<lparr>MEM_Type := OS_OBJ_TYPE_MEM, MEM_NamePtr := p_name, MEM_AddrPtr := p_addr, MEM_FreeListPtr := p_addr,
                 MEM_NbrFree := n_blks, MEM_NbrMax := n_blks, MEM_BlkSize := blk_size\<rparr>) s;
          s \<leftarrow> OS_MemDbgListAdd p_mem s;
          Some (OS_ERR_NONE, s\<lparr>OSMemQty := OSMemQty s + 1\<rparr>)
        })"

definition OSMemGet :: "ptr \<Rightarrow> os \<Rightarrow> (CPU_ADDR \<times> OS_ERR \<times> os) option" where
  "OSMemGet p_mem s =
     (if p_mem = NULL then Some (0, OS_ERR_MEM_INVALID_P_MEM, s)
      else do {
        m \<leftarrow> mems s p_mem;
        if MEM_NbrFree m = 0 then Some (0, OS_ERR_MEM_NO_FREE_BLKS, s)
        else do {
          let p_blk = MEM_FreeListPtr m;
          next_blk \<leftarrow> ram s p_blk;
          s \<leftarrow> mem_mod p_mem (\<lambda>m. m\<lparr>MEM_FreeListPtr := next_blk, MEM_NbrFree := MEM_NbrFree m - 1\<rparr>) s;
          Some (p_blk, OS_ERR_NONE, s)
        }
      })"

definition OSMemPut :: "ptr \<Rightarrow> CPU_ADDR \<Rightarrow> os \<Rightarrow> (OS_ERR \<times> os) option" where
  "OSMemPut p_mem p_blk s =
     (if p_mem = NULL then Some (OS_ERR_MEM_INVALID_P_MEM, s)
      else if p_blk = 0 then Some (OS_ERR_MEM_INVALID_P_BLK, s)
      else do {
        m \<leftarrow> mems s p_mem;
        if MEM_NbrFree m \<ge> MEM_NbrMax m then Some (OS_ERR_MEM_FULL, s)
        else do {
          s \<leftarrow> ram_set p_blk (MEM_FreeListPtr m) s;
          s \<leftarrow> mem_mod p_mem (\<lambda>m. m\<lparr>MEM_FreeListPtr := p_blk, MEM_NbrFree := MEM_NbrFree m + 1\<rparr>) s;
          Some (OS_ERR_NONE, s)
        }
      })"

subsection \<open>The abstraction: a set of blocks and the chain of the free ones\<close>

definition cell :: "os \<Rightarrow> CPU_ADDR \<Rightarrow> CPU_ADDR" where
  "cell s a = (case ram s a of None \<Rightarrow> 0 | Some v \<Rightarrow> v)"

definition mem_rel :: "ptr \<Rightarrow> CPU_ADDR set \<Rightarrow> os \<Rightarrow> CPU_ADDR list \<Rightarrow> bool" where
  "mem_rel p B s F \<longleftrightarrow> p \<noteq> NULL \<and> finite B \<and> 0 \<notin> B \<and> B \<subseteq> dom (ram s) \<and> distinct F \<and> set F \<subseteq> B \<and>
     (\<exists>m e. mems s p = Some m \<and> unat (MEM_NbrFree m) = length F \<and> unat (MEM_NbrMax m) = card B \<and> path (cell s) (MEM_FreeListPtr m) F e)"

lemma OSMemGet_empty: "mem_rel p B s [] \<Longrightarrow> OSMemGet p s = Some (0, OS_ERR_MEM_NO_FREE_BLKS, s)"
  by (auto simp: mem_rel_def OSMemGet_def dest: unat_eq_numD)

lemma OSMemGet_ok:
  assumes "mem_rel p B s (b # F)"
  shows "\<exists>s'. OSMemGet p s = Some (b, OS_ERR_NONE, s') \<and> mem_rel p B s' F \<and> s'\<lparr>mems := mems s\<rparr> = s \<and> (\<forall>q. q \<noteq> p \<longrightarrow> mems s' q = mems s q)"
proof -
  from assms obtain m e where m: "mems s p = Some m" "unat (MEM_NbrFree m) = Suc (length F)" "unat (MEM_NbrMax m) = card B"
    "MEM_FreeListPtr m = b" "path (cell s) (cell s b) F e" and r: "p \<noteq> NULL" "finite B" "0 \<notin> B" "B \<subseteq> dom (ram s)" "distinct (b # F)" "set (b # F) \<subseteq> B"
    by (auto simp: mem_rel_def)
  from r(4,6) obtain v where v: "ram s b = Some v" by auto
  let ?s = "s\<lparr>mems := (mems s)(p \<mapsto> m\<lparr>MEM_FreeListPtr := v, MEM_NbrFree := MEM_NbrFree m - 1\<rparr>)\<rparr>"
  have "MEM_NbrFree m \<noteq> 0" using m(2) by auto
  then have "OSMemGet p s = Some (b, OS_ERR_NONE, ?s)" using m(1,4) v r(1) by (simp add: OSMemGet_def)
  moreover have "cell ?s = cell s" by (simp add: cell_def fun_eq_iff)
  then have "mem_rel p B ?s F" using m v r unat_dec [OF m(2)] by (auto simp: mem_rel_def cell_def)
  ultimately show ?thesis by auto
qed

lemma OSMemPut_ok:
  assumes R: "mem_rel p B s F" and b: "b \<in> B" "b \<notin> set F"
  shows "\<exists>s'. OSMemPut p b s = Some (OS_ERR_NONE, s') \<and> mem_rel p B s' (b # F) \<and>
    s'\<lparr>mems := mems s, ram := ram s\<rparr> = s \<and> (\<forall>q. q \<noteq> p \<longrightarrow> mems s' q = mems s q) \<and> (\<forall>a. a \<noteq> b \<longrightarrow> ram s' a = ram s a)"
proof -
  from R obtain m e where m: "mems s p = Some m" "unat (MEM_NbrFree m) = length F" "unat (MEM_NbrMax m) = card B"
    "path (cell s) (MEM_FreeListPtr m) F e" and r: "p \<noteq> NULL" "finite B" "0 \<notin> B" "B \<subseteq> dom (ram s)" "distinct F" "set F \<subseteq> B"
    by (auto simp: mem_rel_def)
  have "card (set (b # F)) \<le> card B" by (rule card_mono [OF r(2)]) (use b(1) r(6) in auto)
  then have lt: "length F < card B" using r(5) b(2) by (simp add: distinct_card)
  then have nf: "\<not> MEM_NbrFree m \<ge> MEM_NbrMax m" using m(2,3) by (simp add: word_le_nat_alt)
  have "Suc (length F) < 2 ^ LENGTH(16)" if "unat (MEM_NbrMax m) = card B" using that lt unsigned_less [of "MEM_NbrMax m", where 'a = nat] by simp
  then have inc: "unat (MEM_NbrFree m + 1) = Suc (length F)" using m(3) unat_inc [OF m(2)] by blast
  let ?s = "s\<lparr>ram := (ram s)(b \<mapsto> MEM_FreeListPtr m), mems := (mems s)(p \<mapsto> m\<lparr>MEM_FreeListPtr := b, MEM_NbrFree := MEM_NbrFree m + 1\<rparr>)\<rparr>"
  have "b \<noteq> 0" "b \<in> dom (ram s)" using b(1) r(3,4) by auto
  then have run: "OSMemPut p b s = Some (OS_ERR_NONE, ?s)" using m(1) r(1) nf by (simp add: OSMemPut_def ram_set_def domIff)
  have "path (cell ?s) (MEM_FreeListPtr m) F e = path (cell s) (MEM_FreeListPtr m) F e"
    by (rule path_cong) (use b(2) in \<open>auto simp: cell_def\<close>)
  moreover have "cell ?s b = MEM_FreeListPtr m" by (simp add: cell_def)
  ultimately have "path (cell ?s) b (b # F) e" using m(4) by simp
  then have "\<exists>m' e. mems ?s p = Some m' \<and> unat (MEM_NbrFree m') = length (b # F) \<and> unat (MEM_NbrMax m') = card B \<and> path (cell ?s) (MEM_FreeListPtr m') (b # F) e"
    using inc m(3) by auto
  moreover have "B \<subseteq> dom (ram ?s)" using r(4) by auto
  ultimately have "mem_rel p B ?s (b # F)" using r b unfolding mem_rel_def by simp
  with run show ?thesis by auto
qed

lemma OSMemPut_full:
  assumes "mem_rel p B s F" "set F = B" "b \<noteq> 0"
  shows "OSMemPut p b s = Some (OS_ERR_MEM_FULL, s)"
proof -
  from assms obtain m where m: "mems s p = Some m" "unat (MEM_NbrFree m) = length F" "unat (MEM_NbrMax m) = card B" "p \<noteq> NULL" "distinct F"
    by (auto simp: mem_rel_def)
  then have "MEM_NbrFree m \<ge> MEM_NbrMax m" using assms(2) distinct_card [OF m(5)] by (simp add: word_le_nat_alt)
  with m(1,4) assms(3) show ?thesis by (simp add: OSMemPut_def)
qed

subsection \<open>Creation\<close>

definition blocks :: "CPU_ADDR \<Rightarrow> CPU_ADDR \<Rightarrow> nat \<Rightarrow> CPU_ADDR list" where
  "blocks a z n = map (\<lambda>i. a + of_nat i * z) [0..<n]"

lemma blocks_Suc: "blocks a z (Suc n) = a # blocks (a + z) z n"
proof -
  have "blocks a z (Suc n) = map (\<lambda>i. a + of_nat i * z) (0 # map Suc [0..<n])" by (simp add: blocks_def map_Suc_upt upt_conv_Cons del: upt_Suc)
  then show ?thesis by (simp add: blocks_def algebra_simps)
qed

lemma blocks_snoc: "blocks a z (Suc n) = blocks a z n @ [a + of_nat n * z]"
  by (simp add: blocks_def)

lemma length_blocks [simp]: "length (blocks a z n) = n"
  by (simp add: blocks_def)

lemma block_addr:
  assumes "unat a + n * unat z \<le> 2 ^ LENGTH(32)" "i < n" "z \<noteq> 0"
  shows "unat (a + of_nat i * z) = unat a + i * unat (z :: CPU_ADDR)"
proof -
  have z: "unat z > 0" using assms(3) by (simp add: unat_gt_0)
  have "i * unat z + unat z \<le> n * unat z" using assms(2) by (metis Suc_leI add.commute mult_Suc mult_le_mono1)
  then have lt: "unat a + i * unat z < 2 ^ LENGTH(32)" using assms(1) z by linarith
  have "a + of_nat i * z = of_nat (unat a + i * unat z)" by simp
  moreover have "unat (of_nat (unat a + i * unat z) :: CPU_ADDR) = unat a + i * unat z"
    using lt unfolding unat_of_nat by (rule mod_less)
  ultimately show ?thesis by (rule ssubst)
qed

lemma blocks_ok:
  assumes "unat a + n * unat z \<le> 2 ^ LENGTH(32)" "z \<noteq> 0" "a \<noteq> 0"
  shows "distinct (blocks a z n)" "0 \<notin> set (blocks a z n)"
proof -
  have z: "unat z > 0" using assms(2) by (simp add: unat_gt_0)
  have "inj_on (\<lambda>i. a + of_nat i * z) {..<n}"
  proof (rule inj_onI)
    fix i j assume ij: "i \<in> {..<n}" "j \<in> {..<n}" "a + of_nat i * z = a + of_nat j * z"
    then have "unat a + i * unat z = unat a + j * unat z" using block_addr [OF assms(1) _ assms(2)] by (metis lessThan_iff)
    then show "i = j" using z by simp
  qed
  then show "distinct (blocks a z n)" by (simp add: blocks_def distinct_map atLeast_upt)
  have "a + of_nat i * z \<noteq> 0" if "i < n" for i
  proof
    assume "a + of_nat i * z = 0"
    then have "unat a + i * unat z = 0" using block_addr [OF assms(1) that assms(2)] by (metis unat_0)
    then show False using assms(3) by (simp add: unat_eq_0)
  qed
  then show "0 \<notin> set (blocks a z n)" by (force simp: blocks_def)
qed

lemma mem_link_loop_ok:
  assumes "set (blocks a z n) \<subseteq> dom (ram s)" "distinct (blocks a z n)"
  shows "\<exists>h. mem_link_loop n z a s = Some (a + of_nat n * z, s\<lparr>ram := h\<rparr>) \<and> dom h = dom (ram s) \<and>
    (\<forall>x. x \<notin> set (blocks a z n) \<longrightarrow> h x = ram s x) \<and> path (cell (s\<lparr>ram := h\<rparr>)) a (blocks a z n) (a + of_nat n * z)"
  using assms
proof (induction n arbitrary: a s)
  case 0
  then show ?case by (intro exI [of _ "ram s"]) (simp add: blocks_def)
next
  case (Suc n)
  have a: "a \<in> dom (ram s)" "a \<notin> set (blocks (a + z) z n)" "set (blocks (a + z) z n) \<subseteq> dom (ram s)" "distinct (blocks (a + z) z n)"
    using Suc.prems by (simp_all add: blocks_Suc)
  let ?s = "s\<lparr>ram := (ram s)(a \<mapsto> a + z)\<rparr>"
  have "set (blocks (a + z) z n) \<subseteq> dom (ram ?s)" using a(3) by auto
  from Suc.IH [OF this a(4)] obtain h where
    h: "mem_link_loop n z (a + z) ?s = Some (a + z + of_nat n * z, ?s\<lparr>ram := h\<rparr>)" "dom h = dom (ram ?s)"
      "\<forall>x. x \<notin> set (blocks (a + z) z n) \<longrightarrow> h x = ram ?s x" "path (cell (?s\<lparr>ram := h\<rparr>)) (a + z) (blocks (a + z) z n) (a + z + of_nat n * z)" by blast
  have e: "a + z + of_nat n * z = a + of_nat (Suc n) * z" by (simp add: algebra_simps)
  have "mem_link_loop (Suc n) z a s = Some (a + of_nat (Suc n) * z, s\<lparr>ram := h\<rparr>)" using a(1) h(1) unfolding e by (simp add: ram_set_def)
  moreover have "cell (s\<lparr>ram := h\<rparr>) a = a + z" using h(3) a(2) by (simp add: cell_def)
  then have "path (cell (s\<lparr>ram := h\<rparr>)) a (blocks a z (Suc n)) (a + of_nat (Suc n) * z)" using h(4) unfolding e blocks_Suc by simp
  moreover have "dom h = dom (ram s)" using h(2) a(1) by auto
  moreover have "h x = ram s x" if "x \<notin> set (blocks a z (Suc n))" for x using h(3) that by (simp add: blocks_Suc)
  ultimately show ?case by blast
qed


text \<open>A partition can be created over any aligned array that does not wrap around the end of the
  address space; its free list is then the array in order.\<close>

lemma mem_dbg_add:
  assumes "mems s p = Some m" "OSMemDbgListPtr s = NULL \<or> OSMemDbgListPtr s \<in> dom (mems s)"
  shows "\<exists>h m'. OS_MemDbgListAdd p s = Some (s\<lparr>mems := h, OSMemDbgListPtr := p\<rparr>) \<and> h p = Some m' \<and>
    m'\<lparr>MEM_DbgPrevPtr := NULL, MEM_DbgNextPtr := NULL\<rparr> = m\<lparr>MEM_DbgPrevPtr := NULL, MEM_DbgNextPtr := NULL\<rparr>"
proof (cases "OSMemDbgListPtr s = NULL \<or> OSMemDbgListPtr s = p")
  case True
  then show ?thesis using assms by (auto simp: OS_MemDbgListAdd_def)
next
  case False
  with assms(2) obtain c where "mems s (OSMemDbgListPtr s) = Some c" by auto
  with False assms(1) show ?thesis
    by (intro exI [of _ "(mems s)(p \<mapsto> m\<lparr>MEM_DbgPrevPtr := NULL, MEM_DbgNextPtr := OSMemDbgListPtr s\<rparr>, OSMemDbgListPtr s \<mapsto> c\<lparr>MEM_DbgPrevPtr := p\<rparr>)"])
      (simp add: OS_MemDbgListAdd_def)
qed

lemma OSMemCreate_ok:
  fixes n :: OS_MEM_QTY and z :: OS_MEM_SIZE and a :: CPU_ADDR
  defines "B \<equiv> blocks a (ucast z) (unat n)"
  assumes i: "OSIntNestingCtr s = 0" and a: "a \<noteq> 0" "a AND 3 = 0" and n: "n \<ge> 2" and z: "unat z \<ge> 4" "ucast z AND (3 :: CPU_ADDR) = 0"
    and w: "unat a + unat n * unat z \<le> 2 ^ LENGTH(32)" and d: "set B \<subseteq> dom (ram s)"
    and p: "p \<noteq> NULL" "p \<in> dom (mems s)" "OSMemDbgListPtr s = NULL \<or> OSMemDbgListPtr s \<in> dom (mems s)"
  shows "\<exists>s'. OSMemCreate p name a n z s = Some (OS_ERR_NONE, s') \<and> mem_rel p (set B) s' B \<and> OSMemQty s' = OSMemQty s + 1"
proof -
  from p(2) obtain m where m: "mems s p = Some m" by blast
  let ?z = "ucast z :: CPU_ADDR"
  have uz: "unat ?z = unat z" by (simp add: unsigned_ucast_eq take_bit_nat_eq_self less_le_trans [OF unsigned_less])
  have z0: "?z \<noteq> 0" using z(1) uz by (metis not_numeral_le_zero unat_0)
  have w': "unat a + unat n * unat ?z \<le> 2 ^ LENGTH(32)" using w uz by simp
  note bl = blocks_ok [OF w' z0 a(1)]
  have n2: "unat n \<ge> 2" using n by (simp add: word_le_nat_alt)
  then have n0: "n \<noteq> 0" by auto
  have n1: "unat n > 0" "unat (n - 1) = unat n - 1" using n2 unat_minus_one [OF n0] by simp_all
  let ?k = "unat n - 1" let ?l = "a + of_nat ?k * ?z"
  have B: "B = blocks a ?z ?k @ [?l]" unfolding B_def using n1(1) blocks_snoc [of a ?z ?k] by simp
  have "set (blocks a ?z ?k) \<subseteq> dom (ram s)" "distinct (blocks a ?z ?k)" using d bl(1) unfolding B_def [symmetric] B by simp_all
  from mem_link_loop_ok [OF this] obtain h where h: "mem_link_loop ?k ?z a s = Some (?l, s\<lparr>ram := h\<rparr>)" "dom h = dom (ram s)"
    "path (cell (s\<lparr>ram := h\<rparr>)) a (blocks a ?z ?k) ?l" by blast
  have l: "?l \<in> dom h" "?l \<notin> set (blocks a ?z ?k)" using d bl(1) h(2) unfolding B_def [symmetric] B by auto
  let ?m = "m\<lparr>MEM_Type := OS_OBJ_TYPE_MEM, MEM_NamePtr := name, MEM_AddrPtr := a, MEM_FreeListPtr := a, MEM_NbrFree := n, MEM_NbrMax := n, MEM_BlkSize := z\<rparr>"
  let ?s = "s\<lparr>ram := h(?l \<mapsto> 0), mems := (mems s)(p \<mapsto> ?m)\<rparr>"
  have "OSMemDbgListPtr ?s = NULL \<or> OSMemDbgListPtr ?s \<in> dom (mems ?s)" using p(3) by auto
  from mem_dbg_add [of ?s p ?m, OF _ this] obtain g m' where g: "OS_MemDbgListAdd p ?s = Some (?s\<lparr>mems := g, OSMemDbgListPtr := p\<rparr>)" "g p = Some m'"
    "m'\<lparr>MEM_DbgPrevPtr := NULL, MEM_DbgNextPtr := NULL\<rparr> = ?m\<lparr>MEM_DbgPrevPtr := NULL, MEM_DbgNextPtr := NULL\<rparr>" by auto
  let ?s' = "?s\<lparr>mems := g, OSMemDbgListPtr := p, OSMemQty := OSMemQty s + 1\<rparr>"
  have "OSMemCreate p name a n z s = Some (OS_ERR_NONE, ?s')"
    using i a n z m l(1) g(1) h(1) n1(2) by (auto simp: OSMemCreate_def Let_def ram_set_def not_less)
  moreover have "mem_rel p (set B) ?s' B"
  proof -
    have f: "MEM_NbrFree m' = n" "MEM_NbrMax m' = n" "MEM_FreeListPtr m' = a"
      using arg_cong [OF g(3), of MEM_NbrFree] arg_cong [OF g(3), of MEM_NbrMax] arg_cong [OF g(3), of MEM_FreeListPtr] by simp_all
    have c: "cell ?s' = (cell (s\<lparr>ram := h\<rparr>))(?l := 0)" by (auto simp: cell_def)
    have "path (cell ?s') a B 0" unfolding B c path_append using h(3) l(2) by auto
    moreover have "card (set B) = unat n" using distinct_card [OF bl(1)] by (simp add: B_def)
    moreover have "set B \<subseteq> dom (ram ?s')" using d h(2) by auto
    ultimately show ?thesis using p(1) bl f g(2) unfolding mem_rel_def B_def by auto
  qed
  ultimately show ?thesis by (intro exI [of _ ?s']) simp
qed

subsection \<open>The partition as an allocator\<close>

text \<open>What a user of an allocator relies on: \<open>rep s U\<close> says that of the blocks \<open>A\<close> those in \<open>U\<close> are in use.
  A block that is handed out is not in use, and there is one unless all are.\<close>

locale allocator =
  fixes A :: "'b set"
    and rep :: "'s \<Rightarrow> 'b set \<Rightarrow> bool"
    and alloc :: "'s \<Rightarrow> ('b \<times> 's) option"
    and free :: "'b \<Rightarrow> 's \<Rightarrow> 's option"
  assumes finite_A: "finite A"
    and rep_sub: "rep s U \<Longrightarrow> U \<subseteq> A"
    and alloc_ok: "rep s U \<Longrightarrow> U \<noteq> A \<Longrightarrow> \<exists>b s'. alloc s = Some (b, s') \<and> b \<in> A - U \<and> rep s' (insert b U)"
    and alloc_full: "rep s A \<Longrightarrow> alloc s = None"
    and free_ok: "rep s U \<Longrightarrow> b \<in> U \<Longrightarrow> \<exists>s'. free b s = Some s' \<and> rep s' (U - {b})"
begin

primrec allocs :: "nat \<Rightarrow> 's \<Rightarrow> ('b list \<times> 's) option" where
  "allocs 0 s = Some ([], s)"
| "allocs (Suc n) s = do { (b, s) \<leftarrow> alloc s; (bs, s) \<leftarrow> allocs n s; Some (b # bs, s) }"

primrec frees :: "'b list \<Rightarrow> 's \<Rightarrow> 's option" where
  "frees [] s = Some s"
| "frees (b # bs) s = free b s \<bind> frees bs"

lemma allocs_ok:
  assumes "rep s U" "card U + n \<le> card A"
  shows "\<exists>bs s'. allocs n s = Some (bs, s') \<and> length bs = n \<and> distinct bs \<and> set bs \<inter> U = {} \<and> rep s' (set bs \<union> U)"
  using assms
proof (induction n arbitrary: s U)
  case (Suc n)
  have fin: "finite U" using rep_sub [OF Suc.prems(1)] finite_A by (rule finite_subset)
  have "U \<noteq> A" using Suc.prems(2) by auto
  from alloc_ok [OF Suc.prems(1) this] obtain b s1 where b: "alloc s = Some (b, s1)" "b \<in> A - U" "rep s1 (insert b U)" by blast
  have "card (insert b U) + n \<le> card A" using Suc.prems(2) b(2) fin by simp
  from Suc.IH [OF b(3) this] obtain bs s' where
    bs: "allocs n s1 = Some (bs, s')" "length bs = n" "distinct bs" "set bs \<inter> insert b U = {}" "rep s' (set bs \<union> insert b U)" by blast
  then show ?case using b by (intro exI [of _ "b # bs"] exI [of _ s']) auto
qed auto

lemma frees_ok:
  assumes "rep s (set bs \<union> U)" "distinct bs" "set bs \<inter> U = {}"
  shows "\<exists>s'. frees bs s = Some s' \<and> rep s' U"
  using assms
proof (induction bs arbitrary: s)
  case (Cons b bs)
  from free_ok [OF Cons.prems(1), of b] obtain s1 where s1: "free b s = Some s1" "rep s1 ((set (b # bs) \<union> U) - {b})" by auto
  have "(set (b # bs) \<union> U) - {b} = set bs \<union> U" using Cons.prems(2,3) by auto
  with Cons.IH [of s1] Cons.prems s1 show ?case by auto
qed simp

theorem allocs_frees:
  assumes "rep s U" "card U + n \<le> card A"
  shows "\<exists>bs s1 s2. allocs n s = Some (bs, s1) \<and> length bs = n \<and> distinct bs \<and> set bs \<inter> U = {} \<and> frees bs s1 = Some s2 \<and> rep s2 U"
proof -
  from allocs_ok [OF assms] obtain bs s1 where "allocs n s = Some (bs, s1)" "length bs = n" "distinct bs" "set bs \<inter> U = {}" "rep s1 (set bs \<union> U)" by blast
  with frees_ok [of s1 bs U] show ?thesis by blast
qed

end

definition mem_get :: "ptr \<Rightarrow> os \<Rightarrow> (CPU_ADDR \<times> os) option" where
  "mem_get p s = (case OSMemGet p s of Some (b, OS_ERR_NONE, s) \<Rightarrow> Some (b, s) | _ \<Rightarrow> None)"

definition mem_put :: "ptr \<Rightarrow> CPU_ADDR \<Rightarrow> os \<Rightarrow> os option" where
  "mem_put p b s = (case OSMemPut p b s of Some (OS_ERR_NONE, s) \<Rightarrow> Some s | _ \<Rightarrow> None)"

definition mem_used :: "ptr \<Rightarrow> CPU_ADDR list \<Rightarrow> os \<Rightarrow> CPU_ADDR set \<Rightarrow> bool" where
  "mem_used p B s U \<longleftrightarrow> (\<exists>F. mem_rel p (set B) s F \<and> U = set B - set F)"

interpretation part: allocator "set B" "mem_used p B" "mem_get p" "mem_put p" for p B
proof unfold_locales
  fix s U
  show "finite (set B)" by simp
  show "mem_used p B s U \<Longrightarrow> U \<subseteq> set B" by (auto simp: mem_used_def)
  show "\<exists>b s'. mem_get p s = Some (b, s') \<and> b \<in> set B - U \<and> mem_used p B s' (insert b U)" if "mem_used p B s U" "U \<noteq> set B"
  proof -
    from that obtain F where F: "mem_rel p (set B) s F" "U = set B - set F" by (auto simp: mem_used_def)
    with that(2) obtain b G where G: "F = b # G" by (cases F) auto
    from OSMemGet_ok [OF F(1) [unfolded G]] obtain s' where s': "OSMemGet p s = Some (b, OS_ERR_NONE, s')" "mem_rel p (set B) s' G" by blast
    have d: "b \<notin> set G" "b \<in> set B" using F(1) G by (auto simp: mem_rel_def)
    have "mem_used p B s' (insert b U)" unfolding mem_used_def using s'(2) F(2) G d by (intro exI [of _ G]) auto
    with s'(1) F(2) G d show ?thesis by (intro exI [of _ b] exI [of _ s']) (simp add: mem_get_def)
  qed
  show "mem_get p s = None" if "mem_used p B s (set B)"
  proof -
    from that obtain F where F: "mem_rel p (set B) s F" "set B = set B - set F" by (auto simp: mem_used_def)
    then have "F = []" by (cases F) (auto simp: mem_rel_def)
    with F(1) show ?thesis by (simp add: mem_get_def OSMemGet_empty)
  qed
  show "\<exists>s'. mem_put p b s = Some s' \<and> mem_used p B s' (U - {b})" if "mem_used p B s U" "b \<in> U" for b
  proof -
    from that obtain F where F: "mem_rel p (set B) s F" "U = set B - set F" "b \<in> set B" "b \<notin> set F" by (auto simp: mem_used_def)
    from OSMemPut_ok [OF F(1,3,4)] obtain s' where s': "OSMemPut p b s = Some (OS_ERR_NONE, s')" "mem_rel p (set B) s' (b # F)" by blast
    have "mem_used p B s' (U - {b})" unfolding mem_used_def using s'(2) F(2) by (intro exI [of _ "b # F"]) auto
    with s'(1) show ?thesis by (simp add: mem_put_def)
  qed
qed

end
