(* ===== verification/Service_Props.thy ===== *)
theory Service_Props
  imports OS_Time OS_Mem Object_Props
begin

text \<open>
  The properties of time management and of the memory partitions, each with a witness.
\<close>

subsection \<open>The tick\<close>

text \<open>C37. A tick ends exactly the waits whose time has come, wherever on the wheel they are:
  every task whose match value is the new tick count leaves the wheel and becomes ready, or stays
  suspended when it was suspended as well, with the time-out status when it waited for an object;
  every other task keeps its state, and the kernel invariant holds for the new tick count, across
  the wrap-around of the counter too.\<close>

theorem OS_TickListUpdate_spec:
  assumes "kinv s R P W"
  shows "\<exists>s' R' P'. OS_TickListUpdate s = Some s' \<and> OSTickCtr s' = OSTickCtr s + 1 \<and>
    kinv s' R' P' (\<lambda>j. filter (\<lambda>x. \<not> due s (OSTickCtr s + 1) x) (W j)) \<and>
    (\<forall>x j. x \<in> set (W j) \<longrightarrow> due s (OSTickCtr s + 1) x \<longrightarrow> (\<exists>t t'. tcbs s x = Some t \<and> tcbs s' x = Some t' \<and> timed_out t t')) \<and>
    (\<forall>x t. tcbs s x = Some t \<longrightarrow> (\<forall>j. x \<in> set (W j) \<longrightarrow> \<not> due s (OSTickCtr s + 1) x) \<longrightarrow>
       (\<exists>t'. tcbs s' x = Some t' \<and> TCB_TaskState t' = TCB_TaskState t \<and> TCB_PendStatus t' = TCB_PendStatus t))"
proof -
  let ?c = "OSTickCtr s + 1"
  define E where "E = {x. \<exists>i. x \<in> set (W i) \<and> due s ?c x}"
  from OS_TickListUpdate_ok [OF assms, folded E_def] obtain s' R' P' where
    s': "OS_TickListUpdate s = Some s'" "kinv s' R' P' (\<lambda>j. filter (\<lambda>y. y \<notin> E) (W j))" "OSTickCtr s' = ?c"
      "\<forall>x \<in> E. \<exists>t t'. tcbs s x = Some t \<and> tcbs s' x = Some t' \<and> timed_out t t'"
      "\<forall>x. x \<notin> E \<longrightarrow> map_option tcb_other (tcbs s' x) = map_option tcb_other (tcbs s x)" by blast
  have "filter (\<lambda>y. y \<notin> E) (W j) = filter (\<lambda>x. \<not> due s ?c x) (W j)" for j by (rule filter_cong) (auto simp: E_def)
  then have K: "kinv s' R' P' (\<lambda>j. filter (\<lambda>x. \<not> due s ?c x) (W j))" using s'(2) by simp
  have "\<exists>t'. tcbs s' x = Some t' \<and> TCB_TaskState t' = TCB_TaskState t \<and> TCB_PendStatus t' = TCB_PendStatus t"
    if "tcbs s x = Some t" "\<forall>j. x \<in> set (W j) \<longrightarrow> \<not> due s ?c x" for x t
  proof -
    have "x \<notin> E" using that(2) by (auto simp: E_def)
    then have "map_option tcb_other (tcbs s' x) = Some (tcb_other t)" using s'(5) that(1) by simp
    then obtain t' where t': "tcbs s' x = Some t'" "tcb_other t' = tcb_other t" by (auto simp: map_option_Some_iff)
    then show ?thesis using tcb_other_eqD(2) [OF t'(2)] tcb_other_more(2) [OF t'(2)] by auto
  qed
  with s'(1,3,4) K show ?thesis by (intro exI [of _ s'] exI [of _ R'] exI [of _ P']) (auto simp: E_def)
qed

text \<open>The example state three ticks later, when the wait of task 3 is about to time out.\<close>

definition demo3 :: os where "demo3 = demo\<lparr>OSTickCtr := 3\<rparr>"

lemma demo_later: "kinv (demo\<lparr>OSTickCtr := 3\<rparr>) demo_R demo_P demo_W"
proof -
  have nd: "\<not> due (demo\<lparr>OSTickCtr := n\<rparr>) c x" if "x \<in> set (demo_W j)" "c \<noteq> 4" for x j n c
    using that by (auto simp: due_def demo_W_def demo_def demo_tcb_def fld_def split: if_splits)
  have s0: "demo\<lparr>OSTickCtr := 0\<rparr> = demo" by (simp add: demo_def os0_def)
  have 1: "kinv (demo\<lparr>OSTickCtr := 1\<rparr>) demo_R demo_P demo_W"
    using kinv_advance [OF demo_kinv] nd [of _ _ 1 0] unfolding s0 by (simp add: demo_def os0_def)
  have 2: "kinv (demo\<lparr>OSTickCtr := 2\<rparr>) demo_R demo_P demo_W" using kinv_advance [OF 1] nd [of _ _ 2 1] by simp
  show ?thesis using kinv_advance [OF 2] nd [of _ _ 3 2] by simp
qed

theorem OS_TickListUpdate_spec_witness:
  "\<exists>s' R' P' t t'. OS_TickListUpdate demo3 = Some s' \<and> OSTickCtr s' = 4 \<and> kinv s' R' P' (\<lambda>_. []) \<and>
    tcbs demo3 3 = Some t \<and> tcbs s' 3 = Some t' \<and> timed_out t t'"
proof -
  have d: "3 \<in> set (demo_W 4)" "due demo3 4 3" by (simp_all add: demo_W_def due_def demo3_def demo_def demo_tcb_def fld_def)
  have e: "OSTickCtr demo3 + 1 = 4" by (simp add: demo3_def)
  have W: "(\<lambda>j. filter (\<lambda>x. \<not> due demo3 4 x) (demo_W j)) = (\<lambda>_. [])" using d(2) by (auto simp: demo_W_def)
  show ?thesis using OS_TickListUpdate_spec [OF demo_later [folded demo3_def]] d unfolding e W by metis
qed

subsection \<open>Delays\<close>

text \<open>Delaying the running task at task level by a number of ticks other than zero, with
  the scheduler unlocked, takes it off the ready list, puts it on the wheel with the match value
  that the delay gives (the current tick plus the delay, for a relative delay), and hands the
  processor to the most urgent ready task.\<close>

theorem OSTimeDly_blocks:
  assumes "sys s R P W" "OSIntNestingCtr s = 0" "OSSchedLockNestingCtr s = 0" "y \<in> set (R q)" "y \<noteq> OSTCBCurPtr s"
    and "dly \<noteq> 0" "opt \<in> {OS_OPT_TIME_DLY, OS_OPT_TIME_TIMEOUT}"
  shows "\<exists>s' R' W' t'. OSTimeDly dly opt s = Some (Blocked, s') \<and> sys s' R' P W' \<and> (\<forall>p. R' p = remove1 (OSTCBCurPtr s) (R p)) \<and>
    (\<forall>i. set (W' i) = (if i = unat ((OSTickCtr s + dly) mod OSCfg_TickWheelSize) then insert (OSTCBCurPtr s) (set (W i)) else set (W i))) \<and>
    tcbs s' (OSTCBCurPtr s) = Some t' \<and> TCB_TaskState t' = OS_TASK_STATE_DLY \<and> TCB_TickCtrMatch t' = OSTickCtr s + dly \<and>
    OSTCBCurPtr s' = top_task R' \<and> OSTCBCurPtr s' \<noteq> OSTCBCurPtr s"
proof -
  from assms(1) obtain t where t: "tcbs s (OSTCBCurPtr s) = Some t" by (auto simp: sys_def cur_rdy_def)
  have "tick_match t dly opt (OSTickCtr s) = Some (OSTickCtr s + dly)" using assms(6,7) by (auto simp: tick_match_def)
  from time_dly_ok [OF assms(1-5) t this] obtain s1 s2 R' t' where
    s2: "time_dly dly opt s = Some (Blocked, s2)" "sys s2 R' P (W(unat ((OSTickCtr s + dly) mod OSCfg_TickWheelSize) :=
        time_insert (tick_remain s1) (OSTCBCurPtr s) (W (unat ((OSTickCtr s + dly) mod OSCfg_TickWheelSize)))))"
      "\<forall>p. R' p = remove1 (OSTCBCurPtr s) (R p)" "OSTCBCurPtr s2 = top_task R'" "OSTCBCurPtr s2 \<noteq> OSTCBCurPtr s"
      "tcbs s2 (OSTCBCurPtr s) = Some t'" "TCB_TaskState t' = OS_TASK_STATE_DLY" "TCB_TickCtrMatch t' = OSTickCtr s + dly" by blast
  have "OSTimeDly dly opt s = Some (Blocked, s2)" using assms(2,3,6,7) s2(1) by (auto simp: OSTimeDly_def)
  with s2 show ?thesis by (intro exI conjI) (assumption | simp)+
qed

theorem OSTimeDly_blocks_witness:
  "\<exists>s' R' W' t'. OSTimeDly 10 OS_OPT_TIME_DLY demo = Some (Blocked, s') \<and> sys s' R' demo_P W' \<and>
    set (W' 10) = {1} \<and> tcbs s' 1 = Some t' \<and> TCB_TickCtrMatch t' = 10"
proof -
  have d: "OSTickCtr demo = 0" "demo_W 10 = []" "unat (10 mod 17 :: 32 word) = 10" by (simp_all add: demo_def os0_def demo_W_def)
  obtain s' R' W' t' where w: "OSTimeDly 10 OS_OPT_TIME_DLY demo = Some (Blocked, s')" "sys s' R' demo_P W'"
    "\<forall>i. set (W' i) = (if i = unat ((OSTickCtr demo + 10) mod 17) then insert (OSTCBCurPtr demo) (set (demo_W i)) else set (demo_W i))"
    "tcbs s' (OSTCBCurPtr demo) = Some t'" "TCB_TickCtrMatch t' = OSTickCtr demo + 10"
    using OSTimeDly_blocks [OF demo_sys demo_ctrs(1,2) demo_free_pd(3), of 10 OS_OPT_TIME_DLY] by auto
  have "set (W' 10) = {1}" using w(3) d by simp
  with w d show ?thesis by (intro exI [of _ s'] exI [of _ R'] exI [of _ W'] exI [of _ t']) simp
qed

text \<open>C38. A delay until an absolute time that has already passed is refused with
  \<^verbatim>\<open>OS_ERR_TIME_ZERO_DLY\<close>, but the running task, which stays ready and keeps running, is left with the
  task state of a delayed task, so that the kernel invariant no longer holds.\<close>

theorem OSTimeDly_match_past:
  assumes "sys s R P W" "OSIntNestingCtr s = 0" "OSSchedLockNestingCtr s = 0" "dly - OSTickCtr s - 1 > OS_TICK_TH_RDY"
  shows "\<exists>s' t'. OSTimeDly dly OS_OPT_TIME_MATCH s = Some (Done OS_ERR_TIME_ZERO_DLY, s') \<and>
    OSTCBCurPtr s' = OSTCBCurPtr s \<and> tcbs s' (OSTCBCurPtr s) = Some t' \<and> TCB_TaskState t' = OS_TASK_STATE_DLY \<and> (\<forall>P W. \<not> kinv s' R P W)"
proof -
  from assms(1) obtain t where t: "tcbs s (OSTCBCurPtr s) = Some t" by (auto simp: sys_def cur_rdy_def)
  have "tick_match t dly OS_OPT_TIME_MATCH (OSTickCtr s) = None" using assms(4) by (simp add: tick_match_def)
  note past = time_dly_past [OF t this]
  let ?t = "t\<lparr>TCB_TaskState := OS_TASK_STATE_DLY, TCB_TickCtrMatch := 0, TCB_TickRemain := 0, TCB_TickSpokePtr := None\<rparr>"
  let ?s = "s\<lparr>tcbs := (tcbs s)(OSTCBCurPtr s \<mapsto> ?t)\<rparr>"
  have "\<not> kinv ?s R P W" for P W
  proof
    assume "kinv ?s R P W"
    from kinvD(7) [OF this, of "OSTCBCurPtr s" ?t] show False by (simp add: task_ok_def st_tick_def)
  qed
  moreover have "OSTimeDly dly OS_OPT_TIME_MATCH s = Some (Done OS_ERR_TIME_ZERO_DLY, ?s)" using assms(2,3) past by (simp add: OSTimeDly_def)
  ultimately show ?thesis by auto
qed

theorem OSTimeDly_match_past_witness:
  "\<exists>s' t'. OSTimeDly 0 OS_OPT_TIME_MATCH demo = Some (Done OS_ERR_TIME_ZERO_DLY, s') \<and>
    OSTCBCurPtr s' = 1 \<and> tcbs s' 1 = Some t' \<and> TCB_TaskState t' = OS_TASK_STATE_DLY \<and> (\<forall>P W. \<not> kinv s' demo_R P W)"
proof -
  have "OSTickCtr demo = 0" by (simp add: demo_def os0_def)
  then show ?thesis using OSTimeDly_match_past [OF demo_sys demo_ctrs(1,2), of 0] by simp
qed

text \<open>C39. The conversion of a delay in hours, minutes, seconds and milliseconds to ticks of one
  millisecond is exact in the strict ranges, and in the non-strict ranges up to 4294967
  milliseconds; beyond, the product of the milliseconds and the tick rate wraps around, and a delay
  of 4294968 milliseconds, documented as valid, is refused as a delay of zero.\<close>

theorem OSTimeDlyHMSM_ticks:
  "(unat hours \<le> 999 \<longrightarrow> unat minutes \<le> 9999 \<longrightarrow> unat milli \<le> 4294967 \<longrightarrow>
      unat (hmsm_ticks hours minutes seconds milli) = ((unat hours * 60 + unat minutes) * 60 + unat seconds) * 1000 + unat milli) \<and>
   (OSIntNestingCtr s = 0 \<longrightarrow> OSSchedLockNestingCtr s = 0 \<longrightarrow>
      OSTimeDlyHMSM 0 0 0 4294968 OS_OPT_TIME_HMSM_NON_STRICT s = Some (Done OS_ERR_TIME_ZERO_DLY, s))"
  using hmsm_ticks_exact [of hours minutes milli seconds] by (auto simp: OSTimeDlyHMSM_def hmsm_ticks_def Let_def)

theorem OSTimeDlyHMSM_ticks_witness:
  "unat (hmsm_ticks 1 2 3 4) = 3723004 \<and> OSTimeDlyHMSM 0 0 0 4294968 OS_OPT_TIME_HMSM_NON_STRICT demo = Some (Done OS_ERR_TIME_ZERO_DLY, demo)"
  using OSTimeDlyHMSM_ticks [of 1 2 4 3 demo] by simp

text \<open>Ending the delay of another task makes it ready at once, or leaves it suspended
  when it was suspended as well, takes it off the wheel and reschedules.\<close>

theorem OSTimeDlyResume_spec:
  assumes "sys s R P W" "OSIntNestingCtr s = 0" "x \<noteq> OSTCBCurPtr s"
    and "tcbs s x = Some t" "TCB_TaskState t \<in> {OS_TASK_STATE_DLY, OS_TASK_STATE_DLY_SUSPENDED}"
  shows "\<exists>s' R' t'. OSTimeDlyResume x s = Some (if TCB_TaskState t = OS_TASK_STATE_DLY then OS_ERR_NONE else OS_ERR_TASK_SUSPENDED, s') \<and>
    sys s' R' P (\<lambda>i. filter (\<lambda>y. y \<noteq> x) (W i)) \<and> tcbs s' x = Some t' \<and>
    TCB_TaskState t' = (if TCB_TaskState t = OS_TASK_STATE_DLY then OS_TASK_STATE_RDY else OS_TASK_STATE_SUSPENDED)"
proof -
  from OSTimeDlyResume_ok [OF assms] obtain s1 s' R' t' where
    s': "OSTimeDlyResume x s = Some (if TCB_TaskState t = OS_TASK_STATE_DLY then OS_ERR_NONE else OS_ERR_TASK_SUSPENDED, s')"
      "sys s' R' P (\<lambda>i. filter (\<lambda>y. y \<noteq> x) (W i))" "sw_frame s1 s'" "tcbs s1 x = Some t'" "TCB_TaskState t' = TCB_TaskState t AND OS_TASK_STATE_BIT_SUSPENDED" by blast
  have "map_option TCB_TaskState (tcbs s' x) = Some (TCB_TaskState t')" using sw_frame_state [OF s'(3), of x] s'(4) by simp
  then obtain u where "tcbs s' x = Some u" "TCB_TaskState u = TCB_TaskState t'" by (auto simp: map_option_Some_iff)
  moreover have "TCB_TaskState t AND OS_TASK_STATE_BIT_SUSPENDED = (if TCB_TaskState t = OS_TASK_STATE_DLY then OS_TASK_STATE_RDY else OS_TASK_STATE_SUSPENDED)"
    using assms(5) by auto
  ultimately show ?thesis using s' by (intro exI [of _ s'] exI [of _ R'] exI [of _ u]) simp
qed

text \<open>The example state in which task 3 only waits for its time.\<close>

definition demo_dly :: os where
  "demo_dly = demo\<lparr>tcbs := demo_tcb(3 \<mapsto> tcb0\<lparr>TCB_Prio := 3, TCB_TaskState := 1, TCB_TickCtrMatch := 4, TCB_TickRemain := 4, TCB_TickSpokePtr := Some 4\<rparr>),
     pds := (pds demo)(10 \<mapsto> pd0), objs := (objs demo)(20 \<mapsto> obj0)\<rparr>"

definition demo_dP :: "ptr \<Rightarrow> ptr list" where "demo_dP = (\<lambda>_. [])(23 := [12])"

lemma demo_dly_sys: "sys demo_dly demo_R demo_dP demo_W"
proof -
  have "rdy_rel demo_dly demo_R = rdy_rel demo demo_R" by (rule rdy_rel_cong) (simp_all add: demo_dly_def demo_def demo_tcb_def tcb0_def rdy_view_def)
  then have "rdy_rel demo_dly demo_R" using demo_rdy by simp
  moreover have "tick_rel demo_dly demo_W = tick_rel demo demo_W" by (rule tick_rel_cong) (simp_all add: demo_dly_def demo_def demo_tcb_def tcb0_def tick_view_def)
  then have "tick_rel demo_dly demo_W" using demo_tick by simp
  moreover have "pend_rel demo_dly demo_dP"
    by (auto simp: pend_rel_def pend_links_def pend_ok_def pend_sorted_def demo_dP_def demo_dly_def example_defs linked_def fld_def)
  moreover have "task_ok demo_dly demo_R demo_dP x t" if "tcbs demo_dly x = Some t" for x t
    using that by (auto simp: task_ok_def demo_R_def demo_dP_def demo_dly_def example_defs st_tick_def st_pend_def pend_tbl_def pend_tbl_ok_def split: if_splits)
  moreover have "pend_owned demo_dly demo_dP" by (simp add: pend_owned_def demo_dP_def demo_dly_def example_defs pend_tbl_def)
  moreover have "mem_bound demo_dly" by (simp add: mem_bound_def demo_dly_def example_defs)
  moreover have "cur_rdy demo_dly" by (simp add: cur_rdy_def demo_dly_def example_defs)
  ultimately show ?thesis by (simp add: sys_def kinv_def krel_def)
qed

theorem OSTimeDlyResume_spec_witness:
  "\<exists>s' R' t'. OSTimeDlyResume 3 demo_dly = Some (OS_ERR_NONE, s') \<and> sys s' R' demo_dP (\<lambda>i. filter (\<lambda>y. y \<noteq> 3) (demo_W i)) \<and>
    tcbs s' 3 = Some t' \<and> TCB_TaskState t' = OS_TASK_STATE_RDY"
  using OSTimeDlyResume_spec [OF demo_dly_sys, of 3] by (simp add: demo_dly_def demo_def os0_def)

subsection \<open>Memory partitions\<close>

text \<open>C40. A memory partition is an allocator: as long as blocks are left, taking \<open>n\<close> blocks
  returns \<open>n\<close> different blocks none of which was in use, and putting them back restores the set of
  blocks in use.\<close>

theorem OSMem_allocator:
  assumes "mem_used p B s U" "card U + n \<le> card (set B)"
  shows "\<exists>bs s1 s2. part.allocs p n s = Some (bs, s1) \<and> length bs = n \<and> distinct bs \<and> set bs \<inter> U = {} \<and>
    part.frees p bs s1 = Some s2 \<and> mem_used p B s2 U"
  by (rule part.allocs_frees [OF assms])

text \<open>Creating a partition over an aligned array of at least two blocks, each large
  enough for a pointer, that does not wrap around the address space, makes every block of the array
  free, in order.\<close>

theorem OSMemCreate_spec:
  assumes "OSIntNestingCtr s = 0" "a \<noteq> 0" "a AND 3 = 0" "n \<ge> 2" "unat z \<ge> 4" "ucast z AND (3 :: CPU_ADDR) = 0"
    and "unat a + unat n * unat z \<le> 2 ^ LENGTH(32)" "set (blocks a (ucast z) (unat n)) \<subseteq> dom (ram s)"
    and "p \<noteq> NULL" "p \<in> dom (mems s)" "OSMemDbgListPtr s = NULL \<or> OSMemDbgListPtr s \<in> dom (mems s)"
  shows "\<exists>s'. OSMemCreate p name a n z s = Some (OS_ERR_NONE, s') \<and> mem_used p (blocks a (ucast z) (unat n)) s' {} \<and>
    distinct (blocks a (ucast z) (unat n)) \<and> OSMemQty s' = OSMemQty s + 1"
proof -
  let ?B = "blocks a (ucast z) (unat n)"
  from OSMemCreate_ok [OF assms] obtain s' where s': "OSMemCreate p name a n z s = Some (OS_ERR_NONE, s')" "mem_rel p (set ?B) s' ?B" "OSMemQty s' = OSMemQty s + 1"
    by blast
  have "mem_used p ?B s' {}" unfolding mem_used_def using s'(2) by (intro exI [of _ ?B]) simp
  moreover have "distinct ?B" using s'(2) by (simp add: mem_rel_def)
  ultimately show ?thesis using s' by blast
qed

definition mem0 :: OS_MEM where
  "mem0 = \<lparr>MEM_Type = OS_OBJ_TYPE_NONE, MEM_AddrPtr = 0, MEM_NamePtr = [], MEM_FreeListPtr = 0, MEM_BlkSize = 0, MEM_NbrMax = 0, MEM_NbrFree = 0,
     MEM_DbgPrevPtr = NULL, MEM_DbgNextPtr = NULL\<rparr>"

definition demo_mem :: os where
  "demo_mem = demo\<lparr>mems := [40 \<mapsto> mem0], ram := [1000 \<mapsto> 0, 1008 \<mapsto> 0, 1016 \<mapsto> 0]\<rparr>"

lemma demo_blocks: "blocks 1000 8 3 = [1000, 1008, 1016]"
  by (simp add: blocks_def upt_rec)

theorem OSMemCreate_spec_witness:
  "\<exists>s'. OSMemCreate 40 ''m'' 1000 3 8 demo_mem = Some (OS_ERR_NONE, s') \<and> mem_used 40 [1000, 1008, 1016] s' {}"
  using OSMemCreate_spec [of demo_mem 1000 3 8 40 "''m''"] by (auto simp: demo_blocks demo_mem_def demo_def os0_def)

theorem OSMem_allocator_witness:
  "\<exists>s bs s1 s2. mem_used 40 [1000, 1008, 1016] s {} \<and> part.allocs 40 2 s = Some (bs, s1) \<and> length bs = 2 \<and> distinct bs \<and>
    part.frees 40 bs s1 = Some s2 \<and> mem_used 40 [1000, 1008, 1016] s2 {}"
proof -
  have "mem_rel 40 {1000, 1008, 1016} (demo_mem\<lparr>mems := [40 \<mapsto> mem0\<lparr>MEM_FreeListPtr := 1000, MEM_NbrFree := 3, MEM_NbrMax := 3\<rparr>],
    ram := [1000 \<mapsto> 1008, 1008 \<mapsto> 1016, 1016 \<mapsto> 0]\<rparr>) [1000, 1008, 1016]" (is "mem_rel _ _ ?s _")
    by (simp add: mem_rel_def cell_def)
  then have u: "mem_used 40 [1000, 1008, 1016] ?s {}" by (auto simp: mem_used_def)
  from OSMem_allocator [OF u, of 2] u show ?thesis by auto
qed

end
