(* ===== verification/OS_Reprio.thy ===== *)
theory OS_Reprio
  imports OS_Obj
begin

text \<open>
  Changing the priority of a task, which the mutexes do to avoid priority inversion
  (\<^verbatim>\<open>os_mutex.c\<close>) and the application with \<^verbatim>\<open>OSTaskChangePrio\<close> (\<^verbatim>\<open>os_task.c\<close>).  The C code repeats
  the same switch over the task state: a ready task moves to the list of its new priority, a
  pending one to its new place in every pend list it is in, and for the others only the field is
  written.
\<close>

definition rdy_reprio :: "bool \<Rightarrow> ptr \<Rightarrow> OS_PRIO \<Rightarrow> os \<Rightarrow> os option" where
  "rdy_reprio front p_tcb prio s = do {
     s \<leftarrow> OS_RdyListRemove p_tcb s;
     s \<leftarrow> tcb_mod p_tcb (\<lambda>t. t\<lparr>TCB_Prio := prio\<rparr>) s;
     s \<leftarrow> OS_PrioInsert prio s;
     if front then OS_RdyListInsertHead p_tcb s else OS_RdyListInsertTail p_tcb s
   }"

text \<open>The result says whether the task state is one of the eight valid ones.\<close>

definition task_reprio :: "bool \<Rightarrow> ptr \<Rightarrow> OS_PRIO \<Rightarrow> os \<Rightarrow> (bool \<times> os) option" where
  "task_reprio front p_tcb prio s = do {
     tcb \<leftarrow> tcbs s p_tcb;
     let st = TCB_TaskState tcb;
     if st = OS_TASK_STATE_RDY then map_option (Pair True) (rdy_reprio front p_tcb prio s)
     else if st \<in> {OS_TASK_STATE_DLY, OS_TASK_STATE_SUSPENDED, OS_TASK_STATE_DLY_SUSPENDED}
     then map_option (Pair True) (tcb_mod p_tcb (\<lambda>t. t\<lparr>TCB_Prio := prio\<rparr>) s)
     else if st \<in> {OS_TASK_STATE_PEND, OS_TASK_STATE_PEND_TIMEOUT, OS_TASK_STATE_PEND_SUSPENDED, OS_TASK_STATE_PEND_TIMEOUT_SUSPENDED}
     then map_option (Pair True) (OS_PendListChangePrio p_tcb prio s)
     else Some (False, s)
   }"

subsection \<open>The three structures\<close>

definition rdy_move :: "bool \<Rightarrow> nat \<Rightarrow> nat \<Rightarrow> ptr \<Rightarrow> (nat \<Rightarrow> ptr list) \<Rightarrow> nat \<Rightarrow> ptr list" where
  "rdy_move front p q x R =
     (R(p := remove1 x (R p)))(q := if front then x # (R(p := remove1 x (R p))) q else (R(p := remove1 x (R p))) q @ [x])"

lemma rdy_move_mem:
  assumes "distinct (R p)"
  shows "y \<noteq> x \<Longrightarrow> y \<in> set (rdy_move front p q x R r) \<longleftrightarrow> y \<in> set (R r)"
    "x \<in> set (rdy_move front p q x R q)"
  using assms by (auto simp: rdy_move_def)

lemma rdy_rel_prio:
  assumes "rdy_rel s R" "tcbs s x = Some t" "\<And>p. x \<notin> set (R p)"
  shows "rdy_rel (s\<lparr>tcbs := (tcbs s)(x \<mapsto> t\<lparr>TCB_Prio := prio\<rparr>)\<rparr>) R"
proof -
  let ?h = "(tcbs s)(x \<mapsto> t\<lparr>TCB_Prio := prio\<rparr>)"
  have "linked TCB_NextPtr TCB_PrevPtr ?h a b xs = linked TCB_NextPtr TCB_PrevPtr (tcbs s) a b xs" for a b xs
    by (rule linked_cong) (use assms(2) in auto)
  moreover have "(\<forall>y \<in> set (R p). \<exists>t. ?h y = Some t \<and> unat (TCB_Prio t) = p) \<longleftrightarrow> (\<forall>y \<in> set (R p). \<exists>t. tcbs s y = Some t \<and> unat (TCB_Prio t) = p)" for p
    using assms(3) [of p] by (intro ball_cong) auto
  ultimately have "rdy_ok (s\<lparr>tcbs := ?h\<rparr>) p (R p) = rdy_ok s p (R p)" for p unfolding rdy_ok_def by simp
  then show ?thesis using assms(1) by (simp add: rdy_rel_def rdy_links_def rdy_map_def prio_set_def)
qed

lemma pend_rel_prio:
  assumes P: "pend_rel s P" and t: "tcbs s x = Some t"
    and own: "\<And>ob d e. d \<in> set (P ob) \<Longrightarrow> pds s d = Some e \<Longrightarrow> PD_TCBPtr e \<noteq> x"
  shows "pend_rel (s\<lparr>tcbs := (tcbs s)(x \<mapsto> t\<lparr>TCB_Prio := prio\<rparr>)\<rparr>) P"
proof -
  let ?s = "s\<lparr>tcbs := (tcbs s)(x \<mapsto> t\<lparr>TCB_Prio := prio\<rparr>)\<rparr>"
  have "dom (tcbs ?s) = dom (tcbs s)" using t by auto
  then have ok: "pend_ok ?s ob xs = pend_ok s ob xs" for ob xs by (simp add: pend_ok_def)
  have "map (pd_prio ?s) (P ob) = map (pd_prio s) (P ob)" for ob
    by (rule map_cong [OF refl]) (use own in \<open>auto simp: pd_prio_def fld_def split: option.split\<close>)
  then have "pend_sorted ?s P = pend_sorted s P" unfolding pend_sorted_def by metis
  with P ok show ?thesis by (simp add: pend_rel_def pend_links_def)
qed

text \<open>The entries of a task are all in its table.\<close>

lemma kinv_own:
  assumes K: "kinv s R P W" and t: "tcbs s x = Some t" and d: "d \<in> set (P ob)" "pds s d = Some e" "PD_TCBPtr e = x"
  shows "d \<in> pend_tbl t"
proof -
  from kinvD(5) [OF K] d(1) obtain g u where "pds s d = Some g" "tcbs s (PD_TCBPtr g) = Some u" "d \<in> pend_tbl u"
    unfolding pend_owned_def by blast
  with t d show ?thesis by simp
qed

lemma kinv_not_pend: "kinv s R P W \<Longrightarrow> tcbs s x = Some t \<Longrightarrow> \<not> st_pend (TCB_TaskState t) \<Longrightarrow> pend_tbl t = {}"
  using kinvD(7) by (fastforce simp: task_ok_def)

text \<open>One task got the priority of \<open>t'\<close> and kept its state and its pend data.\<close>

lemma kinv_prio:
  assumes K: "kinv s R P W" and t: "tcbs s x = Some t" and K': "krel s' R' P' W" and F: "kframe {x} {} s s'"
    and P': "\<And>ob. set (P' ob) = set (P ob)"
    and R': "\<And>y p. y \<noteq> x \<Longrightarrow> y \<in> set (R' p) \<longleftrightarrow> y \<in> set (R p)"
      "x \<in> set (R' (unat (TCB_Prio t'))) \<longleftrightarrow> TCB_TaskState t = OS_TASK_STATE_RDY"
    and t': "tcbs s' x = Some t'" "unat (TCB_Prio t') < OS_CFG_PRIO_MAX" "pend_tbl t' = pend_tbl t"
      "TCB_TaskState t' = TCB_TaskState t" "TCB_TickSpokePtr t' = TCB_TickSpokePtr t"
  shows "kinv s' R' P' W"
proof -
  have ok: "task_ok s R P x t" by (rule kinvD(7) [OF K t])
  have own: "\<exists>e. pds s' d = Some e \<and> PD_TCBPtr e = x \<and> d \<in> set (P' (PD_PendObjPtr e))" if tbl: "pend_tbl_ok s P x t" and d: "d \<in> pend_tbl t" for d
  proof -
    from tbl d obtain e where e: "pds s d = Some e" "PD_TCBPtr e = x" "d \<in> set (P (PD_PendObjPtr e))" by (auto simp: pend_tbl_ok_def)
    obtain e' where "pds s' d = Some e'" "PD_TCBPtr e' = PD_TCBPtr e" "PD_PendObjPtr e' = PD_PendObjPtr e"
      by (rule kframe_pd [OF F _ e(1)]) simp
    with e P' show ?thesis by simp
  qed
  then have "pend_tbl_ok s' P' x t'" if "pend_tbl_ok s P x t" using that t'(3) by (simp add: pend_tbl_ok_def)
  with ok R'(2) t' have ok': "task_ok s' R' P' x t'" by (auto simp: task_ok_def split: if_splits)
  have tb: "pend_tbl_ok s P x t \<or> pend_tbl t = {}" using ok by (auto simp: task_ok_def split: if_splits)
  show ?thesis
    by (rule kinv_task [OF K t subset_refl K' kframe_mono [OF F subset_refl empty_subsetI] _ _ R'(1) _ t'(1) ok'])
      (use pend_tbl_disjoint [OF K _ t] own tb P' t'(3) in \<open>blast+\<close>)
qed

lemma tcb_core_prio: "tcb_core (t\<lparr>TCB_Prio := v\<rparr>) = (tcb_core t)\<lparr>TCB_Prio := v\<rparr>"
  by (simp add: tcb_core_def)

subsection \<open>The cases of the switch\<close>

lemma rdy_reprio_ok:
  assumes K: "kinv s R P W" and t: "tcbs s x = Some t" "TCB_TaskState t = OS_TASK_STATE_RDY" and p: "unat prio < OS_CFG_PRIO_MAX"
  shows "\<exists>s' t'. rdy_reprio front x prio s = Some s' \<and> kinv s' (rdy_move front (unat (TCB_Prio t)) (unat prio) x R) P W \<and>
    kframe {x} {} s s' \<and> tcbs s' x = Some t' \<and> tcb_core t' = tcb_core (t\<lparr>TCB_Prio := prio\<rparr>)"
proof -
  note k = kinvD [OF K]
  let ?p = "unat (TCB_Prio t)" let ?R = "R(?p := remove1 x (R ?p))"
  have ok: "x \<noteq> NULL" "x \<in> set (R ?p)" "pend_tbl t = {}" using k(7) [OF t(1)] t(2) by (simp_all add: task_ok_def st_pend_def)
  from OS_RdyListRemove_ok [OF k(2) ok(2)] obtain s1 where s1: "OS_RdyListRemove x s = Some s1" "rdy_rel s1 ?R" "rdy_frame s s1" by blast
  obtain t1 where t1: "tcbs s1 x = Some t1" "tcb_core t1 = tcb_core t" by (rule rdy_frame_tcb [OF s1(3) t(1)])
  have nR: "x \<notin> set (?R q)" for q
  proof (cases "q = ?p")
    case True then show ?thesis using rdy_rel_list(1) [OF k(2)] by simp
  next
    case False then show ?thesis using rdy_rel_list(3) [OF k(2), of x q] t(1) by auto
  qed
  have no: "PD_TCBPtr e \<noteq> x" if "d \<in> set (P ob)" "pds s d = Some e" for ob d e
    using kinv_own [OF K t(1) that] ok(3) by blast
  let ?t = "t1\<lparr>TCB_Prio := prio\<rparr>" let ?s = "s1\<lparr>tcbs := (tcbs s1)(x \<mapsto> ?t)\<rparr>"
  have l1: "os_less_rdy s1 = os_less_rdy s" using s1(3) by (simp add: rdy_frame_def)
  have pd1: "pds s1 = pds s" by (simp add: os_less_rdyD [OF l1])
  have P1: "pend_rel s1 P" and W1: "tick_rel s1 W" using rdy_frame_others [OF s1(3)] k(3,4) by simp_all
  have r2: "rdy_rel ?s ?R" by (rule rdy_rel_prio [OF s1(2) t1(1) nR])
  have p2: "pend_rel ?s P" by (rule pend_rel_prio [OF P1 t1(1)]) (use no pd1 in auto)
  have w2: "tick_rel ?s W" using tick_rel_cong [of ?s s1 W] t1(1) W1 by (simp add: tick_view_def)
  have pt: "unat (TCB_Prio ?t) < OS_CFG_PRIO_MAX" using p by simp
  have le: "length (R ?p) \<le> 65535" using distinct_card [OF rdy_rel_list(1) [OF k(2)]] card_mono [OF _ rdy_rel_list(2) [OF k(2)], of ?p] k(6)
    by (fastforce simp: mem_bound_def)
  have "length (R q) < 65535" if "q \<noteq> ?p" for q
    using nR [of q] that kinv_room(1) [OF K, of x q] t(1) by auto
  moreover have "length (remove1 x (R ?p)) < 65535" using le length_pos_if_in_set [OF ok(2)] ok(2) by (simp add: length_remove1)
  ultimately have len: "length (?R (unat (TCB_Prio ?t))) < 65535" by simp
  have tx: "tcbs ?s x = Some ?t" and px: "TCB_Prio ?t = prio" by simp_all
  from prio_rdy_insert_ok [OF r2 tx pt ok(1) nR len, of front, unfolded px, folded rdy_move_def] obtain s3 s4 where s3: "OS_PrioInsert prio ?s = Some s3"
    "(if front then OS_RdyListInsertHead x s3 else OS_RdyListInsertTail x s3) = Some s4"
    "rdy_rel s4 (rdy_move front ?p (unat prio) x R)" "rdy_frame ?s s4" by blast
  obtain t4 where t4: "tcbs s4 x = Some t4" "tcb_core t4 = tcb_core ?t" by (rule rdy_frame_tcb [OF s3(4), of x ?t]) simp_all
  have kr: "krel s4 (rdy_move front ?p (unat prio) x R) P W" using s3(3) rdy_frame_others [OF s3(4)] p2 w2 by (simp add: krel_def)
  have F: "kframe {x} {} s s4"
    using kframe_trans [OF kframe_trans [OF rdy_frame_kframe [OF s1(3)] kframe_tcb_upd [OF t1(1), of "{x}" "{}" ?t]] rdy_frame_kframe [OF s3(4)]] by simp
  have tc: "tcb_core t4 = tcb_core (t\<lparr>TCB_Prio := prio\<rparr>)"
    using t4(2) t1(2) by (simp add: tcb_core_prio)
  note e = tcb_core_eqD [OF tc]
  have "kinv s4 (rdy_move front ?p (unat prio) x R) P W"
    by (rule kinv_prio [OF K t(1) kr F refl _ _ t4(1)])
      (use rdy_move_mem [OF rdy_rel_list(1) [OF k(2)]] e p t(2) in \<open>simp_all add: pend_tbl_def\<close>)
  moreover have "rdy_reprio front x prio s = Some s4" using s1(1) t1(1) s3(1,2) by (simp add: rdy_reprio_def)
  ultimately show ?thesis using F t4(1) tc by blast
qed

text \<open>What changing the priority means: \<open>R'\<close> and \<open>P'\<close> are the lists afterwards.\<close>

definition reprioed :: "bool \<Rightarrow> os \<Rightarrow> (nat \<Rightarrow> ptr list) \<Rightarrow> (ptr \<Rightarrow> ptr list) \<Rightarrow> (nat \<Rightarrow> ptr list) \<Rightarrow> ptr \<Rightarrow> OS_TCB \<Rightarrow> OS_PRIO \<Rightarrow> os \<Rightarrow>
    (nat \<Rightarrow> ptr list) \<Rightarrow> (ptr \<Rightarrow> ptr list) \<Rightarrow> bool" where
  "reprioed front s R P W x t prio s' R' P' \<longleftrightarrow> kinv s' R' P' W \<and> kframe {x} {} s s' \<and>
     (\<exists>t'. tcbs s' x = Some t' \<and> tcb_core t' = tcb_core (t\<lparr>TCB_Prio := prio\<rparr>)) \<and>
     R' = (if TCB_TaskState t = OS_TASK_STATE_RDY then rdy_move front (unat (TCB_Prio t)) (unat prio) x R else R) \<and>
     (\<forall>ob. set (P' ob) = set (P ob) \<and> filter (\<lambda>d. d \<notin> pend_tbl t) (P' ob) = filter (\<lambda>d. d \<notin> pend_tbl t) (P ob))"

lemma reprioedD:
  assumes "reprioed front s R P W x t prio s' R' P'"
  shows "kinv s' R' P' W" "kframe {x} {} s s'" "\<exists>t'. tcbs s' x = Some t' \<and> tcb_core t' = tcb_core (t\<lparr>TCB_Prio := prio\<rparr>)"
    "R' = (if TCB_TaskState t = OS_TASK_STATE_RDY then rdy_move front (unat (TCB_Prio t)) (unat prio) x R else R)"
    "\<forall>ob. set (P' ob) = set (P ob)"
  using assms unfolding reprioed_def by blast+

lemma pend_reprio_ok:
  assumes K: "kinv s R P W" and t: "tcbs s x = Some t" "st_pend (TCB_TaskState t)" and p: "unat prio < OS_CFG_PRIO_MAX"
  shows "\<exists>s' P'. OS_PendListChangePrio x prio s = Some s' \<and> reprioed front s R P W x t prio s' R P'"
proof -
  note k = kinvD [OF K]
  have st: "TCB_TaskState t \<noteq> OS_TASK_STATE_RDY" "TCB_TaskState t \<noteq> OS_TASK_STATE_DEL" using t(2) by (auto simp: st_pend_def)
  have nR: "x \<notin> set (R q)" for q using rdy_rel_list(3) [OF k(2), of x q] k(7) [OF t(1)] st(1) t(1) by (auto simp: task_ok_def)
  have e: "\<exists>e. pds s d = Some e \<and> PD_TCBPtr e = x \<and> d \<in> set (P (PD_PendObjPtr e))" if "d \<in> pend_tbl t" for d
    using k(7) [OF t(1)] t(2) that by (auto simp: task_ok_def pend_tbl_ok_def)
  have own: "d \<in> pend_tbl t" if "d \<in> set (P ob)" "pds s d = Some e" "PD_TCBPtr e = x" for ob d e by (rule kinv_own [OF K t(1) that])
  let ?t = "t\<lparr>TCB_Prio := prio\<rparr>" let ?s = "s\<lparr>tcbs := (tcbs s)(x \<mapsto> ?t)\<rparr>"
  have "\<exists>s' P'. OS_PendListChangePrio x prio s = Some s' \<and> pend_rel s' P' \<and> pend_frame ?s s' \<and>
    (\<forall>ob. set (P' ob) = set (P ob) \<and> filter (\<lambda>d. d \<notin> pend_tbl t) (P' ob) = filter (\<lambda>d. d \<notin> pend_tbl t) (P ob))"
    by (rule OS_PendListChangePrio_ok [OF k(3) t(1)]) (use e own in blast)+
  then obtain s' P' where
    s': "OS_PendListChangePrio x prio s = Some s'" "pend_rel s' P'" "pend_frame ?s s'"
      "\<forall>ob. set (P' ob) = set (P ob) \<and> filter (\<lambda>d. d \<notin> pend_tbl t) (P' ob) = filter (\<lambda>d. d \<notin> pend_tbl t) (P ob)" by blast
  have "rdy_rel ?s R" by (rule rdy_rel_prio [OF k(2) t(1) nR])
  moreover have "tick_rel ?s W" using tick_rel_cong [of ?s s W] t(1) k(4) by (simp add: tick_view_def)
  ultimately have kr: "krel s' R P' W" using s'(2) pend_frame_others [OF s'(3)] by (simp add: krel_def)
  have F: "kframe {x} {} s s'" using kframe_trans [OF kframe_tcb_upd [OF t(1), of "{x}" "{}" ?t] pend_frame_kframe [OF s'(3)]] by simp
  have t': "tcbs s' x = Some ?t" using pend_frame_tcbs [OF s'(3)] by simp
  have "kinv s' R P' W" by (rule kinv_prio [OF K t(1) kr F _ _ _ t']) (use s'(4) nR st p in \<open>simp_all add: pend_tbl_def\<close>)
  with s' F t' st(1) show ?thesis by (auto simp: reprioed_def)
qed

text \<open>A task in no list that depends on its priority.\<close>

lemma prio_only_ok:
  assumes K: "kinv s R P W" and t: "tcbs s x = Some t" "TCB_TaskState t \<noteq> OS_TASK_STATE_RDY" "pend_tbl t = {}" and p: "unat prio < OS_CFG_PRIO_MAX"
  shows "kinv (s\<lparr>tcbs := (tcbs s)(x \<mapsto> t\<lparr>TCB_Prio := prio\<rparr>)\<rparr>) R P W" "kframe {x} {} s (s\<lparr>tcbs := (tcbs s)(x \<mapsto> t\<lparr>TCB_Prio := prio\<rparr>)\<rparr>)"
proof -
  note k = kinvD [OF K]
  let ?t = "t\<lparr>TCB_Prio := prio\<rparr>" let ?s = "s\<lparr>tcbs := (tcbs s)(x \<mapsto> ?t)\<rparr>"
  have nR: "x \<notin> set (R q)" for q using rdy_rel_list(3) [OF k(2), of x q] k(7) [OF t(1)] t(1,2) by (auto simp: task_ok_def)
  have "rdy_rel ?s R" by (rule rdy_rel_prio [OF k(2) t(1) nR])
  moreover have "pend_rel ?s P" by (rule pend_rel_prio [OF k(3) t(1)]) (use kinv_own [OF K t(1)] t(3) in blast)
  moreover have "tick_rel ?s W" using tick_rel_cong [of ?s s W] t(1) k(4) by (simp add: tick_view_def)
  ultimately have kr: "krel ?s R P W" by (simp add: krel_def)
  show F: "kframe {x} {} s ?s" using kframe_tcb_upd [OF t(1)] by simp
  show "kinv ?s R P W" by (rule kinv_prio [OF K t(1) kr F, where t' = ?t]) (use nR t(2) p in \<open>simp_all add: pend_tbl_def\<close>)
qed

lemma state_cases: "(st :: OS_STATE) \<le> 7 \<Longrightarrow> st \<in> {0, 1, 2, 3, 4, 5, 6, 7}"
  by (simp add: word_eq_iff_unsigned [where 'a = nat] word_le_nat_alt) arith

lemma task_reprio_ok:
  assumes K: "kinv s R P W" and t: "tcbs s x = Some t" "TCB_TaskState t \<le> 7" and p: "unat prio < OS_CFG_PRIO_MAX"
  shows "\<exists>s' R' P'. task_reprio front x prio s = Some (True, s') \<and> reprioed front s R P W x t prio s' R' P'"
proof -
  note k = kinvD [OF K]
  have "TCB_TaskState t \<in> {0, 1, 2, 3, 4, 5, 6, 7}" using t(2) by (rule state_cases)
  then consider (rdy) "TCB_TaskState t = OS_TASK_STATE_RDY"
    | (idle) "TCB_TaskState t \<in> {OS_TASK_STATE_DLY, OS_TASK_STATE_SUSPENDED, OS_TASK_STATE_DLY_SUSPENDED}"
    | (pend) "st_pend (TCB_TaskState t)" by (auto simp: st_pend_def)
  then show ?thesis
  proof cases
    case rdy
    from rdy_reprio_ok [OF K t(1) rdy p, of front] obtain s' t' where "rdy_reprio front x prio s = Some s'"
      "kinv s' (rdy_move front (unat (TCB_Prio t)) (unat prio) x R) P W" "kframe {x} {} s s'" "tcbs s' x = Some t'" "tcb_core t' = tcb_core (t\<lparr>TCB_Prio := prio\<rparr>)"
      by blast
    with rdy t(1) show ?thesis by (auto simp: task_reprio_def reprioed_def)
  next
    case idle
    have "TCB_TaskState t \<noteq> OS_TASK_STATE_RDY" "pend_tbl t = {}" using idle kinv_not_pend [OF K t(1)] by (auto simp: st_pend_def)
    from prio_only_ok [OF K t(1) this p] have "kinv (s\<lparr>tcbs := (tcbs s)(x \<mapsto> t\<lparr>TCB_Prio := prio\<rparr>)\<rparr>) R P W"
      "kframe {x} {} s (s\<lparr>tcbs := (tcbs s)(x \<mapsto> t\<lparr>TCB_Prio := prio\<rparr>)\<rparr>)" by simp_all
    with idle t(1) show ?thesis by (auto simp: task_reprio_def reprioed_def)
  next
    case pend
    then have "TCB_TaskState t \<in> {OS_TASK_STATE_PEND, OS_TASK_STATE_PEND_TIMEOUT, OS_TASK_STATE_PEND_SUSPENDED, OS_TASK_STATE_PEND_TIMEOUT_SUSPENDED}"
      "TCB_TaskState t \<noteq> OS_TASK_STATE_RDY" "TCB_TaskState t \<notin> {OS_TASK_STATE_DLY, OS_TASK_STATE_SUSPENDED, OS_TASK_STATE_DLY_SUSPENDED}"
      by (auto simp: st_pend_def)
    with pend_reprio_ok [OF K t(1) pend p, of front] t(1) show ?thesis
      by (auto simp: task_reprio_def Let_def simp del: insert_iff)
  qed
qed

subsection \<open>Priorities across the kernel's operations\<close>

definition task_prio :: "os \<Rightarrow> ptr \<Rightarrow> OS_PRIO" where
  "task_prio s x = fld TCB_Prio (tcbs s) x"

lemma task_prio_Some [simp]: "tcbs s x = Some t \<Longrightarrow> task_prio s x = TCB_Prio t"
  by (simp add: task_prio_def fld_Some)

lemma task_prio_globals [simp]: "task_prio (s\<lparr>mutexes := h\<rparr>) = task_prio s" "task_prio (s\<lparr>TmrRdIx := i\<rparr>) = task_prio s"
  "task_prio (s\<lparr>OSPrioCur := p\<rparr>) = task_prio s"
  by (simp_all add: task_prio_def fun_eq_iff)

lemma task_prio_kframe: "kframe X D s s' \<Longrightarrow> y \<notin> X \<Longrightarrow> task_prio s' y = task_prio s y"
proof -
  assume a: "kframe X D s s'" "y \<notin> X"
  show ?thesis
  proof (cases "tcbs s y")
    case None
    have "dom (tcbs s') = dom (tcbs s)" using a(1) unfolding kframe_def by (elim conjE)
    with None have "y \<notin> dom (tcbs s')" by (simp add: domIff)
    then have "tcbs s' y = None" by (simp add: domIff)
    with None show ?thesis by (simp add: task_prio_def fld_def)
  next
    case (Some t)
    from kframe_tcb(1) [OF a Some] obtain t' where t': "tcbs s' y = Some t'" "tcb_other t' = tcb_other t" by blast
    then show ?thesis using Some tcb_other_eqD(1) [OF t'(2)] by simp
  qed
qed

lemma task_prio_sw: "sw_frame s s' \<Longrightarrow> task_prio s' = task_prio s"
proof
  fix y
  assume a: "sw_frame s s'"
  have "TCB_Prio t' = TCB_Prio t" if "tcb_stat t' = tcb_stat t" for t' t using tcb_stat_key [OF that] by (simp add: tcb_key_def rdy_view_def)
  moreover have "map_option tcb_stat (tcbs s' y) = map_option tcb_stat (tcbs s y)" using a by (simp add: sw_frame_def)
  ultimately have "map_option TCB_Prio (tcbs s' y) = map_option TCB_Prio (tcbs s y)" using map_option_eq_via by blast
  then show "task_prio s' y = task_prio s y" by (cases "tcbs s y"; cases "tcbs s' y") (simp_all add: task_prio_def fld_def)
qed

lemma kinv_prio_cur [simp]: "kinv (s\<lparr>OSPrioCur := p\<rparr>) R P W = kinv s R P W"
  by (rule kinv_cong) simp_all

end
