(* ===== verification/OS_Mutex.thy ===== *)
theory OS_Mutex
  imports OS_Reprio
begin

text \<open>
  \<^verbatim>\<open>src/ucosTest/Source/os_mutex.c\<close>: mutual exclusion semaphores with priority inheritance.  The
  common part of a mutex is in \<open>objs\<close>, its owner, the priority the owner had when it got the mutex,
  the nesting counter and the time stamp in \<open>mutexes\<close>.  \<^verbatim>\<open>OSMutexDel\<close> is compiled out by
  \<^verbatim>\<open>OS_CFG_MUTEX_DEL_EN = 0\<close> and modelled as it is written.
\<close>

definition mutex_mod :: "ptr \<Rightarrow> (OS_MUTEX \<Rightarrow> OS_MUTEX) \<Rightarrow> os \<Rightarrow> os option" where
  "mutex_mod p f s = map_option (\<lambda>h. s\<lparr>mutexes := h\<rparr>) (mod_at p f (mutexes s))"

lemma mutex_mod_Some [simp]: "mutexes s p = Some n \<Longrightarrow> mutex_mod p f s = Some (s\<lparr>mutexes := (mutexes s)(p \<mapsto> f n)\<rparr>)"
  by (simp add: mutex_mod_def)

definition OS_MutexDbgListAdd :: "ptr \<Rightarrow> os \<Rightarrow> os option" where
  "OS_MutexDbgListAdd = dbg_list_add OSMutexDbgListPtr (\<lambda>p s. s\<lparr>OSMutexDbgListPtr := p\<rparr>)"

definition OS_MutexDbgListRemove :: "ptr \<Rightarrow> os \<Rightarrow> os option" where
  "OS_MutexDbgListRemove = dbg_list_remove (\<lambda>p s. s\<lparr>OSMutexDbgListPtr := p\<rparr>)"

interpretation mutexdbg: dbg_list OSMutexDbgListPtr "\<lambda>p s. s\<lparr>OSMutexDbgListPtr := p\<rparr>"
  by unfold_locales simp_all

definition OS_MutexInit :: "os \<Rightarrow> OS_ERR \<times> os" where
  "OS_MutexInit s = (OS_ERR_NONE, s\<lparr>OSMutexDbgListPtr := NULL, OSMutexQty := 0\<rparr>)"

definition OSMutexCreate :: "ptr \<Rightarrow> string \<Rightarrow> os \<Rightarrow> (OS_ERR \<times> os) option" where
  "OSMutexCreate p_mutex p_name s =
     (if OSIntNestingCtr s > 0 then Some (OS_ERR_CREATE_ISR, s)
      else if p_mutex = NULL then Some (OS_ERR_OBJ_PTR_NULL, s)
      else do {
        s \<leftarrow> obj_mod p_mutex (\<lambda>b. b\<lparr>OBJ_Type := OS_OBJ_TYPE_MUTEX, OBJ_NamePtr := p_name\<rparr>) s;
        s \<leftarrow> mutex_mod p_mutex (\<lambda>m. m\<lparr>MTX_OwnerTCBPtr := NULL, MTX_OwnerNestingCtr := 0, MTX_TS := 0,
                                      MTX_OwnerOriginalPrio := of_nat OS_CFG_PRIO_MAX\<rparr>) s;
        s \<leftarrow> OS_PendListInit p_mutex s;
        s \<leftarrow> OS_MutexDbgListAdd p_mutex s;
        Some (OS_ERR_NONE, s\<lparr>OSMutexQty := OSMutexQty s + 1\<rparr>)
      })"

definition OS_MutexClr :: "ptr \<Rightarrow> os \<Rightarrow> os option" where
  "OS_MutexClr p_mutex s = do {
     s \<leftarrow> obj_mod p_mutex (\<lambda>b. b\<lparr>OBJ_Type := OS_OBJ_TYPE_NONE, OBJ_NamePtr := ''?MUTEX''\<rparr>) s;
     s \<leftarrow> mutex_mod p_mutex (\<lambda>m. m\<lparr>MTX_OwnerTCBPtr := NULL, MTX_OwnerNestingCtr := 0, MTX_TS := 0,
                                   MTX_OwnerOriginalPrio := of_nat OS_CFG_PRIO_MAX\<rparr>) s;
     OS_PendListInit p_mutex s
   }"

text \<open>What \<^verbatim>\<open>OSMutexDel\<close> does to the owner of the mutex it deletes: it gets back the priority it had
  before others waited for the mutex.\<close>

definition mutex_owner_restore :: "OS_MUTEX \<Rightarrow> os \<Rightarrow> (bool \<times> os) option" where
  "mutex_owner_restore mtx s =
     (if MTX_OwnerTCBPtr mtx = NULL then Some (True, s)
      else do {
        owner \<leftarrow> tcbs s (MTX_OwnerTCBPtr mtx);
        if TCB_Prio owner \<noteq> MTX_OwnerOriginalPrio mtx
        then task_reprio False (MTX_OwnerTCBPtr mtx) (MTX_OwnerOriginalPrio mtx) s
        else Some (True, s)
      })"

definition OSMutexDel :: "ptr \<Rightarrow> OS_OPT \<Rightarrow> os \<Rightarrow> (OS_OBJ_QTY \<times> OS_ERR \<times> os) option" where
  "OSMutexDel p_mutex opt s =
     (if OSIntNestingCtr s > 0 then Some (0, OS_ERR_DEL_ISR, s)
      else if p_mutex = NULL then Some (0, OS_ERR_OBJ_PTR_NULL, s)
      else if opt \<notin> {OS_OPT_DEL_NO_PEND, OS_OPT_DEL_ALWAYS} then Some (0, OS_ERR_OPT_INVALID, s)
      else do {
        ob \<leftarrow> objs s p_mutex;
        if OBJ_Type ob \<noteq> OS_OBJ_TYPE_MUTEX then Some (0, OS_ERR_OBJ_TYPE, s)
        else do {
          let nbr_tasks = PL_NbrEntries (OBJ_PendList ob);
          if opt = OS_OPT_DEL_NO_PEND then
            if nbr_tasks = 0 then do {
              s \<leftarrow> OS_MutexDbgListRemove p_mutex s;
              s \<leftarrow> OS_MutexClr p_mutex (s\<lparr>OSMutexQty := OSMutexQty s - 1\<rparr>);
              Some (nbr_tasks, OS_ERR_NONE, s)
            } else Some (nbr_tasks, OS_ERR_TASK_WAITING, s)
          else do {
            mtx \<leftarrow> mutexes s p_mutex;
            (valid, s) \<leftarrow> mutex_owner_restore mtx s;
            if \<not> valid then Some (0, OS_ERR_STATE_INVALID, s)
            else do {
              let (ts, s) = OS_TS_GET s;
              s \<leftarrow> del_loop (unat nbr_tasks) p_mutex ts s;
              s \<leftarrow> OS_MutexDbgListRemove p_mutex s;
              s \<leftarrow> OS_MutexClr p_mutex (s\<lparr>OSMutexQty := OSMutexQty s - 1\<rparr>);
              s \<leftarrow> OSSched s;
              Some (nbr_tasks, OS_ERR_NONE, s)
            }
          }
        }
      })"

text \<open>Priority inheritance: the owner of a mutex gets the priority of the running task that is
  about to wait for it, where that is more urgent.\<close>

definition mutex_inherit :: "OS_MUTEX \<Rightarrow> os \<Rightarrow> (bool \<times> os) option" where
  "mutex_inherit mtx s = do {
     owner \<leftarrow> tcbs s (MTX_OwnerTCBPtr mtx);
     cur \<leftarrow> tcbs s (OSTCBCurPtr s);
     if TCB_Prio owner > TCB_Prio cur then task_reprio True (MTX_OwnerTCBPtr mtx) (TCB_Prio cur) s else Some (True, s)
   }"

definition OSMutexPend :: "ptr \<Rightarrow> ptr \<Rightarrow> OS_TICK \<Rightarrow> OS_OPT \<Rightarrow> bool \<Rightarrow> os \<Rightarrow>
    ((CPU_TS option \<times> OS_ERR) call \<times> os) option" where
  "OSMutexPend pend_data p_mutex timeout opt p_ts s =
     (if OSIntNestingCtr s > 0 then Some (Done (None, OS_ERR_PEND_ISR), s)
      else if p_mutex = NULL then Some (Done (None, OS_ERR_OBJ_PTR_NULL), s)
      else if opt \<notin> {OS_OPT_PEND_BLOCKING, OS_OPT_PEND_NON_BLOCKING} then Some (Done (None, OS_ERR_OPT_INVALID), s)
      else do {
        ob \<leftarrow> objs s p_mutex;
        if OBJ_Type ob \<noteq> OS_OBJ_TYPE_MUTEX then Some (Done (None, OS_ERR_OBJ_TYPE), s)
        else do {
          mtx \<leftarrow> mutexes s p_mutex;
          cur \<leftarrow> tcbs s (OSTCBCurPtr s);
          if MTX_OwnerNestingCtr mtx = 0 then do {
            s \<leftarrow> mutex_mod p_mutex (\<lambda>m. m\<lparr>MTX_OwnerTCBPtr := OSTCBCurPtr s, MTX_OwnerOriginalPrio := TCB_Prio cur,
                                          MTX_OwnerNestingCtr := 1\<rparr>) s;
            Some (Done (ts_out p_ts (MTX_TS mtx), OS_ERR_NONE), s)
          } else if OSTCBCurPtr s = MTX_OwnerTCBPtr mtx then do {
            s \<leftarrow> mutex_mod p_mutex (\<lambda>m. m\<lparr>MTX_OwnerNestingCtr := MTX_OwnerNestingCtr m + 1\<rparr>) s;
            Some (Done (ts_out p_ts (MTX_TS mtx), OS_ERR_MUTEX_OWNER), s)
          } else if opt AND OS_OPT_PEND_NON_BLOCKING \<noteq> 0 then Some (Done (ts_out p_ts 0, OS_ERR_PEND_WOULD_BLOCK), s)
          else if OSSchedLockNestingCtr s > 0 then Some (Done (ts_out p_ts 0, OS_ERR_SCHED_LOCKED), s)
          else do {
            (valid, s) \<leftarrow> mutex_inherit mtx s;
            if \<not> valid then Some (Done (ts_out p_ts 0, OS_ERR_STATE_INVALID), s)
            else do {
              s \<leftarrow> OS_Pend pend_data p_mutex OS_TASK_PEND_ON_MUTEX timeout s;
              s \<leftarrow> OSSched s;
              Some (Blocked, s)
            }
          }
        }
      })"

definition OSMutexPend_resume :: "bool \<Rightarrow> os \<Rightarrow> (CPU_TS option \<times> OS_ERR) option" where
  "OSMutexPend_resume p_ts s = do {
     tcb \<leftarrow> tcbs s (OSTCBCurPtr s);
     Some (ts_out p_ts (pend_ts tcb), pend_err (TCB_PendStatus tcb))
   }"

definition OSMutexPendAbort :: "ptr \<Rightarrow> OS_OPT \<Rightarrow> os \<Rightarrow> (OS_OBJ_QTY \<times> OS_ERR \<times> os) option" where
  "OSMutexPendAbort p_mutex opt s =
     (if OSIntNestingCtr s > 0 then Some (0, OS_ERR_PEND_ABORT_ISR, s)
      else if p_mutex = NULL then Some (0, OS_ERR_OBJ_PTR_NULL, s)
      else if opt \<notin> {OS_OPT_PEND_ABORT_1, OS_OPT_PEND_ABORT_ALL, OS_OPT_PEND_ABORT_1 OR OS_OPT_POST_NO_SCHED,
                     OS_OPT_PEND_ABORT_ALL OR OS_OPT_POST_NO_SCHED} then Some (0, OS_ERR_OPT_INVALID, s)
      else do {
        ob \<leftarrow> objs s p_mutex;
        if OBJ_Type ob \<noteq> OS_OBJ_TYPE_MUTEX then Some (0, OS_ERR_OBJ_TYPE, s)
        else if PL_NbrEntries (OBJ_PendList ob) = 0 then Some (0, OS_ERR_PEND_ABORT_NONE, s)
        else do {
          let (ts, s) = OS_TS_GET s;
          (nbr_tasks, s) \<leftarrow> abort_loop p_mutex (opt = OS_OPT_PEND_ABORT_ALL) ts 0 s;
          s \<leftarrow> (if opt AND OS_OPT_POST_NO_SCHED = 0 then OSSched s else Some s);
          Some (nbr_tasks, OS_ERR_NONE, s)
        }
      })"

text \<open>Releasing a mutex others wait for: the running task gets its own priority back, and the first
  waiting task becomes the owner.\<close>

definition mutex_restore_cur :: "OS_MUTEX \<Rightarrow> os \<Rightarrow> os option" where
  "mutex_restore_cur mtx s = do {
     cur \<leftarrow> tcbs s (OSTCBCurPtr s);
     if TCB_Prio cur \<noteq> MTX_OwnerOriginalPrio mtx then do {
       s \<leftarrow> rdy_reprio False (OSTCBCurPtr s) (MTX_OwnerOriginalPrio mtx) s;
       Some (s\<lparr>OSPrioCur := MTX_OwnerOriginalPrio mtx\<rparr>)
     } else Some s
   }"

definition mutex_hand_over :: "ptr \<Rightarrow> CPU_TS \<Rightarrow> os \<Rightarrow> os option" where
  "mutex_hand_over p_mutex ts s = do {
     ob \<leftarrow> objs s p_mutex;
     d \<leftarrow> pds s (PL_HeadPtr (OBJ_PendList ob));
     tcb \<leftarrow> tcbs s (PD_TCBPtr d);
     s \<leftarrow> mutex_mod p_mutex (\<lambda>m. m\<lparr>MTX_OwnerTCBPtr := PD_TCBPtr d, MTX_OwnerOriginalPrio := TCB_Prio tcb, MTX_OwnerNestingCtr := 1\<rparr>) s;
     OS_Post p_mutex (PD_TCBPtr d) NULL 0 ts s
   }"

definition OSMutexPost :: "ptr \<Rightarrow> OS_OPT \<Rightarrow> os \<Rightarrow> (OS_ERR \<times> os) option" where
  "OSMutexPost p_mutex opt s =
     (if OSIntNestingCtr s > 0 then Some (OS_ERR_POST_ISR, s)
      else if p_mutex = NULL then Some (OS_ERR_OBJ_PTR_NULL, s)
      else if opt \<notin> {OS_OPT_POST_NONE, OS_OPT_POST_NO_SCHED} then Some (OS_ERR_OPT_INVALID, s)
      else do {
        ob \<leftarrow> objs s p_mutex;
        if OBJ_Type ob \<noteq> OS_OBJ_TYPE_MUTEX then Some (OS_ERR_OBJ_TYPE, s)
        else do {
          mtx \<leftarrow> mutexes s p_mutex;
          if OSTCBCurPtr s \<noteq> MTX_OwnerTCBPtr mtx then Some (OS_ERR_MUTEX_NOT_OWNER, s)
          else do {
            let (ts, s) = OS_TS_GET s;
            s \<leftarrow> mutex_mod p_mutex (\<lambda>m. m\<lparr>MTX_TS := ts, MTX_OwnerNestingCtr := MTX_OwnerNestingCtr m - 1\<rparr>) s;
            if MTX_OwnerNestingCtr mtx - 1 > 0 then Some (OS_ERR_MUTEX_NESTING, s)
            else if PL_NbrEntries (OBJ_PendList ob) = 0 then do {
              s \<leftarrow> mutex_mod p_mutex (\<lambda>m. m\<lparr>MTX_OwnerTCBPtr := NULL, MTX_OwnerNestingCtr := 0\<rparr>) s;
              Some (OS_ERR_NONE, s)
            } else do {
              s \<leftarrow> mutex_restore_cur mtx s;
              s \<leftarrow> mutex_hand_over p_mutex ts s;
              s \<leftarrow> (if opt AND OS_OPT_POST_NO_SCHED = 0 then OSSched s else Some s);
              Some (OS_ERR_NONE, s)
            }
          }
        }
      })"

subsection \<open>Waiting tasks and their priorities\<close>

lemma sw_frame_mutexes: "sw_frame s s' \<Longrightarrow> mutexes s' = mutexes s"
  unfolding sw_frame_def by (drule conjunct1, drule arg_cong [of _ _ mutexes]) (simp add: os_less_sw_def)

lemma pd_prio_waiter: "pds s d = Some e \<Longrightarrow> pd_prio s d = task_prio s (waiter s d)"
  by (simp add: pd_prio_def task_prio_def waiter_def fld_Some)

lemma kframe_obj:
  assumes "kframe X D s s'" "objs s p = Some b"
  obtains b' where "objs s' p = Some b'" "OBJ_Type b' = OBJ_Type b"
proof -
  have "map_option obj_other (objs s' p) = Some (obj_other b)" using assms by (simp add: kframe_def)
  then obtain b' where b': "objs s' p = Some b'" "obj_other b' = obj_other b" by (auto simp: map_option_Some_iff)
  have "OBJ_Type (obj_other c) = OBJ_Type c" for c by (simp add: obj_other_def obj_core_def)
  with b' that show ?thesis by metis
qed

text \<open>The pend data of a task that blocked belong to it.\<close>

text \<open>No task waits for a mutex whose owner is less urgent.\<close>

definition no_inversion :: "os \<Rightarrow> (ptr \<Rightarrow> ptr list) \<Rightarrow> ptr \<Rightarrow> ptr \<Rightarrow> bool" where
  "no_inversion s P p x \<longleftrightarrow> (\<forall>d \<in> set (P p). task_prio s x \<le> task_prio s (waiter s d))"

lemma woken_all_prio: "woken_all st msg s ds s' \<Longrightarrow> task_prio s' = task_prio s"
proof
  fix z
  assume a: "woken_all st msg s ds s'"
  show "task_prio s' z = task_prio s z"
  proof (cases "z \<in> waiter s ` set ds")
    case True
    with a obtain t t' where "tcbs s z = Some t" "tcbs s' z = Some t'" "woken_tcb st msg t t'" unfolding woken_all_def by blast
    then show ?thesis by (simp add: woken_tcb_def)
  next
    case False
    with a task_prio_kframe show ?thesis unfolding woken_all_def by blast
  qed
qed

text \<open>The first waiting task is the most urgent one.\<close>

lemma pend_first_urgent:
  assumes K: "kinv s R P W" and P: "P p = d # ds"
  shows "no_inversion s P p (waiter s d)"
proof -
  have "sorted (map (pd_prio s) (P p))" using kinvD(3) [OF K] by (simp add: pend_rel_def pend_sorted_def)
  then have l: "pd_prio s d \<le> pd_prio s z" if "z \<in> set (P p)" for z using that P by auto
  have e: "pd_prio s z = task_prio s (waiter s z)" if z: "z \<in> set (P p)" for z
    using pend_entry [OF K z] pd_prio_waiter by blast
  show ?thesis using l e P unfolding no_inversion_def by (metis list.set_intros(1))
qed

subsection \<open>Taking a mutex\<close>

text \<open>A mutex ready for use at an address.\<close>

definition mutex_at :: "os \<Rightarrow> ptr \<Rightarrow> OS_MUTEX \<Rightarrow> bool" where
  "mutex_at s p m \<longleftrightarrow> p \<noteq> NULL \<and> mutexes s p = Some m \<and> (\<exists>b. objs s p = Some b \<and> OBJ_Type b = OS_OBJ_TYPE_MUTEX)"

lemma no_inversion_upd:
  assumes N: "no_inversion s P p x" and P': "set (P' p) \<subseteq> insert d (set (P p))" and px: "task_prio s' x \<le> task_prio s x"
    and pr: "\<And>z. z \<noteq> x \<Longrightarrow> task_prio s' z = task_prio s z" and w: "\<And>z. z \<in> set (P p) \<Longrightarrow> waiter s' z = waiter s z"
    and d: "task_prio s' x \<le> task_prio s' (waiter s' d)"
  shows "no_inversion s' P' p x"
  unfolding no_inversion_def
proof
  fix z
  assume z: "z \<in> set (P' p)"
  show "task_prio s' x \<le> task_prio s' (waiter s' z)"
  proof (cases "z \<in> set (P p) \<and> waiter s z \<noteq> x")
    case True
    then have "task_prio s x \<le> task_prio s (waiter s z)" using N by (simp add: no_inversion_def)
    then show ?thesis using px True pr w by simp
  next
    case False
    then show ?thesis using z d w P' by auto
  qed
qed

lemma OSMutexPend_free:
  assumes "mutex_at s p m" "MTX_OwnerNestingCtr m = 0" "OSIntNestingCtr s = 0" "cur_rdy s"
    and "opt \<in> {OS_OPT_PEND_BLOCKING, OS_OPT_PEND_NON_BLOCKING}"
  shows "OSMutexPend d p timeout opt p_ts s = Some (Done (ts_out p_ts (MTX_TS m), OS_ERR_NONE),
    s\<lparr>mutexes := (mutexes s)(p \<mapsto> m\<lparr>MTX_OwnerTCBPtr := OSTCBCurPtr s, MTX_OwnerOriginalPrio := OSPrioCur s, MTX_OwnerNestingCtr := 1\<rparr>)\<rparr>)"
  using assms by (auto simp: OSMutexPend_def mutex_at_def cur_rdy_def)

lemma OSMutexPend_owner:
  assumes "mutex_at s p m" "MTX_OwnerNestingCtr m \<noteq> 0" "MTX_OwnerTCBPtr m = OSTCBCurPtr s" "OSIntNestingCtr s = 0" "cur_rdy s"
    and "opt \<in> {OS_OPT_PEND_BLOCKING, OS_OPT_PEND_NON_BLOCKING}"
  shows "OSMutexPend d p timeout opt p_ts s = Some (Done (ts_out p_ts (MTX_TS m), OS_ERR_MUTEX_OWNER),
    s\<lparr>mutexes := (mutexes s)(p \<mapsto> m\<lparr>MTX_OwnerNestingCtr := MTX_OwnerNestingCtr m + 1\<rparr>)\<rparr>)"
  using assms by (auto simp: OSMutexPend_def mutex_at_def cur_rdy_def)

lemma mutex_inherit_ok:
  assumes S: "sys s R P W" and x: "x \<noteq> OSTCBCurPtr s" "MTX_OwnerTCBPtr m = x" and t: "tcbs s x = Some t" "TCB_TaskState t \<le> 7"
  shows "\<exists>s' R' P'. mutex_inherit m s = Some (True, s') \<and> sys s' R' P' W \<and> kframe {x} {} s s' \<and>
    task_prio s' x = min (TCB_Prio t) (OSPrioCur s) \<and> (\<forall>ob. set (P' ob) = set (P ob)) \<and>
    (\<forall>y q. y \<in> set (R q) \<longrightarrow> (\<exists>q'. y \<in> set (R' q')))"
proof -
  have K: "kinv s R P W" and c: "cur_rdy s" using S by (simp_all add: sys_def)
  from c obtain c where c: "tcbs s (OSTCBCurPtr s) = Some c" "TCB_Prio c = OSPrioCur s" "TCB_TaskState c = OS_TASK_STATE_RDY"
    by (auto simp: cur_rdy_def)
  show ?thesis
  proof (cases "TCB_Prio t > OSPrioCur s")
    case False
    then have "mutex_inherit m s = Some (True, s)" using t x c by (simp add: mutex_inherit_def)
    with False S t show ?thesis by (intro exI [of _ s] exI [of _ R] exI [of _ P]) auto
  next
    case True
    have p: "unat (OSPrioCur s) < OS_CFG_PRIO_MAX" using kinvD(7) [OF K c(1)] c(2,3) by (auto simp: task_ok_def)
    from task_reprio_ok [OF K t p, of True] obtain s' R' P' where
      s': "task_reprio True x (OSPrioCur s) s = Some (True, s')" "reprioed True s R P W x t (OSPrioCur s) s' R' P'" by blast
    then obtain t' where r: "kinv s' R' P' W" "kframe {x} {} s s'" "tcbs s' x = Some t'" "tcb_core t' = tcb_core (t\<lparr>TCB_Prio := OSPrioCur s\<rparr>)"
      "R' = (if TCB_TaskState t = OS_TASK_STATE_RDY then rdy_move True (unat (TCB_Prio t)) (unat (OSPrioCur s)) x R else R)"
      "\<forall>ob. set (P' ob) = set (P ob)" unfolding reprioed_def by blast
    have "OSTCBCurPtr s \<notin> {x}" using x(1) by simp
    from kframe_tcb(1) [OF r(2) this c(1)] obtain c' where c': "tcbs s' (OSTCBCurPtr s) = Some c'" "tcb_other c' = tcb_other c" by blast
    note g = kframe_globals [OF r(2)]
    have "cur_rdy s'" using c' c tcb_other_eqD [OF c'(2)] g(11,12) by (simp add: cur_rdy_def)
    moreover have "\<exists>q'. y \<in> set (R' q')" if "y \<in> set (R q)" for y q
    proof -
      note mv = rdy_move_mem [where R = R and p = "unat (TCB_Prio t)" and x = x and front = True and q = "unat (OSPrioCur s)",
        OF rdy_rel_list(1) [OF kinvD(2) [OF K]]]
      have "y \<in> set (R' (if y = x \<and> TCB_TaskState t = OS_TASK_STATE_RDY then unat (OSPrioCur s) else q))"
        using mv(1) [of y q] mv(2) that unfolding r(5) by simp
      then show ?thesis by blast
    qed
    moreover have "mutex_inherit m s = Some (True, s')" using t x c True s'(1) by (simp add: mutex_inherit_def)
    moreover have "task_prio s' x = min (TCB_Prio t) (OSPrioCur s)" using r(3) tcb_core_eqD(1) [OF r(4)] True by simp
    ultimately show ?thesis using r by (intro exI [of _ s'] exI [of _ R'] exI [of _ P']) (simp add: sys_def)
  qed
qed

text \<open>A task that has to wait for a mutex lends its priority to the owner.\<close>

lemma OSMutexPend_blocks:
  assumes S: "sys s R P W" and m: "mutex_at s p m" "MTX_OwnerNestingCtr m \<noteq> 0" and n: "OSIntNestingCtr s = 0" "OSSchedLockNestingCtr s = 0"
    and x: "MTX_OwnerTCBPtr m = x" "x \<noteq> OSTCBCurPtr s" "tcbs s x = Some t" "TCB_TaskState t \<le> 7"
    and o: "y \<in> set (R q)" "y \<noteq> OSTCBCurPtr s" and d: "d \<in> dom (pds s)" "d \<noteq> NULL" "\<And>ob. d \<notin> set (P ob)"
  shows "\<exists>s' R' P' W'. OSMutexPend d p timeout OS_OPT_PEND_BLOCKING p_ts s = Some (Blocked, s') \<and> sys s' R' P' W' \<and>
    set (P' p) = insert d (set (P p)) \<and> mutexes s' = mutexes s \<and> waiter s' d = OSTCBCurPtr s \<and>
    task_prio s' x = min (task_prio s x) (OSPrioCur s) \<and> (\<forall>z. z \<noteq> x \<longrightarrow> task_prio s' z = task_prio s z) \<and>
    (no_inversion s P p x \<longrightarrow> no_inversion s' P' p x) \<and> OSTCBCurPtr s' = top_task R' \<and> OSTCBCurPtr s' \<noteq> OSTCBCurPtr s"
proof -
  let ?c = "OSTCBCurPtr s"
  from m(1) obtain b where b: "p \<noteq> NULL" "mutexes s p = Some m" "objs s p = Some b" "OBJ_Type b = OS_OBJ_TYPE_MUTEX" by (auto simp: mutex_at_def)
  from mutex_inherit_ok [OF S x(2,1,3,4)] obtain s1 R1 P1 where
    s1: "mutex_inherit m s = Some (True, s1)" "sys s1 R1 P1 W" "kframe {x} {} s s1" "task_prio s1 x = min (TCB_Prio t) (OSPrioCur s)"
      "\<forall>ob. set (P1 ob) = set (P ob)" "\<forall>y q. y \<in> set (R q) \<longrightarrow> (\<exists>q'. y \<in> set (R1 q'))" by blast
  note g = kframe_globals [OF s1(3)]
  obtain b1 where b1: "objs s1 p = Some b1" by (rule kframe_obj [OF s1(3) b(3)])
  obtain q' where o1: "y \<in> set (R1 q')" "y \<noteq> OSTCBCurPtr s1" using s1(6) o g(12) by fastforce
  have d1: "d \<in> dom (pds s1) \<and> d \<noteq> NULL \<and> (\<forall>ob. d \<notin> set (P1 ob))" using d s1(3,5) by (simp add: kframe_def)
  have n1: "OSIntNestingCtr s1 = 0" "OSSchedLockNestingCtr s1 = 0" using n g(8,10) by simp_all
  from pend_sched_ok [OF s1(2) n1 o1, of p d OS_TASK_PEND_ON_MUTEX timeout] b1 d1 obtain s2 s' R' where
    s2: "OS_Pend d p OS_TASK_PEND_ON_MUTEX timeout s1 = Some s2" "OSSched s2 = Some s'"
      "blocked s1 R1 P1 W (OSTCBCurPtr s1) d p OS_TASK_PEND_ON_MUTEX timeout s2" "sw_frame s2 s'"
      "sys s' R' (pend_block s2 p d P1) (tick_block s1 (OSTCBCurPtr s1) timeout s2 W)"
      "OSTCBCurPtr s' = top_task R'" "OSTCBCurPtr s' \<noteq> OSTCBCurPtr s1" by blast
  let ?P = "pend_block s2 p d P1"
  have P': "set (?P p) = insert d (set (P p))" using s1(5) b(1) by (simp add: pend_block_def)
  have F: "kframe {?c} {d} s1 s2" and B: "task_prio s2 ?c = task_prio s1 ?c" using s2(3) b(1) unfolding blocked_def g(12) by auto
  have mt: "mutexes s' = mutexes s" using sw_frame_mutexes [OF s2(4)] kframe_globals(3) [OF F] g(3) by simp
  have pr: "task_prio s' z = task_prio s1 z" for z
    using task_prio_sw [OF s2(4)] task_prio_kframe [OF F, of z] B by (cases "z = ?c") simp_all
  have pr': "task_prio s' z = task_prio s z" if "z \<noteq> x" for z using pr task_prio_kframe [OF s1(3), of z] that by simp
  have px: "task_prio s' x = min (task_prio s x) (OSPrioCur s)" using pr s1(4) x(3) by simp
  have wd: "waiter s' d = ?c"
    using blocked_waiter [OF _ s2(3) b(1)] s1(2) d1 sw_frame_globals(1) [OF s2(4)] g(12) by (simp add: sys_def waiter_def)
  have K: "kinv s R P W" and c: "task_prio s ?c = OSPrioCur s" using S by (auto simp: sys_def cur_rdy_def)
  have w: "waiter s' z = waiter s z" if z: "z \<in> set (P p)" for z
  proof -
    from pend_entry [OF K z] obtain e where e: "pds s z = Some e" by blast
    from kframe_pd [OF s1(3) _ e] obtain e1 where e1: "pds s1 z = Some e1" "PD_TCBPtr e1 = PD_TCBPtr e" by auto
    have "z \<notin> {d}" using z d(3) by auto
    from waiter_kframe [OF F this e1(1)] e e1 show ?thesis using sw_frame_globals(1) [OF s2(4)] by (simp add: waiter_def fld_Some)
  qed
  have "no_inversion s' ?P p x" if N: "no_inversion s P p x"
    by (rule no_inversion_upd [OF N _ _ pr' w, of ?P d]) (use P' px wd pr' [of ?c] x(2) c in auto)
  moreover have "OSMutexPend d p timeout OS_OPT_PEND_BLOCKING p_ts s = Some (Blocked, s')"
    using b m(2) n x(1,2) s1(1) s2(1,2) S by (auto simp: OSMutexPend_def sys_def cur_rdy_def)
  ultimately show ?thesis using s2(5-7) g(12) P' mt wd px pr' by (intro exI [of _ s'] exI [of _ R'] exI [of _ ?P] exI [of _ "tick_block s1 ?c timeout s2 W"]) auto
qed

subsection \<open>Releasing a mutex\<close>

lemma OSMutexPost_not_owner:
  assumes "mutex_at s p m" "MTX_OwnerTCBPtr m \<noteq> OSTCBCurPtr s" "OSIntNestingCtr s = 0" "opt \<in> {OS_OPT_POST_NONE, OS_OPT_POST_NO_SCHED}"
  shows "OSMutexPost p opt s = Some (OS_ERR_MUTEX_NOT_OWNER, s)"
  using assms by (auto simp: OSMutexPost_def mutex_at_def)

lemma OSMutexPost_nested:
  assumes "mutex_at s p m" "MTX_OwnerTCBPtr m = OSTCBCurPtr s" "OSIntNestingCtr s = 0" "opt \<in> {OS_OPT_POST_NONE, OS_OPT_POST_NO_SCHED}"
    and "MTX_OwnerNestingCtr m \<noteq> 1"
  shows "OSMutexPost p opt s = Some (OS_ERR_MUTEX_NESTING, (snd (OS_TS_GET s))\<lparr>mutexes := (mutexes s)(p \<mapsto>
    m\<lparr>MTX_TS := fst (OS_TS_GET s), MTX_OwnerNestingCtr := MTX_OwnerNestingCtr m - 1\<rparr>)\<rparr>)"
proof -
  have "MTX_OwnerNestingCtr m - 1 > 0" using assms(5) by (simp add: word_gt_0)
  with assms show ?thesis by (auto simp: OSMutexPost_def mutex_at_def OS_TS_GET_def)
qed

lemma OSMutexPost_free:
  assumes S: "sys s R P W" and m: "mutex_at s p m" "MTX_OwnerTCBPtr m = OSTCBCurPtr s" "MTX_OwnerNestingCtr m = 1" and n: "OSIntNestingCtr s = 0"
    and opt: "opt \<in> {OS_OPT_POST_NONE, OS_OPT_POST_NO_SCHED}" and P: "P p = []"
  shows "OSMutexPost p opt s = Some (OS_ERR_NONE, (snd (OS_TS_GET s))\<lparr>mutexes := (mutexes s)(p \<mapsto>
    m\<lparr>MTX_TS := fst (OS_TS_GET s), MTX_OwnerTCBPtr := NULL, MTX_OwnerNestingCtr := 0\<rparr>)\<rparr>)"
proof -
  from m(1) obtain b where b: "p \<noteq> NULL" "mutexes s p = Some m" "objs s p = Some b" "OBJ_Type b = OS_OBJ_TYPE_MUTEX" by (auto simp: mutex_at_def)
  have "PL_NbrEntries (OBJ_PendList b) = 0" using pend_empty_iff(1) [OF _ b(3)] S P by (auto simp: sys_def)
  with b m(2,3) n opt show ?thesis by (auto simp: OSMutexPost_def OS_TS_GET_def)
qed

lemma mutex_restore_cur_ok:
  assumes S: "sys s R P W" and p: "unat (MTX_OwnerOriginalPrio m) < OS_CFG_PRIO_MAX"
  shows "\<exists>s1 R'. mutex_restore_cur m s = Some (s1\<lparr>OSPrioCur := MTX_OwnerOriginalPrio m\<rparr>) \<and>
    sys (s1\<lparr>OSPrioCur := MTX_OwnerOriginalPrio m\<rparr>) R' P W \<and> kframe {OSTCBCurPtr s} {} s s1 \<and> task_prio s1 (OSTCBCurPtr s) = MTX_OwnerOriginalPrio m"
proof -
  have K: "kinv s R P W" and c: "cur_rdy s" using S by (simp_all add: sys_def)
  from c obtain c where c: "tcbs s (OSTCBCurPtr s) = Some c" "TCB_Prio c = OSPrioCur s" "TCB_TaskState c = OS_TASK_STATE_RDY"
    by (auto simp: cur_rdy_def)
  show ?thesis
  proof (cases "TCB_Prio c = MTX_OwnerOriginalPrio m")
    case True
    then have "s\<lparr>OSPrioCur := MTX_OwnerOriginalPrio m\<rparr> = s" using c(2) by simp
    with True c(1) S show ?thesis by (intro exI [of _ s] exI [of _ R]) (simp add: mutex_restore_cur_def)
  next
    case False
    from rdy_reprio_ok [OF K c(1,3) p, of False] obtain s1 c' R' where
      s1: "rdy_reprio False (OSTCBCurPtr s) (MTX_OwnerOriginalPrio m) s = Some s1" "kinv s1 R' P W" "kframe {OSTCBCurPtr s} {} s s1"
        "tcbs s1 (OSTCBCurPtr s) = Some c'" "tcb_core c' = tcb_core (c\<lparr>TCB_Prio := MTX_OwnerOriginalPrio m\<rparr>)" by blast
    have "TCB_Prio c' = MTX_OwnerOriginalPrio m" "TCB_TaskState c' = OS_TASK_STATE_RDY" using tcb_core_eqD(1,2) [OF s1(5)] c(3) by simp_all
    moreover have "OSTCBCurPtr s1 = OSTCBCurPtr s" by (rule kframe_globals(12) [OF s1(3)])
    ultimately show ?thesis using s1 c(1) False
      by (intro exI [of _ s1] exI [of _ R']) (simp add: mutex_restore_cur_def sys_def cur_rdy_def)
  qed
qed

lemma mutex_hand_over_ok:
  assumes S: "sys s R P W" and m: "mutexes s p = Some m" "p \<noteq> NULL" and P: "P p = d # ds" and once: "distinct (map (waiter s) (d # ds))"
  shows "\<exists>s' R' P' W' t. mutex_hand_over p ts s = Some s' \<and> sys s' R' P' W' \<and> P' p = ds \<and> tcbs s (waiter s d) = Some t \<and>
    woken_all OS_STATUS_PEND_OK (NULL, 0, ts) (s\<lparr>mutexes := (mutexes s)(p \<mapsto> m\<lparr>MTX_OwnerTCBPtr := waiter s d,
      MTX_OwnerOriginalPrio := TCB_Prio t, MTX_OwnerNestingCtr := 1\<rparr>)\<rparr>) [d] s' \<and>
    map (waiter s') ds = map (waiter s) ds"
proof -
  have K: "kinv s R P W" and c: "cur_rdy s" using S by (simp_all add: sys_def)
  obtain b e t where b: "objs s p = Some b" "PL_HeadPtr (OBJ_PendList b) = d" "pds s d = Some e" "waiter s d = PD_TCBPtr e"
    "tcbs s (PD_TCBPtr e) = Some t" by (rule pend_first [OF K P])
  let ?m = "m\<lparr>MTX_OwnerTCBPtr := waiter s d, MTX_OwnerOriginalPrio := TCB_Prio t, MTX_OwnerNestingCtr := 1\<rparr>"
  let ?s = "s\<lparr>mutexes := (mutexes s)(p \<mapsto> ?m)\<rparr>"
  have w: "waiter ?s = waiter s" by (simp add: waiter_def fun_eq_iff)
  have K1: "kinv ?s R P W" and once1: "distinct (map (waiter ?s) (d # ds))" unfolding w using K once by simp_all
  obtain s' t0 t' R' P' W' where s': "OS_Post p (waiter ?s d) NULL 0 ts ?s = Some s'" "kinv s' R' P' W'" "P' p = ds"
    "kframe {waiter ?s d} (pend_tbl t0) ?s s'" "tcbs ?s (waiter ?s d) = Some t0" "tcbs s' (waiter ?s d) = Some t'"
    "woken_tcb OS_STATUS_PEND_OK (NULL, 0, ts) t0 t'" "map (waiter s') ds = map (waiter ?s) ds"
    by (rule post.wake_first [OF K1 P once1 m(2), of NULL 0 ts])
  have "woken_all OS_STATUS_PEND_OK (NULL, 0, ts) ?s [d] s'"
    by (rule woken_all_Cons [OF s'(4-7) _ _ woken_all_Nil]) simp_all
  moreover from woken_all_cur [OF K1 _ this, of p] have "cur_rdy s'" using c P by simp
  moreover have "mutex_hand_over p ts s = Some s'" using b m(1) s'(1) unfolding w by (simp add: mutex_hand_over_def)
  ultimately show ?thesis using s'(2,3,8) b(4,5) unfolding w by (intro exI [of _ s'] exI [of _ R'] exI [of _ P'] exI [of _ W'] exI [of _ t]) (simp add: sys_def)
qed

text \<open>Releasing a mutex others wait for: the first waiting task owns it, and the task that released
  it has the priority it had when it took the mutex.\<close>

lemma OSMutexPost_hands_over:
  assumes S: "sys s R P W" and m: "mutex_at s p m" "MTX_OwnerTCBPtr m = OSTCBCurPtr s" "MTX_OwnerNestingCtr m = 1"
    and q: "unat (MTX_OwnerOriginalPrio m) < OS_CFG_PRIO_MAX" and n: "OSIntNestingCtr s = 0"
    and opt: "opt \<in> {OS_OPT_POST_NONE, OS_OPT_POST_NO_SCHED}" and P: "P p = d # ds" and once: "distinct (map (waiter s) (P p))"
  shows "\<exists>s1 s' R' P' W'. OSMutexPost p opt s = Some (OS_ERR_NONE, s') \<and> sys s' R' P' W' \<and> P' p = ds \<and>
    mutexes s' = (mutexes s)(p \<mapsto> \<lparr>MTX_OwnerTCBPtr = waiter s d, MTX_OwnerOriginalPrio = task_prio s (waiter s d),
      MTX_OwnerNestingCtr = 1, MTX_TS = fst (OS_TS_GET s)\<rparr>) \<and>
    task_prio s' (OSTCBCurPtr s) = MTX_OwnerOriginalPrio m \<and> (\<forall>z. z \<noteq> OSTCBCurPtr s \<longrightarrow> task_prio s' z = task_prio s z) \<and>
    no_inversion s' P' p (waiter s d) \<and> sw_frame s1 s' \<and> (opt = OS_OPT_POST_NONE \<longrightarrow> sched_done s1 R' s')"
proof -
  let ?c = "OSTCBCurPtr s" let ?ts = "fst (OS_TS_GET s)"
  from m(1) obtain b where b: "p \<noteq> NULL" "mutexes s p = Some m" "objs s p = Some b" "OBJ_Type b = OS_OBJ_TYPE_MUTEX" by (auto simp: mutex_at_def)
  have K: "kinv s R P W" using S by (simp add: sys_def)
  have ne: "PL_NbrEntries (OBJ_PendList b) \<noteq> 0" using pend_empty_iff(1) [OF K b(3)] P by simp
  let ?m0 = "m\<lparr>MTX_TS := ?ts, MTX_OwnerNestingCtr := 0\<rparr>" let ?s0 = "(snd (OS_TS_GET s))\<lparr>mutexes := (mutexes s)(p \<mapsto> ?m0)\<rparr>"
  have S0: "sys ?s0 R P W" and w0: "waiter ?s0 = waiter s" "task_prio ?s0 = task_prio s" "OSTCBCurPtr ?s0 = ?c"
    using S by (simp_all add: OS_TS_GET_def waiter_def fun_eq_iff)
  from mutex_restore_cur_ok [OF S0 q] obtain s1 R1 where
    s1: "mutex_restore_cur m ?s0 = Some (s1\<lparr>OSPrioCur := MTX_OwnerOriginalPrio m\<rparr>)" "sys (s1\<lparr>OSPrioCur := MTX_OwnerOriginalPrio m\<rparr>) R1 P W"
      "kframe {?c} {} ?s0 s1" "task_prio s1 ?c = MTX_OwnerOriginalPrio m" unfolding w0 by blast
  let ?s1 = "s1\<lparr>OSPrioCur := MTX_OwnerOriginalPrio m\<rparr>"
  have w1: "waiter ?s1 z = waiter s z" if "z \<in> set (P p)" for z
  proof -
    from pend_entry [OF K that] obtain e where "pds s z = Some e" by blast
    then have "pds ?s0 z = Some e" by (simp add: OS_TS_GET_def)
    from waiter_kframe [OF s1(3) _ this] show ?thesis using w0(1) by (simp add: waiter_def)
  qed
  have m1: "mutexes ?s1 p = Some ?m0" "mutexes ?s1 = mutexes ?s0" using kframe_globals(3) [OF s1(3)] by simp_all
  have o1: "distinct (map (waiter ?s1) (d # ds))" using once w1 P by (simp cong: map_cong image_cong)
  from mutex_hand_over_ok [OF s1(2) m1(1) b(1) P o1, of ?ts] obtain s2 R2 P2 W2 t where
    s2: "mutex_hand_over p ?ts ?s1 = Some s2" "sys s2 R2 P2 W2" "P2 p = ds" "tcbs ?s1 (waiter ?s1 d) = Some t"
      "woken_all OS_STATUS_PEND_OK (NULL, 0, ?ts) (?s1\<lparr>mutexes := (mutexes ?s1)(p \<mapsto> ?m0\<lparr>MTX_OwnerTCBPtr := waiter ?s1 d,
        MTX_OwnerOriginalPrio := TCB_Prio t, MTX_OwnerNestingCtr := 1\<rparr>)\<rparr>) [d] s2"
      "map (waiter s2) ds = map (waiter ?s1) ds" by blast
  from sched_if_ok [OF s2(2), of "opt AND OS_OPT_POST_NO_SCHED = 0"] obtain s' where
    s': "(if opt AND OS_OPT_POST_NO_SCHED = 0 then OSSched s2 else Some s2) = Some s'" "sys s' R2 P2 W2" "sw_frame s2 s'"
      "opt AND OS_OPT_POST_NO_SCHED = 0 \<longrightarrow> sched_done s2 R2 s'" by blast
  have run: "OSMutexPost p opt s = Some (OS_ERR_NONE, s')"
    using b m(2,3) n opt ne s1(1) s2(1) s'(1) by (cases "opt = OS_OPT_POST_NONE") (simp_all add: OSMutexPost_def OS_TS_GET_def)
  have d: "d \<in> set (P p)" "set ds \<subseteq> set (P p)" using P by auto
  have pr1: "task_prio s' = task_prio s1" using task_prio_sw [OF s'(3)] woken_all_prio [OF s2(5)] by simp
  have pr: "task_prio s' z = task_prio s z" if "z \<noteq> ?c" for z using pr1 task_prio_kframe [OF s1(3), of z] that w0(2) by simp
  note nc = waiter_not_cur [of s R P W _ p, OF S [unfolded sys_def, THEN conjunct1] S [unfolded sys_def, THEN conjunct2]]
  have t: "TCB_Prio t = task_prio s (waiter s d)"
    using s2(4) pr [OF nc [OF d(1)]] pr1 w1 [OF d(1)] task_prio_Some [OF s2(4)] by simp
  have "mutexes s' = (mutexes ?s1)(p \<mapsto> ?m0\<lparr>MTX_OwnerTCBPtr := waiter ?s1 d, MTX_OwnerOriginalPrio := TCB_Prio t, MTX_OwnerNestingCtr := 1\<rparr>)"
    using sw_frame_mutexes [OF s'(3)] woken_all_globals(3) [OF s2(5)] by simp
  then have "mutexes s' = (mutexes s)(p \<mapsto> \<lparr>MTX_OwnerTCBPtr = waiter s d, MTX_OwnerOriginalPrio = task_prio s (waiter s d),
      MTX_OwnerNestingCtr = 1, MTX_TS = ?ts\<rparr>)" unfolding m1(2) t w1 [OF d(1)] by (cases m) simp
  moreover have "no_inversion s' P2 p (waiter s d)"
  proof -
    have "waiter s' z = waiter s z" if "z \<in> set ds" for z
      using s2(6) that w1 [of z] d sw_frame_globals(1) [OF s'(3)] by (auto simp: waiter_def)
    then show ?thesis using pend_first_urgent [where p = p, OF K P] s2(3) pr nc d P unfolding no_inversion_def by auto
  qed
  ultimately show ?thesis using run s'(2-4) s2(3) pr pr1 s1(4) by (intro exI [of _ s2] exI [of _ s'] exI [of _ R2] exI [of _ P2] exI [of _ W2]) simp
qed

end
