(* ===== verification/OS_Task.thy ===== *)
theory OS_Task
  imports OS_Reprio OS_Msg
begin

text \<open>
  \<^verbatim>\<open>src/ucosTest/Source/os_task.c\<close>: creation, deletion, priority, suspension and the task
  registers.  The stack of a task is memory of the Windows thread the port runs it in and is not
  modelled: the loop of \<^verbatim>\<open>OSTaskCreate\<close> that clears it, the thread record \<^verbatim>\<open>OSTaskStkInit\<close> writes
  at its base (it returns \<open>p_stk_base\<close>) and \<^verbatim>\<open>OSTaskStkChk\<close>, which reads it, have no counterpart here.
  The hooks of the port create and end that thread and do not touch the kernel's data.
\<close>

text \<open>Most services take the null pointer for the running task.\<close>

definition tcb_self :: "ptr \<Rightarrow> os \<Rightarrow> ptr" where
  "tcb_self p_tcb s = (if p_tcb = NULL then OSTCBCurPtr s else p_tcb)"

definition OS_TaskDbgListAdd :: "ptr \<Rightarrow> os \<Rightarrow> os option" where
  "OS_TaskDbgListAdd p_tcb s = do {
     s \<leftarrow> tcb_mod p_tcb (\<lambda>t. t\<lparr>TCB_DbgPrevPtr := NULL\<rparr>) s;
     s \<leftarrow> (if OSTaskDbgListPtr s = NULL then tcb_mod p_tcb (\<lambda>t. t\<lparr>TCB_DbgNextPtr := NULL\<rparr>) s
           else do {
             s \<leftarrow> tcb_mod p_tcb (\<lambda>t. t\<lparr>TCB_DbgNextPtr := OSTaskDbgListPtr s\<rparr>) s;
             tcb_mod (OSTaskDbgListPtr s) (\<lambda>t. t\<lparr>TCB_DbgPrevPtr := p_tcb\<rparr>) s
           });
     Some (s\<lparr>OSTaskDbgListPtr := p_tcb\<rparr>)
   }"

definition OS_TaskDbgListRemove :: "ptr \<Rightarrow> os \<Rightarrow> os option" where
  "OS_TaskDbgListRemove p_tcb s = do {
     tcb \<leftarrow> tcbs s p_tcb;
     let p_tcb_prev = TCB_DbgPrevPtr tcb;
     let p_tcb_next = TCB_DbgNextPtr tcb;
     if p_tcb_prev = NULL then do {
       let s = s\<lparr>OSTaskDbgListPtr := p_tcb_next\<rparr>;
       s \<leftarrow> (if p_tcb_next \<noteq> NULL then tcb_mod p_tcb_next (\<lambda>t. t\<lparr>TCB_DbgPrevPtr := NULL\<rparr>) s else Some s);
       tcb_mod p_tcb (\<lambda>t. t\<lparr>TCB_DbgNextPtr := NULL\<rparr>) s
     } else if p_tcb_next = NULL then do {
       s \<leftarrow> tcb_mod p_tcb_prev (\<lambda>t. t\<lparr>TCB_DbgNextPtr := NULL\<rparr>) s;
       tcb_mod p_tcb (\<lambda>t. t\<lparr>TCB_DbgPrevPtr := NULL\<rparr>) s
     } else do {
       s \<leftarrow> tcb_mod p_tcb_prev (\<lambda>t. t\<lparr>TCB_DbgNextPtr := p_tcb_next\<rparr>) s;
       s \<leftarrow> tcb_mod p_tcb_next (\<lambda>t. t\<lparr>TCB_DbgPrevPtr := p_tcb_prev\<rparr>) s;
       tcb_mod p_tcb (\<lambda>t. t\<lparr>TCB_DbgNextPtr := NULL, TCB_DbgPrevPtr := NULL\<rparr>) s
     }
   }"

definition OS_TaskInit :: "os \<Rightarrow> OS_ERR \<times> os" where
  "OS_TaskInit s = (OS_ERR_NONE, s\<lparr>OSTaskDbgListPtr := NULL, OSTaskQty := 0, OSTaskCtxSwCtr := 0\<rparr>)"

text \<open>\<^verbatim>\<open>OS_TaskInitTCB\<close> writes every field of the control block but \<^verbatim>\<open>CyclesTotalPrev\<close>; \<open>ts\<close> is the time stamp it
  reads.\<close>

definition init_tcb :: "CPU_TS \<Rightarrow> OS_TCB \<Rightarrow> OS_TCB" where
  "init_tcb ts t = \<lparr>TCB_StkPtr = NULL, TCB_ExtPtr = NULL, TCB_StkLimitPtr = NULL, TCB_NextPtr = NULL, TCB_PrevPtr = NULL,
     TCB_TickNextPtr = NULL, TCB_TickPrevPtr = NULL, TCB_TickSpokePtr = None, TCB_NamePtr = ''?Task'', TCB_StkBasePtr = NULL,
     TCB_TaskEntryAddr = NULL, TCB_TaskEntryArg = NULL, TCB_PendDataTblPtr = NULL, TCB_PendOn = OS_TASK_PEND_ON_NOTHING,
     TCB_PendStatus = OS_STATUS_PEND_OK, TCB_TaskState = OS_TASK_STATE_RDY, TCB_Prio = OS_PRIO_INIT, TCB_StkSize = 0, TCB_Opt = 0,
     TCB_PendDataTblEntries = 0, TCB_TS = 0, TCB_SemCtr = 0, TCB_TickCtrPrev = OS_TICK_TH_INIT, TCB_TickCtrMatch = 0,
     TCB_TickRemain = 0, TCB_TimeQuanta = 0, TCB_TimeQuantaCtr = 0, TCB_MsgPtr = NULL, TCB_MsgSize = 0, TCB_MsgQ = OS_MsgQInit 0,
     TCB_MsgQPendTime = 0, TCB_MsgQPendTimeMax = 0, TCB_RegTbl = replicate (unat OS_CFG_TASK_REG_TBL_SIZE) 0, TCB_FlagsPend = 0,
     TCB_FlagsRdy = 0, TCB_FlagsOpt = 0, TCB_SuspendCtr = 0, TCB_CPUUsage = 0, TCB_CPUUsageMax = 0, TCB_CtxSwCtr = 0,
     TCB_CyclesDelta = 0, TCB_CyclesStart = ts, TCB_CyclesTotal = 0, TCB_CyclesTotalPrev = TCB_CyclesTotalPrev t,
     TCB_SemPendTime = 0, TCB_SemPendTimeMax = 0, TCB_StkUsed = 0, TCB_StkFree = 0, TCB_SchedLockTimeMax = 0,
     TCB_DbgPrevPtr = NULL, TCB_DbgNextPtr = NULL, TCB_DbgNamePtr = '' ''\<rparr>"

definition OS_TaskInitTCB :: "ptr \<Rightarrow> os \<Rightarrow> os option" where
  "OS_TaskInitTCB p_tcb s = (let (ts, s) = OS_TS_GET s in tcb_mod p_tcb (init_tcb ts) s)"

definition OSTaskCreate :: "ptr \<Rightarrow> string \<Rightarrow> ptr \<Rightarrow> ptr \<Rightarrow> OS_PRIO \<Rightarrow> ptr \<Rightarrow> CPU_STK_SIZE \<Rightarrow> CPU_STK_SIZE \<Rightarrow> OS_MSG_QTY \<Rightarrow>
    OS_TICK \<Rightarrow> ptr \<Rightarrow> OS_OPT \<Rightarrow> os \<Rightarrow> (OS_ERR \<times> os) option" where
  "OSTaskCreate p_tcb p_name p_task p_arg prio p_stk_base stk_limit stk_size q_size time_quanta p_ext opt s =
     (if OSIntNestingCtr s > 0 then Some (OS_ERR_TASK_CREATE_ISR, s)
      else if p_tcb = NULL then Some (OS_ERR_TCB_INVALID, s)
      else if p_task = NULL then Some (OS_ERR_TASK_INVALID, s)
      else if p_stk_base = NULL then Some (OS_ERR_STK_INVALID, s)
      else if stk_size < OSCfg_StkSizeMin then Some (OS_ERR_STK_SIZE_INVALID, s)
      else if stk_limit \<ge> stk_size then Some (OS_ERR_STK_LIMIT_INVALID, s)
      else if unat prio \<ge> OS_CFG_PRIO_MAX then Some (OS_ERR_PRIO_INVALID, s)
      else if unat prio = OS_CFG_PRIO_MAX - 1 \<and> p_tcb \<noteq> OSIdleTaskTCB s then Some (OS_ERR_PRIO_INVALID, s)
      else do {
        s \<leftarrow> OS_TaskInitTCB p_tcb s;
        s \<leftarrow> tcb_mod p_tcb (\<lambda>t. t\<lparr>TCB_TaskEntryAddr := p_task, TCB_TaskEntryArg := p_arg, TCB_NamePtr := p_name, TCB_Prio := prio,
               TCB_StkPtr := p_stk_base, TCB_StkLimitPtr := p_stk_base + unat stk_limit, TCB_TimeQuanta := time_quanta,
               TCB_TimeQuantaCtr := if time_quanta = 0 then OSSchedRoundRobinDfltTimeQuanta s else time_quanta,
               TCB_ExtPtr := p_ext, TCB_StkBasePtr := p_stk_base, TCB_StkSize := stk_size, TCB_Opt := opt,
               TCB_RegTbl := replicate (unat OS_CFG_TASK_REG_TBL_SIZE) 0, TCB_MsgQ := OS_MsgQInit q_size\<rparr>) s;
        s \<leftarrow> OS_PrioInsert prio s;
        s \<leftarrow> OS_RdyListInsertTail p_tcb s;
        s \<leftarrow> OS_TaskDbgListAdd p_tcb s;
        let s = s\<lparr>OSTaskQty := OSTaskQty s + 1\<rparr>;
        if OSRunning s \<noteq> OS_STATE_OS_RUNNING then Some (OS_ERR_NONE, s)
        else do {
          s \<leftarrow> OSSched s;
          Some (OS_ERR_NONE, s)
        }
      })"

text \<open>The switch of \<^verbatim>\<open>OSTaskDel\<close>: the task leaves every list its state says it is in.  The result is
  false where the state is not a valid one.\<close>

definition task_unlink :: "ptr \<Rightarrow> os \<Rightarrow> (bool \<times> os) option" where
  "task_unlink p_tcb s = do {
     tcb \<leftarrow> tcbs s p_tcb;
     let st = TCB_TaskState tcb;
     if st = OS_TASK_STATE_RDY then map_option (Pair True) (OS_RdyListRemove p_tcb s)
     else if st = OS_TASK_STATE_SUSPENDED then Some (True, s)
     else if st \<in> {OS_TASK_STATE_DLY, OS_TASK_STATE_DLY_SUSPENDED} then map_option (Pair True) (OS_TickListRemove p_tcb s)
     else if st \<in> {OS_TASK_STATE_PEND, OS_TASK_STATE_PEND_SUSPENDED, OS_TASK_STATE_PEND_TIMEOUT, OS_TASK_STATE_PEND_TIMEOUT_SUSPENDED}
     then do {
       s \<leftarrow> OS_TickListRemove p_tcb s;
       if TCB_PendOn tcb \<in> {OS_TASK_PEND_ON_FLAG, OS_TASK_PEND_ON_MULTI, OS_TASK_PEND_ON_MUTEX, OS_TASK_PEND_ON_Q, OS_TASK_PEND_ON_SEM}
       then map_option (Pair True) (OS_PendListRemove p_tcb s)
       else Some (True, s)
     } else Some (False, s)
   }"

definition OSTaskDel :: "ptr \<Rightarrow> os \<Rightarrow> (OS_ERR \<times> os) option" where
  "OSTaskDel p_tcb s =
     (if OSIntNestingCtr s > 0 then Some (OS_ERR_TASK_DEL_ISR, s)
      else if p_tcb = OSIdleTaskTCB s then Some (OS_ERR_TASK_DEL_IDLE, s)
      else do {
        let p_tcb = tcb_self p_tcb s;
        (valid, s) \<leftarrow> task_unlink p_tcb s;
        if \<not> valid then Some (OS_ERR_STATE_INVALID, s)
        else do {
          tcb \<leftarrow> tcbs s p_tcb;
          (_, q, s) \<leftarrow> OS_MsgQFreeAll (TCB_MsgQ tcb) s;
          s \<leftarrow> tcb_mod p_tcb (\<lambda>t. t\<lparr>TCB_MsgQ := q\<rparr>) s;
          s \<leftarrow> OS_TaskDbgListRemove p_tcb s;
          s \<leftarrow> OS_TaskInitTCB p_tcb (s\<lparr>OSTaskQty := OSTaskQty s - 1\<rparr>);
          s \<leftarrow> tcb_mod p_tcb (\<lambda>t. t\<lparr>TCB_TaskState := OS_TASK_STATE_DEL\<rparr>) s;
          s \<leftarrow> OSSched s;
          Some (OS_ERR_NONE, s)
        }
      })"

definition OS_TaskReturn :: "os \<Rightarrow> os option" where
  "OS_TaskReturn s = map_option snd (OSTaskDel NULL s)"

definition OSTaskChangePrio :: "ptr \<Rightarrow> OS_PRIO \<Rightarrow> os \<Rightarrow> (OS_ERR \<times> os) option" where
  "OSTaskChangePrio p_tcb prio_new s =
     (if OSIntNestingCtr s > 0 then Some (OS_ERR_TASK_CHANGE_PRIO_ISR, s)
      else if unat prio_new \<ge> OS_CFG_PRIO_MAX - 1 then Some (OS_ERR_PRIO_INVALID, s)
      else do {
        let self = (p_tcb = NULL);
        let p_tcb = tcb_self p_tcb s;
        tcb \<leftarrow> tcbs s p_tcb;
        (valid, s) \<leftarrow>
          (if TCB_TaskState tcb \<in> {OS_TASK_STATE_PEND, OS_TASK_STATE_PEND_TIMEOUT, OS_TASK_STATE_PEND_SUSPENDED, OS_TASK_STATE_PEND_TIMEOUT_SUSPENDED}
           then if TCB_PendOn tcb \<in> {OS_TASK_PEND_ON_TASK_Q, OS_TASK_PEND_ON_TASK_SEM, OS_TASK_PEND_ON_FLAG}
             then map_option (Pair True) (tcb_mod p_tcb (\<lambda>t. t\<lparr>TCB_Prio := prio_new\<rparr>) s)
             else if TCB_PendOn tcb \<in> {OS_TASK_PEND_ON_MUTEX, OS_TASK_PEND_ON_MULTI, OS_TASK_PEND_ON_Q, OS_TASK_PEND_ON_SEM}
             then map_option (Pair True) (OS_PendListChangePrio p_tcb prio_new s)
             else Some (True, s)
           else task_reprio self p_tcb prio_new s);
        if \<not> valid then Some (OS_ERR_STATE_INVALID, s)
        else do {
          s \<leftarrow> OSSched s;
          Some (OS_ERR_NONE, s)
        }
      })"

definition OS_TaskSuspend :: "ptr \<Rightarrow> os \<Rightarrow> (OS_ERR \<times> os) option" where
  "OS_TaskSuspend p_tcb s = do {
     let p_tcb = tcb_self p_tcb s;
     if p_tcb = OSTCBCurPtr s \<and> OSSchedLockNestingCtr s > 0 then Some (OS_ERR_SCHED_LOCKED, s)
     else do {
       tcb \<leftarrow> tcbs s p_tcb;
       let st = TCB_TaskState tcb;
       if st = OS_TASK_STATE_RDY then do {
         s \<leftarrow> tcb_mod p_tcb (\<lambda>t. t\<lparr>TCB_TaskState := OS_TASK_STATE_SUSPENDED, TCB_SuspendCtr := 1\<rparr>) s;
         s \<leftarrow> OS_RdyListRemove p_tcb s;
         s \<leftarrow> OSSched s;
         Some (OS_ERR_NONE, s)
       } else if st = OS_TASK_STATE_DLY then do {
         s \<leftarrow> tcb_mod p_tcb (\<lambda>t. t\<lparr>TCB_TaskState := OS_TASK_STATE_DLY_SUSPENDED, TCB_SuspendCtr := 1\<rparr>) s;
         s \<leftarrow> OSSched s;
         Some (OS_ERR_NONE, s)
       } else if st = OS_TASK_STATE_PEND then do {
         s \<leftarrow> tcb_mod p_tcb (\<lambda>t. t\<lparr>TCB_TaskState := OS_TASK_STATE_PEND_SUSPENDED, TCB_SuspendCtr := 1\<rparr>) s;
         s \<leftarrow> OSSched s;
         Some (OS_ERR_NONE, s)
       } else if st = OS_TASK_STATE_PEND_TIMEOUT then do {
         s \<leftarrow> tcb_mod p_tcb (\<lambda>t. t\<lparr>TCB_TaskState := OS_TASK_STATE_PEND_TIMEOUT_SUSPENDED, TCB_SuspendCtr := 1\<rparr>) s;
         s \<leftarrow> OSSched s;
         Some (OS_ERR_NONE, s)
       } else if st \<in> {OS_TASK_STATE_SUSPENDED, OS_TASK_STATE_DLY_SUSPENDED, OS_TASK_STATE_PEND_SUSPENDED, OS_TASK_STATE_PEND_TIMEOUT_SUSPENDED}
       then do {
         s \<leftarrow> tcb_mod p_tcb (\<lambda>t. t\<lparr>TCB_SuspendCtr := TCB_SuspendCtr t + 1\<rparr>) s;
         s \<leftarrow> OSSched s;
         Some (OS_ERR_NONE, s)
       } else Some (OS_ERR_STATE_INVALID, s)
     }
   }"

definition OSTaskSuspend :: "ptr \<Rightarrow> os \<Rightarrow> (OS_ERR \<times> os) option" where
  "OSTaskSuspend p_tcb s =
     (if OSIntNestingCtr s > 0 then Some (OS_ERR_TASK_SUSPEND_ISR, s)
      else if p_tcb = OSIdleTaskTCB s then Some (OS_ERR_TASK_SUSPEND_IDLE, s)
      else OS_TaskSuspend p_tcb s)"

text \<open>One suspension less; the task leaves the suspended state with the last one.\<close>

definition suspend_dec :: "OS_STATE \<Rightarrow> OS_TCB \<Rightarrow> OS_TCB" where
  "suspend_dec st t = t\<lparr>TCB_SuspendCtr := TCB_SuspendCtr t - 1,
     TCB_TaskState := if TCB_SuspendCtr t - 1 = 0 then st else TCB_TaskState t\<rparr>"

definition OS_TaskResume :: "ptr \<Rightarrow> os \<Rightarrow> (OS_ERR \<times> os) option" where
  "OS_TaskResume p_tcb s = do {
     tcb \<leftarrow> tcbs s p_tcb;
     let st = TCB_TaskState tcb;
     if st \<in> {OS_TASK_STATE_RDY, OS_TASK_STATE_DLY, OS_TASK_STATE_PEND, OS_TASK_STATE_PEND_TIMEOUT} then do {
       s \<leftarrow> OSSched s;
       Some (OS_ERR_TASK_NOT_SUSPENDED, s)
     } else if st = OS_TASK_STATE_SUSPENDED then do {
       s \<leftarrow> tcb_mod p_tcb (suspend_dec OS_TASK_STATE_RDY) s;
       s \<leftarrow> (if TCB_SuspendCtr tcb - 1 = 0 then OS_TaskRdy p_tcb s else Some s);
       s \<leftarrow> OSSched s;
       Some (OS_ERR_NONE, s)
     } else if st = OS_TASK_STATE_DLY_SUSPENDED then do {
       s \<leftarrow> tcb_mod p_tcb (suspend_dec OS_TASK_STATE_DLY) s;
       s \<leftarrow> OSSched s;
       Some (OS_ERR_NONE, s)
     } else if st = OS_TASK_STATE_PEND_SUSPENDED then do {
       s \<leftarrow> tcb_mod p_tcb (suspend_dec OS_TASK_STATE_PEND) s;
       s \<leftarrow> OSSched s;
       Some (OS_ERR_NONE, s)
     } else if st = OS_TASK_STATE_PEND_TIMEOUT_SUSPENDED then do {
       s \<leftarrow> tcb_mod p_tcb (suspend_dec OS_TASK_STATE_PEND_TIMEOUT) s;
       s \<leftarrow> OSSched s;
       Some (OS_ERR_NONE, s)
     } else Some (OS_ERR_STATE_INVALID, s)
   }"

definition OSTaskResume :: "ptr \<Rightarrow> os \<Rightarrow> (OS_ERR \<times> os) option" where
  "OSTaskResume p_tcb s =
     (if OSIntNestingCtr s > 0 then Some (OS_ERR_TASK_RESUME_ISR, s)
      else if p_tcb = NULL \<or> p_tcb = OSTCBCurPtr s then Some (OS_ERR_TASK_RESUME_SELF, s)
      else OS_TaskResume p_tcb s)"

definition OSTaskRegGet :: "ptr \<Rightarrow> OS_REG_ID \<Rightarrow> os \<Rightarrow> (OS_REG \<times> OS_ERR) option" where
  "OSTaskRegGet p_tcb reg_id s =
     (if reg_id \<ge> OS_CFG_TASK_REG_TBL_SIZE then Some (0, OS_ERR_REG_ID_INVALID)
      else do {
        tcb \<leftarrow> tcbs s (tcb_self p_tcb s);
        if unat reg_id < length (TCB_RegTbl tcb) then Some (TCB_RegTbl tcb ! unat reg_id, OS_ERR_NONE) else None
      })"

definition OSTaskRegGetID :: "os \<Rightarrow> OS_REG_ID \<times> OS_ERR \<times> os" where
  "OSTaskRegGetID s =
     (if OSTaskRegNextAvailID s \<ge> OS_CFG_TASK_REG_TBL_SIZE then (OS_CFG_TASK_REG_TBL_SIZE, OS_ERR_NO_MORE_ID_AVAIL, s)
      else (OSTaskRegNextAvailID s, OS_ERR_NONE, s\<lparr>OSTaskRegNextAvailID := OSTaskRegNextAvailID s + 1\<rparr>))"

definition OSTaskRegSet :: "ptr \<Rightarrow> OS_REG_ID \<Rightarrow> OS_REG \<Rightarrow> os \<Rightarrow> (OS_ERR \<times> os) option" where
  "OSTaskRegSet p_tcb reg_id v s =
     (if reg_id \<ge> OS_CFG_TASK_REG_TBL_SIZE then Some (OS_ERR_REG_ID_INVALID, s)
      else do {
        tcb \<leftarrow> tcbs s (tcb_self p_tcb s);
        if unat reg_id < length (TCB_RegTbl tcb)
        then map_option (Pair OS_ERR_NONE) (tcb_mod (tcb_self p_tcb s) (\<lambda>t. t\<lparr>TCB_RegTbl := (TCB_RegTbl t)[unat reg_id := v]\<rparr>) s)
        else None
      })"

definition OSTaskTimeQuantaSet :: "ptr \<Rightarrow> OS_TICK \<Rightarrow> os \<Rightarrow> (OS_ERR \<times> os) option" where
  "OSTaskTimeQuantaSet p_tcb time_quanta s =
     (if OSIntNestingCtr s > 0 then Some (OS_ERR_SET_ISR, s)
      else do {
        let q = (if time_quanta = 0 then OSSchedRoundRobinDfltTimeQuanta s else time_quanta);
        s \<leftarrow> tcb_mod (tcb_self p_tcb s) (\<lambda>t. t\<lparr>TCB_TimeQuanta := q, TCB_TimeQuantaCtr := max q (TCB_TimeQuantaCtr t)\<rparr>) s;
        Some (OS_ERR_NONE, s)
      })"

subsection \<open>Suspending and resuming\<close>

text \<open>A change of the task state that moves the task between no lists.\<close>

lemma kinv_restate:
  assumes K: "kinv s R P W" and t: "tcbs s x = Some t" "TCB_TaskState t \<noteq> OS_TASK_STATE_DEL"
    and v: "rdy_view t' = rdy_view t" "tick_view t' = tick_view t" "pend_tbl t' = pend_tbl t"
    and st: "TCB_TaskState t' = OS_TASK_STATE_RDY \<longleftrightarrow> TCB_TaskState t = OS_TASK_STATE_RDY" "st_tick (TCB_TaskState t') = st_tick (TCB_TaskState t)"
      "st_pend (TCB_TaskState t') = st_pend (TCB_TaskState t)"
  shows "kinv (s\<lparr>tcbs := (tcbs s)(x \<mapsto> t')\<rparr>) R P W"
proof -
  let ?s = "s\<lparr>tcbs := (tcbs s)(x \<mapsto> t')\<rparr>"
  have ok: "task_ok s R P x t" by (rule kinvD(7) [OF K t(1)])
  have p: "TCB_Prio t' = TCB_Prio t" "TCB_TickSpokePtr t' = TCB_TickSpokePtr t" using v by (simp_all add: rdy_view_def tick_view_def)
  have ok': "task_ok ?s R P x t'" using ok t(2) st v(3) p by (auto simp: task_ok_def pend_tbl_ok_def)
  have kr: "krel ?s R P W" using kinvD(1) [OF K] krel_tcb_upd [OF t(1) v(1,2)] by simp
  have own: "d \<in> pend_tbl t \<Longrightarrow> \<exists>e. pds s d = Some e \<and> PD_TCBPtr e = x" for d
    using ok by (cases "st_pend (TCB_TaskState t)") (auto simp: task_ok_def pend_tbl_ok_def)
  show ?thesis
    by (rule kinv_task [OF K t(1) subset_refl kr kframe_tcb_upd [OF t(1)] _ _ _ _ _ ok'])
      (use pend_tbl_disjoint [OF K _ t(1)] own v(3) in \<open>auto\<close>)
qed

lemma rdy_remove_fun:
  assumes "rdy_rel s R" "tcbs s x = Some t"
  shows "R(unat (TCB_Prio t) := remove1 x (R (unat (TCB_Prio t)))) = (\<lambda>p. remove1 x (R p))"
proof
  fix q
  have "x \<notin> set (R q)" if "q \<noteq> unat (TCB_Prio t)" using rdy_rel_list(3) [OF assms(1), of x q] that assms(2) by auto
  then show "(R(unat (TCB_Prio t) := remove1 x (R (unat (TCB_Prio t))))) q = remove1 x (R q)" by (simp add: remove1_idem)
qed

lemma kinv_unready:
  assumes K: "kinv s R P W" and t: "tcbs s x = Some t" "TCB_TaskState t = OS_TASK_STATE_RDY"
    and v: "rdy_view t' = rdy_view t" "tick_view t' = tick_view t" "pend_tbl t' = pend_tbl t" "TCB_TaskState t' = OS_TASK_STATE_SUSPENDED"
  shows "\<exists>s1 t1. OS_RdyListRemove x (s\<lparr>tcbs := (tcbs s)(x \<mapsto> t')\<rparr>) = Some s1 \<and> kinv s1 (\<lambda>p. remove1 x (R p)) P W \<and> kframe {x} {} s s1 \<and>
    tcbs s1 x = Some t1 \<and> tcb_core t1 = tcb_core t'"
proof -
  note k = kinvD [OF K]
  let ?s = "s\<lparr>tcbs := (tcbs s)(x \<mapsto> t')\<rparr>" let ?p = "unat (TCB_Prio t)" let ?R = "\<lambda>p. remove1 x (R p)"
  have kr: "krel ?s R P W" using k(1) krel_tcb_upd [OF t(1) v(1,2)] by simp
  have ok: "task_ok s R P x t" by (rule k(7) [OF t(1)])
  have x: "x \<in> set (R ?p)" "pend_tbl t = {}" using ok t(2) by (simp_all add: task_ok_def st_pend_def)
  have R: "R(?p := remove1 x (R ?p)) = ?R" by (rule rdy_remove_fun [OF k(2) t(1)])
  have "rdy_rel ?s R" "pend_rel ?s P" "tick_rel ?s W" using kr by (simp_all add: krel_def)
  from OS_RdyListRemove_ok [OF this(1) x(1)] this obtain s1 where s1: "OS_RdyListRemove x ?s = Some s1" "rdy_rel s1 ?R" "rdy_frame ?s s1"
    "pend_rel ?s P" "tick_rel ?s W" unfolding R by blast
  obtain t1 where t1: "tcbs s1 x = Some t1" "tcb_core t1 = tcb_core t'" by (rule rdy_frame_tcb [OF s1(3), of x t']) simp_all
  note e = tcb_core_eqD [OF t1(2)]
  have kr1: "krel s1 ?R P W" using s1(2) rdy_frame_others [OF s1(3)] s1(4,5) by (simp add: krel_def)
  have F: "kframe {x} {} s s1" using kframe_trans [OF kframe_tcb_upd [OF t(1)] rdy_frame_kframe [OF s1(3)]] by blast
  have dist: "distinct (R q)" for q by (rule rdy_rel_list(1) [OF k(2)])
  have "TCB_Prio t1 = TCB_Prio t" "TCB_TickSpokePtr t1 = TCB_TickSpokePtr t" "pend_tbl t1 = {}" "TCB_TaskState t1 = OS_TASK_STATE_SUSPENDED"
    using e v x(2) by (simp_all add: rdy_view_def tick_view_def pend_tbl_def)
  then have ok1: "task_ok s1 ?R P x t1" using ok t(2) dist by (auto simp: task_ok_def st_pend_def st_tick_def)
  have "kinv s1 ?R P W"
    by (rule kinv_task [OF K t(1) _ kr1 F _ _ _ _ t1(1) ok1]) (use x(2) in auto)
  with s1(1) F t1 show ?thesis by blast
qed

text \<open>The scheduler after an operation on one task that kept its priority.\<close>

lemma sched_tail:
  assumes S: "sys s R P W" and K1: "kinv s1 R' P' W'" and F: "kframe {x} D s s1"
    and t: "tcbs s x = Some t" "tcbs s1 x = Some t1" "TCB_Prio t1 = TCB_Prio t"
    and cur: "x = OSTCBCurPtr s \<Longrightarrow> OSIntNestingCtr s = 0 \<and> OSSchedLockNestingCtr s = 0 \<and> (\<exists>q. R' q \<noteq> [])"
  shows "\<exists>s'. OSSched s1 = Some s' \<and> sys s' R' P' W' \<and> sw_frame s1 s' \<and> sched_done s1 R' s'"
proof -
  note g = kframe_globals [OF F]
  from S obtain c where c: "tcbs s (OSTCBCurPtr s) = Some c" "TCB_Prio c = OSPrioCur s" "TCB_TaskState c = OS_TASK_STATE_RDY"
    by (auto simp: sys_def cur_rdy_def)
  show ?thesis
  proof (cases "x = OSTCBCurPtr s")
    case True
    with cur obtain q where q: "OSIntNestingCtr s1 = 0" "OSSchedLockNestingCtr s1 = 0" "R' q \<noteq> []" using g(8,10) by auto
    have "cur_ok s1" using True t c(1,2) g(11,12) by (simp add: cur_ok_def)
    from OSSched_sys [OF K1 this q(3)] q show ?thesis by simp
  next
    case False
    then have "OSTCBCurPtr s \<notin> {x}" by simp
    from kframe_tcb(1) [OF F this c(1)] obtain c1 where c1: "tcbs s1 (OSTCBCurPtr s) = Some c1" "tcb_other c1 = tcb_other c" by blast
    have cr: "cur_rdy s1" using c1(1) c(2,3) tcb_other_eqD(1,2) [OF c1(2)] g(11,12) by (simp add: cur_rdy_def)
    have "R' (unat (OSPrioCur s1)) \<noteq> []" using cur_rdy_in [OF K1 cr] by auto
    from OSSched_sys [OF K1 cur_rdy_ok [OF cr] this cr] show ?thesis by blast
  qed
qed

lemma sw_frame_suspend:
  assumes "sw_frame s s'" "tcbs s x = Some t"
  obtains t' where "tcbs s' x = Some t'" "TCB_TaskState t' = TCB_TaskState t" "TCB_SuspendCtr t' = TCB_SuspendCtr t" "TCB_Prio t' = TCB_Prio t"
proof -
  obtain t' where t': "tcbs s' x = Some t'" "tcb_stat t' = tcb_stat t" by (rule sw_frame_tcb [OF assms])
  have "TCB_SuspendCtr (tcb_stat u) = TCB_SuspendCtr u" for u by (simp add: tcb_stat_def)
  then have "TCB_SuspendCtr t' = TCB_SuspendCtr t" using t'(2) by metis
  with that t' tcb_stat_key [OF t'(2)] show ?thesis by (simp add: tcb_key_def rdy_view_def)
qed

lemma state_bits:
  "(st :: OS_STATE) \<in> {0, 1, 2, 3, 4, 5, 6, 7} \<Longrightarrow> st AND OS_TASK_STATE_BIT_SUSPENDED = 0 \<longleftrightarrow> st \<in> {0, 1, 2, 3}"
  by auto

text \<open>Suspension is additive: the suspended bit is set, the other bits of the task state stay, and the
  suspensions are counted.\<close>

definition suspended_tcb :: "OS_TCB \<Rightarrow> OS_TCB" where
  "suspended_tcb t = t\<lparr>TCB_TaskState := TCB_TaskState t OR OS_TASK_STATE_BIT_SUSPENDED,
     TCB_SuspendCtr := if TCB_TaskState t AND OS_TASK_STATE_BIT_SUSPENDED = 0 then 1 else TCB_SuspendCtr t + 1\<rparr>"

lemma suspended_tcb_views [simp]:
  "rdy_view (suspended_tcb t) = rdy_view t" "tick_view (suspended_tcb t) = tick_view t" "pend_tbl (suspended_tcb t) = pend_tbl t"
  "TCB_Prio (suspended_tcb t) = TCB_Prio t"
  by (simp_all add: suspended_tcb_def rdy_view_def tick_view_def pend_tbl_def)

lemma suspended_tcb_state: "TCB_TaskState (suspended_tcb t) = TCB_TaskState t OR OS_TASK_STATE_BIT_SUSPENDED"
  by (simp add: suspended_tcb_def)

lemma tcb_same_state: "TCB_TaskState t = v \<Longrightarrow> t\<lparr>TCB_TaskState := v, TCB_SuspendCtr := c\<rparr> = t\<lparr>TCB_SuspendCtr := c\<rparr>"
  by (cases t) simp

lemma OS_TaskSuspend_eq:
  assumes t: "tcbs s x = Some t" "TCB_TaskState t \<le> 7" and x: "tcb_self p s = x" "x = OSTCBCurPtr s \<Longrightarrow> OSSchedLockNestingCtr s = 0"
  shows "OS_TaskSuspend p s = do {
     s \<leftarrow> (if TCB_TaskState t = OS_TASK_STATE_RDY then OS_RdyListRemove x (s\<lparr>tcbs := (tcbs s)(x \<mapsto> suspended_tcb t)\<rparr>)
           else Some (s\<lparr>tcbs := (tcbs s)(x \<mapsto> suspended_tcb t)\<rparr>));
     s \<leftarrow> OSSched s;
     Some (OS_ERR_NONE, s)
   }"
proof -
  have "TCB_TaskState t \<in> {0, 1, 2, 3, 4, 5, 6, 7}" by (rule state_cases [OF t(2)])
  then show ?thesis using t(1) x unfolding OS_TaskSuspend_def Let_def x(1) suspended_tcb_def by (auto simp: tcb_same_state)
qed

lemma OSTaskSuspend_ok:
  assumes S: "sys s R P W" and n: "OSIntNestingCtr s = 0" and p: "p \<noteq> OSIdleTaskTCB s" "tcb_self p s = x"
    and t: "tcbs s x = Some t" "TCB_TaskState t \<le> 7"
    and cur: "x = OSTCBCurPtr s \<Longrightarrow> OSSchedLockNestingCtr s = 0 \<and> (\<exists>y q. y \<in> set (R q) \<and> y \<noteq> x)"
  shows "\<exists>s' t'. OSTaskSuspend p s = Some (OS_ERR_NONE, s') \<and> sys s' (\<lambda>p. remove1 x (R p)) P W \<and> tcbs s' x = Some t' \<and>
    TCB_TaskState t' = TCB_TaskState (suspended_tcb t) \<and> TCB_SuspendCtr t' = TCB_SuspendCtr (suspended_tcb t) \<and> TCB_Prio t' = TCB_Prio t \<and> OSIntNestingCtr s' = 0"
proof -
  have K: "kinv s R P W" using S by (simp add: sys_def)
  have st: "TCB_TaskState t \<in> {0, 1, 2, 3, 4, 5, 6, 7}" by (rule state_cases [OF t(2)])
  let ?s = "s\<lparr>tcbs := (tcbs s)(x \<mapsto> suspended_tcb t)\<rparr>"
  have "\<exists>s1 t1. (if TCB_TaskState t = OS_TASK_STATE_RDY then OS_RdyListRemove x ?s else Some ?s) = Some s1 \<and>
    kinv s1 (\<lambda>p. remove1 x (R p)) P W \<and> kframe {x} {} s s1 \<and> tcbs s1 x = Some t1 \<and> tcb_core t1 = tcb_core (suspended_tcb t)"
  proof (cases "TCB_TaskState t = OS_TASK_STATE_RDY")
    case True
    then have "TCB_TaskState (suspended_tcb t) = OS_TASK_STATE_SUSPENDED" by (simp add: suspended_tcb_def)
    from kinv_unready [OF K t(1) True _ _ _ this] True show ?thesis by simp
  next
    case False
    have "x \<notin> set (R q)" for q using rdy_rel_list(3) [OF kinvD(2) [OF K], of x q] kinvD(7) [OF K t(1)] False t(1) by (auto simp: task_ok_def)
    then have R: "(\<lambda>p. remove1 x (R p)) = R" by (simp add: remove1_idem)
    have "kinv ?s R P W" by (rule kinv_restate [OF K t(1)]) (use st False in \<open>auto simp: suspended_tcb_state st_pend_def st_tick_def\<close>)
    with False t(1) show ?thesis unfolding R by (auto intro: kframe_tcb_upd)
  qed
  then obtain s1 t1 where s1: "(if TCB_TaskState t = OS_TASK_STATE_RDY then OS_RdyListRemove x ?s else Some ?s) = Some s1"
    "kinv s1 (\<lambda>p. remove1 x (R p)) P W" "kframe {x} {} s s1" "tcbs s1 x = Some t1" "tcb_core t1 = tcb_core (suspended_tcb t)" by blast
  note e = tcb_core_eqD [OF s1(5)]
  have sc: "TCB_SuspendCtr (tcb_core u) = TCB_SuspendCtr u" for u by (simp add: tcb_core_def)
  have p1: "TCB_Prio t1 = TCB_Prio t" "TCB_SuspendCtr t1 = TCB_SuspendCtr (suspended_tcb t)" using e(1) s1(5) sc by (simp, metis)
  have "\<exists>q. remove1 x (R q) \<noteq> []" if "x = OSTCBCurPtr s"
    using cur [OF that] by (metis in_set_remove1 empty_iff list.set(1))
  then have "\<exists>s'. OSSched s1 = Some s' \<and> sys s' (\<lambda>p. remove1 x (R p)) P W \<and> sw_frame s1 s' \<and> sched_done s1 (\<lambda>p. remove1 x (R p)) s'"
    by (intro sched_tail [OF S s1(2,3) t(1) s1(4) p1(1)]) (use cur n in blast)
  then obtain s' where s': "OSSched s1 = Some s'" "sys s' (\<lambda>p. remove1 x (R p)) P W" "sw_frame s1 s'" by blast
  obtain t' where "tcbs s' x = Some t'" "TCB_TaskState t' = TCB_TaskState t1" "TCB_SuspendCtr t' = TCB_SuspendCtr t1" "TCB_Prio t' = TCB_Prio t1"
    by (rule sw_frame_suspend [OF s'(3) s1(4)])
  moreover have "OSTaskSuspend p s = Some (OS_ERR_NONE, s')"
    using n p OS_TaskSuspend_eq [OF t p(2)] cur s1(1) s'(1) by (simp add: OSTaskSuspend_def)
  moreover have "OSIntNestingCtr s' = 0" using sw_frame_globals(10) [OF s'(3)] kframe_globals(8) [OF s1(3)] n by simp
  ultimately show ?thesis using s'(2) e(2) p1 by (intro exI [of _ s'] exI [of _ t']) simp
qed

text \<open>The last resume of a task that only was suspended makes it ready.\<close>

lemma kinv_ready:
  assumes K: "kinv s R P W" and t: "tcbs s x = Some t" "TCB_TaskState t = OS_TASK_STATE_SUSPENDED"
    and v: "rdy_view t' = rdy_view t" "tick_view t' = tick_view t" "pend_tbl t' = pend_tbl t" "TCB_TaskState t' = OS_TASK_STATE_RDY"
  shows "\<exists>s1 t1. OS_TaskRdy x (s\<lparr>tcbs := (tcbs s)(x \<mapsto> t')\<rparr>) = Some s1 \<and>
    kinv s1 (rdy_insert (OSPrioCur s) (TCB_Prio t) x R) P (\<lambda>i. filter (\<lambda>y. y \<noteq> x) (W i)) \<and> kframe {x} {} s s1 \<and>
    tcbs s1 x = Some t1 \<and> tcb_base t1 = tcb_base t'"
proof -
  note k = kinvD [OF K]
  let ?s = "s\<lparr>tcbs := (tcbs s)(x \<mapsto> t')\<rparr>" let ?R = "rdy_insert (OSPrioCur s) (TCB_Prio t) x R"
  have ok: "task_ok s R P x t" by (rule k(7) [OF t(1)])
  have x: "x \<noteq> NULL" "unat (TCB_Prio t) < OS_CFG_PRIO_MAX" "x \<notin> set (R (unat (TCB_Prio t)))" "pend_tbl t = {}"
    using ok t(2) by (simp_all add: task_ok_def st_pend_def)
  have kr: "krel ?s R P W" using k(1) krel_tcb_upd [OF t(1) v(1,2)] by simp
  have p: "TCB_Prio t' = TCB_Prio t" using v(1) by (simp add: rdy_view_def)
  have len: "length (R (unat (TCB_Prio t))) < 65535" using kinv_room(1) [OF K _ x(3)] t(1) by auto
  from OS_TaskRdy_ok [OF kr, of x t'] p v(4) x len obtain s1 t1 where s1: "OS_TaskRdy x ?s = Some s1"
    "krel s1 ?R P (\<lambda>i. filter (\<lambda>y. y \<noteq> x) (W i))" "kframe {x} {} ?s s1" "tcbs s1 x = Some t1" "tcb_base t1 = tcb_base t'" "TCB_TickSpokePtr t1 = None" by auto
  note e = tcb_base_eqD [OF s1(5)]
  have F: "kframe {x} {} s s1" using kframe_trans [OF kframe_tcb_upd [OF t(1)] s1(3)] by blast
  have "TCB_Prio t1 = TCB_Prio t" "pend_tbl t1 = {}" "TCB_TaskState t1 = OS_TASK_STATE_RDY" using e p v(3,4) x(4) by (simp_all add: pend_tbl_def)
  then have ok1: "task_ok s1 ?R P x t1" using ok x s1(6) rdy_insert_mem(2) by (simp add: task_ok_def st_pend_def st_tick_def)
  have "kinv s1 ?R P (\<lambda>i. filter (\<lambda>y. y \<noteq> x) (W i))"
    by (rule kinv_task [OF K t(1) _ s1(2) F _ _ _ _ s1(4) ok1]) (use x(4) rdy_insert_mem(1) in auto)
  with s1 F show ?thesis by blast
qed

lemma suspend_dec_views [simp]:
  "rdy_view (suspend_dec st t) = rdy_view t" "tick_view (suspend_dec st t) = tick_view t" "pend_tbl (suspend_dec st t) = pend_tbl t"
  "TCB_Prio (suspend_dec st t) = TCB_Prio t"
  by (simp_all add: suspend_dec_def rdy_view_def tick_view_def pend_tbl_def)

text \<open>Resuming undoes one suspension, and the last one gives the task the state it would have
  without having been suspended.\<close>

definition resumed_tcb :: "OS_TCB \<Rightarrow> OS_TCB" where
  "resumed_tcb t = suspend_dec (TCB_TaskState t AND NOT OS_TASK_STATE_BIT_SUSPENDED) t"

lemma resumed_suspended:
  assumes "TCB_TaskState t \<in> {0, 1, 2, 3}"
  shows "TCB_TaskState (resumed_tcb (suspended_tcb t)) = TCB_TaskState t" "TCB_SuspendCtr (resumed_tcb (suspended_tcb t)) = 0"
  using assms by (auto simp: resumed_tcb_def suspended_tcb_def suspend_dec_def)

lemma OS_TaskResume_eq:
  assumes t: "tcbs s x = Some t" "TCB_TaskState t \<in> {4, 5, 6, 7}"
  shows "OS_TaskResume x s = do {
     s \<leftarrow> (if TCB_TaskState t = OS_TASK_STATE_SUSPENDED \<and> TCB_SuspendCtr t = 1 then OS_TaskRdy x (s\<lparr>tcbs := (tcbs s)(x \<mapsto> resumed_tcb t)\<rparr>)
           else Some (s\<lparr>tcbs := (tcbs s)(x \<mapsto> resumed_tcb t)\<rparr>));
     s \<leftarrow> OSSched s;
     Some (OS_ERR_NONE, s)
   }"
  using t unfolding OS_TaskResume_def resumed_tcb_def by (auto simp: Let_def)

lemma OSTaskResume_ok:
  assumes S: "sys s R P W" and n: "OSIntNestingCtr s = 0" and x: "x \<noteq> NULL" "x \<noteq> OSTCBCurPtr s"
    and t: "tcbs s x = Some t" "TCB_TaskState t \<in> {4, 5, 6, 7}"
  shows "\<exists>s' t'. OSTaskResume x s = Some (OS_ERR_NONE, s') \<and> tcbs s' x = Some t' \<and>
    sys s' (if TCB_TaskState t = OS_TASK_STATE_SUSPENDED \<and> TCB_SuspendCtr t = 1 then rdy_insert (OSPrioCur s) (TCB_Prio t) x R else R) P W \<and>
    TCB_TaskState t' = TCB_TaskState (resumed_tcb t) \<and> TCB_SuspendCtr t' = TCB_SuspendCtr (resumed_tcb t) \<and> TCB_Prio t' = TCB_Prio t"
proof -
  have K: "kinv s R P W" using S by (simp add: sys_def)
  let ?s = "s\<lparr>tcbs := (tcbs s)(x \<mapsto> resumed_tcb t)\<rparr>" let ?b = "TCB_TaskState t = OS_TASK_STATE_SUSPENDED \<and> TCB_SuspendCtr t = 1"
  let ?R = "if ?b then rdy_insert (OSPrioCur s) (TCB_Prio t) x R else R"
  have "\<exists>s1 t1. (if ?b then OS_TaskRdy x ?s else Some ?s) = Some s1 \<and> kinv s1 ?R P W \<and> kframe {x} {} s s1 \<and>
    tcbs s1 x = Some t1 \<and> tcb_base t1 = tcb_base (resumed_tcb t)"
  proof (cases ?b)
    case True
    then have "TCB_TaskState (resumed_tcb t) = OS_TASK_STATE_RDY" by (simp add: resumed_tcb_def suspend_dec_def)
    moreover have "\<not> st_tick (TCB_TaskState t)" using True by (simp add: st_tick_def)
    ultimately show ?thesis using kinv_ready [OF K t(1), of "resumed_tcb t"] True kinv_off_wheel [OF K t(1)]
      by (simp add: resumed_tcb_def)
  next
    case False
    have r: "TCB_TaskState (resumed_tcb t) = (if TCB_SuspendCtr t = 1 then TCB_TaskState t AND NOT OS_TASK_STATE_BIT_SUSPENDED else TCB_TaskState t)"
      by (simp add: resumed_tcb_def suspend_dec_def)
    have "kinv ?s R P W"
      by (rule kinv_restate [OF K t(1)]) (use t(2) False in \<open>auto simp: r st_pend_def st_tick_def, simp_all add: resumed_tcb_def\<close>)
    with False t(1) show ?thesis by (auto intro: kframe_tcb_upd)
  qed
  then obtain s1 t1 where s1: "(if ?b then OS_TaskRdy x ?s else Some ?s) = Some s1"
    "kinv s1 ?R P W" "kframe {x} {} s s1" "tcbs s1 x = Some t1" "tcb_base t1 = tcb_base (resumed_tcb t)" by blast
  note e = tcb_base_eqD [OF s1(5)]
  have sc: "TCB_SuspendCtr (tcb_base u) = TCB_SuspendCtr u" for u by (simp add: tcb_base_def tcb_core_def tick_core_def)
  have p1: "TCB_Prio t1 = TCB_Prio t" "TCB_SuspendCtr t1 = TCB_SuspendCtr (resumed_tcb t)"
    using e(1) s1(5) sc by (simp add: resumed_tcb_def, metis)
  have "\<exists>s'. OSSched s1 = Some s' \<and> sys s' ?R P W \<and> sw_frame s1 s' \<and> sched_done s1 ?R s'"
    by (rule sched_tail [OF S s1(2,3) t(1) s1(4) p1(1)]) (use x(2) in blast)
  then obtain s' where s': "OSSched s1 = Some s'" "sys s' ?R P W" "sw_frame s1 s'" by blast
  obtain t' where "tcbs s' x = Some t'" "TCB_TaskState t' = TCB_TaskState t1" "TCB_SuspendCtr t' = TCB_SuspendCtr t1" "TCB_Prio t' = TCB_Prio t1"
    by (rule sw_frame_suspend [OF s'(3) s1(4)])
  moreover have "OSTaskResume x s = Some (OS_ERR_NONE, s')"
    using n x OS_TaskResume_eq [OF t] s1(1) s'(1) by (simp add: OSTaskResume_def)
  ultimately show ?thesis using s'(2) e(2) p1 by (intro exI [of _ s'] exI [of _ t']) simp
qed

subsection \<open>Changing the priority\<close>

text \<open>A task that waits on its own semaphore or queue is in no pend list, and one that waits on an event
  flag group is excluded: its place in the pend list is not corrected.\<close>

definition reprio_pend_ok :: "OS_TCB \<Rightarrow> bool" where
  "reprio_pend_ok t \<longleftrightarrow> (st_pend (TCB_TaskState t) \<longrightarrow>
     TCB_PendOn t \<in> {OS_TASK_PEND_ON_MUTEX, OS_TASK_PEND_ON_MULTI, OS_TASK_PEND_ON_Q, OS_TASK_PEND_ON_SEM} \<or>
     TCB_PendOn t \<in> {OS_TASK_PEND_ON_TASK_Q, OS_TASK_PEND_ON_TASK_SEM} \<and> pend_tbl t = {})"

lemma change_prio_ok:
  assumes K: "kinv s R P W" and t: "tcbs s x = Some t" "TCB_TaskState t \<le> 7" "reprio_pend_ok t" and n: "OSIntNestingCtr s = 0"
    and x: "tcb_self p s = x" and q: "unat prio < OS_CFG_PRIO_MAX - 1"
  shows "\<exists>s1 R' P'. OSTaskChangePrio p prio s = OSSched s1 \<bind> (\<lambda>s. Some (OS_ERR_NONE, s)) \<and> reprioed (p = NULL) s R P W x t prio s1 R' P'"
proof -
  have q32: "unat prio < OS_CFG_PRIO_MAX" using q by simp
  show ?thesis
  proof (cases "st_pend (TCB_TaskState t)")
    case False
    then have np: "TCB_TaskState t \<notin> {OS_TASK_STATE_PEND, OS_TASK_STATE_PEND_TIMEOUT, OS_TASK_STATE_PEND_SUSPENDED, OS_TASK_STATE_PEND_TIMEOUT_SUSPENDED}"
      by (simp add: st_pend_def)
    from task_reprio_ok [OF K t(1,2) q32, of "p = NULL"] obtain s1 R' P' where
      s1: "task_reprio (p = NULL) x prio s = Some (True, s1)" "reprioed (p = NULL) s R P W x t prio s1 R' P'" by blast
    have "OSTaskChangePrio p prio s = OSSched s1 \<bind> (\<lambda>s. Some (OS_ERR_NONE, s))"
      unfolding OSTaskChangePrio_def Let_def x if_not_P [OF np] using n q t(1) s1(1) np by (simp del: insert_iff)
    with s1(2) show ?thesis by blast
  next
    case True
    then have ip: "TCB_TaskState t \<in> {OS_TASK_STATE_PEND, OS_TASK_STATE_PEND_TIMEOUT, OS_TASK_STATE_PEND_SUSPENDED, OS_TASK_STATE_PEND_TIMEOUT_SUSPENDED}"
      by (simp add: st_pend_def)
    have nr: "TCB_TaskState t \<noteq> OS_TASK_STATE_RDY" using True by (auto simp: st_pend_def)
    show ?thesis
    proof (cases "TCB_PendOn t \<in> {OS_TASK_PEND_ON_TASK_Q, OS_TASK_PEND_ON_TASK_SEM} \<and> pend_tbl t = {}")
      case e: True
      let ?s = "s\<lparr>tcbs := (tcbs s)(x \<mapsto> t\<lparr>TCB_Prio := prio\<rparr>)\<rparr>"
      have "reprioed (p = NULL) s R P W x t prio ?s R P"
        using prio_only_ok [OF K t(1) nr _ q32] e nr t(1) unfolding reprioed_def by auto
      moreover have "TCB_PendOn t \<in> {OS_TASK_PEND_ON_TASK_Q, OS_TASK_PEND_ON_TASK_SEM, OS_TASK_PEND_ON_FLAG}" using e by auto
      then have "OSTaskChangePrio p prio s = OSSched ?s \<bind> (\<lambda>s. Some (OS_ERR_NONE, s))"
        using n q t(1) ip x by (simp add: OSTaskChangePrio_def Let_def del: insert_iff)
      ultimately show ?thesis by blast
    next
      case False
      then have m: "TCB_PendOn t \<in> {OS_TASK_PEND_ON_MUTEX, OS_TASK_PEND_ON_MULTI, OS_TASK_PEND_ON_Q, OS_TASK_PEND_ON_SEM}"
        using t(3) True by (auto simp: reprio_pend_ok_def)
      then have m': "TCB_PendOn t \<notin> {OS_TASK_PEND_ON_TASK_Q, OS_TASK_PEND_ON_TASK_SEM, OS_TASK_PEND_ON_FLAG}" by auto
      from pend_reprio_ok [OF K t(1) True q32, of "p = NULL"] obtain s1 P' where
        s1: "OS_PendListChangePrio x prio s = Some s1" "reprioed (p = NULL) s R P W x t prio s1 R P'" by blast
      have "OSTaskChangePrio p prio s = OSSched s1 \<bind> (\<lambda>s. Some (OS_ERR_NONE, s))"
        using n q t(1) ip m m' s1(1) x by (simp add: OSTaskChangePrio_def Let_def del: insert_iff)
      with s1(2) show ?thesis by blast
    qed
  qed
qed

text \<open>The priority of another task.\<close>

lemma OSTaskChangePrio_other:
  assumes S: "sys s R P W" and t: "tcbs s x = Some t" "TCB_TaskState t \<le> 7" "reprio_pend_ok t" and n: "OSIntNestingCtr s = 0"
    and x: "x \<noteq> NULL" "x \<noteq> OSTCBCurPtr s" and q: "unat prio < OS_CFG_PRIO_MAX - 1"
  shows "\<exists>s1 s' R' P'. OSTaskChangePrio x prio s = Some (OS_ERR_NONE, s') \<and> sys s' R' P' W \<and>
    reprioed False s R P W x t prio s1 R' P' \<and> sw_frame s1 s' \<and> sched_done s1 R' s'"
proof -
  have K: "kinv s R P W" and c: "cur_rdy s" using S by (simp_all add: sys_def)
  from c obtain c where c: "tcbs s (OSTCBCurPtr s) = Some c" "TCB_Prio c = OSPrioCur s" "TCB_TaskState c = OS_TASK_STATE_RDY"
    by (auto simp: cur_rdy_def)
  have self: "tcb_self x s = x" "(x = NULL) = False" using x(1) by (simp_all add: tcb_self_def)
  from change_prio_ok [OF K t n self(1) q] obtain s1 R' P' where
    s1: "OSTaskChangePrio x prio s = OSSched s1 \<bind> (\<lambda>s. Some (OS_ERR_NONE, s))" "reprioed False s R P W x t prio s1 R' P'" unfolding self(2) by blast
  note r = reprioedD [OF s1(2)]
  note g = kframe_globals [OF r(2)]
  have "OSTCBCurPtr s \<notin> {x}" using x(2) by simp
  from kframe_tcb(1) [OF r(2) this c(1)] obtain c' where c': "tcbs s1 (OSTCBCurPtr s) = Some c'" "tcb_other c' = tcb_other c" by blast
  have cr: "cur_rdy s1" using c' c(2,3) tcb_other_eqD(1,2) [OF c'(2)] g(11,12) by (simp add: cur_rdy_def)
  have ne: "R' (unat (OSPrioCur s1)) \<noteq> []" using cur_rdy_in [OF r(1) cr] by auto
  from OSSched_sys [OF r(1) cur_rdy_ok [OF cr] ne cr] s1 show ?thesis by fastforce
qed

text \<open>The priority of the running task: where it stays the most urgent one, the scheduler returns
  early and \<^verbatim>\<open>OSPrioCur\<close> keeps the priority the task no longer has.\<close>

lemma sched_stay:
  assumes K: "kinv s R P W" and top: "top_task R = OSTCBCurPtr s" and ne: "R p \<noteq> []" and n: "OSIntNestingCtr s = 0" "OSSchedLockNestingCtr s = 0"
  shows "\<exists>prio. OSSched s = Some (s\<lparr>OSPrioHighRdy := prio, OSTCBHighRdyPtr := OSTCBCurPtr s\<rparr>)"
proof -
  from rq.pick [OF kinvD(2) [OF K] ne] obtain prio rl where "OS_PrioGetHighest s = Some prio"
    "OSRdyList s (unat prio) = Some rl" "RL_HeadPtr rl = top_task R" by (auto simp: rdy_first_def)
  then have "sched_switch s = Some (s\<lparr>OSPrioHighRdy := prio, OSTCBHighRdyPtr := OSTCBCurPtr s\<rparr>)"
    using top by (simp add: sched_switch_def)
  then show ?thesis using OSSched_switch [OF n] by auto
qed

lemma OSTaskChangePrio_self:
  assumes S: "sys s R P W" and n: "OSIntNestingCtr s = 0" "OSSchedLockNestingCtr s = 0" and q: "unat prio < OS_CFG_PRIO_MAX - 1"
  defines "R' \<equiv> rdy_move True (unat (OSPrioCur s)) (unat prio) (OSTCBCurPtr s) R"
  shows "\<exists>s'. OSTaskChangePrio NULL prio s = Some (OS_ERR_NONE, s') \<and> kinv s' R' P W \<and> OSTCBCurPtr s' = top_task R' \<and>
    task_prio s' (OSTCBCurPtr s) = prio \<and> (top_task R' = OSTCBCurPtr s \<longrightarrow> OSPrioCur s' = OSPrioCur s) \<and> (top_task R' \<noteq> OSTCBCurPtr s \<longrightarrow> sys s' R' P W)"
proof -
  let ?c = "OSTCBCurPtr s"
  have K: "kinv s R P W" and c: "cur_rdy s" using S by (simp_all add: sys_def)
  from c obtain c where c: "tcbs s ?c = Some c" "TCB_Prio c = OSPrioCur s" "TCB_TaskState c = OS_TASK_STATE_RDY" by (auto simp: cur_rdy_def)
  have "TCB_TaskState c \<le> 7" "reprio_pend_ok c" "tcb_self NULL s = ?c" using c(3) by (simp_all add: reprio_pend_ok_def st_pend_def tcb_self_def)
  from change_prio_ok [OF K c(1) this(1,2) n(1) this(3) q] obtain s1 R1 P1 where
    s1: "OSTaskChangePrio NULL prio s = OSSched s1 \<bind> (\<lambda>s. Some (OS_ERR_NONE, s))" "reprioed True s R P W ?c c prio s1 R1 P1" by auto
  note r = reprioedD [OF s1(2)]
  have R1: "R1 = R'" using r(4) c(2,3) by (simp add: R'_def)
  have "filter (\<lambda>d. d \<notin> pend_tbl c) (P1 ob) = filter (\<lambda>d. d \<notin> pend_tbl c) (P ob)" for ob using s1(2) unfolding reprioed_def by blast
  moreover have "pend_tbl c = {}" using kinv_not_pend [OF K c(1)] c(3) by (simp add: st_pend_def)
  ultimately have P1: "P1 = P" by (simp add: fun_eq_iff)
  from r(3) obtain c1 where c1: "tcbs s1 ?c = Some c1" "tcb_core c1 = tcb_core (c\<lparr>TCB_Prio := prio\<rparr>)" by blast
  have p1: "task_prio s1 ?c = prio" using c1(1) tcb_core_eqD(1) [OF c1(2)] by simp
  note g = kframe_globals [OF r(2)]
  have n1: "OSIntNestingCtr s1 = 0" "OSSchedLockNestingCtr s1 = 0" "OSTCBCurPtr s1 = ?c" using n g(8,10,12) by simp_all
  have ne: "R' (unat prio) \<noteq> []" by (simp add: R'_def rdy_move_def)
  have K1: "kinv s1 R' P W" using r(1) R1 P1 by simp
  show ?thesis
  proof (cases "top_task R' = ?c")
    case True
    from sched_stay [OF K1 _ ne n1(1,2)] True n1(3) obtain h where h: "OSSched s1 = Some (s1\<lparr>OSPrioHighRdy := h, OSTCBHighRdyPtr := ?c\<rparr>)" by auto
    have "kinv (s1\<lparr>OSPrioHighRdy := h, OSTCBHighRdyPtr := ?c\<rparr>) R' P W" using K1 kinv_cong [of "s1\<lparr>OSPrioHighRdy := h, OSTCBHighRdyPtr := ?c\<rparr>" s1] by simp
    with s1(1) h True n1(3) g(11) p1 show ?thesis by (simp add: task_prio_def)
  next
    case False
    have "?c \<in> dom (tcbs s1)" using c1(1) by blast
    with sched_switch_gen [OF K1 _ _ ne] False n1(3) obtain s' where s': "sched_switch s1 = Some s'" "kinv s' R' P W" "sw_frame s1 s'" "cur_ok s'"
      "OSTCBCurPtr s' = top_task R'" by auto
    have "R' (top_prio R') \<noteq> []" by (rule rq.top_nonempty [where R = R', OF ne])
    then have "OSTCBCurPtr s' \<in> set (R' (top_prio R'))" using s'(5) by (simp add: top_task_def)
    then obtain t where "tcbs s' (OSTCBCurPtr s') = Some t" "TCB_TaskState t = OS_TASK_STATE_RDY" by (rule rdy_task_state [OF s'(2)])
    with s'(4) have "cur_rdy s'" by (auto simp: cur_rdy_def cur_ok_def)
    then show ?thesis using s1(1) s' OSSched_switch [OF n1(1,2)] task_prio_sw [OF s'(3)] p1 False
      by (intro exI [of _ s']) (simp add: sys_def)
  qed
qed

end
