(* ===== verification/OS_TaskLife.thy ===== *)
theory OS_TaskLife
  imports OS_Task
begin

text \<open>
  The life of a task: \<^verbatim>\<open>OSTaskCreate\<close> adds a control block to the ready list and to the debug list,
  \<^verbatim>\<open>OSTaskDel\<close> takes it out of every list of the kernel.
\<close>

subsection \<open>The control block of a task in no list\<close>

lemma krel_tcb_free:
  assumes K: "krel s R P W" and R: "\<And>p. x \<notin> set (R p)" and W: "\<And>i. x \<notin> set (W i)"
    and P: "\<And>ob d e. d \<in> set (P ob) \<Longrightarrow> pds s d = Some e \<Longrightarrow> PD_TCBPtr e \<noteq> x" and t': "TCB_TickSpokePtr t' = None"
  shows "krel (s\<lparr>tcbs := (tcbs s)(x \<mapsto> t')\<rparr>) R P W"
proof -
  let ?s = "s\<lparr>tcbs := (tcbs s)(x \<mapsto> t')\<rparr>"
  have rel: "rdy_rel s R" "pend_rel s P" "tick_rel s W" using K by (simp_all add: krel_def)
  have "rdy_ok ?s p (R p) = rdy_ok s p (R p)" for p
  proof -
    have "linked TCB_NextPtr TCB_PrevPtr (tcbs ?s) a b (R p) = linked TCB_NextPtr TCB_PrevPtr (tcbs s) a b (R p)" for a b
      by (rule linked_cong) (use R in auto)
    moreover have "(\<forall>y \<in> set (R p). \<exists>t. tcbs ?s y = Some t \<and> unat (TCB_Prio t) = p) \<longleftrightarrow> (\<forall>y \<in> set (R p). \<exists>t. tcbs s y = Some t \<and> unat (TCB_Prio t) = p)"
      using R [of p] by (intro ball_cong) auto
    ultimately show ?thesis by (simp add: rdy_ok_def)
  qed
  then have "rdy_rel ?s R" using rel(1) by (simp add: rdy_rel_def rdy_links_def rdy_map_def prio_set_def)
  moreover have "pend_rel ?s P"
  proof -
    have "pend_ok ?s ob xs" if "pend_ok s ob xs" for ob xs using that unfolding pend_ok_def by fastforce
    moreover have "map (pd_prio ?s) (P ob) = map (pd_prio s) (P ob)" for ob
      by (rule map_cong [OF refl]) (use P in \<open>auto simp: pd_prio_def fld_def split: option.split\<close>)
    then have "pend_sorted ?s P = pend_sorted s P" unfolding pend_sorted_def by metis
    ultimately show ?thesis using rel(2) by (simp add: pend_rel_def pend_links_def)
  qed
  moreover have "tick_rel ?s W"
  proof -
    have "linked TCB_TickNextPtr TCB_TickPrevPtr (tcbs ?s) a b (W i) = linked TCB_TickNextPtr TCB_TickPrevPtr (tcbs s) a b (W i)" for a b i
      by (rule linked_cong) (use W in auto)
    then have "tick_ok ?s i (W i) = tick_ok s i (W i)" for i by (simp add: tick_ok_def)
    moreover have "y \<in> set (W i) \<longleftrightarrow> on_spoke ?s i y" for i y
      using rel(3) W [of i] t' unfolding tick_rel_def tick_links_def on_spoke_def by (cases "y = x") auto
    ultimately have "tick_links ?s W" using rel(3) by (simp add: tick_rel_def tick_links_def)
    moreover have r: "tick_remain ?s y = tick_remain s y" "fld TCB_TickCtrMatch (tcbs ?s) y = fld TCB_TickCtrMatch (tcbs s) y" if "y \<in> set (W i)" for y i
      using W [of i] that by (auto simp: tick_remain_def fld_def)
    have "tick_order ?s W" using rel(3) r unfolding tick_rel_def tick_order_def by (auto cong: map_cong)
    ultimately show ?thesis by (simp add: tick_rel_def)
  qed
  ultimately show ?thesis by (simp add: krel_def)
qed

text \<open>Memory for a control block that the kernel does not know yet behaves like a deleted task.\<close>

lemma kinv_fresh:
  assumes K: "kinv (s\<lparr>tcbs := (tcbs s)(x := None)\<rparr>) R P W" and x: "x \<noteq> NULL" "x \<in> dom (tcbs s)" "card (dom (tcbs s)) \<le> 65535"
    and t: "TCB_TaskState t = OS_TASK_STATE_DEL" "TCB_TickSpokePtr t = None" "pend_tbl t = {}"
  shows "kinv (s\<lparr>tcbs := (tcbs s)(x \<mapsto> t)\<rparr>) R P W" "\<And>p. x \<notin> set (R p)" "\<And>i. x \<notin> set (W i)"
proof -
  let ?r = "s\<lparr>tcbs := (tcbs s)(x := None)\<rparr>" let ?s = "s\<lparr>tcbs := (tcbs s)(x \<mapsto> t)\<rparr>"
  note k = kinvD [OF K]
  show R: "x \<notin> set (R p)" for p using rdy_rel_list(2) [OF k(2), of p] by auto
  show W: "x \<notin> set (W i)" for i using tick_rel_list(2) [OF k(4), of i] by auto
  have own: "PD_TCBPtr e \<noteq> x" if "d \<in> set (P ob)" "pds ?r d = Some e" for ob d e
    using k(5) that unfolding pend_owned_def by fastforce
  have "krel (?r\<lparr>tcbs := (tcbs ?r)(x \<mapsto> t)\<rparr>) R P W" by (rule krel_tcb_free [OF k(1) R W own t(2)])
  then have kr: "krel ?s R P W" by simp
  have ok: "task_ok ?s R P y u" if "tcbs ?s y = Some u" for y u
  proof (cases "y = x")
    case True
    with that x(1) t R show ?thesis by (auto simp: task_ok_def st_pend_def st_tick_def)
  next
    case False
    with that k(7) [of y u] show ?thesis by (auto simp: task_ok_def pend_tbl_ok_def split: if_splits)
  qed
  have "pend_owned ?s P" using k(5) own unfolding pend_owned_def by fastforce
  moreover have "dom (tcbs ?r) = dom (tcbs s) - {x}" by auto
  then have "finite (dom (tcbs s))" using k(6) by (simp add: mem_bound_def)
  then have "mem_bound ?s" using k(6) x(2,3) by (simp add: mem_bound_def insert_absorb)
  ultimately show "kinv ?s R P W" using kr ok by (simp add: kinv_def)
qed

subsection \<open>The debug list of the tasks\<close>

definition task_dbg_rel :: "os \<Rightarrow> ptr list \<Rightarrow> bool" where
  "task_dbg_rel s xs \<longleftrightarrow> linked TCB_DbgNextPtr TCB_DbgPrevPtr (tcbs s) (OSTaskDbgListPtr s) (last0 NULL xs) xs"

definition tcb_less_dbg :: "OS_TCB \<Rightarrow> OS_TCB" where
  "tcb_less_dbg t = t\<lparr>TCB_DbgNextPtr := NULL, TCB_DbgPrevPtr := NULL\<rparr>"

definition same_tcbs :: "(ptr \<rightharpoonup> OS_TCB) \<Rightarrow> (ptr \<rightharpoonup> OS_TCB) \<Rightarrow> bool" where
  "same_tcbs h h' \<longleftrightarrow> (\<forall>x. map_option tcb_less_dbg (h' x) = map_option tcb_less_dbg (h x))"

lemma tcb_less_dbg_eqD:
  assumes "tcb_less_dbg t' = tcb_less_dbg t"
  shows "tcb_key t' = tcb_key t" "TCB_Prio t' = TCB_Prio t" "TCB_TaskState t' = TCB_TaskState t"
proof -
  have "tcb_key (tcb_less_dbg u) = tcb_key u" "TCB_Prio (tcb_less_dbg u) = TCB_Prio u" "TCB_TaskState (tcb_less_dbg u) = TCB_TaskState u" for u
    by (simp_all add: tcb_less_dbg_def tcb_key_def rdy_view_def tick_view_def)
  with assms show "tcb_key t' = tcb_key t" "TCB_Prio t' = TCB_Prio t" "TCB_TaskState t' = TCB_TaskState t" by metis+
qed

lemma same_tcbsD: "same_tcbs h h' \<Longrightarrow> h x = Some t \<Longrightarrow> \<exists>t'. h' x = Some t' \<and> tcb_less_dbg t' = tcb_less_dbg t"
  unfolding same_tcbs_def by (drule spec [of _ x]) (auto simp: map_option_Some_iff)

lemma same_tcbs_kinv:
  assumes "same_tcbs (tcbs s) h"
  shows "kinv (s\<lparr>tcbs := h, OSTaskDbgListPtr := p, OSTaskQty := n\<rparr>) R P W = kinv s R P W"
proof (rule kinv_cong)
  fix x
  show "map_option tcb_key (tcbs (s\<lparr>tcbs := h, OSTaskDbgListPtr := p, OSTaskQty := n\<rparr>) x) = map_option tcb_key (tcbs s x)"
    using assms by (simp add: same_tcbs_def) (rule map_option_eq_via, blast, erule tcb_less_dbg_eqD)
qed simp_all

lemma OS_TaskDbgListAdd_ok:
  assumes D: "task_dbg_rel s xs" and t: "tcbs s p = Some t" "p \<noteq> NULL" "p \<notin> set xs"
  shows "\<exists>h. OS_TaskDbgListAdd p s = Some (s\<lparr>tcbs := h, OSTaskDbgListPtr := p\<rparr>) \<and>
    task_dbg_rel (s\<lparr>tcbs := h, OSTaskDbgListPtr := p\<rparr>) (p # xs) \<and> same_tcbs (tcbs s) h"
proof -
  have L: "linked TCB_DbgNextPtr TCB_DbgPrevPtr (tcbs s) (OSTaskDbgListPtr s) (last0 NULL xs) ([] @ xs)" using D by (simp add: task_dbg_rel_def)
  show ?thesis
  proof (cases xs)
    case Nil
    then have "OSTaskDbgListPtr s = NULL" using L by simp
    moreover let ?h = "(tcbs s)(p \<mapsto> t\<lparr>TCB_DbgPrevPtr := NULL, TCB_DbgNextPtr := NULL\<rparr>)"
    have "linked TCB_DbgNextPtr TCB_DbgPrevPtr ?h p (last0 p xs) ([] @ p # xs)"
      by (rule linked_insert [OF L]) (use t Nil in \<open>auto simp: fld_def\<close>)
    moreover have "same_tcbs (tcbs s) ?h" using t(1) by (simp add: same_tcbs_def tcb_less_dbg_def)
    ultimately show ?thesis using t(1) Nil by (intro exI [of _ ?h]) (simp add: OS_TaskDbgListAdd_def task_dbg_rel_def)
  next
    case (Cons y ys)
    obtain u where u: "tcbs s y = Some u" using linkedD(3) [OF L] Cons by auto
    have y: "OSTaskDbgListPtr s = y" using linkedD(4) [OF L] Cons by simp
    have n: "y \<noteq> p" "y \<noteq> NULL" using t(3) Cons linkedD(2) [OF L] by auto
    let ?h = "(tcbs s)(p \<mapsto> t\<lparr>TCB_DbgPrevPtr := NULL, TCB_DbgNextPtr := y\<rparr>, y \<mapsto> u\<lparr>TCB_DbgPrevPtr := p\<rparr>)"
    have "linked TCB_DbgNextPtr TCB_DbgPrevPtr ?h p (last0 p xs) ([] @ p # xs)"
      by (rule linked_insert [OF L]) (use t n u Cons in \<open>auto simp: fld_def\<close>)
    moreover have "same_tcbs (tcbs s) ?h" using t(1) u n by (auto simp: same_tcbs_def tcb_less_dbg_def)
    ultimately show ?thesis using t(1) y n u Cons by (intro exI [of _ ?h]) (simp add: OS_TaskDbgListAdd_def task_dbg_rel_def)
  qed
qed

lemma OS_TaskDbgListRemove_ok:
  assumes D: "task_dbg_rel s (xs @ p # ys)"
  shows "\<exists>h q. OS_TaskDbgListRemove p s = Some (s\<lparr>tcbs := h, OSTaskDbgListPtr := q\<rparr>) \<and> same_tcbs (tcbs s) h \<and>
    task_dbg_rel (s\<lparr>tcbs := h, OSTaskDbgListPtr := q\<rparr>) (xs @ ys)"
proof -
  have L: "linked TCB_DbgNextPtr TCB_DbgPrevPtr (tcbs s) (OSTaskDbgListPtr s) (last0 NULL (xs @ p # ys)) (xs @ p # ys)"
    using D by (simp add: task_dbg_rel_def)
  note d = linkedD [OF L]
  from linked_node [OF L] obtain b where b: "tcbs s p = Some b" "TCB_DbgNextPtr b = hd0 NULL ys" "TCB_DbgPrevPtr b = last0 NULL xs"
    "p \<notin> set xs" "p \<notin> set ys" by metis
  have at: "\<exists>c. tcbs s y = Some c" if "y \<in> set (xs @ ys)" for y using d(3) that by auto
  have nz: "0 < y" if "y \<in> set (xs @ ys)" for y using d(2) that by (metis Un_iff gr0I set_append list.set_intros(2))
  have x: "last0 NULL xs \<in> set xs \<and> 0 < last0 NULL xs \<and> last0 NULL xs \<noteq> p \<and> OSTaskDbgListPtr s = hd0 NULL xs" if "xs \<noteq> []"
    using that last0_in [OF that] nz b(4) d(4) hd0_nonempty [OF that] by (metis Un_iff hd0_append set_append)
  have y: "hd0 NULL ys \<in> set ys \<and> 0 < hd0 NULL ys \<and> hd0 NULL ys \<noteq> p" if "ys \<noteq> []"
    using that hd0_in [OF that] nz b(5) by (metis Un_iff set_append)
  have xy: "last0 NULL xs \<noteq> hd0 NULL ys" if "xs \<noteq> []" "ys \<noteq> []" using x [OF that(1)] y [OF that(2)] d(1) by auto
  have R: "task_dbg_rel (s\<lparr>tcbs := h', OSTaskDbgListPtr := hd0 (hd0 NULL ys) xs\<rparr>) (xs @ ys)"
    if "dom (tcbs s) \<subseteq> dom h'"
      "\<And>y. y \<in> set (xs @ ys) \<Longrightarrow> fld TCB_DbgNextPtr h' y = (if xs \<noteq> [] \<and> y = last0 NULL xs then hd0 NULL ys else fld TCB_DbgNextPtr (tcbs s) y)"
      "\<And>y. y \<in> set (xs @ ys) \<Longrightarrow> fld TCB_DbgPrevPtr h' y = (if ys \<noteq> [] \<and> y = hd0 NULL ys then last0 NULL xs else fld TCB_DbgPrevPtr (tcbs s) y)" for h' :: "ptr \<rightharpoonup> OS_TCB"
    using linked_remove [OF L that] by (simp add: task_dbg_rel_def)
  consider (a) "xs = []" "ys = []" | (b) "xs = []" "ys \<noteq> []" | (c) "xs \<noteq> []" "ys = []" | (d) "xs \<noteq> []" "ys \<noteq> []" by blast
  then show ?thesis
  proof cases
    case a
    let ?h = "(tcbs s)(p \<mapsto> b\<lparr>TCB_DbgNextPtr := NULL\<rparr>)"
    have "task_dbg_rel (s\<lparr>tcbs := ?h, OSTaskDbgListPtr := hd0 (hd0 NULL ys) xs\<rparr>) (xs @ ys)" by (rule R) (use a b in auto)
    then show ?thesis using a b by (intro exI [of _ ?h] exI [of _ NULL]) (simp add: Let_def OS_TaskDbgListRemove_def same_tcbs_def tcb_less_dbg_def)
  next
    case b
    let ?y = "hd0 NULL ys"
    from at [of ?y] y [OF b(2)] obtain c where c: "tcbs s ?y = Some c" by auto
    let ?h = "(tcbs s)(?y \<mapsto> c\<lparr>TCB_DbgPrevPtr := NULL\<rparr>, p \<mapsto> b\<lparr>TCB_DbgNextPtr := NULL\<rparr>)"
    have "task_dbg_rel (s\<lparr>tcbs := ?h, OSTaskDbgListPtr := hd0 (hd0 NULL ys) xs\<rparr>) (xs @ ys)"
      by (rule R) (use b y [OF b(2)] c \<open>p \<notin> set ys\<close> \<open>tcbs s p = Some b\<close> in \<open>auto simp: fld_def\<close>)
    then show ?thesis using \<open>tcbs s p = Some b\<close> \<open>TCB_DbgNextPtr b = _\<close> \<open>TCB_DbgPrevPtr b = _\<close> b y [OF b(2)] c
      by (intro exI [of _ ?h] exI [of _ ?y]) (simp add: Let_def OS_TaskDbgListRemove_def same_tcbs_def tcb_less_dbg_def)
  next
    case c
    let ?x = "last0 NULL xs"
    have hx: "OSTaskDbgListPtr s = hd0 (hd0 NULL ys) xs" using x [OF c(1)] c(2) by simp
    from at [of ?x] x [OF c(1)] obtain e where e: "tcbs s ?x = Some e" by auto
    let ?h = "(tcbs s)(?x \<mapsto> e\<lparr>TCB_DbgNextPtr := NULL\<rparr>, p \<mapsto> b\<lparr>TCB_DbgPrevPtr := NULL\<rparr>)"
    have "task_dbg_rel (s\<lparr>tcbs := ?h, OSTaskDbgListPtr := hd0 (hd0 NULL ys) xs\<rparr>) (xs @ ys)"
      by (rule R) (use c x [OF c(1)] e \<open>p \<notin> set xs\<close> \<open>tcbs s p = Some b\<close> in \<open>auto simp: fld_def\<close>)
    then show ?thesis using \<open>tcbs s p = Some b\<close> \<open>TCB_DbgNextPtr b = _\<close> \<open>TCB_DbgPrevPtr b = _\<close> c x [OF c(1)] e hx
      by (intro exI [of _ ?h] exI [of _ "OSTaskDbgListPtr s"]) (simp add: Let_def OS_TaskDbgListRemove_def same_tcbs_def tcb_less_dbg_def)
  next
    case d
    let ?x = "last0 NULL xs" let ?y = "hd0 NULL ys"
    have hx: "OSTaskDbgListPtr s = hd0 ?y xs" using x [OF d(1)] hd0_nonempty [OF d(1)] by simp
    from at [of ?x] x [OF d(1)] obtain e where e: "tcbs s ?x = Some e" by auto
    from at [of ?y] y [OF d(2)] obtain c where c: "tcbs s ?y = Some c" by auto
    let ?h = "(tcbs s)(?x \<mapsto> e\<lparr>TCB_DbgNextPtr := ?y\<rparr>, ?y \<mapsto> c\<lparr>TCB_DbgPrevPtr := ?x\<rparr>, p \<mapsto> b\<lparr>TCB_DbgNextPtr := NULL, TCB_DbgPrevPtr := NULL\<rparr>)"
    note f = x [OF d(1)] y [OF d(2)] xy [OF d]
    have "task_dbg_rel (s\<lparr>tcbs := ?h, OSTaskDbgListPtr := hd0 ?y xs\<rparr>) (xs @ ys)"
      by (rule R) (use d f c e \<open>p \<notin> set xs\<close> \<open>p \<notin> set ys\<close> \<open>tcbs s p = Some b\<close> in \<open>auto simp: fld_def\<close>)
    then show ?thesis using \<open>tcbs s p = Some b\<close> \<open>TCB_DbgNextPtr b = _\<close> \<open>TCB_DbgPrevPtr b = _\<close> d f c e hx
      by (intro exI [of _ ?h] exI [of _ "OSTaskDbgListPtr s"]) (simp add: Let_def OS_TaskDbgListRemove_def same_tcbs_def tcb_less_dbg_def)
  qed
qed

lemma task_dbg_cong:
  assumes "\<And>x. map_option f (tcbs s' x) = map_option f (tcbs s x)" "\<And>t. TCB_DbgNextPtr (f t) = TCB_DbgNextPtr t" "\<And>t. TCB_DbgPrevPtr (f t) = TCB_DbgPrevPtr t"
    and "OSTaskDbgListPtr s' = OSTaskDbgListPtr s"
  shows "task_dbg_rel s' xs = task_dbg_rel s xs"
proof -
  have v: "map_option TCB_DbgNextPtr (tcbs s' x) = map_option TCB_DbgNextPtr (tcbs s x)" "map_option TCB_DbgPrevPtr (tcbs s' x) = map_option TCB_DbgPrevPtr (tcbs s x)" for x
    by (rule map_option_eq_via [OF assms(1)], metis assms(2,3))+
  have "linked TCB_DbgNextPtr TCB_DbgPrevPtr (tcbs s') a b xs = linked TCB_DbgNextPtr TCB_DbgPrevPtr (tcbs s) a b xs" for a b
    by (rule linked_cong) (rule v)+
  then show ?thesis by (simp add: task_dbg_rel_def assms(4))
qed

lemma rdy_frame_dbg: "rdy_frame s s' \<Longrightarrow> task_dbg_rel s' xs = task_dbg_rel s xs"
proof -
  assume F: "rdy_frame s s'"
  have e: "os_less_rdy s' = os_less_rdy s" using F by (simp add: rdy_frame_def)
  have "OSTaskDbgListPtr s' = OSTaskDbgListPtr s" using arg_cong [OF e, of OSTaskDbgListPtr] by (simp add: os_less_rdy_def)
  with F show ?thesis by (intro task_dbg_cong [where f = tcb_core]) (simp_all add: rdy_frame_def tcb_core_def)
qed

lemma rdy_frame_globals:
  assumes "rdy_frame s s'"
  shows "OSTCBCurPtr s' = OSTCBCurPtr s" "OSPrioCur s' = OSPrioCur s" "OSRunning s' = OSRunning s" "OSTaskQty s' = OSTaskQty s"
    "OSIntNestingCtr s' = OSIntNestingCtr s" "OSSchedLockNestingCtr s' = OSSchedLockNestingCtr s"
proof -
  have e: "os_less_rdy s' = os_less_rdy s" using assms by (simp add: rdy_frame_def)
  show "OSTCBCurPtr s' = OSTCBCurPtr s" using arg_cong [OF e, of OSTCBCurPtr] by (simp add: os_less_rdy_def)
  show "OSPrioCur s' = OSPrioCur s" using arg_cong [OF e, of OSPrioCur] by (simp add: os_less_rdy_def)
  show "OSIntNestingCtr s' = OSIntNestingCtr s" using arg_cong [OF e, of OSIntNestingCtr] by (simp add: os_less_rdy_def)
  show "OSSchedLockNestingCtr s' = OSSchedLockNestingCtr s" using arg_cong [OF e, of OSSchedLockNestingCtr] by (simp add: os_less_rdy_def)
  show "OSRunning s' = OSRunning s" using arg_cong [OF e, of OSRunning] by (simp add: os_less_rdy_def)
  show "OSTaskQty s' = OSTaskQty s" using arg_cong [OF e, of OSTaskQty] by (simp add: os_less_rdy_def)
qed

lemma sw_frame_dbg: "sw_frame s s' \<Longrightarrow> task_dbg_rel s' xs = task_dbg_rel s xs"
proof -
  assume F: "sw_frame s s'"
  have e: "os_less_sw s' = os_less_sw s" using F by (simp add: sw_frame_def)
  have "OSTaskDbgListPtr s' = OSTaskDbgListPtr s" using arg_cong [OF e, of OSTaskDbgListPtr] by (simp add: os_less_sw_def)
  with F show ?thesis by (intro task_dbg_cong [where f = tcb_stat]) (simp_all add: sw_frame_def tcb_stat_def)
qed

subsection \<open>Creation\<close>

text \<open>The control block of a task after \<^verbatim>\<open>OSTaskCreate\<close> has filled it in.\<close>

definition created_tcb :: "string \<Rightarrow> ptr \<Rightarrow> ptr \<Rightarrow> OS_PRIO \<Rightarrow> ptr \<Rightarrow> CPU_STK_SIZE \<Rightarrow> CPU_STK_SIZE \<Rightarrow> OS_MSG_QTY \<Rightarrow> OS_TICK \<Rightarrow> OS_TICK \<Rightarrow> ptr \<Rightarrow> OS_OPT \<Rightarrow> CPU_TS \<Rightarrow> OS_TCB \<Rightarrow> OS_TCB" where
  "created_tcb p_name p_task p_arg prio p_stk_base stk_limit stk_size q_size time_quanta dflt p_ext opt ts t =
     (init_tcb ts t)\<lparr>TCB_TaskEntryAddr := p_task, TCB_TaskEntryArg := p_arg, TCB_NamePtr := p_name, TCB_Prio := prio,
       TCB_StkPtr := p_stk_base, TCB_StkLimitPtr := p_stk_base + unat stk_limit, TCB_TimeQuanta := time_quanta,
       TCB_TimeQuantaCtr := if time_quanta = 0 then dflt else time_quanta, TCB_ExtPtr := p_ext, TCB_StkBasePtr := p_stk_base,
       TCB_StkSize := stk_size, TCB_Opt := opt, TCB_RegTbl := replicate (unat OS_CFG_TASK_REG_TBL_SIZE) 0, TCB_MsgQ := OS_MsgQInit q_size\<rparr>"

text \<open>A new control block enters the ready list behind the tasks of its priority.\<close>

lemma create_rdy_ok:
  assumes K: "kinv (s\<lparr>tcbs := (tcbs s)(x := None)\<rparr>) R P W" and x: "x \<noteq> NULL" "x \<in> dom (tcbs s)" "card (dom (tcbs s)) \<le> 65535"
    and t: "TCB_TaskState t = OS_TASK_STATE_RDY" "TCB_TickSpokePtr t = None" "pend_tbl t = {}" "unat (TCB_Prio t) < OS_CFG_PRIO_MAX"
  defines "R' \<equiv> R(unat (TCB_Prio t) := R (unat (TCB_Prio t)) @ [x])"
  shows "\<exists>s2 s3 t'. OS_PrioInsert (TCB_Prio t) (s\<lparr>tcbs := (tcbs s)(x \<mapsto> t)\<rparr>) = Some s2 \<and> OS_RdyListInsertTail x s2 = Some s3 \<and> kinv s3 R' P W \<and>
    rdy_frame (s\<lparr>tcbs := (tcbs s)(x \<mapsto> t)\<rparr>) s3 \<and> tcbs s3 x = Some t' \<and> tcb_core t' = tcb_core t"
proof -
  let ?p = "unat (TCB_Prio t)" let ?dead = "t\<lparr>TCB_TaskState := OS_TASK_STATE_DEL\<rparr>"
  let ?sd = "s\<lparr>tcbs := (tcbs s)(x \<mapsto> ?dead)\<rparr>" let ?s = "s\<lparr>tcbs := (tcbs s)(x \<mapsto> t)\<rparr>"
  have "pend_tbl ?dead = {}" using t(3) by (simp add: pend_tbl_def)
  note f = kinv_fresh [OF K x _ _ this, simplified, OF t(2)]
  note k = kinvD [OF f(1)]
  have td: "tcbs ?sd x = Some ?dead" by simp
  have own: "PD_TCBPtr e \<noteq> x" if "d \<in> set (P ob)" "pds ?sd d = Some e" for ob d e
    using kinv_own [OF f(1) td that] \<open>pend_tbl ?dead = {}\<close> by blast
  have "krel (?sd\<lparr>tcbs := (tcbs ?sd)(x \<mapsto> t)\<rparr>) R P W" by (rule krel_tcb_free [OF k(1) f(2,3) own t(2)])
  then have kr: "rdy_rel ?s R" "pend_rel ?s P" "tick_rel ?s W" by (simp_all add: krel_def)
  have len: "length (R ?p) < 65535" using kinv_room(1) [OF f(1) _ f(2)] by auto
  have tx: "tcbs ?s x = Some t" by simp
  from prio_rdy_insert_ok [OF kr(1) tx t(4) x(1) f(2) len, of False] obtain s2 s3 where
    s3: "OS_PrioInsert (TCB_Prio t) ?s = Some s2" "OS_RdyListInsertTail x s2 = Some s3" "rdy_rel s3 R'" "rdy_frame ?s s3" by (auto simp: R'_def)
  obtain t' where t': "tcbs s3 x = Some t'" "tcb_core t' = tcb_core t" by (rule rdy_frame_tcb [OF s3(4) tx])
  note e = tcb_core_eqD [OF t'(2)]
  have kr3: "krel s3 R' P W" using s3(3) rdy_frame_others [OF s3(4)] kr(2,3) by (simp add: krel_def)
  have "kframe {x} {} ?sd (?sd\<lparr>tcbs := (tcbs ?sd)(x \<mapsto> t)\<rparr>)" by (rule kframe_tcb_upd [OF td]) simp
  then have F: "kframe {x} {} ?sd s3" using kframe_trans [OF _ rdy_frame_kframe [OF s3(4)]] by simp
  have "TCB_TickSpokePtr (tcb_core u) = TCB_TickSpokePtr u" for u by (simp add: tcb_core_def)
  then have sp: "TCB_TickSpokePtr t' = None" using t'(2) t(2) by metis
  have "task_ok s3 R' P x t'" using x(1) e t sp by (simp add: task_ok_def st_pend_def st_tick_def pend_tbl_def R'_def)
  then have "kinv s3 R' P W"
    by (intro kinv_task [OF f(1) td _ kr3 F _ _ _ _ t'(1)]) (use \<open>pend_tbl ?dead = {}\<close> in \<open>auto simp: R'_def\<close>)
  with s3 t' show ?thesis by blast
qed

text \<open>Creating a task up to the call of the scheduler.\<close>

lemma task_create_ok:
  assumes K0: "kinv (s\<lparr>tcbs := (tcbs s)(x := None)\<rparr>) R P W" and x: "x \<noteq> NULL" "tcbs s x = Some t0" "card (dom (tcbs s)) \<le> 65535"
    and D: "task_dbg_rel (s\<lparr>tcbs := (tcbs s)(x := None)\<rparr>) xs"
    and n: "OSIntNestingCtr s = 0" and a: "p_task \<noteq> NULL" "p_stk_base \<noteq> NULL" "stk_size \<ge> OSCfg_StkSizeMin" "stk_limit < stk_size"
      "unat prio < OS_CFG_PRIO_MAX" "unat prio = OS_CFG_PRIO_MAX - 1 \<Longrightarrow> x = OSIdleTaskTCB s"
    and t_def: "t = created_tcb p_name p_task p_arg prio p_stk_base stk_limit stk_size q_size time_quanta (OSSchedRoundRobinDfltTimeQuanta s) p_ext opt (fst (OS_TS_GET s)) t0"
    and R'_def: "R' = R(unat prio := R (unat prio) @ [x])"
  shows "\<exists>s3 h t' s1. OSTaskCreate x p_name p_task p_arg prio p_stk_base stk_limit stk_size q_size time_quanta p_ext opt s =
      (if OSRunning s \<noteq> OS_STATE_OS_RUNNING then Some (OS_ERR_NONE, s1) else OSSched s1 \<bind> (\<lambda>s. Some (OS_ERR_NONE, s))) \<and>
    rdy_frame ((snd (OS_TS_GET s))\<lparr>tcbs := (tcbs s)(x \<mapsto> t)\<rparr>) s3 \<and> same_tcbs (tcbs s3) h \<and>
    s1 = s3\<lparr>tcbs := h, OSTaskDbgListPtr := x, OSTaskQty := OSTaskQty s + 1\<rparr> \<and>
    kinv s1 R' P W \<and> task_dbg_rel s1 (x # xs) \<and> tcbs s1 x = Some t' \<and> tcb_less_dbg (tcb_core t') = tcb_less_dbg (tcb_core t)"
proof -
  let ?s = "snd (OS_TS_GET s)"
  have s0: "tcbs ?s = tcbs s" "OSTaskDbgListPtr ?s = OSTaskDbgListPtr s" "OSSchedRoundRobinDfltTimeQuanta ?s = OSSchedRoundRobinDfltTimeQuanta s"
    "OSIntNestingCtr ?s = 0" "OSTCBCurPtr ?s = OSTCBCurPtr s" "OSRunning ?s = OSRunning s" "OSTaskQty ?s = OSTaskQty s"
    "OSSchedLockNestingCtr ?s = OSSchedLockNestingCtr s" using n by (simp_all add: OS_TS_GET_def)
  have K: "kinv (?s\<lparr>tcbs := (tcbs ?s)(x := None)\<rparr>) R P W" using K0 kinv_cong [of "?s\<lparr>tcbs := (tcbs ?s)(x := None)\<rparr>" "s\<lparr>tcbs := (tcbs s)(x := None)\<rparr>" R P W]
    by (simp add: OS_TS_GET_def)
  have t: "TCB_TaskState t = OS_TASK_STATE_RDY" "TCB_TickSpokePtr t = None" "pend_tbl t = {}" "TCB_Prio t = prio"
    by (simp_all add: t_def created_tcb_def init_tcb_def pend_tbl_def)
  have p: "unat (TCB_Prio t) < OS_CFG_PRIO_MAX" using a(5) t(4) by simp
  let ?s1 = "?s\<lparr>tcbs := (tcbs ?s)(x \<mapsto> t)\<rparr>"
  from create_rdy_ok [OF K x(1) _ _ t(1-3) p, unfolded t(4), folded R'_def] x(2,3) s0(1) obtain s2 s3 t3 where
    s3: "OS_PrioInsert prio ?s1 = Some s2" "OS_RdyListInsertTail x s2 = Some s3" "kinv s3 R' P W" "rdy_frame ?s1 s3" "tcbs s3 x = Some t3" "tcb_core t3 = tcb_core t"
    by auto
  have xs: "x \<notin> set xs" using linkedD(3) D unfolding task_dbg_rel_def by fastforce
  have "linked TCB_DbgNextPtr TCB_DbgPrevPtr (tcbs ?s1) u v xs = linked TCB_DbgNextPtr TCB_DbgPrevPtr (tcbs (s\<lparr>tcbs := (tcbs s)(x := None)\<rparr>)) u v xs" for u v
    by (rule linked_cong) (use xs s0(1) in auto)
  then have "task_dbg_rel ?s1 xs" using D s0(2) by (simp add: task_dbg_rel_def)
  then have "task_dbg_rel s3 xs" using rdy_frame_dbg [OF s3(4)] by simp
  from OS_TaskDbgListAdd_ok [OF this s3(5) x(1) xs] obtain h where
    h: "OS_TaskDbgListAdd x s3 = Some (s3\<lparr>tcbs := h, OSTaskDbgListPtr := x\<rparr>)" "task_dbg_rel (s3\<lparr>tcbs := h, OSTaskDbgListPtr := x\<rparr>) (x # xs)"
      "same_tcbs (tcbs s3) h" by blast
  let ?s4 = "s3\<lparr>tcbs := h, OSTaskDbgListPtr := x, OSTaskQty := OSTaskQty s + 1\<rparr>"
  have K4: "kinv ?s4 R' P W" using same_tcbs_kinv [OF h(3)] s3(3) by simp
  note g = rdy_frame_globals [OF s3(4), simplified, unfolded s0]
  from same_tcbsD [OF h(3) s3(5)] obtain t4 where t4: "h x = Some t4" "tcb_less_dbg t4 = tcb_less_dbg t3" by blast
  have "tcb_less_dbg (tcb_core u) = tcb_core (tcb_less_dbg u)" for u by (simp add: tcb_less_dbg_def tcb_core_def)
  then have te: "tcb_less_dbg (tcb_core t4) = tcb_less_dbg (tcb_core t)" using t4(2) s3(6) by metis
  have "OS_TaskInitTCB x s = Some (?s\<lparr>tcbs := (tcbs s)(x \<mapsto> init_tcb (fst (OS_TS_GET s)) t0)\<rparr>)"
    using x(2) s0(1) by (simp add: OS_TaskInitTCB_def case_prod_unfold Let_def)
  moreover have "(unat prio = OS_CFG_PRIO_MAX - 1 \<and> x \<noteq> OSIdleTaskTCB s) = False" "\<not> unat prio \<ge> OS_CFG_PRIO_MAX" using a(5,6) by auto
  ultimately have run: "OSTaskCreate x p_name p_task p_arg prio p_stk_base stk_limit stk_size q_size time_quanta p_ext opt s =
      (if OSRunning s \<noteq> OS_STATE_OS_RUNNING then Some (OS_ERR_NONE, ?s4) else OSSched ?s4 \<bind> (\<lambda>s. Some (OS_ERR_NONE, s)))"
    unfolding OSTaskCreate_def using n a(1-4) x(1) s3(1,2) h(1) s0 g(3,4) by (simp del: de_Morgan_conj add: t_def created_tcb_def not_less [symmetric] Let_def cong: if_cong split del: if_split)
  have "task_dbg_rel ?s4 (x # xs)" using h(2) by (simp add: task_dbg_rel_def)
  with run K4 s3(4) h(3) te t4(1) show ?thesis unfolding s0(1) by (intro exI [of _ s3] exI [of _ h] exI [of _ t4] exI [of _ ?s4]) simp
qed

lemma OSTaskCreate_ok:
  assumes S: "sys (s\<lparr>tcbs := (tcbs s)(x := None)\<rparr>) R P W" and x: "x \<noteq> NULL" "tcbs s x = Some t0" "card (dom (tcbs s)) \<le> 65535"
    and D: "task_dbg_rel (s\<lparr>tcbs := (tcbs s)(x := None)\<rparr>) xs"
    and n: "OSIntNestingCtr s = 0" "OSRunning s = OS_STATE_OS_RUNNING" and a: "p_task \<noteq> NULL" "p_stk_base \<noteq> NULL" "stk_size \<ge> OSCfg_StkSizeMin" "stk_limit < stk_size"
      "unat prio < OS_CFG_PRIO_MAX - 1"
    and t_def: "t = created_tcb p_name p_task p_arg prio p_stk_base stk_limit stk_size q_size time_quanta (OSSchedRoundRobinDfltTimeQuanta s) p_ext opt (fst (OS_TS_GET s)) t0"
    and R'_def: "R' = R(unat prio := R (unat prio) @ [x])"
  shows "\<exists>s1 s' t'. OSTaskCreate x p_name p_task p_arg prio p_stk_base stk_limit stk_size q_size time_quanta p_ext opt s = Some (OS_ERR_NONE, s') \<and>
    sys s' R' P W \<and> task_dbg_rel s' (x # xs) \<and> tcbs s1 x = Some t' \<and> tcb_less_dbg (tcb_core t') = tcb_less_dbg (tcb_core t) \<and>
    OSTaskQty s1 = OSTaskQty s + 1 \<and> OSIntNestingCtr s1 = 0 \<and> OSSchedLockNestingCtr s1 = OSSchedLockNestingCtr s \<and> sw_frame s1 s' \<and> sched_done s1 R' s'"
proof -
  let ?s = "snd (OS_TS_GET s)"
  have "kinv (s\<lparr>tcbs := (tcbs s)(x := None)\<rparr>) R P W" using S by (simp add: sys_def)
  from task_create_ok [OF this x D n(1) a(1-4) _ _ t_def R'_def] a(5) obtain s3 h t' s1 where
    c: "OSTaskCreate x p_name p_task p_arg prio p_stk_base stk_limit stk_size q_size time_quanta p_ext opt s = OSSched s1 \<bind> (\<lambda>s. Some (OS_ERR_NONE, s))"
      "rdy_frame (?s\<lparr>tcbs := (tcbs s)(x \<mapsto> t)\<rparr>) s3" "same_tcbs (tcbs s3) h" "s1 = s3\<lparr>tcbs := h, OSTaskDbgListPtr := x, OSTaskQty := OSTaskQty s + 1\<rparr>"
      "kinv s1 R' P W" "task_dbg_rel s1 (x # xs)" "tcbs s1 x = Some t'" "tcb_less_dbg (tcb_core t') = tcb_less_dbg (tcb_core t)" using n(2) by auto
  have g: "OSTCBCurPtr s1 = OSTCBCurPtr s" "OSPrioCur s1 = OSPrioCur s" "OSIntNestingCtr s1 = 0" "OSSchedLockNestingCtr s1 = OSSchedLockNestingCtr s" "OSTaskQty s1 = OSTaskQty s + 1"
    using rdy_frame_globals [OF c(2)] n(1) unfolding c(4) by (simp_all add: OS_TS_GET_def)
  have cr: "cur_rdy s1"
  proof -
    from S obtain u where u: "OSTCBCurPtr s \<noteq> x" "tcbs s (OSTCBCurPtr s) = Some u" "TCB_Prio u = OSPrioCur s" "TCB_TaskState u = OS_TASK_STATE_RDY"
      unfolding sys_def cur_rdy_def by (auto split: if_splits)
    obtain u3 where u3: "tcbs s3 (OSTCBCurPtr s) = Some u3" "tcb_core u3 = tcb_core u"
      by (rule rdy_frame_tcb [OF c(2), of "OSTCBCurPtr s" u]) (use u in simp_all)
    from same_tcbsD [OF c(3) u3(1)] obtain u4 where u4: "h (OSTCBCurPtr s) = Some u4" "tcb_less_dbg u4 = tcb_less_dbg u3" by blast
    then have "tcbs s1 (OSTCBCurPtr s) = Some u4" by (simp add: c(4))
    then show ?thesis using u(3,4) tcb_core_eqD(1,2) [OF u3(2)] tcb_less_dbg_eqD(2,3) [OF u4(2)] g(1,2) by (simp add: cur_rdy_def)
  qed
  have "R' (unat (OSPrioCur s1)) \<noteq> []" using cur_rdy_in [OF c(5) cr] by auto
  from OSSched_sys [OF c(5) cur_rdy_ok [OF cr] this cr] obtain s' where s': "OSSched s1 = Some s'" "sys s' R' P W" "sw_frame s1 s'" "sched_done s1 R' s'" by blast
  have "task_dbg_rel s' (x # xs)" using sw_frame_dbg [OF s'(3), of "x # xs"] c(6) by simp
  with c(1,7,8) s' g show ?thesis by (intro exI [of _ s1] exI [of _ s'] exI [of _ t']) simp
qed

subsection \<open>Deletion\<close>

definition tcb_life :: "OS_TCB \<Rightarrow> OS_MSG_Q \<times> ptr \<times> ptr" where
  "tcb_life t = (TCB_MsgQ t, TCB_DbgNextPtr t, TCB_DbgPrevPtr t)"

lemma tcb_life_core: "tcb_life (tcb_core t) = tcb_life t" "tcb_life (tcb_base t) = tcb_life t" "tcb_life (tcb_other t) = tcb_life t"
  by (simp_all add: tcb_life_def tcb_core_def tcb_base_def tick_core_def tcb_other_def link_core_def)

text \<open>A waiting task has a table of pend data only for what \<^verbatim>\<open>OSTaskDel\<close> removes it from.\<close>

definition del_pend_ok :: "OS_TCB \<Rightarrow> bool" where
  "del_pend_ok t \<longleftrightarrow> TCB_PendOn t \<in> {OS_TASK_PEND_ON_FLAG, OS_TASK_PEND_ON_MULTI, OS_TASK_PEND_ON_MUTEX, OS_TASK_PEND_ON_Q, OS_TASK_PEND_ON_SEM} \<or> pend_tbl t = {}"

lemma task_unlink_ok:
  assumes K: "kinv s R P W" and t: "tcbs s x = Some t" "TCB_TaskState t \<le> 7" "del_pend_ok t"
  shows "\<exists>s1 t1. task_unlink x s = Some (True, s1) \<and>
    staged s (\<lambda>p. remove1 x (R p)) (\<lambda>ob. filter (\<lambda>d. d \<notin> pend_tbl t) (P ob)) (\<lambda>i. filter (\<lambda>y. y \<noteq> x) (W i)) x t s1 t1 \<and> tcb_life t1 = tcb_life t"
proof -
  note k = kinvD [OF K]
  have "TCB_TaskState t \<in> {0, 1, 2, 3, 4, 5, 6, 7}" by (rule state_cases [OF t(2)])
  then consider (rdy) "TCB_TaskState t = OS_TASK_STATE_RDY" | (susp) "TCB_TaskState t = OS_TASK_STATE_SUSPENDED"
    | (dly) "TCB_TaskState t \<in> {OS_TASK_STATE_DLY, OS_TASK_STATE_DLY_SUSPENDED}" | (pend) "st_pend (TCB_TaskState t)" by (auto simp: st_pend_def)
  then show ?thesis
  proof cases
    case rdy
    have e: "pend_tbl t = {}" "\<not> st_tick (TCB_TaskState t)" using kinv_not_pend [OF K t(1)] rdy by (simp_all add: st_pend_def st_tick_def)
    have x: "x \<in> set (R (unat (TCB_Prio t)))" using k(7) [OF t(1)] rdy by (simp add: task_ok_def)
    have R: "R(unat (TCB_Prio t) := remove1 x (R (unat (TCB_Prio t)))) = (\<lambda>p. remove1 x (R p))"
      by (rule rdy_remove_fun [OF k(2) t(1)])
    from OS_RdyListRemove_ok [OF k(2) x] obtain s1 where s1: "OS_RdyListRemove x s = Some s1" "rdy_rel s1 (\<lambda>p. remove1 x (R p))" "rdy_frame s s1"
      unfolding R by blast
    obtain t1 where t1: "tcbs s1 x = Some t1" "tcb_core t1 = tcb_core t" by (rule rdy_frame_tcb [OF s1(3) t(1)])
    have "staged s (\<lambda>p. remove1 x (R p)) P W x t s1 t1" unfolding staged_def
      using s1(2) rdy_frame_others [OF s1(3)] k(3,4) rdy_frame_kframe [OF s1(3)] t1(1) tcb_core_eqD(1,2) [OF t1(2)] by (simp add: krel_def)
    moreover have "tcb_life t1 = tcb_life t" using t1(2) tcb_life_core(1) by metis
    ultimately show ?thesis using rdy t(1) s1(1) e kinv_off_wheel [OF K t(1)] by (auto simp: task_unlink_def)
  next
    case susp
    have e: "pend_tbl t = {}" "\<not> st_tick (TCB_TaskState t)" using kinv_not_pend [OF K t(1)] susp by (simp_all add: st_pend_def st_tick_def)
    have "x \<notin> set (R q)" for q using rdy_rel_list(3) [OF k(2), of x q] k(7) [OF t(1)] susp t(1) by (auto simp: task_ok_def)
    then show ?thesis using susp t(1) e kinv_off_wheel [OF K t(1)] staged_start [OF K t(1)] by (auto simp: task_unlink_def remove1_idem)
  next
    case dly
    have e: "pend_tbl t = {}" using kinv_not_pend [OF K t(1)] dly by (auto simp: st_pend_def)
    have "x \<notin> set (R q)" for q using rdy_rel_list(3) [OF k(2), of x q] k(7) [OF t(1)] dly t(1) by (auto simp: task_ok_def)
    then have R: "(\<lambda>p. remove1 x (R p)) = R" by (simp add: remove1_idem)
    from staged_untick [OF staged_start [OF K t(1)]] obtain s1 t1 where s1: "OS_TickListRemove x s = Some s1"
      "staged s R P (\<lambda>i. filter (\<lambda>y. y \<noteq> x) (W i)) x t s1 t1" "tcb_base t1 = tcb_base t" by blast
    moreover have "tcb_life t1 = tcb_life t" using s1(3) tcb_life_core(2) by metis
    ultimately show ?thesis using dly t(1) e unfolding R by (auto simp: task_unlink_def)
  next
    case pend
    have nR: "TCB_TaskState t \<noteq> OS_TASK_STATE_RDY" using pend by (auto simp: st_pend_def)
    have "x \<notin> set (R q)" for q using rdy_rel_list(3) [OF k(2), of x q] k(7) [OF t(1)] nR t(1) by (auto simp: task_ok_def)
    then have R: "(\<lambda>p. remove1 x (R p)) = R" by (simp add: remove1_idem)
    from staged_untick [OF staged_start [OF K t(1)]] obtain s1 t1 where s1: "OS_TickListRemove x s = Some s1"
      "staged s R P (\<lambda>i. filter (\<lambda>y. y \<noteq> x) (W i)) x t s1 t1" "tcb_base t1 = tcb_base t" by blast
    have l: "tcb_life t1 = tcb_life t" using s1(3) tcb_life_core(2) by metis
    have p1: "pend_tbl t1 = pend_tbl t" using tcb_base_eqD(3,4) [OF s1(3)] by (simp add: pend_tbl_def)
    have u: "task_unlink x s = (if TCB_PendOn t \<in> {OS_TASK_PEND_ON_FLAG, OS_TASK_PEND_ON_MULTI, OS_TASK_PEND_ON_MUTEX, OS_TASK_PEND_ON_Q, OS_TASK_PEND_ON_SEM}
      then map_option (Pair True) (OS_PendListRemove x s1) else Some (True, s1))"
      using t(1) pend nR s1(1) unfolding task_unlink_def by (auto simp: st_pend_def)
    show ?thesis
    proof (cases "TCB_PendOn t \<in> {OS_TASK_PEND_ON_FLAG, OS_TASK_PEND_ON_MULTI, OS_TASK_PEND_ON_MUTEX, OS_TASK_PEND_ON_Q, OS_TASK_PEND_ON_SEM}")
      case True
      from staged_unlink [OF K t(1) s1(2) p1] obtain s2 where s2: "OS_PendListRemove x s1 = Some s2"
        "staged s R (\<lambda>ob. filter (\<lambda>d. d \<notin> pend_tbl t) (P ob)) (\<lambda>i. filter (\<lambda>y. y \<noteq> x) (W i)) x t s2 (t1\<lparr>TCB_PendDataTblEntries := 0, TCB_PendDataTblPtr := NULL\<rparr>)" by blast
      moreover have "tcb_life (t1\<lparr>TCB_PendDataTblEntries := 0, TCB_PendDataTblPtr := NULL\<rparr>) = tcb_life t" using l by (simp add: tcb_life_def)
      ultimately show ?thesis unfolding u R if_P [OF True] by auto
    next
      case False
      then have "pend_tbl t = {}" using t(3) by (simp add: del_pend_ok_def)
      then show ?thesis unfolding u R if_not_P [OF False] using s1(2) l by auto
    qed
  qed
qed

text \<open>The control block of a task that left every list becomes that of a deleted task.\<close>

lemma kinv_dead:
  assumes K: "kinv s R P W" and t: "tcbs s x = Some t"
    and S: "staged s (\<lambda>p. remove1 x (R p)) (\<lambda>ob. filter (\<lambda>d. d \<notin> pend_tbl t) (P ob)) (\<lambda>i. filter (\<lambda>y. y \<noteq> x) (W i)) x t s1 t1"
    and d: "TCB_TaskState dead = OS_TASK_STATE_DEL" "TCB_TickSpokePtr dead = None" "pend_tbl dead = {}"
  shows "kinv (s1\<lparr>tcbs := (tcbs s1)(x \<mapsto> dead)\<rparr>) (\<lambda>p. remove1 x (R p)) (\<lambda>ob. filter (\<lambda>d. d \<notin> pend_tbl t) (P ob)) (\<lambda>i. filter (\<lambda>y. y \<noteq> x) (W i))"
proof -
  let ?R = "\<lambda>p. remove1 x (R p)" let ?P = "\<lambda>ob. filter (\<lambda>d. d \<notin> pend_tbl t) (P ob)" let ?W = "\<lambda>i. filter (\<lambda>y. y \<noteq> x) (W i)"
  let ?s = "s1\<lparr>tcbs := (tcbs s1)(x \<mapsto> dead)\<rparr>"
  note k = kinvD [OF K] note g = stagedD [OF S]
  have dist: "distinct (R q)" for q by (rule rdy_rel_list(1) [OF k(2)])
  have own: "PD_TCBPtr e \<noteq> x" if a: "d \<in> set (?P ob)" "pds s1 d = Some e" for ob d e
  proof
    assume e: "PD_TCBPtr e = x"
    from a(1) have dd: "d \<in> set (P ob)" "d \<notin> pend_tbl t" by auto
    from pend_rel_disjoint(3) [OF k(3) dd(1)] obtain e0 where e0: "pds s d = Some e0" by blast
    obtain e1 where e1: "pds s1 d = Some e1" "PD_TCBPtr e1 = PD_TCBPtr e0" by (rule kframe_pd [OF g(5) dd(2) e0])
    then have "PD_TCBPtr e0 = x" using a(2) e by simp
    with kinv_own [OF K t dd(1) e0] dd(2) show False by simp
  qed
  have kr: "krel ?s ?R ?P ?W" by (rule krel_tcb_free [OF g(1)]) (simp add: dist, simp, erule own, assumption, rule d(2))
  have F: "kframe {x} (pend_tbl t) s ?s" using kframe_trans [OF g(5) kframe_tcb_upd [OF g(6)]] by blast
  have "x \<noteq> NULL" using k(7) [OF t] by (simp add: task_ok_def)
  then have ok: "task_ok ?s ?R ?P x dead" using d dist by (simp add: task_ok_def st_tick_def st_pend_def)
  show ?thesis
    by (rule kinv_task [OF K t subset_refl kr F _ _ _ _ _ ok]) (use pend_tbl_disjoint [OF K _ t] in auto)
qed

lemma MsgQFreeAll_shape:
  assumes "MQ_NbrEntries q > 0 \<Longrightarrow> MQ_InPtr q \<in> dom (msgs s)"
  shows "\<exists>n q' m p. OS_MsgQFreeAll q s = Some (n, q', s\<lparr>msgs := m, OSMsgPool := p\<rparr>)"
proof (cases "MQ_NbrEntries q > 0")
  case True
  then obtain m where "msgs s (MQ_InPtr q) = Some m" using assms by blast
  with True show ?thesis by (simp add: OS_MsgQFreeAll_def Let_def) blast
next
  case False
  then have "OS_MsgQFreeAll q s = Some (MQ_NbrEntries q, q, s\<lparr>msgs := msgs s, OSMsgPool := OSMsgPool s\<rparr>)" by (simp add: OS_MsgQFreeAll_def)
  then show ?thesis by blast
qed

lemma kframe_life:
  assumes F: "kframe {x} D s s1" and t: "tcbs s x = Some t" "tcbs s1 x = Some t1" "tcb_life t1 = tcb_life t"
  shows "map_option tcb_life (tcbs s1 y) = map_option tcb_life (tcbs s y)"
proof (cases "y = x")
  case False
  then have "map_option tcb_other (tcbs s1 y) = map_option tcb_other (tcbs s y)" using F by (simp add: kframe_def)
  then show ?thesis by (rule map_option_eq_via) (metis tcb_life_core(3))
qed (use t in simp)

lemma task_dbg_life:
  assumes "\<And>y. y \<in> set xs \<Longrightarrow> map_option tcb_life (h' y) = map_option tcb_life (h y)"
  shows "linked TCB_DbgNextPtr TCB_DbgPrevPtr h' a b xs = linked TCB_DbgNextPtr TCB_DbgPrevPtr h a b xs"
  by (rule linked_cong; rule map_option_eq_via [OF assms]; simp add: tcb_life_def)

text \<open>What is left of \<^verbatim>\<open>OSTaskDel\<close> after the switch, up to the call of the scheduler.\<close>

lemma OSTaskDel_body:
  assumes K: "kinv s R P W" and n: "OSIntNestingCtr s = 0" and p: "p \<noteq> OSIdleTaskTCB s" "tcb_self p s = x"
    and t: "tcbs s x = Some t" "TCB_TaskState t \<le> 7" "del_pend_ok t"
    and q: "MQ_NbrEntries (TCB_MsgQ t) > 0 \<Longrightarrow> MQ_InPtr (TCB_MsgQ t) \<in> dom (msgs s)" and D: "task_dbg_rel s (xs @ x # ys)"
  shows "\<exists>s1 dead. OSTaskDel p s = OSSched s1 \<bind> (\<lambda>s. Some (OS_ERR_NONE, s)) \<and>
    kinv s1 (\<lambda>p. remove1 x (R p)) (\<lambda>ob. filter (\<lambda>d. d \<notin> pend_tbl t) (P ob)) (\<lambda>i. filter (\<lambda>y. y \<noteq> x) (W i)) \<and>
    tcbs s1 x = Some dead \<and> TCB_TaskState dead = OS_TASK_STATE_DEL \<and> task_dbg_rel s1 (xs @ ys) \<and> OSTaskQty s1 = OSTaskQty s - 1 \<and>
    OSIntNestingCtr s1 = 0 \<and> OSSchedLockNestingCtr s1 = OSSchedLockNestingCtr s \<and> OSTCBCurPtr s1 = OSTCBCurPtr s \<and> OSPrioCur s1 = OSPrioCur s \<and>
    (\<forall>y u. y \<noteq> x \<longrightarrow> tcbs s y = Some u \<longrightarrow> (\<exists>u'. tcbs s1 y = Some u' \<and> TCB_Prio u' = TCB_Prio u \<and> TCB_TaskState u' = TCB_TaskState u))"
proof -
  from task_unlink_ok [OF K t] obtain s1 t1 where s1: "task_unlink x s = Some (True, s1)"
    "staged s (\<lambda>p. remove1 x (R p)) (\<lambda>ob. filter (\<lambda>d. d \<notin> pend_tbl t) (P ob)) (\<lambda>i. filter (\<lambda>y. y \<noteq> x) (W i)) x t s1 t1" "tcb_life t1 = tcb_life t" by blast
  note g = stagedD [OF s1(2)] note kg = kframe_globals [OF g(5)]
  have kd: "OSTaskDbgListPtr s1 = OSTaskDbgListPtr s" "OSTaskQty s1 = OSTaskQty s"
  proof -
    have e: "os_less_k s1 = os_less_k s" using g(5) by (simp add: kframe_def)
    show "OSTaskDbgListPtr s1 = OSTaskDbgListPtr s" using arg_cong [OF e, of OSTaskDbgListPtr] by (simp add: os_less_k_def)
    show "OSTaskQty s1 = OSTaskQty s" using arg_cong [OF e, of OSTaskQty] by (simp add: os_less_k_def)
  qed
  have mq: "TCB_MsgQ t1 = TCB_MsgQ t" using s1(3) by (simp add: tcb_life_def)
  then obtain k q' m pl where fa: "OS_MsgQFreeAll (TCB_MsgQ t1) s1 = Some (k, q', s1\<lparr>msgs := m, OSMsgPool := pl\<rparr>)"
    using MsgQFreeAll_shape [of "TCB_MsgQ t1" s1] q kg(4) by auto
  let ?h3 = "(tcbs s1)(x \<mapsto> t1\<lparr>TCB_MsgQ := q'\<rparr>)" let ?s3 = "s1\<lparr>msgs := m, OSMsgPool := pl, tcbs := ?h3\<rparr>"
  have "linked TCB_DbgNextPtr TCB_DbgPrevPtr (tcbs s1) a b zs = linked TCB_DbgNextPtr TCB_DbgPrevPtr (tcbs s) a b zs" for a b zs
    by (rule task_dbg_life [OF kframe_life [OF g(5) t(1) g(6) s1(3)]])
  moreover have "linked TCB_DbgNextPtr TCB_DbgPrevPtr ?h3 a b zs = linked TCB_DbgNextPtr TCB_DbgPrevPtr (tcbs s1) a b zs" for a b zs
    by (rule linked_cong) (use g(6) in auto)
  ultimately have "task_dbg_rel ?s3 (xs @ x # ys)" using D kd(1) by (simp add: task_dbg_rel_def)
  from OS_TaskDbgListRemove_ok [OF this] obtain h r where h: "OS_TaskDbgListRemove x ?s3 = Some (?s3\<lparr>tcbs := h, OSTaskDbgListPtr := r\<rparr>)"
    "same_tcbs ?h3 h" "task_dbg_rel (?s3\<lparr>tcbs := h, OSTaskDbgListPtr := r\<rparr>) (xs @ ys)" by auto
  from same_tcbsD [OF h(2), of x] obtain tx where tx: "h x = Some tx" by auto
  let ?ts = "TmrRd s (TmrRdIx s)" let ?dead = "(init_tcb ?ts tx)\<lparr>TCB_TaskState := OS_TASK_STATE_DEL\<rparr>"
  let ?s6 = "s1\<lparr>msgs := m, OSMsgPool := pl, OSTaskDbgListPtr := r, OSTaskQty := OSTaskQty s - 1, TmrRdIx := Suc (TmrRdIx s), tcbs := h(x \<mapsto> ?dead)\<rparr>"
  have dd: "TCB_TaskState ?dead = OS_TASK_STATE_DEL" "TCB_TickSpokePtr ?dead = None" "pend_tbl ?dead = {}" by (simp_all add: init_tcb_def pend_tbl_def)
  have run: "OSTaskDel p s = OSSched ?s6 \<bind> (\<lambda>s. Some (OS_ERR_NONE, s))"
    using n p s1(1) g(6) fa h(1) tx kd(2) kg(16,17) by (simp add: OSTaskDel_def Let_def OS_TaskInitTCB_def OS_TS_GET_def)
  have ot: "y \<noteq> x \<Longrightarrow> map_option tcb_less_dbg (h y) = map_option tcb_less_dbg (tcbs s1 y)" for y
    using h(2) by (simp add: same_tcbs_def)
  have "map_option tcb_key (tcbs ?s6 y) = map_option tcb_key (tcbs (s1\<lparr>tcbs := (tcbs s1)(x \<mapsto> ?dead)\<rparr>) y)" for y
    using map_option_eq_via [OF ot tcb_less_dbg_eqD(1), of y] by (cases "y = x") simp_all
  then have K6: "kinv ?s6 (\<lambda>p. remove1 x (R p)) (\<lambda>ob. filter (\<lambda>d. d \<notin> pend_tbl t) (P ob)) (\<lambda>i. filter (\<lambda>y. y \<noteq> x) (W i))"
    using kinv_dead [OF K t(1) s1(2) dd] by (subst kinv_cong [where s = "s1\<lparr>tcbs := (tcbs s1)(x \<mapsto> ?dead)\<rparr>"]) simp_all
  have "x \<notin> set (xs @ ys)" using linkedD(1) D unfolding task_dbg_rel_def by fastforce
  then have "linked TCB_DbgNextPtr TCB_DbgPrevPtr (h(x \<mapsto> ?dead)) a b (xs @ ys) = linked TCB_DbgNextPtr TCB_DbgPrevPtr h a b (xs @ ys)" for a b
    by (intro task_dbg_life) auto
  then have dbg: "task_dbg_rel ?s6 (xs @ ys)" using h(3) by (simp add: task_dbg_rel_def)
  have "\<exists>u'. tcbs ?s6 y = Some u' \<and> TCB_Prio u' = TCB_Prio u \<and> TCB_TaskState u' = TCB_TaskState u" if y: "y \<noteq> x" "tcbs s y = Some u" for y u
  proof -
    from kframe_tcb(1) [OF g(5) _ y(2)] y(1) obtain u1 where u1: "tcbs s1 y = Some u1" "tcb_other u1 = tcb_other u" by auto
    with same_tcbsD [OF h(2), of y u1] y(1) obtain u2 where u2: "h y = Some u2" "tcb_less_dbg u2 = tcb_less_dbg u1" by auto
    show ?thesis using u2(1) y(1) tcb_less_dbg_eqD(2,3) [OF u2(2)] tcb_other_eqD(1,2) [OF u1(2)] by simp
  qed
  then show ?thesis using run K6 dbg dd(1) n kg(8,10-12)
    by (intro exI [of _ ?s6] exI [of _ ?dead]) (simp del: fun_upd_apply, simp)
qed

lemma OSTaskDel_ok:
  assumes S: "sys s R P W" and n: "OSIntNestingCtr s = 0" and p: "p \<noteq> OSIdleTaskTCB s" "tcb_self p s = x"
    and t: "tcbs s x = Some t" "TCB_TaskState t \<le> 7" "del_pend_ok t"
    and q: "MQ_NbrEntries (TCB_MsgQ t) > 0 \<Longrightarrow> MQ_InPtr (TCB_MsgQ t) \<in> dom (msgs s)" and D: "task_dbg_rel s (xs @ x # ys)"
    and cur: "x = OSTCBCurPtr s \<Longrightarrow> OSSchedLockNestingCtr s = 0 \<and> (\<exists>y q. y \<in> set (R q) \<and> y \<noteq> x)"
  shows "\<exists>s' dead. OSTaskDel p s = Some (OS_ERR_NONE, s') \<and>
    sys s' (\<lambda>p. remove1 x (R p)) (\<lambda>ob. filter (\<lambda>d. d \<notin> pend_tbl t) (P ob)) (\<lambda>i. filter (\<lambda>y. y \<noteq> x) (W i)) \<and>
    tcbs s' x = Some dead \<and> TCB_TaskState dead = OS_TASK_STATE_DEL \<and> task_dbg_rel s' (xs @ ys) \<and> OSTCBCurPtr s' \<noteq> x"
proof -
  let ?R = "\<lambda>p. remove1 x (R p)" let ?P = "\<lambda>ob. filter (\<lambda>d. d \<notin> pend_tbl t) (P ob)" let ?W = "\<lambda>i. filter (\<lambda>y. y \<noteq> x) (W i)"
  have K: "kinv s R P W" using S by (simp add: sys_def)
  from OSTaskDel_body [OF K n p t q D] obtain s1 d1 where s1: "OSTaskDel p s = OSSched s1 \<bind> (\<lambda>s. Some (OS_ERR_NONE, s))" "kinv s1 ?R ?P ?W"
    "tcbs s1 x = Some d1" "TCB_TaskState d1 = OS_TASK_STATE_DEL" "task_dbg_rel s1 (xs @ ys)"
    "OSIntNestingCtr s1 = 0" "OSSchedLockNestingCtr s1 = OSSchedLockNestingCtr s" "OSTCBCurPtr s1 = OSTCBCurPtr s" "OSPrioCur s1 = OSPrioCur s"
    "\<forall>y u. y \<noteq> x \<longrightarrow> tcbs s y = Some u \<longrightarrow> (\<exists>u'. tcbs s1 y = Some u' \<and> TCB_Prio u' = TCB_Prio u \<and> TCB_TaskState u' = TCB_TaskState u)" by blast
  have nx: "x \<notin> set (?R q)" for q using rdy_rel_list(1) [OF kinvD(2) [OF K], of q] by simp
  have "\<exists>s'. OSSched s1 = Some s' \<and> sys s' ?R ?P ?W \<and> sw_frame s1 s' \<and> OSTCBCurPtr s' \<noteq> x"
  proof (cases "x = OSTCBCurPtr s")
    case True
    from cur [OF True] obtain y r where y0: "OSSchedLockNestingCtr s = 0" "y \<in> set (R r)" "y \<noteq> x" by blast
    then have y: "OSSchedLockNestingCtr s = 0" "y \<in> set (?R r)" by simp_all
    have ne: "?R r \<noteq> []" using y(2) by auto
    have tp: "?R (top_prio ?R) \<noteq> []" by (rule rq.top_nonempty [where R = ?R, OF ne])
    then have top: "top_task ?R \<in> set (?R (top_prio ?R))" unfolding top_task_def by (rule hd_in_set)
    then have nt: "top_task ?R \<noteq> x" using nx by metis
    have "OSTCBCurPtr s1 \<in> dom (tcbs s1)" using s1(3,8) True by auto
    with sched_switch_gen [OF s1(2) _ _ ne] nt s1(8) True obtain s' where s': "sched_switch s1 = Some s'" "kinv s' ?R ?P ?W" "sw_frame s1 s'" "cur_ok s'"
      "OSTCBCurPtr s' = top_task ?R" by auto
    from top s'(5) obtain u where "tcbs s' (OSTCBCurPtr s') = Some u" "TCB_TaskState u = OS_TASK_STATE_RDY"
      using rdy_task_state [OF s'(2)] by metis
    with s'(4) have "cur_rdy s'" by (auto simp: cur_rdy_def cur_ok_def)
    with s' nt y(1) s1(6,7) OSSched_switch [of s1] show ?thesis by (simp add: sys_def)
  next
    case False
    from S obtain c where c: "tcbs s (OSTCBCurPtr s) = Some c" "TCB_Prio c = OSPrioCur s" "TCB_TaskState c = OS_TASK_STATE_RDY"
      by (auto simp: sys_def cur_rdy_def)
    with s1(10) False obtain c1 where "tcbs s1 (OSTCBCurPtr s) = Some c1" "TCB_Prio c1 = TCB_Prio c" "TCB_TaskState c1 = TCB_TaskState c" by metis
    then have cr: "cur_rdy s1" using c s1(8,9) by (simp add: cur_rdy_def)
    have ci: "OSTCBCurPtr s1 \<in> set (?R (unat (OSPrioCur s1)))" by (rule cur_rdy_in [OF s1(2) cr])
    then have ne: "?R (unat (OSPrioCur s1)) \<noteq> []" by auto
    from OSSched_sys [OF s1(2) cur_rdy_ok [OF cr] ne cr] obtain s' where s': "OSSched s1 = Some s'" "sys s' ?R ?P ?W" "sw_frame s1 s'" by blast
    have "OSTCBCurPtr s' \<noteq> x" using cur_rdy_in [of s' ?R ?P ?W] s'(2) nx by (metis sys_def)
    with s' show ?thesis by blast
  qed
  then obtain s' where s': "OSSched s1 = Some s'" "sys s' ?R ?P ?W" "sw_frame s1 s'" "OSTCBCurPtr s' \<noteq> x" by blast
  obtain dead where "tcbs s' x = Some dead" "TCB_TaskState dead = TCB_TaskState d1" by (rule sw_frame_suspend [OF s'(3) s1(3)])
  moreover have "task_dbg_rel s' (xs @ ys)" using sw_frame_dbg [OF s'(3)] s1(5) by simp
  ultimately show ?thesis using s1(1,4) s' by (intro exI [of _ s'] exI [of _ dead]) simp
qed

end
