(* ===== verification/OS_TaskSync.thy ===== *)
theory OS_TaskSync
  imports OS_Task
begin

text \<open>
  The message queue and the semaphore that every task carries in its control block
  (\<^verbatim>\<open>OSTaskQPend\<close>, \<^verbatim>\<open>OSTaskSemPend\<close> and their relatives in \<^verbatim>\<open>src/ucosTest/Source/os_task.c\<close>), and the
  interrupt service routine of the clock, \<^verbatim>\<open>OSTimeTick\<close> (\<^verbatim>\<open>os_time.c\<close>), which signals the tick task
  through such a semaphore.  A task that waits on its own queue or semaphore is in no pend list.
\<close>

text \<open>The queue in a control block is worked on by the message routines and written back.\<close>

definition tcb_msg_put :: "ptr \<Rightarrow> ptr \<Rightarrow> OS_MSG_SIZE \<Rightarrow> OS_OPT \<Rightarrow> CPU_TS \<Rightarrow> os \<Rightarrow> (OS_ERR \<times> os) option" where
  "tcb_msg_put p_tcb p_void msg_size opt ts s = do {
     tcb \<leftarrow> tcbs s p_tcb;
     (err, q, s) \<leftarrow> OS_MsgQPut (TCB_MsgQ tcb) p_void msg_size opt ts s;
     s \<leftarrow> tcb_mod p_tcb (\<lambda>t. t\<lparr>TCB_MsgQ := q\<rparr>) s;
     Some (err, s)
   }"

definition OSTaskQFlush :: "ptr \<Rightarrow> os \<Rightarrow> (OS_MSG_QTY \<times> OS_ERR \<times> os) option" where
  "OSTaskQFlush p_tcb s =
     (if OSIntNestingCtr s > 0 then Some (0, OS_ERR_FLUSH_ISR, s)
      else do {
        let p_tcb = tcb_self p_tcb s;
        tcb \<leftarrow> tcbs s p_tcb;
        (entries, q, s) \<leftarrow> OS_MsgQFreeAll (TCB_MsgQ tcb) s;
        s \<leftarrow> tcb_mod p_tcb (\<lambda>t. t\<lparr>TCB_MsgQ := q\<rparr>) s;
        Some (entries, OS_ERR_NONE, s)
      })"

text \<open>The profiling of the waiting time, done where the caller wants the time stamp (\<open>p_ts\<close>).\<close>

definition msgq_pend_time :: "CPU_TS \<Rightarrow> os \<Rightarrow> os option" where
  "msgq_pend_time from s = do {
     let (now, s) = OS_TS_GET s;
     tcb_mod (OSTCBCurPtr s) (\<lambda>t. t\<lparr>TCB_MsgQPendTime := now - from, TCB_MsgQPendTimeMax := max (TCB_MsgQPendTimeMax t) (now - from)\<rparr>) s
   }"

definition sem_pend_time :: "os \<Rightarrow> os option" where
  "sem_pend_time s = do {
     let (now, s) = OS_TS_GET s;
     tcb_mod (OSTCBCurPtr s) (\<lambda>t. t\<lparr>TCB_SemPendTime := now - TCB_TS t, TCB_SemPendTimeMax := max (TCB_SemPendTimeMax t) (now - TCB_TS t)\<rparr>) s
   }"

definition OSTaskQPend :: "OS_TICK \<Rightarrow> OS_OPT \<Rightarrow> bool \<Rightarrow> bool \<Rightarrow> os \<Rightarrow>
    ((ptr \<times> OS_MSG_SIZE option \<times> CPU_TS option \<times> OS_ERR) call \<times> os) option" where
  "OSTaskQPend timeout opt p_msg_size p_ts s =
     (if OSIntNestingCtr s > 0 then Some (Done (NULL, None, None, OS_ERR_PEND_ISR), s)
      else if \<not> p_msg_size then Some (Done (NULL, None, None, OS_ERR_PTR_INVALID), s)
      else if opt \<notin> {OS_OPT_PEND_BLOCKING, OS_OPT_PEND_NON_BLOCKING} then Some (Done (NULL, None, None, OS_ERR_OPT_INVALID), s)
      else do {
        tcb \<leftarrow> tcbs s (OSTCBCurPtr s);
        (p_void, msg_size, ts, err, q, s) \<leftarrow> OS_MsgQGet (TCB_MsgQ tcb) s;
        s \<leftarrow> tcb_mod (OSTCBCurPtr s) (\<lambda>t. t\<lparr>TCB_MsgQ := q\<rparr>) s;
        if err = OS_ERR_NONE then do {
          s \<leftarrow> (if p_ts then msgq_pend_time ts s else Some s);
          Some (Done (p_void, Some msg_size, ts_out p_ts ts, OS_ERR_NONE), s)
        } else if opt AND OS_OPT_PEND_NON_BLOCKING \<noteq> 0
          then Some (Done (NULL, Some msg_size, ts_out p_ts ts, OS_ERR_PEND_WOULD_BLOCK), s)
        else if OSSchedLockNestingCtr s > 0 then Some (Done (NULL, Some msg_size, ts_out p_ts ts, OS_ERR_SCHED_LOCKED), s)
        else do {
          s \<leftarrow> OS_Pend NULL NULL OS_TASK_PEND_ON_TASK_Q timeout s;
          s \<leftarrow> OSSched s;
          Some (Blocked, s)
        }
      })"

definition OSTaskQPend_resume :: "bool \<Rightarrow> os \<Rightarrow> ((ptr \<times> OS_MSG_SIZE option \<times> CPU_TS option \<times> OS_ERR) \<times> os) option" where
  "OSTaskQPend_resume p_ts s = do {
     tcb \<leftarrow> tcbs s (OSTCBCurPtr s);
     if TCB_PendStatus tcb = OS_STATUS_PEND_OK then do {
       s \<leftarrow> (if p_ts then msgq_pend_time (TCB_TS tcb) s else Some s);
       Some ((TCB_MsgPtr tcb, Some (TCB_MsgSize tcb), ts_out p_ts (TCB_TS tcb), OS_ERR_NONE), s)
     } else if TCB_PendStatus tcb = OS_STATUS_PEND_ABORT then Some ((NULL, Some 0, ts_out p_ts 0, OS_ERR_PEND_ABORT), s)
     else Some ((NULL, Some 0, ts_out p_ts (TCB_TS tcb), OS_ERR_TIMEOUT), s)
   }"

text \<open>\<^verbatim>\<open>OSTaskQPendAbort\<close> and \<^verbatim>\<open>OSTaskSemPendAbort\<close> differ in what the task has to wait for.\<close>

definition task_pend_abort :: "OS_STATE \<Rightarrow> ptr \<Rightarrow> OS_OPT \<Rightarrow> os \<Rightarrow> (bool \<times> OS_ERR \<times> os) option" where
  "task_pend_abort pend_on p_tcb opt s =
     (if OSIntNestingCtr s > 0 then Some (False, OS_ERR_PEND_ABORT_ISR, s)
      else if opt \<notin> {OS_OPT_POST_NONE, OS_OPT_POST_NO_SCHED} then Some (False, OS_ERR_OPT_INVALID, s)
      else if p_tcb = NULL \<or> p_tcb = OSTCBCurPtr s then Some (False, OS_ERR_PEND_ABORT_SELF, s)
      else do {
        tcb \<leftarrow> tcbs s p_tcb;
        if TCB_PendOn tcb \<noteq> pend_on then Some (False, OS_ERR_PEND_ABORT_NONE, s)
        else do {
          let (ts, s) = OS_TS_GET s;
          s \<leftarrow> OS_PendAbort NULL p_tcb ts s;
          s \<leftarrow> (if opt AND OS_OPT_POST_NO_SCHED = 0 then OSSched s else Some s);
          Some (True, OS_ERR_NONE, s)
        }
      })"

definition OSTaskQPendAbort :: "ptr \<Rightarrow> OS_OPT \<Rightarrow> os \<Rightarrow> (bool \<times> OS_ERR \<times> os) option" where
  "OSTaskQPendAbort = task_pend_abort OS_TASK_PEND_ON_TASK_Q"

definition OSTaskSemPendAbort :: "ptr \<Rightarrow> OS_OPT \<Rightarrow> os \<Rightarrow> (bool \<times> OS_ERR \<times> os) option" where
  "OSTaskSemPendAbort = task_pend_abort OS_TASK_PEND_ON_TASK_SEM"

definition OS_TaskQPost :: "ptr \<Rightarrow> ptr \<Rightarrow> OS_MSG_SIZE \<Rightarrow> OS_OPT \<Rightarrow> CPU_TS \<Rightarrow> os \<Rightarrow> (OS_ERR \<times> os) option" where
  "OS_TaskQPost p_tcb p_void msg_size opt ts s = do {
     let p_tcb = tcb_self p_tcb s;
     tcb \<leftarrow> tcbs s p_tcb;
     let st = TCB_TaskState tcb;
     if st \<in> {OS_TASK_STATE_RDY, OS_TASK_STATE_DLY, OS_TASK_STATE_SUSPENDED, OS_TASK_STATE_DLY_SUSPENDED}
     then tcb_msg_put p_tcb p_void msg_size opt ts s
     else if st \<in> {OS_TASK_STATE_PEND, OS_TASK_STATE_PEND_TIMEOUT, OS_TASK_STATE_PEND_SUSPENDED, OS_TASK_STATE_PEND_TIMEOUT_SUSPENDED}
     then if TCB_PendOn tcb = OS_TASK_PEND_ON_TASK_Q then do {
         s \<leftarrow> OS_Post NULL p_tcb p_void msg_size ts s;
         s \<leftarrow> (if opt AND OS_OPT_POST_NO_SCHED = 0 then OSSched s else Some s);
         Some (OS_ERR_NONE, s)
       } else tcb_msg_put p_tcb p_void msg_size opt ts s
     else Some (OS_ERR_STATE_INVALID, s)
   }"

definition OSTaskQPost :: "ptr \<Rightarrow> ptr \<Rightarrow> OS_MSG_SIZE \<Rightarrow> OS_OPT \<Rightarrow> os \<Rightarrow> (OS_ERR \<times> os) option" where
  "OSTaskQPost p_tcb p_void msg_size opt s =
     (if opt \<notin> {OS_OPT_POST_FIFO, OS_OPT_POST_LIFO, OS_OPT_POST_FIFO OR OS_OPT_POST_NO_SCHED, OS_OPT_POST_LIFO OR OS_OPT_POST_NO_SCHED}
      then Some (OS_ERR_OPT_INVALID, s)
      else let (ts, s) = OS_TS_GET s in OS_TaskQPost p_tcb p_void msg_size opt ts s)"

definition OSTaskSemPend :: "OS_TICK \<Rightarrow> OS_OPT \<Rightarrow> bool \<Rightarrow> os \<Rightarrow> ((OS_SEM_CTR \<times> CPU_TS option \<times> OS_ERR) call \<times> os) option" where
  "OSTaskSemPend timeout opt p_ts s =
     (if OSIntNestingCtr s > 0 then Some (Done (0, None, OS_ERR_PEND_ISR), s)
      else if opt \<notin> {OS_OPT_PEND_BLOCKING, OS_OPT_PEND_NON_BLOCKING} then Some (Done (0, None, OS_ERR_OPT_INVALID), s)
      else do {
        tcb \<leftarrow> tcbs s (OSTCBCurPtr s);
        if TCB_SemCtr tcb > 0 then do {
          s \<leftarrow> tcb_mod (OSTCBCurPtr s) (\<lambda>t. t\<lparr>TCB_SemCtr := TCB_SemCtr t - 1\<rparr>) s;
          s \<leftarrow> sem_pend_time s;
          Some (Done (TCB_SemCtr tcb - 1, ts_out p_ts (TCB_TS tcb), OS_ERR_NONE), s)
        } else if opt AND OS_OPT_PEND_NON_BLOCKING \<noteq> 0 then Some (Done (0, ts_out p_ts 0, OS_ERR_PEND_WOULD_BLOCK), s)
        else if OSSchedLockNestingCtr s > 0 then Some (Done (0, ts_out p_ts 0, OS_ERR_SCHED_LOCKED), s)
        else do {
          s \<leftarrow> OS_Pend NULL NULL OS_TASK_PEND_ON_TASK_SEM timeout s;
          s \<leftarrow> OSSched s;
          Some (Blocked, s)
        }
      })"

text \<open>Where the status is none of the three, the time stamp keeps the zero written at the start.\<close>

definition OSTaskSemPend_resume :: "bool \<Rightarrow> os \<Rightarrow> ((OS_SEM_CTR \<times> CPU_TS option \<times> OS_ERR) \<times> os) option" where
  "OSTaskSemPend_resume p_ts s = do {
     tcb \<leftarrow> tcbs s (OSTCBCurPtr s);
     if TCB_PendStatus tcb = OS_STATUS_PEND_OK then do {
       s \<leftarrow> (if p_ts then sem_pend_time s else Some s);
       Some ((TCB_SemCtr tcb, ts_out p_ts (TCB_TS tcb), OS_ERR_NONE), s)
     } else if TCB_PendStatus tcb = OS_STATUS_PEND_ABORT then Some ((TCB_SemCtr tcb, ts_out p_ts (TCB_TS tcb), OS_ERR_PEND_ABORT), s)
     else if TCB_PendStatus tcb = OS_STATUS_PEND_TIMEOUT then Some ((TCB_SemCtr tcb, ts_out p_ts 0, OS_ERR_TIMEOUT), s)
     else Some ((TCB_SemCtr tcb, ts_out p_ts 0, OS_ERR_STATUS_INVALID), s)
   }"

text \<open>The counter is 32 bits wide, so of the cases over \<^verbatim>\<open>sizeof(OS_SEM_CTR)\<close> only that of four bytes applies.\<close>

definition tcb_sem_inc :: "ptr \<Rightarrow> OS_TCB \<Rightarrow> os \<Rightarrow> (OS_SEM_CTR \<times> OS_ERR \<times> os) option" where
  "tcb_sem_inc p_tcb tcb s =
     (if TCB_SemCtr tcb = - 1 then Some (0, OS_ERR_SEM_OVF, s)
      else do {
        s \<leftarrow> tcb_mod p_tcb (\<lambda>t. t\<lparr>TCB_SemCtr := TCB_SemCtr t + 1\<rparr>) s;
        Some (TCB_SemCtr tcb + 1, OS_ERR_NONE, s)
      })"

definition OS_TaskSemPost :: "ptr \<Rightarrow> OS_OPT \<Rightarrow> CPU_TS \<Rightarrow> os \<Rightarrow> (OS_SEM_CTR \<times> OS_ERR \<times> os) option" where
  "OS_TaskSemPost p_tcb opt ts s = do {
     let p_tcb = tcb_self p_tcb s;
     s \<leftarrow> tcb_mod p_tcb (\<lambda>t. t\<lparr>TCB_TS := ts\<rparr>) s;
     tcb \<leftarrow> tcbs s p_tcb;
     let st = TCB_TaskState tcb;
     if st \<in> {OS_TASK_STATE_RDY, OS_TASK_STATE_DLY, OS_TASK_STATE_SUSPENDED, OS_TASK_STATE_DLY_SUSPENDED}
     then tcb_sem_inc p_tcb tcb s
     else if st \<in> {OS_TASK_STATE_PEND, OS_TASK_STATE_PEND_TIMEOUT, OS_TASK_STATE_PEND_SUSPENDED, OS_TASK_STATE_PEND_TIMEOUT_SUSPENDED}
     then if TCB_PendOn tcb = OS_TASK_PEND_ON_TASK_SEM then do {
         s \<leftarrow> OS_Post NULL p_tcb NULL 0 ts s;
         tcb \<leftarrow> tcbs s p_tcb;
         s \<leftarrow> (if opt AND OS_OPT_POST_NO_SCHED = 0 then OSSched s else Some s);
         Some (TCB_SemCtr tcb, OS_ERR_NONE, s)
       } else tcb_sem_inc p_tcb tcb s
     else Some (0, OS_ERR_STATE_INVALID, s)
   }"

definition OSTaskSemPost :: "ptr \<Rightarrow> OS_OPT \<Rightarrow> os \<Rightarrow> (OS_SEM_CTR \<times> OS_ERR \<times> os) option" where
  "OSTaskSemPost p_tcb opt s =
     (if opt \<notin> {OS_OPT_POST_NONE, OS_OPT_POST_NO_SCHED} then Some (0, OS_ERR_OPT_INVALID, s)
      else let (ts, s) = OS_TS_GET s in OS_TaskSemPost p_tcb opt ts s)"

definition OSTaskSemSet :: "ptr \<Rightarrow> OS_SEM_CTR \<Rightarrow> os \<Rightarrow> (OS_SEM_CTR \<times> OS_ERR \<times> os) option" where
  "OSTaskSemSet p_tcb cnt s =
     (if OSIntNestingCtr s > 0 then Some (0, OS_ERR_SET_ISR, s)
      else do {
        tcb \<leftarrow> tcbs s (tcb_self p_tcb s);
        s \<leftarrow> tcb_mod (tcb_self p_tcb s) (\<lambda>t. t\<lparr>TCB_SemCtr := cnt\<rparr>) s;
        Some (TCB_SemCtr tcb, OS_ERR_NONE, s)
      })"

text \<open>The interrupt service routine of the clock.  Posting from it never switches tasks, because the
  interrupt nesting counter is positive.\<close>

definition OSTimeTick :: "os \<Rightarrow> os option" where
  "OSTimeTick s = do {
     (_, _, s) \<leftarrow> OSTaskSemPost (OSTickTaskTCB s) OS_OPT_POST_NONE s;
     s \<leftarrow> OS_SchedRoundRobin (unat (OSPrioCur s)) s;
     let s = s\<lparr>OSTmrUpdateCtr := OSTmrUpdateCtr s - 1\<rparr>;
     if OSTmrUpdateCtr s = 0 then do {
       let s = s\<lparr>OSTmrUpdateCtr := OSTmrUpdateCnt s\<rparr>;
       (_, _, s) \<leftarrow> OSTaskSemPost (OSTmrTaskTCB s) OS_OPT_POST_NONE s;
       Some s
     } else Some s
   }"

subsection \<open>Signalling a task\<close>

lemma kinv_tcb_misc:
  assumes "kinv s R P W" "tcbs s x = Some t" "tcb_key (f t) = tcb_key t"
  shows "kinv (s\<lparr>tcbs := (tcbs s)(x \<mapsto> f t)\<rparr>) R P W"
  using assms kinv_tcb_upd by simp

lemma cur_rdy_tcb_misc: "cur_rdy s \<Longrightarrow> tcbs s x = Some t \<Longrightarrow> tcb_key t' = tcb_key t \<Longrightarrow> cur_rdy (s\<lparr>tcbs := (tcbs s)(x \<mapsto> t')\<rparr>)"
  by (auto simp: cur_rdy_def tcb_key_def rdy_view_def)

lemma sys_tcb_misc: "sys s R P W \<Longrightarrow> tcbs s x = Some t \<Longrightarrow> tcb_key t' = tcb_key t \<Longrightarrow> sys (s\<lparr>tcbs := (tcbs s)(x \<mapsto> t')\<rparr>) R P W"
  unfolding sys_def using cur_rdy_tcb_misc kinv_tcb_upd by blast

text \<open>The task waits for its own semaphore.\<close>

definition waits_sem :: "OS_TCB \<Rightarrow> bool" where
  "waits_sem t \<longleftrightarrow> st_pend (TCB_TaskState t) \<and> TCB_PendOn t = OS_TASK_PEND_ON_TASK_SEM"

lemma OS_TaskSemPost_counts:
  assumes S: "sys s R P W" and t: "tcbs s x = Some t" "TCB_TaskState t \<le> 7" "\<not> waits_sem t" and x: "tcb_self p s = x"
  shows "\<exists>s' t'. OS_TaskSemPost p opt ts s = Some (if TCB_SemCtr t = - 1 then 0 else TCB_SemCtr t + 1, if TCB_SemCtr t = - 1 then OS_ERR_SEM_OVF else OS_ERR_NONE, s') \<and>
    sys s' R P W \<and> s' = s\<lparr>tcbs := (tcbs s)(x \<mapsto> t')\<rparr> \<and> t' = (if TCB_SemCtr t = - 1 then t\<lparr>TCB_TS := ts\<rparr> else t\<lparr>TCB_TS := ts, TCB_SemCtr := TCB_SemCtr t + 1\<rparr>)"
proof -
  let ?t = "(if TCB_SemCtr t = - 1 then t\<lparr>TCB_TS := ts\<rparr> else t\<lparr>TCB_TS := ts, TCB_SemCtr := TCB_SemCtr t + 1\<rparr>)"
  have "sys (s\<lparr>tcbs := (tcbs s)(x \<mapsto> ?t)\<rparr>) R P W" by (rule sys_tcb_misc [OF S t(1)]) (simp add: tcb_key_def rdy_view_def tick_view_def)
  moreover have "TCB_TaskState t \<in> {0, 1, 2, 3, 4, 5, 6, 7}" by (rule state_cases [OF t(2)])
  then have "OS_TaskSemPost p opt ts s = tcb_sem_inc x (t\<lparr>TCB_TS := ts\<rparr>) (s\<lparr>tcbs := (tcbs s)(x \<mapsto> t\<lparr>TCB_TS := ts\<rparr>)\<rparr>)"
    using t(1,3) x unfolding OS_TaskSemPost_def Let_def waits_sem_def st_pend_def by auto
  then have "OS_TaskSemPost p opt ts s = Some (if TCB_SemCtr t = - 1 then 0 else TCB_SemCtr t + 1, if TCB_SemCtr t = - 1 then OS_ERR_SEM_OVF else OS_ERR_NONE, s\<lparr>tcbs := (tcbs s)(x \<mapsto> ?t)\<rparr>)"
    by (cases "TCB_SemCtr t = - 1") (simp_all add: tcb_sem_inc_def)
  ultimately show ?thesis by blast
qed

lemma OS_TaskSemPost_wakes:
  assumes S: "sys s R P W" and t: "tcbs s x = Some t" "waits_sem t" "pend_tbl t = {}" and x: "tcb_self p s = x"
  shows "\<exists>s1 s' t'. OS_TaskSemPost p opt ts s = Some (TCB_SemCtr t', OS_ERR_NONE, s') \<and>
    sys s' (wake_rdy s x t R) P (\<lambda>i. filter (\<lambda>y. y \<noteq> x) (W i)) \<and> tcbs s1 x = Some t' \<and> woken_tcb OS_STATUS_PEND_OK (NULL, 0, ts) t t' \<and>
    kframe {x} {} s s1 \<and> sw_frame s1 s' \<and> (opt AND OS_OPT_POST_NO_SCHED = 0 \<longrightarrow> sched_done s1 (wake_rdy s x t R) s')"
proof -
  have st: "st_pend (TCB_TaskState t)" "TCB_PendOn t = OS_TASK_PEND_ON_TASK_SEM" using t(2) by (simp_all add: waits_sem_def)
  let ?t = "t\<lparr>TCB_TS := ts\<rparr>" let ?s = "s\<lparr>tcbs := (tcbs s)(x \<mapsto> ?t)\<rparr>"
  have S0: "sys ?s R P W" by (rule sys_tcb_misc [OF S t(1)]) (simp add: tcb_key_def rdy_view_def tick_view_def)
  then have K: "kinv ?s R P W" by (simp add: sys_def)
  have tx: "tcbs ?s x = Some ?t" "st_pend (TCB_TaskState ?t)" "if NULL = NULL then pend_tbl ?t = {} else NULL \<in> dom (objs ?s)"
    using st t(3) by (simp_all add: pend_tbl_def)
  from OS_Post_ok [OF K tx, of NULL 0 ts] obtain s1 t' where s1: "OS_Post NULL x NULL 0 ts ?s = Some s1" "woken ?s R P W x ?t s1 t'"
    "TCB_PendStatus t' = OS_STATUS_PEND_OK" "tcb_msg t' = (NULL, 0, ts)" using st(2) by auto
  have P: "pend_tbl ?t = {}" using t(3) by (simp add: pend_tbl_def)
  have r: "wake_rdy ?s x ?t R = wake_rdy s x t R" by (simp add: wake_rdy_def)
  have w: "kinv s1 (wake_rdy s x t R) P (\<lambda>i. filter (\<lambda>y. y \<noteq> x) (W i))" "kframe {x} {} ?s s1" "tcbs s1 x = Some t'" "TCB_Prio t' = TCB_Prio t"
    "TCB_TaskState t' = TCB_TaskState t AND OS_TASK_STATE_BIT_SUSPENDED" "TCB_PendOn t' = OS_TASK_PEND_ON_NOTHING"
    using s1(2) unfolding woken_def P r by simp_all
  have F: "kframe {x} {} s s1" using kframe_trans [OF kframe_tcb_upd [OF t(1)] w(2)] by blast
  from S obtain c where c: "tcbs s (OSTCBCurPtr s) = Some c" "TCB_Prio c = OSPrioCur s" "TCB_TaskState c = OS_TASK_STATE_RDY"
    by (auto simp: sys_def cur_rdy_def)
  then have "OSTCBCurPtr s \<notin> {x}" using t(1) st(1) by (auto simp: st_pend_def)
  from kframe_tcb(1) [OF F this c(1)] obtain c1 where c1: "tcbs s1 (OSTCBCurPtr s) = Some c1" "tcb_other c1 = tcb_other c" by blast
  have "cur_rdy s1" using c1(1) c(2,3) tcb_other_eqD(1,2) [OF c1(2)] kframe_globals(11,12) [OF F] by (simp add: cur_rdy_def)
  then have "sys s1 (wake_rdy s x t R) P (\<lambda>i. filter (\<lambda>y. y \<noteq> x) (W i))" using w(1) by (simp add: sys_def)
  from sched_if_ok [OF this, of "opt AND OS_OPT_POST_NO_SCHED = 0"] obtain s' where s': "(if opt AND OS_OPT_POST_NO_SCHED = 0 then OSSched s1 else Some s1) = Some s'"
    "sys s' (wake_rdy s x t R) P (\<lambda>i. filter (\<lambda>y. y \<noteq> x) (W i))" "sw_frame s1 s'" "opt AND OS_OPT_POST_NO_SCHED = 0 \<longrightarrow> sched_done s1 (wake_rdy s x t R) s'" by blast
  have "woken_tcb OS_STATUS_PEND_OK (NULL, 0, ts) t t'" using w(4-6) s1(3,4) by (simp add: woken_tcb_def)
  moreover have "OS_TaskSemPost p opt ts s = Some (TCB_SemCtr t', OS_ERR_NONE, s')"
    using t(1) x st s1(1) s'(1) w(3) unfolding OS_TaskSemPost_def Let_def st_pend_def by auto
  ultimately show ?thesis using s' w(3) F by blast
qed

subsection \<open>The clock interrupt\<close>

lemma OS_SchedRoundRobin_ok:
  assumes S: "sys s R P W" and p: "p < OS_CFG_PRIO_MAX"
  shows "\<exists>s' R'. OS_SchedRoundRobin p s = Some s' \<and> sys s' R' P W \<and> (R' = R \<or> R' = rr_rotate p R) \<and>
    (\<forall>x. map_option rr_core (tcbs s' x) = map_option rr_core (tcbs s x)) \<and> os_less_rdy s' = os_less_rdy s"
proof -
  have K: "kinv s R P W" and c: "cur_rdy s" using S by (simp_all add: sys_def)
  note k = kinvD [OF K]
  have "rdy_links s R" using k(2) by (simp add: rdy_rel_def)
  then obtain rl where rl0: "OSRdyList s p = Some rl" "linked TCB_NextPtr TCB_PrevPtr (tcbs s) (RL_HeadPtr rl) (RL_TailPtr rl) (R p)"
    by (rule rdy_links_obtain [OF _ p])
  then have rl: "OSRdyList s p = Some rl" "RL_HeadPtr rl = hd0 NULL (R p)" using linkedD(4) by blast+
  show ?thesis
  proof (cases "\<not> OSSchedRoundRobinEn s \<or> RL_HeadPtr rl = NULL \<or> RL_HeadPtr rl = OSIdleTaskTCB s")
    case True
    then have "OS_SchedRoundRobin p s = Some s" using rl(1) by (auto simp: OS_SchedRoundRobin_def Let_def)
    with S show ?thesis by blast
  next
    case False
    then have dec: "R p \<noteq> []" "\<not> (\<not> OSSchedRoundRobinEn s \<or> RL_HeadPtr rl = NULL \<or> RL_HeadPtr rl = OSIdleTaskTCB s)" using rl(2) by auto
    let ?x = "RL_HeadPtr rl"
    have x: "?x \<in> set (R p)" using rl(2) dec(1) by (simp add: hd0_in)
    from rdy_rel_list(3) [OF k(2) x] obtain t where t: "tcbs s ?x = Some t" by blast
    let ?t = "if TCB_TimeQuantaCtr t > 0 then t\<lparr>TCB_TimeQuantaCtr := TCB_TimeQuantaCtr t - 1\<rparr> else t" let ?s = "s\<lparr>tcbs := (tcbs s)(?x \<mapsto> ?t)\<rparr>"
    have S1: "sys ?s R P W" by (rule sys_tcb_misc [OF S t]) (simp add: tcb_key_def rdy_view_def tick_view_def)
    then have K1: "kinv ?s R P W" by (simp add: sys_def)
    from rr_step_ok [OF K1 p dec(1)] obtain s1 s2 where s2: "OS_RdyListMoveHeadToTail p ?s = Some s1" "rr_quanta p s1 = Some s2" "kinv s2 (rr_rotate p R) P W"
      "os_less_rdy s2 = os_less_rdy ?s" "OSTCBCurPtr s2 = OSTCBCurPtr ?s" "\<forall>x. map_option rr_core (tcbs s2 x) = map_option rr_core (tcbs ?s x)" by blast
    have e: "OS_SchedRoundRobin p s = (if TCB_TimeQuantaCtr ?t > 0 \<or> RL_NbrEntries rl < 2 \<or> OSSchedLockNestingCtr s > 0 then Some ?s else Some s2)"
    proof -
      define t1 where "t1 = ?t"
      show ?thesis using rl(1) t dec(2) s2(1,2) unfolding OS_SchedRoundRobin_def Let_def t1_def [symmetric]
        by (simp add: t1_def [symmetric] split del: if_split) simp
    qed
    have dm: "\<forall>x. map_option rr_core (tcbs ?s x) = map_option rr_core (tcbs s x)" using t by (simp add: rr_core_def tcb_core_def)
    have pc: "OSPrioCur s2 = OSPrioCur s" using os_less_rdyD(5) [OF s2(4)] by simp
    have "OSTCBCurPtr s \<in> set (rr_rotate p R (unat (OSPrioCur s)))" using cur_rdy_in [OF K c] by (auto simp: rr_rotate_def)
    then obtain u where u: "tcbs s2 (OSTCBCurPtr s) = Some u" "unat (TCB_Prio u) = unat (OSPrioCur s)" "TCB_TaskState u = OS_TASK_STATE_RDY"
      by (rule rdy_task_state [OF s2(3)])
    then have "TCB_Prio u = OSPrioCur s" by (simp add: word_eq_iff_unsigned [where 'a = nat])
    then have "sys s2 (rr_rotate p R) P W" using u s2(3,5) pc by (simp add: sys_def cur_rdy_def)
    moreover have "os_less_rdy ?s = os_less_rdy s" by (simp add: os_less_rdy_def)
    ultimately show ?thesis unfolding e using S1 dm s2(4,6) by auto
  qed
qed

text \<open>A task the clock interrupt may signal: its state is valid, and it is in no pend list while it
  waits for its semaphore.\<close>

definition signal_ok :: "OS_TCB \<Rightarrow> bool" where
  "signal_ok t \<longleftrightarrow> TCB_TaskState t \<le> 7 \<and> (waits_sem t \<longrightarrow> pend_tbl t = {})"

lemma signal_ok_cong:
  assumes "TCB_TaskState t' = TCB_TaskState t" "TCB_PendOn t' = TCB_PendOn t" "pend_tbl t' = pend_tbl t"
  shows "signal_ok t' = signal_ok t"
  using assms by (simp add: signal_ok_def waits_sem_def)

lemma OSTaskSemPost_isr:
  assumes S: "sys s R P W" and t: "tcbs s x = Some t" "signal_ok t" and x: "x \<noteq> NULL" and n: "OSIntNestingCtr s > 0"
  shows "\<exists>c e s' R' W'. OSTaskSemPost x OS_OPT_POST_NONE s = Some (c, e, s') \<and> sys s' R' P W' \<and> (\<forall>q. set (R q) \<subseteq> set (R' q)) \<and>
    kframe {x} {} (snd (OS_TS_GET s)) s' \<and> (waits_sem t \<longrightarrow> R' = wake_rdy s x t R)"
proof -
  let ?s = "snd (OS_TS_GET s)" let ?ts = "fst (OS_TS_GET s)"
  have s0: "sys ?s R P W" "tcbs ?s x = Some t" "tcb_self x ?s = x" "OSIntNestingCtr ?s > 0" "wake_rdy ?s x t R = wake_rdy s x t R"
    using S t(1) x n by (simp_all add: OS_TS_GET_def tcb_self_def wake_rdy_def)
  have e: "OSTaskSemPost x OS_OPT_POST_NONE s = OS_TaskSemPost x OS_OPT_POST_NONE ?ts ?s" by (simp add: OSTaskSemPost_def case_prod_unfold Let_def)
  show ?thesis
  proof (cases "waits_sem t")
    case False
    from OS_TaskSemPost_counts [OF s0(1,2) _ False s0(3), of OS_OPT_POST_NONE ?ts] t(2) obtain c er s' t' where
      s': "OS_TaskSemPost x OS_OPT_POST_NONE ?ts ?s = Some (c, er, s')" "sys s' R P W" "s' = ?s\<lparr>tcbs := (tcbs ?s)(x \<mapsto> t')\<rparr>" unfolding signal_ok_def by blast
    have "kframe {x} {} ?s s'" unfolding s'(3) by (rule kframe_tcb_upd [OF s0(2)]) simp
    with s'(1,2) e False show ?thesis by (metis order_refl)
  next
    case True
    with t(2) have pt: "pend_tbl t = {}" by (simp add: signal_ok_def)
    from OS_TaskSemPost_wakes [OF s0(1,2) True pt s0(3), of OS_OPT_POST_NONE ?ts] obtain s1 s' and t' :: OS_TCB where
      s': "OS_TaskSemPost x OS_OPT_POST_NONE ?ts ?s = Some (TCB_SemCtr t', OS_ERR_NONE, s')" "sys s' (wake_rdy s x t R) P (\<lambda>i. filter (\<lambda>y. y \<noteq> x) (W i))" "kframe {x} {} ?s s1" "OS_OPT_POST_NONE AND OS_OPT_POST_NO_SCHED = 0 \<longrightarrow> sched_done s1 (wake_rdy s x t R) s'"
      unfolding s0(5) by blast
    have "s' = s1" using s'(4) kframe_globals(8) [OF s'(3)] s0(4) by (simp add: sched_done_def)
    moreover have "set (R q) \<subseteq> set (wake_rdy s x t R q)" for q by (auto simp: wake_rdy_def rdy_insert_def)
    ultimately show ?thesis using s'(1-3) e by (intro exI [of _ "TCB_SemCtr t'"] exI [of _ OS_ERR_NONE] exI [of _ s'] exI [of _ "wake_rdy s x t R"] exI [of _ "\<lambda>i. filter (\<lambda>y. y \<noteq> x) (W i)"]) simp
  qed
qed

lemma OSTimeTick_ok:
  assumes S: "sys s R P W" and n: "OSIntNestingCtr s > 0"
    and x: "OSTickTaskTCB s = x" "x \<noteq> NULL" "tcbs s x = Some t" "signal_ok t"
    and y: "OSTmrTaskTCB s = y" "y \<noteq> NULL" "y \<noteq> x" "tcbs s y = Some u" "signal_ok u"
  shows "\<exists>s' R' W'. OSTimeTick s = Some s' \<and> sys s' R' P W' \<and> OSTCBCurPtr s' = OSTCBCurPtr s \<and>
    (waits_sem t \<and> TCB_TaskState t AND OS_TASK_STATE_BIT_SUSPENDED = 0 \<longrightarrow> x \<in> set (R' (unat (TCB_Prio t))))"
proof -
  from OSTaskSemPost_isr [OF S x(3,4,2) n] obtain c e s1 R1 W1 where
    s1: "OSTaskSemPost x OS_OPT_POST_NONE s = Some (c, e, s1)" "sys s1 R1 P W1" "kframe {x} {} (snd (OS_TS_GET s)) s1" "waits_sem t \<longrightarrow> R1 = wake_rdy s x t R" by blast
  have k1: "os_less_k s1 = os_less_k (snd (OS_TS_GET s))" using s1(3) by (simp add: kframe_def)
  note g1 = kframe_globals [OF s1(3)]
  have T1: "OSTmrTaskTCB s1 = y" "OSIntNestingCtr s1 > 0" "OSTCBCurPtr s1 = OSTCBCurPtr s"
    using arg_cong [OF k1, of OSTmrTaskTCB] g1(8,12) y(1) n by (simp_all add: os_less_k_def OS_TS_GET_def)
  have "y \<notin> {x}" "tcbs (snd (OS_TS_GET s)) y = Some u" using y(3,4) by (simp_all add: OS_TS_GET_def)
  from kframe_tcb(1) [OF s1(3) this] obtain u1 where u1: "tcbs s1 y = Some u1" "tcb_other u1 = tcb_other u" by blast
  have su1: "signal_ok u1" using y(5) signal_ok_cong [OF tcb_other_eqD(2) [OF u1(2)] tcb_other_more(1) [OF u1(2)] tcb_other_eqD(3) [OF u1(2)]] by simp
  have p: "unat (OSPrioCur s1) < OS_CFG_PRIO_MAX" using s1(2) kinvD(7) unfolding sys_def cur_rdy_def by (fastforce simp: task_ok_def)
  from OS_SchedRoundRobin_ok [OF s1(2) p] obtain s2 R2 where s2: "OS_SchedRoundRobin (unat (OSPrioCur s1)) s1 = Some s2" "sys s2 R2 P W1"
    "R2 = R1 \<or> R2 = rr_rotate (unat (OSPrioCur s1)) R1" "\<forall>x. map_option rr_core (tcbs s2 x) = map_option rr_core (tcbs s1 x)" "os_less_rdy s2 = os_less_rdy s1" by blast
  have R2: "set (R2 q) = set (R1 q)" for q using s2(3) by (cases "q = unat (OSPrioCur s1)") (auto simp: rr_rotate_def)
  have T2: "OSTmrTaskTCB s2 = y" "OSIntNestingCtr s2 > 0" "OSTCBCurPtr s2 = OSTCBCurPtr s"
    using arg_cong [OF s2(5), of OSTmrTaskTCB] arg_cong [OF s2(5), of OSIntNestingCtr] arg_cong [OF s2(5), of OSTCBCurPtr] T1 by (simp_all add: os_less_rdy_def)
  have "map_option rr_core (tcbs s2 y) = Some (rr_core u1)" using s2(4) u1(1) by simp
  then obtain u2 where u2: "tcbs s2 y = Some u2" "rr_core u2 = rr_core u1" by (auto simp: map_option_Some_iff)
  have v: "TCB_TaskState (rr_core w) = TCB_TaskState w" "TCB_PendOn (rr_core w) = TCB_PendOn w" "pend_tbl (rr_core w) = pend_tbl w" for w
    by (simp_all add: rr_core_def tcb_core_def pend_tbl_def)
  have su2: "signal_ok u2" using su1 signal_ok_cong [of u2 u1] u2(2) v by metis
  have inx: "x \<in> set (R2 (unat (TCB_Prio t)))" if "waits_sem t" "TCB_TaskState t AND OS_TASK_STATE_BIT_SUSPENDED = 0"
    using s1(4) that by (simp add: R2 wake_rdy_def rdy_insert_def)
  let ?c = "OSTmrUpdateCtr s2 - 1" let ?s3 = "s2\<lparr>OSTmrUpdateCtr := ?c\<rparr>" let ?s4 = "s2\<lparr>OSTmrUpdateCtr := OSTmrUpdateCnt s2\<rparr>"
  have S': "sys (s2\<lparr>OSTmrUpdateCtr := v\<rparr>) R2 P W1" for v
    using s2(2) kinv_cong [of "s2\<lparr>OSTmrUpdateCtr := v\<rparr>" s2 R2 P W1] by (simp add: sys_def cur_rdy_def)
  show ?thesis
  proof (cases "?c = 0")
    case False
    then have "OSTimeTick s = Some ?s3" using s1(1) s2(1) x(1) by (simp add: OSTimeTick_def Let_def)
    with S' inx T2(3) show ?thesis by (intro exI [of _ ?s3] exI [of _ R2] exI [of _ W1]) simp
  next
    case True
    have tq: "tcbs ?s4 y = Some u2" "OSIntNestingCtr ?s4 > 0" using u2(1) T2(2) by simp_all
    from OSTaskSemPost_isr [OF S' tq(1) su2 y(2) tq(2)] obtain c' e' s5 R5 W5 where
      s5: "OSTaskSemPost y OS_OPT_POST_NONE ?s4 = Some (c', e', s5)" "sys s5 R5 P W5" "\<forall>q. set (R2 q) \<subseteq> set (R5 q)" "kframe {y} {} (snd (OS_TS_GET ?s4)) s5" by blast
    have "OSTimeTick s = Some s5" using s1(1) s2(1) x(1) True T2(1) s5(1) by (simp add: OSTimeTick_def Let_def)
    moreover have "OSTCBCurPtr s5 = OSTCBCurPtr s" using kframe_globals(12) [OF s5(4)] T2(3) by (simp add: OS_TS_GET_def)
    ultimately show ?thesis using s5(2,3) inx by (intro exI [of _ s5] exI [of _ R5] exI [of _ W5]) blast
  qed
qed

end
