(* ===== verification/Task_Props.thy ===== *)
theory Task_Props
  imports OS_Mutex OS_TaskLife OS_TaskSync Object_Props
begin

text \<open>
  The properties of mutexes and of task management, each with a witness on the state \<open>demo\<close> of
  \<open>OS_Example\<close> or on that state with another owner of the mutex at address 24.
\<close>

subsection \<open>Mutexes\<close>

definition demo_owned :: "ptr \<Rightarrow> OS_PRIO \<Rightarrow> OS_NESTING_CTR \<Rightarrow> os" where
  "demo_owned x q n = demo\<lparr>mutexes := [24 \<mapsto> \<lparr>MTX_OwnerTCBPtr = x, MTX_OwnerOriginalPrio = q, MTX_OwnerNestingCtr = n, MTX_TS = 0\<rparr>]\<rparr>"

lemma demo_owned_sys: "sys (demo_owned x q n) demo_R demo_P demo_W"
  using demo_sys by (simp add: demo_owned_def)

lemma demo_owned_mutex: "mutex_at (demo_owned x q n) 24 \<lparr>MTX_OwnerTCBPtr = x, MTX_OwnerOriginalPrio = q, MTX_OwnerNestingCtr = n, MTX_TS = 0\<rparr>"
  by (simp add: mutex_at_def demo_owned_def demo_def obj0_def)

lemma demo_owned_sel [simp]: "OSIntNestingCtr (demo_owned x q n) = 0" "OSSchedLockNestingCtr (demo_owned x q n) = 0" "OSTCBCurPtr (demo_owned x q n) = 1"
  "OSPrioCur (demo_owned x q n) = 5" "tcbs (demo_owned x q n) = demo_tcb" "pds (demo_owned x q n) = pds demo"
  by (simp_all add: demo_owned_def demo_def os0_def)

lemma call_result: "f = Some (r, s') \<Longrightarrow> sys s' R P W \<Longrightarrow> Q r s' R P \<Longrightarrow> \<exists>r s' R' P' W'. f = Some (r, s') \<and> sys s' R' P' W' \<and> Q r s' R' P'"
  by blast

text \<open>C12. A call for a free mutex makes the running task its owner.  A call by the owner
  counts one more level and reports that it owns the mutex.  A call for a mutex another task owns
  reports that it would block when it may not, and else blocks the running task on the mutex: the
  owner inherits the priority of the running task when that is more urgent, no other priority
  changes, the owner is then at least as urgent as every task on the pend list if it was before,
  and the most urgent ready task runs.  The kernel invariant is kept in all cases.\<close>

theorem OSMutexPend_spec:
  assumes "sys s R P W" "mutex_at s p m" "OSIntNestingCtr s = 0" "OSSchedLockNestingCtr s = 0"
    and "MTX_OwnerTCBPtr m = x" "MTX_OwnerNestingCtr m \<noteq> 0 \<Longrightarrow> tcbs s x = Some t" "TCB_TaskState t \<le> 7"
    and "y \<in> set (R q)" "y \<noteq> OSTCBCurPtr s" "d \<in> dom (pds s)" "d \<noteq> NULL" "\<And>ob. d \<notin> set (P ob)"
    and "opt \<in> {OS_OPT_PEND_BLOCKING, OS_OPT_PEND_NON_BLOCKING}"
  shows "\<exists>r s' R' P' W'. OSMutexPend d p timeout opt p_ts s = Some (r, s') \<and> sys s' R' P' W' \<and>
    (if MTX_OwnerNestingCtr m = 0 then r = Done (ts_out p_ts (MTX_TS m), OS_ERR_NONE) \<and>
       s' = s\<lparr>mutexes := (mutexes s)(p \<mapsto> m\<lparr>MTX_OwnerTCBPtr := OSTCBCurPtr s, MTX_OwnerOriginalPrio := OSPrioCur s, MTX_OwnerNestingCtr := 1\<rparr>)\<rparr>
     else if x = OSTCBCurPtr s then r = Done (ts_out p_ts (MTX_TS m), OS_ERR_MUTEX_OWNER) \<and>
       s' = s\<lparr>mutexes := (mutexes s)(p \<mapsto> m\<lparr>MTX_OwnerNestingCtr := MTX_OwnerNestingCtr m + 1\<rparr>)\<rparr>
     else if opt = OS_OPT_PEND_NON_BLOCKING then r = Done (ts_out p_ts 0, OS_ERR_PEND_WOULD_BLOCK) \<and> s' = s
     else r = Blocked \<and> set (P' p) = insert d (set (P p)) \<and> mutexes s' = mutexes s \<and> waiter s' d = OSTCBCurPtr s \<and>
       task_prio s' x = min (task_prio s x) (OSPrioCur s) \<and> (\<forall>z. z \<noteq> x \<longrightarrow> task_prio s' z = task_prio s z) \<and>
       (no_inversion s P p x \<longrightarrow> no_inversion s' P' p x) \<and> OSTCBCurPtr s' = top_task R' \<and> OSTCBCurPtr s' \<noteq> OSTCBCurPtr s)"
proof -
  have c: "cur_rdy s" using assms(1) by (simp add: sys_def)
  consider (f) "MTX_OwnerNestingCtr m = 0" | (o) "MTX_OwnerNestingCtr m \<noteq> 0" "x = OSTCBCurPtr s"
    | (n) "MTX_OwnerNestingCtr m \<noteq> 0" "x \<noteq> OSTCBCurPtr s" "opt = OS_OPT_PEND_NON_BLOCKING"
    | (b) "MTX_OwnerNestingCtr m \<noteq> 0" "x \<noteq> OSTCBCurPtr s" "opt = OS_OPT_PEND_BLOCKING" using assms(13) by blast
  then show ?thesis
  proof cases
    case f
    from assms(1) f show ?thesis by - (rule call_result [OF OSMutexPend_free [OF assms(2) f assms(3) c assms(13)]], simp_all)
  next
    case o
    have w: "MTX_OwnerTCBPtr m = OSTCBCurPtr s" using assms(5) o by simp
    from assms(1) o show ?thesis by - (rule call_result [OF OSMutexPend_owner [OF assms(2) o(1) w assms(3) c assms(13)]], simp_all)
  next
    case n
    have e: "OSMutexPend d p timeout opt p_ts s = Some (Done (ts_out p_ts 0, OS_ERR_PEND_WOULD_BLOCK), s)"
      using assms(2,3,5) n c by (auto simp: OSMutexPend_def mutex_at_def cur_rdy_def)
    from assms(1) n show ?thesis by - (rule call_result [OF e], simp_all)
  next
    case b
    from OSMutexPend_blocks [OF assms(1,2) b(1) assms(3,4,5) b(2) assms(6) [OF b(1)] assms(7-12), of timeout p_ts] obtain s' R' P' W' where
      e: "OSMutexPend d p timeout opt p_ts s = Some (Blocked, s')" "sys s' R' P' W'"
      and g: "set (P' p) = insert d (set (P p))" "mutexes s' = mutexes s" "waiter s' d = OSTCBCurPtr s"
        "task_prio s' x = min (task_prio s x) (OSPrioCur s)" "\<forall>z. z \<noteq> x \<longrightarrow> task_prio s' z = task_prio s z"
        "no_inversion s P p x \<longrightarrow> no_inversion s' P' p x" "OSTCBCurPtr s' = top_task R'" "OSTCBCurPtr s' \<noteq> OSTCBCurPtr s"
      unfolding b(3) by blast
    show ?thesis by (rule call_result [OF e]) (use g b in simp)
  qed
qed

theorem OSMutexPend_spec_witness:
  "\<exists>s' R' P' W'. OSMutexPend 11 24 0 OS_OPT_PEND_BLOCKING False (demo_owned 4 31 1) = Some (Blocked, s') \<and> sys s' R' P' W' \<and>
     task_prio s' 4 = 5 \<and> waiter s' 11 = 1 \<and> OSTCBCurPtr s' \<noteq> 1"
proof -
  have t: "tcbs (demo_owned 4 31 1) 4 = Some (tcb0\<lparr>TCB_Prio := 31\<rparr>)" by (simp add: demo_tcb_def)
  have "TCB_TaskState (tcb0\<lparr>TCB_Prio := 31\<rparr>) \<le> 7" by (simp add: tcb0_def)
  from OSMutexPend_spec [OF demo_owned_sys demo_owned_mutex _ _ _ t this, where d = 11 and timeout = 0 and opt = OS_OPT_PEND_BLOCKING and p_ts = False, of 2 5]
  show ?thesis using demo_free_pd t by fastforce
qed

text \<open>C13. Only the owner can release a mutex: for any other task the call reports the error
  and changes nothing.  Releasing an inner level counts down.  Releasing the outermost level of a
  mutex on which tasks wait gives the running task back the priority it had when it took the
  mutex, makes the most urgent waiting task the owner with the level 1 and its own priority as the
  one to return to, and reschedules when asked to; the new owner is at least as urgent as every task
  still waiting.  Releasing a mutex on which no task waits frees it and leaves every priority as it
  is, also the one that the running task inherited from a task that has since given up waiting.
  The kernel invariant is kept in all cases.\<close>

theorem OSMutexPost_spec:
  assumes "sys s R P W" "mutex_at s p m" "OSIntNestingCtr s = 0" "opt \<in> {OS_OPT_POST_NONE, OS_OPT_POST_NO_SCHED}"
    and "unat (MTX_OwnerOriginalPrio m) < OS_CFG_PRIO_MAX" "distinct (map (waiter s) (P p))"
  shows "\<exists>e s' R' P' W'. OSMutexPost p opt s = Some (e, s') \<and> sys s' R' P' W' \<and>
    (if MTX_OwnerTCBPtr m \<noteq> OSTCBCurPtr s then e = OS_ERR_MUTEX_NOT_OWNER \<and> s' = s
     else if MTX_OwnerNestingCtr m \<noteq> 1 then e = OS_ERR_MUTEX_NESTING \<and> task_prio s' = task_prio s \<and>
       mutexes s' = (mutexes s)(p \<mapsto> m\<lparr>MTX_TS := fst (OS_TS_GET s), MTX_OwnerNestingCtr := MTX_OwnerNestingCtr m - 1\<rparr>)
     else if P p = [] then e = OS_ERR_NONE \<and> task_prio s' = task_prio s \<and>
       mutexes s' = (mutexes s)(p \<mapsto> m\<lparr>MTX_TS := fst (OS_TS_GET s), MTX_OwnerTCBPtr := NULL, MTX_OwnerNestingCtr := 0\<rparr>)
     else e = OS_ERR_NONE \<and> P' p = tl (P p) \<and> no_inversion s' P' p (waiter s (hd (P p))) \<and>
       mutexes s' = (mutexes s)(p \<mapsto> \<lparr>MTX_OwnerTCBPtr = waiter s (hd (P p)), MTX_OwnerOriginalPrio = task_prio s (waiter s (hd (P p))),
         MTX_OwnerNestingCtr = 1, MTX_TS = fst (OS_TS_GET s)\<rparr>) \<and>
       task_prio s' (OSTCBCurPtr s) = MTX_OwnerOriginalPrio m \<and> (\<forall>z. z \<noteq> OSTCBCurPtr s \<longrightarrow> task_prio s' z = task_prio s z))"
proof -
  consider (n) "MTX_OwnerTCBPtr m \<noteq> OSTCBCurPtr s" | (l) "MTX_OwnerTCBPtr m = OSTCBCurPtr s" "MTX_OwnerNestingCtr m \<noteq> 1"
    | (f) "MTX_OwnerTCBPtr m = OSTCBCurPtr s" "MTX_OwnerNestingCtr m = 1" "P p = []"
    | (w) d ds where "MTX_OwnerTCBPtr m = OSTCBCurPtr s" "MTX_OwnerNestingCtr m = 1" "P p = d # ds" by (cases "P p") auto
  then show ?thesis
  proof cases
    case n
    from assms(1) n show ?thesis by - (rule call_result [OF OSMutexPost_not_owner [OF assms(2) n assms(3,4)]], simp_all)
  next
    case l
    from assms(1) l show ?thesis
      by - (rule call_result [OF OSMutexPost_nested [OF assms(2) l(1) assms(3,4) l(2)]], simp_all add: OS_TS_GET_def)
  next
    case f
    from assms(1) f show ?thesis
      by - (rule call_result [OF OSMutexPost_free [OF assms(1,2) f(1,2) assms(3,4) f(3)]], simp_all add: OS_TS_GET_def)
  next
    case w
    from OSMutexPost_hands_over [OF assms(1,2) w(1,2) assms(5,3,4) w(3) assms(6)] obtain s' R' P' W' where
      e: "OSMutexPost p opt s = Some (OS_ERR_NONE, s')" "sys s' R' P' W'" and g: "P' p = ds"
        "mutexes s' = (mutexes s)(p \<mapsto> \<lparr>MTX_OwnerTCBPtr = waiter s d, MTX_OwnerOriginalPrio = task_prio s (waiter s d),
          MTX_OwnerNestingCtr = 1, MTX_TS = fst (OS_TS_GET s)\<rparr>)"
        "task_prio s' (OSTCBCurPtr s) = MTX_OwnerOriginalPrio m" "\<forall>z. z \<noteq> OSTCBCurPtr s \<longrightarrow> task_prio s' z = task_prio s z"
        "no_inversion s' P' p (waiter s d)" by blast
    show ?thesis by (rule call_result [OF e]) (use g w in simp)
  qed
qed

text \<open>The witness: task 1 runs with the priority 5 it inherited and owned the mutex with priority 9;
  the release leaves it at priority 5.\<close>

theorem OSMutexPost_spec_witness:
  "\<exists>s' R' P' W'. OSMutexPost 24 OS_OPT_POST_NONE (demo_owned 1 9 1) = Some (OS_ERR_NONE, s') \<and> sys s' R' P' W' \<and>
     task_prio s' 1 = 5 \<and> map_option MTX_OwnerNestingCtr (mutexes s' 24) = Some 0"
proof -
  have "task_prio (demo_owned 1 9 1) 1 = 5" by (simp add: task_prio_def fld_def demo_tcb_def tcb0_def)
  with OSMutexPost_spec [OF demo_owned_sys [of 1 9 1] demo_owned_mutex, where opt = OS_OPT_POST_NONE]
  show ?thesis by fastforce
qed

text \<open>C19. The nesting counter has 8 bits and is not guarded: at level 255 one more call
  by the owner reports success and wraps the counter to 0, after which the first other task to ask
  for the mutex gets it, while the first owner still believes to hold it.\<close>

theorem OSMutexPend_nesting_wraps:
  assumes "sys s R P W" "mutex_at s p m" "OSIntNestingCtr s = 0" "MTX_OwnerTCBPtr m = OSTCBCurPtr s" "MTX_OwnerNestingCtr m = 255"
  shows "\<exists>ts s'. OSMutexPend d p timeout OS_OPT_PEND_BLOCKING p_ts s = Some (Done (ts, OS_ERR_MUTEX_OWNER), s') \<and> sys s' R P W \<and>
    (\<forall>s2 d2 timeout2. mutexes s2 = mutexes s' \<and> map_option OBJ_Type (objs s2 p) = Some OS_OBJ_TYPE_MUTEX \<and> OSIntNestingCtr s2 = 0 \<and> cur_rdy s2 \<longrightarrow>
      (\<exists>s3. OSMutexPend d2 p timeout2 OS_OPT_PEND_BLOCKING False s2 = Some (Done (ts_out False (MTX_TS m), OS_ERR_NONE), s3) \<and>
        map_option MTX_OwnerTCBPtr (mutexes s3 p) = Some (OSTCBCurPtr s2)))"
proof -
  let ?m = "m\<lparr>MTX_OwnerNestingCtr := MTX_OwnerNestingCtr m + 1\<rparr>" let ?s' = "s\<lparr>mutexes := (mutexes s)(p \<mapsto> ?m)\<rparr>"
  have c: "cur_rdy s" using assms(1) by (simp add: sys_def)
  have e: "OSMutexPend d p timeout OS_OPT_PEND_BLOCKING p_ts s = Some (Done (ts_out p_ts (MTX_TS m), OS_ERR_MUTEX_OWNER), ?s')"
    by (rule OSMutexPend_owner [OF assms(2) _ assms(4,3) c]) (use assms(5) in simp_all)
  have "\<exists>s3. OSMutexPend d2 p timeout2 OS_OPT_PEND_BLOCKING False s2 = Some (Done (ts_out False (MTX_TS m), OS_ERR_NONE), s3) \<and>
        map_option MTX_OwnerTCBPtr (mutexes s3 p) = Some (OSTCBCurPtr s2)"
    if h: "mutexes s2 = mutexes ?s'" "map_option OBJ_Type (objs s2 p) = Some OS_OBJ_TYPE_MUTEX" "OSIntNestingCtr s2 = 0" "cur_rdy s2" for s2 d2 timeout2
  proof -
    have "mutex_at s2 p ?m" "MTX_OwnerNestingCtr ?m = 0" using h(1,2) assms(2,5) by (auto simp: mutex_at_def map_option_Some_iff)
    from OSMutexPend_free [OF this h(3,4), of OS_OPT_PEND_BLOCKING d2 timeout2 False] show ?thesis by simp
  qed
  then show ?thesis using e assms(1) by (intro exI [of _ "ts_out p_ts (MTX_TS m)"] exI [of _ ?s']) simp
qed

theorem OSMutexPend_nesting_wraps_witness:
  "\<exists>ts s'. OSMutexPend 11 24 0 OS_OPT_PEND_BLOCKING False (demo_owned 1 5 255) = Some (Done (ts, OS_ERR_MUTEX_OWNER), s')"
  using OSMutexPend_nesting_wraps [OF demo_owned_sys [of 1 5 255] demo_owned_mutex, where d = 11 and timeout = 0 and p_ts = False] by fastforce

subsection \<open>Task management\<close>









text \<open>C14. Deleting a task takes it off the ready list, off every pend list and off the tick
  wheel, whatever it was waiting for, and out of the debug list; its control block is marked as
  deleted and another task runs when the task deleted itself.  Every other task keeps its places.\<close>

theorem OSTaskDel_spec:
  assumes "sys s R P W" "OSIntNestingCtr s = 0" "p \<noteq> OSIdleTaskTCB s" "tcb_self p s = x"
    and "tcbs s x = Some t" "TCB_TaskState t \<le> 7" "del_pend_ok t"
    and "MQ_NbrEntries (TCB_MsgQ t) > 0 \<Longrightarrow> MQ_InPtr (TCB_MsgQ t) \<in> dom (msgs s)" "task_dbg_rel s (xs @ x # ys)"
    and "x = OSTCBCurPtr s \<Longrightarrow> OSSchedLockNestingCtr s = 0 \<and> (\<exists>y q. y \<in> set (R q) \<and> y \<noteq> x)"
  shows "\<exists>s'. OSTaskDel p s = Some (OS_ERR_NONE, s') \<and>
    sys s' (\<lambda>p. remove1 x (R p)) (\<lambda>ob. filter (\<lambda>d. d \<notin> pend_tbl t) (P ob)) (\<lambda>i. filter (\<lambda>y. y \<noteq> x) (W i)) \<and>
    map_option TCB_TaskState (tcbs s' x) = Some OS_TASK_STATE_DEL \<and> task_dbg_rel s' (xs @ ys) \<and> OSTCBCurPtr s' \<noteq> x"
proof -
  from OSTaskDel_ok [OF assms(1-7) _ assms(9)] assms(8,10) obtain s' dead where
    "OSTaskDel p s = Some (OS_ERR_NONE, s')"
    "sys s' (\<lambda>p. remove1 x (R p)) (\<lambda>ob. filter (\<lambda>d. d \<notin> pend_tbl t) (P ob)) (\<lambda>i. filter (\<lambda>y. y \<noteq> x) (W i))"
    "tcbs s' x = Some dead" "TCB_TaskState dead = OS_TASK_STATE_DEL" "task_dbg_rel s' (xs @ ys)" "OSTCBCurPtr s' \<noteq> x" by blast
  then show ?thesis by (intro exI [of _ s']) simp
qed

theorem OSTaskDel_spec_witness:
  "\<exists>s'. OSTaskDel 3 (demo\<lparr>OSTaskDbgListPtr := 3\<rparr>) = Some (OS_ERR_NONE, s') \<and> task_dbg_rel s' [] \<and>
    sys s' (\<lambda>p. remove1 3 (demo_R p)) (\<lambda>ob. filter (\<lambda>d. d \<noteq> 10) (demo_P ob)) (\<lambda>i. filter (\<lambda>y. y \<noteq> 3) (demo_W i))"
proof -
  let ?s = "demo\<lparr>OSTaskDbgListPtr := 3\<rparr>"
  let ?t = "tcb0\<lparr>TCB_Prio := 3, TCB_TaskState := 3, TCB_PendOn := 6, TCB_PendDataTblPtr := 10, TCB_PendDataTblEntries := 1,
    TCB_TickCtrMatch := 4, TCB_TickRemain := 4, TCB_TickSpokePtr := Some 4\<rparr>"
  have "kinv ?s demo_R demo_P demo_W = kinv demo demo_R demo_P demo_W" by (rule kinv_cong) simp_all
  with demo_sys have S: "sys ?s demo_R demo_P demo_W" by (simp add: sys_def cur_rdy_def)
  have t: "tcbs ?s 3 = Some ?t" by (simp add: demo_def demo_tcb_def)
  have p: "pend_tbl ?t = {10}" "TCB_TaskState ?t \<le> 7" "del_pend_ok ?t" by (auto simp: pend_tbl_def tcb0_def del_pend_ok_def)
  have D: "task_dbg_rel ?s ([] @ 3 # [])" by (simp add: task_dbg_rel_def linked_def fld_def demo_def demo_tcb_def tcb0_def)
  have x: "OSIntNestingCtr ?s = 0" "3 \<noteq> OSIdleTaskTCB ?s" "tcb_self 3 ?s = 3" "OSTCBCurPtr ?s = 1" by (simp_all add: demo_def os0_def tcb_self_def)
  have "MQ_NbrEntries (TCB_MsgQ ?t) = 0" by (simp add: tcb0_def mq0_def)
  with OSTaskDel_spec [OF S x(1-3) t p(2,3) _ D, unfolded p(1)] x(4) show ?thesis by auto
qed

text \<open>Signalling the semaphore of a task that does not wait for it counts the signal,
  or reports the overflow and leaves the counter alone at its maximum.  Signalling a task that waits
  for it ends the wait with status OK: the task leaves the tick wheel and is ready unless it is
  suspended, and the most urgent ready task runs unless the option forbids it.\<close>

theorem OS_TaskSemPost_spec:
  assumes "sys s R P W" "tcb_self p s = x" "tcbs s x = Some t" "signal_ok t"
  shows "if waits_sem t
    then \<exists>s1 s' t'. OS_TaskSemPost p opt ts s = Some (TCB_SemCtr t', OS_ERR_NONE, s') \<and>
      sys s' (wake_rdy s x t R) P (\<lambda>i. filter (\<lambda>y. y \<noteq> x) (W i)) \<and> tcbs s1 x = Some t' \<and> woken_tcb OS_STATUS_PEND_OK (NULL, 0, ts) t t' \<and>
      sw_frame s1 s' \<and> (opt AND OS_OPT_POST_NO_SCHED = 0 \<longrightarrow> sched_done s1 (wake_rdy s x t R) s')
    else if TCB_SemCtr t = - 1 then OS_TaskSemPost p opt ts s = Some (0, OS_ERR_SEM_OVF, s\<lparr>tcbs := (tcbs s)(x \<mapsto> t\<lparr>TCB_TS := ts\<rparr>)\<rparr>)
    else \<exists>s'. OS_TaskSemPost p opt ts s = Some (TCB_SemCtr t + 1, OS_ERR_NONE, s') \<and> sys s' R P W \<and>
      s' = s\<lparr>tcbs := (tcbs s)(x \<mapsto> t\<lparr>TCB_TS := ts, TCB_SemCtr := TCB_SemCtr t + 1\<rparr>)\<rparr>"
proof (cases "waits_sem t")
  case True
  have "pend_tbl t = {}" using assms(4) True by (simp add: signal_ok_def)
  from OS_TaskSemPost_wakes [OF assms(1,3) True this assms(2)] True show ?thesis by (subst if_P) blast+
next
  case False
  have "TCB_TaskState t \<le> 7" using assms(4) by (simp add: signal_ok_def)
  from OS_TaskSemPost_counts [OF assms(1,3) this False assms(2)] False show ?thesis by (cases "TCB_SemCtr t = - 1") auto
qed

text \<open>The witness: the running task signals itself.\<close>

theorem OS_TaskSemPost_spec_witness:
  "\<exists>s'. OS_TaskSemPost 1 OS_OPT_POST_NONE 9 demo = Some (1, OS_ERR_NONE, s') \<and> sys s' demo_R demo_P demo_W"
proof -
  let ?t = "tcb0\<lparr>TCB_Prio := 5, TCB_NextPtr := 2, TCB_TimeQuantaCtr := 1\<rparr>"
  have t: "tcbs demo 1 = Some ?t" by (simp add: demo_def demo_tcb_def)
  have w: "\<not> waits_sem ?t" "signal_ok ?t" "TCB_SemCtr ?t = 0" "tcb_self 1 demo = 1"
    by (simp_all add: signal_ok_def waits_sem_def st_pend_def tcb0_def tcb_self_def)
  from OS_TaskSemPost_spec [OF demo_sys w(4) t w(2), of OS_OPT_POST_NONE 9] w(1,3) show ?thesis by simp
qed

text \<open>The tick interrupt keeps the kernel invariant, leaves the interrupted task current, and
  makes the tick task ready when that waits for its signal and is not suspended.\<close>

theorem OSTimeTick_spec:
  assumes "sys s R P W" "OSIntNestingCtr s > 0" "OSTickTaskTCB s = x" "x \<noteq> NULL" "tcbs s x = Some t" "signal_ok t"
    and "OSTmrTaskTCB s = y" "y \<noteq> NULL" "y \<noteq> x" "tcbs s y = Some u" "signal_ok u"
  shows "\<exists>s' R' W'. OSTimeTick s = Some s' \<and> sys s' R' P W' \<and> OSTCBCurPtr s' = OSTCBCurPtr s \<and>
    (waits_sem t \<and> TCB_TaskState t AND OS_TASK_STATE_BIT_SUSPENDED = 0 \<longrightarrow> x \<in> set (R' (unat (TCB_Prio t))))"
  by (rule OSTimeTick_ok [OF assms])

text \<open>The witness: task 2 stands for the timer task and task 5 for the tick task, in an interrupt.\<close>

theorem OSTimeTick_spec_witness:
  "\<exists>s' R' W'. OSTimeTick (demo\<lparr>OSIntNestingCtr := 1, OSTickTaskTCB := 5, OSTmrTaskTCB := 2\<rparr>) = Some s' \<and> sys s' R' demo_P W' \<and> OSTCBCurPtr s' = 1"
proof -
  let ?s = "demo\<lparr>OSIntNestingCtr := 1, OSTickTaskTCB := 5, OSTmrTaskTCB := 2\<rparr>"
  have "kinv ?s demo_R demo_P demo_W = kinv demo demo_R demo_P demo_W" by (rule kinv_cong) simp_all
  with demo_sys have S: "sys ?s demo_R demo_P demo_W" by (simp add: sys_def cur_rdy_def)
  have t: "tcbs ?s 5 = Some (tcb0\<lparr>TCB_Prio := 4, TCB_TaskState := 2, TCB_PendOn := 5, TCB_PendDataTblPtr := 12, TCB_PendDataTblEntries := 1\<rparr>)"
    "tcbs ?s 2 = Some (tcb0\<lparr>TCB_Prio := 5, TCB_PrevPtr := 1\<rparr>)" by (simp_all add: demo_def demo_tcb_def)
  from OSTimeTick_spec [OF S _ _ _ t(1) _ _ _ _ t(2)] show ?thesis
    by (fastforce simp: signal_ok_def waits_sem_def st_pend_def tcb0_def)
qed

end
