(* ===== verification/OS_Flag.thy ===== *)
theory OS_Flag
  imports OS_Obj
begin

text \<open>
  \<^verbatim>\<open>src/ucosTest/Source/os_flag.c\<close>: event flag groups.  The common part of a group is in \<open>objs\<close>, its
  flags and time stamp in \<open>flags\<close>, both at the address \<open>p_grp\<close>.  The code for waiting until flags are
  cleared is compiled in by \<open>OS_CFG_FLAG_MODE_CLR_EN\<close>, which the configuration leaves off; the model
  keeps it behind a constant of that name.  \<^verbatim>\<open>OSFlagDel\<close> and \<^verbatim>\<open>OSFlagPendAbort\<close> are compiled out as well
  and modelled as they are written.  \<^verbatim>\<open>OS_FlagPost\<close> reads the flags back after it called the scheduler;
  the model reads them at the context switch.
\<close>

definition OS_CFG_FLAG_MODE_CLR_EN :: bool where "OS_CFG_FLAG_MODE_CLR_EN = False"

definition flag_mod :: "ptr \<Rightarrow> (OS_FLAG_GRP \<Rightarrow> OS_FLAG_GRP) \<Rightarrow> os \<Rightarrow> os option" where
  "flag_mod p f s = map_option (\<lambda>h. s\<lparr>flags := h\<rparr>) (mod_at p f (flags s))"

lemma flag_mod_Some [simp]: "flags s p = Some n \<Longrightarrow> flag_mod p f s = Some (s\<lparr>flags := (flags s)(p \<mapsto> f n)\<rparr>)"
  by (simp add: flag_mod_def)

text \<open>The switch on the mode of a wait: no result for a mode that is not compiled in, else whether the
  flags satisfy the wait and the flags that do.\<close>

definition flag_ready :: "OS_OPT \<Rightarrow> OS_FLAGS \<Rightarrow> OS_FLAGS \<Rightarrow> OS_FLAGS option option" where
  "flag_ready mode cur want =
     (if mode = OS_OPT_PEND_FLAG_SET_ALL then
        let flags_rdy = cur AND want in Some (if flags_rdy = want then Some flags_rdy else None)
      else if mode = OS_OPT_PEND_FLAG_SET_ANY then
        let flags_rdy = cur AND want in Some (if flags_rdy \<noteq> 0 then Some flags_rdy else None)
      else if OS_CFG_FLAG_MODE_CLR_EN \<and> mode = OS_OPT_PEND_FLAG_CLR_ALL then
        let flags_rdy = NOT cur AND want in Some (if flags_rdy = want then Some flags_rdy else None)
      else if OS_CFG_FLAG_MODE_CLR_EN \<and> mode = OS_OPT_PEND_FLAG_CLR_ANY then
        let flags_rdy = NOT cur AND want in Some (if flags_rdy \<noteq> 0 then Some flags_rdy else None)
      else None)"

text \<open>Consuming the flags of a satisfied wait: set flags are cleared, cleared flags are set.\<close>

definition flag_consume :: "OS_OPT \<Rightarrow> OS_FLAGS \<Rightarrow> OS_FLAGS \<Rightarrow> OS_FLAGS option" where
  "flag_consume mode flags_rdy cur =
     (if mode \<in> {OS_OPT_PEND_FLAG_SET_ALL, OS_OPT_PEND_FLAG_SET_ANY} then Some (cur AND NOT flags_rdy)
      else if OS_CFG_FLAG_MODE_CLR_EN \<and> mode \<in> {OS_OPT_PEND_FLAG_CLR_ALL, OS_OPT_PEND_FLAG_CLR_ANY} then Some (cur OR flags_rdy)
      else None)"

definition flag_pend_opts :: "OS_OPT set" where
  "flag_pend_opts =
     (\<Union>m \<in> {OS_OPT_PEND_FLAG_CLR_ALL, OS_OPT_PEND_FLAG_CLR_ANY, OS_OPT_PEND_FLAG_SET_ALL, OS_OPT_PEND_FLAG_SET_ANY}.
        {m, m OR OS_OPT_PEND_FLAG_CONSUME, m OR OS_OPT_PEND_NON_BLOCKING, m OR OS_OPT_PEND_FLAG_CONSUME OR OS_OPT_PEND_NON_BLOCKING})"

definition OS_FlagDbgListAdd :: "ptr \<Rightarrow> os \<Rightarrow> os option" where
  "OS_FlagDbgListAdd = dbg_list_add OSFlagDbgListPtr (\<lambda>p s. s\<lparr>OSFlagDbgListPtr := p\<rparr>)"

definition OS_FlagDbgListRemove :: "ptr \<Rightarrow> os \<Rightarrow> os option" where
  "OS_FlagDbgListRemove = dbg_list_remove (\<lambda>p s. s\<lparr>OSFlagDbgListPtr := p\<rparr>)"

interpretation flagdbg: dbg_list OSFlagDbgListPtr "\<lambda>p s. s\<lparr>OSFlagDbgListPtr := p\<rparr>"
  by unfold_locales simp_all

definition OS_FlagInit :: "os \<Rightarrow> OS_ERR \<times> os" where
  "OS_FlagInit s = (OS_ERR_NONE, s\<lparr>OSFlagDbgListPtr := NULL, OSFlagQty := 0\<rparr>)"

definition OSFlagCreate :: "ptr \<Rightarrow> string \<Rightarrow> OS_FLAGS \<Rightarrow> os \<Rightarrow> (OS_ERR \<times> os) option" where
  "OSFlagCreate p_grp p_name fl s =
     (if OSIntNestingCtr s > 0 then Some (OS_ERR_CREATE_ISR, s)
      else if p_grp = NULL then Some (OS_ERR_OBJ_PTR_NULL, s)
      else do {
        s \<leftarrow> obj_mod p_grp (\<lambda>b. b\<lparr>OBJ_Type := OS_OBJ_TYPE_FLAG, OBJ_NamePtr := p_name\<rparr>) s;
        s \<leftarrow> flag_mod p_grp (\<lambda>g. g\<lparr>FLG_Flags := fl, FLG_TS := 0\<rparr>) s;
        s \<leftarrow> OS_PendListInit p_grp s;
        s \<leftarrow> OS_FlagDbgListAdd p_grp s;
        Some (OS_ERR_NONE, s\<lparr>OSFlagQty := OSFlagQty s + 1\<rparr>)
      })"

definition OS_FlagClr :: "ptr \<Rightarrow> os \<Rightarrow> os option" where
  "OS_FlagClr p_grp s = do {
     s \<leftarrow> obj_mod p_grp (\<lambda>b. b\<lparr>OBJ_Type := OS_OBJ_TYPE_NONE, OBJ_NamePtr := ''?FLAG''\<rparr>) s;
     s \<leftarrow> flag_mod p_grp (\<lambda>g. g\<lparr>FLG_Flags := 0\<rparr>) s;
     OS_PendListInit p_grp s
   }"

definition OSFlagDel :: "ptr \<Rightarrow> OS_OPT \<Rightarrow> os \<Rightarrow> (OS_OBJ_QTY \<times> OS_ERR \<times> os) option" where
  "OSFlagDel p_grp opt s =
     (if OSIntNestingCtr s > 0 then Some (0, OS_ERR_DEL_ISR, s)
      else if p_grp = NULL then Some (0, OS_ERR_OBJ_PTR_NULL, s)
      else if opt \<notin> {OS_OPT_DEL_NO_PEND, OS_OPT_DEL_ALWAYS} then Some (0, OS_ERR_OPT_INVALID, s)
      else do {
        ob \<leftarrow> objs s p_grp;
        if OBJ_Type ob \<noteq> OS_OBJ_TYPE_FLAG then Some (0, OS_ERR_OBJ_TYPE, s)
        else do {
          let nbr_tasks = PL_NbrEntries (OBJ_PendList ob);
          if opt = OS_OPT_DEL_NO_PEND then
            if nbr_tasks = 0 then do {
              s \<leftarrow> OS_FlagDbgListRemove p_grp s;
              s \<leftarrow> OS_FlagClr p_grp (s\<lparr>OSFlagQty := OSFlagQty s - 1\<rparr>);
              Some (nbr_tasks, OS_ERR_NONE, s)
            } else Some (nbr_tasks, OS_ERR_TASK_WAITING, s)
          else do {
            let (ts, s) = OS_TS_GET s;
            s \<leftarrow> del_loop (unat nbr_tasks) p_grp ts s;
            s \<leftarrow> OS_FlagDbgListRemove p_grp s;
            s \<leftarrow> OS_FlagClr p_grp (s\<lparr>OSFlagQty := OSFlagQty s - 1\<rparr>);
            s \<leftarrow> OSSched s;
            Some (nbr_tasks, OS_ERR_NONE, s)
          }
        }
      })"

definition OS_FlagBlock :: "ptr \<Rightarrow> ptr \<Rightarrow> OS_FLAGS \<Rightarrow> OS_OPT \<Rightarrow> OS_TICK \<Rightarrow> os \<Rightarrow> os option" where
  "OS_FlagBlock p_pend_data p_grp fl opt timeout s = do {
     s \<leftarrow> tcb_mod (OSTCBCurPtr s) (\<lambda>t. t\<lparr>TCB_FlagsPend := fl, TCB_FlagsOpt := opt, TCB_FlagsRdy := 0\<rparr>) s;
     OS_Pend p_pend_data p_grp OS_TASK_PEND_ON_FLAG timeout s
   }"

definition OSFlagPend :: "ptr \<Rightarrow> ptr \<Rightarrow> OS_FLAGS \<Rightarrow> OS_TICK \<Rightarrow> OS_OPT \<Rightarrow> bool \<Rightarrow> os \<Rightarrow>
    ((OS_FLAGS \<times> CPU_TS option \<times> OS_ERR) call \<times> os) option" where
  "OSFlagPend pend_data p_grp fl timeout opt p_ts s =
     (if OSIntNestingCtr s > 0 then Some (Done (0, None, OS_ERR_PEND_ISR), s)
      else if p_grp = NULL then Some (Done (0, None, OS_ERR_OBJ_PTR_NULL), s)
      else if opt \<notin> flag_pend_opts then Some (Done (0, None, OS_ERR_OPT_INVALID), s)
      else do {
        ob \<leftarrow> objs s p_grp;
        if OBJ_Type ob \<noteq> OS_OBJ_TYPE_FLAG then Some (Done (0, None, OS_ERR_OBJ_TYPE), s)
        else do {
          grp \<leftarrow> flags s p_grp;
          let mode = opt AND OS_OPT_PEND_FLAG_MASK;
          case flag_ready mode (FLG_Flags grp) fl of
            None \<Rightarrow> Some (Done (0, ts_out p_ts 0, OS_ERR_OPT_INVALID), s)
          | Some (Some flags_rdy) \<Rightarrow> do {
              s \<leftarrow> (if opt AND OS_OPT_PEND_FLAG_CONSUME \<noteq> 0 then do {
                      f \<leftarrow> flag_consume mode flags_rdy (FLG_Flags grp);
                      flag_mod p_grp (\<lambda>g. g\<lparr>FLG_Flags := f\<rparr>) s
                    } else Some s);
              s \<leftarrow> tcb_mod (OSTCBCurPtr s) (\<lambda>t. t\<lparr>TCB_FlagsRdy := flags_rdy\<rparr>) s;
              Some (Done (flags_rdy, ts_out p_ts (FLG_TS grp), OS_ERR_NONE), s)
            }
          | Some None \<Rightarrow>
              if opt AND OS_OPT_PEND_NON_BLOCKING \<noteq> 0 then Some (Done (0, ts_out p_ts 0, OS_ERR_PEND_WOULD_BLOCK), s)
              else if OSSchedLockNestingCtr s > 0 then Some (Done (0, ts_out p_ts 0, OS_ERR_SCHED_LOCKED), s)
              else do {
                s \<leftarrow> OS_FlagBlock pend_data p_grp fl opt timeout s;
                s \<leftarrow> OSSched s;
                Some (Blocked, s)
              }
        }
      })"

definition OSFlagPend_resume :: "ptr \<Rightarrow> OS_OPT \<Rightarrow> bool \<Rightarrow> os \<Rightarrow> (OS_FLAGS \<times> CPU_TS option \<times> OS_ERR \<times> os) option" where
  "OSFlagPend_resume p_grp opt p_ts s = do {
     tcb \<leftarrow> tcbs s (OSTCBCurPtr s);
     let err = pend_err (TCB_PendStatus tcb);
     if err = OS_ERR_STATUS_INVALID then Some (0, ts_out p_ts 0, OS_ERR_STATUS_INVALID, s)
     else if err \<noteq> OS_ERR_NONE then Some (0, ts_out p_ts (pend_ts tcb), err, s)
     else do {
       let flags_rdy = TCB_FlagsRdy tcb;
       if opt AND OS_OPT_PEND_FLAG_CONSUME \<noteq> 0 then do {
         grp \<leftarrow> flags s p_grp;
         case flag_consume (opt AND OS_OPT_PEND_FLAG_MASK) flags_rdy (FLG_Flags grp) of
           None \<Rightarrow> Some (0, ts_out p_ts (pend_ts tcb), OS_ERR_OPT_INVALID, s)
         | Some f \<Rightarrow> do {
             s \<leftarrow> flag_mod p_grp (\<lambda>g. g\<lparr>FLG_Flags := f\<rparr>) s;
             Some (flags_rdy, ts_out p_ts (pend_ts tcb), OS_ERR_NONE, s)
           }
       } else Some (flags_rdy, ts_out p_ts (pend_ts tcb), OS_ERR_NONE, s)
     }
   }"

definition OSFlagPendAbort :: "ptr \<Rightarrow> OS_OPT \<Rightarrow> os \<Rightarrow> (OS_OBJ_QTY \<times> OS_ERR \<times> os) option" where
  "OSFlagPendAbort p_grp opt s =
     (if OSIntNestingCtr s > 0 then Some (0, OS_ERR_PEND_ABORT_ISR, s)
      else if p_grp = NULL then Some (0, OS_ERR_OBJ_PTR_NULL, s)
      else if opt \<notin> {OS_OPT_PEND_ABORT_1, OS_OPT_PEND_ABORT_ALL, OS_OPT_PEND_ABORT_1 OR OS_OPT_POST_NO_SCHED,
                     OS_OPT_PEND_ABORT_ALL OR OS_OPT_POST_NO_SCHED} then Some (0, OS_ERR_OPT_INVALID, s)
      else do {
        ob \<leftarrow> objs s p_grp;
        if OBJ_Type ob \<noteq> OS_OBJ_TYPE_FLAG then Some (0, OS_ERR_OBJ_TYPE, s)
        else if PL_NbrEntries (OBJ_PendList ob) = 0 then Some (0, OS_ERR_PEND_ABORT_NONE, s)
        else do {
          let (ts, s) = OS_TS_GET s;
          (nbr_tasks, s) \<leftarrow> abort_loop p_grp (opt = OS_OPT_PEND_ABORT_ALL) ts 0 s;
          s \<leftarrow> (if opt AND OS_OPT_POST_NO_SCHED = 0 then OSSched s else Some s);
          Some (nbr_tasks, OS_ERR_NONE, s)
        }
      })"

definition OSFlagPendGetFlagsRdy :: "os \<Rightarrow> (OS_FLAGS \<times> OS_ERR) option" where
  "OSFlagPendGetFlagsRdy s =
     (if OSIntNestingCtr s > 0 then Some (0, OS_ERR_PEND_ISR)
      else do {
        tcb \<leftarrow> tcbs s (OSTCBCurPtr s);
        Some (TCB_FlagsRdy tcb, OS_ERR_NONE)
      })"

definition OS_FlagTaskRdy :: "ptr \<Rightarrow> OS_FLAGS \<Rightarrow> CPU_TS \<Rightarrow> os \<Rightarrow> os option" where
  "OS_FlagTaskRdy p_tcb flags_rdy ts s = do {
     s \<leftarrow> tcb_mod p_tcb (\<lambda>t. t\<lparr>TCB_FlagsRdy := flags_rdy, TCB_PendStatus := OS_STATUS_PEND_OK,
            TCB_PendOn := OS_TASK_PEND_ON_NOTHING, TCB_TS := ts\<rparr>) s;
     tcb \<leftarrow> tcbs s p_tcb;
     s \<leftarrow> (if TCB_TaskState tcb \<in> {OS_TASK_STATE_PEND, OS_TASK_STATE_PEND_TIMEOUT} then do {
             s \<leftarrow> OS_TaskRdy p_tcb s;
             tcb_mod p_tcb (\<lambda>t. t\<lparr>TCB_TaskState := OS_TASK_STATE_RDY\<rparr>) s
           } else if TCB_TaskState tcb \<in> {OS_TASK_STATE_PEND_SUSPENDED, OS_TASK_STATE_PEND_TIMEOUT_SUSPENDED}
           then tcb_mod p_tcb (\<lambda>t. t\<lparr>TCB_TaskState := OS_TASK_STATE_SUSPENDED\<rparr>) s
           else Some s);
     OS_PendListRemove p_tcb s
   }"

text \<open>The walk over the pend list: every task whose wait the flags satisfy is made ready.  The result
  is false when a task waits in a mode that is not compiled in.\<close>

partial_function (option) flag_post_loop :: "ptr \<Rightarrow> CPU_TS \<Rightarrow> ptr \<Rightarrow> os \<Rightarrow> (bool \<times> os) option" where
  "flag_post_loop p_grp ts p_pend_data s = do {
     pd \<leftarrow> pds s p_pend_data;
     let p_tcb = PD_TCBPtr pd;
     if p_tcb = NULL then Some (True, s)
     else do {
       let p_pend_data_next = PD_NextPtr pd;
       tcb \<leftarrow> tcbs s p_tcb;
       grp \<leftarrow> flags s p_grp;
       case flag_ready (TCB_FlagsOpt tcb AND OS_OPT_PEND_FLAG_MASK) (FLG_Flags grp) (TCB_FlagsPend tcb) of
         None \<Rightarrow> Some (False, s)
       | Some rdy \<Rightarrow> do {
           s \<leftarrow> (case rdy of Some flags_rdy \<Rightarrow> OS_FlagTaskRdy p_tcb flags_rdy ts s | None \<Rightarrow> Some s);
           if p_pend_data_next \<noteq> NULL then flag_post_loop p_grp ts p_pend_data_next s else Some (True, s)
         }
     }
   }"

definition flag_update :: "OS_OPT \<Rightarrow> OS_FLAGS \<Rightarrow> OS_FLAGS \<Rightarrow> OS_FLAGS option" where
  "flag_update opt fl cur =
     (if opt \<in> {OS_OPT_POST_FLAG_SET, OS_OPT_POST_FLAG_SET OR OS_OPT_POST_NO_SCHED} then Some (cur OR fl)
      else if opt \<in> {OS_OPT_POST_FLAG_CLR, OS_OPT_POST_FLAG_CLR OR OS_OPT_POST_NO_SCHED} then Some (cur AND NOT fl)
      else None)"

definition OS_FlagPost :: "ptr \<Rightarrow> OS_FLAGS \<Rightarrow> OS_OPT \<Rightarrow> CPU_TS \<Rightarrow> os \<Rightarrow> (OS_FLAGS \<times> OS_ERR \<times> os) option" where
  "OS_FlagPost p_grp fl opt ts s = do {
     grp \<leftarrow> flags s p_grp;
     case flag_update opt fl (FLG_Flags grp) of
       None \<Rightarrow> Some (0, OS_ERR_OPT_INVALID, s)
     | Some f \<Rightarrow> do {
         s \<leftarrow> flag_mod p_grp (\<lambda>g. g\<lparr>FLG_Flags := f, FLG_TS := ts\<rparr>) s;
         ob \<leftarrow> objs s p_grp;
         if PL_NbrEntries (OBJ_PendList ob) = 0 then Some (f, OS_ERR_NONE, s)
         else do {
           (ok, s) \<leftarrow> flag_post_loop p_grp ts (PL_HeadPtr (OBJ_PendList ob)) s;
           if \<not> ok then Some (0, OS_ERR_FLAG_PEND_OPT, s)
           else do {
             s \<leftarrow> (if opt AND OS_OPT_POST_NO_SCHED = 0 then OSSched s else Some s);
             grp \<leftarrow> flags s p_grp;
             Some (FLG_Flags grp, OS_ERR_NONE, s)
           }
         }
       }
   }"

definition OSFlagPost :: "ptr \<Rightarrow> OS_FLAGS \<Rightarrow> OS_OPT \<Rightarrow> os \<Rightarrow> (OS_FLAGS \<times> OS_ERR \<times> os) option" where
  "OSFlagPost p_grp fl opt s =
     (if p_grp = NULL then Some (0, OS_ERR_OBJ_PTR_NULL, s)
      else if opt \<notin> {OS_OPT_POST_FLAG_SET, OS_OPT_POST_FLAG_CLR, OS_OPT_POST_FLAG_SET OR OS_OPT_POST_NO_SCHED,
                     OS_OPT_POST_FLAG_CLR OR OS_OPT_POST_NO_SCHED} then Some (0, OS_ERR_OPT_INVALID, s)
      else do {
        ob \<leftarrow> objs s p_grp;
        if OBJ_Type ob \<noteq> OS_OBJ_TYPE_FLAG then Some (0, OS_ERR_OBJ_TYPE, s)
        else let (ts, s) = OS_TS_GET s in OS_FlagPost p_grp fl opt ts s
      })"

subsection \<open>Waking one task\<close>

text \<open>The entry of the task leaves the pend list after its state was changed.\<close>

lemma flag_finish:
  assumes K: "kinv s R P W" "tcbs s x = Some t" "TCB_TaskState t \<noteq> OS_TASK_STATE_DEL"
    and S: "staged s R' P W' x t s2 t2" "pend_tbl t2 = pend_tbl t" "TCB_TickSpokePtr t2 = None"
    and R': "\<And>y p. y \<noteq> x \<Longrightarrow> y \<in> set (R' p) \<longleftrightarrow> y \<in> set (R p)" "x \<in> set (R' (unat (TCB_Prio t))) \<longleftrightarrow> st = OS_TASK_STATE_RDY"
    and st: "st \<in> {OS_TASK_STATE_RDY, OS_TASK_STATE_SUSPENDED}"
  defines "t3 \<equiv> t2\<lparr>TCB_TaskState := st, TCB_PendDataTblEntries := 0, TCB_PendDataTblPtr := NULL\<rparr>"
  shows "\<exists>s3. OS_PendListRemove x (s2\<lparr>tcbs := (tcbs s2)(x \<mapsto> t2\<lparr>TCB_TaskState := st\<rparr>)\<rparr>) = Some s3 \<and>
    kinv s3 R' (\<lambda>ob. filter (\<lambda>d. d \<notin> pend_tbl t) (P ob)) W' \<and> kframe {x} (pend_tbl t) s s3 \<and> tcbs s3 x = Some t3"
proof -
  note d = stagedD [OF S(1)]
  let ?u = "t2\<lparr>TCB_TaskState := st\<rparr>" let ?s = "s2\<lparr>tcbs := (tcbs s2)(x \<mapsto> ?u)\<rparr>" let ?P = "\<lambda>ob. filter (\<lambda>d. d \<notin> pend_tbl t) (P ob)"
  have rel: "krel ?s R' P W'" using d(1) krel_tcb_upd [OF d(6), of ?u] by (simp add: rdy_view_def tick_view_def)
  have u: "pend_tbl ?u = pend_tbl t" using S(2) by (simp add: pend_tbl_def)
  have "\<exists>ob. y \<in> set (P ob)" if "y \<in> pend_tbl ?u" for y
    using kinvD(7) [OF K(1,2)] that u by (auto simp: task_ok_def pend_tbl_ok_def split: if_splits)
  moreover have "pend_rel ?s P" using rel by (simp add: krel_def)
  ultimately obtain s1 where s1: "OS_PendListRemove x ?s = Some (s1\<lparr>tcbs := (tcbs ?s)(x \<mapsto> t3)\<rparr>)" "pend_rel s1 ?P" "pend_frame ?s s1"
    using OS_PendListRemove_ok [of ?s P x ?u] u by (auto simp: t3_def)
  let ?s3 = "s1\<lparr>tcbs := (tcbs ?s)(x \<mapsto> t3)\<rparr>"
  have tc: "tcbs s1 = tcbs ?s" by (rule pend_frame_tcbs [OF s1(3)])
  have "krel s1 R' ?P W'" using s1(2) rel pend_frame_others [OF s1(3)] by (simp add: krel_def)
  then have K3: "krel ?s3 R' ?P W'" using krel_tcb_upd [of s1 x ?u t3] tc by (simp add: t3_def rdy_view_def tick_view_def)
  have "kframe {x} (pend_tbl t) s ?s" using kframe_trans [OF d(5) kframe_tcb_upd [OF d(6)]] by simp
  then have "kframe {x} (pend_tbl t) s s1" using pend_frame_kframe [OF s1(3)] kframe_trans by blast
  then have F: "kframe {x} (pend_tbl t) s ?s3" using kframe_tcb_upd [of s1 x ?u "{x}" "pend_tbl t" t3] tc kframe_trans by fastforce
  have "kinv ?s3 R' ?P W'"
    using K3 F R' st d(7) S(3) by (intro kinv_wake [OF K, of ?s3 R' ?P W' t3]) (auto simp: t3_def st_pend_def st_tick_def pend_tbl_def)
  with s1(1) F show ?thesis by (intro exI [of _ ?s3]) simp
qed

lemma OS_FlagTaskRdy_ok:
  assumes K: "kinv s R P W" "tcbs s x = Some t"
    and st: "TCB_TaskState t \<in> {OS_TASK_STATE_PEND, OS_TASK_STATE_PEND_TIMEOUT, OS_TASK_STATE_PEND_SUSPENDED}"
  shows "\<exists>s' t'. OS_FlagTaskRdy x fl ts s = Some s' \<and> woken s R P W x t s' t' \<and> TCB_PendStatus t' = OS_STATUS_PEND_OK \<and>
    TCB_FlagsRdy t' = fl \<and> TCB_TS t' = ts"
proof -
  let ?f = "\<lambda>t. t\<lparr>TCB_FlagsRdy := fl, TCB_PendStatus := OS_STATUS_PEND_OK, TCB_PendOn := OS_TASK_PEND_ON_NOTHING, TCB_TS := ts\<rparr>"
  let ?s1 = "s\<lparr>tcbs := (tcbs s)(x \<mapsto> ?f t)\<rparr>" let ?P = "\<lambda>ob. filter (\<lambda>d. d \<notin> pend_tbl t) (P ob)"
  have nd: "TCB_TaskState t \<noteq> OS_TASK_STATE_DEL" using st by auto
  have S1: "staged s R P W x t ?s1 (?f t)" using staged_tcb(2) [OF staged_start [OF K], of ?f] by (simp add: rdy_view_def tick_view_def)
  have b: "TCB_FlagsRdy (tcb_base u) = TCB_FlagsRdy u" "TCB_TS (tcb_base u) = TCB_TS u" for u by (simp_all add: tcb_base_def tick_core_def tcb_core_def)
  show ?thesis
  proof (cases "TCB_TaskState t = OS_TASK_STATE_PEND_SUSPENDED")
    case True
    have w: "(\<lambda>i. filter (\<lambda>y. y \<noteq> x) (W i)) = W" "TCB_TickSpokePtr t = None" "\<And>p. x \<notin> set (R p)"
      using kinv_off_wheel [OF K] kinvD(7) [OF K] True rdy_rel_list(3) [OF kinvD(2) [OF K(1)], of x] K(2)
      by (auto simp: st_tick_def task_ok_def)
    from flag_finish [OF K nd S1, of OS_TASK_STATE_SUSPENDED] w obtain s3 where
      "OS_PendListRemove x (?s1\<lparr>tcbs := (tcbs ?s1)(x \<mapsto> (?f t)\<lparr>TCB_TaskState := OS_TASK_STATE_SUSPENDED\<rparr>)\<rparr>) = Some s3" "kinv s3 R ?P W"
      "kframe {x} (pend_tbl t) s s3"
      "tcbs s3 x = Some ((?f t)\<lparr>TCB_TaskState := OS_TASK_STATE_SUSPENDED, TCB_PendDataTblEntries := 0, TCB_PendDataTblPtr := NULL\<rparr>)"
      by (auto simp: pend_tbl_def)
    then show ?thesis using K(2) True w(1) by (simp add: OS_FlagTaskRdy_def woken_def wake_rdy_def)
  next
    case False
    then have st': "TCB_TaskState t \<in> {OS_TASK_STATE_PEND, OS_TASK_STATE_PEND_TIMEOUT}" using st by auto
    note c = st_pend_cases [OF st']
    from staged_rdy [OF K _ _ S1] c obtain s2 t2 where s2: "OS_TaskRdy x ?s1 = Some s2"
      "staged s (rdy_insert (OSPrioCur s) (TCB_Prio t) x R) P (\<lambda>i. filter (\<lambda>y. y \<noteq> x) (W i)) x t s2 t2"
      "tcb_base t2 = tcb_base (?f t)" "TCB_TickSpokePtr t2 = None" by blast
    note e = tcb_base_eqD [OF s2(3)]
    have v: "pend_tbl t2 = pend_tbl t" "TCB_FlagsRdy t2 = fl" "TCB_TS t2 = ts"
      using tcb_base_key [OF s2(3)] arg_cong [OF s2(3), of TCB_FlagsRdy, unfolded b] arg_cong [OF s2(3), of TCB_TS, unfolded b]
      by (simp_all add: pend_tbl_def)
    from flag_finish [OF K nd s2(2) v(1) s2(4), of OS_TASK_STATE_RDY] obtain s3 where
      s3: "OS_PendListRemove x (s2\<lparr>tcbs := (tcbs s2)(x \<mapsto> t2\<lparr>TCB_TaskState := OS_TASK_STATE_RDY\<rparr>)\<rparr>) = Some s3"
      "kinv s3 (rdy_insert (OSPrioCur s) (TCB_Prio t) x R) ?P (\<lambda>i. filter (\<lambda>y. y \<noteq> x) (W i))" "kframe {x} (pend_tbl t) s s3"
      "tcbs s3 x = Some (t2\<lparr>TCB_TaskState := OS_TASK_STATE_RDY, TCB_PendDataTblEntries := 0, TCB_PendDataTblPtr := NULL\<rparr>)"
      by (auto simp: rdy_insert_mem)
    have "OS_FlagTaskRdy x fl ts s = Some s3"
      using K(2) st' s2(1) s3(1) stagedD(6) [OF s2(2)] by (simp add: OS_FlagTaskRdy_def)
    then show ?thesis using s3(2-4) c e(1,5,6) v by (simp add: woken_def wake_rdy_def)
  qed
qed

text \<open>A task that waits with a time-out and is suspended stays on the tick wheel, although its new
  state says that it does not wait for a time.\<close>

lemma OS_FlagTaskRdy_timeout_suspended:
  assumes K: "kinv s R P W" "tcbs s x = Some t" and st: "TCB_TaskState t = OS_TASK_STATE_PEND_TIMEOUT_SUSPENDED"
  shows "\<exists>s' t'. OS_FlagTaskRdy x fl ts s = Some s' \<and> tcbs s' x = Some t' \<and> TCB_TaskState t' = OS_TASK_STATE_SUSPENDED \<and>
    TCB_TickSpokePtr t' \<noteq> None \<and> (\<forall>R' P' W'. \<not> kinv s' R' P' W')"
proof -
  let ?u = "t\<lparr>TCB_FlagsRdy := fl, TCB_PendStatus := OS_STATUS_PEND_OK, TCB_PendOn := OS_TASK_PEND_ON_NOTHING, TCB_TS := ts, TCB_TaskState := OS_TASK_STATE_SUSPENDED\<rparr>"
  let ?s = "s\<lparr>tcbs := (tcbs s)(x \<mapsto> ?u)\<rparr>" let ?t = "?u\<lparr>TCB_PendDataTblEntries := 0, TCB_PendDataTblPtr := NULL\<rparr>"
  have "krel ?s R P W" using krel_tcb_upd [OF K(2), of ?u] kinvD(1) [OF K(1)] by (simp add: rdy_view_def tick_view_def)
  then have "pend_rel ?s P" by (simp add: krel_def)
  moreover have "\<exists>ob. y \<in> set (P ob)" if "y \<in> pend_tbl ?u" for y
    using kinvD(7) [OF K] that by (auto simp: task_ok_def pend_tbl_ok_def pend_tbl_def split: if_splits)
  ultimately obtain s1 where s1: "OS_PendListRemove x ?s = Some (s1\<lparr>tcbs := (tcbs ?s)(x \<mapsto> ?t)\<rparr>)"
    using OS_PendListRemove_ok [of ?s P x ?u] by auto
  let ?s' = "s1\<lparr>tcbs := (tcbs ?s)(x \<mapsto> ?t)\<rparr>"
  have sp: "TCB_TickSpokePtr t \<noteq> None" using kinvD(7) [OF K] st by (simp add: task_ok_def st_tick_def)
  have "\<not> kinv ?s' R' P' W'" for R' P' W'
  proof
    assume "kinv ?s' R' P' W'"
    then have "task_ok ?s' R' P' x ?t" by (rule kinvD(7)) simp
    with sp show False by (simp add: task_ok_def st_tick_def)
  qed
  moreover have "OS_FlagTaskRdy x fl ts s = Some ?s'" using K(2) st s1 by (simp add: OS_FlagTaskRdy_def)
  ultimately show ?thesis using sp by (intro exI [of _ ?s'] exI [of _ ?t]) simp
qed

subsection \<open>Walking over the pend list\<close>

text \<open>The result of the mode switch for the task behind an entry of the pend list.\<close>

definition flag_test :: "os \<Rightarrow> OS_FLAGS \<Rightarrow> ptr \<Rightarrow> OS_FLAGS option option" where
  "flag_test s cur d = (case tcbs s (waiter s d) of None \<Rightarrow> None
     | Some t \<Rightarrow> flag_ready (TCB_FlagsOpt t AND OS_OPT_PEND_FLAG_MASK) cur (TCB_FlagsPend t))"

definition flag_woken :: "OS_FLAGS \<Rightarrow> CPU_TS \<Rightarrow> OS_TCB \<Rightarrow> bool" where
  "flag_woken r ts t \<longleftrightarrow> TCB_PendStatus t = OS_STATUS_PEND_OK \<and> TCB_FlagsRdy t = r \<and> TCB_TS t = ts"

lemma tcb_other_flags:
  assumes "tcb_other t' = tcb_other t"
  shows "TCB_FlagsOpt t' = TCB_FlagsOpt t" "TCB_FlagsPend t' = TCB_FlagsPend t" "flag_woken r ts t' = flag_woken r ts t"
proof -
  have "TCB_FlagsOpt (tcb_other u) = TCB_FlagsOpt u" "TCB_FlagsPend (tcb_other u) = TCB_FlagsPend u" "flag_woken r ts (tcb_other u) = flag_woken r ts u" for u
    by (simp_all add: tcb_other_def tcb_core_def link_core_def flag_woken_def)
  with assms show "TCB_FlagsOpt t' = TCB_FlagsOpt t" "TCB_FlagsPend t' = TCB_FlagsPend t" "flag_woken r ts t' = flag_woken r ts t" by metis+
qed

lemma kframe_flags: "kframe X D s s' \<Longrightarrow> flags s' = flags s"
  by (drule conjunct1 [OF kframe_def [THEN iffD1]], drule arg_cong [of _ _ flags]) (simp add: os_less_k_def)

lemma flag_test_kframe:
  assumes "kframe X D s s'" "waiter s d \<notin> X" "waiter s' d = waiter s d"
  shows "flag_test s' c d = flag_test s c d"
proof -
  have "map_option tcb_other (tcbs s' (waiter s d)) = map_option tcb_other (tcbs s (waiter s d))" using assms(1,2) by (simp add: kframe_def)
  then consider "tcbs s (waiter s d) = None" "tcbs s' (waiter s d) = None" | t t' where "tcbs s (waiter s d) = Some t" "tcbs s' (waiter s d) = Some t'" "tcb_other t' = tcb_other t"
    by (cases "tcbs s (waiter s d)"; cases "tcbs s' (waiter s d)") auto
  then show ?thesis
  proof cases
    case 2
    with assms(3) tcb_other_flags(1,2) [OF 2(3)] show ?thesis by (simp add: flag_test_def)
  qed (simp add: flag_test_def assms(3))
qed

text \<open>What one wake-up leaves to the rest of the walk.\<close>

lemma flag_wake_step:
  assumes K: "kinv s R P W" and P: "P p = es @ d # ds" and once: "distinct (map (waiter s) (P p))"
    and t: "tcbs s (waiter s d) = Some t" "TCB_TaskState t \<noteq> OS_TASK_STATE_PEND_TIMEOUT_SUSPENDED"
  obtains s1 t1 R1 P1 W1 where "OS_FlagTaskRdy (waiter s d) r ts s = Some s1" "kinv s1 R1 P1 W1" "P1 p = es @ ds" "\<forall>o'. set (P1 o') \<subseteq> set (P o')"
    "kframe {waiter s d} (pend_tbl t) s s1" "tcbs s1 (waiter s d) = Some t1" "flag_woken r ts t1"
    "\<forall>o'. \<forall>d' \<in> set (P1 o'). waiter s1 d' = waiter s d' \<and> waiter s d' \<noteq> waiter s d \<and> (\<forall>c. flag_test s1 c d' = flag_test s c d')"
proof -
  obtain e :: OS_PEND_DATA and t' :: OS_TCB where b: "waiter s d = PD_TCBPtr e" "tcbs s (PD_TCBPtr e) = Some t'" "st_pend (TCB_TaskState t')" by (rule pend_nth [OF K P]) blast
  then have "TCB_TaskState t \<in> {OS_TASK_STATE_PEND, OS_TASK_STATE_PEND_TIMEOUT, OS_TASK_STATE_PEND_SUSPENDED}" using t by (auto simp: st_pend_def)
  from OS_FlagTaskRdy_ok [OF K t(1) this, of r ts] obtain s1 t1 where s1: "OS_FlagTaskRdy (waiter s d) r ts s = Some s1"
    "woken s R P W (waiter s d) t s1 t1" "flag_woken r ts t1" by (auto simp: flag_woken_def)
  note o = pend_others [OF K P once t(1)]
  have F: "kframe {waiter s d} (pend_tbl t) s s1" using s1(2) by (simp add: woken_def)
  have q: "waiter s1 d' = waiter s d'" "waiter s d' \<noteq> waiter s d" if d': "d' \<in> set (P o')" "d' \<notin> pend_tbl t" for o' d'
  proof -
    from kinvD(5) [OF K] d'(1) obtain e' u where u: "pds s d' = Some e'" "tcbs s (PD_TCBPtr e') = Some u" "d' \<in> pend_tbl u" unfolding pend_owned_def by blast
    from waiter_kframe [OF F d'(2) u(1)] show "waiter s1 d' = waiter s d'" .
    have "waiter s d' = PD_TCBPtr e'" using u(1) by (simp add: waiter_def fld_Some)
    with u(2,3) d'(2) t(1) show "waiter s d' \<noteq> waiter s d" by auto
  qed
  have r: "\<forall>o'. \<forall>d' \<in> set (filter (\<lambda>d. d \<notin> pend_tbl t) (P o')). waiter s1 d' = waiter s d' \<and> waiter s d' \<noteq> waiter s d \<and> (\<forall>c. flag_test s1 c d' = flag_test s c d')"
  proof (intro allI ballI)
    fix o' d' assume "d' \<in> set (filter (\<lambda>d. d \<notin> pend_tbl t) (P o'))"
    then have d': "d' \<in> set (P o')" "d' \<notin> pend_tbl t" by simp_all
    from q [OF d'] flag_test_kframe [OF F _ q(1) [OF d']]
    show "waiter s1 d' = waiter s d' \<and> waiter s d' \<noteq> waiter s d \<and> (\<forall>c. flag_test s1 c d' = flag_test s c d')" by simp
  qed
  have w: "kinv s1 (wake_rdy s (waiter s d) t R) (\<lambda>ob. filter (\<lambda>d. d \<notin> pend_tbl t) (P ob)) (\<lambda>i. filter (\<lambda>y. y \<noteq> waiter s d) (W i))"
    "tcbs s1 (waiter s d) = Some t1" using s1(2) by (simp_all add: woken_def)
  show ?thesis by (rule that [OF s1(1) w(1) o(2) _ F w(2) s1(3) r]) auto
qed

lemma flag_post_loop_ok:
  assumes "kinv s R P W" "P p = es @ ds" "ds \<noteq> []" "distinct (map (waiter s) (P p))" "flags s p = Some g"
    and "\<forall>d \<in> set ds. flag_test s (FLG_Flags g) d \<noteq> None"
    and "\<forall>d \<in> set ds. \<forall>t. tcbs s (waiter s d) = Some t \<longrightarrow> TCB_TaskState t \<noteq> OS_TASK_STATE_PEND_TIMEOUT_SUSPENDED"
  shows "\<exists>s' R' P' W' D. flag_post_loop p ts (hd ds) s = Some (True, s') \<and> kinv s' R' P' W' \<and>
    P' p = es @ filter (\<lambda>d. flag_test s (FLG_Flags g) d = Some None) ds \<and> (\<forall>o'. set (P' o') \<subseteq> set (P o')) \<and>
    kframe (waiter s ` {d \<in> set ds. flag_test s (FLG_Flags g) d \<noteq> Some None}) D s s' \<and>
    (\<forall>o'. \<forall>d \<in> set (P' o'). waiter s' d = waiter s d \<and> (\<forall>c. flag_test s' c d = flag_test s c d)) \<and>
    (\<forall>d \<in> set ds. \<forall>r. flag_test s (FLG_Flags g) d = Some (Some r) \<longrightarrow> (\<exists>t'. tcbs s' (waiter s d) = Some t' \<and> flag_woken r ts t'))"
  using assms
proof (induction ds arbitrary: s R P W es)
  case (Cons d ds)
  let ?c = "FLG_Flags g"
  obtain e t b where e: "pds s d = Some e" "PD_NextPtr e = hd0 NULL ds" "waiter s d = PD_TCBPtr e" "tcbs s (PD_TCBPtr e) = Some t" "objs s p = Some b"
    by (rule pend_nth [OF Cons.prems(1,2)]) blast
  have x: "PD_TCBPtr e \<noteq> NULL" using kinvD(7) [OF Cons.prems(1) e(4)] by (simp add: task_ok_def)
  have ft: "flag_ready (TCB_FlagsOpt t AND OS_OPT_PEND_FLAG_MASK) ?c (TCB_FlagsPend t) = flag_test s ?c d" using e(3,4) by (simp add: flag_test_def)
  have nn: "NULL \<notin> set (P p)"
  proof -
    have "pend_links s P" using kinvD(3) [OF Cons.prems(1)] by (simp add: pend_rel_def)
    from linkedD(2) [OF pend_links_obtain(2) [OF this e(5)]] show ?thesis .
  qed
  have nx: "hd0 NULL ds = NULL \<longleftrightarrow> ds = []" using nn Cons.prems(2) by (cases ds) auto
  have hd: "ds \<noteq> [] \<Longrightarrow> hd0 NULL ds = hd ds" by (cases ds) auto
  have run: "flag_post_loop p ts d s = (case rdy of Some r \<Rightarrow> OS_FlagTaskRdy (waiter s d) r ts s | None \<Rightarrow> Some s) \<bind>
      (\<lambda>s. if ds \<noteq> [] then flag_post_loop p ts (hd ds) s else Some (True, s))" if "flag_test s ?c d = Some rdy" for rdy
    unfolding e(3) using e x ft that nx hd Cons.prems(5) by (subst flag_post_loop.simps) (cases "ds = []", simp_all add: Let_def)
  consider (no) "flag_test s ?c d = Some None" | (yes) r where "flag_test s ?c d = Some (Some r)" using Cons.prems(6) by fastforce
  then show ?case
  proof cases
    case no
    show ?thesis
    proof (cases "ds = []")
      case True
      with run [OF no] no Cons.prems(1,2) show ?thesis
        by (intro exI [of _ s] exI [of _ R] exI [of _ P] exI [of _ W] exI [of _ "{}"]) simp
    next
      case False
      have "P p = (es @ [d]) @ ds" using Cons.prems(2) by simp
      from Cons.IH [OF Cons.prems(1) this False Cons.prems(4,5)] Cons.prems(6,7)
      obtain s' R' P' W' D where s': "flag_post_loop p ts (hd ds) s = Some (True, s')" "kinv s' R' P' W'"
        "P' p = (es @ [d]) @ filter (\<lambda>d. flag_test s ?c d = Some None) ds" "\<forall>o'. set (P' o') \<subseteq> set (P o')"
        "kframe (waiter s ` {d \<in> set ds. flag_test s ?c d \<noteq> Some None}) D s s'" "\<forall>o'. \<forall>d \<in> set (P' o'). waiter s' d = waiter s d \<and> (\<forall>c. flag_test s' c d = flag_test s c d)"
        "\<forall>d \<in> set ds. \<forall>r. flag_test s ?c d = Some (Some r) \<longrightarrow> (\<exists>t'. tcbs s' (waiter s d) = Some t' \<and> flag_woken r ts t')" by auto
      have "{d' \<in> set (d # ds). flag_test s ?c d' \<noteq> Some None} = {d \<in> set ds. flag_test s ?c d \<noteq> Some None}" using no by auto
      with run [OF no] no False s' show ?thesis
        by (intro exI [of _ s'] exI [of _ R'] exI [of _ P'] exI [of _ W'] exI [of _ D]) simp
    qed
  next
    case yes
    have t: "tcbs s (waiter s d) = Some t" "TCB_TaskState t \<noteq> OS_TASK_STATE_PEND_TIMEOUT_SUSPENDED" using e(3,4) Cons.prems(7) by auto
    obtain s1 t1 R1 P1 W1 where s1: "OS_FlagTaskRdy (waiter s d) r ts s = Some s1" "kinv s1 R1 P1 W1" "P1 p = es @ ds" "\<forall>o'. set (P1 o') \<subseteq> set (P o')"
      "kframe {waiter s d} (pend_tbl t) s s1" "tcbs s1 (waiter s d) = Some t1" "flag_woken r ts t1"
      and o: "\<forall>o'. \<forall>d' \<in> set (P1 o'). waiter s1 d' = waiter s d' \<and> waiter s d' \<noteq> waiter s d \<and> (\<forall>c. flag_test s1 c d' = flag_test s c d')"
      by (rule flag_wake_step [OF Cons.prems(1,2,4) t])
    from o [rule_format, of _ p] s1(3) have s18: "\<forall>d' \<in> set (es @ ds). waiter s1 d' = waiter s d' \<and> waiter s d' \<noteq> waiter s d \<and> (\<forall>c. flag_test s1 c d' = flag_test s c d')" by simp
    show ?thesis
    proof (cases "ds = []")
      case True
      have "{d' \<in> set (d # ds). flag_test s ?c d' \<noteq> Some None} = {d}" using True yes by auto
      with True run [OF yes] yes s1 o show ?thesis
        by (intro exI [of _ s1] exI [of _ R1] exI [of _ P1] exI [of _ W1] exI [of _ "pend_tbl t"]) simp
    next
      case False
      have 1: "distinct (map (waiter s1) (P1 p))"
      proof -
        have "map (waiter s1) (P1 p) = map (waiter s) (es @ ds)" unfolding s1(3) by (rule map_cong) (use s18 in auto)
        then show ?thesis using Cons.prems(2,4) by simp
      qed
      have 2: "flags s1 p = Some g" using kframe_flags [OF s1(5)] Cons.prems(5) by simp
      have 3: "\<forall>d' \<in> set ds. flag_test s1 ?c d' \<noteq> None" using s18 Cons.prems(6) by auto
      have 4: "\<forall>d' \<in> set ds. \<forall>u. tcbs s1 (waiter s1 d') = Some u \<longrightarrow> TCB_TaskState u \<noteq> OS_TASK_STATE_PEND_TIMEOUT_SUSPENDED"
      proof (intro ballI allI impI)
        fix d' u assume a: "d' \<in> set ds" "tcbs s1 (waiter s1 d') = Some u"
        have "waiter s1 d' = waiter s d'" "waiter s d' \<notin> {waiter s d}" using s18 a(1) by auto
        from kframe_tcb(2) [OF s1(5) this(2)] a(2) this(1) obtain u0 where u0: "tcbs s (waiter s d') = Some u0" "tcb_other u = tcb_other u0" by auto
        with Cons.prems(7) a(1) show "TCB_TaskState u \<noteq> OS_TASK_STATE_PEND_TIMEOUT_SUSPENDED" unfolding tcb_other_eqD(2) [OF u0(2)] by simp
      qed
      from Cons.IH [OF s1(2,3) False 1 2 3 4]
      obtain s' R' P' W' D where s': "flag_post_loop p ts (hd ds) s1 = Some (True, s')" "kinv s' R' P' W'"
        "P' p = es @ filter (\<lambda>d. flag_test s1 ?c d = Some None) ds" "\<forall>o'. set (P' o') \<subseteq> set (P1 o')"
        "kframe (waiter s1 ` {d \<in> set ds. flag_test s1 ?c d \<noteq> Some None}) D s1 s'" "\<forall>o'. \<forall>d \<in> set (P' o'). waiter s' d = waiter s1 d \<and> (\<forall>c. flag_test s' c d = flag_test s1 c d)"
        "\<forall>d \<in> set ds. \<forall>r. flag_test s1 ?c d = Some (Some r) \<longrightarrow> (\<exists>t'. tcbs s' (waiter s1 d) = Some t' \<and> flag_woken r ts t')" by blast
      have X: "waiter s1 ` {d \<in> set ds. flag_test s1 ?c d \<noteq> Some None} = waiter s ` {d \<in> set ds. flag_test s ?c d \<noteq> Some None}"
        using s18 by (intro image_cong) auto
      let ?X = "waiter s ` {d' \<in> set (d # ds). flag_test s ?c d' \<noteq> Some None}"
      have "kframe ?X (pend_tbl t \<union> D) s s1" "kframe ?X (pend_tbl t \<union> D) s1 s'"
        by (rule kframe_mono [OF s1(5)], use yes in auto) (rule kframe_mono [OF s'(5)], unfold X, auto)
      then have F: "kframe ?X (pend_tbl t \<union> D) s s'" by (rule kframe_trans)
      have f: "filter (\<lambda>d. flag_test s1 ?c d = Some None) ds = filter (\<lambda>d. flag_test s ?c d = Some None) ds" using s18 by (intro filter_cong) auto
      have "waiter s d \<notin> waiter s1 ` {d \<in> set ds. flag_test s1 ?c d \<noteq> Some None}" using s18 unfolding X by fastforce
      from kframe_tcb(1) [OF s'(5) this s1(6)] obtain t2 where t2: "tcbs s' (waiter s d) = Some t2" "flag_woken r ts t2"
        using s1(7) tcb_other_flags(3) by blast
      have w: "\<forall>d' \<in> set (d # ds). \<forall>r. flag_test s ?c d' = Some (Some r) \<longrightarrow> (\<exists>t'. tcbs s' (waiter s d') = Some t' \<and> flag_woken r ts t')"
        using t2 yes s'(7) s18 by auto
      have wt: "\<forall>o'. \<forall>d \<in> set (P' o'). waiter s' d = waiter s d \<and> (\<forall>c. flag_test s' c d = flag_test s c d)"
      proof (intro allI ballI)
        fix o' d' assume d': "d' \<in> set (P' o')"
        with s'(4) have "d' \<in> set (P1 o')" by blast
        with d' s'(6) o show "waiter s' d' = waiter s d' \<and> (\<forall>c. flag_test s' c d' = flag_test s c d')" by simp
      qed
      have sub: "\<forall>o'. set (P' o') \<subseteq> set (P o')" using s'(4) s1(4) by blast
      from run [OF yes] s1(1) s'(1) False have "flag_post_loop p ts (hd (d # ds)) s = Some (True, s')" by simp
      then show ?thesis using s'(2) F w wt sub yes s'(3) unfolding f
        by (intro exI [of _ s'] exI [of _ R'] exI [of _ P'] exI [of _ W'] exI [of _ "pend_tbl t \<union> D"]) simp
    qed
  qed
qed simp

subsection \<open>Posting and pending\<close>

text \<open>No wake-up is lost: the flags of a group never satisfy the wait of a task on its pend list.\<close>

definition flag_inv :: "os \<Rightarrow> (ptr \<Rightarrow> ptr list) \<Rightarrow> bool" where
  "flag_inv s P \<longleftrightarrow> (\<forall>p g. flags s p = Some g \<longrightarrow> (\<forall>d \<in> set (P p). flag_test s (FLG_Flags g) d = Some None))"

definition flag_at :: "os \<Rightarrow> ptr \<Rightarrow> OS_FLAG_GRP \<Rightarrow> bool" where
  "flag_at s p g \<longleftrightarrow> p \<noteq> NULL \<and> flags s p = Some g \<and> (\<exists>b. objs s p = Some b \<and> OBJ_Type b = OS_OBJ_TYPE_FLAG)"

definition flag_post_opts :: "OS_OPT set" where
  "flag_post_opts = {OS_OPT_POST_FLAG_SET, OS_OPT_POST_FLAG_CLR, OS_OPT_POST_FLAG_SET OR OS_OPT_POST_NO_SCHED, OS_OPT_POST_FLAG_CLR OR OS_OPT_POST_NO_SCHED}"

lemma flag_ready_None: "flag_ready m c w = None \<longleftrightarrow> flag_ready m c' w' = None"
  by (simp add: flag_ready_def Let_def)

lemma flag_test_None: "flag_test s c d = None \<longleftrightarrow> flag_test s c' d = None"
  using flag_ready_None by (auto simp: flag_test_def split: option.splits)

lemma flag_test_globals [simp]: "flag_test (s\<lparr>flags := h\<rparr>) = flag_test s" "flag_test (s\<lparr>TmrRdIx := i\<rparr>) = flag_test s"
  by (simp_all add: flag_test_def waiter_def fun_eq_iff)

lemma waiter_flags [simp]: "waiter (s\<lparr>flags := h\<rparr>) = waiter s"
  by (simp add: waiter_def fun_eq_iff)

lemma sw_frame_flags:
  assumes "sw_frame s s'"
  shows "flags s' = flags s" "waiter s' = waiter s" "flag_test s' = flag_test s"
    "tcbs s x = Some t \<Longrightarrow> flag_woken r ts t \<Longrightarrow> \<exists>t'. tcbs s' x = Some t' \<and> flag_woken r ts t'"
proof -
  show "flags s' = flags s" using arg_cong [of _ _ flags, OF conjunct1 [OF assms [unfolded sw_frame_def]]] by (simp add: os_less_sw_def)
  show w: "waiter s' = waiter s" by (rule ext) (simp add: waiter_def sw_frame_globals(1) [OF assms])
  have t: "map_option tcb_stat (tcbs s' x) = map_option tcb_stat (tcbs s x)" for x using assms by (simp add: sw_frame_def)
  have v: "TCB_FlagsOpt (tcb_stat t) = TCB_FlagsOpt t" "TCB_FlagsPend (tcb_stat t) = TCB_FlagsPend t" "flag_woken r ts (tcb_stat t) = flag_woken r ts t" for t
    by (simp_all add: tcb_stat_def flag_woken_def)
  have "flag_test s' c d = flag_test s c d" for c d
  proof -
    have "map_option (\<lambda>t. (TCB_FlagsOpt t, TCB_FlagsPend t)) (tcbs s' (waiter s d)) = map_option (\<lambda>t. (TCB_FlagsOpt t, TCB_FlagsPend t)) (tcbs s (waiter s d))"
      by (rule map_option_eq_via [OF t]) (metis v(1,2))
    then show ?thesis unfolding flag_test_def w by (cases "tcbs s (waiter s d)"; cases "tcbs s' (waiter s d)") simp_all
  qed
  then show "flag_test s' = flag_test s" by (simp add: fun_eq_iff)
  assume a: "tcbs s x = Some t" "flag_woken r ts t"
  with t [of x] obtain t' where "tcbs s' x = Some t'" "tcb_stat t' = tcb_stat t" by (auto simp: map_option_Some_iff)
  with a(2) v(3) [of t] v(3) [of t'] show "\<exists>t'. tcbs s' x = Some t' \<and> flag_woken r ts t'" by simp
qed

lemma flag_inv_post:
  assumes I: "flag_inv s P" and fl: "flags s' = (flags s)(p \<mapsto> g')" and sub: "\<And>o'. set (P' o') \<subseteq> set (P o')"
    and t: "\<And>o' d c. d \<in> set (P' o') \<Longrightarrow> flag_test s' c d = flag_test s c d"
    and p: "\<And>d. d \<in> set (P' p) \<Longrightarrow> flag_test s (FLG_Flags g') d = Some None"
  shows "flag_inv s' P'"
  unfolding flag_inv_def
proof (intro allI impI ballI)
  fix q g d assume a: "flags s' q = Some g" "d \<in> set (P' q)"
  show "flag_test s' (FLG_Flags g) d = Some None"
  proof (cases "q = p")
    case True
    then show ?thesis using a fl t p by simp
  next
    case False
    then have "flags s q = Some g" "d \<in> set (P q)" using a fl sub by auto
    then show ?thesis using I t [OF a(2)] by (simp add: flag_inv_def)
  qed
qed

lemma OSFlagPost_ok:
  assumes S: "sys s R P W" and g: "flag_at s p g" and I: "flag_inv s P" and once: "distinct (map (waiter s) (P p))" and opt: "opt \<in> flag_post_opts"
    and st: "\<forall>d \<in> set (P p). \<forall>t. tcbs s (waiter s d) = Some t \<longrightarrow> TCB_TaskState t \<noteq> OS_TASK_STATE_PEND_TIMEOUT_SUSPENDED"
    and c: "flag_update opt fl (FLG_Flags g) = Some c"
  shows "\<exists>s' R' P' W'. OSFlagPost p fl opt s = Some (c, OS_ERR_NONE, s') \<and> sys s' R' P' W' \<and> flag_inv s' P' \<and>
    flags s' = (flags s)(p \<mapsto> \<lparr>FLG_Flags = c, FLG_TS = fst (OS_TS_GET s)\<rparr>) \<and> P' p = filter (\<lambda>d. flag_test s c d = Some None) (P p) \<and>
    (\<forall>d \<in> set (P p). \<forall>r. flag_test s c d = Some (Some r) \<longrightarrow> (\<exists>t'. tcbs s' (waiter s d) = Some t' \<and> flag_woken r (fst (OS_TS_GET s)) t'))"
proof -
  from g obtain b where b: "p \<noteq> NULL" "flags s p = Some g" "objs s p = Some b" "OBJ_Type b = OS_OBJ_TYPE_FLAG" by (auto simp: flag_at_def)
  let ?ts = "fst (OS_TS_GET s)" let ?g = "\<lparr>FLG_Flags = c, FLG_TS = ?ts\<rparr>" let ?s1 = "(snd (OS_TS_GET s))\<lparr>flags := (flags s)(p \<mapsto> ?g)\<rparr>"
  have gg: "g\<lparr>FLG_Flags := f, FLG_TS := ts\<rparr> = \<lparr>FLG_Flags = f, FLG_TS = ts\<rparr>" for f ts by (cases g) simp
  have S1: "sys ?s1 R P W" "objs ?s1 p = Some b" "flags ?s1 = (flags s)(p \<mapsto> ?g)" "waiter ?s1 = waiter s" "flag_test ?s1 = flag_test s" "tcbs ?s1 = tcbs s"
    using S b(3) by (simp_all add: OS_TS_GET_def)
  have t1: "flag_test ?s1 c d = flag_test s c d" for c d by (simp only: S1(5))
  have K1: "kinv ?s1 R P W" and c1: "cur_rdy ?s1" using S1(1) by (simp_all add: sys_def)
  have ft: "flag_test s c d \<noteq> None" if "d \<in> set (P p)" for d
    using I b(2) that flag_test_None [of s c d "FLG_Flags g"] by (auto simp: flag_inv_def)
  have run: "OSFlagPost p fl opt s = (if P p = [] then Some (c, OS_ERR_NONE, ?s1) else
      flag_post_loop p ?ts (hd (P p)) ?s1 \<bind> (\<lambda>(ok, s). if \<not> ok then Some (0, OS_ERR_FLAG_PEND_OPT, s)
        else (if opt AND OS_OPT_POST_NO_SCHED = 0 then OSSched s else Some s) \<bind> (\<lambda>s. flags s p \<bind> (\<lambda>grp. Some (FLG_Flags grp, OS_ERR_NONE, s)))))"
  proof -
    have "PL_NbrEntries (OBJ_PendList b) = 0 \<longleftrightarrow> P p = []" "PL_HeadPtr (OBJ_PendList b) = hd0 NULL (P p)" "P p \<noteq> [] \<Longrightarrow> hd0 NULL (P p) = hd (P p)"
      using pend_empty_iff(1,3) [OF K1 S1(2)] by (simp_all, cases "P p", simp_all)
    then show ?thesis using b opt c unfolding OSFlagPost_def OS_FlagPost_def flag_post_opts_def
      by (simp add: gg case_prod_unfold OS_TS_GET_def cong: if_cong)
  qed
  show ?thesis
  proof (cases "P p = []")
    case True
    have "flag_inv ?s1 P" by (rule flag_inv_post [OF I S1(3) _ t1]) (use True in simp_all)
    with run True S1(1,3) show ?thesis by (intro exI [of _ ?s1] exI [of _ R] exI [of _ P] exI [of _ W]) simp
  next
    case False
    have "\<exists>s' R' P' W' D. flag_post_loop p ?ts (hd (P p)) ?s1 = Some (True, s') \<and> kinv s' R' P' W' \<and>
      P' p = [] @ filter (\<lambda>d. flag_test ?s1 (FLG_Flags ?g) d = Some None) (P p) \<and> (\<forall>o'. set (P' o') \<subseteq> set (P o')) \<and>
      kframe (waiter ?s1 ` {d \<in> set (P p). flag_test ?s1 (FLG_Flags ?g) d \<noteq> Some None}) D ?s1 s' \<and>
      (\<forall>o'. \<forall>d \<in> set (P' o'). waiter s' d = waiter ?s1 d \<and> (\<forall>c. flag_test s' c d = flag_test ?s1 c d)) \<and>
      (\<forall>d \<in> set (P p). \<forall>r. flag_test ?s1 (FLG_Flags ?g) d = Some (Some r) \<longrightarrow> (\<exists>t'. tcbs s' (waiter ?s1 d) = Some t' \<and> flag_woken r ?ts t'))"
      by (rule flag_post_loop_ok [OF K1 _ False]) (use once st ft S1 in simp_all)
    then obtain s2 R' P' W' D where s2: "flag_post_loop p ?ts (hd (P p)) ?s1 = Some (True, s2)" "kinv s2 R' P' W'"
      "P' p = filter (\<lambda>d. flag_test s c d = Some None) (P p)" "\<forall>o'. set (P' o') \<subseteq> set (P o')"
      "kframe (waiter s ` {d \<in> set (P p). flag_test s c d \<noteq> Some None}) D ?s1 s2"
      "\<forall>o'. \<forall>d \<in> set (P' o'). waiter s2 d = waiter s d \<and> (\<forall>c. flag_test s2 c d = flag_test s c d)"
      "\<forall>d \<in> set (P p). \<forall>r. flag_test s c d = Some (Some r) \<longrightarrow> (\<exists>t'. tcbs s2 (waiter s d) = Some t' \<and> flag_woken r ?ts t')"
      unfolding S1(4,5) by auto
    have "OSTCBCurPtr ?s1 \<notin> waiter s ` {d \<in> set (P p). flag_test s c d \<noteq> Some None}"
      using waiter_not_cur [OF K1 c1, of _ p, unfolded S1(4)] by force
    from kframe_cur [OF c1 s2(5) this] s2(2) have "sys s2 R' P' W'" by (simp add: sys_def)
    from sched_if_ok [OF this, of "opt AND OS_OPT_POST_NO_SCHED = 0"] obtain s' where
      s': "(if opt AND OS_OPT_POST_NO_SCHED = 0 then OSSched s2 else Some s2) = Some s'" "sys s' R' P' W'" "sw_frame s2 s'" by blast
    note sw = sw_frame_flags [OF s'(3)]
    have fl: "flags s' = (flags s)(p \<mapsto> ?g)" using kframe_flags [OF s2(5)] sw(1) S1(3) by simp
    have "flag_inv s' P'" by (rule flag_inv_post [OF I fl]) (use s2(3,4,6) sw(3) in auto)
    moreover have "OSFlagPost p fl opt s = Some (c, OS_ERR_NONE, s')" using run False s2(1) s'(1) fl by simp
    moreover have "\<forall>d \<in> set (P p). \<forall>r. flag_test s c d = Some (Some r) \<longrightarrow> (\<exists>t'. tcbs s' (waiter s d) = Some t' \<and> flag_woken r ?ts t')"
      using s2(7) sw(4) by blast
    ultimately show ?thesis using s'(2) fl s2(3) by (intro exI [of _ s'] exI [of _ R'] exI [of _ P'] exI [of _ W']) simp
  qed
qed

lemma OSFlagPend_takes:
  assumes "flag_at s p g" "flag_ready (opt AND OS_OPT_PEND_FLAG_MASK) (FLG_Flags g) fl = Some (Some r)" "OSIntNestingCtr s = 0" "opt \<in> flag_pend_opts"
    and "opt AND OS_OPT_PEND_FLAG_CONSUME \<noteq> 0 \<Longrightarrow> flag_consume (opt AND OS_OPT_PEND_FLAG_MASK) r (FLG_Flags g) = Some f" "tcbs s (OSTCBCurPtr s) = Some t"
  shows "OSFlagPend d p fl timeout opt p_ts s = Some (Done (r, ts_out p_ts (FLG_TS g), OS_ERR_NONE),
    (if opt AND OS_OPT_PEND_FLAG_CONSUME \<noteq> 0 then s\<lparr>flags := (flags s)(p \<mapsto> g\<lparr>FLG_Flags := f\<rparr>)\<rparr> else s)
      \<lparr>tcbs := (tcbs s)(OSTCBCurPtr s \<mapsto> t\<lparr>TCB_FlagsRdy := r\<rparr>)\<rparr>)"
  using assms by (auto simp: OSFlagPend_def flag_at_def Let_def)

lemma sys_cur_misc:
  assumes S: "sys s R P W" and t: "tcbs s (OSTCBCurPtr s) = Some t" "tcb_key t' = tcb_key t"
  shows "sys (s\<lparr>tcbs := (tcbs s)(OSTCBCurPtr s \<mapsto> t')\<rparr>) R P W"
proof -
  have "kinv (s\<lparr>tcbs := (tcbs s)(OSTCBCurPtr s \<mapsto> t')\<rparr>) R P W = kinv s R P W" by (rule kinv_cong) (use t in simp_all)
  then show ?thesis using S t by (auto simp: sys_def cur_rdy_def tcb_key_def rdy_view_def)
qed

text \<open>A task blocks on a group whose flags do not satisfy its wait.\<close>

lemma OSFlagPend_blocks:
  assumes S: "sys s R P W" and g: "flag_at s p g" "flag_ready (opt AND OS_OPT_PEND_FLAG_MASK) (FLG_Flags g) fl = Some None"
    and I: "flag_inv s P" and n: "OSIntNestingCtr s = 0" "OSSchedLockNestingCtr s = 0"
    and opt: "opt \<in> flag_pend_opts" "opt AND OS_OPT_PEND_NON_BLOCKING = 0"
    and o: "y \<in> set (R q)" "y \<noteq> OSTCBCurPtr s" and d: "d \<in> dom (pds s)" "d \<noteq> NULL" "\<And>ob. d \<notin> set (P ob)"
  shows "\<exists>s' R' P' W'. OSFlagPend d p fl timeout opt p_ts s = Some (Blocked, s') \<and> sys s' R' P' W' \<and> flag_inv s' P' \<and> flags s' = flags s \<and>
    set (P' p) = insert d (set (P p)) \<and> waiter s' d = OSTCBCurPtr s \<and> OSTCBCurPtr s' = top_task R' \<and> OSTCBCurPtr s' \<noteq> OSTCBCurPtr s"
proof -
  from g(1) obtain b where b: "p \<noteq> NULL" "flags s p = Some g" "objs s p = Some b" "OBJ_Type b = OS_OBJ_TYPE_FLAG" by (auto simp: flag_at_def)
  have K: "kinv s R P W" and c: "cur_rdy s" using S by (simp_all add: sys_def)
  then obtain t where t: "tcbs s (OSTCBCurPtr s) = Some t" by (auto simp: cur_rdy_def)
  let ?x = "OSTCBCurPtr s" let ?u = "t\<lparr>TCB_FlagsPend := fl, TCB_FlagsOpt := opt, TCB_FlagsRdy := 0\<rparr>" let ?r = "s\<lparr>tcbs := (tcbs s)(?x \<mapsto> ?u)\<rparr>"
  have Sr: "sys ?r R P W" by (rule sys_cur_misc [OF S t]) (simp add: tcb_key_def rdy_view_def tick_view_def)
  have wr: "waiter ?r = waiter s" by (simp add: waiter_def fun_eq_iff)
  from pend_sched_ok [OF Sr, of y q p d OS_TASK_PEND_ON_FLAG timeout] n o b(1) domI [of "objs s" p, OF b(3)] d obtain s1 s2 R' where
    s1: "OS_Pend d p OS_TASK_PEND_ON_FLAG timeout ?r = Some s1" "OSSched s1 = Some s2"
      "blocked ?r R P W ?x d p OS_TASK_PEND_ON_FLAG timeout s1" "sw_frame s1 s2"
      "sys s2 R' (pend_block s1 p d P) (tick_block ?r ?x timeout s1 W)" "OSTCBCurPtr s2 = top_task R'" "OSTCBCurPtr s2 \<noteq> ?x" by auto
  have P': "pend_block s1 p d P = P(p := prio_insert (pd_prio s1) d (P p))" using b(1) by (simp add: pend_block_def)
  note sw = sw_frame_flags [OF s1(4)]
  have Kr: "kinv ?r R P W" using Sr by (simp add: sys_def)
  have wd: "waiter s1 d = ?x" by (rule blocked_waiter [OF Kr s1(3) b(1) d(3)])
  from s1(3) b(1) obtain u where u: "kframe {?x} {d} ?r s1" "tcbs s1 ?x = Some u" "TCB_FlagsOpt u = opt" "TCB_FlagsPend u = fl"
    unfolding blocked_def by auto
  have fl: "flags s2 = flags s" using kframe_flags [OF u(1)] sw(1) by simp
  have new: "flag_test s1 (FLG_Flags g) d = Some None" using g(2) u(2-4) wd by (simp add: flag_test_def)
  have old: "flag_test s1 k d' = flag_test s k d'" if d': "d' \<in> set (P ob)" for d' ob k
  proof -
    from pend_entry [OF K d'] obtain e where e: "pds s d' = Some e" by blast
    have "d' \<noteq> d" using d(3) d' by blast
    then have w: "waiter s1 d' = waiter s d'" using waiter_kframe [OF u(1), of d' e] e wr by simp
    have nx: "waiter s d' \<noteq> ?x" by (rule waiter_not_cur [OF K c d'])
    have "flag_test s1 k d' = flag_test ?r k d'" by (rule flag_test_kframe [OF u(1)]) (use w nx wr in simp_all)
    also have "\<dots> = flag_test s k d'" using nx wr by (simp add: flag_test_def)
    finally show ?thesis .
  qed
  have "flag_inv s2 (pend_block s1 p d P)"
    unfolding flag_inv_def fl sw(3) P'
  proof (intro allI impI ballI)
    fix q' g' d' assume a: "flags s q' = Some g'" "d' \<in> set ((P(p := prio_insert (pd_prio s1) d (P p))) q')"
    show "flag_test s1 (FLG_Flags g') d' = Some None"
    proof (cases "d' = d")
      case True
      then have "q' = p" using a(2) d(3) by (cases "q' = p") auto
      with a(1) b(2) new True show ?thesis by simp
    next
      case False
      then have "d' \<in> set (P q')" using a(2) by (cases "q' = p") auto
      with old [of d' q'] I a(1) show ?thesis by (simp add: flag_inv_def)
    qed
  qed
  moreover have "OSFlagPend d p fl timeout opt p_ts s = Some (Blocked, s2)"
    using b g(2) n opt s1(1,2) t by (simp add: OSFlagPend_def OS_FlagBlock_def Let_def)
  moreover have "set (pend_block s1 p d P p) = insert d (set (P p))" unfolding P' by simp
  ultimately show ?thesis using s1(5-7) fl wd sw(2)
    by (intro exI [of _ s2] exI [of _ R'] exI [of _ "pend_block s1 p d P"] exI [of _ "tick_block ?r ?x timeout s1 W"]) simp
qed

text \<open>Consuming set flags cannot satisfy a wait for set flags.\<close>

lemma flag_ready_mono:
  assumes "flag_ready m c w = Some None" "m \<in> {OS_OPT_PEND_FLAG_SET_ALL, OS_OPT_PEND_FLAG_SET_ANY}"
  shows "flag_ready m (c AND NOT r) w = Some None"
proof -
  have "c AND w = w" if a: "(c AND NOT r) AND w = w"
  proof -
    have "bit w n \<Longrightarrow> bit c n" for n using arg_cong [OF a, of "\<lambda>x. bit x n"] by (simp add: bit_simps)
    then show ?thesis by (intro bit_word_eqI) (auto simp: bit_simps)
  qed
  moreover have "(c AND NOT r) AND w = 0" if a: "c AND w = 0"
  proof -
    have "\<not> (bit c n \<and> bit w n)" for n using arg_cong [OF a, of "\<lambda>x. bit x n"] by (simp add: bit_simps)
    then show ?thesis by (intro bit_word_eqI) (auto simp: bit_simps)
  qed
  ultimately show ?thesis using assms by (auto simp: flag_ready_def Let_def split: if_splits)
qed

lemma flag_ready_modes: "flag_ready m c w \<noteq> None \<Longrightarrow> m \<in> {OS_OPT_PEND_FLAG_SET_ALL, OS_OPT_PEND_FLAG_SET_ANY}"
  by (simp add: flag_ready_def OS_CFG_FLAG_MODE_CLR_EN_def split: if_splits)

lemma flag_consume_set: "flag_ready m c w \<noteq> None \<Longrightarrow> flag_consume m r c' = Some (c' AND NOT r)"
  using flag_ready_modes [of m c w] by (simp add: flag_consume_def)

lemma flag_inv_consume:
  assumes I: "flag_inv s P" and g: "flags s p = Some g"
  shows "flag_inv (s\<lparr>flags := (flags s)(p \<mapsto> g\<lparr>FLG_Flags := FLG_Flags g AND NOT r\<rparr>)\<rparr>) P"
proof (rule flag_inv_post [OF I])
  fix d assume "d \<in> set (P p)"
  with I g have a: "flag_test s (FLG_Flags g) d = Some None" by (simp add: flag_inv_def)
  then obtain t where t: "tcbs s (waiter s d) = Some t" by (auto simp: flag_test_def split: option.splits)
  let ?m = "TCB_FlagsOpt t AND OS_OPT_PEND_FLAG_MASK"
  have b: "flag_ready ?m (FLG_Flags g) (TCB_FlagsPend t) = Some None" using a t by (simp add: flag_test_def)
  have "?m \<in> {OS_OPT_PEND_FLAG_SET_ALL, OS_OPT_PEND_FLAG_SET_ANY}" by (rule flag_ready_modes [of _ "FLG_Flags g" "TCB_FlagsPend t"]) (use b in simp)
  from flag_ready_mono [OF b this] t show "flag_test s (FLG_Flags (g\<lparr>FLG_Flags := FLG_Flags g AND NOT r\<rparr>)) d = Some None" by (simp add: flag_test_def)
qed simp_all

lemma flag_inv_rdy:
  assumes "tcbs s x = Some t"
  shows "flag_inv (s\<lparr>tcbs := (tcbs s)(x \<mapsto> t\<lparr>TCB_FlagsRdy := r\<rparr>)\<rparr>) P = flag_inv s P"
proof -
  have "flag_test (s\<lparr>tcbs := (tcbs s)(x \<mapsto> t\<lparr>TCB_FlagsRdy := r\<rparr>)\<rparr>) c d = flag_test s c d" for c d
    using assms by (simp add: flag_test_def waiter_def)
  then show ?thesis by (simp add: flag_inv_def)
qed

text \<open>The second half of a pending call consumes the flags and keeps the invariants.\<close>

lemma OSFlagPend_resume_ok:
  assumes S: "sys s R P W" and I: "flag_inv s P" and g: "flags s p = Some g" and t: "tcbs s (OSTCBCurPtr s) = Some t" "TCB_PendStatus t = OS_STATUS_PEND_OK"
    and m: "opt AND OS_OPT_PEND_FLAG_MASK \<in> {OS_OPT_PEND_FLAG_SET_ALL, OS_OPT_PEND_FLAG_SET_ANY}"
  shows "\<exists>s'. OSFlagPend_resume p opt p_ts s = Some (TCB_FlagsRdy t, ts_out p_ts (TCB_TS t), OS_ERR_NONE, s') \<and> sys s' R P W \<and> flag_inv s' P \<and>
    flags s' = (if opt AND OS_OPT_PEND_FLAG_CONSUME \<noteq> 0 then (flags s)(p \<mapsto> g\<lparr>FLG_Flags := FLG_Flags g AND NOT (TCB_FlagsRdy t)\<rparr>) else flags s)"
proof (cases "opt AND OS_OPT_PEND_FLAG_CONSUME = 0")
  case True
  then show ?thesis using S I t by (simp add: OSFlagPend_resume_def pend_err_def pend_ts_def)
next
  case False
  have "flag_consume (opt AND OS_OPT_PEND_FLAG_MASK) (TCB_FlagsRdy t) (FLG_Flags g) = Some (FLG_Flags g AND NOT (TCB_FlagsRdy t))"
    using m by (simp add: flag_consume_def)
  then show ?thesis using False S t g flag_inv_consume [OF I g] by (simp add: OSFlagPend_resume_def pend_err_def pend_ts_def Let_def)
qed

end
