(* ===== verification/Flag_Props.thy ===== *)
theory Flag_Props
  imports OS_Flag OS_Task Object_Props
begin







text \<open>C28. Making a task ready that was suspended while it waited with a time-out leaves it on the
  tick wheel: its state is the one of a task that is only suspended, but it is still on a spoke, so
  that the kernel invariant no longer holds.\<close>

theorem OS_FlagTaskRdy_leaves_on_wheel:
  assumes "kinv s R P W" "tcbs s x = Some t" "TCB_TaskState t = OS_TASK_STATE_PEND_TIMEOUT_SUSPENDED"
  shows "\<exists>s' t'. OS_FlagTaskRdy x fl ts s = Some s' \<and> tcbs s' x = Some t' \<and> TCB_TaskState t' = OS_TASK_STATE_SUSPENDED \<and>
    TCB_TickSpokePtr t' \<noteq> None \<and> (\<forall>R' P' W'. \<not> kinv s' R' P' W')"
  by (rule OS_FlagTaskRdy_timeout_suspended [OF assms])

theorem OS_FlagTaskRdy_leaves_on_wheel_witness:
  "\<exists>s s' (t' :: OS_TCB). OS_FlagTaskRdy 3 1 0 s = Some s' \<and> tcbs s' 3 = Some t' \<and> TCB_TaskState t' = OS_TASK_STATE_SUSPENDED \<and> TCB_TickSpokePtr t' \<noteq> None"
proof -
  let ?t = "tcb0\<lparr>TCB_Prio := 3, TCB_TaskState := 3, TCB_PendOn := 6, TCB_PendDataTblPtr := 10, TCB_PendDataTblEntries := 1,
    TCB_TickCtrMatch := 4, TCB_TickRemain := 4, TCB_TickSpokePtr := Some 4\<rparr>"
  let ?u = "?t\<lparr>TCB_TaskState := OS_TASK_STATE_PEND_TIMEOUT_SUSPENDED\<rparr>" let ?s = "demo\<lparr>tcbs := (tcbs demo)(3 \<mapsto> ?u)\<rparr>"
  have t: "tcbs demo 3 = Some ?t" by (simp add: demo_def demo_tcb_def)
  have "kinv ?s demo_R demo_P demo_W"
    by (rule kinv_restate [OF demo_kinv t]) (simp_all add: rdy_view_def tick_view_def pend_tbl_def st_pend_def st_tick_def)
  moreover have "tcbs ?s 3 = Some ?u" "TCB_TaskState ?u = OS_TASK_STATE_PEND_TIMEOUT_SUSPENDED" by simp_all
  ultimately show ?thesis using OS_FlagTaskRdy_leaves_on_wheel [of ?s demo_R demo_P demo_W 3 ?u 1 0] by blast
qed

end
