(* ===== verification/OS_Tmr.thy ===== *)
theory OS_Tmr
  imports OS_Task
begin

text \<open>
  \<^verbatim>\<open>src/ucosTest/Source/os_tmr.c\<close>: software timers.  A running timer is in the list of spoke
  \<open>Match mod OSCfg_TmrWheelSize\<close> of the timer wheel, ordered by the remaining time.  The functions the
  timers call back belong to the application: a parameter \<open>callback\<close> of the routines that call
  them, applied to the function pointer, the timer and the argument.  The addresses of the stack and
  of the code of the timer task are arguments of \<^verbatim>\<open>OS_TmrInit\<close>.  \<^verbatim>\<open>OSTmrDel\<close> is compiled out by
  \<^verbatim>\<open>OS_CFG_TMR_DEL_EN = 0\<close> and modelled as it is written.
\<close>

abbreviation (input) OS_OPT_LINK_DLY :: OS_OPT where "OS_OPT_LINK_DLY \<equiv> 0"
abbreviation (input) OS_OPT_LINK_PERIODIC :: OS_OPT where "OS_OPT_LINK_PERIODIC \<equiv> 1"
abbreviation (input) OS_OPT_TASK_STK_CHK :: OS_OPT where "OS_OPT_TASK_STK_CHK \<equiv> 1"
abbreviation (input) OS_OPT_TASK_STK_CLR :: OS_OPT where "OS_OPT_TASK_STK_CLR \<equiv> 2"
abbreviation (input) OS_OPT_TASK_NO_TLS :: OS_OPT where "OS_OPT_TASK_NO_TLS \<equiv> 8"
abbreviation (input) OSCfg_TmrTaskPrio :: OS_PRIO where "OSCfg_TmrTaskPrio \<equiv> 11"
abbreviation (input) OSCfg_TmrTaskStkSize :: CPU_STK_SIZE where "OSCfg_TmrTaskStkSize \<equiv> 128"
abbreviation (input) OSCfg_TmrTaskStkLimit :: CPU_STK_SIZE where "OSCfg_TmrTaskStkLimit \<equiv> 12"

type_synonym tmr_callback = "ptr \<Rightarrow> ptr \<Rightarrow> ptr \<Rightarrow> os \<Rightarrow> os option"

definition tmr_mod :: "ptr \<Rightarrow> (OS_TMR \<Rightarrow> OS_TMR) \<Rightarrow> os \<Rightarrow> os option" where
  "tmr_mod p f s = map_option (\<lambda>h. s\<lparr>tmrs := h\<rparr>) (mod_at p f (tmrs s))"

definition tspk_mod :: "nat \<Rightarrow> (OS_TMR_SPOKE \<Rightarrow> OS_TMR_SPOKE) \<Rightarrow> os \<Rightarrow> os option" where
  "tspk_mod p f s = map_option (\<lambda>h. s\<lparr>OSCfg_TmrWheel := h\<rparr>) (mod_at p f (OSCfg_TmrWheel s))"

lemma tmr_mod_Some [simp]: "tmrs s p = Some n \<Longrightarrow> tmr_mod p f s = Some (s\<lparr>tmrs := (tmrs s)(p \<mapsto> f n)\<rparr>)"
  by (simp add: tmr_mod_def)

lemma tspk_mod_Some [simp]: "OSCfg_TmrWheel s p = Some n \<Longrightarrow> tspk_mod p f s = Some (s\<lparr>OSCfg_TmrWheel := (OSCfg_TmrWheel s)(p \<mapsto> f n)\<rparr>)"
  by (simp add: tspk_mod_def)

definition OS_TmrDbgListAdd :: "ptr \<Rightarrow> os \<Rightarrow> os option" where
  "OS_TmrDbgListAdd p_tmr s = do {
     s \<leftarrow> tmr_mod p_tmr (\<lambda>t. t\<lparr>TMR_DbgPrevPtr := NULL\<rparr>) s;
     s \<leftarrow> (if OSTmrDbgListPtr s = NULL then tmr_mod p_tmr (\<lambda>t. t\<lparr>TMR_DbgNextPtr := NULL\<rparr>) s
           else do {
             s \<leftarrow> tmr_mod p_tmr (\<lambda>t. t\<lparr>TMR_DbgNextPtr := OSTmrDbgListPtr s\<rparr>) s;
             tmr_mod (OSTmrDbgListPtr s) (\<lambda>t. t\<lparr>TMR_DbgPrevPtr := p_tmr\<rparr>) s
           });
     Some (s\<lparr>OSTmrDbgListPtr := p_tmr\<rparr>)
   }"

definition OS_TmrDbgListRemove :: "ptr \<Rightarrow> os \<Rightarrow> os option" where
  "OS_TmrDbgListRemove p_tmr s = do {
     tmr \<leftarrow> tmrs s p_tmr;
     let p_tmr_prev = TMR_DbgPrevPtr tmr;
     let p_tmr_next = TMR_DbgNextPtr tmr;
     if p_tmr_prev = NULL then do {
       let s = s\<lparr>OSTmrDbgListPtr := p_tmr_next\<rparr>;
       s \<leftarrow> (if p_tmr_next \<noteq> NULL then tmr_mod p_tmr_next (\<lambda>t. t\<lparr>TMR_DbgPrevPtr := NULL\<rparr>) s else Some s);
       tmr_mod p_tmr (\<lambda>t. t\<lparr>TMR_DbgNextPtr := NULL\<rparr>) s
     } else if p_tmr_next = NULL then do {
       s \<leftarrow> tmr_mod p_tmr_prev (\<lambda>t. t\<lparr>TMR_DbgNextPtr := NULL\<rparr>) s;
       tmr_mod p_tmr (\<lambda>t. t\<lparr>TMR_DbgPrevPtr := NULL\<rparr>) s
     } else do {
       s \<leftarrow> tmr_mod p_tmr_prev (\<lambda>t. t\<lparr>TMR_DbgNextPtr := p_tmr_next\<rparr>) s;
       s \<leftarrow> tmr_mod p_tmr_next (\<lambda>t. t\<lparr>TMR_DbgPrevPtr := p_tmr_prev\<rparr>) s;
       tmr_mod p_tmr (\<lambda>t. t\<lparr>TMR_DbgNextPtr := NULL, TMR_DbgPrevPtr := NULL\<rparr>) s
     }
   }"

definition OSTmrCreate :: "ptr \<Rightarrow> string \<Rightarrow> OS_TICK \<Rightarrow> OS_TICK \<Rightarrow> OS_OPT \<Rightarrow> ptr \<Rightarrow> ptr \<Rightarrow> os \<Rightarrow> (OS_ERR \<times> os) option" where
  "OSTmrCreate p_tmr p_name dly period opt p_callback p_callback_arg s =
     (if OSIntNestingCtr s > 0 then Some (OS_ERR_TMR_ISR, s)
      else if p_tmr = NULL then Some (OS_ERR_OBJ_PTR_NULL, s)
      else if opt = OS_OPT_TMR_PERIODIC \<and> period = 0 then Some (OS_ERR_TMR_INVALID_PERIOD, s)
      else if opt = OS_OPT_TMR_ONE_SHOT \<and> dly = 0 then Some (OS_ERR_TMR_INVALID_DLY, s)
      else if opt \<notin> {OS_OPT_TMR_PERIODIC, OS_OPT_TMR_ONE_SHOT} then Some (OS_ERR_OPT_INVALID, s)
      else do {
        s \<leftarrow> tmr_mod p_tmr (\<lambda>t. t\<lparr>TMR_State := OS_TMR_STATE_STOPPED, TMR_Type := OS_OBJ_TYPE_TMR, TMR_NamePtr := p_name, TMR_Dly := dly,
               TMR_Match := 0, TMR_Remain := 0, TMR_Period := period, TMR_Opt := opt, TMR_CallbackPtr := p_callback,
               TMR_CallbackPtrArg := p_callback_arg, TMR_NextPtr := NULL, TMR_PrevPtr := NULL\<rparr>) s;
        s \<leftarrow> OS_TmrDbgListAdd p_tmr s;
        Some (OS_ERR_NONE, s\<lparr>OSTmrQty := OSTmrQty s + 1\<rparr>)
      })"

definition OS_TmrClr :: "ptr \<Rightarrow> os \<Rightarrow> os option" where
  "OS_TmrClr p_tmr = tmr_mod p_tmr (\<lambda>t. t\<lparr>TMR_State := OS_TMR_STATE_UNUSED, TMR_Type := OS_OBJ_TYPE_NONE, TMR_NamePtr := ''?TMR'', TMR_Dly := 0,
     TMR_Match := 0, TMR_Remain := 0, TMR_Period := 0, TMR_Opt := 0, TMR_CallbackPtr := NULL, TMR_CallbackPtrArg := NULL,
     TMR_NextPtr := NULL, TMR_PrevPtr := NULL\<rparr>)"

text \<open>The match value \<^verbatim>\<open>OS_TmrLink\<close> gives to a timer.\<close>

definition tmr_match :: "OS_OPT \<Rightarrow> OS_TICK \<Rightarrow> OS_TMR \<Rightarrow> OS_TICK" where
  "tmr_match opt now t =
     (if opt = OS_OPT_LINK_PERIODIC then TMR_Period t + now
      else if TMR_Dly t = 0 then TMR_Period t + now else TMR_Dly t + now)"

text \<open>The search loop of \<^verbatim>\<open>OS_TmrLink\<close>.\<close>

partial_function (option) tmr_insert_loop :: "ptr \<Rightarrow> nat \<Rightarrow> ptr \<Rightarrow> os \<Rightarrow> os option" where
  "tmr_insert_loop p_tmr spoke p_tmr1 s =
     (if p_tmr1 = NULL then Some s
      else do {
        tmr1 \<leftarrow> tmrs s p_tmr1;
        s \<leftarrow> tmr_mod p_tmr1 (\<lambda>t. t\<lparr>TMR_Remain := TMR_Match tmr1 - OSTmrTickCtr s\<rparr>) s;
        tmr \<leftarrow> tmrs s p_tmr;
        tmr1 \<leftarrow> tmrs s p_tmr1;
        if TMR_Remain tmr > TMR_Remain tmr1 then
          if TMR_NextPtr tmr1 \<noteq> NULL then tmr_insert_loop p_tmr spoke (TMR_NextPtr tmr1) s
          else do {
            s \<leftarrow> tmr_mod p_tmr (\<lambda>t. t\<lparr>TMR_NextPtr := NULL, TMR_PrevPtr := p_tmr1\<rparr>) s;
            tmr_mod p_tmr1 (\<lambda>t. t\<lparr>TMR_NextPtr := p_tmr\<rparr>) s
          }
        else if TMR_PrevPtr tmr1 = NULL then do {
          s \<leftarrow> tmr_mod p_tmr (\<lambda>t. t\<lparr>TMR_PrevPtr := NULL, TMR_NextPtr := p_tmr1\<rparr>) s;
          s \<leftarrow> tmr_mod p_tmr1 (\<lambda>t. t\<lparr>TMR_PrevPtr := p_tmr\<rparr>) s;
          tspk_mod spoke (\<lambda>k. k\<lparr>TSPK_FirstPtr := p_tmr\<rparr>) s
        } else do {
          let p_tmr0 = TMR_PrevPtr tmr1;
          s \<leftarrow> tmr_mod p_tmr (\<lambda>t. t\<lparr>TMR_PrevPtr := p_tmr0, TMR_NextPtr := p_tmr1\<rparr>) s;
          s \<leftarrow> tmr_mod p_tmr0 (\<lambda>t. t\<lparr>TMR_NextPtr := p_tmr\<rparr>) s;
          tmr_mod p_tmr1 (\<lambda>t. t\<lparr>TMR_PrevPtr := p_tmr\<rparr>) s
        }
      })"

definition OS_TmrLink :: "ptr \<Rightarrow> OS_OPT \<Rightarrow> os \<Rightarrow> os option" where
  "OS_TmrLink p_tmr opt s = do {
     s \<leftarrow> tmr_mod p_tmr (\<lambda>t. t\<lparr>TMR_State := OS_TMR_STATE_RUNNING, TMR_Match := tmr_match opt (OSTmrTickCtr s) t\<rparr>) s;
     tmr \<leftarrow> tmrs s p_tmr;
     let spoke = unat (TMR_Match tmr mod OSCfg_TmrWheelSize);
     p_spoke \<leftarrow> OSCfg_TmrWheel s spoke;
     s \<leftarrow> (if TSPK_FirstPtr p_spoke = NULL then do {
             s \<leftarrow> tmr_mod p_tmr (\<lambda>t. t\<lparr>TMR_NextPtr := NULL, TMR_PrevPtr := NULL\<rparr>) s;
             tspk_mod spoke (\<lambda>k. k\<lparr>TSPK_FirstPtr := p_tmr, TSPK_NbrEntries := 1\<rparr>) s
           } else do {
             s \<leftarrow> tmr_mod p_tmr (\<lambda>t. t\<lparr>TMR_Remain := TMR_Match t - OSTmrTickCtr s\<rparr>) s;
             s \<leftarrow> tmr_insert_loop p_tmr spoke (TSPK_FirstPtr p_spoke) s;
             tspk_mod spoke (\<lambda>k. k\<lparr>TSPK_NbrEntries := TSPK_NbrEntries k + 1\<rparr>) s
           });
     tspk_mod spoke (\<lambda>k. if TSPK_NbrEntriesMax k < TSPK_NbrEntries k then k\<lparr>TSPK_NbrEntriesMax := TSPK_NbrEntries k\<rparr> else k) s
   }"

definition OS_TmrUnlink :: "ptr \<Rightarrow> os \<Rightarrow> os option" where
  "OS_TmrUnlink p_tmr s = do {
     tmr \<leftarrow> tmrs s p_tmr;
     let spoke = unat (TMR_Match tmr mod OSCfg_TmrWheelSize);
     p_spoke \<leftarrow> OSCfg_TmrWheel s spoke;
     s \<leftarrow> (if TSPK_FirstPtr p_spoke = p_tmr then do {
             let p_tmr1 = TMR_NextPtr tmr;
             s \<leftarrow> tspk_mod spoke (\<lambda>k. k\<lparr>TSPK_FirstPtr := p_tmr1\<rparr>) s;
             if p_tmr1 \<noteq> NULL then tmr_mod p_tmr1 (\<lambda>t. t\<lparr>TMR_PrevPtr := NULL\<rparr>) s else Some s
           } else do {
             let p_tmr1 = TMR_PrevPtr tmr;
             let p_tmr2 = TMR_NextPtr tmr;
             s \<leftarrow> tmr_mod p_tmr1 (\<lambda>t. t\<lparr>TMR_NextPtr := p_tmr2\<rparr>) s;
             if p_tmr2 \<noteq> NULL then tmr_mod p_tmr2 (\<lambda>t. t\<lparr>TMR_PrevPtr := p_tmr1\<rparr>) s else Some s
           });
     s \<leftarrow> tmr_mod p_tmr (\<lambda>t. t\<lparr>TMR_State := OS_TMR_STATE_STOPPED, TMR_NextPtr := NULL, TMR_PrevPtr := NULL\<rparr>) s;
     tspk_mod spoke (\<lambda>k. k\<lparr>TSPK_NbrEntries := TSPK_NbrEntries k - 1\<rparr>) s
   }"

definition OS_TmrResetPeak :: "os \<Rightarrow> os option" where
  "OS_TmrResetPeak s = for_each [0..<unat OSCfg_TmrWheelSize] (\<lambda>i. tspk_mod i (\<lambda>k. k\<lparr>TSPK_NbrEntriesMax := 0\<rparr>)) s"

definition OS_TmrInit :: "ptr \<Rightarrow> ptr \<Rightarrow> os \<Rightarrow> (OS_ERR \<times> os) option" where
  "OS_TmrInit p_stk_base p_tmr_task s = do {
     let s = s\<lparr>OSTmrDbgListPtr := NULL,
       OSTmrUpdateCnt := (if OSCfg_TmrTaskRate_Hz > 0 then OSCfg_TickRate_Hz div OSCfg_TmrTaskRate_Hz else OSCfg_TickRate_Hz div 10)\<rparr>;
     let s = s\<lparr>OSTmrUpdateCtr := OSTmrUpdateCnt s, OSTmrTickCtr := 0, OSTmrTaskTimeMax := 0\<rparr>;
     s \<leftarrow> for_each [0..<unat OSCfg_TmrWheelSize]
            (\<lambda>i. tspk_mod i (\<lambda>k. k\<lparr>TSPK_NbrEntries := 0, TSPK_NbrEntriesMax := 0, TSPK_FirstPtr := NULL\<rparr>)) s;
     if p_stk_base = NULL then Some (OS_ERR_TMR_STK_INVALID, s)
     else if OSCfg_TmrTaskStkSize < OSCfg_StkSizeMin then Some (OS_ERR_TMR_STK_SIZE_INVALID, s)
     else if unat OSCfg_TmrTaskPrio \<ge> OS_CFG_PRIO_MAX - 1 then Some (OS_ERR_TMR_PRIO_INVALID, s)
     else OSTaskCreate (OSTmrTaskTCB s) ''uC/OS-III Timer Task'' p_tmr_task NULL OSCfg_TmrTaskPrio p_stk_base OSCfg_TmrTaskStkLimit
            OSCfg_TmrTaskStkSize 0 0 NULL (OS_OPT_TASK_STK_CHK OR OS_OPT_TASK_STK_CLR OR OS_OPT_TASK_NO_TLS) s
   }"

text \<open>The services lock the scheduler around their work; the error that locking and unlocking report
  is dropped, as in the code.\<close>

definition tmr_unlock :: "'r \<Rightarrow> OS_ERR \<Rightarrow> os \<Rightarrow> ('r \<times> OS_ERR \<times> os) option" where
  "tmr_unlock r err s = do {
     (_, s) \<leftarrow> OSSchedUnlock s;
     Some (r, err, s)
   }"

definition OSTmrDel :: "ptr \<Rightarrow> os \<Rightarrow> (bool \<times> OS_ERR \<times> os) option" where
  "OSTmrDel p_tmr s =
     (if OSIntNestingCtr s > 0 then Some (False, OS_ERR_TMR_ISR, s)
      else if p_tmr = NULL then Some (False, OS_ERR_TMR_INVALID, s)
      else do {
        tmr \<leftarrow> tmrs s p_tmr;
        if TMR_Type tmr \<noteq> OS_OBJ_TYPE_TMR then Some (False, OS_ERR_OBJ_TYPE, s)
        else do {
          let s = snd (OSSchedLock s);
          s \<leftarrow> OS_TmrDbgListRemove p_tmr s;
          let s = s\<lparr>OSTmrQty := OSTmrQty s - 1\<rparr>;
          if TMR_State tmr = OS_TMR_STATE_RUNNING then do {
            s \<leftarrow> OS_TmrUnlink p_tmr s;
            s \<leftarrow> OS_TmrClr p_tmr s;
            tmr_unlock True OS_ERR_NONE s
          } else if TMR_State tmr \<in> {OS_TMR_STATE_STOPPED, OS_TMR_STATE_COMPLETED} then do {
            s \<leftarrow> OS_TmrClr p_tmr s;
            tmr_unlock True OS_ERR_NONE s
          } else if TMR_State tmr = OS_TMR_STATE_UNUSED then tmr_unlock False OS_ERR_TMR_INACTIVE s
          else tmr_unlock False OS_ERR_TMR_INVALID_STATE s
        }
      })"

definition OSTmrRemainGet :: "ptr \<Rightarrow> os \<Rightarrow> (OS_TICK \<times> OS_ERR \<times> os) option" where
  "OSTmrRemainGet p_tmr s =
     (if OSIntNestingCtr s > 0 then Some (0, OS_ERR_TMR_ISR, s)
      else if p_tmr = NULL then Some (0, OS_ERR_TMR_INVALID, s)
      else do {
        tmr \<leftarrow> tmrs s p_tmr;
        if TMR_Type tmr \<noteq> OS_OBJ_TYPE_TMR then Some (0, OS_ERR_OBJ_TYPE, s)
        else do {
          let s = snd (OSSchedLock s);
          if TMR_State tmr = OS_TMR_STATE_RUNNING then do {
            let remain = TMR_Match tmr - OSTmrTickCtr s;
            s \<leftarrow> tmr_mod p_tmr (\<lambda>t. t\<lparr>TMR_Remain := remain\<rparr>) s;
            tmr_unlock remain OS_ERR_NONE s
          } else if TMR_State tmr = OS_TMR_STATE_STOPPED then do {
            let remain = (if TMR_Opt tmr = OS_OPT_TMR_PERIODIC then if TMR_Dly tmr = 0 then TMR_Period tmr else TMR_Dly tmr else TMR_Dly tmr);
            s \<leftarrow> tmr_mod p_tmr (\<lambda>t. t\<lparr>TMR_Remain := remain\<rparr>) s;
            tmr_unlock remain OS_ERR_NONE s
          } else if TMR_State tmr = OS_TMR_STATE_COMPLETED then tmr_unlock 0 OS_ERR_NONE s
          else if TMR_State tmr = OS_TMR_STATE_UNUSED then tmr_unlock 0 OS_ERR_TMR_INACTIVE s
          else tmr_unlock 0 OS_ERR_TMR_INVALID_STATE s
        }
      })"

definition OSTmrStart :: "ptr \<Rightarrow> os \<Rightarrow> (bool \<times> OS_ERR \<times> os) option" where
  "OSTmrStart p_tmr s =
     (if OSIntNestingCtr s > 0 then Some (False, OS_ERR_TMR_ISR, s)
      else if p_tmr = NULL then Some (False, OS_ERR_TMR_INVALID, s)
      else do {
        tmr \<leftarrow> tmrs s p_tmr;
        if TMR_Type tmr \<noteq> OS_OBJ_TYPE_TMR then Some (False, OS_ERR_OBJ_TYPE, s)
        else do {
          let s = snd (OSSchedLock s);
          if TMR_State tmr = OS_TMR_STATE_RUNNING then do {
            s \<leftarrow> OS_TmrUnlink p_tmr s;
            s \<leftarrow> OS_TmrLink p_tmr OS_OPT_LINK_DLY s;
            tmr_unlock True OS_ERR_NONE s
          } else if TMR_State tmr \<in> {OS_TMR_STATE_STOPPED, OS_TMR_STATE_COMPLETED} then do {
            s \<leftarrow> OS_TmrLink p_tmr OS_OPT_LINK_DLY s;
            tmr_unlock True OS_ERR_NONE s
          } else if TMR_State tmr = OS_TMR_STATE_UNUSED then tmr_unlock False OS_ERR_TMR_INACTIVE s
          else tmr_unlock False OS_ERR_TMR_INVALID_STATE s
        }
      })"

definition OSTmrStateGet :: "ptr \<Rightarrow> os \<Rightarrow> (OS_STATE \<times> OS_ERR) option" where
  "OSTmrStateGet p_tmr s =
     (if OSIntNestingCtr s > 0 then Some (OS_TMR_STATE_UNUSED, OS_ERR_TMR_ISR)
      else if p_tmr = NULL then Some (OS_TMR_STATE_UNUSED, OS_ERR_TMR_INVALID)
      else do {
        tmr \<leftarrow> tmrs s p_tmr;
        if TMR_Type tmr \<noteq> OS_OBJ_TYPE_TMR then Some (OS_TMR_STATE_UNUSED, OS_ERR_OBJ_TYPE)
        else Some (TMR_State tmr,
          if TMR_State tmr \<in> {OS_TMR_STATE_UNUSED, OS_TMR_STATE_STOPPED, OS_TMR_STATE_COMPLETED, OS_TMR_STATE_RUNNING}
          then OS_ERR_NONE else OS_ERR_TMR_INVALID_STATE)
      })"

definition OSTmrStop :: "tmr_callback \<Rightarrow> ptr \<Rightarrow> OS_OPT \<Rightarrow> ptr \<Rightarrow> os \<Rightarrow> (bool \<times> OS_ERR \<times> os) option" where
  "OSTmrStop callback p_tmr opt p_callback_arg s =
     (if OSIntNestingCtr s > 0 then Some (False, OS_ERR_TMR_ISR, s)
      else if p_tmr = NULL then Some (False, OS_ERR_TMR_INVALID, s)
      else do {
        tmr \<leftarrow> tmrs s p_tmr;
        if TMR_Type tmr \<noteq> OS_OBJ_TYPE_TMR then Some (False, OS_ERR_OBJ_TYPE, s)
        else do {
          let s = snd (OSSchedLock s);
          if TMR_State tmr = OS_TMR_STATE_RUNNING then do {
            s \<leftarrow> OS_TmrUnlink p_tmr s;
            let p_fnct = TMR_CallbackPtr tmr;
            if opt \<in> {OS_OPT_TMR_CALLBACK, OS_OPT_TMR_CALLBACK_ARG} then
              if p_fnct \<noteq> NULL then do {
                s \<leftarrow> callback p_fnct p_tmr (if opt = OS_OPT_TMR_CALLBACK then TMR_CallbackPtrArg tmr else p_callback_arg) s;
                tmr_unlock True OS_ERR_NONE s
              } else tmr_unlock True OS_ERR_TMR_NO_CALLBACK s
            else if opt = OS_OPT_TMR_NONE then tmr_unlock True OS_ERR_NONE s
            else tmr_unlock False OS_ERR_OPT_INVALID s
          } else if TMR_State tmr \<in> {OS_TMR_STATE_COMPLETED, OS_TMR_STATE_STOPPED} then tmr_unlock True OS_ERR_TMR_STOPPED s
          else if TMR_State tmr = OS_TMR_STATE_UNUSED then tmr_unlock False OS_ERR_TMR_INACTIVE s
          else tmr_unlock False OS_ERR_TMR_INVALID_STATE s
        }
      })"

text \<open>The loop of the timer task over the spoke of the current time.  Next to the state the model
  returns the calls made, in order: the function, the timer and the argument.\<close>

partial_function (option) tmr_expire_loop :: "tmr_callback \<Rightarrow> ptr \<Rightarrow> os \<Rightarrow> ((ptr \<times> ptr \<times> ptr) list \<times> os) option" where
  "tmr_expire_loop callback p_tmr s =
     (if p_tmr = NULL then Some ([], s)
      else do {
        tmr \<leftarrow> tmrs s p_tmr;
        let p_tmr_next = TMR_NextPtr tmr;
        if OSTmrTickCtr s = TMR_Match tmr then do {
          s \<leftarrow> OS_TmrUnlink p_tmr s;
          s \<leftarrow> (if TMR_Opt tmr = OS_OPT_TMR_PERIODIC then OS_TmrLink p_tmr OS_OPT_LINK_PERIODIC s
                else tmr_mod p_tmr (\<lambda>t. t\<lparr>TMR_State := OS_TMR_STATE_COMPLETED\<rparr>) s);
          let p_fnct = TMR_CallbackPtr tmr;
          s \<leftarrow> (if p_fnct \<noteq> NULL then callback p_fnct p_tmr (TMR_CallbackPtrArg tmr) s else Some s);
          (calls, s) \<leftarrow> tmr_expire_loop callback p_tmr_next s;
          Some (if p_fnct \<noteq> NULL then (p_fnct, p_tmr, TMR_CallbackPtrArg tmr) # calls else calls, s)
        } else Some ([], s)
      })"

definition tmr_tick :: "tmr_callback \<Rightarrow> os \<Rightarrow> ((ptr \<times> ptr \<times> ptr) list \<times> os) option" where
  "tmr_tick callback s = do {
     let s = s\<lparr>OSTmrTickCtr := OSTmrTickCtr s + 1\<rparr>;
     let spoke = unat (OSTmrTickCtr s mod OSCfg_TmrWheelSize);
     p_spoke \<leftarrow> OSCfg_TmrWheel s spoke;
     tmr_expire_loop callback (TSPK_FirstPtr p_spoke) s
   }"

text \<open>One round of the timer task after its semaphore was signalled.\<close>

definition OS_TmrTask :: "tmr_callback \<Rightarrow> os \<Rightarrow> ((ptr \<times> ptr \<times> ptr) list \<times> os) option" where
  "OS_TmrTask callback s = do {
     let s = snd (OSSchedLock s);
     let (ts_start, s) = OS_TS_GET s;
     (calls, s) \<leftarrow> tmr_tick callback s;
     let (ts_end, s) = OS_TS_GET s;
     (_, s) \<leftarrow> OSSchedUnlock s;
     Some (calls, s\<lparr>OSTmrTaskTimeMax := max (OSTmrTaskTimeMax s) (ts_end - ts_start)\<rparr>)
   }"

subsection \<open>The wheel\<close>

definition tmr_remain :: "os \<Rightarrow> ptr \<Rightarrow> OS_TICK" where
  "tmr_remain s x = fld TMR_Match (tmrs s) x - OSTmrTickCtr s"

definition on_tspoke :: "os \<Rightarrow> nat \<Rightarrow> ptr \<Rightarrow> bool" where
  "on_tspoke s i x \<longleftrightarrow> (\<exists>t. tmrs s x = Some t \<and> TMR_State t = OS_TMR_STATE_RUNNING \<and> unat (TMR_Match t mod OSCfg_TmrWheelSize) = i)"

definition tmr_ok :: "os \<Rightarrow> nat \<Rightarrow> ptr list \<Rightarrow> bool" where
  "tmr_ok s i xs \<longleftrightarrow> (\<exists>k. OSCfg_TmrWheel s i = Some k \<and> unat (TSPK_NbrEntries k) = length xs \<and>
     linked TMR_NextPtr TMR_PrevPtr (tmrs s) (TSPK_FirstPtr k) (last0 NULL xs) xs)"

definition tmr_links :: "os \<Rightarrow> (nat \<Rightarrow> ptr list) \<Rightarrow> bool" where
  "tmr_links s V \<longleftrightarrow> (\<forall>i < unat OSCfg_TmrWheelSize. tmr_ok s i (V i)) \<and> (\<forall>i x. x \<in> set (V i) \<longleftrightarrow> on_tspoke s i x)"

text \<open>The lists of the spokes are in the order of the remaining time, and the memory holds fewer timers
  than the 16-bit counters can count.\<close>

definition tmr_rel :: "os \<Rightarrow> (nat \<Rightarrow> ptr list) \<Rightarrow> bool" where
  "tmr_rel s V \<longleftrightarrow> tmr_links s V \<and> (\<forall>i. sorted (map (tmr_remain s) (V i))) \<and>
     NULL \<notin> dom (tmrs s) \<and> finite (dom (tmrs s)) \<and> card (dom (tmrs s)) \<le> 65535"

definition tmr_core :: "OS_TMR \<Rightarrow> OS_TMR" where
  "tmr_core t = t\<lparr>TMR_NextPtr := NULL, TMR_PrevPtr := NULL, TMR_Remain := 0\<rparr>"

lemma tmr_core_eqD:
  assumes "tmr_core t' = tmr_core t"
  shows "TMR_Match t' = TMR_Match t" "TMR_State t' = TMR_State t" "TMR_Period t' = TMR_Period t" "TMR_Dly t' = TMR_Dly t" "TMR_Opt t' = TMR_Opt t"
    "TMR_CallbackPtr t' = TMR_CallbackPtr t" "TMR_CallbackPtrArg t' = TMR_CallbackPtrArg t" "TMR_Type t' = TMR_Type t"
proof -
  have "TMR_Match (tmr_core t) = TMR_Match t" "TMR_State (tmr_core t) = TMR_State t" "TMR_Period (tmr_core t) = TMR_Period t" "TMR_Dly (tmr_core t) = TMR_Dly t"
    "TMR_Opt (tmr_core t) = TMR_Opt t" "TMR_CallbackPtr (tmr_core t) = TMR_CallbackPtr t" "TMR_CallbackPtrArg (tmr_core t) = TMR_CallbackPtrArg t"
    "TMR_Type (tmr_core t) = TMR_Type t" for t by (simp_all add: tmr_core_def)
  with assms show "TMR_Match t' = TMR_Match t" "TMR_State t' = TMR_State t" "TMR_Period t' = TMR_Period t" "TMR_Dly t' = TMR_Dly t" "TMR_Opt t' = TMR_Opt t"
    "TMR_CallbackPtr t' = TMR_CallbackPtr t" "TMR_CallbackPtrArg t' = TMR_CallbackPtrArg t" "TMR_Type t' = TMR_Type t" by metis+
qed

subsection \<open>Linking\<close>

text \<open>One iteration at the timer \<open>y\<close>, by the way it leaves the loop body.\<close>

lemma tmr_insert_step:
  assumes u: "tmrs s y = Some u" "y \<noteq> NULL" and t: "tmrs s x = Some t" "y \<noteq> x"
    and s1: "s1 = s\<lparr>tmrs := (tmrs s)(y \<mapsto> u\<lparr>TMR_Remain := tmr_remain s y\<rparr>)\<rparr>"
  shows "tmr_remain s y < TMR_Remain t \<Longrightarrow> TMR_NextPtr u \<noteq> NULL \<Longrightarrow>
      tmr_insert_loop x i y s = tmr_insert_loop x i (TMR_NextPtr u) s1"
    and "tmr_remain s y < TMR_Remain t \<Longrightarrow> TMR_NextPtr u = NULL \<Longrightarrow>
      tmr_insert_loop x i y s = Some (s1\<lparr>tmrs := (tmrs s1)(x \<mapsto> t\<lparr>TMR_NextPtr := NULL, TMR_PrevPtr := y\<rparr>,
        y \<mapsto> u\<lparr>TMR_Remain := tmr_remain s y, TMR_NextPtr := x\<rparr>)\<rparr>)"
    and "\<not> tmr_remain s y < TMR_Remain t \<Longrightarrow> TMR_PrevPtr u = NULL \<Longrightarrow> OSCfg_TmrWheel s i = Some k \<Longrightarrow>
      tmr_insert_loop x i y s = Some (s1\<lparr>tmrs := (tmrs s1)(x \<mapsto> t\<lparr>TMR_PrevPtr := NULL, TMR_NextPtr := y\<rparr>,
        y \<mapsto> u\<lparr>TMR_Remain := tmr_remain s y, TMR_PrevPtr := x\<rparr>),
        OSCfg_TmrWheel := (OSCfg_TmrWheel s)(i \<mapsto> k\<lparr>TSPK_FirstPtr := x\<rparr>)\<rparr>)"
    and "\<not> tmr_remain s y < TMR_Remain t \<Longrightarrow> TMR_PrevPtr u = w \<Longrightarrow> w \<noteq> NULL \<Longrightarrow> w \<noteq> x \<Longrightarrow> w \<noteq> y \<Longrightarrow>
      tmrs s w = Some v \<Longrightarrow>
      tmr_insert_loop x i y s = Some (s1\<lparr>tmrs := (tmrs s1)(x \<mapsto> t\<lparr>TMR_PrevPtr := w, TMR_NextPtr := y\<rparr>,
        w \<mapsto> v\<lparr>TMR_NextPtr := x\<rparr>, y \<mapsto> u\<lparr>TMR_Remain := tmr_remain s y, TMR_PrevPtr := x\<rparr>)\<rparr>)"
proof -
  have rem: "TMR_Match u - OSTmrTickCtr s = tmr_remain s y" using u by (simp add: tmr_remain_def fld_Some)
  show "tmr_remain s y < TMR_Remain t \<Longrightarrow> TMR_NextPtr u \<noteq> NULL \<Longrightarrow>
      tmr_insert_loop x i y s = tmr_insert_loop x i (TMR_NextPtr u) s1"
    using u t rem unfolding s1 by (subst tmr_insert_loop.simps) simp
  show "tmr_remain s y < TMR_Remain t \<Longrightarrow> TMR_NextPtr u = NULL \<Longrightarrow>
      tmr_insert_loop x i y s = Some (s1\<lparr>tmrs := (tmrs s1)(x \<mapsto> t\<lparr>TMR_NextPtr := NULL, TMR_PrevPtr := y\<rparr>,
        y \<mapsto> u\<lparr>TMR_Remain := tmr_remain s y, TMR_NextPtr := x\<rparr>)\<rparr>)"
    using u t rem unfolding s1 by (subst tmr_insert_loop.simps) simp
  show "\<not> tmr_remain s y < TMR_Remain t \<Longrightarrow> TMR_PrevPtr u = NULL \<Longrightarrow> OSCfg_TmrWheel s i = Some k \<Longrightarrow>
      tmr_insert_loop x i y s = Some (s1\<lparr>tmrs := (tmrs s1)(x \<mapsto> t\<lparr>TMR_PrevPtr := NULL, TMR_NextPtr := y\<rparr>,
        y \<mapsto> u\<lparr>TMR_Remain := tmr_remain s y, TMR_PrevPtr := x\<rparr>),
        OSCfg_TmrWheel := (OSCfg_TmrWheel s)(i \<mapsto> k\<lparr>TSPK_FirstPtr := x\<rparr>)\<rparr>)"
    using u t rem unfolding s1 by (subst tmr_insert_loop.simps) simp
  show "\<not> tmr_remain s y < TMR_Remain t \<Longrightarrow> TMR_PrevPtr u = w \<Longrightarrow> w \<noteq> NULL \<Longrightarrow> w \<noteq> x \<Longrightarrow> w \<noteq> y \<Longrightarrow>
      tmrs s w = Some v \<Longrightarrow>
      tmr_insert_loop x i y s = Some (s1\<lparr>tmrs := (tmrs s1)(x \<mapsto> t\<lparr>TMR_PrevPtr := w, TMR_NextPtr := y\<rparr>,
        w \<mapsto> v\<lparr>TMR_NextPtr := x\<rparr>, y \<mapsto> u\<lparr>TMR_Remain := tmr_remain s y, TMR_PrevPtr := x\<rparr>)\<rparr>)"
    using u t rem unfolding s1 by (subst tmr_insert_loop.simps) (simp only: Let_def, simp)
qed

lemma tmr_insert_before:
  assumes lk: "linked TMR_NextPtr TMR_PrevPtr (tmrs s) (TSPK_FirstPtr k) b (xs @ y # ys)"
    and k: "OSCfg_TmrWheel s i = Some k" and t: "tmrs s x = Some t" "x \<notin> set (xs @ y # ys)" "x \<noteq> NULL"
    and c: "\<not> tmr_remain s y < TMR_Remain t"
  shows "\<exists>h. tmr_insert_loop x i y s =
      Some (s\<lparr>tmrs := h, OSCfg_TmrWheel := (OSCfg_TmrWheel s)(i \<mapsto> k\<lparr>TSPK_FirstPtr := hd0 x xs\<rparr>)\<rparr>) \<and>
    linked TMR_NextPtr TMR_PrevPtr h (hd0 x xs) (last0 x (y # ys)) (xs @ x # y # ys) \<and>
    (\<forall>z. map_option tmr_core (h z) = map_option tmr_core (tmrs s z)) \<and>
    (\<forall>z. z \<notin> insert x (set (xs @ y # ys)) \<longrightarrow> h z = tmrs s z)"
proof -
  note D = linkedD [OF lk]
  from linked_node [OF lk] obtain u where u: "tmrs s y = Some u" "TMR_NextPtr u = hd0 NULL ys"
    "TMR_PrevPtr u = last0 NULL xs" "y \<noteq> NULL" by blast
  have yx: "y \<noteq> x" using t by auto
  note st = tmr_insert_step [OF u(1,4) t(1) yx refl, where i = i]
  show ?thesis
  proof (cases "xs = []")
    case True
    let ?h = "(tmrs s)(x \<mapsto> t\<lparr>TMR_PrevPtr := NULL, TMR_NextPtr := y\<rparr>,
        y \<mapsto> u\<lparr>TMR_Remain := tmr_remain s y, TMR_PrevPtr := x\<rparr>)"
    have "linked TMR_NextPtr TMR_PrevPtr ?h (hd0 x xs) (last0 x (y # ys)) (xs @ x # y # ys)"
      by (rule linked_insert [OF lk]) (use True t u yx in \<open>auto simp: fld_Some\<close>)
    moreover have "tmr_insert_loop x i y s =
      Some (s\<lparr>tmrs := ?h, OSCfg_TmrWheel := (OSCfg_TmrWheel s)(i \<mapsto> k\<lparr>TSPK_FirstPtr := x\<rparr>)\<rparr>)"
      using st(3) [OF c _ k] u True yx by (simp add: fun_upd_twist)
    ultimately show ?thesis using True t u by (intro exI [of _ ?h]) (auto simp: tmr_core_def)
  next
    case False
    let ?w = "last0 NULL xs"
    have w: "?w \<in> set xs" using False by (rule last0_in)
    then obtain v where v: "tmrs s ?w = Some v" using D(3) by auto
    have ne: "?w \<noteq> x" "?w \<noteq> y" "0 < ?w" using w D(1) t mem_nz [OF D(2)] by auto
    let ?h = "(tmrs s)(x \<mapsto> t\<lparr>TMR_PrevPtr := ?w, TMR_NextPtr := y\<rparr>,
        ?w \<mapsto> v\<lparr>TMR_NextPtr := x\<rparr>, y \<mapsto> u\<lparr>TMR_Remain := tmr_remain s y, TMR_PrevPtr := x\<rparr>)"
    have "linked TMR_NextPtr TMR_PrevPtr ?h (hd0 x xs) (last0 x (y # ys)) (xs @ x # y # ys)"
      by (rule linked_insert [OF lk]) (use False t u v yx ne in \<open>auto simp: fld_Some\<close>)
    moreover have "tmr_insert_loop x i y s =
      Some (s\<lparr>tmrs := ?h, OSCfg_TmrWheel := (OSCfg_TmrWheel s)(i \<mapsto> k\<lparr>TSPK_FirstPtr := hd0 x xs\<rparr>)\<rparr>)"
    proof -
      have "TSPK_FirstPtr k = hd0 x xs" using D(4) False by (simp add: hd0_nonempty)
      then have "(OSCfg_TmrWheel s)(i \<mapsto> k\<lparr>TSPK_FirstPtr := hd0 x xs\<rparr>) = OSCfg_TmrWheel s"
        using k by (intro fun_upd_idem) simp
      then show ?thesis using st(4) [OF c u(3) _ ne(1,2) v] ne(3) yx by (simp add: fun_upd_twist)
    qed
    ultimately show ?thesis using t u v w by (intro exI [of _ ?h]) (auto simp: tmr_core_def)
  qed
qed

lemma tmr_insert_end:
  assumes lk: "linked TMR_NextPtr TMR_PrevPtr (tmrs s) (TSPK_FirstPtr k) b (xs @ [y])"
    and k: "OSCfg_TmrWheel s i = Some k" and t: "tmrs s x = Some t" "x \<notin> set (xs @ [y])" "x \<noteq> NULL"
    and c: "tmr_remain s y < TMR_Remain t"
  shows "\<exists>h. tmr_insert_loop x i y s =
      Some (s\<lparr>tmrs := h, OSCfg_TmrWheel := (OSCfg_TmrWheel s)(i \<mapsto> k\<lparr>TSPK_FirstPtr := hd0 x (xs @ [y])\<rparr>)\<rparr>) \<and>
    linked TMR_NextPtr TMR_PrevPtr h (hd0 x (xs @ [y])) x ((xs @ [y]) @ [x]) \<and>
    (\<forall>z. map_option tmr_core (h z) = map_option tmr_core (tmrs s z)) \<and>
    (\<forall>z. z \<notin> insert x (set (xs @ [y])) \<longrightarrow> h z = tmrs s z)"
proof -
  note D = linkedD [OF lk]
  from linked_node [OF lk] obtain u where u: "tmrs s y = Some u" "TMR_NextPtr u = NULL" "y \<noteq> NULL" by auto
  have yx: "y \<noteq> x" using t by auto
  note st = tmr_insert_step [OF u(1,3) t(1) yx refl, where i = i]
  let ?h = "(tmrs s)(x \<mapsto> t\<lparr>TMR_NextPtr := NULL, TMR_PrevPtr := y\<rparr>,
        y \<mapsto> u\<lparr>TMR_Remain := tmr_remain s y, TMR_NextPtr := x\<rparr>)"
  have "linked TMR_NextPtr TMR_PrevPtr ?h (hd0 x (xs @ [y])) x ((xs @ [y]) @ x # [])"
    by (rule linked_insert [where a = "TSPK_FirstPtr k" and b = b]) (use lk t u yx in \<open>auto simp: fld_Some\<close>)
  moreover have "tmr_insert_loop x i y s =
    Some (s\<lparr>tmrs := ?h, OSCfg_TmrWheel := (OSCfg_TmrWheel s)(i \<mapsto> k\<lparr>TSPK_FirstPtr := hd0 x (xs @ [y])\<rparr>)\<rparr>)"
    using st(2) [OF c u(2)] u yx D(4) k by (simp add: fun_upd_twist fun_upd_idem)
  ultimately show ?thesis using t u by (intro exI [of _ ?h]) (auto simp: tmr_core_def)
qed

lemma tmr_insert_loop_ok:
  assumes "linked TMR_NextPtr TMR_PrevPtr (tmrs s) (TSPK_FirstPtr k) b (xs @ ys)"
    and "OSCfg_TmrWheel s i = Some k" "ys \<noteq> []" "tmrs s x = Some t" "x \<notin> set (xs @ ys)" "x \<noteq> NULL"
    and "us = takeWhile (\<lambda>y. tmr_remain s y < TMR_Remain t) ys" "vs = dropWhile (\<lambda>y. tmr_remain s y < TMR_Remain t) ys"
  shows "\<exists>h. tmr_insert_loop x i (hd0 NULL ys) s =
      Some (s\<lparr>tmrs := h, OSCfg_TmrWheel := (OSCfg_TmrWheel s)(i \<mapsto> k\<lparr>TSPK_FirstPtr := hd0 x (xs @ us)\<rparr>)\<rparr>) \<and>
    linked TMR_NextPtr TMR_PrevPtr h (hd0 x (xs @ us)) (last0 x vs) ((xs @ us) @ x # vs) \<and>
    (\<forall>y. map_option tmr_core (h y) = map_option tmr_core (tmrs s y)) \<and>
    (\<forall>y. y \<notin> insert x (set (xs @ ys)) \<longrightarrow> h y = tmrs s y)"
  using assms
proof (induction ys arbitrary: xs s us vs)
  case Nil
  then show ?case by simp
next
  case (Cons y ys)
  show ?case
  proof (cases "tmr_remain s y < TMR_Remain t \<and> ys \<noteq> []")
    case False
    show ?thesis
    proof (cases "tmr_remain s y < TMR_Remain t")
      case True
      with False Cons.prems(7,8) have "ys = []" "us = [y]" "vs = []" by auto
      with tmr_insert_end [of s k b xs y i x t] Cons.prems True show ?thesis by (simp add: fun_upd_def)
    next
      case c: False
      then have "us = []" "vs = y # ys" using Cons.prems(7,8) by auto
      with tmr_insert_before [of s k b xs y ys i x t] Cons.prems c show ?thesis by (simp add: fun_upd_def)
    qed
  next
    case True
    from linked_node [OF Cons.prems(1)] obtain u where u: "tmrs s y = Some u" "TMR_NextPtr u = hd0 NULL ys"
      "y \<noteq> NULL" by blast
    let ?s = "s\<lparr>tmrs := (tmrs s)(y \<mapsto> u\<lparr>TMR_Remain := tmr_remain s y\<rparr>)\<rparr>"
    have yx: "y \<noteq> x" using Cons.prems(5) by auto
    have "hd0 NULL ys \<in> set (xs @ y # ys)" using True hd0_in [of ys] by auto
    then have "hd0 NULL ys \<noteq> NULL" using mem_nz [OF linkedD(2) [OF Cons.prems(1)]] by auto
    then have 1: "tmr_insert_loop x i y s = tmr_insert_loop x i (hd0 NULL ys) ?s"
      using tmr_insert_step(1) [OF u(1,3) Cons.prems(4) yx refl] True u by simp
    have rem: "tmr_remain ?s = tmr_remain s" using u by (auto simp: tmr_remain_def fun_eq_iff fld_def)
    have "linked TMR_NextPtr TMR_PrevPtr (tmrs ?s) (TSPK_FirstPtr k) b ((xs @ [y]) @ ys)"
      using Cons.prems(1) u by (subst linked_cong) auto
    from Cons.IH [OF this _ _ _ _ Cons.prems(6) refl refl] Cons.prems(2-5) True yx
    obtain h where h: "tmr_insert_loop x i (hd0 NULL ys) ?s =
        Some (?s\<lparr>tmrs := h, OSCfg_TmrWheel := (OSCfg_TmrWheel s)(i \<mapsto> k\<lparr>TSPK_FirstPtr := hd0 x (xs @ us)\<rparr>)\<rparr>)"
      "linked TMR_NextPtr TMR_PrevPtr h (hd0 x (xs @ us)) (last0 x vs) ((xs @ us) @ x # vs)"
      "\<forall>z. map_option tmr_core (h z) = map_option tmr_core (tmrs ?s z)"
      "\<forall>z. z \<notin> insert x (set ((xs @ [y]) @ ys)) \<longrightarrow> h z = tmrs ?s z"
      unfolding rem Cons.prems(7,8) by (auto simp: fun_upd_def)
    have "map_option tmr_core (tmrs ?s z) = map_option tmr_core (tmrs s z)" for z
      using u by (auto simp: tmr_core_def)
    with h 1 show ?thesis by (intro exI [of _ h]) (auto simp: fun_upd_def)
  qed
qed

subsection \<open>Unlinking\<close>

definition tmr_stop :: "OS_TMR \<Rightarrow> OS_TMR" where
  "tmr_stop t = t\<lparr>TMR_State := OS_TMR_STATE_STOPPED, TMR_NextPtr := NULL, TMR_PrevPtr := NULL\<rparr>"

lemma tmr_unlink_first:
  assumes k: "OSCfg_TmrWheel s i = Some k"
    and lk: "linked TMR_NextPtr TMR_PrevPtr (tmrs s) (TSPK_FirstPtr k) b ([] @ x # ys)"
    and t: "tmrs s x = Some t" "unat (TMR_Match t mod OSCfg_TmrWheelSize) = i"
  shows "\<exists>h. OS_TmrUnlink x s = Some (s\<lparr>tmrs := h(x \<mapsto> tmr_stop t),
      OSCfg_TmrWheel := (OSCfg_TmrWheel s)(i \<mapsto> k\<lparr>TSPK_FirstPtr := hd0 NULL ys, TSPK_NbrEntries := TSPK_NbrEntries k - 1\<rparr>)\<rparr>) \<and>
    linked TMR_NextPtr TMR_PrevPtr (h(x \<mapsto> tmr_stop t)) (hd0 NULL ys) (last0 NULL ys) ([] @ ys) \<and>
    (\<forall>y. map_option tmr_core (h y) = map_option tmr_core (tmrs s y)) \<and> (\<forall>y. y \<notin> set (x # ys) \<longrightarrow> h y = tmrs s y)"
proof -
  note D = linkedD [OF lk]
  from linked_node [OF lk] t have nx: "TMR_NextPtr t = hd0 NULL ys" by auto
  have hd: "TSPK_FirstPtr k = x" using D(4) by simp
  show ?thesis
  proof (cases "ys = []")
    case True
    have 1: "OS_TmrUnlink x s = Some (s\<lparr>tmrs := (tmrs s)(x \<mapsto> tmr_stop t),
      OSCfg_TmrWheel := (OSCfg_TmrWheel s)(i \<mapsto> k\<lparr>TSPK_FirstPtr := NULL, TSPK_NbrEntries := TSPK_NbrEntries k - 1\<rparr>)\<rparr>)"
      using k t nx hd True by (simp add: OS_TmrUnlink_def tmr_stop_def)
    with True show ?thesis by (intro exI [of _ "tmrs s"]) simp
  next
    case False
    let ?n = "hd0 NULL ys"
    have n: "?n \<in> set ys" using False by (rule hd0_in)
    then obtain v where v: "tmrs s ?n = Some v" using D(3) by auto
    have ne: "?n \<noteq> x" "0 < ?n" using n D(1) mem_nz [OF D(2)] by auto
    let ?h = "(tmrs s)(?n \<mapsto> v\<lparr>TMR_PrevPtr := NULL\<rparr>)"
    have 1: "OS_TmrUnlink x s = Some (s\<lparr>tmrs := ?h(x \<mapsto> tmr_stop t),
      OSCfg_TmrWheel := (OSCfg_TmrWheel s)(i \<mapsto> k\<lparr>TSPK_FirstPtr := ?n, TSPK_NbrEntries := TSPK_NbrEntries k - 1\<rparr>)\<rparr>)"
      using k t nx hd v ne by (simp add: OS_TmrUnlink_def tmr_stop_def Let_def fun_upd_twist)
    have 2: "linked TMR_NextPtr TMR_PrevPtr (?h(x \<mapsto> tmr_stop t)) ?n (last0 NULL ys) ([] @ ys)"
      by (rule linked_remove [OF lk]) (use False t v ne D(1) in \<open>auto simp: fld_Some\<close>)
    from 1 2 show ?thesis using v n by (intro exI [of _ ?h]) (auto simp: tmr_core_def)
  qed
qed

lemma tmr_unlink_inner:
  assumes k: "OSCfg_TmrWheel s i = Some k" and xs: "xs \<noteq> []"
    and lk: "linked TMR_NextPtr TMR_PrevPtr (tmrs s) (TSPK_FirstPtr k) b (xs @ x # ys)"
    and t: "tmrs s x = Some t" "unat (TMR_Match t mod OSCfg_TmrWheelSize) = i"
  shows "\<exists>h. OS_TmrUnlink x s = Some (s\<lparr>tmrs := h(x \<mapsto> tmr_stop t),
      OSCfg_TmrWheel := (OSCfg_TmrWheel s)(i \<mapsto> k\<lparr>TSPK_NbrEntries := TSPK_NbrEntries k - 1\<rparr>)\<rparr>) \<and>
    linked TMR_NextPtr TMR_PrevPtr (h(x \<mapsto> tmr_stop t)) (TSPK_FirstPtr k) (last0 NULL (xs @ ys)) (xs @ ys) \<and>
    (\<forall>y. map_option tmr_core (h y) = map_option tmr_core (tmrs s y)) \<and> (\<forall>y. y \<notin> set (xs @ x # ys) \<longrightarrow> h y = tmrs s y)"
proof -
  note D = linkedD [OF lk]
  from linked_node [OF lk] t have nx: "TMR_NextPtr t = hd0 NULL ys" "TMR_PrevPtr t = last0 NULL xs" by auto
  have hd: "TSPK_FirstPtr k \<noteq> x" using D(1,4) xs by (cases xs) auto
  let ?p = "last0 NULL xs" let ?n = "hd0 NULL ys"
  have p: "?p \<in> set xs" using xs by (rule last0_in)
  then obtain u where u: "tmrs s ?p = Some u" using D(3) by auto
  have ne: "?p \<noteq> x" "0 < ?p" using p D(1) mem_nz [OF D(2)] by auto
  have nin: "x \<notin> set xs" "x \<notin> set ys" using D(1) by auto
  show ?thesis
  proof (cases "ys = []")
    case True
    let ?h = "(tmrs s)(?p \<mapsto> u\<lparr>TMR_NextPtr := NULL\<rparr>)"
    have 1: "OS_TmrUnlink x s = Some (s\<lparr>tmrs := ?h(x \<mapsto> tmr_stop t),
      OSCfg_TmrWheel := (OSCfg_TmrWheel s)(i \<mapsto> k\<lparr>TSPK_NbrEntries := TSPK_NbrEntries k - 1\<rparr>)\<rparr>)"
      using k t nx hd u ne True by (simp add: OS_TmrUnlink_def tmr_stop_def Let_def fun_upd_twist)
    have 2: "linked TMR_NextPtr TMR_PrevPtr (?h(x \<mapsto> tmr_stop t)) (TSPK_FirstPtr k) (last0 NULL (xs @ ys)) (xs @ ys)"
      by (rule linked_remove [OF lk]) (use xs True t u ne D(1,4) in \<open>auto simp: fld_Some hd0_nonempty\<close>)
    from 1 2 show ?thesis using u p by (intro exI [of _ ?h]) (auto simp: tmr_core_def)
  next
    case False
    have n: "?n \<in> set ys" using False by (rule hd0_in)
    then obtain v where v: "tmrs s ?n = Some v" using D(3) by auto
    have nn: "?n \<noteq> x" "0 < ?n" "?p \<noteq> ?n" using n p D(1) mem_nz [OF D(2)] by auto
    let ?h = "(tmrs s)(?p \<mapsto> u\<lparr>TMR_NextPtr := ?n\<rparr>, ?n \<mapsto> v\<lparr>TMR_PrevPtr := ?p\<rparr>)"
    have 1: "OS_TmrUnlink x s = Some (s\<lparr>tmrs := ?h(x \<mapsto> tmr_stop t),
      OSCfg_TmrWheel := (OSCfg_TmrWheel s)(i \<mapsto> k\<lparr>TSPK_NbrEntries := TSPK_NbrEntries k - 1\<rparr>)\<rparr>)"
      using k t nx hd u v ne nn by (simp add: OS_TmrUnlink_def tmr_stop_def Let_def fun_upd_twist)
    have 2: "linked TMR_NextPtr TMR_PrevPtr (?h(x \<mapsto> tmr_stop t)) (TSPK_FirstPtr k) (last0 NULL (xs @ ys)) (xs @ ys)"
      by (rule linked_remove [OF lk]) (use xs False t u v ne nn D(4) nin in \<open>auto simp: fld_Some hd0_nonempty\<close>)
    from 1 2 show ?thesis using u v p n by (intro exI [of _ ?h]) (auto simp: tmr_core_def)
  qed
qed

lemma tmr_unlink_any:
  assumes k: "OSCfg_TmrWheel s i = Some k"
    and lk: "linked TMR_NextPtr TMR_PrevPtr (tmrs s) (TSPK_FirstPtr k) b (xs @ x # ys)"
    and t: "tmrs s x = Some t" "unat (TMR_Match t mod OSCfg_TmrWheelSize) = i"
  obtains h k' where "OS_TmrUnlink x s = Some (s\<lparr>tmrs := h(x \<mapsto> tmr_stop t), OSCfg_TmrWheel := (OSCfg_TmrWheel s)(i \<mapsto> k')\<rparr>)"
    "linked TMR_NextPtr TMR_PrevPtr (h(x \<mapsto> tmr_stop t)) (TSPK_FirstPtr k') (last0 NULL (xs @ ys)) (xs @ ys)"
    "TSPK_NbrEntries k' = TSPK_NbrEntries k - 1"
    "\<forall>y. map_option tmr_core (h y) = map_option tmr_core (tmrs s y)" "\<forall>y. y \<notin> set (xs @ x # ys) \<longrightarrow> h y = tmrs s y"
proof (cases "xs = []")
  case True
  then have "linked TMR_NextPtr TMR_PrevPtr (tmrs s) (TSPK_FirstPtr k) b ([] @ x # ys)" using lk by simp
  from tmr_unlink_first [OF k this t] True show ?thesis by (auto intro!: that)
next
  case False
  from tmr_unlink_inner [OF k False lk t] show ?thesis by (auto intro!: that)
qed

subsection \<open>The wheel as lists of timers\<close>

definition tmr_view :: "os \<Rightarrow> ptr \<Rightarrow> OS_TMR option" where
  "tmr_view s x = map_option tmr_core (tmrs s x)"

text \<open>The state after a change of the timers and of the wheel.\<close>

definition with_tmrs :: "(ptr \<rightharpoonup> OS_TMR) \<Rightarrow> (nat \<rightharpoonup> OS_TMR_SPOKE) \<Rightarrow> os \<Rightarrow> os" where
  "with_tmrs h w s = s\<lparr>tmrs := h, OSCfg_TmrWheel := w\<rparr>"

lemma with_tmrs_sel [simp]:
  "tmrs (with_tmrs h w s) = h" "OSCfg_TmrWheel (with_tmrs h w s) = w" "OSTmrTickCtr (with_tmrs h w s) = OSTmrTickCtr s"
  "with_tmrs h w (with_tmrs h' w' s) = with_tmrs h w s" "(with_tmrs h w s)\<lparr>tmrs := h'\<rparr> = with_tmrs h' w s"
  by (simp_all add: with_tmrs_def)

lemma tmr_spoke_less: "unat ((m :: 32 word) mod OSCfg_TmrWheelSize) < unat (OSCfg_TmrWheelSize :: 32 word)"
  by (simp add: unat_mod)

lemma tmr_links_disjoint: "tmr_links s V \<Longrightarrow> y \<in> set (V i) \<Longrightarrow> y \<in> set (V j) \<Longrightarrow> i = j"
  by (auto simp: tmr_links_def on_tspoke_def)

lemma tmr_links_obtain:
  assumes "tmr_links s V" "i < unat OSCfg_TmrWheelSize"
  obtains k where "OSCfg_TmrWheel s i = Some k" "unat (TSPK_NbrEntries k) = length (V i)"
    "linked TMR_NextPtr TMR_PrevPtr (tmrs s) (TSPK_FirstPtr k) (last0 NULL (V i)) (V i)"
  using assms unfolding tmr_links_def tmr_ok_def by blast

lemma tmr_links_upd:
  assumes V: "tmr_links s V"
    and k: "unat (TSPK_NbrEntries k) = length xs" "linked TMR_NextPtr TMR_PrevPtr h (TSPK_FirstPtr k) (last0 NULL xs) xs"
    and chg: "\<And>y. y \<notin> insert x (set (V i)) \<Longrightarrow> h y = tmrs s y" and x: "\<And>j. j \<noteq> i \<Longrightarrow> x \<notin> set (V j)"
    and sp: "\<And>j y. on_tspoke (with_tmrs h ((OSCfg_TmrWheel s)(i \<mapsto> k)) s) j y \<longleftrightarrow> y \<in> set ((V(i := xs)) j)"
  shows "tmr_links (with_tmrs h ((OSCfg_TmrWheel s)(i \<mapsto> k)) s) (V(i := xs))"
proof -
  let ?s' = "with_tmrs h ((OSCfg_TmrWheel s)(i \<mapsto> k)) s"
  have "tmr_ok ?s' j (V j)" if j: "j < unat OSCfg_TmrWheelSize" "j \<noteq> i" for j
  proof -
    from V j(1) obtain k' where k': "OSCfg_TmrWheel s j = Some k'" "unat (TSPK_NbrEntries k') = length (V j)"
      "linked TMR_NextPtr TMR_PrevPtr (tmrs s) (TSPK_FirstPtr k') (last0 NULL (V j)) (V j)"
      by (rule tmr_links_obtain)
    have "h y = tmrs s y" if "y \<in> set (V j)" for y
    proof (rule chg)
      show "y \<notin> insert x (set (V i))" using that x [OF j(2)] tmr_links_disjoint [OF V that] j(2) by (metis insertE)
    qed
    then have "linked TMR_NextPtr TMR_PrevPtr h a b (V j) = linked TMR_NextPtr TMR_PrevPtr (tmrs s) a b (V j)"
      for a b by (intro linked_cong) simp_all
    with k' j(2) show ?thesis by (simp add: tmr_ok_def)
  qed
  moreover have "tmr_ok ?s' i xs" using k by (simp add: tmr_ok_def)
  ultimately have "\<forall>j < unat OSCfg_TmrWheelSize. tmr_ok ?s' j ((V(i := xs)) j)" by simp
  then show ?thesis using sp unfolding tmr_links_def by blast
qed

lemma tmr_view_fld:
  assumes "tmr_view s' y = tmr_view s y"
  shows "fld TMR_Match (tmrs s') y = fld TMR_Match (tmrs s) y" "on_tspoke s' i y = on_tspoke s i y"
  using assms unfolding tmr_view_def
  by (cases "tmrs s y"; cases "tmrs s' y"; auto simp: fld_def on_tspoke_def dest: tmr_core_eqD)+

lemma tmr_view_dom: "(\<And>y. y \<noteq> x \<Longrightarrow> tmr_view s' y = tmr_view s y) \<Longrightarrow> x \<in> dom (tmrs s) \<Longrightarrow> x \<in> dom (tmrs s') \<Longrightarrow> dom (tmrs s') = dom (tmrs s)"
proof (intro set_eqI)
  fix y assume a: "\<And>y. y \<noteq> x \<Longrightarrow> tmr_view s' y = tmr_view s y" "x \<in> dom (tmrs s)" "x \<in> dom (tmrs s')"
  show "y \<in> dom (tmrs s') \<longleftrightarrow> y \<in> dom (tmrs s)"
    using a(2,3) a(1) [of y] by (cases "y = x"; cases "tmrs s y"; cases "tmrs s' y"; auto simp: tmr_view_def)
qed

lemma tmr_view_SomeD: "tmr_view s x = Some u \<Longrightarrow> \<exists>t. tmrs s x = Some t \<and> tmr_core t = u"
  by (auto simp: tmr_view_def)

lemma tmr_core_with [simp]:
  "tmr_core (t\<lparr>TMR_NextPtr := a\<rparr>) = tmr_core t" "tmr_core (t\<lparr>TMR_PrevPtr := a\<rparr>) = tmr_core t" "tmr_core (t\<lparr>TMR_Remain := r\<rparr>) = tmr_core t"
  by (simp_all add: tmr_core_def)

lemma OS_TmrUnlink_ok:
  assumes V: "tmr_rel s V" and t: "tmrs s x = Some t" "TMR_State t = OS_TMR_STATE_RUNNING"
    and i: "i = unat (TMR_Match t mod OSCfg_TmrWheelSize)"
  shows "\<exists>h w. OS_TmrUnlink x s = Some (with_tmrs h w s) \<and> tmr_rel (with_tmrs h w s) (V(i := filter (\<lambda>y. y \<noteq> x) (V i))) \<and>
    tmr_view (with_tmrs h w s) = (tmr_view s)(x \<mapsto> tmr_core (t\<lparr>TMR_State := OS_TMR_STATE_STOPPED\<rparr>))"
proof -
  from V have L: "tmr_links s V" by (simp add: tmr_rel_def)
  have i17: "i < unat (OSCfg_TmrWheelSize :: 32 word)" unfolding i by (rule tmr_spoke_less)
  from L t i have x: "x \<in> set (V i)" and xj: "\<And>j. j \<noteq> i \<Longrightarrow> x \<notin> set (V j)" by (auto simp: tmr_links_def on_tspoke_def)
  from L i17 obtain k where k: "OSCfg_TmrWheel s i = Some k" "unat (TSPK_NbrEntries k) = length (V i)"
    "linked TMR_NextPtr TMR_PrevPtr (tmrs s) (TSPK_FirstPtr k) (last0 NULL (V i)) (V i)" by (rule tmr_links_obtain)
  from x obtain xs ys where sp: "V i = xs @ x # ys" by (meson split_list)
  have nin: "x \<notin> set xs" "x \<notin> set ys" using linkedD(1) [OF k(3)] sp by auto
  have f: "filter (\<lambda>y. y \<noteq> x) (V i) = xs @ ys" using sp nin filter_neq [of x xs] filter_neq [of x ys] by simp
  obtain h k' where h: "OS_TmrUnlink x s = Some (s\<lparr>tmrs := h(x \<mapsto> tmr_stop t), OSCfg_TmrWheel := (OSCfg_TmrWheel s)(i \<mapsto> k')\<rparr>)"
    "linked TMR_NextPtr TMR_PrevPtr (h(x \<mapsto> tmr_stop t)) (TSPK_FirstPtr k') (last0 NULL (xs @ ys)) (xs @ ys)"
    "TSPK_NbrEntries k' = TSPK_NbrEntries k - 1"
    "\<forall>y. map_option tmr_core (h y) = map_option tmr_core (tmrs s y)" "\<forall>y. y \<notin> set (xs @ x # ys) \<longrightarrow> h y = tmrs s y"
    by (rule tmr_unlink_any [OF k(1) k(3) [unfolded sp] t(1) i [symmetric]])
  let ?h = "h(x \<mapsto> tmr_stop t)" let ?w = "(OSCfg_TmrWheel s)(i \<mapsto> k')" let ?r = "with_tmrs ?h ?w s"
  have view: "tmr_view ?r = (tmr_view s)(x \<mapsto> tmr_core (t\<lparr>TMR_State := OS_TMR_STATE_STOPPED\<rparr>))"
    using h(4) by (auto simp: tmr_view_def fun_eq_iff tmr_stop_def)
  then have same: "tmr_view ?r y = tmr_view s y" if "y \<noteq> x" for y using that by simp
  have "tmr_links ?r (V(i := xs @ ys))"
  proof (rule tmr_links_upd [OF L, where x = x])
    show "unat (TSPK_NbrEntries k') = length (xs @ ys)" using h(3) k(2) sp by (simp add: unat_dec)
    show "?h y = tmrs s y" if "y \<notin> insert x (set (V i))" for y using h(5) that sp by simp
    show "on_tspoke ?r j y \<longleftrightarrow> y \<in> set ((V(i := xs @ ys)) j)" for j y
    proof (cases "y = x")
      case True
      then show ?thesis using nin xj [of j] by (auto simp: on_tspoke_def tmr_stop_def)
    next
      case False
      have "y \<in> set (V j) \<longleftrightarrow> on_tspoke s j y" using L by (simp add: tmr_links_def)
      then show ?thesis using tmr_view_fld(2) [OF same [OF False], of j] sp False by auto
    qed
  qed (use h(2) xj in simp_all)
  moreover have "sorted (map (tmr_remain ?r) ((V(i := xs @ ys)) j))" for j
  proof -
    have "sorted (map (tmr_remain s) ((V(i := xs @ ys)) j))" using V sp
      by (cases "j = i") (auto simp: tmr_rel_def sorted_append dest: spec [where x = i])
    moreover have "map (tmr_remain ?r) ((V(i := xs @ ys)) j) = map (tmr_remain s) ((V(i := xs @ ys)) j)"
      using nin xj [of j] tmr_view_fld(1) [OF same] by (auto simp: tmr_remain_def)
    ultimately show ?thesis by metis
  qed
  moreover have "dom (tmrs ?r) = dom (tmrs s)" by (rule tmr_view_dom [OF same]) (use t in auto)
  ultimately have "tmr_rel ?r (V(i := xs @ ys))" using V by (simp add: tmr_rel_def)
  with h(1) view show ?thesis unfolding f by (intro exI [of _ ?h] exI [of _ ?w]) (simp add: with_tmrs_def)
qed

text \<open>The branches of \<^verbatim>\<open>OS_TmrLink\<close>: an empty spoke, and the search on the others.\<close>

lemma tmr_link_spoke:
  assumes k: "OSCfg_TmrWheel s i = Some k" "unat (TSPK_NbrEntries k) = length ys" "length ys < 65535"
    and lk: "linked TMR_NextPtr TMR_PrevPtr (tmrs s) (TSPK_FirstPtr k) b ys"
    and t: "tmrs s x = Some t" "x \<notin> set ys" "x \<noteq> NULL" and u: "u = t\<lparr>TMR_State := OS_TMR_STATE_RUNNING, TMR_Match := tmr_match opt (OSTmrTickCtr s) t\<rparr>"
    and i: "i = unat (TMR_Match u mod OSCfg_TmrWheelSize)" and f: "f = tmr_remain (s\<lparr>tmrs := (tmrs s)(x \<mapsto> u)\<rparr>)"
  shows "\<exists>h k'. OS_TmrLink x opt s = Some (with_tmrs h ((OSCfg_TmrWheel s)(i \<mapsto> k')) s) \<and> unat (TSPK_NbrEntries k') = Suc (length ys) \<and>
    linked TMR_NextPtr TMR_PrevPtr h (TSPK_FirstPtr k') (last0 NULL (time_insert f x ys)) (time_insert f x ys) \<and>
    (\<forall>y. map_option tmr_core (h y) = map_option tmr_core (((tmrs s)(x \<mapsto> u)) y)) \<and> (\<forall>y. y \<notin> insert x (set ys) \<longrightarrow> h y = tmrs s y)"
proof (cases "ys = []")
  case True
  have hd: "TSPK_FirstPtr k = NULL" using linkedD(4) [OF lk] True by simp
  let ?h = "(tmrs s)(x \<mapsto> u\<lparr>TMR_NextPtr := NULL, TMR_PrevPtr := NULL\<rparr>)"
  let ?k = "k\<lparr>TSPK_FirstPtr := x, TSPK_NbrEntries := 1\<rparr>" let ?k' = "if TSPK_NbrEntriesMax ?k < TSPK_NbrEntries ?k then ?k\<lparr>TSPK_NbrEntriesMax := TSPK_NbrEntries ?k\<rparr> else ?k"
  have "OS_TmrLink x opt s = Some (with_tmrs ?h ((OSCfg_TmrWheel s)(i \<mapsto> ?k')) s)"
    using hd k t(1) by (simp add: OS_TmrLink_def Let_def u [symmetric] i [symmetric] with_tmrs_def)
  with True t show ?thesis
    by (intro exI [of _ ?h] exI [of _ ?k']) (auto simp: time_insert_def linked_def)
next
  case False
  define t1 where "t1 = u\<lparr>TMR_Remain := TMR_Match u - OSTmrTickCtr s\<rparr>"
  let ?s1 = "s\<lparr>tmrs := (tmrs s)(x \<mapsto> t1)\<rparr>"
  have fr: "tmr_remain ?s1 = f" unfolding f t1_def by (auto simp: tmr_remain_def fun_eq_iff fld_def)
  have rx: "TMR_Remain t1 = f x" unfolding f t1_def by (simp add: tmr_remain_def fld_def)
  have lk': "linked TMR_NextPtr TMR_PrevPtr (tmrs ?s1) (TSPK_FirstPtr k) b ([] @ ys)" using lk t(2) by simp
  have hd: "TSPK_FirstPtr k = hd0 NULL ys" using linkedD(4) [OF lk] .
  have nz: "hd0 NULL ys \<noteq> NULL" using hd0_in [OF False] linkedD(2) [OF lk] by metis
  have "OSCfg_TmrWheel ?s1 i = Some k" "tmrs ?s1 x = Some t1" "x \<notin> set ([] @ ys)" using k(1) t(2) by simp_all
  from tmr_insert_loop_ok [OF lk' this(1) False this(2,3) t(3) refl refl, unfolded fr rx]
  obtain h where h: "tmr_insert_loop x i (hd0 NULL ys) ?s1 = Some (?s1\<lparr>tmrs := h, OSCfg_TmrWheel := (OSCfg_TmrWheel s)
      (i \<mapsto> k\<lparr>TSPK_FirstPtr := hd0 x (takeWhile (\<lambda>y. f y < f x) ys)\<rparr>)\<rparr>)"
    "linked TMR_NextPtr TMR_PrevPtr h (hd0 x (takeWhile (\<lambda>y. f y < f x) ys)) (last0 x (dropWhile (\<lambda>y. f y < f x) ys)) (time_insert f x ys)"
    "\<forall>y. map_option tmr_core (h y) = map_option tmr_core (tmrs ?s1 y)" "\<forall>y. y \<notin> insert x (set ys) \<longrightarrow> h y = tmrs ?s1 y"
    by (auto simp: time_insert_def)
  note E = linkedD(4,5) [OF h(2)]
  let ?k = "k\<lparr>TSPK_FirstPtr := hd0 x (takeWhile (\<lambda>y. f y < f x) ys), TSPK_NbrEntries := TSPK_NbrEntries k + 1\<rparr>"
  let ?k' = "if TSPK_NbrEntriesMax ?k < TSPK_NbrEntries ?k then ?k\<lparr>TSPK_NbrEntriesMax := TSPK_NbrEntries ?k\<rparr> else ?k"
  have "OS_TmrLink x opt s = Some (with_tmrs h ((OSCfg_TmrWheel s)(i \<mapsto> ?k')) s)"
    using nz h(1) hd k(1) t(1) by (simp add: OS_TmrLink_def Let_def u [symmetric] i [symmetric] t1_def [symmetric] with_tmrs_def)
  moreover have "unat (TSPK_NbrEntries ?k') = Suc (length ys)" using k by (simp add: unat_inc)
  moreover have "\<forall>y. map_option tmr_core (h y) = map_option tmr_core (((tmrs s)(x \<mapsto> u)) y)" using h(3) by (simp add: t1_def)
  moreover have "\<forall>y. y \<notin> insert x (set ys) \<longrightarrow> h y = tmrs s y" using h(4) by simp
  ultimately show ?thesis using h(2) E by (intro exI [of _ h] exI [of _ ?k']) simp
qed

lemma OS_TmrLink_ok:
  assumes V: "tmr_rel s V" and t: "tmrs s x = Some t" "TMR_State t \<noteq> OS_TMR_STATE_RUNNING"
    and u: "u = t\<lparr>TMR_State := OS_TMR_STATE_RUNNING, TMR_Match := tmr_match opt (OSTmrTickCtr s) t\<rparr>"
    and i: "i = unat (TMR_Match u mod OSCfg_TmrWheelSize)"
  shows "\<exists>h w. OS_TmrLink x opt s = Some (with_tmrs h w s) \<and>
    tmr_rel (with_tmrs h w s) (V(i := time_insert (tmr_remain (with_tmrs h w s)) x (V i))) \<and>
    tmr_view (with_tmrs h w s) = (tmr_view s)(x \<mapsto> tmr_core u)"
proof -
  from V have L: "tmr_links s V" and x0: "x \<noteq> NULL" using t(1) by (auto simp: tmr_rel_def dom_def intro!: gr0I)
  have i17: "i < unat (OSCfg_TmrWheelSize :: 32 word)" unfolding i by (rule tmr_spoke_less)
  have xV: "x \<notin> set (V j)" for j using L t by (auto simp: tmr_links_def on_tspoke_def)
  from L i17 obtain k where k: "OSCfg_TmrWheel s i = Some k" "unat (TSPK_NbrEntries k) = length (V i)"
    "linked TMR_NextPtr TMR_PrevPtr (tmrs s) (TSPK_FirstPtr k) (last0 NULL (V i)) (V i)" by (rule tmr_links_obtain)
  have room: "length (V i) < 65535"
    by (rule distinct_subset_length [OF linkedD(1,3) [OF k(3)], of x]) (use V t xV in \<open>auto simp: tmr_rel_def\<close>)
  let ?f = "tmr_remain (s\<lparr>tmrs := (tmrs s)(x \<mapsto> u)\<rparr>)"
  from tmr_link_spoke [OF k(1,2) room k(3) t(1) xV x0 u i refl]
  obtain h k' where h: "OS_TmrLink x opt s = Some (with_tmrs h ((OSCfg_TmrWheel s)(i \<mapsto> k')) s)" "unat (TSPK_NbrEntries k') = Suc (length (V i))"
    "linked TMR_NextPtr TMR_PrevPtr h (TSPK_FirstPtr k') (last0 NULL (time_insert ?f x (V i))) (time_insert ?f x (V i))"
    "\<forall>y. map_option tmr_core (h y) = map_option tmr_core (((tmrs s)(x \<mapsto> u)) y)" "\<forall>y. y \<notin> insert x (set (V i)) \<longrightarrow> h y = tmrs s y" by blast
  let ?w = "(OSCfg_TmrWheel s)(i \<mapsto> k')" let ?r = "with_tmrs h ?w s"
  have view: "tmr_view ?r = (tmr_view s)(x \<mapsto> tmr_core u)" using h(4) by (auto simp: tmr_view_def fun_eq_iff)
  then have same: "tmr_view ?r y = tmr_view s y" if "y \<noteq> x" for y using that by simp
  from view obtain v where v: "h x = Some v" "tmr_core v = tmr_core u" using tmr_view_SomeD [of ?r x] by auto
  have rem: "tmr_remain ?r = ?f"
  proof
    fix y show "tmr_remain ?r y = ?f y"
      using tmr_view_fld(1) [OF same, of y] v tmr_core_eqD(1) [OF v(2)] by (cases "y = x") (simp_all add: tmr_remain_def fld_def)
  qed
  have "tmr_links ?r (V(i := time_insert ?f x (V i)))"
  proof (rule tmr_links_upd [OF L, where x = x])
    show "on_tspoke ?r j y \<longleftrightarrow> y \<in> set ((V(i := time_insert ?f x (V i))) j)" for j y
    proof (cases "y = x")
      case True
      then show ?thesis using v tmr_core_eqD(1,2) [OF v(2)] xV i u by (auto simp: on_tspoke_def)
    next
      case False
      have "y \<in> set (V j) \<longleftrightarrow> on_tspoke s j y" using L by (simp add: tmr_links_def)
      then show ?thesis using tmr_view_fld(2) [OF same [OF False], of j] False by auto
    qed
  qed (use h xV in simp_all)
  moreover have "sorted (map ?f ((V(i := time_insert ?f x (V i))) j))" for j
  proof -
    have eq: "map ?f (V j) = map (tmr_remain s) (V j)" for j using xV [of j] by (auto simp: tmr_remain_def fld_def)
    have "sorted (map ?f (V j))" for j unfolding eq using V by (simp add: tmr_rel_def)
    then show ?thesis by (simp add: sorted_time_insert)
  qed
  moreover have "dom (tmrs ?r) = dom (tmrs s)" by (rule tmr_view_dom [OF same]) (use t v in auto)
  ultimately have "tmr_rel ?r (V(i := time_insert (tmr_remain ?r) x (V i)))" unfolding rem using V rem by (simp add: tmr_rel_def)
  with h(1) view show ?thesis by blast
qed

subsection \<open>Expiry\<close>

lemma tmr_rel_upd:
  assumes V: "tmr_rel s V" and t: "tmrs s x = Some t" "TMR_State t \<noteq> OS_TMR_STATE_RUNNING" "TMR_State t' \<noteq> OS_TMR_STATE_RUNNING"
  shows "tmr_rel (s\<lparr>tmrs := (tmrs s)(x \<mapsto> t')\<rparr>) V"
proof -
  from V have L: "tmr_links s V" by (simp add: tmr_rel_def)
  have xV: "x \<notin> set (V j)" for j using L t by (auto simp: tmr_links_def on_tspoke_def)
  have "on_tspoke (s\<lparr>tmrs := (tmrs s)(x \<mapsto> t')\<rparr>) i y = on_tspoke s i y" for i y using t by (auto simp: on_tspoke_def)
  then have "tmr_links (s\<lparr>tmrs := (tmrs s)(x \<mapsto> t')\<rparr>) V" using L xV by (simp add: tmr_links_def tmr_ok_def)
  moreover have "sorted (map (tmr_remain (s\<lparr>tmrs := (tmrs s)(x \<mapsto> t')\<rparr>)) (V i))" for i
  proof -
    have "map (tmr_remain (s\<lparr>tmrs := (tmrs s)(x \<mapsto> t')\<rparr>)) (V i) = map (tmr_remain s) (V i)" using xV [of i] by (auto simp: tmr_remain_def fld_def)
    then show ?thesis using V unfolding tmr_rel_def by metis
  qed
  moreover have "dom ((tmrs s)(x \<mapsto> t')) = dom (tmrs s)" using t by auto
  moreover have "x \<noteq> NULL" using V t(1) by (auto simp: tmr_rel_def dom_def intro!: gr0I)
  ultimately show ?thesis using V by (auto simp: tmr_rel_def insert_absorb)
qed

text \<open>What a round of the timer task does to a timer: a running timer whose time has come starts
  again when it is periodic, and is completed otherwise.\<close>

definition tmr_expired :: "OS_TICK \<Rightarrow> OS_TMR \<Rightarrow> OS_TMR" where
  "tmr_expired now t =
     (if TMR_State t = OS_TMR_STATE_RUNNING \<and> TMR_Match t = now then
        if TMR_Opt t = OS_OPT_TMR_PERIODIC then t\<lparr>TMR_Match := TMR_Period t + now\<rparr> else t\<lparr>TMR_State := OS_TMR_STATE_COMPLETED\<rparr>
      else t)"

definition tmr_call :: "os \<Rightarrow> ptr \<Rightarrow> (ptr \<times> ptr \<times> ptr) list" where
  "tmr_call s x = (case tmr_view s x of None \<Rightarrow> [] | Some t \<Rightarrow> if TMR_CallbackPtr t = NULL then [] else [(TMR_CallbackPtr t, x, TMR_CallbackPtrArg t)])"

text \<open>The timers' functions return and leave the timers alone.\<close>

definition callback_frame :: "tmr_callback \<Rightarrow> bool" where
  "callback_frame callback \<longleftrightarrow> (\<forall>f x a s. \<exists>s'. callback f x a s = Some s' \<and> tmrs s' = tmrs s \<and> OSCfg_TmrWheel s' = OSCfg_TmrWheel s \<and> OSTmrTickCtr s' = OSTmrTickCtr s)"

lemma tmr_core_sel [simp]:
  "TMR_Match (tmr_core t) = TMR_Match t" "TMR_State (tmr_core t) = TMR_State t" "TMR_Period (tmr_core t) = TMR_Period t" "TMR_Dly (tmr_core t) = TMR_Dly t"
  "TMR_Opt (tmr_core t) = TMR_Opt t" "TMR_CallbackPtr (tmr_core t) = TMR_CallbackPtr t" "TMR_CallbackPtrArg (tmr_core t) = TMR_CallbackPtrArg t"
  "TMR_Type (tmr_core t) = TMR_Type t"
  by (simp_all add: tmr_core_def)

lemma tmr_core_set:
  assumes "tmr_core t' = tmr_core t"
  shows "tmr_core (t'\<lparr>TMR_State := a\<rparr>) = tmr_core (t\<lparr>TMR_State := a\<rparr>)"
    "tmr_core (t'\<lparr>TMR_State := a, TMR_Match := m\<rparr>) = tmr_core (t\<lparr>TMR_State := a, TMR_Match := m\<rparr>)"
proof -
  have "tmr_core (t\<lparr>TMR_State := a\<rparr>) = (tmr_core t)\<lparr>TMR_State := a\<rparr>"
    "tmr_core (t\<lparr>TMR_State := a, TMR_Match := m\<rparr>) = (tmr_core t)\<lparr>TMR_State := a, TMR_Match := m\<rparr>" for t by (simp_all add: tmr_core_def)
  with assms show "tmr_core (t'\<lparr>TMR_State := a\<rparr>) = tmr_core (t\<lparr>TMR_State := a\<rparr>)"
    "tmr_core (t'\<lparr>TMR_State := a, TMR_Match := m\<rparr>) = tmr_core (t\<lparr>TMR_State := a, TMR_Match := m\<rparr>)" by metis+
qed

lemma tmr_core_expired: "tmr_core (tmr_expired now t) = tmr_expired now (tmr_core t)"
  by (simp add: tmr_expired_def tmr_core_def)

lemma tmr_expire_stop:
  assumes "q = NULL \<or> (\<exists>u. tmr_view s q = Some u \<and> TMR_Match u \<noteq> OSTmrTickCtr s)"
  shows "tmr_expire_loop callback q s = Some ([], s)"
proof (cases "q = NULL")
  case False
  with assms obtain u where "tmrs s q = Some u" "TMR_Match u \<noteq> OSTmrTickCtr s" by (auto simp: tmr_view_def)
  with False show ?thesis by (subst tmr_expire_loop.simps) auto
qed (simp add: tmr_expire_loop.simps)

text \<open>Behind timers whose time has come.\<close>

lemma time_insert_behind: "\<forall>z \<in> set zs. f z < f x \<Longrightarrow> time_insert f x (zs @ ws) = zs @ time_insert f x ws"
  by (simp add: time_insert_def)

lemma tmr_first_expires:
  assumes V: "tmr_rel s V" and zs: "V i = z # zs @ ws" and t: "tmrs s z = Some t" "TMR_State t = OS_TMR_STATE_RUNNING" "TMR_Match t = OSTmrTickCtr s"
    and i: "i = unat (OSTmrTickCtr s mod OSCfg_TmrWheelSize)" and p: "TMR_Opt t = OS_OPT_TMR_PERIODIC \<Longrightarrow> TMR_Period t \<noteq> 0"
    and z0: "\<forall>y \<in> set zs. tmr_remain s y = 0" and w0: "\<forall>y \<in> set ws. tmr_remain s y \<noteq> 0"
  shows "\<exists>s1 h w V' ws'. OS_TmrUnlink z s = Some s1 \<and>
    (if TMR_Opt t = OS_OPT_TMR_PERIODIC then OS_TmrLink z OS_OPT_LINK_PERIODIC s1
     else tmr_mod z (\<lambda>t. t\<lparr>TMR_State := OS_TMR_STATE_COMPLETED\<rparr>) s1) = Some (with_tmrs h w s) \<and>
    tmr_rel (with_tmrs h w s) V' \<and> V' i = zs @ ws' \<and> (\<forall>y \<in> set ws'. tmr_remain (with_tmrs h w s) y \<noteq> 0) \<and>
    tmr_view (with_tmrs h w s) = (tmr_view s)(z \<mapsto> tmr_core (tmr_expired (OSTmrTickCtr s) t))"
proof -
  from V have "\<exists>a b. linked TMR_NextPtr TMR_PrevPtr (tmrs s) a b (V i)" using tmr_spoke_less unfolding i tmr_rel_def tmr_links_def tmr_ok_def by metis
  then have nin: "z \<notin> set (zs @ ws)" using linkedD(1) zs by fastforce
  then have f: "filter (\<lambda>y. y \<noteq> z) (V i) = zs @ ws" using filter_neq [of z "zs @ ws"] zs by simp
  from OS_TmrUnlink_ok [OF V t(1,2), unfolded t(3), OF i] obtain h1 w1 where 1: "OS_TmrUnlink z s = Some (with_tmrs h1 w1 s)"
    "tmr_rel (with_tmrs h1 w1 s) (V(i := zs @ ws))" "tmr_view (with_tmrs h1 w1 s) = (tmr_view s)(z \<mapsto> tmr_core (t\<lparr>TMR_State := OS_TMR_STATE_STOPPED\<rparr>))"
    unfolding f by blast
  let ?s1 = "with_tmrs h1 w1 s"
  from 1(3) obtain t1 where t1: "h1 z = Some t1" "tmr_core t1 = tmr_core (t\<lparr>TMR_State := OS_TMR_STATE_STOPPED\<rparr>)"
    using tmr_view_SomeD [of ?s1 z] by auto
  note c = tmr_core_eqD [OF t1(2)]
  show ?thesis
  proof (cases "TMR_Opt t = OS_OPT_TMR_PERIODIC")
    case True
    let ?u = "t1\<lparr>TMR_State := OS_TMR_STATE_RUNNING, TMR_Match := tmr_match OS_OPT_LINK_PERIODIC (OSTmrTickCtr ?s1) t1\<rparr>"
    let ?j = "unat (TMR_Match ?u mod OSCfg_TmrWheelSize)"
    have m: "TMR_Match ?u = TMR_Period t + OSTmrTickCtr s" using c by (simp add: tmr_match_def)
    from OS_TmrLink_ok [OF 1(2) _ _ refl refl, of z t1 OS_OPT_LINK_PERIODIC] t1 c obtain h w where 2: "OS_TmrLink z OS_OPT_LINK_PERIODIC ?s1 = Some (with_tmrs h w s)"
      "tmr_rel (with_tmrs h w s) ((V(i := zs @ ws))(?j := time_insert (tmr_remain (with_tmrs h w s)) z ((V(i := zs @ ws)) ?j)))"
      "tmr_view (with_tmrs h w s) = (tmr_view ?s1)(z \<mapsto> tmr_core ?u)" by auto
    let ?s2 = "with_tmrs h w s"
    have cu: "tmr_core ?u = tmr_core (tmr_expired (OSTmrTickCtr s) t)"
    proof -
      have "tmr_core ?u = tmr_core (t\<lparr>TMR_State := OS_TMR_STATE_STOPPED, TMR_State := OS_TMR_STATE_RUNNING, TMR_Match := TMR_Period t + OSTmrTickCtr s\<rparr>)"
        using tmr_core_set(2) [OF t1(2)] m by simp
      moreover have "t\<lparr>TMR_State := OS_TMR_STATE_RUNNING\<rparr> = t" using t(2) by (cases t) simp
      ultimately show ?thesis using t True by (simp add: tmr_expired_def)
    qed
    have v: "tmr_view ?s2 = (tmr_view s)(z \<mapsto> tmr_core (tmr_expired (OSTmrTickCtr s) t))" using 2(3) 1(3) cu by simp
    have rz: "tmr_remain ?s2 z = TMR_Period t"
    proof -
      from v obtain t2 where "h z = Some t2" "tmr_core t2 = tmr_core (tmr_expired (OSTmrTickCtr s) t)" using tmr_view_SomeD [of ?s2 z] by auto
      then show ?thesis using tmr_core_eqD(1) [of t2 "tmr_expired (OSTmrTickCtr s) t"] t True by (simp add: tmr_remain_def fld_def tmr_expired_def)
    qed
    have rem: "tmr_remain ?s2 y = tmr_remain s y" if "y \<in> set (zs @ ws)" for y
    proof -
      have "y \<noteq> z" using nin that by auto
      then show ?thesis using tmr_view_fld(1) [of ?s2 y s] v by (simp add: tmr_remain_def)
    qed
    then have "\<forall>y \<in> set zs. tmr_remain ?s2 y < tmr_remain ?s2 z" using rz p [OF True] z0 by (simp add: word_neq_0_conv)
    then have ti: "time_insert (tmr_remain ?s2) z (zs @ ws) = zs @ time_insert (tmr_remain ?s2) z ws" by (rule time_insert_behind)
    let ?V = "(V(i := zs @ ws))(?j := time_insert (tmr_remain ?s2) z ((V(i := zs @ ws)) ?j))"
    have "?V i = zs @ (if i = ?j then time_insert (tmr_remain ?s2) z ws else ws)" using ti by (cases "i = ?j") simp_all
    moreover have "\<forall>y \<in> set (if i = ?j then time_insert (tmr_remain ?s2) z ws else ws). tmr_remain ?s2 y \<noteq> 0"
      using rem w0 rz p [OF True] by simp
    ultimately show ?thesis using 1(1) 2(1,2) v True
      by (intro exI [of _ ?s1] exI [of _ h] exI [of _ w] exI [of _ ?V] exI [of _ "if i = ?j then time_insert (tmr_remain ?s2) z ws else ws"] conjI) simp_all
  next
    case False
    let ?h = "h1(z \<mapsto> t1\<lparr>TMR_State := OS_TMR_STATE_COMPLETED\<rparr>)"
    have "tmr_rel (with_tmrs ?h w1 s) (V(i := zs @ ws))"
      using tmr_rel_upd [OF 1(2), of z t1 "t1\<lparr>TMR_State := OS_TMR_STATE_COMPLETED\<rparr>"] t1(1) c(2) by simp
    moreover have "tmr_core (t1\<lparr>TMR_State := OS_TMR_STATE_COMPLETED\<rparr>) = tmr_core (tmr_expired (OSTmrTickCtr s) t)"
      using tmr_core_set(1) [OF t1(2), of OS_TMR_STATE_COMPLETED] t False by (simp add: tmr_expired_def)
    then have v: "tmr_view (with_tmrs ?h w1 s) = (tmr_view s)(z \<mapsto> tmr_core (tmr_expired (OSTmrTickCtr s) t))"
      using 1(3) by (auto simp: tmr_view_def fun_eq_iff split: if_splits)
    moreover have "tmr_mod z (\<lambda>t. t\<lparr>TMR_State := OS_TMR_STATE_COMPLETED\<rparr>) ?s1 = Some (with_tmrs ?h w1 s)" using t1(1) by simp
    moreover note v
    moreover have "tmr_remain (with_tmrs ?h w1 s) y \<noteq> 0" if "y \<in> set ws" for y
    proof -
      have "y \<noteq> z" using nin that by auto
      then show ?thesis using tmr_view_fld(1) [of "with_tmrs ?h w1 s" y s] v w0 that by (simp add: tmr_remain_def)
    qed
    ultimately show ?thesis using 1(1) False
      by (intro exI [of _ ?s1] exI [of _ ?h] exI [of _ w1] exI [of _ "V(i := zs @ ws)"] exI [of _ ws]) simp
  qed
qed

lemma tmr_call_core: "tmrs s x = Some t \<Longrightarrow> tmr_call s x = (if TMR_CallbackPtr t = NULL then [] else [(TMR_CallbackPtr t, x, TMR_CallbackPtrArg t)])"
  by (simp add: tmr_call_def tmr_view_def)

lemma tmr_rel_cong:
  assumes "tmrs s' = tmrs s" "OSCfg_TmrWheel s' = OSCfg_TmrWheel s" "OSTmrTickCtr s' = OSTmrTickCtr s"
  shows "tmr_rel s' V = tmr_rel s V" "tmr_view s' = tmr_view s" "tmr_remain s' = tmr_remain s"
proof -
  show v: "tmr_view s' = tmr_view s" and r: "tmr_remain s' = tmr_remain s" by (rule ext, simp add: tmr_view_def tmr_remain_def assms)+
  show "tmr_rel s' V = tmr_rel s V" by (simp add: tmr_rel_def tmr_links_def tmr_ok_def on_tspoke_def r assms)
qed

text \<open>The loop expires exactly the timers \<open>zs\<close> at the front of the spoke and stops at \<open>q\<close>.\<close>

lemma tmr_expire_loop_ok:
  assumes "callback_frame callback" "tmr_rel s V" "V i = zs @ ws" "OSTmrTickCtr s = now" "i = unat (now mod OSCfg_TmrWheelSize)"
    and "\<forall>z \<in> set zs. tmr_remain s z = 0" "\<forall>y \<in> set ws. tmr_remain s y \<noteq> 0"
    and "\<forall>y \<in> set ws0. y \<notin> set zs \<and> (\<exists>t. tmr_view s y = Some t \<and> TMR_Match t \<noteq> now)"
    and "\<And>x t. x \<in> set zs \<Longrightarrow> tmr_view s x = Some t \<Longrightarrow> TMR_Opt t = OS_OPT_TMR_PERIODIC \<Longrightarrow> TMR_Period t \<noteq> 0"
  shows "\<exists>s' V'. tmr_expire_loop callback (hd0 NULL (zs @ ws0)) s = Some (concat (map (tmr_call s) zs), s') \<and> tmr_rel s' V' \<and> OSTmrTickCtr s' = now \<and>
    tmr_view s' = (\<lambda>x. if x \<in> set zs then map_option (tmr_expired now) (tmr_view s x) else tmr_view s x)"
  using assms(2-)
proof (induction zs arbitrary: s V ws ws0)
  case Nil
  have "hd0 NULL ws0 = NULL \<or> (\<exists>u. tmr_view s (hd0 NULL ws0) = Some u \<and> TMR_Match u \<noteq> OSTmrTickCtr s)"
    using Nil.prems(3,7) by (cases ws0) auto
  from tmr_expire_stop [OF this] Nil.prems show ?case by (intro exI [of _ s] exI [of _ V]) auto
next
  case (Cons z zs)
  from Cons.prems(1) have L: "tmr_links s V" by (simp add: tmr_rel_def)
  have "z \<in> set (V i)" using Cons.prems(2) by simp
  with L obtain t where t: "tmrs s z = Some t" "TMR_State t = OS_TMR_STATE_RUNNING" unfolding tmr_links_def on_tspoke_def by blast
  obtain k :: OS_TMR_SPOKE where "linked TMR_NextPtr TMR_PrevPtr (tmrs s) (TSPK_FirstPtr k) (last0 NULL (V i)) (V i)"
    unfolding Cons.prems(4) by (rule tmr_links_obtain [OF L tmr_spoke_less [of now]]) blast
  then have k: "linked TMR_NextPtr TMR_PrevPtr (tmrs s) (TSPK_FirstPtr k) (last0 NULL (V i)) ([] @ z # zs @ ws)" using Cons.prems(2) by simp
  have nin: "z \<notin> set zs" "z \<notin> set ws" "set ws \<inter> set zs = {}" using linkedD(1) [OF k] by auto
  have z0: "z \<noteq> NULL" using linkedD(2) [OF k] by auto
  have nx: "TMR_NextPtr t = hd0 NULL (zs @ ws)" using linked_node [OF k] t(1) by auto
  have m: "TMR_Match t = now" using Cons.prems(3,5) t(1) by (simp add: tmr_remain_def fld_def)
  have tv: "tmr_view s z = Some (tmr_core t)" using t(1) by (simp add: tmr_view_def)
  have per: "TMR_Opt t = OS_OPT_TMR_PERIODIC \<Longrightarrow> TMR_Period t \<noteq> 0" using Cons.prems(8) [of z "tmr_core t"] tv by simp
  have "V i = z # zs @ ws" "TMR_Match t = OSTmrTickCtr s" "i = unat (OSTmrTickCtr s mod OSCfg_TmrWheelSize)" "\<forall>y \<in> set zs. tmr_remain s y = 0"
    using Cons.prems(2-5) m by simp_all
  from tmr_first_expires [OF Cons.prems(1) this(1) t this(2,3) per this(4) Cons.prems(6), unfolded Cons.prems(3)]
  obtain s1 h w V' ws' where 1: "OS_TmrUnlink z s = Some s1"
    "(if TMR_Opt t = OS_OPT_TMR_PERIODIC then OS_TmrLink z OS_OPT_LINK_PERIODIC s1
      else tmr_mod z (\<lambda>t. t\<lparr>TMR_State := OS_TMR_STATE_COMPLETED\<rparr>) s1) = Some (with_tmrs h w s)"
    "tmr_rel (with_tmrs h w s) V'" "V' i = zs @ ws'" "\<forall>y \<in> set ws'. tmr_remain (with_tmrs h w s) y \<noteq> 0"
    "tmr_view (with_tmrs h w s) = (tmr_view s)(z \<mapsto> tmr_core (tmr_expired now t))" by blast
  let ?s2 = "with_tmrs h w s"
  obtain s3 where 3: "(if TMR_CallbackPtr t \<noteq> NULL then callback (TMR_CallbackPtr t) z (TMR_CallbackPtrArg t) ?s2 else Some ?s2) = Some s3"
    "tmrs s3 = tmrs ?s2" "OSCfg_TmrWheel s3 = OSCfg_TmrWheel ?s2" "OSTmrTickCtr s3 = OSTmrTickCtr ?s2"
    using assms(1) unfolding callback_frame_def by (metis (full_types))
  note c3 = tmr_rel_cong [OF 3(2-4)]
  have v3: "tmr_view s3 = (tmr_view s)(z \<mapsto> tmr_core (tmr_expired now t))" using 1(6) c3(2) by simp
  have rem: "tmr_remain s3 y = tmr_remain s y" if "y \<noteq> z" for y
    using tmr_view_fld(1) [of s3 y s] v3 that 3(4) by (simp add: tmr_remain_def)
  have ws: "\<exists>u. tmr_view s3 y = Some u \<and> TMR_Match u \<noteq> now" if y: "y \<in> set ws" for y
  proof -
    have "y \<in> set (V i)" using y Cons.prems(2) by simp
    with L obtain u where "tmrs s y = Some u" unfolding tmr_links_def on_tspoke_def by blast
    moreover have "tmr_remain s y \<noteq> 0" "y \<noteq> z" using Cons.prems(6) y nin by auto
    ultimately show ?thesis using v3 Cons.prems(3) by (auto simp: tmr_view_def tmr_remain_def fld_def)
  qed
  have "\<exists>s' V'. tmr_expire_loop callback (hd0 NULL (zs @ ws)) s3 = Some (concat (map (tmr_call s3) zs), s') \<and> tmr_rel s' V' \<and> OSTmrTickCtr s' = now \<and>
    tmr_view s' = (\<lambda>x. if x \<in> set zs then map_option (tmr_expired now) (tmr_view s3 x) else tmr_view s3 x)"
  proof (rule Cons.IH [of s3 V' ws'])
    show "tmr_rel s3 V'" using 1(3) c3 by simp
    show "OSTmrTickCtr s3 = now" using 3(4) Cons.prems(3) by simp
    show "\<forall>y \<in> set zs. tmr_remain s3 y = 0" using rem nin(1) Cons.prems(5) by (metis list.set_intros(2))
    show "\<forall>y \<in> set ws'. tmr_remain s3 y \<noteq> 0" using 1(5) c3 by simp
    show "\<forall>y \<in> set ws. y \<notin> set zs \<and> (\<exists>u. tmr_view s3 y = Some u \<and> TMR_Match u \<noteq> now)" using ws nin(3) by auto
    show "TMR_Period u \<noteq> 0" if "x \<in> set zs" "tmr_view s3 x = Some u" "TMR_Opt u = OS_OPT_TMR_PERIODIC" for x u
    proof -
      have "x \<noteq> z" using that(1) nin by auto
      then show ?thesis using Cons.prems(8) [of x u] that v3 by simp
    qed
  qed (use 1(4) Cons.prems(4) in simp_all)
  then obtain s' V'' where IH: "tmr_expire_loop callback (hd0 NULL (zs @ ws)) s3 = Some (concat (map (tmr_call s3) zs), s')" "tmr_rel s' V''" "OSTmrTickCtr s' = now"
    "tmr_view s' = (\<lambda>x. if x \<in> set zs then map_option (tmr_expired now) (tmr_view s3 x) else tmr_view s3 x)" by blast
  have calls: "map (tmr_call s3) zs = map (tmr_call s) zs" using nin v3 by (auto simp: tmr_call_def)
  have "tmr_expire_loop callback z s = Some (concat (map (tmr_call s) (z # zs)), s')"
  proof (subst tmr_expire_loop.simps)
    show "(if z = NULL then Some ([], s)
      else do {
        tmr \<leftarrow> tmrs s z;
        let p_tmr_next = TMR_NextPtr tmr;
        if OSTmrTickCtr s = TMR_Match tmr then do {
          s \<leftarrow> OS_TmrUnlink z s;
          s \<leftarrow> (if TMR_Opt tmr = OS_OPT_TMR_PERIODIC then OS_TmrLink z OS_OPT_LINK_PERIODIC s
                else tmr_mod z (\<lambda>t. t\<lparr>TMR_State := OS_TMR_STATE_COMPLETED\<rparr>) s);
          let p_fnct = TMR_CallbackPtr tmr;
          s \<leftarrow> (if p_fnct \<noteq> NULL then callback p_fnct z (TMR_CallbackPtrArg tmr) s else Some s);
          (calls, s) \<leftarrow> tmr_expire_loop callback p_tmr_next s;
          Some (if p_fnct \<noteq> NULL then (p_fnct, z, TMR_CallbackPtrArg tmr) # calls else calls, s)
        } else Some ([], s)
      }) = Some (concat (map (tmr_call s) (z # zs)), s')"
      using z0 Cons.prems(3) m t(1) 1(1,2) 3(1) IH(1) nx calls tmr_call_core [OF t(1)] by (simp add: Let_def del: if_split)
  qed
  moreover have "tmr_view s' = (\<lambda>x. if x \<in> set (z # zs) then map_option (tmr_expired now) (tmr_view s x) else tmr_view s x)"
    using IH(4) v3 tv nin by (auto simp: tmr_core_expired)
  ultimately show ?case using IH(2,3) by (intro exI [of _ s'] exI [of _ V'']) simp
qed

subsection \<open>The invariant of the timers\<close>

text \<open>A running timer expires later than now; a timer that can be started has a delay or a period.\<close>

definition tmr_sound :: "OS_TICK \<Rightarrow> OS_TMR \<Rightarrow> bool" where
  "tmr_sound now t \<longleftrightarrow> (TMR_State t = OS_TMR_STATE_RUNNING \<longrightarrow> TMR_Type t = OS_OBJ_TYPE_TMR \<and> TMR_Match t \<noteq> now) \<and>
     (TMR_Type t = OS_OBJ_TYPE_TMR \<longrightarrow> (if TMR_Opt t = OS_OPT_TMR_PERIODIC then TMR_Period t \<noteq> 0 else TMR_Dly t \<noteq> 0))"

definition tmr_inv :: "os \<Rightarrow> (nat \<Rightarrow> ptr list) \<Rightarrow> bool" where
  "tmr_inv s V \<longleftrightarrow> tmr_rel s V \<and> (\<forall>x t. tmr_view s x = Some t \<longrightarrow> tmr_sound (OSTmrTickCtr s) t)"

lemma tmr_inv_remain:
  assumes "tmr_inv s V" "x \<in> set (V i)"
  obtains t where "tmrs s x = Some t" "TMR_State t = OS_TMR_STATE_RUNNING" "tmr_remain s x = TMR_Match t - OSTmrTickCtr s" "tmr_remain s x \<noteq> 0"
proof -
  from assms have "on_tspoke s i x" by (simp add: tmr_inv_def tmr_rel_def tmr_links_def)
  then obtain t where t: "tmrs s x = Some t" "TMR_State t = OS_TMR_STATE_RUNNING" by (auto simp: on_tspoke_def)
  have "tmr_view s x = Some (tmr_core t)" using t(1) by (simp add: tmr_view_def)
  then have "tmr_sound (OSTmrTickCtr s) (tmr_core t)" using assms(1) unfolding tmr_inv_def by blast
  then have "TMR_Match t \<noteq> OSTmrTickCtr s" using t(2) by (simp add: tmr_sound_def)
  with t show ?thesis using that [of t] by (simp add: tmr_remain_def fld_def)
qed

lemma sorted_zeros:
  assumes "sorted (map f xs)"
  shows "\<exists>ws. xs = filter (\<lambda>x. f x = (0 :: 'a::len word)) xs @ ws \<and> (\<forall>y \<in> set ws. f y \<noteq> 0)"
  using assms
proof (induction xs)
  case (Cons x xs)
  show ?case
  proof (cases "f x = 0")
    case True
    then show ?thesis using Cons by simp
  next
    case False
    have "f y \<noteq> 0" if "y \<in> set xs" for y using Cons.prems that False by (auto simp: word_le_0_iff)
    then show ?thesis using False by (intro exI [of _ "x # xs"]) auto
  qed
qed simp

lemma tmr_advance:
  assumes I: "tmr_inv s V"
  shows "tmr_rel (s\<lparr>OSTmrTickCtr := OSTmrTickCtr s + 1\<rparr>) V"
proof -
  let ?v = "s\<lparr>OSTmrTickCtr := OSTmrTickCtr s + 1\<rparr>"
  have mono: "a - 1 \<le> b - 1" if "a \<noteq> 0" "a \<le> b" for a b :: OS_TICK
  proof -
    have "b \<noteq> 0" using that by auto
    then show ?thesis using that by (simp add: word_le_nat_alt minus1_wrap)
  qed
  have "sorted (map (tmr_remain ?v) (V j))" for j
  proof -
    have s: "sorted (map (tmr_remain s) (V j))" using I by (simp add: tmr_inv_def tmr_rel_def)
    have "sorted (map (\<lambda>a. a - 1) (map (tmr_remain s) (V j)))"
      by (rule sorted_map_mono [OF s]) (use mono tmr_inv_remain [OF I] in \<open>auto simp: mono_on_def, metis\<close>)
    moreover have "tmr_remain ?v = (\<lambda>a. a - 1) \<circ> tmr_remain s" by (simp add: fun_eq_iff tmr_remain_def)
    ultimately show ?thesis by (simp only: map_map)
  qed
  then show ?thesis using I by (simp add: tmr_inv_def tmr_rel_def tmr_links_def tmr_ok_def on_tspoke_def)
qed

lemma tmr_sound_expired:
  assumes "tmr_sound now t"
  shows "tmr_sound (now + 1) (tmr_expired (now + 1) t)"
  using assms by (auto simp: tmr_sound_def tmr_expired_def split: if_splits)

lemma tmr_tick_ok:
  assumes I: "tmr_inv s V" and cb: "callback_frame callback" and now: "now = OSTmrTickCtr s + 1" and i: "i = unat (now mod OSCfg_TmrWheelSize)"
  shows "\<exists>s' V'. tmr_tick callback s = Some (concat (map (tmr_call s) (filter (\<lambda>x. fld TMR_Match (tmrs s) x = now) (V i))), s') \<and>
    tmr_inv s' V' \<and> OSTmrTickCtr s' = now \<and> (\<forall>x. tmr_view s' x = map_option (tmr_expired now) (tmr_view s x))"
proof -
  let ?v = "s\<lparr>OSTmrTickCtr := now\<rparr>"
  have rel: "tmr_rel ?v V" using tmr_advance [OF I] now by simp
  then have L: "tmr_links ?v V" by (simp add: tmr_rel_def)
  have vv: "tmr_view ?v = tmr_view s" by (simp add: tmr_view_def fun_eq_iff)
  let ?zs = "filter (\<lambda>x. tmr_remain ?v x = 0) (V i)"
  have zs: "?zs = filter (\<lambda>x. fld TMR_Match (tmrs s) x = now) (V i)" by (simp add: tmr_remain_def)
  from rel have "sorted (map (tmr_remain ?v) (V i))" by (simp add: tmr_rel_def)
  from sorted_zeros [OF this] obtain ws where ws: "V i = ?zs @ ws" "\<forall>y \<in> set ws. tmr_remain ?v y \<noteq> 0" by blast
  from tmr_links_obtain [OF L tmr_spoke_less [of now]] i
  obtain k where k: "OSCfg_TmrWheel s i = Some k" "linked TMR_NextPtr TMR_PrevPtr (tmrs s) (TSPK_FirstPtr k) (last0 NULL (V i)) (V i)" by auto
  have hd: "TSPK_FirstPtr k = hd0 NULL (?zs @ ws)" using linkedD(4) [OF k(2)] ws(1) by metis
  have run: "\<exists>t. tmr_view s x = Some t \<and> TMR_State t = OS_TMR_STATE_RUNNING \<and> tmr_remain ?v x = TMR_Match t - now" if "x \<in> set (V i)" for x
  proof -
    from I that obtain t where "tmrs s x = Some t" "TMR_State t = OS_TMR_STATE_RUNNING" by (rule tmr_inv_remain)
    then show ?thesis by (auto simp: tmr_view_def tmr_remain_def fld_def)
  qed
  have "\<exists>s' V'. tmr_expire_loop callback (hd0 NULL (?zs @ ws)) ?v = Some (concat (map (tmr_call ?v) ?zs), s') \<and> tmr_rel s' V' \<and> OSTmrTickCtr s' = now \<and>
    tmr_view s' = (\<lambda>x. if x \<in> set ?zs then map_option (tmr_expired now) (tmr_view ?v x) else tmr_view ?v x)"
  proof (rule tmr_expire_loop_ok [OF cb rel ws(1) _ i _ ws(2)])
    show "\<forall>y \<in> set ws. y \<notin> set ?zs \<and> (\<exists>t. tmr_view ?v y = Some t \<and> TMR_Match t \<noteq> now)"
    proof
      fix y assume y: "y \<in> set ws"
      then have "y \<in> set (V i)" using ws(1) by (metis Un_iff set_append)
      then show "y \<notin> set ?zs \<and> (\<exists>t. tmr_view ?v y = Some t \<and> TMR_Match t \<noteq> now)" using run [of y] ws(2) y unfolding vv by auto
    qed
    show "TMR_Period t \<noteq> 0" if "x \<in> set ?zs" "tmr_view ?v x = Some t" "TMR_Opt t = OS_OPT_TMR_PERIODIC" for x t
      using run [of x] that I unfolding vv by (auto simp: tmr_inv_def tmr_sound_def)
  qed simp_all
  then obtain s' V' where s': "tmr_expire_loop callback (hd0 NULL (?zs @ ws)) ?v = Some (concat (map (tmr_call ?v) ?zs), s')" "tmr_rel s' V'" "OSTmrTickCtr s' = now"
    "tmr_view s' = (\<lambda>x. if x \<in> set ?zs then map_option (tmr_expired now) (tmr_view s x) else tmr_view s x)" unfolding vv by blast
  have "tmr_expired now t = t" if "x \<notin> set ?zs" "tmr_view s x = Some t" for x t
  proof (rule ccontr)
    assume "tmr_expired now t \<noteq> t"
    then have t: "TMR_State t = OS_TMR_STATE_RUNNING" "TMR_Match t = now" by (auto simp: tmr_expired_def split: if_splits)
    from that(2) obtain u where u: "tmrs s x = Some u" "tmr_core u = t" by (auto simp: tmr_view_def)
    then have "on_tspoke ?v i x" using t i by (auto simp: on_tspoke_def)
    then have "x \<in> set (V i)" using L by (simp add: tmr_links_def)
    then show False using that u t by (auto simp: tmr_remain_def fld_def)
  qed
  then have view: "tmr_view s' x = map_option (tmr_expired now) (tmr_view s x)" for x using s'(4) by (cases "tmr_view s x") auto
  have "tmr_sound now t" if "tmr_view s' x = Some t" for x t
    using that view [of x] I tmr_sound_expired unfolding now tmr_inv_def by auto
  then have "tmr_inv s' V'" using s'(2,3) by (simp add: tmr_inv_def)
  moreover have "tmr_tick callback s = Some (concat (map (tmr_call s) ?zs), s')"
    using s'(1) hd k(1) i now vv by (simp add: tmr_tick_def Let_def tmr_call_def [abs_def])
  ultimately show ?thesis using s'(3) view unfolding zs by blast
qed

subsection \<open>Rounds of the timer task\<close>

text \<open>Several rounds in a row, with the calls of each.\<close>

primrec tmr_rounds :: "tmr_callback \<Rightarrow> nat \<Rightarrow> os \<Rightarrow> ((ptr \<times> ptr \<times> ptr) list list \<times> os) option" where
  "tmr_rounds callback 0 s = Some ([], s)"
| "tmr_rounds callback (Suc n) s = do {
     (c, s) \<leftarrow> tmr_tick callback s;
     (cs, s) \<leftarrow> tmr_rounds callback n s;
     Some (c # cs, s)
   }"

definition calls_of :: "ptr \<Rightarrow> (ptr \<times> ptr \<times> ptr) list \<Rightarrow> (ptr \<times> ptr \<times> ptr) list" where
  "calls_of x = filter (\<lambda>c. fst (snd c) = x)"

lemma calls_of_concat: "distinct xs \<Longrightarrow> calls_of x (concat (map (tmr_call s) xs)) = (if x \<in> set xs then tmr_call s x else [])"
proof (induction xs)
  case (Cons y ys)
  have "calls_of x (tmr_call s y) = (if y = x then tmr_call s y else [])" by (auto simp: calls_of_def tmr_call_def split: option.splits)
  with Cons show ?case by (auto simp: calls_of_def)
qed (simp add: calls_of_def)

text \<open>One round calls the function of a timer at most once, and only when its time has come.\<close>

lemma tmr_tick_calls:
  assumes I: "tmr_inv s V" and cb: "callback_frame callback" and x: "tmr_view s x = Some t" "TMR_State t = OS_TMR_STATE_RUNNING" and now: "now = OSTmrTickCtr s + 1"
  shows "\<exists>c s' V'. tmr_tick callback s = Some (c, s') \<and> tmr_inv s' V' \<and> OSTmrTickCtr s' = now \<and> tmr_view s' x = Some (tmr_expired now t) \<and>
    calls_of x c = (if TMR_Match t = now then tmr_call s x else [])"
proof -
  let ?i = "unat (now mod OSCfg_TmrWheelSize)" let ?zs = "filter (\<lambda>x. fld TMR_Match (tmrs s) x = now) (V ?i)"
  from tmr_tick_ok [OF I cb now refl] obtain s' V' where s': "tmr_tick callback s = Some (concat (map (tmr_call s) ?zs), s')" "tmr_inv s' V'"
    "OSTmrTickCtr s' = now" "\<forall>x. tmr_view s' x = map_option (tmr_expired now) (tmr_view s x)" by blast
  have L: "tmr_links s V" using I by (simp add: tmr_inv_def tmr_rel_def)
  obtain k :: OS_TMR_SPOKE where "linked TMR_NextPtr TMR_PrevPtr (tmrs s) (TSPK_FirstPtr k) (last0 NULL (V ?i)) (V ?i)"
    by (rule tmr_links_obtain [OF L tmr_spoke_less [of now]]) blast
  then have d: "distinct ?zs" using linkedD(1) distinct_filter by blast
  have "x \<in> set ?zs \<longleftrightarrow> TMR_Match t = now"
  proof -
    from x(1) obtain u where u: "tmrs s x = Some u" "tmr_core u = t" by (auto simp: tmr_view_def)
    then have "TMR_State u = OS_TMR_STATE_RUNNING" "TMR_Match u = TMR_Match t" using x(2) by auto
    moreover have "x \<in> set (V ?i) \<longleftrightarrow> on_tspoke s ?i x" using L by (simp add: tmr_links_def)
    ultimately show ?thesis using u(1) by (auto simp: on_tspoke_def fld_def)
  qed
  then have "calls_of x (concat (map (tmr_call s) ?zs)) = (if TMR_Match t = now then tmr_call s x else [])" using calls_of_concat [OF d, of x s] by simp
  with s' x(1) show ?thesis by (intro exI [of _ "concat (map (tmr_call s) ?zs)"] exI [of _ s'] exI [of _ V']) simp
qed

lemma tmr_rounds_ok:
  assumes "callback_frame callback" "tmr_inv s V" "tmr_view s x = Some t" "TMR_State t = OS_TMR_STATE_RUNNING" "unat (TMR_Match t - OSTmrTickCtr s) = Suc n"
  shows "\<exists>cs c s' V'. tmr_rounds callback (Suc n) s = Some (cs @ [c], s') \<and> tmr_inv s' V' \<and> OSTmrTickCtr s' = TMR_Match t \<and>
    (\<forall>b \<in> set cs. calls_of x b = []) \<and> calls_of x c = tmr_call s x \<and> tmr_view s' x = Some (tmr_expired (TMR_Match t) t)"
  using assms(2-)
proof (induction n arbitrary: s V)
  case 0
  then have "TMR_Match t - OSTmrTickCtr s = 1" by (intro unat_eq_numD(1)) simp
  then have now: "TMR_Match t = OSTmrTickCtr s + 1" by (simp add: diff_eq_eq add.commute)
  from tmr_tick_calls [OF 0(1) assms(1) 0(2,3) now] show ?case by force
next
  case (Suc n)
  let ?now = "OSTmrTickCtr s + 1"
  have nz: "TMR_Match t - OSTmrTickCtr s \<noteq> 0" using Suc.prems(4) by auto
  have u: "unat (TMR_Match t - ?now) = Suc n" using minus1_wrap [OF nz] Suc.prems(4) by (simp add: diff_diff_eq)
  then have ne: "TMR_Match t \<noteq> ?now" by auto
  from tmr_tick_calls [OF Suc.prems(1) assms(1) Suc.prems(2,3) refl] ne
  obtain c s1 V1 where 1: "tmr_tick callback s = Some (c, s1)" "tmr_inv s1 V1" "OSTmrTickCtr s1 = ?now" "tmr_view s1 x = Some t" "calls_of x c = []"
    by (auto simp: tmr_expired_def)
  have call: "tmr_call s1 x = tmr_call s x" using 1(4) Suc.prems(2) by (simp add: tmr_call_def)
  have "unat (TMR_Match t - OSTmrTickCtr s1) = Suc n" using u 1(3) by simp
  from Suc.IH [OF 1(2,4) Suc.prems(3) this] obtain cs c' s' V' where 2: "tmr_rounds callback (Suc n) s1 = Some (cs @ [c'], s')" "tmr_inv s' V'"
    "OSTmrTickCtr s' = TMR_Match t" "\<forall>b \<in> set cs. calls_of x b = []" "calls_of x c' = tmr_call s1 x" "tmr_view s' x = Some (tmr_expired (TMR_Match t) t)" by blast
  have "tmr_rounds callback (Suc (Suc n)) s = Some ((c # cs) @ [c'], s')" by (subst tmr_rounds.simps(2)) (simp add: 1(1) 2(1) del: tmr_rounds.simps)
  moreover have "\<forall>b \<in> set (c # cs). calls_of x b = []" using 1(5) 2(4) by simp
  ultimately show ?case using 2(2,3,5,6) call by metis
qed

subsection \<open>The services\<close>

lemma sys_with_tmrs [simp]: "kinv (with_tmrs h w s) R P W = kinv s R P W" "cur_rdy (with_tmrs h w s) = cur_rdy s" "cur_ok (with_tmrs h w s) = cur_ok s"
  unfolding with_tmrs_def by (rule kinv_cong; simp) (simp_all add: cur_rdy_def cur_ok_def)

lemma sw_frame_tmrs:
  assumes "sw_frame s s'"
  shows "tmrs s' = tmrs s" "OSCfg_TmrWheel s' = OSCfg_TmrWheel s" "OSTmrTickCtr s' = OSTmrTickCtr s"
proof -
  have "os_less_sw s' = os_less_sw s" using assms by (simp add: sw_frame_def)
  from arg_cong [OF this, of tmrs] arg_cong [OF this, of OSCfg_TmrWheel] arg_cong [OF this, of OSTmrTickCtr]
  show "tmrs s' = tmrs s" "OSCfg_TmrWheel s' = OSCfg_TmrWheel s" "OSTmrTickCtr s' = OSTmrTickCtr s" by (simp_all add: os_less_sw_def)
qed

text \<open>Work on the timers between locking and unlocking the scheduler.\<close>

lemma tmr_locked:
  assumes S: "sys s R P W" and g: "OSIntNestingCtr s = 0" "OSRunning s = OS_STATE_OS_RUNNING" "OSSchedLockNestingCtr s < 250"
  shows "tmrs (snd (OSSchedLock s)) = tmrs s" "OSCfg_TmrWheel (snd (OSSchedLock s)) = OSCfg_TmrWheel s" "OSTmrTickCtr (snd (OSSchedLock s)) = OSTmrTickCtr s"
    and "\<exists>e s'. OSSchedUnlock (with_tmrs h w (snd (OSSchedLock s))) = Some (e, s') \<and> sys s' R P W \<and> tmrs s' = h \<and> OSCfg_TmrWheel s' = w \<and>
      OSTmrTickCtr s' = OSTmrTickCtr s \<and> OSSchedLockNestingCtr s' = OSSchedLockNestingCtr s"
proof -
  let ?s1 = "snd (OSSchedLock s)" let ?r = "with_tmrs h w ?s1"
  let ?c = "s\<lparr>OSSchedLockNestingCtr := OSSchedLockNestingCtr s + 1\<rparr>"
  have lock: "?s1 = OS_SchedLockTimeMeasStart ?c" using g by (simp add: OSSchedLock_def not_le)
  show "tmrs ?s1 = tmrs s" "OSCfg_TmrWheel ?s1 = OSCfg_TmrWheel s" "OSTmrTickCtr ?s1 = OSTmrTickCtr s"
    unfolding lock by (simp_all add: OS_SchedLockTimeMeasStart_def OS_TS_GET_def)
  have r: "OSIntNestingCtr ?r = 0" "OSRunning ?r = OS_STATE_OS_RUNNING" "OSSchedLockNestingCtr ?r = OSSchedLockNestingCtr s + 1" "OSTmrTickCtr ?r = OSTmrTickCtr s"
    using g unfolding lock by (simp_all add: with_tmrs_def OS_SchedLockTimeMeasStart_def OS_TS_GET_def)
  have "unat (OSSchedLockNestingCtr s) < 250" using g(3) by (simp add: word_less_nat_alt)
  then have "unat (OSSchedLockNestingCtr s + 1) = Suc (unat (OSSchedLockNestingCtr s))" by (intro unat_inc) simp_all
  then have nz: "OSSchedLockNestingCtr s + 1 \<noteq> 0" by (metis nat.distinct(1) unat_0)
  from S have c: "cur_rdy s" "kinv s R P W" "R (unat (OSPrioCur s)) \<noteq> []" using cur_rdy_in [of s R P W] by (auto simp: sys_def)
  let ?u = "?r\<lparr>OSSchedLockNestingCtr := OSSchedLockNestingCtr ?r - 1\<rparr>"
  have ku: "kinv ?u R P W" using c unfolding lock by simp
  have cu: "cur_rdy ?u" using c unfolding lock by (simp add: cur_rdy_def with_tmrs_def OS_SchedLockTimeMeasStart_def OS_TS_GET_def)
  show "\<exists>e s'. OSSchedUnlock ?r = Some (e, s') \<and> sys s' R P W \<and> tmrs s' = h \<and> OSCfg_TmrWheel s' = w \<and>
      OSTmrTickCtr s' = OSTmrTickCtr s \<and> OSSchedLockNestingCtr s' = OSSchedLockNestingCtr s"
  proof (cases "OSSchedLockNestingCtr s = 0")
    case False
    then have "OSSchedUnlock ?r = Some (OS_ERR_SCHED_LOCKED, ?u)" using r nz by (simp add: OSSchedUnlock_def word_gt_0)
    with ku cu r(3,4) show ?thesis by (simp add: sys_def)
  next
    case True
    let ?m = "OS_SchedLockTimeMeasStop ?u"
    have m: "OSIntNestingCtr ?m = 0" "OSSchedLockNestingCtr ?m = 0" "tmrs ?m = h" "OSCfg_TmrWheel ?m = w" "OSTmrTickCtr ?m = OSTmrTickCtr s"
      using r True by (simp_all add: OS_SchedLockTimeMeasStop_def OS_TS_GET_def Let_def)
    have "kinv ?m R P W" "cur_ok ?m" using ku cur_rdy_ok [OF cu] by simp_all
    from OSSched_sys [OF this c(3)] m obtain s' where s': "OSSched ?m = Some s'" "sys s' R P W" "sw_frame ?m s'" by auto
    have "OSSchedUnlock ?r = Some (OS_ERR_NONE, s')" using r True s'(1) by (simp add: OSSchedUnlock_def)
    then show ?thesis using s'(2) m True sw_frame_tmrs [OF s'(3)] sw_frame_globals(11) [OF s'(3)] by simp
  qed
qed

lemma tmr_inv_cong:
  assumes "tmrs s' = tmrs s" "OSCfg_TmrWheel s' = OSCfg_TmrWheel s" "OSTmrTickCtr s' = OSTmrTickCtr s"
  shows "tmr_inv s' V = tmr_inv s V" "tmr_view s' = tmr_view s"
  using tmr_rel_cong [OF assms] assms(3) by (simp_all add: tmr_inv_def)

text \<open>Starting a timer, whether it runs or not.\<close>

lemma tmr_start_ok:
  assumes I: "tmr_inv s V" and t: "tmrs s x = Some t" "TMR_Type t = OS_OBJ_TYPE_TMR"
    and u: "u = t\<lparr>TMR_State := OS_TMR_STATE_RUNNING, TMR_Match := tmr_match OS_OPT_LINK_DLY (OSTmrTickCtr s) t\<rparr>"
  shows "\<exists>h w V'. (if TMR_State t = OS_TMR_STATE_RUNNING then do { s \<leftarrow> OS_TmrUnlink x s; OS_TmrLink x OS_OPT_LINK_DLY s } else OS_TmrLink x OS_OPT_LINK_DLY s) =
      Some (with_tmrs h w s) \<and> tmr_inv (with_tmrs h w s) V' \<and> tmr_view (with_tmrs h w s) = (tmr_view s)(x \<mapsto> tmr_core u)"
proof -
  have rel: "tmr_rel s V" and snd: "tmr_sound (OSTmrTickCtr s) (tmr_core t)" using I t(1) by (auto simp: tmr_inv_def tmr_view_def)
  then have "TMR_Match u \<noteq> OSTmrTickCtr s" using t(2) u by (auto simp: tmr_sound_def tmr_match_def split: if_splits)
  then have snd': "tmr_sound (OSTmrTickCtr s) (tmr_core u)" using snd t(2) u by (simp add: tmr_sound_def split: if_splits)
  have "\<exists>h w V'. (if TMR_State t = OS_TMR_STATE_RUNNING then do { s \<leftarrow> OS_TmrUnlink x s; OS_TmrLink x OS_OPT_LINK_DLY s } else OS_TmrLink x OS_OPT_LINK_DLY s) =
      Some (with_tmrs h w s) \<and> tmr_rel (with_tmrs h w s) V' \<and> tmr_view (with_tmrs h w s) = (tmr_view s)(x \<mapsto> tmr_core u)"
  proof (cases "TMR_State t = OS_TMR_STATE_RUNNING")
    case False
    from OS_TmrLink_ok [OF rel t(1) False u refl] False show ?thesis by auto
  next
    case True
    from OS_TmrUnlink_ok [OF rel t(1) True refl] obtain h1 w1 V1 where 1: "OS_TmrUnlink x s = Some (with_tmrs h1 w1 s)" "tmr_rel (with_tmrs h1 w1 s) V1"
      "tmr_view (with_tmrs h1 w1 s) = (tmr_view s)(x \<mapsto> tmr_core (t\<lparr>TMR_State := OS_TMR_STATE_STOPPED\<rparr>))" by blast
    from 1(3) obtain t1 where t1: "h1 x = Some t1" "tmr_core t1 = tmr_core (t\<lparr>TMR_State := OS_TMR_STATE_STOPPED\<rparr>)"
      using tmr_view_SomeD [of "with_tmrs h1 w1 s" x] by auto
    note c = tmr_core_eqD [OF t1(2)]
    from OS_TmrLink_ok [OF 1(2) _ _ refl refl, of x t1 OS_OPT_LINK_DLY] t1(1) c obtain h w V' where 2: "OS_TmrLink x OS_OPT_LINK_DLY (with_tmrs h1 w1 s) = Some (with_tmrs h w s)"
      "tmr_rel (with_tmrs h w s) V'"
      "tmr_view (with_tmrs h w s) = (tmr_view (with_tmrs h1 w1 s))(x \<mapsto> tmr_core (t1\<lparr>TMR_State := OS_TMR_STATE_RUNNING, TMR_Match := tmr_match OS_OPT_LINK_DLY (OSTmrTickCtr s) t1\<rparr>))" by auto
    have "tmr_match OS_OPT_LINK_DLY (OSTmrTickCtr s) t1 = tmr_match OS_OPT_LINK_DLY (OSTmrTickCtr s) t" using c by (simp add: tmr_match_def)
    then have "tmr_view (with_tmrs h w s) = (tmr_view s)(x \<mapsto> tmr_core u)"
      using 2(3) 1(3) tmr_core_set(2) [OF t1(2), where a = OS_TMR_STATE_RUNNING] u by simp
    with 1(1) 2(1,2) True show ?thesis by auto
  qed
  then obtain h w V' where r: "(if TMR_State t = OS_TMR_STATE_RUNNING then do { s \<leftarrow> OS_TmrUnlink x s; OS_TmrLink x OS_OPT_LINK_DLY s } else OS_TmrLink x OS_OPT_LINK_DLY s) =
      Some (with_tmrs h w s)" "tmr_rel (with_tmrs h w s) V'" "tmr_view (with_tmrs h w s) = (tmr_view s)(x \<mapsto> tmr_core u)" by blast
  have "tmr_inv (with_tmrs h w s) V'" using r(2,3) I snd' by (auto simp: tmr_inv_def split: if_splits)
  with r show ?thesis by blast
qed

end
