(* ===== verification/Tmr_Props.thy ===== *)
theory Tmr_Props
  imports OS_Tmr Object_Props
begin

text \<open>The properties of software timers.  The witnesses use the state \<open>demo_tmr\<close>: the state \<open>demo\<close> of
  \<open>OS_Example\<close> with an empty timer wheel and a one-shot timer of three ticks that is stopped (address
  30), and the state \<open>demo_run\<close>, in which a timer runs.\<close>

definition tmr30 :: OS_TMR where
  "tmr30 = \<lparr>TMR_Type = OS_OBJ_TYPE_TMR, TMR_NamePtr = '''', TMR_CallbackPtr = 77, TMR_CallbackPtrArg = 5, TMR_NextPtr = NULL, TMR_PrevPtr = NULL,
     TMR_Match = 0, TMR_Remain = 0, TMR_Dly = 3, TMR_Period = 0, TMR_Opt = OS_OPT_TMR_ONE_SHOT, TMR_State = OS_TMR_STATE_STOPPED,
     TMR_DbgPrevPtr = NULL, TMR_DbgNextPtr = NULL\<rparr>"

definition demo_tmr :: os where
  "demo_tmr = demo\<lparr>tmrs := [30 \<mapsto> tmr30], OSCfg_TmrWheel := (\<lambda>i. if i < 17 then Some \<lparr>TSPK_FirstPtr = NULL, TSPK_NbrEntries = 0, TSPK_NbrEntriesMax = 0\<rparr> else None),
     OSTmrTickCtr := 0, OSRunning := OS_STATE_OS_RUNNING\<rparr>"

definition demo_run :: os where
  "demo_run = demo_tmr\<lparr>tmrs := [30 \<mapsto> tmr30\<lparr>TMR_State := OS_TMR_STATE_RUNNING, TMR_Match := 3\<rparr>],
     OSCfg_TmrWheel := (OSCfg_TmrWheel demo_tmr)(3 \<mapsto> \<lparr>TSPK_FirstPtr = 30, TSPK_NbrEntries = 1, TSPK_NbrEntriesMax = 1\<rparr>)\<rparr>"

lemma demo_tmr_sel: "tmrs demo_tmr 30 = Some tmr30" "OSTmrTickCtr demo_tmr = 0" "OSIntNestingCtr demo_tmr = 0" "OSSchedLockNestingCtr demo_tmr = 0"
  "OSRunning demo_tmr = OS_STATE_OS_RUNNING" "TMR_State tmr30 = OS_TMR_STATE_STOPPED" "TMR_Type tmr30 = OS_OBJ_TYPE_TMR" "TMR_Dly tmr30 = 3"
  by (simp_all add: demo_tmr_def tmr30_def)

lemma demo_tmr_sys: "sys demo_tmr demo_R demo_P demo_W"
proof -
  have "kinv demo_tmr demo_R demo_P demo_W = kinv demo demo_R demo_P demo_W" by (rule kinv_cong) (simp_all add: demo_tmr_def)
  moreover have "cur_rdy demo_tmr = cur_rdy demo" by (simp add: demo_tmr_def cur_rdy_def)
  ultimately show ?thesis using demo_sys by (simp add: sys_def)
qed

lemma demo_tmr_inv: "tmr_inv demo_tmr (\<lambda>_. [])"
  by (auto simp: tmr_inv_def tmr_rel_def tmr_links_def tmr_ok_def on_tspoke_def tmr_view_def tmr_sound_def demo_tmr_def tmr30_def linked_def split: if_splits)

lemma demo_run_inv: "tmr_inv demo_run ((\<lambda>_. [])(3 := [30]))"
  by (auto simp: tmr_inv_def tmr_rel_def tmr_links_def tmr_ok_def on_tspoke_def tmr_view_def tmr_sound_def demo_run_def demo_tmr_def tmr30_def linked_def fld_def split: if_splits)






text \<open>Starting a created timer, stopped, completed or running, lets it run until its delay (or its
  period, when the delay is zero) has passed from now, changes no other timer, keeps the wheel and the
  kernel invariant, and leaves the scheduler locked as often as before.\<close>

theorem OSTmrStart_spec:
  assumes "sys s R P W" "tmr_inv s V" "tmrs s x = Some t" "TMR_Type t = OS_OBJ_TYPE_TMR" "x \<noteq> NULL"
    and "TMR_State t \<in> {OS_TMR_STATE_STOPPED, OS_TMR_STATE_COMPLETED, OS_TMR_STATE_RUNNING}"
    and "OSIntNestingCtr s = 0" "OSRunning s = OS_STATE_OS_RUNNING" "OSSchedLockNestingCtr s < 250"
  shows "\<exists>s' V'. OSTmrStart x s = Some (True, OS_ERR_NONE, s') \<and> sys s' R P W \<and> tmr_inv s' V' \<and> OSSchedLockNestingCtr s' = OSSchedLockNestingCtr s \<and>
    OSTmrTickCtr s' = OSTmrTickCtr s \<and> tmr_view s' = (tmr_view s)(x \<mapsto> tmr_core (t\<lparr>TMR_State := OS_TMR_STATE_RUNNING,
      TMR_Match := (if TMR_Dly t = 0 then TMR_Period t else TMR_Dly t) + OSTmrTickCtr s\<rparr>))"
proof -
  let ?s1 = "snd (OSSchedLock s)"
  note L = tmr_locked [OF assms(1,7-9)]
  note c1 = tmr_inv_cong [OF L(1-3)]
  have "tmr_inv ?s1 V" "tmrs ?s1 x = Some t" using c1 L(1) assms(2,3) by simp_all
  from tmr_start_ok [OF this assms(4) refl] obtain h w V' where 1:
    "(if TMR_State t = OS_TMR_STATE_RUNNING then do { s \<leftarrow> OS_TmrUnlink x ?s1; OS_TmrLink x OS_OPT_LINK_DLY s } else OS_TmrLink x OS_OPT_LINK_DLY ?s1) = Some (with_tmrs h w ?s1)"
    "tmr_inv (with_tmrs h w ?s1) V'"
    "tmr_view (with_tmrs h w ?s1) = (tmr_view ?s1)(x \<mapsto> tmr_core (t\<lparr>TMR_State := OS_TMR_STATE_RUNNING, TMR_Match := tmr_match OS_OPT_LINK_DLY (OSTmrTickCtr ?s1) t\<rparr>))"
    by blast
  from L(4) [of h w] obtain e s' where s': "OSSchedUnlock (with_tmrs h w ?s1) = Some (e, s')" "sys s' R P W" "tmrs s' = h" "OSCfg_TmrWheel s' = w"
    "OSTmrTickCtr s' = OSTmrTickCtr s" "OSSchedLockNestingCtr s' = OSSchedLockNestingCtr s" by blast
  have c2: "tmr_inv s' V' = tmr_inv (with_tmrs h w ?s1) V'" "tmr_view s' = tmr_view (with_tmrs h w ?s1)"
    by (rule tmr_inv_cong; use s' L(3) in simp)+
  have "OSTmrStart x s = Some (True, OS_ERR_NONE, s')"
    using assms(3-7) 1(1) s'(1) by (auto simp: OSTmrStart_def tmr_unlock_def Let_def split: Option.bind_splits)
  moreover have "tmr_view s' = (tmr_view s)(x \<mapsto> tmr_core (t\<lparr>TMR_State := OS_TMR_STATE_RUNNING,
      TMR_Match := (if TMR_Dly t = 0 then TMR_Period t else TMR_Dly t) + OSTmrTickCtr s\<rparr>))"
    using c2(2) 1(3) c1(2) L(3) by (simp add: tmr_match_def)
  ultimately show ?thesis using s'(2,5,6) 1(2) c2(1) by blast
qed

theorem OSTmrStart_spec_witness:
  "\<exists>s' V'. OSTmrStart 30 demo_tmr = Some (True, OS_ERR_NONE, s') \<and> sys s' demo_R demo_P demo_W \<and> tmr_inv s' V'"
  using OSTmrStart_spec [OF demo_tmr_sys demo_tmr_inv demo_tmr_sel(1)] demo_tmr_sel by fastforce

text \<open>C24. Stopping a running timer takes it off the wheel and marks it as stopped; with an invalid
  option this is done too, although the call reports that it failed.\<close>

theorem OSTmrStop_running:
  assumes "sys s R P W" "tmr_inv s V" "tmrs s x = Some t" "TMR_State t = OS_TMR_STATE_RUNNING" "x \<noteq> NULL"
    and "OSIntNestingCtr s = 0" "OSRunning s = OS_STATE_OS_RUNNING" "OSSchedLockNestingCtr s < 250" "opt \<notin> {OS_OPT_TMR_CALLBACK, OS_OPT_TMR_CALLBACK_ARG}"
  shows "\<exists>s' V'. OSTmrStop callback x opt arg s = Some (opt = OS_OPT_TMR_NONE, if opt = OS_OPT_TMR_NONE then OS_ERR_NONE else OS_ERR_OPT_INVALID, s') \<and>
    sys s' R P W \<and> tmr_inv s' V' \<and> tmr_view s' = (tmr_view s)(x \<mapsto> tmr_core (t\<lparr>TMR_State := OS_TMR_STATE_STOPPED\<rparr>))"
proof -
  let ?s1 = "snd (OSSchedLock s)"
  note L = tmr_locked [OF assms(1,6-8)]
  note c1 = tmr_inv_cong [OF L(1-3)]
  have I: "tmr_inv ?s1 V" and t: "tmrs ?s1 x = Some t" using c1 L(1) assms(2,3) by simp_all
  have snd: "tmr_sound (OSTmrTickCtr s) (tmr_core t)" using assms(2,3) by (auto simp: tmr_inv_def tmr_view_def)
  then have ty: "TMR_Type t = OS_OBJ_TYPE_TMR" using assms(4) by (simp add: tmr_sound_def)
  have "tmr_rel ?s1 V" using I by (simp add: tmr_inv_def)
  from OS_TmrUnlink_ok [OF this t assms(4) refl] obtain h w V' where 1: "OS_TmrUnlink x ?s1 = Some (with_tmrs h w ?s1)" "tmr_rel (with_tmrs h w ?s1) V'"
    "tmr_view (with_tmrs h w ?s1) = (tmr_view s)(x \<mapsto> tmr_core (t\<lparr>TMR_State := OS_TMR_STATE_STOPPED\<rparr>))" using c1(2) by metis
  from L(4) [of h w] obtain e s' where s': "OSSchedUnlock (with_tmrs h w ?s1) = Some (e, s')" "sys s' R P W" "tmrs s' = h" "OSCfg_TmrWheel s' = w"
    "OSTmrTickCtr s' = OSTmrTickCtr s" by blast
  have c2: "tmr_rel s' V' = tmr_rel (with_tmrs h w ?s1) V'" "tmr_view s' = tmr_view (with_tmrs h w ?s1)"
    by (rule tmr_rel_cong; use s' L(3) in simp)+
  have "tmr_sound (OSTmrTickCtr s) (tmr_core (t\<lparr>TMR_State := OS_TMR_STATE_STOPPED\<rparr>))" using snd by (simp add: tmr_sound_def split: if_splits)
  then have "tmr_inv s' V'" using c2 1(2,3) s'(5) assms(2) by (auto simp: tmr_inv_def split: if_splits)
  moreover have "OSTmrStop callback x opt arg s = Some (opt = OS_OPT_TMR_NONE, if opt = OS_OPT_TMR_NONE then OS_ERR_NONE else OS_ERR_OPT_INVALID, s')"
    using assms(3-6,9) ty 1(1) s'(1) by (simp add: OSTmrStop_def tmr_unlock_def Let_def)
  ultimately show ?thesis using s'(2) c2(2) 1(3) by metis
qed

lemma demo_run_sys: "sys demo_run demo_R demo_P demo_W"
proof -
  have "kinv demo_run demo_R demo_P demo_W = kinv demo_tmr demo_R demo_P demo_W" by (rule kinv_cong) (simp_all add: demo_run_def)
  moreover have "cur_rdy demo_run = cur_rdy demo_tmr" by (simp add: demo_run_def cur_rdy_def)
  ultimately show ?thesis using demo_tmr_sys by (simp add: sys_def)
qed

theorem OSTmrStop_running_witness:
  "\<exists>s' t'. OSTmrStop (\<lambda>_ _ _ s. Some s) 30 9 0 demo_run = Some (False, OS_ERR_OPT_INVALID, s') \<and> tmr_view s' 30 = Some t' \<and> TMR_State t' = OS_TMR_STATE_STOPPED"
proof -
  let ?t = "tmr30\<lparr>TMR_State := OS_TMR_STATE_RUNNING, TMR_Match := 3\<rparr>"
  have "tmrs demo_run 30 = Some ?t" "OSIntNestingCtr demo_run = 0" "OSRunning demo_run = OS_STATE_OS_RUNNING" "OSSchedLockNestingCtr demo_run < 250"
    by (simp_all add: demo_run_def demo_tmr_def)
  from OSTmrStop_running [OF demo_run_sys demo_run_inv this(1) _ _ this(2-4), where opt = 9] show ?thesis by fastforce
qed

end
