(* ===== verification/OS_PendMulti.thy ===== *)
theory OS_PendMulti
  imports OS_Sem OS_Q
begin

text \<open>
  \<^verbatim>\<open>src/ucosTest/Source/os_pend_multi.c\<close>: pending on several semaphores and queues at once.  The caller
  gives a table of pend data, one entry per object; the entries of a table are at consecutive
  addresses.  As for the other pending calls there is a definition for the part up to the context switch
  and one for the part after it.
\<close>

primrec pend_multi_valid_loop :: "nat \<Rightarrow> ptr \<Rightarrow> os \<Rightarrow> bool option" where
  "pend_multi_valid_loop 0 p s = Some True"
| "pend_multi_valid_loop (Suc n) p s = do {
     d \<leftarrow> pds s p;
     if PD_PendObjPtr d = NULL then Some False
     else do {
       ob \<leftarrow> objs s (PD_PendObjPtr d);
       let ctr = (if OBJ_Type ob = OS_OBJ_TYPE_SEM then 1 else 0) + (if OBJ_Type ob = OS_OBJ_TYPE_Q then 1 else (0 :: OS_OBJ_QTY));
       if ctr = 0 then Some False else pend_multi_valid_loop n (p + 1) s
     }
   }"

definition OS_PendMultiValidate :: "ptr \<Rightarrow> OS_OBJ_QTY \<Rightarrow> os \<Rightarrow> bool option" where
  "OS_PendMultiValidate p_pend_data_tbl tbl_size s = pend_multi_valid_loop (unat tbl_size) p_pend_data_tbl s"

text \<open>One iteration of the loop of \<^verbatim>\<open>OS_PendMultiGetRdy\<close>; the result says whether the object was ready.\<close>

definition pend_multi_take :: "ptr \<Rightarrow> os \<Rightarrow> (bool \<times> os) option" where
  "pend_multi_take p s = do {
     s \<leftarrow> pd_mod p (\<lambda>d. d\<lparr>PD_RdyObjPtr := NULL, PD_RdyMsgPtr := NULL, PD_RdyMsgSize := 0, PD_RdyTS := 0,
            PD_NextPtr := NULL, PD_PrevPtr := NULL, PD_TCBPtr := NULL\<rparr>) s;
     d \<leftarrow> pds s p;
     let p_obj = PD_PendObjPtr d;
     ob \<leftarrow> objs s p_obj;
     (q_rdy, s) \<leftarrow> (if OBJ_Type ob = OS_OBJ_TYPE_Q then do {
         q \<leftarrow> qs s p_obj;
         (p_void, msg_size, ts, err, q, s) \<leftarrow> OS_MsgQGet q s;
         let s = q_set p_obj q s;
         if err = OS_ERR_NONE then do {
           s \<leftarrow> pd_mod p (\<lambda>d. d\<lparr>PD_RdyObjPtr := p_obj, PD_RdyMsgPtr := p_void, PD_RdyMsgSize := msg_size, PD_RdyTS := ts\<rparr>) s;
           Some (True, s)
         } else Some (False, s)
       } else Some (False, s));
     (sem_rdy, s) \<leftarrow> (if OBJ_Type ob = OS_OBJ_TYPE_SEM then do {
         sem \<leftarrow> sems s p_obj;
         if SEM_Ctr sem > 0 then do {
           s \<leftarrow> sem_mod p_obj (\<lambda>m. m\<lparr>SEM_Ctr := SEM_Ctr m - 1\<rparr>) s;
           s \<leftarrow> pd_mod p (\<lambda>d. d\<lparr>PD_RdyObjPtr := p_obj, PD_RdyTS := SEM_TS sem\<rparr>) s;
           Some (True, s)
         } else Some (False, s)
       } else Some (False, s));
     Some (q_rdy \<or> sem_rdy, s)
   }"

primrec pend_multi_rdy_loop :: "nat \<Rightarrow> ptr \<Rightarrow> OS_OBJ_QTY \<Rightarrow> os \<Rightarrow> (OS_OBJ_QTY \<times> os) option" where
  "pend_multi_rdy_loop 0 p nbr_obj_rdy s = Some (nbr_obj_rdy, s)"
| "pend_multi_rdy_loop (Suc n) p nbr_obj_rdy s = do {
     (rdy, s) \<leftarrow> pend_multi_take p s;
     pend_multi_rdy_loop n (p + 1) (if rdy then nbr_obj_rdy + 1 else nbr_obj_rdy) s
   }"

definition OS_PendMultiGetRdy :: "ptr \<Rightarrow> OS_OBJ_QTY \<Rightarrow> os \<Rightarrow> (OS_OBJ_QTY \<times> os) option" where
  "OS_PendMultiGetRdy p_pend_data_tbl tbl_size s = pend_multi_rdy_loop (unat tbl_size) p_pend_data_tbl 0 s"

primrec pend_multi_wait_loop :: "nat \<Rightarrow> ptr \<Rightarrow> os \<Rightarrow> os option" where
  "pend_multi_wait_loop 0 p s = Some s"
| "pend_multi_wait_loop (Suc n) p s = do {
     s \<leftarrow> pd_mod p (\<lambda>d. d\<lparr>PD_TCBPtr := OSTCBCurPtr s\<rparr>) s;
     d \<leftarrow> pds s p;
     ob \<leftarrow> objs s (PD_PendObjPtr d);
     s \<leftarrow> (if OBJ_Type ob = OS_OBJ_TYPE_SEM then OS_PendListInsertPrio (PD_PendObjPtr d) p s else Some s);
     s \<leftarrow> (if OBJ_Type ob = OS_OBJ_TYPE_Q then OS_PendListInsertPrio (PD_PendObjPtr d) p s else Some s);
     pend_multi_wait_loop n (p + 1) s
   }"

definition OS_PendMultiWait :: "ptr \<Rightarrow> OS_OBJ_QTY \<Rightarrow> OS_TICK \<Rightarrow> os \<Rightarrow> os option" where
  "OS_PendMultiWait p_pend_data_tbl tbl_size timeout s = do {
     s \<leftarrow> tcb_mod (OSTCBCurPtr s) (\<lambda>t. t\<lparr>TCB_PendOn := OS_TASK_PEND_ON_MULTI, TCB_PendStatus := OS_STATUS_PEND_OK,
            TCB_PendDataTblEntries := tbl_size, TCB_PendDataTblPtr := p_pend_data_tbl\<rparr>) s;
     s \<leftarrow> OS_TaskBlock (OSTCBCurPtr s) timeout s;
     pend_multi_wait_loop (unat tbl_size) p_pend_data_tbl s
   }"

definition OSPendMulti :: "ptr \<Rightarrow> OS_OBJ_QTY \<Rightarrow> OS_TICK \<Rightarrow> OS_OPT \<Rightarrow> os \<Rightarrow> ((OS_OBJ_QTY \<times> OS_ERR) call \<times> os) option" where
  "OSPendMulti p_pend_data_tbl tbl_size timeout opt s =
     (if OSIntNestingCtr s > 0 then Some (Done (0, OS_ERR_PEND_ISR), s)
      else if p_pend_data_tbl = NULL then Some (Done (0, OS_ERR_PTR_INVALID), s)
      else if tbl_size = 0 then Some (Done (0, OS_ERR_PTR_INVALID), s)
      else if opt \<notin> {OS_OPT_PEND_BLOCKING, OS_OPT_PEND_NON_BLOCKING} then Some (Done (0, OS_ERR_OPT_INVALID), s)
      else do {
        valid \<leftarrow> OS_PendMultiValidate p_pend_data_tbl tbl_size s;
        if \<not> valid then Some (Done (0, OS_ERR_OBJ_TYPE), s)
        else do {
          (nbr_obj_rdy, s) \<leftarrow> OS_PendMultiGetRdy p_pend_data_tbl tbl_size s;
          if nbr_obj_rdy > 0 then Some (Done (nbr_obj_rdy, OS_ERR_NONE), s)
          else if opt AND OS_OPT_PEND_NON_BLOCKING \<noteq> 0 then Some (Done (0, OS_ERR_PEND_WOULD_BLOCK), s)
          else if OSSchedLockNestingCtr s > 0 then Some (Done (0, OS_ERR_SCHED_LOCKED), s)
          else do {
            s \<leftarrow> OS_PendMultiWait p_pend_data_tbl tbl_size timeout s;
            s \<leftarrow> OSSched s;
            Some (Blocked, s)
          }
        }
      })"

definition OSPendMulti_resume :: "os \<Rightarrow> ((OS_OBJ_QTY \<times> OS_ERR) \<times> os) option" where
  "OSPendMulti_resume s = do {
     tcb \<leftarrow> tcbs s (OSTCBCurPtr s);
     s \<leftarrow> tcb_mod (OSTCBCurPtr s) (\<lambda>t. t\<lparr>TCB_PendStatus := OS_STATUS_PEND_OK\<rparr>) s;
     Some ((1, pend_err (TCB_PendStatus tcb)), s)
   }"

subsection \<open>Taking what is ready\<close>

definition pd_obj :: "os \<Rightarrow> ptr \<Rightarrow> ptr" where
  "pd_obj s d = fld PD_PendObjPtr (pds s) d"

text \<open>The table names semaphores and queues, and its entries are not in use.\<close>

definition multi_ok :: "os \<Rightarrow> (ptr \<Rightarrow> ptr list) \<Rightarrow> ptr \<Rightarrow> nat \<Rightarrow> bool" where
  "multi_ok s P p n \<longleftrightarrow> (\<forall>d \<in> {p..<p + n}. d \<noteq> NULL \<and> (\<forall>ob. d \<notin> set (P ob)) \<and> d \<in> dom (pds s) \<and>
     ((\<exists>m. sem_at s (pd_obj s d) m) \<or> (\<exists>q. q_at s (pd_obj s d) q)))"

definition multi_rdy :: "os \<Rightarrow> (ptr \<Rightarrow> ptr list) \<Rightarrow> ptr \<Rightarrow> bool" where
  "multi_rdy s X ob \<longleftrightarrow> (\<exists>m. sem_at s ob m \<and> SEM_Ctr m > 0) \<or> (\<exists>q. q_at s ob q \<and> X ob \<noteq> [])"

lemma multi_ok_Suc: "multi_ok s P p (Suc n) \<longleftrightarrow> multi_ok s P p 1 \<and> multi_ok s P (p + 1) n"
proof -
  have "{p..<p + Suc n} = insert p {p + 1..<p + 1 + n}" by auto
  then show ?thesis by (simp add: multi_ok_def)
qed

lemma multi_types: "OS_OBJ_TYPE_SEM \<noteq> OS_OBJ_TYPE_Q"
  by (simp add: OS_OBJ_TYPE_SEM_def OS_OBJ_TYPE_Q_def CPU_TYPE_CREATE_def)

lemma pend_multi_valid_loop_ok: "multi_ok s P p n \<Longrightarrow> pend_multi_valid_loop n p s = Some True"
proof (induction n arbitrary: p)
  case (Suc n)
  then have m: "multi_ok s P p 1" "multi_ok s P (p + 1) n" using multi_ok_Suc by blast+
  then obtain e b where "pds s p = Some e" "PD_PendObjPtr e \<noteq> NULL" "objs s (PD_PendObjPtr e) = Some b" "OBJ_Type b \<in> {OS_OBJ_TYPE_SEM, OS_OBJ_TYPE_Q}"
    by (auto simp: multi_ok_def pd_obj_def fld_def sem_at_def q_at_def)
  moreover note multi_types
  ultimately show ?case using Suc.IH [OF m(2)] by auto
qed simp

text \<open>What the calls before the wait may change.\<close>

definition multi_frame :: "os \<Rightarrow> os \<Rightarrow> bool" where
  "multi_frame s s' \<longleftrightarrow> s'\<lparr>pds := pds s, sems := sems s, qs := qs s, msgs := msgs s, OSMsgPool := OSMsgPool s\<rparr> = s \<and>
     dom (sems s') = dom (sems s) \<and> dom (qs s') = dom (qs s) \<and> (\<forall>d. map_option PD_PendObjPtr (pds s' d) = map_option PD_PendObjPtr (pds s d))"

lemma multi_frame_refl [simp]: "multi_frame s s"
  by (simp add: multi_frame_def)

lemma multi_frame_trans: "multi_frame s s' \<Longrightarrow> multi_frame s' s'' \<Longrightarrow> multi_frame s s''"
proof -
  assume a: "multi_frame s s'" "multi_frame s' s''"
  have 1: "s'\<lparr>pds := pds s, sems := sems s, qs := qs s, msgs := msgs s, OSMsgPool := OSMsgPool s\<rparr> = s"
    and 2: "s''\<lparr>pds := pds s', sems := sems s', qs := qs s', msgs := msgs s', OSMsgPool := OSMsgPool s'\<rparr> = s'" using a by (simp_all add: multi_frame_def)
  have "s''\<lparr>pds := pds s, sems := sems s, qs := qs s, msgs := msgs s, OSMsgPool := OSMsgPool s\<rparr> =
    (s''\<lparr>pds := pds s', sems := sems s', qs := qs s', msgs := msgs s', OSMsgPool := OSMsgPool s'\<rparr>)
      \<lparr>pds := pds s, sems := sems s, qs := qs s, msgs := msgs s, OSMsgPool := OSMsgPool s\<rparr>" by simp
  also have "\<dots> = s" unfolding 2 by (rule 1)
  finally show ?thesis using a by (simp add: multi_frame_def)
qed

lemma multi_frameD:
  assumes "multi_frame s s'"
  shows "objs s' = objs s" "tcbs s' = tcbs s" "OSSchedLockNestingCtr s' = OSSchedLockNestingCtr s" "OSIntNestingCtr s' = OSIntNestingCtr s"
    "OSTCBCurPtr s' = OSTCBCurPtr s" "pd_obj s' d = pd_obj s d" "d \<in> dom (pds s') \<longleftrightarrow> d \<in> dom (pds s)"
    "(\<exists>m. sem_at s' ob m) \<longleftrightarrow> (\<exists>m. sem_at s ob m)" "(\<exists>q. q_at s' ob q) \<longleftrightarrow> (\<exists>q. q_at s ob q)"
proof -
  have e: "s'\<lparr>pds := pds s, sems := sems s, qs := qs s, msgs := msgs s, OSMsgPool := OSMsgPool s\<rparr> = s" using assms by (simp add: multi_frame_def)
  show o: "objs s' = objs s" "tcbs s' = tcbs s" "OSSchedLockNestingCtr s' = OSSchedLockNestingCtr s" "OSIntNestingCtr s' = OSIntNestingCtr s"
    "OSTCBCurPtr s' = OSTCBCurPtr s"
    using arg_cong [OF e, of objs] arg_cong [OF e, of tcbs] arg_cong [OF e, of OSSchedLockNestingCtr] arg_cong [OF e, of OSIntNestingCtr]
      arg_cong [OF e, of OSTCBCurPtr] by simp_all
  have d: "map_option PD_PendObjPtr (pds s' d) = map_option PD_PendObjPtr (pds s d)" and m: "dom (sems s') = dom (sems s)" "dom (qs s') = dom (qs s)"
    using assms by (simp_all add: multi_frame_def)
  show "pd_obj s' d = pd_obj s d" "d \<in> dom (pds s') \<longleftrightarrow> d \<in> dom (pds s)"
    using d by (cases "pds s d"; cases "pds s' d"; simp add: pd_obj_def fld_def domIff)+
  have "(\<exists>m. sems s' ob = Some m) \<longleftrightarrow> (\<exists>m. sems s ob = Some m)" "(\<exists>m. qs s' ob = Some m) \<longleftrightarrow> (\<exists>m. qs s ob = Some m)"
    using m by (metis domD domI)+
  then show "(\<exists>m. sem_at s' ob m) \<longleftrightarrow> (\<exists>m. sem_at s ob m)" "(\<exists>q. q_at s' ob q) \<longleftrightarrow> (\<exists>q. q_at s ob q)"
    unfolding sem_at_def q_at_def o(1) by blast+
qed

lemma multi_ok_frame: "multi_frame s s' \<Longrightarrow> multi_ok s' P p n = multi_ok s P p n"
  by (simp add: multi_ok_def multi_frameD)

lemma kinv_pd_free:
  assumes K: "kinv s R P W" and d: "pds s d = Some e0" "\<And>ob. d \<notin> set (P ob)"
  shows "kinv (s\<lparr>pds := (pds s)(d \<mapsto> e)\<rparr>) R P W"
proof -
  let ?s = "s\<lparr>pds := (pds s)(d \<mapsto> e)\<rparr>"
  note k = kinvD [OF K]
  have "pend_rel ?s P" by (rule pend_rel_pd_other [OF k(3) d(2,1)])
  moreover have "rdy_rel ?s R = rdy_rel s R" by (rule rdy_rel_cong) simp_all
  moreover have "tick_rel ?s W = tick_rel s W" by (rule tick_rel_cong) simp_all
  ultimately have "krel ?s R P W" using k(2,4) by (simp add: krel_def)
  moreover have "task_ok ?s R P x t" if "tcbs s x = Some t" for x t
  proof -
    have "pend_tbl_ok ?s P x t" if "pend_tbl_ok s P x t"
      unfolding pend_tbl_ok_def
    proof
      fix d' assume "d' \<in> pend_tbl t"
      then obtain e' where e': "pds s d' = Some e'" "PD_TCBPtr e' = x" "d' \<in> set (P (PD_PendObjPtr e'))" using \<open>pend_tbl_ok s P x t\<close> by (auto simp: pend_tbl_ok_def)
      then have "d' \<noteq> d" using d(2) by metis
      with e' show "\<exists>e. pds ?s d' = Some e \<and> PD_TCBPtr e = x \<and> d' \<in> set (P (PD_PendObjPtr e))" by simp
    qed
    then show ?thesis using k(7) [OF that] by (simp add: task_ok_def split: if_splits)
  qed
  moreover have "pend_owned ?s P" unfolding pend_owned_def
  proof (intro allI ballI)
    fix ob d' assume d': "d' \<in> set (P ob)"
    then have "d' \<noteq> d" using d(2) by metis
    then show "\<exists>e t. pds ?s d' = Some e \<and> tcbs ?s (PD_TCBPtr e) = Some t \<and> d' \<in> pend_tbl t" using k(5) d' by (simp add: pend_owned_def)
  qed
  moreover have "mem_bound ?s" using k(6) d(1) by (simp add: mem_bound_def insert_absorb domI)
  ultimately show ?thesis by (simp add: kinv_def)
qed

lemma sys_pd_free:
  assumes "sys s R P W" "pds s d = Some e0" "\<And>ob. d \<notin> set (P ob)"
  shows "sys (s\<lparr>pds := (pds s)(d \<mapsto> e)\<rparr>) R P W"
  using assms kinv_pd_free by (simp add: sys_def cur_rdy_def)

definition multi_clear :: "OS_PEND_DATA \<Rightarrow> OS_PEND_DATA" where
  "multi_clear d = d\<lparr>PD_RdyObjPtr := NULL, PD_RdyMsgPtr := NULL, PD_RdyMsgSize := 0, PD_RdyTS := 0, PD_NextPtr := NULL, PD_PrevPtr := NULL, PD_TCBPtr := NULL\<rparr>"

text \<open>The effect of one iteration on the entry \<open>d\<close>, by the kind of its object \<open>ob\<close> and whether that is ready.\<close>

lemma multi_take_sem:
  assumes S: "sys s R P W" and I: "q_inv s B F X" and d: "pds s d = Some e" "PD_PendObjPtr e = ob" "\<And>ob. d \<notin> set (P ob)" and m: "sem_at s ob m"
    and e': "e' = (if SEM_Ctr m > 0 then (multi_clear e)\<lparr>PD_RdyObjPtr := ob, PD_RdyTS := SEM_TS m\<rparr> else multi_clear e)"
    and s': "s' = s\<lparr>pds := (pds s)(d \<mapsto> e'), sems := (if SEM_Ctr m > 0 then (sems s)(ob \<mapsto> m\<lparr>SEM_Ctr := SEM_Ctr m - 1\<rparr>) else sems s)\<rparr>"
  shows "pend_multi_take d s = Some (SEM_Ctr m > 0, s')" "sys s' R P W" "q_inv s' B F X" "multi_frame s s'"
proof -
  from m obtain b where b: "ob \<noteq> NULL" "sems s ob = Some m" "objs s ob = Some b" "OBJ_Type b = OS_OBJ_TYPE_SEM" by (auto simp: sem_at_def)
  show "pend_multi_take d s = Some (SEM_Ctr m > 0, s')"
    using b d multi_types by (simp add: pend_multi_take_def Let_def multi_clear_def e' s')
  have "sys (s\<lparr>pds := (pds s)(d \<mapsto> e')\<rparr>) R P W" by (rule sys_pd_free [OF S d(1,3)])
  then show "sys s' R P W" by (simp add: s')
  show "q_inv s' B F X" using I q_inv_cong [of s' s B F X] by (simp add: s')
  show "multi_frame s s'" using d b(2) by (auto simp: multi_frame_def s' e' multi_clear_def)
qed

lemma multi_take_q_empty:
  assumes S: "sys s R P W" and I: "q_inv s B F X" and d: "pds s d = Some e" "PD_PendObjPtr e = ob" "\<And>ob. d \<notin> set (P ob)" and q: "q_at s ob q" "X ob = []"
    and s': "s' = s\<lparr>pds := (pds s)(d \<mapsto> multi_clear e)\<rparr>"
  shows "pend_multi_take d s = Some (False, s')" "sys s' R P W" "q_inv s' B F X" "multi_frame s s'"
proof -
  show I': "q_inv s' B F X" using I q_inv_cong [of s' s B F X] by (simp add: s')
  have q': "q_at s' ob q" using q(1) by (simp add: q_at_def s')
  from q obtain b where b: "ob \<noteq> NULL" "qs s ob = Some q" "objs s ob = Some b" "OBJ_Type b = OS_OBJ_TYPE_Q" by (auto simp: q_at_def)
  show "pend_multi_take d s = Some (False, s')"
    using b d multi_types OSQPend_empty [OF q' I' q(2)] unfolding s' by (simp add: pend_multi_take_def Let_def multi_clear_def)
  show "sys s' R P W" unfolding s' by (rule sys_pd_free [OF S d(1,3)])
  show "multi_frame s s'" using d by (auto simp: multi_frame_def s' multi_clear_def)
qed

lemma multi_take_q:
  assumes S: "sys s R P W" and I: "q_inv s B F X" and d: "pds s d = Some e" "PD_PendObjPtr e = ob" "\<And>ob. d \<notin> set (P ob)" and q: "q_at s ob q" "X ob = x # xs"
  shows "\<exists>s' e'. pend_multi_take d s = Some (True, s') \<and> sys s' R P W \<and> q_inv s' B (x # F) (X(ob := xs)) \<and> multi_frame s s' \<and> sems s' = sems s \<and>
    pds s' = (pds s)(d \<mapsto> e') \<and> PD_RdyObjPtr e' = ob \<and> (PD_RdyMsgPtr e', PD_RdyMsgSize e', PD_RdyTS e') = msg_val s x"
proof -
  let ?s0 = "s\<lparr>pds := (pds s)(d \<mapsto> multi_clear e)\<rparr>"
  from q obtain b where b: "ob \<noteq> NULL" "qs s ob = Some q" "objs s ob = Some b" "OBJ_Type b = OS_OBJ_TYPE_Q" by (auto simp: q_at_def)
  have I0: "q_inv ?s0 B F X" using I q_inv_cong [of ?s0 s B F X] by simp
  have S0: "sys ?s0 R P W" by (rule sys_pd_free [OF S d(1,3)])
  have "qs ?s0 ob = Some q" using b(2) by simp
  note rel = q_inv_rel [OF I0 this, unfolded q(2)]
  obtain v z ts where v: "msg_val s x = (v, z, ts)" by (metis prod.exhaust)
  have v0: "msg_val ?s0 x = msg_val s x" by (simp add: msg_val_def)
  from OS_MsgQGet_ok [OF rel] v v0 obtain q1 s1 where s1: "OS_MsgQGet q ?s0 = Some (v, z, ts, OS_ERR_NONE, q1, s1)" "mq_rel s1 (card B) (x # F) q1 xs"
    "msg_frame {x} ?s0 s1" by auto
  let ?e = "(multi_clear e)\<lparr>PD_RdyObjPtr := ob, PD_RdyMsgPtr := v, PD_RdyMsgSize := z, PD_RdyTS := ts\<rparr>"
  let ?s2 = "q_set ob q1 s1" let ?s3 = "?s2\<lparr>pds := (pds s)(d \<mapsto> ?e)\<rparr>"
  have f: "s1\<lparr>msgs := msgs ?s0, OSMsgPool := OSMsgPool ?s0\<rparr> = ?s0" using s1(3) by (simp add: msg_frame_def)
  have p1: "pds s1 = (pds s)(d \<mapsto> multi_clear e)" "sems s1 = sems s" "qs s1 = qs s" using arg_cong [OF f, of pds] arg_cong [OF f, of sems] arg_cong [OF f, of qs] by simp_all
  have S2: "sys ?s2 R P W" by (rule sys_msg_frame [OF s1(3) S0])
  have p2: "pds ?s2 d = Some (multi_clear e)" using p1 by (simp add: q_set_def)
  have "sys (?s2\<lparr>pds := (pds ?s2)(d \<mapsto> ?e)\<rparr>) R P W" by (rule sys_pd_free [OF S2 p2 d(3)])
  then have S3: "sys ?s3 R P W" using p1 by (simp add: q_set_def)
  have "q_inv ?s2 B (x # F) (X(ob := xs))" by (rule q_inv_step [OF I0 _ s1(3) _ s1(2)]) (use b q in auto)
  then have I3: "q_inv ?s3 B (x # F) (X(ob := xs))" using q_inv_cong [of ?s3 ?s2] by simp
  have "pend_multi_take d s = Some (True, ?s3)"
    using b d multi_types s1(1) p1 by (simp add: pend_multi_take_def Let_def multi_clear_def q_set_def)
  moreover have "multi_frame s ?s3"
  proof -
    have "?s3\<lparr>pds := pds s, sems := sems s, qs := qs s, msgs := msgs s, OSMsgPool := OSMsgPool s\<rparr> =
      (s1\<lparr>msgs := msgs ?s0, OSMsgPool := OSMsgPool ?s0\<rparr>)\<lparr>pds := pds s, sems := sems s, qs := qs s\<rparr>" by (simp add: q_set_def)
    also have "\<dots> = s" unfolding f by simp
    finally show ?thesis using d p1 b(2) by (auto simp: multi_frame_def multi_clear_def q_set_def)
  qed
  moreover have "sems ?s3 = sems s" using p1 by (simp add: q_set_def)
  ultimately show ?thesis using S3 I3 v by (intro exI [of _ ?s3] exI [of _ ?e]) simp
qed

lemma multi_take_ok:
  assumes S: "sys s R P W" and I: "q_inv s B F X" and m: "multi_ok s P d 1"
  shows "\<exists>s' F' X'. pend_multi_take d s = Some (multi_rdy s X (pd_obj s d), s') \<and> sys s' R P W \<and> q_inv s' B F' X' \<and> multi_frame s s' \<and>
    (\<not> multi_rdy s X (pd_obj s d) \<longrightarrow> sems s' = sems s \<and> qs s' = qs s \<and> msgs s' = msgs s \<and> OSMsgPool s' = OSMsgPool s \<and> F' = F \<and> X' = X)"
proof -
  from m obtain e where e: "pds s d = Some e" and nP: "\<And>ob. d \<notin> set (P ob)" by (auto simp: multi_ok_def)
  then have ob: "PD_PendObjPtr e = pd_obj s d" by (simp add: pd_obj_def fld_def)
  from m consider (sem) sm where "sem_at s (pd_obj s d) sm" | (empty) q where "q_at s (pd_obj s d) q" "X (pd_obj s d) = []"
    | (get) q x xs where "q_at s (pd_obj s d) q" "X (pd_obj s d) = x # xs" by (auto simp: multi_ok_def) (metis list.exhaust)
  then show ?thesis
  proof cases
    case sem
    then have "multi_rdy s X (pd_obj s d) \<longleftrightarrow> SEM_Ctr sm > 0" using multi_types by (auto simp: multi_rdy_def sem_at_def q_at_def)
    with multi_take_sem [OF S I e ob nP sem refl refl] show ?thesis by fastforce
  next
    case empty
    then have "\<not> multi_rdy s X (pd_obj s d)" using multi_types by (auto simp: multi_rdy_def sem_at_def q_at_def)
    with multi_take_q_empty [OF S I e ob nP empty refl] show ?thesis by fastforce
  next
    case get
    then have "multi_rdy s X (pd_obj s d)" by (auto simp: multi_rdy_def)
    with multi_take_q [OF S I e ob nP get] show ?thesis by fastforce
  qed
qed

lemma pend_multi_rdy_loop_ok:
  assumes "sys s R P W" "q_inv s B F X" "multi_ok s P p n"
  shows "\<exists>k s' F' X'. pend_multi_rdy_loop n p k0 s = Some (k0 + of_nat k, s') \<and> k \<le> n \<and> sys s' R P W \<and> q_inv s' B F' X' \<and> multi_frame s s' \<and>
    (k = 0 \<longleftrightarrow> (\<forall>d \<in> {p..<p + n}. \<not> multi_rdy s X (pd_obj s d))) \<and>
    (k = 0 \<longrightarrow> sems s' = sems s \<and> qs s' = qs s \<and> msgs s' = msgs s \<and> OSMsgPool s' = OSMsgPool s \<and> F' = F \<and> X' = X)"
  using assms
proof (induction n arbitrary: p k0 s F X)
  case 0
  then show ?case by (intro exI [of _ 0] exI [of _ s] exI [of _ F] exI [of _ X]) simp
next
  case (Suc n)
  have m: "multi_ok s P p 1" "multi_ok s P (p + 1) n" using Suc.prems(3) multi_ok_Suc by blast+
  let ?r = "multi_rdy s X (pd_obj s p)"
  from multi_take_ok [OF Suc.prems(1,2) m(1)] obtain s1 F1 X1 where 1: "pend_multi_take p s = Some (?r, s1)" "sys s1 R P W" "q_inv s1 B F1 X1" "multi_frame s s1"
    "\<not> ?r \<longrightarrow> sems s1 = sems s \<and> qs s1 = qs s \<and> msgs s1 = msgs s \<and> OSMsgPool s1 = OSMsgPool s \<and> F1 = F \<and> X1 = X" by blast
  have "multi_ok s1 P (p + 1) n" using m(2) multi_ok_frame [OF 1(4)] by simp
  from Suc.IH [OF 1(2,3) this, of "if ?r then k0 + 1 else k0"]
  obtain k s' F' X' where 2: "pend_multi_rdy_loop n (p + 1) (if ?r then k0 + 1 else k0) s1 = Some ((if ?r then k0 + 1 else k0) + of_nat k, s')" "k \<le> n" "sys s' R P W"
    "q_inv s' B F' X'" "multi_frame s1 s'" "k = 0 \<longleftrightarrow> (\<forall>d \<in> {p + 1..<p + 1 + n}. \<not> multi_rdy s1 X1 (pd_obj s1 d))"
    "k = 0 \<longrightarrow> sems s' = sems s1 \<and> qs s' = qs s1 \<and> msgs s' = msgs s1 \<and> OSMsgPool s' = OSMsgPool s1 \<and> F' = F1 \<and> X' = X1" by blast
  have ivl: "{p..<p + Suc n} = insert p {p + 1..<p + 1 + n}" by auto
  have f: "multi_frame s s'" by (rule multi_frame_trans [OF 1(4) 2(5)])
  show ?case
  proof (cases ?r)
    case True
    then show ?thesis using 1(1) 2 f ivl
      by (intro exI [of _ "Suc k"] exI [of _ s'] exI [of _ F'] exI [of _ X']) (simp add: add.assoc)
  next
    case False
    with 1(5) have e: "sems s1 = sems s" "qs s1 = qs s" "msgs s1 = msgs s" "OSMsgPool s1 = OSMsgPool s" "F1 = F" "X1 = X" by blast+
    have "multi_rdy s1 X1 (pd_obj s1 d) = multi_rdy s X (pd_obj s d)" for d
      using multi_frameD(1,6) [OF 1(4)] e by (simp add: multi_rdy_def sem_at_def q_at_def)
    then have "k = 0 \<longleftrightarrow> (\<forall>d \<in> {p..<p + Suc n}. \<not> multi_rdy s X (pd_obj s d))" using 2(6) False unfolding ivl by simp
    then show ?thesis using 1(1) 2(1-4,7) f False e by (intro exI [of _ k] exI [of _ s'] exI [of _ F'] exI [of _ X']) simp
  qed
qed

subsection \<open>Waiting\<close>

lemma pend_multi_wait_step:
  assumes K: "krel s R P W" and x: "tcbs s (OSTCBCurPtr s) = Some t" and d: "pds s d = Some e" "d \<noteq> NULL" "\<And>ob. d \<notin> set (P ob)"
    and ob: "objs s (PD_PendObjPtr e) = Some b" "OBJ_Type b \<in> {OS_OBJ_TYPE_SEM, OS_OBJ_TYPE_Q}" and fin: "finite (dom (pds s))" "card (dom (pds s)) \<le> 65535"
  shows "\<exists>s' e'. pend_multi_wait_loop (Suc n) d s = pend_multi_wait_loop n (d + 1) s' \<and> krel s' R (P(PD_PendObjPtr e := prio_insert (pd_prio s') d (P (PD_PendObjPtr e)))) W \<and>
    kframe {} {d} s s' \<and> tcbs s' = tcbs s \<and> pds s' d = Some e' \<and> PD_TCBPtr e' = OSTCBCurPtr s \<and> PD_PendObjPtr e' = PD_PendObjPtr e"
proof -
  let ?ob = "PD_PendObjPtr e" let ?e = "e\<lparr>PD_TCBPtr := OSTCBCurPtr s\<rparr>" let ?s = "s\<lparr>pds := (pds s)(d \<mapsto> ?e)\<rparr>"
  from K have rel: "rdy_rel s R" "pend_rel s P" "tick_rel s W" by (simp_all add: krel_def)
  have pr: "pend_rel ?s P" by (rule pend_rel_pd_other [OF rel(2) d(3,1)])
  have "rdy_rel ?s R = rdy_rel s R" by (rule rdy_rel_cong) simp_all
  moreover have "tick_rel ?s W = tick_rel s W" by (rule tick_rel_cong) simp_all
  ultimately have rel': "rdy_rel ?s R" "tick_rel ?s W" using rel by simp_all
  have len: "length (P ?ob) < 65535" by (rule distinct_subset_length [OF pend_rel_list(1,2) [OF rel(2)], of d]) (use d fin in auto)
  from OS_PendListInsertPrio_ok [OF pr _ len, of b d ?e] ob d x
  obtain s3 where 3: "OS_PendListInsertPrio ?ob d ?s = Some s3" "pend_rel s3 (P(?ob := prio_insert (pd_prio ?s) d (P ?ob)))" "pend_frame ?s s3" by auto
  have "pend_multi_wait_loop (Suc n) d s = pend_multi_wait_loop n (d + 1) s3" using d ob 3(1) multi_types by auto
  moreover have "krel s3 R (P(?ob := prio_insert (pd_prio s3) d (P ?ob))) W"
    using 3(2) rel' pend_frame_others [OF 3(3)] pend_frame_prio [OF 3(3)] by (simp add: krel_def)
  moreover have "kframe {} {d} s ?s" using d(1) by (auto simp: kframe_def os_less_k_def)
  then have "kframe {} {d} s s3" using kframe_trans pend_frame_kframe [OF 3(3)] by blast
  moreover obtain e3 where "pds s3 d = Some e3" "pd_core e3 = pd_core ?e" by (rule pend_frame_pd [OF 3(3), of d ?e]) simp_all
  moreover have "PD_TCBPtr e3 = OSTCBCurPtr s" "PD_PendObjPtr e3 = ?ob" using pd_core_eqD [OF calculation(5)] by simp_all
  moreover have "tcbs s3 = tcbs s" using pend_frame_tcbs [OF 3(3)] by simp
  ultimately show ?thesis by blast
qed

definition multi_tbl :: "os \<Rightarrow> (ptr \<Rightarrow> ptr list) \<Rightarrow> ptr set \<Rightarrow> bool" where
  "multi_tbl s P D \<longleftrightarrow> (\<forall>d \<in> D. d \<noteq> NULL \<and> (\<forall>ob. d \<notin> set (P ob)) \<and>
     (\<exists>e b. pds s d = Some e \<and> objs s (PD_PendObjPtr e) = Some b \<and> OBJ_Type b \<in> {OS_OBJ_TYPE_SEM, OS_OBJ_TYPE_Q}))"

lemma multi_ok_tbl: "multi_ok s P p n \<Longrightarrow> multi_tbl s P {p..<p + n}"
  by (fastforce simp: multi_ok_def multi_tbl_def pd_obj_def fld_def sem_at_def q_at_def)

lemma multi_tbl_kframe:
  assumes T: "multi_tbl s P D" and F: "kframe Y D' s s'" and D: "D \<inter> D' = {}" and P': "\<And>d ob. d \<in> D \<Longrightarrow> d \<notin> set (P ob) \<Longrightarrow> d \<notin> set (P' ob)"
  shows "multi_tbl s' P' D" "\<And>d. d \<in> D \<Longrightarrow> pd_obj s' d = pd_obj s d"
proof -
  have pd: "map_option PD_PendObjPtr (pds s' d) = map_option PD_PendObjPtr (pds s d)" if "d \<in> D" for d
  proof -
    have "d \<notin> D'" using that D by auto
    then have "map_option pd_core (pds s' d) = map_option pd_core (pds s d)" using F by (simp add: kframe_def)
    then show ?thesis by (rule map_option_eq_via) (rule pd_core_eqD(2))
  qed
  have ty: "map_option OBJ_Type (objs s' ob) = map_option OBJ_Type (objs s ob)" for ob
  proof -
    have "map_option obj_other (objs s' ob) = map_option obj_other (objs s ob)" using F by (simp add: kframe_def)
    moreover have "OBJ_Type b' = OBJ_Type b" if "obj_other b' = obj_other b" for b b'
      using arg_cong [OF that, of OBJ_Type] by (simp add: obj_other_def obj_core_def)
    ultimately show ?thesis by (rule map_option_eq_via)
  qed
  show "pd_obj s' d = pd_obj s d" if "d \<in> D" for d using pd [OF that] by (cases "pds s d"; cases "pds s' d"; simp add: pd_obj_def fld_def)
  show "multi_tbl s' P' D" unfolding multi_tbl_def
  proof
    fix d assume d: "d \<in> D"
    then obtain e b where e: "d \<noteq> NULL" "\<And>ob. d \<notin> set (P ob)" "pds s d = Some e" "objs s (PD_PendObjPtr e) = Some b" "OBJ_Type b \<in> {OS_OBJ_TYPE_SEM, OS_OBJ_TYPE_Q}"
      using T by (auto simp: multi_tbl_def)
    from pd [OF d] e(3) obtain e' where e': "pds s' d = Some e'" "PD_PendObjPtr e' = PD_PendObjPtr e" by (auto simp: map_option_Some_iff)
    from ty [of "PD_PendObjPtr e"] e(4) obtain b' where b': "objs s' (PD_PendObjPtr e) = Some b'" "OBJ_Type b' = OBJ_Type b" by (auto simp: map_option_Some_iff)
    show "d \<noteq> NULL \<and> (\<forall>ob. d \<notin> set (P' ob)) \<and> (\<exists>e b. pds s' d = Some e \<and> objs s' (PD_PendObjPtr e) = Some b \<and> OBJ_Type b \<in> {OS_OBJ_TYPE_SEM, OS_OBJ_TYPE_Q})"
      using e(1,2,5) e' b' P' [OF d] by simp
  qed
qed

lemma pend_multi_wait_loop_ok:
  assumes "krel s R P W" "tcbs s (OSTCBCurPtr s) = Some t" "multi_tbl s P {p..<p + n}" "finite (dom (pds s))" "card (dom (pds s)) \<le> 65535"
  shows "\<exists>s' P'. pend_multi_wait_loop n p s = Some s' \<and> krel s' R P' W \<and> kframe {} {p..<p + n} s s' \<and> tcbs s' = tcbs s \<and>
    (\<forall>ob d. d \<in> set (P' ob) \<longleftrightarrow> d \<in> set (P ob) \<or> d \<in> {p..<p + n} \<and> ob = pd_obj s d) \<and> (\<forall>ob. filter (\<lambda>d. d \<notin> {p..<p + n}) (P' ob) = P ob) \<and>
    (\<forall>d \<in> {p..<p + n}. \<exists>e. pds s' d = Some e \<and> PD_TCBPtr e = OSTCBCurPtr s \<and> PD_PendObjPtr e = pd_obj s d)"
  using assms
proof (induction n arbitrary: p s P)
  case 0
  have "krel s R P W" by (rule 0(1))
  then show ?case by (intro exI [of _ s] exI [of _ P]) simp
next
  case (Suc n)
  have ivl: "{p..<p + Suc n} = insert p {p + 1..<p + 1 + n}" by auto
  have nin: "p \<notin> {p + 1..<p + 1 + n}" by simp
  let ?D = "{p + 1..<p + 1 + n}"
  from Suc.prems(3) obtain e b where e: "p \<noteq> NULL" "\<And>ob. p \<notin> set (P ob)" "pds s p = Some e" "objs s (PD_PendObjPtr e) = Some b" "OBJ_Type b \<in> {OS_OBJ_TYPE_SEM, OS_OBJ_TYPE_Q}"
    unfolding ivl by (auto simp: multi_tbl_def)
  let ?ob = "PD_PendObjPtr e"
  have po: "pd_obj s p = ?ob" using e(3) by (simp add: pd_obj_def fld_def)
  from pend_multi_wait_step [OF Suc.prems(1,2) e(3,1,2) e(4,5) Suc.prems(4,5)] obtain s1 e1 where
    1: "pend_multi_wait_loop (Suc n) p s = pend_multi_wait_loop n (p + 1) s1" "krel s1 R (P(?ob := prio_insert (pd_prio s1) p (P ?ob))) W"
    "kframe {} {p} s s1" "tcbs s1 = tcbs s" "pds s1 p = Some e1" "PD_TCBPtr e1 = OSTCBCurPtr s" "PD_PendObjPtr e1 = ?ob" by blast
  let ?P = "P(?ob := prio_insert (pd_prio s1) p (P ?ob))"
  have cur: "OSTCBCurPtr s1 = OSTCBCurPtr s" by (rule kframe_globals(12) [OF 1(3)])
  have dm: "dom (pds s1) = dom (pds s)" using 1(3) by (simp add: kframe_def)
  have T: "multi_tbl s P ?D" using Suc.prems(3) unfolding ivl by (simp add: multi_tbl_def)
  have dis: "?D \<inter> {p} = {}" by simp
  have T1: "multi_tbl s1 ?P ?D" and o1: "\<And>d. d \<in> ?D \<Longrightarrow> pd_obj s1 d = pd_obj s d" by (rule multi_tbl_kframe [OF T 1(3) dis]; auto)+
  from Suc.IH [OF 1(2) _ T1] Suc.prems(2,4,5) 1(4) cur dm obtain s' P' where 2: "pend_multi_wait_loop n (p + 1) s1 = Some s'" "krel s' R P' W" "kframe {} ?D s1 s'"
    "tcbs s' = tcbs s1" "\<forall>ob d. d \<in> set (P' ob) \<longleftrightarrow> d \<in> set (?P ob) \<or> d \<in> ?D \<and> ob = pd_obj s1 d" "\<forall>ob. filter (\<lambda>d. d \<notin> ?D) (P' ob) = ?P ob"
    "\<forall>d \<in> ?D. \<exists>e. pds s' d = Some e \<and> PD_TCBPtr e = OSTCBCurPtr s \<and> PD_PendObjPtr e = pd_obj s1 d" by auto
  have F: "kframe {} {p..<p + Suc n} s s'" using kframe_mono [OF 1(3)] kframe_mono [OF 2(3)] kframe_trans ivl by (metis empty_subsetI insert_subset order_refl subset_insertI insertI1)
  have mem: "d \<in> set (P' ob) \<longleftrightarrow> d \<in> set (P ob) \<or> d \<in> {p..<p + Suc n} \<and> ob = pd_obj s d" for ob d
    using 2(5) o1 po unfolding ivl by (cases "d = p") (auto simp: nin)
  have fil: "filter (\<lambda>d. d \<notin> {p..<p + Suc n}) (P' ob) = P ob" for ob
  proof -
    have "filter (\<lambda>d. d \<notin> {p..<p + Suc n}) (P' ob) = filter (\<lambda>d. d \<noteq> p) (filter (\<lambda>d. d \<notin> ?D) (P' ob))" unfolding ivl by (simp add: conj_commute)
    also have "\<dots> = filter (\<lambda>d. d \<noteq> p) (P ob)" using 2(6) by (simp add: filter_prio_insert_out)
    also have "\<dots> = P ob" using e(2) by (metis (mono_tags, lifting) filter_True)
    finally show ?thesis .
  qed
  have own: "\<exists>e. pds s' d = Some e \<and> PD_TCBPtr e = OSTCBCurPtr s \<and> PD_PendObjPtr e = pd_obj s d" if "d \<in> {p..<p + Suc n}" for d
  proof (cases "d = p")
    case True
    have "map_option pd_core (pds s' p) = map_option pd_core (pds s1 p)" using 2(3) nin by (simp add: kframe_def)
    then obtain e2 where "pds s' p = Some e2" "pd_core e2 = pd_core e1" using 1(5) by (auto simp: map_option_Some_iff)
    with pd_core_eqD [OF this(2)] 1(6,7) po True show ?thesis by simp
  next
    case False
    then have "d \<in> ?D" using that unfolding ivl by simp
    with 2(7) o1 show ?thesis by metis
  qed
  show ?case using 1(1,4) 2(1,2,4) F mem fil own by (intro exI [of _ s'] exI [of _ P']) simp
qed

lemma OS_PendMultiWait_ok:
  assumes K: "kinv s R P W" and x: "OSTCBCurPtr s = x" and t: "tcbs s x = Some t" "TCB_TaskState t = OS_TASK_STATE_RDY"
    and T: "multi_tbl s P D" and D: "D = {p..<p + unat n}"
  shows "\<exists>s' P' W' t'. OS_PendMultiWait p n timeout s = Some s' \<and>
    kinv s' (R(unat (TCB_Prio t) := remove1 x (R (unat (TCB_Prio t))))) P' W' \<and> kframe {x} D s s' \<and> tcbs s' x = Some t' \<and> TCB_Prio t' = TCB_Prio t \<and>
    TCB_TaskState t' = (if timeout = 0 then OS_TASK_STATE_PEND else OS_TASK_STATE_PEND_TIMEOUT) \<and> TCB_PendOn t' = OS_TASK_PEND_ON_MULTI \<and> pend_tbl t' = D \<and>
    (\<forall>ob d. d \<in> set (P' ob) \<longleftrightarrow> d \<in> set (P ob) \<or> d \<in> D \<and> ob = pd_obj s d) \<and> (\<forall>ob. filter (\<lambda>d. d \<notin> D) (P' ob) = P ob) \<and>
    (\<forall>d \<in> D. waiter s' d = x)"
proof -
  let ?R = "R(unat (TCB_Prio t) := remove1 x (R (unat (TCB_Prio t))))"
  let ?f = "\<lambda>t. t\<lparr>TCB_PendOn := OS_TASK_PEND_ON_MULTI, TCB_PendStatus := OS_STATUS_PEND_OK, TCB_PendDataTblEntries := n, TCB_PendDataTblPtr := p\<rparr>"
  have f: "rdy_view (?f t) = rdy_view t" "tick_view (?f t) = tick_view t" by (simp_all add: rdy_view_def tick_view_def)
  obtain s0 s1 t1 where 1: "tcb_mod x ?f s = Some s0" "OS_TaskBlock x timeout s0 = Some s1" "krel s1 ?R P (tick_block s x timeout s1 W)" "kframe {x} {} s s1"
    "tcbs s1 x = Some t1" "tcb_base t1 = tcb_base ((?f t)\<lparr>TCB_TaskState := if timeout = 0 then OS_TASK_STATE_PEND else OS_TASK_STATE_PEND_TIMEOUT\<rparr>)"
    "TCB_TickSpokePtr t1 = None \<longleftrightarrow> timeout = 0" by (rule block_stage_gen [OF K t, of ?f timeout, OF f])
  have b: "TCB_Prio t1 = TCB_Prio t" "TCB_TaskState t1 = (if timeout = 0 then OS_TASK_STATE_PEND else OS_TASK_STATE_PEND_TIMEOUT)"
    "TCB_PendOn t1 = OS_TASK_PEND_ON_MULTI" "pend_tbl t1 = D"
    using tcb_base_eqD [OF 1(6)] D by (simp_all add: pend_tbl_def)
  note g = kframe_globals [OF 1(4)]
  have m: "finite (dom (pds s1))" "card (dom (pds s1)) \<le> 65535" using kinvD(6) [OF K] 1(4) by (simp_all add: mem_bound_def kframe_def)
  have T1: "multi_tbl s1 P D" and o1: "\<And>d. d \<in> D \<Longrightarrow> pd_obj s1 d = pd_obj s d" by (rule multi_tbl_kframe [OF T 1(4)]; simp)+
  have cur: "tcbs s1 (OSTCBCurPtr s1) = Some t1" "OSTCBCurPtr s1 = x" "OSTCBCurPtr s0 = x" using 1(1,5) g(12) x t by auto
  from pend_multi_wait_loop_ok [OF 1(3) cur(1) T1 [unfolded D] m, folded D, unfolded cur(2)] obtain s2 P' where 2: "pend_multi_wait_loop (unat n) p s1 = Some s2"
    "krel s2 ?R P' (tick_block s x timeout s1 W)" "kframe {} D s1 s2" "tcbs s2 = tcbs s1"
    "\<forall>ob d. d \<in> set (P' ob) \<longleftrightarrow> d \<in> set (P ob) \<or> d \<in> D \<and> ob = pd_obj s1 d" "\<forall>ob. filter (\<lambda>d. d \<notin> D) (P' ob) = P ob"
    "\<forall>d \<in> D. \<exists>e. pds s2 d = Some e \<and> PD_TCBPtr e = x \<and> PD_PendObjPtr e = pd_obj s1 d" by blast
  have mem: "d \<in> set (P' ob) \<longleftrightarrow> d \<in> set (P ob) \<or> d \<in> D \<and> ob = pd_obj s d" for ob d using 2(5) o1 [of d] by metis
  have own: "\<exists>e. pds s2 d = Some e \<and> PD_TCBPtr e = x \<and> PD_PendObjPtr e = pd_obj s d" if "d \<in> D" for d using 2(7) o1 that by metis
  have F: "kframe {x} D s s2" by (rule kframe_trans [OF kframe_mono [OF 1(4)] kframe_mono [OF 2(3)]]) simp_all
  have "kinv s2 ?R P' (tick_block s x timeout s1 W)"
  proof (rule kinv_block [OF K t 2(2) F, where q = "pd_obj s" and t' = t1])
    show "d \<notin> set (P ob)" if "d \<in> D" for d ob using T that by (simp add: multi_tbl_def)
    show "tcbs s2 x = Some t1" using 2(4) 1(5) by simp
  qed (use mem own b 1(7) in \<open>auto simp: st_pend_def st_tick_def\<close>)
  moreover have "OS_PendMultiWait p n timeout s = Some s2" using 1(1,2) 2(1) x cur(3) by (simp add: OS_PendMultiWait_def)
  moreover have "waiter s2 d = x" if "d \<in> D" for d using own [OF that] by (auto simp: waiter_def fld_def)
  moreover have "tcbs s2 x = Some t1" using 2(4) 1(5) by simp
  ultimately show ?thesis using F mem 2(6) b by (intro exI [of _ s2] exI [of _ P'] exI [of _ "tick_block s x timeout s1 W"] exI [of _ t1] conjI) simp_all
qed

end
