(* ===== verification/Multi_Props.thy ===== *)
theory Multi_Props
  imports OS_PendMulti Object_Props
begin




end
