(* ===== verification/OS_Run.thy ===== *)
theory OS_Run
  imports OS_Sem OS_Q OS_Time
begin

text \<open>
  The kernel as a transition system: the running task posts to or pends on semaphores and queues,
  delays itself, or a tick passes.  A step of a task is one call of the services modelled in the other
  theories.  A tick is the update of the tick wheel by the tick task and the scheduling that follows when
  the tick task waits for the next tick; the signal of the interrupt that wakes the tick task is in
  \<open>OS_TaskSync\<close>.  \<open>pdata x\<close> is the address of the pend data that the pending services have as a local
  variable on the stack of task \<open>x\<close>.
\<close>

inductive kstep :: "(ptr \<Rightarrow> ptr) \<Rightarrow> os \<Rightarrow> os \<Rightarrow> bool" for pdata where
  sem_post: "\<lbrakk>sem_at s p m; opt \<in> {OS_OPT_POST_1, OS_OPT_POST_ALL}; OSSemPost p opt s = Some (c, e, s')\<rbrakk> \<Longrightarrow> kstep pdata s s'"
| sem_pend: "\<lbrakk>sem_at s p m; opt \<in> {OS_OPT_PEND_BLOCKING, OS_OPT_PEND_NON_BLOCKING}; OSTCBCurPtr s \<noteq> OSIdleTaskTCB s;
    OSSemPend (pdata (OSTCBCurPtr s)) p timeout opt p_ts s = Some (r, s')\<rbrakk> \<Longrightarrow> kstep pdata s s'"
| q_post: "\<lbrakk>q_at s p q; opt \<in> q_post_opts; opt AND OS_OPT_POST_NO_SCHED = 0; OSQPost p p_void msg_size opt s = Some (e, s')\<rbrakk> \<Longrightarrow> kstep pdata s s'"
| q_pend: "\<lbrakk>q_at s p q; opt \<in> {OS_OPT_PEND_BLOCKING, OS_OPT_PEND_NON_BLOCKING}; OSTCBCurPtr s \<noteq> OSIdleTaskTCB s;
    OSQPend (pdata (OSTCBCurPtr s)) p timeout opt True p_ts s = Some (rq, s')\<rbrakk> \<Longrightarrow> kstep pdata s s'"
| time_dly: "\<lbrakk>opt \<in> {OS_OPT_TIME_DLY, OS_OPT_TIME_TIMEOUT}; OSTCBCurPtr s \<noteq> OSIdleTaskTCB s; OSTimeDly dly opt s = Some (rd, s')\<rbrakk> \<Longrightarrow> kstep pdata s s'"
| tick: "\<lbrakk>OS_TickListUpdate s = Some s1; OSSched s1 = Some s'\<rbrakk> \<Longrightarrow> kstep pdata s s'"

inductive_cases kstepE: "kstep pdata s s'"

subsection \<open>The invariant of a run\<close>

text \<open>The most urgent ready task runs, the idle task is always ready, and a waiting task waits with its
  own pend data.\<close>

definition run_core :: "(ptr \<Rightarrow> ptr) \<Rightarrow> os \<Rightarrow> (nat \<Rightarrow> ptr list) \<Rightarrow> (ptr \<Rightarrow> ptr list) \<Rightarrow> (nat \<Rightarrow> ptr list) \<Rightarrow> bool" where
  "run_core pdata s R P W \<longleftrightarrow> sys s R P W \<and> OSIntNestingCtr s = 0 \<and> OSSchedLockNestingCtr s = 0 \<and> OSTCBCurPtr s = top_task R \<and>
     (\<exists>t. tcbs s (OSIdleTaskTCB s) = Some t \<and> TCB_TaskState t = OS_TASK_STATE_RDY) \<and>
     (\<forall>x t. tcbs s x = Some t \<longrightarrow> pend_tbl t \<subseteq> {pdata x}) \<and> inj_on pdata (dom (tcbs s)) \<and> (\<forall>x \<in> dom (tcbs s). pdata x \<in> dom (pds s) \<and> pdata x \<noteq> NULL)"

definition obj_inv :: "os \<Rightarrow> (ptr \<Rightarrow> ptr list) \<Rightarrow> bool" where
  "obj_inv s P \<longleftrightarrow> dom (sems s) \<inter> dom (qs s) = {} \<and> sem_inv s P \<and> (\<exists>B F X. q_inv s B F X \<and> q_wait X P s)"

definition run_inv :: "(ptr \<Rightarrow> ptr) \<Rightarrow> os \<Rightarrow> bool" where
  "run_inv pdata s \<longleftrightarrow> (\<exists>R P W. run_core pdata s R P W \<and> obj_inv s P)"

lemma run_coreD:
  assumes "run_core pdata s R P W"
  shows "sys s R P W" "kinv s R P W" "cur_rdy s" "OSIntNestingCtr s = 0" "OSSchedLockNestingCtr s = 0" "OSTCBCurPtr s = top_task R"
  using assms by (simp_all add: run_core_def sys_def)

lemma waiter_task:
  assumes K: "kinv s R P W" and d: "d \<in> set (P ob)"
  obtains t where "tcbs s (waiter s d) = Some t" "d \<in> pend_tbl t" "st_pend (TCB_TaskState t)"
proof -
  from kinvD(5) [OF K] d obtain e t where e: "pds s d = Some e" "tcbs s (PD_TCBPtr e) = Some t" "d \<in> pend_tbl t" unfolding pend_owned_def by blast
  then have "waiter s d = PD_TCBPtr e" by (simp add: waiter_def fld_def)
  moreover have "st_pend (TCB_TaskState t)" using kinvD(7) [OF K e(2)] e(3) by (auto simp: task_ok_def split: if_splits)
  ultimately show ?thesis using e that by metis
qed

lemma run_pdata:
  assumes C: "run_core pdata s R P W" and d: "d \<in> set (P ob)"
  shows "d = pdata (waiter s d)"
proof -
  from waiter_task [OF run_coreD(2) [OF C] d] obtain t where "tcbs s (waiter s d) = Some t" "d \<in> pend_tbl t" by blast
  then show ?thesis using C by (auto simp: run_core_def)
qed

lemma run_distinct: "run_core pdata s R P W \<Longrightarrow> distinct (map (waiter s) (P ob))"
proof -
  assume C: "run_core pdata s R P W"
  have "distinct (P ob)" using pend_rel_list(1) [OF kinvD(3) [OF run_coreD(2) [OF C]]] .
  moreover have "inj_on (waiter s) (set (P ob))" using run_pdata [OF C] by (metis inj_onI)
  ultimately show ?thesis by (simp add: distinct_map)
qed

text \<open>The pend data of the running task are free, and another task is ready unless the idle task runs.\<close>

lemma run_cur:
  assumes C: "run_core pdata s R P W"
  shows "pdata (OSTCBCurPtr s) \<in> dom (pds s)" "pdata (OSTCBCurPtr s) \<noteq> NULL" "pdata (OSTCBCurPtr s) \<notin> set (P ob)"
    "\<exists>p. OSIdleTaskTCB s \<in> set (R p)"
proof -
  have c: "OSTCBCurPtr s \<in> dom (tcbs s)" using run_coreD(3) [OF C] by (auto simp: cur_rdy_def)
  then show "pdata (OSTCBCurPtr s) \<in> dom (pds s)" "pdata (OSTCBCurPtr s) \<noteq> NULL" using C by (simp_all add: run_core_def)
  from C obtain t where "tcbs s (OSIdleTaskTCB s) = Some t" "TCB_TaskState t = OS_TASK_STATE_RDY" by (auto simp: run_core_def)
  with kinvD(7) [OF run_coreD(2) [OF C]] show "\<exists>p. OSIdleTaskTCB s \<in> set (R p)" by (auto simp: task_ok_def)
  show "pdata (OSTCBCurPtr s) \<notin> set (P ob)"
  proof
    assume d: "pdata (OSTCBCurPtr s) \<in> set (P ob)"
    from waiter_task [OF run_coreD(2) [OF C] d] obtain t where "tcbs s (waiter s (pdata (OSTCBCurPtr s))) = Some t" by blast
    moreover have "pdata (waiter s (pdata (OSTCBCurPtr s))) = pdata (OSTCBCurPtr s)" using run_pdata [OF C d] by simp
    moreover have "inj_on pdata (dom (tcbs s))" using C by (simp add: run_core_def)
    ultimately have "waiter s (pdata (OSTCBCurPtr s)) = OSTCBCurPtr s" using c by (meson domI inj_onD)
    with waiter_not_cur [OF run_coreD(2,3) [OF C] d] show False by simp
  qed
qed

subsection \<open>Frames\<close>

text \<open>What blocking, waking and switching leave alone.\<close>

definition run_frame :: "os \<Rightarrow> os \<Rightarrow> bool" where
  "run_frame s s' \<longleftrightarrow> sems s' = sems s \<and> qs s' = qs s \<and> msgs s' = msgs s \<and> OSMsgPool s' = OSMsgPool s \<and> OSIntNestingCtr s' = OSIntNestingCtr s \<and>
     OSSchedLockNestingCtr s' = OSSchedLockNestingCtr s \<and> OSIdleTaskTCB s' = OSIdleTaskTCB s \<and> dom (tcbs s') = dom (tcbs s) \<and> dom (pds s') = dom (pds s)"

lemma run_frame_trans: "run_frame s s' \<Longrightarrow> run_frame s' s'' \<Longrightarrow> run_frame s s''"
  by (simp add: run_frame_def)

lemma run_frame_kframe: "kframe X D s s' \<Longrightarrow> run_frame s s'"
  using kframe_globals(1,2,4,7,8,10,14) [of X D s s'] by (simp add: run_frame_def kframe_def)

lemma run_frame_sw:
  assumes F: "sw_frame s s'"
  shows "run_frame s s'"
proof -
  have e: "os_less_sw s' = os_less_sw s" and d: "\<And>x. map_option tcb_stat (tcbs s' x) = map_option tcb_stat (tcbs s x)" using F by (simp_all add: sw_frame_def)
  have "OSIdleTaskTCB s' = OSIdleTaskTCB s" using arg_cong [OF e, of OSIdleTaskTCB] by (simp add: os_less_sw_def)
  then show ?thesis using sw_frame_globals [OF F] map_option_dom [OF d] by (simp add: run_frame_def)
qed

lemma run_frame_ts [simp]: "run_frame s (snd (OS_TS_GET s))"
  by (simp add: run_frame_def OS_TS_GET_def)

lemma obj_inv_frame:
  assumes "run_frame s s'" "obj_inv s P" "\<And>ob. set (P' ob) \<subseteq> set (P ob)"
  shows "obj_inv s' P'"
proof -
  from assms(2) obtain B F X where I: "dom (sems s) \<inter> dom (qs s) = {}" "sem_inv s P" "q_inv s B F X" "q_wait X P s" by (auto simp: obj_inv_def)
  have e: "sems s' = sems s" "qs s' = qs s" "msgs s' = msgs s" "OSMsgPool s' = OSMsgPool s" using assms(1) by (simp_all add: run_frame_def)
  have "sem_inv s' P'" by (rule sem_inv_shrink [OF I(2)]) (use assms(3) e in auto)
  moreover have "P' p = [] \<or> X p = []" if "p \<in> dom (qs s)" for p
    using I(4) that assms(3) [of p] unfolding q_wait_def by (metis list.set(1) set_empty subset_empty)
  then have "q_wait X P' s'" unfolding q_wait_def e by blast
  moreover have "q_inv s' B F X" using q_inv_cong [OF e(2-4)] I(3) by simp
  ultimately show ?thesis using I(1) unfolding obj_inv_def e by blast
qed

subsection \<open>Waking\<close>

lemma run_core_wake:
  assumes C: "run_core pdata s R P W" and S: "sys s' R' P' W'" and F: "run_frame s s'" and top: "OSTCBCurPtr s' = top_task R'"
    and o: "\<And>x t. x \<notin> X \<Longrightarrow> tcbs s x = Some t \<Longrightarrow> \<exists>t'. tcbs s' x = Some t' \<and> pend_tbl t' = pend_tbl t \<and> TCB_TaskState t' = TCB_TaskState t"
    and X: "\<And>x. x \<in> X \<Longrightarrow> \<exists>t'. tcbs s' x = Some t' \<and> \<not> st_pend (TCB_TaskState t')" and i: "OSIdleTaskTCB s \<notin> X"
  shows "run_core pdata s' R' P' W'"
proof -
  have dm: "dom (tcbs s') = dom (tcbs s)" "dom (pds s') = dom (pds s)" "OSIdleTaskTCB s' = OSIdleTaskTCB s" "OSIntNestingCtr s' = 0" "OSSchedLockNestingCtr s' = 0"
    using F run_coreD(4,5) [OF C] by (simp_all add: run_frame_def)
  have "pend_tbl t' \<subseteq> {pdata x}" if t': "tcbs s' x = Some t'" for x t'
  proof (cases "x \<in> X")
    case True
    with X t' have "\<not> st_pend (TCB_TaskState t')" by fastforce
    then show ?thesis using S kinvD(7) [of s' R' P' W' x t'] t' by (simp add: sys_def task_ok_def)
  next
    case False
    from t' dm(1) obtain t where "tcbs s x = Some t" by blast
    with o [OF False this] t' C show ?thesis by (auto simp: run_core_def)
  qed
  moreover from C obtain t where "tcbs s (OSIdleTaskTCB s) = Some t" "TCB_TaskState t = OS_TASK_STATE_RDY" by (auto simp: run_core_def)
  then have "\<exists>t'. tcbs s' (OSIdleTaskTCB s) = Some t' \<and> TCB_TaskState t' = OS_TASK_STATE_RDY" using o [OF i] by metis
  ultimately show ?thesis using S top dm C by (simp add: run_core_def)
qed

lemma sw_tcb:
  assumes "sw_frame s s'" "tcbs s x = Some t"
  obtains t' where "tcbs s' x = Some t'" "pend_tbl t' = pend_tbl t" "TCB_TaskState t' = TCB_TaskState t"
proof -
  from assms obtain t' where t': "tcbs s' x = Some t'" "tcb_stat t' = tcb_stat t" by (rule sw_frame_tcb)
  from tcb_stat_key [OF t'(2)] have "pend_tbl t' = pend_tbl t" "TCB_TaskState t' = TCB_TaskState t" by (simp_all add: tcb_key_def pend_tbl_def)
  with t'(1) that show ?thesis by blast
qed

text \<open>A task keeps its table and its state through a frame that does not name it and a switch.\<close>

lemma frame_tcb:
  assumes F: "kframe X D s s1" "sw_frame s1 s'" and x: "x \<notin> X" "tcbs s x = Some t"
  shows "\<exists>t'. tcbs s' x = Some t' \<and> pend_tbl t' = pend_tbl t \<and> TCB_TaskState t' = TCB_TaskState t"
proof -
  from kframe_tcb(1) [OF F(1) x] obtain t1 where t1: "tcbs s1 x = Some t1" "tcb_other t1 = tcb_other t" by blast
  from sw_tcb [OF F(2) t1(1)] tcb_other_eqD [OF t1(2)] show ?thesis by metis
qed

lemma woken_not_pend: "\<not> st_pend ((st :: OS_STATE) AND OS_TASK_STATE_BIT_SUSPENDED)"
proof -
  have "\<not> bit (st AND 4) 1" by (simp add: bit_and_iff)
  moreover have "bit (v :: OS_STATE) 1" if "st_pend v" for v using that by (auto simp: st_pend_def)
  ultimately show ?thesis by blast
qed

lemma woken_run:
  assumes C: "run_core pdata s R P W" and S: "sys s' R' P' W'" and w: "woken_all st msg (snd (OS_TS_GET s)) ds s1" "sw_frame s1 s'" and ds: "set ds \<subseteq> set (P ob)"
    and top: "OSTCBCurPtr s' = top_task R'"
  shows "run_core pdata s' R' P' W'" "run_frame s s'"
proof -
  let ?u = "snd (OS_TS_GET s)" let ?X = "waiter s ` set ds"
  have u: "tcbs ?u = tcbs s" "waiter ?u = waiter s" by (simp_all add: OS_TS_GET_def)
  from w(1) obtain D where F: "kframe ?X D ?u s1" unfolding woken_all_def u by blast
  show f: "run_frame s s'" using run_frame_ts run_frame_kframe [OF F] run_frame_sw [OF w(2)] run_frame_trans by blast
  show "run_core pdata s' R' P' W'"
  proof (rule run_core_wake [OF C S f top, of ?X])
    show "\<exists>t'. tcbs s' x = Some t' \<and> pend_tbl t' = pend_tbl t \<and> TCB_TaskState t' = TCB_TaskState t" if "x \<notin> ?X" "tcbs s x = Some t" for x t
      using frame_tcb [OF F w(2) that(1)] that(2) u(1) by simp
    show "\<exists>t'. tcbs s' x = Some t' \<and> \<not> st_pend (TCB_TaskState t')" if x: "x \<in> ?X" for x
    proof -
      from x w(1) obtain t1 t where "tcbs s1 x = Some t1" "woken_tcb st msg t t1" unfolding woken_all_def u by blast
      then obtain t' where "tcbs s' x = Some t'" "TCB_TaskState t' = TCB_TaskState t AND OS_TASK_STATE_BIT_SUSPENDED"
        using sw_tcb [OF w(2)] by (metis woken_tcb_def)
      then show ?thesis using woken_not_pend by metis
    qed
    show "OSIdleTaskTCB s \<notin> ?X"
    proof
      assume "OSIdleTaskTCB s \<in> ?X"
      then obtain d where d: "d \<in> set (P ob)" "waiter s d = OSIdleTaskTCB s" using ds by auto
      from waiter_task [OF run_coreD(2) [OF C] d(1)] obtain t where "tcbs s (OSIdleTaskTCB s) = Some t" "st_pend (TCB_TaskState t)" unfolding d(2) by blast
      with C show False by (auto simp: run_core_def st_pend_def)
    qed
  qed
qed

subsection \<open>Blocking\<close>

lemma run_core_block:
  assumes C: "run_core pdata s R P W" and S: "sys s' R' P' W'" and F: "kframe {OSTCBCurPtr s} D s s1" "sw_frame s1 s'" and top: "OSTCBCurPtr s' = top_task R'"
    and i: "OSTCBCurPtr s \<noteq> OSIdleTaskTCB s" and t: "tcbs s1 (OSTCBCurPtr s) = Some t1" "pend_tbl t1 \<subseteq> {pdata (OSTCBCurPtr s)}"
  shows "run_core pdata s' R' P' W'" "run_frame s s'"
proof -
  let ?x = "OSTCBCurPtr s"
  show f: "run_frame s s'" using run_frame_kframe [OF F(1)] run_frame_sw [OF F(2)] run_frame_trans by blast
  then have dm: "dom (tcbs s') = dom (tcbs s)" "dom (pds s') = dom (pds s)" "OSIdleTaskTCB s' = OSIdleTaskTCB s" "OSIntNestingCtr s' = 0" "OSSchedLockNestingCtr s' = 0"
    using run_coreD(4,5) [OF C] by (simp_all add: run_frame_def)
  have o: "\<exists>t'. tcbs s' y = Some t' \<and> pend_tbl t' = pend_tbl u \<and> TCB_TaskState t' = TCB_TaskState u" if "y \<noteq> ?x" "tcbs s y = Some u" for y u
    using frame_tcb [OF F, of y u] that by simp
  have "pend_tbl t' \<subseteq> {pdata y}" if t': "tcbs s' y = Some t'" for y t'
  proof (cases "y = ?x")
    case True
    from sw_tcb [OF F(2) t(1)] obtain u where "tcbs s' ?x = Some u" "pend_tbl u = pend_tbl t1" by blast
    with t' t(2) True show ?thesis by simp
  next
    case False
    from t' dm(1) obtain u where "tcbs s y = Some u" by blast
    with o [OF False this] t' C show ?thesis by (auto simp: run_core_def)
  qed
  moreover from C obtain u where "tcbs s (OSIdleTaskTCB s) = Some u" "TCB_TaskState u = OS_TASK_STATE_RDY" by (auto simp: run_core_def)
  then have "\<exists>t'. tcbs s' (OSIdleTaskTCB s) = Some t' \<and> TCB_TaskState t' = OS_TASK_STATE_RDY" using o i by metis
  ultimately show "run_core pdata s' R' P' W'" using S top dm C by (simp add: run_core_def)
qed

lemma blocked_run:
  assumes C: "run_core pdata s R P W" and B: "blocked s R P W (OSTCBCurPtr s) (pdata (OSTCBCurPtr s)) p on timeout s1" "sw_frame s1 s'" and p: "p \<noteq> NULL"
    and S: "sys s' R' P' W'" and top: "OSTCBCurPtr s' = top_task R'" and i: "OSTCBCurPtr s \<noteq> OSIdleTaskTCB s"
  shows "run_core pdata s' R' P' W'" "run_frame s s'"
proof -
  let ?x = "OSTCBCurPtr s" let ?d = "pdata ?x"
  from B(1) p obtain t t1 where b: "tcbs s ?x = Some t" "kinv s1 (R(unat (TCB_Prio t) := remove1 ?x (R (unat (TCB_Prio t))))) (P(p := prio_insert (pd_prio s1) ?d (P p))) (tick_block s ?x timeout s1 W)"
    "kframe {?x} {?d} s s1" "tcbs s1 ?x = Some t1" "TCB_TaskState t1 = (if timeout = 0 then OS_TASK_STATE_PEND else OS_TASK_STATE_PEND_TIMEOUT)"
    unfolding blocked_def pend_block_def by auto
  have st: "st_pend (TCB_TaskState t1)" using b(5) by (simp add: st_pend_def)
  have tbl: "pend_tbl t1 \<subseteq> {?d}"
  proof
    fix d assume "d \<in> pend_tbl t1"
    then obtain e where e: "pds s1 d = Some e" "PD_TCBPtr e = ?x" "d \<in> set ((P(p := prio_insert (pd_prio s1) ?d (P p))) (PD_PendObjPtr e))"
      using kinvD(7) [OF b(2,4)] st by (auto simp: task_ok_def pend_tbl_ok_def)
    show "d \<in> {?d}"
    proof (rule ccontr)
      assume nd: "d \<notin> {?d}"
      then have d: "d \<in> set (P (PD_PendObjPtr e))" using e(3) by (auto split: if_splits)
      from pend_entry [OF run_coreD(2) [OF C] d] obtain e0 where "pds s d = Some e0" by blast
      then have "waiter s1 d = waiter s d" by (rule waiter_kframe [OF b(3) nd])
      then have "waiter s d = ?x" using e(1,2) by (simp add: waiter_def fld_def)
      with waiter_not_cur [OF run_coreD(2,3) [OF C] d] show False by simp
    qed
  qed
  show "run_core pdata s' R' P' W'" "run_frame s s'" by (rule run_core_block [OF C S b(3) B(2) top i b(4) tbl])+
qed

subsection \<open>Taking and leaving units and messages\<close>

text \<open>Changes of counters and messages do not concern the tasks.\<close>

lemma run_core_objs:
  assumes e: "s'\<lparr>sems := sems s, qs := qs s, msgs := msgs s, OSMsgPool := OSMsgPool s, TmrRdIx := TmrRdIx s\<rparr> = s" and C: "run_core pdata s R P W"
  shows "run_core pdata s' R P W"
proof -
  have g: "tcbs s' = tcbs s" "pds s' = pds s" "OSIntNestingCtr s' = OSIntNestingCtr s" "OSSchedLockNestingCtr s' = OSSchedLockNestingCtr s"
    "OSTCBCurPtr s' = OSTCBCurPtr s" "OSIdleTaskTCB s' = OSIdleTaskTCB s"
    using arg_cong [OF e, of tcbs] arg_cong [OF e, of pds] arg_cong [OF e, of OSIntNestingCtr] arg_cong [OF e, of OSSchedLockNestingCtr]
      arg_cong [OF e, of OSTCBCurPtr] arg_cong [OF e, of OSIdleTaskTCB] by simp_all
  have "sys (s'\<lparr>sems := sems s, qs := qs s, msgs := msgs s, OSMsgPool := OSMsgPool s, TmrRdIx := TmrRdIx s\<rparr>) R P W" using C unfolding e by (rule run_coreD(1))
  then have "sys s' R P W" by simp
  with C g show ?thesis by (simp add: run_core_def)
qed

lemma OS_MsgQGet_frame: "OS_MsgQGet q s = Some (a, b, c, e, q', s') \<Longrightarrow> s'\<lparr>msgs := msgs s, OSMsgPool := OSMsgPool s\<rparr> = s"
  by (auto simp: OS_MsgQGet_def msg_mod_def mod_at_def Let_def split: if_splits option.splits Option.bind_splits)

lemma OS_MsgQPut_frame: "OS_MsgQPut q v z opt ts s = Some (e, q', s') \<Longrightarrow> s'\<lparr>msgs := msgs s, OSMsgPool := OSMsgPool s\<rparr> = s"
  by (auto simp: OS_MsgQPut_def msg_mod_def mod_at_def Let_def split: if_splits option.splits Option.bind_splits)

lemma obj_inv_sem:
  assumes I: "obj_inv s P" and m: "sems s p = Some m" and n: "SEM_Ctr m' > 0 \<Longrightarrow> P p = []"
    and s': "sems s' = (sems s)(p \<mapsto> m')" "qs s' = qs s" "msgs s' = msgs s" "OSMsgPool s' = OSMsgPool s"
  shows "obj_inv s' P"
proof -
  from I obtain B F X where i: "dom (sems s) \<inter> dom (qs s) = {}" "sem_inv s P" "q_inv s B F X" "q_wait X P s" by (auto simp: obj_inv_def)
  have "sem_inv s' P" using i(2) n unfolding sem_inv_def s'(1) by (auto split: if_splits)
  moreover have "dom (sems s') \<inter> dom (qs s') = {}" using i(1) m s' by auto
  moreover have "q_inv s' B F X" "q_wait X P s'" using q_inv_cong [OF s'(2-4)] i(3,4) s'(2) by (simp_all add: q_wait_def)
  ultimately show ?thesis unfolding obj_inv_def by blast
qed

text \<open>A task starts to wait on an object that has nothing to give.\<close>

lemma obj_inv_wait:
  assumes I: "obj_inv s P" and F: "run_frame s s'" and p: "\<And>m. sems s p = Some m \<Longrightarrow> SEM_Ctr m = 0" "\<And>B F X. q_inv s B F X \<Longrightarrow> p \<in> dom (qs s) \<Longrightarrow> X p = []"
  shows "obj_inv s' (P(p := xs))"
proof -
  from I obtain B F X where i: "dom (sems s) \<inter> dom (qs s) = {}" "sem_inv s P" "q_inv s B F X" "q_wait X P s" by (auto simp: obj_inv_def)
  have e: "sems s' = sems s" "qs s' = qs s" "msgs s' = msgs s" "OSMsgPool s' = OSMsgPool s" using F by (simp_all add: run_frame_def)
  have "sem_inv s' (P(p := xs))" using i(2) p(1) unfolding sem_inv_def e by auto
  moreover have "q_wait X (P(p := xs)) s'" using i(4) p(2) [OF i(3)] unfolding q_wait_def e by auto
  moreover have "q_inv s' B F X" using q_inv_cong [OF e(2-4)] i(3) by simp
  ultimately show ?thesis using i(1) unfolding obj_inv_def e by blast
qed

subsection \<open>The services return and keep the invariant\<close>

text \<open>A post that wakes waiting tasks and reschedules keeps the invariant.\<close>

lemma run_woken:
  assumes C: "run_core pdata s R P W" and O: "obj_inv s P" and S: "sys s' R' P' W'" and P': "\<forall>q. set (P' q) \<subseteq> set (P q)" and w: "sw_frame s1 s'"
      "woken_all st msg (snd (OS_TS_GET s)) (take n (P p)) s1" and d: "sched_done s1 R' s'"
  shows "run_inv pdata s'"
proof -
  have "OSIntNestingCtr s1 = 0" "OSSchedLockNestingCtr s1 = 0" using woken_all_globals(6,7) [OF w(2)] run_coreD(4,5) [OF C] by (simp_all add: OS_TS_GET_def)
  then have top: "OSTCBCurPtr s' = top_task R'" using d by (simp add: sched_done_def)
  have "run_core pdata s' R' P' W'" and f: "run_frame s s'" using woken_run [OF C S w(2,1) _ top, of p] set_take_subset by metis+
  moreover have "obj_inv s' P'" by (rule obj_inv_frame [OF f O]) (use P' in blast)
  ultimately show ?thesis unfolding run_inv_def by blast
qed

lemma OSQPend_got:
  assumes "q_at s p q" "OSQPend d p timeout opt True p_ts s = Some (Done (m, Some z, ts, OS_ERR_NONE), s')"
  obtains ts' q' r where "OS_MsgQGet q s = Some (m, z, ts', OS_ERR_NONE, q', r)" "s' = q_set p q' r"
  using assms by (auto simp: OSQPend_def q_at_def bind_eq_Some_conv Let_def split: if_splits)

lemma run_sem_post:
  assumes I: "run_inv pdata s" and m: "sem_at s p m" and opt: "opt \<in> {OS_OPT_POST_1, OS_OPT_POST_ALL}"
  shows "\<exists>c e s'. OSSemPost p opt s = Some (c, e, s') \<and> run_inv pdata s'"
proof -
  from I obtain R P W where C: "run_core pdata s R P W" and O: "obj_inv s P" by (auto simp: run_inv_def)
  have o: "opt \<in> post_opts" "opt AND OS_OPT_POST_NO_SCHED = 0" using opt by (auto simp: post_opts_def)
  have sm: "sems s p = Some m" using m by (simp add: sem_at_def)
  show ?thesis
  proof (cases "P p = []")
    case True
    note e = OSSemPost_free [OF run_coreD(1) [OF C] m True o(1)]
    let ?u = "snd (OS_TS_GET s)" let ?v = "?u\<lparr>sems := (sems s)(p \<mapsto> m\<lparr>SEM_Ctr := SEM_Ctr m + 1, SEM_TS := fst (OS_TS_GET s)\<rparr>)\<rparr>"
    have "run_core pdata ?u R P W" by (rule run_core_objs [OF _ C]) (simp add: OS_TS_GET_def)
    moreover have "obj_inv ?u P" by (rule obj_inv_frame [OF run_frame_ts O]) simp
    moreover have "run_core pdata ?v R P W" by (rule run_core_objs [OF _ C]) (simp add: OS_TS_GET_def)
    moreover have "obj_inv ?v P" by (rule obj_inv_sem [OF O sm True]) (simp_all add: OS_TS_GET_def)
    ultimately have "run_inv pdata ?u" "run_inv pdata ?v" unfolding run_inv_def by blast+
    with e show ?thesis by auto
  next
    case False
    from OSSemPost_wakes [OF run_coreD(1) [OF C] m False run_distinct [OF C] o(1)] o(2)
    obtain n s1 s' R' P' W' where 1: "OSSemPost p opt s = Some (SEM_Ctr m, OS_ERR_NONE, s')" "sys s' R' P' W'" "\<forall>q. set (P' q) \<subseteq> set (P q)" "sw_frame s1 s'"
      "woken_all OS_STATUS_PEND_OK (NULL, 0, fst (OS_TS_GET s)) (snd (OS_TS_GET s)) (take n (P p)) s1" "sched_done s1 R' s'" by blast
    from run_woken [OF C O 1(2,3,4,5,6)] 1(1) show ?thesis by blast
  qed
qed

lemma run_sem_pend:
  assumes I: "run_inv pdata s" and m: "sem_at s p m" and opt: "opt \<in> {OS_OPT_PEND_BLOCKING, OS_OPT_PEND_NON_BLOCKING}" and i: "OSTCBCurPtr s \<noteq> OSIdleTaskTCB s"
  shows "\<exists>r s'. OSSemPend (pdata (OSTCBCurPtr s)) p timeout opt p_ts s = Some (r, s') \<and> run_inv pdata s'"
proof -
  from I obtain R P W where C: "run_core pdata s R P W" and O: "obj_inv s P" by (auto simp: run_inv_def)
  from m obtain b where b: "p \<noteq> NULL" "sems s p = Some m" "objs s p = Some b" "OBJ_Type b = OS_OBJ_TYPE_SEM" by (auto simp: sem_at_def)
  consider (take) "SEM_Ctr m > 0" | (nb) "SEM_Ctr m = 0" "opt = OS_OPT_PEND_NON_BLOCKING" | (bl) "SEM_Ctr m = 0" "opt = OS_OPT_PEND_BLOCKING"
    using opt by (auto simp: word_gt_0)
  then show ?thesis
  proof cases
    case take
    let ?v = "s\<lparr>sems := (sems s)(p \<mapsto> m\<lparr>SEM_Ctr := SEM_Ctr m - 1\<rparr>)\<rparr>"
    have "P p = []" using O b(2) take by (auto simp: obj_inv_def sem_inv_def)
    then have "obj_inv ?v P" by (intro obj_inv_sem [OF O b(2)]) simp_all
    moreover have "run_core pdata ?v R P W" by (rule run_core_objs [OF _ C]) simp
    ultimately have "run_inv pdata ?v" unfolding run_inv_def by blast
    with OSSemPend_takes [OF m take run_coreD(4) [OF C] opt] show ?thesis by auto
  next
    case nb
    then have "\<exists>r. OSSemPend (pdata (OSTCBCurPtr s)) p timeout opt p_ts s = Some (r, s)"
      using b run_coreD(4) [OF C] by (simp add: OSSemPend_def Let_def)
    with I show ?thesis by blast
  next
    case bl
    from run_cur(4) [OF C] obtain q where "OSIdleTaskTCB s \<in> set (R q)" by blast
    from OSSemPend_blocks [OF run_coreD(1) [OF C] m bl(1) run_coreD(4,5) [OF C] this i [symmetric] run_cur(1-3) [OF C], of timeout p_ts]
    obtain s1 s' R' where 1: "OSSemPend (pdata (OSTCBCurPtr s)) p timeout OS_OPT_PEND_BLOCKING p_ts s = Some (Blocked, s')"
      "blocked s R P W (OSTCBCurPtr s) (pdata (OSTCBCurPtr s)) p OS_TASK_PEND_ON_SEM timeout s1" "sw_frame s1 s'"
      "sys s' R' (P(p := prio_insert (pd_prio s1) (pdata (OSTCBCurPtr s)) (P p))) (tick_block s (OSTCBCurPtr s) timeout s1 W)" "OSTCBCurPtr s' = top_task R'" by blast
    note c = blocked_run [OF C 1(2,3) b(1) 1(4,5) i]
    have "p \<notin> dom (qs s)" using O b(2) by (auto simp: obj_inv_def)
    then have "obj_inv s' (P(p := prio_insert (pd_prio s1) (pdata (OSTCBCurPtr s)) (P p)))" by (intro obj_inv_wait [OF O c(2)]) (use b(2) bl(1) in auto)
    with c(1) 1(1) bl(2) show ?thesis unfolding run_inv_def by blast
  qed
qed

text \<open>An operation on a queue nobody waits on changes that queue, the messages and the pool.\<close>

lemma run_q_set:
  assumes C: "run_core pdata s R P W" and O: "obj_inv s P" and q: "qs s p = Some q" and u: "u = s \<or> u = snd (OS_TS_GET s)"
    and f: "v\<lparr>msgs := msgs u, OSMsgPool := OSMsgPool u\<rparr> = u" and I: "q_inv (q_set p q' v) B F X" "q_wait X P s"
  shows "run_inv pdata (q_set p q' v)"
proof -
  have e: "qs v = qs s" "sems v = sems s" using arg_cong [OF f, of qs] arg_cong [OF f, of sems] u by auto
  have "v\<lparr>qs := qs v, msgs := msgs v, OSMsgPool := OSMsgPool v\<rparr> = v" by simp
  moreover have "(q_set p q' v)\<lparr>sems := sems s, qs := qs s, msgs := msgs s, OSMsgPool := OSMsgPool s, TmrRdIx := TmrRdIx s\<rparr> =
      (v\<lparr>msgs := msgs u, OSMsgPool := OSMsgPool u\<rparr>)\<lparr>sems := sems s, qs := qs s, msgs := msgs s, OSMsgPool := OSMsgPool s, TmrRdIx := TmrRdIx s\<rparr>"
    by (simp add: q_set_def)
  moreover have "u\<lparr>sems := sems s, qs := qs s, msgs := msgs s, OSMsgPool := OSMsgPool s, TmrRdIx := TmrRdIx s\<rparr> = s" using u by (auto simp: OS_TS_GET_def)
  ultimately have "run_core pdata (q_set p q' v) R P W" using run_core_objs [OF _ C] f by metis
  moreover have d: "dom (qs (q_set p q' v)) = dom (qs s)" "sems (q_set p q' v) = sems s" using q e by (auto simp: q_set_def)
  have "sem_inv (q_set p q' v) P" using O unfolding obj_inv_def sem_inv_def d(2) by simp
  then have "obj_inv (q_set p q' v) P" using O I d unfolding obj_inv_def q_wait_def by auto
  ultimately show ?thesis unfolding run_inv_def by blast
qed

lemma run_q_post:
  assumes I: "run_inv pdata s" and q: "q_at s p q" and opt: "opt \<in> q_post_opts" "opt AND OS_OPT_POST_NO_SCHED = 0"
  shows "\<exists>e s'. OSQPost p v z opt s = Some (e, s') \<and> run_inv pdata s'"
proof -
  from I obtain R P W where C: "run_core pdata s R P W" and O: "obj_inv s P" by (auto simp: run_inv_def)
  then obtain B F X where i: "q_inv s B F X" "q_wait X P s" by (auto simp: obj_inv_def)
  have sq: "qs s p = Some q" using q by (simp add: q_at_def)
  show ?thesis
  proof (cases "P p = []")
    case P: True
    have ts: "run_inv pdata (snd (OS_TS_GET s))"
      using run_core_objs [OF _ C, of "snd (OS_TS_GET s)"] obj_inv_frame [OF run_frame_ts O, of P] unfolding run_inv_def by (auto simp: OS_TS_GET_def)
    note a = run_coreD(1) [OF C] q P opt(1)
    have "length (X p) \<le> unat (MQ_NbrEntriesSize q)" using q_inv_rel [OF i(1) sq] by (auto simp: mq_rel_def msgq_ok_def word_le_nat_alt)
    then consider (full) "length (X p) = unat (MQ_NbrEntriesSize q)" | (room) "length (X p) < unat (MQ_NbrEntriesSize q)" by linarith
    then show ?thesis
    proof cases
      case full
      from OSQPost_full [OF a i(1) this, of v z] ts show ?thesis by blast
    next
      case room
      show ?thesis
      proof (cases F)
        case Nil
        from OSQPost_pool_empty [OF a i(1) [unfolded Nil] room, of v z] ts show ?thesis by blast
      next
        case (Cons x F')
        from OSQPost_puts [OF a i(1) [unfolded Cons] room, of v z] obtain s'
          where s': "OSQPost p v z opt s = Some (OS_ERR_NONE, s')" "q_inv s' B F' (X(p := put_nodes opt x (X p)))" by blast
        from s'(1) [unfolded OSQPost_queue [OF a]] obtain q' r
          where r: "OS_MsgQPut q v z (if opt AND OS_OPT_POST_LIFO = 0 then OS_OPT_POST_FIFO else OS_OPT_POST_LIFO) (fst (OS_TS_GET s)) (snd (OS_TS_GET s)) = Some (OS_ERR_NONE, q', r)"
            "s' = q_set p q' r" by (auto simp: bind_eq_Some_conv)
        have "q_wait (X(p := put_nodes opt x (X p))) P s" using i(2) P by (simp add: q_wait_def)
        from run_q_set [OF C O sq _ OS_MsgQPut_frame [OF r(1)] _ this] s' r(2) show ?thesis by blast
      qed
    qed
  next
    case False
    from OSQPost_wakes [OF run_coreD(1) [OF C] q False run_distinct [OF C] opt(1), of v z] opt(2)
    obtain n s1 s' R' P' W' where 1: "OSQPost p v z opt s = Some (OS_ERR_NONE, s')" "sys s' R' P' W'" "\<forall>q. set (P' q) \<subseteq> set (P q)" "sw_frame s1 s'"
      "woken_all OS_STATUS_PEND_OK (v, z, fst (OS_TS_GET s)) (snd (OS_TS_GET s)) (take n (P p)) s1" "sched_done s1 R' s'" by blast
    from run_woken [OF C O 1(2,3,4,5,6)] 1(1) show ?thesis by blast
  qed
qed

lemma run_q_pend:
  assumes I: "run_inv pdata s" and q: "q_at s p q" and opt: "opt \<in> {OS_OPT_PEND_BLOCKING, OS_OPT_PEND_NON_BLOCKING}" and c: "OSTCBCurPtr s \<noteq> OSIdleTaskTCB s"
  shows "\<exists>r s'. OSQPend (pdata (OSTCBCurPtr s)) p timeout opt True p_ts s = Some (r, s') \<and> run_inv pdata s'"
proof -
  from I obtain R P W where C: "run_core pdata s R P W" and O: "obj_inv s P" by (auto simp: run_inv_def)
  then obtain B F X where i: "q_inv s B F X" "q_wait X P s" by (auto simp: obj_inv_def)
  have sq: "p \<noteq> NULL" "qs s p = Some q" using q by (simp_all add: q_at_def)
  let ?d = "pdata (OSTCBCurPtr s)"
  consider (get) x xs where "X p = x # xs" | (nb) "X p = []" "opt = OS_OPT_PEND_NON_BLOCKING" | (bl) "X p = []" "opt = OS_OPT_PEND_BLOCKING"
    using opt by (cases "X p") auto
  then show ?thesis
  proof cases
    case get
    from OSQPend_gets [OF run_coreD(1) [OF C] q i(1) get run_coreD(4) [OF C] opt, of ?d timeout p_ts] obtain s' m z ts
      where s': "OSQPend ?d p timeout opt True p_ts s = Some (Done (m, Some z, ts_out p_ts ts, OS_ERR_NONE), s')" "q_inv s' B (x # F) (X(p := xs))" by blast
    from s'(1) obtain ts' q' r where r: "OS_MsgQGet q s = Some (m, z, ts', OS_ERR_NONE, q', r)" "s' = q_set p q' r" by (rule OSQPend_got [OF q])
    have "P p = []" using i(2) sq(2) get by (auto simp: q_wait_def)
    then have "q_wait (X(p := xs)) P s" using i(2) by (simp add: q_wait_def)
    from run_q_set [OF C O sq(2) _ OS_MsgQGet_frame [OF r(1)] _ this] s' r(2) show ?thesis by blast
  next
    case nb
    from OSQPend_would_block [OF q i(1) nb(1) run_coreD(4) [OF C], of ?d timeout p_ts] nb(2) I show ?thesis by blast
  next
    case bl
    from run_cur(4) [OF C] obtain y where "OSIdleTaskTCB s \<in> set (R y)" by blast
    from OSQPend_blocks [OF run_coreD(1) [OF C] q i(1) bl(1) run_coreD(4,5) [OF C] this c [symmetric] run_cur(1-3) [OF C], of timeout p_ts]
    obtain s1 s' R' where 1: "OSQPend ?d p timeout OS_OPT_PEND_BLOCKING True p_ts s = Some (Blocked, s')"
      "blocked s R P W (OSTCBCurPtr s) ?d p OS_TASK_PEND_ON_Q timeout s1" "sw_frame s1 s'"
      "sys s' R' (P(p := prio_insert (pd_prio s1) ?d (P p))) (tick_block s (OSTCBCurPtr s) timeout s1 W)" "OSTCBCurPtr s' = top_task R'" by blast
    note b = blocked_run [OF C 1(2,3) sq(1) 1(4,5) c]
    have "length (X p) = 0" using bl(1) by simp
    then have "MQ_NbrEntries q = 0" using q_inv_rel [OF i(1) sq(2)] by (auto simp: mq_rel_def msgq_ok_def unat_eq_0)
    then have e: "Y p = []" if "q_inv s B' F' Y" for B' F' Y using q_inv_rel [OF that sq(2)] by (auto simp: mq_rel_def msgq_ok_def)
    have "p \<notin> dom (sems s)" using O sq(2) by (auto simp: obj_inv_def)
    then have "obj_inv s' (P(p := prio_insert (pd_prio s1) ?d (P p)))" by (intro obj_inv_wait [OF O b(2)]) (use e in auto)
    with b(1) 1(1) bl(2) show ?thesis unfolding run_inv_def by blast
  qed
qed

lemma run_time_dly:
  assumes I: "run_inv pdata s" and opt: "opt \<in> {OS_OPT_TIME_DLY, OS_OPT_TIME_TIMEOUT}" and c: "OSTCBCurPtr s \<noteq> OSIdleTaskTCB s"
  shows "\<exists>r s'. OSTimeDly dly opt s = Some (r, s') \<and> run_inv pdata s'"
proof (cases "dly = 0")
  case True
  from I obtain R P W where "run_core pdata s R P W" by (auto simp: run_inv_def)
  note n = run_coreD(4,5) [OF this]
  then have "OSTimeDly dly opt s = Some (Done OS_ERR_TIME_ZERO_DLY, s)" using True opt by (auto simp: OSTimeDly_def)
  with I show ?thesis by blast
next
  case dly: False
  from I obtain R P W where C: "run_core pdata s R P W" and O: "obj_inv s P" by (auto simp: run_inv_def)
  note n = run_coreD(4,5) [OF C]
  from run_coreD(3) [OF C] obtain t where t: "tcbs s (OSTCBCurPtr s) = Some t" by (auto simp: cur_rdy_def)
  have m: "tick_match t dly opt (OSTickCtr s) = Some (OSTickCtr s + dly)" using opt dly by (auto simp: tick_match_def)
  from run_cur(4) [OF C] obtain y where "OSIdleTaskTCB s \<in> set (R y)" by blast
  from time_dly_ok [OF run_coreD(1) [OF C] n this c [symmetric] t m]
  obtain s2 R' W' t' r where 1: "time_dly dly opt s = Some (Blocked, s2)" "sys s2 R' P W'" "OSTCBCurPtr s2 = top_task R'"
    "tcbs s2 (OSTCBCurPtr s) = Some t'" "TCB_TaskState t' = OS_TASK_STATE_DLY" "kframe {OSTCBCurPtr s} {} s r" "sw_frame r s2" by blast
  have "OSTCBCurPtr s \<in> dom (tcbs r)" using run_frame_kframe [OF 1(6)] t by (auto simp: run_frame_def)
  then obtain u where u: "tcbs r (OSTCBCurPtr s) = Some u" by blast
  have "pend_tbl t' = {}" using kinvD(7) [of s2 R' P W' "OSTCBCurPtr s" t'] 1(2,4,5) by (simp add: sys_def task_ok_def st_pend_def)
  moreover from sw_tcb [OF 1(7) u] 1(4) have "pend_tbl u = pend_tbl t'" by auto
  ultimately have "pend_tbl u \<subseteq> {pdata (OSTCBCurPtr s)}" by simp
  note r = run_core_block [OF C 1(2,6,7,3) c u this]
  have "obj_inv s2 P" by (rule obj_inv_frame [OF r(2) O]) simp
  with r(1) have "run_inv pdata s2" unfolding run_inv_def by blast
  moreover have "OSTimeDly dly opt s = Some (Blocked, s2)" using 1(1) n opt dly by (auto simp: OSTimeDly_def)
  ultimately show ?thesis by blast
qed

lemma tick_due_state:
  assumes K: "kinv s R P W" and x: "x \<in> set (W i)" "tcbs s x = Some t"
  shows "st_tick (TCB_TaskState t)"
proof -
  have "on_spoke s i x" using kinvD(4) [OF K] x(1) unfolding tick_rel_def tick_links_def by blast
  then show ?thesis using kinvD(7) [OF K x(2)] x(2) by (simp add: on_spoke_def task_ok_def)
qed

lemma run_tick:
  assumes I: "run_inv pdata s"
  shows "\<exists>s1 s'. OS_TickListUpdate s = Some s1 \<and> OSSched s1 = Some s' \<and> run_inv pdata s'"
proof -
  from I obtain R P W where C: "run_core pdata s R P W" and O: "obj_inv s P" by (auto simp: run_inv_def)
  define E where "E = {x. \<exists>i. x \<in> set (W i) \<and> due s (OSTickCtr s + 1) x}"
  from OS_TickListUpdate_full [OF run_coreD(2) [OF C]] obtain s1 R' P' D n v j k where 1: "OS_TickListUpdate s = Some s1"
    "kinv s1 R' P' (\<lambda>j. filter (\<lambda>y. y \<notin> E) (W j))" "\<forall>x \<in> E. \<exists>t t'. tcbs s x = Some t \<and> tcbs s1 x = Some t' \<and> timed_out t t'"
    "\<forall>x. x \<notin> E \<longrightarrow> map_option tcb_other (tcbs s1 x) = map_option tcb_other (tcbs s x)" "\<forall>ob. set (P' ob) \<subseteq> set (P ob)"
    "OSTCBCurPtr s1 = OSTCBCurPtr s" "OSPrioCur s1 = OSPrioCur s" "kframe E D (s\<lparr>TmrRdIx := n\<rparr>) v" "s1 = v\<lparr>OSTickCtr := OSTickCtr s + 1, TmrRdIx := j, OSTickTaskTimeMax := k\<rparr>"
    unfolding E_def by blast
  have nE: "x \<notin> E" if "tcbs s x = Some t" "TCB_TaskState t = OS_TASK_STATE_RDY" for x t
    using tick_due_state [OF run_coreD(2) [OF C] _ that(1)] that(2) by (auto simp: E_def st_tick_def)
  have o: "\<exists>t'. tcbs s1 x = Some t' \<and> pend_tbl t' = pend_tbl t \<and> TCB_TaskState t' = TCB_TaskState t \<and> TCB_Prio t' = TCB_Prio t" if "x \<notin> E" "tcbs s x = Some t" for x t
  proof -
    have "map_option tcb_other (tcbs s1 x) = Some (tcb_other t)" using 1(4) that by simp
    then obtain t' where "tcbs s1 x = Some t'" "tcb_other t' = tcb_other t" by auto
    then show ?thesis using tcb_other_eqD [of t' t] by blast
  qed
  from run_coreD(3) [OF C] obtain t where t: "tcbs s (OSTCBCurPtr s) = Some t" "TCB_Prio t = OSPrioCur s" "TCB_TaskState t = OS_TASK_STATE_RDY" by (auto simp: cur_rdy_def)
  have c: "cur_rdy s1" using o [OF nE [OF t(1,3)] t(1)] t(2,3) 1(6,7) by (auto simp: cur_rdy_def)
  have "run_frame s (s\<lparr>TmrRdIx := n\<rparr>)" "run_frame v s1" by (simp_all add: run_frame_def 1(9))
  then have f1: "run_frame s s1" using run_frame_kframe [OF 1(8)] run_frame_trans by blast
  have g: "OSIntNestingCtr s1 = 0" "OSSchedLockNestingCtr s1 = 0" using f1 run_coreD(4,5) [OF C] by (simp_all add: run_frame_def)
  have "R' (unat (OSPrioCur s1)) \<noteq> []" using cur_rdy_in [OF 1(2) c] by auto
  from OSSched_sys [OF 1(2) cur_rdy_ok [OF c] this c] obtain s' where s': "OSSched s1 = Some s'" "sys s' R' P' (\<lambda>j. filter (\<lambda>y. y \<notin> E) (W j))" "sw_frame s1 s'" "sched_done s1 R' s'" by blast
  have top: "OSTCBCurPtr s' = top_task R'" using s'(4) g by (simp add: sched_done_def)
  have f: "run_frame s s'" using f1 run_frame_sw [OF s'(3)] by (rule run_frame_trans)
  have "run_core pdata s' R' P' (\<lambda>j. filter (\<lambda>y. y \<notin> E) (W j))"
  proof (rule run_core_wake [OF C s'(2) f top, of E])
    show "\<exists>t'. tcbs s' x = Some t' \<and> pend_tbl t' = pend_tbl t \<and> TCB_TaskState t' = TCB_TaskState t" if "x \<notin> E" "tcbs s x = Some t" for x t
    proof -
      from o [OF that] obtain u where u: "tcbs s1 x = Some u" "pend_tbl u = pend_tbl t" "TCB_TaskState u = TCB_TaskState t" by blast
      with sw_tcb [OF s'(3) u(1)] show ?thesis by metis
    qed
    show "\<exists>t'. tcbs s' x = Some t' \<and> \<not> st_pend (TCB_TaskState t')" if x: "x \<in> E" for x
    proof -
      from 1(3) x obtain t u where "tcbs s1 x = Some u" "timed_out t u" by blast
      then have u: "tcbs s1 x = Some u" "TCB_TaskState u = TCB_TaskState t AND OS_TASK_STATE_BIT_SUSPENDED" by (simp_all add: timed_out_def)
      from sw_tcb [OF s'(3) u(1)] obtain t' where "tcbs s' x = Some t'" "TCB_TaskState t' = TCB_TaskState u" by blast
      with u(2) woken_not_pend show ?thesis by metis
    qed
    from C obtain i where "tcbs s (OSIdleTaskTCB s) = Some i" "TCB_TaskState i = OS_TASK_STATE_RDY" by (auto simp: run_core_def)
    then show "OSIdleTaskTCB s \<notin> E" by (rule nE)
  qed
  moreover have "obj_inv s' P'" by (rule obj_inv_frame [OF f O]) (use 1(5) in blast)
  ultimately show ?thesis using 1(1) s'(1) unfolding run_inv_def by blast
qed

subsection \<open>Runs\<close>

lemma kstep_run:
  assumes k: "kstep pdata s s'" and I: "run_inv pdata s"
  shows "run_inv pdata s'"
  using k
proof cases
  case (sem_post p m opt c e)
  then show ?thesis using run_sem_post [OF I sem_post(1,2)] by auto
next
  case (sem_pend p m opt timeout p_ts r)
  then show ?thesis using run_sem_pend [OF I sem_pend(1-3), of timeout p_ts] by auto
next
  case (q_post p q opt p_void msg_size e)
  then show ?thesis using run_q_post [OF I q_post(1-3), of p_void msg_size] by auto
next
  case (q_pend p q opt timeout p_ts rq)
  then show ?thesis using run_q_pend [OF I q_pend(1-3), of timeout p_ts] by auto
next
  case (time_dly opt dly rd)
  then show ?thesis using run_time_dly [OF I time_dly(1,2), of dly] by auto
next
  case (tick s1)
  then show ?thesis using run_tick [OF I] by auto
qed

lemma reach_run: "(kstep pdata)\<^sup>*\<^sup>* s s' \<Longrightarrow> run_inv pdata s \<Longrightarrow> run_inv pdata s'"
  by (induction rule: rtranclp_induct) (auto intro: kstep_run)

text \<open>What the invariant says of the structures of the code.\<close>

lemma rdy_member_prio:
  assumes "rdy_rel s R" "x \<in> set (R p)" "tcbs s x = Some t"
  shows "unat (TCB_Prio t) = p"
proof -
  have "p < OS_CFG_PRIO_MAX \<and> rdy_ok s p (R p)" using assms(1,2) unfolding rdy_rel_def rdy_links_def by (metis list.set(1) empty_iff not_le)
  then show ?thesis using assms(2,3) unfolding rdy_ok_def by fastforce
qed

lemma run_inv_top:
  assumes I: "run_inv pdata s"
  shows "\<exists>t. tcbs s (OSTCBCurPtr s) = Some t \<and> TCB_TaskState t = OS_TASK_STATE_RDY \<and>
    (\<forall>x u. tcbs s x = Some u \<longrightarrow> TCB_TaskState u = OS_TASK_STATE_RDY \<longrightarrow> TCB_Prio t \<le> TCB_Prio u)"
proof -
  from I obtain R P W where C: "run_core pdata s R P W" by (auto simp: run_inv_def)
  from run_coreD(3) [OF C] obtain t where t: "tcbs s (OSTCBCurPtr s) = Some t" "TCB_TaskState t = OS_TASK_STATE_RDY" by (auto simp: cur_rdy_def)
  have "TCB_Prio t \<le> TCB_Prio u" if "tcbs s x = Some u" "TCB_TaskState u = OS_TASK_STATE_RDY" for x u
  proof -
    have "x \<in> set (R (unat (TCB_Prio u)))" using kinvD(7) [OF run_coreD(2) [OF C] that(1)] that(2) by (simp add: task_ok_def)
    note top = rq.top_task_most_urgent [where R = R, OF this]
    have "unat (TCB_Prio t) = top_prio R"
      by (rule rdy_member_prio [OF kinvD(2) [OF run_coreD(2) [OF C]] top(1) [folded run_coreD(6) [OF C]] t(1)])
    with top(2) show ?thesis by (simp add: word_le_nat_alt)
  qed
  with t show ?thesis by blast
qed

lemma pend_list_head:
  assumes "pend_rel s P" "objs s p = Some b"
  shows "PL_HeadPtr (OBJ_PendList b) = NULL \<longleftrightarrow> P p = []"
proof -
  have "pend_ok s p (P p)" using assms unfolding pend_rel_def pend_links_def by (metis option.distinct(1))
  then have L: "linked PD_NextPtr PD_PrevPtr (pds s) (PL_HeadPtr (OBJ_PendList b)) (PL_TailPtr (OBJ_PendList b)) (P p)" using assms(2) by (auto simp: pend_ok_def)
  then show ?thesis by (rule linked_head_null)
qed

lemma run_inv_objs:
  assumes I: "run_inv pdata s" and b: "objs s p = Some b" and h: "PL_HeadPtr (OBJ_PendList b) \<noteq> NULL"
  shows "sems s p = Some m \<Longrightarrow> SEM_Ctr m = 0" "qs s p = Some q \<Longrightarrow> MQ_NbrEntries q = 0"
proof -
  from I obtain R P W where C: "run_core pdata s R P W" and O: "obj_inv s P" by (auto simp: run_inv_def)
  then obtain B F X where i: "sem_inv s P" "q_inv s B F X" "q_wait X P s" by (auto simp: obj_inv_def)
  have P: "P p \<noteq> []" using pend_list_head [OF kinvD(3) [OF run_coreD(2) [OF C]] b] h by simp
  show "SEM_Ctr m = 0" if "sems s p = Some m" using i(1) that P by (auto simp: sem_inv_def word_gt_0)
  show "MQ_NbrEntries q = 0" if "qs s p = Some q"
  proof -
    have "X p = []" using i(3) that P by (auto simp: q_wait_def)
    then show ?thesis using q_inv_rel [OF i(2) that] by (auto simp: mq_rel_def msgq_ok_def unat_eq_0)
  qed
qed

end
