(* ===== verification/Run_Props.thy ===== *)
theory Run_Props
  imports OS_Run Object_Props
begin

text \<open>The properties of whole runs of the kernel, with witnesses on the state \<open>demo\<close> of \<open>OS_Example\<close>.\<close>

definition demo_pdata :: "ptr \<Rightarrow> ptr" where
  "demo_pdata x = (if x = 3 then 10 else if x = 5 then 12 else if x = 1 then 11 else if x = 2 then 13 else 14)"

lemma demo_top: "top_task demo_R = 1"
proof -
  have "top_prio demo_R = 5" unfolding top_prio_def by (rule Least_equality) (auto simp: demo_R_def split: if_splits)
  then show ?thesis by (simp add: top_task_def demo_R_def)
qed

lemma demo_run: "run_inv demo_pdata demo"
proof -
  have "run_core demo_pdata demo demo_R demo_P demo_W"
    unfolding run_core_def
  proof (intro conjI)
    show "\<forall>x t. tcbs demo x = Some t \<longrightarrow> pend_tbl t \<subseteq> {demo_pdata x}"
      by (auto simp: demo_def demo_tcb_def tcb0_def pend_tbl_def demo_pdata_def split: if_splits)
    show "inj_on demo_pdata (dom (tcbs demo))" by (rule inj_onI) (auto simp: demo_pdata_def dest!: demo_tcbs split: if_splits)
    show "\<forall>x \<in> dom (tcbs demo). demo_pdata x \<in> dom (pds demo) \<and> demo_pdata x \<noteq> NULL" by (simp add: demo_pdata_def demo_def)
  qed (simp_all add: demo_sys demo_top, simp add: demo_def demo_tcb_def tcb0_def)
  moreover have "q_wait demo_X demo_P demo" by (auto simp: q_wait_def demo_X_def demo_def)
  then have "obj_inv demo demo_P" using demo_sem_inv demo_q_inv unfolding obj_inv_def by (auto simp: demo_def)
  ultimately show ?thesis unfolding run_inv_def by blast
qed



text \<open>C3. In every state a run reaches, each of the calls returns: no loop of the kernel runs forever and no pointer is
  followed that does not lead to an object.  A pending or delaying call needs a task other than the
  idle task to run.\<close>

theorem run_returns:
  assumes "run_inv pdata s0" "(kstep pdata)\<^sup>*\<^sup>* s0 s"
  shows "(\<exists>s1 s'. OS_TickListUpdate s = Some s1 \<and> OSSched s1 = Some s') \<and>
    (\<forall>p m opt. sem_at s p m \<longrightarrow> opt \<in> {OS_OPT_POST_1, OS_OPT_POST_ALL} \<longrightarrow> (\<exists>c e s'. OSSemPost p opt s = Some (c, e, s'))) \<and>
    (\<forall>p q v z opt. q_at s p q \<longrightarrow> opt \<in> q_post_opts \<longrightarrow> opt AND OS_OPT_POST_NO_SCHED = 0 \<longrightarrow> (\<exists>e s'. OSQPost p v z opt s = Some (e, s'))) \<and>
    (OSTCBCurPtr s \<noteq> OSIdleTaskTCB s \<longrightarrow>
      (\<forall>p m opt timeout p_ts. sem_at s p m \<longrightarrow> opt \<in> {OS_OPT_PEND_BLOCKING, OS_OPT_PEND_NON_BLOCKING} \<longrightarrow>
         (\<exists>r s'. OSSemPend (pdata (OSTCBCurPtr s)) p timeout opt p_ts s = Some (r, s'))) \<and>
      (\<forall>p q opt timeout p_ts. q_at s p q \<longrightarrow> opt \<in> {OS_OPT_PEND_BLOCKING, OS_OPT_PEND_NON_BLOCKING} \<longrightarrow>
         (\<exists>r s'. OSQPend (pdata (OSTCBCurPtr s)) p timeout opt True p_ts s = Some (r, s'))) \<and>
      (\<forall>dly opt. opt \<in> {OS_OPT_TIME_DLY, OS_OPT_TIME_TIMEOUT} \<longrightarrow> (\<exists>r s'. OSTimeDly dly opt s = Some (r, s'))))"
proof -
  note I = reach_run [OF assms(2,1)]
  show ?thesis
  proof (intro conjI impI allI)
    show "\<exists>s1 s'. OS_TickListUpdate s = Some s1 \<and> OSSched s1 = Some s'" using run_tick [OF I] by blast
  next
    fix p m opt assume "sem_at s p m" "opt \<in> {OS_OPT_POST_1, OS_OPT_POST_ALL}"
    from run_sem_post [OF I this] show "\<exists>c e s'. OSSemPost p opt s = Some (c, e, s')" by blast
  next
    fix p q v z opt assume "q_at s p q" "opt \<in> q_post_opts" "opt AND OS_OPT_POST_NO_SCHED = 0"
    from run_q_post [OF I this] show "\<exists>e s'. OSQPost p v z opt s = Some (e, s')" by blast
  next
    fix p m opt timeout p_ts assume "OSTCBCurPtr s \<noteq> OSIdleTaskTCB s" "sem_at s p m" "opt \<in> {OS_OPT_PEND_BLOCKING, OS_OPT_PEND_NON_BLOCKING}"
    from run_sem_pend [OF I this(2,3,1)] show "\<exists>r s'. OSSemPend (pdata (OSTCBCurPtr s)) p timeout opt p_ts s = Some (r, s')" by blast
  next
    fix p q opt timeout p_ts assume "OSTCBCurPtr s \<noteq> OSIdleTaskTCB s" "q_at s p q" "opt \<in> {OS_OPT_PEND_BLOCKING, OS_OPT_PEND_NON_BLOCKING}"
    from run_q_pend [OF I this(2,3,1)] show "\<exists>r s'. OSQPend (pdata (OSTCBCurPtr s)) p timeout opt True p_ts s = Some (r, s')" by blast
  next
    fix dly opt assume "OSTCBCurPtr s \<noteq> OSIdleTaskTCB s" "opt \<in> {OS_OPT_TIME_DLY, OS_OPT_TIME_TIMEOUT}"
    from run_time_dly [OF I this(2,1)] show "\<exists>r s'. OSTimeDly dly opt s = Some (r, s')" by blast
  qed
qed

theorem run_returns_witness:
  "(\<exists>r s'. OSSemPend 11 20 0 OS_OPT_PEND_BLOCKING False demo = Some (r, s')) \<and> (\<exists>e s'. OSQPost 23 77 4 OS_OPT_POST_FIFO demo = Some (e, s'))"
proof -
  note w = run_returns [OF demo_run rtranclp.rtrancl_refl, THEN conjunct2, THEN conjunct2]
  have c: "OSTCBCurPtr demo \<noteq> OSIdleTaskTCB demo" "demo_pdata (OSTCBCurPtr demo) = 11" by (simp_all add: demo_def demo_pdata_def)
  have "\<exists>r s'. OSSemPend 11 20 0 OS_OPT_PEND_BLOCKING False demo = Some (r, s')"
    using w [THEN conjunct2, THEN mp, OF c(1), THEN conjunct1, unfolded c(2), rule_format, OF demo_sem(1)] by simp
  moreover have "\<exists>e s'. OSQPost 23 77 4 OS_OPT_POST_FIFO demo = Some (e, s')"
    using w [THEN conjunct1, rule_format, OF demo_q(2), of OS_OPT_POST_FIFO] by (simp add: q_post_opts_def)
  ultimately show ?thesis ..
qed

end
