(* ===== verification/OS_Init.thy ===== *)
theory OS_Init
  imports OS_TaskLife OS_Tmr OS_Flag OS_Mem OS_Mutex OS_Run
begin

text \<open>
  Starting the kernel: \<^verbatim>\<open>OSInit\<close> with the creation of the idle, the tick, the statistics and the timer task, and
  \<^verbatim>\<open>OSStart\<close>.  \<open>OS_LINK\<close> holds the addresses the linker gives to the tables, stacks and functions of
  \<^verbatim>\<open>os_cfg_app.c\<close>.  Not modelled are the contents of the stacks, the counters of the statistics task and
  \<^verbatim>\<open>OSInitHook\<close>, which prepares the threads of the port.
\<close>

record OS_LINK =
  OSCfg_MsgPoolBasePtr :: ptr
  OSCfg_IdleTaskStkBasePtr :: ptr
  OSCfg_TickTaskStkBasePtr :: ptr
  OSCfg_StatTaskStkBasePtr :: ptr
  OSCfg_TmrTaskStkBasePtr :: ptr
  OS_IdleTask_addr :: ptr
  OS_TickTask_addr :: ptr
  OS_StatTask_addr :: ptr
  OS_TmrTask_addr :: ptr
  OSStatTaskTCB_addr :: ptr

abbreviation (input) OSCfg_MsgPoolSize :: OS_MSG_QTY where "OSCfg_MsgPoolSize \<equiv> 100"
abbreviation (input) OSCfg_IdleTaskStkSize :: CPU_STK_SIZE where "OSCfg_IdleTaskStkSize \<equiv> 64"
abbreviation (input) OSCfg_IdleTaskStkLimit :: CPU_STK_SIZE where "OSCfg_IdleTaskStkLimit \<equiv> 6"
abbreviation (input) OSCfg_TickTaskPrio :: OS_PRIO where "OSCfg_TickTaskPrio \<equiv> 10"
abbreviation (input) OSCfg_TickTaskStkSize :: CPU_STK_SIZE where "OSCfg_TickTaskStkSize \<equiv> 128"
abbreviation (input) OSCfg_TickTaskStkLimit :: CPU_STK_SIZE where "OSCfg_TickTaskStkLimit \<equiv> 12"
abbreviation (input) OSCfg_StatTaskPrio :: OS_PRIO where "OSCfg_StatTaskPrio \<equiv> 11"
abbreviation (input) OSCfg_StatTaskStkSize :: CPU_STK_SIZE where "OSCfg_StatTaskStkSize \<equiv> 128"
abbreviation (input) OSCfg_StatTaskStkLimit :: CPU_STK_SIZE where "OSCfg_StatTaskStkLimit \<equiv> 12"

definition OS_IdleTaskInit :: "OS_LINK \<Rightarrow> os \<Rightarrow> (OS_ERR \<times> os) option" where
  "OS_IdleTaskInit lk s =
     OSTaskCreate (OSIdleTaskTCB s) ''uC/OS-III Idle Task'' (OS_IdleTask_addr lk) NULL (of_nat (OS_CFG_PRIO_MAX - 1))
       (OSCfg_IdleTaskStkBasePtr lk) OSCfg_IdleTaskStkLimit OSCfg_IdleTaskStkSize 0 0 NULL
       (OS_OPT_TASK_STK_CHK OR OS_OPT_TASK_STK_CLR OR OS_OPT_TASK_NO_TLS) s"

definition OS_TickTaskInit :: "OS_LINK \<Rightarrow> os \<Rightarrow> (OS_ERR \<times> os) option" where
  "OS_TickTaskInit lk s = do {
     s \<leftarrow> OS_TickListInit (s\<lparr>OSTickCtr := 0, OSTickTaskTimeMax := 0\<rparr>);
     if OSCfg_TickTaskStkBasePtr lk = NULL then Some (OS_ERR_TICK_STK_INVALID, s)
     else if OSCfg_TickTaskStkSize < OSCfg_StkSizeMin then Some (OS_ERR_TICK_STK_SIZE_INVALID, s)
     else if unat OSCfg_TickTaskPrio \<ge> OS_CFG_PRIO_MAX - 1 then Some (OS_ERR_TICK_PRIO_INVALID, s)
     else OSTaskCreate (OSTickTaskTCB s) ''uC/OS-III Tick Task'' (OS_TickTask_addr lk) NULL OSCfg_TickTaskPrio
            (OSCfg_TickTaskStkBasePtr lk) OSCfg_TickTaskStkLimit OSCfg_TickTaskStkSize 0 0 NULL
            (OS_OPT_TASK_STK_CHK OR OS_OPT_TASK_STK_CLR OR OS_OPT_TASK_NO_TLS) s
   }"

definition OS_StatTaskInit :: "OS_LINK \<Rightarrow> os \<Rightarrow> (OS_ERR \<times> os) option" where
  "OS_StatTaskInit lk s =
     (let s = s\<lparr>OSStatResetFlag := False\<rparr> in
      if OSCfg_StatTaskStkBasePtr lk = NULL then Some (OS_ERR_STAT_STK_INVALID, s)
      else if OSCfg_StatTaskStkSize < OSCfg_StkSizeMin then Some (OS_ERR_STAT_STK_SIZE_INVALID, s)
      else if unat OSCfg_StatTaskPrio \<ge> OS_CFG_PRIO_MAX - 1 then Some (OS_ERR_STAT_PRIO_INVALID, s)
      else OSTaskCreate (OSStatTaskTCB_addr lk) ''uC/OS-III Stat Task'' (OS_StatTask_addr lk) NULL OSCfg_StatTaskPrio
             (OSCfg_StatTaskStkBasePtr lk) OSCfg_StatTaskStkLimit OSCfg_StatTaskStkSize 0 0 NULL
             (OS_OPT_TASK_STK_CHK OR OS_OPT_TASK_STK_CLR) s)"

text \<open>\<^verbatim>\<open>if (*p_err != OS_ERR_NONE) return;\<close>\<close>

definition and_then :: "(OS_ERR \<times> os) option \<Rightarrow> (os \<Rightarrow> (OS_ERR \<times> os) option) \<Rightarrow> (OS_ERR \<times> os) option" where
  "and_then r k = do { (err, s) \<leftarrow> r; if err \<noteq> OS_ERR_NONE then Some (err, s) else k s }"

definition OSInit :: "OS_LINK \<Rightarrow> os \<Rightarrow> (OS_ERR \<times> os) option" where
  "OSInit lk s = do {
     let s = s\<lparr>OSIntNestingCtr := 0, OSRunning := OS_STATE_OS_STOPPED, OSSchedLockNestingCtr := 0, OSTCBCurPtr := NULL,
       OSTCBHighRdyPtr := NULL, OSPrioCur := 0, OSPrioHighRdy := 0, OSSchedLockTimeBegin := 0, OSSchedLockTimeMax := 0,
       OSSchedLockTimeMaxCur := 0, OSSchedRoundRobinEn := False, OSSchedRoundRobinDfltTimeQuanta := OSCfg_TickRate_Hz div 10,
       OSTaskRegNextAvailID := 0\<rparr>;
     s \<leftarrow> OS_RdyListInit (OS_PrioInit s);
     and_then (Some (OS_FlagInit s)) (\<lambda>s.
     and_then (Some (OS_MemInit s)) (\<lambda>s.
     and_then (OS_MsgPoolInit (OSCfg_MsgPoolBasePtr lk) OSCfg_MsgPoolSize s) (\<lambda>s.
     and_then (Some (OS_MutexInit s)) (\<lambda>s.
     and_then (Some (OS_QInit s)) (\<lambda>s.
     and_then (Some (OS_SemInit s)) (\<lambda>s.
     and_then (Some (OS_TaskInit s)) (\<lambda>s.
     and_then (OS_IdleTaskInit lk s) (\<lambda>s.
     and_then (OS_TickTaskInit lk s) (\<lambda>s.
     and_then (OS_StatTaskInit lk s) (\<lambda>s.
     and_then (OS_TmrInit (OSCfg_TmrTaskStkBasePtr lk) (OS_TmrTask_addr lk) s) (\<lambda>s.
     Some (OS_ERR_NONE, s))))))))))))
   }"

definition OSVersion :: "OS_ERR \<times> 16 word" where
  "OSVersion = (OS_ERR_NONE, 30300)"

text \<open>What the tick task does each time the tick interrupt has signalled it; \<open>err\<close> is the error code of its
  \<^verbatim>\<open>OSTaskSemPend\<close>.\<close>

definition OS_TickTask_round :: "OS_ERR \<Rightarrow> os \<Rightarrow> os option" where
  "OS_TickTask_round err s = (if err = OS_ERR_NONE \<and> OSRunning s = OS_STATE_OS_RUNNING then OS_TickListUpdate s else Some s)"

subsection \<open>Memory that is not in use yet\<close>

text \<open>The control blocks outside \<open>L\<close> are memory whose contents are arbitrary.  An operation that succeeds
  on a part of the memory does the same on the whole and leaves the rest alone.\<close>

definition live :: "ptr set \<Rightarrow> os \<Rightarrow> os" where
  "live L s = s\<lparr>tcbs := tcbs s |` L\<rparr>"

definition grow :: "(ptr \<rightharpoonup> OS_TCB) \<Rightarrow> os \<Rightarrow> os" where
  "grow h s = s\<lparr>tcbs := h ++ tcbs s\<rparr>"

definition local_op :: "(os \<Rightarrow> os option) \<Rightarrow> bool" where
  "local_op f \<longleftrightarrow> (\<forall>s s' h. f s = Some s' \<longrightarrow> f (grow h s) = Some (grow h s') \<and> OSRunning s' = OSRunning s)"

lemma local_opD: "local_op f \<Longrightarrow> f s = Some s' \<Longrightarrow> f (grow h s) = Some (grow h s')" "local_op f \<Longrightarrow> f s = Some s' \<Longrightarrow> OSRunning s' = OSRunning s"
  by (simp_all add: local_op_def)

lemma local_tcb_mod: "local_op (tcb_mod p f)"
  by (auto simp: local_op_def tcb_mod_def mod_at_def grow_def map_add_upd split: option.splits)

lemma local_rdy_mod: "local_op (rdy_mod p f)"
  by (auto simp: local_op_def rdy_mod_def mod_at_def grow_def split: option.splits)

lemma local_bind: "local_op f \<Longrightarrow> local_op g \<Longrightarrow> local_op (\<lambda>s. f s \<bind> g)"
  by (fastforce simp: local_op_def bind_eq_Some_conv)

lemma grow_sel [simp]:
  "OSPrioTbl (grow h s) = OSPrioTbl s" "OSRdyList (grow h s) = OSRdyList s" "OSTaskDbgListPtr (grow h s) = OSTaskDbgListPtr s" "OSTaskQty (grow h s) = OSTaskQty s"
  "OSRunning (grow h s) = OSRunning s" "OSIntNestingCtr (grow h s) = OSIntNestingCtr s" "OSIdleTaskTCB (grow h s) = OSIdleTaskTCB s"
  "OSSchedRoundRobinDfltTimeQuanta (grow h s) = OSSchedRoundRobinDfltTimeQuanta s" "OS_TS_GET (grow h s) = (fst (OS_TS_GET s), grow h (snd (OS_TS_GET s)))"
  by (simp_all add: grow_def OS_TS_GET_def)

lemma grow_tcb: "tcbs s p = Some t \<Longrightarrow> tcbs (grow h s) p = Some t"
  by (simp add: grow_def)

lemma local_PrioInsert: "local_op (OS_PrioInsert prio)"
  by (auto simp: local_op_def OS_PrioInsert_def Let_def grow_def split: if_splits)

lemma local_get:
  "(\<And>t. local_op (k t)) \<Longrightarrow> local_op (\<lambda>s. tcbs s p \<bind> (\<lambda>t. k t s))"
  "(\<And>l. local_op (k' l)) \<Longrightarrow> local_op (\<lambda>s. OSRdyList s i \<bind> (\<lambda>l. k' l s))"
  "(\<And>q. local_op (k'' q)) \<Longrightarrow> local_op (\<lambda>s. k'' (OSTaskDbgListPtr s) s)"
  by (auto simp: local_op_def bind_eq_Some_conv dest: grow_tcb)

lemma local_if: "local_op f \<Longrightarrow> local_op g \<Longrightarrow> local_op (\<lambda>s. if c then f s else g s)"
  by (simp add: local_op_def)

lemma local_InsertTail: "local_op (OS_RdyListInsertTail p)"
  unfolding OS_RdyListInsertTail_def [abs_def] Let_def
  by (intro local_get(1,2) local_if local_bind local_rdy_mod local_tcb_mod)

lemma local_DbgListAdd: "local_op (OS_TaskDbgListAdd p)"
proof -
  have "local_op (\<lambda>s. Some (s\<lparr>OSTaskDbgListPtr := p\<rparr>))" by (simp add: local_op_def grow_def)
  moreover have "local_op (\<lambda>s. if OSTaskDbgListPtr s = NULL then tcb_mod p (\<lambda>t. t\<lparr>TCB_DbgNextPtr := NULL\<rparr>) s
      else tcb_mod p (\<lambda>t. t\<lparr>TCB_DbgNextPtr := OSTaskDbgListPtr s\<rparr>) s \<bind> (\<lambda>s. tcb_mod (OSTaskDbgListPtr s) (\<lambda>t. t\<lparr>TCB_DbgPrevPtr := p\<rparr>) s))"
    by (rule local_get(3), intro local_if local_bind local_tcb_mod local_get(3))
  ultimately show ?thesis unfolding OS_TaskDbgListAdd_def [abs_def] by (intro local_bind local_tcb_mod)
qed

lemma local_TaskCreate:
  assumes r: "OSRunning s \<noteq> OS_STATE_OS_RUNNING" and n: "OSIntNestingCtr s = 0" and a: "p_tcb \<noteq> NULL" "p_task \<noteq> NULL" "p_stk_base \<noteq> NULL" "stk_size \<ge> OSCfg_StkSizeMin" "stk_limit < stk_size"
      "unat prio < OS_CFG_PRIO_MAX" "unat prio = OS_CFG_PRIO_MAX - 1 \<Longrightarrow> p_tcb = OSIdleTaskTCB s"
    and c: "OSTaskCreate p_tcb p_name p_task p_arg prio p_stk_base stk_limit stk_size q_size time_quanta p_ext opt s = Some (e, s')"
  shows "OSTaskCreate p_tcb p_name p_task p_arg prio p_stk_base stk_limit stk_size q_size time_quanta p_ext opt (grow h s) = Some (e, grow h s')"
proof -
  let ?fill = "\<lambda>t. t\<lparr>TCB_TaskEntryAddr := p_task, TCB_TaskEntryArg := p_arg, TCB_NamePtr := p_name, TCB_Prio := prio,
               TCB_StkPtr := p_stk_base, TCB_StkLimitPtr := p_stk_base + unat stk_limit, TCB_TimeQuanta := time_quanta,
               TCB_TimeQuantaCtr := if time_quanta = 0 then OSSchedRoundRobinDfltTimeQuanta s else time_quanta,
               TCB_ExtPtr := p_ext, TCB_StkBasePtr := p_stk_base, TCB_StkSize := stk_size, TCB_Opt := opt,
               TCB_RegTbl := replicate (unat OS_CFG_TASK_REG_TBL_SIZE) 0, TCB_MsgQ := OS_MsgQInit q_size\<rparr>"
  let ?fin = "\<lambda>s. if OSRunning s \<noteq> OS_STATE_OS_RUNNING then Some (OS_ERR_NONE, s\<lparr>OSTaskQty := OSTaskQty s + 1\<rparr>)
      else OSSched (s\<lparr>OSTaskQty := OSTaskQty s + 1\<rparr>) \<bind> (\<lambda>s. Some (OS_ERR_NONE, s))"
  let ?f = "\<lambda>u. OS_TaskInitTCB p_tcb u \<bind> (\<lambda>s. tcb_mod p_tcb ?fill s \<bind> (\<lambda>s. OS_PrioInsert prio s \<bind> (\<lambda>s. OS_RdyListInsertTail p_tcb s \<bind> OS_TaskDbgListAdd p_tcb)))"
  have g: "(OSIntNestingCtr s > 0) = False" "(p_tcb = NULL) = False" "(p_task = NULL) = False" "(p_stk_base = NULL) = False" "(stk_size < OSCfg_StkSizeMin) = False"
    "(stk_limit \<ge> stk_size) = False" "(unat prio \<ge> OS_CFG_PRIO_MAX) = False" "(unat prio = OS_CFG_PRIO_MAX - 1 \<and> p_tcb \<noteq> OSIdleTaskTCB s) = False"
    using n a by auto
  have b: "OSTaskCreate p_tcb p_name p_task p_arg prio p_stk_base stk_limit stk_size q_size time_quanta p_ext opt u = ?f u \<bind> ?fin"
    if "OSIntNestingCtr u = OSIntNestingCtr s" "OSIdleTaskTCB u = OSIdleTaskTCB s" "OSSchedRoundRobinDfltTimeQuanta u = OSSchedRoundRobinDfltTimeQuanta s" for u
  proof -
    have d: "OSSchedRoundRobinDfltTimeQuanta v = OSSchedRoundRobinDfltTimeQuanta s" if "OS_TaskInitTCB p_tcb u = Some v" for v
      using that \<open>OSSchedRoundRobinDfltTimeQuanta u = _\<close> by (auto simp: OS_TaskInitTCB_def tcb_mod_def OS_TS_GET_def)
    show ?thesis unfolding OSTaskCreate_def that(1,2) g if_False
      by (cases "OS_TaskInitTCB p_tcb u") (simp_all add: Let_def d cong: if_cong split del: if_split)
  qed
  have i: "local_op (OS_TaskInitTCB p_tcb)"
  proof -
    have "OSRunning (snd (OS_TS_GET u)) = OSRunning u" for u by (simp add: OS_TS_GET_def)
    then show ?thesis using local_opD [OF local_tcb_mod] by (auto simp: local_op_def OS_TaskInitTCB_def Let_def case_prod_unfold)
  qed
  have l: "local_op ?f" by (intro local_bind i local_tcb_mod local_PrioInsert local_InsertTail local_DbgListAdd)
  from c [unfolded b [OF refl refl refl]] obtain v where v: "?f s = Some v" "?fin v = Some (e, s')" unfolding bind_eq_Some_conv by blast
  have "OSRunning v = OSRunning s" by (rule local_opD(2) [OF l v(1)])
  then show ?thesis unfolding b [OF grow_sel(6,7,8)] local_opD(1) [OF l v(1)] using v(2) r by (auto simp: grow_def)
qed

definition init_frame :: "os \<Rightarrow> os \<Rightarrow> bool" where
  "init_frame s s' \<longleftrightarrow> dom (tcbs s') = dom (tcbs s) \<and>
     s'\<lparr>tcbs := tcbs s, OSRdyList := OSRdyList s, OSPrioTbl := OSPrioTbl s, OSTaskDbgListPtr := OSTaskDbgListPtr s, OSTaskQty := OSTaskQty s, TmrRdIx := TmrRdIx s\<rparr> = s"

text \<open>Creating a task before the kernel runs.\<close>

lemma create_live:
  assumes K: "kinv (live L s) R P W" and D: "task_dbg_rel (live L s) xs" and L: "L \<subseteq> dom (tcbs s)" "finite (dom (tcbs s))" "card (dom (tcbs s)) \<le> 65535"
    and x: "x \<noteq> NULL" "x \<in> dom (tcbs s)" "x \<notin> L" and n: "OSIntNestingCtr s = 0" "OSRunning s = OS_STATE_OS_STOPPED"
    and a: "p_task \<noteq> NULL" "p_stk_base \<noteq> NULL" "stk_size \<ge> OSCfg_StkSizeMin" "stk_limit < stk_size" "unat prio < OS_CFG_PRIO_MAX" "unat prio = OS_CFG_PRIO_MAX - 1 \<Longrightarrow> x = OSIdleTaskTCB s"
  shows "\<exists>s'. OSTaskCreate x p_name p_task p_arg prio p_stk_base stk_limit stk_size q_size time_quanta p_ext opt s = Some (OS_ERR_NONE, s') \<and>
    kinv (live (insert x L) s') (R(unat prio := R (unat prio) @ [x])) P W \<and> task_dbg_rel (live (insert x L) s') (x # xs) \<and> init_frame s s'"
proof -
  let ?M = "insert x L" let ?u = "live (insert x L) s"
  from x(2) obtain t0 where t0: "tcbs s x = Some t0" by blast
  have e: "?u\<lparr>tcbs := (tcbs ?u)(x := None)\<rparr> = live L s" using x(3) by (auto simp: live_def restrict_map_def fun_eq_iff)
  have du: "dom (tcbs ?u) = ?M" using L(1) x(2) by (auto simp: live_def)
  have cd: "card ?M \<le> 65535" using card_mono [OF L(2), of ?M] L(1,3) x(2) by simp
  have un: "OSIntNestingCtr ?u = 0" "OSRunning ?u = OS_STATE_OS_STOPPED" "OSIdleTaskTCB ?u = OSIdleTaskTCB s" "tcbs ?u x = Some t0" "OSTaskQty ?u = OSTaskQty s"
    using n t0 by (simp_all add: live_def)
  define t where "t = created_tcb p_name p_task p_arg prio p_stk_base stk_limit stk_size q_size time_quanta (OSSchedRoundRobinDfltTimeQuanta ?u) p_ext opt (fst (OS_TS_GET ?u)) t0"
  have ix: "unat prio = OS_CFG_PRIO_MAX - 1 \<Longrightarrow> x = OSIdleTaskTCB ?u" using a(6) un(3) by simp
  from task_create_ok [of ?u x R P W t0 xs, unfolded e du, OF K x(1) un(4) cd D un(1) a(1-5) ix t_def refl]
  obtain s3 h s1 where c: "OSTaskCreate x p_name p_task p_arg prio p_stk_base stk_limit stk_size q_size time_quanta p_ext opt ?u = Some (OS_ERR_NONE, s1)"
    "rdy_frame ((snd (OS_TS_GET ?u))\<lparr>tcbs := (tcbs ?u)(x \<mapsto> t)\<rparr>) s3" "same_tcbs (tcbs s3) h" "s1 = s3\<lparr>tcbs := h, OSTaskDbgListPtr := x, OSTaskQty := OSTaskQty s + 1\<rparr>"
    "kinv s1 (R(unat prio := R (unat prio) @ [x])) P W" "task_dbg_rel s1 (x # xs)" unfolding un(2,5) by auto
  have g: "grow (tcbs s) ?u = s" by (auto simp: grow_def live_def map_add_def restrict_map_def fun_eq_iff split: option.splits)
  have nr: "OSRunning ?u \<noteq> OS_STATE_OS_RUNNING" using un(2) by simp
  have run: "OSTaskCreate x p_name p_task p_arg prio p_stk_base stk_limit stk_size q_size time_quanta p_ext opt s = Some (OS_ERR_NONE, grow (tcbs s) s1)"
    using local_TaskCreate [OF nr un(1) x(1) a(1-5) ix c(1), of "tcbs s"] unfolding g .
  have "dom (tcbs s3) = dom ((tcbs ?u)(x \<mapsto> t))" by (rule map_option_dom [of tcb_core]) (use c(2) in \<open>simp add: rdy_frame_def\<close>)
  moreover have "dom h = dom (tcbs s3)" by (rule map_option_dom [of tcb_less_dbg]) (use c(3) in \<open>simp add: same_tcbs_def\<close>)
  ultimately have d1: "dom (tcbs s1) = ?M" using c(4) du by auto
  have l: "live ?M (grow (tcbs s) s1) = s1"
  proof -
    have "((tcbs s) ++ tcbs s1) |` ?M = tcbs s1" using d1 by (auto simp: fun_eq_iff restrict_map_def map_add_def split: option.splits)
    then show ?thesis by (simp add: live_def grow_def)
  qed
  have "init_frame s (grow (tcbs s) s1)"
  proof -
    have "dom (tcbs (grow (tcbs s) s1)) = dom (tcbs s)" using d1 L(1) x(2) by (auto simp: grow_def)
    moreover have "s3\<lparr>tcbs := Map.empty, OSRdyList := Map.empty, OSPrioTbl := []\<rparr> = s\<lparr>TmrRdIx := Suc (TmrRdIx s), tcbs := Map.empty, OSRdyList := Map.empty, OSPrioTbl := []\<rparr>"
      using c(2) by (simp add: rdy_frame_def os_less_rdy_def OS_TS_GET_def live_def)
    then have "(s3\<lparr>tcbs := Map.empty, OSRdyList := Map.empty, OSPrioTbl := []\<rparr>)\<lparr>tcbs := tcbs s, OSRdyList := OSRdyList s, OSPrioTbl := OSPrioTbl s, OSTaskDbgListPtr := OSTaskDbgListPtr s, OSTaskQty := OSTaskQty s, TmrRdIx := TmrRdIx s\<rparr> = s"
      by simp
    then have "s3\<lparr>tcbs := tcbs s, OSRdyList := OSRdyList s, OSPrioTbl := OSPrioTbl s, OSTaskDbgListPtr := OSTaskDbgListPtr s, OSTaskQty := OSTaskQty s, TmrRdIx := TmrRdIx s\<rparr> = s" by simp
    ultimately show ?thesis by (simp add: init_frame_def grow_def c(4))
  qed
  with run l c(5,6) show ?thesis by metis
qed

subsection \<open>The lists and wheels after initialisation\<close>

text \<open>The static data at reset: the tables exist, and what \<^verbatim>\<open>OSInit\<close> does not set before it creates the first
  task has the zero the C language gives to static variables.\<close>

definition at_reset :: "OS_LINK \<Rightarrow> os \<Rightarrow> bool" where
  "at_reset lk s \<longleftrightarrow> (\<forall>i < OS_CFG_PRIO_MAX. OSRdyList s i \<noteq> None) \<and> (\<forall>i < unat OSCfg_TmrWheelSize. OSCfg_TmrWheel s i \<noteq> None) \<and>
     (\<forall>i < unat OSCfg_TickWheelSize. \<exists>k. OSCfg_TickWheel s i = Some k \<and> SPK_FirstPtr k = NULL \<and> SPK_NbrEntries k = 0) \<and>
     (\<forall>ob b. objs s ob = Some b \<longrightarrow> OBJ_PendList b = \<lparr>PL_HeadPtr = NULL, PL_TailPtr = NULL, PL_NbrEntries = 0\<rparr>) \<and>
     (\<forall>p q. qs s p = Some q \<longrightarrow> MQ_NbrEntries q = 0) \<and> (\<forall>p t. tmrs s p = Some t \<longrightarrow> TMR_Type t = 0 \<and> TMR_State t = OS_TMR_STATE_UNUSED) \<and>
     OSCfg_MsgPoolBasePtr lk \<noteq> NULL \<and> {OSCfg_MsgPoolBasePtr lk..<OSCfg_MsgPoolBasePtr lk + unat OSCfg_MsgPoolSize} \<subseteq> dom (msgs s) \<and>
     NULL \<notin> dom (tmrs s) \<and> finite (dom (tmrs s)) \<and> card (dom (tmrs s)) \<le> 65535 \<and>
     finite (dom (tcbs s)) \<and> card (dom (tcbs s)) \<le> 65535 \<and> finite (dom (pds s)) \<and> card (dom (pds s)) \<le> 65535"

definition init_tasks :: "OS_LINK \<Rightarrow> os \<Rightarrow> ptr list" where
  "init_tasks lk s = [OSTmrTaskTCB s, OSStatTaskTCB_addr lk, OSTickTaskTCB s, OSIdleTaskTCB s]"

definition linked_ok :: "OS_LINK \<Rightarrow> os \<Rightarrow> bool" where
  "linked_ok lk s \<longleftrightarrow> distinct (init_tasks lk s) \<and> NULL \<notin> set (init_tasks lk s) \<and> set (init_tasks lk s) \<subseteq> dom (tcbs s) \<and>
     NULL \<notin> {OSCfg_IdleTaskStkBasePtr lk, OSCfg_TickTaskStkBasePtr lk, OSCfg_StatTaskStkBasePtr lk, OSCfg_TmrTaskStkBasePtr lk,
       OS_IdleTask_addr lk, OS_TickTask_addr lk, OS_StatTask_addr lk, OS_TmrTask_addr lk}"

lemma for_each_spk_mod:
  assumes "\<forall>i < n. OSCfg_TickWheel s i \<noteq> None"
  shows "for_each [0..<n] (\<lambda>i. spk_mod i f) s = Some (s\<lparr>OSCfg_TickWheel := \<lambda>i. if i < n then map_option f (OSCfg_TickWheel s i) else OSCfg_TickWheel s i\<rparr>)"
  using assms
proof (induction n)
  case (Suc n)
  then obtain l where "OSCfg_TickWheel s n = Some l" by blast
  moreover have "for_each [0..<n] (\<lambda>i. spk_mod i f) s = Some (s\<lparr>OSCfg_TickWheel := \<lambda>i. if i < n then map_option f (OSCfg_TickWheel s i) else OSCfg_TickWheel s i\<rparr>)"
    using Suc by simp
  ultimately show ?case by (auto simp: for_each_append fun_upd_def fun_eq_iff less_Suc_eq)
qed simp

lemma for_each_tspk_mod:
  assumes "\<forall>i < n. OSCfg_TmrWheel s i \<noteq> None"
  shows "for_each [0..<n] (\<lambda>i. tspk_mod i f) s = Some (s\<lparr>OSCfg_TmrWheel := \<lambda>i. if i < n then map_option f (OSCfg_TmrWheel s i) else OSCfg_TmrWheel s i\<rparr>)"
  using assms
proof (induction n)
  case (Suc n)
  then obtain l where "OSCfg_TmrWheel s n = Some l" by blast
  moreover have "for_each [0..<n] (\<lambda>i. tspk_mod i f) s = Some (s\<lparr>OSCfg_TmrWheel := \<lambda>i. if i < n then map_option f (OSCfg_TmrWheel s i) else OSCfg_TmrWheel s i\<rparr>)"
    using Suc by simp
  ultimately show ?case by (auto simp: for_each_append fun_upd_def fun_eq_iff less_Suc_eq)
qed simp

text \<open>The kernel invariant of a kernel without tasks.\<close>

lemma kinv_empty:
  assumes r: "rdy_rel s (\<lambda>_. [])" and w: "\<forall>i < unat OSCfg_TickWheelSize. \<exists>k. OSCfg_TickWheel s i = Some k \<and> SPK_FirstPtr k = NULL \<and> SPK_NbrEntries k = 0"
    and o: "\<forall>ob b. objs s ob = Some b \<longrightarrow> OBJ_PendList b = \<lparr>PL_HeadPtr = NULL, PL_TailPtr = NULL, PL_NbrEntries = 0\<rparr>" and p: "finite (dom (pds s))" "card (dom (pds s)) \<le> 65535"
  shows "kinv (live {} s) (\<lambda>_. []) (\<lambda>_. []) (\<lambda>_. [])"
proof -
  have "rdy_rel (live {} s) (\<lambda>_. [])" using r by (auto simp: rdy_rel_def rdy_links_def rdy_ok_def rdy_map_def prio_set_def live_def linked_def)
  moreover have "pend_rel (live {} s) (\<lambda>_. [])" using o by (auto simp: pend_rel_def pend_links_def pend_ok_def pend_sorted_def live_def linked_def)
  moreover have "tick_rel (live {} s) (\<lambda>_. [])" using w by (auto simp: tick_rel_def tick_links_def tick_ok_def tick_order_def on_spoke_def live_def linked_def)
  moreover have "mem_bound (live {} s)" using p by (simp add: mem_bound_def live_def)
  ultimately show ?thesis by (simp add: kinv_def krel_def pend_owned_def live_def)
qed

text \<open>The tick wheel may be initialised while no task waits for a time.\<close>

lemma tick_init_ok:
  assumes K: "kinv (live L s) R P (\<lambda>_. [])"
  shows "\<exists>w. OS_TickListInit (s\<lparr>OSTickCtr := 0, OSTickTaskTimeMax := 0\<rparr>) = Some (s\<lparr>OSTickCtr := 0, OSTickTaskTimeMax := 0, OSCfg_TickWheel := w\<rparr>) \<and>
    kinv (live L (s\<lparr>OSTickCtr := 0, OSTickTaskTimeMax := 0, OSCfg_TickWheel := w\<rparr>)) R P (\<lambda>_. [])"
proof -
  let ?s = "s\<lparr>OSTickCtr := 0, OSTickTaskTimeMax := 0\<rparr>" let ?f = "\<lambda>k. k\<lparr>SPK_FirstPtr := NULL, SPK_NbrEntries := 0, SPK_NbrEntriesMax := 0\<rparr>"
  define w where "w = (\<lambda>i. if i < unat OSCfg_TickWheelSize then map_option ?f (OSCfg_TickWheel s i) else OSCfg_TickWheel s i)"
  have T: "tick_rel (live L s) (\<lambda>_. [])" by (rule kinvD(4) [OF K])
  then have ex: "\<forall>i < unat OSCfg_TickWheelSize. OSCfg_TickWheel s i \<noteq> None" by (auto simp: tick_rel_def tick_links_def tick_ok_def live_def)
  then have "OS_TickListInit ?s = Some (?s\<lparr>OSCfg_TickWheel := w\<rparr>)" unfolding OS_TickListInit_def w_def using for_each_spk_mod [of "unat OSCfg_TickWheelSize" ?s ?f] by (simp cong: if_cong)
  moreover have "tick_rel (live L (?s\<lparr>OSCfg_TickWheel := w\<rparr>)) (\<lambda>_. [])"
    using T ex by (auto simp: tick_rel_def tick_links_def tick_ok_def tick_order_def on_spoke_def live_def w_def linked_def)
  then have "kinv (live L (?s\<lparr>OSCfg_TickWheel := w\<rparr>)) R P (\<lambda>_. [])" (is "kinv ?v _ _ _")
  proof -
    assume t: "tick_rel ?v (\<lambda>_. [])"
    have "rdy_rel ?v R = rdy_rel (live L s) R" by (simp add: rdy_rel_def rdy_links_def rdy_ok_def rdy_map_def prio_set_def live_def)
    moreover have "pd_prio ?v = pd_prio (live L s)" by (rule ext) (simp add: pd_prio_def live_def split: option.split)
    then have "pend_rel ?v P = pend_rel (live L s) P" by (simp add: pend_rel_def pend_links_def pend_ok_def [abs_def] pend_sorted_def live_def)
    moreover have "task_ok ?v R P = task_ok (live L s) R P" by (intro ext) (simp add: task_ok_def pend_tbl_ok_def live_def)
    moreover have "pend_owned ?v P = pend_owned (live L s) P" "mem_bound ?v = mem_bound (live L s)" "tcbs ?v = tcbs (live L s)" by (simp_all add: pend_owned_def mem_bound_def live_def)
    ultimately show ?thesis using K t by (simp add: kinv_def krel_def)
  qed
  ultimately show ?thesis by auto
qed

subsection \<open>Starting the kernel tasks\<close>

definition booting :: "ptr set \<Rightarrow> (nat \<Rightarrow> ptr list) \<Rightarrow> ptr list \<Rightarrow> os \<Rightarrow> bool" where
  "booting L R xs s \<longleftrightarrow> kinv (live L s) R (\<lambda>_. []) (\<lambda>_. []) \<and> task_dbg_rel (live L s) xs \<and> L \<subseteq> dom (tcbs s) \<and> finite (dom (tcbs s)) \<and> card (dom (tcbs s)) \<le> 65535 \<and>
     OSIntNestingCtr s = 0 \<and> OSRunning s = OS_STATE_OS_STOPPED"

lemma init_frameD:
  assumes "init_frame s s'"
  shows "OSIntNestingCtr s' = OSIntNestingCtr s" "OSRunning s' = OSRunning s" "OSSchedLockNestingCtr s' = OSSchedLockNestingCtr s" "dom (tcbs s') = dom (tcbs s)"
    "OSIdleTaskTCB s' = OSIdleTaskTCB s" "OSTickTaskTCB s' = OSTickTaskTCB s" "OSTmrTaskTCB s' = OSTmrTaskTCB s" "qs s' = qs s" "sems s' = sems s" "msgs s' = msgs s"
    "OSMsgPool s' = OSMsgPool s" "tmrs s' = tmrs s" "OSCfg_TmrWheel s' = OSCfg_TmrWheel s" "OSTmrTickCtr s' = OSTmrTickCtr s" "OSTickCtr s' = OSTickCtr s" "pds s' = pds s"
proof -
  have e: "s'\<lparr>tcbs := tcbs s, OSRdyList := OSRdyList s, OSPrioTbl := OSPrioTbl s, OSTaskDbgListPtr := OSTaskDbgListPtr s, OSTaskQty := OSTaskQty s, TmrRdIx := TmrRdIx s\<rparr> = s"
    and d: "dom (tcbs s') = dom (tcbs s)" using assms by (simp_all add: init_frame_def)
  show "OSIntNestingCtr s' = OSIntNestingCtr s" "OSRunning s' = OSRunning s" "OSSchedLockNestingCtr s' = OSSchedLockNestingCtr s" "dom (tcbs s') = dom (tcbs s)"
    "OSIdleTaskTCB s' = OSIdleTaskTCB s" "OSTickTaskTCB s' = OSTickTaskTCB s" "OSTmrTaskTCB s' = OSTmrTaskTCB s" "qs s' = qs s" "sems s' = sems s" "msgs s' = msgs s"
    "OSMsgPool s' = OSMsgPool s" "tmrs s' = tmrs s" "OSCfg_TmrWheel s' = OSCfg_TmrWheel s" "OSTmrTickCtr s' = OSTmrTickCtr s" "OSTickCtr s' = OSTickCtr s" "pds s' = pds s"
    using arg_cong [OF e, of OSIntNestingCtr] arg_cong [OF e, of OSRunning] arg_cong [OF e, of OSSchedLockNestingCtr] d arg_cong [OF e, of OSIdleTaskTCB]
      arg_cong [OF e, of OSTickTaskTCB] arg_cong [OF e, of OSTmrTaskTCB] arg_cong [OF e, of qs] arg_cong [OF e, of sems] arg_cong [OF e, of msgs] arg_cong [OF e, of OSMsgPool]
      arg_cong [OF e, of tmrs] arg_cong [OF e, of OSCfg_TmrWheel] arg_cong [OF e, of OSTmrTickCtr] arg_cong [OF e, of OSTickCtr] arg_cong [OF e, of pds] by simp_all
qed

lemma boot_create:
  assumes B: "booting L R xs s" and x: "x \<noteq> NULL" "x \<in> dom (tcbs s)" "x \<notin> L"
    and a: "p_task \<noteq> NULL" "p_stk_base \<noteq> NULL" "stk_size \<ge> OSCfg_StkSizeMin" "stk_limit < stk_size" "unat prio < OS_CFG_PRIO_MAX" "unat prio = OS_CFG_PRIO_MAX - 1 \<Longrightarrow> x = OSIdleTaskTCB s"
  shows "\<exists>s'. OSTaskCreate x p_name p_task p_arg prio p_stk_base stk_limit stk_size q_size time_quanta p_ext opt s = Some (OS_ERR_NONE, s') \<and>
    booting (insert x L) (R(unat prio := R (unat prio) @ [x])) (x # xs) s' \<and> init_frame s s'"
proof -
  have b: "kinv (live L s) R (\<lambda>_. []) (\<lambda>_. [])" "task_dbg_rel (live L s) xs" "L \<subseteq> dom (tcbs s)" "finite (dom (tcbs s))" "card (dom (tcbs s)) \<le> 65535"
    "OSIntNestingCtr s = 0" "OSRunning s = OS_STATE_OS_STOPPED" using B by (simp_all add: booting_def)
  from create_live [OF b(1-5) x b(6,7) a] obtain s' where
    s': "OSTaskCreate x p_name p_task p_arg prio p_stk_base stk_limit stk_size q_size time_quanta p_ext opt s = Some (OS_ERR_NONE, s')"
      "kinv (live (insert x L) s') (R(unat prio := R (unat prio) @ [x])) (\<lambda>_. []) (\<lambda>_. [])" "task_dbg_rel (live (insert x L) s') (x # xs)" "init_frame s s'" by blast
  note f = init_frameD [OF s'(4)]
  have "booting (insert x L) (R(unat prio := R (unat prio) @ [x])) (x # xs) s'" using s'(2,3) b(3-7) x(2) f(1,2,4) by (simp add: booting_def)
  with s'(1,4) show ?thesis by blast
qed

text \<open>Variables the invariant does not read.\<close>

lemma booting_cong:
  assumes "tcbs s' = tcbs s" "pds s' = pds s" "objs s' = objs s" "OSRdyList s' = OSRdyList s" "OSPrioTbl s' = OSPrioTbl s" "OSCfg_TickWheel s' = OSCfg_TickWheel s" "OSTickCtr s' = OSTickCtr s"
    "OSTaskDbgListPtr s' = OSTaskDbgListPtr s" "OSIntNestingCtr s' = OSIntNestingCtr s" "OSRunning s' = OSRunning s"
  shows "booting L R xs s' = booting L R xs s"
proof -
  have "kinv (live L s') R P W = kinv (live L s) R P W" for P W by (rule kinv_cong) (simp_all add: live_def assms)
  moreover have "task_dbg_rel (live L s') xs = task_dbg_rel (live L s) xs" by (simp add: task_dbg_rel_def live_def assms)
  ultimately show ?thesis by (simp add: booting_def assms)
qed

lemma idle_boot:
  assumes B: "booting {} R xs s" and lk: "linked_ok lk s"
  shows "\<exists>s'. OS_IdleTaskInit lk s = Some (OS_ERR_NONE, s') \<and> booting {OSIdleTaskTCB s} (R(31 := R 31 @ [OSIdleTaskTCB s])) (OSIdleTaskTCB s # xs) s' \<and> init_frame s s'"
proof -
  have "OSIdleTaskTCB s \<noteq> NULL" "OSIdleTaskTCB s \<in> dom (tcbs s)" "OS_IdleTask_addr lk \<noteq> NULL" "OSCfg_IdleTaskStkBasePtr lk \<noteq> NULL" using lk by (auto simp: linked_ok_def init_tasks_def)
  from boot_create [OF B this(1,2) _ this(3,4), of 64 6 31] show ?thesis by (auto simp: OS_IdleTaskInit_def word_less_nat_alt word_le_nat_alt)
qed

lemma tick_boot:
  assumes B: "booting L R xs s" and lk: "linked_ok lk s" and x: "OSTickTaskTCB s \<notin> L"
  shows "\<exists>w s'. OS_TickTaskInit lk s = Some (OS_ERR_NONE, s') \<and> booting (insert (OSTickTaskTCB s) L) (R(10 := R 10 @ [OSTickTaskTCB s])) (OSTickTaskTCB s # xs) s' \<and>
    init_frame (s\<lparr>OSTickCtr := 0, OSTickTaskTimeMax := 0, OSCfg_TickWheel := w\<rparr>) s'"
proof -
  have l: "OSTickTaskTCB s \<noteq> NULL" "OSTickTaskTCB s \<in> dom (tcbs s)" "OS_TickTask_addr lk \<noteq> NULL" "OSCfg_TickTaskStkBasePtr lk \<noteq> NULL" using lk by (auto simp: linked_ok_def init_tasks_def)
  have "kinv (live L s) R (\<lambda>_. []) (\<lambda>_. [])" using B by (simp add: booting_def)
  from tick_init_ok [OF this] obtain w where
    w: "OS_TickListInit (s\<lparr>OSTickCtr := 0, OSTickTaskTimeMax := 0\<rparr>) = Some (s\<lparr>OSTickCtr := 0, OSTickTaskTimeMax := 0, OSCfg_TickWheel := w\<rparr>)"
      "kinv (live L (s\<lparr>OSTickCtr := 0, OSTickTaskTimeMax := 0, OSCfg_TickWheel := w\<rparr>)) R (\<lambda>_. []) (\<lambda>_. [])" by blast
  let ?s = "s\<lparr>OSTickCtr := 0, OSTickTaskTimeMax := 0, OSCfg_TickWheel := w\<rparr>"
  have "booting L R xs ?s" using B w(2) by (simp add: booting_def task_dbg_rel_def live_def)
  from boot_create [OF this, of "OSTickTaskTCB s" "OS_TickTask_addr lk" "OSCfg_TickTaskStkBasePtr lk" 128 12 10] l x
  show ?thesis by (intro exI [of _ w]) (auto simp: OS_TickTaskInit_def w(1) word_less_nat_alt word_le_nat_alt)
qed

lemma stat_boot:
  assumes B: "booting L R xs s" and lk: "linked_ok lk s" and x: "OSStatTaskTCB_addr lk \<notin> L"
  shows "\<exists>s'. OS_StatTaskInit lk s = Some (OS_ERR_NONE, s') \<and> booting (insert (OSStatTaskTCB_addr lk) L) (R(11 := R 11 @ [OSStatTaskTCB_addr lk])) (OSStatTaskTCB_addr lk # xs) s' \<and>
    init_frame (s\<lparr>OSStatResetFlag := False\<rparr>) s'"
proof -
  have l: "OSStatTaskTCB_addr lk \<noteq> NULL" "OSStatTaskTCB_addr lk \<in> dom (tcbs s)" "OS_StatTask_addr lk \<noteq> NULL" "OSCfg_StatTaskStkBasePtr lk \<noteq> NULL" using lk by (auto simp: linked_ok_def init_tasks_def)
  have "booting L R xs (s\<lparr>OSStatResetFlag := False\<rparr>)" using B booting_cong [of "s\<lparr>OSStatResetFlag := False\<rparr>" s] by simp
  from boot_create [OF this, of "OSStatTaskTCB_addr lk" "OS_StatTask_addr lk" "OSCfg_StatTaskStkBasePtr lk" 128 12 11] l x
  show ?thesis by (auto simp: OS_StatTaskInit_def word_less_nat_alt word_le_nat_alt)
qed

text \<open>The timer module: an empty wheel and the timer task.\<close>

definition tmr_reset :: "os \<Rightarrow> os" where
  "tmr_reset s = s\<lparr>OSTmrDbgListPtr := NULL, OSTmrUpdateCnt := 100, OSTmrUpdateCtr := 100, OSTmrTickCtr := 0, OSTmrTaskTimeMax := 0,
     OSCfg_TmrWheel := (\<lambda>i. if i < unat OSCfg_TmrWheelSize then map_option (\<lambda>k. k\<lparr>TSPK_NbrEntries := 0, TSPK_NbrEntriesMax := 0, TSPK_FirstPtr := NULL\<rparr>) (OSCfg_TmrWheel s i)
       else OSCfg_TmrWheel s i)\<rparr>"

lemma tmr_boot:
  assumes B: "booting L R xs s" and lk: "linked_ok lk s" and x: "OSTmrTaskTCB s \<notin> L" and w: "\<forall>i < unat OSCfg_TmrWheelSize. OSCfg_TmrWheel s i \<noteq> None"
  shows "\<exists>s'. OS_TmrInit (OSCfg_TmrTaskStkBasePtr lk) (OS_TmrTask_addr lk) s = Some (OS_ERR_NONE, s') \<and>
    booting (insert (OSTmrTaskTCB s) L) (R(11 := R 11 @ [OSTmrTaskTCB s])) (OSTmrTaskTCB s # xs) s' \<and> init_frame (tmr_reset s) s'"
proof -
  have l: "OSTmrTaskTCB s \<noteq> NULL" "OSTmrTaskTCB s \<in> dom (tcbs s)" "OS_TmrTask_addr lk \<noteq> NULL" "OSCfg_TmrTaskStkBasePtr lk \<noteq> NULL" using lk by (auto simp: linked_ok_def init_tasks_def)
  let ?s = "s\<lparr>OSTmrDbgListPtr := NULL, OSTmrUpdateCnt := 100, OSTmrUpdateCtr := 100, OSTmrTickCtr := 0, OSTmrTaskTimeMax := 0\<rparr>"
  have f: "for_each [0..<unat OSCfg_TmrWheelSize] (\<lambda>i. tspk_mod i (\<lambda>k. k\<lparr>TSPK_NbrEntries := 0, TSPK_NbrEntriesMax := 0, TSPK_FirstPtr := NULL\<rparr>)) ?s = Some (tmr_reset s)"
    unfolding tmr_reset_def using for_each_tspk_mod [of "unat OSCfg_TmrWheelSize" ?s] w by (simp cong: if_cong)
  have "booting L R xs (tmr_reset s)" using B booting_cong [of "tmr_reset s" s] by (simp add: tmr_reset_def)
  moreover have "tcbs (tmr_reset s) = tcbs s" "OSIdleTaskTCB (tmr_reset s) = OSIdleTaskTCB s" "OSTmrTaskTCB (tmr_reset s) = OSTmrTaskTCB s" by (simp_all add: tmr_reset_def)
  ultimately show ?thesis using boot_create [of L R xs "tmr_reset s" "OSTmrTaskTCB s" "OS_TmrTask_addr lk" "OSCfg_TmrTaskStkBasePtr lk" 128 12 11] l x f
    by (auto simp: OS_TmrInit_def word_less_nat_alt word_le_nat_alt)
qed

lemma tmr_inv_reset:
  assumes w: "\<forall>i < unat OSCfg_TmrWheelSize. OSCfg_TmrWheel s i \<noteq> None" and t: "\<forall>p t. tmrs s p = Some t \<longrightarrow> TMR_Type t = 0 \<and> TMR_State t = OS_TMR_STATE_UNUSED"
    and d: "NULL \<notin> dom (tmrs s)" "finite (dom (tmrs s))" "card (dom (tmrs s)) \<le> 65535"
  shows "tmr_inv (tmr_reset s) (\<lambda>_. [])"
proof -
  have z: "OS_OBJ_TYPE_TMR \<noteq> 0" by code_simp
  have "tmr_links (tmr_reset s) (\<lambda>_. [])" using w t by (auto simp: tmr_links_def tmr_ok_def on_tspoke_def tmr_reset_def linked_def)
  then have "tmr_rel (tmr_reset s) (\<lambda>_. [])" using d by (simp add: tmr_rel_def tmr_reset_def)
  moreover have "tmr_sound c (tmr_core t)" if "tmrs s x = Some t" for x t c using assms(2) that z by (simp add: tmr_sound_def tmr_core_def)
  ultimately show ?thesis by (auto simp: tmr_inv_def tmr_view_def tmr_reset_def)
qed

subsection \<open>The whole initialisation\<close>

definition init_R :: "OS_LINK \<Rightarrow> os \<Rightarrow> nat \<Rightarrow> ptr list" where
  "init_R lk s = (\<lambda>_. [])(31 := [OSIdleTaskTCB s], 10 := [OSTickTaskTCB s], 11 := [OSStatTaskTCB_addr lk, OSTmrTaskTCB s])"

lemma and_then_Some [simp]: "and_then (Some (OS_ERR_NONE, s)) k = k s"
  by (simp add: and_then_def)

lemma linked_ok_cong:
  assumes "dom (tcbs s') = dom (tcbs s)" "OSIdleTaskTCB s' = OSIdleTaskTCB s" "OSTickTaskTCB s' = OSTickTaskTCB s" "OSTmrTaskTCB s' = OSTmrTaskTCB s"
  shows "linked_ok lk s' = linked_ok lk s"
  by (simp add: linked_ok_def init_tasks_def assms)

text \<open>Up to the first task.\<close>

lemma rdy_init_shape:
  assumes "\<forall>i < OS_CFG_PRIO_MAX. OSRdyList s i \<noteq> None"
  shows "\<exists>l tb. OS_RdyListInit (OS_PrioInit s) = Some (s\<lparr>OSPrioTbl := tb, OSRdyList := l\<rparr>) \<and> rdy_rel (s\<lparr>OSPrioTbl := tb, OSRdyList := l\<rparr>) (\<lambda>_. [])"
proof -
  let ?f = "\<lambda>l. l\<lparr>RL_NbrEntries := 0, RL_HeadPtr := NULL, RL_TailPtr := NULL\<rparr>"
  let ?s = "s\<lparr>OSPrioTbl := replicate OS_PRIO_TBL_SIZE 0, OSRdyList := \<lambda>i. if i < OS_CFG_PRIO_MAX then map_option ?f (OSRdyList s i) else OSRdyList s i\<rparr>"
  have e: "OS_RdyListInit (OS_PrioInit s) = Some ?s"
    unfolding OS_RdyListInit_def OS_PrioInit_def using for_each_rdy_mod [of OS_CFG_PRIO_MAX "s\<lparr>OSPrioTbl := replicate OS_PRIO_TBL_SIZE 0\<rparr>" ?f] assms by (simp cong: if_cong)
  from OS_RdyListInit_ok [OF assms] obtain s' where s': "OS_RdyListInit (OS_PrioInit s) = Some s'" "rdy_rel s' (\<lambda>_. [])" by blast
  from s'(1) e have "s' = ?s" by (simp only: option.inject)
  with s'(2) have "rdy_rel ?s (\<lambda>_. [])" by (simp only:)
  with e show ?thesis by blast
qed

lemma init_objs_ok:
  assumes A: "at_reset lk s"
  shows "\<exists>s2. OSInit lk s = and_then (OS_IdleTaskInit lk s2) (\<lambda>s. and_then (OS_TickTaskInit lk s) (\<lambda>s. and_then (OS_StatTaskInit lk s) (\<lambda>s.
      and_then (OS_TmrInit (OSCfg_TmrTaskStkBasePtr lk) (OS_TmrTask_addr lk) s) (\<lambda>s. Some (OS_ERR_NONE, s))))) \<and>
    booting {} (\<lambda>_. []) [] s2 \<and> q_inv s2 {OSCfg_MsgPoolBasePtr lk..<OSCfg_MsgPoolBasePtr lk + 100} [OSCfg_MsgPoolBasePtr lk..<OSCfg_MsgPoolBasePtr lk + 100] (\<lambda>_. []) \<and>
    tcbs s2 = tcbs s \<and> OSIdleTaskTCB s2 = OSIdleTaskTCB s \<and> OSTickTaskTCB s2 = OSTickTaskTCB s \<and> OSTmrTaskTCB s2 = OSTmrTaskTCB s \<and> OSSchedLockNestingCtr s2 = 0 \<and>
    qs s2 = qs s \<and> sems s2 = sems s \<and> tmrs s2 = tmrs s \<and> OSCfg_TmrWheel s2 = OSCfg_TmrWheel s \<and> pds s2 = pds s"
proof -
  let ?s0 = "s\<lparr>OSIntNestingCtr := 0, OSRunning := OS_STATE_OS_STOPPED, OSSchedLockNestingCtr := 0, OSTCBCurPtr := NULL,
       OSTCBHighRdyPtr := NULL, OSPrioCur := 0, OSPrioHighRdy := 0, OSSchedLockTimeBegin := 0, OSSchedLockTimeMax := 0,
       OSSchedLockTimeMaxCur := 0, OSSchedRoundRobinEn := False, OSSchedRoundRobinDfltTimeQuanta := OSCfg_TickRate_Hz div 10,
       OSTaskRegNextAvailID := 0\<rparr>"
  let ?b = "OSCfg_MsgPoolBasePtr lk"
  from A rdy_init_shape [of ?s0] obtain l tb where r: "OS_RdyListInit (OS_PrioInit ?s0) = Some (?s0\<lparr>OSPrioTbl := tb, OSRdyList := l\<rparr>)"
    "rdy_rel (?s0\<lparr>OSPrioTbl := tb, OSRdyList := l\<rparr>) (\<lambda>_. [])" by (auto simp: at_reset_def)
  let ?s1 = "?s0\<lparr>OSPrioTbl := tb, OSRdyList := l, OSFlagDbgListPtr := NULL, OSFlagQty := 0, OSMemDbgListPtr := NULL, OSMemQty := 0\<rparr>"
  have "?b \<noteq> NULL" "{?b..<?b + unat OSCfg_MsgPoolSize} \<subseteq> dom (msgs ?s1)" using A by (simp_all add: at_reset_def)
  from OS_MsgPoolInit_ok [OF this(1) _ this(2), of 0] obtain u where u: "OS_MsgPoolInit ?b OSCfg_MsgPoolSize ?s1 = Some (OS_ERR_NONE, u)"
    "mq_rel u 100 [?b..<?b + 100] (OS_MsgQInit 0) []" "msg_frame {?b..<?b + 100} ?s1 u" by auto
  define m where "m = msgs u" define pl where "pl = OSMsgPool u"
  have ue: "u = ?s1\<lparr>msgs := m, OSMsgPool := pl\<rparr>"
  proof -
    have "u\<lparr>msgs := msgs ?s1, OSMsgPool := OSMsgPool ?s1\<rparr> = ?s1" using u(3) by (simp add: msg_frame_def)
    then have "(u\<lparr>msgs := msgs ?s1, OSMsgPool := OSMsgPool ?s1\<rparr>)\<lparr>msgs := m, OSMsgPool := pl\<rparr> = ?s1\<lparr>msgs := m, OSMsgPool := pl\<rparr>" by (rule arg_cong)
    then show ?thesis by (simp add: m_def pl_def)
  qed
  let ?s2 = "u\<lparr>OSMutexDbgListPtr := NULL, OSMutexQty := 0, OSQDbgListPtr := NULL, OSQQty := 0, OSSemDbgListPtr := NULL, OSSemQty := 0,
    OSTaskDbgListPtr := NULL, OSTaskQty := 0, OSTaskCtxSwCtr := 0\<rparr>"
  have run: "OSInit lk s = and_then (OS_IdleTaskInit lk ?s2) (\<lambda>s. and_then (OS_TickTaskInit lk s) (\<lambda>s. and_then (OS_StatTaskInit lk s) (\<lambda>s.
      and_then (OS_TmrInit (OSCfg_TmrTaskStkBasePtr lk) (OS_TmrTask_addr lk) s) (\<lambda>s. Some (OS_ERR_NONE, s)))))"
    using r(1) u(1) by (simp add: OSInit_def OS_FlagInit_def OS_MemInit_def OS_MutexInit_def OS_QInit_def OS_SemInit_def OS_TaskInit_def Let_def)
  have k: "kinv (live {} ?s2) (\<lambda>_. []) (\<lambda>_. []) (\<lambda>_. [])"
  proof (rule kinv_empty)
    show "rdy_rel ?s2 (\<lambda>_. [])" using r(2) by (simp add: ue rdy_rel_def rdy_links_def rdy_ok_def rdy_map_def prio_set_def)
  qed (use A in \<open>simp_all add: at_reset_def ue\<close>)
  have b: "booting {} (\<lambda>_. []) [] ?s2" using A k by (simp add: booting_def task_dbg_rel_def linked_def live_def at_reset_def ue)
  have q: "q_inv ?s2 {?b..<?b + 100} [?b..<?b + 100] (\<lambda>_. [])"
    using A u(2) unfolding q_inv_def by (auto simp: at_reset_def mq_rel_def pool_ok_def msgq_ok_def ue)
  show ?thesis by (intro exI [of _ ?s2] conjI run b q) (simp_all add: ue)
qed


lemma OSInit_ok:
  assumes A: "at_reset lk s" and lk: "linked_ok lk s"
  shows "\<exists>s'. OSInit lk s = Some (OS_ERR_NONE, s') \<and> booting (set (init_tasks lk s)) (init_R lk s) (init_tasks lk s) s' \<and>
    q_inv s' {OSCfg_MsgPoolBasePtr lk..<OSCfg_MsgPoolBasePtr lk + 100} [OSCfg_MsgPoolBasePtr lk..<OSCfg_MsgPoolBasePtr lk + 100] (\<lambda>_. []) \<and> tmr_inv s' (\<lambda>_. []) \<and>
    OSSchedLockNestingCtr s' = 0 \<and> OSIdleTaskTCB s' = OSIdleTaskTCB s \<and> qs s' = qs s \<and> sems s' = sems s \<and> pds s' = pds s \<and> dom (tcbs s') = dom (tcbs s) \<and> OSTickCtr s' = 0"
proof -
  let ?i = "OSIdleTaskTCB s" let ?k = "OSTickTaskTCB s" let ?a = "OSStatTaskTCB_addr lk" let ?m = "OSTmrTaskTCB s"
  have d: "distinct [?m, ?a, ?k, ?i]" using lk by (simp add: linked_ok_def init_tasks_def)
  from init_objs_ok [OF A] obtain s2 where 2: "OSInit lk s = and_then (OS_IdleTaskInit lk s2) (\<lambda>s. and_then (OS_TickTaskInit lk s) (\<lambda>s. and_then (OS_StatTaskInit lk s) (\<lambda>s.
      and_then (OS_TmrInit (OSCfg_TmrTaskStkBasePtr lk) (OS_TmrTask_addr lk) s) (\<lambda>s. Some (OS_ERR_NONE, s)))))" "booting {} (\<lambda>_. []) [] s2"
      "q_inv s2 {OSCfg_MsgPoolBasePtr lk..<OSCfg_MsgPoolBasePtr lk + 100} [OSCfg_MsgPoolBasePtr lk..<OSCfg_MsgPoolBasePtr lk + 100] (\<lambda>_. [])"
      "tcbs s2 = tcbs s" "OSIdleTaskTCB s2 = ?i" "OSTickTaskTCB s2 = ?k" "OSTmrTaskTCB s2 = ?m" "OSSchedLockNestingCtr s2 = 0"
      "qs s2 = qs s" "sems s2 = sems s" "tmrs s2 = tmrs s" "OSCfg_TmrWheel s2 = OSCfg_TmrWheel s" "pds s2 = pds s" by blast
  have "linked_ok lk s2" using lk linked_ok_cong [of s2 s] 2(4-7) by simp
  from idle_boot [OF 2(2) this] obtain s3 where 3: "OS_IdleTaskInit lk s2 = Some (OS_ERR_NONE, s3)" "booting {?i} ((\<lambda>_. [])(31 := [?i])) [?i] s3" "init_frame s2 s3"
    unfolding 2(5) by auto
  note f3 = init_frameD [OF 3(3)]
  have t3: "OSTickTaskTCB s3 = ?k" using f3 2 by simp
  have "linked_ok lk s3" using lk linked_ok_cong [of s3 s] f3 2(4-7) by simp
  from tick_boot [OF 3(2) this, unfolded t3] d obtain w s4 where 4: "OS_TickTaskInit lk s3 = Some (OS_ERR_NONE, s4)" "booting {?k, ?i} ((\<lambda>_. [])(31 := [?i], 10 := [?k])) [?k, ?i] s4"
    "init_frame (s3\<lparr>OSTickCtr := 0, OSTickTaskTimeMax := 0, OSCfg_TickWheel := w\<rparr>) s4" by auto
  note f4 = init_frameD [OF 4(3), simplified]
  have "linked_ok lk s4" using lk linked_ok_cong [of s4 s] f4 f3 2(4-7) by simp
  from stat_boot [OF 4(2) this] d obtain s5 where 5: "OS_StatTaskInit lk s4 = Some (OS_ERR_NONE, s5)" "booting {?a, ?k, ?i} ((\<lambda>_. [])(31 := [?i], 10 := [?k], 11 := [?a])) [?a, ?k, ?i] s5"
    "init_frame (s4\<lparr>OSStatResetFlag := False\<rparr>) s5" by auto
  note f5 = init_frameD [OF 5(3), simplified]
  have t5: "OSTmrTaskTCB s5 = ?m" using f5 f4 f3 2(7) by simp
  have lk5: "linked_ok lk s5" using lk linked_ok_cong [of s5 s] f5 f4 f3 2(4-7) by simp
  have w5: "\<forall>i < unat OSCfg_TmrWheelSize. OSCfg_TmrWheel s5 i \<noteq> None" using A unfolding f5(13) f4(13) f3(13) 2(12) by (simp add: at_reset_def)
  from tmr_boot [OF 5(2) lk5 _ w5, unfolded t5] d obtain s6 where 6: "OS_TmrInit (OSCfg_TmrTaskStkBasePtr lk) (OS_TmrTask_addr lk) s5 = Some (OS_ERR_NONE, s6)"
    "booting {?m, ?a, ?k, ?i} ((\<lambda>_. [])(31 := [?i], 10 := [?k], 11 := [?a, ?m])) [?m, ?a, ?k, ?i] s6" "init_frame (tmr_reset s5) s6" by auto
  note f6 = init_frameD [OF 6(3)]
  have tr: "qs (tmr_reset u) = qs u" "sems (tmr_reset u) = sems u" "msgs (tmr_reset u) = msgs u" "OSMsgPool (tmr_reset u) = OSMsgPool u" "pds (tmr_reset u) = pds u" "tcbs (tmr_reset u) = tcbs u"
    "OSIdleTaskTCB (tmr_reset u) = OSIdleTaskTCB u" "OSSchedLockNestingCtr (tmr_reset u) = OSSchedLockNestingCtr u" "OSTickCtr (tmr_reset u) = OSTickCtr u" for u
    by (simp_all add: tmr_reset_def)
  have run: "OSInit lk s = Some (OS_ERR_NONE, s6)" unfolding 2(1) 3(1) 4(1) 5(1) 6(1) and_then_Some ..
  have "tmr_inv (tmr_reset s5) (\<lambda>_. [])" by (rule tmr_inv_reset [OF w5]) (use A in \<open>simp_all add: f5(12) f4(12) f3(12) 2(11) at_reset_def\<close>)
  then have tm: "tmr_inv s6 (\<lambda>_. [])" using tmr_inv_cong(1) [OF f6(12,13,14)] by simp
  have qi: "q_inv s6 {OSCfg_MsgPoolBasePtr lk..<OSCfg_MsgPoolBasePtr lk + 100} [OSCfg_MsgPoolBasePtr lk..<OSCfg_MsgPoolBasePtr lk + 100] (\<lambda>_. [])"
    using 2(3) q_inv_cong [of s6 s2] by (simp add: f6 tr f5 f4 f3)
  show ?thesis using run 6(2) qi tm by (intro exI [of _ s6]) (simp add: init_tasks_def init_R_def f6 tr f5 f4 f3 2)
qed

lemma OSStart_ok:
  assumes K: "kinv s R P W" and R: "R p \<noteq> []" and r: "OSRunning s = OS_STATE_OS_STOPPED"
  shows "\<exists>s'. OSStart s = Some (OS_ERR_FATAL_RETURN, s') \<and> sys s' R P W \<and> OSTCBCurPtr s' = top_task R \<and> OSRunning s' = OS_STATE_OS_RUNNING \<and>
    sw_frame (s\<lparr>OSRunning := OS_STATE_OS_RUNNING\<rparr>) s'"
proof -
  from rq.pick [OF kinvD(2) [OF K] R] obtain prio where h: "OS_PrioGetHighest s = Some prio" "unat prio = top_prio R" "rdy_first s (unat prio) = Some (top_task R)" by blast
  from h(3) obtain rl where rl: "OSRdyList s (unat prio) = Some rl" "RL_HeadPtr rl = top_task R" by (auto simp: rdy_first_def)
  from R have "hd (R p) \<in> set (R p)" by simp
  note top = rq.top_task_most_urgent(1) [where R = R, OF this]
  let ?s = "s\<lparr>OSPrioHighRdy := prio, OSPrioCur := prio, OSTCBHighRdyPtr := top_task R, OSTCBCurPtr := top_task R, OSRunning := OS_STATE_OS_RUNNING\<rparr>"
  have "top_prio R < OS_CFG_PRIO_MAX \<and> rdy_ok s (top_prio R) (R (top_prio R))" using kinvD(2) [OF K] top unfolding rdy_rel_def rdy_links_def by (metis list.set(1) empty_iff not_le)
  then obtain t where t: "tcbs s (top_task R) = Some t" "unat (TCB_Prio t) = top_prio R" using top unfolding rdy_ok_def by blast
  have "OSTCBCurPtr ?s \<in> dom (tcbs ?s)" "OSTCBHighRdyPtr ?s \<in> dom (tcbs ?s)" using t(1) by auto
  from OSTaskSwHook_ok [OF this] obtain s' where s': "OSTaskSwHook ?s = Some s'" "sw_frame ?s s'" "OSTCBCurPtr s' = top_task R" "OSPrioCur s' = prio" by auto
  have run: "OSStart s = Some (OS_ERR_FATAL_RETURN, s')" using r h(1) rl s'(1) by (simp add: OSStart_def)
  have "kinv ?s R P W" using K kinv_cong [of ?s s] by simp
  then have k: "kinv s' R P W" using sw_frame_kinv [OF s'(2)] by simp
  have "TCB_TaskState t = OS_TASK_STATE_RDY" using kinvD(7) [OF K t(1)] top t(2) by (simp add: task_ok_def)
  moreover have "TCB_Prio t = prio" using t(2) h(2) by (metis word_unat_eq_iff)
  moreover have "tcbs ?s (top_task R) = Some t" using t(1) by simp
  with s'(2) obtain t' where t': "tcbs s' (top_task R) = Some t'" "tcb_stat t' = tcb_stat t" by (rule sw_frame_tcb)
  moreover have "TCB_TaskState t' = TCB_TaskState t" "TCB_Prio t' = TCB_Prio t"
    using arg_cong [OF t'(2), of TCB_TaskState] arg_cong [OF t'(2), of TCB_Prio] by (simp_all add: tcb_stat_def)
  ultimately have "cur_rdy s'" using s'(3,4) by (simp add: cur_rdy_def)
  with k have "sys s' R P W" by (simp add: sys_def)
  moreover have "sw_frame (s\<lparr>OSRunning := OS_STATE_OS_RUNNING\<rparr>) s'" using s'(2) by (simp add: sw_frame_def os_less_sw_def)
  moreover have "OSRunning s' = OS_STATE_OS_RUNNING" using sw_frame_globals(12) [OF s'(2)] by simp
  ultimately show ?thesis using run s'(3) by blast
qed

text \<open>A started kernel is in a state of the invariant of runs.\<close>

lemma start_run:
  assumes B: "booting L (init_R lk s0) xs s" "dom (tcbs s) = L" and i: "OSIdleTaskTCB s = OSIdleTaskTCB s0" and lck: "OSSchedLockNestingCtr s = 0"
    and q: "q_inv s D F (\<lambda>_. [])" "dom (sems s) \<inter> dom (qs s) = {}" and p: "inj_on pdata L" "\<forall>x \<in> L. pdata x \<in> dom (pds s) \<and> pdata x \<noteq> NULL"
  shows "\<exists>s'. OSStart s = Some (OS_ERR_FATAL_RETURN, s') \<and> run_inv pdata s' \<and> OSTCBCurPtr s' = OSTickTaskTCB s0"
proof -
  let ?R = "init_R lk s0"
  have l: "live L s = s" using B(2) by (auto simp: live_def restrict_map_def fun_eq_iff domIff)
  have b: "kinv s ?R (\<lambda>_. []) (\<lambda>_. [])" "OSRunning s = OS_STATE_OS_STOPPED" "OSIntNestingCtr s = 0" using B(1) by (simp_all add: booting_def l)
  have "?R 10 \<noteq> []" by (simp add: init_R_def)
  from OSStart_ok [OF b(1) this b(2)] obtain s' where s': "OSStart s = Some (OS_ERR_FATAL_RETURN, s')" "sys s' ?R (\<lambda>_. []) (\<lambda>_. [])" "OSTCBCurPtr s' = top_task ?R"
    "sw_frame (s\<lparr>OSRunning := OS_STATE_OS_RUNNING\<rparr>) s'" by blast
  have "run_frame s (s\<lparr>OSRunning := OS_STATE_OS_RUNNING\<rparr>)" by (simp add: run_frame_def)
  then have f: "run_frame s s'" using run_frame_sw [OF s'(4)] by (rule run_frame_trans)
  have g: "OSIntNestingCtr s' = 0" "OSSchedLockNestingCtr s' = 0" "OSIdleTaskTCB s' = OSIdleTaskTCB s0" "dom (tcbs s') = L" "dom (pds s') = dom (pds s)" using f b(3) lck i B(2) by (simp_all add: run_frame_def)
  have k: "kinv s' ?R (\<lambda>_. []) (\<lambda>_. [])" using s'(2) by (simp add: sys_def)
  have "OSIdleTaskTCB s0 \<in> set (?R 31)" by (simp add: init_R_def)
  moreover have "rdy_ok s' 31 (?R 31)" using kinvD(2) [OF k] by (simp add: rdy_rel_def rdy_links_def)
  ultimately obtain t where t: "tcbs s' (OSIdleTaskTCB s0) = Some t" "unat (TCB_Prio t) = 31" unfolding rdy_ok_def by blast
  then have "TCB_TaskState t = OS_TASK_STATE_RDY" using kinvD(7) [OF k t(1)] by (simp add: task_ok_def init_R_def)
  moreover have "pend_tbl u = {}" if "tcbs s' x = Some u" for x u using kinvD(7) [OF k that] by (auto simp: task_ok_def pend_tbl_ok_def split: if_splits)
  ultimately have "run_core pdata s' ?R (\<lambda>_. []) (\<lambda>_. [])" using s'(2,3) g t(1) p by (simp add: run_core_def)
  moreover have "obj_inv s (\<lambda>_. [])" using q by (auto simp: obj_inv_def sem_inv_def q_wait_def)
  then have "obj_inv s' (\<lambda>_. [])" by (rule obj_inv_frame [OF f]) simp
  ultimately have "run_inv pdata s'" unfolding run_inv_def by blast
  moreover have "top_prio ?R = 10" unfolding top_prio_def by (rule Least_equality) (auto simp: init_R_def split: if_splits)
  then have "top_task ?R = OSTickTaskTCB s0" by (simp add: top_task_def init_R_def)
  ultimately show ?thesis using s'(1,3) by auto
qed

end
