(* ===== verification/Init_Props.thy ===== *)
theory Init_Props
  imports OS_Init OS_Example
begin

text \<open>The properties of the start of the kernel, with witnesses on a concrete state at reset.\<close>

definition reset_lk :: OS_LINK where
  "reset_lk = \<lparr>OSCfg_MsgPoolBasePtr = 100, OSCfg_IdleTaskStkBasePtr = 300, OSCfg_TickTaskStkBasePtr = 400, OSCfg_StatTaskStkBasePtr = 600,
     OSCfg_TmrTaskStkBasePtr = 800, OS_IdleTask_addr = 1000, OS_TickTask_addr = 1001, OS_StatTask_addr = 1002, OS_TmrTask_addr = 1003, OSStatTaskTCB_addr = 4\<rparr>"

definition reset_os :: os where
  "reset_os = os0\<lparr>tcbs := [1 \<mapsto> tcb0, 2 \<mapsto> tcb0\<lparr>TCB_TaskState := 9\<rparr>, 3 \<mapsto> tcb0, 4 \<mapsto> tcb0], pds := [11 \<mapsto> pd0, 12 \<mapsto> pd0, 13 \<mapsto> pd0, 14 \<mapsto> pd0],
     objs := [20 \<mapsto> obj0, 21 \<mapsto> obj0], sems := [20 \<mapsto> \<lparr>SEM_Ctr = 3, SEM_TS = 0\<rparr>], qs := [21 \<mapsto> mq0],
     msgs := (\<lambda>p. if p \<in> {100..<200} then Some msg0 else None),
     OSCfg_TmrWheel := (\<lambda>i. if i < 17 then Some \<lparr>TSPK_FirstPtr = 7, TSPK_NbrEntries = 7, TSPK_NbrEntriesMax = 7\<rparr> else None),
     OSIdleTaskTCB := 1, OSTickTaskTCB := 2, OSTmrTaskTCB := 3\<rparr>"

lemma reset_ok: "at_reset reset_lk reset_os" "linked_ok reset_lk reset_os"
proof -
  have m: "dom (msgs reset_os) = {100..<200}" by (auto simp: reset_os_def split: if_splits)
  show "at_reset reset_lk reset_os"
    unfolding at_reset_def m by (auto simp: reset_os_def reset_lk_def os0_def rl0_def spk0_def obj0_def mq0_def split: if_splits)
  show "linked_ok reset_lk reset_os" by (simp add: linked_ok_def init_tasks_def reset_os_def reset_lk_def)
qed

text \<open>C4. \<^verbatim>\<open>OSInit\<close> succeeds on any contents of the control blocks of its tasks: the idle, tick, statistics and timer task are
  ready at their priorities, nobody waits and the wheels are empty (the kernel invariant and the timer
  invariant), every message node is free, and the kernel is stopped and unlocked.\<close>

theorem OSInit_spec:
  assumes "at_reset lk s" "linked_ok lk s"
  shows "\<exists>s'. OSInit lk s = Some (OS_ERR_NONE, s') \<and> kinv (live (set (init_tasks lk s)) s') (init_R lk s) (\<lambda>_. []) (\<lambda>_. []) \<and>
    task_dbg_rel (live (set (init_tasks lk s)) s') (init_tasks lk s) \<and> tmr_inv s' (\<lambda>_. []) \<and>
    q_inv s' {OSCfg_MsgPoolBasePtr lk..<OSCfg_MsgPoolBasePtr lk + 100} [OSCfg_MsgPoolBasePtr lk..<OSCfg_MsgPoolBasePtr lk + 100] (\<lambda>_. []) \<and>
    OSRunning s' = OS_STATE_OS_STOPPED \<and> OSIntNestingCtr s' = 0 \<and> OSSchedLockNestingCtr s' = 0 \<and> OSTickCtr s' = 0"
  using OSInit_ok [OF assms] unfolding booting_def by blast

theorem OSInit_spec_witness:
  "\<exists>s'. OSInit reset_lk reset_os = Some (OS_ERR_NONE, s') \<and> kinv (live {1, 2, 3, 4} s') ((\<lambda>_. [])(31 := [1], 10 := [2], 11 := [4, 3])) (\<lambda>_. []) (\<lambda>_. [])"
proof -
  have "set (init_tasks reset_lk reset_os) = {1, 2, 3, 4}" "init_R reset_lk reset_os = (\<lambda>_. [])(31 := [1], 10 := [2], 11 := [4, 3])"
    by (auto simp: init_tasks_def init_R_def reset_lk_def reset_os_def)
  with OSInit_spec [OF reset_ok] show ?thesis by metis
qed



end
