(* ===== verification/OS_Int.thy ===== *)
theory OS_Int
  imports OS_TaskSync OS_TaskLife OS_Flag OS_Sem OS_Q OS_Tmr
begin

text \<open>
  The deferred posts of \<^verbatim>\<open>os_int.c\<close>, the code behind \<^verbatim>\<open>OS_CFG_ISR_POST_DEFERRED_EN\<close>: an interrupt handler leaves its
  post in a circular list, and the interrupt queue task at priority 0 posts it again at task level.  The
  variables of that configuration are a record of their own around the state of the kernel.
\<close>

record OS_INT_Q =
  INTQ_Type :: OS_OBJ_TYPE
  INTQ_NextPtr :: ptr
  INTQ_ObjPtr :: ptr
  INTQ_MsgPtr :: ptr
  INTQ_MsgSize :: OS_MSG_SIZE
  INTQ_Flags :: OS_FLAGS
  INTQ_Opt :: OS_OPT
  INTQ_TS :: CPU_TS

record os_int =
  intqs :: "ptr \<rightharpoonup> OS_INT_Q"
  OSIntQInPtr :: ptr
  OSIntQOutPtr :: ptr
  OSIntQNbrEntries :: OS_OBJ_QTY
  OSIntQNbrEntriesMax :: OS_OBJ_QTY
  OSIntQOvfCtr :: OS_OBJ_QTY
  OSIntQTaskTCB :: ptr
  OSIntQTaskTimeMax :: CPU_TS
  OSPrioSaved :: OS_PRIO
  kern :: os

definition OS_OBJ_TYPE_TASK_MSG :: OS_OBJ_TYPE where
  "OS_OBJ_TYPE_TASK_MSG = CPU_TYPE_CREATE (CHR ''T'') (CHR ''M'') (CHR ''S'') (CHR ''G'')"
definition OS_OBJ_TYPE_TASK_RESUME :: OS_OBJ_TYPE where
  "OS_OBJ_TYPE_TASK_RESUME = CPU_TYPE_CREATE (CHR ''T'') (CHR ''R'') (CHR ''E'') (CHR ''S'')"
definition OS_OBJ_TYPE_TASK_SIGNAL :: OS_OBJ_TYPE where
  "OS_OBJ_TYPE_TASK_SIGNAL = CPU_TYPE_CREATE (CHR ''T'') (CHR ''S'') (CHR ''I'') (CHR ''G'')"
definition OS_OBJ_TYPE_TASK_SUSPEND :: OS_OBJ_TYPE where
  "OS_OBJ_TYPE_TASK_SUSPEND = CPU_TYPE_CREATE (CHR ''T'') (CHR ''S'') (CHR ''U'') (CHR ''S'')"
definition OS_OBJ_TYPE_TICK :: OS_OBJ_TYPE where
  "OS_OBJ_TYPE_TICK = CPU_TYPE_CREATE (CHR ''T'') (CHR ''I'') (CHR ''C'') (CHR ''K'')"

definition intq_mod :: "ptr \<Rightarrow> (OS_INT_Q \<Rightarrow> OS_INT_Q) \<Rightarrow> os_int \<Rightarrow> os_int option" where
  "intq_mod p f s = map_option (\<lambda>h. s\<lparr>intqs := h\<rparr>) (mod_at p f (intqs s))"

text \<open>\<open>sz\<close> is \<^verbatim>\<open>OSCfg_IntQSize\<close>.\<close>

definition OS_IntQPost :: "OS_OBJ_QTY \<Rightarrow> OS_OBJ_TYPE \<Rightarrow> ptr \<Rightarrow> ptr \<Rightarrow> OS_MSG_SIZE \<Rightarrow> OS_FLAGS \<Rightarrow> OS_OPT \<Rightarrow> CPU_TS \<Rightarrow> os_int \<Rightarrow> (OS_ERR \<times> os_int) option" where
  "OS_IntQPost sz type p_obj p_void msg_size fl opt ts s =
     (if OSIntQNbrEntries s < sz then do {
        let s = s\<lparr>OSIntQNbrEntries := OSIntQNbrEntries s + 1\<rparr>;
        let s = (if OSIntQNbrEntriesMax s < OSIntQNbrEntries s then s\<lparr>OSIntQNbrEntriesMax := OSIntQNbrEntries s\<rparr> else s);
        s \<leftarrow> intq_mod (OSIntQInPtr s) (\<lambda>e. e\<lparr>INTQ_Type := type, INTQ_ObjPtr := p_obj, INTQ_MsgPtr := p_void, INTQ_MsgSize := msg_size,
               INTQ_Flags := fl, INTQ_Opt := opt, INTQ_TS := ts\<rparr>) s;
        e \<leftarrow> intqs s (OSIntQInPtr s);
        let s = s\<lparr>OSIntQInPtr := INTQ_NextPtr e\<rparr>;
        k \<leftarrow> rdy_mod 0 (\<lambda>l. l\<lparr>RL_NbrEntries := 1, RL_HeadPtr := OSIntQTaskTCB s, RL_TailPtr := OSIntQTaskTCB s\<rparr>) (kern s);
        k \<leftarrow> OS_PrioInsert 0 k;
        let s = s\<lparr>kern := k\<rparr>;
        let s = (if OSPrioCur k \<noteq> 0 then s\<lparr>OSPrioSaved := OSPrioCur k\<rparr> else s);
        Some (OS_ERR_NONE, s)
      } else Some (OS_ERR_INT_Q_FULL, s\<lparr>OSIntQOvfCtr := OSIntQOvfCtr s + 1\<rparr>))"

text \<open>The post the entry \<open>e\<close> stands for; error codes are dropped as in the code.\<close>

definition int_repost :: "OS_INT_Q \<Rightarrow> OS_PRIO \<Rightarrow> os \<Rightarrow> os option" where
  "int_repost e saved s =
     (if INTQ_Type e = OS_OBJ_TYPE_FLAG then do { (_, _, s) \<leftarrow> OS_FlagPost (INTQ_ObjPtr e) (INTQ_Flags e) (INTQ_Opt e) (INTQ_TS e) s; Some s }
      else if INTQ_Type e = OS_OBJ_TYPE_Q then do { (_, s) \<leftarrow> OS_QPost (INTQ_ObjPtr e) (INTQ_MsgPtr e) (INTQ_MsgSize e) (INTQ_Opt e) (INTQ_TS e) s; Some s }
      else if INTQ_Type e = OS_OBJ_TYPE_SEM then do { (_, _, s) \<leftarrow> OS_SemPost (INTQ_ObjPtr e) (INTQ_Opt e) (INTQ_TS e) s; Some s }
      else if INTQ_Type e = OS_OBJ_TYPE_TASK_MSG then do {
        (_, s) \<leftarrow> OS_TaskQPost (INTQ_ObjPtr e) (INTQ_MsgPtr e) (INTQ_MsgSize e) (INTQ_Opt e) (INTQ_TS e) s; Some s }
      else if INTQ_Type e = OS_OBJ_TYPE_TASK_RESUME then do { (_, s) \<leftarrow> OS_TaskResume (INTQ_ObjPtr e) s; Some s }
      else if INTQ_Type e = OS_OBJ_TYPE_TASK_SIGNAL then do { (_, _, s) \<leftarrow> OS_TaskSemPost (INTQ_ObjPtr e) (INTQ_Opt e) (INTQ_TS e) s; Some s }
      else if INTQ_Type e = OS_OBJ_TYPE_TASK_SUSPEND then do { (_, s) \<leftarrow> OS_TaskSuspend (INTQ_ObjPtr e) s; Some s }
      else if INTQ_Type e = OS_OBJ_TYPE_TICK then do {
        s \<leftarrow> OS_SchedRoundRobin (unat saved) s;
        (_, _, s) \<leftarrow> OS_TaskSemPost (OSTickTaskTCB s) OS_OPT_POST_NONE (INTQ_TS e) s;
        let s = s\<lparr>OSTmrUpdateCtr := OSTmrUpdateCtr s - 1\<rparr>;
        if OSTmrUpdateCtr s = 0 then do {
          let (ts, s) = OS_TS_GET (s\<lparr>OSTmrUpdateCtr := OSTmrUpdateCnt s\<rparr>);
          (_, _, s) \<leftarrow> OS_TaskSemPost (OSTmrTaskTCB s) OS_OPT_POST_NONE ts s;
          Some s
        } else Some s
      } else Some s)"

definition OS_IntQRePost :: "os_int \<Rightarrow> os_int option" where
  "OS_IntQRePost s = do {
     e \<leftarrow> intqs s (OSIntQOutPtr s);
     k \<leftarrow> int_repost e (OSPrioSaved s) (kern s);
     Some (s\<lparr>kern := k\<rparr>)
   }"

text \<open>One round of the inner loop of the interrupt queue task: the queue is empty and the task leaves the
  processor (\<open>True\<close>), or it handles the oldest entry.\<close>

definition int_q_off :: "os \<Rightarrow> os option" where
  "int_q_off k = do {
     k \<leftarrow> rdy_mod 0 (\<lambda>l. l\<lparr>RL_NbrEntries := 0, RL_HeadPtr := NULL, RL_TailPtr := NULL\<rparr>) k;
     k \<leftarrow> OS_PrioRemove 0 k;
     OSSched k
   }"

definition int_q_next :: "os_int \<Rightarrow> (OS_INT_Q \<times> os_int) option" where
  "int_q_next s = do {
     e \<leftarrow> intqs s (OSIntQOutPtr s);
     Some (e, s\<lparr>OSIntQOutPtr := INTQ_NextPtr e, OSIntQNbrEntries := OSIntQNbrEntries s - 1\<rparr>)
   }"

definition int_q_round :: "os_int \<Rightarrow> (bool \<times> os_int) option" where
  "int_q_round s =
     (if OSIntQNbrEntries s = 0 then do {
        k \<leftarrow> int_q_off (kern s);
        Some (True, s\<lparr>kern := k\<rparr>)
      } else do {
        let (ts_start, k) = OS_TS_GET (kern s);
        s \<leftarrow> OS_IntQRePost (s\<lparr>kern := k\<rparr>);
        let (ts, k) = OS_TS_GET (kern s);
        let s = s\<lparr>kern := k\<rparr>;
        let s = (if OSIntQTaskTimeMax s < ts - ts_start then s\<lparr>OSIntQTaskTimeMax := ts - ts_start\<rparr> else s);
        (_, s) \<leftarrow> int_q_next s;
        Some (False, s)
      })"

text \<open>The inner loop.\<close>

partial_function (option) OS_IntQTask_loop :: "os_int \<Rightarrow> os_int option" where
  "OS_IntQTask_loop s = do {
     (d, s) \<leftarrow> int_q_round s;
     if d then Some s else OS_IntQTask_loop s
   }"

primrec int_q_init_loop :: "nat \<Rightarrow> ptr \<Rightarrow> os_int \<Rightarrow> os_int option" where
  "int_q_init_loop 0 p s = Some s"
| "int_q_init_loop (Suc n) p s = do {
     s \<leftarrow> intq_mod p (\<lambda>e. e\<lparr>INTQ_Type := OS_OBJ_TYPE_NONE, INTQ_ObjPtr := NULL, INTQ_MsgPtr := NULL, INTQ_MsgSize := 0, INTQ_Flags := 0,
            INTQ_Opt := 0, INTQ_NextPtr := p + 1\<rparr>) s;
     int_q_init_loop n (p + 1) s
   }"

text \<open>\<open>base\<close>, \<open>sz\<close>, \<open>stk_base\<close>, \<open>stk_limit\<close>, \<open>stk_size\<close> and \<open>p_task\<close> are the configuration of the queue and of its task.\<close>

definition OS_IntQTaskInit :: "ptr \<Rightarrow> OS_OBJ_QTY \<Rightarrow> ptr \<Rightarrow> CPU_STK_SIZE \<Rightarrow> CPU_STK_SIZE \<Rightarrow> ptr \<Rightarrow> os_int \<Rightarrow> (OS_ERR \<times> os_int) option" where
  "OS_IntQTaskInit base sz stk_base stk_limit stk_size p_task s =
     (let s = s\<lparr>OSIntQOvfCtr := 0\<rparr> in
      if base = NULL then Some (OS_ERR_INT_Q, s)
      else if sz < 2 then Some (OS_ERR_INT_Q_SIZE, s)
      else do {
        s \<leftarrow> int_q_init_loop (unat sz) base (s\<lparr>OSIntQTaskTimeMax := 0\<rparr>);
        s \<leftarrow> intq_mod (base + unat sz - 1) (\<lambda>e. e\<lparr>INTQ_NextPtr := base\<rparr>) s;
        let s = s\<lparr>OSIntQInPtr := base, OSIntQOutPtr := base, OSIntQNbrEntries := 0, OSIntQNbrEntriesMax := 0\<rparr>;
        if stk_base = NULL then Some (OS_ERR_INT_Q_STK_INVALID, s)
        else if stk_size < OSCfg_StkSizeMin then Some (OS_ERR_INT_Q_STK_SIZE_INVALID, s)
        else do {
          (err, k) \<leftarrow> OSTaskCreate (OSIntQTaskTCB s) ''uC/OS-III ISR Queue Task'' p_task NULL 0 stk_base stk_limit stk_size 0 0 NULL
                        (OS_OPT_TASK_STK_CHK OR OS_OPT_TASK_STK_CLR) (kern s);
          Some (err, s\<lparr>kern := k\<rparr>)
        }
      })"

subsection \<open>The circular list as a queue\<close>

definition int_val :: "OS_INT_Q \<Rightarrow> OS_INT_Q" where
  "int_val e = e\<lparr>INTQ_NextPtr := NULL\<rparr>"

definition int_ring :: "ptr \<Rightarrow> nat \<Rightarrow> os_int \<Rightarrow> bool" where
  "int_ring base n s \<longleftrightarrow> (\<forall>i < n. \<exists>e. intqs s (base + i) = Some e \<and> INTQ_NextPtr e = base + Suc i mod n)"

definition int_rep :: "ptr \<Rightarrow> nat \<Rightarrow> os_int \<Rightarrow> OS_INT_Q list \<Rightarrow> bool" where
  "int_rep base n s xs \<longleftrightarrow> int_ring base n s \<and> length xs \<le> n \<and> unat (OSIntQNbrEntries s) = length xs \<and>
     (\<exists>o1 < n. OSIntQOutPtr s = base + o1 \<and> OSIntQInPtr s = base + (o1 + length xs) mod n \<and>
        (\<forall>i < length xs. map_option int_val (intqs s (base + (o1 + i) mod n)) = Some (xs ! i)))"

text \<open>Posting needs the ready list and the bitmap at priority 0.\<close>

definition prio0_ok :: "os \<Rightarrow> bool" where
  "prio0_ok k \<longleftrightarrow> OSRdyList k 0 \<noteq> None \<and> OSPrioTbl k \<noteq> []"

definition int_entry :: "OS_OBJ_TYPE \<Rightarrow> ptr \<Rightarrow> ptr \<Rightarrow> OS_MSG_SIZE \<Rightarrow> OS_FLAGS \<Rightarrow> OS_OPT \<Rightarrow> CPU_TS \<Rightarrow> OS_INT_Q" where
  "int_entry type p_obj p_void msg_size fl opt ts = \<lparr>INTQ_Type = type, INTQ_NextPtr = NULL, INTQ_ObjPtr = p_obj, INTQ_MsgPtr = p_void,
     INTQ_MsgSize = msg_size, INTQ_Flags = fl, INTQ_Opt = opt, INTQ_TS = ts\<rparr>"

lemma ring_ix:
  assumes "(a + i) mod n = (a + j) mod n" "i < n" "j < (n :: nat)"
  shows "i = j"
proof -
  from assms(1) obtain p q where "a + i + n * p = a + j + n * q" unfolding nat_mod_eq_iff by blast
  then have "i + n * p = j + n * q" by simp
  then have "i mod n = j mod n" unfolding nat_mod_eq_iff by blast
  with assms(2,3) show ?thesis by simp
qed

lemma OS_IntQPost_full:
  assumes "int_rep base (unat sz) s xs" "length xs = unat sz"
  shows "OS_IntQPost sz type p_obj p_void msg_size fl opt ts s = Some (OS_ERR_INT_Q_FULL, s\<lparr>OSIntQOvfCtr := OSIntQOvfCtr s + 1\<rparr>)"
  using assms by (simp add: OS_IntQPost_def int_rep_def word_less_nat_alt)

lemma OS_IntQPost_puts:
  assumes I: "int_rep base (unat sz) s xs" and room: "length xs < unat sz" and k: "prio0_ok (kern s)"
  shows "\<exists>s'. OS_IntQPost sz type p_obj p_void msg_size fl opt ts s = Some (OS_ERR_NONE, s') \<and>
    int_rep base (unat sz) s' (xs @ [int_entry type p_obj p_void msg_size fl opt ts]) \<and> prio0_ok (kern s') \<and>
    OSRdyList (kern s') 0 = Some \<lparr>RL_HeadPtr = OSIntQTaskTCB s, RL_TailPtr = OSIntQTaskTCB s, RL_NbrEntries = 1\<rparr> \<and> tbl_has (OSPrioTbl (kern s')) 0 \<and>
    OSPrioSaved s' = (if OSPrioCur (kern s) \<noteq> 0 then OSPrioCur (kern s) else OSPrioSaved s)"
proof -
  let ?n = "unat sz" let ?x = "int_entry type p_obj p_void msg_size fl opt ts"
  let ?f = "\<lambda>e. e\<lparr>INTQ_Type := type, INTQ_ObjPtr := p_obj, INTQ_MsgPtr := p_void, INTQ_MsgSize := msg_size, INTQ_Flags := fl, INTQ_Opt := opt, INTQ_TS := ts\<rparr>"
  from I obtain a where a: "int_ring base ?n s" "unat (OSIntQNbrEntries s) = length xs" "a < ?n" "OSIntQOutPtr s = base + a" "OSIntQInPtr s = base + (a + length xs) mod ?n"
    "\<And>i. i < length xs \<Longrightarrow> map_option int_val (intqs s (base + (a + i) mod ?n)) = Some (xs ! i)" by (auto simp: int_rep_def)
  let ?j = "(a + length xs) mod ?n"
  have j: "?j < ?n" using room by simp
  with a(1) obtain e where e: "intqs s (base + ?j) = Some e" "INTQ_NextPtr e = base + Suc ?j mod ?n" unfolding int_ring_def by blast
  from k obtain l where l: "OSRdyList (kern s) 0 = Some l" "OSPrioTbl (kern s) \<noteq> []" by (auto simp: prio0_ok_def)
  let ?k1 = "(kern s)\<lparr>OSRdyList := (OSRdyList (kern s))(0 \<mapsto> l\<lparr>RL_NbrEntries := 1, RL_HeadPtr := OSIntQTaskTCB s, RL_TailPtr := OSIntQTaskTCB s\<rparr>)\<rparr>"
  have "unat (0 :: OS_PRIO) div 32 < length (OSPrioTbl ?k1)" using l(2) by simp
  then obtain tbl where tbl: "OS_PrioInsert 0 ?k1 = Some (?k1\<lparr>OSPrioTbl := tbl\<rparr>)" "length tbl = length (OSPrioTbl ?k1)" "\<And>p. tbl_has tbl p \<longleftrightarrow> p = unat (0 :: OS_PRIO) \<or> tbl_has (OSPrioTbl ?k1) p"
    by (rule OS_PrioInsert_ok) blast
  let ?k = "?k1\<lparr>OSPrioTbl := tbl\<rparr>"
  let ?s = "s\<lparr>OSIntQNbrEntries := OSIntQNbrEntries s + 1, OSIntQNbrEntriesMax := (if OSIntQNbrEntriesMax s < OSIntQNbrEntries s + 1 then OSIntQNbrEntries s + 1 else OSIntQNbrEntriesMax s),
    intqs := (intqs s)(base + ?j \<mapsto> ?f e), OSIntQInPtr := INTQ_NextPtr e, kern := ?k, OSPrioSaved := (if OSPrioCur (kern s) \<noteq> 0 then OSPrioCur (kern s) else OSPrioSaved s)\<rparr>"
  have lt: "OSIntQNbrEntries s < sz" using a(2) room by (simp add: word_less_nat_alt)
  have "rdy_mod 0 (\<lambda>l. l\<lparr>RL_NbrEntries := 1, RL_HeadPtr := OSIntQTaskTCB s, RL_TailPtr := OSIntQTaskTCB s\<rparr>) (kern s) = Some ?k1" using l(1) by (simp add: rdy_mod_def mod_at_def)
  then have run: "OS_IntQPost sz type p_obj p_void msg_size fl opt ts s = Some (OS_ERR_NONE, ?s)"
    using lt e(1) tbl(1) a(5) by (simp add: OS_IntQPost_def intq_mod_def mod_at_def Let_def)
  have "unat sz < 2 ^ LENGTH(16)" by (rule unsigned_less)
  then have n1: "unat (OSIntQNbrEntries s + 1) = Suc (length xs)" using a(2) room by (intro unat_inc) simp_all
  have in': "INTQ_NextPtr e = base + (a + length (xs @ [?x])) mod ?n" using e(2) by (simp add: mod_Suc_eq)
  have "int_ring base ?n ?s" using a(1) e unfolding int_ring_def by auto
  moreover have "map_option int_val (intqs ?s (base + (a + i) mod ?n)) = Some ((xs @ [?x]) ! i)" if i: "i < length (xs @ [?x])" for i
  proof (cases "i < length xs")
    case True
    then have "(a + i) mod ?n \<noteq> ?j" using ring_ix [of a i ?n "length xs"] room by auto
    with a(6) [OF True] True show ?thesis by (simp add: nth_append)
  next
    case False
    then have "i = length xs" using i by simp
    then show ?thesis by (simp add: int_val_def int_entry_def)
  qed
  ultimately have "int_rep base ?n ?s (xs @ [?x])" using a(3,4) room n1 in' unfolding int_rep_def by (intro conjI exI [of _ a]) simp_all
  moreover have "prio0_ok (kern ?s)" using tbl(2) l(2) by (auto simp: prio0_ok_def)
  ultimately show ?thesis using run tbl(3) by (intro exI [of _ ?s]) simp
qed

lemma int_rep_kern [simp]: "int_rep base n (s\<lparr>kern := k\<rparr>) xs = int_rep base n s xs" "int_rep base n (s\<lparr>OSIntQTaskTimeMax := t\<rparr>) xs = int_rep base n s xs"
  by (simp_all add: int_rep_def int_ring_def)

lemma int_q_next_ok:
  assumes I: "int_rep base n s (x # xs)"
  shows "\<exists>e s'. intqs s (OSIntQOutPtr s) = Some e \<and> int_val e = x \<and> int_q_next s = Some (e, s') \<and> int_rep base n s' xs \<and> kern s' = kern s \<and> OSPrioSaved s' = OSPrioSaved s"
proof -
  from I obtain a where a: "int_ring base n s" "unat (OSIntQNbrEntries s) = Suc (length xs)" "a < n" "OSIntQOutPtr s = base + a" "OSIntQInPtr s = base + (a + Suc (length xs)) mod n"
    "\<And>i. i < Suc (length xs) \<Longrightarrow> map_option int_val (intqs s (base + (a + i) mod n)) = Some ((x # xs) ! i)" "Suc (length xs) \<le> n" by (auto simp: int_rep_def)
  from a(1,3) obtain e where e: "intqs s (base + a) = Some e" "INTQ_NextPtr e = base + Suc a mod n" unfolding int_ring_def by blast
  let ?s = "s\<lparr>OSIntQOutPtr := INTQ_NextPtr e, OSIntQNbrEntries := OSIntQNbrEntries s - 1\<rparr>"
  have x: "int_val e = x" using a(6) [of 0] a(3) e(1) by simp
  have n1: "unat (OSIntQNbrEntries s - 1) = length xs" using a(2) by (intro unat_dec) simp_all
  have m: "Suc a mod n < n" "(Suc a mod n + i) mod n = (a + Suc i) mod n" for i using a(3) by (simp_all add: mod_add_left_eq)
  have "map_option int_val (intqs ?s (base + (Suc a mod n + i) mod n)) = Some (xs ! i)" if "i < length xs" for i using a(6) [of "Suc i"] that unfolding m(2) by simp
  moreover have "int_ring base n ?s" using a(1) by (simp add: int_ring_def)
  ultimately have "int_rep base n ?s xs" using a(5,7) n1 e(2) m unfolding int_rep_def by (intro conjI exI [of _ "Suc a mod n"]) simp_all
  moreover have "int_q_next s = Some (e, ?s)" using a(4) e(1) by (simp add: int_q_next_def)
  ultimately show ?thesis using e(1) a(4) x by auto
qed

subsection \<open>The interrupt queue task\<close>

text \<open>The posts of a list of entries, in order, with the two readings of the clock around each.\<close>

primrec replay :: "OS_INT_Q list \<Rightarrow> OS_PRIO \<Rightarrow> os \<Rightarrow> os option" where
  "replay [] p k = Some k"
| "replay (e # es) p k = int_repost e p (snd (OS_TS_GET k)) \<bind> (\<lambda>k. replay es p (snd (OS_TS_GET k)))"

lemma int_repost_val: "int_repost (int_val e) p = int_repost e p"
  by (rule ext) (simp add: int_repost_def int_val_def)

lemma int_q_round_next:
  assumes I: "int_rep base n s (x # xs)"
  shows "case int_repost x (OSPrioSaved s) (snd (OS_TS_GET (kern s))) of None \<Rightarrow> int_q_round s = None
    | Some k \<Rightarrow> \<exists>s'. int_q_round s = Some (False, s') \<and> int_rep base n s' xs \<and> kern s' = snd (OS_TS_GET k) \<and> OSPrioSaved s' = OSPrioSaved s"
proof -
  have nz: "OSIntQNbrEntries s \<noteq> 0" using I by (auto simp: int_rep_def)
  from int_q_next_ok [OF I] obtain e where e: "intqs s (OSIntQOutPtr s) = Some e" "int_val e = x" by blast
  have rp: "int_repost e = int_repost x" using int_repost_val [of e] e(2) by (auto simp: fun_eq_iff)
  show ?thesis
  proof (cases "int_repost x (OSPrioSaved s) (snd (OS_TS_GET (kern s)))")
    case None
    then show ?thesis using nz e(1) rp by (simp add: int_q_round_def OS_IntQRePost_def case_prod_unfold Let_def)
  next
    case (Some k)
    define d where "d = fst (OS_TS_GET k) - fst (OS_TS_GET (kern s))"
    define u where "u = (if OSIntQTaskTimeMax s < d then s\<lparr>kern := snd (OS_TS_GET k), OSIntQTaskTimeMax := d\<rparr> else s\<lparr>kern := snd (OS_TS_GET k)\<rparr>)"
    have "int_rep base n u (x # xs)" using I by (simp add: u_def)
    from int_q_next_ok [OF this] obtain e' s' where s': "int_q_next u = Some (e', s')" "int_rep base n s' xs" "kern s' = kern u" "OSPrioSaved s' = OSPrioSaved u" by blast
    have "int_q_round s = Some (False, s')" using nz e(1) rp Some s'(1)
      by (simp add: int_q_round_def OS_IntQRePost_def case_prod_unfold Let_def u_def d_def split: if_splits)
    then show ?thesis using Some s'(2-4) by (simp add: u_def)
  qed
qed

lemma OS_IntQTask_ok:
  "int_rep base n s xs \<Longrightarrow> map_option kern (OS_IntQTask_loop s) = replay xs (OSPrioSaved s) (kern s) \<bind> int_q_off \<and>
    (\<forall>s'. OS_IntQTask_loop s = Some s' \<longrightarrow> int_rep base n s' [])"
proof (induction xs arbitrary: s)
  case Nil
  then have z: "OSIntQNbrEntries s = 0" by (simp add: int_rep_def unat_eq_0)
  have "OS_IntQTask_loop s = map_option (\<lambda>k. s\<lparr>kern := k\<rparr>) (int_q_off (kern s))"
    using z by (subst OS_IntQTask_loop.simps) (cases "int_q_off (kern s)"; simp add: int_q_round_def)
  then show ?case using Nil by (auto simp: option.map_comp comp_def option.map_ident)
next
  case (Cons x xs)
  note r = int_q_round_next [OF Cons.prems]
  show ?case
  proof (cases "int_repost x (OSPrioSaved s) (snd (OS_TS_GET (kern s)))")
    case None
    with r have "OS_IntQTask_loop s = None" by (subst OS_IntQTask_loop.simps) simp
    then show ?thesis using None by simp
  next
    case (Some k)
    with r obtain s1 where s1: "int_q_round s = Some (False, s1)" "int_rep base n s1 xs" "kern s1 = snd (OS_TS_GET k)" "OSPrioSaved s1 = OSPrioSaved s" by auto
    have "OS_IntQTask_loop s = OS_IntQTask_loop s1" using s1(1) by (subst OS_IntQTask_loop.simps) simp
    then show ?thesis using Cons.IH [OF s1(2)] s1(3,4) Some by simp
  qed
qed

subsection \<open>The list as a bounded FIFO\<close>

type_synonym int_post = "OS_OBJ_TYPE \<times> ptr \<times> ptr \<times> OS_MSG_SIZE \<times> OS_FLAGS \<times> OS_OPT \<times> CPU_TS"

definition post_entry :: "int_post \<Rightarrow> OS_INT_Q" where
  "post_entry m = (case m of (type, p_obj, p_void, msg_size, fl, opt, ts) \<Rightarrow> int_entry type p_obj p_void msg_size fl opt ts)"

definition entry_post :: "OS_INT_Q \<Rightarrow> int_post" where
  "entry_post e = (INTQ_Type e, INTQ_ObjPtr e, INTQ_MsgPtr e, INTQ_MsgSize e, INTQ_Flags e, INTQ_Opt e, INTQ_TS e)"

text \<open>The state goes with the size of the queue.\<close>

definition int_fifo :: "os_int \<times> OS_OBJ_QTY \<Rightarrow> int_post list \<Rightarrow> nat \<Rightarrow> bool" where
  "int_fifo c ms k \<longleftrightarrow> (\<exists>base. int_rep base (unat (snd c)) (fst c) (map post_entry ms)) \<and> length ms + k = unat (snd c) \<and> prio0_ok (kern (fst c))"

definition int_put :: "int_post \<Rightarrow> os_int \<times> OS_OBJ_QTY \<Rightarrow> (os_int \<times> OS_OBJ_QTY) option" where
  "int_put m c = (case m of (type, p_obj, p_void, msg_size, fl, opt, ts) \<Rightarrow>
     do { (err, s) \<leftarrow> OS_IntQPost (snd c) type p_obj p_void msg_size fl opt ts (fst c); if err = OS_ERR_NONE then Some (s, snd c) else None })"

definition int_get :: "os_int \<times> OS_OBJ_QTY \<Rightarrow> (int_post \<times> os_int \<times> OS_OBJ_QTY) option" where
  "int_get c = do { (e, s) \<leftarrow> int_q_next (fst c); Some (entry_post e, s, snd c) }"

interpretation intq: bounded_fifo int_fifo int_put int_get
proof unfold_locales
  fix c ms k and m :: int_post
  assume r: "int_fifo c ms (Suc k)"
  obtain type p_obj p_void msg_size fl opt ts where m: "m = (type, p_obj, p_void, msg_size, fl, opt, ts)" by (cases m)
  from r obtain base where b: "int_rep base (unat (snd c)) (fst c) (map post_entry ms)" "length (map post_entry ms) < unat (snd c)" "prio0_ok (kern (fst c))" by (auto simp: int_fifo_def)
  from OS_IntQPost_puts [OF b, of type p_obj p_void msg_size fl opt ts] obtain s' where
    s': "OS_IntQPost (snd c) type p_obj p_void msg_size fl opt ts (fst c) = Some (OS_ERR_NONE, s')" "int_rep base (unat (snd c)) s' (map post_entry (ms @ [m]))" "prio0_ok (kern s')"
    by (auto simp: m post_entry_def)
  then show "\<exists>c'. int_put m c = Some c' \<and> int_fifo c' (ms @ [m]) k" using r m
    by (intro exI [of _ "(s', snd c)"]) (auto simp: int_put_def int_fifo_def)
next
  fix c m ms k
  assume r: "int_fifo c (m # ms) k"
  then obtain base where b: "int_rep base (unat (snd c)) (fst c) (post_entry m # map post_entry ms)" by (auto simp: int_fifo_def)
  from int_q_next_ok [OF b] obtain e s' where s': "int_val e = post_entry m" "int_q_next (fst c) = Some (e, s')" "int_rep base (unat (snd c)) s' (map post_entry ms)" "kern s' = kern (fst c)" by blast
  have "entry_post (int_val e) = entry_post e" "entry_post (post_entry m) = m" by (auto simp: entry_post_def int_val_def post_entry_def int_entry_def split: prod.splits)
  then have "entry_post e = m" using s'(1) by simp
  then show "\<exists>c'. int_get c = Some (m, c') \<and> int_fifo c' ms (Suc k)" using r s'(2-4) by (auto simp: int_get_def int_fifo_def)
qed

subsection \<open>Initialisation\<close>

lemma int_q_init_loop_ok:
  assumes "{p..<p + n} \<subseteq> dom (intqs s)"
  shows "\<exists>h. int_q_init_loop n p s = Some (s\<lparr>intqs := h\<rparr>) \<and> dom h = dom (intqs s) \<and> (\<forall>i < n. \<exists>e. h (p + i) = Some e \<and> INTQ_NextPtr e = p + Suc i) \<and>
    (\<forall>q. q < p \<longrightarrow> h q = intqs s q)"
  using assms
proof (induction n arbitrary: p s)
  case (Suc n)
  have "p \<in> dom (intqs s)" by (rule subsetD [OF Suc.prems]) simp
  then obtain e where e: "intqs s p = Some e" by blast
  let ?e = "e\<lparr>INTQ_Type := OS_OBJ_TYPE_NONE, INTQ_ObjPtr := NULL, INTQ_MsgPtr := NULL, INTQ_MsgSize := 0, INTQ_Flags := 0, INTQ_Opt := 0, INTQ_NextPtr := p + 1\<rparr>"
  let ?s = "s\<lparr>intqs := (intqs s)(p \<mapsto> ?e)\<rparr>"
  have "{p + 1..<p + 1 + n} \<subseteq> dom (intqs ?s)" using Suc.prems by (auto simp: subset_iff domIff)
  from Suc.IH [OF this] obtain h where h: "int_q_init_loop n (p + 1) ?s = Some (?s\<lparr>intqs := h\<rparr>)" "dom h = dom (intqs ?s)"
    "\<forall>i < n. \<exists>e. h (p + 1 + i) = Some e \<and> INTQ_NextPtr e = p + 1 + Suc i" "\<forall>q. q < p + 1 \<longrightarrow> h q = intqs ?s q" by blast
  have "\<exists>e. h (p + i) = Some e \<and> INTQ_NextPtr e = p + Suc i" if "i < Suc n" for i
    using h(3,4) that by (cases i) (auto simp: add.assoc)
  then show ?case using h e by (intro exI [of _ h]) (auto simp: intq_mod_def mod_at_def)
next
  case (0 p s)
  then show ?case by (intro exI [of _ "intqs s"]) simp
qed

lemma int_init_rep:
  assumes b: "base \<noteq> NULL" "(sz :: OS_OBJ_QTY) \<ge> 2" "{base..<base + unat sz} \<subseteq> dom (intqs s)"
  shows "\<exists>h. int_q_init_loop (unat sz) base s \<bind> intq_mod (base + unat sz - 1) (\<lambda>e. e\<lparr>INTQ_NextPtr := base\<rparr>) = Some (s\<lparr>intqs := h\<rparr>) \<and>
    int_rep base (unat sz) (s\<lparr>intqs := h, OSIntQInPtr := base, OSIntQOutPtr := base, OSIntQNbrEntries := 0, OSIntQNbrEntriesMax := 0\<rparr>) []"
proof -
  let ?n = "unat sz"
  have n: "2 \<le> ?n" using b(2) by (simp add: word_le_nat_alt)
  from int_q_init_loop_ok [OF b(3)] obtain h where h: "int_q_init_loop ?n base s = Some (s\<lparr>intqs := h\<rparr>)" "\<And>i. i < ?n \<Longrightarrow> \<exists>e. h (base + i) = Some e \<and> INTQ_NextPtr e = base + Suc i" by blast
  have l: "base + ?n - 1 = base + (?n - 1)" using n by simp
  obtain e where e: "h (base + (?n - 1)) = Some e" using h(2) [of "?n - 1"] n by auto
  let ?h = "h(base + (?n - 1) \<mapsto> e\<lparr>INTQ_NextPtr := base\<rparr>)"
  have "\<exists>e. ?h (base + i) = Some e \<and> INTQ_NextPtr e = base + Suc i mod ?n" if "i < ?n" for i
  proof (cases "i = ?n - 1")
    case True
    then have "Suc i mod ?n = 0" using n by simp
    with True show ?thesis by simp
  next
    case False
    then have "Suc i < ?n" "base + i \<noteq> base + (?n - 1)" using that by simp_all
    then show ?thesis using h(2) [OF that] by (simp del: add_left_cancel)
  qed
  then have "int_rep base ?n (s\<lparr>intqs := ?h, OSIntQInPtr := base, OSIntQOutPtr := base, OSIntQNbrEntries := 0, OSIntQNbrEntriesMax := 0\<rparr>) []"
    using n by (auto simp: int_rep_def int_ring_def)
  moreover have "int_q_init_loop ?n base s \<bind> intq_mod (base + ?n - 1) (\<lambda>e. e\<lparr>INTQ_NextPtr := base\<rparr>) = Some (s\<lparr>intqs := ?h\<rparr>)"
    unfolding l using h(1) e by (simp add: intq_mod_def mod_at_def)
  ultimately show ?thesis by blast
qed

end
