(* ===== verification/Int_Props.thy ===== *)
theory Int_Props
  imports OS_Int OS_Example
begin

text \<open>The properties of the deferred posts, with witnesses on a queue of two entries around the state \<open>demo\<close>.\<close>

definition int_demo :: os_int where
  "int_demo = \<lparr>intqs = [40 \<mapsto> (int_entry 0 0 0 0 0 0 0)\<lparr>INTQ_NextPtr := 41\<rparr>, 41 \<mapsto> (int_entry 0 0 0 0 0 0 0)\<lparr>INTQ_NextPtr := 40\<rparr>], OSIntQInPtr = 41, OSIntQOutPtr = 41,
     OSIntQNbrEntries = 0, OSIntQNbrEntriesMax = 1, OSIntQOvfCtr = 0, OSIntQTaskTCB = 9, OSIntQTaskTimeMax = 0, OSPrioSaved = 5, kern = demo\<rparr>"

lemma int_demo_rep: "int_rep 40 2 int_demo []" "prio0_ok (kern int_demo)"
proof -
  have "int_ring 40 2 int_demo" by (auto simp: int_ring_def int_demo_def int_entry_def less_2_cases_iff)
  then show "int_rep 40 2 int_demo []" unfolding int_rep_def by (intro conjI exI [of _ 1]) (simp_all add: int_demo_def)
  show "prio0_ok (kern int_demo)" by (simp add: prio0_ok_def int_demo_def demo_def os0_def)
qed

text \<open>C27. A post from an interrupt becomes the last entry of the queue and makes the interrupt queue task ready at
  priority 0; when the queue is full the post is refused and only the overflow counter changes.\<close>

theorem OS_IntQPost_spec:
  assumes "int_rep base (unat sz) s xs" "prio0_ok (kern s)"
  shows "\<exists>err s'. OS_IntQPost sz type p_obj p_void msg_size fl opt ts s = Some (err, s') \<and>
    (if length xs = unat sz then err = OS_ERR_INT_Q_FULL \<and> s' = s\<lparr>OSIntQOvfCtr := OSIntQOvfCtr s + 1\<rparr>
     else err = OS_ERR_NONE \<and> int_rep base (unat sz) s' (xs @ [int_entry type p_obj p_void msg_size fl opt ts]) \<and> tbl_has (OSPrioTbl (kern s')) 0 \<and>
       OSRdyList (kern s') 0 = Some \<lparr>RL_HeadPtr = OSIntQTaskTCB s, RL_TailPtr = OSIntQTaskTCB s, RL_NbrEntries = 1\<rparr> \<and>
       OSPrioSaved s' = (if OSPrioCur (kern s) \<noteq> 0 then OSPrioCur (kern s) else OSPrioSaved s))"
proof (cases "length xs = unat sz")
  case True
  then show ?thesis using OS_IntQPost_full [OF assms(1) True] by auto
next
  case False
  then have "length xs < unat sz" using assms(1) by (simp add: int_rep_def)
  from OS_IntQPost_puts [OF assms(1) this assms(2), of type p_obj p_void msg_size fl opt ts] show ?thesis using False by auto
qed

theorem OS_IntQPost_spec_witness:
  "\<exists>s'. OS_IntQPost 2 OS_OBJ_TYPE_SEM 21 0 0 0 0 7 int_demo = Some (OS_ERR_NONE, s') \<and> int_rep 40 2 s' [int_entry OS_OBJ_TYPE_SEM 21 0 0 0 0 7]"
  using OS_IntQPost_spec [of 40 2 int_demo "[]" OS_OBJ_TYPE_SEM 21 0 0 0 0 7] int_demo_rep by auto



text \<open>The initialisation of the queue establishes an empty queue.\<close>

lemma OS_IntQTaskInit_empty:
  assumes "base \<noteq> NULL" "sz \<ge> 2" "{base..<base + unat sz} \<subseteq> dom (intqs s)"
    and "OS_IntQTaskInit base sz stk_base stk_limit stk_size p_task s = Some (err, s')"
  shows "int_rep base (unat sz) s' []"
proof -
  let ?s = "s\<lparr>OSIntQOvfCtr := 0, OSIntQTaskTimeMax := 0\<rparr>"
  have "{base..<base + unat sz} \<subseteq> dom (intqs ?s)" using assms(3) by simp
  from int_init_rep [OF assms(1,2) this] obtain h where
    h: "int_q_init_loop (unat sz) base ?s \<bind> intq_mod (base + unat sz - 1) (\<lambda>e. e\<lparr>INTQ_NextPtr := base\<rparr>) = Some (?s\<lparr>intqs := h\<rparr>)"
      "int_rep base (unat sz) (?s\<lparr>intqs := h, OSIntQInPtr := base, OSIntQOutPtr := base, OSIntQNbrEntries := 0, OSIntQNbrEntriesMax := 0\<rparr>) []" by blast
  from h(1) obtain u where u: "int_q_init_loop (unat sz) base ?s = Some u" "intq_mod (base + unat sz - 1) (\<lambda>e. e\<lparr>INTQ_NextPtr := base\<rparr>) u = Some (?s\<lparr>intqs := h\<rparr>)"
    by (auto simp: bind_eq_Some_conv)
  have "\<not> sz < 2" using assms(2) by simp
  then have "s'\<lparr>kern := kern s\<rparr> = ?s\<lparr>intqs := h, OSIntQInPtr := base, OSIntQOutPtr := base, OSIntQNbrEntries := 0, OSIntQNbrEntriesMax := 0, kern := kern s\<rparr>"
    using assms(1,4) u by (auto simp: OS_IntQTaskInit_def Let_def bind_eq_Some_conv split: if_splits)
  moreover have "int_rep base (unat sz) (s'\<lparr>kern := kern s\<rparr>) [] = int_rep base (unat sz) s' []" by simp
  ultimately show ?thesis using h(2) by simp
qed

end
