(* ===== verification/Spec2Isabelle.thy ===== *)
theory Spec2Isabelle
  imports Kernel_Props Object_Props Service_Props Task_Props Flag_Props Tmr_Props Multi_Props Run_Props Init_Props Int_Props
begin

text \<open>
  A verification of the real-time kernel uC/OS-III as this repository configures it for its
  Windows host.

  \<^bold>\<open>The program.\<close>  \<^verbatim>\<open>src/ucosTest/Source\<close> is a preemptive multitasking kernel.  A bitmap of priorities
  (\<^verbatim>\<open>os_prio.c\<close>, on the bit counting of \<^verbatim>\<open>uC-CPU/cpu_core.c\<close>) and one doubly linked list of ready tasks
  per priority (\<^verbatim>\<open>os_core.c\<close>) say which task runs; a task that waits for an object is on the
  priority-ordered pend list of the object (\<^verbatim>\<open>os_core.c\<close>), and a task that waits for a time is on a
  spoke of the tick wheel (\<^verbatim>\<open>os_tick.c\<close>).  The blocking and waking routines of \<^verbatim>\<open>os_core.c\<close> move tasks
  between these lists, the scheduler of \<^verbatim>\<open>os_core.c\<close> with the context switch of \<^verbatim>\<open>PORTS/os_cpu_c.c\<close>
  runs the first task of the most urgent ready list, and the kernel objects (\<^verbatim>\<open>os_sem.c\<close>, \<^verbatim>\<open>os_q.c\<close> with
  \<^verbatim>\<open>os_msg.c\<close>, \<^verbatim>\<open>os_mutex.c\<close>, \<^verbatim>\<open>os_flag.c\<close>), the delays of \<^verbatim>\<open>os_time.c\<close>, the timers of \<^verbatim>\<open>os_tmr.c\<close> and the task services of \<^verbatim>\<open>os_task.c\<close> are built on them.

  \<^bold>\<open>The model.\<close>  The C structures are records with the C field names behind a prefix; every
  structure type has a partial memory indexed by address (a natural number, 0 is the null
  pointer), and the global variables are the other fields of the state record \<open>os\<close>
  (\<open>OS_Types\<close>).  Machine integers are words of their C width.  Every routine is a function on that
  state in the option monad: \<open>None\<close> is undefined behaviour (an access through a bad pointer) or a
  loop that does not end, so a theorem that gives \<open>Some\<close> shows that the code returns and never
  dereferences a bad pointer.  Error codes written through \<open>p_err\<close> are results.  A call that may
  block is two definitions, the part up to the context switch and the part after it
  (\<open>\<dots>_resume\<close>).  The code runs these routines with interrupts disabled or the scheduler locked, so
  each is one atomic step.  The free-running timer behind \<^verbatim>\<open>OS_TS_GET\<close> is a stream of values
  (\<open>TmrRd\<close>) read in order; nothing is assumed of it.

  \<^bold>\<open>Theories.\<close>
  \<^item> \<open>Prelude\<close>: lists with defaults at their ends, memories, doubly linked lists (\<open>linked\<close>) and what
    insertion and removal do to them, word arithmetic.
  \<^item> \<open>OS_Types\<close>: \<^verbatim>\<open>os_type.h\<close> and the data of \<^verbatim>\<open>os.h\<close> under \<^verbatim>\<open>app/os_cfg.h\<close>.
  \<^item> \<open>CPU_Lib\<close>: the leading and trailing zero counts of \<^verbatim>\<open>cpu_core.c\<close>.
  \<^item> \<open>OS_Prio\<close>, \<open>OS_RdyList\<close>: the bitmap and the ready lists; \<open>rdy_rel s R\<close> relates the state to a list
    of tasks per priority, and every routine refines an operation on those lists.
  \<^item> \<open>OS_PendList\<close>: the pend lists; \<open>pend_rel s P\<close> relates the state to a list of entries per object,
    ordered by priority.
  \<^item> \<open>OS_Tick\<close>: the tick wheel; \<open>tick_rel s W\<close> relates the state to a list of tasks per spoke,
    ordered by the remaining time.
  \<^item> \<open>OS_Core\<close>, \<open>OS_Inv\<close>: the routines that block and wake tasks and the kernel invariant
    \<open>kinv s R P W\<close>, which joins the three relations with the state of every task (a ready task is on
    exactly its ready list, a pending task owns exactly its entries, a task with a time-out is on the
    wheel); every routine keeps it and changes nothing else (\<open>kframe\<close>).
  \<^item> \<open>OS_Sched\<close>: the scheduler, its lock, interrupt entry and exit, round robin.
  \<^item> \<open>OS_Obj\<close>: what the objects share, the debug lists (locale \<open>dbg_list\<close>, interpreted for each
    kind of object), the wake-up operations (locale \<open>wake_op\<close>, interpreted for posting, aborting and
    deleting) and the loops over them; \<open>sys\<close> is the invariant between two kernel calls.
  \<^item> \<open>OS_Sem\<close>, \<open>OS_Msg\<close>, \<open>OS_Q\<close>: semaphores, the message pool with its queues (locale
    \<open>bounded_fifo\<close>), and the queue objects.
  \<^item> \<open>OS_Flag\<close>: event flag groups; \<open>flag_inv\<close> says that no task waits for flags that are there.
  \<^item> \<open>OS_Time\<close>: the update of the tick wheel at each tick and the services of \<^verbatim>\<open>os_time.c\<close>.
  \<^item> \<open>OS_Mem\<close>: memory partitions (locale \<open>allocator\<close>).
  \<^item> \<open>OS_Reprio\<close>: changing the priority of a task wherever it is queued, shared by mutexes and by
    \<^verbatim>\<open>OSTaskChangePrio\<close>.
  \<^item> \<open>OS_Mutex\<close>: mutexes with priority inheritance; \<open>no_inversion\<close> says that the owner is at least as urgent as
    every task that waits.
  \<^item> \<open>OS_Task\<close>, \<open>OS_TaskLife\<close>, \<open>OS_TaskSync\<close>: the task services of \<^verbatim>\<open>os_task.c\<close>: suspending, resuming, changing
    the priority; creating and deleting; the message queue and the semaphore each task has, and the tick
    interrupt that signals them.
  \<^item> \<open>OS_Tmr\<close>: software timers; \<open>tmr_inv s V\<close> relates the timer wheel to a list of running timers per
    spoke, ordered by the remaining time.  The functions that timers call are a parameter.
  \<^item> \<open>OS_PendMulti\<close>: pending on several semaphores and queues at once.
  \<^item> \<open>OS_Run\<close>: the kernel as a transition system (\<open>kstep\<close>) of posts, pends, delays and ticks in any order,
    and the invariant \<open>run_inv\<close> of its runs.
  \<^item> \<open>OS_Init\<close>: \<^verbatim>\<open>OSInit\<close> and \<^verbatim>\<open>OSStart\<close>, which lead from the reset of the static data (\<open>at_reset\<close>) to that
    invariant.
  \<^item> \<open>OS_Int\<close>: the deferred interrupt posts of \<^verbatim>\<open>os_int.c\<close> (code that this configuration leaves out), a circular list
    that is another instance of \<open>bounded_fifo\<close>, and the task that replays it.
  \<^item> \<open>OS_Example\<close>: a concrete state that satisfies the invariants.
  \<^item> \<open>Kernel_Props\<close>, \<open>Object_Props\<close>, \<open>Service_Props\<close>, \<open>Task_Props\<close>, \<open>Flag_Props\<close>, \<open>Tmr_Props\<close>, \<open>Multi_Props\<close>,
    \<open>Run_Props\<close>, \<open>Init_Props\<close>, \<open>Int_Props\<close>: the properties.

  \<^bold>\<open>Bounds.\<close>  There is no fuel: bounded loops are primitive recursive over their count and the others
  are partial functions whose termination the theorems prove.  Lists that the code counts in 16
  bits have fewer than 65536 elements (part of the invariants), which the number of task control
  blocks and nodes guarantees.

  \<^bold>\<open>Not modelled.\<close>  The Win32 threads and events of the port and of \<^verbatim>\<open>cpu_c.c\<close> (library code outside the
  repository), the CPU usage figures of the statistics task and the debugger constants, the demonstration
  programs and the vendored network stack.  The stacks of the tasks, which belong to the threads of the port, and with them
  \<^verbatim>\<open>OSTaskStkChk\<close>.  The string and memory library is still to be modelled.
\<close>

end
